(* ===== verification/Prelude.thy ===== *)
theory Prelude
  imports Complex_Main "HOL-Library.Product_Lexorder" "HOL-Library.List_Lexorder" "HOL-Library.Char_ord"
begin

text \<open>
  Shared vocabulary of the development: errors as values and their sequencing, Python values
  (\<open>pyobj\<close>), strings, instants and time spans, rounding, database tables as lists of rows, and
  the generic lemmas the components use.

  Conventions. An aware \<open>datetime\<close> is its number of microseconds since the epoch, and a
  \<open>timedelta\<close> its number of microseconds: Python stores exactly these, so comparison,
  addition and subtraction are exact (the year 1 to 9999 range of \<open>datetime\<close> is not modelled).
  A float that holds seconds is the exact number of microseconds it stands for. A \<open>uuid\<close> is a
  natural number below \<open>2 ^ 128\<close>: the order of uuids and of their hexadecimal texts agree.
  Strings are ASCII. A dictionary is an association list in canonical form (distinct keys in
  sorted order), so equality of dictionaries is equality of the lists.
\<close>

named_theorems result_simps \<open>evaluation and inversion of the error monad\<close>

section \<open>Errors as values\<close>

text \<open>
  \<open>ApiError\<close> is \<open>app/core/errors/api_error.py\<close> with its status and code (messages are constant
  text per code and are left out). \<open>DomainError\<close> stands for the exception classes that carry only
  a code (\<open>RetentionDeleteError\<close>, \<open>ArchiveLifecycleError\<close>); the others are Python's,
  \<open>zoneinfo\<close>'s and the database layer's.
\<close>

datatype error =
    ApiError (err_status: int) (err_code: string)
  | DomainError (err_code: string)
  | ValueError
  | AssertionError
  | IntegrityError
  | ZoneInfoNotFoundError

type_synonym 'a result = "error + 'a"

definition and_then :: "'a result \<Rightarrow> ('a \<Rightarrow> 'b result) \<Rightarrow> 'b result" where
  "and_then m f = (case m of Inl e \<Rightarrow> Inl e | Inr x \<Rightarrow> f x)"

definition require :: "bool \<Rightarrow> error \<Rightarrow> unit result" where
  "require b e = (if b then Inr () else Inl e)"

fun map_result :: "('a \<Rightarrow> 'b result) \<Rightarrow> 'a list \<Rightarrow> 'b list result" where
  "map_result f [] = Inr []"
| "map_result f (x # xs) =
     and_then (f x) (\<lambda>y. and_then (map_result f xs) (\<lambda>ys. Inr (y # ys)))"

lemma and_then_Inl [simp]: "and_then (Inl e) f = Inl e"
  by (simp add: and_then_def)

lemma and_then_Inr [simp]: "and_then (Inr x) f = f x"
  by (simp add: and_then_def)

lemma and_then_eq_Inr [result_simps]: "and_then m f = Inr y \<longleftrightarrow> (\<exists>x. m = Inr x \<and> f x = Inr y)"
  by (cases m) simp_all

lemma and_then_eq_Inl [result_simps]:
  "and_then m f = Inl e \<longleftrightarrow> m = Inl e \<or> (\<exists>x. m = Inr x \<and> f x = Inl e)"
  by (cases m) simp_all

lemma require_eq_Inr [simp]: "require b e = Inr u \<longleftrightarrow> b"
  by (simp add: require_def)

lemma require_eq_Inl [simp]: "require b e = Inl e' \<longleftrightarrow> \<not> b \<and> e' = e"
  by (auto simp: require_def)

lemma require_True [simp]: "require True e = Inr ()"
  by (simp add: require_def)

lemma map_result_Inr_iff: "map_result f xs = Inr ys \<longleftrightarrow> list_all2 (\<lambda>x y. f x = Inr y) xs ys"
proof (induction xs arbitrary: ys)
  case Nil
  then show ?case by auto
next
  case (Cons x xs)
  then show ?case by (cases ys) (auto simp: result_simps)
qed

lemma map_result_length: "map_result f xs = Inr ys \<Longrightarrow> length ys = length xs"
  by (auto simp: map_result_Inr_iff dest: list_all2_lengthD)

lemma map_result_memD: "map_result f xs = Inr ys \<Longrightarrow> y \<in> set ys \<Longrightarrow> \<exists>x \<in> set xs. f x = Inr y"
  unfolding map_result_Inr_iff by (induction rule: list_all2_induct) auto

lemma map_result_total: "(\<And>x. x \<in> set xs \<Longrightarrow> f x = Inr (g x)) \<Longrightarrow> map_result f xs = Inr (map g xs)"
  by (induction xs) simp_all

section \<open>Python values\<close>

type_synonym uuid = nat

datatype pyobj =
    PNone
  | PBool bool
  | PInt int
  | PFloat rat
  | PStr string
  | PList "pyobj list"
  | PDict "(string \<times> pyobj) list"

type_synonym dict = "(string \<times> pyobj) list"

text \<open>\<open>bool(value)\<close> for the values of a JSON document.\<close>

fun truthy :: "pyobj \<Rightarrow> bool" where
  "truthy PNone = False"
| "truthy (PBool b) = b"
| "truthy (PInt i) = (i \<noteq> 0)"
| "truthy (PFloat x) = (x \<noteq> 0)"
| "truthy (PStr s) = (s \<noteq> [])"
| "truthy (PList xs) = (xs \<noteq> [])"
| "truthy (PDict d) = (d \<noteq> [])"

text \<open>\<open>{**d, key: value}\<close> on canonical dictionaries.\<close>

fun dict_put :: "string \<Rightarrow> 'v \<Rightarrow> (string \<times> 'v) list \<Rightarrow> (string \<times> 'v) list" where
  "dict_put k v [] = [(k, v)]"
| "dict_put k v ((k', v') # d) =
     (if k < k' then (k, v) # (k', v') # d
      else if k = k' then (k, v) # d
      else (k', v') # dict_put k v d)"

definition dict_merge :: "(string \<times> 'v) list \<Rightarrow> (string \<times> 'v) list \<Rightarrow> (string \<times> 'v) list" where
  "dict_merge d e = foldl (\<lambda>acc (k, v). dict_put k v acc) d e"

lemma map_of_dict_put [simp]: "map_of (dict_put k v d) = (map_of d)(k \<mapsto> v)"
  by (induction k v d rule: dict_put.induct) auto

section \<open>Strings\<close>

definition code_of :: "char \<Rightarrow> nat" where
  "code_of c = of_char c"

definition upper_char :: "char \<Rightarrow> char" where
  "upper_char c = (if 97 \<le> code_of c \<and> code_of c \<le> 122 then char_of (code_of c - 32) else c)"

definition lower_char :: "char \<Rightarrow> char" where
  "lower_char c = (if 65 \<le> code_of c \<and> code_of c \<le> 90 then char_of (code_of c + 32) else c)"

definition py_upper :: "string \<Rightarrow> string" where
  "py_upper s = map upper_char s"

definition py_lower :: "string \<Rightarrow> string" where
  "py_lower s = map lower_char s"

text \<open>\<open>str.strip()\<close> removes the ASCII characters for which \<open>str.isspace()\<close> holds.\<close>

definition is_space :: "char \<Rightarrow> bool" where
  "is_space c = (code_of c = 32 \<or> (9 \<le> code_of c \<and> code_of c \<le> 13) \<or> (28 \<le> code_of c \<and> code_of c \<le> 31))"

definition py_strip :: "string \<Rightarrow> string" where
  "py_strip s = rev (dropWhile is_space (rev (dropWhile is_space s)))"

lemma py_strip_length: "length (py_strip s) \<le> length s"
proof -
  have "length (dropWhile is_space (rev (dropWhile is_space s))) \<le> length (dropWhile is_space s)"
    using length_dropWhile_le [of is_space "rev (dropWhile is_space s)"] by simp
  also have "\<dots> \<le> length s" by (rule length_dropWhile_le)
  finally show ?thesis by (simp add: py_strip_def)
qed

lemma dropWhile_hd_stop: "xs = [] \<or> \<not> P (hd xs) \<Longrightarrow> dropWhile P xs = xs"
  by (cases xs) auto

text \<open>Hexadecimal and decimal texts: \<open>uuid.hex\<close>, \<open>str(uuid)\<close> and \<open>str(int)\<close>.\<close>

definition hex_digit :: "nat \<Rightarrow> char" where
  "hex_digit n = ''0123456789abcdef'' ! n"

fun hex_fixed :: "nat \<Rightarrow> nat \<Rightarrow> string" where
  "hex_fixed 0 n = []"
| "hex_fixed (Suc w) n = hex_fixed w (n div 16) @ [hex_digit (n mod 16)]"

definition uuid_hex :: "uuid \<Rightarrow> string" where
  "uuid_hex n = hex_fixed 32 n"

definition uuid_str :: "uuid \<Rightarrow> string" where
  "uuid_str n =
     hex_fixed 8 (n div 16 ^ 24) @ ''-'' @ hex_fixed 4 (n div 16 ^ 20 mod 16 ^ 4) @ ''-''
     @ hex_fixed 4 (n div 16 ^ 16 mod 16 ^ 4) @ ''-'' @ hex_fixed 4 (n div 16 ^ 12 mod 16 ^ 4)
     @ ''-'' @ hex_fixed 12 (n mod 16 ^ 12)"

fun nat_str :: "nat \<Rightarrow> string" where
  "nat_str n = (if n < 10 then [char_of (48 + n)] else nat_str (n div 10) @ [char_of (48 + n mod 10)])"

declare nat_str.simps [simp del]

definition int_str :: "int \<Rightarrow> string" where
  "int_str i = (if i < 0 then ''-'' @ nat_str (nat (- i)) else nat_str (nat i))"

lemma length_hex_fixed [simp]: "length (hex_fixed w n) = w"
  by (induction w n rule: hex_fixed.induct) simp_all

lemma hex_digit_inj:
  assumes "a < 16" and "b < 16"
  shows "hex_digit a = hex_digit b \<longleftrightarrow> a = b"
proof -
  have "distinct ''0123456789abcdef''" by simp
  then show ?thesis
    unfolding hex_digit_def using assms by (subst nth_eq_iff_index_eq) simp_all
qed

lemma hex_fixed_inj:
  "a < 16 ^ w \<Longrightarrow> b < 16 ^ w \<Longrightarrow> hex_fixed w a = hex_fixed w b \<Longrightarrow> a = b"
proof (induction w arbitrary: a b)
  case 0
  then show ?case by simp
next
  case (Suc w)
  from Suc.prems(3) have "hex_fixed w (a div 16) = hex_fixed w (b div 16)"
    and digit: "hex_digit (a mod 16) = hex_digit (b mod 16)" by auto
  moreover have "a div 16 < 16 ^ w" "b div 16 < 16 ^ w"
    using Suc.prems(1,2) by (auto simp: less_mult_imp_div_less mult.commute)
  ultimately have "a div 16 = b div 16" using Suc.IH by blast
  moreover have "a mod 16 = b mod 16"
    using digit by (simp add: hex_digit_inj)
  ultimately show ?case by (metis div_mult_mod_eq)
qed

lemma length_uuid_str [simp]: "length (uuid_str n) = 36"
  by (simp add: uuid_str_def)

section \<open>Instants and spans\<close>

type_synonym instant = int
type_synonym span = int

definition seconds :: "int \<Rightarrow> span" where
  "seconds s = s * 1000000"

definition milliseconds :: "int \<Rightarrow> span" where
  "milliseconds m = m * 1000"

definition minutes :: "int \<Rightarrow> span" where
  "minutes m = m * 60000000"

definition hours :: "int \<Rightarrow> span" where
  "hours h = h * 3600000000"

definition day_us :: span where
  "day_us = 86400000000"

definition days :: "int \<Rightarrow> span" where
  "days n = n * day_us"

lemma days_le [simp]: "days a \<le> days b \<longleftrightarrow> a \<le> b"
  by (simp add: days_def day_us_def)

lemma days_less [simp]: "days a < days b \<longleftrightarrow> a < b"
  by (simp add: days_def day_us_def)

text \<open>
  \<open>round(a / b)\<close> with Python's rule: to the nearest integer, ties to even. The quotient is exact
  here; the code divides binary64 numbers, which can fall on the other side of an exact tie.
\<close>

definition round_div :: "int \<Rightarrow> int \<Rightarrow> int" where
  "round_div a b =
     (let q = a div b; r = a mod b
      in if 2 * r < b \<or> (2 * r = b \<and> even q) then q else q + 1)"

text \<open>\<open>int(round(span.total_seconds() * 1000))\<close>.\<close>

definition round_ms :: "span \<Rightarrow> int" where
  "round_ms d = round_div d 1000"

lemma round_div_multiple [simp]: "0 < b \<Longrightarrow> round_div (k * b) b = k"
  by (simp add: round_div_def)

lemma round_div_bounds:
  assumes "0 < b"
  shows "2 * b * round_div a b \<le> 2 * a + b" and "2 * a \<le> 2 * b * round_div a b + b"
proof -
  define q r where "q = a div b" and "r = a mod b"
  have a: "a = b * q + r" and r: "0 \<le> r" "r < b"
    using assms by (simp_all add: q_def r_def)
  have d: "round_div a b = (if 2 * r < b \<or> (2 * r = b \<and> even q) then q else q + 1)"
    by (simp add: round_div_def Let_def q_def r_def)
  show "2 * b * round_div a b \<le> 2 * a + b" unfolding d using r a by (auto simp: algebra_simps)
  show "2 * a \<le> 2 * b * round_div a b + b" unfolding d using r a by (auto simp: algebra_simps)
qed

lemma round_div_mono:
  assumes b: "0 < b" and le: "x \<le> y"
  shows "round_div x b \<le> round_div y b"
proof (cases "x div b = y div b")
  case True
  moreover have "x mod b \<le> y mod b"
    using le True by (metis add_le_cancel_left div_mult_mod_eq)
  ultimately show ?thesis by (auto simp: round_div_def Let_def)
next
  case False
  then have "x div b + 1 \<le> y div b"
    using zdiv_mono1 [OF le b] by simp
  then show ?thesis by (auto simp: round_div_def Let_def)
qed

lemma round_div_nonneg: "0 < b \<Longrightarrow> 0 \<le> a \<Longrightarrow> 0 \<le> round_div a b"
  by (simp add: round_div_def Let_def pos_imp_zdiv_nonneg_iff)

section \<open>Half-open intervals\<close>

definition overlaps :: "instant \<Rightarrow> instant \<Rightarrow> instant \<Rightarrow> instant \<Rightarrow> bool" where
  "overlaps a b c d = (a < d \<and> c < b)"

text \<open>The open end of a range that has not ended yet: \<open>ended_at IS NULL OR ended_at > x\<close>.\<close>

definition ends_after :: "instant option \<Rightarrow> instant \<Rightarrow> bool" where
  "ends_after e x = (case e of None \<Rightarrow> True | Some t \<Rightarrow> x < t)"

lemma ends_after_simps [simp]:
  "ends_after None x" "ends_after (Some t) x \<longleftrightarrow> x < t"
  by (simp_all add: ends_after_def)

lemma ends_after_mono: "ends_after e x \<Longrightarrow> y \<le> x \<Longrightarrow> ends_after e y"
  by (cases e) auto

section \<open>Request instants\<close>

text \<open>\<open>core/time.py\<close>: a request instant may lack its offset (\<open>Naive\<close>, a wall clock reading).\<close>

datatype py_datetime = Aware instant | Naive int

definition require_utc :: "py_datetime \<Rightarrow> string \<Rightarrow> instant result" where
  "require_utc v code = (case v of Aware t \<Rightarrow> Inr t | Naive _ \<Rightarrow> Inl (ApiError 422 code))"

definition optional_utc :: "py_datetime option \<Rightarrow> string \<Rightarrow> instant option result" where
  "optional_utc v code = (case v of
     None \<Rightarrow> Inr None
   | Some x \<Rightarrow> and_then (require_utc x code) (\<lambda>t. Inr (Some t)))"

definition coerce_utc :: "py_datetime option \<Rightarrow> instant option" where
  "coerce_utc v = (case v of
     None \<Rightarrow> None | Some (Aware t) \<Rightarrow> Some t | Some (Naive t) \<Rightarrow> Some t)"

end
