(* ===== verification/Model.thy ===== *)
theory Model
  imports Prelude
begin

text \<open>
  The persistent state: one record per table of \<open>modules/recordings/models.py\<close>,
  \<open>modules/storage/models.py\<close>, \<open>modules/events/models.py\<close>, \<open>modules/auth/models.py\<close>,
  \<open>modules/alerts/models.py\<close>, \<open>modules/notifications/models.py\<close>, \<open>modules/exports/models.py\<close> and the
  camera tables the other components read, and the database as the record of its tables. A column with a CHECK over a
  fixed set of names is a datatype, a free text column is a string, a nullable column an option.
  A table is the list of its rows. The constraints the schema declares and the code relies on are
  predicates over rows, checked where the code flushes.
\<close>

section \<open>Rows\<close>

datatype retention_scope = ScopeGlobal | ScopeCamera | ScopeCameraGroup

datatype retention_mode = BestEffort | Hard

record retention_policy =
  tp_id :: uuid
  tp_name :: string
  tp_scope_type :: retention_scope
  tp_scope_id :: "uuid option"
  tp_ordinary_keep_days :: int
  tp_event_keep_days :: int
  tp_manual_keep_days :: int
  tp_mode :: retention_mode
  tp_require_archive_before_delete :: bool
  tp_enabled :: bool

record recording_policy =
  rp_camera_id :: uuid
  rp_baseline_mode :: string
  rp_schedule_json :: dict
  rp_schedule_timezone :: "string option"
  rp_event_recording_enabled :: bool
  rp_event_filter_json :: dict
  rp_segment_target_seconds :: int
  rp_pre_roll_seconds :: int
  rp_post_roll_seconds :: int
  rp_storage_target_id :: "uuid option"
  rp_retention_policy_id :: "uuid option"
  rp_enabled :: bool

record recording_protection =
  pr_id :: uuid
  pr_camera_id :: uuid
  pr_started_at :: instant
  pr_ended_at :: instant
  pr_reason :: string
  pr_created_by :: "uuid option"
  pr_expires_at :: "instant option"

record recording_trigger =
  tr_id :: uuid
  tr_camera_id :: uuid
  tr_type :: string
  tr_source :: string
  tr_source_event_id :: "string option"
  tr_requested_at :: instant
  tr_pre_roll_seconds :: int
  tr_post_roll_seconds :: int
  tr_planned_start_at :: instant
  tr_planned_end_at :: "instant option"
  tr_state :: string
  tr_reason :: "string option"
  tr_correlation_id :: string
  tr_metadata_json :: dict

datatype timing_status = Provisional | Final

datatype timing_source = HookRaw | NextSegmentBoundary | ExplicitStop | Recovery

record recording_segment =
  sg_id :: uuid
  sg_camera_id :: uuid
  sg_stream_profile_id :: "uuid option"
  sg_started_at :: instant
  sg_ended_at :: instant
  sg_duration_ms :: int
  sg_timing_status :: timing_status
  sg_timing_source :: timing_source
  sg_recording_reasons_json :: "string list"
  sg_size_bytes :: int
  sg_codec :: "string option"
  sg_container :: string
  sg_source_media_server_id :: string
  sg_source_app :: string
  sg_source_stream :: string
  sg_integrity_status :: string
  sg_completion_reason :: "string option"

datatype target_type = LocalTarget | RcloneTarget

datatype target_role = RecordingRole | ArchiveRole

record storage_target =
  st_id :: uuid
  st_type :: target_type
  st_role :: target_role
  st_enabled :: bool
  st_config_json :: dict

datatype location_state = Available | Archiving | Failed | Deleting | Deleted | Missing

record recording_location =
  lo_id :: uuid
  lo_recording_segment_id :: uuid
  lo_storage_target_id :: uuid
  lo_object_path :: string
  lo_state :: location_state
  lo_size_bytes :: int
  lo_checksum :: "string option"
  lo_verified_at :: "instant option"
  lo_last_attempt_at :: "instant option"
  lo_last_error :: "string option"
  lo_created_at :: instant
  lo_deleted_at :: "instant option"

record event_row =
  ev_id :: uuid
  ev_source :: string
  ev_source_instance_id :: "string option"
  ev_source_event_id :: "string option"
  ev_camera_id :: "uuid option"
  ev_category :: string
  ev_label :: "string option"
  ev_started_at :: instant
  ev_ended_at :: "instant option"
  ev_confidence :: "rat option"
  ev_severity :: "string option"
  ev_zone :: "string option"
  ev_snapshot_ref :: "string option"
  ev_correlation_id :: "string option"
  ev_metadata_json :: dict

record camera =
  cam_id :: uuid
  cam_enabled :: bool
  cam_maintenance :: bool

record stream_profile =
  sp_id :: uuid
  sp_camera_id :: uuid
  sp_codec :: "string option"

record camera_group =
  gr_id :: uuid
  gr_name :: string
  gr_description :: "string option"
  gr_parent_id :: "uuid option"

text \<open>\<open>CameraGroupMember\<close>: group, camera.\<close>

type_synonym group_member = "uuid \<times> uuid"

record camera_scope =
  ps_id :: uuid
  ps_principal_type :: string
  ps_principal_id :: uuid
  ps_scope_mode :: string

text \<open>The constraint \<open>principal_camera_scope_entry_one_target\<close> is the choice of the target.\<close>

datatype scope_target = CameraTarget uuid | GroupTarget uuid

record scope_entry =
  se_scope_id :: uuid
  se_target :: scope_target

text \<open>\<open>modules/auth/models.py\<close>: accounts, sessions, tokens and encrypted secrets.\<close>

record user =
  us_id :: uuid
  us_username :: string
  us_display_name :: string
  us_email :: "string option"
  us_email_verified_at :: "instant option"
  us_password_hash :: "string option"
  us_enabled :: bool
  us_last_login_at :: "instant option"

record role =
  ro_id :: uuid
  ro_name :: string
  ro_description :: "string option"
  ro_built_in :: bool

record user_session =
  ss_id :: uuid
  ss_user_id :: uuid
  ss_created_at :: instant
  ss_last_seen_at :: instant
  ss_expires_at :: instant
  ss_revoked_at :: "instant option"
  ss_client_info :: "dict option"

record reset_token =
  pt_id :: uuid
  pt_user_id :: uuid
  pt_token_hash :: string
  pt_requested_at :: instant
  pt_expires_at :: instant
  pt_used_at :: "instant option"
  pt_request_metadata :: "dict option"
  pt_created_by :: "uuid option"

record api_token =
  at_id :: uuid
  at_user_id :: uuid
  at_name :: string
  at_token_hash :: string
  at_permission_scope :: dict
  at_created_at :: instant
  at_expires_at :: "instant option"
  at_last_used_at :: "instant option"
  at_revoked_at :: "instant option"

record secret_record =
  sr_id :: uuid
  sr_kind :: string
  sr_owner_type :: string
  sr_owner_id :: uuid
  sr_key_id :: string
  sr_encrypted_payload :: string
  sr_version :: int

text \<open>\<open>modules/notifications/models.py\<close> and \<open>modules/alerts/models.py\<close>.\<close>

record notification_target =
  nt_id :: uuid
  nt_name :: string
  nt_kind :: string
  nt_enabled :: bool
  nt_config_json :: dict
  nt_secret_ref :: "uuid option"

datatype delivery_state = Pending | Sending | Sent | DeliveryFailed | Skipped

record delivery =
  nd_id :: uuid
  nd_alert_id :: "uuid option"
  nd_purpose :: string
  nd_notification_target_id :: uuid
  nd_state :: delivery_state
  nd_attempt_count :: int
  nd_title :: string
  nd_body :: string
  nd_last_attempt_at :: "instant option"
  nd_sent_at :: "instant option"
  nd_last_error_code :: "string option"
  nd_correlation_id :: "string option"

record alert_policy =
  ap_id :: uuid
  ap_name :: string
  ap_enabled :: bool
  ap_severity :: string
  ap_match_json :: dict
  ap_action_json :: dict
  ap_cooldown_seconds :: int

datatype alert_state = Open | Acknowledged | Resolved

record alert =
  al_id :: uuid
  al_policy_id :: "uuid option"
  al_event_id :: uuid
  al_camera_id :: "uuid option"
  al_severity :: string
  al_title :: string
  al_message :: "string option"
  al_state :: alert_state
  al_acknowledged_at :: "instant option"
  al_acknowledged_by :: "uuid option"
  al_resolved_at :: "instant option"

text \<open>\<open>modules/exports/models.py\<close>. The column \<open>output_path\<close> holds the text of a path; it is the list of
  the parts here.\<close>

datatype export_state = ExportPending | ExportRunning | ExportCompleted | ExportFailed | ExportCancelled | ExportExpired

record export_job =
  ex_id :: uuid
  ex_camera_id :: uuid
  ex_requested_by :: "uuid option"
  ex_requested_start_at :: instant
  ex_requested_end_at :: instant
  ex_requested_duration_ms :: int
  ex_idempotency_key_hash :: "string option"
  ex_format :: string
  ex_codec_mode :: string
  ex_gap_policy :: string
  ex_state :: export_state
  ex_output_path :: "string list option"
  ex_size_bytes :: "int option"
  ex_actual_duration_ms :: "int option"
  ex_selected_segment_count :: "int option"
  ex_metadata_json :: dict
  ex_error_code :: "string option"
  ex_expires_at :: instant
  ex_started_at :: "instant option"
  ex_completed_at :: "instant option"

record export_share =
  sh_id :: uuid
  sh_export_id :: uuid
  sh_token_hash :: string
  sh_password_hash :: "string option"
  sh_expires_at :: instant
  sh_revoked_at :: "instant option"
  sh_max_downloads :: "int option"
  sh_download_count :: int
  sh_last_download_at :: "instant option"
  sh_created_by :: "uuid option"

text \<open>\<open>db_role_permissions\<close>: role, permission; \<open>db_user_roles\<close>: user, role; \<open>db_settings\<close>:
  \<open>SystemSetting\<close> rows, namespace and value.\<close>

record db =
  db_cameras :: "camera list"
  db_groups :: "camera_group list"
  db_members :: "group_member list"
  db_policies :: "recording_policy list"
  db_retention :: "retention_policy list"
  db_protections :: "recording_protection list"
  db_triggers :: "recording_trigger list"
  db_segments :: "recording_segment list"
  db_locations :: "recording_location list"
  db_targets :: "storage_target list"
  db_events :: "event_row list"
  db_profiles :: "stream_profile list"
  db_scopes :: "camera_scope list"
  db_scope_entries :: "scope_entry list"
  db_users :: "user list"
  db_roles :: "role list"
  db_role_permissions :: "(uuid \<times> string) list"
  db_user_roles :: "(uuid \<times> uuid) list"
  db_sessions :: "user_session list"
  db_reset_tokens :: "reset_token list"
  db_api_tokens :: "api_token list"
  db_settings :: "(string \<times> dict) list"
  db_secrets :: "secret_record list"
  db_notification_targets :: "notification_target list"
  db_deliveries :: "delivery list"
  db_alert_policies :: "alert_policy list"
  db_alerts :: "alert list"
  db_exports :: "export_job list"
  db_shares :: "export_share list"

definition empty_db :: db where
  "empty_db =
     \<lparr>db_cameras = [], db_groups = [], db_members = [], db_policies = [], db_retention = [],
      db_protections = [], db_triggers = [], db_segments = [], db_locations = [],
      db_targets = [], db_events = [], db_profiles = [], db_scopes = [],
      db_scope_entries = [], db_users = [], db_roles = [], db_role_permissions = [],
      db_user_roles = [], db_sessions = [], db_reset_tokens = [], db_api_tokens = [],
      db_settings = [], db_secrets = [], db_notification_targets = [], db_deliveries = [],
      db_alert_policies = [], db_alerts = [], db_exports = [], db_shares = []\<rparr>"

section \<open>Declared constraints\<close>

definition trigger_window_ok :: "recording_trigger \<Rightarrow> bool" where
  "trigger_window_ok t =
     (0 \<le> tr_pre_roll_seconds t \<and> 0 \<le> tr_post_roll_seconds t
      \<and> (case tr_planned_end_at t of None \<Rightarrow> True | Some e \<Rightarrow> tr_planned_start_at t \<le> e))"

text \<open>The unique index on \<open>(source, source_event_id)\<close> where the event id is not null.\<close>

definition trigger_identity_free :: "db \<Rightarrow> recording_trigger \<Rightarrow> bool" where
  "trigger_identity_free d t =
     (\<forall>u \<in> set (db_triggers d).
        tr_source_event_id t = None \<or> tr_source u \<noteq> tr_source t
        \<or> tr_source_event_id u \<noteq> tr_source_event_id t)"

definition segment_range_ok :: "recording_segment \<Rightarrow> bool" where
  "segment_range_ok s = (sg_started_at s < sg_ended_at s \<and> 0 \<le> sg_duration_ms s)"

definition protection_range_ok :: "recording_protection \<Rightarrow> bool" where
  "protection_range_ok p = (pr_started_at p < pr_ended_at p)"

section \<open>Lookup and update of rows\<close>

definition get_camera :: "db \<Rightarrow> uuid \<Rightarrow> camera option" where
  "get_camera d k = find (\<lambda>r. cam_id r = k) (db_cameras d)"

definition get_profile :: "db \<Rightarrow> uuid \<Rightarrow> stream_profile option" where
  "get_profile d k = find (\<lambda>r. sp_id r = k) (db_profiles d)"

definition policy_of_camera :: "db \<Rightarrow> uuid \<Rightarrow> recording_policy option" where
  "policy_of_camera d cam = find (\<lambda>p. rp_camera_id p = cam) (db_policies d)"

definition get_retention :: "db \<Rightarrow> uuid \<Rightarrow> retention_policy option" where
  "get_retention d k = find (\<lambda>r. tp_id r = k) (db_retention d)"

definition get_target :: "db \<Rightarrow> uuid \<Rightarrow> storage_target option" where
  "get_target d k = find (\<lambda>r. st_id r = k) (db_targets d)"

definition get_segment :: "db \<Rightarrow> uuid \<Rightarrow> recording_segment option" where
  "get_segment d k = find (\<lambda>r. sg_id r = k) (db_segments d)"

definition add_segment :: "recording_segment \<Rightarrow> db \<Rightarrow> db" where
  "add_segment s d = d\<lparr>db_segments := db_segments d @ [s]\<rparr>"

definition update_segment :: "uuid \<Rightarrow> (recording_segment \<Rightarrow> recording_segment) \<Rightarrow> db \<Rightarrow> db" where
  "update_segment k f d =
     d\<lparr>db_segments := map (\<lambda>r. if sg_id r = k then f r else r) (db_segments d)\<rparr>"

definition get_location :: "db \<Rightarrow> uuid \<Rightarrow> recording_location option" where
  "get_location d k = find (\<lambda>r. lo_id r = k) (db_locations d)"

definition add_location :: "recording_location \<Rightarrow> db \<Rightarrow> db" where
  "add_location l d = d\<lparr>db_locations := db_locations d @ [l]\<rparr>"

definition update_location :: "uuid \<Rightarrow> (recording_location \<Rightarrow> recording_location) \<Rightarrow> db \<Rightarrow> db" where
  "update_location k f d =
     d\<lparr>db_locations := map (\<lambda>r. if lo_id r = k then f r else r) (db_locations d)\<rparr>"

definition get_trigger :: "db \<Rightarrow> uuid \<Rightarrow> recording_trigger option" where
  "get_trigger d k = find (\<lambda>r. tr_id r = k) (db_triggers d)"

definition add_trigger :: "recording_trigger \<Rightarrow> db \<Rightarrow> db" where
  "add_trigger t d = d\<lparr>db_triggers := db_triggers d @ [t]\<rparr>"

definition update_trigger :: "uuid \<Rightarrow> (recording_trigger \<Rightarrow> recording_trigger) \<Rightarrow> db \<Rightarrow> db" where
  "update_trigger k f d =
     d\<lparr>db_triggers := map (\<lambda>r. if tr_id r = k then f r else r) (db_triggers d)\<rparr>"

definition get_protection :: "db \<Rightarrow> uuid \<Rightarrow> recording_protection option" where
  "get_protection d k = find (\<lambda>r. pr_id r = k) (db_protections d)"

definition add_protection :: "recording_protection \<Rightarrow> db \<Rightarrow> db" where
  "add_protection p d = d\<lparr>db_protections := db_protections d @ [p]\<rparr>"

definition update_protection ::
    "uuid \<Rightarrow> (recording_protection \<Rightarrow> recording_protection) \<Rightarrow> db \<Rightarrow> db" where
  "update_protection k f d =
     d\<lparr>db_protections := map (\<lambda>r. if pr_id r = k then f r else r) (db_protections d)\<rparr>"

text \<open>\<open>core/db/repository.py\<close>: load by primary key, otherwise raise the caller's error.\<close>

definition fetch_or_raise :: "'r option \<Rightarrow> int \<Rightarrow> string \<Rightarrow> 'r result" where
  "fetch_or_raise instance_row status code =
     (case instance_row of None \<Rightarrow> Inl (ApiError status code) | Some r \<Rightarrow> Inr r)"

definition fetch_or_404 :: "'r option \<Rightarrow> string \<Rightarrow> 'r result" where
  "fetch_or_404 instance_row code = fetch_or_raise instance_row 404 code"

lemma fetch_or_raise_eq_Inr [simp]: "fetch_or_raise r s c = Inr x \<longleftrightarrow> r = Some x"
  by (auto simp: fetch_or_raise_def split: option.splits)

lemma fetch_or_404_eq_Inr [simp]: "fetch_or_404 r c = Inr x \<longleftrightarrow> r = Some x"
  by (simp add: fetch_or_404_def)

section \<open>The interface of a keyed table\<close>

text \<open>
  What the services use of a table: \<open>session.get\<close>, \<open>session.add\<close> with a flush, and assignment
  to the attributes of a loaded row, over a primary key. The laws say what each operation does to
  the list of rows; the lookup lemmas follow once and hold for every table.
\<close>

locale keyed_table =
  fixes rows :: "'db \<Rightarrow> 'row list"
    and key :: "'row \<Rightarrow> nat"
    and get :: "'db \<Rightarrow> nat \<Rightarrow> 'row option"
    and add :: "'row \<Rightarrow> 'db \<Rightarrow> 'db"
    and upd :: "nat \<Rightarrow> ('row \<Rightarrow> 'row) \<Rightarrow> 'db \<Rightarrow> 'db"
  assumes get_find: "get d k = find (\<lambda>r. key r = k) (rows d)"
    and rows_add: "rows (add r d) = rows d @ [r]"
    and rows_upd: "rows (upd k f d) = map (\<lambda>r. if key r = k then f r else r) (rows d)"
begin

lemma get_Some: "get d k = Some r \<Longrightarrow> r \<in> set (rows d) \<and> key r = k"
  by (auto simp: get_find find_Some_iff)

lemma get_None_iff: "get d k = None \<longleftrightarrow> k \<notin> key ` set (rows d)"
  by (auto simp: get_find find_None_iff)

lemma get_add: "get d (key r) = None \<Longrightarrow> get (add r d) k = (if k = key r then Some r else get d k)"
proof -
  have "find P (xs @ ys) = (case find P xs of None \<Rightarrow> find P ys | Some z \<Rightarrow> Some z)"
    for P and xs ys :: "'row list"
    by (induction xs) auto
  then show "get d (key r) = None \<Longrightarrow> ?thesis"
    by (auto simp: get_find rows_add split: option.splits)
qed

lemma get_upd:
  assumes "\<And>r. key (f r) = key r"
  shows "get (upd k f d) j = (if j = k then map_option f (get d k) else get d j)"
proof -
  have "find (\<lambda>r. key r = j) (map (\<lambda>r. if key r = k then f r else r) xs)
        = (if j = k then map_option f (find (\<lambda>r. key r = k) xs) else find (\<lambda>r. key r = j) xs)" for xs
    by (induction xs) (auto simp: assms)
  then show ?thesis by (simp add: get_find rows_upd)
qed

lemma upd_mem: "r \<in> set (rows (upd k f d)) \<Longrightarrow>
    (r \<in> set (rows d) \<and> key r \<noteq> k) \<or> (\<exists>s \<in> set (rows d). key s = k \<and> r = f s)"
  by (auto simp: rows_upd split: if_splits)

lemma keys_upd:
  assumes "\<And>r. key (f r) = key r"
  shows "map key (rows (upd k f d)) = map key (rows d)"
  by (simp add: rows_upd assms)

lemma get_unique:
  assumes "distinct (map key (rows d))" and "r \<in> set (rows d)"
  shows "get d (key r) = Some r"
proof (cases "get d (key r)")
  case None
  then show ?thesis using assms(2) by (auto simp: get_None_iff)
next
  case (Some s)
  then have "s \<in> set (rows d)" "key s = key r" by (auto dest: get_Some)
  with assms show ?thesis using Some by (auto simp: distinct_map inj_on_def)
qed

end

interpretation locations: keyed_table db_locations lo_id get_location add_location update_location
  by unfold_locales (simp_all add: get_location_def add_location_def update_location_def)

interpretation segments: keyed_table db_segments sg_id get_segment add_segment update_segment
  by unfold_locales (simp_all add: get_segment_def add_segment_def update_segment_def)

interpretation triggers: keyed_table db_triggers tr_id get_trigger add_trigger update_trigger
  by unfold_locales (simp_all add: get_trigger_def add_trigger_def update_trigger_def)

interpretation protections:
  keyed_table db_protections pr_id get_protection add_protection update_protection
  by unfold_locales (simp_all add: get_protection_def add_protection_def update_protection_def)

text \<open>An operation on one table leaves the other tables alone.\<close>

lemma table_frames [simp]:
  "db_segments (add_location l d) = db_segments d"
  "db_segments (update_location k f d) = db_segments d"
  "db_protections (add_location l d) = db_protections d"
  "db_protections (update_location k f d) = db_protections d"
  "db_targets (add_location l d) = db_targets d"
  "db_targets (update_location k f d) = db_targets d"
  "db_locations (add_protection p d) = db_locations d"
  "db_locations (update_protection k g d) = db_locations d"
  "db_segments (add_protection p d) = db_segments d"
  "db_segments (update_protection k g d) = db_segments d"
  "db_locations (update_segment k h d) = db_locations d"
  "db_protections (update_segment k h d) = db_protections d"
  "db_locations (add_segment s d) = db_locations d"
  "db_protections (add_segment s d) = db_protections d"
  "db_policies (add_trigger t d) = db_policies d"
  "db_policies (update_trigger k u d) = db_policies d"
  "db_segments (add_trigger t d) = db_segments d"
  "db_segments (update_trigger k u d) = db_segments d"
  by (simp_all add: add_location_def update_location_def add_protection_def update_protection_def
      update_segment_def add_segment_def add_trigger_def update_trigger_def)

section \<open>The interface of an overlap query\<close>

text \<open>
  Every component that walks recorded media asks for the rows of one camera that meet a window,
  in time order (\<open>select ... where started_at < end and ended_at > start order by started_at,
  ended_at, id\<close>). The contract of such a query, for any row type.
\<close>

locale overlap_query =
  fixes query :: "'db \<Rightarrow> uuid \<Rightarrow> instant \<Rightarrow> instant \<Rightarrow> 'row list"
    and rows :: "'db \<Rightarrow> 'row list"
    and candidate :: "uuid \<Rightarrow> 'row \<Rightarrow> bool"
    and row_start :: "'row \<Rightarrow> instant"
    and row_end :: "'row \<Rightarrow> instant"
  assumes query_set: "set (query d cam a b) =
      {r \<in> set (rows d). candidate cam r \<and> row_start r < b \<and> a < row_end r}"
    and query_sorted: "sorted (map row_start (query d cam a b))"
begin

lemma query_sound:
  "r \<in> set (query d cam a b) \<Longrightarrow> candidate cam r \<and> overlaps (row_start r) (row_end r) a b"
  by (auto simp: query_set overlaps_def)

lemma query_complete:
  "r \<in> set (rows d) \<Longrightarrow> candidate cam r \<Longrightarrow> row_start r \<le> t \<Longrightarrow> t < row_end r \<Longrightarrow> a \<le> t \<Longrightarrow> t < b
   \<Longrightarrow> r \<in> set (query d cam a b)"
  by (auto simp: query_set)

lemma query_covers:
  assumes "a \<le> t" and "t < b"
  shows "(\<exists>r \<in> set (query d cam a b). row_start r \<le> t \<and> t < row_end r)
         \<longleftrightarrow> (\<exists>r \<in> set (rows d). candidate cam r \<and> row_start r \<le> t \<and> t < row_end r)"
  using assms by (auto simp: query_set)

lemma query_tail_starts:
  "query d cam a b = xs @ r # ys \<Longrightarrow> s \<in> set ys \<Longrightarrow> row_start r \<le> row_start s"
  using query_sorted [of d cam a b] by (auto simp: sorted_append)

end

definition segment_order :: "recording_segment \<Rightarrow> instant \<times> instant \<times> uuid" where
  "segment_order s = (sg_started_at s, sg_ended_at s, sg_id s)"

text \<open>The query of the timeline and of the export planner.\<close>

definition segments_overlapping ::
    "db \<Rightarrow> uuid \<Rightarrow> instant \<Rightarrow> instant \<Rightarrow> recording_segment list" where
  "segments_overlapping d cam a b =
     sort_key segment_order
       (filter (\<lambda>s. sg_camera_id s = cam \<and> sg_started_at s < b \<and> a < sg_ended_at s)
          (db_segments d))"

lemma sorted_segment_order:
  "sorted (map segment_order xs) \<Longrightarrow> sorted (map sg_started_at xs)"
  by (induction xs) (auto simp: segment_order_def less_eq_prod_def)

interpretation media: overlap_query segments_overlapping db_segments "\<lambda>cam s. sg_camera_id s = cam"
    sg_started_at sg_ended_at
  by unfold_locales (auto simp: segments_overlapping_def intro: sorted_segment_order)

definition segment_locations :: "db \<Rightarrow> recording_segment \<Rightarrow> recording_location list" where
  "segment_locations d s = filter (\<lambda>l. lo_recording_segment_id l = sg_id s) (db_locations d)"

end
