(* ===== verification/Schedule.thy ===== *)
theory Schedule
  imports Model
begin

text \<open>
  \<open>modules/recordings/policy.py\<close>: validation of a recording schedule, whether the baseline
  records at an instant, the next schedule boundary, validation and storage of a policy.

  The time zone database is not part of the repository: \<open>zones\<close> is a parameter that gives, for a
  key, the zone or the exception \<open>ZoneInfo(key)\<close> raises. A zone converts an instant to a local
  wall clock (microseconds since the local epoch, and the fold bit) and gives the offset of a wall
  clock; \<open>zone_ok\<close> is the documented round trip of \<open>astimezone\<close>.
\<close>

record zone =
  zi_from_utc :: "instant \<Rightarrow> int \<times> bool"
  zi_offset :: "int \<Rightarrow> bool \<Rightarrow> span"

definition zone_to_utc :: "zone \<Rightarrow> int \<times> bool \<Rightarrow> instant" where
  "zone_to_utc z w = fst w - zi_offset z (fst w) (snd w)"

definition zone_ok :: "zone \<Rightarrow> bool" where
  "zone_ok z \<longleftrightarrow> (\<forall>u. zone_to_utc z (zi_from_utc z u) = u)"

definition fixed_zone :: "span \<Rightarrow> zone" where
  "fixed_zone off = \<lparr>zi_from_utc = (\<lambda>u. (u + off, False)), zi_offset = (\<lambda>_ _. off)\<rparr>"

type_synonym zones = "string \<Rightarrow> zone result"

lemma fixed_zone_ok: "zone_ok (fixed_zone off)"
  by (simp add: zone_ok_def zone_to_utc_def fixed_zone_def)

text \<open>\<open>date()\<close>, \<open>time()\<close> and \<open>weekday()\<close> of a wall clock; 1 January 1970 was a Thursday (3).\<close>

definition wall_day :: "int \<Rightarrow> int" where
  "wall_day w = w div day_us"

definition wall_time :: "int \<Rightarrow> int" where
  "wall_time w = w mod day_us"

definition day_weekday :: "int \<Rightarrow> int" where
  "day_weekday n = (n + 3) mod 7"

section \<open>Validation\<close>

record weekly_window =
  ww_days :: "int list"
  ww_start :: int
  ww_end :: int

definition is_digit :: "char \<Rightarrow> bool" where
  "is_digit c = (48 \<le> code_of c \<and> code_of c \<le> 57)"

definition digit_value :: "char \<Rightarrow> int" where
  "digit_value c = int (code_of c) - 48"

text \<open>The five characters \<open>HH:MM\<close> of the pattern \<open>_TIME_RE\<close>.\<close>

fun time_shape :: "string \<Rightarrow> bool" where
  "time_shape [a, b, c, d, e] =
     (((a = CHR ''0'' \<or> a = CHR ''1'') \<and> is_digit b
       \<or> a = CHR ''2'' \<and> 48 \<le> code_of b \<and> code_of b \<le> 51)
      \<and> c = CHR '':'' \<and> 48 \<le> code_of d \<and> code_of d \<le> 53 \<and> is_digit e)"
| "time_shape _ = False"

text \<open>\<open>_TIME_RE.match\<close>: in Python \<open>$\<close> also matches before a final newline.\<close>

definition time_re_match :: "string \<Rightarrow> bool" where
  "time_re_match s =
     (time_shape s \<or> (s \<noteq> [] \<and> last s = CHR 0x0A \<and> time_shape (butlast s)))"

text \<open>
  \<open>time.fromisoformat\<close> on the texts the pattern lets through: \<open>HH:MM\<close> is a time of day (here in
  microseconds since midnight), a text with a trailing newline is a \<open>ValueError\<close>.
\<close>

fun time_fromisoformat :: "string \<Rightarrow> int result" where
  "time_fromisoformat [a, b, c, d, e] =
     (if time_shape [a, b, c, d, e]
      then Inr (hours (10 * digit_value a + digit_value b) + minutes (10 * digit_value d + digit_value e))
      else Inl ValueError)"
| "time_fromisoformat _ = Inl ValueError"

definition schedule_invalid :: error where
  "schedule_invalid = ApiError 400 ''recording_schedule_invalid''"

fun int_days :: "pyobj list \<Rightarrow> int list option" where
  "int_days [] = Some []"
| "int_days (PInt i # xs) = map_option ((#) i) (int_days xs)"
| "int_days (_ # xs) = None"

text \<open>The checks on the typed fields of one weekly window, and its construction.\<close>

definition build_window :: "int list \<Rightarrow> string \<Rightarrow> string \<Rightarrow> weekly_window result" where
  "build_window ds start_value end_value =
     (if ds = [] \<or> \<not> time_re_match start_value \<or> \<not> time_re_match end_value
      then Inl schedule_invalid
      else
        let normalized_days = sort (remdups ds) in
        if list_ex (\<lambda>day. day < 0 \<or> 6 < day) normalized_days then Inl schedule_invalid
        else and_then (time_fromisoformat start_value) (\<lambda>start.
             and_then (time_fromisoformat end_value) (\<lambda>end.
             if start = end then Inl schedule_invalid
             else Inr \<lparr>ww_days = normalized_days, ww_start = start, ww_end = end\<rparr>)))"

definition validate_window :: "pyobj \<Rightarrow> weekly_window result" where
  "validate_window raw = (case raw of
     PDict d \<Rightarrow>
       if set (map fst d) \<noteq> {''days'', ''start'', ''end''} then Inl schedule_invalid
       else (case (map_of d ''days'', map_of d ''start'', map_of d ''end'') of
         (Some (PList raw_days), Some (PStr start_value), Some (PStr end_value)) \<Rightarrow>
           (case int_days raw_days of
              None \<Rightarrow> Inl schedule_invalid
            | Some ds \<Rightarrow> build_window ds start_value end_value)
       | _ \<Rightarrow> Inl schedule_invalid)
   | _ \<Rightarrow> Inl schedule_invalid)"

definition validate_schedule ::
    "zones \<Rightarrow> string \<Rightarrow> dict \<Rightarrow> string option \<Rightarrow> weekly_window list result" where
  "validate_schedule zones baseline_mode schedule_json schedule_timezone =
     (if baseline_mode \<noteq> ''schedule'' then
        if schedule_json \<noteq> [] then Inl (ApiError 400 ''recording_schedule_not_allowed'')
        else if schedule_timezone \<noteq> None
        then Inl (ApiError 400 ''recording_schedule_timezone_not_allowed'')
        else Inr []
      else case schedule_timezone of
        None \<Rightarrow> Inl (ApiError 400 ''recording_schedule_timezone_required'')
      | Some tz \<Rightarrow>
          if tz = [] then Inl (ApiError 400 ''recording_schedule_timezone_required'')
          else case zones tz of
            Inl e \<Rightarrow> Inl (if e = ZoneInfoNotFoundError
                          then ApiError 400 ''recording_schedule_timezone_invalid'' else e)
          | Inr _ \<Rightarrow>
              if list_ex (\<lambda>k. k \<noteq> ''weekly'') (map fst schedule_json)
              then Inl schedule_invalid
              else case map_of schedule_json ''weekly'' of
                Some (PList raw_windows) \<Rightarrow>
                  if raw_windows = [] then Inl (ApiError 400 ''recording_schedule_required'')
                  else if length raw_windows > 64
                  then Inl (ApiError 400 ''recording_schedule_too_large'')
                  else map_result validate_window raw_windows
              | _ \<Rightarrow> Inl (ApiError 400 ''recording_schedule_required''))"

definition window_ok :: "weekly_window \<Rightarrow> bool" where
  "window_ok w \<longleftrightarrow>
     ww_days w \<noteq> [] \<and> sorted (ww_days w) \<and> distinct (ww_days w)
     \<and> (\<forall>d \<in> set (ww_days w). 0 \<le> d \<and> d \<le> 6)
     \<and> 0 \<le> ww_start w \<and> ww_start w < day_us \<and> 0 \<le> ww_end w \<and> ww_end w < day_us
     \<and> ww_start w \<noteq> ww_end w"

lemma digit_range: "is_digit c \<Longrightarrow> 0 \<le> digit_value c \<and> digit_value c \<le> 9"
  by (auto simp: digit_value_def is_digit_def)

lemma digit_value_literals [simp]:
  "digit_value (CHR ''0'') = 0" "digit_value (CHR ''1'') = 1" "digit_value (CHR ''2'') = 2"
  by (simp_all add: digit_value_def code_of_def)

lemma time_shape_range:
  assumes "time_shape [a, b, c, d, e]"
  shows "0 \<le> 10 * digit_value a + digit_value b" "10 * digit_value a + digit_value b \<le> 23"
    "0 \<le> 10 * digit_value d + digit_value e" "10 * digit_value d + digit_value e \<le> 59"
proof -
  from assms have d: "0 \<le> digit_value d" "digit_value d \<le> 5" and e: "is_digit e"
    by (auto simp: digit_value_def)
  show "0 \<le> 10 * digit_value d + digit_value e" "10 * digit_value d + digit_value e \<le> 59"
    using d digit_range [OF e] by linarith+
  from assms consider "a = CHR ''0''" "is_digit b" | "a = CHR ''1''" "is_digit b"
    | "a = CHR ''2''" "0 \<le> digit_value b" "digit_value b \<le> 3"
    by (auto simp: digit_value_def)
  then show "0 \<le> 10 * digit_value a + digit_value b" "10 * digit_value a + digit_value b \<le> 23"
    by (cases; force dest: digit_range)+
qed

lemma time_fromisoformat_range:
  "time_fromisoformat s = Inr t \<Longrightarrow> 0 \<le> t \<and> t < day_us"
proof (induction s rule: time_fromisoformat.induct)
  case (1 a b c d e)
  then have sh: "time_shape [a, b, c, d, e]" and
    t: "t = hours (10 * digit_value a + digit_value b) + minutes (10 * digit_value d + digit_value e)"
    by (auto simp del: time_shape.simps split: if_splits)
  show ?case using time_shape_range [OF sh] unfolding t by (simp add: hours_def minutes_def day_us_def)
qed simp_all

lemma int_days_map: "int_days xs = Some ds \<Longrightarrow> xs = map PInt ds"
  by (induction xs arbitrary: ds rule: int_days.induct) auto

lemma build_window_ok:
  assumes "build_window ds sv ev = Inr w"
  shows "window_ok w"
proof -
  from assms obtain s e where ds: "ds \<noteq> []" and rng: "\<not> list_ex (\<lambda>day. day < 0 \<or> 6 < day) (sort (remdups ds))"
    and s: "time_fromisoformat sv = Inr s" and e: "time_fromisoformat ev = Inr e" and ne: "s \<noteq> e"
    and w: "w = \<lparr>ww_days = sort (remdups ds), ww_start = s, ww_end = e\<rparr>"
    by (auto simp: build_window_def result_simps Let_def split: if_splits)
  have "sort (remdups ds) \<noteq> []" using ds by (metis set_empty set_remdups set_sort)
  moreover have "\<forall>d \<in> set ds. 0 \<le> d \<and> d \<le> 6" using rng by (auto simp: list_ex_iff not_less)
  ultimately show ?thesis
    using time_fromisoformat_range [OF s] time_fromisoformat_range [OF e] ne
    by (simp add: w window_ok_def)
qed

lemma validate_window_cases:
  assumes "validate_window raw = Inr w"
  obtains ds sv ev where "build_window ds sv ev = Inr w"
  using assms unfolding validate_window_def
  by (cases raw) (simp_all split: if_splits option.splits pyobj.splits)

lemma validate_window_ok: "validate_window raw = Inr w \<Longrightarrow> window_ok w"
  by (erule validate_window_cases) (rule build_window_ok)

lemma validate_schedule_windows_ok:
  "validate_schedule zones mode js tz = Inr ws \<Longrightarrow> w \<in> set ws \<Longrightarrow> window_ok w"
  by (auto simp: validate_schedule_def split: if_splits option.splits sum.splits pyobj.splits
      dest!: map_result_memD intro: validate_window_ok)

lemma validate_schedule_nonempty:
  "validate_schedule zones ''schedule'' js tz = Inr ws \<Longrightarrow> ws \<noteq> [] \<and> length ws \<le> 64"
  by (auto simp: validate_schedule_def split: if_splits option.splits sum.splits pyobj.splits
      dest: map_result_length)

lemma validate_schedule_zone:
  "validate_schedule zones ''schedule'' js tz = Inr ws \<Longrightarrow> \<exists>k z. tz = Some k \<and> zones k = Inr z"
  by (auto simp: validate_schedule_def split: if_splits option.splits sum.splits)

text \<open>A text that is a time in the pattern's sense and carries a newline escapes the API errors.\<close>

lemma trailing_newline_not_parsed:
  "time_shape s \<Longrightarrow> time_re_match (s @ [CHR 0x0A]) \<and> time_fromisoformat (s @ [CHR 0x0A]) = Inl ValueError"
proof -
  assume sh: "time_shape s"
  then have "time_re_match (s @ [CHR 0x0A])" by (simp add: time_re_match_def)
  moreover have "length s = 5" using sh by (cases s rule: time_shape.cases) simp_all
  then have "time_fromisoformat (s @ [CHR 0x0A]) = Inl ValueError"
    by (cases "s @ [CHR 0x0A]" rule: time_fromisoformat.cases) simp_all
  ultimately show ?thesis ..
qed

section \<open>Whether the baseline records\<close>

definition window_matches :: "int \<Rightarrow> int \<Rightarrow> weekly_window \<Rightarrow> bool" where
  "window_matches weekday local_time w =
     (if ww_start w < ww_end w
      then weekday \<in> set (ww_days w) \<and> ww_start w \<le> local_time \<and> local_time < ww_end w
      else (weekday \<in> set (ww_days w) \<and> ww_start w \<le> local_time)
           \<or> ((weekday - 1) mod 7 \<in> set (ww_days w) \<and> local_time < ww_end w))"

definition baseline_should_record :: "zones \<Rightarrow> recording_policy \<Rightarrow> instant \<Rightarrow> bool result" where
  "baseline_should_record zones policy instant =
     (if \<not> rp_enabled policy then Inr False
      else if rp_baseline_mode policy = ''continuous'' then Inr True
      else if rp_baseline_mode policy = ''disabled'' then Inr False
      else if rp_baseline_mode policy \<noteq> ''schedule'' then Inr False
      else and_then (validate_schedule zones (rp_baseline_mode policy) (rp_schedule_json policy)
                       (rp_schedule_timezone policy)) (\<lambda>windows.
        case rp_schedule_timezone policy of
          None \<Rightarrow> Inl AssertionError
        | Some tz \<Rightarrow> and_then (zones tz) (\<lambda>z.
            let local = fst (zi_from_utc z instant) in
            Inr (list_ex (window_matches (day_weekday (wall_day local)) (wall_time local)) windows))))"

text \<open>
  What a weekly window promises: the local week is a circle of seven days, and a window is, for
  each of its days, the arc that starts at its start time on that day and has the length of
  the window.
\<close>

definition week_us :: span where
  "week_us = 7 * day_us"

definition week_position :: "int \<Rightarrow> int" where
  "week_position w = day_weekday (wall_day w) * day_us + wall_time w"

definition window_length :: "weekly_window \<Rightarrow> span" where
  "window_length w = (ww_end w - ww_start w) mod day_us"

definition in_weekly_arc :: "int \<Rightarrow> weekly_window \<Rightarrow> bool" where
  "in_weekly_arc p w \<longleftrightarrow>
     (\<exists>d \<in> set (ww_days w). (p - (d * day_us + ww_start w)) mod week_us < window_length w)"

lemma window_length_eq:
  assumes "window_ok w"
  shows "window_length w =
    (if ww_start w < ww_end w then ww_end w - ww_start w else ww_end w - ww_start w + day_us)"
proof (cases "ww_start w < ww_end w")
  case True
  then show ?thesis using assms by (simp add: window_length_def window_ok_def)
next
  case False
  then have "(ww_end w - ww_start w) mod day_us = (ww_end w - ww_start w + day_us) mod day_us" by simp
  also have "\<dots> = ww_end w - ww_start w + day_us"
    using False assms by (intro mod_pos_pos_trivial) (auto simp: window_ok_def)
  finally show ?thesis using False by (simp add: window_length_def)
qed

lemma mod_circle:
  fixes x M :: int
  assumes "- M \<le> x" and "x < M"
  shows "x mod M = (if 0 \<le> x then x else x + M)"
proof (cases "0 \<le> x")
  case False
  then have "x mod M = (x + M) mod M" by simp
  also have "\<dots> = x + M" using assms False by (intro mod_pos_pos_trivial) auto
  finally show ?thesis using False by simp
qed (use assms in simp)

text \<open>One day of a window: the arc is hit on the day itself or, over midnight, on the next.\<close>

lemma day_arc:
  assumes wd: "0 \<le> wd" "wd \<le> 6" and d: "0 \<le> d" "d \<le> 6"
    and t: "0 \<le> t" "t < day_us" and s: "0 \<le> s" "s < day_us" and e: "0 \<le> e" "e < day_us" "s \<noteq> e"
  shows "(wd * day_us + t - (d * day_us + s)) mod week_us
           < (if s < e then e - s else e - s + day_us)
         \<longleftrightarrow> (if s < e then wd = d \<and> s \<le> t \<and> t < e
              else (wd = d \<and> s \<le> t) \<or> ((wd - 1) mod 7 = d \<and> t < e))"
proof -
  define k where "k = wd - d"
  define x where "x = k * day_us + (t - s)"
  have k: "- 6 \<le> k" "k \<le> 6" using wd d by (auto simp: k_def)
  have eq: "wd * day_us + t - (d * day_us + s) = x" by (simp add: x_def k_def algebra_simps)
  have range: "- week_us \<le> x" "x < week_us"
    using k t s by (auto simp: x_def week_us_def day_us_def)
  have next_day: "(wd - 1) mod 7 = d \<longleftrightarrow> k = 1 \<or> k = -6"
    using wd d mod_circle [of 7 "wd - 1"] unfolding k_def by auto
  have same: "wd = d \<longleftrightarrow> k = 0" by (auto simp: k_def)
  have "k = - 6 \<or> k = - 5 \<or> k = - 4 \<or> k = - 3 \<or> k = - 2 \<or> k = - 1 \<or> k = 0 \<or> k = 1
        \<or> k = 2 \<or> k = 3 \<or> k = 4 \<or> k = 5 \<or> k = 6" using k by presburger
  then show ?thesis
    unfolding eq mod_circle [OF range] next_day same
    unfolding x_def week_us_def
    using t s e unfolding day_us_def by (elim disjE; simp)
qed

lemma window_matches_arc:
  assumes "window_ok w" and "0 \<le> wd" "wd \<le> 6" and "0 \<le> t" "t < day_us"
  shows "window_matches wd t w \<longleftrightarrow> in_weekly_arc (wd * day_us + t) w"
proof -
  have arc: "(wd * day_us + t - (d * day_us + ww_start w)) mod week_us < window_length w
     \<longleftrightarrow> (if ww_start w < ww_end w then wd = d \<and> ww_start w \<le> t \<and> t < ww_end w
          else (wd = d \<and> ww_start w \<le> t) \<or> ((wd - 1) mod 7 = d \<and> t < ww_end w))"
    if "d \<in> set (ww_days w)" for d
    using day_arc [of wd d t "ww_start w" "ww_end w"] assms that
    by (simp add: window_length_eq window_ok_def)
  show ?thesis
    unfolding in_weekly_arc_def window_matches_def using arc by auto
qed

lemma weekday_range: "0 \<le> day_weekday n \<and> day_weekday n \<le> 6"
  using pos_mod_bound [of 7 "n + 3"] pos_mod_sign [of 7 "n + 3"] unfolding day_weekday_def by linarith

lemma wall_time_range: "0 \<le> wall_time w \<and> wall_time w < day_us"
  by (simp add: wall_time_def day_us_def)

lemma window_matches_wall:
  "window_ok w \<Longrightarrow>
   window_matches (day_weekday (wall_day l)) (wall_time l) w \<longleftrightarrow> in_weekly_arc (week_position l) w"
  unfolding week_position_def using weekday_range wall_time_range by (intro window_matches_arc) auto

section \<open>The next schedule boundary\<close>

text \<open>
  A wall clock of the schedule in the zone. A wall clock that the zone skips is normalised by the
  round trip through UTC, as the code does.
\<close>

definition wall_clock :: "zone \<Rightarrow> int \<Rightarrow> int \<Rightarrow> int \<times> bool" where
  "wall_clock z day value =
     (let candidate = (day * day_us + value, False);
          roundtrip = zi_from_utc z (zone_to_utc z candidate)
      in if wall_day (fst roundtrip) \<noteq> day \<or> wall_time (fst roundtrip) \<noteq> value
         then roundtrip else candidate)"

definition window_boundaries :: "zone \<Rightarrow> int \<Rightarrow> weekly_window \<Rightarrow> instant list" where
  "window_boundaries z day w =
     (if day_weekday day \<notin> set (ww_days w) then []
      else [zone_to_utc z (wall_clock z day (ww_start w)),
            zone_to_utc z (wall_clock z (if ww_start w < ww_end w then day else day + 1) (ww_end w))])"

definition transition_candidates :: "zone \<Rightarrow> weekly_window list \<Rightarrow> int \<Rightarrow> instant list" where
  "transition_candidates z windows start_date =
     concat (map (\<lambda>offset. concat (map (window_boundaries z (start_date + offset)) windows)) [0..8])"

definition first_after :: "instant \<Rightarrow> instant list \<Rightarrow> instant option" where
  "first_after after candidates =
     (case sort (filter (\<lambda>c. after < c) candidates) of [] \<Rightarrow> None | c # _ \<Rightarrow> Some c)"

definition next_baseline_transition ::
    "zones \<Rightarrow> recording_policy \<Rightarrow> instant \<Rightarrow> instant option result" where
  "next_baseline_transition zones policy after =
     (if \<not> rp_enabled policy \<or> rp_baseline_mode policy \<noteq> ''schedule'' then Inr None
      else case rp_schedule_timezone policy of
        None \<Rightarrow> Inr None
      | Some tz \<Rightarrow>
          if tz = [] then Inr None
          else and_then (validate_schedule zones (rp_baseline_mode policy) (rp_schedule_json policy)
                           (rp_schedule_timezone policy)) (\<lambda>windows.
               and_then (zones tz) (\<lambda>z.
                 let start_date = wall_day (fst (zi_from_utc z after))
                 in Inr (first_after after (transition_candidates z windows start_date)))))"

lemma wall_clock_utc:
  assumes "zone_ok z"
  shows "zone_to_utc z (wall_clock z day v) = day * day_us + v - zi_offset z (day * day_us + v) False"
  using assms by (simp add: wall_clock_def Let_def zone_ok_def) (simp add: zone_to_utc_def)

lemma sort_Cons_least: "sort xs = c # cs \<Longrightarrow> c \<in> set xs \<and> (\<forall>x \<in> set xs. c \<le> x)"
  by (metis list.set_intros(1) set_ConsD set_sort sorted_simps(2) sorted_sort order_refl)

lemma first_after_None: "first_after a cs = None \<longleftrightarrow> (\<forall>c \<in> set cs. c \<le> a)"
proof -
  have "first_after a cs = None \<longleftrightarrow> filter (\<lambda>c. a < c) cs = []"
    by (auto simp: first_after_def split: list.splits) (metis set_empty set_sort)+
  then show ?thesis by (auto simp: filter_empty_conv not_less)
qed

lemma first_after_Some:
  "first_after a cs = Some t \<Longrightarrow> t \<in> set cs \<and> a < t \<and> (\<forall>c \<in> set cs. a < c \<longrightarrow> t \<le> c)"
  by (auto simp: first_after_def split: list.splits dest!: sort_Cons_least)

lemma next_transition_cases:
  assumes "next_baseline_transition zones policy after = Inr (Some t)"
  obtains windows tz z where "rp_baseline_mode policy = ''schedule''" "rp_enabled policy"
    "rp_schedule_timezone policy = Some tz" "zones tz = Inr z"
    "validate_schedule zones ''schedule'' (rp_schedule_json policy) (Some tz) = Inr windows"
    "t \<in> set (transition_candidates z windows (wall_day (fst (zi_from_utc z after))))" "after < t"
    "\<And>c. c \<in> set (transition_candidates z windows (wall_day (fst (zi_from_utc z after))))
          \<Longrightarrow> after < c \<Longrightarrow> t \<le> c"
  using assms unfolding next_baseline_transition_def
  by (auto simp: result_simps Let_def split: if_splits option.splits dest!: first_after_Some)

lemma weekday_hit:
  assumes "0 \<le> d" "d \<le> (6::int)"
  obtains k where "lo \<le> k" "k \<le> lo + 6" "day_weekday (n + k) = d"
proof
  define k where "k = lo + (d - (n + lo + 3)) mod 7"
  show "lo \<le> k" "k \<le> lo + 6"
    using pos_mod_bound [of 7 "d - (n + lo + 3)"] pos_mod_sign [of 7 "d - (n + lo + 3)"]
    unfolding k_def by linarith+
  have "n + k + 3 = d + 7 * (- ((d - (n + lo + 3)) div 7))"
    unfolding k_def by (simp add: minus_mult_div_eq_mod [symmetric])
  then have "(n + k + 3) mod 7 = d mod 7" by (simp only: mod_mult_self2)
  then show "day_weekday (n + k) = d" using assms by (simp add: day_weekday_def)
qed

lemma candidate_start:
  assumes "w \<in> set windows" "day_weekday (sd + k) \<in> set (ww_days w)" "0 \<le> k" "k \<le> 8"
  shows "zone_to_utc z (wall_clock z (sd + k) (ww_start w)) \<in> set (transition_candidates z windows sd)"
  using assms unfolding transition_candidates_def by (auto simp: window_boundaries_def intro!: bexI [of _ k] bexI [of _ w])

lemma candidate_end:
  assumes "w \<in> set windows" "day_weekday (sd + k) \<in> set (ww_days w)" "0 \<le> k" "k \<le> 8" "ww_start w < ww_end w"
  shows "zone_to_utc z (wall_clock z (sd + k) (ww_end w)) \<in> set (transition_candidates z windows sd)"
  using assms unfolding transition_candidates_def by (auto simp: window_boundaries_def intro!: bexI [of _ k] bexI [of _ w])

definition zone_offsets_within_day :: "zone \<Rightarrow> bool" where
  "zone_offsets_within_day z \<longleftrightarrow>
     (\<forall>w f w' f'. \<bar>zi_offset z w f - zi_offset z w' f'\<bar> \<le> day_us)"

definition scheduled_by :: "zones \<Rightarrow> recording_policy \<Rightarrow> zone \<Rightarrow> weekly_window list \<Rightarrow> bool" where
  "scheduled_by zones policy z windows \<longleftrightarrow>
     rp_enabled policy \<and> rp_baseline_mode policy = ''schedule''
     \<and> (\<exists>tz. rp_schedule_timezone policy = Some tz \<and> tz \<noteq> [] \<and> zones tz = Inr z)
     \<and> validate_schedule zones ''schedule'' (rp_schedule_json policy) (rp_schedule_timezone policy)
        = Inr windows"

lemma scheduled_by_windows:
  assumes "scheduled_by zones policy z windows"
  shows "windows \<noteq> []" and "w \<in> set windows \<Longrightarrow> window_ok w"
  using assms validate_schedule_nonempty [of zones "rp_schedule_json policy" "rp_schedule_timezone policy" windows]
    validate_schedule_windows_ok [of zones "''schedule''" "rp_schedule_json policy" "rp_schedule_timezone policy" windows w]
  by (auto simp: scheduled_by_def)

lemma scheduled_by_next:
  "scheduled_by zones policy z windows \<Longrightarrow>
   next_baseline_transition zones policy after =
     Inr (first_after after (transition_candidates z windows (wall_day (fst (zi_from_utc z after)))))"
  by (auto simp: scheduled_by_def next_baseline_transition_def)

lemma scheduled_by_baseline:
  assumes "scheduled_by zones policy z windows"
  shows "baseline_should_record zones policy u =
    Inr (list_ex (window_matches (day_weekday (wall_day (fst (zi_from_utc z u))))
                    (wall_time (fst (zi_from_utc z u)))) windows)"
  using assms by (auto simp: scheduled_by_def baseline_should_record_def Let_def)

lemma wall_bounds: "wall_day w * day_us \<le> w" "w < (wall_day w + 1) * day_us"
    "w = wall_day w * day_us + wall_time w"
proof -
  show eq: "w = wall_day w * day_us + wall_time w"
    by (simp add: wall_day_def wall_time_def)
  show "wall_day w * day_us \<le> w" "w < (wall_day w + 1) * day_us"
    using wall_time_range [of w] eq by (auto simp: algebra_simps)
qed

lemma from_utc_instant:
  "zone_ok z \<Longrightarrow> u = fst (zi_from_utc z u) - zi_offset z (fst (zi_from_utc z u)) (snd (zi_from_utc z u))"
  by (metis zone_ok_def zone_to_utc_def)

lemma next_candidate_exists:
  assumes z: "zone_ok z" "zone_offsets_within_day z" and w: "w \<in> set windows" "window_ok w"
  shows "\<exists>c \<in> set (transition_candidates z windows (wall_day (fst (zi_from_utc z after)))).
           after < c \<and> c \<le> after + 10 * day_us"
proof -
  define la where "la = fst (zi_from_utc z after)"
  define o1 where "o1 = zi_offset z la (snd (zi_from_utc z after))"
  from w obtain d where d: "d \<in> set (ww_days w)" "0 \<le> d" "d \<le> 6"
    by (cases "ww_days w") (auto simp: window_ok_def)
  obtain k where k: "2 \<le> k" "k \<le> 2 + 6" and hit: "day_weekday (wall_day la + k) = d"
    using weekday_hit [OF d(2,3)] by blast
  define c where "c = zone_to_utc z (wall_clock z (wall_day la + k) (ww_start w))"
  have mem: "c \<in> set (transition_candidates z windows (wall_day la))"
    unfolding c_def using w d k hit by (intro candidate_start) auto
  define o2 where "o2 = zi_offset z ((wall_day la + k) * day_us + ww_start w) False"
  have c: "c = (wall_day la + k) * day_us + ww_start w - o2"
    unfolding c_def o2_def by (rule wall_clock_utc [OF z(1)])
  have after: "after = la - o1"
    unfolding la_def o1_def by (rule from_utc_instant [OF z(1)])
  have off: "\<bar>o2 - o1\<bar> \<le> day_us" using z(2) by (simp add: zone_offsets_within_day_def o1_def o2_def)
  have s: "0 \<le> ww_start w" "ww_start w < day_us" using w by (auto simp: window_ok_def)
  have kd: "2 * day_us \<le> k * day_us" "k * day_us \<le> 8 * day_us"
    using k by (simp_all add: day_us_def)
  have expand: "(wall_day la + k) * day_us = wall_day la * day_us + k * day_us"
    by (simp add: algebra_simps)
  have la: "wall_day la * day_us \<le> la" "la < wall_day la * day_us + day_us"
    using wall_bounds(1,2) [of la] by (auto simp: algebra_simps)
  have "after < c" unfolding c after expand using la kd off s by linarith
  moreover have "c \<le> after + 10 * day_us" unfolding c after expand using la kd off s by linarith
  ultimately show ?thesis using mem unfolding la_def by blast
qed


text \<open>C39: for an enabled scheduled policy the baseline records at an instant exactly when the local
  position in the week lies on the arc of some window, windows over midnight included.\<close>

theorem baseline_records_on_arcs:
  assumes "scheduled_by zones policy z windows"
  shows "baseline_should_record zones policy u =
    Inr (\<exists>w \<in> set windows. in_weekly_arc (week_position (fst (zi_from_utc z u))) w)"
  using scheduled_by_windows(2) [OF assms]
  by (simp add: scheduled_by_baseline [OF assms] list_ex_iff window_matches_wall)

section \<open>Boundaries and the baseline\<close>

lemma fixed_zone_simps [simp]:
  "zi_from_utc (fixed_zone off) u = (u + off, False)"
  "zone_to_utc (fixed_zone off) w = fst w - off"
  by (simp_all add: fixed_zone_def zone_to_utc_def)

lemma fixed_wall_clock: "zone_to_utc (fixed_zone off) (wall_clock (fixed_zone off) d v) = d * day_us + v - off"
  by (subst wall_clock_utc [OF fixed_zone_ok]) (simp add: fixed_zone_def)

text \<open>Two local instants with no boundary of a same-day window between them agree on the window.\<close>

lemma window_matches_stable:
  assumes w: "window_ok w" "ww_start w < ww_end w" and le: "la \<le> lu"
    and no_start: "\<And>k. 0 \<le> k \<Longrightarrow> k \<le> 8 \<Longrightarrow> day_weekday (wall_day la + k) \<in> set (ww_days w) \<Longrightarrow>
       la < (wall_day la + k) * day_us + ww_start w \<Longrightarrow> lu < (wall_day la + k) * day_us + ww_start w"
    and no_end: "day_weekday (wall_day la) \<in> set (ww_days w) \<Longrightarrow>
       la < wall_day la * day_us + ww_end w \<Longrightarrow> lu < wall_day la * day_us + ww_end w"
  shows "window_matches (day_weekday (wall_day lu)) (wall_time lu) w
         = window_matches (day_weekday (wall_day la)) (wall_time la) w"
proof -
  note la = wall_bounds(3) [of la] wall_time_range [of la]
  note lu = wall_bounds(3) [of lu] wall_time_range [of lu]
  have days_le: "wall_day la \<le> wall_day lu"
    using le unfolding wall_day_def by (intro zdiv_mono1) (auto simp: day_us_def)
  define k where "k = wall_day lu - wall_day la"
  have lu_k: "lu = (wall_day la + k) * day_us + wall_time lu" using lu(1) by (simp add: k_def)
  have k0: "0 \<le> k" using days_le by (simp add: k_def)
  have la_next: "la < (wall_day la + j) * day_us" if "1 \<le> j" for j
  proof -
    have "(wall_day la + 1) * day_us \<le> (wall_day la + j) * day_us"
      using that by (intro mult_right_mono) (auto simp: day_us_def)
    with wall_bounds(2) [of la] show ?thesis by linarith
  qed
  have "k \<le> 8"
  proof (rule ccontr)
    assume "\<not> k \<le> 8"
    obtain d where d: "d \<in> set (ww_days w)" "0 \<le> d" "d \<le> 6"
      using w(1) by (cases "ww_days w") (auto simp: window_ok_def)
    obtain j where j: "1 \<le> j" "j \<le> 1 + 6" "day_weekday (wall_day la + j) = d"
      using weekday_hit [OF d(2,3)] by blast
    have "lu < (wall_day la + j) * day_us + ww_start w"
      using j d la_next [of j] w(1) by (intro no_start) (auto simp: window_ok_def)
    moreover have "(wall_day la + j + 1) * day_us \<le> (wall_day la + k) * day_us"
      using j \<open>\<not> k \<le> 8\<close> by (intro mult_right_mono) (auto simp: day_us_def)
    ultimately show False using lu_k lu(2) w(1) by (simp add: window_ok_def algebra_simps)
  qed
  show ?thesis
  proof (cases "k = 0")
    case True
    then have day: "wall_day lu = wall_day la" by (simp add: k_def)
    have tle: "wall_time la \<le> wall_time lu" using le la(1) lu(1) day by simp
    have lt: "la < wall_day la * day_us + x \<longleftrightarrow> wall_time la < x"
      "lu < wall_day la * day_us + x \<longleftrightarrow> wall_time lu < x" for x
      using la(1) lu(1) [unfolded day] by linarith+
    show ?thesis
      using no_start [of 0] no_end w(2) tle unfolding window_matches_def day
      by (cases "wall_time la < ww_start w") (auto simp: lt)
  next
    case False
    then have k1: "1 \<le> k" using k0 by simp
    have "\<not> window_matches (day_weekday (wall_day lu)) (wall_time lu) w"
      using no_start [of k] \<open>k \<le> 8\<close> k1 la_next [of k] lu_k w unfolding window_matches_def
      by (auto simp: k_def window_ok_def)
    moreover have "\<not> window_matches (day_weekday (wall_day la)) (wall_time la) w"
    proof
      assume "window_matches (day_weekday (wall_day la)) (wall_time la) w"
      then have "lu < wall_day la * day_us + ww_end w"
        using no_end w(2) la(1) by (auto simp: window_matches_def)
      moreover have "(wall_day la + 1) * day_us \<le> (wall_day la + k) * day_us"
        using k1 by (intro mult_right_mono) (auto simp: day_us_def)
      moreover have "(wall_day la + 1) * day_us = wall_day la * day_us + day_us"
        by (simp add: algebra_simps)
      moreover have "ww_end w < day_us" using w(1) by (simp add: window_ok_def)
      ultimately show False using lu_k lu(2) by linarith
    qed
    ultimately show ?thesis by simp
  qed
qed

text \<open>In a zone of fixed offset and for windows that do not run over midnight, no change of the
  baseline is missed: from an instant up to the next boundary the baseline decision is constant.\<close>

theorem next_transition_complete:
  assumes sched: "scheduled_by zones policy (fixed_zone off) windows"
    and same_day: "\<forall>w \<in> set windows. ww_start w < ww_end w"
    and nxt: "next_baseline_transition zones policy after = Inr (Some t)"
    and u: "after \<le> u" "u < t"
  shows "baseline_should_record zones policy u = baseline_should_record zones policy after"
proof -
  let ?z = "fixed_zone off"
  define la lu where "la = after + off" and "lu = u + off"
  have least: "t \<le> c" if "c \<in> set (transition_candidates ?z windows (wall_day la))" "after < c" for c
    using nxt that first_after_Some [of after _ t] by (auto simp: scheduled_by_next [OF sched] la_def)
  have "window_matches (day_weekday (wall_day lu)) (wall_time lu) w
        = window_matches (day_weekday (wall_day la)) (wall_time la) w" if w: "w \<in> set windows" for w
  proof (rule window_matches_stable)
    show "window_ok w" using w scheduled_by_windows(2) [OF sched] by blast
    show "ww_start w < ww_end w" using w same_day by blast
    show "la \<le> lu" using u by (simp add: la_def lu_def)
    show "lu < (wall_day la + k) * day_us + ww_start w"
      if "0 \<le> k" "k \<le> 8" "day_weekday (wall_day la + k) \<in> set (ww_days w)"
        "la < (wall_day la + k) * day_us + ww_start w" for k
      using least [OF candidate_start [OF w that(3,1,2)]] that(4) u
      by (simp add: fixed_wall_clock la_def lu_def del: fixed_zone_simps(2))
    show "lu < wall_day la * day_us + ww_end w"
      if "day_weekday (wall_day la) \<in> set (ww_days w)" "la < wall_day la * day_us + ww_end w"
      using least [OF candidate_end [OF w, of "wall_day la" 0]] that u \<open>ww_start w < ww_end w\<close>
      by (simp add: fixed_wall_clock la_def lu_def del: fixed_zone_simps(2))
  qed
  then show ?thesis
    by (simp add: scheduled_by_baseline [OF sched] list_ex_iff la_def lu_def)
qed

section \<open>Event filters\<close>

definition event_filter_invalid :: error where
  "event_filter_invalid = ApiError 400 ''recording_event_filter_invalid''"

fun str_items :: "pyobj list \<Rightarrow> string list option" where
  "str_items [] = Some []"
| "str_items (PStr s # xs) = map_option ((#) s) (str_items xs)"
| "str_items (_ # xs) = None"

definition filter_texts :: "string \<Rightarrow> dict \<Rightarrow> dict \<Rightarrow> dict result" where
  "filter_texts key value normalized = (case map_of value key of
     None \<Rightarrow> Inr normalized
   | Some PNone \<Rightarrow> Inr normalized
   | Some (PList raw) \<Rightarrow>
       if length raw > 64 then Inl event_filter_invalid
       else (case str_items raw of
         None \<Rightarrow> Inl event_filter_invalid
       | Some items \<Rightarrow>
           if list_all (\<lambda>item. 0 < length (py_strip item) \<and> length (py_strip item) \<le> 128) items
           then Inr (dict_put key (PList (map PStr (sort (remdups (map py_strip items))))) normalized)
           else Inl event_filter_invalid)
   | _ \<Rightarrow> Inl event_filter_invalid)"

definition filter_confidence :: "dict \<Rightarrow> dict \<Rightarrow> dict result" where
  "filter_confidence value normalized = (case map_of value ''min_confidence'' of
     None \<Rightarrow> Inr normalized
   | Some (PInt i) \<Rightarrow>
       if 0 \<le> i \<and> i \<le> 1 then Inr (dict_put ''min_confidence'' (PFloat (of_int i)) normalized)
       else Inl event_filter_invalid
   | Some (PFloat x) \<Rightarrow>
       if 0 \<le> x \<and> x \<le> 1 then Inr (dict_put ''min_confidence'' (PFloat x) normalized)
       else Inl event_filter_invalid
   | _ \<Rightarrow> Inl event_filter_invalid)"

definition validate_event_filter :: "dict \<Rightarrow> dict result" where
  "validate_event_filter value =
     (if list_ex (\<lambda>k. k \<notin> {''labels'', ''zones'', ''min_confidence''}) (map fst value)
      then Inl event_filter_invalid
      else and_then (filter_texts ''labels'' value []) (\<lambda>n1.
           and_then (filter_texts ''zones'' value n1) (\<lambda>n2.
           filter_confidence value n2)))"

lemma str_items_map [simp]: "str_items (map PStr xs) = Some xs"
  by (induction xs) simp_all

lemma str_items_Some: "str_items raw = Some items \<Longrightarrow> raw = map PStr items"
  by (induction raw arbitrary: items rule: str_items.induct) auto

lemma dropWhile_idem: "dropWhile P (dropWhile P xs) = dropWhile P xs"
  by (induction xs) auto

lemma dropWhile_rev_dropWhile:
  "dropWhile P xs = xs \<Longrightarrow> dropWhile P (rev (dropWhile P (rev xs))) = rev (dropWhile P (rev xs))"
proof (cases "rev (dropWhile P (rev xs))")
  case (Cons y ys)
  assume drop: "dropWhile P xs = xs"
  have "xs = rev (dropWhile P (rev xs)) @ rev (takeWhile P (rev xs))"
    by (metis rev_append rev_rev_ident takeWhile_dropWhile_id)
  then have "hd xs = y" "xs \<noteq> []" using Cons by (metis append_Cons list.sel(1), auto)
  then have "\<not> P y" using drop by (simp add: dropWhile_eq_self_iff)
  then show ?thesis using Cons by simp
next
  case Nil
  then show ?thesis by (simp only: dropWhile.simps)
qed

lemma py_strip_idem [simp]: "py_strip (py_strip s) = py_strip s"
proof -
  let ?d = "dropWhile is_space s" and ?p = "rev (dropWhile is_space (rev (dropWhile is_space s)))"
  have "dropWhile is_space ?p = ?p" by (rule dropWhile_rev_dropWhile) (rule dropWhile_idem)
  then show ?thesis by (simp add: py_strip_def dropWhile_idem)
qed

text \<open>One text list that has been normalised is accepted again and stays as it is.\<close>

definition normal_texts :: "string list \<Rightarrow> bool" where
  "normal_texts xs \<longleftrightarrow> sort (remdups xs) = xs \<and> length xs \<le> 64
     \<and> (\<forall>s \<in> set xs. py_strip s = s \<and> 0 < length s \<and> length s \<le> 128)"

lemma normal_texts_result:
  assumes "length ys \<le> 64" and "list_all (\<lambda>s. 0 < length (py_strip s) \<and> length (py_strip s) \<le> 128) ys"
  shows "normal_texts (sort (remdups (map py_strip ys)))" (is "normal_texts ?xs")
proof -
  have "length ?xs \<le> length ys" using length_remdups_leq [of "map py_strip ys"] by simp
  then show ?thesis using assms by (auto simp: normal_texts_def sorted_sort_id list_all_iff)
qed

lemma filter_texts_normal [simp]:
  "normal_texts xs \<Longrightarrow> map_of value key = Some (PList (map PStr xs)) \<Longrightarrow>
   filter_texts key value n = Inr (dict_put key (PList (map PStr xs)) n)"
  by (auto simp: filter_texts_def normal_texts_def list_all_iff map_idI)

lemma filter_texts_absent [simp]: "map_of value key = None \<Longrightarrow> filter_texts key value n = Inr n"
  by (simp add: filter_texts_def)

lemma filter_texts_cases:
  assumes "filter_texts key value n = Inr n'"
  obtains (absent) "n' = n" | (texts) xs where "n' = dict_put key (PList (map PStr xs)) n" "normal_texts xs"
proof (cases "map_of value key")
  case None
  then show ?thesis using assms absent by (simp add: filter_texts_def)
next
  case (Some v)
  show ?thesis
  proof (cases v)
    case PNone
    then show ?thesis using Some assms absent by (simp add: filter_texts_def)
  next
    case (PList raw)
    then obtain ys where "str_items raw = Some ys"
      using Some assms by (auto simp: filter_texts_def split: if_splits option.splits)
    moreover have "length ys = length raw" using str_items_Some [OF calculation] by simp
    ultimately show ?thesis using Some PList assms texts [OF _ normal_texts_result [of ys]]
      by (auto simp: filter_texts_def split: if_splits)
  qed (use Some assms in \<open>simp_all add: filter_texts_def\<close>)
qed

lemma filter_confidence_cases:
  assumes "filter_confidence value n = Inr n'"
  obtains (absent) "n' = n" | (conf) x where "n' = dict_put ''min_confidence'' (PFloat x) n" "0 \<le> x" "x \<le> 1"
  using assms unfolding filter_confidence_def
  by (auto split: option.splits pyobj.splits if_splits)

text \<open>Event filter validation is a normalisation: a filter it accepts and returns is accepted
  again and returned unchanged.\<close>

theorem validate_event_filter_idempotent:
  assumes "validate_event_filter value = Inr normalized"
  shows "validate_event_filter normalized = Inr normalized"
proof -
  from assms obtain n1 n2 where n1: "filter_texts ''labels'' value [] = Inr n1"
    and n2: "filter_texts ''zones'' value n1 = Inr n2" and n: "filter_confidence value n2 = Inr normalized"
    by (auto simp: validate_event_filter_def result_simps split: if_splits)
  show ?thesis
    by (rule filter_texts_cases [OF n1]; rule filter_texts_cases [OF n2];
        rule filter_confidence_cases [OF n])
       (simp_all add: validate_event_filter_def filter_confidence_def)
qed

section \<open>Storing a policy\<close>

definition validate_storage_target :: "db \<Rightarrow> uuid option \<Rightarrow> unit result" where
  "validate_storage_target d storage_target_id = (case storage_target_id of
     None \<Rightarrow> Inr ()
   | Some k \<Rightarrow> (case get_target d k of
       None \<Rightarrow> Inl (ApiError 400 ''recording_storage_target_invalid'')
     | Some t \<Rightarrow>
         if \<not> st_enabled t \<or> st_type t \<noteq> LocalTarget \<or> st_role t \<noteq> RecordingRole
         then Inl (ApiError 400 ''recording_storage_target_invalid'') else Inr ()))"

definition validate_retention_policy :: "db \<Rightarrow> uuid option \<Rightarrow> unit result" where
  "validate_retention_policy d retention_policy_id = (case retention_policy_id of
     None \<Rightarrow> Inr ()
   | Some k \<Rightarrow> (case get_retention d k of
       None \<Rightarrow> Inl (ApiError 400 ''retention_policy_invalid'')
     | Some r \<Rightarrow>
         if \<not> tp_enabled r then Inl (ApiError 400 ''retention_policy_invalid'') else Inr ()))"

text \<open>
  The validated request body \<open>put\<close> reads its values from (the request schema gives them these
  types, so the \<open>isinstance\<close> tests of \<open>put\<close> succeed).
\<close>

record policy_values =
  pv_baseline_mode :: string
  pv_schedule_json :: dict
  pv_schedule_timezone :: "string option"
  pv_event_recording_enabled :: bool
  pv_event_filter_json :: dict
  pv_segment_target_seconds :: int
  pv_pre_roll_seconds :: int
  pv_post_roll_seconds :: int
  pv_storage_target_id :: "uuid option"
  pv_retention_policy_id :: "uuid option"
  pv_enabled :: bool

text \<open>The CHECK constraints of the table.\<close>

definition policy_row_ok :: "recording_policy \<Rightarrow> bool" where
  "policy_row_ok p =
     (rp_baseline_mode p \<in> {''continuous'', ''schedule'', ''disabled''}
      \<and> 0 < rp_segment_target_seconds p \<and> 0 \<le> rp_pre_roll_seconds p \<and> 0 \<le> rp_post_roll_seconds p)"

definition store_policy :: "recording_policy \<Rightarrow> db \<Rightarrow> db" where
  "store_policy p d =
     (if policy_of_camera d (rp_camera_id p) = None
      then d\<lparr>db_policies := db_policies d @ [p]\<rparr>
      else d\<lparr>db_policies := map (\<lambda>r. if rp_camera_id r = rp_camera_id p then p else r) (db_policies d)\<rparr>)"

definition policy_from_values :: "uuid \<Rightarrow> policy_values \<Rightarrow> dict \<Rightarrow> recording_policy" where
  "policy_from_values camera_id v event_filter =
     \<lparr>rp_camera_id = camera_id, rp_baseline_mode = pv_baseline_mode v,
      rp_schedule_json = pv_schedule_json v, rp_schedule_timezone = pv_schedule_timezone v,
      rp_event_recording_enabled = pv_event_recording_enabled v, rp_event_filter_json = event_filter,
      rp_segment_target_seconds = pv_segment_target_seconds v,
      rp_pre_roll_seconds = pv_pre_roll_seconds v, rp_post_roll_seconds = pv_post_roll_seconds v,
      rp_storage_target_id = pv_storage_target_id v,
      rp_retention_policy_id = pv_retention_policy_id v, rp_enabled = pv_enabled v\<rparr>"

definition put_policy ::
    "zones \<Rightarrow> db \<Rightarrow> uuid \<Rightarrow> policy_values \<Rightarrow> (db \<times> recording_policy) result" where
  "put_policy zones d camera_id v =
     and_then (fetch_or_404 (get_camera d camera_id) ''camera_not_found'') (\<lambda>_.
     and_then (validate_schedule zones (pv_baseline_mode v) (pv_schedule_json v) (pv_schedule_timezone v)) (\<lambda>_.
     and_then (validate_storage_target d (pv_storage_target_id v)) (\<lambda>_.
     and_then (validate_retention_policy d (pv_retention_policy_id v)) (\<lambda>_.
     and_then (require (\<not> (pv_segment_target_seconds v < 5 \<or> pv_segment_target_seconds v > 3600))
                 (ApiError 400 ''recording_segment_target_invalid'')) (\<lambda>_.
     and_then (require (\<not> (pv_pre_roll_seconds v < 0 \<or> pv_pre_roll_seconds v > 300))
                 (ApiError 400 ''recording_pre_roll_invalid'')) (\<lambda>_.
     and_then (require (\<not> (pv_post_roll_seconds v < 0 \<or> pv_post_roll_seconds v > 3600))
                 (ApiError 400 ''recording_post_roll_invalid'')) (\<lambda>_.
     and_then (validate_event_filter (pv_event_filter_json v)) (\<lambda>event_filter.
       let policy = policy_from_values camera_id v event_filter in
       if policy_row_ok policy then Inr (store_policy policy d, policy) else Inl IntegrityError))))))))"

lemma find_append: "find P (xs @ ys) = (case find P xs of None \<Rightarrow> find P ys | Some z \<Rightarrow> Some z)"
  by (induction xs) auto

lemma find_replace:
  "find (\<lambda>r. f r = k) (map (\<lambda>r. if f r = f p then p else r) xs)
   = (if k = f p then (if find (\<lambda>r. f r = k) xs = None then None else Some p) else find (\<lambda>r. f r = k) xs)"
  by (induction xs) auto

lemma policy_of_store:
  "policy_of_camera (store_policy p d) c = (if c = rp_camera_id p then Some p else policy_of_camera d c)"
  by (auto simp: store_policy_def policy_of_camera_def find_append find_replace split: option.splits)

lemma baseline_total:
  assumes valid: "rp_baseline_mode p = ''schedule'' \<Longrightarrow>
    \<exists>ws. validate_schedule zones ''schedule'' (rp_schedule_json p) (rp_schedule_timezone p) = Inr ws"
  shows "\<exists>b. baseline_should_record zones p u = Inr b" "\<exists>t. next_baseline_transition zones p u = Inr t"
proof -
  have "(\<exists>b. baseline_should_record zones p u = Inr b) \<and> (\<exists>t. next_baseline_transition zones p u = Inr t)"
  proof (cases "rp_enabled p \<and> rp_baseline_mode p = ''schedule''")
    case False
    then show ?thesis by (auto simp: baseline_should_record_def next_baseline_transition_def)
  next
    case True
    then obtain ws where ws: "validate_schedule zones ''schedule'' (rp_schedule_json p) (rp_schedule_timezone p) = Inr ws"
      using valid by blast
    then obtain k z where "rp_schedule_timezone p = Some k" "zones k = Inr z"
      using validate_schedule_zone by blast
    with True ws show ?thesis
      by (simp add: baseline_should_record_def next_baseline_transition_def Let_def)
  qed
  then show "\<exists>b. baseline_should_record zones p u = Inr b" "\<exists>t. next_baseline_transition zones p u = Inr t"
    by blast+
qed

text \<open>A policy that \<open>put\<close> accepts is the policy of its camera afterwards, within the limits of
  the API, with every other camera's policy untouched; and its schedule is one on which the baseline
  decision and the boundary search never raise, at any instant.\<close>

theorem put_policy_establishes:
  assumes "put_policy zones d camera_id v = Inr (d', policy)"
  shows "policy_of_camera d' camera_id = Some policy
    \<and> (\<forall>c. c \<noteq> camera_id \<longrightarrow> policy_of_camera d' c = policy_of_camera d c)
    \<and> 5 \<le> rp_segment_target_seconds policy \<and> rp_segment_target_seconds policy \<le> 3600
    \<and> 0 \<le> rp_pre_roll_seconds policy \<and> rp_pre_roll_seconds policy \<le> 300
    \<and> 0 \<le> rp_post_roll_seconds policy \<and> rp_post_roll_seconds policy \<le> 3600
    \<and> (\<forall>u. \<exists>b. baseline_should_record zones policy u = Inr b)
    \<and> (\<forall>u. \<exists>t. next_baseline_transition zones policy u = Inr t)"
proof -
  from assms obtain ws f where valid: "validate_schedule zones (pv_baseline_mode v) (pv_schedule_json v)
      (pv_schedule_timezone v) = Inr ws"
    and p: "policy = policy_from_values camera_id v f" and d': "d' = store_policy policy d"
    and lim: "5 \<le> pv_segment_target_seconds v" "pv_segment_target_seconds v \<le> 3600"
      "0 \<le> pv_pre_roll_seconds v" "pv_pre_roll_seconds v \<le> 300"
      "0 \<le> pv_post_roll_seconds v" "pv_post_roll_seconds v \<le> 3600"
    unfolding put_policy_def and_then_eq_Inr require_eq_Inr Let_def de_Morgan_disj not_less
    by (elim exE conjE) (auto split: if_splits)
  have fields: "rp_camera_id policy = camera_id" "rp_baseline_mode policy = pv_baseline_mode v"
    "rp_schedule_json policy = pv_schedule_json v" "rp_schedule_timezone policy = pv_schedule_timezone v"
    by (simp_all add: p policy_from_values_def)
  have "\<exists>b. baseline_should_record zones policy u = Inr b"
    "\<exists>t. next_baseline_transition zones policy u = Inr t" for u
    by (rule baseline_total; use valid in \<open>simp add: fields\<close>)+
  then show ?thesis
    using lim fields(1) by (simp add: d' policy_of_store) (simp add: p policy_from_values_def)
qed

section \<open>Concrete inputs\<close>

definition example_window :: "int list \<Rightarrow> string \<Rightarrow> string \<Rightarrow> pyobj" where
  "example_window ds s e = PDict [(''days'', PList (map PInt ds)), (''end'', PStr e), (''start'', PStr s)]"

definition example_policy :: "pyobj list \<Rightarrow> recording_policy" where
  "example_policy ws =
     \<lparr>rp_camera_id = 7, rp_baseline_mode = ''schedule'', rp_schedule_json = [(''weekly'', PList ws)],
      rp_schedule_timezone = Some ''UTC'', rp_event_recording_enabled = True, rp_event_filter_json = [],
      rp_segment_target_seconds = 300, rp_pre_roll_seconds = 10, rp_post_roll_seconds = 10,
      rp_storage_target_id = None, rp_retention_policy_id = None, rp_enabled = True\<rparr>"

definition example_zones :: zones where
  "example_zones key = (if key = ''UTC'' then Inr (fixed_zone 0) else Inl ZoneInfoNotFoundError)"

text \<open>Midnight UTC of Monday 1 January 2024.\<close>

definition monday :: instant where
  "monday = 19723 * day_us"

lemma example_validates:
  "validate_schedule example_zones ''schedule''
     [(''weekly'', PList [example_window [0] ''08:00'' ''18:00''])] (Some ''UTC'')
   = Inr [\<lparr>ww_days = [0], ww_start = hours 8, ww_end = hours 18\<rparr>]"
  by code_simp

lemma example_validates_night:
  "validate_schedule example_zones ''schedule''
     [(''weekly'', PList [example_window [0] ''22:00'' ''06:00''])] (Some ''UTC'')
   = Inr [\<lparr>ww_days = [0], ww_start = hours 22, ww_end = hours 6\<rparr>]"
  by code_simp

lemma example_scheduled:
  "scheduled_by example_zones (example_policy [example_window [0] ''08:00'' ''18:00'']) (fixed_zone 0)
     [\<lparr>ww_days = [0], ww_start = hours 8, ww_end = hours 18\<rparr>]"
  by (simp add: scheduled_by_def example_policy_def example_validates example_zones_def)

lemma example_scheduled_night:
  "scheduled_by example_zones (example_policy [example_window [0] ''22:00'' ''06:00'']) (fixed_zone 0)
     [\<lparr>ww_days = [0], ww_start = hours 22, ww_end = hours 6\<rparr>]"
  by (simp add: scheduled_by_def example_policy_def example_validates_night example_zones_def)

lemma fixed_zone_within: "zone_offsets_within_day (fixed_zone off)"
  by (simp add: zone_offsets_within_day_def fixed_zone_def day_us_def)


theorem baseline_records_on_arcs_witness:
  "baseline_should_record example_zones (example_policy [example_window [0] ''22:00'' ''06:00''])
     (monday + hours 27) = Inr True"
  by (subst baseline_records_on_arcs [OF example_scheduled_night])
     (simp add: in_weekly_arc_def monday_def hours_def week_position_def day_weekday_def wall_day_def
        wall_time_def day_us_def window_length_def week_us_def)

lemma example_next:
  "next_baseline_transition example_zones (example_policy [example_window [0] ''08:00'' ''18:00''])
     (monday + hours 9) = Inr (Some (monday + hours 18))"
  by code_simp

theorem next_transition_complete_witness:
  "baseline_should_record example_zones (example_policy [example_window [0] ''08:00'' ''18:00''])
     (monday + hours 17)
   = baseline_should_record example_zones (example_policy [example_window [0] ''08:00'' ''18:00''])
     (monday + hours 9)"
  by (rule next_transition_complete [OF example_scheduled _ example_next])
     (simp_all add: hours_def monday_def)

theorem validate_event_filter_idempotent_witness:
  "validate_event_filter [(''labels'', PList [PStr '' b'', PStr ''a''])] = Inr [(''labels'', PList [PStr ''a'', PStr ''b''])]
   \<and> validate_event_filter [(''labels'', PList [PStr ''a'', PStr ''b''])] = Inr [(''labels'', PList [PStr ''a'', PStr ''b''])]"
proof -
  have h: "validate_event_filter [(''labels'', PList [PStr '' b'', PStr ''a''])]
    = Inr [(''labels'', PList [PStr ''a'', PStr ''b''])]" by code_simp
  show ?thesis using h validate_event_filter_idempotent [OF h] by (rule conjI)
qed

definition example_values :: policy_values where
  "example_values =
     \<lparr>pv_baseline_mode = ''continuous'', pv_schedule_json = [], pv_schedule_timezone = None,
      pv_event_recording_enabled = False, pv_event_filter_json = [], pv_segment_target_seconds = 60,
      pv_pre_roll_seconds = 5, pv_post_roll_seconds = 5, pv_storage_target_id = None,
      pv_retention_policy_id = None, pv_enabled = True\<rparr>"

definition example_db :: db where
  "example_db = empty_db\<lparr>db_cameras := [\<lparr>cam_id = 7, cam_enabled = True, cam_maintenance = False\<rparr>]\<rparr>"

theorem put_policy_establishes_witness:
  "\<exists>d' policy. put_policy example_zones example_db 7 example_values = Inr (d', policy)
     \<and> policy_of_camera d' 7 = Some policy"
proof -
  define p where "p = policy_from_values 7 example_values []"
  have h: "put_policy example_zones example_db 7 example_values = Inr (store_policy p example_db, p)"
    unfolding p_def by code_simp
  show ?thesis using h put_policy_establishes [OF h] by blast
qed

text \<open>The boundary search misses the end of a window that runs over midnight once midnight has
  passed. With one window, Monday 22:00 to 06:00 in UTC, the baseline records on Tuesday at 03:00 and no
  longer at 06:00, yet the next boundary after 03:00 is reported as the Monday after, 22:00.\<close>

theorem next_transition_misses_overnight_end:
  "baseline_should_record example_zones (example_policy [example_window [0] ''22:00'' ''06:00'']) (monday + hours 27)
     = Inr True
   \<and> baseline_should_record example_zones (example_policy [example_window [0] ''22:00'' ''06:00'']) (monday + hours 30)
     = Inr False
   \<and> next_baseline_transition example_zones (example_policy [example_window [0] ''22:00'' ''06:00'']) (monday + hours 27)
     = Inr (Some (monday + days 7 + hours 22))"
  by code_simp

text \<open>A schedule time followed by a newline passes the time pattern and makes validation raise a
  bare \<open>ValueError\<close> instead of the API error for invalid schedules.\<close>

theorem schedule_newline_escapes:
  "validate_schedule example_zones ''schedule''
     [(''weekly'', PList [example_window [0] (''08:00'' @ [CHR 0x0A]) ''18:00''])] (Some ''UTC'')
   = Inl ValueError"
  by code_simp

end
