(* ===== verification/Uuid.thy ===== *)
theory Uuid
  imports Prelude
begin

text \<open>
  Reading a uuid from text, as Python's \<open>uuid.UUID(hex=...)\<close> does: the prefixes \<open>urn:\<close> and \<open>uuid:\<close> and
  all dashes are dropped, braces are stripped, and the 32 remaining characters go through
  \<open>int(text, 16)\<close>, which also takes white space around, a sign, a prefix \<open>0x\<close> and single underscores
  between digits. The lemmas are the round trips with the texts of \<open>uuid.hex\<close> and \<open>str(uuid)\<close>.
\<close>

section \<open>Base 16\<close>

definition hex_value :: "char \<Rightarrow> nat option" where
  "hex_value c =
     (if 48 \<le> code_of c \<and> code_of c \<le> 57 then Some (code_of c - 48)
      else if 97 \<le> code_of c \<and> code_of c \<le> 102 then Some (code_of c - 87)
      else if 65 \<le> code_of c \<and> code_of c \<le> 70 then Some (code_of c - 55)
      else None)"

text \<open>Digits with single underscores between them; the flag tells whether a digit came just before.\<close>

fun hex_digits :: "bool \<Rightarrow> nat \<Rightarrow> string \<Rightarrow> nat option" where
  "hex_digits after acc [] = (if after then Some acc else None)"
| "hex_digits after acc (c # cs) =
     (if c = CHR ''_'' then (if after then hex_digits False acc cs else None)
      else (case hex_value c of None \<Rightarrow> None | Some v \<Rightarrow> hex_digits True (16 * acc + v) cs))"

definition int_base16 :: "string \<Rightarrow> int option" where
  "int_base16 s =
     (let t = py_strip s;
          negative = (take 1 t = ''-'');
          u = (if take 1 t = ''-'' \<or> take 1 t = ''+'' then drop 1 t else t);
          v = (if take 2 u = ''0x'' \<or> take 2 u = ''0X''
               then (if take 1 (drop 2 u) = ''_'' then drop 3 u else drop 2 u) else u)
      in map_option (\<lambda>n. if negative then - int n else int n) (hex_digits False 0 v))"

section \<open>The constructor\<close>

function remove_all :: "string \<Rightarrow> string \<Rightarrow> string" where
  "remove_all p [] = []"
| "remove_all p (c # cs) =
     (if p \<noteq> [] \<and> take (length p) (c # cs) = p then remove_all p (drop (length p) (c # cs))
      else c # remove_all p cs)"
  by pat_completeness auto
termination
  by (relation "measure (\<lambda>(p, s). length s)") auto

declare remove_all.simps [simp del]

definition strip_braces :: "string \<Rightarrow> string" where
  "strip_braces s =
     (let brace = (\<lambda>c. c = CHR ''{'' \<or> c = CHR ''}'')
      in rev (dropWhile brace (rev (dropWhile brace s))))"

definition parse_uuid :: "string \<Rightarrow> uuid result" where
  "parse_uuid text =
     (let h = filter (\<lambda>c. c \<noteq> CHR ''-'') (strip_braces (remove_all ''uuid:'' (remove_all ''urn:'' text)))
      in if length h \<noteq> 32 then Inl ValueError
         else (case int_base16 h of
                 None \<Rightarrow> Inl ValueError
               | Some i \<Rightarrow> if 0 \<le> i \<and> i < 2 ^ 128 then Inr (nat i) else Inl ValueError))"

section \<open>Round trips\<close>

definition is_hex_char :: "char \<Rightarrow> bool" where
  "is_hex_char c \<longleftrightarrow> c \<in> set ''0123456789abcdef''"

lemma hex_digit_char: "n < 16 \<Longrightarrow> is_hex_char (hex_digit n)"
  unfolding is_hex_char_def hex_digit_def by (rule nth_mem) simp

lemma hex_chars: "c \<in> set (hex_fixed w n) \<Longrightarrow> is_hex_char c"
  by (induction w n rule: hex_fixed.induct) (auto simp: hex_digit_char)

lemma hex_value_digit:
  assumes "n < 16"
  shows "hex_value (hex_digit n) = Some n"
proof -
  have "\<forall>m \<in> set [0..<16]. hex_value (hex_digit m) = Some m" by code_simp
  then show ?thesis using assms by simp
qed

lemma hex_char_facts:
  "is_hex_char c \<Longrightarrow> c \<noteq> CHR ''_'' \<and> c \<noteq> CHR ''-'' \<and> c \<noteq> CHR ''+'' \<and> c \<noteq> CHR ''x'' \<and> c \<noteq> CHR ''X''
     \<and> c \<noteq> CHR ''{'' \<and> c \<noteq> CHR ''}'' \<and> c \<noteq> CHR ''u'' \<and> \<not> is_space c"
  by (auto simp: is_hex_char_def is_space_def code_of_def)

lemma hex_digits_fixed:
  "n < 16 ^ w \<Longrightarrow> 0 < w \<Longrightarrow> hex_digits b acc (hex_fixed w n @ rest) = hex_digits True (16 ^ w * acc + n) rest"
proof (induction w arbitrary: b acc n rest)
  case (Suc w)
  have digit: "hex_digits c a (hex_digit (n mod 16) # rest) = hex_digits True (16 * a + n mod 16) rest" for c a
    using hex_char_facts [OF hex_digit_char [of "n mod 16"]] by (simp add: hex_value_digit)
  show ?case
  proof (cases "w = 0")
    case True
    then show ?thesis using Suc.prems(1) digit by simp
  next
    case False
    have "n div 16 < 16 ^ w" using Suc.prems(1) by (simp add: less_mult_imp_div_less mult.commute)
    from Suc.IH [OF this] False have
      "hex_digits b acc (hex_fixed w (n div 16) @ hex_digit (n mod 16) # rest)
        = hex_digits True (16 ^ w * acc + n div 16) (hex_digit (n mod 16) # rest)" by simp
    also have "\<dots> = hex_digits True (16 * (16 ^ w * acc + n div 16) + n mod 16) rest" by (rule digit)
    also have "16 * (16 ^ w * acc + n div 16) + n mod 16 = 16 ^ Suc w * acc + n"
      by (simp add: algebra_simps)
    finally show ?thesis by simp
  qed
qed simp

lemma strip_none: "(\<And>c. c \<in> set s \<Longrightarrow> \<not> P c) \<Longrightarrow> rev (dropWhile P (rev (dropWhile P s))) = s"
  by (metis dropWhile_eq_self_iff hd_in_set rev_rev_ident set_rev)

lemma remove_all_none: "c0 \<notin> set s \<Longrightarrow> remove_all (c0 # p) s = s"
proof (induction s)
  case (Cons c s)
  then show ?case by (auto simp: remove_all.simps)
qed (simp add: remove_all.simps)

lemma int_base16_hex:
  assumes "\<And>c. c \<in> set s \<Longrightarrow> is_hex_char c"
  shows "int_base16 s = map_option int (hex_digits False 0 s)"
proof -
  have strip: "py_strip s = s"
    unfolding py_strip_def by (rule strip_none) (use assms hex_char_facts in blast)
  have "take 1 s \<noteq> ''-''" "take 1 s \<noteq> ''+''" using assms hex_char_facts by (cases s; force)+
  moreover have "take 2 s \<noteq> ''0x''" "take 2 s \<noteq> ''0X''"
    using assms hex_char_facts by (cases s; cases "tl s"; force)+
  ultimately show ?thesis by (simp add: int_base16_def strip Let_def option.map_comp comp_def)
qed

lemma parse_uuid_text:
  assumes chars: "\<And>c. c \<in> set s \<Longrightarrow> is_hex_char c \<or> c = CHR ''-''"
    and digits: "filter (\<lambda>c. c \<noteq> CHR ''-'') s = hex_fixed 32 k" and k: "k < 2 ^ 128"
  shows "parse_uuid s = Inr k"
proof -
  have "CHR ''u'' \<notin> set s" using chars hex_char_facts by fastforce
  then have rem: "remove_all ''uuid:'' (remove_all ''urn:'' s) = s" by (simp add: remove_all_none)
  have braces: "strip_braces s = s"
    unfolding strip_braces_def Let_def by (rule strip_none) (use chars hex_char_facts in fastforce)
  have "k < 16 ^ 32" using k by simp
  then have "hex_digits False 0 (hex_fixed 32 k) = Some k"
    using hex_digits_fixed [of k 32 False 0 "[]"] by simp
  moreover have "int_base16 (hex_fixed 32 k) = map_option int (hex_digits False 0 (hex_fixed 32 k))"
    by (rule int_base16_hex) (rule hex_chars)
  ultimately have "int_base16 (hex_fixed 32 k) = Some (int k)" by simp
  moreover have "int k < 2 ^ 128" using k by (metis of_nat_less_iff of_nat_numeral of_nat_power)
  ultimately show ?thesis by (simp add: parse_uuid_def rem braces digits Let_def)
qed

lemma parse_uuid_hex: "k < 2 ^ 128 \<Longrightarrow> parse_uuid (uuid_hex k) = Inr k"
  by (rule parse_uuid_text) (auto simp: uuid_hex_def hex_chars intro!: filter_True dest: hex_chars hex_char_facts)

lemma hex_fixed_split: "hex_fixed (u + w) n = hex_fixed u (n div 16 ^ w) @ hex_fixed w n"
proof (induction w arbitrary: n)
  case (Suc w)
  then show ?case by (simp add: div_mult2_eq)
qed simp

lemma hex_fixed_mod: "hex_fixed w (n mod 16 ^ w) = hex_fixed w n"
proof (induction w arbitrary: n)
  case (Suc w)
  have "n mod 16 ^ Suc w = 16 * (n div 16 mod 16 ^ w) + n mod 16" by (simp add: mod_mult2_eq)
  then have "n mod 16 ^ Suc w div 16 = n div 16 mod 16 ^ w" "n mod 16 ^ Suc w mod 16 = n mod 16" by simp_all
  then show ?case using Suc by simp
qed simp

lemma uuid_str_hex: "filter (\<lambda>c. c \<noteq> CHR ''-'') (uuid_str k) = uuid_hex k"
proof -
  have only: "filter (\<lambda>c. c \<noteq> CHR ''-'') (hex_fixed w n) = hex_fixed w n" for w n
    by (rule filter_True) (use hex_chars hex_char_facts in blast)
  have "hex_fixed 32 k = hex_fixed 8 (k div 16 ^ 24) @ hex_fixed 4 (k div 16 ^ 20) @ hex_fixed 4 (k div 16 ^ 16)
      @ hex_fixed 4 (k div 16 ^ 12) @ hex_fixed 12 k"
    using hex_fixed_split [of 8 24 k] hex_fixed_split [of 4 20 k] hex_fixed_split [of 4 16 k] hex_fixed_split [of 4 12 k]
    by simp
  then show ?thesis
    unfolding uuid_hex_def uuid_str_def
    using hex_fixed_mod [of 4] hex_fixed_mod [of 12] by (simp add: only del: hex_fixed.simps)
qed

lemma parse_uuid_str: "k < 2 ^ 128 \<Longrightarrow> parse_uuid (uuid_str k) = Inr k"
proof (rule parse_uuid_text)
  show "filter (\<lambda>c. c \<noteq> CHR ''-'') (uuid_str k) = hex_fixed 32 k" using uuid_str_hex by (simp add: uuid_hex_def)
  show "is_hex_char c \<or> c = CHR ''-''" if "c \<in> set (uuid_str k)" for c
    using that by (auto simp: uuid_str_def dest: hex_chars)
qed

lemma uuid_str_inj: "a < 2 ^ 128 \<Longrightarrow> b < 2 ^ 128 \<Longrightarrow> uuid_str a = uuid_str b \<Longrightarrow> a = b"
  by (metis parse_uuid_str sum.inject(2))

end
