(* ===== verification/Triggers.thy ===== *)
theory Triggers
  imports Schedule Uuid
begin

text \<open>
  \<open>modules/recordings/triggers.py\<close>: event and manual recording triggers. An operation takes the
  database and returns it updated with the code's result; \<open>session.flush()\<close> is the check of the
  declared constraints, whose failure is \<open>IntegrityError\<close>. The random \<open>uuid4\<close> values are
  arguments, and \<open>uuid5 name\<close> (a SHA-1 digest of the standard library) is a function parameter.
\<close>

section \<open>Lookups\<close>

definition trigger_get :: "db \<Rightarrow> uuid \<Rightarrow> recording_trigger result" where
  "trigger_get d trigger_id = fetch_or_404 (get_trigger d trigger_id) ''recording_trigger_not_found''"

definition list_for_camera :: "db \<Rightarrow> uuid \<Rightarrow> nat \<Rightarrow> recording_trigger list" where
  "list_for_camera d cam limit =
     take limit (sort_key (\<lambda>t. (- tr_requested_at t, - int (tr_id t)))
                   (filter (\<lambda>t. tr_camera_id t = cam) (db_triggers d)))"

definition event_policy :: "db \<Rightarrow> uuid \<Rightarrow> recording_policy result" where
  "event_policy d cam = (case policy_of_camera d cam of
     None \<Rightarrow> Inl (ApiError 409 ''event_recording_not_enabled'')
   | Some p \<Rightarrow>
       if \<not> rp_enabled p \<or> \<not> rp_event_recording_enabled p
       then Inl (ApiError 409 ''event_recording_not_enabled'') else Inr p)"

definition event_matches ::
    "recording_policy \<Rightarrow> string option \<Rightarrow> rat option \<Rightarrow> string list \<Rightarrow> bool" where
  "event_matches policy label confidence event_zones =
     (let f = rp_event_filter_json policy in
      (case map_of f ''labels'' of
         Some (PList labels) \<Rightarrow>
           labels = [] \<or> (case label of None \<Rightarrow> PNone | Some l \<Rightarrow> PStr l) \<in> set labels
       | _ \<Rightarrow> True)
      \<and> (case map_of f ''zones'' of
           Some (PList required) \<Rightarrow> required = [] \<or> list_ex (\<lambda>z. PStr z \<in> set required) event_zones
         | _ \<Rightarrow> True)
      \<and> (case (case map_of f ''min_confidence'' of
                 Some (PInt i) \<Rightarrow> Some (of_int i) | Some (PFloat x) \<Rightarrow> Some x
               | Some (PBool b) \<Rightarrow> Some (if b then 1 else 0) | _ \<Rightarrow> None) of
           None \<Rightarrow> True
         | Some minimum \<Rightarrow> (case confidence of None \<Rightarrow> False | Some c \<Rightarrow> \<not> c < minimum)))"

section \<open>Provider triggers\<close>

record provider_event =
  pe_camera_id :: uuid
  pe_source :: string
  pe_source_instance_id :: string
  pe_source_event_id :: string
  pe_started_at :: instant
  pe_ended_at :: "instant option"
  pe_trigger_type :: string
  pe_reason :: "string option"
  pe_label :: "string option"
  pe_confidence :: "rat option"
  pe_zones :: "string list"
  pe_metadata :: "dict option"

definition provider_identity :: "provider_event \<Rightarrow> string" where
  "provider_identity e = pe_source_instance_id e @ '':'' @ pe_source_event_id e"

definition find_by_identity :: "db \<Rightarrow> string \<Rightarrow> string \<Rightarrow> recording_trigger option" where
  "find_by_identity d source identity =
     find (\<lambda>t. tr_source t = source \<and> tr_source_event_id t = Some identity) (db_triggers d)"

definition insert_trigger :: "db \<Rightarrow> recording_trigger \<Rightarrow> db result" where
  "insert_trigger d t =
     (if trigger_window_ok t \<and> trigger_identity_free d t \<and> get_trigger d (tr_id t) = None
      then Inr (add_trigger t d) else Inl IntegrityError)"

definition flush_trigger :: "db \<Rightarrow> recording_trigger \<Rightarrow> db result" where
  "flush_trigger d t =
     (if trigger_window_ok t then Inr (update_trigger (tr_id t) (\<lambda>_. t) d) else Inl IntegrityError)"

definition provider_trigger ::
    "(string \<Rightarrow> string) \<Rightarrow> uuid \<Rightarrow> recording_policy \<Rightarrow> provider_event \<Rightarrow> recording_trigger" where
  "provider_trigger uuid5 new_id policy e =
     \<lparr>tr_id = new_id, tr_camera_id = pe_camera_id e, tr_type = pe_trigger_type e,
      tr_source = pe_source e, tr_source_event_id = Some (provider_identity e),
      tr_requested_at = pe_started_at e,
      tr_pre_roll_seconds = rp_pre_roll_seconds policy,
      tr_post_roll_seconds = rp_post_roll_seconds policy,
      tr_planned_start_at = pe_started_at e - seconds (rp_pre_roll_seconds policy),
      tr_planned_end_at = map_option (\<lambda>t. t + seconds (rp_post_roll_seconds policy)) (pe_ended_at e),
      tr_state = (if pe_ended_at e \<noteq> None then ''COMPLETED'' else ''ACTIVE''),
      tr_reason = pe_reason e,
      tr_correlation_id =
        uuid5 (''zero-nvr/recording-trigger/'' @ pe_source e @ ''/'' @ provider_identity e),
      tr_metadata_json = (case pe_metadata e of None \<Rightarrow> [] | Some m \<Rightarrow> m)\<rparr>"

text \<open>The three updates of an existing trigger, each with its \<open>changed\<close> flag.\<close>

definition extend_end :: "instant option \<Rightarrow> recording_trigger \<times> bool \<Rightarrow> recording_trigger \<times> bool" where
  "extend_end ended tc = (case ended of
     None \<Rightarrow> tc
   | Some ended_at \<Rightarrow>
       let t = fst tc;
           planned_end = ended_at + seconds (tr_post_roll_seconds t);
           extended = (case tr_planned_end_at t of None \<Rightarrow> True | Some p \<Rightarrow> p < planned_end);
           t1 = (if extended then t\<lparr>tr_planned_end_at := Some planned_end\<rparr> else t);
           completes = (tr_state t1 \<noteq> ''COMPLETED'');
           t2 = (if completes then t1\<lparr>tr_state := ''COMPLETED''\<rparr> else t1)
       in (t2, snd tc \<or> extended \<or> completes))"

definition replace_metadata :: "dict option \<Rightarrow> recording_trigger \<times> bool \<Rightarrow> recording_trigger \<times> bool" where
  "replace_metadata metadata tc = (case metadata of
     None \<Rightarrow> tc
   | Some m \<Rightarrow>
       if tr_metadata_json (fst tc) \<noteq> m then ((fst tc)\<lparr>tr_metadata_json := m\<rparr>, True) else tc)"

definition replace_reason :: "string option \<Rightarrow> recording_trigger \<times> bool \<Rightarrow> recording_trigger \<times> bool" where
  "replace_reason reason tc = (case reason of
     None \<Rightarrow> tc
   | Some r \<Rightarrow>
       if r \<noteq> [] \<and> tr_reason (fst tc) \<noteq> Some r then ((fst tc)\<lparr>tr_reason := Some r\<rparr>, True) else tc)"

definition merge_provider :: "provider_event \<Rightarrow> recording_trigger \<Rightarrow> recording_trigger \<times> bool" where
  "merge_provider e existing =
     replace_reason (pe_reason e) (replace_metadata (pe_metadata e) (extend_end (pe_ended_at e) (existing, False)))"

definition upsert_provider ::
    "(string \<Rightarrow> string) \<Rightarrow> uuid \<Rightarrow> db \<Rightarrow> provider_event \<Rightarrow> (db \<times> recording_trigger option \<times> bool) result" where
  "upsert_provider uuid5 new_id d e = (case policy_of_camera d (pe_camera_id e) of
     None \<Rightarrow> Inr (d, None, False)
   | Some policy \<Rightarrow>
       if \<not> rp_enabled policy \<or> \<not> rp_event_recording_enabled policy then Inr (d, None, False)
       else if length (provider_identity e) > 512
       then Inl (ApiError 422 ''recording_trigger_identity_too_long'')
       else (case find_by_identity d (pe_source e) (provider_identity e) of
         None \<Rightarrow>
           if \<not> event_matches policy (pe_label e) (pe_confidence e) (pe_zones e) then Inr (d, None, False)
           else let t = provider_trigger uuid5 new_id policy e in
                and_then (insert_trigger d t) (\<lambda>d'. Inr (d', Some t, True))
       | Some existing \<Rightarrow>
           if tr_camera_id existing \<noteq> pe_camera_id e
           then Inl (ApiError 409 ''recording_trigger_camera_conflict'')
           else let (t, changed) = merge_provider e existing in
                if changed then and_then (flush_trigger d t) (\<lambda>d'. Inr (d', Some t, True))
                else Inr (d, Some t, False)))"

section \<open>Manual triggers\<close>

definition idempotency_identity :: "uuid \<Rightarrow> string \<Rightarrow> string" where
  "idempotency_identity camera_id normalized = uuid_str camera_id @ '':'' @ normalized"

definition manual_trigger ::
    "uuid \<Rightarrow> string \<Rightarrow> uuid \<Rightarrow> recording_policy \<Rightarrow> instant \<Rightarrow> string option \<Rightarrow> string option \<Rightarrow> recording_trigger" where
  "manual_trigger new_id correlation cam policy now reason source_event_id =
     \<lparr>tr_id = new_id, tr_camera_id = cam, tr_type = ''MANUAL'', tr_source = ''api'',
      tr_source_event_id = source_event_id, tr_requested_at = now,
      tr_pre_roll_seconds = rp_pre_roll_seconds policy,
      tr_post_roll_seconds = rp_post_roll_seconds policy,
      tr_planned_start_at = now - seconds (rp_pre_roll_seconds policy), tr_planned_end_at = None,
      tr_state = ''ACTIVE'', tr_reason = reason, tr_correlation_id = correlation, tr_metadata_json = []\<rparr>"

definition create_manual ::
    "uuid \<Rightarrow> string \<Rightarrow> db \<Rightarrow> uuid \<Rightarrow> instant \<Rightarrow> string option \<Rightarrow> string option
     \<Rightarrow> (db \<times> recording_trigger \<times> bool) result" where
  "create_manual new_id correlation d cam now reason idempotency_key =
     and_then (require (get_camera d cam \<noteq> None) (ApiError 404 ''camera_not_found'')) (\<lambda>_.
     and_then (event_policy d cam) (\<lambda>policy.
       let create = (\<lambda>sid.
             let t = manual_trigger new_id correlation cam policy now reason sid in
             and_then (insert_trigger d t) (\<lambda>d'. Inr (d', t, True)))
       in case idempotency_key of
         None \<Rightarrow> create None
       | Some key \<Rightarrow>
           if key = [] then create None
           else let normalized = py_strip key in
             if normalized = [] \<or> length normalized > 256
             then Inl (ApiError 400 ''idempotency_key_invalid'')
             else case find_by_identity d ''api'' (idempotency_identity cam normalized) of
               Some existing \<Rightarrow> Inr (d, existing, False)
             | None \<Rightarrow> create (Some (idempotency_identity cam normalized))))"

definition open_manual :: "uuid \<Rightarrow> recording_trigger \<Rightarrow> bool" where
  "open_manual cam t =
     (tr_camera_id t = cam \<and> tr_type t = ''MANUAL'' \<and> tr_state t = ''ACTIVE'' \<and> tr_planned_end_at t = None)"

definition close_manual :: "instant \<Rightarrow> recording_trigger \<Rightarrow> recording_trigger" where
  "close_manual now t =
     t\<lparr>tr_planned_end_at := Some (max now (tr_planned_start_at t)), tr_state := ''COMPLETED''\<rparr>"

definition close_active_manual_for_camera :: "db \<Rightarrow> uuid \<Rightarrow> instant \<Rightarrow> db \<times> nat" where
  "close_active_manual_for_camera d cam now =
     (d\<lparr>db_triggers := map (\<lambda>t. if open_manual cam t then close_manual now t else t) (db_triggers d)\<rparr>,
      length (filter (open_manual cam) (db_triggers d)))"

definition stop_manual :: "db \<Rightarrow> recording_trigger \<Rightarrow> instant \<Rightarrow> (db \<times> recording_trigger) result" where
  "stop_manual d t now =
     (if py_upper (tr_type t) \<noteq> ''MANUAL'' then Inl (ApiError 409 ''recording_trigger_not_manual'')
      else if tr_state t \<in> {''CANCELLED'', ''FAILED''} then Inl (ApiError 409 ''recording_trigger_not_active'')
      else if tr_planned_end_at t \<noteq> None then Inr (d, t)
      else let t' = t\<lparr>tr_planned_end_at := Some (now + seconds (tr_post_roll_seconds t)),
                      tr_state := ''COMPLETED''\<rparr>
           in and_then (flush_trigger d t') (\<lambda>d'. Inr (d', t')))"

section \<open>Queries by time\<close>

definition live_trigger :: "uuid \<Rightarrow> recording_trigger \<Rightarrow> bool" where
  "live_trigger cam t = (tr_camera_id t = cam \<and> tr_state t \<notin> {''CANCELLED'', ''FAILED''})"

definition trigger_order :: "recording_trigger \<Rightarrow> instant \<times> uuid" where
  "trigger_order t = (tr_planned_start_at t, tr_id t)"

definition active_at :: "db \<Rightarrow> uuid \<Rightarrow> instant \<Rightarrow> recording_trigger list" where
  "active_at d cam instant =
     sort_key trigger_order
       (filter (\<lambda>t. live_trigger cam t \<and> tr_planned_start_at t \<le> instant
                     \<and> ends_after (tr_planned_end_at t) instant) (db_triggers d))"

definition overlapping :: "db \<Rightarrow> uuid \<Rightarrow> instant \<Rightarrow> instant \<Rightarrow> recording_trigger list" where
  "overlapping d cam started_at ended_at =
     sort_key trigger_order
       (filter (\<lambda>t. live_trigger cam t \<and> tr_planned_start_at t < ended_at
                     \<and> ends_after (tr_planned_end_at t) started_at) (db_triggers d))"

definition overlaps_fragment :: "db \<Rightarrow> uuid \<Rightarrow> instant \<Rightarrow> instant \<Rightarrow> bool" where
  "overlaps_fragment d cam started_at ended_at = (overlapping d cam started_at ended_at \<noteq> [])"

section \<open>Pre-roll coverage\<close>

datatype pre_roll_status = NotRequested | Pending | Complete | Degraded

record pre_roll_coverage =
  pc_status :: pre_roll_status
  pc_available :: span

text \<open>The media query of the coverage: segments marked corrupted do not count.\<close>

definition preroll_segments :: "db \<Rightarrow> uuid \<Rightarrow> instant \<Rightarrow> instant \<Rightarrow> recording_segment list" where
  "preroll_segments d cam window_start window_end =
     sort_key segment_order
       (filter (\<lambda>s. sg_camera_id s = cam \<and> sg_started_at s < window_end \<and> window_start < sg_ended_at s
                     \<and> sg_integrity_status s \<noteq> ''CORRUPTED'') (db_segments d))"

fun covered_sweep ::
    "instant \<Rightarrow> instant \<Rightarrow> recording_segment list \<Rightarrow> span \<Rightarrow> instant option \<Rightarrow> span" where
  "covered_sweep window_start window_end [] covered until = covered"
| "covered_sweep window_start window_end (s # ss) covered until =
     (let start_at = max (sg_started_at s) window_start; end_at = min (sg_ended_at s) window_end in
      if end_at \<le> start_at then covered_sweep window_start window_end ss covered until
      else (case until of
        None \<Rightarrow> covered_sweep window_start window_end ss (covered + (end_at - start_at)) (Some end_at)
      | Some u \<Rightarrow>
          if start_at > u
          then covered_sweep window_start window_end ss (covered + (end_at - start_at)) (Some end_at)
          else if end_at > u
          then covered_sweep window_start window_end ss (covered + (end_at - u)) (Some end_at)
          else covered_sweep window_start window_end ss covered (Some u)))"

definition available_span :: "int \<Rightarrow> span \<Rightarrow> span" where
  "available_span required_seconds covered =
     round_div (min (seconds required_seconds) (max 0 covered)) 1000 * 1000"

definition pre_roll_coverage_of :: "db \<Rightarrow> recording_trigger \<Rightarrow> instant \<Rightarrow> int \<Rightarrow> pre_roll_coverage" where
  "pre_roll_coverage_of d t now finalization_grace_seconds =
     (let required_seconds = max 0 (tr_pre_roll_seconds t);
          window_start = tr_planned_start_at t;
          window_end = tr_requested_at t
      in if required_seconds = 0 then \<lparr>pc_status = NotRequested, pc_available = 0\<rparr>
         else if window_end \<le> window_start then \<lparr>pc_status = NotRequested, pc_available = 0\<rparr>
         else
           let covered = covered_sweep window_start window_end
                 (preroll_segments d (tr_camera_id t) window_start window_end) 0 None;
               available = available_span required_seconds covered
           in if seconds required_seconds \<le> available + milliseconds 100
              then \<lparr>pc_status = Complete, pc_available = available\<rparr>
              else if now < window_end + seconds (max 1 finalization_grace_seconds)
              then \<lparr>pc_status = Pending, pc_available = available\<rparr>
              else \<lparr>pc_status = Degraded, pc_available = available\<rparr>)"

interpretation preroll: overlap_query preroll_segments db_segments
    "\<lambda>cam s. sg_camera_id s = cam \<and> sg_integrity_status s \<noteq> ''CORRUPTED''" sg_started_at sg_ended_at
  by unfold_locales (auto simp: preroll_segments_def intro: sorted_segment_order)

text \<open>The covered part of a window, as a set of microseconds.\<close>

definition covered_points :: "instant \<Rightarrow> instant \<Rightarrow> recording_segment set \<Rightarrow> instant set" where
  "covered_points a b S = {t. a \<le> t \<and> t < b \<and> (\<exists>s \<in> S. sg_started_at s \<le> t \<and> t < sg_ended_at s)}"

lemma finite_covered_points [simp]: "finite (covered_points a b S)"
  by (rule finite_subset [of _ "{a..<b}"]) (auto simp: covered_points_def)

lemma covered_points_insert:
  "covered_points a b (insert s S) =
     {max (sg_started_at s) a ..< min (sg_ended_at s) b} \<union> covered_points a b S"
  by (auto simp: covered_points_def)

lemma card_interval_tail:
  assumes "finite T" and "\<And>t. t \<in> T \<Longrightarrow> y \<le> t" and "x \<le> y"
  shows "int (card ({x..<y} \<union> T)) = y - x + int (card T)"
proof -
  have "{x..<y} \<inter> T = {}" using assms(2) by force
  then show ?thesis using assms(1,3) by (simp add: card_Un_disjoint)
qed

lemma covered_sweep_measure:
  assumes "sorted (map sg_started_at ss)"
  shows "covered_sweep a b ss covered until =
    covered + int (card {t \<in> covered_points a b (set ss). case until of None \<Rightarrow> True | Some u \<Rightarrow> u \<le> t})"
  using assms
proof (induction ss arbitrary: covered until)
  case Nil
  then show ?case by (simp add: covered_points_def)
next
  case (Cons s ss)
  define x y where "x = max (sg_started_at s) a" and "y = min (sg_ended_at s) b"
  note IH = Cons.IH [OF sorted_wrt.simps(2) [THEN iffD1, THEN conjunct2, OF Cons.prems [unfolded list.map]]]
  have later: "x \<le> t" if "t \<in> covered_points a b (set ss)" for t
    using that Cons.prems by (force simp: covered_points_def x_def)
  have split: "covered_points a b (set (s # ss)) = {x..<y} \<union> covered_points a b (set ss)"
    by (simp add: covered_points_insert x_def y_def)
  have rest: "{t \<in> covered_points a b (set ss). y \<le> t} \<subseteq> covered_points a b (set ss)" by blast
  have measure: "int (card {t \<in> covered_points a b (set (s # ss)). v \<le> t})
      = y - v + int (card {t \<in> covered_points a b (set ss). y \<le> t})" if "x \<le> v" "v \<le> y" for v
  proof -
    have "{t \<in> covered_points a b (set (s # ss)). v \<le> t}
          = {v..<y} \<union> {t \<in> covered_points a b (set ss). y \<le> t}"
      unfolding split using that by auto
    then show ?thesis
      by (simp only:) (rule card_interval_tail, use that in simp_all)
  qed
  have whole: "{t \<in> covered_points a b (set (s # ss)). v \<le> t}
      = {t \<in> covered_points a b (set (s # ss)). x \<le> t}" if "v \<le> x" for v
    unfolding split using that later by force
  have all: "{t \<in> covered_points a b (set (s # ss)). True} = {t \<in> covered_points a b (set (s # ss)). x \<le> t}"
    unfolding split using later by auto
  show ?case
  proof (cases "y \<le> x")
    case True
    then have "covered_points a b (set (s # ss)) = covered_points a b (set ss)" using split by simp
    then show ?thesis using True IH by (simp add: x_def y_def)
  next
    case False
    show ?thesis
    proof (cases until)
      case None
      then show ?thesis using False IH measure [of x] all by (simp add: x_def [symmetric] y_def [symmetric])
    next
      case (Some u)
      show ?thesis
      proof (cases "x < u")
        case True
        have "{t \<in> covered_points a b (set (s # ss)). u \<le> t} = {t \<in> covered_points a b (set ss). u \<le> t}"
          if "y \<le> u" unfolding split using that by auto
        then show ?thesis using False Some True IH measure [of u]
          by (cases "y \<le> u") (simp_all add: x_def [symmetric] y_def [symmetric])
      next
        case xu: False
        then show ?thesis using False Some IH measure [of x] whole [of u]
          by (cases "x = u") (simp_all add: x_def [symmetric] y_def [symmetric])
      qed
    qed
  qed
qed

lemma available_span_bounds:
  assumes "0 \<le> required"
  shows "0 \<le> available_span required c" and "available_span required c \<le> seconds required"
proof -
  let ?x = "min (seconds required) (max 0 c)"
  have x: "0 \<le> ?x" "?x \<le> seconds required" using assms by (auto simp: seconds_def)
  show "0 \<le> available_span required c" using round_div_nonneg [of 1000 ?x] x by (simp add: available_span_def)
  have "round_div ?x 1000 \<le> round_div (seconds required) 1000" using x by (intro round_div_mono) auto
  moreover have "seconds required = (required * 1000) * 1000" by (simp add: seconds_def)
  then have "round_div (seconds required) 1000 = required * 1000"
    using round_div_multiple [of 1000 "required * 1000"] by (simp only: zero_less_numeral simp_thms)
  ultimately show "available_span required c \<le> seconds required"
    by (simp add: available_span_def seconds_def)
qed


text \<open>The coverage status is \<open>Complete\<close> exactly when at most a tenth of a second of the requested
  pre-roll is missing; otherwise it is \<open>Pending\<close> until the finalization grace after the request has
  passed and \<open>Degraded\<close> from then on.\<close>

theorem pre_roll_status_cases:
  assumes "0 < tr_pre_roll_seconds t" and "tr_planned_start_at t < tr_requested_at t"
  shows "pc_status (pre_roll_coverage_of d t now grace) =
    (if seconds (tr_pre_roll_seconds t) - pc_available (pre_roll_coverage_of d t now grace) \<le> milliseconds 100
     then Complete
     else if now < tr_requested_at t + seconds (max 1 grace) then Pending else Degraded)"
  using assms by (simp add: pre_roll_coverage_of_def Let_def milliseconds_def)

section \<open>Correctness of the trigger operations\<close>

lemma extend_end_frame [simp]:
  "tr_id (fst (extend_end e tc)) = tr_id (fst tc)"
  "tr_camera_id (fst (extend_end e tc)) = tr_camera_id (fst tc)"
  "tr_source (fst (extend_end e tc)) = tr_source (fst tc)"
  "tr_source_event_id (fst (extend_end e tc)) = tr_source_event_id (fst tc)"
  "tr_planned_start_at (fst (extend_end e tc)) = tr_planned_start_at (fst tc)"
  "tr_metadata_json (fst (extend_end e tc)) = tr_metadata_json (fst tc)"
  "tr_reason (fst (extend_end e tc)) = tr_reason (fst tc)"
  by (auto simp: extend_end_def Let_def split: option.splits)

lemma replace_frame [simp]:
  "tr_id (fst (replace_metadata m tc)) = tr_id (fst tc)"
  "tr_camera_id (fst (replace_metadata m tc)) = tr_camera_id (fst tc)"
  "tr_source (fst (replace_metadata m tc)) = tr_source (fst tc)"
  "tr_source_event_id (fst (replace_metadata m tc)) = tr_source_event_id (fst tc)"
  "tr_planned_start_at (fst (replace_metadata m tc)) = tr_planned_start_at (fst tc)"
  "tr_planned_end_at (fst (replace_metadata m tc)) = tr_planned_end_at (fst tc)"
  "tr_state (fst (replace_metadata m tc)) = tr_state (fst tc)"
  "tr_post_roll_seconds (fst (replace_metadata m tc)) = tr_post_roll_seconds (fst tc)"
  "tr_reason (fst (replace_metadata m tc)) = tr_reason (fst tc)"
  "tr_id (fst (replace_reason r tc)) = tr_id (fst tc)"
  "tr_camera_id (fst (replace_reason r tc)) = tr_camera_id (fst tc)"
  "tr_source (fst (replace_reason r tc)) = tr_source (fst tc)"
  "tr_source_event_id (fst (replace_reason r tc)) = tr_source_event_id (fst tc)"
  "tr_planned_start_at (fst (replace_reason r tc)) = tr_planned_start_at (fst tc)"
  "tr_planned_end_at (fst (replace_reason r tc)) = tr_planned_end_at (fst tc)"
  "tr_state (fst (replace_reason r tc)) = tr_state (fst tc)"
  "tr_post_roll_seconds (fst (replace_reason r tc)) = tr_post_roll_seconds (fst tc)"
  "tr_metadata_json (fst (replace_reason r tc)) = tr_metadata_json (fst tc)"
  by (auto simp: replace_metadata_def replace_reason_def split: option.splits)

lemma merge_provider_frame [simp]:
  "tr_id (fst (merge_provider e x)) = tr_id x"
  "tr_camera_id (fst (merge_provider e x)) = tr_camera_id x"
  "tr_source (fst (merge_provider e x)) = tr_source x"
  "tr_source_event_id (fst (merge_provider e x)) = tr_source_event_id x"
  "tr_planned_start_at (fst (merge_provider e x)) = tr_planned_start_at x"
  by (simp_all add: merge_provider_def)

text \<open>A trigger that already holds what an event says: its end, state, metadata and reason.\<close>

definition reflects :: "provider_event \<Rightarrow> recording_trigger \<Rightarrow> bool" where
  "reflects e t \<longleftrightarrow>
     (\<forall>x. pe_ended_at e = Some x \<longrightarrow> tr_state t = ''COMPLETED'' \<and>
        (\<exists>p. tr_planned_end_at t = Some p \<and> x + seconds (tr_post_roll_seconds t) \<le> p))
     \<and> (\<forall>m. pe_metadata e = Some m \<longrightarrow> tr_metadata_json t = m)
     \<and> (\<forall>r. pe_reason e = Some r \<longrightarrow> r \<noteq> [] \<longrightarrow> tr_reason t = Some r)"

lemma reflects_merge:
  assumes "reflects e t"
  shows "merge_provider e t = (t, False)"
proof -
  have "extend_end (pe_ended_at e) (t, False) = (t, False)"
    using assms by (cases "pe_ended_at e") (auto simp: reflects_def extend_end_def Let_def)
  moreover have "replace_metadata (pe_metadata e) (t, False) = (t, False)"
    using assms by (simp add: reflects_def replace_metadata_def split: option.split)
  moreover have "replace_reason (pe_reason e) (t, False) = (t, False)"
    using assms by (auto simp: reflects_def replace_reason_def split: option.split)
  ultimately show ?thesis by (simp add: merge_provider_def)
qed

lemma extend_end_post [simp]: "tr_post_roll_seconds (fst (extend_end e tc)) = tr_post_roll_seconds (fst tc)"
  by (auto simp: extend_end_def Let_def split: option.splits)

lemma extend_end_reached:
  "tr_state (fst (extend_end (Some x) tc)) = ''COMPLETED'' \<and>
   (\<exists>p. tr_planned_end_at (fst (extend_end (Some x) tc)) = Some p \<and> x + seconds (tr_post_roll_seconds (fst tc)) \<le> p)"
  by (auto simp: extend_end_def Let_def split: option.splits)

lemma merge_reflects: "reflects e (fst (merge_provider e t))"
proof -
  have "pe_ended_at e = Some x \<Longrightarrow> tr_state (fst (merge_provider e t)) = ''COMPLETED'' \<and>
        (\<exists>p. tr_planned_end_at (fst (merge_provider e t)) = Some p
            \<and> x + seconds (tr_post_roll_seconds (fst (merge_provider e t))) \<le> p)" for x
    using extend_end_reached [of x "(t, False)"] by (simp add: merge_provider_def)
  moreover have "pe_metadata e = Some m \<Longrightarrow> tr_metadata_json (fst (merge_provider e t)) = m" for m
    by (simp add: merge_provider_def replace_metadata_def)
  moreover have "pe_reason e = Some r \<Longrightarrow> r \<noteq> [] \<Longrightarrow> tr_reason (fst (merge_provider e t)) = Some r" for r
    by (simp add: merge_provider_def replace_reason_def)
  ultimately show ?thesis by (simp add: reflects_def)
qed

lemma unchanged_extend: "\<not> snd (extend_end ended tc) \<Longrightarrow> extend_end ended tc = tc"
  by (cases tc; cases ended; cases "tr_planned_end_at (fst tc)")
     (auto simp: extend_end_def Let_def split: if_splits)

lemma unchanged_replace:
  "\<not> snd (replace_metadata m tc) \<Longrightarrow> replace_metadata m tc = tc"
  "\<not> snd (replace_reason r tc) \<Longrightarrow> replace_reason r tc = tc"
  by (auto simp: replace_metadata_def replace_reason_def split: option.splits if_splits)

lemma merge_unchanged:
  assumes "\<not> snd (merge_provider e t)"
  shows "fst (merge_provider e t) = t"
proof -
  have "merge_provider e t = (t, False)"
    using assms unchanged_extend unchanged_replace unfolding merge_provider_def by metis
  then show ?thesis by simp
qed

lemma provider_trigger_reflects: "reflects e (provider_trigger uuid5 i p e)"
  by (auto simp: reflects_def provider_trigger_def)

lemma provider_trigger_fields [simp]:
  "tr_camera_id (provider_trigger uuid5 i p e) = pe_camera_id e"
  "tr_source (provider_trigger uuid5 i p e) = pe_source e"
  "tr_source_event_id (provider_trigger uuid5 i p e) = Some (provider_identity e)"
  "tr_id (provider_trigger uuid5 i p e) = i"
  by (simp_all add: provider_trigger_def)

lemma find_update_same:
  assumes "find P xs = Some x" and "P y" and "key y = key x"
  shows "find P (map (\<lambda>r. if key r = key x then y else r) xs) = Some y"
  using assms by (induction xs) (auto split: if_splits)

lemma find_identity_flush:
  assumes "find_by_identity d src i = Some x" and "tr_source y = tr_source x"
    and "tr_source_event_id y = tr_source_event_id x" and "tr_id y = tr_id x"
  shows "find_by_identity (update_trigger (tr_id y) (\<lambda>_. y) d) src i = Some y"
proof -
  have "tr_source x = src \<and> tr_source_event_id x = Some i"
    using assms(1) by (auto simp: find_by_identity_def find_Some_iff)
  with assms show ?thesis
    unfolding find_by_identity_def update_trigger_def
    using find_update_same [of "\<lambda>t. tr_source t = src \<and> tr_source_event_id t = Some i" "db_triggers d" x y tr_id]
    by simp
qed

lemma find_identity_add:
  "find_by_identity d src i = None \<Longrightarrow> tr_source t = src \<Longrightarrow> tr_source_event_id t = Some i \<Longrightarrow>
   find_by_identity (add_trigger t d) src i = Some t"
  by (simp add: find_by_identity_def add_trigger_def find_append)

lemma find_identity_fields:
  "find_by_identity d src i = Some x \<Longrightarrow>
   x \<in> set (db_triggers d) \<and> tr_source x = src \<and> tr_source_event_id x = Some i"
  by (auto simp: find_by_identity_def find_Some_iff)

lemma policy_of_trigger_ops [simp]:
  "policy_of_camera (add_trigger t d) c = policy_of_camera d c"
  "policy_of_camera (update_trigger k f d) c = policy_of_camera d c"
  by (simp_all add: policy_of_camera_def)

text \<open>What a successful upsert did: nothing, insert a trigger, or merge the event into one.\<close>

lemma upsert_provider_cases:
  assumes "upsert_provider uuid5 new_id d e = Inr (d', r, c)"
  obtains (ignored) "d' = d" "r = None" "\<not> c"
      "\<And>uuid5' i. upsert_provider uuid5' i d e = Inr (d, None, False)"
  | (inserted) policy where "policy_of_camera d (pe_camera_id e) = Some policy" "rp_enabled policy"
      "rp_event_recording_enabled policy" "length (provider_identity e) \<le> 512"
      "find_by_identity d (pe_source e) (provider_identity e) = None"
      "r = Some (provider_trigger uuid5 new_id policy e)"
      "insert_trigger d (provider_trigger uuid5 new_id policy e) = Inr d'" c
  | (merged) policy x where "policy_of_camera d (pe_camera_id e) = Some policy" "rp_enabled policy"
      "rp_event_recording_enabled policy" "length (provider_identity e) \<le> 512"
      "find_by_identity d (pe_source e) (provider_identity e) = Some x" "tr_camera_id x = pe_camera_id e"
      "r = Some (fst (merge_provider e x))" "c = snd (merge_provider e x)"
      "if c then flush_trigger d (fst (merge_provider e x)) = Inr d' else d' = d"
proof (cases "policy_of_camera d (pe_camera_id e)")
  case None
  then show ?thesis using assms ignored by (simp add: upsert_provider_def)
next
  case (Some policy)
  note pol = Some
  show ?thesis
  proof (cases "rp_enabled policy \<and> rp_event_recording_enabled policy")
    case False
    then show ?thesis using assms pol ignored by (auto simp: upsert_provider_def)
  next
    case en: True
    have len: "length (provider_identity e) \<le> 512"
      using assms pol en by (auto simp: upsert_provider_def split: if_splits)
    show ?thesis
    proof (cases "find_by_identity d (pe_source e) (provider_identity e)")
      case None
      show ?thesis
      proof (cases "event_matches policy (pe_label e) (pe_confidence e) (pe_zones e)")
        case True
        then show ?thesis using assms pol en len None inserted
          by (auto simp: upsert_provider_def and_then_eq_Inr Let_def)
      next
        case False
        then show ?thesis using assms pol en len None ignored by (auto simp: upsert_provider_def)
      qed
    next
      case (Some x)
      then show ?thesis using assms pol en len merged
        by (auto simp: upsert_provider_def and_then_eq_Inr split: if_splits prod.splits)
    qed
  qed
qed

text \<open>Delivering a provider event twice is the same as delivering it once: the second upsert finds
  the trigger of the first, reports no change and leaves the database as it is.\<close>

theorem upsert_provider_idempotent:
  assumes "upsert_provider uuid5 new_id d e = Inr (d', r, c)"
  shows "upsert_provider uuid5' new_id' d' e = Inr (d', r, False)"
  using assms
proof (cases rule: upsert_provider_cases)
  case ignored
  then show ?thesis by simp
next
  case (inserted policy)
  let ?t = "provider_trigger uuid5 new_id policy e"
  have d': "d' = add_trigger ?t d" using inserted(7) by (simp add: insert_trigger_def split: if_splits)
  then have "find_by_identity d' (pe_source e) (provider_identity e) = Some ?t"
    using inserted(5) by (simp add: find_identity_add)
  then show ?thesis using inserted reflects_merge [OF provider_trigger_reflects]
    by (simp add: upsert_provider_def d')
next
  case (merged policy x)
  let ?t = "fst (merge_provider e x)"
  have "find_by_identity d' (pe_source e) (provider_identity e) = Some ?t \<and> policy_of_camera d' = policy_of_camera d"
  proof (cases c)
    case True
    then have "d' = update_trigger (tr_id ?t) (\<lambda>_. ?t) d"
      using merged by (simp add: flush_trigger_def split: if_splits)
    then show ?thesis using find_identity_flush [OF merged(5), of ?t] by (simp add: fun_eq_iff)
  next
    case False
    then show ?thesis using merged merge_unchanged [of e x] by simp
  qed
  then show ?thesis using merged reflects_merge [OF merge_reflects, of e x] by (simp add: upsert_provider_def)
qed

text \<open>An upsert that finds its trigger never moves the planned end earlier or reopens it, never
  reopens a completed trigger and never moves the planned start.\<close>

theorem upsert_provider_monotone:
  assumes "upsert_provider uuid5 new_id d e = Inr (d', Some t, c)"
    and "find_by_identity d (pe_source e) (provider_identity e) = Some x"
  shows "tr_planned_start_at t = tr_planned_start_at x
    \<and> (\<forall>p. tr_planned_end_at x = Some p \<longrightarrow> (\<exists>q. tr_planned_end_at t = Some q \<and> p \<le> q))
    \<and> (tr_state x = ''COMPLETED'' \<longrightarrow> tr_state t = ''COMPLETED'')"
  using assms(1)
proof (cases rule: upsert_provider_cases)
  case (merged policy y)
  then have t: "t = fst (merge_provider e x)" using assms(2) by simp
  have "tr_state (fst (extend_end (pe_ended_at e) (x, False))) = ''COMPLETED''" if "tr_state x = ''COMPLETED''"
    using that by (auto simp: extend_end_def Let_def split: option.splits)
  moreover have "\<exists>q. tr_planned_end_at (fst (extend_end (pe_ended_at e) (x, False))) = Some q \<and> p \<le> q"
    if "tr_planned_end_at x = Some p" for p
    using that by (auto simp: extend_end_def Let_def split: option.splits)
  ultimately show ?thesis by (simp add: t merge_provider_def)
qed (use assms(2) in simp_all)

section \<open>The trigger table\<close>

text \<open>What the schema declares about the table as a whole.\<close>

definition triggers_ok :: "db \<Rightarrow> bool" where
  "triggers_ok d \<longleftrightarrow>
     distinct (map tr_id (db_triggers d))
     \<and> (\<forall>t \<in> set (db_triggers d). trigger_window_ok t)
     \<and> (\<forall>t \<in> set (db_triggers d). \<forall>u \<in> set (db_triggers d).
          tr_source_event_id t \<noteq> None \<longrightarrow> tr_source t = tr_source u
          \<longrightarrow> tr_source_event_id t = tr_source_event_id u \<longrightarrow> tr_id t = tr_id u)"

lemma insert_trigger_ok:
  assumes "insert_trigger d t = Inr d'" and ok: "triggers_ok d"
  shows "triggers_ok d'"
proof -
  from assms(1) have d': "db_triggers d' = db_triggers d @ [t]" and win: "trigger_window_ok t"
    and free: "trigger_identity_free d t" and new: "tr_id t \<notin> tr_id ` set (db_triggers d)"
    by (auto simp: insert_trigger_def triggers.rows_add triggers.get_None_iff split: if_splits)
  have "distinct (map tr_id (db_triggers d'))" using ok new by (simp add: d' triggers_ok_def)
  moreover have "\<forall>u \<in> set (db_triggers d'). trigger_window_ok u" using ok win by (simp add: d' triggers_ok_def)
  moreover have "tr_id u = tr_id v"
    if "u \<in> set (db_triggers d')" "v \<in> set (db_triggers d')" "tr_source_event_id u \<noteq> None"
      "tr_source u = tr_source v" "tr_source_event_id u = tr_source_event_id v" for u v
  proof -
    have sides: "u = t \<or> u \<in> set (db_triggers d)" "v = t \<or> v \<in> set (db_triggers d)"
      using that(1,2) by (auto simp: d')
    have clash: False if "w \<in> set (db_triggers d)" "tr_source w = tr_source t"
      "tr_source_event_id w = tr_source_event_id t" "tr_source_event_id t \<noteq> None" for w
      using that free by (auto simp: trigger_identity_free_def)
    show ?thesis
      using sides that(3-5) clash [of u] clash [of v] ok unfolding triggers_ok_def by metis
  qed
  ultimately show ?thesis unfolding triggers_ok_def by blast
qed

lemma map_rows_ok:
  assumes ok: "triggers_ok d"
    and same: "\<And>t. t \<in> set (db_triggers d) \<Longrightarrow> tr_id (f t) = tr_id t \<and> tr_source (f t) = tr_source t
      \<and> tr_source_event_id (f t) = tr_source_event_id t \<and> trigger_window_ok (f t)"
  shows "triggers_ok (d\<lparr>db_triggers := map f (db_triggers d)\<rparr>)"
proof -
  have ids: "map (tr_id \<circ> f) (db_triggers d) = map tr_id (db_triggers d)" using same by simp
  show ?thesis using ok same unfolding triggers_ok_def by (simp add: ids) blast
qed

lemma flush_trigger_ok:
  assumes "flush_trigger d y = Inr d'" and "triggers_ok d" and "x \<in> set (db_triggers d)"
    and "tr_id y = tr_id x" "tr_source y = tr_source x" "tr_source_event_id y = tr_source_event_id x"
  shows "triggers_ok d'"
proof -
  have d': "d' = d\<lparr>db_triggers := map (\<lambda>r. if tr_id r = tr_id y then y else r) (db_triggers d)\<rparr>"
    and y: "trigger_window_ok y"
    using assms(1) by (auto simp: flush_trigger_def update_trigger_def split: if_splits)
  show ?thesis unfolding d'
  proof (rule map_rows_ok [OF assms(2)])
    fix t assume t: "t \<in> set (db_triggers d)"
    have "t = x" if "tr_id t = tr_id y"
      using that assms(2,3,4) t by (auto simp: triggers_ok_def distinct_map inj_on_def)
    then show "tr_id (if tr_id t = tr_id y then y else t) = tr_id t
        \<and> tr_source (if tr_id t = tr_id y then y else t) = tr_source t
        \<and> tr_source_event_id (if tr_id t = tr_id y then y else t) = tr_source_event_id t
        \<and> trigger_window_ok (if tr_id t = tr_id y then y else t)"
      using assms(2,5,6) t y by (auto simp: triggers_ok_def)
  qed
qed

text \<open>One request against the trigger service.\<close>

inductive trigger_step :: "db \<Rightarrow> db \<Rightarrow> bool" where
  provider: "upsert_provider uuid5 new_id d e = Inr (d', r, c) \<Longrightarrow> trigger_step d d'"
| manual: "create_manual new_id corr d cam now reason key = Inr (d', t, c) \<Longrightarrow> trigger_step d d'"
| close: "close_active_manual_for_camera d cam now = (d', n) \<Longrightarrow> trigger_step d d'"
| stop: "get_trigger d k = Some t \<Longrightarrow> stop_manual d t now = Inr (d', t') \<Longrightarrow> trigger_step d d'"

lemma create_manual_cases:
  assumes "create_manual new_id corr d cam now reason key = Inr (d', t, c)"
  obtains (existing) "d' = d" "\<not> c" | (created) "insert_trigger d t = Inr d'" c
proof -
  from assms obtain policy where "(case key of None \<Rightarrow> \<exists>sid. insert_trigger d t = Inr d' \<and> c
      | Some k \<Rightarrow> (insert_trigger d t = Inr d' \<and> c) \<or> (d' = d \<and> \<not> c))"
    unfolding create_manual_def
    by (cases key) (auto simp: and_then_eq_Inr Let_def split: option.splits if_splits)
  then show ?thesis using existing created by (auto split: option.splits)
qed

lemma stop_manual_cases:
  assumes "stop_manual d t now = Inr (d', t')"
  obtains (stopped) "tr_planned_end_at t \<noteq> None" "d' = d" "t' = t"
  | (open_ended) "tr_planned_end_at t = None"
      "t' = t\<lparr>tr_planned_end_at := Some (now + seconds (tr_post_roll_seconds t)), tr_state := ''COMPLETED''\<rparr>"
      "flush_trigger d t' = Inr d'"
  using assms unfolding stop_manual_def by (auto simp: and_then_eq_Inr Let_def split: if_splits)

lemma close_active_ok: "triggers_ok d \<Longrightarrow> triggers_ok (fst (close_active_manual_for_camera d cam now))"
  unfolding close_active_manual_for_camera_def fst_conv
  by (rule map_rows_ok) (auto simp: close_manual_def triggers_ok_def trigger_window_ok_def)

lemma trigger_step_ok: "trigger_step d d' \<Longrightarrow> triggers_ok d \<Longrightarrow> triggers_ok d'"
proof (induction rule: trigger_step.induct)
  case (provider uuid5 new_id d e d' r c)
  from provider(1) show ?case
  proof (cases rule: upsert_provider_cases)
    case (merged policy x)
    have "x \<in> set (db_triggers d)" using find_identity_fields [OF merged(5)] by simp
    then show ?thesis
      using merged(9) provider(2) flush_trigger_ok [of d "fst (merge_provider e x)" d' x] by (cases c) simp_all
  qed (use provider(2) insert_trigger_ok in auto)
next
  case (manual new_id corr d cam now reason key d' t c)
  then show ?case by (auto elim!: create_manual_cases dest: insert_trigger_ok)
next
  case (close d cam now d' n)
  then show ?case using close_active_ok [of d cam now] by simp
next
  case (stop d k t now d' t')
  from stop(2) show ?case
  proof (cases rule: stop_manual_cases)
    case open_ended
    have "t \<in> set (db_triggers d)" using triggers.get_Some [OF stop(1)] by simp
    then show ?thesis using flush_trigger_ok [OF open_ended(3) stop(3), of t] open_ended(2) by simp
  qed (use stop(3) in simp)
qed

text \<open>Every sequence of trigger requests keeps the table well formed: unique ids, no two triggers
  for one provider identity, and no trigger that ends before it starts.\<close>

theorem trigger_table_invariant:
  assumes "trigger_step\<^sup>*\<^sup>* d d'" and "triggers_ok d"
  shows "triggers_ok d'"
  using assms by (induction rule: rtranclp_induct) (auto dest: trigger_step_ok)

text \<open>Creating a manual trigger twice under one idempotency key gives the trigger of the first call
  and no second row.\<close>

theorem create_manual_idempotent:
  assumes "create_manual new_id corr d cam now reason (Some key) = Inr (d', t, c)" and "key \<noteq> []"
  shows "create_manual new_id' corr' d' cam now' reason' (Some key) = Inr (d', t, False)"
proof -
  let ?i = "idempotency_identity cam (py_strip key)"
  from assms obtain policy where cam: "get_camera d cam \<noteq> None" and pol: "event_policy d cam = Inr policy"
    and key: "py_strip key \<noteq> []" "\<not> length (py_strip key) > 256"
    by (auto simp: create_manual_def and_then_eq_Inr Let_def split: if_splits)
  have "find_by_identity d' ''api'' ?i = Some t \<and> db_cameras d' = db_cameras d \<and> db_policies d' = db_policies d"
  proof (cases "find_by_identity d ''api'' ?i")
    case (Some x)
    then show ?thesis using assms cam pol key by (simp add: create_manual_def)
  next
    case None
    then have ins: "insert_trigger d t = Inr d'" and t: "t = manual_trigger new_id corr cam policy now reason (Some ?i)"
      using assms cam pol key by (auto simp: create_manual_def and_then_eq_Inr Let_def)
    then have "d' = add_trigger t d" by (simp add: insert_trigger_def split: if_splits)
    moreover have "tr_source t = ''api''" "tr_source_event_id t = Some ?i" by (simp_all add: t manual_trigger_def)
    ultimately show ?thesis using None find_identity_add [of d "''api''" ?i t] by (simp add: add_trigger_def)
  qed
  then show ?thesis using assms(2) cam pol key
    by (simp add: create_manual_def get_camera_def event_policy_def policy_of_camera_def)
qed

text \<open>Idempotency keys are scoped to their camera: the stored identities of two requests are equal
  only for the same camera and the same normalised key.\<close>

theorem idempotency_identity_scoped:
  assumes "cam < 2 ^ 128" and "cam' < 2 ^ 128"
    and "idempotency_identity cam key = idempotency_identity cam' key'"
  shows "cam = cam' \<and> key = key'"
proof -
  have eq: "uuid_str cam = uuid_str cam' \<and> '':'' @ key = '':'' @ key'"
    using assms(3) append_eq_append_conv [of "uuid_str cam" "uuid_str cam'" "'':'' @ key" "'':'' @ key'"]
    unfolding idempotency_identity_def by simp
  from uuid_str_inj [OF assms(1,2) conjunct1 [OF eq]] show ?thesis using eq by simp
qed

text \<open>After an explicit stop of a camera no open manual trigger of that camera is left, and nothing
  but those triggers has changed.\<close>

theorem close_active_manual_closes:
  "list_all (\<lambda>t. \<not> open_manual cam t) (db_triggers (fst (close_active_manual_for_camera d cam now)))
   \<and> list_all2 (\<lambda>old new. new = (if open_manual cam old then close_manual now old else old))
        (db_triggers d) (db_triggers (fst (close_active_manual_for_camera d cam now)))
   \<and> snd (close_active_manual_for_camera d cam now) = length (filter (open_manual cam) (db_triggers d))"
proof -
  have "\<not> open_manual cam (if open_manual cam t then close_manual now t else t)" for t
    by (simp add: open_manual_def close_manual_def)
  then show ?thesis
    unfolding close_active_manual_for_camera_def
    by (simp add: list.pred_map comp_def list.pred_True list_all2_map2 list.rel_refl)
qed

text \<open>The triggers active at an instant are the triggers overlapping the microsecond that starts
  there, in the same order.\<close>

theorem active_at_is_overlapping:
  "active_at d cam t = overlapping d cam t (t + 1)"
proof -
  have "(p \<le> t) = (p < t + 1)" for p :: int by linarith
  then show ?thesis by (simp add: active_at_def overlapping_def)
qed

section \<open>Concrete inputs\<close>

definition example_event :: provider_event where
  "example_event =
     \<lparr>pe_camera_id = 7, pe_source = ''frigate'', pe_source_instance_id = ''main'',
      pe_source_event_id = ''e1'', pe_started_at = seconds 100, pe_ended_at = None,
      pe_trigger_type = ''OBJECT'', pe_reason = Some ''person'', pe_label = Some ''person'',
      pe_confidence = None, pe_zones = [], pe_metadata = Some []\<rparr>"

definition example_trigger_db :: db where
  "example_trigger_db = empty_db\<lparr>db_cameras := [\<lparr>cam_id = 7, cam_enabled = True, cam_maintenance = False\<rparr>],
     db_policies := [policy_from_values 7 (example_values\<lparr>pv_event_recording_enabled := True\<rparr>) []]\<rparr>"

definition example_trigger :: recording_trigger where
  "example_trigger = provider_trigger (\<lambda>s. ''c'') 1
     (policy_from_values 7 (example_values\<lparr>pv_event_recording_enabled := True\<rparr>) []) example_event"

lemma example_upsert:
  "upsert_provider (\<lambda>s. ''c'') 1 example_trigger_db example_event
   = Inr (add_trigger example_trigger example_trigger_db, Some example_trigger, True)"
  by code_simp

theorem upsert_provider_idempotent_witness:
  "upsert_provider (\<lambda>s. ''c'') 2 (add_trigger example_trigger example_trigger_db) example_event
   = Inr (add_trigger example_trigger example_trigger_db, Some example_trigger, False)"
  by (rule upsert_provider_idempotent [OF example_upsert])

lemma example_upsert_end:
  "upsert_provider (\<lambda>s. ''c'') 2 (add_trigger example_trigger example_trigger_db)
     (example_event\<lparr>pe_ended_at := Some (seconds 130)\<rparr>)
   = Inr (update_trigger 1 (\<lambda>t. t\<lparr>tr_planned_end_at := Some (seconds 135), tr_state := ''COMPLETED''\<rparr>)
            (add_trigger example_trigger example_trigger_db),
          Some (example_trigger\<lparr>tr_planned_end_at := Some (seconds 135), tr_state := ''COMPLETED''\<rparr>), True)"
  by code_simp

theorem upsert_provider_monotone_witness:
  "tr_planned_start_at (example_trigger\<lparr>tr_planned_end_at := Some (seconds 135), tr_state := ''COMPLETED''\<rparr>)
   = tr_planned_start_at example_trigger"
proof -
  have "find_by_identity (add_trigger example_trigger example_trigger_db)
          (pe_source (example_event\<lparr>pe_ended_at := Some (seconds 130)\<rparr>))
          (provider_identity (example_event\<lparr>pe_ended_at := Some (seconds 130)\<rparr>)) = Some example_trigger"
    by code_simp
  from upsert_provider_monotone [OF example_upsert_end this] show ?thesis by (rule conjunct1)
qed

theorem trigger_table_invariant_witness:
  "triggers_ok (add_trigger example_trigger example_trigger_db)"
proof (rule trigger_table_invariant)
  show "trigger_step\<^sup>*\<^sup>* example_trigger_db (add_trigger example_trigger example_trigger_db)"
    by (rule r_into_rtranclp, rule trigger_step.provider [OF example_upsert])
  show "triggers_ok example_trigger_db"
    by (simp add: triggers_ok_def example_trigger_db_def empty_db_def)
qed

theorem create_manual_idempotent_witness:
  "\<exists>d' t. create_manual 1 ''c'' example_trigger_db 7 0 None (Some ''k'') = Inr (d', t, True)
     \<and> create_manual 2 ''d'' d' 7 5 None (Some ''k'') = Inr (d', t, False)"
proof -
  let ?t = "manual_trigger 1 ''c'' 7 (policy_from_values 7 (example_values\<lparr>pv_event_recording_enabled := True\<rparr>) [])
     0 None (Some (idempotency_identity 7 ''k''))"
  have h: "create_manual 1 ''c'' example_trigger_db 7 0 None (Some ''k'')
     = Inr (add_trigger ?t example_trigger_db, ?t, True)"
    by (simp add: create_manual_def example_trigger_db_def empty_db_def get_camera_def event_policy_def
        policy_of_camera_def policy_from_values_def example_values_def find_by_identity_def py_strip_def
        is_space_def code_of_def insert_trigger_def manual_trigger_def trigger_window_ok_def
        trigger_identity_free_def get_trigger_def seconds_def Let_def)
  show ?thesis using h create_manual_idempotent [OF h] by blast
qed

theorem idempotency_identity_scoped_witness:
  "\<exists>cam key cam' key'. cam < 2 ^ 128 \<and> cam' < 2 ^ 128
     \<and> idempotency_identity cam key = idempotency_identity cam' key' \<and> cam = cam' \<and> key = key'"
proof -
  have "(7 :: nat) = 7 \<and> ''k'' = ''k''" by (rule idempotency_identity_scoped) simp_all
  then show ?thesis by (intro exI [of _ 7] exI [of _ "''k''"]) simp
qed

definition example_segment :: "uuid \<Rightarrow> instant \<Rightarrow> instant \<Rightarrow> recording_segment" where
  "example_segment k a b =
     \<lparr>sg_id = k, sg_camera_id = 7, sg_stream_profile_id = None, sg_started_at = a, sg_ended_at = b,
      sg_duration_ms = round_ms (b - a), sg_timing_status = Final, sg_timing_source = ExplicitStop,
      sg_recording_reasons_json = [''continuous''], sg_size_bytes = 1000, sg_codec = None,
      sg_container = ''fmp4'', sg_source_media_server_id = ''default'', sg_source_app = ''zero-nvr'',
      sg_source_stream = ''profile-1'', sg_integrity_status = ''UNKNOWN'', sg_completion_reason = None\<rparr>"


theorem pre_roll_status_cases_witness:
  "pc_status (pre_roll_coverage_of (empty_db\<lparr>db_segments := [example_segment 1 (seconds 90) (seconds 98)]\<rparr>)
      (example_trigger\<lparr>tr_pre_roll_seconds := 5\<rparr>) (seconds 111) 10) = Degraded"
proof -
  have f: "0 < tr_pre_roll_seconds (example_trigger\<lparr>tr_pre_roll_seconds := 5\<rparr>)"
    "tr_planned_start_at (example_trigger\<lparr>tr_pre_roll_seconds := 5\<rparr>)
       < tr_requested_at (example_trigger\<lparr>tr_pre_roll_seconds := 5\<rparr>)"
    by code_simp+
  show ?thesis by (subst pre_roll_status_cases [OF f]) code_simp
qed

end
