(* ===== verification/Arbiter.thy ===== *)
theory Arbiter
  imports Triggers
begin

text \<open>
  \<open>modules/recordings/arbiter.py\<close>: which recorder a camera needs at an instant, from the policy,
  the baseline schedule and the active triggers; and the reasons recorded with a finalized segment
  (\<open>recording_reasons\<close> of \<open>modules/recordings/catalog.py\<close>), which consult the same facts.
\<close>

datatype recorder_mode = Persistent | Prebuffer | Off

record arbitration =
  ar_mode :: recorder_mode
  ar_reasons :: "string list"
  ar_baseline_active :: bool
  ar_event_active :: bool
  ar_manual_active :: bool

definition is_manual :: "recording_trigger \<Rightarrow> bool" where
  "is_manual t = (py_upper (tr_type t) = ''MANUAL'')"

definition baseline_reason :: "recording_policy \<Rightarrow> string" where
  "baseline_reason p = (if rp_baseline_mode p = ''continuous'' then ''continuous'' else ''schedule'')"

definition arbitrate :: "zones \<Rightarrow> db \<Rightarrow> uuid \<Rightarrow> bool \<Rightarrow> recording_policy \<Rightarrow> instant \<Rightarrow> arbitration result" where
  "arbitrate zones d camera_id camera_enabled policy instant =
     (if \<not> camera_enabled \<or> \<not> rp_enabled policy
      then Inr \<lparr>ar_mode = Off, ar_reasons = [], ar_baseline_active = False, ar_event_active = False,
                ar_manual_active = False\<rparr>
      else and_then (baseline_should_record zones policy instant) (\<lambda>baseline_active.
        let active_triggers = active_at d camera_id instant;
            manual_active = list_ex is_manual active_triggers;
            event_active = (rp_event_recording_enabled policy \<and> list_ex (\<lambda>t. \<not> is_manual t) active_triggers);
            reasons = (if baseline_active then [baseline_reason policy] else [])
                      @ (if event_active then [''event''] else []) @ (if manual_active then [''manual''] else []);
            mode = (if baseline_active \<or> manual_active then Persistent
                    else if rp_event_recording_enabled policy then Prebuffer else Off)
        in Inr \<lparr>ar_mode = mode, ar_reasons = reasons, ar_baseline_active = baseline_active,
                ar_event_active = event_active, ar_manual_active = manual_active\<rparr>))"

text \<open>
  \<open>started_at + (ended_at - started_at) / 2\<close>: dividing a \<open>timedelta\<close> by an int rounds the number of
  microseconds half to even.
\<close>

definition midpoint :: "instant \<Rightarrow> instant \<Rightarrow> instant" where
  "midpoint a b = a + round_div (b - a) 2"

definition recording_reasons :: "zones \<Rightarrow> db \<Rightarrow> uuid \<Rightarrow> instant \<Rightarrow> instant \<Rightarrow> string list result" where
  "recording_reasons zones d camera_id started_at ended_at =
     and_then (case policy_of_camera d camera_id of
         None \<Rightarrow> Inr []
       | Some policy \<Rightarrow>
           if rp_enabled policy
           then and_then (baseline_should_record zones policy (midpoint started_at ended_at))
                  (\<lambda>b. Inr (if b then [baseline_reason policy] else []))
           else Inr []) (\<lambda>baseline.
     Inr (sort (remdups (baseline @ map (\<lambda>t. if is_manual t then ''manual'' else ''event'')
                                       (overlapping d camera_id started_at ended_at)))))"

lemma midpoint_between: "a < b \<Longrightarrow> a \<le> midpoint a b \<and> midpoint a b \<le> b"
  using round_div_bounds [of 2 "b - a"] by (auto simp: midpoint_def)

lemma set_active_at:
  "set (active_at d cam u) =
     {t \<in> set (db_triggers d). live_trigger cam t \<and> tr_planned_start_at t \<le> u \<and> ends_after (tr_planned_end_at t) u}"
  by (auto simp: active_at_def)

lemma set_overlapping:
  "set (overlapping d cam a b) =
     {t \<in> set (db_triggers d). live_trigger cam t \<and> tr_planned_start_at t < b \<and> ends_after (tr_planned_end_at t) a}"
  by (auto simp: overlapping_def)

text \<open>The recorder is on persistent storage exactly when the camera and its policy are enabled and
  the baseline or a live manual trigger asks for it, in the prebuffer exactly when neither does and event
  recording is enabled, and off otherwise; the reasons listed are exactly the active causes.\<close>

theorem arbitrate_mode:
  assumes "arbitrate zones d cam True policy u = Inr a" and "rp_enabled policy"
    and "baseline_should_record zones policy u = Inr b"
  defines "manual \<equiv> \<exists>t \<in> set (db_triggers d). live_trigger cam t \<and> tr_planned_start_at t \<le> u
             \<and> ends_after (tr_planned_end_at t) u \<and> is_manual t"
  shows "(ar_mode a = Persistent \<longleftrightarrow> b \<or> manual)
    \<and> (ar_mode a = Prebuffer \<longleftrightarrow> \<not> b \<and> \<not> manual \<and> rp_event_recording_enabled policy)
    \<and> (ar_mode a = Off \<longleftrightarrow> \<not> b \<and> \<not> manual \<and> \<not> rp_event_recording_enabled policy)
    \<and> (''manual'' \<in> set (ar_reasons a) \<longleftrightarrow> manual)
    \<and> (''event'' \<in> set (ar_reasons a) \<longleftrightarrow> rp_event_recording_enabled policy
         \<and> (\<exists>t \<in> set (db_triggers d). live_trigger cam t \<and> tr_planned_start_at t \<le> u
             \<and> ends_after (tr_planned_end_at t) u \<and> \<not> is_manual t))"
proof -
  have man: "list_ex is_manual (active_at d cam u) \<longleftrightarrow> manual"
    by (auto simp: list_ex_iff set_active_at manual_def)
  have ev: "list_ex (\<lambda>t. \<not> is_manual t) (active_at d cam u) \<longleftrightarrow>
    (\<exists>t \<in> set (db_triggers d). live_trigger cam t \<and> tr_planned_start_at t \<le> u
             \<and> ends_after (tr_planned_end_at t) u \<and> \<not> is_manual t)"
    by (auto simp: list_ex_iff set_active_at)
  have base: "baseline_reason policy \<noteq> ''manual''" "baseline_reason policy \<noteq> ''event''"
    by (simp_all add: baseline_reason_def)
  show ?thesis using assms(1-3) base
    unfolding arbitrate_def Let_def man ev [symmetric] by (auto split: if_splits)
qed

text \<open>The reasons stored with a segment agree with the arbiter: if at some instant inside the segment
  the arbiter named a manual (or event) cause, the segment's reasons contain it.\<close>

theorem reasons_cover_arbitration:
  assumes "arbitrate zones d cam en policy u = Inr a" and "started \<le> u" "u < ended"
    and "recording_reasons zones d cam started ended = Inr reasons"
  shows "(''manual'' \<in> set (ar_reasons a) \<longrightarrow> ''manual'' \<in> set reasons)
    \<and> (''event'' \<in> set (ar_reasons a) \<longrightarrow> ''event'' \<in> set reasons)"
proof -
  have sub: "set (active_at d cam u) \<subseteq> set (overlapping d cam started ended)"
    using assms(2,3) by (auto simp: set_active_at set_overlapping intro: ends_after_mono)
  have reasons: "(if is_manual t then ''manual'' else ''event'') \<in> set reasons"
    if "t \<in> set (overlapping d cam started ended)" for t
    using assms(4) that by (auto simp: recording_reasons_def and_then_eq_Inr)
  have base: "baseline_reason policy \<noteq> ''manual''" "baseline_reason policy \<noteq> ''event''"
    by (simp_all add: baseline_reason_def)
  have flags: "(''manual'' \<in> set (ar_reasons a) \<longrightarrow> list_ex is_manual (active_at d cam u))
      \<and> (''event'' \<in> set (ar_reasons a) \<longrightarrow> list_ex (\<lambda>t. \<not> is_manual t) (active_at d cam u))"
    using assms(1) base unfolding arbitrate_def Let_def
    by (auto simp: and_then_eq_Inr split: if_splits)
  show ?thesis
  proof (intro conjI impI)
    assume "''manual'' \<in> set (ar_reasons a)"
    then obtain t where "t \<in> set (active_at d cam u)" "is_manual t" using flags by (auto simp: list_ex_iff)
    then show "''manual'' \<in> set reasons" using sub reasons [of t] by auto
  next
    assume "''event'' \<in> set (ar_reasons a)"
    then obtain t where "t \<in> set (active_at d cam u)" "\<not> is_manual t" using flags by (auto simp: list_ex_iff)
    then show "''event'' \<in> set reasons" using sub reasons [of t] by auto
  qed
qed

section \<open>Concrete inputs\<close>

definition example_manual_db :: db where
  "example_manual_db = add_trigger (manual_trigger 1 ''c'' 7
     (policy_from_values 7 (example_values\<lparr>pv_baseline_mode := ''disabled'', pv_event_recording_enabled := True\<rparr>) [])
     (seconds 100) None None)
     (empty_db\<lparr>db_cameras := [\<lparr>cam_id = 7, cam_enabled = True, cam_maintenance = False\<rparr>],
        db_policies := [policy_from_values 7
          (example_values\<lparr>pv_baseline_mode := ''disabled'', pv_event_recording_enabled := True\<rparr>) []]\<rparr>)"

definition example_event_policy :: recording_policy where
  "example_event_policy =
     policy_from_values 7 (example_values\<lparr>pv_baseline_mode := ''disabled'', pv_event_recording_enabled := True\<rparr>) []"

definition example_arbitration :: arbitration where
  "example_arbitration = \<lparr>ar_mode = Persistent, ar_reasons = [''manual''], ar_baseline_active = False,
     ar_event_active = False, ar_manual_active = True\<rparr>"

lemma example_arbitrate:
  "arbitrate example_zones example_manual_db 7 True example_event_policy (seconds 101) = Inr example_arbitration"
  by code_simp

theorem arbitrate_mode_witness:
  "ar_mode example_arbitration = Persistent \<longleftrightarrow>
     False \<or> (\<exists>t \<in> set (db_triggers example_manual_db). live_trigger 7 t \<and> tr_planned_start_at t \<le> seconds 101
             \<and> ends_after (tr_planned_end_at t) (seconds 101) \<and> is_manual t)"
proof -
  have "rp_enabled example_event_policy"
    "baseline_should_record example_zones example_event_policy (seconds 101) = Inr False"
    by code_simp+
  from arbitrate_mode [OF example_arbitrate this] show ?thesis by blast
qed

theorem reasons_cover_arbitration_witness:
  "''manual'' \<in> set (ar_reasons example_arbitration) \<and> ''manual'' \<in> set [''manual'']"
proof -
  have "recording_reasons example_zones example_manual_db 7 (seconds 99) (seconds 102) = Inr [''manual'']"
    "seconds 99 \<le> seconds 101" "seconds 101 < seconds 102" by code_simp+
  from reasons_cover_arbitration [OF example_arbitrate this(2,3,1)]
  show ?thesis by (simp add: example_arbitration_def)
qed

end
