(* ===== verification/Retention.thy ===== *)
theory Retention
  imports Model
begin

text \<open>
  \<open>modules/storage/retention.py\<close>, the planner: which local copy of a recording may be deleted at
  an instant, and the bounded batch of actions of one reconciliation. The retention classes
  (the strings \<open>ordinary\<close>, \<open>event\<close>, \<open>manual\<close>) are a datatype.
\<close>

section \<open>Selecting the policy of a camera\<close>

definition single_policy ::
    "retention_policy list \<Rightarrow> string \<Rightarrow> retention_policy option result" where
  "single_policy policies code =
     (if policies = [] then Inr None
      else if length policies > 1 then Inl (ApiError 409 code)
      else Inr (Some (hd policies)))"

definition group_parent :: "db \<Rightarrow> uuid \<Rightarrow> uuid option" where
  "group_parent d g = (case find (\<lambda>r. gr_id r = g) (db_groups d) of
     None \<Rightarrow> None | Some r \<Rightarrow> gr_parent_id r)"

lemma group_parent_known: "group_parent d g = Some p \<Longrightarrow> g \<in> gr_id ` set (db_groups d)"
  by (auto simp: group_parent_def find_Some_iff split: option.splits)

definition note_depth :: "uuid \<Rightarrow> nat \<Rightarrow> (uuid \<rightharpoonup> nat) \<Rightarrow> (uuid \<rightharpoonup> nat)" where
  "note_depth g depth depths =
     (case depths g of
        None \<Rightarrow> depths(g \<mapsto> depth)
      | Some previous \<Rightarrow> if depth < previous then depths(g \<mapsto> depth) else depths)"

text \<open>
  The walk to the root stops at a group it has visited, so a cycle of parents cannot trap it. An
  unvisited known group leaves fewer unvisited groups; an unknown one has no parent.
\<close>

function walk_ancestors ::
    "db \<Rightarrow> uuid option \<Rightarrow> nat \<Rightarrow> uuid list \<Rightarrow> (uuid \<rightharpoonup> nat) \<Rightarrow> (uuid \<rightharpoonup> nat)" where
  "walk_ancestors d None depth visited depths = depths"
| "walk_ancestors d (Some g) depth visited depths =
     (if g \<in> set visited then depths
      else walk_ancestors d (group_parent d g) (depth + 1) (g # visited) (note_depth g depth depths))"
  by pat_completeness auto

termination
proof (relation "measure (\<lambda>(d, cur, depth, visited, depths).
    2 * card (gr_id ` set (db_groups d) - set visited) + (if cur = None then 0 else 1))")
  fix d :: db and g depth and visited :: "uuid list" and depths :: "uuid \<rightharpoonup> nat"
  assume fresh: "g \<notin> set visited"
  let ?ids = "gr_id ` set (db_groups d)"
  have fin: "finite (?ids - set visited)" by simp
  have le: "card (?ids - set (g # visited)) \<le> card (?ids - set visited)"
    by (rule card_mono [OF fin]) auto
  have less: "card (?ids - set (g # visited)) < card (?ids - set visited)" if "g \<in> ?ids"
    by (rule psubset_card_mono [OF fin]) (use that fresh in auto)
  have "2 * card (?ids - set (g # visited)) + (if group_parent d g = None then 0 else 1)
        < 2 * card (?ids - set visited) + 1"
    using le less group_parent_known [of d g] by (cases "group_parent d g") auto
  then show "((d, group_parent d g, depth + 1, g # visited, note_depth g depth depths),
      d, Some g, depth, visited, depths)
    \<in> measure (\<lambda>(d, cur, depth, visited, depths).
        2 * card (gr_id ` set (db_groups d) - set visited) + (if cur = None then 0 else 1))"
    by simp
qed simp

definition direct_groups :: "db \<Rightarrow> uuid \<Rightarrow> uuid list" where
  "direct_groups d cam = remdups (map fst (filter (\<lambda>m. snd m = cam) (db_members d)))"

definition group_depths :: "db \<Rightarrow> uuid \<Rightarrow> (uuid \<rightharpoonup> nat)" where
  "group_depths d cam =
     foldl (\<lambda>depths direct_id. walk_ancestors d (Some direct_id) 0 [] depths)
       (\<lambda>_. None) (direct_groups d cam)"

definition scoped_policies :: "db \<Rightarrow> retention_scope \<Rightarrow> (uuid option \<Rightarrow> bool) \<Rightarrow> retention_policy list" where
  "scoped_policies d scope scope_test =
     filter (\<lambda>p. tp_scope_type p = scope \<and> scope_test (tp_scope_id p) \<and> tp_enabled p) (db_retention d)"

definition policy_depth :: "(uuid \<rightharpoonup> nat) \<Rightarrow> retention_policy \<Rightarrow> nat option" where
  "policy_depth depths p = (case tp_scope_id p of None \<Rightarrow> None | Some g \<Rightarrow> depths g)"

definition nearest_group_policies :: "db \<Rightarrow> uuid \<Rightarrow> retention_policy list" where
  "nearest_group_policies d cam =
     (let depths = group_depths d cam;
          group_policies = scoped_policies d ScopeCameraGroup
            (\<lambda>s. case s of None \<Rightarrow> False | Some g \<Rightarrow> depths g \<noteq> None)
      in if group_policies = [] then []
         else let best_depth = Min (set (map (\<lambda>p. the (policy_depth depths p)) group_policies))
              in filter (\<lambda>p. policy_depth depths p = Some best_depth) group_policies)"

definition policy_for_camera :: "db \<Rightarrow> uuid \<Rightarrow> retention_policy option result" where
  "policy_for_camera d cam =
     (case (case policy_of_camera d cam of None \<Rightarrow> None | Some rp \<Rightarrow> rp_retention_policy_id rp) of
        Some explicit_id \<Rightarrow>
          (case get_retention d explicit_id of
             None \<Rightarrow> Inl (ApiError 409 ''retention_policy_unavailable'')
           | Some explicit \<Rightarrow>
               if \<not> tp_enabled explicit then Inl (ApiError 409 ''retention_policy_unavailable'')
               else Inr (Some explicit))
      | None \<Rightarrow>
          and_then (single_policy (scoped_policies d ScopeCamera (\<lambda>s. s = Some cam))
                      ''retention_camera_policy_ambiguous'') (\<lambda>selected.
          if selected \<noteq> None then Inr selected
          else and_then (single_policy (nearest_group_policies d cam)
                           ''retention_group_policy_ambiguous'') (\<lambda>selected.
               if selected \<noteq> None then Inr selected
               else single_policy (scoped_policies d ScopeGlobal (\<lambda>_. True))
                      ''retention_global_policy_ambiguous'')))"

section \<open>The retention horizon of a segment\<close>

datatype retention_class = Ordinary | EventClass | ManualClass

fun class_priority :: "retention_class \<Rightarrow> nat" where
  "class_priority Ordinary = 0"
| "class_priority EventClass = 1"
| "class_priority ManualClass = 2"

definition segment_reasons :: "recording_segment \<Rightarrow> string set" where
  "segment_reasons s = set (map py_lower (sg_recording_reasons_json s))"

definition retention_class :: "recording_segment \<Rightarrow> retention_class" where
  "retention_class s =
     (if ''manual'' \<in> segment_reasons s then ManualClass
      else if ''event'' \<in> segment_reasons s then EventClass else Ordinary)"

definition retaining_triggers :: "db \<Rightarrow> recording_segment \<Rightarrow> recording_trigger list" where
  "retaining_triggers d s =
     filter (\<lambda>t. tr_camera_id t = sg_camera_id s
               \<and> tr_state t \<notin> {''CANCELLED'', ''FAILED''}
               \<and> tr_planned_start_at t < sg_ended_at s
               \<and> ends_after (tr_planned_end_at t) (sg_started_at s))
       (db_triggers d)"

definition retaining_events :: "db \<Rightarrow> recording_segment \<Rightarrow> event_row list" where
  "retaining_events d s =
     filter (\<lambda>e. ev_camera_id e = Some (sg_camera_id s) \<and> ev_source e \<noteq> ''system''
               \<and> ev_started_at e < sg_ended_at s \<and> ends_after (ev_ended_at e) (sg_started_at s))
       (db_events d)"

text \<open>One step of the loops over triggers and events: the anchor and the open flag.\<close>

fun note_end :: "instant \<times> bool \<Rightarrow> instant option \<Rightarrow> instant \<times> bool" where
  "note_end (event_anchor, active_event) None = (event_anchor, True)"
| "note_end (event_anchor, active_event) (Some e) = (max event_anchor e, active_event)"

record horizon =
  hz_class :: retention_class
  hz_deadline :: "instant option"
  hz_active_event :: bool

definition class_deadlines ::
    "db \<Rightarrow> recording_segment \<Rightarrow> retention_policy \<Rightarrow> instant \<Rightarrow> (retention_class \<times> instant) list" where
  "class_deadlines d s p event_anchor =
     [(Ordinary, sg_ended_at s + days (tp_ordinary_keep_days p))]
     @ (if ''event'' \<in> segment_reasons s \<or> retaining_triggers d s \<noteq> [] \<or> retaining_events d s \<noteq> []
        then [(EventClass, event_anchor + days (tp_event_keep_days p))] else [])
     @ (if ''manual'' \<in> segment_reasons s
        then [(ManualClass, sg_ended_at s + days (tp_manual_keep_days p))] else [])"

definition later_deadline ::
    "retention_class \<times> instant \<Rightarrow> retention_class \<times> instant \<Rightarrow> retention_class \<times> instant" where
  "later_deadline x y =
     (if (snd x, class_priority (fst x)) < (snd y, class_priority (fst y)) then y else x)"

definition event_evidence :: "db \<Rightarrow> recording_segment \<Rightarrow> instant \<times> bool" where
  "event_evidence d s =
     foldl note_end
       (foldl note_end (sg_ended_at s, False) (map tr_planned_end_at (retaining_triggers d s)))
       (map ev_ended_at (retaining_events d s))"

definition retention_horizon :: "db \<Rightarrow> recording_segment \<Rightarrow> retention_policy \<Rightarrow> horizon" where
  "retention_horizon d s p =
     (let (event_anchor, active_event) = event_evidence d s in
      if active_event
      then \<lparr>hz_class = EventClass, hz_deadline = None, hz_active_event = True\<rparr>
      else let ds = class_deadlines d s p event_anchor;
               (c, t) = foldl later_deadline (hd ds) (tl ds)
           in \<lparr>hz_class = c, hz_deadline = Some t, hz_active_event = False\<rparr>)"

section \<open>Protection and archive copies\<close>

definition unexpired :: "instant \<Rightarrow> recording_protection \<Rightarrow> bool" where
  "unexpired now p = ends_after (pr_expires_at p) now"

definition protects :: "recording_protection \<Rightarrow> recording_segment \<Rightarrow> bool" where
  "protects p s =
     (pr_camera_id p = sg_camera_id s \<and> pr_started_at p < sg_ended_at s \<and> sg_started_at s < pr_ended_at p)"

definition protected_at :: "db \<Rightarrow> recording_segment \<Rightarrow> instant \<Rightarrow> bool" where
  "protected_at d s now = list_ex (\<lambda>p. protects p s \<and> unexpired now p) (db_protections d)"

definition is_archive :: "storage_target \<Rightarrow> bool" where
  "is_archive t = (st_type t = RcloneTarget \<and> st_role t = ArchiveRole)"

definition available_archive_exists :: "db \<Rightarrow> uuid \<Rightarrow> bool" where
  "available_archive_exists d seg_id =
     list_ex (\<lambda>l. lo_recording_segment_id l = seg_id \<and> lo_state l = Available \<and> lo_verified_at l \<noteq> None
                \<and> (case get_target d (lo_storage_target_id l) of
                     None \<Rightarrow> False | Some t \<Rightarrow> is_archive t))
       (db_locations d)"

text \<open>\<open>StorageTargetService.default_archive_target\<close> (\<open>modules/storage/service.py\<close>).\<close>

definition default_archive_target :: "db \<Rightarrow> storage_target result" where
  "default_archive_target d =
     (let candidates = filter (\<lambda>t. is_archive t \<and> st_enabled t) (db_targets d);
          defaults = filter (\<lambda>t. case map_of (st_config_json t) ''default_archive'' of
                                   None \<Rightarrow> False | Some v \<Rightarrow> truthy v) candidates
      in if length defaults = 1 then Inr (hd defaults)
         else if length defaults > 1 then Inl (ApiError 409 ''archive_target_ambiguous'')
         else if length candidates = 1 then Inr (hd candidates)
         else if candidates = [] then Inl (ApiError 409 ''archive_target_unconfigured'')
         else Inl (ApiError 409 ''archive_target_ambiguous''))"

text \<open>
  \<open>ORDER BY last_attempt_at DESC, id\<close>: SQLite sorts NULL before every value, so a row without an
  attempt comes last in descending order.
\<close>

definition attempt_order :: "recording_location \<Rightarrow> nat \<times> int \<times> uuid" where
  "attempt_order l = (case lo_last_attempt_at l of
     None \<Rightarrow> (1, 0, lo_id l) | Some t \<Rightarrow> (0, - t, lo_id l))"

definition archive_target_for_retry :: "db \<Rightarrow> uuid \<Rightarrow> instant \<Rightarrow> uuid option" where
  "archive_target_for_retry d seg_id now =
     (let stale_before = now - hours 1;
          existing = sort_key attempt_order
            (filter (\<lambda>l. lo_recording_segment_id l = seg_id \<and> lo_state l \<in> {Archiving, Failed, Missing}
                       \<and> (case get_target d (lo_storage_target_id l) of
                            None \<Rightarrow> False | Some t \<Rightarrow> is_archive t \<and> st_enabled t))
               (db_locations d))
      in case existing of
           l # _ \<Rightarrow>
             if lo_state l \<noteq> Archiving
                \<or> (case lo_last_attempt_at l of None \<Rightarrow> True | Some t \<Rightarrow> t < stale_before)
             then Some (lo_storage_target_id l) else None
         | [] \<Rightarrow> (case default_archive_target d of Inl _ \<Rightarrow> None | Inr t \<Rightarrow> Some (st_id t)))"

section \<open>The decision for one location\<close>

record decision =
  rd_location_id :: uuid
  rd_segment_id :: uuid
  rd_policy_id :: "uuid option"
  rd_class :: retention_class
  rd_deadline :: "instant option"
  rd_eligible :: bool
  rd_reason :: string
  rd_archive_target_id :: "uuid option"
  rd_pressure_override :: bool
  rd_verified_archive :: bool

text \<open>A decision with the defaults of the dataclass, which forbids the deletion.\<close>

definition refuse ::
    "uuid \<Rightarrow> uuid \<Rightarrow> uuid option \<Rightarrow> retention_class \<Rightarrow> instant option \<Rightarrow> string \<Rightarrow> decision" where
  "refuse loc seg pol cls deadline reason =
     \<lparr>rd_location_id = loc, rd_segment_id = seg, rd_policy_id = pol, rd_class = cls,
      rd_deadline = deadline, rd_eligible = False, rd_reason = reason,
      rd_archive_target_id = None, rd_pressure_override = False, rd_verified_archive = False\<rparr>"

definition local_recording :: "db \<Rightarrow> recording_location \<Rightarrow> bool" where
  "local_recording d l = (case get_target d (lo_storage_target_id l) of
     None \<Rightarrow> False | Some t \<Rightarrow> st_type t = LocalTarget \<and> st_role t = RecordingRole)"

text \<open>The part of \<open>evaluate\<close> after the policy is known.\<close>

definition evaluate_under ::
    "db \<Rightarrow> recording_location \<Rightarrow> recording_segment \<Rightarrow> retention_policy \<Rightarrow> instant \<Rightarrow> bool
     \<Rightarrow> decision result" where
  "evaluate_under d l s policy now pressure =
     (let h = retention_horizon d s policy; cls = hz_class h in
      if protected_at d s now
      then Inr (refuse (lo_id l) (sg_id s) (Some (tp_id policy)) cls (hz_deadline h) ''protected'')
      else if hz_active_event h
      then Inr (refuse (lo_id l) (sg_id s) (Some (tp_id policy)) cls None ''active_event'')
      else (case hz_deadline h of
        None \<Rightarrow> Inl AssertionError
      | Some deadline \<Rightarrow>
          let verified = available_archive_exists d (sg_id s);
              override = (pressure \<and> tp_mode policy = BestEffort \<and> cls = Ordinary \<and> now < deadline)
          in if now < deadline \<and> \<not> override
             then Inr (refuse (lo_id l) (sg_id s) (Some (tp_id policy)) cls (Some deadline)
                         ''before_deadline'')
             else if tp_require_archive_before_delete policy \<and> \<not> verified
             then let archive = archive_target_for_retry d (sg_id s) now in
               Inr ((refuse (lo_id l) (sg_id s) (Some (tp_id policy)) cls (Some deadline)
                       (if archive \<noteq> None then ''archive_required'' else ''archive_unavailable''))
                    \<lparr>rd_archive_target_id := archive, rd_pressure_override := override\<rparr>)
             else Inr ((refuse (lo_id l) (sg_id s) (Some (tp_id policy)) cls (Some deadline) ''eligible'')
                       \<lparr>rd_eligible := True, rd_pressure_override := override,
                        rd_verified_archive := verified\<rparr>)))"

definition evaluate :: "db \<Rightarrow> recording_location \<Rightarrow> instant \<Rightarrow> bool \<Rightarrow> decision result" where
  "evaluate d l now pressure =
     (case get_segment d (lo_recording_segment_id l) of
        None \<Rightarrow> Inr (refuse (lo_id l) (lo_recording_segment_id l) None Ordinary None ''segment_missing'')
      | Some s \<Rightarrow>
          if \<not> local_recording d l \<or> lo_state l \<noteq> Available
          then Inr (refuse (lo_id l) (sg_id s) None (retention_class s) None ''not_local_available'')
          else if sg_timing_status s \<noteq> Final
          then Inr (refuse (lo_id l) (sg_id s) None (retention_class s) None ''segment_not_final'')
          else and_then (policy_for_camera d (sg_camera_id s)) (\<lambda>policy. case policy of
                 None \<Rightarrow> Inr (refuse (lo_id l) (sg_id s) None (retention_class s) None
                               ''retention_policy_missing'')
               | Some p \<Rightarrow> evaluate_under d l s p now pressure))"

section \<open>Planning\<close>

text \<open>\<open>datetime.max\<close> in UTC.\<close>

definition datetime_max :: instant where
  "datetime_max = 253402300799999999"

definition emergency_priority :: "decision \<Rightarrow> nat \<times> instant \<times> uuid \<times> uuid" where
  "emergency_priority x =
     (if rd_archive_target_id x \<noteq> None then 4
      else if rd_pressure_override x then 3
      else if rd_eligible x \<and> rd_verified_archive x then 0
      else if rd_eligible x \<and> rd_class x = Ordinary then 1
      else 2,
      case rd_deadline x of None \<Rightarrow> datetime_max | Some t \<Rightarrow> t,
      rd_segment_id x, rd_location_id x)"

definition candidate_order :: "db \<Rightarrow> recording_location \<Rightarrow> instant \<times> uuid" where
  "candidate_order d l =
     (case get_segment d (lo_recording_segment_id l) of None \<Rightarrow> 0 | Some s \<Rightarrow> sg_ended_at s, lo_id l)"

definition plan_candidates :: "db \<Rightarrow> recording_location list" where
  "plan_candidates d =
     sort_key (candidate_order d)
       (filter (\<lambda>l. lo_state l = Available \<and> local_recording d l
                  \<and> get_segment d (lo_recording_segment_id l) \<noteq> None)
          (db_locations d))"

definition evaluate_pressured ::
    "db \<Rightarrow> instant \<Rightarrow> bool \<Rightarrow> uuid list \<Rightarrow> recording_location \<Rightarrow> decision result" where
  "evaluate_pressured d now pressure pressured l =
     evaluate d l now (pressure \<or> lo_storage_target_id l \<in> set pressured)"

definition plan ::
    "db \<Rightarrow> instant \<Rightarrow> bool \<Rightarrow> uuid list \<Rightarrow> int \<Rightarrow> int \<Rightarrow> decision list result" where
  "plan d now pressure pressured limit offset =
     (if limit < 1 \<or> limit > 5000 then Inl (ApiError 400 ''retention_limit_invalid'')
      else if offset < 0 then Inl (ApiError 400 ''retention_offset_invalid'')
      else map_result (evaluate_pressured d now pressure pressured)
             (take (nat limit) (drop (nat offset) (plan_candidates d))))"

definition action_key :: "decision \<Rightarrow> (string \<times> uuid) option" where
  "action_key x =
     (if rd_archive_target_id x \<noteq> None then Some (''archive'', rd_segment_id x)
      else if rd_eligible x then Some (''delete'', rd_location_id x) else None)"

text \<open>The loop over one page: \<open>actions\<close>, \<open>action_keys\<close>, \<open>blocked\<close>.\<close>

fun scan_page ::
    "bool \<Rightarrow> int \<Rightarrow> decision list \<Rightarrow> decision list \<times> (string \<times> uuid) list \<times> int
     \<Rightarrow> decision list \<times> (string \<times> uuid) list \<times> int" where
  "scan_page emergency action_limit [] st = st"
| "scan_page emergency action_limit (x # page) (actions, keys, blocked) =
     (case action_key x of
        None \<Rightarrow> scan_page emergency action_limit page (actions, keys, blocked + 1)
      | Some k \<Rightarrow>
          if k \<in> set keys then scan_page emergency action_limit page (actions, keys, blocked)
          else let actions' = actions @ [x] in
               if \<not> emergency \<and> int (length actions') \<ge> action_limit
               then (actions', k # keys, blocked)
               else scan_page emergency action_limit page (actions', k # keys, blocked))"

record batch =
  ba_decisions :: "decision list"
  ba_scanned :: int
  ba_blocked :: int

lemma plan_page_offset:
  assumes "plan d now pressure pressured limit offset = Inr page" and "page \<noteq> []"
  shows "0 \<le> offset \<and> offset < int (length (plan_candidates d))"
proof -
  from assms(1) have "0 \<le> offset"
    and "length page = length (take (nat limit) (drop (nat offset) (plan_candidates d)))"
    by (auto simp: plan_def split: if_splits dest: map_result_length)
  with assms(2) show ?thesis by (cases page) auto
qed

function scan_pages ::
    "db \<Rightarrow> instant \<Rightarrow> bool \<Rightarrow> uuid list \<Rightarrow> int \<Rightarrow> int \<Rightarrow> int
     \<Rightarrow> decision list \<times> (string \<times> uuid) list \<times> int \<Rightarrow> int \<Rightarrow> int
     \<Rightarrow> (decision list \<times> int \<times> int) result" where
  "scan_pages d now pressure pressured page_size action_limit scan_limit st scanned offset =
     (let emergency = (pressure \<or> pressured \<noteq> []); (actions, keys, blocked) = st in
      if emergency \<and> scanned \<ge> scan_limit then Inr (actions, scanned, blocked)
      else
        let page_limit = (if emergency then min page_size (scan_limit - scanned) else page_size) in
        (case plan d now pressure pressured page_limit offset of
           Inl e \<Rightarrow> Inl e
         | Inr page \<Rightarrow>
             if page = [] then Inr (actions, scanned, blocked)
             else
               let scanned' = scanned + int (length page);
                   st' = scan_page emergency action_limit page st;
                   (actions', keys', blocked') = st'
               in if int (length page) < page_limit then Inr (actions', scanned', blocked')
                  else if \<not> emergency \<and> int (length actions') \<ge> action_limit
                  then Inr (actions', scanned', blocked')
                  else scan_pages d now pressure pressured page_size action_limit scan_limit st'
                         scanned' (offset + int (length page))))"
  by pat_completeness auto

termination
proof (relation "measure (\<lambda>(d, now, pressure, pressured, page_size, action_limit, scan_limit, st,
    scanned, offset). nat (int (length (plan_candidates d)) - offset))", goal_cases)
  case 1
  then show ?case by simp
next
  case (2 d now pressure pressured page_size action_limit scan_limit st scanned offset)
  then have "0 \<le> offset \<and> offset < int (length (plan_candidates d))"
    by - (erule (1) plan_page_offset)
  with 2 show ?case by (simp add: nat_less_eq_zless)
qed

declare scan_pages.simps [simp del]

definition actionable_plan ::
    "db \<Rightarrow> instant \<Rightarrow> bool \<Rightarrow> uuid list \<Rightarrow> int \<Rightarrow> int \<Rightarrow> int \<Rightarrow> batch result" where
  "actionable_plan d now pressure pressured page_size action_limit scan_limit =
     (if page_size < 1 \<or> page_size > 5000 \<or> action_limit < 1 \<or> action_limit > 5000
         \<or> scan_limit < 1 \<or> scan_limit > 50000
      then Inl (ApiError 400 ''retention_action_batch_invalid'')
      else and_then (scan_pages d now pressure pressured page_size action_limit scan_limit
                       ([], [], 0) 0 0) (\<lambda>(actions, scanned, blocked).
           let ordered = (if pressure \<or> pressured \<noteq> [] then sort_key emergency_priority actions
                          else actions)
           in Inr \<lparr>ba_decisions = take (nat action_limit) ordered, ba_scanned = scanned,
                   ba_blocked = blocked\<rparr>))"

section \<open>The walk over the groups\<close>

text \<open>The group \<open>n\<close> parent steps above \<open>g\<close>.\<close>

fun ancestor :: "db \<Rightarrow> nat \<Rightarrow> uuid \<Rightarrow> uuid option" where
  "ancestor d 0 g = Some g"
| "ancestor d (Suc n) g = (case group_parent d g of None \<Rightarrow> None | Some p \<Rightarrow> ancestor d n p)"

lemma ancestor_add:
  "ancestor d (m + n) g = (case ancestor d m g of None \<Rightarrow> None | Some h \<Rightarrow> ancestor d n h)"
  by (induction m arbitrary: g) (auto split: option.splits)

lemma ancestor_prefix: "ancestor d n g = Some h \<Longrightarrow> m \<le> n \<Longrightarrow> ancestor d m g \<noteq> None"
  using ancestor_add [of d m "n - m" g] by (auto split: option.splits)

lemma note_depth_keeps: "D h = Some k \<Longrightarrow> \<exists>k'. k' \<le> k \<and> note_depth g n D h = Some k'"
  by (auto simp: note_depth_def split: option.splits)

lemma note_depth_notes: "\<exists>k'. k' \<le> n \<and> note_depth g n D g = Some k'"
  by (auto simp: note_depth_def split: option.splits)

lemma note_depth_cases: "note_depth g n D h = Some k \<Longrightarrow> D h = Some k \<or> (h = g \<and> k = n)"
  by (auto simp: note_depth_def split: option.splits if_splits)

lemma walk_keeps: "D h = Some k \<Longrightarrow> \<exists>k'. k' \<le> k \<and> walk_ancestors d cur n V D h = Some k'"
proof (induction d cur n V D arbitrary: k rule: walk_ancestors.induct)
  case (2 d g n V D)
  show ?case
  proof (cases "g \<in> set V")
    case False
    from note_depth_keeps [of D h k g n] "2.prems"
    obtain k1 where "k1 \<le> k" "note_depth g n D h = Some k1" by blast
    with "2.IH" [OF False, of k1] False show ?thesis by (auto intro: order_trans)
  qed (use 2 in auto)
qed auto

lemma walk_sound:
  "walk_ancestors d cur n V D h = Some k \<Longrightarrow>
   D h = Some k \<or> (\<exists>g i. cur = Some g \<and> k = n + i \<and> ancestor d i g = Some h)"
proof (induction d cur n V D rule: walk_ancestors.induct)
  case (2 d g n V D)
  show ?case
  proof (cases "g \<in> set V")
    case False
    with 2 have "note_depth g n D h = Some k
        \<or> (\<exists>p i. group_parent d g = Some p \<and> k = n + 1 + i \<and> ancestor d i p = Some h)" by auto
    then consider "note_depth g n D h = Some k"
      | p i where "group_parent d g = Some p" "k = n + 1 + i" "ancestor d i p = Some h" by blast
    then show ?thesis
    proof cases
      case 1
      then show ?thesis using note_depth_cases [of g n D h k]
        by (metis ancestor.simps(1) add.right_neutral)
    next
      case 2
      then have "ancestor d (Suc i) g = Some h" "k = n + Suc i" by simp_all
      then show ?thesis by blast
    qed
  qed (use 2 in auto)
qed auto

lemma walk_complete:
  "ancestor d i g = Some h \<Longrightarrow> inj_on (\<lambda>j. ancestor d j g) {..i} \<Longrightarrow>
   (\<And>j v. j \<le> i \<Longrightarrow> v \<in> set V \<Longrightarrow> ancestor d j g \<noteq> Some v) \<Longrightarrow>
   \<exists>k. k \<le> n + i \<and> walk_ancestors d (Some g) n V D h = Some k"
proof (induction i arbitrary: g n V D)
  case 0
  then have "h = g" "g \<notin> set V" by auto
  with note_depth_notes [of n g D] obtain k1 where "k1 \<le> n" "note_depth g n D h = Some k1" by blast
  with walk_keeps [of "note_depth g n D" h k1 d "group_parent d g" "n + 1" "g # V"] \<open>g \<notin> set V\<close>
  show ?case by (auto intro: order_trans)
next
  case (Suc i)
  from Suc.prems(1) obtain p where p: "group_parent d g = Some p" and h: "ancestor d i p = Some h"
    by (auto split: option.splits)
  have step: "ancestor d (Suc j) g = ancestor d j p" for j using p by simp
  have inj: "inj_on (\<lambda>j. ancestor d j p) {..i}"
    using Suc.prems(2) by (auto simp: inj_on_def step [symmetric] simp del: ancestor.simps)
  have fresh: "ancestor d j p \<noteq> Some v" if "j \<le> i" "v \<in> set (g # V)" for j v
  proof (cases "v = g")
    case True
    have "ancestor d (Suc j) g \<noteq> ancestor d 0 g"
      using inj_onD [OF Suc.prems(2), of "Suc j" 0] that by auto
    with True show ?thesis by (simp add: p)
  next
    case False
    with that have "v \<in> set V" by simp
    with Suc.prems(3) [of "Suc j" v] that show ?thesis by (simp add: p)
  qed
  have "g \<notin> set V" using Suc.prems(3) [of 0 g] by auto
  then have "walk_ancestors d (Some g) n V D
      = walk_ancestors d (Some p) (n + 1) (g # V) (note_depth g n D)"
    using p by simp
  moreover have "\<exists>k. k \<le> n + 1 + i
      \<and> walk_ancestors d (Some p) (n + 1) (g # V) (note_depth g n D) h = Some k"
    by (rule Suc.IH [OF h inj fresh])
  ultimately show ?case by (simp add: add.assoc)
qed

text \<open>The first occurrence of a group on the way up is reached without a repetition.\<close>

lemma first_ancestor_inj:
  assumes h: "ancestor d i g = Some h" and first: "\<And>j. j < i \<Longrightarrow> ancestor d j g \<noteq> Some h"
  shows "inj_on (\<lambda>j. ancestor d j g) {..i}"
proof -
  have "ancestor d a g \<noteq> ancestor d b g" if "a < b" "b \<le> i" for a b
  proof
    assume eq: "ancestor d a g = ancestor d b g"
    have "ancestor d (b + (i - b)) g = ancestor d (a + (i - b)) g"
      by (simp only: ancestor_add eq)
    then have "ancestor d (a + (i - b)) g = Some h" using that h by simp
    moreover have "a + (i - b) < i" using that by simp
    ultimately show False using first by blast
  qed
  then show ?thesis
    unfolding inj_on_def by (metis atMost_iff linorder_neq_iff)
qed

definition reaches_in :: "db \<Rightarrow> uuid \<Rightarrow> nat \<Rightarrow> uuid \<Rightarrow> bool" where
  "reaches_in d cam n h \<longleftrightarrow> (\<exists>g \<in> set (direct_groups d cam). ancestor d n g = Some h)"

lemma fold_walk_keeps:
  "D h = Some k \<Longrightarrow>
   \<exists>k'. k' \<le> k \<and> foldl (\<lambda>D g. walk_ancestors d (Some g) 0 [] D) D gs h = Some k'"
proof (induction gs arbitrary: D k)
  case (Cons g gs)
  from walk_keeps [of D h k d "Some g" 0 "[]"] Cons.prems obtain k1
    where "k1 \<le> k" "walk_ancestors d (Some g) 0 [] D h = Some k1" by blast
  with Cons.IH [of "walk_ancestors d (Some g) 0 [] D" k1] show ?case by (auto intro: order_trans)
qed auto

lemma fold_walk_sound:
  "foldl (\<lambda>D g. walk_ancestors d (Some g) 0 [] D) D gs h = Some k \<Longrightarrow>
   D h = Some k \<or> (\<exists>g \<in> set gs. ancestor d k g = Some h)"
proof (induction gs arbitrary: D)
  case (Cons g gs)
  then have "walk_ancestors d (Some g) 0 [] D h = Some k \<or> (\<exists>g \<in> set gs. ancestor d k g = Some h)"
    by simp
  then show ?case using walk_sound [of d "Some g" 0 "[]" D h k] by auto
qed auto

lemma fold_walk_complete:
  "g \<in> set gs \<Longrightarrow> ancestor d i g = Some h \<Longrightarrow>
   \<exists>k. k \<le> i \<and> foldl (\<lambda>D g. walk_ancestors d (Some g) 0 [] D) D gs h = Some k"
proof (induction gs arbitrary: D)
  case (Cons g' gs)
  show ?case
  proof (cases "g = g'")
    case True
    define m where "m = (LEAST j. ancestor d j g = Some h)"
    have m: "ancestor d m g = Some h" "m \<le> i"
      unfolding m_def using Cons.prems(2) by (auto intro: LeastI Least_le)
    have "inj_on (\<lambda>j. ancestor d j g) {..m}"
      by (rule first_ancestor_inj [OF m(1)]) (auto simp: m_def dest: not_less_Least)
    with walk_complete [OF m(1), of "[]" 0 D]
    obtain k where "k \<le> m" "walk_ancestors d (Some g) 0 [] D h = Some k" by auto
    with fold_walk_keeps [of "walk_ancestors d (Some g) 0 [] D" h k d gs] m(2) True
    show ?thesis by (auto intro: order_trans)
  qed (use Cons in auto)
qed auto

lemma group_depths_least:
  "group_depths d cam h = Some k \<longleftrightarrow> reaches_in d cam k h \<and> (\<forall>j < k. \<not> reaches_in d cam j h)"
proof -
  have sound: "reaches_in d cam j h" if "group_depths d cam h = Some j" for j
    using fold_walk_sound [of d "\<lambda>_. None" "direct_groups d cam" h j] that
    by (auto simp: group_depths_def reaches_in_def)
  have complete: "\<exists>j' \<le> j. group_depths d cam h = Some j'" if "reaches_in d cam j h" for j
    using fold_walk_complete [of _ "direct_groups d cam" d j h "\<lambda>_. None"] that
    by (auto simp: group_depths_def reaches_in_def)
  show ?thesis
  proof
    assume k: "group_depths d cam h = Some k"
    then show "reaches_in d cam k h \<and> (\<forall>j < k. \<not> reaches_in d cam j h)"
      using sound complete by (metis leD option.inject)
  next
    assume k: "reaches_in d cam k h \<and> (\<forall>j < k. \<not> reaches_in d cam j h)"
    then obtain j where "j \<le> k" "group_depths d cam h = Some j" using complete by blast
    then show "group_depths d cam h = Some k" using sound k by (metis le_neq_implies_less)
  qed
qed

lemma group_depths_of_reach: "reaches_in d cam j h \<Longrightarrow> \<exists>i. i \<le> j \<and> group_depths d cam h = Some i"
  using fold_walk_complete [of _ "direct_groups d cam" d j h "\<lambda>_. None"]
  by (auto simp: group_depths_def reaches_in_def)

lemma single_policy_Some:
  "single_policy ps code = Inr (Some p) \<longleftrightarrow> ps = [p]"
  by (cases ps; cases "tl ps") (auto simp: single_policy_def)

lemma single_policy_None: "single_policy ps code = Inr None \<longleftrightarrow> ps = []"
  by (auto simp: single_policy_def)

lemma nearest_group_policies_iff:
  "p \<in> set (nearest_group_policies d cam) \<longleftrightarrow>
   p \<in> set (db_retention d) \<and> tp_scope_type p = ScopeCameraGroup \<and> tp_enabled p
   \<and> (\<exists>g k. tp_scope_id p = Some g \<and> group_depths d cam g = Some k
      \<and> (\<forall>q \<in> set (db_retention d). \<forall>h j. tp_scope_type q = ScopeCameraGroup \<longrightarrow> tp_enabled q
            \<longrightarrow> tp_scope_id q = Some h \<longrightarrow> group_depths d cam h = Some j \<longrightarrow> k \<le> j))"
proof -
  define ps where "ps = scoped_policies d ScopeCameraGroup
      (\<lambda>s. case s of None \<Rightarrow> False | Some g \<Rightarrow> group_depths d cam g \<noteq> None)"
  define f where "f = (\<lambda>p. the (policy_depth (group_depths d cam) p))"
  have mem: "q \<in> set ps \<longleftrightarrow> q \<in> set (db_retention d) \<and> tp_scope_type q = ScopeCameraGroup \<and> tp_enabled q
      \<and> (\<exists>h j. tp_scope_id q = Some h \<and> group_depths d cam h = Some j)" for q
    by (auto simp: ps_def scoped_policies_def split: option.splits)
  have depth: "policy_depth (group_depths d cam) q = Some (f q)" if "q \<in> set ps" for q
    using that by (auto simp: mem f_def policy_depth_def)
  have least: "f q = Min (f ` set ps) \<longleftrightarrow> (\<forall>r \<in> set ps. f q \<le> f r)" if "q \<in> set ps" for q
    using that by (subst eq_commute, subst Min_eq_iff) auto
  have bound: "(\<forall>r \<in> set ps. k \<le> f r) \<longleftrightarrow>
      (\<forall>q \<in> set (db_retention d). \<forall>h j. tp_scope_type q = ScopeCameraGroup \<longrightarrow> tp_enabled q
        \<longrightarrow> tp_scope_id q = Some h \<longrightarrow> group_depths d cam h = Some j \<longrightarrow> k \<le> j)" for k
  proof -
    have "f q = j" if "tp_scope_id q = Some h" "group_depths d cam h = Some j" for q h j
      using that by (simp add: f_def policy_depth_def)
    then show ?thesis unfolding Ball_def mem by metis
  qed
  have "p \<in> set (nearest_group_policies d cam) \<longleftrightarrow> p \<in> set ps \<and> (\<forall>r \<in> set ps. f p \<le> f r)"
  proof (cases "ps = []")
    case True
    then have "nearest_group_policies d cam = []"
      unfolding nearest_group_policies_def Let_def ps_def by (simp only: simp_thms if_True)
    with True show ?thesis by simp
  next
    case False
    then have "nearest_group_policies d cam
        = filter (\<lambda>p. policy_depth (group_depths d cam) p = Some (Min (f ` set ps))) ps"
      unfolding nearest_group_policies_def Let_def ps_def f_def by (simp only: if_False set_map)
    then show ?thesis using depth [of p] least [of p] by auto
  qed
  also have "\<dots> \<longleftrightarrow> p \<in> set ps \<and> (\<exists>g k. tp_scope_id p = Some g \<and> group_depths d cam g = Some k
      \<and> (\<forall>r \<in> set ps. k \<le> f r))"
    using depth [of p] by (auto simp: mem policy_depth_def split: option.splits)
  finally show ?thesis unfolding bound by (auto simp: mem)
qed

text \<open>C38: When a camera has no explicit and no camera-scoped policy and the chosen policy is a
  group's, that group is an ancestor of one of the camera's groups and every other enabled policy
  of a reachable group is strictly farther up. The walk ends on cyclic parents too.\<close>

theorem group_policy_nearest:
  assumes "policy_for_camera d cam = Inr (Some p)" and "tp_scope_type p = ScopeCameraGroup"
    and "\<forall>rp. policy_of_camera d cam = Some rp \<longrightarrow> rp_retention_policy_id rp = None"
  shows "\<exists>g k. tp_scope_id p = Some g \<and> reaches_in d cam k g \<and> tp_enabled p
    \<and> (\<forall>q \<in> set (db_retention d). \<forall>h j.
          q \<noteq> p \<and> tp_scope_type q = ScopeCameraGroup \<and> tp_enabled q \<and> tp_scope_id q = Some h
          \<and> reaches_in d cam j h \<longrightarrow> k < j)"
proof -
  have "p \<in> set (nearest_group_policies d cam)"
    using assms
    by (auto simp: policy_for_camera_def and_then_eq_Inr single_policy_Some single_policy_None
        scoped_policies_def filter_eq_Cons_iff split: if_splits option.splits)
  moreover have "single_policy (nearest_group_policies d cam) ''retention_group_policy_ambiguous''
      = Inr (Some p)"
    using assms
    by (auto simp: policy_for_camera_def and_then_eq_Inr single_policy_Some single_policy_None
        scoped_policies_def filter_eq_Cons_iff split: if_splits option.splits)
  then have only: "nearest_group_policies d cam = [p]" by (simp add: single_policy_Some)
  then have p: "p \<in> set (nearest_group_policies d cam)" by simp
  then obtain g k where g: "tp_scope_id p = Some g" "group_depths d cam g = Some k" "tp_enabled p"
    by (auto simp: nearest_group_policies_iff)
  have "k < j" if q: "q \<in> set (db_retention d)" "q \<noteq> p" "tp_scope_type q = ScopeCameraGroup"
    "tp_enabled q" "tp_scope_id q = Some h" "reaches_in d cam j h" for q h j
  proof -
    from group_depths_of_reach [OF q(6)] obtain i where i: "i \<le> j" "group_depths d cam h = Some i" by blast
    have "k \<le> i" using p q i(2) g by (auto simp: nearest_group_policies_iff)
    moreover have "k \<noteq> i"
    proof
      assume "k = i"
      then have "q \<in> set (nearest_group_policies d cam)"
        using p q i(2) g by (auto simp: nearest_group_policies_iff)
      with only q(2) show False by simp
    qed
    ultimately show ?thesis using i(1) by simp
  qed
  moreover have "reaches_in d cam k g" using g(2) by (simp add: group_depths_least)
  ultimately show ?thesis using g by blast
qed

definition example_retention :: retention_policy where
  "example_retention =
     \<lparr>tp_id = 1, tp_name = ''site'', tp_scope_type = ScopeCameraGroup, tp_scope_id = Some 11,
      tp_ordinary_keep_days = 30, tp_event_keep_days = 60, tp_manual_keep_days = 7,
      tp_mode = BestEffort, tp_require_archive_before_delete = False, tp_enabled = True\<rparr>"

text \<open>Camera 5 in group 10, whose parent is group 11, whose parent is group 10 again.\<close>

definition example_groups_db :: db where
  "example_groups_db = empty_db
     \<lparr>db_groups := [\<lparr>gr_id = 10, gr_name = ''g10'', gr_description = None, gr_parent_id = Some 11\<rparr>, \<lparr>gr_id = 11, gr_name = ''g11'', gr_description = None, gr_parent_id = Some 10\<rparr>],
      db_members := [(10, 5)],
      db_retention := [example_retention\<lparr>tp_id := 2\<rparr>, example_retention\<lparr>tp_id := 3, tp_scope_id := Some 10\<rparr>]\<rparr>"

lemma example_groups_policy:
  "policy_for_camera example_groups_db 5 = Inr (Some (example_retention\<lparr>tp_id := 3, tp_scope_id := Some 10\<rparr>))"
  by (simp add: policy_for_camera_def policy_of_camera_def single_policy_def scoped_policies_def
      nearest_group_policies_def group_depths_def direct_groups_def note_depth_def group_parent_def
      policy_depth_def example_groups_db_def example_retention_def empty_db_def Let_def)

theorem group_policy_nearest_witness:
  "\<exists>g k. tp_scope_id (example_retention\<lparr>tp_id := 3, tp_scope_id := Some 10\<rparr>) = Some g
     \<and> reaches_in example_groups_db 5 k g"
  using group_policy_nearest [OF example_groups_policy]
  by (auto simp: policy_of_camera_def example_groups_db_def example_retention_def empty_db_def)

section \<open>The deadline of a segment\<close>

lemma foldl_later_deadline:
  "snd (foldl later_deadline x xs) \<le> n \<longleftrightarrow> snd x \<le> n \<and> (\<forall>y \<in> set xs. snd y \<le> n)"
  by (induction xs arbitrary: x) (auto simp: later_deadline_def less_prod_def)

lemma foldl_note_end:
  "snd (foldl note_end x es) \<longleftrightarrow> snd x \<or> None \<in> set es"
  "fst (foldl note_end x es) + k \<le> n \<longleftrightarrow> fst x + k \<le> n \<and> (\<forall>e. Some e \<in> set es \<longrightarrow> e + k \<le> n)"
proof -
  have "(snd (foldl note_end x es) \<longleftrightarrow> snd x \<or> None \<in> set es)
      \<and> (fst (foldl note_end x es) + k \<le> n \<longleftrightarrow> fst x + k \<le> n \<and> (\<forall>e. Some e \<in> set es \<longrightarrow> e + k \<le> n))"
  proof (induction es arbitrary: x)
    case (Cons e es)
    then show ?case by (cases x; cases e) (auto simp: max_def)
  qed simp
  then show "snd (foldl note_end x es) \<longleftrightarrow> snd x \<or> None \<in> set es"
    and "fst (foldl note_end x es) + k \<le> n \<longleftrightarrow> fst x + k \<le> n \<and> (\<forall>e. Some e \<in> set es \<longrightarrow> e + k \<le> n)"
    by blast+
qed

text \<open>
  What a policy promises for a segment, without classes: every keep time that applies has passed,
  and no trigger or event on the segment is still open.
\<close>

definition retention_elapsed :: "db \<Rightarrow> recording_segment \<Rightarrow> retention_policy \<Rightarrow> instant \<Rightarrow> bool" where
  "retention_elapsed d s p now =
     (sg_ended_at s + days (tp_ordinary_keep_days p) \<le> now
      \<and> (''manual'' \<in> segment_reasons s \<longrightarrow> sg_ended_at s + days (tp_manual_keep_days p) \<le> now)
      \<and> (''event'' \<in> segment_reasons s \<longrightarrow> sg_ended_at s + days (tp_event_keep_days p) \<le> now)
      \<and> list_all (\<lambda>e. case e of None \<Rightarrow> False
                   | Some t \<Rightarrow> max t (sg_ended_at s) + days (tp_event_keep_days p) \<le> now)
          (map tr_planned_end_at (retaining_triggers d s) @ map ev_ended_at (retaining_events d s)))"

lemma horizon_elapsed:
  "(\<exists>t. hz_deadline (retention_horizon d s p) = Some t \<and> t \<le> now) \<longleftrightarrow> retention_elapsed d s p now"
proof -
  define es where "es = map tr_planned_end_at (retaining_triggers d s) @ map ev_ended_at (retaining_events d s)"
  have ev: "event_evidence d s = foldl note_end (sg_ended_at s, False) es"
    by (simp add: event_evidence_def es_def)
  obtain a b where ab: "event_evidence d s = (a, b)" by (cases "event_evidence d s")
  have b: "b \<longleftrightarrow> None \<in> set es"
    using foldl_note_end(1) [of "(sg_ended_at s, False)" es] ab ev by simp
  have a: "a + k \<le> n \<longleftrightarrow> sg_ended_at s + k \<le> n \<and> (\<forall>e. Some e \<in> set es \<longrightarrow> e + k \<le> n)" for k n
    using foldl_note_end(2) [of "(sg_ended_at s, False)" es k n] ab ev by simp
  have nonempty: "retaining_triggers d s \<noteq> [] \<or> retaining_events d s \<noteq> [] \<longleftrightarrow> es \<noteq> []"
    by (simp add: es_def)
  show ?thesis
  proof (cases b)
    case True
    then show ?thesis using b
      by (auto simp: retention_horizon_def ab retention_elapsed_def es_def [symmetric] list_all_iff
          split: option.splits)
  next
    case False
    have "(\<exists>t. hz_deadline (retention_horizon d s p) = Some t \<and> t \<le> now)
        \<longleftrightarrow> (\<forall>y \<in> set (class_deadlines d s p a). snd y \<le> now)"
      using False foldl_later_deadline [of "hd (class_deadlines d s p a)" "tl (class_deadlines d s p a)" now]
      by (auto simp: retention_horizon_def ab Let_def class_deadlines_def split: prod.splits)
    also have "\<dots> \<longleftrightarrow> sg_ended_at s + days (tp_ordinary_keep_days p) \<le> now
      \<and> (''manual'' \<in> segment_reasons s \<longrightarrow> sg_ended_at s + days (tp_manual_keep_days p) \<le> now)
      \<and> (''event'' \<in> segment_reasons s \<or> es \<noteq> [] \<longrightarrow> a + days (tp_event_keep_days p) \<le> now)"
      using nonempty by (auto simp: class_deadlines_def)
    also have "\<dots> \<longleftrightarrow> retention_elapsed d s p now"
    proof -
      have "list_all (\<lambda>e. case e of None \<Rightarrow> False
                   | Some t \<Rightarrow> max t (sg_ended_at s) + days (tp_event_keep_days p) \<le> now) es
          \<longleftrightarrow> (es \<noteq> [] \<longrightarrow> a + days (tp_event_keep_days p) \<le> now)"
      proof (cases es)
        case (Cons e es')
        have "(case e of None \<Rightarrow> False | Some t \<Rightarrow> max t (sg_ended_at s) + k \<le> now)
            \<longleftrightarrow> sg_ended_at s + k \<le> now \<and> (\<forall>t. e = Some t \<longrightarrow> t + k \<le> now)"
          if "e \<in> set es" for e k
          using that False b by (auto simp: max_def split: option.splits)
        then show ?thesis using a Cons by (auto simp: list_all_iff)
      qed simp
      moreover have "es = [] \<Longrightarrow> a = sg_ended_at s" using ab ev by simp
      ultimately show ?thesis
        unfolding retention_elapsed_def es_def [symmetric] using a by (cases "es = []") auto
    qed
    finally show ?thesis .
  qed
qed

lemma horizon_deadline_iff: "hz_deadline (retention_horizon d s p) = None \<longleftrightarrow> hz_active_event (retention_horizon d s p)"
  by (auto simp: retention_horizon_def Let_def split: prod.splits)

text \<open>The facts every approved deletion has, whatever the pressure.\<close>

definition deletable ::
    "db \<Rightarrow> recording_location \<Rightarrow> instant \<Rightarrow> recording_segment \<Rightarrow> retention_policy \<Rightarrow> bool" where
  "deletable d l now s p =
     (get_segment d (lo_recording_segment_id l) = Some s
      \<and> local_recording d l \<and> lo_state l = Available \<and> sg_timing_status s = Final
      \<and> policy_for_camera d (sg_camera_id s) = Inr (Some p)
      \<and> \<not> protected_at d s now
      \<and> (tp_require_archive_before_delete p \<longrightarrow> available_archive_exists d (sg_id s)))"

lemma evaluate_under_eligible:
  "(\<exists>x. evaluate_under d l s p now pressure = Inr x \<and> rd_eligible x) \<longleftrightarrow>
   \<not> protected_at d s now
   \<and> (tp_require_archive_before_delete p \<longrightarrow> available_archive_exists d (sg_id s))
   \<and> (\<exists>t. hz_deadline (retention_horizon d s p) = Some t
        \<and> (t \<le> now \<or> (pressure \<and> tp_mode p = BestEffort
                       \<and> hz_class (retention_horizon d s p) = Ordinary)))"
  by (cases "hz_deadline (retention_horizon d s p)")
    (auto simp: evaluate_under_def Let_def refuse_def horizon_deadline_iff [symmetric])

lemma evaluate_eligible:
  "(\<exists>x. evaluate d l now pressure = Inr x \<and> rd_eligible x) \<longleftrightarrow>
   (\<exists>s p. deletable d l now s p
      \<and> (\<exists>t. hz_deadline (retention_horizon d s p) = Some t
        \<and> (t \<le> now \<or> (pressure \<and> tp_mode p = BestEffort
                       \<and> hz_class (retention_horizon d s p) = Ordinary))))"
  (is "?lhs \<longleftrightarrow> ?rhs")
proof -
  have "?lhs \<longleftrightarrow> (\<exists>s p. get_segment d (lo_recording_segment_id l) = Some s
      \<and> local_recording d l \<and> lo_state l = Available \<and> sg_timing_status s = Final
      \<and> policy_for_camera d (sg_camera_id s) = Inr (Some p)
      \<and> (\<exists>x. evaluate_under d l s p now pressure = Inr x \<and> rd_eligible x))"
    by (auto simp: evaluate_def refuse_def and_then_eq_Inr split: option.splits if_splits)
  then show ?thesis unfolding evaluate_under_eligible deletable_def by blast
qed

text \<open>C1: Without pressure, a copy is approved for deletion exactly when it is an available
  local copy of a final segment whose camera has one applicable policy, no unexpired protection
  meets the segment, a verified archive copy exists if the policy asks for one, and every keep time
  that applies (ordinary, manual, and event counted from the end of the last overlapping trigger or
  provider event) has passed with none of them still open.\<close>

theorem eligible_iff_elapsed:
  "(\<exists>x. evaluate d l now False = Inr x \<and> rd_eligible x) \<longleftrightarrow>
   (\<exists>s p. deletable d l now s p \<and> retention_elapsed d s p now)"
  unfolding evaluate_eligible horizon_elapsed [symmetric] by simp


lemma horizon_active_iff:
  "hz_active_event (retention_horizon d s p) \<longleftrightarrow>
   None \<in> set (map tr_planned_end_at (retaining_triggers d s) @ map ev_ended_at (retaining_events d s))"
proof -
  have "snd (event_evidence d s) \<longleftrightarrow>
      None \<in> set (map tr_planned_end_at (retaining_triggers d s) @ map ev_ended_at (retaining_events d s))"
    unfolding event_evidence_def by (simp only: foldl_note_end(1) set_append Un_iff snd_conv simp_thms)
  moreover have "hz_active_event (retention_horizon d s p) \<longleftrightarrow> snd (event_evidence d s)"
    by (simp add: retention_horizon_def Let_def split: prod.splits)
  ultimately show ?thesis by simp
qed

lemma ordinary_class_manual:
  assumes "hz_class (retention_horizon d s p) = Ordinary" and "''manual'' \<in> segment_reasons s"
  shows "tp_manual_keep_days p < tp_ordinary_keep_days p"
  using assms
  by (auto simp: retention_horizon_def Let_def class_deadlines_def later_deadline_def less_prod_def
      split: prod.splits if_splits)

text \<open>Disk pressure never lifts protection, finality, the archive requirement or an open
  event. It approves a copy early only under a best-effort policy when the ordinary keep time is the
  longest, so a manual recording can go early only if its own keep time is shorter than the ordinary
  one.\<close>

theorem pressure_limits:
  assumes "evaluate d l now True = Inr x" and "rd_eligible x"
  shows "\<exists>s p. deletable d l now s p
    \<and> (retention_elapsed d s p now
       \<or> (tp_mode p = BestEffort \<and> hz_class (retention_horizon d s p) = Ordinary
          \<and> None \<notin> set (map tr_planned_end_at (retaining_triggers d s)
                         @ map ev_ended_at (retaining_events d s))
          \<and> (''manual'' \<in> segment_reasons s \<longrightarrow> tp_manual_keep_days p < tp_ordinary_keep_days p)))"
proof -
  from assms obtain s p t where sp: "deletable d l now s p"
    and t: "hz_deadline (retention_horizon d s p) = Some t"
    and early: "t \<le> now \<or> (tp_mode p = BestEffort \<and> hz_class (retention_horizon d s p) = Ordinary)"
    using evaluate_eligible [of d l now True] by blast
  have "\<not> hz_active_event (retention_horizon d s p)"
    using t horizon_deadline_iff [of d s p] by simp
  then show ?thesis
    using sp t early horizon_elapsed [of d s p now] horizon_active_iff [of d s p]
      ordinary_class_manual [of d s p] by blast
qed

definition example_local :: storage_target where
  "example_local = \<lparr>st_id = 20, st_type = LocalTarget, st_role = RecordingRole, st_enabled = True,
     st_config_json = [(''path'', PStr ''/media'')]\<rparr>"

definition example_location :: recording_location where
  "example_location = \<lparr>lo_id = 30, lo_recording_segment_id = 40, lo_storage_target_id = 20,
     lo_object_path = ''a.mp4'', lo_state = Available, lo_size_bytes = 1, lo_checksum = None,
     lo_verified_at = None, lo_last_attempt_at = None, lo_last_error = None, lo_created_at = 0,
     lo_deleted_at = None\<rparr>"

definition example_media :: recording_segment where
  "example_media = \<lparr>sg_id = 40, sg_camera_id = 5, sg_stream_profile_id = None, sg_started_at = 0,
     sg_ended_at = seconds 60, sg_duration_ms = 60000, sg_timing_status = Final,
     sg_timing_source = HookRaw, sg_recording_reasons_json = [''manual''], sg_size_bytes = 1,
     sg_codec = None, sg_container = ''mp4'', sg_source_media_server_id = ''zlm'',
     sg_source_app = ''live'', sg_source_stream = ''c'', sg_integrity_status = ''OK'',
     sg_completion_reason = None\<rparr>"

definition example_media_db :: db where
  "example_media_db = empty_db
     \<lparr>db_retention := [example_retention\<lparr>tp_scope_type := ScopeGlobal, tp_scope_id := None\<rparr>],
      db_targets := [example_local], db_segments := [example_media],
      db_locations := [example_location]\<rparr>"

lemma example_media_pressured:
  "evaluate example_media_db example_location (days 1) True
   = Inr \<lparr>rd_location_id = 30, rd_segment_id = 40, rd_policy_id = Some 1, rd_class = Ordinary,
          rd_deadline = Some (seconds 60 + days 30), rd_eligible = True, rd_reason = ''eligible'',
          rd_archive_target_id = None, rd_pressure_override = True, rd_verified_archive = False\<rparr>"
  by code_simp

theorem pressure_limits_witness:
  "\<exists>s p. deletable example_media_db example_location (days 1) s p"
  using pressure_limits [OF example_media_pressured] by auto

text \<open>With a manual keep time below the ordinary one, pressure approves a manual recording
  whose manual keep time has not passed: its class is then \<open>ordinary\<close>.\<close>

theorem pressure_expires_manual_early:
  "''manual'' \<in> segment_reasons example_media
   \<and> days 1 < sg_ended_at example_media + days (tp_manual_keep_days example_retention)
   \<and> map_sum id rd_eligible (evaluate example_media_db example_location (days 1) True) = Inr True"
  unfolding example_media_pressured by code_simp

section \<open>The batch without paging\<close>

text \<open>
  What \<open>actionable_plan\<close> computes, without pages, offsets and early exits: the decisions of all
  candidates in order, those with an action, one per action key, cut to the limit; under pressure
  the first \<open>scan_limit\<close> candidates, ordered by emergency priority.
\<close>

definition add_action :: "decision list \<Rightarrow> decision \<Rightarrow> decision list" where
  "add_action acts x =
     (case action_key x of
        None \<Rightarrow> acts
      | Some k \<Rightarrow> if Some k \<in> set (map action_key acts) then acts else acts @ [x])"

definition distinct_actions :: "decision list \<Rightarrow> decision list" where
  "distinct_actions xs = foldl add_action [] xs"

definition batch_spec :: "bool \<Rightarrow> int \<Rightarrow> int \<Rightarrow> decision list \<Rightarrow> decision list" where
  "batch_spec emergency action_limit scan_limit decisions =
     take (nat action_limit)
       (if emergency
        then sort_key emergency_priority (distinct_actions (take (nat scan_limit) decisions))
        else distinct_actions decisions)"

lemma add_action_cases:
  "add_action acts x = acts \<and> (action_key x = None \<or> action_key x \<in> action_key ` set acts)
   \<or> add_action acts x = acts @ [x] \<and> action_key x \<noteq> None \<and> action_key x \<notin> action_key ` set acts"
  by (cases "action_key x") (auto simp: add_action_def)

lemma foldl_add_action_prefix: "\<exists>zs. foldl add_action acts xs = acts @ zs"
proof (induction xs arbitrary: acts)
  case (Cons x xs)
  obtain ys where "add_action acts x = acts @ ys" using add_action_cases [of acts x] by auto
  with Cons.IH [of "add_action acts x"] show ?case by auto
qed simp

lemma take_foldl_add_action:
  "n \<le> length acts \<Longrightarrow> take n (foldl add_action acts xs) = take n acts"
  using foldl_add_action_prefix [of acts xs] by auto

lemma foldl_add_action_keys:
  "Some k \<in> action_key ` set (foldl add_action acts xs)
   \<longleftrightarrow> Some k \<in> action_key ` set acts \<or> Some k \<in> action_key ` set xs"
proof (induction xs arbitrary: acts)
  case (Cons x xs)
  have "Some k \<in> action_key ` set (add_action acts x)
      \<longleftrightarrow> Some k \<in> action_key ` set acts \<or> action_key x = Some k"
    using add_action_cases [of acts x] by auto
  then show ?case unfolding foldl_Cons Cons.IH by auto
qed simp

lemma foldl_add_action_distinct:
  "distinct (map action_key acts) \<Longrightarrow> distinct (map action_key (foldl add_action acts xs))"
proof (induction xs arbitrary: acts)
  case (Cons x xs)
  then have "distinct (map action_key (add_action acts x))"
    using add_action_cases [of acts x] by auto
  then show ?case using Cons.IH by simp
qed simp

lemma foldl_add_action_mem:
  "y \<in> set (foldl add_action acts xs) \<Longrightarrow> y \<in> set acts \<or> (y \<in> set xs \<and> action_key y \<noteq> None)"
proof (induction xs arbitrary: acts)
  case (Cons x xs)
  from Cons.IH [of "add_action acts x"] Cons.prems
  have "y \<in> set (add_action acts x) \<or> (y \<in> set xs \<and> action_key y \<noteq> None)" by simp
  then show ?case using add_action_cases [of acts x] by auto
qed simp

text \<open>The invariant of the scan: the key set is the set of the keys of the actions.\<close>

definition keys_of :: "decision list \<Rightarrow> (string \<times> uuid) list \<Rightarrow> bool" where
  "keys_of acts keys \<longleftrightarrow> (\<forall>k. k \<in> set keys \<longleftrightarrow> Some k \<in> set (map action_key acts))"

lemma keys_ofD: "keys_of acts keys \<Longrightarrow> Some k \<in> set (map action_key acts) \<longleftrightarrow> k \<in> set keys"
  unfolding keys_of_def by blast

lemma keys_of_snoc: "keys_of acts keys \<Longrightarrow> action_key x = Some k \<Longrightarrow> keys_of (acts @ [x]) (k # keys)"
  unfolding keys_of_def by (auto simp del: split_paired_All)

lemma scan_page_emergency:
  assumes "keys_of acts keys" and "scan_page True limit page (acts, keys, blocked) = (acts', keys', blocked')"
  shows "acts' = foldl add_action acts page \<and> keys_of acts' keys'"
  using assms
proof (induction True limit page "(acts, keys, blocked)" arbitrary: acts keys blocked rule: scan_page.induct)
  case (2 limit x page acts keys blocked)
  show ?case
  proof (cases "action_key x")
    case None
    with 2 have "scan_page True limit page (acts, keys, blocked + 1) = (acts', keys', blocked')"
      by simp
    with None 2 show ?thesis by (auto simp: add_action_def)
  next
    case (Some k)
    show ?thesis
    proof (cases "k \<in> set keys")
      case True
      then have "Some k \<in> set (map action_key acts)" using keys_ofD [OF "2.prems"(1)] by simp
      with True Some 2 show ?thesis by (auto simp: add_action_def)
    next
      case False
      then have new: "Some k \<notin> set (map action_key acts)" using keys_ofD [OF "2.prems"(1)] by simp
      have "keys_of (acts @ [x]) (k # keys)"
        using "2.prems"(1) Some by (rule keys_of_snoc)
      moreover have "scan_page True limit page (acts @ [x], k # keys, blocked) = (acts', keys', blocked')"
        using "2.prems"(2) Some False by simp
      ultimately have "acts' = foldl add_action (acts @ [x]) page \<and> keys_of acts' keys'"
        using "2.hyps"(3) Some False by blast
      then show ?thesis using Some new by (auto simp: add_action_def)
    qed
  qed
qed simp

lemma scan_page_normal:
  assumes "keys_of acts keys" and "int (length acts) < limit"
    and "scan_page False limit page (acts, keys, blocked) = (acts', keys', blocked')"
  shows "acts' = take (nat limit) (foldl add_action acts page) \<and> keys_of acts' keys'"
  using assms
proof (induction False limit page "(acts, keys, blocked)" arbitrary: acts keys blocked rule: scan_page.induct)
  case (2 limit x page acts keys blocked)
  show ?case
  proof (cases "action_key x")
    case None
    with 2 have "scan_page False limit page (acts, keys, blocked + 1) = (acts', keys', blocked')"
      by simp
    with None 2 show ?thesis by (auto simp: add_action_def)
  next
    case (Some k)
    show ?thesis
    proof (cases "k \<in> set keys")
      case True
      then have "Some k \<in> set (map action_key acts)" using keys_ofD [OF "2.prems"(1)] by simp
      with True Some 2 show ?thesis by (auto simp: add_action_def)
    next
      case False
      then have new: "Some k \<notin> set (map action_key acts)" using keys_ofD [OF "2.prems"(1)] by simp
      then have add: "add_action acts x = acts @ [x]" using Some by (simp add: add_action_def)
      have keys: "keys_of (acts @ [x]) (k # keys)"
        using "2.prems"(1) Some by (rule keys_of_snoc)
      show ?thesis
      proof (cases "int (length (acts @ [x])) \<ge> limit")
        case True
        then have "acts' = acts @ [x]" "keys' = k # keys"
          using "2.prems"(3) Some False by auto
        moreover have "nat limit = length (acts @ [x])" using True "2.prems"(2) by simp
        ultimately show ?thesis
          using keys take_foldl_add_action [of "nat limit" "acts @ [x]" page] add by simp
      next
        case le: False
        moreover have "scan_page False limit page (acts @ [x], k # keys, blocked) = (acts', keys', blocked')"
          using "2.prems"(3) Some False le by simp
        ultimately have "acts' = take (nat limit) (foldl add_action (acts @ [x]) page) \<and> keys_of acts' keys'"
          using "2.hyps"(3) [OF Some False refl] keys by auto
        then show ?thesis by (auto simp: add)
      qed
    qed
  qed
qed simp

lemma map_result_slice:
  "map_result f xs = Inr ys \<Longrightarrow> map_result f (take n (drop m xs)) = Inr (take n (drop m ys))"
  unfolding map_result_Inr_iff by (simp add: list_all2_takeI list_all2_dropI)


lemma plan_slice:
  assumes "map_result (evaluate_pressured d now pressure pressured) (plan_candidates d) = Inr decs"
    and "1 \<le> limit" and "limit \<le> 5000"
  shows "plan d now pressure pressured limit (int n) = Inr (take (nat limit) (drop n decs))"
  using assms by (simp add: plan_def map_result_slice)

lemma slice_step:
  assumes "length (take n (drop m xs)) = n" and "n \<le> k"
  shows "take k (drop m xs) = take n (drop m xs) @ take (k - n) (drop (m + n) xs)"
proof -
  have "take k (drop m xs) = take (n + (k - n)) (drop m xs)" using assms(2) by simp
  also have "\<dots> = take n (drop m xs) @ take (k - n) (drop n (drop m xs))" by (rule take_add)
  finally show ?thesis by (simp add: add.commute)
qed

lemma slice_last:
  assumes "length (take n (drop m xs)) < n" and "n \<le> k"
  shows "take k (drop m xs) = take n (drop m xs)"
proof -
  have "length xs - m < n" using assms(1) by simp
  then show ?thesis using assms(2) by (simp add: take_all)
qed

lemma scan_pages_emergency:
  assumes decs: "map_result (evaluate_pressured d now pressure pressured) (plan_candidates d) = Inr decs"
    and em: "pressure \<or> pressured \<noteq> []"
    and size: "1 \<le> page_size" "page_size \<le> 5000"
    and inv: "keys_of acts keys" "int n \<le> scan_limit"
  shows "\<exists>acts' scanned blocked'.
    scan_pages d now pressure pressured page_size action_limit scan_limit (acts, keys, blocked) (int n) (int n)
      = Inr (acts', scanned, blocked')
    \<and> acts' = foldl add_action acts (take (nat scan_limit - n) (drop n decs))
    \<and> scanned \<le> scan_limit"
  using inv
proof (induction "length decs - n" arbitrary: n acts keys blocked rule: less_induct)
  case less
  show ?case
  proof (cases "int n \<ge> scan_limit")
    case True
    then show ?thesis using less.prems em by (simp add: scan_pages.simps Let_def)
  next
    case False
    define lim where "lim = min page_size (scan_limit - int n)"
    define page where "page = take (nat lim) (drop n decs)"
    have lim: "1 \<le> lim" "lim \<le> 5000" "nat lim \<le> nat scan_limit - n"
      using size False by (auto simp: lim_def)
    have plan: "plan d now pressure pressured lim (int n) = Inr page"
      unfolding page_def by (rule plan_slice [OF decs lim(1,2)])
    obtain a k b where scan: "scan_page True action_limit page (acts, keys, blocked) = (a, k, b)"
      by (cases "scan_page True action_limit page (acts, keys, blocked)") auto
    from scan_page_emergency [OF less.prems(1) scan]
    have a: "a = foldl add_action acts page" and k: "keys_of a k" by blast+
    have len: "length page \<le> nat lim" by (simp add: page_def)
    have em': "(pressure \<or> pressured \<noteq> []) = True" using em by simp
    have step: "scan_pages d now pressure pressured page_size action_limit scan_limit (acts, keys, blocked)
          (int n) (int n)
        = (if page = [] then Inr (acts, int n, blocked)
           else if int (length page) < lim then Inr (a, int n + int (length page), b)
           else scan_pages d now pressure pressured page_size action_limit scan_limit (a, k, b)
                  (int n + int (length page)) (int n + int (length page)))"
      by (subst scan_pages.simps) (simp add: em' False lim_def [symmetric] plan scan Let_def)
    consider "page = []" | "page \<noteq> []" "int (length page) < lim" | "page \<noteq> []" "int (length page) = lim"
      using len lim(1) by linarith
    then show ?thesis
    proof cases
      case 1
      then have "length decs \<le> n" using lim(1) by (auto simp: page_def)
      with 1 False show ?thesis by (simp add: step)
    next
      case 2
      then have "take (nat scan_limit - n) (drop n decs) = page"
        unfolding page_def by (intro slice_last) (use lim in \<open>auto simp: page_def\<close>)
      with 2 False show ?thesis using a lim by (simp add: step lim_def)
    next
      case 3
      have plen: "length page = nat lim" using 3 by simp
      have less_n: "length decs - (n + length page) < length decs - n"
        using 3 by (auto simp: page_def)
      have bound: "int (n + length page) \<le> scan_limit"
        using plen lim False by (auto simp: lim_def)
      obtain acts' scanned blocked' where
        rec: "scan_pages d now pressure pressured page_size action_limit scan_limit (a, k, b)
            (int (n + length page)) (int (n + length page)) = Inr (acts', scanned, blocked')"
          "acts' = foldl add_action a (take (nat scan_limit - (n + length page)) (drop (n + length page) decs))"
          "scanned \<le> scan_limit"
        using less.hyps [OF less_n k bound, of b] by blast
      have "take (nat scan_limit - n) (drop n decs)
          = page @ take (nat scan_limit - n - nat lim) (drop (n + nat lim) decs)"
        using plen lim(3) unfolding page_def by (intro slice_step) auto
      then have "acts' = foldl add_action acts (take (nat scan_limit - n) (drop n decs))"
        using rec(2) a plen by simp
      moreover have "scan_pages d now pressure pressured page_size action_limit scan_limit
          (acts, keys, blocked) (int n) (int n) = Inr (acts', scanned, blocked')"
        unfolding step using 3 rec(1) by simp
      ultimately show ?thesis using rec(3) by blast
    qed
  qed
qed

lemma scan_pages_normal:
  assumes decs: "map_result (evaluate_pressured d now False []) (plan_candidates d) = Inr decs"
    and size: "1 \<le> page_size" "page_size \<le> 5000"
    and inv: "keys_of acts keys" "int (length acts) < action_limit"
  shows "\<exists>acts' scanned blocked'.
    scan_pages d now False [] page_size action_limit scan_limit (acts, keys, blocked) (int n) (int n)
      = Inr (acts', scanned, blocked')
    \<and> take (nat action_limit) acts' = take (nat action_limit) (foldl add_action acts (drop n decs))"
  using inv
proof (induction "length decs - n" arbitrary: n acts keys blocked rule: less_induct)
  case less
  define page where "page = take (nat page_size) (drop n decs)"
  have plan: "plan d now False [] page_size (int n) = Inr page"
    unfolding page_def by (rule plan_slice [OF decs size])
  obtain a k b where scan: "scan_page False action_limit page (acts, keys, blocked) = (a, k, b)"
    by (cases "scan_page False action_limit page (acts, keys, blocked)") auto
  from scan_page_normal [OF less.prems scan]
  have a: "a = take (nat action_limit) (foldl add_action acts page)" and k: "keys_of a k" by blast+
  have len: "length page \<le> nat page_size" by (simp add: page_def)
  have split: "drop n decs = page @ drop (n + length page) decs"
    by (simp add: page_def) (metis append_take_drop_id drop_drop add.commute length_drop min.commute
        take_all_iff drop_all length_take nat_le_linear append_Nil2 min_def)
  have step: "scan_pages d now False [] page_size action_limit scan_limit (acts, keys, blocked)
        (int n) (int n)
      = (if page = [] then Inr (acts, int n, blocked)
         else if int (length page) < page_size then Inr (a, int n + int (length page), b)
         else if int (length a) \<ge> action_limit then Inr (a, int n + int (length page), b)
         else scan_pages d now False [] page_size action_limit scan_limit (a, k, b)
                (int n + int (length page)) (int n + int (length page)))"
    by (subst scan_pages.simps) (simp add: plan scan Let_def)
  have stop: "take (nat action_limit) a = take (nat action_limit) (foldl add_action acts (drop n decs))"
    if "drop (n + length page) decs = [] \<or> int (length a) \<ge> action_limit"
  proof -
    have "take (nat action_limit) (foldl add_action (foldl add_action acts page) ys)
        = take (nat action_limit) (foldl add_action acts page)"
      if "int (length a) \<ge> action_limit" for ys
      using that a by (intro take_foldl_add_action) auto
    with that show ?thesis using split a by (auto simp: foldl_append [symmetric] simp del: foldl_append)
  qed
  consider "page = []" | "page \<noteq> []" "int (length page) < page_size \<or> int (length a) \<ge> action_limit"
    | "page \<noteq> []" "int (length page) = page_size" "int (length a) < action_limit"
    using len size(1) by linarith
  then show ?case
  proof cases
    case 1
    then have "length decs \<le> n" using size(1) by (auto simp: page_def)
    with 1 show ?thesis by (simp add: step)
  next
    case 2
    then have "drop (n + length page) decs = [] \<or> int (length a) \<ge> action_limit"
      by (auto simp: page_def)
    with 2 stop show ?thesis by (auto simp: step)
  next
    case 3
    have full: "a = foldl add_action acts page" using 3(3) a by auto
    have "length decs - (n + length page) < length decs - n"
      using 3 by (auto simp: page_def)
    from less.hyps [OF this k 3(3), of b] obtain acts' scanned blocked' where
      rec: "scan_pages d now False [] page_size action_limit scan_limit (a, k, b)
          (int (n + length page)) (int (n + length page)) = Inr (acts', scanned, blocked')"
        "take (nat action_limit) acts'
         = take (nat action_limit) (foldl add_action a (drop (n + length page) decs))"
      by auto
    have "take (nat action_limit) acts' = take (nat action_limit) (foldl add_action acts (drop n decs))"
      unfolding rec(2) full by (subst split) simp
    moreover have "scan_pages d now False [] page_size action_limit scan_limit
        (acts, keys, blocked) (int n) (int n) = Inr (acts', scanned, blocked')"
      unfolding step using 3 rec(1) by simp
    ultimately show ?thesis by blast
  qed
qed


lemma actionable_plan_eq:
  assumes decs: "map_result (evaluate_pressured d now pressure pressured) (plan_candidates d) = Inr decs"
    and size: "1 \<le> page_size" "page_size \<le> 5000"
    and limit: "1 \<le> action_limit" "action_limit \<le> 5000"
    and scan: "1 \<le> scan_limit" "scan_limit \<le> 50000"
  shows "\<exists>b. actionable_plan d now pressure pressured page_size action_limit scan_limit = Inr b
    \<and> ba_decisions b = batch_spec (pressure \<or> pressured \<noteq> []) action_limit scan_limit decs"
proof (cases "pressure \<or> pressured \<noteq> []")
  case True
  have "keys_of [] []" by (simp add: keys_of_def)
  from scan_pages_emergency [OF decs True size this, of 0 scan_limit action_limit 0] scan
  show ?thesis using True size limit scan
    by (auto simp: actionable_plan_def batch_spec_def distinct_actions_def Let_def)
next
  case False
  have "keys_of [] []" by (simp add: keys_of_def)
  with scan_pages_normal [of d now decs page_size "[]" "[]" action_limit scan_limit 0 0]
  show ?thesis using False decs size limit scan
    by (auto simp: actionable_plan_def batch_spec_def distinct_actions_def Let_def)
qed

lemma distinct_actions_facts:
  "distinct (map action_key (distinct_actions xs))"
  "x \<in> set (distinct_actions xs) \<Longrightarrow> x \<in> set xs \<and> action_key x \<noteq> None"
  "Some k \<in> action_key ` set (distinct_actions xs) \<longleftrightarrow> Some k \<in> action_key ` set xs"
  using foldl_add_action_distinct [of "[]" xs] foldl_add_action_mem [of x "[]" xs]
    foldl_add_action_keys [of k "[]" xs]
  by (auto simp: distinct_actions_def)

lemma batch_spec_facts:
  "distinct (map action_key (batch_spec em n m xs))"
  "x \<in> set (batch_spec em n m xs) \<Longrightarrow> x \<in> set xs \<and> action_key x \<noteq> None"
  "length (batch_spec em n m xs) \<le> nat n"
proof -
  define ys where "ys = (if em then sort_key emergency_priority (distinct_actions (take (nat m) xs))
      else distinct_actions xs)"
  have spec: "batch_spec em n m xs = take (nat n) ys" by (simp add: batch_spec_def ys_def)
  have "distinct (map action_key (sort_key emergency_priority zs)) \<longleftrightarrow> distinct (map action_key zs)" for zs
    by (simp add: distinct_map)
  then have "distinct (map action_key ys)" by (simp add: ys_def distinct_actions_facts(1))
  then show "distinct (map action_key (batch_spec em n m xs))"
    by (metis spec distinct_take take_map)
  have "set ys \<subseteq> {x \<in> set xs. action_key x \<noteq> None}"
    unfolding ys_def by (cases em) (auto dest!: distinct_actions_facts(2) in_set_takeD)
  then show "x \<in> set (batch_spec em n m xs) \<Longrightarrow> x \<in> set xs \<and> action_key x \<noteq> None"
    unfolding spec by (auto dest: in_set_takeD)
  show "length (batch_spec em n m xs) \<le> nat n" by (simp add: spec)
qed


lemma example_media_decisions:
  "map_result (evaluate_pressured example_media_db (days 1) False [20]) (plan_candidates example_media_db)
   = Inr [\<lparr>rd_location_id = 30, rd_segment_id = 40, rd_policy_id = Some 1, rd_class = Ordinary,
          rd_deadline = Some (seconds 60 + days 30), rd_eligible = True, rd_reason = ''eligible'',
          rd_archive_target_id = None, rd_pressure_override = True, rd_verified_archive = False\<rparr>]"
  by code_simp


text \<open>Without pressure, blocked media never starves the batch: every action of every
  candidate, however far down the list, is in the batch by its key unless the batch is full. The
  keys are distinct, the limit is kept, and only actionable decisions are in the batch.\<close>

theorem actionable_plan_no_starvation:
  assumes "map_result (evaluate_pressured d now False []) (plan_candidates d) = Inr decs"
    and "actionable_plan d now False [] page_size action_limit scan_limit = Inr b"
    and "x \<in> set decs" and "action_key x = Some k"
  shows "distinct (map action_key (ba_decisions b)) \<and> int (length (ba_decisions b)) \<le> action_limit
    \<and> set (ba_decisions b) \<subseteq> {y \<in> set decs. action_key y \<noteq> None}
    \<and> (int (length (ba_decisions b)) = action_limit \<or> Some k \<in> action_key ` set (ba_decisions b))"
proof -
  have ok: "1 \<le> page_size" "page_size \<le> 5000" "1 \<le> action_limit" "action_limit \<le> 5000"
    "1 \<le> scan_limit" "scan_limit \<le> 50000"
    using assms(2) by (auto simp: actionable_plan_def split: if_splits)
  from actionable_plan_eq [OF assms(1) ok] assms(2)
  have b: "ba_decisions b = batch_spec False action_limit scan_limit decs" by auto
  have "Some k \<in> action_key ` set (distinct_actions decs)"
    using assms(3,4) distinct_actions_facts(3) [of k decs] by force
  then have "int (length (ba_decisions b)) = action_limit \<or> Some k \<in> action_key ` set (ba_decisions b)"
    using ok(3) by (cases "nat action_limit \<le> length (distinct_actions decs)")
      (auto simp: b batch_spec_def min_def)
  then show ?thesis
    using batch_spec_facts(1) [of False action_limit scan_limit decs]
      batch_spec_facts(2) [of _ False action_limit scan_limit decs]
      batch_spec_facts(3) [of False action_limit scan_limit decs] ok(3) unfolding b by auto
qed

theorem actionable_plan_no_starvation_witness:
  "\<exists>b. actionable_plan example_media_db (days 31) False [] 2 2 1 = Inr b
     \<and> Some (''delete'', 30) \<in> action_key ` set (ba_decisions b)"
proof -
  define x where "x = (refuse 30 40 (Some 1) Ordinary (Some (seconds 60 + days 30)) ''eligible'')
      \<lparr>rd_eligible := True\<rparr>"
  have decs: "map_result (evaluate_pressured example_media_db (days 31) False [])
      (plan_candidates example_media_db) = Inr [x]"
    unfolding x_def by code_simp
  obtain b where b: "actionable_plan example_media_db (days 31) False [] 2 2 1 = Inr b"
    and len: "length (ba_decisions b) \<le> 1"
    using actionable_plan_eq [OF decs, of 2 2 1]
    by (auto simp: batch_spec_def distinct_actions_def add_action_def split: option.splits)
  have key: "action_key x = Some (''delete'', 30)" by (simp add: x_def action_key_def refuse_def)
  from actionable_plan_no_starvation [OF decs b _ key] b len show ?thesis by auto
qed

definition example_ambiguous_db :: db where
  "example_ambiguous_db = example_media_db
     \<lparr>db_groups := [\<lparr>gr_id = 10, gr_name = ''g10'', gr_description = None, gr_parent_id = None\<rparr>, \<lparr>gr_id = 11, gr_name = ''g11'', gr_description = None, gr_parent_id = None\<rparr>],
      db_members := [(10, 6), (11, 6)],
      db_retention := [example_retention\<lparr>tp_scope_type := ScopeGlobal, tp_scope_id := None\<rparr>,
                       example_retention\<lparr>tp_id := 2, tp_scope_id := Some 10\<rparr>,
                       example_retention\<lparr>tp_id := 3, tp_scope_id := Some 11\<rparr>],
      db_segments := [example_media, example_media\<lparr>sg_id := 41, sg_camera_id := 6\<rparr>],
      db_locations := [example_location,
                       example_location\<lparr>lo_id := 31, lo_recording_segment_id := 41\<rparr>]\<rparr>"

text \<open>One camera in two sibling groups that both have a policy makes the whole batch fail:
  no decision is returned for another camera's copy that is eligible on its own.\<close>

theorem ambiguous_camera_stops_batch:
  "map_sum id rd_eligible (evaluate example_ambiguous_db example_location (days 40) False) = Inr True
   \<and> actionable_plan example_ambiguous_db (days 40) False [] 500 500 5000
     = Inl (ApiError 409 ''retention_group_policy_ambiguous'')"
  by (rule conjI; code_simp)

end
