(* ===== verification/Protection.thy ===== *)
theory Protection
  imports Retention
begin

text \<open>
  \<open>modules/recordings/protection.py\<close>: protection windows that keep recordings from automatic
  deletion. \<open>now\<close> is \<open>datetime.now(UTC)\<close>.
\<close>

section \<open>The service\<close>

definition protection_get :: "db \<Rightarrow> uuid \<Rightarrow> recording_protection result" where
  "protection_get d protection_id = (case get_protection d protection_id of
     None \<Rightarrow> Inl (ApiError 404 ''recording_protection_not_found'')
   | Some p \<Rightarrow> Inr p)"

definition protections_for_camera :: "db \<Rightarrow> uuid \<Rightarrow> recording_protection list" where
  "protections_for_camera d cam =
     sort_key (\<lambda>p. (- pr_started_at p, - int (pr_id p)))
       (filter (\<lambda>p. pr_camera_id p = cam) (db_protections d))"

definition deletion_in_progress :: "db \<Rightarrow> uuid \<Rightarrow> instant \<Rightarrow> instant \<Rightarrow> bool" where
  "deletion_in_progress d cam start end_at =
     list_ex (\<lambda>l. lo_state l = Deleting
                \<and> (case get_segment d (lo_recording_segment_id l) of
                     None \<Rightarrow> False
                   | Some s \<Rightarrow> sg_camera_id s = cam \<and> sg_started_at s < end_at \<and> start < sg_ended_at s))
       (db_locations d)"

text \<open>The checks \<open>create\<close> and \<open>update\<close> share: range, reason, expiry, deletions in progress.\<close>

definition validated_window ::
    "db \<Rightarrow> uuid \<Rightarrow> instant \<Rightarrow> py_datetime \<Rightarrow> py_datetime \<Rightarrow> string \<Rightarrow> py_datetime option
     \<Rightarrow> (instant \<times> instant \<times> string \<times> instant option) result" where
  "validated_window d cam now started_at ended_at reason expires_at =
     and_then (require_utc started_at ''timezone_required'') (\<lambda>start.
     and_then (require_utc ended_at ''timezone_required'') (\<lambda>end_at.
     and_then (require (\<not> end_at \<le> start) (ApiError 400 ''recording_protection_range_invalid'')) (\<lambda>_.
     let normalized_reason = py_strip reason in
     and_then (require (normalized_reason \<noteq> []) (ApiError 400 ''recording_protection_reason_required'')) (\<lambda>_.
     and_then (require (\<not> length normalized_reason > 1024)
                 (ApiError 400 ''recording_protection_reason_too_long'')) (\<lambda>_.
     and_then (optional_utc expires_at ''timezone_required'') (\<lambda>expiry.
     and_then (require (\<not> (expiry \<noteq> None \<and> the expiry \<le> now))
                 (ApiError 400 ''recording_protection_expiry_invalid'')) (\<lambda>_.
     and_then (require (\<not> deletion_in_progress d cam start end_at)
                 (ApiError 409 ''recording_deletion_in_progress'')) (\<lambda>_.
     Inr (start, end_at, normalized_reason, expiry)))))))))"

definition protection_create ::
    "db \<Rightarrow> instant \<Rightarrow> uuid \<Rightarrow> uuid \<Rightarrow> py_datetime \<Rightarrow> py_datetime \<Rightarrow> string \<Rightarrow> uuid option
     \<Rightarrow> py_datetime option \<Rightarrow> (db \<times> recording_protection) result" where
  "protection_create d now new_id cam started_at ended_at reason created_by expires_at =
     and_then (require (get_camera d cam \<noteq> None) (ApiError 404 ''camera_not_found'')) (\<lambda>_.
     and_then (validated_window d cam now started_at ended_at reason expires_at)
       (\<lambda>(start, end_at, normalized_reason, expiry).
          let p = \<lparr>pr_id = new_id, pr_camera_id = cam, pr_started_at = start, pr_ended_at = end_at,
                   pr_reason = normalized_reason, pr_created_by = created_by, pr_expires_at = expiry\<rparr>
          in Inr (add_protection p d, p)))"

definition protection_update ::
    "db \<Rightarrow> instant \<Rightarrow> recording_protection \<Rightarrow> py_datetime \<Rightarrow> py_datetime \<Rightarrow> string
     \<Rightarrow> py_datetime option \<Rightarrow> (db \<times> recording_protection) result" where
  "protection_update d now protection started_at ended_at reason expires_at =
     and_then (validated_window d (pr_camera_id protection) now started_at ended_at reason expires_at)
       (\<lambda>(start, end_at, normalized_reason, expiry).
          let change = (\<lambda>p. p\<lparr>pr_started_at := start, pr_ended_at := end_at,
                              pr_reason := normalized_reason, pr_expires_at := expiry\<rparr>)
          in Inr (update_protection (pr_id protection) change d, change protection))"

definition protection_delete :: "db \<Rightarrow> recording_protection \<Rightarrow> db" where
  "protection_delete d protection =
     d\<lparr>db_protections := filter (\<lambda>p. pr_id p \<noteq> pr_id protection) (db_protections d)\<rparr>"

section \<open>What an accepted window guarantees\<close>

lemma validated_window_Inr:
  assumes "validated_window d cam now started_at ended_at reason expires_at = Inr (start, end_at, r, expiry)"
  shows "start < end_at \<and> r = py_strip reason \<and> r \<noteq> [] \<and> length r \<le> 1024
    \<and> ends_after expiry now \<and> \<not> deletion_in_progress d cam start end_at
    \<and> started_at = Aware start \<and> ended_at = Aware end_at"
proof -
  have utc: "require_utc v code = Inr t \<longleftrightarrow> v = Aware t" for v code t
    by (cases v) (auto simp: require_utc_def)
  show ?thesis
    using assms by (cases expiry) (auto simp: validated_window_def and_then_eq_Inr utc Let_def not_le)
qed

lemma protected_add:
  "protected_at (add_protection p d) s now \<longleftrightarrow> protected_at d s now \<or> (protects p s \<and> unexpired now p)"
  by (auto simp: protected_at_def protections.rows_add)

lemma protected_update:
  assumes "protected_at (update_protection k f d) s now"
  shows "protected_at d s now \<or> (\<exists>p \<in> set (db_protections d). pr_id p = k \<and> protects (f p) s \<and> unexpired now (f p))"
  using assms protections.upd_mem [of _ k f d] unfolding protected_at_def list_ex_iff by blast

lemma protected_delete: "protected_at (protection_delete d p) s now \<Longrightarrow> protected_at d s now"
  by (auto simp: protected_at_def protection_delete_def list_ex_iff)

lemma protected_later: "protected_at d s later \<Longrightarrow> now \<le> later \<Longrightarrow> protected_at d s now"
  by (auto simp: protected_at_def unexpired_def list_ex_iff dest: ends_after_mono)

lemma protected_frame: "db_protections d' = db_protections d \<Longrightarrow> protected_at d' s now = protected_at d s now"
  by (simp add: protected_at_def)

lemma not_in_progress:
  assumes "\<not> deletion_in_progress d cam start end_at"
    and "l \<in> set (db_locations d)" and "lo_state l = Deleting"
    and "get_segment d (lo_recording_segment_id l) = Some s" and "sg_camera_id s = cam"
  shows "\<not> (start < sg_ended_at s \<and> sg_started_at s < end_at)"
  using assms by (force simp: deletion_in_progress_def list_ex_iff)

text \<open>
  An accepted protection takes effect at once: the window is a non-empty range with a trimmed
  reason, it is unexpired, and from then on the planner refuses to delete any copy of a segment of
  that camera that meets the window, at every instant before the expiry and under any pressure.
\<close>

theorem protection_create_protects:
  assumes "protection_create d now new_id cam started_at ended_at reason created_by expires_at = Inr (d', p)"
    and "get_segment d (lo_recording_segment_id l) = Some s" and "sg_camera_id s = cam"
    and "pr_started_at p < sg_ended_at s" and "sg_started_at s < pr_ended_at p"
    and "ends_after (pr_expires_at p) instant_now"
  shows "pr_started_at p < pr_ended_at p \<and> pr_reason p = py_strip reason \<and> ends_after (pr_expires_at p) now
    \<and> \<not> (\<exists>x. evaluate d' l instant_now pressure = Inr x \<and> rd_eligible x)"
proof -
  from assms(1) obtain start end_at r expiry where
    w: "validated_window d cam now started_at ended_at reason expires_at = Inr (start, end_at, r, expiry)"
    and p: "p = \<lparr>pr_id = new_id, pr_camera_id = cam, pr_started_at = start, pr_ended_at = end_at,
                 pr_reason = r, pr_created_by = created_by, pr_expires_at = expiry\<rparr>"
    and d': "d' = add_protection p d"
    by (auto simp: protection_create_def and_then_eq_Inr Let_def)
  have "protects p s \<and> unexpired instant_now p"
    using assms(3-6) p by (simp add: protects_def unexpired_def)
  then have "protected_at d' s instant_now" by (simp add: d' protected_add)
  moreover have "get_segment d' (lo_recording_segment_id l) = Some s"
    using assms(2) by (simp add: d' get_segment_def)
  ultimately have "\<not> deletable d' l instant_now s' q" for s' q
    by (auto simp: deletable_def)
  then show ?thesis
    using validated_window_Inr [OF w] p unfolding evaluate_eligible by auto
qed

definition example_protection :: recording_protection where
  "example_protection = \<lparr>pr_id = 50, pr_camera_id = 5, pr_started_at = 0, pr_ended_at = 10,
     pr_reason = ''case'', pr_created_by = None, pr_expires_at = None\<rparr>"

definition example_camera_db :: db where
  "example_camera_db = example_media_db\<lparr>db_cameras := [\<lparr>cam_id = 5, cam_enabled = True, cam_maintenance = False\<rparr>]\<rparr>"

theorem protection_create_protects_witness:
  "\<not> (\<exists>x. evaluate (add_protection example_protection example_camera_db) example_location (days 400) True
          = Inr x \<and> rd_eligible x)"
proof -
  have "protection_create example_camera_db 0 50 5 (Aware 0) (Aware 10) '' case'' None None
      = Inr (add_protection example_protection example_camera_db, example_protection)"
    by code_simp
  moreover have "get_segment example_camera_db (lo_recording_segment_id example_location) = Some example_media"
    by (simp add: get_segment_def example_camera_db_def example_media_db_def example_location_def example_media_def)
  ultimately show ?thesis
    by (rule protection_create_protects [THEN conjunct2, THEN conjunct2, THEN conjunct2])
      (simp_all add: example_media_def example_protection_def seconds_def)
qed

end
