(* ===== verification/Paths.thy ===== *)
theory Paths
  imports Prelude
begin

text \<open>
  Paths as \<open>pathlib\<close> sees them, and the containment rule of \<open>core/fs.py\<close>.
\<close>

text \<open>
  A \<open>Path\<close> is the list of its \<open>parts\<close>; an absolute path starts with its root. Parsing a string
  drops empty and \<open>.\<close> components. The filesystem, which decides where symbolic links lead, is the
  parameter \<open>resolve\<close> (\<open>expanduser().resolve(strict=False)\<close>, \<open>None\<close> when it raises OSError).
\<close>

type_synonym path = "string list"

fun split_slash :: "string \<Rightarrow> string \<Rightarrow> string list" where
  "split_slash acc [] = [rev acc]"
| "split_slash acc (c # cs) = (if c = CHR ''/'' then rev acc # split_slash [] cs else split_slash (c # acc) cs)"

definition path_root :: "string \<Rightarrow> path" where
  "path_root s =
     (if take 1 s \<noteq> ''/'' then []
      else if take 2 s = ''//'' \<and> take 3 s \<noteq> ''///'' then [''//''] else [''/''])"

definition path_of :: "string \<Rightarrow> path" where
  "path_of s = path_root s @ filter (\<lambda>p. p \<noteq> [] \<and> p \<noteq> ''.'') (split_slash [] s)"

definition is_absolute :: "path \<Rightarrow> bool" where
  "is_absolute p = (p \<noteq> [] \<and> take 1 (hd p) = ''/'')"

fun is_prefix :: "'a list \<Rightarrow> 'a list \<Rightarrow> bool" where
  "is_prefix [] ys = True"
| "is_prefix (x # xs) [] = False"
| "is_prefix (x # xs) (y # ys) = (x = y \<and> is_prefix xs ys)"

text \<open>\<open>PurePath.as_posix\<close> of a relative path.\<close>

fun as_posix :: "path \<Rightarrow> string" where
  "as_posix [] = ''.''"
| "as_posix [p] = p"
| "as_posix (p # ps) = p @ ''/'' @ as_posix ps"

text \<open>\<open>resolve_within\<close>: \<open>PathEscapeError\<close> is the exception class carrying only its code here.\<close>

definition resolve_within_path :: "(path \<Rightarrow> path option) \<Rightarrow> path \<Rightarrow> path \<Rightarrow> path result" where
  "resolve_within_path resolve base candidate =
     (case resolve base of
        None \<Rightarrow> Inl (DomainError ''OSError'')
      | Some resolved_root \<Rightarrow>
          (case resolve (if is_absolute candidate then candidate else resolved_root @ candidate) of
             None \<Rightarrow> Inl (DomainError ''PathEscapeError'')
           | Some resolved \<Rightarrow>
               if is_prefix resolved_root resolved then Inr resolved
               else Inl (DomainError ''PathEscapeError'')))"

definition resolve_within :: "(path \<Rightarrow> path option) \<Rightarrow> string \<Rightarrow> string \<Rightarrow> path result" where
  "resolve_within resolve raw_root candidate = resolve_within_path resolve (path_of raw_root) (path_of candidate)"

definition resolve_within_or_none :: "(path \<Rightarrow> path option) \<Rightarrow> path \<Rightarrow> path \<Rightarrow> path option result" where
  "resolve_within_or_none resolve base candidate =
     (case resolve_within_path resolve base candidate of
        Inr p \<Rightarrow> Inr (Some p)
      | Inl e \<Rightarrow> if e = DomainError ''PathEscapeError'' then Inr None else Inl e)"

lemma is_prefix_append: "is_prefix xs ys \<longleftrightarrow> (\<exists>zs. ys = xs @ zs)"
  by (induction xs ys rule: is_prefix.induct) auto

lemma resolve_within_inside:
  "resolve_within resolve raw_root candidate = Inr p \<Longrightarrow>
   \<exists>r zs. resolve (path_of raw_root) = Some r \<and> p = r @ zs"
  by (auto simp: resolve_within_def resolve_within_path_def is_prefix_append split: option.splits if_splits)

end
