(* ===== verification/Deletion.thy ===== *)
theory Deletion
  imports Protection Paths
begin

text \<open>
  \<open>LocalRetentionDeletionService\<close> (\<open>modules/storage/retention.py\<close>): the two committed transactions of one deletion and the unlink between them, and
  their interleaving with the protection service and with other deletions.
\<close>

section \<open>One deletion\<close>

definition safe_path :: "(path \<Rightarrow> path option) \<Rightarrow> storage_target \<Rightarrow> string \<Rightarrow> path result" where
  "safe_path resolve target object_path =
     (case map_of (st_config_json target) ''path'' of
        Some (PStr raw_root) \<Rightarrow>
          if raw_root = [] then Inl (DomainError ''retention_local_target_invalid'')
          else (case resolve_within resolve raw_root object_path of
                  Inr p \<Rightarrow> Inr p
                | Inl e \<Rightarrow> if e = DomainError ''PathEscapeError''
                    then Inl (DomainError ''retention_local_path_invalid'') else Inl e)
      | _ \<Rightarrow> Inl (DomainError ''retention_local_target_invalid''))"

definition mark_failed :: "instant \<Rightarrow> db \<Rightarrow> uuid \<Rightarrow> string \<Rightarrow> db" where
  "mark_failed utc_now d location_id error_code =
     update_location location_id
       (\<lambda>l. l\<lparr>lo_state := Failed, lo_last_attempt_at := Some utc_now, lo_last_error := Some error_code\<rparr>) d"

record delete_result =
  dl_location_id :: uuid
  dl_deleted :: bool
  dl_reason :: string

datatype begun = Settled delete_result | Started path

text \<open>The first transaction of \<open>execute\<close>: decide, mark the row DELETING, commit.\<close>

definition delete_begin ::
    "(path \<Rightarrow> path option) \<Rightarrow> instant \<Rightarrow> instant \<Rightarrow> bool \<Rightarrow> uuid \<Rightarrow> db \<Rightarrow> (db \<times> begun) result" where
  "delete_begin resolve utc_now now pressure location_id d =
     (case get_location d location_id of
        None \<Rightarrow> Inl (DomainError ''retention_location_missing'')
      | Some l \<Rightarrow>
          if lo_state l = Deleted then Inr (d, Settled \<lparr>dl_location_id = lo_id l, dl_deleted = False,
                                                       dl_reason = ''already_deleted''\<rparr>)
          else if lo_state l \<noteq> Available then Inr (d, Settled \<lparr>dl_location_id = lo_id l,
                                          dl_deleted = False, dl_reason = ''not_available''\<rparr>)
          else and_then (evaluate d l now pressure) (\<lambda>decision.
            if \<not> rd_eligible decision
            then Inr (d, Settled \<lparr>dl_location_id = lo_id l, dl_deleted = False,
                                  dl_reason = rd_reason decision\<rparr>)
            else (case get_target d (lo_storage_target_id l) of
                    None \<Rightarrow> Inl (DomainError ''retention_local_target_missing'')
                  | Some target \<Rightarrow>
                      and_then (safe_path resolve target (lo_object_path l)) (\<lambda>file_path.
                      Inr (update_location location_id
                             (\<lambda>r. r\<lparr>lo_state := Deleting, lo_last_attempt_at := Some utc_now,
                                   lo_last_error := None\<rparr>) d,
                           Started file_path)))))"

text \<open>The last transaction: the file is gone, the row becomes DELETED.\<close>

definition delete_finish :: "instant \<Rightarrow> uuid \<Rightarrow> db \<Rightarrow> db result" where
  "delete_finish utc_now location_id d =
     (case get_location d location_id of
        None \<Rightarrow> Inl (DomainError ''retention_location_missing'')
      | Some l \<Rightarrow> Inr (update_location location_id
          (\<lambda>r. r\<lparr>lo_state := Deleted, lo_deleted_at := Some utc_now, lo_last_attempt_at := Some utc_now,
                lo_last_error := None\<rparr>) d))"

text \<open>
  \<open>execute\<close> without interference: the committed database and the result or the error.
  \<open>unlink_ok\<close> tells whether \<open>unlink(missing_ok=True)\<close> of the path succeeds.
\<close>

definition execute_deletion ::
    "(path \<Rightarrow> path option) \<Rightarrow> (path \<Rightarrow> bool) \<Rightarrow> instant \<Rightarrow> instant \<Rightarrow> bool \<Rightarrow> uuid \<Rightarrow> db
     \<Rightarrow> db \<times> delete_result result" where
  "execute_deletion resolve unlink_ok utc_now now pressure location_id d =
     (case delete_begin resolve utc_now now pressure location_id d of
        Inl e \<Rightarrow> (d, Inl e)
      | Inr (d', Settled r) \<Rightarrow> (d', Inr r)
      | Inr (d', Started file_path) \<Rightarrow>
          if \<not> unlink_ok file_path
          then (mark_failed utc_now d' location_id ''retention_delete_failed'',
                Inl (DomainError ''retention_delete_failed''))
          else (case delete_finish utc_now location_id d' of
                  Inl e \<Rightarrow> (d', Inl e)
                | Inr d'' \<Rightarrow> (d'', Inr \<lparr>dl_location_id = location_id, dl_deleted = True,
                                       dl_reason = ''deleted''\<rparr>)))"

section \<open>Concurrent deletions and protections\<close>

text \<open>
  Several workers and API requests share the database; a transaction is one step (sessions are
  serialised by the database). A deletion holds its path between its transactions: \<open>jobs\<close> before
  the unlink, \<open>unlinked\<close> after it. The clock only moves forward, and a worker's \<open>now\<close> is not ahead
  of it. \<open>other\<close> is any step of another component on the tables deletion and protection do not
  write (triggers, events, policies, archive targets).
\<close>

record world =
  w_db :: db
  w_clock :: instant
  w_jobs :: "(uuid \<times> path) list"
  w_unlinked :: "uuid list"

inductive deletion_step :: "(path \<Rightarrow> path option) \<Rightarrow> world \<Rightarrow> world \<Rightarrow> bool" for resolve where
  begin_job: "\<lbrakk>delete_begin resolve (w_clock w) now pressure k (w_db w) = Inr (d', Started file_path);
      now \<le> w_clock w\<rbrakk>
    \<Longrightarrow> deletion_step resolve w (w\<lparr>w_db := d', w_jobs := (k, file_path) # w_jobs w\<rparr>)"
| unlink: "(k, file_path) \<in> set (w_jobs w)
    \<Longrightarrow> deletion_step resolve w
         (w\<lparr>w_jobs := filter (\<lambda>j. fst j \<noteq> k) (w_jobs w), w_unlinked := k # w_unlinked w\<rparr>)"
| unlink_error: "(k, file_path) \<in> set (w_jobs w)
    \<Longrightarrow> deletion_step resolve w
         (w\<lparr>w_db := mark_failed (w_clock w) (w_db w) k ''retention_delete_failed'',
            w_jobs := filter (\<lambda>j. fst j \<noteq> k) (w_jobs w)\<rparr>)"
| finish: "\<lbrakk>k \<in> set (w_unlinked w); delete_finish (w_clock w) k (w_db w) = Inr d'\<rbrakk>
    \<Longrightarrow> deletion_step resolve w (w\<lparr>w_db := d', w_unlinked := filter (\<lambda>j. j \<noteq> k) (w_unlinked w)\<rparr>)"
| protect: "protection_create (w_db w) (w_clock w) new_id cam a b reason by_user expiry = Inr (d', p)
    \<Longrightarrow> deletion_step resolve w (w\<lparr>w_db := d'\<rparr>)"
| reprotect: "\<lbrakk>p \<in> set (db_protections (w_db w));
      protection_update (w_db w) (w_clock w) p a b reason expiry = Inr (d', p');
      distinct (map pr_id (db_protections (w_db w)))\<rbrakk>
    \<Longrightarrow> deletion_step resolve w (w\<lparr>w_db := d'\<rparr>)"
| unprotect: "deletion_step resolve w (w\<lparr>w_db := protection_delete (w_db w) p\<rparr>)"
| tick: "w_clock w \<le> later \<Longrightarrow> deletion_step resolve w (w\<lparr>w_clock := later\<rparr>)"
| other: "\<lbrakk>db_locations d' = db_locations (w_db w); db_segments d' = db_segments (w_db w);
      db_protections d' = db_protections (w_db w)\<rbrakk>
    \<Longrightarrow> deletion_step resolve w (w\<lparr>w_db := d'\<rparr>)"

inductive_cases deletion_stepE: "deletion_step resolve w w'"

definition reachable_world :: "(path \<Rightarrow> path option) \<Rightarrow> db \<Rightarrow> instant \<Rightarrow> world \<Rightarrow> bool" where
  "reachable_world resolve d now w =
     (deletion_step resolve)\<^sup>*\<^sup>* \<lparr>w_db = d, w_clock = now, w_jobs = [], w_unlinked = []\<rparr> w"

text \<open>No row in state DELETING belongs to a segment an unexpired protection meets.\<close>

definition deleting_unprotected :: "db \<Rightarrow> instant \<Rightarrow> bool" where
  "deleting_unprotected d now \<longleftrightarrow>
     (\<forall>k l s. get_location d k = Some l \<longrightarrow> lo_state l = Deleting
        \<longrightarrow> get_segment d (lo_recording_segment_id l) = Some s \<longrightarrow> \<not> protected_at d s now)"

definition jobs_deleting :: "world \<Rightarrow> bool" where
  "jobs_deleting w \<longleftrightarrow>
     (\<forall>k \<in> fst ` set (w_jobs w) \<union> set (w_unlinked w).
        \<exists>l. get_location (w_db w) k = Some l \<and> lo_state l = Deleting)
     \<and> fst ` set (w_jobs w) \<inter> set (w_unlinked w) = {}"

text \<open>What a deletion may rely on when its first transaction starts it.\<close>

lemma delete_begin_Started:
  assumes "delete_begin resolve utc now pressure k d = Inr (d', Started file_path)"
  obtains l x target where "get_location d k = Some l" "lo_state l = Available"
    "evaluate d l now pressure = Inr x" "rd_eligible x"
    "get_target d (lo_storage_target_id l) = Some target"
    "safe_path resolve target (lo_object_path l) = Inr file_path"
    "d' = update_location k (\<lambda>r. r\<lparr>lo_state := Deleting, lo_last_attempt_at := Some utc,
                                  lo_last_error := None\<rparr>) d"
  using assms by (auto simp: delete_begin_def and_then_eq_Inr split: option.splits if_splits)

lemma get_location_set_state:
  assumes "\<And>r. lo_id (f r) = lo_id r"
  shows "get_location (update_location k f d) j = (if j = k then map_option f (get_location d k) else get_location d j)"
  by (rule locations.get_upd) (rule assms)

lemma delete_begin_keeps:
  assumes "delete_begin resolve utc now pressure k d = Inr (d', Started file_path)"
    and "deleting_unprotected d clock" and "now \<le> clock"
  shows "deleting_unprotected d' clock \<and> (\<exists>l. get_location d' k = Some l \<and> lo_state l = Deleting)
    \<and> (\<forall>j. j \<noteq> k \<longrightarrow> get_location d' j = get_location d j)
    \<and> (\<exists>l. get_location d k = Some l \<and> lo_state l = Available)"
proof -
  from assms(1) obtain l x target where l: "get_location d k = Some l" "lo_state l = Available"
    and x: "evaluate d l now pressure = Inr x" "rd_eligible x"
    and d': "d' = update_location k (\<lambda>r. r\<lparr>lo_state := Deleting, lo_last_attempt_at := Some utc,
                                  lo_last_error := None\<rparr>) d"
    by (rule delete_begin_Started)
  from x obtain s p where "deletable d l now s p" using evaluate_eligible [of d l now pressure] by blast
  then have s: "get_segment d (lo_recording_segment_id l) = Some s" "\<not> protected_at d s now"
    by (simp_all add: deletable_def)
  have loc: "get_location d' j
      = (if j = k then Some (l\<lparr>lo_state := Deleting, lo_last_attempt_at := Some utc, lo_last_error := None\<rparr>)
         else get_location d j)" for j
    by (simp add: d' get_location_set_state l(1))
  have frame: "get_segment d' i = get_segment d i" "protected_at d' t c = protected_at d t c" for i t c
    by (simp_all add: d' get_segment_def protected_at_def)
  have "\<not> protected_at d s clock" using s(2) assms(3) protected_later by blast
  then show ?thesis
    using assms(2) s(1) l by (auto simp: deleting_unprotected_def loc frame)
qed

lemma settle_keeps:
  assumes "deleting_unprotected d clock" and "\<And>r. lo_id (f r) = lo_id r" and "\<And>r. lo_state (f r) \<noteq> Deleting"
  shows "deleting_unprotected (update_location k f d) clock"
  unfolding deleting_unprotected_def
  by (auto simp: get_location_set_state [OF assms(2)] get_segment_def protected_at_def assms(3)
      assms(1) [unfolded deleting_unprotected_def get_segment_def protected_at_def] split: if_splits)

lemma window_keeps:
  assumes inv: "deleting_unprotected d clock"
    and free: "\<not> deletion_in_progress d cam start end_at"
    and same: "db_locations d' = db_locations d" "db_segments d' = db_segments d"
    and prot: "\<And>s. protected_at d' s clock \<Longrightarrow> protected_at d s clock
        \<or> (sg_camera_id s = cam \<and> start < sg_ended_at s \<and> sg_started_at s < end_at)"
  shows "deleting_unprotected d' clock"
  unfolding deleting_unprotected_def
proof (intro allI impI notI)
  fix k l s
  assume "get_location d' k = Some l" and del: "lo_state l = Deleting"
    and "get_segment d' (lo_recording_segment_id l) = Some s" and p: "protected_at d' s clock"
  then have l: "get_location d k = Some l" and s: "get_segment d (lo_recording_segment_id l) = Some s"
    by (simp_all add: get_location_def get_segment_def same)
  have "\<not> protected_at d s clock" using inv l del s by (auto simp: deleting_unprotected_def)
  with prot [OF p] have "sg_camera_id s = cam" "start < sg_ended_at s" "sg_started_at s < end_at" by auto
  with not_in_progress [OF free _ del s] locations.get_Some [OF l] show False by blast
qed

lemma update_window_protects:
  assumes "protection_update d now p a b reason expiry = Inr (d', p')"
    and "p \<in> set (db_protections d)" and "distinct (map pr_id (db_protections d))"
    and "protected_at d' s clock"
  shows "protected_at d s clock
    \<or> (sg_camera_id s = pr_camera_id p \<and> pr_started_at p' < sg_ended_at s \<and> sg_started_at s < pr_ended_at p')"
proof -
  from assms(1) obtain start end_at r e where
    d': "d' = update_protection (pr_id p) (\<lambda>q. q\<lparr>pr_started_at := start, pr_ended_at := end_at,
                              pr_reason := r, pr_expires_at := e\<rparr>) d"
    and p': "p' = p\<lparr>pr_started_at := start, pr_ended_at := end_at, pr_reason := r, pr_expires_at := e\<rparr>"
    by (auto simp: protection_update_def and_then_eq_Inr Let_def)
  have "q = p" if "q \<in> set (db_protections d)" "pr_id q = pr_id p" for q
    using that assms(2,3) by (auto simp: distinct_map inj_on_def)
  then have only: "q = p" if "q \<in> set (db_protections d)" "pr_id q = pr_id p" for q
    using that by blast
  have "protects (q\<lparr>pr_started_at := start, pr_ended_at := end_at, pr_reason := r, pr_expires_at := e\<rparr>) s
      \<Longrightarrow> protects p' s" if "q \<in> set (db_protections d)" "pr_id q = pr_id p" for q
    using only [OF that] p' by simp
  with protected_update [OF assms(4) [unfolded d']] have "protected_at d s clock \<or> protects p' s" by blast
  then show ?thesis by (auto simp: p' protects_def)
qed

text \<open>Settling a row ends its job: the other jobs keep their rows.\<close>

lemma jobs_drop:
  assumes "jobs_deleting w" and "\<And>r. lo_id (f r) = lo_id r"
    and "k \<notin> fst ` set js" and "k \<notin> set us"
    and "set js \<subseteq> set (w_jobs w)" and "set us \<subseteq> set (w_unlinked w)"
  shows "jobs_deleting (w\<lparr>w_db := update_location k f (w_db w), w_jobs := js, w_unlinked := us\<rparr>)"
proof -
  have "\<exists>l. get_location (update_location k f (w_db w)) j = Some l \<and> lo_state l = Deleting"
    if "j \<in> fst ` set js \<union> set us" for j
  proof -
    have "j \<in> fst ` set (w_jobs w) \<union> set (w_unlinked w)" "j \<noteq> k" using that assms(3-6) by auto
    then show ?thesis
      using assms(1) unfolding jobs_deleting_def get_location_set_state [OF assms(2)] by auto
  qed
  moreover have "fst ` set js \<inter> set us = {}"
    using assms(1,5,6) unfolding jobs_deleting_def by blast
  ultimately show ?thesis unfolding jobs_deleting_def by simp
qed

lemma deletion_step_invariant:
  assumes "deletion_step resolve w w'" and "deleting_unprotected (w_db w) (w_clock w)"
    and "jobs_deleting w"
  shows "deleting_unprotected (w_db w') (w_clock w') \<and> jobs_deleting w'"
  using assms
proof cases
  case (begin_job now pressure k d' file_path)
  note kept = delete_begin_keeps [OF begin_job(2) assms(2) begin_job(3)]
  let ?ks = "fst ` set (w_jobs w) \<union> set (w_unlinked w)"
  from kept obtain l where l: "get_location (w_db w) k = Some l" "lo_state l = Available" by blast
  have new: "k \<notin> ?ks"
  proof
    assume "k \<in> ?ks"
    with assms(3) have "\<exists>l. get_location (w_db w) k = Some l \<and> lo_state l = Deleting"
      unfolding jobs_deleting_def by blast
    with l show False by auto
  qed
  have "\<exists>l. get_location d' j = Some l \<and> lo_state l = Deleting" if "j \<in> insert k ?ks" for j
  proof (cases "j = k")
    case False
    with that have "j \<in> ?ks" by blast
    with assms(3) have "\<exists>l. get_location (w_db w) j = Some l \<and> lo_state l = Deleting"
      unfolding jobs_deleting_def by blast
    with kept False show ?thesis by metis
  qed (use kept in blast)
  then have "jobs_deleting w'"
    using assms(3) new begin_job(1) unfolding jobs_deleting_def by auto
  with kept begin_job(1) show ?thesis by simp
next
  case (unlink k file_path)
  with assms(2,3) show ?thesis by (force simp: jobs_deleting_def)
next
  case (unlink_error k file_path)
  have "deleting_unprotected (w_db w') (w_clock w')"
    using assms(2) unlink_error by (auto simp: mark_failed_def intro!: settle_keeps)
  moreover have "k \<notin> set (w_unlinked w)"
    using assms(3) unlink_error(2) unfolding jobs_deleting_def by force
  then have "jobs_deleting w'"
    using jobs_drop [OF assms(3), where f = "\<lambda>l. l\<lparr>lo_state := Failed,
        lo_last_attempt_at := Some (w_clock w), lo_last_error := Some ''retention_delete_failed''\<rparr>"
        and k = k and js = "filter (\<lambda>j. fst j \<noteq> k) (w_jobs w)" and us = "w_unlinked w"] unlink_error(1)
    by (auto simp: mark_failed_def)
  ultimately show ?thesis ..
next
  case (finish k d')
  then have d': "d' = update_location k
          (\<lambda>r. r\<lparr>lo_state := Deleted, lo_deleted_at := Some (w_clock w),
                lo_last_attempt_at := Some (w_clock w), lo_last_error := None\<rparr>) (w_db w)"
    by (auto simp: delete_finish_def split: option.splits)
  have "deleting_unprotected (w_db w') (w_clock w')"
    using assms(2) finish(1) by (auto simp: d' intro!: settle_keeps)
  moreover have "k \<notin> fst ` set (w_jobs w)"
    using assms(3) finish(2) unfolding jobs_deleting_def by blast
  then have "jobs_deleting w'"
    using jobs_drop [OF assms(3), where f = "\<lambda>r. r\<lparr>lo_state := Deleted,
        lo_deleted_at := Some (w_clock w), lo_last_attempt_at := Some (w_clock w), lo_last_error := None\<rparr>"
        and k = k and js = "w_jobs w" and us = "filter (\<lambda>j. j \<noteq> k) (w_unlinked w)"] finish(1) d'
    by auto
  ultimately show ?thesis ..
next
  case (protect new_id cam a b reason by_user expiry d' p)
  then obtain start end_at r e where
    w: "validated_window (w_db w) cam (w_clock w) a b reason expiry = Inr (start, end_at, r, e)"
    and d': "d' = add_protection \<lparr>pr_id = new_id, pr_camera_id = cam, pr_started_at = start,
        pr_ended_at = end_at, pr_reason = r, pr_created_by = by_user, pr_expires_at = e\<rparr> (w_db w)"
    by (auto simp: protection_create_def and_then_eq_Inr Let_def)
  have free: "\<not> deletion_in_progress (w_db w) cam start end_at" using validated_window_Inr [OF w] by simp
  have "deleting_unprotected d' (w_clock w)"
    by (rule window_keeps [OF assms(2) free]) (auto simp: d' protected_add protects_def)
  with assms(3) protect(1) show ?thesis
    by (simp add: jobs_deleting_def d' get_location_def)
next
  case (reprotect p a b reason expiry d' p')
  then obtain start end_at r e where
    w: "validated_window (w_db w) (pr_camera_id p) (w_clock w) a b reason expiry = Inr (start, end_at, r, e)"
    and p': "pr_started_at p' = start" "pr_ended_at p' = end_at"
    and d': "db_locations d' = db_locations (w_db w)" "db_segments d' = db_segments (w_db w)"
    by (auto simp: protection_update_def and_then_eq_Inr Let_def)
  have free: "\<not> deletion_in_progress (w_db w) (pr_camera_id p) start end_at"
    using validated_window_Inr [OF w] by simp
  have "deleting_unprotected d' (w_clock w)"
    by (rule window_keeps [OF assms(2) free d'])
      (use update_window_protects [OF reprotect(3,2,4)] p' in blast)
  with assms(3) reprotect(1) d' show ?thesis by (simp add: jobs_deleting_def get_location_def)
next
  case (unprotect p)
  have "get_location (protection_delete (w_db w) p) k = get_location (w_db w) k"
    "get_segment (protection_delete (w_db w) p) k = get_segment (w_db w) k" for k
    by (simp_all add: protection_delete_def get_location_def get_segment_def)
  with assms(2,3) unprotect show ?thesis
    by (auto simp: deleting_unprotected_def jobs_deleting_def dest: protected_delete)
next
  case (tick later)
  with assms(2,3) show ?thesis
    by (auto simp: deleting_unprotected_def jobs_deleting_def dest: protected_later)
next
  case (other d')
  with assms(2,3) show ?thesis
    by (simp add: deleting_unprotected_def jobs_deleting_def get_location_def get_segment_def protected_at_def)
qed


lemma reachable_invariant:
  assumes "reachable_world resolve d now w" and "deleting_unprotected d now"
  shows "deleting_unprotected (w_db w) (w_clock w) \<and> jobs_deleting w"
  using assms(1) unfolding reachable_world_def
proof (induction rule: rtranclp_induct)
  case base
  then show ?case using assms(2) by (simp add: jobs_deleting_def)
next
  case (step w w')
  then show ?case using deletion_step_invariant by blast
qed


text \<open>The filesystem of the examples has no symbolic link.\<close>

lemma example_delete_begin:
  "delete_begin Some 0 (days 31) False 30 example_media_db
   = Inr (update_location 30 (\<lambda>r. r\<lparr>lo_state := Deleting, lo_last_attempt_at := Some 0, lo_last_error := None\<rparr>)
            example_media_db, Started [''/'', ''media'', ''a.mp4''])"
  by code_simp


section \<open>The outcome of one deletion\<close>

text \<open>
  C37: \<open>execute\<close> touches a file only inside the configured root of the copy's own target, after the
  planner has approved the deletion, and the row tells the truth: it is DELETED exactly when the
  unlink succeeded, FAILED with the error when it did not, and otherwise the database is unchanged.
\<close>

theorem execute_deletion_truthful:
  assumes "execute_deletion resolve unlink_ok utc now pressure k d = (d', res)" and "d' \<noteq> d"
  shows "\<exists>l x target raw_root resolved_root rest l'.
    get_location d k = Some l \<and> evaluate d l now pressure = Inr x \<and> rd_eligible x
    \<and> get_target d (lo_storage_target_id l) = Some target
    \<and> map_of (st_config_json target) ''path'' = Some (PStr raw_root)
    \<and> resolve (path_of raw_root) = Some resolved_root
    \<and> get_location d' k = Some l'
    \<and> (if unlink_ok (resolved_root @ rest)
       then lo_state l' = Deleted \<and> lo_deleted_at l' = Some utc
         \<and> res = Inr \<lparr>dl_location_id = k, dl_deleted = True, dl_reason = ''deleted''\<rparr>
       else lo_state l' = Failed \<and> lo_last_error l' = Some ''retention_delete_failed''
         \<and> res = Inl (DomainError ''retention_delete_failed''))"
proof -
  have settled: "d1 = d" if "delete_begin resolve utc now pressure k d = Inr (d1, Settled r)" for d1 r
    using that by (auto simp: delete_begin_def and_then_eq_Inr split: option.splits if_splits)
  from assms settled obtain d1 file_path where b: "delete_begin resolve utc now pressure k d = Inr (d1, Started file_path)"
    by (cases "delete_begin resolve utc now pressure k d")
      (auto simp: execute_deletion_def split: begun.splits)
  then obtain l x target where l: "get_location d k = Some l" "evaluate d l now pressure = Inr x" "rd_eligible x"
    and target: "get_target d (lo_storage_target_id l) = Some target"
    and path: "safe_path resolve target (lo_object_path l) = Inr file_path"
    and d1: "d1 = update_location k (\<lambda>r. r\<lparr>lo_state := Deleting, lo_last_attempt_at := Some utc,
                                  lo_last_error := None\<rparr>) d"
    by (rule delete_begin_Started)
  from path obtain raw_root where root: "map_of (st_config_json target) ''path'' = Some (PStr raw_root)"
    and within: "resolve_within resolve raw_root (lo_object_path l) = Inr file_path"
    by (auto simp: safe_path_def split: option.splits pyobj.splits if_splits sum.splits)
  from resolve_within_inside [OF within] obtain r zs where
    r: "resolve (path_of raw_root) = Some r" "file_path = r @ zs" by blast
  have loc: "get_location d1 k = Some (l\<lparr>lo_state := Deleting, lo_last_attempt_at := Some utc, lo_last_error := None\<rparr>)"
    by (simp add: d1 get_location_set_state l(1))
  have "\<exists>l'. get_location d' k = Some l'
    \<and> (if unlink_ok (r @ zs)
       then lo_state l' = Deleted \<and> lo_deleted_at l' = Some utc
         \<and> res = Inr \<lparr>dl_location_id = k, dl_deleted = True, dl_reason = ''deleted''\<rparr>
       else lo_state l' = Failed \<and> lo_last_error l' = Some ''retention_delete_failed''
         \<and> res = Inl (DomainError ''retention_delete_failed''))"
    using assms(1) b loc r(2)
    by (auto simp: execute_deletion_def delete_finish_def mark_failed_def get_location_set_state
        split: if_splits)
  then show ?thesis using l target root r(1) by blast
qed

theorem execute_deletion_truthful_witness:
  "\<exists>l'. get_location (fst (execute_deletion Some (\<lambda>p. False) 0 (days 31) False 30 example_media_db)) 30 = Some l'
     \<and> lo_state l' = Failed"
proof -
  obtain d' res where e: "execute_deletion Some (\<lambda>p. False) 0 (days 31) False 30 example_media_db = (d', res)"
    by fastforce
  have "map lo_state (db_locations (fst (execute_deletion Some (\<lambda>p. False) 0 (days 31) False 30 example_media_db)))
      = [Failed]"
    by code_simp
  moreover have "map lo_state (db_locations example_media_db) = [Available]" by code_simp
  ultimately have "d' \<noteq> example_media_db" using e by auto
  from execute_deletion_truthful [OF e this] show ?thesis by (auto simp: e)
qed

end
