(* ===== verification/RetentionAdmin.thy ===== *)
theory RetentionAdmin
  imports Retention
begin

text \<open>
  \<open>modules/storage/retention_admin.py\<close>: creating, changing and deleting retention policies. Scope
  and mode arrive as strings and are parsed by the service's own checks. \<open>session.flush()\<close> is the
  check of the table's constraints; a violation is \<open>IntegrityError\<close>.
\<close>

definition add_retention :: "retention_policy \<Rightarrow> db \<Rightarrow> db" where
  "add_retention p d = d\<lparr>db_retention := db_retention d @ [p]\<rparr>"

definition update_retention :: "uuid \<Rightarrow> (retention_policy \<Rightarrow> retention_policy) \<Rightarrow> db \<Rightarrow> db" where
  "update_retention k f d = d\<lparr>db_retention := map (\<lambda>r. if tp_id r = k then f r else r) (db_retention d)\<rparr>"

interpretation retentions: keyed_table db_retention tp_id get_retention add_retention update_retention
  by unfold_locales (simp_all add: get_retention_def add_retention_def update_retention_def)

section \<open>The service\<close>

definition retention_list :: "db \<Rightarrow> retention_policy list" where
  "retention_list d = sort_key (\<lambda>p. (tp_name p, tp_id p)) (db_retention d)"

definition retention_get :: "db \<Rightarrow> uuid \<Rightarrow> retention_policy result" where
  "retention_get d policy_id = fetch_or_404 (get_retention d policy_id) ''retention_policy_not_found''"

definition scope_invalid :: error where
  "scope_invalid = ApiError 400 ''retention_scope_invalid''"

definition validate_scope :: "db \<Rightarrow> string \<Rightarrow> uuid option \<Rightarrow> retention_scope result" where
  "validate_scope d scope_type scope_id =
     (if scope_type = ''GLOBAL''
      then (if scope_id \<noteq> None then Inl scope_invalid else Inr ScopeGlobal)
      else (case scope_id of
        None \<Rightarrow> Inl scope_invalid
      | Some k \<Rightarrow>
          if scope_type = ''CAMERA''
          then (if get_camera d k = None then Inl (ApiError 400 ''retention_camera_unknown'')
                else Inr ScopeCamera)
          else if scope_type = ''CAMERA_GROUP''
          then (if find (\<lambda>g. gr_id g = k) (db_groups d) = None
                then Inl (ApiError 400 ''retention_camera_group_unknown'') else Inr ScopeCameraGroup)
          else Inl scope_invalid))"

definition ensure_scope_available ::
    "db \<Rightarrow> retention_scope \<Rightarrow> uuid option \<Rightarrow> uuid option \<Rightarrow> unit result" where
  "ensure_scope_available d scope_type scope_id exclude_id =
     require (\<not> list_ex (\<lambda>p. tp_scope_type p = scope_type \<and> tp_scope_id p = scope_id
                          \<and> (case exclude_id of None \<Rightarrow> True | Some k \<Rightarrow> tp_id p \<noteq> k)) (db_retention d))
       (ApiError 409 ''retention_scope_conflict'')"

definition validate_days :: "int \<Rightarrow> int \<Rightarrow> int \<Rightarrow> unit result" where
  "validate_days ordinary event manual =
     require (\<not> list_ex (\<lambda>v. v < 0 \<or> v > 36500) [ordinary, event, manual])
       (ApiError 400 ''retention_days_invalid'')"

definition parse_mode :: "string \<Rightarrow> retention_mode result" where
  "parse_mode mode =
     (if mode = ''BEST_EFFORT'' then Inr BestEffort
      else if mode = ''HARD'' then Inr Hard
      else Inl (ApiError 400 ''retention_mode_invalid''))"

text \<open>The CHECK constraints, the unique name and the unique indexes on the scope.\<close>

definition retention_row_ok :: "retention_policy \<Rightarrow> bool" where
  "retention_row_ok p =
     ((tp_scope_type p = ScopeGlobal \<longleftrightarrow> tp_scope_id p = None)
      \<and> 0 \<le> tp_ordinary_keep_days p \<and> 0 \<le> tp_event_keep_days p \<and> 0 \<le> tp_manual_keep_days p)"

definition same_scope :: "retention_policy \<Rightarrow> retention_policy \<Rightarrow> bool" where
  "same_scope p q = (tp_scope_type p = tp_scope_type q \<and> tp_scope_id p = tp_scope_id q)"

definition flush_retention :: "db \<Rightarrow> retention_policy \<Rightarrow> unit result" where
  "flush_retention d p =
     require (retention_row_ok p
              \<and> \<not> list_ex (\<lambda>q. tp_id q \<noteq> tp_id p \<and> (tp_name q = tp_name p \<or> same_scope q p)) (db_retention d))
       IntegrityError"

record retention_values =
  rv_name :: string
  rv_scope_type :: string
  rv_scope_id :: "uuid option"
  rv_ordinary :: int
  rv_event :: int
  rv_manual :: int
  rv_mode :: string
  rv_require_archive :: bool
  rv_enabled :: bool

definition retention_create ::
    "db \<Rightarrow> uuid \<Rightarrow> retention_values \<Rightarrow> (db \<times> retention_policy) result" where
  "retention_create d new_id v =
     (let normalized_name = py_strip (rv_name v) in
      and_then (require (normalized_name \<noteq> []) (ApiError 400 ''retention_name_invalid'')) (\<lambda>_.
      and_then (validate_scope d (rv_scope_type v) (rv_scope_id v)) (\<lambda>scope.
      and_then (ensure_scope_available d scope (rv_scope_id v) None) (\<lambda>_.
      and_then (validate_days (rv_ordinary v) (rv_event v) (rv_manual v)) (\<lambda>_.
      and_then (parse_mode (rv_mode v)) (\<lambda>mode.
      and_then (require (\<not> list_ex (\<lambda>q. tp_name q = normalized_name) (db_retention d))
                  (ApiError 409 ''retention_name_conflict'')) (\<lambda>_.
      let policy = \<lparr>tp_id = new_id, tp_name = normalized_name, tp_scope_type = scope,
                    tp_scope_id = rv_scope_id v, tp_ordinary_keep_days = rv_ordinary v,
                    tp_event_keep_days = rv_event v, tp_manual_keep_days = rv_manual v,
                    tp_mode = mode, tp_require_archive_before_delete = rv_require_archive v,
                    tp_enabled = rv_enabled v\<rparr>
      in and_then (flush_retention d policy) (\<lambda>_. Inr (add_retention policy d, policy)))))))))"

text \<open>
  The \<open>changes\<close> of a patch: \<open>None\<close> where the key is absent, \<open>Some None\<close> where it is null.
\<close>

record retention_changes =
  rc_name :: "string option option"
  rc_scope_type :: "string option option"
  rc_scope_id :: "uuid option option"
  rc_ordinary :: "int option option"
  rc_event :: "int option option"
  rc_manual :: "int option option"
  rc_mode :: "string option option"
  rc_require_archive :: "bool option option"
  rc_enabled :: "bool option option"

definition changed_or :: "'a option option \<Rightarrow> 'a \<Rightarrow> 'a" where
  "changed_or c old = (case c of Some (Some v) \<Rightarrow> v | _ \<Rightarrow> old)"

definition scope_name :: "retention_scope \<Rightarrow> string" where
  "scope_name s = (case s of ScopeGlobal \<Rightarrow> ''GLOBAL'' | ScopeCamera \<Rightarrow> ''CAMERA''
     | ScopeCameraGroup \<Rightarrow> ''CAMERA_GROUP'')"

definition mode_name :: "retention_mode \<Rightarrow> string" where
  "mode_name m = (case m of BestEffort \<Rightarrow> ''BEST_EFFORT'' | Hard \<Rightarrow> ''HARD'')"

definition retention_update ::
    "db \<Rightarrow> retention_policy \<Rightarrow> retention_changes \<Rightarrow> (db \<times> retention_policy) result" where
  "retention_update d policy c =
     and_then (require (\<not> (rc_name c = Some None \<or> rc_scope_type c = Some None \<or> rc_ordinary c = Some None
                 \<or> rc_event c = Some None \<or> rc_manual c = Some None \<or> rc_mode c = Some None
                 \<or> rc_require_archive c = Some None \<or> rc_enabled c = Some None))
                 (ApiError 400 ''retention_patch_null_invalid'')) (\<lambda>_.
     let name = py_strip (changed_or (rc_name c) (tp_name policy)) in
     and_then (require (name \<noteq> []) (ApiError 400 ''retention_name_invalid'')) (\<lambda>_.
     let scope_id = (case rc_scope_id c of None \<Rightarrow> tp_scope_id policy | Some k \<Rightarrow> k);
         ordinary = changed_or (rc_ordinary c) (tp_ordinary_keep_days policy);
         event = changed_or (rc_event c) (tp_event_keep_days policy);
         manual = changed_or (rc_manual c) (tp_manual_keep_days policy) in
     and_then (validate_scope d (changed_or (rc_scope_type c) (scope_name (tp_scope_type policy))) scope_id)
       (\<lambda>scope.
     and_then (ensure_scope_available d scope scope_id (Some (tp_id policy))) (\<lambda>_.
     and_then (validate_days ordinary event manual) (\<lambda>_.
     and_then (parse_mode (changed_or (rc_mode c) (mode_name (tp_mode policy)))) (\<lambda>mode.
     and_then (require (\<not> list_ex (\<lambda>q. tp_name q = name \<and> tp_id q \<noteq> tp_id policy) (db_retention d))
                 (ApiError 409 ''retention_name_conflict'')) (\<lambda>_.
     let policy' = policy\<lparr>tp_name := name, tp_scope_type := scope, tp_scope_id := scope_id,
           tp_ordinary_keep_days := ordinary, tp_event_keep_days := event,
           tp_manual_keep_days := manual, tp_mode := mode,
           tp_require_archive_before_delete :=
             changed_or (rc_require_archive c) (tp_require_archive_before_delete policy),
           tp_enabled := changed_or (rc_enabled c) (tp_enabled policy)\<rparr>
     in and_then (flush_retention d policy') (\<lambda>_.
        Inr (update_retention (tp_id policy) (\<lambda>_. policy') d, policy')))))))))"

definition retention_delete :: "db \<Rightarrow> retention_policy \<Rightarrow> db result" where
  "retention_delete d policy =
     and_then (require (\<not> list_ex (\<lambda>r. rp_retention_policy_id r = Some (tp_id policy)) (db_policies d))
                 (ApiError 409 ''retention_policy_in_use'')) (\<lambda>_.
     Inr (d\<lparr>db_retention := filter (\<lambda>p. tp_id p \<noteq> tp_id policy) (db_retention d)\<rparr>))"

section \<open>One policy per scope\<close>

text \<open>
  The administration's requests. A new row has a fresh id; \<open>other\<close> is any step that leaves the
  policy table alone.
\<close>

inductive admin_step :: "db \<Rightarrow> db \<Rightarrow> bool" where
  admin_create: "\<lbrakk>retention_create d new_id v = Inr (d', p); get_retention d new_id = None\<rbrakk>
    \<Longrightarrow> admin_step d d'"
| admin_update: "\<lbrakk>get_retention d k = Some p; retention_update d p c = Inr (d', p')\<rbrakk> \<Longrightarrow> admin_step d d'"
| admin_delete: "\<lbrakk>get_retention d k = Some p; retention_delete d p = Inr d'\<rbrakk> \<Longrightarrow> admin_step d d'"
| admin_other: "db_retention d' = db_retention d \<Longrightarrow> admin_step d d'"

inductive_cases admin_stepE: "admin_step d d'"

definition scopes_distinct :: "db \<Rightarrow> bool" where
  "scopes_distinct d \<longleftrightarrow>
     distinct (map tp_id (db_retention d))
     \<and> (\<forall>p \<in> set (db_retention d). \<forall>q \<in> set (db_retention d). same_scope p q \<longrightarrow> p = q)
     \<and> (\<forall>p \<in> set (db_retention d). retention_row_ok p)"

lemma validate_scope_shape:
  "validate_scope d s k = Inr scope \<Longrightarrow> (scope = ScopeGlobal \<longleftrightarrow> k = None)"
  by (auto simp: validate_scope_def split: if_splits option.splits)

lemma validate_days_Inr: "validate_days a b c = Inr u \<longleftrightarrow>
    0 \<le> a \<and> a \<le> 36500 \<and> 0 \<le> b \<and> b \<le> 36500 \<and> 0 \<le> c \<and> c \<le> 36500"
  by (auto simp: validate_days_def)

lemma retention_create_cases:
  assumes "retention_create d new_id v = Inr (d', p)"
  shows "d' = add_retention p d \<and> tp_id p = new_id \<and> retention_row_ok p
    \<and> (\<forall>q \<in> set (db_retention d). \<not> same_scope q p \<and> tp_name q \<noteq> tp_name p)"
  using assms
  by (auto simp: retention_create_def and_then_eq_Inr Let_def ensure_scope_available_def list_ex_iff
      same_scope_def flush_retention_def)

lemma retention_update_cases:
  assumes "retention_update d policy c = Inr (d', p)"
  shows "d' = update_retention (tp_id policy) (\<lambda>_. p) d \<and> tp_id p = tp_id policy \<and> retention_row_ok p
    \<and> (\<forall>q \<in> set (db_retention d). tp_id q \<noteq> tp_id policy \<longrightarrow> \<not> same_scope q p)"
  using assms
  by (auto simp: retention_update_def and_then_eq_Inr Let_def ensure_scope_available_def list_ex_iff
      same_scope_def flush_retention_def)

text \<open>The service's own checks leave nothing for the flush to find.\<close>

lemma flush_after_checks:
  assumes "validate_scope d s k = Inr scope"
    and "ensure_scope_available d scope k (Some (tp_id p)) = Inr ()"
    and "validate_days (tp_ordinary_keep_days p) (tp_event_keep_days p) (tp_manual_keep_days p) = Inr ()"
    and "\<not> list_ex (\<lambda>q. tp_name q = tp_name p \<and> tp_id q \<noteq> tp_id p) (db_retention d)"
    and "tp_scope_type p = scope" and "tp_scope_id p = k"
  shows "flush_retention d p = Inr ()"
  using assms validate_scope_shape [OF assms(1)]
  by (auto simp: flush_retention_def retention_row_ok_def validate_days_Inr ensure_scope_available_def
      list_ex_iff same_scope_def)

lemma admin_step_scopes:
  assumes "admin_step d d'" and "scopes_distinct d"
  shows "scopes_distinct d'"
  using assms
proof cases
  case (admin_create new_id v p)
  from retention_create_cases [OF admin_create(1)] admin_create(2) assms(2)
  show ?thesis
    by (auto simp: scopes_distinct_def retentions.rows_add retentions.get_None_iff same_scope_def)
next
  case (admin_update k p c p')
  note u = retention_update_cases [OF admin_update(2)]
  from admin_update(1) have "p \<in> set (db_retention d)" by (auto dest: retentions.get_Some)
  have rows: "db_retention d' = map (\<lambda>r. if tp_id r = tp_id p then p' else r) (db_retention d)"
    using u by (simp add: update_retention_def)
  have "tp_id p' = tp_id p" using u by blast
  then have "map tp_id (db_retention d') = map tp_id (db_retention d)" by (simp add: rows)
  then have "distinct (map tp_id (db_retention d'))" using assms(2) by (simp add: scopes_distinct_def)
  moreover have "same_scope a b \<longrightarrow> a = b"
    if "a \<in> set (db_retention d')" "b \<in> set (db_retention d')" for a b
  proof -
    have old: "x = p' \<or> (x \<in> set (db_retention d) \<and> tp_id x \<noteq> tp_id p)" if "x \<in> set (db_retention d')" for x
      using that by (auto simp: rows)
    have sym: "same_scope x y \<longleftrightarrow> same_scope y x" for x y by (auto simp: same_scope_def)
    from old [OF that(1)] old [OF that(2)] show ?thesis
      using u assms(2) sym unfolding scopes_distinct_def by metis
  qed
  moreover have "retention_row_ok a" if "a \<in> set (db_retention d')" for a
  proof -
    have "a = p' \<or> a \<in> set (db_retention d)" using that by (auto simp: rows)
    then show ?thesis using u assms(2) unfolding scopes_distinct_def by blast
  qed
  ultimately show ?thesis unfolding scopes_distinct_def by blast
next
  case (admin_delete k p)
  then have "db_retention d' = filter (\<lambda>q. tp_id q \<noteq> tp_id p) (db_retention d)"
    by (auto simp: retention_delete_def and_then_eq_Inr)
  with assms(2) show ?thesis by (auto simp: scopes_distinct_def distinct_map_filter)
next
  case admin_other
  with assms(2) show ?thesis by (simp add: scopes_distinct_def)
qed

lemma reachable_scopes: "admin_step\<^sup>*\<^sup>* d d' \<Longrightarrow> scopes_distinct d \<Longrightarrow> scopes_distinct d'"
  by (induction rule: rtranclp_induct) (auto intro: admin_step_scopes)

lemma unique_filter_length:
  assumes "distinct xs" and "\<And>p q. p \<in> set xs \<Longrightarrow> q \<in> set xs \<Longrightarrow> P p \<Longrightarrow> P q \<Longrightarrow> p = q"
  shows "length (filter P xs) \<le> 1"
proof (cases "filter P xs")
  case (Cons x ys)
  note xs = Cons
  show ?thesis
  proof (cases ys)
    case (Cons y zs)
    with xs have "x \<in> set (filter P xs)" "y \<in> set (filter P xs)" by auto
    then have "x = y" using assms(2) by auto
    moreover have "distinct (filter P xs)" using assms(1) by simp
    ultimately show ?thesis using xs Cons by simp
  qed (use xs in simp)
qed simp

text \<open>
  C6: As long as policies are written through the administration service, choosing the policy of a
  camera never fails for ambiguity at the camera or at the global level, whatever else happens to
  the database in between.
\<close>

theorem administered_scopes_unambiguous:
  assumes "admin_step\<^sup>*\<^sup>* d d'" and "scopes_distinct d"
  shows "policy_for_camera d' cam \<noteq> Inl (ApiError 409 ''retention_camera_policy_ambiguous'')
    \<and> policy_for_camera d' cam \<noteq> Inl (ApiError 409 ''retention_global_policy_ambiguous'')"
proof -
  from assms have inv: "scopes_distinct d'" by (rule reachable_scopes)
  then have dist: "distinct (db_retention d')" by (auto simp: scopes_distinct_def distinct_map)
  have camera: "length (scoped_policies d' ScopeCamera (\<lambda>s. s = Some cam)) \<le> 1"
    unfolding scoped_policies_def
    by (rule unique_filter_length [OF dist]) (use inv in \<open>auto simp: scopes_distinct_def same_scope_def\<close>)
  have global: "length (scoped_policies d' ScopeGlobal (\<lambda>_. True)) \<le> 1"
    unfolding scoped_policies_def
  proof (rule unique_filter_length [OF dist])
    fix p q
    assume pq: "p \<in> set (db_retention d')" "q \<in> set (db_retention d')"
      "tp_scope_type p = ScopeGlobal \<and> True \<and> tp_enabled p" "tp_scope_type q = ScopeGlobal \<and> True \<and> tp_enabled q"
    have shape: "tp_scope_id r = None" if "r \<in> set (db_retention d')" "tp_scope_type r = ScopeGlobal" for r
      using that inv by (simp add: scopes_distinct_def retention_row_ok_def)
    have "same_scope p q" using pq shape unfolding same_scope_def by metis
    with pq inv show "p = q" by (auto simp: scopes_distinct_def)
  qed
  have single: "single_policy ps code \<noteq> Inl e" if "length ps \<le> 1" for ps code e
    using that by (simp add: single_policy_def)
  have group: "single_policy ps ''retention_group_policy_ambiguous'' = Inl e
      \<Longrightarrow> e = ApiError 409 ''retention_group_policy_ambiguous''" for ps e
    by (auto simp: single_policy_def split: if_splits)
  show ?thesis
    using single [OF camera] single [OF global]
    by (auto simp: policy_for_camera_def and_then_eq_Inl dest!: group split: option.splits if_splits)
qed

definition example_retention_values :: retention_values where
  "example_retention_values = \<lparr>rv_name = '' default '', rv_scope_type = ''GLOBAL'', rv_scope_id = None,
     rv_ordinary = 30, rv_event = 60, rv_manual = 90, rv_mode = ''HARD'', rv_require_archive = True,
     rv_enabled = True\<rparr>"

theorem administered_scopes_unambiguous_witness:
  "\<exists>d. get_retention d 7 \<noteq> None
     \<and> policy_for_camera d 5 \<noteq> Inl (ApiError 409 ''retention_global_policy_ambiguous'')"
proof -
  obtain d p where "retention_create empty_db 7 example_retention_values = Inr (d, p)"
    and got: "get_retention d 7 \<noteq> None"
  proof -
    have "case retention_create empty_db 7 example_retention_values of
        Inl _ \<Rightarrow> False | Inr (d, p) \<Rightarrow> get_retention d 7 \<noteq> None"
      by code_simp
    then show ?thesis using that by (auto split: sum.splits)
  qed
  moreover have "get_retention empty_db 7 = None" by (simp add: get_retention_def empty_db_def)
  ultimately have "admin_step\<^sup>*\<^sup>* empty_db d" by (blast intro: admin_create)
  moreover have "scopes_distinct empty_db" by (simp add: scopes_distinct_def empty_db_def)
  ultimately show ?thesis using administered_scopes_unambiguous got by blast
qed

end
