(* ===== verification/Capacity.thy ===== *)
theory Capacity
  imports Retention Paths
begin

text \<open>
  \<open>modules/storage/capacity.py\<close> (disk watermarks), \<open>modules/storage/recording_resolver.py\<close> (the local
  target of a camera) and the retention reconciliation task of \<open>worker/tasks.py\<close>, which turns disk
  pressure into queued archive and delete tasks.

  \<open>statvfs\<close> is a parameter: blocks, available blocks and fragment size of a path, \<open>None\<close> when the
  call raises OSError. Percentages are exact rationals here; the code divides binary64 numbers,
  which can fall on the other side of an exact tie with a watermark.
\<close>

section \<open>Watermarks\<close>

datatype capacity_level = NormalLevel | WarningLevel | HighLevel | CriticalLevel

record watermarks =
  wm_warning :: int
  wm_high :: int
  wm_critical :: int

record fs_stats =
  fs_blocks :: int
  fs_bavail :: int
  fs_frsize :: int

record capacity =
  ca_total_bytes :: int
  ca_free_bytes :: int
  ca_used_bytes :: int
  ca_used_percent :: rat
  ca_level :: capacity_level
  ca_watermarks :: watermarks

definition watermark_value :: "dict \<Rightarrow> string \<Rightarrow> int \<Rightarrow> int result" where
  "watermark_value config key default_value =
     (case map_of config key of
        None \<Rightarrow> Inr default_value
      | Some (PInt i) \<Rightarrow> Inr i
      | Some _ \<Rightarrow> Inl (ApiError 400 ''storage_watermark_invalid''))"

definition watermarks_of :: "dict \<Rightarrow> watermarks result" where
  "watermarks_of config =
     and_then (watermark_value config ''warning_used_percent'' 80) (\<lambda>warning.
     and_then (watermark_value config ''high_used_percent'' 85) (\<lambda>high.
     and_then (watermark_value config ''critical_used_percent'' 95) (\<lambda>critical.
     if \<not> (1 \<le> warning \<and> warning < high \<and> high < critical \<and> critical \<le> 99)
     then Inl (ApiError 400 ''storage_watermark_invalid'')
     else Inr \<lparr>wm_warning = warning, wm_high = high, wm_critical = critical\<rparr>)))"

definition normalize_config :: "dict \<Rightarrow> dict result" where
  "normalize_config config =
     and_then (watermarks_of config) (\<lambda>w.
     Inr [(''critical_used_percent'', PInt (wm_critical w)), (''high_used_percent'', PInt (wm_high w)),
          (''warning_used_percent'', PInt (wm_warning w))])"

definition level_of :: "watermarks \<Rightarrow> rat \<Rightarrow> capacity_level" where
  "level_of w used_percent =
     (if of_int (wm_critical w) \<le> used_percent then CriticalLevel
      else if of_int (wm_high w) \<le> used_percent then HighLevel
      else if of_int (wm_warning w) \<le> used_percent then WarningLevel
      else NormalLevel)"

definition inspect_capacity :: "(path \<Rightarrow> fs_stats option) \<Rightarrow> path \<Rightarrow> dict \<Rightarrow> capacity result" where
  "inspect_capacity statvfs target_root config =
     and_then (watermarks_of config) (\<lambda>w.
     case statvfs target_root of
       None \<Rightarrow> Inl (ApiError 409 ''storage_target_path_unavailable'')
     | Some stats \<Rightarrow>
         let total_bytes = fs_blocks stats * fs_frsize stats;
             free_bytes = fs_bavail stats * fs_frsize stats
         in if total_bytes \<le> 0 then Inl (ApiError 409 ''storage_capacity_unavailable'')
            else
              let used_bytes = max 0 (total_bytes - free_bytes);
                  used_percent = min 100 (max 0 (of_int used_bytes / of_int total_bytes * 100))
              in Inr \<lparr>ca_total_bytes = total_bytes, ca_free_bytes = free_bytes,
                      ca_used_bytes = used_bytes, ca_used_percent = used_percent,
                      ca_level = level_of w used_percent, ca_watermarks = w\<rparr>)"

definition ensure_write_capacity ::
    "(path \<Rightarrow> fs_stats option) \<Rightarrow> path \<Rightarrow> dict \<Rightarrow> capacity result" where
  "ensure_write_capacity statvfs target_root config =
     and_then (inspect_capacity statvfs target_root config) (\<lambda>c.
     if ca_level c = CriticalLevel then Inl (ApiError 507 ''recording_storage_capacity_critical'') else Inr c)"

lemma normalize_config_watermarks:
  "normalize_config config = Inr config' \<Longrightarrow> watermarks_of config' = watermarks_of config"
  by (auto simp: normalize_config_def watermarks_of_def watermark_value_def and_then_eq_Inr
      split: if_splits)

lemma used_percent_bounds:
  "inspect_capacity statvfs r config = Inr c \<Longrightarrow> 0 \<le> ca_used_percent c \<and> ca_used_percent c \<le> 100"
  by (auto simp: inspect_capacity_def and_then_eq_Inr Let_def split: option.splits if_splits)

section \<open>The local target of a camera\<close>

text \<open>
  \<open>expand\<close> is \<open>expanduser\<close>, \<open>realpath\<close> is \<open>resolve(strict=False)\<close> on an absolute path.
\<close>

record local_target =
  lt_target :: storage_target
  lt_root :: path

definition flagged :: "string \<Rightarrow> storage_target \<Rightarrow> bool" where
  "flagged key t = (case map_of (st_config_json t) key of None \<Rightarrow> False | Some v \<Rightarrow> truthy v)"

definition is_local_recording :: "storage_target \<Rightarrow> bool" where
  "is_local_recording t = (st_type t = LocalTarget \<and> st_role t = RecordingRole)"

definition select_local_target :: "db \<Rightarrow> uuid \<Rightarrow> storage_target result" where
  "select_local_target d cam =
     (case (case policy_of_camera d cam of None \<Rightarrow> None | Some p \<Rightarrow> rp_storage_target_id p) of
        Some k \<Rightarrow> (case get_target d k of
            None \<Rightarrow> Inl (ApiError 409 ''recording_storage_target_missing'')
          | Some t \<Rightarrow> Inr t)
      | None \<Rightarrow>
          let candidates = filter (\<lambda>t. is_local_recording t \<and> st_enabled t) (db_targets d);
              defaults = filter (flagged ''default_recording'') candidates
          in if length defaults = 1 then Inr (hd defaults)
             else if length defaults > 1 then Inl (ApiError 409 ''recording_storage_target_ambiguous'')
             else if length candidates = 1 then Inr (hd candidates)
             else Inl (ApiError 409 ''recording_storage_target_unconfigured''))"

definition local_target_for_camera ::
    "(path \<Rightarrow> path) \<Rightarrow> (path \<Rightarrow> path) \<Rightarrow> db \<Rightarrow> uuid \<Rightarrow> local_target result" where
  "local_target_for_camera expand realpath d cam =
     and_then (select_local_target d cam) (\<lambda>t.
     if \<not> is_local_recording t \<or> \<not> st_enabled t
     then Inl (ApiError 409 ''recording_storage_target_invalid'')
     else (case map_of (st_config_json t) ''path'' of
        Some (PStr raw_path) \<Rightarrow>
          if py_strip raw_path = [] then Inl (ApiError 409 ''recording_storage_path_unconfigured'')
          else let target_root = expand (path_of raw_path) in
            if \<not> is_absolute target_root then Inl (ApiError 409 ''recording_storage_path_invalid'')
            else Inr \<lparr>lt_target = t, lt_root = realpath target_root\<rparr>
      | _ \<Rightarrow> Inl (ApiError 409 ''recording_storage_path_unconfigured'')))"

fun strip_prefix :: "'a list \<Rightarrow> 'a list \<Rightarrow> 'a list option" where
  "strip_prefix [] ys = Some ys"
| "strip_prefix (x # xs) [] = None"
| "strip_prefix (x # xs) (y # ys) = (if x = y then strip_prefix xs ys else None)"

definition relative_object_path ::
    "(path \<Rightarrow> path) \<Rightarrow> (path \<Rightarrow> path) \<Rightarrow> path \<Rightarrow> string \<Rightarrow> path result" where
  "relative_object_path expand realpath target_root file_path =
     (let candidate = expand (path_of file_path) in
      if \<not> is_absolute candidate then Inl (ApiError 422 ''recording_file_path_invalid'')
      else (case strip_prefix target_root (realpath candidate) of
              None \<Rightarrow> Inl (ApiError 422 ''recording_file_outside_target'')
            | Some relative \<Rightarrow>
                if relative = [] then Inl (ApiError 422 ''recording_file_path_invalid'')
                else Inr relative))"

lemma strip_prefix_Some: "strip_prefix xs ys = Some zs \<longleftrightarrow> ys = xs @ zs"
  by (induction xs ys rule: strip_prefix.induct) auto

section \<open>The reconciliation task\<close>

datatype retention_task = ArchiveTask uuid uuid | DeleteTask uuid bool

definition under_pressure :: "(path \<Rightarrow> fs_stats option) \<Rightarrow> storage_target \<Rightarrow> bool" where
  "under_pressure statvfs t =
     (case map_of (st_config_json t) ''path'' of
        Some (PStr raw_path) \<Rightarrow>
          raw_path \<noteq> []
          \<and> (case inspect_capacity statvfs (path_of raw_path) (st_config_json t) of
               Inl _ \<Rightarrow> False | Inr c \<Rightarrow> ca_level c = HighLevel \<or> ca_level c = CriticalLevel)
      | _ \<Rightarrow> False)"

definition pressure_targets :: "(path \<Rightarrow> fs_stats option) \<Rightarrow> db \<Rightarrow> bool \<Rightarrow> uuid list" where
  "pressure_targets statvfs d pressure =
     (if pressure then []
      else map st_id (filter (\<lambda>t. is_local_recording t \<and> st_enabled t \<and> under_pressure statvfs t)
             (db_targets d)))"

definition task_of :: "bool \<Rightarrow> decision \<Rightarrow> retention_task list" where
  "task_of pressure x =
     (case rd_archive_target_id x of
        Some target \<Rightarrow> [ArchiveTask (rd_segment_id x) target]
      | None \<Rightarrow> if rd_eligible x then [DeleteTask (rd_location_id x) (pressure \<or> rd_pressure_override x)]
               else [])"

definition run_retention_reconciliation ::
    "(path \<Rightarrow> fs_stats option) \<Rightarrow> db \<Rightarrow> instant \<Rightarrow> bool \<Rightarrow> retention_task list result" where
  "run_retention_reconciliation statvfs d now pressure =
     and_then (actionable_plan d now pressure (pressure_targets statvfs d pressure) 500 500 5000) (\<lambda>b.
     Inr (concat (map (task_of pressure) (ba_decisions b))))"

text \<open>Every decision of a batch is the evaluation of one of the candidates.\<close>

lemma scan_page_mem:
  "x \<in> set (fst (scan_page em limit page (acts, keys, blocked))) \<Longrightarrow> x \<in> set acts \<or> x \<in> set page"
proof (induction em limit page "(acts, keys, blocked)" arbitrary: acts keys blocked rule: scan_page.induct)
  case (2 em limit y page acts keys blocked)
  then show ?case
    by (auto simp: Let_def split: option.splits if_splits)
qed simp

definition evaluated :: "db \<Rightarrow> instant \<Rightarrow> bool \<Rightarrow> uuid list \<Rightarrow> decision \<Rightarrow> bool" where
  "evaluated d now pressure pressured x \<longleftrightarrow>
     (\<exists>l \<in> set (plan_candidates d). evaluate_pressured d now pressure pressured l = Inr x)"

lemma plan_evaluated:
  assumes "plan d now pressure pressured limit offset = Inr page" and "x \<in> set page"
  shows "evaluated d now pressure pressured x"
  using assms
  by (auto simp: plan_def evaluated_def split: if_splits dest!: map_result_memD in_set_takeD in_set_dropD)

lemma scan_pages_step:
  "scan_pages d now pressure pressured page_size action_limit scan_limit st scanned offset =
    (let em = (pressure \<or> pressured \<noteq> []);
         lim = (if em then min page_size (scan_limit - scanned) else page_size) in
     if em \<and> scan_limit \<le> scanned then Inr (fst st, scanned, snd (snd st))
     else (case plan d now pressure pressured lim offset of
             Inl e \<Rightarrow> Inl e
           | Inr page \<Rightarrow>
               if page = [] then Inr (fst st, scanned, snd (snd st))
               else let st' = scan_page em action_limit page st; n = scanned + int (length page) in
                 if int (length page) < lim \<or> (\<not> em \<and> action_limit \<le> int (length (fst st')))
                 then Inr (fst st', n, snd (snd st'))
                 else scan_pages d now pressure pressured page_size action_limit scan_limit st' n
                        (offset + int (length page))))"
  by (subst scan_pages.simps) (simp add: Let_def split: prod.splits sum.splits)

lemma scan_pages_evaluated:
  assumes "scan_pages d now pressure pressured page_size action_limit scan_limit st scanned offset
      = Inr (acts, n, b)"
    and "\<forall>x \<in> set (fst st). evaluated d now pressure pressured x" and "x \<in> set acts"
  shows "evaluated d now pressure pressured x"
  using assms(1,2)
proof (induction "nat (int (length (plan_candidates d)) - offset)" arbitrary: st scanned offset
    rule: less_induct)
  case less
  define em where "em \<longleftrightarrow> pressure \<or> pressured \<noteq> []"
  define lim where "lim = (if em then min page_size (scan_limit - scanned) else page_size)"
  note step = scan_pages_step [of d now pressure pressured page_size action_limit scan_limit st scanned offset,
      folded em_def, unfolded Let_def, folded em_def lim_def]
  show ?case
  proof (cases "(em \<and> scan_limit \<le> scanned) \<or> plan d now pressure pressured lim offset = Inr []")
    case True
    then have "acts = fst st" using less.prems(1) unfolding step by (auto split: if_splits)
    then show ?thesis using less.prems(2) assms(3) by blast
  next
    case False
    then obtain page where page: "plan d now pressure pressured lim offset = Inr page" "page \<noteq> []"
      using less.prems(1) unfolding step by (auto split: sum.splits if_splits)
    define st' where "st' = scan_page em action_limit page st"
    have st': "\<forall>y \<in> set (fst st'). evaluated d now pressure pressured y"
    proof
      fix y
      assume "y \<in> set (fst st')"
      then have "y \<in> set (fst st) \<or> y \<in> set page"
        using scan_page_mem [of y em action_limit page "fst st" "fst (snd st)" "snd (snd st)"]
        by (simp add: st'_def)
      then show "evaluated d now pressure pressured y"
        using less.prems(2) plan_evaluated [OF page(1)] by blast
    qed
    have next_page: "nat (int (length (plan_candidates d)) - (offset + int (length page)))
        < nat (int (length (plan_candidates d)) - offset)"
      using plan_page_offset [OF page] page(2) by simp
    have "acts = fst st' \<or> scan_pages d now pressure pressured page_size action_limit scan_limit st'
        (scanned + int (length page)) (offset + int (length page)) = Inr (acts, n, b)"
      using less.prems(1) False page unfolding step st'_def by (auto split: if_splits)
    then show ?thesis using less.hyps [OF next_page _ st'] st' assms(3) by blast
  qed
qed

lemma batch_evaluated:
  assumes "actionable_plan d now pressure pressured page_size action_limit scan_limit = Inr b"
    and "x \<in> set (ba_decisions b)"
  shows "evaluated d now pressure pressured x"
proof -
  from assms(1) obtain acts n bl where
    "scan_pages d now pressure pressured page_size action_limit scan_limit ([], [], 0) 0 0 = Inr (acts, n, bl)"
    and "ba_decisions b = take (nat action_limit)
      (if pressure \<or> pressured \<noteq> [] then sort_key emergency_priority acts else acts)"
    by (auto simp: actionable_plan_def and_then_eq_Inr Let_def split: if_splits)
  moreover from this assms(2) have "x \<in> set acts" by (auto dest: in_set_takeD split: if_splits)
  ultimately show ?thesis by (intro scan_pages_evaluated [of d now pressure pressured]) auto
qed

text \<open>The override flag says whether pressure was needed.\<close>

lemma evaluate_under_approved:
  assumes "evaluate_under d l s p now pressure = Inr x" and "rd_eligible x"
  shows "\<exists>t. hz_deadline (retention_horizon d s p) = Some t \<and> \<not> protected_at d s now
    \<and> \<not> hz_active_event (retention_horizon d s p)
    \<and> (rd_pressure_override x \<longleftrightarrow> pressure \<and> tp_mode p = BestEffort
          \<and> hz_class (retention_horizon d s p) = Ordinary \<and> now < t)
    \<and> (now < t \<longrightarrow> rd_pressure_override x)
    \<and> (tp_require_archive_before_delete p \<longrightarrow> available_archive_exists d (sg_id s))
    \<and> x = (refuse (lo_id l) (sg_id s) (Some (tp_id p)) (hz_class (retention_horizon d s p)) (Some t) ''eligible'')
        \<lparr>rd_eligible := True, rd_pressure_override := rd_pressure_override x,
         rd_verified_archive := available_archive_exists d (sg_id s)\<rparr>"
  using assms
  by (cases "hz_deadline (retention_horizon d s p)")
    (auto simp: evaluate_under_def Let_def refuse_def split: if_splits)

lemma evaluate_without_override:
  assumes "evaluate d l now pressure = Inr x" and "rd_eligible x"
  shows "evaluate d l now (rd_pressure_override x) = Inr x"
proof -
  from assms obtain s where s: "get_segment d (lo_recording_segment_id l) = Some s"
    by (auto simp: evaluate_def refuse_def split: option.splits)
  from assms s obtain p where p: "local_recording d l" "lo_state l = Available" "sg_timing_status s = Final"
    "policy_for_camera d (sg_camera_id s) = Inr (Some p)" "evaluate_under d l s p now pressure = Inr x"
    by (auto simp: evaluate_def refuse_def and_then_eq_Inr split: option.splits if_splits)
  have "evaluate_under d l s p now (rd_pressure_override x) = Inr x"
    using evaluate_under_approved [OF p(5) assms(2)]
    by (elim exE conjE) (simp add: evaluate_under_def Let_def refuse_def)
  then show ?thesis using s p by (simp add: evaluate_def)
qed

lemma evaluate_under_location:
  "evaluate_under d l s p now pressure = Inr x \<Longrightarrow> rd_location_id x = lo_id l"
  by (cases "hz_deadline (retention_horizon d s p)")
    (auto simp: evaluate_under_def refuse_def Let_def split: if_splits)

lemma evaluate_location: "evaluate d l now pressure = Inr x \<Longrightarrow> rd_location_id x = lo_id l"
  by (auto simp: evaluate_def refuse_def and_then_eq_Inr dest: evaluate_under_location
      split: option.splits if_splits)

lemma evaluate_pressure_mono:
  assumes "evaluate d l now False = Inr x" and "rd_eligible x"
  shows "\<exists>y. evaluate d l now True = Inr y \<and> rd_eligible y"
  using assms evaluate_eligible [of d l now False] evaluate_eligible [of d l now True] by blast

text \<open>
  C5: A deletion the reconciliation task queues is not lost: the queued flag is enough for the
  deletion service to approve the same copy again on the same database, although the service sees
  the flag instead of the set of targets under pressure.
\<close>

theorem queued_deletion_reapproved:
  assumes "run_retention_reconciliation statvfs d now pressure = Inr tasks"
    and "DeleteTask k flag \<in> set tasks"
  shows "\<exists>l x. l \<in> set (plan_candidates d) \<and> lo_id l = k \<and> evaluate d l now flag = Inr x \<and> rd_eligible x"
proof -
  let ?pressured = "pressure_targets statvfs d pressure"
  from assms obtain b x where b: "actionable_plan d now pressure ?pressured 500 500 5000 = Inr b"
    and x: "x \<in> set (ba_decisions b)" "DeleteTask k flag \<in> set (task_of pressure x)"
    by (auto simp: run_retention_reconciliation_def and_then_eq_Inr)
  from batch_evaluated [OF b x(1)] obtain l where l: "l \<in> set (plan_candidates d)"
    and ev: "evaluate d l now (pressure \<or> lo_storage_target_id l \<in> set ?pressured) = Inr x"
    by (auto simp: evaluated_def evaluate_pressured_def)
  from x(2) have el: "rd_eligible x" and k: "k = rd_location_id x"
    and flag: "flag = (pressure \<or> rd_pressure_override x)"
    by (auto simp: task_of_def split: option.splits if_splits)
  have "rd_location_id x = lo_id l"
    using ev by (rule evaluate_location)
  then have id: "lo_id l = k" using k by simp
  have "\<exists>y. evaluate d l now flag = Inr y \<and> rd_eligible y"
  proof (cases "flag")
    case True
    then show ?thesis
      using evaluate_without_override [OF ev el] evaluate_pressure_mono [of d l now x] el ev flag
      by (cases "rd_pressure_override x") auto
  next
    case False
    then show ?thesis using evaluate_without_override [OF ev el] el flag by auto
  qed
  then show ?thesis using l id by blast
qed

text \<open>
  Recording is refused exactly when the disk is at or above the critical watermark: a successful
  inspection is passed on below it and turned into the capacity error at or above it, and the level
  is the highest watermark reached.
\<close>

theorem write_capacity_guard:
  assumes "inspect_capacity statvfs target_root config = Inr c"
  shows "ensure_write_capacity statvfs target_root config =
      (if of_int (wm_critical (ca_watermarks c)) \<le> ca_used_percent c
       then Inl (ApiError 507 ''recording_storage_capacity_critical'') else Inr c)
    \<and> (ca_level c = NormalLevel \<longleftrightarrow> ca_used_percent c < of_int (wm_warning (ca_watermarks c)))
    \<and> (ca_level c = WarningLevel \<longleftrightarrow> of_int (wm_warning (ca_watermarks c)) \<le> ca_used_percent c
         \<and> ca_used_percent c < of_int (wm_high (ca_watermarks c)))
    \<and> (ca_level c = HighLevel \<longleftrightarrow> of_int (wm_high (ca_watermarks c)) \<le> ca_used_percent c
         \<and> ca_used_percent c < of_int (wm_critical (ca_watermarks c)))"
proof -
  define w u where "w = ca_watermarks c" and "u = ca_used_percent c"
  from assms have level: "ca_level c = level_of w u" and w: "watermarks_of config = Inr w"
    by (auto simp: inspect_capacity_def and_then_eq_Inr Let_def w_def u_def split: option.splits if_splits)
  from w have order: "wm_warning w < wm_high w" "wm_high w < wm_critical w"
    by (auto simp: watermarks_of_def and_then_eq_Inr split: if_splits)
  then have "(of_int (wm_warning w) :: rat) < of_int (wm_high w)"
    "(of_int (wm_high w) :: rat) < of_int (wm_critical w)" by simp_all
  then show ?thesis
    using assms unfolding ensure_write_capacity_def w_def [symmetric] u_def [symmetric] level
    by (auto simp: level level_of_def)
qed

definition example_stats :: "path \<Rightarrow> fs_stats option" where
  "example_stats _ = Some \<lparr>fs_blocks = 100, fs_bavail = 10, fs_frsize = 4096\<rparr>"

lemma example_run:
  "run_retention_reconciliation example_stats example_media_db (days 1) False = Inr [DeleteTask 30 True]"
  by code_simp

theorem queued_deletion_reapproved_witness:
  "\<exists>l x. lo_id l = 30 \<and> evaluate example_media_db l (days 1) True = Inr x \<and> rd_eligible x"
  using queued_deletion_reapproved [OF example_run, of 30 True] by auto

theorem write_capacity_guard_witness:
  "map_sum id ca_level (ensure_write_capacity example_stats [''/''] []) = Inr HighLevel"
proof -
  have "inspect_capacity example_stats [''/''] [] = Inr \<lparr>ca_total_bytes = 409600, ca_free_bytes = 40960,
      ca_used_bytes = 368640, ca_used_percent = 90, ca_level = HighLevel,
      ca_watermarks = \<lparr>wm_warning = 80, wm_high = 85, wm_critical = 95\<rparr>\<rparr>"
    by code_simp
  from write_capacity_guard [OF this] show ?thesis by simp
qed

end
