(* ===== verification/Redaction.thy ===== *)
theory Redaction
  imports Prelude
begin

text \<open>
  \<open>core/security/redaction.py\<close>: secrets are removed from metadata before it is stored or shown. The
  regular expressions are written out as matchers on ASCII text: a matcher gets the character
  before the position and the text from it on, and answers the replacement and the number of
  characters matched. \<open>SecretStr\<close> values do not occur in a JSON document and are left out.
\<close>

section \<open>Characters and words\<close>

definition is_alpha :: "char \<Rightarrow> bool" where
  "is_alpha c = ((65 \<le> code_of c \<and> code_of c \<le> 90) \<or> (97 \<le> code_of c \<and> code_of c \<le> 122))"

definition is_word :: "char \<Rightarrow> bool" where
  "is_word c = (is_alpha c \<or> (48 \<le> code_of c \<and> code_of c \<le> 57) \<or> code_of c = 95)"

definition code_in :: "nat list \<Rightarrow> char \<Rightarrow> bool" where
  "code_in codes c = (code_of c \<in> set codes)"

definition starts_word :: "string \<Rightarrow> string \<Rightarrow> bool" where
  "starts_word w s = (py_lower (take (length w) s) = w)"

fun contains_word :: "string \<Rightarrow> string \<Rightarrow> bool" where
  "contains_word w [] = starts_word w []"
| "contains_word w (c # cs) = (starts_word w (c # cs) \<or> contains_word w cs)"

text \<open>The alternatives of \<open>[_-]?\<close> between two words.\<close>

definition joined :: "string \<Rightarrow> string \<Rightarrow> string list" where
  "joined a b = [a @ ''_'' @ b, a @ ''-'' @ b, a @ b]"

definition secret_words :: "string list" where
  "secret_words =
     [''password'', ''passwd'', ''secret'', ''token'', ''credential'', ''authorization'']
     @ joined ''api'' ''key'' @ joined ''client'' ''secret'' @ joined ''access'' ''key''
     @ joined ''private'' ''key''"

definition is_sensitive_key :: "string \<Rightarrow> bool" where
  "is_sensitive_key k = list_ex (\<lambda>w. contains_word w k) (secret_words @ [''cookie'', ''session''])"

section \<open>Substitution\<close>

type_synonym matcher = "char option \<Rightarrow> string \<Rightarrow> (string \<times> nat) option"

fun sub_all :: "matcher \<Rightarrow> char option \<Rightarrow> nat \<Rightarrow> string \<Rightarrow> string" where
  "sub_all m prev skip [] = []"
| "sub_all m prev (Suc skip) (c # cs) = sub_all m (Some c) skip cs"
| "sub_all m prev 0 (c # cs) =
     (case m prev (c # cs) of
        Some (replacement, n) \<Rightarrow> replacement @ sub_all m (Some c) (n - 1) cs
      | None \<Rightarrow> c # sub_all m (Some c) 0 cs)"

definition pattern_sub :: "matcher \<Rightarrow> string \<Rightarrow> string" where
  "pattern_sub m s = sub_all m None 0 s"

text \<open>A word boundary before a word character.\<close>

definition at_boundary :: "char option \<Rightarrow> bool" where
  "at_boundary prev = (case prev of None \<Rightarrow> True | Some p \<Rightarrow> \<not> is_word p)"

definition spaces :: "string \<Rightarrow> nat" where
  "spaces s = length (takeWhile is_space s)"

text \<open>\<open>_URL_USERINFO\<close>: scheme, \<open>://\<close>, user information, \<open>@\<close>.\<close>

definition match_userinfo :: matcher where
  "match_userinfo prev s =
     (let scheme = takeWhile (\<lambda>c. is_alpha c \<or> (48 \<le> code_of c \<and> code_of c \<le> 57) \<or> code_in [43, 46, 45] c) s;
          rest = drop (length scheme) s;
          user = takeWhile (\<lambda>c. \<not> (code_in [47, 64] c \<or> is_space c)) (drop 3 rest);
          tail = drop (3 + length user) rest
      in if s \<noteq> [] \<and> is_alpha (hd s) \<and> take 3 rest = ''://'' \<and> user \<noteq> [] \<and> take 1 tail = ''@''
         then Some (scheme @ ''://***:***@'', length scheme + 3 + length user + 1) else None)"

text \<open>
  \<open>\s*[:=]\s*[^...]+\<close> after a header name: where the value would be empty, the second \<open>\s*\<close> gives back
  its last character that the value may start with.
\<close>

definition match_header_value :: "(char \<Rightarrow> bool) \<Rightarrow> string \<Rightarrow> nat option" where
  "match_header_value value_char s =
     (let a = spaces s; rest = drop a s
      in if rest = [] \<or> \<not> code_in [58, 61] (hd rest) then None
         else let b = spaces (tl rest);
                  v = length (takeWhile value_char (drop (1 + b) rest));
                  back = length (dropWhile (\<lambda>c. \<not> value_char c) (rev (take b (tl rest))))
              in if v > 0 then Some (a + 1 + b + v)
                 else if back > 0 then Some (a + 1 + back) else None)"

definition match_auth_header :: matcher where
  "match_auth_header prev s =
     (if at_boundary prev \<and> starts_word ''authorization'' s
      then map_option (\<lambda>n. (''Authorization: ***'', 13 + n))
             (match_header_value (\<lambda>c. \<not> code_in [13, 10, 44, 59] c) (drop 13 s))
      else None)"

definition match_cookie_header :: matcher where
  "match_cookie_header prev s =
     (if at_boundary prev \<and> starts_word ''cookie'' s
      then map_option (\<lambda>n. (''Cookie: ***'', 6 + n)) (match_header_value (\<lambda>c. \<not> code_in [13, 10] c) (drop 6 s))
      else if at_boundary prev \<and> starts_word ''set-cookie'' s
      then map_option (\<lambda>n. (''Cookie: ***'', 10 + n)) (match_header_value (\<lambda>c. \<not> code_in [13, 10] c) (drop 10 s))
      else None)"

definition match_bearer :: matcher where
  "match_bearer prev s =
     (let a = spaces (drop 6 s);
          v = length (takeWhile (\<lambda>c. \<not> (is_space c \<or> code_in [44, 59] c)) (drop (6 + a) s))
      in if at_boundary prev \<and> starts_word ''bearer'' s \<and> a > 0 \<and> v > 0
         then Some (''Bearer ***'', 6 + a + v) else None)"

text \<open>The value of \<open>_KEY_VALUE\<close>: a closed quoted text, otherwise a run of plain characters.\<close>

definition quoted_value :: "nat \<Rightarrow> string \<Rightarrow> nat option" where
  "quoted_value quote s =
     (let body = takeWhile (\<lambda>c. code_of c \<noteq> quote) (tl s)
      in if s \<noteq> [] \<and> code_of (hd s) = quote \<and> length body < length (tl s) then Some (length body + 2) else None)"

definition plain_value :: "string \<Rightarrow> nat option" where
  "plain_value s =
     (let v = length (takeWhile (\<lambda>c. \<not> (is_space c \<or> code_in [44, 59, 38] c)) s)
      in if v > 0 then Some v else None)"

definition match_value :: "string \<Rightarrow> nat option" where
  "match_value s =
     (case quoted_value 34 s of
        Some n \<Rightarrow> Some n
      | None \<Rightarrow> (case quoted_value 39 s of Some n \<Rightarrow> Some n | None \<Rightarrow> plain_value s))"

definition match_key :: "string \<Rightarrow> string \<Rightarrow> (string \<times> nat) option" where
  "match_key quote s =
     (case find (\<lambda>w. starts_word w s) secret_words of
        None \<Rightarrow> None
      | Some w \<Rightarrow>
          let key = take (length w) s;
              t = drop (length w) s;
              u = drop (length quote) t;
              a = spaces u;
              b = spaces (drop (a + 1) u);
              sep = take (a + 1 + b) u
          in if take (length quote) t \<noteq> quote \<or> drop a u = [] \<or> \<not> code_in [58, 61] (hd (drop a u)) then None
             else map_option (\<lambda>n. (quote @ key @ quote @ sep @ ''***'',
                    2 * length quote + length w + length sep + n)) (match_value (drop (a + 1 + b) u)))"

definition match_key_value :: matcher where
  "match_key_value prev s =
     (if \<not> at_boundary prev \<or> s = [] then None
      else if code_in [34, 39] (hd s) then match_key [hd s] (tl s)
      else match_key [] s)"

definition redact_text :: "string \<Rightarrow> string" where
  "redact_text s =
     pattern_sub match_key_value (pattern_sub match_bearer (pattern_sub match_cookie_header
       (pattern_sub match_auth_header (pattern_sub match_userinfo s))))"

fun redact_value :: "pyobj \<Rightarrow> pyobj" where
  "redact_value (PDict d) =
     PDict (map (\<lambda>(k, v). (k, if is_sensitive_key k then PStr ''***'' else redact_value v)) d)"
| "redact_value (PList xs) = PList (map redact_value xs)"
| "redact_value (PStr s) = PStr (redact_text s)"
| "redact_value v = v"

definition redact_dict :: "dict \<Rightarrow> dict" where
  "redact_dict d = map (\<lambda>(k, v). (k, if is_sensitive_key k then PStr ''***'' else redact_value v)) d"

section \<open>What redaction guarantees\<close>

text \<open>No value below a sensitive key is left, at any depth.\<close>

fun clean :: "pyobj \<Rightarrow> bool" where
  "clean (PDict d) = list_all (\<lambda>(k, v). if is_sensitive_key k then v = PStr ''***'' else clean v) d"
| "clean (PList xs) = list_all clean xs"
| "clean v = True"

definition clean_dict :: "dict \<Rightarrow> bool" where
  "clean_dict d = list_all (\<lambda>(k, v). if is_sensitive_key k then v = PStr ''***'' else clean v) d"

lemma redact_value_clean: "clean (redact_value v)"
  by (induction v rule: redact_value.induct) (auto simp: list_all_iff split: if_splits)

lemma redact_dict_clean: "clean_dict (redact_dict d)"
  by (auto simp: clean_dict_def redact_dict_def list_all_iff redact_value_clean)

lemma redact_dict_keys: "map fst (redact_dict d) = map fst d"
  by (simp add: redact_dict_def o_def split_beta)

lemma redact_value_dict: "redact_value (PDict d) = PDict (redact_dict d)"
  by (simp add: redact_dict_def)

text \<open>
  Redaction leaves nothing behind. In a redacted document every value under a sensitive key, at any
  depth and below lists as well, is the placeholder, and the keys of an object are all still there.
\<close>

theorem redaction_hides:
  "clean (redact_value v) \<and> redact_value (PDict d) = PDict (redact_dict d) \<and> map fst (redact_dict d) = map fst d
   \<and> clean_dict (redact_dict d)"
  by (simp only: redact_value_clean redact_value_dict redact_dict_keys redact_dict_clean simp_thms)

end
