(* ===== verification/Events.thy ===== *)
theory Events
  imports Model Redaction
begin

text \<open>
  \<open>modules/events/service.py\<close> and the redaction hook of \<open>modules/events/models.py\<close>: events reported by
  providers (cameras, Frigate) are stored once per provider identity. The id of a new event is the
  \<open>uuid4()\<close> argument; the caller rolls the transaction back when an error is raised.
\<close>

section \<open>The table\<close>

definition get_event :: "db \<Rightarrow> uuid \<Rightarrow> event_row option" where
  "get_event d k = find (\<lambda>r. ev_id r = k) (db_events d)"

text \<open>
  A flush of a new or changed event: the listener redacts its metadata before the row is written.
\<close>

definition redacted :: "event_row \<Rightarrow> event_row" where
  "redacted e = e\<lparr>ev_metadata_json := redact_dict (ev_metadata_json e)\<rparr>"

definition add_event :: "event_row \<Rightarrow> db \<Rightarrow> db" where
  "add_event e d = d\<lparr>db_events := db_events d @ [e]\<rparr>"

definition update_event :: "uuid \<Rightarrow> (event_row \<Rightarrow> event_row) \<Rightarrow> db \<Rightarrow> db" where
  "update_event k f d = d\<lparr>db_events := map (\<lambda>r. if ev_id r = k then f r else r) (db_events d)\<rparr>"

interpretation events: keyed_table db_events ev_id get_event add_event update_event
  by unfold_locales (simp_all add: get_event_def add_event_def update_event_def)

section \<open>The service\<close>

record event_ingest =
  ei_source :: string
  ei_category :: string
  ei_started_at :: py_datetime
  ei_source_instance_id :: "string option"
  ei_source_event_id :: "string option"
  ei_camera_id :: "uuid option"
  ei_label :: "string option"
  ei_ended_at :: "py_datetime option"
  ei_confidence :: "rat option"
  ei_severity :: "string option"
  ei_zone :: "string option"
  ei_snapshot_ref :: "string option"
  ei_correlation_id :: "string option"
  ei_metadata :: dict

record event_upsert =
  eu_event :: event_row
  eu_created :: bool

definition event_text :: "string option \<Rightarrow> bool \<Rightarrow> nat option \<Rightarrow> string option result" where
  "event_text v required max_length =
     (case v of
        None \<Rightarrow> if required then Inl (ApiError 422 ''event_field_required'') else Inr None
      | Some s \<Rightarrow>
          let normalized = py_strip s
          in if required \<and> normalized = [] then Inl (ApiError 422 ''event_field_required'')
             else if normalized = [] then Inr None
             else if (case max_length of None \<Rightarrow> False | Some n \<Rightarrow> n < length normalized)
             then Inl (ApiError 422 ''event_field_too_long'')
             else Inr (Some normalized))"

record event_key =
  ek_source :: string
  ek_category :: string
  ek_instance :: "string option"
  ek_event :: "string option"

definition event_key_of :: "event_ingest \<Rightarrow> event_key result" where
  "event_key_of item =
     and_then (event_text (Some (ei_source item)) True (Some 64)) (\<lambda>source.
     and_then (event_text (Some (ei_category item)) True (Some 64)) (\<lambda>category.
     and_then (event_text (ei_source_instance_id item) False (Some 256)) (\<lambda>instance_id.
     and_then (event_text (ei_source_event_id item) False (Some 512)) (\<lambda>event_id.
     and_then (require (event_id = None \<or> instance_id \<noteq> None) (ApiError 422 ''event_source_instance_required'')) (\<lambda>_.
     Inr \<lparr>ek_source = the source, ek_category = the category, ek_instance = instance_id, ek_event = event_id\<rparr>)))))"

definition event_range :: "event_ingest \<Rightarrow> (instant \<times> instant option) result" where
  "event_range item =
     and_then (require_utc (ei_started_at item) ''event_timezone_required'') (\<lambda>started_at.
     and_then (optional_utc (ei_ended_at item) ''event_timezone_required'') (\<lambda>ended_at.
     and_then (require (case ended_at of None \<Rightarrow> True | Some e \<Rightarrow> started_at \<le> e)
                 (ApiError 422 ''event_time_range_invalid'')) (\<lambda>_.
     Inr (started_at, ended_at))))"

definition existing_event :: "db \<Rightarrow> event_key \<Rightarrow> event_row option" where
  "existing_event d key =
     (case ek_event key of
        None \<Rightarrow> None
      | Some k \<Rightarrow> find (\<lambda>e. ev_source e = ek_source key \<and> ev_source_instance_id e = ek_instance key
                          \<and> ev_source_event_id e = Some k) (db_events d))"

definition camera_agrees :: "event_row option \<Rightarrow> uuid option \<Rightarrow> unit result" where
  "camera_agrees existing camera_id =
     require (case existing of None \<Rightarrow> True
              | Some e \<Rightarrow> ev_camera_id e = None \<or> camera_id = None \<or> ev_camera_id e = camera_id)
       (ApiError 409 ''event_camera_identity_conflict'')"

text \<open>The texts of a report that only describe it.\<close>

record event_texts =
  et_label :: "string option"
  et_severity :: "string option"
  et_zone :: "string option"
  et_snapshot_ref :: "string option"
  et_correlation_id :: "string option"

definition event_texts_of :: "event_ingest \<Rightarrow> event_texts result" where
  "event_texts_of item =
     and_then (event_text (ei_label item) False (Some 128)) (\<lambda>label.
     and_then (event_text (ei_severity item) False (Some 32)) (\<lambda>severity.
     and_then (event_text (ei_zone item) False (Some 128)) (\<lambda>zone.
     and_then (event_text (ei_snapshot_ref item) False None) (\<lambda>snapshot_ref.
     and_then (event_text (ei_correlation_id item) False (Some 128)) (\<lambda>correlation_id.
     Inr \<lparr>et_label = label, et_severity = severity, et_zone = zone, et_snapshot_ref = snapshot_ref,
          et_correlation_id = correlation_id\<rparr>)))))"

text \<open>The row a report writes, over the row its identity already has.\<close>

definition reported_row ::
    "uuid \<Rightarrow> event_ingest \<Rightarrow> event_key \<Rightarrow> instant \<times> instant option \<Rightarrow> event_texts \<Rightarrow> event_row option \<Rightarrow> event_row" where
  "reported_row event_id item key period texts existing =
     redacted \<lparr>ev_id = (case existing of None \<Rightarrow> event_id | Some x \<Rightarrow> ev_id x), ev_source = ek_source key,
       ev_source_instance_id = ek_instance key, ev_source_event_id = ek_event key,
       ev_camera_id = (case ei_camera_id item of None \<Rightarrow> (case existing of None \<Rightarrow> None | Some x \<Rightarrow> ev_camera_id x)
                       | Some c \<Rightarrow> Some c),
       ev_category = ek_category key, ev_label = et_label texts, ev_started_at = fst period, ev_ended_at = snd period,
       ev_confidence = ei_confidence item, ev_severity = et_severity texts, ev_zone = et_zone texts,
       ev_snapshot_ref = et_snapshot_ref texts, ev_correlation_id = et_correlation_id texts,
       ev_metadata_json = redact_dict (ei_metadata item)\<rparr>"

definition confidence_ok :: "rat option \<Rightarrow> bool" where
  "confidence_ok c = (case c of None \<Rightarrow> True | Some x \<Rightarrow> 0 \<le> x \<and> x \<le> 1)"

definition camera_known :: "db \<Rightarrow> uuid option \<Rightarrow> bool" where
  "camera_known d c = (case c of None \<Rightarrow> True | Some k \<Rightarrow> get_camera d k \<noteq> None)"

definition upsert_event :: "db \<Rightarrow> uuid \<Rightarrow> event_ingest \<Rightarrow> (db \<times> event_upsert) result" where
  "upsert_event d event_id item =
     and_then (event_key_of item) (\<lambda>key.
     and_then (event_range item) (\<lambda>period.
     and_then (require (confidence_ok (ei_confidence item)) (ApiError 422 ''event_confidence_invalid'')) (\<lambda>_.
     and_then (require (camera_known d (ei_camera_id item)) (ApiError 422 ''event_camera_unknown'')) (\<lambda>_.
     let existing = existing_event d key in
     and_then (camera_agrees existing (ei_camera_id item)) (\<lambda>_.
     and_then (event_texts_of item) (\<lambda>texts.
     let e = reported_row event_id item key period texts existing
     in Inr (case existing of None \<Rightarrow> add_event e d | Some x \<Rightarrow> update_event (ev_id x) (\<lambda>_. e) d,
             \<lparr>eu_event = e, eu_created = (existing = None)\<rparr>)))))))"

section \<open>Well-formed event tables\<close>

definition event_identity :: "event_row \<Rightarrow> string \<times> string option \<times> string option" where
  "event_identity e = (ev_source e, ev_source_instance_id e, ev_source_event_id e)"

definition event_row_ok :: "event_row \<Rightarrow> bool" where
  "event_row_ok e \<longleftrightarrow>
     (case ev_ended_at e of None \<Rightarrow> True | Some x \<Rightarrow> ev_started_at e \<le> x)
     \<and> confidence_ok (ev_confidence e)
     \<and> (ev_source_event_id e = None \<or> ev_source_instance_id e \<noteq> None)
     \<and> clean_dict (ev_metadata_json e)"

definition identified :: "event_row \<Rightarrow> bool" where
  "identified e = (ev_source_event_id e \<noteq> None)"

definition events_ok :: "db \<Rightarrow> bool" where
  "events_ok d \<longleftrightarrow>
     distinct (map ev_id (db_events d)) \<and> distinct (map event_identity (filter identified (db_events d)))
     \<and> (\<forall>e \<in> set (db_events d). event_row_ok e)"

lemma events_okD:
  assumes "events_ok d"
  shows "distinct (map ev_id (db_events d))" "distinct (map event_identity (filter identified (db_events d)))"
    "\<And>e. e \<in> set (db_events d) \<Longrightarrow> event_row_ok e"
  using assms by (simp_all add: events_ok_def)

lemma redacted_simps [simp]:
  "ev_id (redacted e) = ev_id e" "ev_source (redacted e) = ev_source e" "ev_source_instance_id (redacted e) = ev_source_instance_id e"
  "ev_source_event_id (redacted e) = ev_source_event_id e" "ev_camera_id (redacted e) = ev_camera_id e"
  "ev_category (redacted e) = ev_category e" "ev_label (redacted e) = ev_label e" "ev_started_at (redacted e) = ev_started_at e"
  "ev_ended_at (redacted e) = ev_ended_at e" "ev_confidence (redacted e) = ev_confidence e"
  "clean_dict (ev_metadata_json (redacted e))" "identified (redacted e) = identified e"
  "event_identity (redacted e) = event_identity e"
  by (simp_all add: redacted_def redact_dict_clean identified_def event_identity_def)

text \<open>Adding a row with a free id and identity, and rewriting a row in place, keep the table.\<close>

lemma add_event_ok:
  assumes "events_ok d" and "get_event d (ev_id e) = None" and "event_row_ok e"
    and "identified e \<Longrightarrow> event_identity e \<notin> event_identity ` set (filter identified (db_events d))"
  shows "events_ok (add_event e d)"
  using assms by (auto simp: events_ok_def add_event_def events.get_None_iff)

lemma rewrite_event_rows:
  assumes "distinct (map ev_id es)" and "x \<in> set es" and "ev_id y = ev_id x" and "identified y = identified x"
    and "event_identity y = event_identity x"
  shows "map ev_id (map (\<lambda>r. if ev_id r = ev_id x then y else r) es) = map ev_id es"
    and "map event_identity (filter identified (map (\<lambda>r. if ev_id r = ev_id x then y else r) es))
      = map event_identity (filter identified es)"
proof -
  have same: "r = x" if "r \<in> set es" "ev_id r = ev_id x" for r
    using that assms(1,2) by (auto simp: distinct_map inj_on_def)
  show "map ev_id (map (\<lambda>r. if ev_id r = ev_id x then y else r) es) = map ev_id es"
    using assms(3) by (simp add: o_def cong: map_cong)
  have "map event_identity (filter identified (map (\<lambda>r. if ev_id r = ev_id x then y else r) rs))
      = map event_identity (filter identified rs)" if "set rs \<subseteq> set es" for rs
    using that same assms(4,5) by (induction rs) auto
  then show "map event_identity (filter identified (map (\<lambda>r. if ev_id r = ev_id x then y else r) es))
      = map event_identity (filter identified es)" by simp
qed

lemma update_event_ok:
  assumes "events_ok d" and "x \<in> set (db_events d)" and "ev_id y = ev_id x" and "event_identity y = event_identity x"
    and "event_row_ok y"
  shows "events_ok (update_event (ev_id x) (\<lambda>_. y) d)"
proof -
  have "identified y = identified x" using assms(4) by (simp add: event_identity_def identified_def)
  note rows = rewrite_event_rows [OF events_okD(1) [OF assms(1)] assms(2,3) this assms(4)]
  have "\<forall>e \<in> set (db_events (update_event (ev_id x) (\<lambda>_. y) d)). event_row_ok e"
    using events_okD(3) [OF assms(1)] assms(5) by (auto simp: update_event_def)
  then show ?thesis using events_okD(1,2) [OF assms(1)] rows by (simp add: events_ok_def update_event_def del: map_map)
qed

lemma existing_event_Some:
  "existing_event d key = Some x \<Longrightarrow> x \<in> set (db_events d) \<and> identified x
     \<and> event_identity x = (ek_source key, ek_instance key, ek_event key)"
  by (auto simp: existing_event_def find_Some_iff event_identity_def identified_def split: option.splits)

lemma existing_event_None:
  assumes "existing_event d key = None" and "ek_event key \<noteq> None"
  shows "(ek_source key, ek_instance key, ek_event key) \<notin> event_identity ` set (db_events d)"
  using assms by (auto simp: existing_event_def find_None_iff event_identity_def split: option.splits)

lemma existing_event_unique:
  assumes "events_ok d" and "e \<in> set (db_events d)" and "identified e"
    and "event_identity e = (ek_source key, ek_instance key, ek_event key)"
  shows "existing_event d key = Some e"
proof (cases "existing_event d key")
  case None
  then show ?thesis using existing_event_None [OF None] assms(2-4) by (force simp: event_identity_def identified_def)
next
  case (Some x)
  then have "x \<in> set (filter identified (db_events d))" "e \<in> set (filter identified (db_events d))"
    "event_identity x = event_identity e" using existing_event_Some [OF Some] assms(2-4) by auto
  then have "x = e" using events_okD(2) [OF assms(1)] by (auto simp: distinct_map inj_on_def)
  then show ?thesis using Some by simp
qed

lemma update_same_event:
  assumes "events_ok d" and "e \<in> set (db_events d)"
  shows "update_event (ev_id e) (\<lambda>_. e) d = d"
proof -
  have "map (\<lambda>r. if ev_id r = ev_id e then e else r) (db_events d) = db_events d"
    using events_okD(1) [OF assms(1)] assms(2) by (intro map_idI) (auto simp: distinct_map inj_on_def)
  then show ?thesis by (simp add: update_event_def)
qed

section \<open>Reports of providers\<close>

lemma upsert_event_cases:
  assumes "upsert_event d event_id item = Inr (d', r)"
  obtains key period texts e where
    "event_key_of item = Inr key" "event_range item = Inr period" "confidence_ok (ei_confidence item)"
    "camera_known d (ei_camera_id item)" "camera_agrees (existing_event d key) (ei_camera_id item) = Inr ()"
    "event_texts_of item = Inr texts" "e = reported_row event_id item key period texts (existing_event d key)"
    "d' = (case existing_event d key of None \<Rightarrow> add_event e d | Some x \<Rightarrow> update_event (ev_id x) (\<lambda>_. e) d)"
    "r = \<lparr>eu_event = e, eu_created = (existing_event d key = None)\<rparr>"
  using assms unfolding upsert_event_def Let_def and_then_eq_Inr by auto

lemma event_key_identified: "event_key_of item = Inr key \<Longrightarrow> ek_event key \<noteq> None \<Longrightarrow> ek_instance key \<noteq> None"
  by (auto simp: event_key_of_def and_then_eq_Inr)

lemma event_range_ordered:
  "event_range item = Inr period \<Longrightarrow> (case snd period of None \<Rightarrow> True | Some x \<Rightarrow> fst period \<le> x)"
  by (auto simp: event_range_def and_then_eq_Inr split: option.split)

lemma reported_row_simps [simp]:
  "ev_id (reported_row k item key period texts existing) = (case existing of None \<Rightarrow> k | Some x \<Rightarrow> ev_id x)"
  "event_identity (reported_row k item key period texts existing) = (ek_source key, ek_instance key, ek_event key)"
  "identified (reported_row k item key period texts existing) \<longleftrightarrow> ek_event key \<noteq> None"
  by (simp_all add: reported_row_def event_identity_def identified_def)

lemma reported_row_ok:
  assumes "event_key_of item = Inr key" and "event_range item = Inr period" and "confidence_ok (ei_confidence item)"
  shows "event_row_ok (reported_row k item key period texts existing)"
proof -
  let ?e = "reported_row k item key period texts existing"
  have "ev_started_at ?e = fst period" "ev_ended_at ?e = snd period" "ev_confidence ?e = ei_confidence item"
    "ev_source_event_id ?e = ek_event key" "ev_source_instance_id ?e = ek_instance key" "clean_dict (ev_metadata_json ?e)"
    by (simp_all add: reported_row_def)
  then show ?thesis using event_key_identified [OF assms(1)] event_range_ordered [OF assms(2)] assms(3)
    unfolding event_row_ok_def by (cases "ek_event key"; cases "snd period") auto
qed

lemma upsert_event_ok:
  assumes ok: "events_ok d" and fresh: "get_event d k = None" and r: "upsert_event d k item = Inr (d', u)"
  shows "events_ok d' \<and> eu_event u \<in> set (db_events d')"
  using r
proof (cases rule: upsert_event_cases)
  case v: (1 key period texts e)
  have row: "event_row_ok e" using reported_row_ok [OF v(1-3)] v(7) by simp
  show ?thesis
  proof (cases "existing_event d key")
    case None
    have "event_identity e \<notin> event_identity ` set (filter identified (db_events d))" if "identified e"
      using existing_event_None [OF None] that v(7) by auto
    moreover have "ev_id e = k" using v(7) None by simp
    ultimately have "events_ok (add_event e d)" using ok fresh row by (intro add_event_ok) auto
    then show ?thesis using None v(8,9) by (simp add: add_event_def)
  next
    case (Some x)
    note x = existing_event_Some [OF Some]
    have "ev_id e = ev_id x" "event_identity e = event_identity x" using v(7) Some x by simp_all
    moreover from this have "events_ok (update_event (ev_id x) (\<lambda>_. e) d)" using update_event_ok [OF ok _ _ _ row] x by blast
    ultimately show ?thesis using Some v(8,9) x by (force simp: update_event_def)
  qed
qed

section \<open>Properties\<close>

text \<open>
  A redelivered report changes nothing. A provider event that was stored under its identity and is
  delivered again, with whatever new id, leaves the table as it is and answers with the same row,
  this time as an update.
\<close>

theorem event_redelivery:
  assumes "events_ok d" and "get_event d k = None" and "upsert_event d k item = Inr (d', u)"
    and "ev_source_event_id (eu_event u) \<noteq> None"
  shows "upsert_event d' k' item = Inr (d', u\<lparr>eu_created := False\<rparr>)"
  using assms(3)
proof (cases rule: upsert_event_cases)
  case v: (1 key period texts e)
  note ok = upsert_event_ok [OF assms(1-3)]
  have e: "e \<in> set (db_events d')" using ok v(9) by simp
  moreover have "identified e" using assms(4) v(9) by (simp add: identified_def)
  moreover have "event_identity e = (ek_source key, ek_instance key, ek_event key)" using v(7) by simp
  ultimately have found: "existing_event d' key = Some e" using existing_event_unique ok by blast
  have "reported_row k' item key period texts (Some e) = e"
    using v(7) by (auto simp: reported_row_def redacted_def split: option.split)
  moreover have "camera_agrees (Some e) (ei_camera_id item) = Inr ()"
    using v(7) by (auto simp: camera_agrees_def reported_row_def split: option.splits)
  moreover have "get_camera d' c = get_camera d c" for c
    using v(8) by (simp add: get_camera_def add_event_def update_event_def split: option.split)
  then have "camera_known d' (ei_camera_id item)" using v(4) by (simp add: camera_known_def split: option.splits)
  ultimately show ?thesis using v(1-3,6,9) found update_same_event [of d' e] ok e
    by (simp add: upsert_event_def Let_def)
qed

definition example_report :: event_ingest where
  "example_report = \<lparr>ei_source = ''frigate'', ei_category = '' person '', ei_started_at = Aware 0,
     ei_source_instance_id = Some ''f'', ei_source_event_id = Some ''e1'', ei_camera_id = None, ei_label = Some ''dog'',
     ei_ended_at = Some (Aware 5), ei_confidence = Some 1, ei_severity = None, ei_zone = None, ei_snapshot_ref = None,
     ei_correlation_id = None, ei_metadata = [(''token'', PInt 5)]\<rparr>"

lemma example_reported:
  "\<exists>d u. upsert_event empty_db 1 example_report = Inr (d, u) \<and> ev_source_event_id (eu_event u) = Some ''e1''"
proof -
  have "case upsert_event empty_db 1 example_report of Inl _ \<Rightarrow> False
     | Inr x \<Rightarrow> ev_source_event_id (eu_event (snd x)) = Some ''e1''" by code_simp
  then show ?thesis by (auto split: sum.splits)
qed

lemma event_redelivery_witness:
  "\<exists>d u. upsert_event empty_db 1 example_report = Inr (d, u)
     \<and> upsert_event d 2 example_report = Inr (d, u\<lparr>eu_created := False\<rparr>)"
proof -
  obtain d u where r: "upsert_event empty_db 1 example_report = Inr (d, u)" "ev_source_event_id (eu_event u) = Some ''e1''"
    using example_reported by blast
  have "events_ok empty_db" "get_event empty_db 1 = None" by (simp_all add: events_ok_def get_event_def empty_db_def)
  from event_redelivery [OF this r(1)] r show ?thesis by auto
qed

end
