(* ===== verification/IsoTime.thy ===== *)
theory IsoTime
  imports Prelude
begin

text \<open>
  \<open>datetime.isoformat()\<close> of an aware UTC instant, with the calendar algorithm of the standard library:
  the proleptic Gregorian date of a day number and back.
\<close>

definition days_before_year :: "int \<Rightarrow> int" where
  "days_before_year y = (y - 1) * 365 + (y - 1) div 4 - (y - 1) div 100 + (y - 1) div 400"

definition is_leap :: "int \<Rightarrow> bool" where
  "is_leap y = (y mod 4 = 0 \<and> (y mod 100 \<noteq> 0 \<or> y mod 400 = 0))"

definition days_in_month :: "bool \<Rightarrow> nat \<Rightarrow> int" where
  "days_in_month leap m = (if m = 2 \<and> leap then 29 else [0, 31, 28, 31, 30, 31, 30, 31, 31, 30, 31, 30, 31] ! m)"

fun days_before_month :: "bool \<Rightarrow> nat \<Rightarrow> int" where
  "days_before_month leap 0 = 0"
| "days_before_month leap (Suc m) = (if m = 0 then 0 else days_before_month leap m + days_in_month leap m)"

definition ordinal :: "int \<Rightarrow> nat \<Rightarrow> int \<Rightarrow> int" where
  "ordinal y m d = days_before_year y + days_before_month (is_leap y) m + d"

text \<open>Month and day of the zero-based day of a year: the first month that contains it.\<close>

definition month_of :: "bool \<Rightarrow> int \<Rightarrow> nat" where
  "month_of leap r =
     (case find (\<lambda>m. r < days_before_month leap m + days_in_month leap m) [1..<13] of
        None \<Rightarrow> 12 | Some m \<Rightarrow> m)"

definition civil :: "int \<Rightarrow> int \<times> nat \<times> int" where
  "civil ord =
     (let n = ord - 1;
          n400 = n div 146097; a = n mod 146097;
          n100 = a div 36524; b = a mod 36524;
          n4 = b div 1461; c = b mod 1461;
          n1 = c div 365; r = c mod 365;
          y = n400 * 400 + n100 * 100 + n4 * 4 + n1 + 1
      in if n1 = 4 \<or> n100 = 4 then (y - 1, 12, 31)
         else let leap = (n1 = 3 \<and> (n4 \<noteq> 24 \<or> n100 = 3)); m = month_of leap r
              in (y, m, r - days_before_month leap m + 1))"

text \<open>The ordinal of 1 January 1970 is 719163.\<close>

definition padded :: "nat \<Rightarrow> int \<Rightarrow> string" where
  "padded w n = (let s = nat_str (nat n) in replicate (w - length s) (CHR ''0'') @ s)"

definition utc_isoformat :: "instant \<Rightarrow> string" where
  "utc_isoformat t =
     (case civil (t div day_us + 719163) of (y, m, d) \<Rightarrow>
        let us = t mod day_us; s = us div 1000000; f = us mod 1000000
        in padded 4 y @ ''-'' @ padded 2 (int m) @ ''-'' @ padded 2 d @ ''T'' @ padded 2 (s div 3600) @ '':''
           @ padded 2 (s div 60 mod 60) @ '':'' @ padded 2 (s mod 60)
           @ (if f = 0 then [] else ''.'' @ padded 6 f) @ ''+00:00'')"

lemma quotient_eq: "x = q * k + r \<Longrightarrow> 0 \<le> r \<Longrightarrow> r < k \<Longrightarrow> x div k = (q :: int)"
  by simp

lemma cycles:
  fixes n400 n100 n4 n1 :: int
  assumes "0 \<le> n100" "n100 \<le> 3" "0 \<le> n4" "n4 \<le> 24" "0 \<le> n1" "n1 \<le> 3"
  shows "days_before_year (n400 * 400 + n100 * 100 + n4 * 4 + n1 + 1) = n400 * 146097 + n100 * 36524 + n4 * 1461 + n1 * 365"
proof -
  let ?y = "n400 * 400 + n100 * 100 + n4 * 4 + n1"
  have "?y div 4 = n400 * 100 + n100 * 25 + n4" by (rule quotient_eq [where r = n1]) (use assms in simp_all)
  moreover have "?y div 100 = n400 * 4 + n100" by (rule quotient_eq [where r = "n4 * 4 + n1"]) (use assms in simp_all)
  moreover have "?y div 400 = n400" by (rule quotient_eq [where r = "n100 * 100 + n4 * 4 + n1"]) (use assms in simp_all)
  ultimately show ?thesis by (simp add: days_before_year_def)
qed

lemma leap_cycles:
  fixes n400 n100 n4 n1 :: int
  assumes "0 \<le> n100" "n100 \<le> 3" "0 \<le> n4" "n4 \<le> 24" "0 \<le> n1" "n1 \<le> 3"
  shows "is_leap (n400 * 400 + n100 * 100 + n4 * 4 + n1 + 1) \<longleftrightarrow> n1 = 3 \<and> (n4 \<noteq> 24 \<or> n100 = 3)"
proof -
  let ?y = "n400 * 400 + n100 * 100 + n4 * 4 + n1 + 1"
  have "?y = (n400 * 100 + n100 * 25 + n4) * 4 + (n1 + 1)" by simp
  then have "?y mod 4 = (n1 + 1) mod 4" by (metis mod_mult_self3)
  moreover have "?y = (n400 * 4 + n100) * 100 + (n4 * 4 + n1 + 1)" by simp
  then have "?y mod 100 = (n4 * 4 + n1 + 1) mod 100" by (metis mod_mult_self3)
  moreover have "?y = n400 * 400 + (n100 * 100 + n4 * 4 + n1 + 1)" by simp
  then have "?y mod 400 = (n100 * 100 + n4 * 4 + n1 + 1) mod 400" by (metis mod_mult_self3)
  moreover have "(x :: int) mod m = (if x = m then 0 else x)" if "0 \<le> x" "x \<le> m" for x m
    using that by (auto simp: le_less)
  ultimately show ?thesis using assms by (auto simp: is_leap_def)
qed

lemma civil_ordinal:
  assumes "civil n = (y, m, d)"
  shows "ordinal y m d = n"
proof -
  define k where "k = n - 1"
  define n400 a where "n400 = k div 146097" and "a = k mod 146097"
  define n100 b where "n100 = a div 36524" and "b = a mod 36524"
  define n4 c where "n4 = b div 1461" and "c = b mod 1461"
  define n1 r where "n1 = c div 365" and "r = c mod 365"
  have k: "k = n400 * 146097 + a" "0 \<le> a" "a < 146097" by (simp_all add: n400_def a_def)
  have a: "a = n100 * 36524 + b" "0 \<le> b" "b < 36524" by (simp_all add: n100_def b_def)
  have b: "b = n4 * 1461 + c" "0 \<le> c" "c < 1461" by (simp_all add: n4_def c_def)
  have c: "c = n1 * 365 + r" "0 \<le> r" "r < 365" by (simp_all add: n1_def r_def)
  have bounds: "0 \<le> n100" "n100 \<le> 4" "0 \<le> n4" "n4 \<le> 24" "0 \<le> n1" "n1 \<le> 4"
    using k a b c by auto
  have e: "civil n = (if n1 = 4 \<or> n100 = 4 then (n400 * 400 + n100 * 100 + n4 * 4 + n1 + 1 - 1, 12, 31)
     else let leap = (n1 = 3 \<and> (n4 \<noteq> 24 \<or> n100 = 3)); m = month_of leap r
          in (n400 * 400 + n100 * 100 + n4 * 4 + n1 + 1, m, r - days_before_month leap m + 1))"
    by (simp add: civil_def Let_def k_def n400_def a_def n100_def b_def n4_def c_def n1_def r_def)
  have year_end: "days_before_month l 12 = (if l then 335 else 334)" for l
    by (simp add: eval_nat_numeral days_in_month_def)
  show ?thesis
  proof (cases "n1 = 4 \<or> n100 = 4")
    case False
    then have b3: "n100 \<le> 3" "n1 \<le> 3" using bounds by auto
    have "y = n400 * 400 + n100 * 100 + n4 * 4 + n1 + 1"
      "d = r - days_before_month (n1 = 3 \<and> (n4 \<noteq> 24 \<or> n100 = 3)) m + 1"
      using e False assms by (simp_all add: Let_def)
    then show ?thesis using cycles [OF bounds(1) b3(1) bounds(3,4,5) b3(2), of n400]
        leap_cycles [OF bounds(1) b3(1) bounds(3,4,5) b3(2), of n400] k a b c k_def
      by (simp add: ordinal_def)
  next
    case True
    then have v: "y = n400 * 400 + n100 * 100 + n4 * 4 + n1" "m = 12" "d = 31" using e assms by simp_all
    show ?thesis
    proof (cases "n100 = 4")
      case True
      then have "b = 0" using k a by simp
      then have z: "n4 = 0" "n1 = 0" "r = 0" by (simp_all add: n4_def n1_def c_def r_def)
      have "y = n400 * 400 + 3 * 100 + 24 * 4 + 3 + 1" using v True z by simp
      then show ?thesis using cycles [of 3 24 3 n400] leap_cycles [of 3 24 3 n400] v(2,3) year_end k a b c True z k_def
        by (simp add: ordinal_def)
    next
      case False
      then have n1: "n1 = 4" "n100 \<le> 3" using True bounds by auto
      then have "r = 0" using b c by simp
      moreover have "n4 \<noteq> 24 \<or> n100 = 3" using a b c n1 bounds by auto
      moreover have "y = n400 * 400 + n100 * 100 + n4 * 4 + 3 + 1" using v n1 by simp
      ultimately show ?thesis using cycles [OF bounds(1) n1(2) bounds(3,4), of 3 n400]
          leap_cycles [OF bounds(1) n1(2) bounds(3,4), of 3 n400] v(2,3) year_end k a b c n1 k_def
        by (simp add: ordinal_def)
    qed
  qed
qed

lemma isoformat_example: "utc_isoformat (seconds 951782400 + 7) = ''2000-02-29T00:00:00.000007+00:00''"
  by code_simp

end
