(* ===== verification/SystemEvents.thy ===== *)
theory SystemEvents
  imports Events IsoTime Uuid
begin

text \<open>
  \<open>modules/events/system.py\<close>: what the system observes about itself is kept as events with a start and
  an end: the loss of a camera's source, restarts of the media server and the health of a storage
  target. Ids and the \<open>uuid4()\<close> of a health event are arguments; the caller rolls back on an error.
\<close>

section \<open>The service\<close>

record health_transition =
  ht_opened :: "event_row option"
  ht_closed :: "event_row option"

definition is_source_loss :: "event_row \<Rightarrow> bool" where
  "is_source_loss e =
     (ev_source e = ''system'' \<and> ev_source_instance_id e = Some ''zero-nvr''
      \<and> ev_category e = ''source_connectivity'' \<and> ev_label e = Some ''source_lost'')"

definition is_runtime_restart :: "event_row \<Rightarrow> bool" where
  "is_runtime_restart e =
     (ev_source e = ''system'' \<and> ev_source_instance_id e = Some ''zero-nvr''
      \<and> ev_category e = ''runtime_health'' \<and> ev_label e = Some ''runtime_restart'')"

text \<open>\<open>ORDER BY started_at DESC, id DESC LIMIT 1\<close>.\<close>

definition newest :: "event_row list \<Rightarrow> event_row option" where
  "newest es = (case sort_key (\<lambda>e. (- ev_started_at e, - int (ev_id e))) es of [] \<Rightarrow> None | e # _ \<Rightarrow> Some e)"

definition open_loss :: "uuid \<Rightarrow> event_row \<Rightarrow> bool" where
  "open_loss cam e = (is_source_loss e \<and> ev_camera_id e = Some cam \<and> ev_ended_at e = None)"

definition open_source_loss :: "db \<Rightarrow> uuid \<Rightarrow> event_row option" where
  "open_source_loss d cam = newest (filter (open_loss cam) (db_events d))"

definition storage_instance :: "uuid \<Rightarrow> string" where
  "storage_instance target_id = ''storage-target:'' @ uuid_str target_id"

definition open_health :: "uuid \<Rightarrow> event_row \<Rightarrow> bool" where
  "open_health target_id e =
     (ev_source e = ''system'' \<and> ev_source_instance_id e = Some (storage_instance target_id)
      \<and> ev_category e = ''storage_health'' \<and> ev_ended_at e = None)"

definition open_storage_health :: "db \<Rightarrow> uuid \<Rightarrow> event_row option" where
  "open_storage_health d target_id = newest (filter (open_health target_id) (db_events d))"

definition system_event :: "uuid \<Rightarrow> string \<Rightarrow> string option \<Rightarrow> uuid option \<Rightarrow> string \<Rightarrow> string \<Rightarrow> instant \<Rightarrow> event_row" where
  "system_event event_id instance_id source_event_id camera_id category label started_at =
     \<lparr>ev_id = event_id, ev_source = ''system'', ev_source_instance_id = Some instance_id,
      ev_source_event_id = source_event_id, ev_camera_id = camera_id, ev_category = category, ev_label = Some label,
      ev_started_at = started_at, ev_ended_at = None, ev_confidence = None, ev_severity = None, ev_zone = None,
      ev_snapshot_ref = None, ev_correlation_id = None, ev_metadata_json = []\<rparr>"

text \<open>\<open>runtime_restarted\<close>: one event of no length per camera, in the order of the camera ids.\<close>

definition restart_event :: "instant \<Rightarrow> uuid \<Rightarrow> uuid \<Rightarrow> event_row" where
  "restart_event observed event_id camera_id =
     redacted ((system_event event_id ''zero-nvr'' None (Some camera_id) ''runtime_health'' ''runtime_restart'' observed)
       \<lparr>ev_ended_at := Some observed, ev_severity := Some ''info'',
        ev_metadata_json := [(''observer'', PStr ''zlm_server_started'')]\<rparr>)"

definition runtime_restarted :: "db \<Rightarrow> uuid list \<Rightarrow> uuid list \<Rightarrow> py_datetime \<Rightarrow> (db \<times> event_row list) result" where
  "runtime_restarted d event_ids camera_ids observed_at =
     and_then (require_utc observed_at ''event_timezone_required'') (\<lambda>observed.
     let cams = sort (remdups camera_ids);
         created = map2 (restart_event observed) event_ids cams
     in and_then (require (list_all (\<lambda>c. get_camera d c \<noteq> None) cams) IntegrityError) (\<lambda>_.
        Inr (foldl (\<lambda>acc e. add_event e acc) d created, created)))"

definition source_metadata :: "string \<Rightarrow> string \<Rightarrow> string \<Rightarrow> dict" where
  "source_metadata stream app vhost =
     dict_merge [] [(''observer'', PStr ''zlm_stream_changed''), (''source_app'', PStr app),
       (''source_stream'', PStr stream), (''source_vhost'', PStr vhost)]"

definition loss_event :: "uuid \<Rightarrow> uuid \<Rightarrow> instant \<Rightarrow> dict \<Rightarrow> event_row" where
  "loss_event event_id camera_id observed metadata =
     redacted ((system_event event_id ''zero-nvr'' None (Some camera_id) ''source_connectivity'' ''source_lost'' observed)
       \<lparr>ev_severity := Some ''warning'', ev_metadata_json := metadata\<rparr>)"

definition merged_metadata :: "dict \<Rightarrow> event_row \<Rightarrow> event_row" where
  "merged_metadata m e = redacted (e\<lparr>ev_metadata_json := dict_merge (ev_metadata_json e) m\<rparr>)"

definition source_lost :: "db \<Rightarrow> uuid \<Rightarrow> uuid \<Rightarrow> py_datetime \<Rightarrow> string \<Rightarrow> string \<Rightarrow> string \<Rightarrow> (db \<times> event_row) result" where
  "source_lost d event_id camera_id observed_at stream app vhost =
     (case open_source_loss d camera_id of
        Some existing \<Rightarrow>
          let e = merged_metadata (source_metadata stream app vhost) existing
          in Inr (update_event (ev_id existing) (\<lambda>_. e) d, e)
      | None \<Rightarrow>
          and_then (require_utc observed_at ''event_timezone_required'') (\<lambda>observed.
          and_then (require (get_camera d camera_id \<noteq> None) IntegrityError) (\<lambda>_.
          let e = loss_event event_id camera_id observed (source_metadata stream app vhost)
          in Inr (add_event e d, e))))"

definition recovered_loss :: "instant \<Rightarrow> dict \<Rightarrow> event_row \<Rightarrow> event_row" where
  "recovered_loss observed m e =
     merged_metadata m (e\<lparr>ev_ended_at := Some (if observed < ev_started_at e then ev_started_at e else observed)\<rparr>)"

definition source_recovered :: "db \<Rightarrow> uuid \<Rightarrow> py_datetime \<Rightarrow> string \<Rightarrow> string \<Rightarrow> string \<Rightarrow> (db \<times> event_row option) result" where
  "source_recovered d camera_id observed_at stream app vhost =
     (case open_source_loss d camera_id of
        None \<Rightarrow> Inr (d, None)
      | Some event \<Rightarrow>
          and_then (require_utc observed_at ''event_timezone_required'') (\<lambda>observed.
          let e = recovered_loss observed
                [(''recovered_source_app'', PStr app), (''recovered_source_stream'', PStr stream),
                 (''recovered_source_vhost'', PStr vhost)] event
          in Inr (update_event (ev_id event) (\<lambda>_. e) d, Some e)))"

subsection \<open>Storage health\<close>

definition health_levels :: "string list" where
  "health_levels = [''ok'', ''warning'', ''high'', ''critical'', ''unavailable'']"

text \<open>What one capacity check found.\<close>

record observation =
  ob_error_code :: "string option"
  ob_used_percent :: "rat option"
  ob_free_bytes :: "int option"
  ob_total_bytes :: "int option"

definition round3 :: "rat \<Rightarrow> rat" where
  "round3 x = (case quotient_of x of (a, b) \<Rightarrow> of_int (round_div (a * 1000) b) / 1000)"

definition optional_entry :: "string \<Rightarrow> pyobj option \<Rightarrow> dict" where
  "optional_entry k v = (case v of None \<Rightarrow> [] | Some x \<Rightarrow> [(k, x)])"

definition health_metadata :: "uuid \<Rightarrow> string \<Rightarrow> string \<Rightarrow> observation \<Rightarrow> dict" where
  "health_metadata target_id target_name level ob =
     dict_merge [] ([(''observer'', PStr ''recording_capacity_guard''), (''storage_target_id'', PStr (uuid_str target_id)),
       (''storage_target_name'', PStr target_name), (''level'', PStr level)]
       @ optional_entry ''error_code'' (map_option PStr (ob_error_code ob))
       @ optional_entry ''used_percent'' (map_option (\<lambda>x. PFloat (round3 x)) (ob_used_percent ob))
       @ optional_entry ''free_bytes'' (map_option PInt (ob_free_bytes ob))
       @ optional_entry ''total_bytes'' (map_option PInt (ob_total_bytes ob)))"

definition close_health :: "instant \<Rightarrow> string \<Rightarrow> event_row \<Rightarrow> event_row" where
  "close_health observed level e =
     (let ended_at = max (ev_started_at e) observed
      in redacted (e\<lparr>ev_ended_at := Some ended_at,
           ev_metadata_json := dict_merge (ev_metadata_json e)
             [(''recovered_at'', PStr (utc_isoformat ended_at)), (''next_level'', PStr level)]\<rparr>))"

definition health_event :: "uuid \<Rightarrow> uuid \<Rightarrow> uuid \<Rightarrow> string \<Rightarrow> instant \<Rightarrow> string \<Rightarrow> observation \<Rightarrow> event_row" where
  "health_event event_id nonce target_id target_name observed level ob =
     redacted ((system_event event_id (storage_instance target_id)
         (Some (''storage_'' @ level @ '':'' @ uuid_str nonce)) None ''storage_health'' (''storage_'' @ level) observed)
       \<lparr>ev_severity := Some (if level \<in> {''critical'', ''unavailable''} then ''critical'' else ''warning''),
        ev_correlation_id := Some (storage_instance target_id),
        ev_metadata_json := health_metadata target_id target_name level ob\<rparr>)"

definition storage_health_transition ::
    "db \<Rightarrow> uuid \<Rightarrow> uuid \<Rightarrow> uuid \<Rightarrow> string \<Rightarrow> py_datetime \<Rightarrow> string \<Rightarrow> observation \<Rightarrow> (db \<times> health_transition) result" where
  "storage_health_transition d event_id nonce target_id target_name observed_at level ob =
     (let normalized = py_lower (py_strip level)
      in if normalized \<notin> set health_levels then Inl ValueError
         else and_then (require_utc observed_at ''event_timezone_required'') (\<lambda>observed.
           let existing = open_storage_health d target_id;
               label = ''storage_'' @ normalized;
               closed = (case existing of
                   None \<Rightarrow> None
                 | Some e \<Rightarrow> if normalized = ''ok'' \<or> ev_label e \<noteq> Some label then Some (close_health observed normalized e)
                            else None);
               d1 = (case closed of None \<Rightarrow> d | Some e \<Rightarrow> update_event (ev_id e) (\<lambda>_. e) d)
           in if normalized = ''ok'' then Inr (d1, \<lparr>ht_opened = None, ht_closed = closed\<rparr>)
              else if closed = None \<and> (case existing of None \<Rightarrow> False | Some e \<Rightarrow> ev_label e = Some label)
              then Inr (d1, \<lparr>ht_opened = None, ht_closed = None\<rparr>)
              else let e = health_event event_id nonce target_id target_name observed normalized ob
                   in Inr (add_event e d1, \<lparr>ht_opened = Some e, ht_closed = closed\<rparr>)))"

section \<open>Counting open intervals\<close>

lemma newest_None: "newest es = None \<longleftrightarrow> es = []"
proof (cases "sort_key (\<lambda>e. (- ev_started_at e, - int (ev_id e))) es")
  case Nil
  from arg_cong [OF this, of set] have "es = []" by simp
  then show ?thesis by (simp add: newest_def)
next
  case (Cons e ys)
  from arg_cong [OF this, of set] have "es \<noteq> []" by auto
  then show ?thesis using Cons by (simp add: newest_def)
qed

lemma newest_Some:
  assumes "newest es = Some e"
  shows "e \<in> set es"
proof -
  obtain ys where "sort_key (\<lambda>e. (- ev_started_at e, - int (ev_id e))) es = e # ys"
    using assms by (auto simp: newest_def split: list.splits)
  from arg_cong [OF this, of set] show ?thesis by simp
qed

lemma newest_single [simp]: "newest [e] = Some e"
  by (simp add: newest_def)

lemma newest_at_most_one:
  assumes "length es \<le> 1" and "e \<in> set es"
  shows "newest es = Some e"
  using assms by (cases es) auto

text \<open>Rewriting one row of a table with distinct ids.\<close>

lemma update_event_split:
  assumes "distinct (map ev_id (db_events d))" and "x \<in> set (db_events d)"
  obtains as bs where "db_events d = as @ x # bs" "db_events (update_event (ev_id x) (\<lambda>_. y) d) = as @ y # bs"
proof -
  from assms(2) obtain as bs where s: "db_events d = as @ x # bs" by (auto simp: in_set_conv_decomp)
  have "ev_id x \<notin> ev_id ` set as" "ev_id x \<notin> ev_id ` set bs" using assms(1) s by auto
  then have "ev_id r \<noteq> ev_id x" if "r \<in> set as \<union> set bs" for r using that by (metis UnE imageI)
  then have "map (\<lambda>r. if ev_id r = ev_id x then y else r) as = as" "map (\<lambda>r. if ev_id r = ev_id x then y else r) bs = bs"
    by (auto intro!: map_idI)
  then have "db_events (update_event (ev_id x) (\<lambda>_. y) d) = as @ y # bs" using s by (simp add: update_event_def)
  with s show thesis by (rule that)
qed

lemma filter_update_event:
  assumes "events_ok d" and "x \<in> set (db_events d)"
  shows "P y = P x \<Longrightarrow> \<not> P x \<Longrightarrow> filter P (db_events (update_event (ev_id x) (\<lambda>_. y) d)) = filter P (db_events d)"
    and "P x \<Longrightarrow> length (filter P (db_events d)) \<le> 1 \<Longrightarrow>
      filter P (db_events (update_event (ev_id x) (\<lambda>_. y) d)) = (if P y then [y] else [])"
proof -
  obtain as bs where s: "db_events d = as @ x # bs" "db_events (update_event (ev_id x) (\<lambda>_. y) d) = as @ y # bs"
    using update_event_split [OF events_okD(1) [OF assms(1)] assms(2)] by blast
  show "filter P (db_events (update_event (ev_id x) (\<lambda>_. y) d)) = filter P (db_events d)" if "P y = P x" "\<not> P x"
    using s that by simp
  show "filter P (db_events (update_event (ev_id x) (\<lambda>_. y) d)) = (if P y then [y] else [])"
    if "P x" "length (filter P (db_events d)) \<le> 1" using s that by simp
qed

lemma filter_add_event [simp]:
  "filter P (db_events (add_event e d)) = filter P (db_events d) @ (if P e then [e] else [])"
  by (simp add: add_event_def)

definition intervals_ok :: "db \<Rightarrow> bool" where
  "intervals_ok d \<longleftrightarrow> events_ok d
     \<and> (\<forall>cam. length (filter (open_loss cam) (db_events d)) \<le> 1)
     \<and> (\<forall>t. length (filter (open_health t) (db_events d)) \<le> 1)"

lemma intervals_okD:
  assumes "intervals_ok d"
  shows "events_ok d" "length (filter (open_loss cam) (db_events d)) \<le> 1" "length (filter (open_health t) (db_events d)) \<le> 1"
  using assms by (simp_all add: intervals_ok_def)

lemma open_loss_iff:
  assumes "intervals_ok d"
  shows "open_source_loss d cam = Some e \<longleftrightarrow> e \<in> set (db_events d) \<and> open_loss cam e"
proof
  assume "open_source_loss d cam = Some e"
  then have "e \<in> set (filter (open_loss cam) (db_events d))" unfolding open_source_loss_def by (rule newest_Some)
  then show "e \<in> set (db_events d) \<and> open_loss cam e" by simp
next
  assume "e \<in> set (db_events d) \<and> open_loss cam e"
  then have "e \<in> set (filter (open_loss cam) (db_events d))" by simp
  then show "open_source_loss d cam = Some e" unfolding open_source_loss_def
    by (rule newest_at_most_one [OF intervals_okD(2) [OF assms]])
qed

lemma open_health_iff:
  assumes "intervals_ok d"
  shows "open_storage_health d t = Some e \<longleftrightarrow> e \<in> set (db_events d) \<and> open_health t e"
proof
  assume "open_storage_health d t = Some e"
  then have "e \<in> set (filter (open_health t) (db_events d))" unfolding open_storage_health_def by (rule newest_Some)
  then show "e \<in> set (db_events d) \<and> open_health t e" by simp
next
  assume "e \<in> set (db_events d) \<and> open_health t e"
  then have "e \<in> set (filter (open_health t) (db_events d))" by simp
  then show "open_storage_health d t = Some e" unfolding open_storage_health_def
    by (rule newest_at_most_one [OF intervals_okD(3) [OF assms]])
qed

lemma open_loss_None: "open_source_loss d cam = None \<longleftrightarrow> filter (open_loss cam) (db_events d) = []"
  by (simp add: open_source_loss_def newest_None)

lemma open_health_None: "open_storage_health d t = None \<longleftrightarrow> filter (open_health t) (db_events d) = []"
  by (simp add: open_storage_health_def newest_None)

text \<open>Open losses and open health events of different cameras and targets are different rows.\<close>

lemma open_loss_camera: "open_loss a e \<Longrightarrow> open_loss b e \<Longrightarrow> a = b"
  by (simp add: open_loss_def)

lemma open_loss_not_health: "open_loss a e \<Longrightarrow> \<not> open_health t e"
  by (auto simp: open_loss_def open_health_def is_source_loss_def)

lemma open_health_target:
  assumes "a < 2 ^ 128" and "b < 2 ^ 128" and "open_health a e" and "open_health b e"
  shows "a = b"
proof -
  have "uuid_str a = uuid_str b" using assms(3,4) by (simp add: open_health_def storage_instance_def)
  with assms(1,2) show ?thesis by (rule uuid_str_inj)
qed

lemma redacted_open [simp]:
  "open_loss cam (redacted e) = open_loss cam e" "open_health t (redacted e) = open_health t e"
  "event_row_ok (redacted e) \<longleftrightarrow> (case ev_ended_at e of None \<Rightarrow> True | Some x \<Rightarrow> ev_started_at e \<le> x)
     \<and> confidence_ok (ev_confidence e) \<and> (ev_source_event_id e = None \<or> ev_source_instance_id e \<noteq> None)"
  by (simp_all add: open_loss_def open_health_def is_source_loss_def event_row_ok_def split: option.split)

section \<open>One open interval at a time\<close>

lemma update_event_intervals:
  assumes ok: "intervals_ok d" and x: "x \<in> set (db_events d)" and y: "ev_id y = ev_id x" "event_identity y = event_identity x"
    "event_row_ok y" and less: "\<And>cam. open_loss cam y \<Longrightarrow> open_loss cam x" "\<And>t. open_health t y \<Longrightarrow> open_health t x"
  shows "intervals_ok (update_event (ev_id x) (\<lambda>_. y) d)"
proof -
  obtain as bs where s: "db_events d = as @ x # bs" "db_events (update_event (ev_id x) (\<lambda>_. y) d) = as @ y # bs"
    using update_event_split [OF events_okD(1) [OF intervals_okD(1) [OF ok]] x] by blast
  have le: "length (filter P (as @ y # bs)) \<le> 1" if "P y \<Longrightarrow> P x" "length (filter P (as @ x # bs)) \<le> 1" for P
    using that by (auto split: if_splits)
  have "length (filter (open_loss cam) (as @ y # bs)) \<le> 1" for cam
    using intervals_okD(2) [OF ok, of cam] s(1) less(1) by (intro le) auto
  moreover have "length (filter (open_health t) (as @ y # bs)) \<le> 1" for t
    using intervals_okD(3) [OF ok, of t] s(1) less(2) by (intro le) auto
  ultimately show ?thesis using update_event_ok [OF intervals_okD(1) [OF ok] x y] s(2) by (simp add: intervals_ok_def)
qed

lemma add_event_intervals:
  assumes ok: "intervals_ok d" and e: "get_event d (ev_id e) = None" "event_row_ok e"
    "identified e \<Longrightarrow> event_identity e \<notin> event_identity ` set (filter identified (db_events d))"
    and free: "\<And>cam. open_loss cam e \<Longrightarrow> open_source_loss d cam = None" "\<And>t. open_health t e \<Longrightarrow> open_storage_health d t = None"
  shows "intervals_ok (add_event e d)"
proof -
  have "length (filter (open_loss cam) (db_events (add_event e d))) \<le> 1" for cam
    using intervals_okD(2) [OF ok, of cam] free(1) [of cam] by (auto simp: open_loss_None)
  moreover have "length (filter (open_health t) (db_events (add_event e d))) \<le> 1" for t
    using intervals_okD(3) [OF ok, of t] free(2) [of t] by (auto simp: open_health_None)
  ultimately show ?thesis using add_event_ok [OF intervals_okD(1) [OF ok] e] by (simp add: intervals_ok_def)
qed

text \<open>Rows that stay in the table with the same openness are found as before.\<close>

lemma update_event_keeps:
  assumes "intervals_ok d" and "x \<in> set (db_events d)"
  shows "\<not> open_loss cam x \<Longrightarrow> \<not> open_loss cam y \<Longrightarrow>
      open_source_loss (update_event (ev_id x) (\<lambda>_. y) d) cam = open_source_loss d cam"
    and "\<not> open_health t x \<Longrightarrow> \<not> open_health t y \<Longrightarrow>
      open_storage_health (update_event (ev_id x) (\<lambda>_. y) d) t = open_storage_health d t"
  using filter_update_event(1) [OF intervals_okD(1) [OF assms(1)] assms(2), of _ y]
  by (simp_all add: open_source_loss_def open_storage_health_def)

lemma update_event_open:
  assumes "intervals_ok d" and "x \<in> set (db_events d)"
  shows "open_loss cam x \<Longrightarrow>
      open_source_loss (update_event (ev_id x) (\<lambda>_. y) d) cam = (if open_loss cam y then Some y else None)"
    and "open_health t x \<Longrightarrow>
      open_storage_health (update_event (ev_id x) (\<lambda>_. y) d) t = (if open_health t y then Some y else None)"
  using filter_update_event(2) [OF intervals_okD(1) [OF assms(1)] assms(2), of _ y]
    intervals_okD(2,3) [OF assms(1)]
  by (simp_all add: open_source_loss_def open_storage_health_def newest_None)

lemma add_event_keeps [simp]:
  "\<not> open_loss cam e \<Longrightarrow> open_source_loss (add_event e d) cam = open_source_loss d cam"
  "\<not> open_health t e \<Longrightarrow> open_storage_health (add_event e d) t = open_storage_health d t"
  by (simp_all add: open_source_loss_def open_storage_health_def)

lemma add_event_opens:
  "open_loss cam e \<Longrightarrow> open_source_loss d cam = None \<Longrightarrow> open_source_loss (add_event e d) cam = Some e"
  "open_health t e \<Longrightarrow> open_storage_health d t = None \<Longrightarrow> open_storage_health (add_event e d) t = Some e"
  by (simp_all add: open_source_loss_def open_storage_health_def newest_None)

subsection \<open>Storage health\<close>

definition close_open :: "db \<Rightarrow> instant \<Rightarrow> string \<Rightarrow> uuid \<Rightarrow> db" where
  "close_open d observed level t =
     (case open_storage_health d t of None \<Rightarrow> d | Some e \<Rightarrow> update_event (ev_id e) (\<lambda>_. close_health observed level e) d)"

lemma close_health_simps [simp]:
  "ev_id (close_health observed level e) = ev_id e" "event_identity (close_health observed level e) = event_identity e"
  "ev_ended_at (close_health observed level e) = Some (max (ev_started_at e) observed)"
  "\<not> open_loss cam (close_health observed level e)" "\<not> open_health t (close_health observed level e)"
  by (simp_all add: close_health_def Let_def event_identity_def open_loss_def open_health_def)

lemma close_health_ok: "event_row_ok e \<Longrightarrow> event_row_ok (close_health observed level e)"
  by (simp add: close_health_def Let_def event_row_ok_def)

lemma storage_health_cases:
  assumes "storage_health_transition d k nonce t name observed_at level ob = Inr (d', r)"
  obtains (same) observed e where "require_utc observed_at ''event_timezone_required'' = Inr observed"
      "py_lower (py_strip level) \<noteq> ''ok''" "open_storage_health d t = Some e"
      "ev_label e = Some (''storage_'' @ py_lower (py_strip level))" "d' = d"
  | (recovered) observed where "require_utc observed_at ''event_timezone_required'' = Inr observed"
      "py_lower (py_strip level) = ''ok''" "d' = close_open d observed ''ok'' t"
  | (changed) observed where "require_utc observed_at ''event_timezone_required'' = Inr observed"
      "py_lower (py_strip level) \<noteq> ''ok''"
      "\<And>e. open_storage_health d t = Some e \<Longrightarrow> ev_label e \<noteq> Some (''storage_'' @ py_lower (py_strip level))"
      "d' = add_event (health_event k nonce t name observed (py_lower (py_strip level)) ob)
             (close_open d observed (py_lower (py_strip level)) t)"
proof -
  let ?l = "py_lower (py_strip level)"
  from assms obtain observed where o: "require_utc observed_at ''event_timezone_required'' = Inr observed"
    by (auto simp: storage_health_transition_def Let_def and_then_eq_Inr split: if_splits)
  show thesis
  proof (cases "open_storage_health d t")
    case None
    then show thesis using assms o
      by (cases "?l = ''ok''") (auto simp: storage_health_transition_def Let_def close_open_def split: if_splits intro: recovered changed)
  next
    case (Some e)
    show thesis
    proof (cases "?l = ''ok''")
      case True
      then have "d' = close_open d observed ''ok'' t" using assms o Some
        by (simp add: storage_health_transition_def Let_def close_open_def split: if_splits)
      with o True show thesis by (rule recovered)
    next
      case bad: False
      show thesis
      proof (cases "ev_label e = Some (''storage_'' @ ?l)")
        case True
        then have "d' = d" using assms o Some bad by (simp add: storage_health_transition_def Let_def split: if_splits)
        with o bad Some True show thesis by (rule same)
      next
        case False
        then have "d' = add_event (health_event k nonce t name observed ?l ob) (close_open d observed ?l t)"
          using assms o Some bad by (simp add: storage_health_transition_def Let_def close_open_def split: if_splits)
        with o bad show thesis using Some False by (intro changed) auto
      qed
    qed
  qed
qed

lemma close_open_facts:
  assumes "intervals_ok d"
  shows "intervals_ok (close_open d observed level t) \<and> open_storage_health (close_open d observed level t) t = None
    \<and> (t' < 2 ^ 128 \<longrightarrow> t < 2 ^ 128 \<longrightarrow> t' \<noteq> t \<longrightarrow>
        open_storage_health (close_open d observed level t) t' = open_storage_health d t')
    \<and> open_source_loss (close_open d observed level t) cam = open_source_loss d cam
    \<and> map ev_id (db_events (close_open d observed level t)) = map ev_id (db_events d)
    \<and> event_identity ` set (db_events (close_open d observed level t)) = event_identity ` set (db_events d)"
proof (cases "open_storage_health d t")
  case None
  then show ?thesis using assms by (simp add: close_open_def)
next
  case (Some e)
  then have e: "e \<in> set (db_events d)" "open_health t e" using open_health_iff [OF assms] by blast+
  let ?y = "close_health observed level e"
  have d': "close_open d observed level t = update_event (ev_id e) (\<lambda>_. ?y) d" by (simp add: close_open_def Some)
  have "\<not> open_health t' e" if "t' < 2 ^ 128" "t < 2 ^ 128" "t' \<noteq> t"
    using open_health_target [OF that(1,2) _ e(2)] that(3) by blast
  moreover have "\<not> open_loss cam e" using e(2) open_loss_not_health by blast
  moreover have "intervals_ok (update_event (ev_id e) (\<lambda>_. ?y) d)"
    using e events_okD(3) [OF intervals_okD(1) [OF assms]] by (intro update_event_intervals [OF assms]) (auto intro: close_health_ok)
  moreover obtain as bs where "db_events d = as @ e # bs" "db_events (update_event (ev_id e) (\<lambda>_. ?y) d) = as @ ?y # bs"
    using update_event_split [OF events_okD(1) [OF intervals_okD(1) [OF assms]] e(1)] by blast
  ultimately show ?thesis
    using update_event_open(2) [OF assms e(1,2), of ?y] update_event_keeps [OF assms e(1), of _ ?y] by (simp add: d')
qed

lemma close_open_ok:
  assumes "intervals_ok d"
  shows "intervals_ok (close_open d observed level t)" and "open_storage_health (close_open d observed level t) t = None"
    and "t' < 2 ^ 128 \<Longrightarrow> t < 2 ^ 128 \<Longrightarrow> t' \<noteq> t \<Longrightarrow>
      open_storage_health (close_open d observed level t) t' = open_storage_health d t'"
    and "open_source_loss (close_open d observed level t) cam = open_source_loss d cam"
    and "map ev_id (db_events (close_open d observed level t)) = map ev_id (db_events d)"
    and "event_identity ` set (db_events (close_open d observed level t)) = event_identity ` set (db_events d)"
  using close_open_facts [OF assms] by blast+

lemma health_event_simps [simp]:
  "ev_id (health_event k nonce t name observed level ob) = k"
  "ev_started_at (health_event k nonce t name observed level ob) = observed"
  "ev_label (health_event k nonce t name observed level ob) = Some (''storage_'' @ level)"
  "open_health t' (health_event k nonce t name observed level ob) \<longleftrightarrow> storage_instance t' = storage_instance t"
  "\<not> open_loss cam (health_event k nonce t name observed level ob)"
  "event_row_ok (health_event k nonce t name observed level ob)"
  "event_identity (health_event k nonce t name observed level ob)
     = (''system'', Some (storage_instance t), Some (''storage_'' @ level @ '':'' @ uuid_str nonce))"
  by (auto simp: health_event_def system_event_def open_health_def open_loss_def is_source_loss_def event_identity_def
      confidence_ok_def)

text \<open>The \<open>uuid4()\<close> texts of new health events have not been used.\<close>

definition nonce_free :: "db \<Rightarrow> uuid \<Rightarrow> bool" where
  "nonce_free d nonce \<longleftrightarrow> (\<forall>e \<in> set (db_events d). \<forall>label. ev_source_event_id e \<noteq> Some (label @ '':'' @ uuid_str nonce))"

lemma storage_health_ok:
  assumes ok: "intervals_ok d" and fresh: "get_event d k = None" "nonce_free d nonce"
    and r: "storage_health_transition d k nonce t name observed_at level ob = Inr (d', r)"
  shows "intervals_ok d'"
  using r
proof (cases rule: storage_health_cases)
  case (changed observed)
  let ?l = "py_lower (py_strip level)"
  let ?d = "close_open d observed ?l t"
  note c = close_open_ok [OF ok, where observed = observed and level = ?l and t = t]
  show ?thesis unfolding changed(4)
  proof (rule add_event_intervals [OF c(1)])
    show "get_event ?d (ev_id (health_event k nonce t name observed ?l ob)) = None"
      using fresh(1) arg_cong [OF c(5), of set] by (simp add: events.get_None_iff)
    have "(''system'', Some (storage_instance t), Some (''storage_'' @ ?l @ '':'' @ uuid_str nonce)) \<notin> event_identity ` set (db_events d)"
    proof
      assume "(''system'', Some (storage_instance t), Some (''storage_'' @ ?l @ '':'' @ uuid_str nonce)) \<in> event_identity ` set (db_events d)"
      then obtain e where "e \<in> set (db_events d)" "ev_source_event_id e = Some ((''storage_'' @ ?l) @ '':'' @ uuid_str nonce)"
        by (auto simp: event_identity_def)
      then show False using fresh(2) unfolding nonce_free_def by blast
    qed
    then show "event_identity (health_event k nonce t name observed ?l ob) \<notin> event_identity ` set (filter identified (db_events ?d))"
      using c(6) by auto
    show "open_storage_health ?d t' = None" if "open_health t' (health_event k nonce t name observed ?l ob)" for t'
    proof -
      have "storage_instance t' = storage_instance t" using that by simp
      then have "open_health t' = open_health t" by (simp add: open_health_def fun_eq_iff)
      then show ?thesis using c(2) by (simp add: open_storage_health_def)
    qed
  qed (auto)
qed (use ok close_open_ok(1) [OF ok] in simp_all)

subsection \<open>Source loss\<close>

lemma loss_event_simps [simp]:
  "ev_id (loss_event k cam observed m) = k" "ev_started_at (loss_event k cam observed m) = observed"
  "event_row_ok (loss_event k cam observed m)" "\<not> identified (loss_event k cam observed m)"
  "open_loss cam' (loss_event k cam observed m) \<longleftrightarrow> cam' = cam" "\<not> open_health t (loss_event k cam observed m)"
  "is_source_loss (loss_event k cam observed m)" "ev_camera_id (loss_event k cam observed m) = Some cam"
  "ev_ended_at (loss_event k cam observed m) = None"
  by (auto simp: loss_event_def system_event_def open_loss_def open_health_def is_source_loss_def identified_def
      confidence_ok_def)

lemma merged_metadata_simps [simp]:
  "ev_id (merged_metadata m e) = ev_id e" "event_identity (merged_metadata m e) = event_identity e"
  "ev_started_at (merged_metadata m e) = ev_started_at e" "ev_ended_at (merged_metadata m e) = ev_ended_at e"
  "ev_camera_id (merged_metadata m e) = ev_camera_id e" "is_source_loss (merged_metadata m e) = is_source_loss e"
  "open_loss cam (merged_metadata m e) = open_loss cam e" "open_health t (merged_metadata m e) = open_health t e"
  by (simp_all add: merged_metadata_def open_loss_def open_health_def is_source_loss_def event_identity_def)

lemma recovered_loss_simps [simp]:
  "ev_id (recovered_loss observed m e) = ev_id e" "event_identity (recovered_loss observed m e) = event_identity e"
  "ev_started_at (recovered_loss observed m e) = ev_started_at e"
  "ev_ended_at (recovered_loss observed m e) = Some (max (ev_started_at e) observed)"
  "ev_camera_id (recovered_loss observed m e) = ev_camera_id e" "is_source_loss (recovered_loss observed m e) = is_source_loss e"
  "\<not> open_loss cam (recovered_loss observed m e)" "\<not> open_health t (recovered_loss observed m e)"
  by (simp_all add: recovered_loss_def merged_metadata_def open_loss_def open_health_def event_identity_def
      is_source_loss_def max_def)

lemma merged_metadata_ok: "event_row_ok e \<Longrightarrow> event_row_ok (merged_metadata m e)"
  by (simp add: merged_metadata_def event_row_ok_def split: option.splits)

lemma recovered_loss_ok: "event_row_ok e \<Longrightarrow> event_row_ok (recovered_loss observed m e)"
  unfolding recovered_loss_def by (rule merged_metadata_ok) (simp add: event_row_ok_def)

lemma source_lost_cases:
  assumes "source_lost d k cam observed_at stream app vhost = Inr (d', e)"
  obtains (still) x where "open_source_loss d cam = Some x" "e = merged_metadata (source_metadata stream app vhost) x"
      "d' = update_event (ev_id x) (\<lambda>_. e) d"
  | (new) observed where "open_source_loss d cam = None" "require_utc observed_at ''event_timezone_required'' = Inr observed"
      "e = loss_event k cam observed (source_metadata stream app vhost)" "d' = add_event e d"
proof (cases "open_source_loss d cam")
  case None
  then show thesis using assms by (auto simp: source_lost_def Let_def and_then_eq_Inr intro: new)
next
  case (Some x)
  then show thesis using assms by (intro still) (auto simp: source_lost_def Let_def)
qed

lemma source_recovered_cases:
  assumes "source_recovered d cam observed_at stream app vhost = Inr (d', r)"
  obtains (none) "open_source_loss d cam = None" "d' = d" "r = None"
  | (closed) x observed m where "open_source_loss d cam = Some x"
      "require_utc observed_at ''event_timezone_required'' = Inr observed"
      "d' = update_event (ev_id x) (\<lambda>_. recovered_loss observed m x) d" "r = Some (recovered_loss observed m x)"
proof (cases "open_source_loss d cam")
  case None
  then show thesis using assms by (intro none) (auto simp: source_recovered_def)
next
  case (Some x)
  then obtain observed where o: "require_utc observed_at ''event_timezone_required'' = Inr observed"
    using assms by (auto simp: source_recovered_def and_then_eq_Inr)
  then show thesis using assms Some by (auto simp: source_recovered_def Let_def intro: closed [OF Some o])
qed

lemma source_lost_ok:
  assumes ok: "intervals_ok d" and fresh: "get_event d k = None"
    and r: "source_lost d k cam observed_at stream app vhost = Inr (d', e)"
  shows "intervals_ok d'"
  using r
proof (cases rule: source_lost_cases)
  case (still x)
  then have x: "x \<in> set (db_events d)" using open_loss_iff [OF ok] by blast
  then have "event_row_ok e" using events_okD(3) [OF intervals_okD(1) [OF ok]] still(2) merged_metadata_ok by blast
  then show ?thesis unfolding still(3) using still(2) by (intro update_event_intervals [OF ok x]) simp_all
next
  case (new observed)
  then show ?thesis unfolding new(4) using fresh by (intro add_event_intervals [OF ok]) simp_all
qed

lemma source_recovered_ok:
  assumes ok: "intervals_ok d" and r: "source_recovered d cam observed_at stream app vhost = Inr (d', u)"
  shows "intervals_ok d'"
  using r
proof (cases rule: source_recovered_cases)
  case (closed x observed m)
  then have x: "x \<in> set (db_events d)" using open_loss_iff [OF ok] by blast
  then have "event_row_ok (recovered_loss observed m x)" using events_okD(3) [OF intervals_okD(1) [OF ok]] recovered_loss_ok by blast
  then show ?thesis unfolding closed(3) by (intro update_event_intervals [OF ok x]) simp_all
qed (use ok in simp)

lemma runtime_restarted_ok:
  assumes ok: "intervals_ok d" and fresh: "distinct ks" "\<And>k. k \<in> set ks \<Longrightarrow> get_event d k = None"
    and r: "runtime_restarted d ks cams observed_at = Inr (d', es)"
  shows "intervals_ok d'"
proof -
  have step: "intervals_ok (foldl (\<lambda>acc e. add_event e acc) e0 (map2 (restart_event observed) ks cs))"
    if "intervals_ok e0" "distinct ks" "\<And>k. k \<in> set ks \<Longrightarrow> get_event e0 k = None" for e0 observed cs
    using that
  proof (induction ks arbitrary: cs e0)
    case (Cons k ks)
    show ?case
    proof (cases cs)
      case (Cons c cs')
      let ?e = "restart_event observed k c"
      have row: "ev_id ?e = k" "event_row_ok ?e" "\<not> identified ?e" "\<not> open_loss cam ?e" "\<not> open_health t ?e" for cam t
        by (simp_all add: restart_event_def system_event_def identified_def open_loss_def open_health_def confidence_ok_def)
      have "intervals_ok (add_event ?e e0)"
        using Cons.prems(1,3) row by (intro add_event_intervals) simp_all
      moreover have "get_event (add_event ?e e0) j = None" if "j \<in> set ks" for j
        using Cons.prems(2,3) that row(1) events.get_add [of e0 ?e j] by auto
      ultimately show ?thesis using Cons.IH [of "add_event ?e e0" cs'] Cons.prems(2) Cons by simp
    qed (use Cons.prems in simp)
  qed simp
  then show ?thesis using r ok fresh by (auto simp: runtime_restarted_def Let_def and_then_eq_Inr)
qed

text \<open>A provider is never called \<open>system\<close>, so its reports leave the intervals alone.\<close>

lemma provider_report_ok:
  assumes ok: "intervals_ok d" and fresh: "get_event d k = None" and r: "upsert_event d k item = Inr (d', u)"
    and source: "py_strip (ei_source item) \<noteq> ''system''"
  shows "intervals_ok d'"
  using r
proof (cases rule: upsert_event_cases)
  case v: (1 key period texts e)
  have key: "ek_source key = py_strip (ei_source item)"
    using v(1) by (auto simp: event_key_of_def event_text_def Let_def and_then_eq_Inr split: if_splits)
  have "fst (event_identity e) \<noteq> ''system''" using v(7) key source by simp
  then have e: "\<not> open_loss cam e" "\<not> open_health t e" for cam t
    by (simp_all add: event_identity_def open_loss_def open_health_def is_source_loss_def)
  have "event_row_ok e" using reported_row_ok [OF v(1-3)] v(7) by simp
  show ?thesis
  proof (cases "existing_event d key")
    case None
    have "event_identity e \<notin> event_identity ` set (filter identified (db_events d))" if "identified e"
      using existing_event_None [OF None] that v(7) by auto
    moreover have "ev_id e = k" using v(7) None by simp
    ultimately have "intervals_ok (add_event e d)" using fresh e \<open>event_row_ok e\<close> by (intro add_event_intervals [OF ok]) simp_all
    then show ?thesis using None v(8) by simp
  next
    case (Some x)
    note x = existing_event_Some [OF Some]
    have "ev_id e = ev_id x" "event_identity e = event_identity x" using v(7) Some x by simp_all
    then have "intervals_ok (update_event (ev_id x) (\<lambda>_. e) d)"
      using x e \<open>event_row_ok e\<close> by (intro update_event_intervals [OF ok]) simp_all
    then show ?thesis using Some v(8) by simp
  qed
qed

section \<open>The event table over time\<close>

inductive event_step :: "db \<Rightarrow> db \<Rightarrow> bool" where
  event_report: "\<lbrakk>upsert_event d k item = Inr (d', u); get_event d k = None; py_strip (ei_source item) \<noteq> ''system''\<rbrakk>
    \<Longrightarrow> event_step d d'"
| event_lost: "\<lbrakk>source_lost d k cam observed_at stream app vhost = Inr (d', e); get_event d k = None\<rbrakk> \<Longrightarrow> event_step d d'"
| event_recovered: "source_recovered d cam observed_at stream app vhost = Inr (d', r) \<Longrightarrow> event_step d d'"
| event_restart: "\<lbrakk>runtime_restarted d ks cams observed_at = Inr (d', es); distinct ks; \<And>k. k \<in> set ks \<Longrightarrow> get_event d k = None\<rbrakk>
    \<Longrightarrow> event_step d d'"
| event_health: "\<lbrakk>storage_health_transition d k nonce t name observed_at level ob = Inr (d', h); get_event d k = None;
    nonce_free d nonce\<rbrakk> \<Longrightarrow> event_step d d'"

lemma event_step_ok: "event_step d d' \<Longrightarrow> intervals_ok d \<Longrightarrow> intervals_ok d'"
  by (cases rule: event_step.cases)
    (blast intro: provider_report_ok source_lost_ok source_recovered_ok runtime_restarted_ok storage_health_ok)+

section \<open>Properties\<close>


text \<open>
  The contract of the storage observer: per target the level last reported and since when, nothing
  while it is fine.
\<close>

definition health_now :: "db \<Rightarrow> uuid \<Rightarrow> (string option \<times> instant) option" where
  "health_now d t = map_option (\<lambda>e. (ev_label e, ev_started_at e)) (open_storage_health d t)"

definition observe_level :: "string \<Rightarrow> instant \<Rightarrow> (string option \<times> instant) option \<Rightarrow> (string option \<times> instant) option" where
  "observe_level level observed s =
     (if level = ''ok'' then None
      else case s of
        Some (label, since) \<Rightarrow> if label = Some (''storage_'' @ level) then s else Some (Some (''storage_'' @ level), observed)
      | None \<Rightarrow> Some (Some (''storage_'' @ level), observed))"

text \<open>
  C29: The events refine the contract. After an observation the open health event of the target names the
  observed level and starts where the target first reached that level, there is none exactly when
  the level is ok, and the other targets and all source losses are untouched.
\<close>

theorem storage_health_refines:
  assumes "intervals_ok d" and "t < 2 ^ 128"
    and "storage_health_transition d k nonce t name (Aware observed) level ob = Inr (d', h)"
  shows "health_now d' t = observe_level (py_lower (py_strip level)) observed (health_now d t)
    \<and> (\<forall>t' < 2 ^ 128. t' \<noteq> t \<longrightarrow> health_now d' t' = health_now d t')
    \<and> (\<forall>cam. open_source_loss d' cam = open_source_loss d cam)"
  using assms(3)
proof (cases rule: storage_health_cases)
  case (same observed' e)
  then show ?thesis by (simp add: health_now_def observe_level_def)
next
  case (recovered observed')
  note c = close_open_ok [OF assms(1)]
  show ?thesis using recovered c(2,4) c(3) [OF _ assms(2)] by (simp add: health_now_def observe_level_def)
next
  case (changed observed')
  then have o: "observed' = observed" by (simp add: require_utc_def)
  let ?l = "py_lower (py_strip level)"
  let ?e = "health_event k nonce t name observed ?l ob"
  note c = close_open_ok [OF assms(1), where observed = observed and level = ?l and t = t]
  have opened: "open_storage_health d' t = Some ?e" using changed(4) o c(2) by (simp add: add_event_opens)
  have others: "open_storage_health d' t' = open_storage_health d t'" if "t' < 2 ^ 128" "t' \<noteq> t" for t'
  proof -
    have "storage_instance t' \<noteq> storage_instance t"
      using uuid_str_inj [OF that(1) assms(2)] that(2) by (auto simp: storage_instance_def)
    then show ?thesis using changed(4) o c(3) [OF that(1) assms(2) that(2)] by simp
  qed
  have "open_source_loss d' cam = open_source_loss d cam" for cam using changed(4) o c(4) by simp
  moreover have "observe_level ?l observed (health_now d t) = Some (Some (''storage_'' @ ?l), observed)"
    using changed(2,3) by (cases "open_storage_health d t") (auto simp: observe_level_def health_now_def)
  ultimately show ?thesis using opened others by (simp add: health_now_def)
qed

lemma outage_facts:
  assumes "intervals_ok d" and "source_lost d k cam (Aware lost_at) stream app vhost = Inr (d1, e)"
    and "get_event d k = None" and "source_recovered d1 cam (Aware recovered_at) stream' app' vhost' = Inr (d2, r)"
  shows "open_source_loss d1 cam = Some e
    \<and> ev_started_at e = (case open_source_loss d cam of None \<Rightarrow> lost_at | Some x \<Rightarrow> ev_started_at x)
    \<and> open_source_loss d2 cam = None
    \<and> (\<exists>u. r = Some u \<and> u \<in> set (db_events d2) \<and> is_source_loss u \<and> ev_camera_id u = Some cam
          \<and> ev_started_at u = ev_started_at e \<and> ev_ended_at u = Some (max (ev_started_at e) recovered_at))
    \<and> (\<forall>cam' \<noteq> cam. open_source_loss d2 cam' = open_source_loss d cam')"
proof -
  have ok: "intervals_ok d1" by (rule source_lost_ok [OF assms(1,3,2)])
  have first: "open_source_loss d1 cam = Some e
      \<and> ev_started_at e = (case open_source_loss d cam of None \<Rightarrow> lost_at | Some x \<Rightarrow> ev_started_at x)
      \<and> (\<forall>cam' \<noteq> cam. open_source_loss d1 cam' = open_source_loss d cam')"
    using assms(2)
  proof (cases rule: source_lost_cases)
    case (still x)
    then have x: "x \<in> set (db_events d)" "open_loss cam x" using open_loss_iff [OF assms(1)] by blast+
    have "\<not> open_loss cam' x" if "cam' \<noteq> cam" for cam' using x(2) that open_loss_camera by blast
    then show ?thesis using still update_event_open(1) [OF assms(1) x, of e] update_event_keeps(1) [OF assms(1) x(1), of _ e] x(2)
      by simp
  next
    case (new observed)
    then show ?thesis by (auto simp: require_utc_def add_event_opens)
  qed
  from assms(4) have "open_source_loss d2 cam = None
      \<and> (\<exists>u. r = Some u \<and> u \<in> set (db_events d2) \<and> is_source_loss u \<and> ev_camera_id u = Some cam
          \<and> ev_started_at u = ev_started_at e \<and> ev_ended_at u = Some (max (ev_started_at e) recovered_at))
      \<and> (\<forall>cam' \<noteq> cam. open_source_loss d2 cam' = open_source_loss d1 cam')"
  proof (cases rule: source_recovered_cases)
    case none
    then show ?thesis using first by simp
  next
    case (closed x observed m)
    then have xe: "x = e" and o: "observed = recovered_at" using first by (simp_all add: require_utc_def)
    let ?u = "recovered_loss observed m e"
    have e: "e \<in> set (db_events d1)" "open_loss cam e" using first open_loss_iff [OF ok] by blast+
    have d2: "d2 = update_event (ev_id e) (\<lambda>_. ?u) d1" using closed(3) xe by simp
    then have "?u \<in> set (db_events d2)" using e(1) by (force simp: update_event_def)
    moreover have "\<not> open_loss cam' e" if "cam' \<noteq> cam" for cam' using e(2) that open_loss_camera by blast
    ultimately show ?thesis
      using closed(4) xe o d2 e(2) update_event_open(1) [OF ok e, of ?u] update_event_keeps(1) [OF ok e(1), of _ ?u]
      by (simp add: open_loss_def)
  qed
  with first show ?thesis by simp
qed

text \<open>
  An outage is recorded once, from the first loss to the recovery. A loss while the source is already
  lost keeps the start of the outage, a first loss opens one at the observed instant, and a recovery
  closes it, never before its start; what was recorded for other cameras stays.
\<close>

theorem outage_recorded:
  assumes "intervals_ok d" and "source_lost d k cam (Aware lost_at) stream app vhost = Inr (d1, e)"
    and "get_event d k = None" and "source_recovered d1 cam (Aware recovered_at) stream' app' vhost' = Inr (d2, r)"
  shows "open_source_loss d1 cam = Some e
    \<and> ev_started_at e = (case open_source_loss d cam of None \<Rightarrow> lost_at | Some x \<Rightarrow> ev_started_at x)
    \<and> open_source_loss d2 cam = None
    \<and> (\<exists>u. r = Some u \<and> u \<in> set (db_events d2) \<and> is_source_loss u \<and> ev_camera_id u = Some cam
          \<and> ev_started_at u = ev_started_at e \<and> ev_ended_at u = Some (max (ev_started_at e) recovered_at))
    \<and> (\<forall>cam' \<noteq> cam. open_source_loss d2 cam' = open_source_loss d cam')"
  using assms by (rule outage_facts)

section \<open>Concrete inputs\<close>

definition example_events :: db where
  "example_events = empty_db\<lparr>db_cameras := [\<lparr>cam_id = 7, cam_enabled = True, cam_maintenance = False\<rparr>]\<rparr>"

lemma example_intervals: "intervals_ok example_events"
  by (simp add: intervals_ok_def events_ok_def example_events_def empty_db_def)

lemma example_loss: "source_lost example_events 1 7 (Aware 10) ''s'' ''a'' ''v''
  = Inr (add_event (loss_event 1 7 10 (source_metadata ''s'' ''a'' ''v'')) example_events,
         loss_event 1 7 10 (source_metadata ''s'' ''a'' ''v''))"
proof -
  have "open_source_loss example_events 7 = None" "get_camera example_events 7 \<noteq> None"
    by (simp_all add: open_source_loss_def newest_None get_camera_def example_events_def empty_db_def)
  then show ?thesis by (simp add: source_lost_def require_utc_def Let_def)
qed

definition example_lost :: db where
  "example_lost = add_event (loss_event 1 7 10 (source_metadata ''s'' ''a'' ''v'')) example_events"

lemma example_open: "open_source_loss example_lost 7 = Some (loss_event 1 7 10 (source_metadata ''s'' ''a'' ''v''))"
  by (simp add: example_lost_def open_source_loss_def example_events_def empty_db_def)


definition example_observation :: observation where
  "example_observation = \<lparr>ob_error_code = None, ob_used_percent = Some 91, ob_free_bytes = None, ob_total_bytes = None\<rparr>"

lemma storage_health_refines_witness:
  "\<exists>d h. storage_health_transition example_events 1 2 3 ''disk'' (Aware 10) '' High '' example_observation = Inr (d, h)
     \<and> health_now d 3 = Some (Some ''storage_high'', 10)"
proof -
  have level: "py_lower (py_strip '' High '') = ''high''" by code_simp
  have "open_storage_health example_events 3 = None"
    by (simp add: open_storage_health_def newest_None example_events_def empty_db_def)
  then obtain d h where r: "storage_health_transition example_events 1 2 3 ''disk'' (Aware 10) '' High '' example_observation = Inr (d, h)"
    "health_now example_events 3 = None"
    by (auto simp: storage_health_transition_def level health_levels_def require_utc_def Let_def health_now_def)
  from storage_health_refines [OF example_intervals _ r(1)] r(2) have "health_now d 3 = Some (Some ''storage_high'', 10)"
    by (simp add: level observe_level_def)
  with r(1) show ?thesis by blast
qed

lemma outage_recorded_witness:
  "\<exists>d r. source_recovered example_lost 7 (Aware 25) ''s'' ''a'' ''v'' = Inr (d, r) \<and> open_source_loss d 7 = None
     \<and> (\<exists>u. r = Some u \<and> ev_started_at u = 10 \<and> ev_ended_at u = Some 25)"
proof -
  have fresh: "get_event example_events 1 = None" by (simp add: get_event_def example_events_def empty_db_def)
  obtain d r where r: "source_recovered example_lost 7 (Aware 25) ''s'' ''a'' ''v'' = Inr (d, r)"
    by (simp add: source_recovered_def example_open require_utc_def Let_def)
  from outage_recorded [OF example_intervals example_loss fresh r [unfolded example_lost_def]] r show ?thesis by auto
qed

end
