(* ===== verification/Timeline.thy ===== *)
theory Timeline
  imports Arbiter Capacity SystemEvents
begin

text \<open>
  \<open>modules/recordings/timeline.py\<close>: the playback timeline of a camera over a window. Recorded
  ranges are painted by the best copy of the media, everything without playable media is a gap with
  a reason, and events are shown one by one or in buckets. The playback cache is a parameter:
  \<open>cached id size\<close> tells whether a complete cached file exists.
\<close>

section \<open>Availability\<close>

text \<open>
  The availability names in ascending priority (\<open>availability_priority\<close> of \<open>build\<close>); the order of
  the type is that priority, so \<open>max\<close> is the code's \<open>max(..., key=...)\<close>.
\<close>

datatype availability = Purged | MissingMedia | Corrupted | Remote | CachedRemote | LocalMedia

fun availability_priority :: "availability \<Rightarrow> nat" where
  "availability_priority LocalMedia = 6"
| "availability_priority CachedRemote = 5"
| "availability_priority Remote = 4"
| "availability_priority Corrupted = 3"
| "availability_priority MissingMedia = 2"
| "availability_priority Purged = 1"

lemma availability_priority_inj: "availability_priority x = availability_priority y \<Longrightarrow> x = y"
  by (cases x; cases y) simp_all

instantiation availability :: linorder
begin

definition less_eq_availability :: "availability \<Rightarrow> availability \<Rightarrow> bool" where
  "less_eq_availability x y = (availability_priority x \<le> availability_priority y)"

definition less_availability :: "availability \<Rightarrow> availability \<Rightarrow> bool" where
  "less_availability x y = (availability_priority x < availability_priority y)"

instance
  by standard
    (auto simp: less_eq_availability_def less_availability_def intro: availability_priority_inj)

end

definition playable :: "availability \<Rightarrow> bool" where
  "playable v = (v \<in> {LocalMedia, Remote, CachedRemote})"

definition location_target_is :: "db \<Rightarrow> target_type \<Rightarrow> target_role \<Rightarrow> recording_location \<Rightarrow> bool" where
  "location_target_is d ty ro l = (case get_target d (lo_storage_target_id l) of
     None \<Rightarrow> False | Some t \<Rightarrow> st_type t = ty \<and> st_role t = ro)"

definition availability_of ::
    "(uuid \<Rightarrow> int \<Rightarrow> bool) option \<Rightarrow> db \<Rightarrow> recording_segment \<Rightarrow> availability" where
  "availability_of cache d s =
     (if py_upper (sg_integrity_status s) = ''CORRUPT'' then Corrupted
      else
        let locations = segment_locations d s;
            available = filter (\<lambda>l. lo_state l = Available) locations
        in if list_ex (location_target_is d LocalTarget RecordingRole) available then LocalMedia
           else if list_ex (location_target_is d RcloneTarget ArchiveRole) available
           then (case cache of
                   Some cached \<Rightarrow> if cached (sg_id s) (sg_size_bytes s) then CachedRemote else Remote
                 | None \<Rightarrow> Remote)
           else if list_ex (\<lambda>l. lo_state l = Missing) locations then MissingMedia
           else if locations \<noteq> [] \<and> list_all (\<lambda>l. lo_state l = Deleted) locations then Purged
           else MissingMedia)"

definition unavailable_reason :: "availability list \<Rightarrow> string" where
  "unavailable_reason states =
     (if Corrupted \<in> set states then ''storage_failure''
      else if MissingMedia \<in> set states then ''missing_media''
      else if states \<noteq> [] \<and> list_all (\<lambda>v. v = Purged) states then ''purged''
      else ''unknown'')"

section \<open>Why a range is empty\<close>

definition recording_target_id ::
    "(path \<Rightarrow> path) \<Rightarrow> (path \<Rightarrow> path) \<Rightarrow> db \<Rightarrow> uuid \<Rightarrow> uuid option" where
  "recording_target_id expand realpath d cam =
     (case (case policy_of_camera d cam of None \<Rightarrow> None | Some p \<Rightarrow> rp_storage_target_id p) of
        Some k \<Rightarrow> Some k
      | None \<Rightarrow> (case local_target_for_camera expand realpath d cam of
            Inl _ \<Rightarrow> None | Inr t \<Rightarrow> Some (st_id (lt_target t))))"

definition event_order :: "event_row \<Rightarrow> instant \<times> uuid" where
  "event_order e = (ev_started_at e, ev_id e)"

definition gap_evidence_events ::
    "(path \<Rightarrow> path) \<Rightarrow> (path \<Rightarrow> path) \<Rightarrow> db \<Rightarrow> uuid \<Rightarrow> instant \<Rightarrow> instant \<Rightarrow> event_row list" where
  "gap_evidence_events expand realpath d cam start_at end_at =
     (let camera_events = sort_key event_order
            (filter (\<lambda>e. ev_source e = ''system'' \<and> ev_source_instance_id e = Some ''zero-nvr''
                       \<and> ev_camera_id e = Some cam
                       \<and> ev_category e \<in> {''source_connectivity'', ''runtime_health''}
                       \<and> ev_started_at e \<le> end_at
                       \<and> (case ev_ended_at e of None \<Rightarrow> True | Some x \<Rightarrow> start_at \<le> x)) (db_events d))
      in case recording_target_id expand realpath d cam of
           None \<Rightarrow> camera_events
         | Some target_id \<Rightarrow>
             let storage_events = sort_key event_order
               (filter (\<lambda>e. ev_source e = ''system''
                          \<and> ev_source_instance_id e = Some (''storage-target:'' @ uuid_str target_id)
                          \<and> ev_category e = ''storage_health'' \<and> ev_started_at e < end_at
                          \<and> ends_after (ev_ended_at e) start_at) (db_events d))
             in sort_key event_order (camera_events @ storage_events))"

definition meets :: "event_row \<Rightarrow> instant \<Rightarrow> instant \<Rightarrow> bool" where
  "meets e start_at end_at = (ev_started_at e < end_at \<and> ends_after (ev_ended_at e) start_at)"

text \<open>\<open>ORDER BY ended_at DESC, id DESC LIMIT 1\<close>.\<close>

definition previous_segment :: "db \<Rightarrow> uuid \<Rightarrow> instant \<Rightarrow> recording_segment option" where
  "previous_segment d cam start_at =
     (case sort_key (\<lambda>s. (- sg_ended_at s, - int (sg_id s)))
             (filter (\<lambda>s. sg_camera_id s = cam \<and> sg_ended_at s \<le> start_at) (db_segments d)) of
        [] \<Rightarrow> None | s # _ \<Rightarrow> Some s)"

definition source_lost_before :: "db \<Rightarrow> uuid \<Rightarrow> instant \<Rightarrow> bool" where
  "source_lost_before d cam start_at =
     (case previous_segment d cam start_at of
        None \<Rightarrow> False
      | Some s \<Rightarrow> py_lower (case sg_completion_reason s of None \<Rightarrow> [] | Some r \<Rightarrow> r) = ''source_lost'')"

definition empty_reason ::
    "zones \<Rightarrow> db \<Rightarrow> uuid \<Rightarrow> recording_policy option \<Rightarrow> event_row list \<Rightarrow> instant \<Rightarrow> instant \<Rightarrow> string result" where
  "empty_reason zones d cam policy evidence start_at end_at =
     (case policy of
        None \<Rightarrow> Inr ''not_scheduled''
      | Some p \<Rightarrow>
          if \<not> rp_enabled p then Inr ''not_scheduled''
          else and_then (if rp_baseline_mode p = ''schedule''
                         then baseline_should_record zones p (midpoint start_at end_at)
                         else Inr True) (\<lambda>scheduled.
            if \<not> scheduled then Inr ''not_scheduled''
            else if rp_baseline_mode p = ''disabled'' \<and> rp_event_recording_enabled p
                    \<and> overlapping d cam start_at end_at = []
            then Inr ''no_event''
            else if rp_baseline_mode p = ''disabled'' \<and> \<not> rp_event_recording_enabled p
            then Inr ''not_scheduled''
            else if list_ex (\<lambda>e. is_source_loss e \<and> meets e start_at end_at) evidence
            then Inr ''source_lost''
            else if source_lost_before d cam start_at then Inr ''source_lost''
            else if list_ex (\<lambda>e. is_runtime_restart e \<and> start_at \<le> ev_started_at e
                               \<and> ev_started_at e \<le> end_at) evidence
            then Inr ''runtime_restart''
            else if list_ex (\<lambda>e. ev_category e = ''storage_health''
                               \<and> ev_label e \<in> {Some ''storage_critical'', Some ''storage_unavailable''}
                               \<and> meets e start_at end_at) evidence
            then Inr ''storage_failure''
            else Inr ''unknown''))"

section \<open>Event markers\<close>

datatype detail_level = DayDetail | HourDetail | MinuteDetail

definition detail_name :: "detail_level \<Rightarrow> string" where
  "detail_name x = (case x of DayDetail \<Rightarrow> ''day'' | HourDetail \<Rightarrow> ''hour'' | MinuteDetail \<Rightarrow> ''minute'')"

record marker =
  mk_id :: string
  mk_type :: string
  mk_category :: string
  mk_label :: "string option"
  mk_start_at :: instant
  mk_end_at :: "instant option"
  mk_count :: nat
  mk_category_counts :: "(string \<times> nat) list"
  mk_label_counts :: "(string \<times> nat) list"

text \<open>\<open>event.label\<close> where it is truthy.\<close>

definition given_label :: "event_row \<Rightarrow> string list" where
  "given_label e = (case ev_label e of None \<Rightarrow> [] | Some l \<Rightarrow> if l = [] then [] else [l])"

text \<open>\<open>dict(sorted(Counter(...).items()))\<close>.\<close>

definition counts :: "string list \<Rightarrow> (string \<times> nat) list" where
  "counts xs = map (\<lambda>k. (k, count_list xs k)) (sort (remdups xs))"

definition individual_event_marker :: "event_row \<Rightarrow> marker" where
  "individual_event_marker e =
     \<lparr>mk_id = uuid_str (ev_id e),
      mk_type = (if ends_after (ev_ended_at e) (ev_started_at e) then ''range'' else ''point''),
      mk_category = ev_category e, mk_label = ev_label e, mk_start_at = ev_started_at e,
      mk_end_at = ev_ended_at e, mk_count = 1,
      mk_category_counts = [(ev_category e, 1)], mk_label_counts = map (\<lambda>l. (l, 1)) (given_label e)\<rparr>"

definition event_in_bucket :: "instant \<Rightarrow> instant \<Rightarrow> instant \<Rightarrow> event_row \<Rightarrow> bool" where
  "event_in_bucket end_at bucket_start bucket_end e =
     (let event_end = (case ev_ended_at e of None \<Rightarrow> end_at | Some x \<Rightarrow> x);
          is_point = (case ev_ended_at e of None \<Rightarrow> False | Some x \<Rightarrow> x \<le> ev_started_at e)
      in if is_point then bucket_start \<le> ev_started_at e \<and> ev_started_at e < bucket_end
         else ev_started_at e < bucket_end \<and> bucket_start < event_end)"

definition bucket_marker ::
    "detail_level \<Rightarrow> instant \<Rightarrow> instant \<Rightarrow> int \<Rightarrow> instant \<Rightarrow> instant \<Rightarrow> event_row list \<Rightarrow> marker" where
  "bucket_marker detail start_at end_at cursor_epoch bucket_start bucket_end matching =
     (let category_counts = counts (map ev_category matching);
          label_counts = counts (concat (map given_label matching))
      in \<lparr>mk_id = ''aggregate:'' @ detail_name detail @ '':'' @ int_str cursor_epoch,
          mk_type = ''aggregate'',
          mk_category = (if length category_counts = 1 then fst (hd category_counts) else ''events''),
          mk_label = (if length label_counts = 1 \<and> sum_list (map snd label_counts) = length matching
                      then Some (fst (hd label_counts)) else None),
          mk_start_at = max bucket_start start_at, mk_end_at = Some (min bucket_end end_at),
          mk_count = length matching, mk_category_counts = category_counts,
          mk_label_counts = label_counts\<rparr>)"

definition bucket_seconds :: "detail_level \<Rightarrow> int" where
  "bucket_seconds detail = (if detail = DayDetail then 3600 else 300)"

lemma bucket_seconds_pos: "0 < bucket_seconds detail"
  by (simp add: bucket_seconds_def)

function bucket_markers ::
    "event_row list \<Rightarrow> instant \<Rightarrow> instant \<Rightarrow> detail_level \<Rightarrow> int \<Rightarrow> marker list" where
  "bucket_markers events start_at end_at detail cursor_epoch =
     (let bucket_start = seconds cursor_epoch; bucket_end = bucket_start + seconds (bucket_seconds detail) in
      if bucket_start \<ge> end_at then []
      else
        let matching = filter (event_in_bucket end_at bucket_start bucket_end) events;
            rest = bucket_markers events start_at end_at detail (cursor_epoch + bucket_seconds detail)
        in if matching = [] then rest
           else bucket_marker detail start_at end_at cursor_epoch bucket_start bucket_end matching # rest)"
  by pat_completeness auto
termination
  by (relation "measure (\<lambda>(events, start_at, end_at, detail, cursor_epoch). nat (end_at - seconds cursor_epoch))")
    (auto simp: seconds_def bucket_seconds_def)

declare bucket_markers.simps [simp del]

text \<open>\<open>int(start_at.timestamp())\<close> truncates towards zero.\<close>

definition int_timestamp :: "instant \<Rightarrow> int" where
  "int_timestamp t = (if 0 \<le> t then t div 1000000 else - ((- t) div 1000000))"

definition event_markers ::
    "event_row list \<Rightarrow> instant \<Rightarrow> instant \<Rightarrow> detail_level \<Rightarrow> marker list" where
  "event_markers events start_at end_at detail =
     (if detail = MinuteDetail then map individual_event_marker events
      else let start_epoch = int_timestamp start_at in
        bucket_markers events start_at end_at detail
          (start_epoch - start_epoch mod bucket_seconds detail))"

section \<open>Painting the window\<close>

record projected =
  pj_segment :: recording_segment
  pj_availability :: availability
  pj_start :: instant
  pj_end :: instant

definition project :: "(uuid \<Rightarrow> int \<Rightarrow> bool) option \<Rightarrow> db \<Rightarrow> instant \<Rightarrow> instant
    \<Rightarrow> recording_segment list \<Rightarrow> projected list" where
  "project cache d start_at end_at segments =
     filter (\<lambda>p. pj_start p < pj_end p)
       (map (\<lambda>s. \<lparr>pj_segment = s, pj_availability = availability_of cache d s,
                  pj_start = max (sg_started_at s) start_at, pj_end = min (sg_ended_at s) end_at\<rparr>)
          segments)"

text \<open>The search for schedule transitions inside the window, at most 4096 steps.\<close>

fun schedule_boundaries ::
    "zones \<Rightarrow> recording_policy \<Rightarrow> instant \<Rightarrow> instant \<Rightarrow> nat \<Rightarrow> instant \<Rightarrow> instant list result" where
  "schedule_boundaries zones policy start_at end_at 0 cursor = Inr []"
| "schedule_boundaries zones policy start_at end_at (Suc n) cursor =
     and_then (next_baseline_transition zones policy cursor) (\<lambda>transition. case transition of
         None \<Rightarrow> Inr []
       | Some t \<Rightarrow>
           if t \<ge> end_at then Inr []
           else and_then (schedule_boundaries zones policy start_at end_at n t) (\<lambda>rest.
                Inr ((if t > start_at then [t] else []) @ rest)))"

definition event_boundaries :: "instant \<Rightarrow> instant \<Rightarrow> event_row \<Rightarrow> instant list" where
  "event_boundaries start_at end_at e =
     filter (\<lambda>t. start_at < t \<and> t < end_at)
       (ev_started_at e # (case ev_ended_at e of None \<Rightarrow> [] | Some x \<Rightarrow> [x]))"

text \<open>Append a painted range, or extend the last one if it touches it with the same value.\<close>

definition push_range ::
    "instant \<times> instant \<times> 'v \<Rightarrow> (instant \<times> instant \<times> 'v) list \<Rightarrow> (instant \<times> instant \<times> 'v) list" where
  "push_range r rs =
     (case r of (left, right, v) \<Rightarrow>
        if rs \<noteq> [] \<and> snd (snd (last rs)) = v \<and> fst (snd (last rs)) = left
        then butlast rs @ [(fst (last rs), right, v)]
        else rs @ [(left, right, v)])"

definition overlapping_items :: "projected list \<Rightarrow> instant \<Rightarrow> instant \<Rightarrow> projected list" where
  "overlapping_items projected left right = filter (\<lambda>p. pj_start p < right \<and> left < pj_end p) projected"

definition best_availability :: "projected list \<Rightarrow> availability option" where
  "best_availability items =
     (case map pj_availability items of [] \<Rightarrow> None | v # vs \<Rightarrow> Some (foldl max v vs))"

text \<open>The reason of a gap, \<open>None\<close> where the piece is playable.\<close>

definition piece_reason ::
    "(instant \<Rightarrow> instant \<Rightarrow> string result) \<Rightarrow> projected list \<Rightarrow> instant \<Rightarrow> instant \<Rightarrow> string option result" where
  "piece_reason why projected left right =
     (let items = overlapping_items projected left right in
      case best_availability items of
        Some v \<Rightarrow> Inr (if playable v then None else Some (unavailable_reason (map pj_availability items)))
      | None \<Rightarrow> and_then (why left right) (\<lambda>reason. Inr (Some reason)))"

fun paint ::
    "(instant \<Rightarrow> instant \<Rightarrow> string result) \<Rightarrow> projected list \<Rightarrow> instant list
     \<Rightarrow> (instant \<times> instant \<times> availability) list \<Rightarrow> (instant \<times> instant \<times> string) list
     \<Rightarrow> ((instant \<times> instant \<times> availability) list \<times> (instant \<times> instant \<times> string) list) result" where
  "paint why projected (left # right # ordered) ranges gaps =
     and_then (piece_reason why projected left right) (\<lambda>reason.
       paint why projected (right # ordered)
         (case best_availability (overlapping_items projected left right) of
            None \<Rightarrow> ranges | Some v \<Rightarrow> push_range (left, right, v) ranges)
         (case reason of None \<Rightarrow> gaps | Some r \<Rightarrow> push_range (left, right, r) gaps))"
| "paint why projected ordered ranges gaps = Inr (ranges, gaps)"

record timeline =
  tl_segments :: "(uuid \<times> instant \<times> instant \<times> availability) list"
  tl_ranges :: "(instant \<times> instant \<times> availability) list"
  tl_gaps :: "(instant \<times> instant \<times> string) list"
  tl_events :: "marker list"

definition timeline_events :: "db \<Rightarrow> uuid \<Rightarrow> instant \<Rightarrow> instant \<Rightarrow> event_row list" where
  "timeline_events d cam start_at end_at =
     sort_key event_order
       (filter (\<lambda>e. ev_camera_id e = Some cam \<and> ev_started_at e < end_at
                  \<and> (start_at \<le> ev_started_at e \<or> ends_after (ev_ended_at e) start_at)) (db_events d))"

definition window_boundaries_of ::
    "instant \<Rightarrow> instant \<Rightarrow> projected list \<Rightarrow> instant list \<Rightarrow> event_row list \<Rightarrow> event_row list \<Rightarrow> instant list" where
  "window_boundaries_of start_at end_at items transitions evidence events =
     sort (remdups ([start_at, end_at] @ map pj_start items @ map pj_end items @ transitions
       @ concat (map (event_boundaries start_at end_at) evidence)
       @ concat (map (event_boundaries start_at end_at) (filter is_source_loss events))))"

definition build_timeline ::
    "zones \<Rightarrow> (path \<Rightarrow> path) \<Rightarrow> (path \<Rightarrow> path) \<Rightarrow> (uuid \<Rightarrow> int \<Rightarrow> bool) option \<Rightarrow> db \<Rightarrow> uuid
     \<Rightarrow> instant \<Rightarrow> instant \<Rightarrow> detail_level \<Rightarrow> timeline result" where
  "build_timeline zones expand realpath cache d cam start_at end_at detail =
     (let items = project cache d start_at end_at (segments_overlapping d cam start_at end_at);
          events = timeline_events d cam start_at end_at;
          policy = policy_of_camera d cam;
          evidence = gap_evidence_events expand realpath d cam start_at end_at
      in and_then (case policy of
             None \<Rightarrow> Inr []
           | Some p \<Rightarrow> if rp_enabled p \<and> rp_baseline_mode p = ''schedule''
               then schedule_boundaries zones p start_at end_at 4096 start_at else Inr []) (\<lambda>transitions.
         and_then (paint (empty_reason zones d cam policy evidence) items
                     (window_boundaries_of start_at end_at items transitions evidence events) [] [])
           (\<lambda>(ranges, gaps).
         Inr \<lparr>tl_segments = map (\<lambda>p. (sg_id (pj_segment p), sg_started_at (pj_segment p),
                                       sg_ended_at (pj_segment p), pj_availability p)) items,
              tl_ranges = ranges, tl_gaps = gaps,
              tl_events = event_markers events start_at end_at detail\<rparr>)))"

section \<open>Painted ranges\<close>

definition painted :: "(instant \<times> instant \<times> 'v) list \<Rightarrow> instant \<Rightarrow> 'v \<Rightarrow> bool" where
  "painted rs t v \<longleftrightarrow> (\<exists>(x, y, w) \<in> set rs. x \<le> t \<and> t < y \<and> w = v)"

text \<open>Non-empty ranges in order, up to \<open>u\<close>; two that touch have different values.\<close>

definition ranges_ok :: "instant \<Rightarrow> (instant \<times> instant \<times> 'v) list \<Rightarrow> bool" where
  "ranges_ok u rs \<longleftrightarrow>
     (\<forall>(x, y, v) \<in> set rs. x < y \<and> y \<le> u)
     \<and> sorted_wrt (\<lambda>(x, y, v) (x', y', v'). y \<le> x' \<and> (y = x' \<longrightarrow> v \<noteq> v')) rs"

lemma ranges_ok_Nil [simp]: "ranges_ok u []"
  by (simp add: ranges_ok_def)

lemma painted_Nil [simp]: "\<not> painted [] t v"
  by (simp add: painted_def)

lemma painted_append: "painted (xs @ ys) t v \<longleftrightarrow> painted xs t v \<or> painted ys t v"
  by (auto simp: painted_def)

lemma ranges_ok_mono: "ranges_ok u rs \<Longrightarrow> u \<le> u' \<Longrightarrow> ranges_ok u' rs"
  by (fastforce simp: ranges_ok_def)

lemma ranges_ok_snoc:
  "ranges_ok u (rs @ [(x, y, v)]) \<longleftrightarrow>
   ranges_ok u rs \<and> x < y \<and> y \<le> u \<and> (\<forall>(x', y', v') \<in> set rs. y' \<le> x \<and> (y' = x \<longrightarrow> v' \<noteq> v))"
  by (auto simp: ranges_ok_def sorted_wrt_append)

lemma push_range_paints:
  assumes "ranges_ok left rs" and "left < right"
  shows "ranges_ok right (push_range (left, right, v) rs)
    \<and> (\<forall>t w. painted (push_range (left, right, v) rs) t w
          \<longleftrightarrow> painted rs t w \<or> (left \<le> t \<and> t < right \<and> w = v))"
proof (cases rs rule: rev_cases)
  case Nil
  with assms show ?thesis by (auto simp: push_range_def ranges_ok_def painted_def)
next
  case (snoc qs q)
  obtain x y w where q: "q = (x, y, w)" by (cases q)
  note ok = assms(1) [unfolded snoc q ranges_ok_snoc]
  show ?thesis
  proof (cases "w = v \<and> y = left")
    case True
    then have push: "push_range (left, right, v) rs = qs @ [(x, right, v)]"
      by (simp add: push_range_def snoc q)
    have "ranges_ok right (qs @ [(x, right, v)])"
      unfolding ranges_ok_snoc using ok True assms(2) ranges_ok_mono [of left qs right] by auto
    moreover have "painted (qs @ [(x, right, v)]) t u
        \<longleftrightarrow> painted rs t u \<or> (left \<le> t \<and> t < right \<and> u = v)" for t u
      using ok True assms(2) by (auto simp: snoc q painted_append painted_def)
    ultimately show ?thesis by (simp add: push)
  next
    case False
    then have push: "push_range (left, right, v) rs = rs @ [(left, right, v)]"
      by (auto simp: push_range_def snoc q)
    have "y' \<le> left \<and> (y' = left \<longrightarrow> v' \<noteq> v)" if "(x', y', v') \<in> set rs" for x' y' v'
    proof (cases "(x', y', v') = (x, y, w)")
      case True
      with ok False show ?thesis by auto
    next
      case other: False
      with that have "(x', y', v') \<in> set qs" unfolding snoc q by auto
      with ok have "y' \<le> x" by auto
      with ok show ?thesis by auto
    qed
    moreover have "ranges_ok right rs" using ranges_ok_mono [OF assms(1)] assms(2) by simp
    ultimately have "ranges_ok right (rs @ [(left, right, v)])"
      unfolding ranges_ok_snoc using assms(2) by blast
    moreover have "painted (rs @ [(left, right, v)]) t u
        \<longleftrightarrow> painted rs t u \<or> (left \<le> t \<and> t < right \<and> u = v)" for t u
      by (auto simp: painted_append painted_def)
    ultimately show ?thesis by (simp add: push)
  qed
qed

text \<open>The pieces of the window: neighbours of the sorted boundaries.\<close>

definition piece :: "instant list \<Rightarrow> instant \<Rightarrow> instant \<Rightarrow> bool" where
  "piece xs l r \<longleftrightarrow> (l, r) \<in> set (zip xs (tl xs))"

lemma piece_simps [simp]:
  "\<not> piece [] l r" "\<not> piece [x] l r"
  "piece (x # y # xs) l r \<longleftrightarrow> (l = x \<and> r = y) \<or> piece (y # xs) l r"
  by (auto simp: piece_def)

lemma piece_exists:
  "xs \<noteq> [] \<Longrightarrow> hd xs \<le> t \<Longrightarrow> t < last xs \<Longrightarrow> \<exists>l r. piece xs l r \<and> l \<le> t \<and> t < r"
proof (induction xs)
  case (Cons x xs)
  show ?case
  proof (cases xs)
    case Nil
    with Cons show ?thesis by auto
  next
    case (Cons y ys)
    show ?thesis
    proof (cases "t < y")
      case True
      with Cons.prems \<open>xs = y # ys\<close> show ?thesis by auto
    next
      case False
      with Cons.IH Cons.prems \<open>xs = y # ys\<close> have "\<exists>l r. piece xs l r \<and> l \<le> t \<and> t < r" by auto
      with \<open>xs = y # ys\<close> show ?thesis by auto
    qed
  qed
qed simp

lemma piece_bounds: "sorted_wrt (<) xs \<Longrightarrow> piece xs l r \<Longrightarrow>
    l \<in> set xs \<and> r \<in> set xs \<and> l < r \<and> (\<forall>b \<in> set xs. b \<le> l \<or> r \<le> b)"
proof (induction xs)
  case (Cons x xs)
  show ?case
  proof (cases xs)
    case Nil
    with Cons show ?thesis by simp
  next
    case (Cons y ys)
    note xs = Cons
    have below: "x < y" "\<forall>b \<in> set ys. y < b" "sorted_wrt (<) xs"
      using Cons.prems(1) xs by auto
    show ?thesis
    proof (cases "l = x \<and> r = y")
      case True
      then show ?thesis using below xs by auto
    next
      case False
      then have "piece xs l r" using Cons.prems(2) xs by auto
      with Cons.IH below(3) have ih: "l \<in> set xs \<and> r \<in> set xs \<and> l < r \<and> (\<forall>b \<in> set xs. b \<le> l \<or> r \<le> b)"
        by blast
      then have "x < l" using below xs by auto
      with ih show ?thesis by auto
    qed
  qed
qed simp

lemma piece_unique:
  assumes "sorted_wrt (<) xs" and "piece xs l r" "piece xs l' r'"
    and "l \<le> t" "t < r" "l' \<le> t" "t < r'"
  shows "l = l' \<and> r = r'"
proof -
  note a = piece_bounds [OF assms(1,2)] and b = piece_bounds [OF assms(1,3)]
  have "l' \<le> l \<or> r \<le> l'" "r' \<le> l \<or> r \<le> r'" using a b by blast+
  moreover have "l \<le> l' \<or> r' \<le> l" "r \<le> l' \<or> r' \<le> r" using a b by blast+
  ultimately show ?thesis using assms(4-7) by linarith
qed

lemma paint_ranges:
  assumes "paint why items ordered ranges gaps = Inr (R, G)"
    and "sorted_wrt (<) ordered" and "ordered \<noteq> []"
    and "ranges_ok (hd ordered) ranges" and "ranges_ok (hd ordered) gaps"
  shows "ranges_ok (last ordered) R \<and> ranges_ok (last ordered) G
    \<and> (\<forall>t v. painted R t v \<longleftrightarrow> painted ranges t v
         \<or> (\<exists>l r. piece ordered l r \<and> l \<le> t \<and> t < r
              \<and> best_availability (overlapping_items items l r) = Some v))
    \<and> (\<forall>t v. painted G t v \<longleftrightarrow> painted gaps t v
         \<or> (\<exists>l r. piece ordered l r \<and> l \<le> t \<and> t < r \<and> piece_reason why items l r = Inr (Some v)))"
  using assms
proof (induction why items ordered ranges gaps rule: paint.induct)
  case (1 why items left right ordered ranges gaps)
  from "1.prems"(1) obtain reason where reason: "piece_reason why items left right = Inr reason"
    and rest: "paint why items (right # ordered)
         (case best_availability (overlapping_items items left right) of
            None \<Rightarrow> ranges | Some v \<Rightarrow> push_range (left, right, v) ranges)
         (case reason of None \<Rightarrow> gaps | Some r \<Rightarrow> push_range (left, right, r) gaps) = Inr (R, G)"
    by (auto simp: and_then_eq_Inr)
  let ?ranges = "case best_availability (overlapping_items items left right) of
            None \<Rightarrow> ranges | Some v \<Rightarrow> push_range (left, right, v) ranges"
  let ?gaps = "case reason of None \<Rightarrow> gaps | Some r \<Rightarrow> push_range (left, right, r) gaps"
  have lr: "left < right" using "1.prems"(2) by simp
  have ranges: "ranges_ok right ?ranges \<and> (\<forall>t v. painted ?ranges t v \<longleftrightarrow> painted ranges t v
      \<or> (left \<le> t \<and> t < right \<and> best_availability (overlapping_items items left right) = Some v))"
    using "1.prems"(4) lr push_range_paints [of left ranges right] ranges_ok_mono [of left ranges right]
    by (auto split: option.splits)
  have gaps: "ranges_ok right ?gaps \<and> (\<forall>t v. painted ?gaps t v \<longleftrightarrow> painted gaps t v
      \<or> (left \<le> t \<and> t < right \<and> piece_reason why items left right = Inr (Some v)))"
    using "1.prems"(5) lr push_range_paints [of left gaps right] ranges_ok_mono [of left gaps right] reason
    by (auto split: option.splits)
  have sorted: "sorted_wrt (<) (right # ordered)" using "1.prems"(2) by simp
  from "1.IH" [OF rest sorted] ranges gaps
  have done_R: "ranges_ok (last (right # ordered)) R" and done_G: "ranges_ok (last (right # ordered)) G"
    and R: "\<And>t v. painted R t v \<longleftrightarrow> painted ?ranges t v
         \<or> (\<exists>l r. piece (right # ordered) l r \<and> l \<le> t \<and> t < r
              \<and> best_availability (overlapping_items items l r) = Some v)"
    and G: "\<And>t v. painted G t v \<longleftrightarrow> painted ?gaps t v
         \<or> (\<exists>l r. piece (right # ordered) l r \<and> l \<le> t \<and> t < r
              \<and> piece_reason why items l r = Inr (Some v))"
    by auto
  have "painted R t v \<longleftrightarrow> painted ranges t v
         \<or> (\<exists>l r. piece (left # right # ordered) l r \<and> l \<le> t \<and> t < r
              \<and> best_availability (overlapping_items items l r) = Some v)" for t v
    using R [of t v] ranges by auto
  moreover have "painted G t v \<longleftrightarrow> painted gaps t v
         \<or> (\<exists>l r. piece (left # right # ordered) l r \<and> l \<le> t \<and> t < r
              \<and> piece_reason why items l r = Inr (Some v))" for t v
    using G [of t v] gaps by auto
  ultimately show ?case using done_R done_G by simp
qed auto

lemma fold_max_foldl: "fold max vs (v :: 'a :: linorder) = foldl max v vs"
  by (induction vs arbitrary: v) (simp_all add: max.commute)

lemma foldl_max_Max: "foldl max (v :: 'a :: linorder) vs = Max (set (v # vs))"
  using Max.set_eq_fold [of v vs] by (simp add: fold_max_foldl)

lemma best_availability_Max:
  "best_availability items = (if items = [] then None else Some (Max (pj_availability ` set items)))"
proof (cases "map pj_availability items")
  case (Cons v vs)
  then have "items \<noteq> []" "pj_availability ` set items = set (v # vs)"
    by (auto simp flip: set_map)
  with Cons show ?thesis by (simp add: best_availability_def foldl_max_Max del: list.set(2))
qed (simp add: best_availability_def)

section \<open>The timeline of a window\<close>

definition covering :: "db \<Rightarrow> uuid \<Rightarrow> instant \<Rightarrow> recording_segment set" where
  "covering d cam t =
     {s \<in> set (db_segments d). sg_camera_id s = cam \<and> sg_started_at s \<le> t \<and> t < sg_ended_at s}"

lemma project_covering:
  assumes "start_at \<le> t" and "t < end_at"
  shows "pj_availability ` {p \<in> set (project cache d start_at end_at (segments_overlapping d cam start_at end_at)).
            pj_start p \<le> t \<and> t < pj_end p}
         = availability_of cache d ` covering d cam t"
proof -
  have segs: "set (segments_overlapping d cam start_at end_at)
      = {s \<in> set (db_segments d). sg_camera_id s = cam \<and> sg_started_at s < end_at \<and> start_at < sg_ended_at s}"
    by (rule media.query_set)
  define mk where "mk = (\<lambda>s. \<lparr>pj_segment = s, pj_availability = availability_of cache d s,
                  pj_start = max (sg_started_at s) start_at, pj_end = min (sg_ended_at s) end_at\<rparr>)"
  have mk: "pj_start (mk s) = max (sg_started_at s) start_at" "pj_end (mk s) = min (sg_ended_at s) end_at"
    "pj_availability (mk s) = availability_of cache d s" for s
    by (simp_all add: mk_def)
  have "{p \<in> set (project cache d start_at end_at (segments_overlapping d cam start_at end_at)).
            pj_start p \<le> t \<and> t < pj_end p}
      = mk ` {s \<in> set (segments_overlapping d cam start_at end_at). sg_started_at s \<le> t \<and> t < sg_ended_at s}"
    using assms by (auto simp: project_def mk_def [symmetric] mk)
  also have "{s \<in> set (segments_overlapping d cam start_at end_at). sg_started_at s \<le> t \<and> t < sg_ended_at s}
      = covering d cam t"
    using assms by (auto simp: segs covering_def)
  finally show ?thesis by (simp add: image_image mk)
qed

lemma schedule_boundaries_inside:
  "schedule_boundaries zones p a b n cursor = Inr ts \<Longrightarrow> t \<in> set ts \<Longrightarrow> a < t \<and> t < b"
proof (induction n arbitrary: cursor ts)
  case (Suc n)
  from Suc.prems(1) obtain x where x: "next_baseline_transition zones p cursor = Inr x"
    by (auto simp: and_then_eq_Inr)
  show ?case
  proof (cases "x = None \<or> the x \<ge> b")
    case True
    with Suc.prems x show ?thesis by (auto split: option.splits if_splits)
  next
    case False
    with Suc.prems(1) x obtain u rest where u: "x = Some u" "u < b"
      and rest: "schedule_boundaries zones p a b n u = Inr rest"
      and ts: "ts = (if u > a then [u] else []) @ rest"
      by (auto simp: and_then_eq_Inr split: if_splits)
    with Suc.prems(2) Suc.IH [OF rest] show ?thesis by (auto split: if_splits)
  qed
qed simp

lemma project_inside:
  "p \<in> set (project cache d a b segs) \<Longrightarrow> a \<le> pj_start p \<and> pj_start p < pj_end p \<and> pj_end p \<le> b"
  by (auto simp: project_def)

lemma event_boundaries_inside: "t \<in> set (event_boundaries a b e) \<Longrightarrow> a < t \<and> t < b"
  unfolding event_boundaries_def set_filter by blast

lemma sorted_ends:
  assumes "sorted_wrt (<) xs" and "a \<in> set xs" "b \<in> set xs" and "\<forall>x \<in> set xs. a \<le> x \<and> x \<le> (b :: int)"
  shows "xs \<noteq> [] \<and> hd xs = a \<and> last xs = b"
proof -
  from assms(2) have ne: "xs \<noteq> []" by auto
  have "sorted xs" using assms(1) by (simp add: strict_sorted_iff)
  then have "hd xs \<le> a" using ne assms(2) by (cases xs) auto
  moreover have "a \<le> hd xs" using ne assms(4) by simp
  moreover have "b \<le> last xs"
    using \<open>sorted xs\<close> assms(3) by (cases xs rule: rev_cases) (auto simp: sorted_append)
  moreover have "last xs \<le> b" using ne assms(4) by simp
  ultimately show ?thesis using ne by simp
qed

lemma window_boundaries_facts:
  fixes evidence events :: "event_row list"
  assumes "a < b"
    and items: "\<forall>p \<in> set items. a \<le> pj_start p \<and> pj_start p < pj_end p \<and> pj_end p \<le> b"
    and ts: "\<forall>t \<in> set transitions. a < t \<and> t < b"
  defines "xs \<equiv> window_boundaries_of a b items transitions evidence events"
  shows "sorted_wrt (<) xs \<and> xs \<noteq> [] \<and> hd xs = a \<and> last xs = b
    \<and> (\<forall>p \<in> set items. pj_start p \<in> set xs \<and> pj_end p \<in> set xs)"
proof -
  have sorted: "sorted_wrt (<) xs"
    by (simp add: xs_def window_boundaries_of_def strict_sorted_iff)
  have mem: "set xs = {a, b} \<union> pj_start ` set items \<union> pj_end ` set items \<union> set transitions
      \<union> (\<Union>e \<in> set evidence. set (event_boundaries a b e))
      \<union> (\<Union>e \<in> set (filter is_source_loss events). set (event_boundaries a b e))"
    unfolding xs_def window_boundaries_of_def
    by (simp only: set_sort set_remdups set_append set_concat set_map list.set image_image Un_assoc)
  have "a \<le> x \<and> x \<le> b" if "x \<in> set xs" for x
  proof -
    from that consider "x = a \<or> x = b" | p where "p \<in> set items" "x = pj_start p \<or> x = pj_end p"
      | "x \<in> set transitions" | e where "x \<in> set (event_boundaries a b e)"
      unfolding mem by blast
    then show ?thesis
    proof cases
      case 2
      with items have "a \<le> pj_start p" "pj_start p < pj_end p" "pj_end p \<le> b" by blast+
      with 2(2) show ?thesis by auto
    next
      case 3
      with ts show ?thesis by (meson less_imp_le)
    next
      case 4
      with event_boundaries_inside [of x a b e] show ?thesis by simp
    qed (use assms(1) in auto)
  qed
  with sorted_ends [OF sorted, of a b] mem sorted show ?thesis by auto
qed

text \<open>Inside a piece nothing starts or ends, so the overlapping items are the items at any instant of it.\<close>

lemma piece_items:
  assumes "sorted_wrt (<) xs" and "piece xs l r" and "l \<le> t" "t < r"
    and "\<forall>p \<in> set items. pj_start p \<in> set xs \<and> pj_end p \<in> set xs"
  shows "set (overlapping_items items l r) = {p \<in> set items. pj_start p \<le> t \<and> t < pj_end p}"
  using piece_bounds [OF assms(1,2)] assms(3-5) by (fastforce simp: overlapping_items_def)

lemma build_timeline_cases:
  assumes "build_timeline zones expand realpath cache d cam a b detail = Inr tml"
  obtains items evidence transitions where
    "items = project cache d a b (segments_overlapping d cam a b)"
    "\<forall>t \<in> set transitions. a < t \<and> t < b"
    "paint (empty_reason zones d cam (policy_of_camera d cam) evidence) items
       (window_boundaries_of a b items transitions evidence (timeline_events d cam a b)) [] []
     = Inr (tl_ranges tml, tl_gaps tml)"
    "tl_events tml = event_markers (timeline_events d cam a b) a b detail"
proof -
  from assms obtain transitions R G where
    "(case policy_of_camera d cam of
             None \<Rightarrow> Inr []
           | Some p \<Rightarrow> if rp_enabled p \<and> rp_baseline_mode p = ''schedule''
               then schedule_boundaries zones p a b 4096 a else Inr []) = Inr transitions"
    and "paint (empty_reason zones d cam (policy_of_camera d cam) (gap_evidence_events expand realpath d cam a b))
       (project cache d a b (segments_overlapping d cam a b))
       (window_boundaries_of a b (project cache d a b (segments_overlapping d cam a b)) transitions
          (gap_evidence_events expand realpath d cam a b) (timeline_events d cam a b)) [] [] = Inr (R, G)"
    and "tl_ranges tml = R" "tl_gaps tml = G"
    and "tl_events tml = event_markers (timeline_events d cam a b) a b detail"
    by (auto simp: build_timeline_def and_then_eq_Inr Let_def)
  then show thesis
    by (intro that [OF refl, of transitions "gap_evidence_events expand realpath d cam a b"])
      (auto dest: schedule_boundaries_inside split: option.splits if_splits)
qed

lemma paint_reasons:
  "paint why items ordered ranges gaps = Inr res \<Longrightarrow> piece ordered l r \<Longrightarrow> \<exists>x. piece_reason why items l r = Inr x"
  by (induction why items ordered ranges gaps rule: paint.induct) (auto simp: and_then_eq_Inr)

lemma timeline_at:
  assumes build: "build_timeline zones expand realpath cache d cam a b detail = Inr tml"
    and t: "a \<le> t" "t < b"
  obtains its where
    "ranges_ok b (tl_ranges tml)" "ranges_ok b (tl_gaps tml)"
    "pj_availability ` set its = availability_of cache d ` covering d cam t"
    "\<And>v. painted (tl_ranges tml) t v \<longleftrightarrow> best_availability its = Some v"
    "its = [] \<Longrightarrow> \<exists>g. painted (tl_gaps tml) t g"
    "\<And>v g. best_availability its = Some v \<Longrightarrow>
       painted (tl_gaps tml) t g \<longleftrightarrow> \<not> playable v \<and> g = unavailable_reason (map pj_availability its)"
proof -
  obtain items evidence transitions where
    items: "items = project cache d a b (segments_overlapping d cam a b)"
    and ts: "\<forall>t \<in> set transitions. a < t \<and> t < b"
    and paint: "paint (empty_reason zones d cam (policy_of_camera d cam) evidence) items
       (window_boundaries_of a b items transitions evidence (timeline_events d cam a b)) [] []
     = Inr (tl_ranges tml, tl_gaps tml)"
    using build by (rule build_timeline_cases)
  define xs where "xs = window_boundaries_of a b items transitions evidence (timeline_events d cam a b)"
  define why where "why = empty_reason zones d cam (policy_of_camera d cam) evidence"
  have inside: "\<forall>p \<in> set items. a \<le> pj_start p \<and> pj_start p < pj_end p \<and> pj_end p \<le> b"
    using project_inside items by blast
  have ab: "a < b" using t by simp
  from window_boundaries_facts [OF ab inside ts]
  have xs: "sorted_wrt (<) xs" "xs \<noteq> []" "hd xs = a" "last xs = b"
    "\<forall>p \<in> set items. pj_start p \<in> set xs \<and> pj_end p \<in> set xs"
    unfolding xs_def by blast+
  note painted_at = paint_ranges [OF paint [folded xs_def why_def] xs(1,2) ranges_ok_Nil ranges_ok_Nil, unfolded xs(4)]
  from piece_exists [OF xs(2), of t] xs(3,4) t obtain l r where lr: "piece xs l r" "l \<le> t" "t < r" by auto
  have only: "l' = l \<and> r' = r" if "piece xs l' r'" "l' \<le> t" "t < r'" for l' r'
    using piece_unique [OF xs(1) that(1) lr(1) that(2,3) lr(2,3)] .
  define its where "its = overlapping_items items l r"
  have its: "set its = {p \<in> set items. pj_start p \<le> t \<and> t < pj_end p}"
    unfolding its_def by (rule piece_items [OF xs(1) lr xs(5)])
  have R: "painted (tl_ranges tml) t v \<longleftrightarrow> best_availability its = Some v" for v
    using painted_at lr only unfolding its_def by (metis painted_Nil)
  have G: "painted (tl_gaps tml) t g \<longleftrightarrow> piece_reason why items l r = Inr (Some g)" for g
    using painted_at lr only by (metis painted_Nil)
  obtain x where x: "piece_reason why items l r = Inr x"
    using paint_reasons [OF paint [folded xs_def why_def] lr(1)] by blast
  show thesis
  proof (rule that [of its])
    show "ranges_ok b (tl_ranges tml)" "ranges_ok b (tl_gaps tml)" using painted_at by blast+
    show "pj_availability ` set its = availability_of cache d ` covering d cam t"
      unfolding its items by (rule project_covering [OF t])
    show "\<exists>g. painted (tl_gaps tml) t g" if "its = []"
      using x that unfolding G
      by (auto simp: piece_reason_def its_def [symmetric] best_availability_def and_then_eq_Inr)
    show "painted (tl_gaps tml) t g \<longleftrightarrow> \<not> playable v \<and> g = unavailable_reason (map pj_availability its)"
      if "best_availability its = Some v" for v g
      using that unfolding G by (auto simp: piece_reason_def its_def [symmetric])
  qed (rule R)
qed

text \<open>
  C4: The timeline is exact at every instant of its window: an instant lies in a recorded range with
  availability v exactly when some segment of the camera covers it and v is the best availability
  among those segments, and it lies in a gap exactly when no covering segment is playable. Ranges
  and gaps are in order, non-empty, disjoint and merged.
\<close>

theorem timeline_exact:
  assumes "build_timeline zones expand realpath cache d cam a b detail = Inr tml"
    and "a \<le> t" and "t < b"
  shows "(\<forall>v. painted (tl_ranges tml) t v \<longleftrightarrow>
            covering d cam t \<noteq> {} \<and> v = Max (availability_of cache d ` covering d cam t))
    \<and> ((\<exists>g. painted (tl_gaps tml) t g) \<longleftrightarrow> (\<forall>s \<in> covering d cam t. \<not> playable (availability_of cache d s)))
    \<and> ranges_ok b (tl_ranges tml) \<and> ranges_ok b (tl_gaps tml)"
proof -
  obtain its where ok: "ranges_ok b (tl_ranges tml)" "ranges_ok b (tl_gaps tml)"
    and im: "pj_availability ` set its = availability_of cache d ` covering d cam t"
    and R: "\<And>v. painted (tl_ranges tml) t v \<longleftrightarrow> best_availability its = Some v"
    and G0: "its = [] \<Longrightarrow> \<exists>g. painted (tl_gaps tml) t g"
    and G: "\<And>v g. best_availability its = Some v \<Longrightarrow>
       painted (tl_gaps tml) t g \<longleftrightarrow> \<not> playable v \<and> g = unavailable_reason (map pj_availability its)"
    using assms by (rule timeline_at) blast
  have none: "its = [] \<longleftrightarrow> covering d cam t = {}" using im by auto
  have "(\<exists>g. painted (tl_gaps tml) t g) \<longleftrightarrow> (\<forall>s \<in> covering d cam t. \<not> playable (availability_of cache d s))"
  proof (cases "its = []")
    case True
    then show ?thesis using G0 none by auto
  next
    case False
    define v where "v = Max (availability_of cache d ` covering d cam t)"
    have fin: "finite (availability_of cache d ` covering d cam t)" using im by (metis List.finite_set finite_imageI)
    have best: "best_availability its = Some v"
      using False im by (simp add: best_availability_Max v_def)
    have v: "v \<in> availability_of cache d ` covering d cam t" "\<forall>w \<in> availability_of cache d ` covering d cam t. w \<le> v"
      using fin False none by (simp_all add: v_def)
    have "playable w \<Longrightarrow> playable v" if "w \<le> v" for w
      using that by (cases w; cases v) (simp_all add: playable_def less_eq_availability_def)
    then have "\<not> playable v \<longleftrightarrow> (\<forall>s \<in> covering d cam t. \<not> playable (availability_of cache d s))"
      using v by blast
    then show ?thesis using G [OF best] by blast
  qed
  then show ?thesis
    using ok R im none by (auto simp: best_availability_Max)
qed

text \<open>
  The reason of a gap where media exists names the worst defect of all of it: corrupted media is
  a storage failure, otherwise missing media is reported as missing, and a gap is called purged only
  where every covering segment was deleted on purpose.
\<close>

theorem timeline_gap_reason:
  assumes "build_timeline zones expand realpath cache d cam a b detail = Inr tml"
    and "a \<le> t" and "t < b" and "painted (tl_gaps tml) t g" and "s \<in> covering d cam t"
  shows "g = (if Corrupted \<in> availability_of cache d ` covering d cam t then ''storage_failure''
              else if MissingMedia \<in> availability_of cache d ` covering d cam t then ''missing_media''
              else ''purged'')
    \<and> (g = ''purged'' \<longleftrightarrow> availability_of cache d ` covering d cam t = {Purged})"
proof -
  obtain its where im: "pj_availability ` set its = availability_of cache d ` covering d cam t"
    and G: "\<And>v g. best_availability its = Some v \<Longrightarrow>
       painted (tl_gaps tml) t g \<longleftrightarrow> \<not> playable v \<and> g = unavailable_reason (map pj_availability its)"
    using assms(1-3) by (rule timeline_at) blast
  define A where "A = availability_of cache d ` covering d cam t"
  note im = im [folded A_def]
  have ne: "A \<noteq> {}" using assms(5) by (auto simp: A_def)
  then have "its \<noteq> []" using im by auto
  then have best: "best_availability its = Some (Max A)" using im by (simp add: best_availability_Max)
  with G assms(4) have np: "\<not> playable (Max A)" and g: "g = unavailable_reason (map pj_availability its)" by blast+
  have fin: "finite A" using im by (metis List.finite_set finite_imageI)
  have "w \<in> {Corrupted, MissingMedia, Purged}" if "w \<in> A" for w
  proof -
    have "w \<le> Max A" using that fin by simp
    then show ?thesis using np by (cases w; cases "Max A") (simp_all add: playable_def less_eq_availability_def)
  qed
  then have sub: "A \<subseteq> {Corrupted, MissingMedia, Purged}" by blast
  have "unavailable_reason (map pj_availability its)
      = (if Corrupted \<in> A then ''storage_failure'' else if MissingMedia \<in> A then ''missing_media''
         else if A \<subseteq> {Purged} then ''purged'' else ''unknown'')"
    using \<open>its \<noteq> []\<close> unfolding im [symmetric] unavailable_reason_def
    by (auto simp: list_all_iff)
  moreover have "A = {Purged} \<longleftrightarrow> Corrupted \<notin> A \<and> MissingMedia \<notin> A" using sub ne by blast
  moreover have "A \<subseteq> {Purged} \<longleftrightarrow> A = {Purged}" using ne by blast
  ultimately show ?thesis unfolding g A_def [symmetric] by simp
qed

lemma bucket_marker_counts:
  assumes "e \<in> set matching"
  shows "ev_category e \<in> fst ` set (mk_category_counts (bucket_marker detail a b c x y matching))"
  using assms by (force simp: bucket_marker_def counts_def Let_def image_iff)

lemma bucket_markers_cover:
  assumes "seconds cursor_epoch \<le> u" and "u < end_at" and "start_at \<le> u"
    and "e \<in> set events"
    and "\<And>x y. x \<le> u \<Longrightarrow> u < y \<Longrightarrow> event_in_bucket end_at x y e"
  shows "\<exists>m \<in> set (bucket_markers events start_at end_at detail cursor_epoch).
    mk_start_at m \<le> u \<and> ends_after (mk_end_at m) u \<and> ev_category e \<in> fst ` set (mk_category_counts m)"
  using assms
proof (induction events start_at end_at detail cursor_epoch rule: bucket_markers.induct)
  case (1 events start_at end_at detail cursor_epoch)
  define x where "x = seconds cursor_epoch"
  define y where "y = x + seconds (bucket_seconds detail)"
  define matching where "matching = filter (event_in_bucket end_at x y) events"
  have open_bucket: "\<not> x \<ge> end_at" using "1.prems" by (simp add: x_def)
  have step: "bucket_markers events start_at end_at detail cursor_epoch =
      (if matching = [] then bucket_markers events start_at end_at detail (cursor_epoch + bucket_seconds detail)
       else bucket_marker detail start_at end_at cursor_epoch x y matching
            # bucket_markers events start_at end_at detail (cursor_epoch + bucket_seconds detail))"
    using open_bucket
    by (subst bucket_markers.simps) (simp add: Let_def x_def [symmetric] y_def [symmetric] matching_def [symmetric])
  show ?case
  proof (cases "u < y")
    case True
    with "1.prems" have e: "e \<in> set matching" by (simp add: matching_def x_def)
    then have "matching \<noteq> []" by auto
    moreover have "mk_start_at (bucket_marker detail start_at end_at cursor_epoch x y matching) \<le> u"
      "ends_after (mk_end_at (bucket_marker detail start_at end_at cursor_epoch x y matching)) u"
      using "1.prems"(1-3) True by (simp_all add: bucket_marker_def Let_def x_def)
    ultimately show ?thesis unfolding step using bucket_marker_counts [OF e] by auto
  next
    case False
    then have "seconds (cursor_epoch + bucket_seconds detail) \<le> u"
      by (simp add: y_def x_def seconds_def algebra_simps)
    with "1.IH" [OF x_def y_def open_bucket matching_def] "1.prems"
    have "\<exists>m \<in> set (bucket_markers events start_at end_at detail (cursor_epoch + bucket_seconds detail)).
      mk_start_at m \<le> u \<and> ends_after (mk_end_at m) u \<and> ev_category e \<in> fst ` set (mk_category_counts m)"
      by blast
    then show ?thesis unfolding step by auto
  qed
qed

text \<open>
  No event gets lost in the zoomed-out timeline: every event of the camera that is live in the
  window, points included, is counted under its category in the bucket that contains its first
  instant inside the window.
\<close>

theorem markers_show_every_event:
  assumes "e \<in> set (timeline_events d cam a b)" and "detail \<noteq> MinuteDetail" and "0 \<le> a" and "a < b"
  shows "\<exists>m \<in> set (event_markers (timeline_events d cam a b) a b detail).
    mk_start_at m \<le> max a (ev_started_at e) \<and> ends_after (mk_end_at m) (max a (ev_started_at e))
    \<and> ev_category e \<in> fst ` set (mk_category_counts m)"
proof -
  let ?u = "max a (ev_started_at e)"
  let ?epoch = "int_timestamp a - int_timestamp a mod bucket_seconds detail"
  from assms(1) have e: "ev_started_at e < b" "a \<le> ev_started_at e \<or> ends_after (ev_ended_at e) a"
    by (auto simp: timeline_events_def)
  have "0 \<le> int_timestamp a mod bucket_seconds detail"
    using bucket_seconds_pos [of detail] by simp
  moreover have "int_timestamp a * 1000000 \<le> a" using assms(3) by (simp add: int_timestamp_def)
  ultimately have "seconds ?epoch \<le> ?u" by (simp add: seconds_def algebra_simps)
  moreover have "event_in_bucket b x y e" if "x \<le> ?u" "?u < y" for x y
    using that e assms(4) by (cases "ev_ended_at e") (auto simp: event_in_bucket_def Let_def)
  ultimately show ?thesis
    unfolding event_markers_def Let_def using assms e(1)
    by (auto intro!: bucket_markers_cover)
qed

definition example_health_event :: event_row where
  "example_health_event = \<lparr>ev_id = 70, ev_source = ''frigate'', ev_source_instance_id = None,
     ev_source_event_id = None, ev_camera_id = Some 5, ev_category = ''person'', ev_label = None,
     ev_started_at = seconds 30, ev_ended_at = Some (seconds 30), ev_confidence = None, ev_severity = None,
     ev_zone = None, ev_snapshot_ref = None,
     ev_correlation_id = None, ev_metadata_json = []\<rparr>"

theorem markers_show_every_event_witness:
  "\<exists>m \<in> set (event_markers (timeline_events (example_media_db\<lparr>db_events := [example_health_event]\<rparr>) 5 0
       (seconds 60)) 0 (seconds 60) HourDetail). ''person'' \<in> fst ` set (mk_category_counts m)"
proof -
  have "example_health_event
      \<in> set (timeline_events (example_media_db\<lparr>db_events := [example_health_event]\<rparr>) 5 0 (seconds 60))"
    by (simp add: timeline_events_def example_health_event_def seconds_def)
  from markers_show_every_event [OF this, of HourDetail]
  show ?thesis by (auto simp: seconds_def example_health_event_def)
qed

section \<open>Examples\<close>

lemma paint_total:
  assumes "\<And>l r. \<exists>s. why l r = Inr s"
  shows "\<exists>res. paint why items ordered ranges gaps = Inr res"
proof (induction ordered arbitrary: ranges gaps rule: induct_list012)
  case (3 left right ordered)
  obtain x where x: "piece_reason why items left right = Inr x"
  proof (cases "best_availability (overlapping_items items left right)")
    case None
    with assms [of left right] that show ?thesis by (auto simp: piece_reason_def)
  qed (use that in \<open>auto simp: piece_reason_def\<close>)
  show ?case using "3.IH"(2) by (simp add: x)
qed simp_all

lemma build_without_policy:
  assumes "policy_of_camera d cam = None"
  shows "\<exists>tml. build_timeline zones expand realpath cache d cam a b detail = Inr tml"
proof -
  have "\<exists>s. empty_reason zones d cam None (gap_evidence_events expand realpath d cam a b) l r = Inr s" for l r
    by (simp add: empty_reason_def)
  then obtain res where
    "paint (empty_reason zones d cam None (gap_evidence_events expand realpath d cam a b))
       (project cache d a b (segments_overlapping d cam a b))
       (window_boundaries_of a b (project cache d a b (segments_overlapping d cam a b)) []
          (gap_evidence_events expand realpath d cam a b) (timeline_events d cam a b)) [] [] = Inr res"
    using paint_total by blast
  then show ?thesis by (cases res) (simp add: build_timeline_def Let_def assms)
qed


lemma example_covering: "covering example_media_db 5 (seconds 30) = {example_media}"
  by (auto simp: covering_def example_media_db_def example_media_def seconds_def)

lemma example_local_media: "availability_of None example_media_db example_media = LocalMedia"
  by code_simp

theorem timeline_exact_witness:
  "\<exists>tml. build_timeline example_zones id id None example_media_db 5 0 (seconds 60) MinuteDetail = Inr tml
     \<and> painted (tl_ranges tml) (seconds 30) LocalMedia"
proof -
  have "policy_of_camera example_media_db 5 = None"
    by (simp add: policy_of_camera_def example_media_db_def empty_db_def)
  then obtain tml where "build_timeline example_zones id id None example_media_db 5 0 (seconds 60) MinuteDetail = Inr tml"
    using build_without_policy by blast
  moreover have "0 \<le> seconds 30" "seconds 30 < seconds 60" by (simp_all add: seconds_def)
  ultimately have "painted (tl_ranges tml) (seconds 30) LocalMedia"
    and "build_timeline example_zones id id None example_media_db 5 0 (seconds 60) MinuteDetail = Inr tml"
    using timeline_exact [of example_zones id id None example_media_db 5 0 "seconds 60" MinuteDetail tml "seconds 30"]
    by (simp_all add: example_covering example_local_media)
  then show ?thesis by blast
qed

text \<open>The same media after its only copy was deleted by retention.\<close>

definition example_purged_db :: db where
  "example_purged_db = example_media_db\<lparr>db_locations := [example_location\<lparr>lo_state := Deleted\<rparr>]\<rparr>"

lemma example_purged_covering: "covering example_purged_db 5 (seconds 30) = {example_media}"
  by (auto simp: covering_def example_purged_db_def example_media_db_def example_media_def seconds_def)

lemma example_purged_media: "availability_of None example_purged_db example_media = Purged"
  by code_simp

theorem timeline_gap_reason_witness:
  "\<exists>tml g. build_timeline example_zones id id None example_purged_db 5 0 (seconds 60) MinuteDetail = Inr tml
     \<and> painted (tl_gaps tml) (seconds 30) g \<and> g = ''purged''"
proof -
  have "policy_of_camera example_purged_db 5 = None"
    by (simp add: policy_of_camera_def example_purged_db_def example_media_db_def empty_db_def)
  then obtain tml where tml: "build_timeline example_zones id id None example_purged_db 5 0 (seconds 60) MinuteDetail = Inr tml"
    using build_without_policy by blast
  have t: "0 \<le> seconds 30" "seconds 30 < seconds 60" by (simp_all add: seconds_def)
  obtain its where im: "pj_availability ` set its = {Purged}"
    and G: "\<And>v g. best_availability its = Some v \<Longrightarrow>
       painted (tl_gaps tml) (seconds 30) g \<longleftrightarrow> \<not> playable v \<and> g = unavailable_reason (map pj_availability its)"
    by (rule timeline_at [OF tml t]) (auto simp: example_purged_covering example_purged_media)
  have "its \<noteq> []" using im by auto
  then have "best_availability its = Some Purged" using im by (simp add: best_availability_Max)
  with G obtain g where g: "painted (tl_gaps tml) (seconds 30) g" by (auto simp: playable_def)
  from timeline_gap_reason [OF tml t g] have "g = ''purged''"
    by (simp add: example_purged_covering example_purged_media)
  with tml g show ?thesis by blast
qed

end
