(* ===== verification/OrderedDict.thy ===== *)
theory OrderedDict
  imports Prelude "HOL-Library.Multiset"
begin

text \<open>
  Python dictionaries that are mutated in place, as association lists in insertion order: assignment
  keeps the place of a known key, a new key goes to the end, and \<open>next(iter(d))\<close> is the oldest key.
  \<open>od_values\<close> is what a dictionary of dictionaries holds, counted as a multiset.
\<close>

fun od_set :: "'k \<Rightarrow> 'v \<Rightarrow> ('k \<times> 'v) list \<Rightarrow> ('k \<times> 'v) list" where
  "od_set k v [] = [(k, v)]"
| "od_set k v (e # m) = (if fst e = k then (k, v) # m else e # od_set k v m)"

definition od_del :: "'k \<Rightarrow> ('k \<times> 'v) list \<Rightarrow> ('k \<times> 'v) list" where
  "od_del k m = filter (\<lambda>e. fst e \<noteq> k) m"

definition od_get :: "('k \<times> 'v) list \<Rightarrow> 'k \<Rightarrow> 'v \<Rightarrow> 'v" where
  "od_get m k absent = (case map_of m k of None \<Rightarrow> absent | Some v \<Rightarrow> v)"

lemma od_get_set [simp]: "od_get (od_set k v m) j a = (if j = k then v else od_get m j a)"
  by (induction k v m rule: od_set.induct) (auto simp: od_get_def)

lemma od_get_del [simp]: "od_get (od_del k m) j a = (if j = k then a else od_get m j a)"
  by (induction m) (auto simp: od_get_def od_del_def)

lemma od_get_Nil [simp]: "od_get [] k a = a"
  by (simp add: od_get_def)

lemma length_od_set: "length (od_set k v m) \<le> length m + 1"
  by (induction k v m rule: od_set.induct) auto

lemma length_od_del: "length (od_del k m) \<le> length m"
  by (simp add: od_del_def)

lemma map_of_od_set [simp]: "map_of (od_set k v m) = (map_of m)(k \<mapsto> v)"
  by (induction k v m rule: od_set.induct) auto

lemma map_of_od_del [simp]: "map_of (od_del k m) = (map_of m)(k := None)"
  by (induction m) (auto simp: od_del_def)

lemma keys_od_del: "map fst (od_del k m) = filter (\<lambda>j. j \<noteq> k) (map fst m)"
  by (induction m) (auto simp: od_del_def)

lemma keys_od_set: "map fst (od_set k v m) = (if k \<in> fst ` set m then map fst m else map fst m @ [k])"
  by (induction k v m rule: od_set.induct) auto

lemma distinct_od_del [simp]: "distinct (map fst m) \<Longrightarrow> distinct (map fst (od_del k m))"
  by (simp add: keys_od_del)

lemma distinct_od_set [simp]: "distinct (map fst m) \<Longrightarrow> distinct (map fst (od_set k v m))"
  by (auto simp: keys_od_set)

text \<open>The values a dictionary contributes, each value standing for a multiset of things.\<close>

definition od_values :: "('v \<Rightarrow> 'e multiset) \<Rightarrow> ('k \<times> 'v) list \<Rightarrow> 'e multiset" where
  "od_values f m = sum_list (map (\<lambda>e. f (snd e)) m)"

lemma od_values_Nil [simp]: "od_values f [] = {#}"
  by (simp add: od_values_def)

lemma od_values_new: "map_of m k = None \<Longrightarrow> od_values f (od_set k v m) = od_values f m + f v"
  by (induction k v m rule: od_set.induct) (auto simp: od_values_def split: if_splits)

lemma od_values_set:
  "map_of m k = Some w \<Longrightarrow> distinct (map fst m) \<Longrightarrow> od_values f (od_set k v m) + f w = od_values f m + f v"
  by (induction k v m rule: od_set.induct) (auto simp: od_values_def split: if_splits)

lemma od_values_del:
  "map_of m k = Some w \<Longrightarrow> distinct (map fst m) \<Longrightarrow> od_values f (od_del k m) + f w = od_values f m"
proof (induction m)
  case (Cons e m)
  show ?case
  proof (cases "fst e = k")
    case True
    with Cons.prems(2) have "filter (\<lambda>x. fst x \<noteq> k) m = m" by (intro filter_True ballI) (metis distinct.simps(2) imageI list.set_map list.simps(9))
    then show ?thesis using True Cons.prems(1) by (simp add: od_values_def od_del_def)
  next
    case False
    then show ?thesis using Cons by (simp add: od_values_def od_del_def add.assoc)
  qed
qed simp

end
