(* ===== verification/RateLimit.thy ===== *)
theory RateLimit
  imports OrderedDict
begin

text \<open>
  \<open>modules/auth/rate_limit.py\<close>: brute-force protection of login and password reset, and the way
  \<open>login\<close> of \<open>modules/auth/api.py\<close> uses it. The monotonic clock is an exact number of seconds. A
  Python dict is an association list in insertion order: assignment keeps the place of a known key
  and \<open>pop(next(iter(mapping)))\<close> removes the first one. Text is ASCII, so \<open>casefold\<close> is lower case.
  The limiter's lock makes each operation atomic.
\<close>

section \<open>The limiter\<close>

record limiter_config =
  lc_login_window :: int
  lc_login_pair_limit :: nat
  lc_login_ip_limit :: nat
  lc_login_lockout :: int
  lc_reset_window :: int
  lc_reset_ip_limit :: nat
  lc_reset_lockout :: int
  lc_max_keys :: nat

text \<open>The defaults of the constructor, which \<open>main.py\<close> uses.\<close>

definition default_limiter :: limiter_config where
  "default_limiter = \<lparr>lc_login_window = 300, lc_login_pair_limit = 5, lc_login_ip_limit = 20,
     lc_login_lockout = 300, lc_reset_window = 60, lc_reset_ip_limit = 10, lc_reset_lockout = 60,
     lc_max_keys = 4096\<rparr>"

type_synonym login_key = "string \<times> string"

record limiter =
  li_login_pair :: "(login_key \<times> rat list) list"
  li_login_ip :: "(string \<times> rat list) list"
  li_login_blocked_pair :: "(login_key \<times> rat) list"
  li_login_blocked_ip :: "(string \<times> rat) list"
  li_reset_ip :: "(string \<times> rat list) list"
  li_reset_blocked_ip :: "(string \<times> rat) list"

definition empty_limiter :: limiter where
  "empty_limiter = \<lparr>li_login_pair = [], li_login_ip = [], li_login_blocked_pair = [],
     li_login_blocked_ip = [], li_reset_ip = [], li_reset_blocked_ip = []\<rparr>"

record limit_decision =
  ld_allowed :: bool
  ld_retry_after :: int
  ld_newly_blocked :: bool

definition admit :: limit_decision where
  "admit = \<lparr>ld_allowed = True, ld_retry_after = 0, ld_newly_blocked = False\<rparr>"

definition source_of :: "string option \<Rightarrow> string" where
  "source_of value = take 64 (case value of None \<Rightarrow> ''unknown'' | Some v \<Rightarrow> if v = [] then ''unknown'' else v)"

definition identifier_of :: "string \<Rightarrow> string" where
  "identifier_of value = take 320 (py_lower (py_strip value))"

definition prune :: "rat \<Rightarrow> int \<Rightarrow> rat list \<Rightarrow> rat list" where
  "prune now window bucket = dropWhile (\<lambda>x. x \<le> now - of_int window) bucket"

definition cap :: "nat \<Rightarrow> 'e list \<Rightarrow> 'e list" where
  "cap max_keys mapping = drop (length mapping - max_keys) mapping"

definition blocked_decision :: "rat \<Rightarrow> rat \<Rightarrow> limit_decision" where
  "blocked_decision now blocked_until =
     \<lparr>ld_allowed = False, ld_retry_after = max 1 \<lceil>blocked_until - now\<rceil>, ld_newly_blocked = False\<rparr>"

definition pair_of :: "string option \<Rightarrow> string \<Rightarrow> login_key" where
  "pair_of ip identifier = (source_of ip, identifier_of identifier)"

definition check_login :: "rat \<Rightarrow> string option \<Rightarrow> string \<Rightarrow> limiter \<Rightarrow> limit_decision \<times> limiter" where
  "check_login now ip identifier st =
     (let source = source_of ip; pair = pair_of ip identifier;
          pair_until = od_get (li_login_blocked_pair st) pair 0;
          ip_until = od_get (li_login_blocked_ip st) source 0;
          blocked_until = max pair_until ip_until
      in if blocked_until > now then (blocked_decision now blocked_until, st)
         else
           let st1 = (if pair_until \<noteq> 0
                      then st\<lparr>li_login_blocked_pair := od_del pair (li_login_blocked_pair st),
                              li_login_pair := od_del pair (li_login_pair st)\<rparr> else st);
               st2 = (if ip_until \<noteq> 0
                      then st1\<lparr>li_login_blocked_ip := od_del source (li_login_blocked_ip st1),
                               li_login_ip := od_del source (li_login_ip st1)\<rparr> else st1)
           in (admit, st2))"

text \<open>
  The part of \<open>record_login_failure\<close> that concerns one key: extend its bucket and block the key when
  the limit is reached; the candidate instant and whether the block is new.
\<close>

definition note_failure ::
    "int \<Rightarrow> nat \<Rightarrow> int \<Rightarrow> rat \<Rightarrow> 'k \<Rightarrow> ('k \<times> rat list) list \<times> ('k \<times> rat) list
     \<Rightarrow> (('k \<times> rat list) list \<times> ('k \<times> rat) list) \<times> (rat \<times> bool) option" where
  "note_failure window limit lockout now k maps =
     (let bucket = prune now window (od_get (fst maps) k []) @ [now];
          buckets = od_set k bucket (fst maps)
      in if limit \<le> length bucket
         then let candidate = now + of_int lockout
              in ((buckets, od_set k candidate (snd maps)), Some (candidate, od_get (snd maps) k 0 \<le> now))
         else ((buckets, snd maps), None))"

definition record_login_failure ::
    "limiter_config \<Rightarrow> rat \<Rightarrow> string option \<Rightarrow> string \<Rightarrow> limiter \<Rightarrow> limit_decision \<times> limiter" where
  "record_login_failure cfg now ip identifier st =
     (let (pair_maps, pair_block) = note_failure (lc_login_window cfg) (lc_login_pair_limit cfg)
            (lc_login_lockout cfg) now (pair_of ip identifier) (li_login_pair st, li_login_blocked_pair st);
          (ip_maps, ip_block) = note_failure (lc_login_window cfg) (lc_login_ip_limit cfg)
            (lc_login_lockout cfg) now (source_of ip) (li_login_ip st, li_login_blocked_ip st);
          newly_blocked = list_ex (\<lambda>b. b \<noteq> None \<and> snd (the b)) [pair_block, ip_block];
          blocked_until = foldl (\<lambda>u b. case b of None \<Rightarrow> u | Some (c, _) \<Rightarrow> max u c) 0 [pair_block, ip_block];
          st' = st\<lparr>li_login_pair := cap (lc_max_keys cfg) (fst pair_maps),
                   li_login_ip := cap (lc_max_keys cfg) (fst ip_maps),
                   li_login_blocked_pair := cap (lc_max_keys cfg) (snd pair_maps),
                   li_login_blocked_ip := cap (lc_max_keys cfg) (snd ip_maps)\<rparr>
      in if blocked_until > now
         then ((blocked_decision now blocked_until)\<lparr>ld_newly_blocked := newly_blocked\<rparr>, st')
         else (admit, st'))"

definition record_login_success :: "string option \<Rightarrow> string \<Rightarrow> limiter \<Rightarrow> limiter" where
  "record_login_success ip identifier st =
     (let pair = pair_of ip identifier in
      st\<lparr>li_login_pair := od_del pair (li_login_pair st),
         li_login_blocked_pair := od_del pair (li_login_blocked_pair st)\<rparr>)"

definition consume_password_reset ::
    "limiter_config \<Rightarrow> rat \<Rightarrow> string option \<Rightarrow> limiter \<Rightarrow> limit_decision \<times> limiter" where
  "consume_password_reset cfg now ip st =
     (let source = source_of ip; blocked_until = od_get (li_reset_blocked_ip st) source 0 in
      if blocked_until > now then (blocked_decision now blocked_until, st)
      else
        let st1 = (if blocked_until \<noteq> 0
                   then st\<lparr>li_reset_blocked_ip := od_del source (li_reset_blocked_ip st),
                           li_reset_ip := od_del source (li_reset_ip st)\<rparr> else st);
            bucket = prune now (lc_reset_window cfg) (od_get (li_reset_ip st1) source []);
            st2 = st1\<lparr>li_reset_ip := od_set source bucket (li_reset_ip st1)\<rparr>
        in if lc_reset_ip_limit cfg \<le> length bucket
           then (\<lparr>ld_allowed = False, ld_retry_after = lc_reset_lockout cfg, ld_newly_blocked = True\<rparr>,
                 st2\<lparr>li_reset_blocked_ip := cap (lc_max_keys cfg)
                       (od_set source (now + of_int (lc_reset_lockout cfg)) (li_reset_blocked_ip st2))\<rparr>)
           else (admit,
                 st2\<lparr>li_reset_ip := cap (lc_max_keys cfg) (od_set source (bucket @ [now]) (li_reset_ip st2))\<rparr>))"

text \<open>
  The login request: the password is examined only if the limiter admits the attempt; a wrong one is
  recorded, a correct one clears the pair, any other error records nothing. The clock is read when
  the attempt is checked and again when the failure is recorded.
\<close>

datatype credential_check = GoodPassword | BadPassword | OtherFailure

definition login_attempt ::
    "limiter_config \<Rightarrow> rat \<Rightarrow> rat \<Rightarrow> string option \<Rightarrow> string \<Rightarrow> credential_check \<Rightarrow> limiter \<Rightarrow> bool \<times> limiter" where
  "login_attempt cfg checked recorded ip identifier result st =
     (let (decision, st1) = check_login checked ip identifier st in
      if \<not> ld_allowed decision then (False, st1)
      else (True, case result of
              GoodPassword \<Rightarrow> record_login_success ip identifier st1
            | BadPassword \<Rightarrow> snd (record_login_failure cfg recorded ip identifier st1)
            | OtherFailure \<Rightarrow> st1))"

section \<open>One lock table\<close>

text \<open>
  The invariant of a bucket map and its block map for one key, with the instants \<open>h\<close> of the wrong
  passwords the key is held responsible for.
\<close>

definition lock_ok ::
    "int \<Rightarrow> nat \<Rightarrow> int \<Rightarrow> rat \<Rightarrow> rat list \<Rightarrow> rat list \<Rightarrow> rat \<Rightarrow> bool" where
  "lock_ok window limit lockout now h bucket blocked_until \<longleftrightarrow>
     sorted bucket \<and> (\<forall>x \<in> set bucket. x \<le> now) \<and> (\<forall>x \<in> set h. x \<le> now)
     \<and> filter (\<lambda>x. now - of_int window < x) bucket = filter (\<lambda>x. now - of_int window < x) h
     \<and> (blocked_until \<noteq> 0 \<longrightarrow> (\<forall>x \<in> set h. x \<le> blocked_until - of_int lockout))
     \<and> (limit \<le> length (filter (\<lambda>x. now - of_int window < x) h) \<longrightarrow> now < blocked_until)"

lemma prune_sorted: "sorted bucket \<Longrightarrow> prune now window bucket = filter (\<lambda>x. now - of_int window < x) bucket"
  by (induction bucket) (auto simp: prune_def not_less intro!: filter_True [symmetric])

lemma lock_ok_empty: "0 < limit \<Longrightarrow> lock_ok window limit lockout now [] [] 0"
  by (simp add: lock_ok_def)

lemma filter_later:
  assumes "now \<le> (later :: rat)" and "filter (\<lambda>x. now - w < x) xs = filter (\<lambda>x. now - w < x) ys"
  shows "filter (\<lambda>x. later - w < x) xs = filter (\<lambda>x. later - w < x) ys"
proof -
  have "filter (\<lambda>x. later - w < x) zs = filter (\<lambda>x. later - w < x) (filter (\<lambda>x. now - w < x) zs)" for zs
    using assms(1) by (auto intro!: filter_cong)
  then show ?thesis using assms(2) by metis
qed

lemma recent_mono:
  assumes "now \<le> (later :: rat)"
  shows "length (filter (\<lambda>x. later - w < x) h) \<le> length (filter (\<lambda>x. now - w < x) h)"
proof (induction h)
  case (Cons a h)
  have "later - w < a \<Longrightarrow> now - w < a" using assms by linarith
  with Cons show ?case by (auto simp: le_Suc_eq)
qed simp

lemma lock_ok_later:
  assumes ok: "lock_ok window limit lockout now h bucket u" and le: "now \<le> later"
    and cfg: "0 < limit" "window \<le> lockout" and pos: "0 \<le> now"
  shows "lock_ok window limit lockout later h bucket u"
proof -
  have known: "\<forall>x \<in> set h. x \<le> now" "\<forall>x \<in> set bucket. x \<le> now" "sorted bucket"
    "filter (\<lambda>x. now - of_int window < x) bucket = filter (\<lambda>x. now - of_int window < x) h"
    "u \<noteq> 0 \<Longrightarrow> \<forall>x \<in> set h. x \<le> u - of_int lockout"
    using ok by (simp_all add: lock_ok_def)
  have "later < u" if lim: "limit \<le> length (filter (\<lambda>x. later - of_int window < x) h)"
  proof -
    have "length (filter (\<lambda>x. later - of_int window < x) h) \<le> length (filter (\<lambda>x. now - of_int window < x) h)"
      by (rule recent_mono [OF le])
    then have "limit \<le> length (filter (\<lambda>x. now - of_int window < x) h)" using lim by (rule order_trans [rotated])
    then have "now < u" using ok by (simp add: lock_ok_def)
    then have "u \<noteq> 0" using pos by simp
    have "filter (\<lambda>x. later - of_int window < x) h \<noteq> []" using lim cfg(1) by auto
    then have "\<exists>x \<in> set h. later - of_int window < x" by (simp add: filter_empty_conv)
    then obtain x where x: "x \<in> set h" "later - of_int window < x" by (elim bexE)
    have "x \<le> u - of_int lockout" using ok \<open>u \<noteq> 0\<close> x(1) by (simp add: lock_ok_def)
    with x(2) have "later - of_int window < u - of_int lockout" by (rule less_le_trans)
    moreover have "(of_int window :: rat) \<le> of_int lockout" using cfg(2) by simp
    ultimately show ?thesis by linarith
  qed
  moreover have "filter (\<lambda>x. later - of_int window < x) bucket = filter (\<lambda>x. later - of_int window < x) h"
    by (rule filter_later [OF le known(4)])
  moreover have "\<forall>x \<in> set h. x \<le> later" "\<forall>x \<in> set bucket. x \<le> later"
    by (blast intro: order_trans [OF bspec [OF known(1)] le] order_trans [OF bspec [OF known(2)] le])+
  ultimately show ?thesis using known(3,5) unfolding lock_ok_def by blast
qed

lemma lock_ok_expire:
  assumes ok: "lock_ok window limit lockout now h bucket u" and u: "u \<noteq> 0" "u \<le> now"
    and cfg: "0 < limit" "window \<le> lockout"
  shows "lock_ok window limit lockout now h [] 0"
proof -
  have "\<not> now - of_int window < x" if "x \<in> set h" for x
  proof -
    have "x \<le> u - of_int lockout" using ok u(1) that by (simp add: lock_ok_def)
    moreover have "(of_int window :: rat) \<le> of_int lockout" using cfg(2) by simp
    ultimately show ?thesis using u(2) by linarith
  qed
  then have "filter (\<lambda>x. now - of_int window < x) h = []" by simp
  then show ?thesis using ok cfg(1) by (simp add: lock_ok_def)
qed

lemma note_failure_ok:
  assumes ok: "lock_ok window limit lockout now h (od_get B k []) 0"
    and pos: "0 \<le> now" "0 < window" "0 < lockout"
    and step: "note_failure window limit lockout now k (B, L) = ((B', L'), block)"
    and free: "od_get L k 0 = 0"
  shows "lock_ok window limit lockout now (h @ [now]) (od_get B' k []) (od_get L' k 0)"
proof -
  define bucket where "bucket = prune now window (od_get B k []) @ [now]"
  have b: "bucket = filter (\<lambda>x. now - of_int window < x) (h @ [now])"
    using ok pos by (simp add: bucket_def lock_ok_def prune_sorted)
  have old: "sorted (od_get B k [])" "\<forall>x \<in> set (od_get B k []). x \<le> now" using ok by (simp_all add: lock_ok_def)
  then have "sorted (prune now window (od_get B k []))" "\<forall>x \<in> set (prune now window (od_get B k [])). x \<le> now"
    by (simp_all add: prune_sorted sorted_wrt_filter)
  then have sorted: "sorted bucket" and le: "\<forall>x \<in> set bucket. x \<le> now"
    by (simp_all add: bucket_def sorted_append)
  have idem: "filter (\<lambda>x. now - of_int window < x) bucket = bucket" unfolding b by simp
  show ?thesis
  proof (cases "limit \<le> length bucket")
    case True
    with step have "od_get B' k [] = bucket" "od_get L' k 0 = now + of_int lockout"
      "B' = od_set k bucket B" "L' = od_set k (now + of_int lockout) L"
      by (auto simp: note_failure_def Let_def bucket_def)
    then show ?thesis using sorted le idem b ok pos by (auto simp: lock_ok_def)
  next
    case False
    with step have "od_get B' k [] = bucket" "L' = L" "B' = od_set k bucket B"
      by (auto simp: note_failure_def Let_def bucket_def)
    then show ?thesis using sorted le idem b ok False free by (auto simp: lock_ok_def)
  qed
qed


lemma note_failure_other:
  "note_failure window limit lockout now k (B, L) = ((B', L'), block) \<Longrightarrow> j \<noteq> k
   \<Longrightarrow> od_get B' j [] = od_get B j [] \<and> od_get L' j 0 = od_get L j 0"
  by (auto simp: note_failure_def Let_def split: if_splits)

section \<open>Traces of login requests\<close>

text \<open>
  \<open>attempts\<close> runs a sequence of login requests (the instants it is checked and recorded, address,
  identifier, what the password check would say), one after the other, and logs the admitted ones.
\<close>

record login_request =
  lr_checked :: rat
  lr_recorded :: rat
  lr_ip :: "string option"
  lr_identifier :: string
  lr_check :: credential_check

fun attempts :: "limiter_config \<Rightarrow> limiter \<Rightarrow> login_request list \<Rightarrow> limiter \<times> login_request list" where
  "attempts cfg st [] = (st, [])"
| "attempts cfg st (r # rs) =
     (let (admitted, st') = login_attempt cfg (lr_checked r) (lr_recorded r) (lr_ip r) (lr_identifier r) (lr_check r) st;
          (st'', rest) = attempts cfg st' rs
      in (st'', if admitted then r # rest else rest))"

definition request_pair :: "login_request \<Rightarrow> login_key" where
  "request_pair r = pair_of (lr_ip r) (lr_identifier r)"

text \<open>The wrong passwords a pair (since its last success) and an address are held responsible for.\<close>

definition pair_history :: "login_key \<Rightarrow> rat list \<Rightarrow> login_request \<Rightarrow> rat list" where
  "pair_history p h r =
     (if request_pair r \<noteq> p then h
      else case lr_check r of GoodPassword \<Rightarrow> [] | BadPassword \<Rightarrow> h @ [lr_recorded r] | OtherFailure \<Rightarrow> h)"

definition ip_history :: "string \<Rightarrow> rat list \<Rightarrow> login_request \<Rightarrow> rat list" where
  "ip_history s h r =
     (if source_of (lr_ip r) = s \<and> lr_check r = BadPassword then h @ [lr_recorded r] else h)"

definition sizes_within :: "nat \<Rightarrow> limiter \<Rightarrow> bool" where
  "sizes_within n st \<longleftrightarrow>
     length (li_login_pair st) \<le> n \<and> length (li_login_ip st) \<le> n
     \<and> length (li_login_blocked_pair st) \<le> n \<and> length (li_login_blocked_ip st) \<le> n"

definition config_ok :: "limiter_config \<Rightarrow> bool" where
  "config_ok cfg \<longleftrightarrow> 0 < lc_login_pair_limit cfg \<and> 0 < lc_login_ip_limit cfg \<and> 0 < lc_login_window cfg
     \<and> lc_login_window cfg \<le> lc_login_lockout cfg"

definition pair_ok :: "limiter_config \<Rightarrow> limiter \<Rightarrow> rat \<Rightarrow> login_key \<Rightarrow> rat list \<Rightarrow> bool" where
  "pair_ok cfg st now p h = lock_ok (lc_login_window cfg) (lc_login_pair_limit cfg) (lc_login_lockout cfg) now h
     (od_get (li_login_pair st) p []) (od_get (li_login_blocked_pair st) p 0)"

definition ip_ok :: "limiter_config \<Rightarrow> limiter \<Rightarrow> rat \<Rightarrow> string \<Rightarrow> rat list \<Rightarrow> bool" where
  "ip_ok cfg st now s h = lock_ok (lc_login_window cfg) (lc_login_ip_limit cfg) (lc_login_lockout cfg) now h
     (od_get (li_login_ip st) s []) (od_get (li_login_blocked_ip st) s 0)"

lemma check_login_cases:
  assumes "check_login now ip i st = (dec, st')"
  shows "(\<not> ld_allowed dec \<and> st' = st
      \<and> max (od_get (li_login_blocked_pair st) (pair_of ip i) 0) (od_get (li_login_blocked_ip st) (source_of ip) 0) > now)
    \<or> (ld_allowed dec
      \<and> od_get (li_login_blocked_pair st) (pair_of ip i) 0 \<le> now \<and> od_get (li_login_blocked_ip st) (source_of ip) 0 \<le> now
      \<and> (od_get (li_login_pair st') p [] = (if p = pair_of ip i \<and> od_get (li_login_blocked_pair st) p 0 \<noteq> 0
             then [] else od_get (li_login_pair st) p []))
      \<and> (od_get (li_login_blocked_pair st') p 0 = (if p = pair_of ip i then 0 else od_get (li_login_blocked_pair st) p 0))
      \<and> (od_get (li_login_ip st') s [] = (if s = source_of ip \<and> od_get (li_login_blocked_ip st) s 0 \<noteq> 0
             then [] else od_get (li_login_ip st) s []))
      \<and> (od_get (li_login_blocked_ip st') s 0 = (if s = source_of ip then 0 else od_get (li_login_blocked_ip st) s 0)))"
proof (cases "max (od_get (li_login_blocked_pair st) (pair_of ip i) 0) (od_get (li_login_blocked_ip st) (source_of ip) 0) > now")
  case True
  with assms show ?thesis by (auto simp: check_login_def Let_def blocked_decision_def)
next
  case False
  then have st': "st' = (let st1 = (if od_get (li_login_blocked_pair st) (pair_of ip i) 0 \<noteq> 0
                      then st\<lparr>li_login_blocked_pair := od_del (pair_of ip i) (li_login_blocked_pair st),
                              li_login_pair := od_del (pair_of ip i) (li_login_pair st)\<rparr> else st)
        in if od_get (li_login_blocked_ip st) (source_of ip) 0 \<noteq> 0
                      then st1\<lparr>li_login_blocked_ip := od_del (source_of ip) (li_login_blocked_ip st1),
                               li_login_ip := od_del (source_of ip) (li_login_ip st1)\<rparr> else st1)"
    and dec: "dec = admit"
    using assms by (auto simp: check_login_def Let_def)
  show ?thesis
    unfolding st' dec using False by (auto simp: admit_def Let_def)
qed

lemma check_login_sizes:
  assumes "check_login now ip i st = (dec, st')" and "sizes_within n st"
  shows "sizes_within n st'"
proof -
  show ?thesis using assms
    by (auto simp: check_login_def Let_def sizes_within_def intro: order_trans [OF length_od_del] split: if_splits)
qed

lemma check_login_pair_ok:
  assumes "check_login now ip i st = (dec, st')" and "pair_ok cfg st now p h" and "config_ok cfg"
  shows "pair_ok cfg st' now p h"
proof (cases "ld_allowed dec \<and> p = pair_of ip i \<and> od_get (li_login_blocked_pair st) p 0 \<noteq> 0")
  case True
  with check_login_cases [OF assms(1), of p "[]"] have
    "od_get (li_login_blocked_pair st) p 0 \<le> now" "od_get (li_login_pair st') p [] = []"
    "od_get (li_login_blocked_pair st') p 0 = 0" by auto
  with True assms(2,3) show ?thesis
    unfolding pair_ok_def by (metis lock_ok_expire config_ok_def)
next
  case False
  with check_login_cases [OF assms(1), of p "[]"] have
    "od_get (li_login_pair st') p [] = od_get (li_login_pair st) p []"
    "od_get (li_login_blocked_pair st') p 0 = od_get (li_login_blocked_pair st) p 0" by auto
  with assms(2) show ?thesis unfolding pair_ok_def by simp
qed

lemma check_login_ip_ok:
  assumes "check_login now ip i st = (dec, st')" and "ip_ok cfg st now s h" and "config_ok cfg"
  shows "ip_ok cfg st' now s h"
proof (cases "ld_allowed dec \<and> s = source_of ip \<and> od_get (li_login_blocked_ip st) s 0 \<noteq> 0")
  case True
  with check_login_cases [OF assms(1), of "([], [])" s] have
    "od_get (li_login_blocked_ip st) s 0 \<le> now" "od_get (li_login_ip st') s [] = []"
    "od_get (li_login_blocked_ip st') s 0 = 0" by auto
  with True assms(2,3) show ?thesis
    unfolding ip_ok_def by (metis lock_ok_expire config_ok_def)
next
  case False
  with check_login_cases [OF assms(1), of "([], [])" s] have
    "od_get (li_login_ip st') s [] = od_get (li_login_ip st) s []"
    "od_get (li_login_blocked_ip st') s 0 = od_get (li_login_blocked_ip st) s 0" by auto
  with assms(2) show ?thesis unfolding ip_ok_def by simp
qed

lemma cap_small: "length m \<le> n \<Longrightarrow> cap n m = m"
  by (simp add: cap_def)

lemma note_failure_sizes:
  "note_failure w l k now key (B, L) = ((B', L'), b) \<Longrightarrow> length B' \<le> length B + 1 \<and> length L' \<le> length L + 1"
  using length_od_set [of key "prune now w (od_get B key []) @ [now]" B] length_od_set [of key "now + of_int k" L]
  by (auto simp: note_failure_def Let_def split: if_splits)

lemma failure_tables:
  assumes "sizes_within n st" and "n < lc_max_keys cfg"
    and "note_failure (lc_login_window cfg) (lc_login_pair_limit cfg) (lc_login_lockout cfg) now (pair_of ip i)
           (li_login_pair st, li_login_blocked_pair st) = ((PB, PL), b)"
    and "note_failure (lc_login_window cfg) (lc_login_ip_limit cfg) (lc_login_lockout cfg) now (source_of ip)
           (li_login_ip st, li_login_blocked_ip st) = ((IB, IL), c)"
    and "snd (record_login_failure cfg now ip i st) = st'"
  shows "li_login_pair st' = PB \<and> li_login_blocked_pair st' = PL \<and> li_login_ip st' = IB
    \<and> li_login_blocked_ip st' = IL \<and> sizes_within (n + 1) st'"
proof -
  have len: "length PB \<le> n + 1" "length PL \<le> n + 1" "length IB \<le> n + 1" "length IL \<le> n + 1"
    using note_failure_sizes [OF assms(3)] note_failure_sizes [OF assms(4)] assms(1)
    by (simp_all add: sizes_within_def)
  have "st' = st\<lparr>li_login_pair := cap (lc_max_keys cfg) PB, li_login_ip := cap (lc_max_keys cfg) IB,
                 li_login_blocked_pair := cap (lc_max_keys cfg) PL, li_login_blocked_ip := cap (lc_max_keys cfg) IL\<rparr>"
    using assms(5) unfolding record_login_failure_def assms(3,4) Let_def
    by (simp split: if_splits)
  then show ?thesis using len assms(2) by (simp add: cap_small sizes_within_def)
qed


fun ordered_from :: "rat \<Rightarrow> login_request list \<Rightarrow> bool" where
  "ordered_from t [] = True"
| "ordered_from t (r # rs) = (t \<le> lr_checked r \<and> lr_checked r \<le> lr_recorded r \<and> ordered_from (lr_recorded r) rs)"

fun end_from :: "rat \<Rightarrow> login_request list \<Rightarrow> rat" where
  "end_from t [] = t"
| "end_from t (r # rs) = end_from (lr_recorded r) rs"

definition recent_count :: "rat \<Rightarrow> int \<Rightarrow> rat list \<Rightarrow> nat" where
  "recent_count now window h = length (filter (\<lambda>x. now - of_int window < x) h)"

lemma recent_count_later: "now \<le> later \<Longrightarrow> recent_count later w h \<le> recent_count now w h"
  unfolding recent_count_def by (rule recent_mono)

lemma recent_count_Nil [simp]: "recent_count now w [] = 0"
  by (simp add: recent_count_def)

lemma recent_count_snoc: "recent_count now w (h @ [x]) \<le> recent_count now w h + 1"
  by (simp add: recent_count_def)

lemma lock_ok_open: "lock_ok w limit k now h b u \<Longrightarrow> u \<le> now \<Longrightarrow> recent_count now w h < limit"
  by (auto simp: lock_ok_def recent_count_def not_le [symmetric])

lemma pair_ok_later:
  "pair_ok cfg st now p h \<Longrightarrow> now \<le> later \<Longrightarrow> config_ok cfg \<Longrightarrow> 0 \<le> now \<Longrightarrow> pair_ok cfg st later p h"
  unfolding pair_ok_def config_ok_def by (blast intro: lock_ok_later)

lemma ip_ok_later:
  "ip_ok cfg st now p h \<Longrightarrow> now \<le> later \<Longrightarrow> config_ok cfg \<Longrightarrow> 0 \<le> now \<Longrightarrow> ip_ok cfg st later p h"
  unfolding ip_ok_def config_ok_def by (blast intro: lock_ok_later)

lemma failure_pair_ok:
  assumes ok: "pair_ok cfg st now p h" and cfg: "config_ok cfg" and pos: "0 \<le> now"
    and free: "od_get (li_login_blocked_pair st) (pair_of ip i) 0 = 0"
    and sizes: "sizes_within n st" "n < lc_max_keys cfg"
    and st': "snd (record_login_failure cfg now ip i st) = st'"
  shows "pair_ok cfg st' now p (if p = pair_of ip i then h @ [now] else h) \<and> sizes_within (n + 1) st'"
proof -
  obtain PB PL b where P: "note_failure (lc_login_window cfg) (lc_login_pair_limit cfg) (lc_login_lockout cfg) now
      (pair_of ip i) (li_login_pair st, li_login_blocked_pair st) = ((PB, PL), b)" by (metis surj_pair)
  obtain IB IL c where I: "note_failure (lc_login_window cfg) (lc_login_ip_limit cfg) (lc_login_lockout cfg) now
      (source_of ip) (li_login_ip st, li_login_blocked_ip st) = ((IB, IL), c)" by (metis surj_pair)
  note tables = failure_tables [OF sizes P I st']
  have cfg': "0 < lc_login_window cfg" "0 < lc_login_lockout cfg" using cfg by (simp_all add: config_ok_def)
  show ?thesis
  proof (cases "p = pair_of ip i")
    case True
    have "lock_ok (lc_login_window cfg) (lc_login_pair_limit cfg) (lc_login_lockout cfg) now h
        (od_get (li_login_pair st) (pair_of ip i) []) 0"
      using ok True free by (simp add: pair_ok_def)
    from note_failure_ok [OF this pos cfg' P free] show ?thesis using True tables by (simp add: pair_ok_def)
  next
    case False
    from note_failure_other [OF P this] show ?thesis using False tables ok by (simp add: pair_ok_def)
  qed
qed

lemma failure_ip_ok:
  assumes ok: "ip_ok cfg st now s h" and cfg: "config_ok cfg" and pos: "0 \<le> now"
    and free: "od_get (li_login_blocked_ip st) (source_of ip) 0 = 0"
    and sizes: "sizes_within n st" "n < lc_max_keys cfg"
    and st': "snd (record_login_failure cfg now ip i st) = st'"
  shows "ip_ok cfg st' now s (if s = source_of ip then h @ [now] else h) \<and> sizes_within (n + 1) st'"
proof -
  obtain PB PL b where P: "note_failure (lc_login_window cfg) (lc_login_pair_limit cfg) (lc_login_lockout cfg) now
      (pair_of ip i) (li_login_pair st, li_login_blocked_pair st) = ((PB, PL), b)" by (metis surj_pair)
  obtain IB IL c where I: "note_failure (lc_login_window cfg) (lc_login_ip_limit cfg) (lc_login_lockout cfg) now
      (source_of ip) (li_login_ip st, li_login_blocked_ip st) = ((IB, IL), c)" by (metis surj_pair)
  note tables = failure_tables [OF sizes P I st']
  have cfg': "0 < lc_login_window cfg" "0 < lc_login_lockout cfg" using cfg by (simp_all add: config_ok_def)
  show ?thesis
  proof (cases "s = source_of ip")
    case True
    have "lock_ok (lc_login_window cfg) (lc_login_ip_limit cfg) (lc_login_lockout cfg) now h
        (od_get (li_login_ip st) (source_of ip) []) 0"
      using ok True free by (simp add: ip_ok_def)
    from note_failure_ok [OF this pos cfg' I free] show ?thesis using True tables by (simp add: ip_ok_def)
  next
    case False
    from note_failure_other [OF I this] show ?thesis using False tables ok by (simp add: ip_ok_def)
  qed
qed

lemma success_ok:
  assumes "record_login_success ip i st = st'"
  shows "pair_ok cfg st now p h \<Longrightarrow> config_ok cfg \<Longrightarrow> pair_ok cfg st' now p (if p = pair_of ip i then [] else h)"
    and "ip_ok cfg st now s k \<Longrightarrow> ip_ok cfg st' now s k"
    and "sizes_within n st \<Longrightarrow> sizes_within n st'"
proof -
  have st': "st' = st\<lparr>li_login_pair := od_del (pair_of ip i) (li_login_pair st),
         li_login_blocked_pair := od_del (pair_of ip i) (li_login_blocked_pair st)\<rparr>"
    using assms by (simp add: record_login_success_def Let_def)
  show "pair_ok cfg st now p h \<Longrightarrow> config_ok cfg \<Longrightarrow> pair_ok cfg st' now p (if p = pair_of ip i then [] else h)"
    by (auto simp: st' pair_ok_def config_ok_def lock_ok_empty)
  show "ip_ok cfg st now s k \<Longrightarrow> ip_ok cfg st' now s k" by (simp add: st' ip_ok_def)
  show "sizes_within n st \<Longrightarrow> sizes_within n st'"
    by (auto simp: st' sizes_within_def intro: order_trans [OF length_od_del])
qed


text \<open>The invariant of a trace: both tables, the bounds on the failures, and the table sizes.\<close>

definition tables_ok ::
    "limiter_config \<Rightarrow> nat \<Rightarrow> limiter \<Rightarrow> rat \<Rightarrow> login_key \<Rightarrow> rat list \<Rightarrow> string \<Rightarrow> rat list \<Rightarrow> bool" where
  "tables_ok cfg n st now p h s k \<longleftrightarrow>
     pair_ok cfg st now p h \<and> ip_ok cfg st now s k \<and> sizes_within n st
     \<and> recent_count now (lc_login_window cfg) h \<le> lc_login_pair_limit cfg
     \<and> recent_count now (lc_login_window cfg) k \<le> lc_login_ip_limit cfg"

lemma tables_ok_empty: "config_ok cfg \<Longrightarrow> tables_ok cfg 0 empty_limiter now p [] s []"
  by (simp add: tables_ok_def pair_ok_def ip_ok_def empty_limiter_def lock_ok_empty config_ok_def sizes_within_def)

lemma tables_ok_later:
  assumes "tables_ok cfg n st now p h s k" "now \<le> later" "config_ok cfg" "0 \<le> now"
  shows "tables_ok cfg n st later p h s k"
  using assms pair_ok_later [of cfg st now p h later] ip_ok_later [of cfg st now s k later]
    order_trans [OF recent_count_later [OF assms(2), of "lc_login_window cfg" h]]
    order_trans [OF recent_count_later [OF assms(2), of "lc_login_window cfg" k]]
  by (simp add: tables_ok_def)

lemma sizes_within_Suc: "sizes_within n st \<Longrightarrow> sizes_within (n + 1) st"
  by (simp add: sizes_within_def)

text \<open>What an admitting check leaves: free keys and fewer recent failures than the limits.\<close>

lemma check_login_admits:
  assumes ok: "tables_ok cfg n st now p h s k" and cfg: "config_ok cfg"
    and check: "check_login now ip i st = (dec, st')" and adm: "ld_allowed dec"
  shows "tables_ok cfg n st' now p h s k"
    and "od_get (li_login_blocked_pair st') (pair_of ip i) 0 = 0"
    and "od_get (li_login_blocked_ip st') (source_of ip) 0 = 0"
    and "p = pair_of ip i \<Longrightarrow> recent_count now (lc_login_window cfg) h < lc_login_pair_limit cfg"
    and "s = source_of ip \<Longrightarrow> recent_count now (lc_login_window cfg) k < lc_login_ip_limit cfg"
proof -
  show "tables_ok cfg n st' now p h s k"
    using ok check_login_pair_ok [OF check _ cfg] check_login_ip_ok [OF check _ cfg] check_login_sizes [OF check]
    by (simp add: tables_ok_def)
  show "od_get (li_login_blocked_pair st') (pair_of ip i) 0 = 0"
    using check_login_cases [OF check, of "pair_of ip i" s] adm by auto
  show "od_get (li_login_blocked_ip st') (source_of ip) 0 = 0"
    using check_login_cases [OF check, of p "source_of ip"] adm by auto
  have free: "od_get (li_login_blocked_pair st) (pair_of ip i) 0 \<le> now"
    "od_get (li_login_blocked_ip st) (source_of ip) 0 \<le> now"
    using check_login_cases [OF check, of p s] adm by auto
  show "p = pair_of ip i \<Longrightarrow> recent_count now (lc_login_window cfg) h < lc_login_pair_limit cfg"
    using ok free(1) unfolding tables_ok_def pair_ok_def by (blast intro: lock_ok_open)
  show "s = source_of ip \<Longrightarrow> recent_count now (lc_login_window cfg) k < lc_login_ip_limit cfg"
    using ok free(2) unfolding tables_ok_def ip_ok_def by (blast intro: lock_ok_open)
qed

lemma failure_tables_ok:
  assumes ok: "tables_ok cfg n st now p h s k" and cfg: "config_ok cfg" and pos: "0 \<le> now" and n: "n < lc_max_keys cfg"
    and free: "od_get (li_login_blocked_pair st) (pair_of ip i) 0 = 0" "od_get (li_login_blocked_ip st) (source_of ip) 0 = 0"
    and room: "p = pair_of ip i \<Longrightarrow> recent_count now (lc_login_window cfg) h < lc_login_pair_limit cfg"
      "s = source_of ip \<Longrightarrow> recent_count now (lc_login_window cfg) k < lc_login_ip_limit cfg"
  shows "tables_ok cfg (n + 1) (snd (record_login_failure cfg now ip i st)) now
     p (if p = pair_of ip i then h @ [now] else h) s (if s = source_of ip then k @ [now] else k)"
proof -
  have parts: "pair_ok cfg st now p h" "ip_ok cfg st now s k" "sizes_within n st"
    "recent_count now (lc_login_window cfg) h \<le> lc_login_pair_limit cfg"
    "recent_count now (lc_login_window cfg) k \<le> lc_login_ip_limit cfg"
    using ok by (simp_all add: tables_ok_def)
  have "recent_count now (lc_login_window cfg) (h @ [now]) \<le> lc_login_pair_limit cfg" if "p = pair_of ip i"
    using room(1) [OF that] recent_count_snoc [of now "lc_login_window cfg" h now] by linarith
  moreover have "recent_count now (lc_login_window cfg) (k @ [now]) \<le> lc_login_ip_limit cfg" if "s = source_of ip"
    using room(2) [OF that] recent_count_snoc [of now "lc_login_window cfg" k now] by linarith
  ultimately show ?thesis
    using failure_pair_ok [OF parts(1) cfg pos free(1) parts(3) n refl] failure_ip_ok [OF parts(2) cfg pos free(2) parts(3) n refl]
      parts(4,5) by (simp add: tables_ok_def)
qed

lemma login_attempt_ok:
  assumes ok: "tables_ok cfg n st t p h s k" and cfg: "config_ok cfg" and n: "n < lc_max_keys cfg"
    and times: "0 \<le> t" "t \<le> lr_checked r" "lr_checked r \<le> lr_recorded r"
    and step: "login_attempt cfg (lr_checked r) (lr_recorded r) (lr_ip r) (lr_identifier r) (lr_check r) st = (adm, st')"
  shows "tables_ok cfg (n + 1) st' (lr_recorded r) p (if adm then pair_history p h r else h)
     s (if adm then ip_history s k r else k)"
proof -
  obtain dec st1 where check: "check_login (lr_checked r) (lr_ip r) (lr_identifier r) st = (dec, st1)" by (metis surj_pair)
  have ok1: "tables_ok cfg n st (lr_checked r) p h s k" by (rule tables_ok_later [OF ok times(2) cfg times(1)])
  have t0: "0 \<le> lr_checked r" "0 \<le> lr_recorded r" using times by linarith+
  have grow: "tables_ok cfg m a b c d e f \<Longrightarrow> tables_ok cfg (m + 1) a b c d e f" for m a b c d e f
    by (simp add: tables_ok_def sizes_within_def)
  show ?thesis
  proof (cases "ld_allowed dec")
    case False
    then have "dec = dec" "st1 = st" using check_login_cases [OF check, of p s] by auto
    with step check False have "\<not> adm" "st' = st" by (auto simp: login_attempt_def)
    then show ?thesis using grow [OF tables_ok_later [OF ok1 times(3) cfg t0(1)]] by simp
  next
    case True
    note admits = check_login_admits [OF ok1 cfg check True]
    have ok2: "tables_ok cfg n st1 (lr_recorded r) p h s k" by (rule tables_ok_later [OF admits(1) times(3) cfg t0(1)])
    have adm: "adm" using step check True by (auto simp: login_attempt_def)
    have room: "p = pair_of (lr_ip r) (lr_identifier r) \<Longrightarrow> recent_count (lr_recorded r) (lc_login_window cfg) h < lc_login_pair_limit cfg"
      "s = source_of (lr_ip r) \<Longrightarrow> recent_count (lr_recorded r) (lc_login_window cfg) k < lc_login_ip_limit cfg"
      using le_less_trans [OF recent_count_later [OF times(3)] admits(4)]
        le_less_trans [OF recent_count_later [OF times(3)] admits(5)] by blast+
    show ?thesis
    proof (cases "lr_check r")
      case BadPassword
      have "st' = snd (record_login_failure cfg (lr_recorded r) (lr_ip r) (lr_identifier r) st1)"
        using step check True BadPassword by (simp add: login_attempt_def)
      moreover have "pair_history p h r = (if p = pair_of (lr_ip r) (lr_identifier r) then h @ [lr_recorded r] else h)"
        "ip_history s k r = (if s = source_of (lr_ip r) then k @ [lr_recorded r] else k)"
        using BadPassword by (auto simp: pair_history_def ip_history_def request_pair_def)
      ultimately show ?thesis
        using adm failure_tables_ok [OF ok2 cfg t0(2) n admits(2,3) room] by presburger
    next
      case GoodPassword
      have st': "record_login_success (lr_ip r) (lr_identifier r) st1 = st'"
        using step check True GoodPassword by (simp add: login_attempt_def)
      have "tables_ok cfg n st' (lr_recorded r) p (pair_history p h r) s k"
        using ok2 success_ok(1) [OF st', of cfg "lr_recorded r" p h] success_ok(2) [OF st', of cfg "lr_recorded r" s k]
          success_ok(3) [OF st', of n] cfg GoodPassword
        by (auto simp: tables_ok_def pair_history_def request_pair_def)
      then show ?thesis using adm GoodPassword grow by (simp add: ip_history_def)
    next
      case OtherFailure
      have "st' = st1" using step check True OtherFailure by (simp add: login_attempt_def)
      then show ?thesis using adm OtherFailure grow [OF ok2] by (simp add: pair_history_def ip_history_def)
    qed
  qed
qed

lemma attempts_ok:
  assumes "tables_ok cfg n st t p h s k" "config_ok cfg" "n + length rs \<le> lc_max_keys cfg"
    "0 \<le> t" "ordered_from t rs" "attempts cfg st rs = (st', admitted)"
  shows "\<exists>m. tables_ok cfg m st' (end_from t rs) p (foldl (pair_history p) h admitted) s (foldl (ip_history s) k admitted)"
  using assms
proof (induction rs arbitrary: n st t h k st' admitted)
  case Nil
  then show ?case by auto
next
  case (Cons r rs)
  obtain adm st1 where step:
    "login_attempt cfg (lr_checked r) (lr_recorded r) (lr_ip r) (lr_identifier r) (lr_check r) st = (adm, st1)"
    by (metis surj_pair)
  obtain st2 rest where rest: "attempts cfg st1 rs = (st2, rest)" by (metis surj_pair)
  have times: "t \<le> lr_checked r" "lr_checked r \<le> lr_recorded r" "ordered_from (lr_recorded r) rs"
    using Cons.prems(5) by simp_all
  have "n < lc_max_keys cfg" using Cons.prems(3) by simp
  from login_attempt_ok [OF Cons.prems(1,2) this Cons.prems(4) times(1,2) step]
  have "tables_ok cfg (n + 1) st1 (lr_recorded r) p (if adm then pair_history p h r else h) s (if adm then ip_history s k r else k)" .
  from Cons.IH [OF this Cons.prems(2) _ _ times(3) rest] Cons.prems(3,4,6) times step rest
  show ?case by (auto split: if_splits)
qed

lemma end_from_le: "ordered_from t rs \<Longrightarrow> t \<le> end_from t rs"
  by (induction rs arbitrary: t) (auto intro: order_trans)

lemma attempts_later:
  assumes "config_ok cfg" "length rs \<le> lc_max_keys cfg" "0 \<le> t" "ordered_from t rs"
    "attempts cfg empty_limiter rs = (st, admitted)" "0 \<le> end_from t rs" "end_from t rs \<le> now"
  shows "\<exists>m. tables_ok cfg m st now p (foldl (pair_history p) [] admitted) s (foldl (ip_history s) [] admitted)"
proof -
  obtain m where "tables_ok cfg m st (end_from t rs) p (foldl (pair_history p) [] admitted) s (foldl (ip_history s) [] admitted)"
    using attempts_ok [OF tables_ok_empty [OF assms(1)] assms(1) _ assms(3,4,5), of p s] assms(2) by auto
  from tables_ok_later [OF this assms(7,1,6)] show ?thesis by blast
qed

lemma check_login_exhausted:
  assumes ok: "tables_ok cfg n st now p h s k" and cfg: "config_ok cfg"
    and hit: "p = pair_of ip i \<and> recent_count now (lc_login_window cfg) h = lc_login_pair_limit cfg
      \<or> s = source_of ip \<and> recent_count now (lc_login_window cfg) k = lc_login_ip_limit cfg"
  shows "\<not> ld_allowed (fst (check_login now ip i st))"
proof
  assume "ld_allowed (fst (check_login now ip i st))"
  then obtain dec st' where "check_login now ip i st = (dec, st')" "ld_allowed dec" by (metis prod.collapse)
  from check_login_admits(4,5) [OF ok cfg this] hit show False by auto
qed


lemma ip_history_filter:
  "foldl (ip_history s) k rs = k @ map lr_recorded (filter (\<lambda>r. source_of (lr_ip r) = s \<and> lr_check r = BadPassword) rs)"
  by (induction rs arbitrary: k) (auto simp: ip_history_def)

section \<open>Properties\<close>

text \<open>
  Brute force against one account from one address is bounded. After any sequence of login
  requests handled one after the other by a fresh limiter, at most \<open>login_pair_limit\<close> passwords of the
  pair were tried and found wrong within the last window since its last success, and once that many
  were, the next attempt of the pair is refused before its password is examined. The requests are at
  most as many as the tables may hold keys, so no key is evicted.
\<close>

lemma brute_force_pair_bounded:
  assumes "config_ok cfg" and "length rs \<le> lc_max_keys cfg" and "0 \<le> start" and "ordered_from start rs"
    and "attempts cfg empty_limiter rs = (st, admitted)" and "end_from start rs \<le> now"
  shows "recent_count now (lc_login_window cfg) (foldl (pair_history (pair_of ip i)) [] admitted) \<le> lc_login_pair_limit cfg
    \<and> (recent_count now (lc_login_window cfg) (foldl (pair_history (pair_of ip i)) [] admitted) = lc_login_pair_limit cfg
       \<longrightarrow> \<not> ld_allowed (fst (check_login now ip i st)))"
proof -
  have "0 \<le> end_from start rs" using end_from_le [OF assms(4)] assms(3) by simp
  from attempts_later [OF assms(1,2,3,4,5) this assms(6)] obtain m where
    "tables_ok cfg m st now (pair_of ip i) (foldl (pair_history (pair_of ip i)) [] admitted)
       [] (foldl (ip_history []) [] admitted)" by blast
  then show ?thesis using check_login_exhausted [OF _ assms(1)] by (simp add: tables_ok_def)
qed

lemma brute_force_pair_bounded_witness:
  "\<exists>cfg rs st admitted. attempts cfg empty_limiter rs = (st, admitted) \<and> length admitted = 2
     \<and> \<not> ld_allowed (fst (check_login 10 (Some ''h'') ''A'' st))"
proof -
  define cfg where "cfg = default_limiter\<lparr>lc_login_pair_limit := 2, lc_max_keys := 4\<rparr>"
  define rs where "rs = map (\<lambda>k. \<lparr>lr_checked = of_nat k, lr_recorded = of_nat k, lr_ip = Some ''h'',
    lr_identifier = ''a'', lr_check = BadPassword\<rparr>) [1, 2, 3]"
  have run: "length (snd (attempts cfg empty_limiter rs)) = 2"
    and cnt: "recent_count 10 (lc_login_window cfg) (foldl (pair_history (pair_of (Some ''h'') ''A'')) []
      (snd (attempts cfg empty_limiter rs))) = lc_login_pair_limit cfg"
    unfolding rs_def cfg_def by code_simp+
  have pre: "config_ok cfg" "length rs \<le> lc_max_keys cfg" "ordered_from 0 rs" "end_from 0 rs \<le> 10"
    unfolding rs_def cfg_def by code_simp+
  obtain st admitted where r: "attempts cfg empty_limiter rs = (st, admitted)" by (metis surj_pair)
  have "\<not> ld_allowed (fst (check_login 10 (Some ''h'') ''A'' st))"
    using brute_force_pair_bounded [OF pre(1,2) order_refl pre(3) r pre(4), of "Some ''h''" "''A''"] cnt
    unfolding r snd_conv by (rule mp [OF conjunct2])
  with r run show ?thesis by (intro exI [of _ cfg] exI [of _ rs] exI [of _ st] exI [of _ admitted]) simp
qed



text \<open>
  A refusal is temporary and its \<open>Retry-After\<close> is honest: a refused check changes nothing, announces
  at least one second, and the same attempt is admitted as soon as the announced seconds have passed
  and no other request came between, while up to one second before it is still refused.
\<close>

lemma refusal_ends:
  assumes "check_login now ip i st = (decision, st')" and "\<not> ld_allowed decision"
  shows "st' = st \<and> 1 \<le> ld_retry_after decision
    \<and> (now + of_int (ld_retry_after decision) \<le> later \<longrightarrow> ld_allowed (fst (check_login later ip i st)))
    \<and> (later \<le> now + of_int (ld_retry_after decision) - 1 \<longrightarrow> \<not> ld_allowed (fst (check_login later ip i st)))"
proof -
  define u where "u = max (od_get (li_login_blocked_pair st) (pair_of ip i) 0) (od_get (li_login_blocked_ip st) (source_of ip) 0)"
  have allowed: "ld_allowed (fst (check_login t ip i st)) \<longleftrightarrow> u \<le> t" for t
    by (auto simp: check_login_def Let_def u_def blocked_decision_def admit_def)
  have "now < u" using allowed [of now] assms by simp
  with assms have d: "decision = blocked_decision now u" and st': "st' = st"
    by (auto simp: check_login_def Let_def u_def [symmetric])
  have retry: "ld_retry_after decision = \<lceil>u - now\<rceil>" "1 \<le> ld_retry_after decision"
    using \<open>now < u\<close> by (auto simp: d blocked_decision_def)
  have gap: "of_int (ld_retry_after decision) - 1 < u - now" "u - now \<le> of_int (ld_retry_after decision)"
    using ceiling_correct [of "u - now"] by (simp_all add: retry(1))
  have "u \<le> later" if "now + of_int (ld_retry_after decision) \<le> later" using gap(2) that by linarith
  moreover have "later < u" if "later \<le> now + of_int (ld_retry_after decision) - 1" using gap(1) that by linarith
  ultimately show ?thesis using st' retry(2) allowed by (simp add: not_le)
qed

lemma refusal_ends_witness:
  "ld_allowed (fst (check_login (71 / 2) (Some ''h'') ''b'' (empty_limiter\<lparr>li_login_blocked_ip := [(''h'', 35)]\<rparr>)))"
proof -
  define st where "st = empty_limiter\<lparr>li_login_blocked_ip := [(''h'', 35)]\<rparr>"
  obtain d st' where c: "check_login (61 / 2) (Some ''h'') ''b'' st = (d, st')" by (metis surj_pair)
  have "\<not> ld_allowed (fst (check_login (61 / 2) (Some ''h'') ''b'' st))" "ld_retry_after (fst (check_login (61 / 2) (Some ''h'') ''b'' st)) = 5"
    unfolding st_def by code_simp+
  with c have "\<not> ld_allowed d" "ld_retry_after d = 5" by simp_all
  with refusal_ends [OF c this(1), of "71 / 2"] show ?thesis by (simp add: st_def)
qed

end
