(* ===== verification/MediaSessions.thy ===== *)
theory MediaSessions
  imports OrderedDict
begin

text \<open>
  \<open>modules/cameras/media_sessions.py\<close>: the in-memory authority over live media sessions. The state is
  the dictionary of sessions; a cleanup callable and a timer are names. Each operation runs under the
  registry's lock and is one function, which also returns what it does outside: the timers it cancels
  and starts, and the cleanups it runs (a cleanup that raises is ignored by the code, so running is
  all that happens). The timers themselves belong to the world in which the operations are steps.
\<close>

section \<open>The registry\<close>

record timer =
  tm_session :: uuid
  tm_generation :: int
  tm_seconds :: int

record media_session =
  ms_owner :: uuid
  ms_camera :: uuid
  ms_profile :: "uuid option"
  ms_purpose :: "string option"
  ms_cleanups :: "(string \<times> nat) list"
  ms_timer :: "timer option"
  ms_generation :: int

type_synonym registry = "(uuid \<times> media_session) list"

datatype timer_command = StartTimer timer | CancelTimer timer

definition cancel_timer :: "timer option \<Rightarrow> timer_command list" where
  "cancel_timer t = (case t of None \<Rightarrow> [] | Some x \<Rightarrow> [CancelTimer x])"

text \<open>\<open>issue\<close>; the new session id is \<open>uuid4()\<close>.\<close>

definition issue_session ::
    "uuid \<Rightarrow> uuid \<Rightarrow> uuid \<Rightarrow> int \<Rightarrow> uuid option \<Rightarrow> string option \<Rightarrow> registry
     \<Rightarrow> (registry \<times> timer_command list) result" where
  "issue_session session_id owner_user_id camera_id ttl_seconds profile_id purpose reg =
     (if ttl_seconds \<le> 0 then Inl ValueError
      else
        let timer = \<lparr>tm_session = session_id, tm_generation = 0, tm_seconds = ttl_seconds\<rparr>;
            state = \<lparr>ms_owner = owner_user_id, ms_camera = camera_id, ms_profile = profile_id,
                     ms_purpose = purpose, ms_cleanups = [], ms_timer = Some timer, ms_generation = 0\<rparr>
        in Inr (od_set session_id state reg, [StartTimer timer]))"

definition owned_by :: "media_session \<Rightarrow> uuid \<Rightarrow> uuid \<Rightarrow> bool" where
  "owned_by state owner_user_id camera_id = (ms_owner state = owner_user_id \<and> ms_camera state = camera_id)"

definition authorize_session :: "uuid \<Rightarrow> uuid \<Rightarrow> uuid \<Rightarrow> registry \<Rightarrow> bool" where
  "authorize_session session_id owner_user_id camera_id reg =
     (case map_of reg session_id of None \<Rightarrow> False | Some state \<Rightarrow> owned_by state owner_user_id camera_id)"

definition stream_context :: "uuid \<Rightarrow> uuid \<Rightarrow> uuid \<Rightarrow> registry \<Rightarrow> (uuid \<times> string) option" where
  "stream_context session_id owner_user_id camera_id reg =
     (case map_of reg session_id of
        None \<Rightarrow> None
      | Some state \<Rightarrow>
          if \<not> owned_by state owner_user_id camera_id then None
          else (case (ms_profile state, ms_purpose state) of
                  (Some profile, Some purpose) \<Rightarrow> Some (profile, purpose)
                | _ \<Rightarrow> None))"

definition session_active :: "uuid \<Rightarrow> registry \<Rightarrow> bool" where
  "session_active session_id reg = (map_of reg session_id \<noteq> None)"

definition renew_session ::
    "uuid \<Rightarrow> uuid \<Rightarrow> uuid \<Rightarrow> int \<Rightarrow> registry \<Rightarrow> (registry \<times> timer_command list \<times> bool) result" where
  "renew_session session_id owner_user_id camera_id ttl_seconds reg =
     (if ttl_seconds \<le> 0 then Inl ValueError
      else (case map_of reg session_id of
          None \<Rightarrow> Inr (reg, [], False)
        | Some state \<Rightarrow>
            if \<not> owned_by state owner_user_id camera_id then Inr (reg, [], False)
            else
              let generation = ms_generation state + 1;
                  timer = \<lparr>tm_session = session_id, tm_generation = generation, tm_seconds = ttl_seconds\<rparr>
              in Inr (od_set session_id (state\<lparr>ms_generation := generation, ms_timer := Some timer\<rparr>) reg,
                      cancel_timer (ms_timer state) @ [StartTimer timer], True)))"

definition register_cleanup :: "uuid \<Rightarrow> string \<Rightarrow> nat \<Rightarrow> registry \<Rightarrow> registry \<times> bool" where
  "register_cleanup session_id key cleanup reg =
     (case map_of reg session_id of
        None \<Rightarrow> (reg, False)
      | Some state \<Rightarrow> (od_set session_id (state\<lparr>ms_cleanups := od_set key cleanup (ms_cleanups state)\<rparr>) reg, True))"

definition unregister_cleanup :: "uuid \<Rightarrow> string \<Rightarrow> registry \<Rightarrow> registry" where
  "unregister_cleanup session_id key reg =
     (case map_of reg session_id of
        None \<Rightarrow> reg
      | Some state \<Rightarrow> od_set session_id (state\<lparr>ms_cleanups := od_del key (ms_cleanups state)\<rparr>) reg)"

text \<open>\<open>revoke\<close>: the new registry, the cancelled timer, the cleanups that are run, and the result.\<close>

definition revoke_session ::
    "uuid \<Rightarrow> uuid option \<Rightarrow> uuid option \<Rightarrow> registry \<Rightarrow> registry \<times> timer_command list \<times> nat list \<times> bool" where
  "revoke_session session_id owner_user_id camera_id reg =
     (case map_of reg session_id of
        None \<Rightarrow> (reg, [], [], False)
      | Some state \<Rightarrow>
          if (case owner_user_id of None \<Rightarrow> False | Some u \<Rightarrow> ms_owner state \<noteq> u) then (reg, [], [], False)
          else if (case camera_id of None \<Rightarrow> False | Some c \<Rightarrow> ms_camera state \<noteq> c) then (reg, [], [], False)
          else (od_del session_id reg, cancel_timer (ms_timer state), map snd (ms_cleanups state), True))"

fun revoke_each ::
    "uuid option \<Rightarrow> uuid list \<Rightarrow> registry \<Rightarrow> registry \<times> timer_command list \<times> nat list \<times> nat" where
  "revoke_each camera_id [] reg = (reg, [], [], 0)"
| "revoke_each camera_id (k # ks) reg =
     (let (reg1, commands, cleanups, revoked) = revoke_session k None camera_id reg;
          (reg2, commands', cleanups', n) = revoke_each camera_id ks reg1
      in (reg2, commands @ commands', cleanups @ cleanups', if revoked then n + 1 else n))"

definition revoke_camera ::
    "uuid \<Rightarrow> registry \<Rightarrow> registry \<times> timer_command list \<times> nat list \<times> nat" where
  "revoke_camera camera_id reg =
     revoke_each (Some camera_id) (map fst (filter (\<lambda>e. ms_camera (snd e) = camera_id) reg)) reg"

text \<open>\<open>_expire\<close>, which a timer calls with the generation it was created for.\<close>

definition expire_session :: "uuid \<Rightarrow> int \<Rightarrow> registry \<Rightarrow> registry \<times> nat list" where
  "expire_session session_id generation reg =
     (case map_of reg session_id of
        None \<Rightarrow> (reg, [])
      | Some state \<Rightarrow>
          if ms_generation state \<noteq> generation then (reg, [])
          else (od_del session_id reg, map snd (ms_cleanups state)))"

definition stop_sessions :: "registry \<Rightarrow> registry \<times> timer_command list \<times> nat list \<times> nat" where
  "stop_sessions reg = revoke_each None (map fst reg) reg"

section \<open>Sessions in the world\<close>

text \<open>
  A started timer is pending with the instant it is due. Cancelling marks it: a cancellation that
  comes while the timer is already firing does not stop it, so a marked timer may still fire, an
  unmarked one fires at or after its instant. \<open>mw_used\<close>, \<open>mw_deadline\<close>, \<open>mw_registered\<close> and
  \<open>mw_dropped\<close> are history: the ids handed out, the end of the last time to live of each, the
  cleanups registered with their session, and those replaced or unregistered before they ran.
\<close>

record media_world =
  mw_sessions :: registry
  mw_now :: instant
  mw_timers :: "(timer \<times> instant \<times> bool) list"
  mw_ran :: "nat list"
  mw_used :: "uuid list"
  mw_deadline :: "uuid \<Rightarrow> instant"
  mw_registered :: "(nat \<times> uuid) list"
  mw_dropped :: "nat list"

fun run_command :: "instant \<Rightarrow> timer_command \<Rightarrow> (timer \<times> instant \<times> bool) list \<Rightarrow> (timer \<times> instant \<times> bool) list" where
  "run_command now (StartTimer t) ts = ts @ [(t, now + seconds (tm_seconds t), False)]"
| "run_command now (CancelTimer t) ts = map (\<lambda>e. if fst e = t then (t, fst (snd e), True) else e) ts"

definition run_commands :: "instant \<Rightarrow> timer_command list \<Rightarrow> (timer \<times> instant \<times> bool) list \<Rightarrow> (timer \<times> instant \<times> bool) list" where
  "run_commands now cs ts = foldl (\<lambda>acc c. run_command now c acc) ts cs"

definition session_cleanups :: "registry \<Rightarrow> uuid \<Rightarrow> nat list" where
  "session_cleanups reg k = (case map_of reg k of None \<Rightarrow> [] | Some s \<Rightarrow> map snd (ms_cleanups s))"

text \<open>The cleanup that registering or unregistering a key of a session takes out of the registry.\<close>

definition displaced :: "registry \<Rightarrow> uuid \<Rightarrow> string \<Rightarrow> nat list" where
  "displaced reg k key =
     (case map_of reg k of None \<Rightarrow> []
      | Some s \<Rightarrow> (case map_of (ms_cleanups s) key of None \<Rightarrow> [] | Some c \<Rightarrow> [c]))"

definition fresh_world :: "instant \<Rightarrow> media_world" where
  "fresh_world now = \<lparr>mw_sessions = [], mw_now = now, mw_timers = [], mw_ran = [], mw_used = [],
     mw_deadline = (\<lambda>_. 0), mw_registered = [], mw_dropped = []\<rparr>"

inductive media_step :: "media_world \<Rightarrow> media_world \<Rightarrow> bool" where
  media_issue: "\<lbrakk>issue_session k owner cam ttl profile purpose (mw_sessions w) = Inr (reg, cs); k \<notin> set (mw_used w)\<rbrakk>
    \<Longrightarrow> media_step w (w\<lparr>mw_sessions := reg, mw_timers := run_commands (mw_now w) cs (mw_timers w),
          mw_used := k # mw_used w, mw_deadline := (mw_deadline w)(k := mw_now w + seconds ttl)\<rparr>)"
| media_renew: "renew_session k owner cam ttl (mw_sessions w) = Inr (reg, cs, done)
    \<Longrightarrow> media_step w (w\<lparr>mw_sessions := reg, mw_timers := run_commands (mw_now w) cs (mw_timers w),
          mw_deadline := (if done then (mw_deadline w)(k := mw_now w + seconds ttl) else mw_deadline w)\<rparr>)"
| media_register: "\<lbrakk>register_cleanup k key c (mw_sessions w) = (reg, True); c \<notin> fst ` set (mw_registered w)\<rbrakk>
    \<Longrightarrow> media_step w (w\<lparr>mw_sessions := reg, mw_registered := (c, k) # mw_registered w,
          mw_dropped := displaced (mw_sessions w) k key @ mw_dropped w\<rparr>)"
| media_unregister: "media_step w (w\<lparr>mw_sessions := unregister_cleanup k key (mw_sessions w),
          mw_dropped := displaced (mw_sessions w) k key @ mw_dropped w\<rparr>)"
| media_revoke: "revoke_session k owner cam (mw_sessions w) = (reg, cs, cleanups, done)
    \<Longrightarrow> media_step w (w\<lparr>mw_sessions := reg, mw_timers := run_commands (mw_now w) cs (mw_timers w),
          mw_ran := mw_ran w @ cleanups\<rparr>)"
| media_fire: "\<lbrakk>(t, due, cancelled) \<in> set (mw_timers w); due \<le> mw_now w;
          expire_session (tm_session t) (tm_generation t) (mw_sessions w) = (reg, cleanups)\<rbrakk>
    \<Longrightarrow> media_step w (w\<lparr>mw_sessions := reg, mw_timers := remove1 (t, due, cancelled) (mw_timers w),
          mw_ran := mw_ran w @ cleanups\<rparr>)"
| media_tick: "mw_now w \<le> now \<Longrightarrow> media_step w (w\<lparr>mw_now := now\<rparr>)"

inductive_cases media_stepE: "media_step w w'"


section \<open>Life time\<close>

text \<open>
  Every live session has a pending timer of its own generation, due at the end of its last time to
  live; timers of older generations are harmless, since \<open>_expire\<close> compares generations.
\<close>

definition guarded :: "media_world \<Rightarrow> uuid \<Rightarrow> media_session \<Rightarrow> bool" where
  "guarded w k s \<longleftrightarrow>
     (\<exists>t. ms_timer s = Some t \<and> tm_session t = k \<and> tm_generation t = ms_generation s
        \<and> (t, mw_deadline w k, False) \<in> set (mw_timers w))"

definition timer_ok :: "media_world \<Rightarrow> timer \<Rightarrow> instant \<Rightarrow> bool" where
  "timer_ok w t due \<longleftrightarrow> tm_session t \<in> set (mw_used w)
     \<and> (\<forall>s. map_of (mw_sessions w) (tm_session t) = Some s \<longrightarrow>
          tm_generation t \<le> ms_generation s
          \<and> (tm_generation t = ms_generation s \<longrightarrow> due = mw_deadline w (tm_session t)))"

definition lifetimes_ok :: "media_world \<Rightarrow> bool" where
  "lifetimes_ok w \<longleftrightarrow>
     distinct (map fst (mw_sessions w))
     \<and> (\<forall>k s. map_of (mw_sessions w) k = Some s \<longrightarrow> k \<in> set (mw_used w) \<and> guarded w k s)
     \<and> (\<forall>t due c. (t, due, c) \<in> set (mw_timers w) \<longrightarrow> timer_ok w t due)"

lemma run_commands_simps [simp]:
  "run_commands now [] ts = ts"
  "run_commands now (c # cs) ts = run_commands now cs (run_command now c ts)"
  by (simp_all add: run_commands_def)

lemma run_cancel_mem:
  "(t, due, c) \<in> set (run_command now (CancelTimer u) ts)
   \<longleftrightarrow> (if t = u then c \<and> (\<exists>b. (u, due, b) \<in> set ts) else (t, due, c) \<in> set ts)"
  by (force simp: image_iff)

lemma run_cancel_timer_mem:
  "(t, due, c) \<in> set (run_commands now (cancel_timer x) ts)
   \<longleftrightarrow> (if x = Some t then c \<and> (\<exists>b. (t, due, b) \<in> set ts) else (t, due, c) \<in> set ts)"
  by (cases x) (auto simp: cancel_timer_def run_cancel_mem simp del: run_command.simps)

lemma run_commands_append: "run_commands now (xs @ ys) ts = run_commands now ys (run_commands now xs ts)"
  by (simp add: run_commands_def)

lemma issue_session_cases:
  assumes "issue_session k owner cam ttl profile purpose reg = Inr (reg', cs)"
  obtains s u where "reg' = od_set k s reg" "ms_owner s = owner" "ms_camera s = cam" "ms_cleanups s = []"
    "ms_generation s = 0" "ms_timer s = Some u" "cs = [StartTimer u]" "0 < ttl"
    "tm_session u = k" "tm_generation u = 0" "tm_seconds u = ttl"
  using assms by (auto simp: issue_session_def Let_def split: if_splits)

lemma renew_session_cases:
  assumes "renew_session k owner cam ttl reg = Inr (reg', cs, ok)"
  obtains (refused) "\<not> ok" "reg' = reg" "cs = []"
  | (renewed) s u where "ok" "map_of reg k = Some s" "owned_by s owner cam" "0 < ttl"
      "tm_session u = k \<and> tm_generation u = ms_generation s + 1 \<and> tm_seconds u = ttl"
      "reg' = od_set k (s\<lparr>ms_generation := ms_generation s + 1, ms_timer := Some u\<rparr>) reg"
      "cs = cancel_timer (ms_timer s) @ [StartTimer u]"
proof (cases "\<exists>s. map_of reg k = Some s \<and> owned_by s owner cam")
  case True
  then obtain s where s: "map_of reg k = Some s" "owned_by s owner cam" by blast
  show thesis
    by (rule renewed [of s "\<lparr>tm_session = k, tm_generation = ms_generation s + 1, tm_seconds = ttl\<rparr>"])
      (use assms s in \<open>auto simp: renew_session_def Let_def split: if_splits\<close>)
next
  case False
  then show thesis
    by (intro refused) (use assms in \<open>auto simp: renew_session_def split: if_splits option.splits\<close>)
qed

lemma revoke_session_cases:
  assumes "revoke_session k owner cam reg = (reg', cs, cleanups, ok)"
  obtains (refused) "\<not> ok" "reg' = reg" "cs = []" "cleanups = []"
  | (revoked) s where "ok" "map_of reg k = Some s" "reg' = od_del k reg" "cs = cancel_timer (ms_timer s)"
      "cleanups = map snd (ms_cleanups s)" "cam = None \<or> cam = Some (ms_camera s)"
  using assms by (auto simp: revoke_session_def split: if_splits option.splits)

lemma expire_session_cases:
  assumes "expire_session k g reg = (reg', cleanups)"
  obtains (stale) "reg' = reg" "cleanups = []" "\<And>s. map_of reg k = Some s \<Longrightarrow> ms_generation s \<noteq> g"
  | (expired) s where "map_of reg k = Some s" "ms_generation s = g" "reg' = od_del k reg"
      "cleanups = map snd (ms_cleanups s)"
  using assms by (auto simp: expire_session_def split: if_splits option.splits)

lemma lifetimes_okD:
  assumes "lifetimes_ok w"
  shows "distinct (map fst (mw_sessions w))"
    and "map_of (mw_sessions w) k = Some s \<Longrightarrow> k \<in> set (mw_used w)"
    and "map_of (mw_sessions w) k = Some s \<Longrightarrow> guarded w k s"
    and "(t, due, c) \<in> set (mw_timers w) \<Longrightarrow> timer_ok w t due"
  using assms unfolding lifetimes_ok_def by blast+

text \<open>A step that concerns one session keeps the invariant if it keeps it for that session.\<close>

lemma lifetimes_change:
  assumes ok: "lifetimes_ok w" and dist: "distinct (map fst (mw_sessions w'))"
    and used: "set (mw_used w) \<subseteq> set (mw_used w')"
    and others: "\<And>j. j \<noteq> k \<Longrightarrow> map_of (mw_sessions w') j = map_of (mw_sessions w) j \<and> mw_deadline w' j = mw_deadline w j"
    and this_one: "\<And>s. map_of (mw_sessions w') k = Some s \<Longrightarrow> k \<in> set (mw_used w') \<and> guarded w' k s"
    and kept: "\<And>t due. tm_session t \<noteq> k \<Longrightarrow> (t, due, False) \<in> set (mw_timers w) \<Longrightarrow> (t, due, False) \<in> set (mw_timers w')"
    and old: "\<And>t due c. tm_session t \<noteq> k \<Longrightarrow> (t, due, c) \<in> set (mw_timers w') \<Longrightarrow> \<exists>b. (t, due, b) \<in> set (mw_timers w)"
    and fresh: "\<And>t due c. tm_session t = k \<Longrightarrow> (t, due, c) \<in> set (mw_timers w') \<Longrightarrow> timer_ok w' t due"
  shows "lifetimes_ok w'"
proof -
  have "j \<in> set (mw_used w') \<and> guarded w' j s" if s: "map_of (mw_sessions w') j = Some s" for j s
  proof (cases "j = k")
    case False
    with others s have "map_of (mw_sessions w) j = Some s" by simp
    from lifetimes_okD(2,3) [OF ok this] obtain x where x: "j \<in> set (mw_used w)" "ms_timer s = Some x"
      "tm_session x = j" "tm_generation x = ms_generation s" "(x, mw_deadline w j, False) \<in> set (mw_timers w)"
      by (auto simp: guarded_def)
    with kept [of x "mw_deadline w j"] False others [OF False] used show ?thesis by (auto simp: guarded_def)
  qed (use this_one s in blast)
  moreover have "timer_ok w' t due" if t: "(t, due, c) \<in> set (mw_timers w')" for t due c
  proof (cases "tm_session t = k")
    case False
    from old [OF False t] lifetimes_okD(4) [OF ok] have "timer_ok w t due" by blast
    then show ?thesis using others [OF False] used unfolding timer_ok_def by auto
  qed (use fresh t in blast)
  ultimately show ?thesis unfolding lifetimes_ok_def using dist by blast
qed

lemma lifetimes_issue:
  assumes ok: "lifetimes_ok w" and issue: "issue_session k owner cam ttl profile purpose (mw_sessions w) = Inr (reg, cs)"
    and unused: "k \<notin> set (mw_used w)"
  shows "lifetimes_ok (w\<lparr>mw_sessions := reg, mw_timers := run_commands (mw_now w) cs (mw_timers w),
          mw_used := k # mw_used w, mw_deadline := (mw_deadline w)(k := mw_now w + seconds ttl)\<rparr>)"
proof -
  from issue obtain s u where s: "reg = od_set k s (mw_sessions w)" "ms_generation s = 0"
    "ms_timer s = Some u" "cs = [StartTimer u]" "tm_session u = k" "tm_generation u = 0" "tm_seconds u = ttl"
    by (rule issue_session_cases)
  have other: "tm_session t \<noteq> k" if "(t, due, c) \<in> set (mw_timers w)" for t due c
    using lifetimes_okD(4) [OF ok that] unused by (auto simp: timer_ok_def)
  show ?thesis
  proof (rule lifetimes_change [OF ok, where k = k])
    fix t due c
    assume "tm_session t = k" "(t, due, c) \<in> set (mw_timers (w\<lparr>mw_sessions := reg, mw_timers := run_commands (mw_now w) cs (mw_timers w),
          mw_used := k # mw_used w, mw_deadline := (mw_deadline w)(k := mw_now w + seconds ttl)\<rparr>))"
    then show "timer_ok (w\<lparr>mw_sessions := reg, mw_timers := run_commands (mw_now w) cs (mw_timers w),
          mw_used := k # mw_used w, mw_deadline := (mw_deadline w)(k := mw_now w + seconds ttl)\<rparr>) t due"
      using other s by (auto simp: timer_ok_def)
  qed (use s lifetimes_okD(1) [OF ok] in \<open>auto simp: guarded_def\<close>)
qed

lemma lifetimes_renew:
  assumes ok: "lifetimes_ok w" and renew: "renew_session k owner cam ttl (mw_sessions w) = Inr (reg, cs, granted)"
  shows "lifetimes_ok (w\<lparr>mw_sessions := reg, mw_timers := run_commands (mw_now w) cs (mw_timers w),
          mw_deadline := (if granted then (mw_deadline w)(k := mw_now w + seconds ttl) else mw_deadline w)\<rparr>)"
    (is "lifetimes_ok ?w")
  using renew
proof (cases rule: renew_session_cases)
  case refused
  then show ?thesis using ok by simp
next
  case (renewed s u)
  from lifetimes_okD(3) [OF ok renewed(2)] obtain x where x: "ms_timer s = Some x" "tm_session x = k"
    "tm_generation x = ms_generation s" by (auto simp: guarded_def)
  have mem: "(t, due, c) \<in> set (mw_timers ?w) \<longleftrightarrow>
      (if t = x then c \<and> (\<exists>b. (t, due, b) \<in> set (mw_timers w)) else (t, due, c) \<in> set (mw_timers w))
      \<or> (t, due, c) = (u, mw_now w + seconds ttl, False)" for t due c
    using renewed(5,7) x(1) by (auto simp: run_commands_append run_cancel_timer_mem)
  show ?thesis
  proof (rule lifetimes_change [OF ok, where k = k])
    fix t due c
    assume t: "tm_session t = k" "(t, due, c) \<in> set (mw_timers ?w)"
    show "timer_ok ?w t due"
    proof (cases "t = u")
      case True
      then have "due = mw_now w + seconds ttl"
      proof -
        have "\<not> (u, due, b) \<in> set (mw_timers w)" for b
          using lifetimes_okD(4) [OF ok, of u due b] renewed(2,5) by (auto simp: timer_ok_def)
        then show ?thesis using t(2) True x(3) renewed(5) unfolding mem by (auto split: if_splits)
      qed
      then show ?thesis using True renewed lifetimes_okD(2) [OF ok renewed(2)] by (auto simp: timer_ok_def)
    next
      case False
      with t(2) obtain b where "(t, due, b) \<in> set (mw_timers w)" unfolding mem by (auto split: if_splits)
      from lifetimes_okD(4) [OF ok this] show ?thesis using t(1) renewed by (auto simp: timer_ok_def)
    qed
  next
    fix s' assume "map_of (mw_sessions ?w) k = Some s'"
    then show "k \<in> set (mw_used ?w) \<and> guarded ?w k s'"
      using renewed lifetimes_okD(2) [OF ok renewed(2)] by (auto simp: guarded_def run_commands_append)
  next
    fix t due assume "tm_session t \<noteq> k" "(t, due, False) \<in> set (mw_timers w)"
    then show "(t, due, False) \<in> set (mw_timers ?w)" unfolding mem using x(2) by auto
  next
    fix t due c assume "tm_session t \<noteq> k" "(t, due, c) \<in> set (mw_timers ?w)"
    then show "\<exists>b. (t, due, b) \<in> set (mw_timers w)" unfolding mem using renewed(5) by (auto split: if_splits)
  qed (use renewed lifetimes_okD(1) [OF ok] in auto)
qed

lemma lifetimes_revoke:
  assumes ok: "lifetimes_ok w" and revoke: "revoke_session k owner cam (mw_sessions w) = (reg, cs, cleanups, granted)"
  shows "lifetimes_ok (w\<lparr>mw_sessions := reg, mw_timers := run_commands (mw_now w) cs (mw_timers w), mw_ran := rest\<rparr>)"
    (is "lifetimes_ok ?w")
  using revoke
proof (cases rule: revoke_session_cases)
  case refused
  then show ?thesis using ok by (simp add: lifetimes_ok_def guarded_def timer_ok_def)
next
  case (revoked s)
  from lifetimes_okD(3) [OF ok revoked(2)] obtain x where x: "ms_timer s = Some x" "tm_session x = k"
    by (auto simp: guarded_def)
  have mem: "(t, due, c) \<in> set (mw_timers ?w) \<longleftrightarrow>
      (if t = x then c \<and> (\<exists>b. (t, due, b) \<in> set (mw_timers w)) else (t, due, c) \<in> set (mw_timers w))" for t due c
    using revoked(4) x(1) by (simp add: run_cancel_timer_mem)
  show ?thesis
  proof (rule lifetimes_change [OF ok, where k = k])
    fix t due c
    assume t: "tm_session t = k" "(t, due, c) \<in> set (mw_timers ?w)"
    from t(2) obtain b where "(t, due, b) \<in> set (mw_timers w)" unfolding mem by (auto split: if_splits)
    from lifetimes_okD(4) [OF ok this] show "timer_ok ?w t due" using t(1) revoked by (auto simp: timer_ok_def)
  next
    fix t due assume "tm_session t \<noteq> k" "(t, due, False) \<in> set (mw_timers w)"
    then show "(t, due, False) \<in> set (mw_timers ?w)" unfolding mem using x(2) by auto
  next
    fix t due c assume "tm_session t \<noteq> k" "(t, due, c) \<in> set (mw_timers ?w)"
    then show "\<exists>b. (t, due, b) \<in> set (mw_timers w)" unfolding mem by (auto split: if_splits)
  qed (use revoked lifetimes_okD(1) [OF ok] in auto)
qed

lemma lifetimes_fire:
  assumes ok: "lifetimes_ok w" and due: "(t, due, c) \<in> set (mw_timers w)"
    and fire: "expire_session (tm_session t) (tm_generation t) (mw_sessions w) = (reg, cleanups)"
  shows "lifetimes_ok (w\<lparr>mw_sessions := reg, mw_timers := remove1 (t, due, c) (mw_timers w), mw_ran := rest\<rparr>)"
    (is "lifetimes_ok ?w")
proof -
  have kept: "(u, d, b) \<in> set (mw_timers ?w)" if "u \<noteq> t" "(u, d, b) \<in> set (mw_timers w)" for u d b
    using that by simp
  have old: "(u, d, b) \<in> set (mw_timers w)" if "(u, d, b) \<in> set (mw_timers ?w)" for u d b
    using that set_remove1_subset [of "(t, due, c)" "mw_timers w"] by auto
  from fire show ?thesis
  proof (cases rule: expire_session_cases)
    case stale
    show ?thesis
    proof (rule lifetimes_change [OF ok, where k = "tm_session t"])
      fix s assume "map_of (mw_sessions ?w) (tm_session t) = Some s"
      with stale have s: "map_of (mw_sessions w) (tm_session t) = Some s" "ms_generation s \<noteq> tm_generation t" by auto
      from lifetimes_okD(3) [OF ok s(1)] obtain x where x: "ms_timer s = Some x" "tm_session x = tm_session t"
        "tm_generation x = ms_generation s" "(x, mw_deadline w (tm_session t), False) \<in> set (mw_timers w)"
        by (auto simp: guarded_def)
      then have "(x, mw_deadline w (tm_session t), False) \<in> set (mw_timers ?w)" using s(2) by (intro kept) auto
      with x show "tm_session t \<in> set (mw_used ?w) \<and> guarded ?w (tm_session t) s"
        using lifetimes_okD(2) [OF ok s(1)] by (auto simp: guarded_def)
    next
      fix u d b assume "tm_session u = tm_session t" "(u, d, b) \<in> set (mw_timers ?w)"
      from lifetimes_okD(4) [OF ok old [OF this(2)]] show "timer_ok ?w u d" using stale(1) by (simp add: timer_ok_def)
    next
      fix u d assume "tm_session u \<noteq> tm_session t" "(u, d, False) \<in> set (mw_timers w)"
      then show "(u, d, False) \<in> set (mw_timers ?w)" by (intro kept) auto
    next
      fix u d b assume "(u, d, b) \<in> set (mw_timers ?w)"
      then show "\<exists>b. (u, d, b) \<in> set (mw_timers w)" by (blast dest: old)
    qed (use stale lifetimes_okD(1) [OF ok] in auto)
  next
    case (expired s)
    show ?thesis
    proof (rule lifetimes_change [OF ok, where k = "tm_session t"])
      fix u d b assume u: "tm_session u = tm_session t" "(u, d, b) \<in> set (mw_timers ?w)"
      from lifetimes_okD(4) [OF ok old [OF u(2)]] show "timer_ok ?w u d" using expired u(1) by (simp add: timer_ok_def)
    next
      fix u d assume "tm_session u \<noteq> tm_session t" "(u, d, False) \<in> set (mw_timers w)"
      then show "(u, d, False) \<in> set (mw_timers ?w)" by (intro kept) auto
    next
      fix u d b assume "(u, d, b) \<in> set (mw_timers ?w)"
      then show "\<exists>b. (u, d, b) \<in> set (mw_timers w)" by (blast dest: old)
    qed (use expired lifetimes_okD(1) [OF ok] in auto)
  qed
qed

text \<open>Replacing a session by one with the same timer and generation.\<close>

lemma lifetimes_cleanups:
  assumes ok: "lifetimes_ok w" and s: "map_of (mw_sessions w) k = Some s"
    and s': "ms_timer s' = ms_timer s" "ms_generation s' = ms_generation s"
  shows "lifetimes_ok (w\<lparr>mw_sessions := od_set k s' (mw_sessions w), mw_registered := r, mw_dropped := q\<rparr>)"
  using lifetimes_okD [OF ok] s s'
  by (intro lifetimes_change [OF ok, where k = k]) (auto simp: guarded_def timer_ok_def)

lemma register_cleanup_cases:
  assumes "register_cleanup k key c reg = (reg', True)"
  obtains s where "map_of reg k = Some s" "reg' = od_set k (s\<lparr>ms_cleanups := od_set key c (ms_cleanups s)\<rparr>) reg"
  using assms by (auto simp: register_cleanup_def split: option.splits)

lemma lifetimes_ghost:
  "lifetimes_ok w \<Longrightarrow> lifetimes_ok (w\<lparr>mw_now := now\<rparr>)"
  "lifetimes_ok w \<Longrightarrow> lifetimes_ok (w\<lparr>mw_dropped := q\<rparr>)"
  by (simp_all add: lifetimes_ok_def guarded_def timer_ok_def)

lemma lifetimes_step:
  assumes "media_step w w'" and "lifetimes_ok w"
  shows "lifetimes_ok w'"
  using assms
proof cases
  case (media_register k key c reg)
  from media_register(2) obtain s where "map_of (mw_sessions w) k = Some s"
    "reg = od_set k (s\<lparr>ms_cleanups := od_set key c (ms_cleanups s)\<rparr>) (mw_sessions w)" by (rule register_cleanup_cases)
  then show ?thesis using assms(2) media_register(1) by (simp add: lifetimes_cleanups)
next
  case (media_unregister k key)
  show ?thesis
  proof (cases "map_of (mw_sessions w) k")
    case None
    then show ?thesis using media_unregister assms(2) by (simp add: unregister_cleanup_def lifetimes_ghost(2))
  next
    case (Some s)
    have "lifetimes_ok (w\<lparr>mw_sessions := od_set k (s\<lparr>ms_cleanups := od_del key (ms_cleanups s)\<rparr>) (mw_sessions w),
        mw_registered := mw_registered w, mw_dropped := displaced (mw_sessions w) k key @ mw_dropped w\<rparr>)"
      by (rule lifetimes_cleanups [OF assms(2) Some]) simp_all
    then show ?thesis using media_unregister Some by (simp add: unregister_cleanup_def)
  qed
qed (simp_all add: lifetimes_issue lifetimes_renew lifetimes_revoke lifetimes_fire lifetimes_ghost)

lemma lifetimes_reachable:
  "media_step\<^sup>*\<^sup>* (fresh_world t0) w \<Longrightarrow> lifetimes_ok w"
proof (induction rule: rtranclp_induct)
  case base
  show ?case by (simp add: fresh_world_def lifetimes_ok_def)
qed (rule lifetimes_step)


section \<open>Cleanups\<close>

definition tokens :: "media_session \<Rightarrow> nat multiset" where
  "tokens s = od_values (\<lambda>c. {#c#}) (ms_cleanups s)"

text \<open>Every registered cleanup has run, is held by its session, or was displaced: exactly one of these.\<close>

definition cleanups_ok :: "media_world \<Rightarrow> bool" where
  "cleanups_ok w \<longleftrightarrow>
     mset (mw_ran w) + od_values tokens (mw_sessions w) + mset (mw_dropped w) = mset (map fst (mw_registered w))
     \<and> distinct (map fst (mw_registered w)) \<and> distinct (map fst (mw_sessions w))
     \<and> (\<forall>k s. map_of (mw_sessions w) k = Some s \<longrightarrow> k \<in> set (mw_used w) \<and> distinct (map fst (ms_cleanups s))
          \<and> (\<forall>c \<in># tokens s. (c, k) \<in> set (mw_registered w)))
     \<and> (\<forall>c k. (c, k) \<in> set (mw_registered w) \<longrightarrow> k \<in> set (mw_used w)
          \<and> (c \<in> set (mw_ran w) \<longrightarrow> map_of (mw_sessions w) k = None))"

lemma mset_cleanups: "mset (map snd (ms_cleanups s)) = tokens s"
  by (induction "ms_cleanups s" arbitrary: s) (auto simp: tokens_def od_values_def)

lemma cleanups_okD:
  assumes "cleanups_ok w"
  shows "mset (mw_ran w) + od_values tokens (mw_sessions w) + mset (mw_dropped w) = mset (map fst (mw_registered w))"
    and "distinct (map fst (mw_registered w))" and "distinct (map fst (mw_sessions w))"
    and "map_of (mw_sessions w) k = Some s \<Longrightarrow> k \<in> set (mw_used w)"
    and "map_of (mw_sessions w) k = Some s \<Longrightarrow> distinct (map fst (ms_cleanups s))"
    and "map_of (mw_sessions w) k = Some s \<Longrightarrow> c \<in># tokens s \<Longrightarrow> (c, k) \<in> set (mw_registered w)"
    and "(c, k) \<in> set (mw_registered w) \<Longrightarrow> k \<in> set (mw_used w)"
    and "(c, k) \<in> set (mw_registered w) \<Longrightarrow> c \<in> set (mw_ran w) \<Longrightarrow> map_of (mw_sessions w) k = None"
  using assms unfolding cleanups_ok_def by blast+

lemma od_values_mem: "map_of m k = Some v \<Longrightarrow> f v \<subseteq># od_values f m"
  by (induction m) (auto simp: od_values_def subset_mset.add_increasing2 split: if_splits
      intro: subset_mset.order_trans)

text \<open>Ending a session moves its cleanups to the ones that ran.\<close>

lemma cleanups_end:
  assumes ok: "cleanups_ok w" and s: "map_of (mw_sessions w) k = Some s"
  shows "cleanups_ok (w\<lparr>mw_sessions := od_del k (mw_sessions w), mw_timers := ts,
    mw_ran := mw_ran w @ map snd (ms_cleanups s)\<rparr>)" (is "cleanups_ok ?w")
proof -
  note D = cleanups_okD [OF ok]
  have split: "od_values tokens (mw_sessions w) = od_values tokens (od_del k (mw_sessions w)) + tokens s"
    using od_values_del [OF s D(3), of tokens] by simp
  have set_tokens: "set (map snd (ms_cleanups s)) = set_mset (tokens s)"
    using mset_cleanups [of s] by (metis set_mset_mset)
  have "map_of (mw_sessions ?w) j = None" if j: "(c, j) \<in> set (mw_registered w)" "c \<in> set (mw_ran ?w)" for c j
  proof (cases "c \<in> set (mw_ran w)")
    case True
    then show ?thesis using D(8) [OF j(1)] by simp
  next
    case False
    with j(2) set_tokens have "(c, k) \<in> set (mw_registered w)" using D(6) [OF s] by auto
    with j(1) D(2) have "j = k" by (metis Some_eq_map_of_iff option.inject)
    then show ?thesis by simp
  qed
  moreover have "mset (mw_ran ?w) + od_values tokens (mw_sessions ?w) + mset (mw_dropped ?w) = mset (map fst (mw_registered ?w))"
    using D(1) split mset_cleanups [of s] by (simp add: ac_simps)
  ultimately show ?thesis using D by (simp add: cleanups_ok_def)
qed

text \<open>Changing the cleanups of a session displaces what it no longer holds.\<close>

lemma cleanups_change:
  assumes ok: "cleanups_ok w" and s: "map_of (mw_sessions w) k = Some s"
    and dist: "distinct (map fst (ms_cleanups s'))" "distinct (map fst new)" "fst ` set new \<inter> fst ` set (mw_registered w) = {}"
    and new: "\<And>c j. (c, j) \<in> set new \<Longrightarrow> j = k"
    and balance: "tokens s' + mset out = tokens s + mset (map fst new)"
  shows "cleanups_ok (w\<lparr>mw_sessions := od_set k s' (mw_sessions w), mw_registered := new @ mw_registered w,
    mw_dropped := out @ mw_dropped w\<rparr>)" (is "cleanups_ok ?w")
proof -
  note D = cleanups_okD [OF ok]
  have split: "od_values tokens (od_set k s' (mw_sessions w)) + tokens s = od_values tokens (mw_sessions w) + tokens s'"
    by (rule od_values_set [OF s D(3)])
  have "mset (mw_ran w) + (od_values tokens (od_set k s' (mw_sessions w)) + tokens s) + (mset out + mset (mw_dropped w))
      = (mset (mw_ran w) + od_values tokens (mw_sessions w) + mset (mw_dropped w)) + (tokens s' + mset out)"
    unfolding split by (simp add: ac_simps)
  also have "\<dots> = mset (map fst (mw_registered w)) + (tokens s + mset (map fst new))"
    unfolding D(1) balance ..
  finally have sum: "mset (mw_ran ?w) + od_values tokens (mw_sessions ?w) + mset (mw_dropped ?w) = mset (map fst (mw_registered ?w))"
    by (simp add: ac_simps)
  have held: "(c, k) \<in> set (mw_registered ?w)" if c: "c \<in># tokens s'" for c
  proof -
    have "c \<in># tokens s + mset (map fst new)" using c unfolding balance [symmetric] by simp
    then consider "c \<in># tokens s" | "c \<in> fst ` set new" by auto
    then show ?thesis using D(6) [OF s] new by cases force+
  qed
  have ran: "map_of (mw_sessions ?w) j = None" if j: "(c, j) \<in> set (mw_registered ?w)" "c \<in> set (mw_ran w)" for c j
  proof -
    have "c \<in># mset (map fst (mw_registered w))" using j(2) unfolding D(1) [symmetric] by simp
    then have "(c, j) \<in> set (mw_registered w)" using j(1) dist(3) by force
    with D(8) [OF this j(2)] show ?thesis using s by auto
  qed
  have "j \<in> set (mw_used w)" if "(c, j) \<in> set (mw_registered ?w)" for c j
    using that D(7) new D(4) [OF s] by auto
  moreover have "j \<in> set (mw_used ?w) \<and> distinct (map fst (ms_cleanups r)) \<and> (\<forall>c \<in># tokens r. (c, j) \<in> set (mw_registered ?w))"
    if r: "map_of (mw_sessions ?w) j = Some r" for j r
  proof (cases "j = k")
    case True
    with r have "r = s'" by simp
    with True held D(4) [OF s] dist(1) show ?thesis by simp
  next
    case False
    with r have "map_of (mw_sessions w) j = Some r" by simp
    with D(4-6) show ?thesis by simp
  qed
  moreover have "distinct (map fst (mw_registered ?w))" using D(2) dist(2,3) by auto
  moreover have "distinct (map fst (mw_sessions ?w))" using D(3) by simp
  ultimately show ?thesis using sum ran unfolding cleanups_ok_def by simp
qed

lemma cleanups_frame:
  "cleanups_ok w \<Longrightarrow> cleanups_ok (w\<lparr>mw_timers := ts, mw_deadline := dl\<rparr>)"
  "cleanups_ok w \<Longrightarrow> cleanups_ok (w\<lparr>mw_timers := ts\<rparr>)"
  "cleanups_ok w \<Longrightarrow> cleanups_ok (w\<lparr>mw_now := now\<rparr>)"
  by (simp_all add: cleanups_ok_def)

lemma cleanups_issue:
  assumes ok: "cleanups_ok w" and s: "map_of (mw_sessions w) k = None" "ms_cleanups s = []" and unused: "k \<notin> set (mw_used w)"
  shows "cleanups_ok (w\<lparr>mw_sessions := od_set k s (mw_sessions w), mw_timers := ts, mw_used := k # mw_used w, mw_deadline := dl\<rparr>)"
    (is "cleanups_ok ?w")
proof -
  note D = cleanups_okD [OF ok]
  have none: "tokens s = {#}" by (simp add: tokens_def s(2))
  have vals: "od_values tokens (od_set k s (mw_sessions w)) = od_values tokens (mw_sessions w)"
    using od_values_new [OF s(1), of tokens s] none by simp
  have live: "j \<in> set (mw_used ?w) \<and> distinct (map fst (ms_cleanups r)) \<and> (\<forall>c \<in># tokens r. (c, j) \<in> set (mw_registered ?w))"
    if r: "map_of (mw_sessions ?w) j = Some r" for j r
  proof (cases "j = k")
    case True
    with r have "r = s" by simp
    with True none s(2) show ?thesis by simp
  next
    case False
    with r have "map_of (mw_sessions w) j = Some r" by simp
    with D(4-6) show ?thesis by simp
  qed
  have "j \<in> set (mw_used ?w) \<and> (c \<in> set (mw_ran ?w) \<longrightarrow> map_of (mw_sessions ?w) j = None)"
    if "(c, j) \<in> set (mw_registered ?w)" for c j
    using D(7,8) [of c j] that unused by auto
  moreover have "distinct (map fst (mw_sessions ?w))" using D(3) by simp
  ultimately show ?thesis using live D(1,2) vals unfolding cleanups_ok_def by simp
qed

lemma cleanups_step:
  assumes step: "media_step w w'" and ok: "cleanups_ok w"
  shows "cleanups_ok w'"
  using step
proof cases
  case (media_issue k owner cam ttl profile purpose reg cs)
  from media_issue(2) obtain s where "reg = od_set k s (mw_sessions w)" "ms_cleanups s = []"
    by (rule issue_session_cases)
  moreover have "map_of (mw_sessions w) k = None"
    using cleanups_okD(4) [OF ok, of k] media_issue(3) by (cases "map_of (mw_sessions w) k") auto
  ultimately show ?thesis using media_issue(1,3) cleanups_issue [OF ok] by simp
next
  case (media_renew k owner cam ttl reg cs granted)
  from media_renew(2) show ?thesis
  proof (cases rule: renew_session_cases)
    case refused
    then show ?thesis using media_renew(1) ok by (simp add: cleanups_frame)
  next
    case (renewed s u)
    have "cleanups_ok (w\<lparr>mw_sessions := od_set k (s\<lparr>ms_generation := ms_generation s + 1, ms_timer := Some u\<rparr>) (mw_sessions w),
        mw_registered := [] @ mw_registered w, mw_dropped := [] @ mw_dropped w\<rparr>)"
      using cleanups_okD(5) [OF ok renewed(2)] by (intro cleanups_change [OF ok renewed(2)]) (auto simp: tokens_def)
    from cleanups_frame(1) [OF this] show ?thesis using media_renew(1) renewed by simp
  qed
next
  case (media_register k key c reg)
  from media_register(2) obtain s where s: "map_of (mw_sessions w) k = Some s"
    and reg: "reg = od_set k (s\<lparr>ms_cleanups := od_set key c (ms_cleanups s)\<rparr>) (mw_sessions w)" by (rule register_cleanup_cases)
  have "cleanups_ok (w\<lparr>mw_sessions := od_set k (s\<lparr>ms_cleanups := od_set key c (ms_cleanups s)\<rparr>) (mw_sessions w),
      mw_registered := [(c, k)] @ mw_registered w, mw_dropped := displaced (mw_sessions w) k key @ mw_dropped w\<rparr>)"
  proof (rule cleanups_change [OF ok s])
    show "tokens (s\<lparr>ms_cleanups := od_set key c (ms_cleanups s)\<rparr>) + mset (displaced (mw_sessions w) k key)
        = tokens s + mset (map fst [(c, k)])"
      using od_values_new [of "ms_cleanups s" key "\<lambda>c. {#c#}" c]
        od_values_set [of "ms_cleanups s" key _ "\<lambda>c. {#c#}" c] cleanups_okD(5) [OF ok s] s
      by (auto simp: tokens_def displaced_def simp del: map_of_eq_Some_iff split: option.splits)
  qed (use media_register(3) cleanups_okD(5) [OF ok s] in auto)
  then show ?thesis using media_register(1) reg by simp
next
  case (media_unregister k key)
  show ?thesis
  proof (cases "map_of (mw_sessions w) k")
    case None
    then show ?thesis using media_unregister ok by (simp add: unregister_cleanup_def displaced_def)
  next
    case (Some s)
    have "cleanups_ok (w\<lparr>mw_sessions := od_set k (s\<lparr>ms_cleanups := od_del key (ms_cleanups s)\<rparr>) (mw_sessions w),
        mw_registered := [] @ mw_registered w, mw_dropped := displaced (mw_sessions w) k key @ mw_dropped w\<rparr>)"
    proof (rule cleanups_change [OF ok Some])
      have same: "map_of (ms_cleanups s) key = None \<Longrightarrow> od_del key (ms_cleanups s) = ms_cleanups s"
        unfolding od_del_def by (rule filter_True) (metis map_of_eq_None_iff imageI)
      show "tokens (s\<lparr>ms_cleanups := od_del key (ms_cleanups s)\<rparr>) + mset (displaced (mw_sessions w) k key)
          = tokens s + mset (map fst [])"
        using od_values_del [of "ms_cleanups s" key _ "\<lambda>c. {#c#}"] cleanups_okD(5) [OF ok Some] Some same
        by (auto simp: tokens_def displaced_def simp del: map_of_eq_Some_iff split: option.splits)
    qed (use cleanups_okD(5) [OF ok Some] in auto)
    then show ?thesis using media_unregister Some by (simp add: unregister_cleanup_def)
  qed
next
  case (media_revoke k owner cam reg cs cleanups granted)
  from media_revoke(2) show ?thesis
  proof (cases rule: revoke_session_cases)
    case refused
    then show ?thesis using media_revoke(1) ok by simp
  next
    case (revoked s)
    then show ?thesis using media_revoke(1) cleanups_end [OF ok revoked(2)] by simp
  qed
next
  case (media_fire t due c reg cleanups)
  from media_fire(4) show ?thesis
  proof (cases rule: expire_session_cases)
    case stale
    then show ?thesis using media_fire(1) cleanups_frame(2) [OF ok] by simp
  next
    case (expired s)
    then show ?thesis using media_fire(1) cleanups_end [OF ok expired(1)] by simp
  qed
next
  case (media_tick now)
  then show ?thesis using ok by (simp add: cleanups_frame)
qed

lemma cleanups_reachable: "media_step\<^sup>*\<^sup>* (fresh_world t0) w \<Longrightarrow> cleanups_ok w"
proof (induction rule: rtranclp_induct)
  case base
  show ?case by (simp add: fresh_world_def cleanups_ok_def)
qed (rule cleanups_step)

section \<open>Revoking a camera\<close>

lemma session_cleanups_del: "j \<noteq> k \<Longrightarrow> session_cleanups (od_del k reg) j = session_cleanups reg j"
  by (simp add: session_cleanups_def)

lemma map_of_filter_keys:
  assumes "distinct (map fst m)"
  shows "map_of (filter (\<lambda>e. fst e \<notin> set (map fst (filter (\<lambda>e. P (snd e)) m))) m) k
    = (case map_of m k of None \<Rightarrow> None | Some v \<Rightarrow> if P v then None else Some v)"
proof -
  have keys: "fst e \<in> set (map fst (filter (\<lambda>e. P (snd e)) m)) \<longleftrightarrow> P (snd e)" if "e \<in> set m" for e
  proof
    assume "fst e \<in> set (map fst (filter (\<lambda>e. P (snd e)) m))"
    then obtain e' where "e' \<in> set m" "fst e' = fst e" "P (snd e')" by auto
    with assms that show "P (snd e)" by (metis eq_key_imp_eq_value prod.collapse)
  qed (use that in auto)
  have "filter (\<lambda>e. fst e \<notin> set (map fst (filter (\<lambda>e. P (snd e)) m))) m = filter (\<lambda>e. \<not> P (snd e)) m"
    by (rule filter_cong [OF refl]) (simp add: keys del: set_map)
  moreover have "map_of (filter (\<lambda>e. \<not> P (snd e)) m) k
      = (case map_of m k of None \<Rightarrow> None | Some v \<Rightarrow> if P v then None else Some v)"
    using assms
  proof (induction m)
    case (Cons e m)
    then show ?case by (auto split: option.splits simp: map_of_eq_None_iff)
  qed simp
  ultimately show ?thesis by simp
qed

lemma od_values_elem: "x \<in># od_values f m \<Longrightarrow> \<exists>e \<in> set m. x \<in># f (snd e)"
  by (induction m) (auto simp: od_values_def)

lemma revoke_each_all:
  assumes "distinct (map fst reg)" and "distinct ks"
    and "\<And>k. k \<in> set ks \<Longrightarrow> \<exists>s. map_of reg k = Some s \<and> (c = None \<or> c = Some (ms_camera s))"
    and "revoke_each c ks reg = (reg', cs, cleanups, n)"
  shows "reg' = filter (\<lambda>e. fst e \<notin> set ks) reg \<and> n = length ks \<and> cleanups = concat (map (session_cleanups reg) ks)"
  using assms
proof (induction ks arbitrary: reg reg' cs cleanups n)
  case (Cons k ks)
  from Cons.prems(3) [of k] obtain s where s: "map_of reg k = Some s" "c = None \<or> c = Some (ms_camera s)" by auto
  then have rev: "revoke_session k None c reg = (od_del k reg, cancel_timer (ms_timer s), map snd (ms_cleanups s), True)"
    by (auto simp: revoke_session_def)
  obtain reg2 cs2 cl2 n2 where rest: "revoke_each c ks (od_del k reg) = (reg2, cs2, cl2, n2)" by (metis prod_cases4)
  have "\<exists>r. map_of (od_del k reg) j = Some r \<and> (c = None \<or> c = Some (ms_camera r))" if "j \<in> set ks" for j
    using Cons.prems(2) Cons.prems(3) [of j] that by auto
  from Cons.IH [OF distinct_od_del [OF Cons.prems(1)] _ this rest] Cons.prems(2)
  have IH: "reg2 = filter (\<lambda>e. fst e \<notin> set ks) (od_del k reg)" "n2 = length ks"
    "cl2 = concat (map (session_cleanups (od_del k reg)) ks)" by auto
  have "map (session_cleanups (od_del k reg)) ks = map (session_cleanups reg) ks"
    using Cons.prems(2) by (auto intro!: session_cleanups_del)
  moreover have "filter (\<lambda>e. fst e \<notin> set ks) (od_del k reg) = filter (\<lambda>e. fst e \<notin> set (k # ks)) reg"
    unfolding od_del_def by (simp add: conj_commute)
  moreover have "session_cleanups reg k = map snd (ms_cleanups s)" by (simp add: session_cleanups_def s(1))
  moreover have "reg' = reg2" "cleanups = map snd (ms_cleanups s) @ cl2" "n = n2 + 1"
    using Cons.prems(4) rev rest by (simp_all add: Let_def)
  ultimately show ?case using IH by (simp del: map_eq_conv)
qed simp

section \<open>Properties\<close>

text \<open>
  C8: No grant outlives its time to live, and a renewal is never cut short. In every reachable state
  of the registry, whatever stale or cancelled timers still fire: a timer that fires before the end
  of the last time to live of a session leaves its authority alone, and once every timer that is due
  has fired, a session that still authorizes anyone has time left.
\<close>

theorem media_session_lifetime:
  assumes "media_step\<^sup>*\<^sup>* (fresh_world t0) w" and "authorize_session k owner cam (mw_sessions w)"
  shows "((t, due, c) \<in> set (mw_timers w) \<and> due \<le> mw_now w \<and> mw_now w < mw_deadline w k
      \<longrightarrow> authorize_session k owner cam (fst (expire_session (tm_session t) (tm_generation t) (mw_sessions w))))
    \<and> ((\<forall>u d. (u, d, False) \<in> set (mw_timers w) \<longrightarrow> mw_now w < d) \<longrightarrow> mw_now w < mw_deadline w k)"
proof -
  note ok = lifetimes_reachable [OF assms(1)]
  obtain s where s: "map_of (mw_sessions w) k = Some s" "owned_by s owner cam"
    using assms(2) by (auto simp: authorize_session_def split: option.splits)
  have "authorize_session k owner cam (fst (expire_session (tm_session t) (tm_generation t) (mw_sessions w)))"
    if t: "(t, due, c) \<in> set (mw_timers w)" "due \<le> mw_now w" "mw_now w < mw_deadline w k"
  proof (cases "tm_session t = k")
    case True
    with lifetimes_okD(4) [OF ok t(1)] s(1) t(2,3) have "tm_generation t \<noteq> ms_generation s"
      by (auto simp: timer_ok_def)
    then show ?thesis using True s by (auto simp: expire_session_def authorize_session_def)
  next
    case False
    then show ?thesis using s by (auto simp: expire_session_def authorize_session_def split: option.splits)
  qed
  moreover have "mw_now w < mw_deadline w k" if "\<forall>u d. (u, d, False) \<in> set (mw_timers w) \<longrightarrow> mw_now w < d"
    using lifetimes_okD(3) [OF ok s(1)] that by (auto simp: guarded_def)
  ultimately show ?thesis by blast
qed

text \<open>
  Cleanups run at the right time and once. A cleanup registered with a session never runs while the
  session is live and never twice, and when the session has ended, by revocation or expiry, it has
  run, unless it was replaced or unregistered before.
\<close>

theorem media_cleanup_once:
  assumes "media_step\<^sup>*\<^sup>* (fresh_world t0) w" and "(c, k) \<in> set (mw_registered w)"
  shows "count_list (mw_ran w) c \<le> 1
    \<and> (session_active k (mw_sessions w) \<longrightarrow> count_list (mw_ran w) c = 0)
    \<and> (\<not> session_active k (mw_sessions w) \<and> c \<notin> set (mw_dropped w) \<longrightarrow> count_list (mw_ran w) c = 1)"
proof -
  note ok = cleanups_reachable [OF assms(1)]
  note D = cleanups_okD [OF ok]
  have one: "count (mset (map fst (mw_registered w))) c = 1"
    using distinct_count_atmost_1 [THEN iffD1, OF D(2)] assms(2) by force
  have sum: "count (mset (mw_ran w)) c + count (od_values tokens (mw_sessions w)) c + count (mset (mw_dropped w)) c = 1"
    using D(1) one by (metis count_union)
  have ran: "count_list (mw_ran w) c = count (mset (mw_ran w)) c" by (simp add: count_mset)
  have before: "count (mset (mw_ran w)) c = 0" if "session_active k (mw_sessions w)"
    using D(8) [OF assms(2)] that by (auto simp: session_active_def)
  have held: "c \<notin># od_values tokens (mw_sessions w)" if "\<not> session_active k (mw_sessions w)"
  proof
    assume "c \<in># od_values tokens (mw_sessions w)"
    then obtain j s where s: "(j, s) \<in> set (mw_sessions w)" "c \<in># tokens s" by (auto dest!: od_values_elem)
    then have "map_of (mw_sessions w) j = Some s" using D(3) by simp
    from D(6) [OF this s(2)] have "j = k" using assms(2) D(2) by (rule eq_key_imp_eq_value [rotated])
    with \<open>map_of (mw_sessions w) j = Some s\<close> that show False by (simp add: session_active_def)
  qed
  have dropped: "count (mset (mw_dropped w)) c = 0" if "c \<notin> set (mw_dropped w)" using that by (simp add: count_mset)
  show ?thesis unfolding ran
  proof (intro conjI impI)
    show "count (mset (mw_ran w)) c \<le> 1" using sum by linarith
    show "count (mset (mw_ran w)) c = 0" if "session_active k (mw_sessions w)" using before that .
    show "count (mset (mw_ran w)) c = 1" if "\<not> session_active k (mw_sessions w) \<and> c \<notin> set (mw_dropped w)"
      using sum held [THEN not_in_iff [THEN iffD1]] dropped that by linarith
  qed
qed

text \<open>
  Revoking a camera takes the authority of all its sessions and of no other: afterwards nobody is
  authorized for the camera, the other sessions stay as they were, the result is the number of
  revoked sessions, and the cleanups that run are theirs in order.
\<close>

theorem revoke_camera_closes:
  assumes "media_step\<^sup>*\<^sup>* (fresh_world t0) w" and "revoke_camera cam (mw_sessions w) = (reg, cs, cleanups, n)"
  shows "\<not> authorize_session k owner cam reg
    \<and> (other \<noteq> cam \<longrightarrow> authorize_session k owner other reg = authorize_session k owner other (mw_sessions w))
    \<and> n = length (filter (\<lambda>e. ms_camera (snd e) = cam) (mw_sessions w))
    \<and> cleanups = concat (map (\<lambda>e. map snd (ms_cleanups (snd e))) (filter (\<lambda>e. ms_camera (snd e) = cam) (mw_sessions w)))"
proof -
  note dist = lifetimes_okD(1) [OF lifetimes_reachable [OF assms(1)]]
  let ?mine = "filter (\<lambda>e. ms_camera (snd e) = cam) (mw_sessions w)"
  have mine: "map_of (mw_sessions w) (fst e) = Some (snd e) \<and> ms_camera (snd e) = cam" if "e \<in> set ?mine" for e
    using map_of_is_SomeI [OF dist, of "fst e" "snd e"] that by (auto simp del: map_of_eq_Some_iff)
  have all: "\<exists>s. map_of (mw_sessions w) j = Some s \<and> (Some cam = None \<or> Some cam = Some (ms_camera s))"
    if "j \<in> set (map fst ?mine)" for j
  proof -
    from that obtain e where "e \<in> set ?mine" "j = fst e" unfolding set_map by (elim imageE)
    with mine [of e] show ?thesis by simp
  qed
  have "distinct (map fst ?mine)" using dist by (rule distinct_map_filter)
  from revoke_each_all [OF dist this all assms(2) [unfolded revoke_camera_def]]
  have reg: "reg = filter (\<lambda>e. fst e \<notin> set (map fst ?mine)) (mw_sessions w)" and n: "n = length ?mine"
    and cl: "cleanups = concat (map (session_cleanups (mw_sessions w)) (map fst ?mine))" by auto
  have look: "map_of reg j = (case map_of (mw_sessions w) j of None \<Rightarrow> None | Some s \<Rightarrow> if ms_camera s = cam then None else Some s)" for j
    unfolding reg using dist by (rule map_of_filter_keys)
  have "map (session_cleanups (mw_sessions w)) (map fst ?mine) = map (\<lambda>e. map snd (ms_cleanups (snd e))) ?mine"
    unfolding map_map o_def by (rule map_cong [OF refl]) (simp only: session_cleanups_def mine [THEN conjunct1] option.case)
  with cl have "cleanups = concat (map (\<lambda>e. map snd (ms_cleanups (snd e))) ?mine)" by (rule trans [OF _ arg_cong])
  moreover have "\<not> authorize_session k owner cam reg"
    by (simp add: authorize_session_def owned_by_def look split: option.splits)
  moreover have "authorize_session k owner other reg = authorize_session k owner other (mw_sessions w)" if "other \<noteq> cam"
    using that by (auto simp: authorize_session_def owned_by_def look split: option.splits)
  ultimately show ?thesis using n by blast
qed


section \<open>A concrete run\<close>

text \<open>
  Session 1 of user 7 on camera 3 is issued for 30 seconds, gets cleanup 5, and is renewed for 60
  seconds after 20 seconds, when its first timer is cancelled too late.
\<close>

definition example_timer :: "int \<Rightarrow> int \<Rightarrow> timer" where
  "example_timer g n = \<lparr>tm_session = 1, tm_generation = g, tm_seconds = n\<rparr>"

definition example_session :: "int \<Rightarrow> int \<Rightarrow> (string \<times> nat) list \<Rightarrow> media_session" where
  "example_session g n cleanups = \<lparr>ms_owner = 7, ms_camera = 3, ms_profile = None, ms_purpose = None,
     ms_cleanups = cleanups, ms_timer = Some (example_timer g n), ms_generation = g\<rparr>"

definition example_media_world :: media_world where
  "example_media_world = \<lparr>mw_sessions = [(1, example_session 1 60 [(''a'', 5)])], mw_now = seconds 20,
     mw_timers = [(example_timer 0 30, seconds 30, True), (example_timer 1 60, seconds 80, False)],
     mw_ran = [], mw_used = [1], mw_deadline = (\<lambda>_. 0)(1 := seconds 80), mw_registered = [(5, 1)], mw_dropped = []\<rparr>"

lemma example_media_reachable: "media_step\<^sup>*\<^sup>* (fresh_world 0) example_media_world"
proof -
  define w1 where "w1 = (fresh_world 0)\<lparr>mw_sessions := [(1, example_session 0 30 [])],
    mw_timers := [(example_timer 0 30, seconds 30, False)], mw_used := [1], mw_deadline := (\<lambda>_. 0)(1 := seconds 30)\<rparr>"
  define w2 where "w2 = w1\<lparr>mw_sessions := [(1, example_session 0 30 [(''a'', 5)])], mw_registered := [(5, 1)]\<rparr>"
  have "issue_session 1 7 3 30 None None (mw_sessions (fresh_world 0))
      = Inr ([(1, example_session 0 30 [])], [StartTimer (example_timer 0 30)])"
    by (simp add: issue_session_def fresh_world_def Let_def example_session_def example_timer_def)
  from media_issue [OF this] have "media_step (fresh_world 0) w1"
    by (simp add: fresh_world_def w1_def example_timer_def)
  moreover have "register_cleanup 1 ''a'' 5 (mw_sessions w1) = ([(1, example_session 0 30 [(''a'', 5)])], True)"
    by (simp add: register_cleanup_def w1_def example_session_def)
  from media_register [OF this] have "media_step w1 w2"
    by (simp add: displaced_def w1_def w2_def fresh_world_def example_session_def)
  moreover have "media_step w2 (w2\<lparr>mw_now := seconds 20\<rparr>)"
    by (rule media_tick) (simp add: w1_def w2_def fresh_world_def seconds_def)
  moreover have "renew_session 1 7 3 60 (mw_sessions (w2\<lparr>mw_now := seconds 20\<rparr>))
      = Inr ([(1, example_session 1 60 [(''a'', 5)])], [CancelTimer (example_timer 0 30), StartTimer (example_timer 1 60)], True)"
    by (simp add: renew_session_def owned_by_def cancel_timer_def Let_def w2_def example_session_def example_timer_def)
  from media_renew [OF this] have "media_step (w2\<lparr>mw_now := seconds 20\<rparr>) example_media_world"
    by (simp add: seconds_def w1_def w2_def fresh_world_def example_timer_def example_media_world_def)
  ultimately show ?thesis by (meson converse_rtranclp_into_rtranclp rtranclp.rtrancl_refl)
qed

lemma example_media_later:
  "seconds 20 \<le> now \<Longrightarrow> media_step\<^sup>*\<^sup>* (fresh_world 0) (example_media_world\<lparr>mw_now := now\<rparr>)"
  by (rule rtranclp.rtrancl_into_rtrancl [OF example_media_reachable], rule media_tick) (simp add: example_media_world_def)

lemma media_session_lifetime_witness:
  "authorize_session 1 7 3 (fst (expire_session 1 0 (mw_sessions (example_media_world\<lparr>mw_now := seconds 40\<rparr>))))"
  using media_session_lifetime [OF example_media_later [of "seconds 40"], of 1 7 3 "example_timer 0 30" "seconds 30" True]
  by (simp add: example_media_world_def authorize_session_def owned_by_def example_session_def example_timer_def seconds_def)

lemma media_cleanup_once_witness: "count_list (mw_ran example_media_world) 5 = 0"
  using media_cleanup_once [OF example_media_reachable, of 5 1]
  by (simp add: example_media_world_def session_active_def)

lemma revoke_camera_closes_witness:
  "\<not> authorize_session 1 7 3 (fst (revoke_camera 3 (mw_sessions example_media_world)))
   \<and> snd (snd (snd (revoke_camera 3 (mw_sessions example_media_world)))) = 1"
proof -
  obtain reg cs cleanups n where r: "revoke_camera 3 (mw_sessions example_media_world) = (reg, cs, cleanups, n)"
    by (metis prod_cases4)
  show ?thesis using revoke_camera_closes [OF example_media_reachable r, of 1 7 4] r
    by (simp add: example_media_world_def example_session_def)
qed

end
