(* ===== verification/Catalog.thy ===== *)
theory Catalog
  imports Arbiter Capacity Uuid
begin

text \<open>
  \<open>modules/recordings/catalog.py\<close>: finalized recordings enter the catalog, the timing of a provisional
  segment is repaired at the boundary to its successor or at an explicit stop, and the mark of a
  source loss follows the newest file. New ids are \<open>uuid4()\<close> arguments. The start of a recording is
  the instant its epoch stands for and its duration the exact span (microseconds), rounded to
  milliseconds as \<open>round\<close> does. The caller rolls the transaction back when an error is raised.
\<close>

section \<open>The service\<close>

record evidence =
  fe_app :: string
  fe_stream :: string
  fe_start_time :: instant
  fe_duration :: span
  fe_file_size :: int
  fe_file_path :: string

record ingest_result =
  ir_segment :: "recording_segment option"
  ir_created :: bool
  ir_ignored :: bool
  ir_ignore_reason :: "string option"

definition ignored_result :: "string \<Rightarrow> ingest_result" where
  "ignored_result reason =
     \<lparr>ir_segment = None, ir_created = False, ir_ignored = True, ir_ignore_reason = Some reason\<rparr>"

definition catalog_result :: "recording_segment \<Rightarrow> bool \<Rightarrow> ingest_result" where
  "catalog_result s created =
     \<lparr>ir_segment = Some s, ir_created = created, ir_ignored = False, ir_ignore_reason = None\<rparr>"

definition profile_id_from_stream :: "string \<Rightarrow> uuid result" where
  "profile_id_from_stream stream =
     (if take 8 stream \<noteq> ''profile-'' then Inl (ApiError 422 ''recording_stream_unrecognized'')
      else (case parse_uuid (drop 8 stream) of
              Inl _ \<Rightarrow> Inl (ApiError 422 ''recording_stream_unrecognized'')
            | Inr k \<Rightarrow> Inr k))"

text \<open>Both repairs move the segment so that it ends at the boundary with its own duration.\<close>

definition ends_at :: "instant \<Rightarrow> timing_source \<Rightarrow> recording_segment \<Rightarrow> recording_segment" where
  "ends_at boundary_at source s =
     s\<lparr>sg_started_at := boundary_at - milliseconds (sg_duration_ms s), sg_ended_at := boundary_at,
       sg_timing_status := Final, sg_timing_source := source\<rparr>"

definition finalize_previous_from_boundary ::
    "db \<Rightarrow> uuid \<Rightarrow> uuid \<Rightarrow> instant \<Rightarrow> db \<times> recording_segment option" where
  "finalize_previous_from_boundary d profile_id previous_segment_id boundary_at =
     (case get_segment d previous_segment_id of
        None \<Rightarrow> (d, None)
      | Some previous \<Rightarrow>
          if sg_stream_profile_id previous \<noteq> Some profile_id then (d, None)
          else if sg_timing_status previous \<noteq> Provisional then (d, None)
          else if boundary_at \<le> sg_started_at previous then (d, None)
          else if boundary_at - milliseconds (sg_duration_ms previous) \<ge> boundary_at then (d, None)
          else (update_segment previous_segment_id (ends_at boundary_at NextSegmentBoundary) d,
                Some (ends_at boundary_at NextSegmentBoundary previous)))"

definition finalize_provisional_segment ::
    "db \<Rightarrow> uuid \<Rightarrow> instant \<Rightarrow> timing_source \<Rightarrow> db \<times> recording_segment option" where
  "finalize_provisional_segment d segment_id boundary_at source =
     (case get_segment d segment_id of
        None \<Rightarrow> (d, None)
      | Some segment \<Rightarrow>
          if sg_timing_status segment \<noteq> Provisional then (d, None)
          else if boundary_at \<le> sg_started_at segment then (d, None)
          else if boundary_at - milliseconds (sg_duration_ms segment) \<ge> boundary_at then (d, None)
          else (update_segment segment_id (ends_at boundary_at source) d, Some (ends_at boundary_at source segment)))"

definition has_reason :: "string \<Rightarrow> recording_segment \<Rightarrow> bool" where
  "has_reason reason s = (py_lower (case sg_completion_reason s of None \<Rightarrow> [] | Some r \<Rightarrow> r) = reason)"

definition set_reason :: "string \<Rightarrow> recording_segment \<Rightarrow> recording_segment" where
  "set_reason reason s = s\<lparr>sg_completion_reason := Some reason\<rparr>"

definition mark_source_loss_tail :: "db \<Rightarrow> uuid option \<Rightarrow> uuid \<Rightarrow> db" where
  "mark_source_loss_tail d previous_segment_id segment_id =
     (case get_segment d segment_id of
        None \<Rightarrow> d
      | Some current \<Rightarrow>
          let d1 = (case previous_segment_id of
              None \<Rightarrow> d
            | Some p \<Rightarrow>
                if p = segment_id then d
                else (case get_segment d p of
                    None \<Rightarrow> d
                  | Some previous \<Rightarrow>
                      if has_reason ''source_lost'' previous
                      then update_segment p (set_reason ''NORMAL'') d else d))
          in update_segment segment_id (set_reason ''source_lost'') d1)"

text \<open>The check of a finalized recording against a location that already has its path.\<close>

definition known_recording :: "db \<Rightarrow> recording_location \<Rightarrow> evidence \<Rightarrow> ingest_result result" where
  "known_recording d existing_location ev =
     (case get_segment d (lo_recording_segment_id existing_location) of
        None \<Rightarrow> Inl (ApiError 409 ''recording_catalog_inconsistent'')
      | Some existing \<Rightarrow>
          if lo_size_bytes existing_location \<noteq> fe_file_size ev \<or> sg_size_bytes existing \<noteq> fe_file_size ev
          then Inl (ApiError 409 ''recording_location_conflict'')
          else Inr (catalog_result existing False))"

definition location_at :: "db \<Rightarrow> uuid \<Rightarrow> string \<Rightarrow> recording_location option" where
  "location_at d target_id object_path =
     find (\<lambda>l. lo_storage_target_id l = target_id \<and> lo_object_path l = object_path) (db_locations d)"

text \<open>Policies whose rolling fragments live outside the recording target on purpose.\<close>

definition event_only :: "recording_policy option \<Rightarrow> bool" where
  "event_only policy =
     (case policy of None \<Rightarrow> False
      | Some p \<Rightarrow> rp_enabled p \<and> rp_baseline_mode p = ''disabled'' \<and> rp_event_recording_enabled p)"

definition duration_ms_of :: "evidence \<Rightarrow> int" where
  "duration_ms_of ev = max 1 (round_ms (fe_duration ev))"

definition new_segment :: "uuid \<Rightarrow> stream_profile \<Rightarrow> evidence \<Rightarrow> string list \<Rightarrow> recording_segment" where
  "new_segment segment_id profile ev reasons =
     \<lparr>sg_id = segment_id, sg_camera_id = sp_camera_id profile, sg_stream_profile_id = Some (sp_id profile),
      sg_started_at = fe_start_time ev, sg_ended_at = fe_start_time ev + milliseconds (duration_ms_of ev),
      sg_duration_ms = duration_ms_of ev, sg_timing_status = Provisional, sg_timing_source = HookRaw,
      sg_recording_reasons_json = reasons, sg_size_bytes = fe_file_size ev, sg_codec = sp_codec profile,
      sg_container = ''fmp4'', sg_source_media_server_id = ''default'', sg_source_app = fe_app ev,
      sg_source_stream = fe_stream ev, sg_integrity_status = ''UNKNOWN'', sg_completion_reason = Some ''NORMAL''\<rparr>"

definition new_location :: "uuid \<Rightarrow> uuid \<Rightarrow> uuid \<Rightarrow> string \<Rightarrow> int \<Rightarrow> instant \<Rightarrow> recording_location" where
  "new_location location_id segment_id target_id object_path size_bytes now =
     \<lparr>lo_id = location_id, lo_recording_segment_id = segment_id, lo_storage_target_id = target_id,
      lo_object_path = object_path, lo_state = Available, lo_size_bytes = size_bytes, lo_checksum = None,
      lo_verified_at = None, lo_last_attempt_at = None, lo_last_error = None, lo_created_at = now,
      lo_deleted_at = None\<rparr>"

text \<open>The part of \<open>ingest_finalized\<close> from the repair of the previous segment on.\<close>

definition ingest_new ::
    "zones \<Rightarrow> db \<Rightarrow> uuid \<Rightarrow> uuid \<Rightarrow> instant \<Rightarrow> stream_profile \<Rightarrow> uuid \<Rightarrow> string \<Rightarrow> evidence \<Rightarrow> uuid option
     \<Rightarrow> (db \<times> ingest_result) result" where
  "ingest_new zones d segment_id location_id now profile target_id object_path ev previous_segment_id =
     (let raw_started = fe_start_time ev;
          raw_ended = raw_started + milliseconds (duration_ms_of ev);
          d1 = (case previous_segment_id of
              None \<Rightarrow> d
            | Some p \<Rightarrow> fst (finalize_previous_from_boundary d (sp_id profile) p raw_started))
      in and_then (recording_reasons zones d1 (sp_camera_id profile) raw_started raw_ended) (\<lambda>reasons.
         let s = new_segment segment_id profile ev reasons in
         Inr (add_location (new_location location_id segment_id target_id object_path (fe_file_size ev) now)
                (add_segment s d1), catalog_result s True)))"

definition ingest_finalized ::
    "zones \<Rightarrow> (path \<Rightarrow> path) \<Rightarrow> (path \<Rightarrow> path) \<Rightarrow> db \<Rightarrow> uuid \<Rightarrow> uuid \<Rightarrow> instant \<Rightarrow> evidence \<Rightarrow> uuid option
     \<Rightarrow> (db \<times> ingest_result) result" where
  "ingest_finalized zones expand realpath d segment_id location_id now ev previous_segment_id =
     (if fe_app ev \<noteq> ''zero-nvr'' then Inr (d, ignored_result ''unmanaged_app'')
      else if fe_duration ev \<le> 0 then Inl (ApiError 422 ''recording_duration_invalid'')
      else if fe_file_size ev < 0 then Inl (ApiError 422 ''recording_file_size_invalid'')
      else
        and_then (profile_id_from_stream (fe_stream ev)) (\<lambda>profile_id.
        and_then (fetch_or_raise (get_profile d profile_id) 422 ''recording_stream_unknown'') (\<lambda>profile.
        and_then (local_target_for_camera expand realpath d (sp_camera_id profile)) (\<lambda>target.
        let policy = policy_of_camera d (sp_camera_id profile) in
        case relative_object_path expand realpath (lt_root target) (fe_file_path ev) of
          Inl e \<Rightarrow> if e = ApiError 422 ''recording_file_outside_target'' \<and> event_only policy
                  then Inr (d, ignored_result ''event_only_ephemeral'') else Inl e
        | Inr relative \<Rightarrow>
            let object_path = as_posix relative; target_id = st_id (lt_target target) in
            (case location_at d target_id object_path of
               Some existing_location \<Rightarrow>
                 and_then (known_recording d existing_location ev) (\<lambda>r. Inr (d, r))
             | None \<Rightarrow>
                 ingest_new zones d segment_id location_id now profile target_id object_path ev
                   previous_segment_id)))))"

section \<open>What the operations change\<close>

lemma ends_at_simps [simp]:
  "sg_id (ends_at b src s) = sg_id s" "sg_ended_at (ends_at b src s) = b"
  "sg_started_at (ends_at b src s) = b - milliseconds (sg_duration_ms s)"
  "sg_duration_ms (ends_at b src s) = sg_duration_ms s" "sg_timing_status (ends_at b src s) = Final"
  "sg_timing_source (ends_at b src s) = src" "sg_camera_id (ends_at b src s) = sg_camera_id s"
  "sg_size_bytes (ends_at b src s) = sg_size_bytes s" "sg_stream_profile_id (ends_at b src s) = sg_stream_profile_id s"
  by (simp_all add: ends_at_def)

lemma set_reason_simps [simp]:
  "sg_id (set_reason r s) = sg_id s" "sg_started_at (set_reason r s) = sg_started_at s"
  "sg_ended_at (set_reason r s) = sg_ended_at s" "sg_duration_ms (set_reason r s) = sg_duration_ms s"
  "sg_timing_status (set_reason r s) = sg_timing_status s" "sg_timing_source (set_reason r s) = sg_timing_source s"
  "sg_completion_reason (set_reason r s) = Some r" "sg_size_bytes (set_reason r s) = sg_size_bytes s"
  by (simp_all add: set_reason_def)

lemma finalize_previous_cases:
  assumes "finalize_previous_from_boundary d profile_id k b = (d', r)"
  obtains (kept) "d' = d" "r = None"
  | (repaired) s where "get_segment d k = Some s" "sg_stream_profile_id s = Some profile_id"
      "sg_timing_status s = Provisional" "sg_started_at s < b" "0 < sg_duration_ms s"
      "d' = update_segment k (ends_at b NextSegmentBoundary) d"
proof (cases "get_segment d k")
  case None
  then show thesis using assms by (intro kept) (auto simp: finalize_previous_from_boundary_def)
next
  case (Some s)
  show thesis
  proof (cases "sg_stream_profile_id s = Some profile_id \<and> sg_timing_status s = Provisional \<and> sg_started_at s < b
      \<and> 0 < sg_duration_ms s")
    case True
    then show thesis using assms Some
      by (intro repaired [of s]) (auto simp: finalize_previous_from_boundary_def milliseconds_def)
  next
    case False
    then show thesis using assms Some
      by (intro kept) (auto simp: finalize_previous_from_boundary_def milliseconds_def split: if_splits)
  qed
qed

lemma finalize_provisional_cases:
  assumes "finalize_provisional_segment d k b src = (d', r)"
  obtains (kept) "d' = d" "r = None"
  | (repaired) s where "get_segment d k = Some s" "sg_timing_status s = Provisional" "sg_started_at s < b"
      "0 < sg_duration_ms s" "d' = update_segment k (ends_at b src) d"
proof (cases "get_segment d k")
  case None
  then show thesis using assms by (intro kept) (auto simp: finalize_provisional_segment_def)
next
  case (Some s)
  show thesis
  proof (cases "sg_timing_status s = Provisional \<and> sg_started_at s < b \<and> 0 < sg_duration_ms s")
    case True
    then show thesis using assms Some
      by (intro repaired [of s]) (auto simp: finalize_provisional_segment_def milliseconds_def)
  next
    case False
    then show thesis using assms Some
      by (intro kept) (auto simp: finalize_provisional_segment_def milliseconds_def split: if_splits)
  qed
qed

text \<open>The database right before the new rows are added.\<close>

definition boundary_repaired :: "db \<Rightarrow> stream_profile \<Rightarrow> evidence \<Rightarrow> uuid option \<Rightarrow> db" where
  "boundary_repaired d profile ev previous =
     (case previous of None \<Rightarrow> d
      | Some p \<Rightarrow> fst (finalize_previous_from_boundary d (sp_id profile) p (fe_start_time ev)))"

lemma known_recording_Inr:
  "known_recording d l ev = Inr r \<Longrightarrow> \<exists>s. get_segment d (lo_recording_segment_id l) = Some s
     \<and> lo_size_bytes l = fe_file_size ev \<and> sg_size_bytes s = fe_file_size ev \<and> r = catalog_result s False"
  by (auto simp: known_recording_def split: option.splits if_splits)

lemma ingest_new_Inr:
  assumes "ingest_new zones d segment_id location_id now profile target_id object_path ev previous = Inr (d', r)"
  shows "\<exists>reasons. recording_reasons zones (boundary_repaired d profile ev previous) (sp_camera_id profile) (fe_start_time ev)
       (fe_start_time ev + milliseconds (duration_ms_of ev)) = Inr reasons
     \<and> d' = add_location (new_location location_id segment_id target_id object_path (fe_file_size ev) now)
          (add_segment (new_segment segment_id profile ev reasons) (boundary_repaired d profile ev previous))
     \<and> r = catalog_result (new_segment segment_id profile ev reasons) True"
  using assms unfolding ingest_new_def Let_def boundary_repaired_def [symmetric] and_then_eq_Inr by auto

lemma ingest_cases:
  assumes "ingest_finalized zones expand realpath d segment_id location_id now ev previous = Inr (d', r)"
  obtains (unmanaged) "d' = d" "r = ignored_result ''unmanaged_app''" "fe_app ev \<noteq> ''zero-nvr''"
  | (ephemeral) "d' = d" "r = ignored_result ''event_only_ephemeral''"
  | (known) profile_id profile target relative l s where
      "fe_app ev = ''zero-nvr''" "0 < fe_duration ev" "0 \<le> fe_file_size ev"
      "profile_id_from_stream (fe_stream ev) = Inr profile_id" "get_profile d profile_id = Some profile"
      "local_target_for_camera expand realpath d (sp_camera_id profile) = Inr target"
      "relative_object_path expand realpath (lt_root target) (fe_file_path ev) = Inr relative"
      "location_at d (st_id (lt_target target)) (as_posix relative) = Some l"
      "get_segment d (lo_recording_segment_id l) = Some s"
      "lo_size_bytes l = fe_file_size ev" "sg_size_bytes s = fe_file_size ev" "d' = d" "r = catalog_result s False"
  | (created) profile_id profile target relative d1 reasons s where
      "fe_app ev = ''zero-nvr''" "0 < fe_duration ev" "0 \<le> fe_file_size ev"
      "profile_id_from_stream (fe_stream ev) = Inr profile_id" "get_profile d profile_id = Some profile"
      "local_target_for_camera expand realpath d (sp_camera_id profile) = Inr target"
      "relative_object_path expand realpath (lt_root target) (fe_file_path ev) = Inr relative"
      "location_at d (st_id (lt_target target)) (as_posix relative) = None"
      "d1 = boundary_repaired d profile ev previous"
      "recording_reasons zones d1 (sp_camera_id profile) (fe_start_time ev) (fe_start_time ev + milliseconds (duration_ms_of ev)) = Inr reasons"
      "s = new_segment segment_id profile ev reasons"
      "d' = add_location (new_location location_id segment_id (st_id (lt_target target)) (as_posix relative) (fe_file_size ev) now)
              (add_segment s d1)"
      "r = catalog_result s True"
proof -
  consider "fe_app ev \<noteq> ''zero-nvr''"
    | "fe_app ev = ''zero-nvr''" "0 < fe_duration ev" "0 \<le> fe_file_size ev"
    using assms by (fastforce simp: ingest_finalized_def split: if_splits)
  then show thesis
  proof cases
    case 1
    then show thesis using assms by (intro unmanaged) (auto simp: ingest_finalized_def)
  next
    case 2
    with assms obtain profile_id profile target where a:
      "profile_id_from_stream (fe_stream ev) = Inr profile_id" "get_profile d profile_id = Some profile"
      "local_target_for_camera expand realpath d (sp_camera_id profile) = Inr target"
      and rest: "(case relative_object_path expand realpath (lt_root target) (fe_file_path ev) of
          Inl e \<Rightarrow> if e = ApiError 422 ''recording_file_outside_target'' \<and> event_only (policy_of_camera d (sp_camera_id profile))
                  then Inr (d, ignored_result ''event_only_ephemeral'') else Inl e
        | Inr relative \<Rightarrow>
            (case location_at d (st_id (lt_target target)) (as_posix relative) of
               Some existing_location \<Rightarrow>
                 and_then (known_recording d existing_location ev) (\<lambda>r. Inr (d, r))
             | None \<Rightarrow>
                 ingest_new zones d segment_id location_id now profile (st_id (lt_target target)) (as_posix relative) ev
                   previous)) = Inr (d', r)"
      unfolding ingest_finalized_def Let_def by (auto simp: and_then_eq_Inr)
    show thesis
    proof (cases "relative_object_path expand realpath (lt_root target) (fe_file_path ev)")
      case (Inl e)
      then show thesis using rest by (intro ephemeral) (auto split: if_splits)
    next
      case relative: (Inr relative)
      show thesis
      proof (cases "location_at d (st_id (lt_target target)) (as_posix relative)")
        case (Some l)
        with rest relative have "and_then (known_recording d l ev) (\<lambda>r. Inr (d, r)) = Inr (d', r)" by simp
        then have known_r: "known_recording d l ev = Inr r" and same: "d' = d" by (auto simp: and_then_eq_Inr)
        from known_recording_Inr [OF known_r] obtain s where s: "get_segment d (lo_recording_segment_id l) = Some s"
          "lo_size_bytes l = fe_file_size ev" "sg_size_bytes s = fe_file_size ev" "r = catalog_result s False" by blast
        show thesis by (rule known [OF 2 a relative Some s(1-3) same s(4)])
      next
        case None
        with rest relative have new_r: "ingest_new zones d segment_id location_id now profile (st_id (lt_target target))
            (as_posix relative) ev previous = Inr (d', r)" by simp
        from ingest_new_Inr [OF new_r] obtain reasons where new:
          "recording_reasons zones (boundary_repaired d profile ev previous) (sp_camera_id profile) (fe_start_time ev)
             (fe_start_time ev + milliseconds (duration_ms_of ev)) = Inr reasons"
          "d' = add_location (new_location location_id segment_id (st_id (lt_target target)) (as_posix relative) (fe_file_size ev) now)
              (add_segment (new_segment segment_id profile ev reasons) (boundary_repaired d profile ev previous))"
          "r = catalog_result (new_segment segment_id profile ev reasons) True"
          by blast
        show thesis by (rule created [OF 2 a relative None refl new(1) refl new(2,3)])
      qed
    qed
  qed
qed

lemma boundary_repaired_cases:
  obtains (kept) "boundary_repaired d profile ev previous = d"
  | (repaired) k s where "previous = Some k" "get_segment d k = Some s" "sg_stream_profile_id s = Some (sp_id profile)"
      "sg_timing_status s = Provisional" "sg_started_at s < fe_start_time ev" "0 < sg_duration_ms s"
      "boundary_repaired d profile ev previous = update_segment k (ends_at (fe_start_time ev) NextSegmentBoundary) d"
proof (cases previous)
  case None
  then show thesis by (intro kept) (simp add: boundary_repaired_def)
next
  case (Some k)
  obtain d' r where f: "finalize_previous_from_boundary d (sp_id profile) k (fe_start_time ev) = (d', r)" by (metis surj_pair)
  then have d': "boundary_repaired d profile ev previous = d'" using Some by (simp add: boundary_repaired_def)
  from f show thesis
  proof (cases rule: finalize_previous_cases)
    case kept
    then show thesis using d' that(1) by simp
  next
    case (repaired s)
    then show thesis using d' Some that(2) by simp
  qed
qed

text \<open>Adding, repairing and marking do not touch what the lookup of a recording depends on.\<close>

lemma update_segment_frame [simp]:
  "db_profiles (update_segment k f d) = db_profiles d" "db_policies (update_segment k f d) = db_policies d"
  "db_targets (update_segment k f d) = db_targets d" "db_triggers (update_segment k f d) = db_triggers d"
  by (simp_all add: update_segment_def)

lemma add_media_frame [simp]:
  "db_profiles (add_segment s d) = db_profiles d" "db_profiles (add_location l d) = db_profiles d"
  "db_policies (add_segment s d) = db_policies d" "db_policies (add_location l d) = db_policies d"
  "db_targets (add_segment s d) = db_targets d"
  "db_segments (add_segment s d) = db_segments d @ [s]" "db_locations (add_location l d) = db_locations d @ [l]"
  by (simp_all add: add_segment_def add_location_def)

lemma boundary_repaired_frame [simp]:
  "db_profiles (boundary_repaired d p ev k) = db_profiles d" "db_policies (boundary_repaired d p ev k) = db_policies d"
  "db_targets (boundary_repaired d p ev k) = db_targets d" "db_locations (boundary_repaired d p ev k) = db_locations d"
  by (rule boundary_repaired_cases [of d p ev k]; simp)+

lemma local_target_frame:
  assumes "db_policies d' = db_policies d" and "db_targets d' = db_targets d"
  shows "local_target_for_camera expand realpath d' cam = local_target_for_camera expand realpath d cam"
proof -
  have "get_target d' = get_target d" by (simp add: get_target_def assms fun_eq_iff)
  moreover have "policy_of_camera d' = policy_of_camera d" by (simp add: policy_of_camera_def assms fun_eq_iff)
  ultimately show ?thesis by (simp only: local_target_for_camera_def select_local_target_def assms(2))
qed

lemma new_segment_simps [simp]:
  "sg_id (new_segment k p ev rs) = k" "sg_camera_id (new_segment k p ev rs) = sp_camera_id p"
  "sg_started_at (new_segment k p ev rs) = fe_start_time ev" "sg_size_bytes (new_segment k p ev rs) = fe_file_size ev"
  "sg_ended_at (new_segment k p ev rs) = fe_start_time ev + milliseconds (duration_ms_of ev)"
  "sg_duration_ms (new_segment k p ev rs) = duration_ms_of ev" "sg_timing_status (new_segment k p ev rs) = Provisional"
  "sg_stream_profile_id (new_segment k p ev rs) = Some (sp_id p)" "sg_recording_reasons_json (new_segment k p ev rs) = rs"
  by (simp_all add: new_segment_def)

lemma new_location_simps [simp]:
  "lo_id (new_location k s t p n now) = k" "lo_recording_segment_id (new_location k s t p n now) = s"
  "lo_storage_target_id (new_location k s t p n now) = t" "lo_object_path (new_location k s t p n now) = p"
  "lo_size_bytes (new_location k s t p n now) = n" "lo_state (new_location k s t p n now) = Available"
  by (simp_all add: new_location_def)

lemma duration_positive: "1 \<le> duration_ms_of ev"
  by (simp add: duration_ms_of_def)

lemma get_segment_boundary: "get_segment (boundary_repaired d p ev k) j = None \<longleftrightarrow> get_segment d j = None"
  by (rule boundary_repaired_cases [of d p ev k]; simp add: segments.get_upd)

section \<open>Properties\<close>

text \<open>
  The stream name the application gives to a profile names it back: the catalog reads from
  \<open>profile-<hex>\<close>, and from the dashed form, exactly the profile it was made from.
\<close>

theorem stream_name_roundtrip:
  assumes "k < 2 ^ 128"
  shows "profile_id_from_stream (''profile-'' @ uuid_hex k) = Inr k
    \<and> profile_id_from_stream (''profile-'' @ uuid_str k) = Inr k"
  using assms by (simp add: profile_id_from_stream_def parse_uuid_hex parse_uuid_str)

lemma stream_name_roundtrip_witness:
  "profile_id_from_stream (''profile-'' @ uuid_hex 255) = Inr 255"
  using stream_name_roundtrip [of 255] by simp

text \<open>
  A finalized file enters the catalog once. When its report is delivered again, at any time, with
  any predecessor, nothing changes and the answer is the segment that was created the first time.
\<close>

theorem ingest_once:
  assumes "ingest_finalized zones expand realpath d segment_id location_id now ev previous = Inr (d', r)"
    and "ir_created r" and "get_segment d segment_id = None"
  shows "ingest_finalized zones expand realpath d' segment_id' location_id' now' ev previous'
    = Inr (d', r\<lparr>ir_created := False\<rparr>)"
  using assms(1)
proof (cases rule: ingest_cases)
  case (created profile_id profile target relative d1 reasons s)
  let ?l = "new_location location_id segment_id (st_id (lt_target target)) (as_posix relative) (fe_file_size ev) now"
  have frame: "db_profiles d' = db_profiles d" "db_policies d' = db_policies d" "db_targets d' = db_targets d"
    "db_locations d' = db_locations d @ [?l]"
    using created(9,12) by simp_all
  have at: "location_at d' (st_id (lt_target target)) (as_posix relative) = Some ?l"
    using created(8) frame(4) by (simp add: location_at_def find_append)
  have "get_segment d1 segment_id = None" using assms(3) created(9) by (simp add: get_segment_boundary)
  then have seg: "get_segment d' segment_id = Some s"
    using created(11,12) segments.get_add [of d1 s segment_id] by (simp add: get_segment_def)
  have "known_recording d' ?l ev = Inr (catalog_result s False)"
    using seg created(11) by (simp add: known_recording_def)
  moreover have "get_profile d' profile_id = Some profile" using created(5) frame(1) by (simp add: get_profile_def)
  moreover have "local_target_for_camera expand realpath d' (sp_camera_id profile) = Inr target"
    using created(6) local_target_frame [OF frame(2,3)] by simp
  ultimately show ?thesis
    using created(1-4,7,13) at by (simp add: ingest_finalized_def fetch_or_raise_def catalog_result_def)
qed (use assms(2) in \<open>auto simp: ignored_result_def catalog_result_def\<close>)


section \<open>The catalog as a whole\<close>

definition catalog_ok :: "db \<Rightarrow> bool" where
  "catalog_ok d \<longleftrightarrow>
     distinct (map sg_id (db_segments d)) \<and> list_all segment_range_ok (db_segments d)
     \<and> distinct (map (\<lambda>l. (lo_storage_target_id l, lo_object_path l)) (db_locations d))
     \<and> list_all (\<lambda>l. get_segment d (lo_recording_segment_id l) \<noteq> None) (db_locations d)"

inductive catalog_step :: "db \<Rightarrow> db \<Rightarrow> bool" where
  catalog_ingest: "\<lbrakk>ingest_finalized zones expand realpath d segment_id location_id now ev previous = Inr (d', r);
      get_segment d segment_id = None\<rbrakk> \<Longrightarrow> catalog_step d d'"
| catalog_finalize: "finalize_provisional_segment d k b src = (d', r) \<Longrightarrow> catalog_step d d'"
| catalog_mark: "catalog_step d (mark_source_loss_tail d previous k)"

inductive_cases catalog_stepE: "catalog_step d d'"

text \<open>A row whose timing is final keeps it.\<close>

definition timing_kept :: "db \<Rightarrow> db \<Rightarrow> bool" where
  "timing_kept d d' \<longleftrightarrow>
     (\<forall>k s. get_segment d k = Some s \<longrightarrow> (\<exists>s'. get_segment d' k = Some s'
        \<and> (sg_timing_status s = Final \<longrightarrow> sg_timing_status s' = Final \<and> sg_started_at s' = sg_started_at s
             \<and> sg_ended_at s' = sg_ended_at s \<and> sg_timing_source s' = sg_timing_source s)))"

lemma timing_kept_refl [simp]: "timing_kept d d"
  by (simp add: timing_kept_def)

lemma timing_kept_trans:
  assumes "timing_kept a b" and "timing_kept b c"
  shows "timing_kept a c"
  unfolding timing_kept_def
proof (intro allI impI)
  fix k s assume "get_segment a k = Some s"
  with assms(1) obtain s' where s': "get_segment b k = Some s'" "sg_timing_status s = Final \<longrightarrow> sg_timing_status s' = Final
      \<and> sg_started_at s' = sg_started_at s \<and> sg_ended_at s' = sg_ended_at s \<and> sg_timing_source s' = sg_timing_source s"
    unfolding timing_kept_def by blast
  with assms(2) obtain s'' where "get_segment c k = Some s''" "sg_timing_status s' = Final \<longrightarrow> sg_timing_status s'' = Final
      \<and> sg_started_at s'' = sg_started_at s' \<and> sg_ended_at s'' = sg_ended_at s' \<and> sg_timing_source s'' = sg_timing_source s'"
    unfolding timing_kept_def by blast
  with s' show "\<exists>s''. get_segment c k = Some s'' \<and> (sg_timing_status s = Final \<longrightarrow> sg_timing_status s'' = Final
      \<and> sg_started_at s'' = sg_started_at s \<and> sg_ended_at s'' = sg_ended_at s \<and> sg_timing_source s'' = sg_timing_source s)"
    by auto
qed

text \<open>Rewriting one row keeps both, if it keeps the row's id, range and final timing.\<close>

lemma rewrite_segment:
  assumes "\<And>s. sg_id (f s) = sg_id s"
    and "\<And>s. get_segment d k = Some s \<Longrightarrow> sg_timing_status s = Final \<Longrightarrow> sg_timing_status (f s) = Final
      \<and> sg_started_at (f s) = sg_started_at s \<and> sg_ended_at (f s) = sg_ended_at s \<and> sg_timing_source (f s) = sg_timing_source s"
    and "\<And>s. get_segment d k = Some s \<Longrightarrow> segment_range_ok s \<Longrightarrow> segment_range_ok (f s)"
  shows "timing_kept d (update_segment k f d)" and "catalog_ok d \<Longrightarrow> catalog_ok (update_segment k f d)"
proof -
  have get: "get_segment (update_segment k f d) j = (if j = k then map_option f (get_segment d k) else get_segment d j)" for j
    by (rule segments.get_upd) (rule assms(1))
  show "timing_kept d (update_segment k f d)" using assms(2) by (auto simp: timing_kept_def get)
  show "catalog_ok (update_segment k f d)" if ok: "catalog_ok d"
  proof -
    have "segment_range_ok r" if r: "r \<in> set (db_segments (update_segment k f d))" for r
    proof -
      from segments.upd_mem [OF r] consider "r \<in> set (db_segments d)"
        | s where "s \<in> set (db_segments d)" "sg_id s = k" "r = f s" by blast
      then show ?thesis
      proof cases
        case 2
        then have "get_segment d k = Some s" using ok segments.get_unique [of d s] by (simp add: catalog_ok_def)
        then show ?thesis using 2 assms(3) ok by (auto simp: catalog_ok_def list_all_iff)
      qed (use ok in \<open>auto simp: catalog_ok_def list_all_iff\<close>)
    qed
    moreover have "get_segment (update_segment k f d) j = None \<longleftrightarrow> get_segment d j = None" for j
      by (simp add: get)
    ultimately show ?thesis
      using ok segments.keys_upd [of f k d] assms(1) by (simp add: catalog_ok_def list_all_iff)
  qed
qed

lemma ends_at_range: "0 < sg_duration_ms s \<Longrightarrow> segment_range_ok (ends_at b src s)"
  by (simp add: segment_range_ok_def milliseconds_def)

lemma ends_at_keeps:
  assumes "get_segment d k = Some s" and "sg_timing_status s = Provisional" and "0 < sg_duration_ms s"
  shows "timing_kept d (update_segment k (ends_at b src) d) \<and> (catalog_ok d \<longrightarrow> catalog_ok (update_segment k (ends_at b src) d))"
  by (intro conjI impI rewrite_segment) (use assms in \<open>auto simp: ends_at_range\<close>)

lemma boundary_keeps:
  "timing_kept d (boundary_repaired d p ev k)" "catalog_ok d \<Longrightarrow> catalog_ok (boundary_repaired d p ev k)"
proof -
  consider "boundary_repaired d p ev k = d"
    | j s where "get_segment d j = Some s" "sg_timing_status s = Provisional" "0 < sg_duration_ms s"
      "boundary_repaired d p ev k = update_segment j (ends_at (fe_start_time ev) NextSegmentBoundary) d"
    by (rule boundary_repaired_cases [of d p ev k])
  then show "timing_kept d (boundary_repaired d p ev k)" "catalog_ok d \<Longrightarrow> catalog_ok (boundary_repaired d p ev k)"
    by (cases; simp add: ends_at_keeps)+
qed

lemma mark_keeps:
  "timing_kept d (mark_source_loss_tail d previous k)" "catalog_ok d \<Longrightarrow> catalog_ok (mark_source_loss_tail d previous k)"
proof -
  have one: "timing_kept e (update_segment j (set_reason r) e)" "catalog_ok e \<Longrightarrow> catalog_ok (update_segment j (set_reason r) e)"
    for j r and e :: db
    by (rule rewrite_segment; simp add: segment_range_ok_def)+
  define d1 where "d1 = (case previous of None \<Rightarrow> d | Some p \<Rightarrow> if p = k then d else (case get_segment d p of
      None \<Rightarrow> d | Some s \<Rightarrow> if has_reason ''source_lost'' s then update_segment p (set_reason ''NORMAL'') d else d))"
  have d1: "timing_kept d d1 \<and> (catalog_ok d \<longrightarrow> catalog_ok d1)"
    using one [of d _ "''NORMAL''"] by (simp add: d1_def split: option.split)
  have "mark_source_loss_tail d previous k = d
      \<or> mark_source_loss_tail d previous k = update_segment k (set_reason ''source_lost'') d1"
    by (simp add: mark_source_loss_tail_def d1_def Let_def split: option.split)
  then show "timing_kept d (mark_source_loss_tail d previous k)" "catalog_ok d \<Longrightarrow> catalog_ok (mark_source_loss_tail d previous k)"
    using d1 one [of d1 k "''source_lost''"] timing_kept_trans [of d d1] by auto
qed

lemma catalog_step_keeps:
  assumes "catalog_step d d'"
  shows "timing_kept d d'" and "catalog_ok d \<Longrightarrow> catalog_ok d'"
proof -
  have "timing_kept d d' \<and> (catalog_ok d \<longrightarrow> catalog_ok d')"
    using assms
  proof cases
    case (catalog_ingest zones expand realpath segment_id location_id now ev previous r)
    from catalog_ingest(1) show ?thesis
    proof (cases rule: ingest_cases)
      case (created profile_id profile target relative d1 reasons s)
      have none: "get_segment d1 segment_id = None" using catalog_ingest(2) created(9) by (simp add: get_segment_boundary)
      have get: "get_segment d' k = (if k = segment_id then Some s else get_segment d1 k)" for k
        using created(11,12) none segments.get_add [of d1 s k] by (simp add: get_segment_def)
      have "timing_kept d1 d'" using none by (auto simp: timing_kept_def get)
      then have kept: "timing_kept d d'" using boundary_keeps(1) [of d profile ev previous] created(9) timing_kept_trans by blast
      have "catalog_ok d'" if "catalog_ok d"
      proof -
        have d1: "catalog_ok d1" "db_locations d1 = db_locations d" using boundary_keeps(2) [OF that] created(9) by simp_all
        have "distinct (map (\<lambda>l. (lo_storage_target_id l, lo_object_path l)) (db_locations d'))"
          using d1 created(8,12) by (auto simp: catalog_ok_def location_at_def find_None_iff)
        moreover have "distinct (map sg_id (db_segments d'))"
          using d1(1) none created(11,12) segments.get_None_iff [of d1 segment_id] by (simp add: catalog_ok_def add_location_def)
        moreover have "list_all segment_range_ok (db_segments d')"
          using d1(1) created(11,12) duration_positive [of ev]
          by (simp add: catalog_ok_def add_location_def segment_range_ok_def milliseconds_def)
        moreover have "list_all (\<lambda>l. get_segment d' (lo_recording_segment_id l) \<noteq> None) (db_locations d')"
        proof -
          have "db_locations d' = db_locations d1 @
              [new_location location_id segment_id (st_id (lt_target target)) (as_posix relative) (fe_file_size ev) now]"
            using created(12) by simp
          moreover have "\<forall>l \<in> set (db_locations d1). get_segment d1 (lo_recording_segment_id l) \<noteq> None"
            using d1(1) by (simp add: catalog_ok_def list_all_iff)
          ultimately show ?thesis by (simp add: list_all_iff get)
        qed
        ultimately show ?thesis by (simp add: catalog_ok_def)
      qed
      with kept show ?thesis by blast
    qed simp_all
  next
    case (catalog_finalize k b src r)
    from catalog_finalize(1) show ?thesis
      by (cases rule: finalize_provisional_cases) (simp_all add: ends_at_keeps)
  next
    case (catalog_mark previous k)
    then show ?thesis using mark_keeps by simp
  qed
  then show "timing_kept d d'" "catalog_ok d \<Longrightarrow> catalog_ok d'" by blast+
qed

text \<open>
  C9: However files are reported, boundaries repaired and losses marked, the catalog stays sound: every
  segment covers a non-empty range, no two locations of a target share a path, every location
  belongs to a segment, no segment is lost, and a timing once final never changes again.
\<close>

theorem catalog_sound:
  assumes "catalog_step\<^sup>*\<^sup>* d d'" and "catalog_ok d"
  shows "catalog_ok d'
    \<and> (get_segment d k = Some s \<longrightarrow> (\<exists>s'. get_segment d' k = Some s'
        \<and> (sg_timing_status s = Final \<longrightarrow> sg_timing_status s' = Final \<and> sg_started_at s' = sg_started_at s
             \<and> sg_ended_at s' = sg_ended_at s)))"
proof -
  from assms(1) have "timing_kept d d' \<and> (catalog_ok d \<longrightarrow> catalog_ok d')"
    by (induction rule: rtranclp_induct) (auto intro: timing_kept_trans dest: catalog_step_keeps)
  then show ?thesis using assms(2) unfolding timing_kept_def by blast
qed

section \<open>The tail of a lost source\<close>

definition lost :: "db \<Rightarrow> uuid \<Rightarrow> bool" where
  "lost d j = (case get_segment d j of None \<Rightarrow> False | Some s \<Rightarrow> has_reason ''source_lost'' s)"

lemma has_reason_set: "has_reason ''source_lost'' (set_reason ''source_lost'' s)" "\<not> has_reason ''source_lost'' (set_reason ''NORMAL'' s)"
  by (simp_all add: has_reason_def set_reason_def py_lower_def lower_char_def code_of_def)

lemma get_set_reason:
  "get_segment (update_segment k (set_reason r) d) j
   = (if j = k then map_option (set_reason r) (get_segment d k) else get_segment d j)"
  by (rule segments.get_upd) simp

lemma get_mark: "get_segment (mark_source_loss_tail d previous k) j = None \<longleftrightarrow> get_segment d j = None"
  by (auto simp: mark_source_loss_tail_def Let_def get_set_reason split: option.split if_split)

lemma lost_mark:
  assumes "get_segment d k = Some s"
  shows "lost (mark_source_loss_tail d previous k) j \<longleftrightarrow> j = k \<or> previous \<noteq> Some j \<and> lost d j"
proof -
  define d1 where "d1 = (case previous of None \<Rightarrow> d | Some p \<Rightarrow> if p = k then d else (case get_segment d p of
      None \<Rightarrow> d | Some s \<Rightarrow> if has_reason ''source_lost'' s then update_segment p (set_reason ''NORMAL'') d else d))"
  have m: "mark_source_loss_tail d previous k = update_segment k (set_reason ''source_lost'') d1"
    by (simp add: mark_source_loss_tail_def d1_def Let_def assms)
  have k: "\<exists>r. get_segment d1 k = Some r" using assms by (auto simp: d1_def get_set_reason split: option.split)
  have other: "lost d1 j \<longleftrightarrow> previous \<noteq> Some j \<and> lost d j" if "j \<noteq> k"
    using that by (auto simp: d1_def lost_def get_set_reason has_reason_set split: option.split)
  show ?thesis
  proof (cases "j = k")
    case True
    then show ?thesis using k by (auto simp: m lost_def get_set_reason has_reason_set)
  next
    case False
    then have "lost (mark_source_loss_tail d previous k) j = lost d1 j" by (simp add: m lost_def get_set_reason)
    with other [OF False] False show ?thesis by simp
  qed
qed

text \<open>The marks for the late files of one closed generation, each after the one remembered before.\<close>

fun mark_tails :: "db \<Rightarrow> uuid option \<Rightarrow> uuid list \<Rightarrow> db" where
  "mark_tails d previous [] = d"
| "mark_tails d previous (k # ks) = mark_tails (mark_source_loss_tail d previous k) (Some k) ks"

text \<open>
  The mark of a source loss follows the tail. When late files of a closed generation are reported one
  after the other, exactly the last one carries the completion reason source_lost, the file marked
  before the first of them has lost it, and every other segment keeps its reason.
\<close>

theorem source_loss_follows_tail:
  assumes "ks \<noteq> []" and "distinct ks" and "\<And>k. k \<in> set ks \<Longrightarrow> get_segment d k \<noteq> None"
  shows "lost (mark_tails d previous ks) j \<longleftrightarrow> j = last ks \<or> j \<notin> set ks \<and> previous \<noteq> Some j \<and> lost d j"
  using assms
proof (induction d previous ks rule: mark_tails.induct)
  case (2 d previous k ks)
  then obtain s where s: "get_segment d k = Some s" by fastforce
  show ?case
  proof (cases "ks = []")
    case True
    then show ?thesis by (auto simp: lost_mark [OF s])
  next
    case False
    from "2.IH" [OF False] "2.prems"(2,3) have
      "lost (mark_tails d previous (k # ks)) j
        \<longleftrightarrow> j = last ks \<or> j \<notin> set ks \<and> Some k \<noteq> Some j \<and> lost (mark_source_loss_tail d previous k) j"
      by (simp add: get_mark)
    then show ?thesis using False by (auto simp: lost_mark [OF s])
  qed
qed simp

section \<open>Concrete inputs\<close>

definition example_catalog_db :: db where
  "example_catalog_db = empty_db\<lparr>db_profiles := [\<lparr>sp_id = 9, sp_camera_id = 7, sp_codec = None\<rparr>],
     db_targets := [\<lparr>st_id = 3, st_type = LocalTarget, st_role = RecordingRole, st_enabled = True,
       st_config_json = [(''path'', PStr ''/m'')]\<rparr>]\<rparr>"

definition example_evidence :: evidence where
  "example_evidence = \<lparr>fe_app = ''zero-nvr'', fe_stream = ''profile-'' @ uuid_hex 9, fe_start_time = seconds 100,
     fe_duration = seconds 10, fe_file_size = 4, fe_file_path = ''/m/a''\<rparr>"

lemma example_stream_profile: "profile_id_from_stream (fe_stream example_evidence) = Inr 9"
  by (simp add: example_evidence_def profile_id_from_stream_def parse_uuid_hex)

lemma example_ingest:
  "\<exists>d r. ingest_finalized example_zones id id example_catalog_db 5 6 0 example_evidence None = Inr (d, r) \<and> ir_created r"
proof -
  have target: "local_target_for_camera id id example_catalog_db 7 = Inr
      \<lparr>lt_target = \<lparr>st_id = 3, st_type = LocalTarget, st_role = RecordingRole, st_enabled = True,
       st_config_json = [(''path'', PStr ''/m'')]\<rparr>, lt_root = [''/'', ''m'']\<rparr>"
    by code_simp
  have path: "relative_object_path id id [''/'', ''m''] ''/m/a'' = Inr [''a'']" by code_simp
  have reasons: "recording_reasons example_zones example_catalog_db 7 a b = Inr []" for a b
    by (simp add: recording_reasons_def policy_of_camera_def overlapping_def example_catalog_db_def empty_db_def)
  show ?thesis
    using example_stream_profile target path reasons
    unfolding ingest_finalized_def ingest_new_def Let_def
    by (simp add: get_profile_def fetch_or_raise_def location_at_def catalog_result_def
        example_evidence_def example_catalog_db_def empty_db_def seconds_def)
qed

text \<open>The hypotheses of the properties can be met.\<close>

lemma example_no_segment: "get_segment example_catalog_db 5 = None"
  by (simp add: get_segment_def example_catalog_db_def empty_db_def)

lemma ingest_once_witness:
  "\<exists>d r. ingest_finalized example_zones id id example_catalog_db 5 6 0 example_evidence None = Inr (d, r)
     \<and> ingest_finalized example_zones id id d 8 9 1 example_evidence (Some 5) = Inr (d, r\<lparr>ir_created := False\<rparr>)"
  using example_ingest ingest_once [OF _ _ example_no_segment] by blast


lemma catalog_sound_witness:
  "\<exists>d. catalog_step\<^sup>*\<^sup>* example_catalog_db d \<and> d \<noteq> example_catalog_db \<and> catalog_ok d"
proof -
  obtain d r where i: "ingest_finalized example_zones id id example_catalog_db 5 6 0 example_evidence None = Inr (d, r)"
    "ir_created r" using example_ingest by blast
  have step: "catalog_step\<^sup>*\<^sup>* example_catalog_db d" using catalog_ingest [OF i(1) example_no_segment] by blast
  have start: "catalog_ok example_catalog_db" by (simp add: catalog_ok_def example_catalog_db_def empty_db_def)
  have "db_locations d \<noteq> []" using i(1)
    by (cases rule: ingest_cases) (use i(2) in \<open>auto simp: ignored_result_def catalog_result_def\<close>)
  then have "d \<noteq> example_catalog_db" by (auto simp: example_catalog_db_def empty_db_def)
  with step catalog_sound [OF step start] show ?thesis by blast
qed

definition example_tail :: "uuid \<Rightarrow> recording_segment" where
  "example_tail k = new_segment k \<lparr>sp_id = 9, sp_camera_id = 7, sp_codec = None\<rparr> example_evidence []"

lemma source_loss_follows_tail_witness:
  "\<exists>d. lost (mark_tails d None [1, 2]) 2 \<and> \<not> lost (mark_tails d None [1, 2]) 1"
proof -
  define d where "d = empty_db\<lparr>db_segments := [example_tail 1, example_tail 2]\<rparr>"
  have "get_segment d k \<noteq> None" if "k \<in> set [1, 2]" for k
    using that by (auto simp: d_def get_segment_def example_tail_def)
  from source_loss_follows_tail [of "[1, 2]" d, OF _ _ this]
  have "lost (mark_tails d None [1, 2]) j \<longleftrightarrow> j = 2 \<or> j \<notin> {1, 2} \<and> lost d j" for j by simp
  then have "lost (mark_tails d None [1, 2]) 2 \<and> \<not> lost (mark_tails d None [1, 2]) 1" by simp
  then show ?thesis by (rule exI)
qed

end
