(* ===== verification/Continuity.thy ===== *)
theory Continuity
  imports Prelude
begin

text \<open>
  \<open>integrations/zlm/continuity.py\<close>: the in-memory proof that recorded files belong to one unbroken
  presence of a stream. A stream has at most one active generation and remembers one recently closed
  one. Each operation holds the tracker's lock; a missing \<open>at\<close> is the clock, so \<open>at\<close> is an argument
  here, as is the \<open>uuid4()\<close> of a new generation.
\<close>

section \<open>The tracker\<close>

record stream_identity =
  si_vhost :: string
  si_app :: string
  si_stream :: string

record continuity_resolution =
  cr_continuity_id :: uuid
  cr_previous_segment_id :: "uuid option"
  cr_opened_at :: "instant option"
  cr_closed_at :: "instant option"

record continuity_state =
  cn_continuity_id :: uuid
  cn_registered_at :: instant
  cn_last_segment_id :: "uuid option"
  cn_last_segment_started_at :: "instant option"
  cn_closed_at :: "instant option"

record tracker =
  tk_active :: "stream_identity \<rightharpoonup> continuity_state"
  tk_closed :: "stream_identity \<rightharpoonup> continuity_state"

definition reset_tracker :: "tracker \<Rightarrow> tracker" where
  "reset_tracker tk = tk\<lparr>tk_active := (\<lambda>_. None), tk_closed := (\<lambda>_. None)\<rparr>"

definition stream_registered :: "uuid \<Rightarrow> stream_identity \<Rightarrow> instant \<Rightarrow> tracker \<Rightarrow> tracker \<times> uuid" where
  "stream_registered new_id identity registered_at tk =
     (case tk_active tk identity of
        Some active \<Rightarrow> (tk, cn_continuity_id active)
      | None \<Rightarrow>
          let state = \<lparr>cn_continuity_id = new_id, cn_registered_at = registered_at, cn_last_segment_id = None,
                       cn_last_segment_started_at = None, cn_closed_at = None\<rparr>
          in (tk\<lparr>tk_active := (tk_active tk)(identity \<mapsto> state)\<rparr>, new_id))"

definition stream_unregistered :: "stream_identity \<Rightarrow> instant \<Rightarrow> tracker \<Rightarrow> tracker \<times> uuid option" where
  "stream_unregistered identity closed_at tk =
     (case tk_active tk identity of
        None \<Rightarrow> (tk, None)
      | Some active \<Rightarrow>
          (tk\<lparr>tk_active := (tk_active tk)(identity := None),
              tk_closed := (tk_closed tk)(identity \<mapsto> active\<lparr>cn_closed_at := Some closed_at\<rparr>)\<rparr>,
           Some (cn_continuity_id active)))"

definition resolution_of :: "continuity_state \<Rightarrow> continuity_resolution" where
  "resolution_of state =
     \<lparr>cr_continuity_id = cn_continuity_id state, cr_previous_segment_id = cn_last_segment_id state,
      cr_opened_at = Some (cn_registered_at state), cr_closed_at = cn_closed_at state\<rparr>"

definition closed_resolution :: "stream_identity \<Rightarrow> tracker \<Rightarrow> continuity_resolution option" where
  "closed_resolution identity tk =
     (case tk_closed tk identity of
        None \<Rightarrow> None
      | Some state \<Rightarrow> if cn_closed_at state = None then None else Some (resolution_of state))"

text \<open>The resolutions of an active generation leave \<open>closed_at\<close> at its default.\<close>

definition active_resolution :: "stream_identity \<Rightarrow> tracker \<Rightarrow> continuity_resolution option" where
  "active_resolution identity tk =
     (case tk_active tk identity of
        None \<Rightarrow> None
      | Some state \<Rightarrow> Some ((resolution_of state)\<lparr>cr_closed_at := None\<rparr>))"

definition current_continuity :: "stream_identity \<Rightarrow> tracker \<Rightarrow> uuid option" where
  "current_continuity identity tk = map_option cn_continuity_id (tk_active tk identity)"

definition resolve_record :: "stream_identity \<Rightarrow> instant \<Rightarrow> tracker \<Rightarrow> continuity_resolution option" where
  "resolve_record identity started_at tk =
     (let active = tk_active tk identity;
          late = (case tk_closed tk identity of
              None \<Rightarrow> None
            | Some former \<Rightarrow> (case cn_closed_at former of
                  None \<Rightarrow> None
                | Some closed_at \<Rightarrow>
                    if started_at \<le> closed_at
                       \<and> (case active of None \<Rightarrow> True | Some a \<Rightarrow> started_at < cn_registered_at a)
                    then Some (resolution_of former) else None))
      in case late of
           Some r \<Rightarrow> Some r
         | None \<Rightarrow> (case active of
               None \<Rightarrow> None
             | Some a \<Rightarrow> if cn_registered_at a \<le> started_at
                         then Some ((resolution_of a)\<lparr>cr_closed_at := None\<rparr>) else None))"

text \<open>Remembering a segment in one generation; \<open>None\<close> where it is older than the last one.\<close>

definition remember_in :: "uuid \<Rightarrow> instant option \<Rightarrow> continuity_state \<Rightarrow> continuity_state option" where
  "remember_in segment_id started_at state =
     (if (case (started_at, cn_last_segment_started_at state) of
            (Some s, Some l) \<Rightarrow> s < l | _ \<Rightarrow> False) then None
      else Some (state\<lparr>cn_last_segment_id := Some segment_id,
                       cn_last_segment_started_at :=
                         (case started_at of None \<Rightarrow> cn_last_segment_started_at state | Some s \<Rightarrow> Some s)\<rparr>))"

definition holds_generation :: "uuid \<Rightarrow> continuity_state option \<Rightarrow> bool" where
  "holds_generation continuity_id slot = (case slot of None \<Rightarrow> False | Some s \<Rightarrow> cn_continuity_id s = continuity_id)"

definition remember_segment ::
    "stream_identity \<Rightarrow> uuid \<Rightarrow> uuid \<Rightarrow> instant option \<Rightarrow> tracker \<Rightarrow> tracker \<times> bool" where
  "remember_segment identity continuity_id segment_id started_at tk =
     (if holds_generation continuity_id (tk_active tk identity)
      then (case remember_in segment_id started_at (the (tk_active tk identity)) of
              None \<Rightarrow> (tk, False)
            | Some s \<Rightarrow> (tk\<lparr>tk_active := (tk_active tk)(identity \<mapsto> s)\<rparr>, True))
      else if holds_generation continuity_id (tk_closed tk identity)
      then (case remember_in segment_id started_at (the (tk_closed tk identity)) of
              None \<Rightarrow> (tk, False)
            | Some s \<Rightarrow> (tk\<lparr>tk_closed := (tk_closed tk)(identity \<mapsto> s)\<rparr>, True))
      else (tk, False))"


section \<open>Generations in time\<close>

text \<open>
  The history beside the tracker: every generation with the interval in which the stream was
  observed, and the segments that were remembered. The hooks read the clock, so instants do not go
  back; a restart of the media server ends every generation it had open.
\<close>

record generation =
  gn_id :: uuid
  gn_identity :: stream_identity
  gn_opened :: instant
  gn_closed :: "instant option"

record continuity_world =
  cw_tracker :: tracker
  cw_now :: instant
  cw_generations :: "generation list"
  cw_remembered :: "(uuid \<times> uuid \<times> instant option) list"

definition close_generations :: "(stream_identity \<Rightarrow> bool) \<Rightarrow> instant \<Rightarrow> generation list \<Rightarrow> generation list" where
  "close_generations P now gs = map (\<lambda>g. if P (gn_identity g) \<and> gn_closed g = None then g\<lparr>gn_closed := Some now\<rparr> else g) gs"

definition fresh_continuity :: "instant \<Rightarrow> continuity_world" where
  "fresh_continuity now = \<lparr>cw_tracker = \<lparr>tk_active = (\<lambda>_. None), tk_closed = (\<lambda>_. None)\<rparr>, cw_now = now,
     cw_generations = [], cw_remembered = []\<rparr>"

inductive continuity_step :: "continuity_world \<Rightarrow> continuity_world \<Rightarrow> bool" where
  continuity_register: "\<lbrakk>stream_registered new_id i (cw_now w) (cw_tracker w) = (tk, k);
      new_id \<notin> gn_id ` set (cw_generations w)\<rbrakk>
    \<Longrightarrow> continuity_step w (w\<lparr>cw_tracker := tk, cw_generations :=
          (if tk_active (cw_tracker w) i = None
           then \<lparr>gn_id = new_id, gn_identity = i, gn_opened = cw_now w, gn_closed = None\<rparr> # cw_generations w
           else cw_generations w)\<rparr>)"
| continuity_unregister: "stream_unregistered i (cw_now w) (cw_tracker w) = (tk, k)
    \<Longrightarrow> continuity_step w (w\<lparr>cw_tracker := tk,
          cw_generations := close_generations (\<lambda>j. j = i) (cw_now w) (cw_generations w)\<rparr>)"
| continuity_remember: "remember_segment i k s at_instant (cw_tracker w) = (tk, accepted)
    \<Longrightarrow> continuity_step w (w\<lparr>cw_tracker := tk,
          cw_remembered := (if accepted then (k, s, at_instant) # cw_remembered w else cw_remembered w)\<rparr>)"
| continuity_reset: "continuity_step w (w\<lparr>cw_tracker := reset_tracker (cw_tracker w),
          cw_generations := close_generations (\<lambda>_. True) (cw_now w) (cw_generations w)\<rparr>)"
| continuity_tick: "cw_now w \<le> now \<Longrightarrow> continuity_step w (w\<lparr>cw_now := now\<rparr>)"

inductive_cases continuity_stepE: "continuity_step w w'"

definition generation_of :: "stream_identity \<Rightarrow> continuity_state \<Rightarrow> generation" where
  "generation_of i s = \<lparr>gn_id = cn_continuity_id s, gn_identity = i, gn_opened = cn_registered_at s, gn_closed = cn_closed_at s\<rparr>"

text \<open>\<open>g\<close> ended before \<open>h\<close> began.\<close>

definition before :: "generation \<Rightarrow> generation \<Rightarrow> bool" where
  "before g h \<longleftrightarrow> (\<exists>x. gn_closed g = Some x \<and> x \<le> gn_opened h)"

definition generations_ok :: "continuity_world \<Rightarrow> bool" where
  "generations_ok w \<longleftrightarrow>
     distinct (map gn_id (cw_generations w))
     \<and> (\<forall>g \<in> set (cw_generations w). gn_opened g \<le> cw_now w
          \<and> (\<forall>x. gn_closed g = Some x \<longrightarrow> gn_opened g \<le> x \<and> x \<le> cw_now w)
          \<and> (gn_closed g = None \<longrightarrow> (\<exists>a. tk_active (cw_tracker w) (gn_identity g) = Some a \<and> cn_continuity_id a = gn_id g)))
     \<and> (\<forall>g \<in> set (cw_generations w). \<forall>h \<in> set (cw_generations w).
          gn_identity g = gn_identity h \<longrightarrow> g = h \<or> before g h \<or> before h g)
     \<and> (\<forall>i a. tk_active (cw_tracker w) i = Some a \<longrightarrow> cn_closed_at a = None \<and> generation_of i a \<in> set (cw_generations w))
     \<and> (\<forall>i c. tk_closed (cw_tracker w) i = Some c \<longrightarrow> cn_closed_at c \<noteq> None \<and> generation_of i c \<in> set (cw_generations w)
          \<and> (\<forall>g \<in> set (cw_generations w). gn_identity g = i \<and> gn_closed g \<noteq> None \<and> gn_id g \<noteq> cn_continuity_id c
               \<longrightarrow> before g (generation_of i c)))"

lemma generations_okD:
  assumes "generations_ok w"
  shows "distinct (map gn_id (cw_generations w))"
    and "g \<in> set (cw_generations w) \<Longrightarrow> gn_opened g \<le> cw_now w"
    and "g \<in> set (cw_generations w) \<Longrightarrow> gn_closed g = Some x \<Longrightarrow> gn_opened g \<le> x \<and> x \<le> cw_now w"
    and "g \<in> set (cw_generations w) \<Longrightarrow> gn_closed g = None
      \<Longrightarrow> \<exists>a. tk_active (cw_tracker w) (gn_identity g) = Some a \<and> cn_continuity_id a = gn_id g"
    and "g \<in> set (cw_generations w) \<Longrightarrow> h \<in> set (cw_generations w) \<Longrightarrow> gn_identity g = gn_identity h
      \<Longrightarrow> g = h \<or> before g h \<or> before h g"
    and "tk_active (cw_tracker w) i = Some a \<Longrightarrow> cn_closed_at a = None \<and> generation_of i a \<in> set (cw_generations w)"
    and "tk_closed (cw_tracker w) i = Some c \<Longrightarrow> cn_closed_at c \<noteq> None \<and> generation_of i c \<in> set (cw_generations w)"
    and "tk_closed (cw_tracker w) i = Some c \<Longrightarrow> g \<in> set (cw_generations w) \<Longrightarrow> gn_identity g = i
      \<Longrightarrow> gn_closed g \<noteq> None \<Longrightarrow> gn_id g \<noteq> cn_continuity_id c \<Longrightarrow> before g (generation_of i c)"
  using assms unfolding generations_ok_def by blast+

lemma generations_frame:
  assumes ok: "generations_ok w"
    and act: "\<And>i. map_option (generation_of i) (tk_active tk i) = map_option (generation_of i) (tk_active (cw_tracker w) i)"
    and clo: "\<And>i. map_option (generation_of i) (tk_closed tk i) = map_option (generation_of i) (tk_closed (cw_tracker w) i)"
  shows "generations_ok (w\<lparr>cw_tracker := tk, cw_remembered := r\<rparr>)"
proof -
  note D = generations_okD [OF ok]
  have A: "\<exists>b. tk_active (cw_tracker w) i = Some b \<and> generation_of i b = generation_of i a" if "tk_active tk i = Some a" for i a
    using act [of i] that by (cases "tk_active (cw_tracker w) i") auto
  have A': "\<exists>b. tk_active tk i = Some b \<and> generation_of i b = generation_of i a" if "tk_active (cw_tracker w) i = Some a" for i a
    using act [of i] that by (cases "tk_active tk i") auto
  have C: "\<exists>b. tk_closed (cw_tracker w) i = Some b \<and> generation_of i b = generation_of i a" if "tk_closed tk i = Some a" for i a
    using clo [of i] that by (cases "tk_closed (cw_tracker w) i") auto
  have "\<exists>a. tk_active tk (gn_identity g) = Some a \<and> cn_continuity_id a = gn_id g"
    if g: "g \<in> set (cw_generations w)" "gn_closed g = None" for g
  proof -
    from D(4) [OF g] obtain a where "tk_active (cw_tracker w) (gn_identity g) = Some a" "cn_continuity_id a = gn_id g" by blast
    with A' [OF this(1)] show ?thesis by (auto simp: generation_of_def)
  qed
  moreover have "cn_closed_at a = None \<and> generation_of i a \<in> set (cw_generations w)" if "tk_active tk i = Some a" for i a
  proof -
    from A [OF that] obtain b where "tk_active (cw_tracker w) i = Some b" "generation_of i b = generation_of i a" by blast
    with D(6) [of i b] show ?thesis by (auto simp: generation_of_def)
  qed
  moreover have "cn_closed_at a \<noteq> None \<and> generation_of i a \<in> set (cw_generations w)
      \<and> (\<forall>g \<in> set (cw_generations w). gn_identity g = i \<and> gn_closed g \<noteq> None \<and> gn_id g \<noteq> cn_continuity_id a
               \<longrightarrow> before g (generation_of i a))" if "tk_closed tk i = Some a" for i a
  proof -
    from C [OF that] obtain b where b: "tk_closed (cw_tracker w) i = Some b" "generation_of i b = generation_of i a" by blast
    then have "cn_closed_at a = cn_closed_at b" "cn_continuity_id a = cn_continuity_id b" by (auto simp: generation_of_def)
    with D(7,8) [OF b(1)] b(2) show ?thesis by simp
  qed
  ultimately show ?thesis using D(1,2,3,5) unfolding generations_ok_def by simp
qed

definition closed_now :: "(stream_identity \<Rightarrow> bool) \<Rightarrow> instant \<Rightarrow> generation \<Rightarrow> generation" where
  "closed_now P now g = (if P (gn_identity g) \<and> gn_closed g = None then g\<lparr>gn_closed := Some now\<rparr> else g)"

lemma close_generations_map: "close_generations P now gs = map (closed_now P now) gs"
  by (simp add: close_generations_def closed_now_def)

lemma closed_now_simps [simp]:
  "gn_id (closed_now P now g) = gn_id g"
  "gn_identity (closed_now P now g) = gn_identity g"
  "gn_opened (closed_now P now g) = gn_opened g"
  "gn_closed (closed_now P now g) = (if P (gn_identity g) \<and> gn_closed g = None then Some now else gn_closed g)"
  by (simp_all add: closed_now_def)

lemma before_closed_now: "before g h \<Longrightarrow> before (closed_now P now g) (closed_now P now h)"
  by (auto simp: before_def)

text \<open>Closing generations whose streams are no longer active.\<close>

lemma generations_close:
  assumes ok: "generations_ok w"
    and act: "\<And>i. tk_active tk i = (if P i then None else tk_active (cw_tracker w) i)"
    and clo: "\<And>i c. tk_closed tk i = Some c \<Longrightarrow>
      (\<not> P i \<or> tk_active (cw_tracker w) i = None) \<and> tk_closed (cw_tracker w) i = Some c
      \<or> P i \<and> (\<exists>a. tk_active (cw_tracker w) i = Some a \<and> c = a\<lparr>cn_closed_at := Some (cw_now w)\<rparr>)"
  shows "generations_ok (w\<lparr>cw_tracker := tk, cw_generations := close_generations P (cw_now w) (cw_generations w)\<rparr>)"
proof -
  note D = generations_okD [OF ok]
  let ?cl = "closed_now P (cw_now w)"
  have uniq: "g = generation_of (gn_identity g) a"
    if "g \<in> set (cw_generations w)" "gn_closed g = None" "tk_active (cw_tracker w) (gn_identity g) = Some a" for g a
    using D(4) [OF that(1,2)] D(6) [OF that(3)] that D(1) by (auto simp: distinct_map inj_on_def generation_of_def)
  have range: "gn_opened (?cl g) \<le> cw_now w
      \<and> (\<forall>x. gn_closed (?cl g) = Some x \<longrightarrow> gn_opened (?cl g) \<le> x \<and> x \<le> cw_now w)
      \<and> (gn_closed (?cl g) = None \<longrightarrow> (\<exists>a. tk_active tk (gn_identity (?cl g)) = Some a \<and> cn_continuity_id a = gn_id (?cl g)))"
    if g: "g \<in> set (cw_generations w)" for g
    using D(2,3,4) [OF g] by (auto simp: act)
  have order: "?cl g = ?cl h \<or> before (?cl g) (?cl h) \<or> before (?cl h) (?cl g)"
    if "g \<in> set (cw_generations w)" "h \<in> set (cw_generations w)" "gn_identity g = gn_identity h" for g h
    using D(5) [OF that] before_closed_now by blast
  have actives: "cn_closed_at a = None \<and> generation_of i a \<in> ?cl ` set (cw_generations w)" if "tk_active tk i = Some a" for i a
  proof -
    from that have a: "\<not> P i" "tk_active (cw_tracker w) i = Some a" by (auto simp: act split: if_splits)
    have "?cl (generation_of i a) = generation_of i a" using a(1) by (simp add: closed_now_def generation_of_def)
    with D(6) [OF a(2)] show ?thesis by (metis imageI)
  qed
  have closeds: "cn_closed_at c \<noteq> None \<and> generation_of i c \<in> ?cl ` set (cw_generations w)
      \<and> (\<forall>g \<in> set (cw_generations w). gn_identity g = i \<and> gn_closed (?cl g) \<noteq> None \<and> gn_id g \<noteq> cn_continuity_id c
               \<longrightarrow> before (?cl g) (generation_of i c))" if "tk_closed tk i = Some c" for i c
    using clo [OF that]
  proof
    assume "(\<not> P i \<or> tk_active (cw_tracker w) i = None) \<and> tk_closed (cw_tracker w) i = Some c"
    then have c: "\<not> P i \<or> tk_active (cw_tracker w) i = None" "tk_closed (cw_tracker w) i = Some c" by auto
    have same: "?cl (generation_of i c) = generation_of i c"
      using D(7) [OF c(2)] by (auto simp: closed_now_def generation_of_def)
    have "before (?cl g) (generation_of i c)"
      if g: "g \<in> set (cw_generations w)" "gn_identity g = i" "gn_closed (?cl g) \<noteq> None" "gn_id g \<noteq> cn_continuity_id c" for g
    proof -
      have "gn_closed g \<noteq> None" using c(1) D(4) [OF g(1)] g(2,3) by (auto split: if_splits)
      from before_closed_now [OF D(8) [OF c(2) g(1,2) this g(4)], of P "cw_now w"] show ?thesis unfolding same .
    qed
    with D(7) [OF c(2)] same show ?thesis by (metis imageI)
  next
    assume "P i \<and> (\<exists>a. tk_active (cw_tracker w) i = Some a \<and> c = a\<lparr>cn_closed_at := Some (cw_now w)\<rparr>)"
    then obtain a where a: "P i" "tk_active (cw_tracker w) i = Some a" "c = a\<lparr>cn_closed_at := Some (cw_now w)\<rparr>" by auto
    note Da = D(6) [OF a(2)]
    have same: "?cl (generation_of i a) = generation_of i c" using a(1,3) Da by (simp add: closed_now_def generation_of_def)
    have "before (?cl g) (generation_of i c)"
      if g: "g \<in> set (cw_generations w)" "gn_identity g = i" "gn_id g \<noteq> cn_continuity_id c" for g
    proof -
      have ne: "g \<noteq> generation_of i a" using g(3) a(3) by (auto simp: generation_of_def)
      have "gn_closed g \<noteq> None" using uniq [OF g(1)] a(2) g(2) ne by auto
      have "\<not> before (generation_of i a) g" using Da by (simp add: before_def generation_of_def)
      with D(5) [OF g(1), of "generation_of i a"] Da g(2) ne have "before g (generation_of i a)" by (auto simp: generation_of_def)
      from before_closed_now [OF this, of P "cw_now w"] show ?thesis unfolding same .
    qed
    moreover have "generation_of i c \<in> ?cl ` set (cw_generations w)"
      using Da unfolding same [symmetric] by blast
    ultimately show ?thesis using a(3) by simp
  qed
  have "distinct (map gn_id (map ?cl (cw_generations w)))" using D(1) by (simp add: comp_def)
  moreover have "\<forall>g \<in> set (map ?cl (cw_generations w)). gn_opened g \<le> cw_now w
      \<and> (\<forall>x. gn_closed g = Some x \<longrightarrow> gn_opened g \<le> x \<and> x \<le> cw_now w)
      \<and> (gn_closed g = None \<longrightarrow> (\<exists>a. tk_active tk (gn_identity g) = Some a \<and> cn_continuity_id a = gn_id g))"
    unfolding set_map using range by blast
  moreover have "\<forall>g \<in> set (map ?cl (cw_generations w)). \<forall>h \<in> set (map ?cl (cw_generations w)).
      gn_identity g = gn_identity h \<longrightarrow> g = h \<or> before g h \<or> before h g"
    unfolding set_map using order by (auto simp del: closed_now_simps(4))
  moreover have "\<forall>i c. tk_closed tk i = Some c \<longrightarrow> cn_closed_at c \<noteq> None \<and> generation_of i c \<in> set (map ?cl (cw_generations w))
      \<and> (\<forall>g \<in> set (map ?cl (cw_generations w)). gn_identity g = i \<and> gn_closed g \<noteq> None \<and> gn_id g \<noteq> cn_continuity_id c
           \<longrightarrow> before g (generation_of i c))"
    unfolding set_map using closeds by (simp del: closed_now_simps(4))
  ultimately show ?thesis unfolding generations_ok_def close_generations_map using actives [folded set_map]
    by (simp del: closed_now_simps(4) split_paired_All not_None_eq set_map list.set_map)
qed

lemma generations_register:
  assumes ok: "generations_ok w" and idle: "tk_active (cw_tracker w) i = None"
    and unused: "new_id \<notin> gn_id ` set (cw_generations w)"
    and s: "cn_continuity_id s = new_id" "cn_registered_at s = cw_now w" "cn_closed_at s = None"
  shows "generations_ok (w\<lparr>cw_tracker := (cw_tracker w)\<lparr>tk_active := (tk_active (cw_tracker w))(i \<mapsto> s)\<rparr>,
    cw_generations := generation_of i s # cw_generations w\<rparr>)"
proof -
  note D = generations_okD [OF ok]
  have others: "before g (generation_of i s)" if g: "g \<in> set (cw_generations w)" "gn_identity g = i" for g
  proof -
    have "gn_closed g \<noteq> None" using D(4) [OF g(1)] idle g(2) by auto
    then obtain x where x: "gn_closed g = Some x" by auto
    with D(3) [OF g(1) x] s(2) show ?thesis by (simp add: before_def generation_of_def)
  qed
  have closeds: "cn_closed_at c \<noteq> None \<and> generation_of j c \<in> set (generation_of i s # cw_generations w)
      \<and> (\<forall>g \<in> set (generation_of i s # cw_generations w). gn_identity g = j \<and> gn_closed g \<noteq> None
           \<and> gn_id g \<noteq> cn_continuity_id c \<longrightarrow> before g (generation_of j c))"
    if "tk_closed (cw_tracker w) j = Some c" for j c
    using D(7,8) [OF that] s(3) by (auto simp: generation_of_def)
  have order: "g = h \<or> before g h \<or> before h g"
    if "g \<in> set (generation_of i s # cw_generations w)" "h \<in> set (generation_of i s # cw_generations w)"
      "gn_identity g = gn_identity h" for g h
    using that D(5) others by (auto simp: generation_of_def)
  have range: "gn_opened g \<le> cw_now w \<and> (\<forall>x. gn_closed g = Some x \<longrightarrow> gn_opened g \<le> x \<and> x \<le> cw_now w)
      \<and> (gn_closed g = None \<longrightarrow> (\<exists>a. ((tk_active (cw_tracker w))(i \<mapsto> s)) (gn_identity g) = Some a \<and> cn_continuity_id a = gn_id g))"
    if "g \<in> set (generation_of i s # cw_generations w)" for g
  proof (cases "g = generation_of i s")
    case True
    then show ?thesis using s by (simp add: generation_of_def)
  next
    case False
    with that have g: "g \<in> set (cw_generations w)" by simp
    have "gn_identity g \<noteq> i" if "gn_closed g = None" using D(4) [OF g that] idle by auto
    then show ?thesis using D(2,3,4) [OF g] by auto
  qed
  have "distinct (map gn_id (generation_of i s # cw_generations w))" using D(1) unused s(1) by (simp add: generation_of_def)
  moreover have "cn_closed_at a = None \<and> generation_of j a \<in> set (generation_of i s # cw_generations w)"
    if "((tk_active (cw_tracker w))(i \<mapsto> s)) j = Some a" for j a
    using that D(6) s(3) by (auto split: if_splits)
  ultimately show ?thesis using range order closeds unfolding generations_ok_def
    by (simp del: list.set set_simps)
qed

lemma remember_in_keeps: "remember_in s t st = Some st' \<Longrightarrow> generation_of i st' = generation_of i st"
  by (auto simp: remember_in_def generation_of_def split: if_splits)

lemma remember_segment_cases:
  assumes "remember_segment i k s t tk = (tk', accepted)"
  obtains (refused) "\<not> accepted" "tk' = tk"
  | (active) a a' where "accepted" "tk_active tk i = Some a" "cn_continuity_id a = k" "remember_in s t a = Some a'"
      "tk' = tk\<lparr>tk_active := (tk_active tk)(i \<mapsto> a')\<rparr>"
  | (former) c c' where "accepted" "tk_closed tk i = Some c" "cn_continuity_id c = k" "remember_in s t c = Some c'"
      "tk' = tk\<lparr>tk_closed := (tk_closed tk)(i \<mapsto> c')\<rparr>"
proof (cases "holds_generation k (tk_active tk i)")
  case True
  then obtain a where a: "tk_active tk i = Some a" "cn_continuity_id a = k"
    by (auto simp: holds_generation_def split: option.splits)
  show thesis
    by (cases "remember_in s t a")
      (use assms True a in \<open>auto simp: remember_segment_def intro: refused active\<close>)
next
  case not_active: False
  show thesis
  proof (cases "holds_generation k (tk_closed tk i)")
    case True
    then obtain c where c: "tk_closed tk i = Some c" "cn_continuity_id c = k"
      by (auto simp: holds_generation_def split: option.splits)
    show thesis
      by (cases "remember_in s t c")
        (use assms True c not_active in \<open>auto simp: remember_segment_def intro: refused former\<close>)
  next
    case False
    then show thesis using assms not_active by (intro refused) (auto simp: remember_segment_def)
  qed
qed

lemma generations_step:
  assumes step: "continuity_step w w'" and ok: "generations_ok w"
  shows "generations_ok w'"
  using step
proof cases
  case (continuity_register new_id i tk k)
  show ?thesis
  proof (cases "tk_active (cw_tracker w) i")
    case None
    define s where "s = \<lparr>cn_continuity_id = new_id, cn_registered_at = cw_now w, cn_last_segment_id = None,
                       cn_last_segment_started_at = None, cn_closed_at = None\<rparr>"
    have "tk = (cw_tracker w)\<lparr>tk_active := (tk_active (cw_tracker w))(i \<mapsto> s)\<rparr>"
      using continuity_register(2) None by (auto simp: stream_registered_def s_def)
    with generations_register [OF ok None continuity_register(3), of s] show ?thesis
      using continuity_register(1) None by (simp add: s_def generation_of_def)
  next
    case (Some a)
    then have "tk = cw_tracker w" using continuity_register(2) by (simp add: stream_registered_def)
    then show ?thesis using continuity_register(1) Some ok by simp
  qed
next
  case (continuity_unregister i tk k)
  then show ?thesis
    by (auto simp: stream_unregistered_def split: option.splits if_splits intro!: generations_close [OF ok])
next
  case (continuity_remember i k s t tk accepted)
  from continuity_remember(2) show ?thesis
  proof (cases rule: remember_segment_cases)
    case refused
    then show ?thesis using continuity_remember(1) ok by simp
  next
    case (active a a')
    with remember_in_keeps [OF active(4)] show ?thesis unfolding continuity_remember(1)
      by (intro generations_frame [OF ok]) auto
  next
    case (former c c')
    with remember_in_keeps [OF former(4)] show ?thesis unfolding continuity_remember(1)
      by (intro generations_frame [OF ok]) auto
  qed
next
  case continuity_reset
  then show ?thesis by (auto simp: reset_tracker_def intro!: generations_close [OF ok])
next
  case (continuity_tick now)
  then show ?thesis using ok unfolding generations_ok_def by (auto intro: order_trans)
qed

lemma generations_reachable: "continuity_step\<^sup>*\<^sup>* (fresh_continuity t0) w \<Longrightarrow> generations_ok w"
proof (induction rule: rtranclp_induct)
  case base
  show ?case by (simp add: fresh_continuity_def generations_ok_def)
qed (rule generations_step)

section \<open>Remembered segments\<close>

definition remembered_in :: "uuid \<Rightarrow> continuity_world \<Rightarrow> (uuid \<times> instant option) list" where
  "remembered_in k w = map snd (filter (\<lambda>e. fst e = k) (cw_remembered w))"

definition slot :: "tracker \<Rightarrow> stream_identity \<Rightarrow> continuity_state \<Rightarrow> bool" where
  "slot tk i s \<longleftrightarrow> tk_active tk i = Some s \<or> tk_closed tk i = Some s"

text \<open>A generation knows the segment remembered last, and none remembered before starts later.\<close>

definition memory_of :: "(uuid \<times> instant option) list \<Rightarrow> continuity_state \<Rightarrow> bool" where
  "memory_of xs s \<longleftrightarrow>
     cn_last_segment_id s = (case xs of [] \<Rightarrow> None | x # _ \<Rightarrow> Some (fst x))
     \<and> (\<forall>x t. (x, Some t) \<in> set xs \<longrightarrow> (\<exists>l. cn_last_segment_started_at s = Some l \<and> t \<le> l))
     \<and> (\<forall>x t ys. xs = (x, Some t) # ys \<longrightarrow> cn_last_segment_started_at s = Some t)"

definition memory_ok :: "continuity_world \<Rightarrow> bool" where
  "memory_ok w \<longleftrightarrow>
     (\<forall>e \<in> set (cw_remembered w). fst e \<in> gn_id ` set (cw_generations w))
     \<and> (\<forall>i s. slot (cw_tracker w) i s \<longrightarrow> memory_of (remembered_in (cn_continuity_id s) w) s)"

lemma slot_generation:
  assumes "generations_ok w" and "slot (cw_tracker w) i s"
  shows "generation_of i s \<in> set (cw_generations w)"
  using assms generations_okD(6,7) [OF assms(1)] by (auto simp: slot_def)

lemma slot_unique:
  assumes ok: "generations_ok w" and "slot (cw_tracker w) i s" "slot (cw_tracker w) j r"
    and "cn_continuity_id s = cn_continuity_id r"
  shows "i = j \<and> s = r"
proof -
  have "generation_of i s = generation_of j r"
    using slot_generation [OF ok assms(2)] slot_generation [OF ok assms(3)] assms(4)
    by (intro inj_onD [OF generations_okD(1) [OF ok, unfolded distinct_map, THEN conjunct2]]) (simp_all add: generation_of_def)
  then have ij: "i = j" and "cn_closed_at s = cn_closed_at r" by (auto simp: generation_of_def)
  have "i = j \<and> s = r \<or> tk_active (cw_tracker w) i = Some s \<and> tk_closed (cw_tracker w) i = Some r
      \<or> tk_closed (cw_tracker w) i = Some s \<and> tk_active (cw_tracker w) i = Some r"
    using assms(2,3) ij unfolding slot_def by force
  with generations_okD(6) [OF ok] generations_okD(7) [OF ok] \<open>cn_closed_at s = cn_closed_at r\<close> show ?thesis by metis
qed

lemma memory_remember:
  assumes "memory_of xs s" and "remember_in x t s = Some s'"
  shows "memory_of ((x, t) # xs) s'"
proof -
  have s': "s' = s\<lparr>cn_last_segment_id := Some x,
      cn_last_segment_started_at := (case t of None \<Rightarrow> cn_last_segment_started_at s | Some v \<Rightarrow> Some v)\<rparr>"
    and late: "\<And>v l. t = Some v \<Longrightarrow> cn_last_segment_started_at s = Some l \<Longrightarrow> l \<le> v"
    using assms(2) by (auto simp: remember_in_def split: if_splits option.splits)
  have "\<exists>l. cn_last_segment_started_at s' = Some l \<and> v \<le> l" if "(y, Some v) \<in> set ((x, t) # xs)" for y v
  proof (cases "(y, Some v) \<in> set xs")
    case True
    with assms(1) obtain l where "cn_last_segment_started_at s = Some l" "v \<le> l" unfolding memory_of_def by blast
    then show ?thesis using late by (cases t) (auto simp: s' intro: order_trans)
  next
    case False
    with that show ?thesis by (auto simp: s')
  qed
  then show ?thesis unfolding memory_of_def by (auto simp: s')
qed

lemma remembered_in_simps [simp]:
  "remembered_in k (w\<lparr>cw_tracker := tk, cw_remembered := (j, x, t) # cw_remembered w\<rparr>)
   = (if j = k then (x, t) # remembered_in k w else remembered_in k w)"
  "remembered_in k (w\<lparr>cw_tracker := tk, cw_generations := gs\<rparr>) = remembered_in k w"
  "remembered_in k (w\<lparr>cw_tracker := tk, cw_remembered := cw_remembered w\<rparr>) = remembered_in k w"
  "remembered_in k (w\<lparr>cw_now := now\<rparr>) = remembered_in k w"
  by (simp_all add: remembered_in_def)

lemma remembered_in_new: "memory_ok w \<Longrightarrow> k \<notin> gn_id ` set (cw_generations w) \<Longrightarrow> remembered_in k w = []"
  by (force simp: memory_ok_def remembered_in_def filter_empty_conv)

lemma close_generations_ids [simp]: "gn_id ` set (close_generations P now gs) = gn_id ` set gs"
  by (auto simp: close_generations_map image_image)

lemma memory_step:
  assumes step: "continuity_step w w'" and gens: "generations_ok w" and ok: "memory_ok w"
  shows "memory_ok w'"
proof -
  have ids: "\<And>e. e \<in> set (cw_remembered w) \<Longrightarrow> fst e \<in> gn_id ` set (cw_generations w)"
    and mem: "\<And>i s. slot (cw_tracker w) i s \<Longrightarrow> memory_of (remembered_in (cn_continuity_id s) w) s"
    using ok unfolding memory_ok_def by blast+
  from step show ?thesis
  proof cases
    case (continuity_register new_id i tk k)
    show ?thesis
    proof (cases "tk_active (cw_tracker w) i")
      case None
      define n where "n = \<lparr>cn_continuity_id = new_id, cn_registered_at = cw_now w, cn_last_segment_id = None,
                       cn_last_segment_started_at = None, cn_closed_at = None\<rparr>"
      have tk: "tk = (cw_tracker w)\<lparr>tk_active := (tk_active (cw_tracker w))(i \<mapsto> n)\<rparr>"
        using continuity_register(2) None by (auto simp: stream_registered_def n_def)
      have "memory_of (remembered_in (cn_continuity_id s) w) s" if "slot tk j s" for j s
      proof (cases "s = n")
        case True
        then show ?thesis using remembered_in_new [OF ok continuity_register(3)] by (simp add: n_def memory_of_def)
      next
        case False
        with that tk have "slot (cw_tracker w) j s" by (auto simp: slot_def split: if_splits)
        then show ?thesis by (rule mem)
      qed
      then show ?thesis using continuity_register(1) None ids by (simp add: memory_ok_def)
    next
      case (Some a)
      then have "tk = cw_tracker w" using continuity_register(2) by (simp add: stream_registered_def)
      then show ?thesis using continuity_register(1) Some ok by simp
    qed
  next
    case (continuity_unregister i tk k)
    have "memory_of (remembered_in (cn_continuity_id s) w) s" if "slot tk j s" for j s
    proof (cases "slot (cw_tracker w) j s")
      case True
      then show ?thesis by (rule mem)
    next
      case False
      with that continuity_unregister(2) obtain a where a: "tk_active (cw_tracker w) i = Some a"
        "s = a\<lparr>cn_closed_at := Some (cw_now w)\<rparr>"
        by (auto simp: stream_unregistered_def slot_def split: option.splits if_splits)
      then show ?thesis using mem [of i a] by (simp add: slot_def memory_of_def)
    qed
    then show ?thesis using continuity_unregister(1) ids by (simp add: memory_ok_def)
  next
    case (continuity_remember i k x t tk accepted)
    from continuity_remember(2) show ?thesis
    proof (cases rule: remember_segment_cases)
      case refused
      then show ?thesis using continuity_remember(1) ok by simp
    next
      case (active a a')
      then have old: "slot (cw_tracker w) i a" by (simp add: slot_def)
      have idn: "cn_continuity_id a' = k" using remember_in_keeps [OF active(4), of i] active(3) by (simp add: generation_of_def)
      have "memory_of (remembered_in (cn_continuity_id s) w') s" if s: "slot tk j s" for j s
      proof (cases "s = a'")
        case True
        then show ?thesis using memory_remember [OF mem [OF old] active(4)] active(1,3) idn continuity_remember(1) by simp
      next
        case False
        with s active(5) have "slot (cw_tracker w) j s" "(j, s) \<noteq> (i, a) \<or> tk_closed (cw_tracker w) i = Some a"
          by (auto simp: slot_def split: if_splits)
        moreover have "tk_closed (cw_tracker w) i \<noteq> Some a"
          using generations_okD(6,7) [OF gens, of i a] active(2) by auto
        ultimately have "cn_continuity_id s \<noteq> k" using slot_unique [OF gens _ old, of j s] active(3) by auto
        then show ?thesis using mem [OF \<open>slot (cw_tracker w) j s\<close>] active(1) continuity_remember(1) by simp
      qed
      moreover have "k \<in> gn_id ` set (cw_generations w)"
        using slot_generation [OF gens old] active(3) by (force simp: generation_of_def)
      ultimately show ?thesis using ids active(1) continuity_remember(1) by (simp add: memory_ok_def)
    next
      case (former a a')
      then have old: "slot (cw_tracker w) i a" by (simp add: slot_def)
      have idn: "cn_continuity_id a' = k" using remember_in_keeps [OF former(4), of i] former(3) by (simp add: generation_of_def)
      have "memory_of (remembered_in (cn_continuity_id s) w') s" if s: "slot tk j s" for j s
      proof (cases "s = a'")
        case True
        then show ?thesis using memory_remember [OF mem [OF old] former(4)] former(1,3) idn continuity_remember(1) by simp
      next
        case False
        with s former(5) have "slot (cw_tracker w) j s" "(j, s) \<noteq> (i, a) \<or> tk_active (cw_tracker w) i = Some a"
          by (auto simp: slot_def split: if_splits)
        moreover have "tk_active (cw_tracker w) i \<noteq> Some a"
          using generations_okD(6,7) [OF gens, of i a] former(2) by auto
        ultimately have "cn_continuity_id s \<noteq> k" using slot_unique [OF gens _ old, of j s] former(3) by auto
        then show ?thesis using mem [OF \<open>slot (cw_tracker w) j s\<close>] former(1) continuity_remember(1) by simp
      qed
      moreover have "k \<in> gn_id ` set (cw_generations w)"
        using slot_generation [OF gens old] former(3) by (force simp: generation_of_def)
      ultimately show ?thesis using ids former(1) continuity_remember(1) by (simp add: memory_ok_def)
    qed
  next
    case continuity_reset
    then show ?thesis using ids by (simp add: memory_ok_def slot_def reset_tracker_def)
  next
    case (continuity_tick now)
    then show ?thesis using ok by (simp add: memory_ok_def)
  qed
qed

lemma memory_reachable: "continuity_step\<^sup>*\<^sup>* (fresh_continuity t0) w \<Longrightarrow> memory_ok w"
proof (induction rule: rtranclp_induct)
  case base
  show ?case by (simp add: fresh_continuity_def memory_ok_def slot_def)
qed (auto intro: memory_step generations_reachable)

section \<open>Properties\<close>

lemma resolve_record_cases:
  assumes "resolve_record i t tk = Some r"
  obtains (former) c x where "tk_closed tk i = Some c" "cn_closed_at c = Some x" "t \<le> x"
      "\<And>a. tk_active tk i = Some a \<Longrightarrow> t < cn_registered_at a" "r = resolution_of c"
  | (active) a where "tk_active tk i = Some a" "cn_registered_at a \<le> t" "r = (resolution_of a)\<lparr>cr_closed_at := None\<rparr>"
  using assms by (auto simp: resolve_record_def Let_def split: option.splits if_splits)

lemma open_generation_active:
  assumes "generations_ok w" and "g \<in> set (cw_generations w)" and "gn_closed g = None"
  obtains a where "tk_active (cw_tracker w) (gn_identity g) = Some a" "generation_of (gn_identity g) a = g"
proof -
  note D = generations_okD [OF assms(1)]
  from D(4) [OF assms(2,3)] obtain a where a: "tk_active (cw_tracker w) (gn_identity g) = Some a" "cn_continuity_id a = gn_id g"
    by auto
  have "generation_of (gn_identity g) a = g" using D(6) [OF a(1)] a(2) assms(2) D(1)
    by (auto simp: distinct_map inj_on_def generation_of_def)
  with a(1) show thesis by (rule that)
qed

text \<open>Every other generation opened by the start of the file ended before the one that is named.\<close>

lemma attribution_latest:
  assumes "generations_ok w" and "resolve_record i t (cw_tracker w) = Some r" and "cr_opened_at r = Some opened" and "opened \<le> t"
  shows "\<exists>s. slot (cw_tracker w) i s \<and> cr_previous_segment_id r = cn_last_segment_id s \<and> cn_continuity_id s = cr_continuity_id r
    \<and> generation_of i s \<in> set (cw_generations w) \<and> gn_opened (generation_of i s) = opened
    \<and> ends_after (gn_closed (generation_of i s)) (t - 1)
    \<and> (\<forall>h \<in> set (cw_generations w). gn_identity h = i \<and> gn_opened h \<le> t \<and> h \<noteq> generation_of i s \<longrightarrow> before h (generation_of i s))"
  using assms(2)
proof (cases rule: resolve_record_cases)
  note D = generations_okD [OF assms(1)]
  case (active a)
  note a = D(6) [OF active(1)]
  have "before h (generation_of i a)" if "h \<in> set (cw_generations w)" "gn_identity h = i" "h \<noteq> generation_of i a" for h
    using D(5) [OF that(1) a [THEN conjunct2]] that a by (auto simp: generation_of_def before_def)
  with a active assms(3) show ?thesis
    by (intro exI [of _ a]) (auto simp: generation_of_def resolution_of_def slot_def)
next
  note D = generations_okD [OF assms(1)]
  case (former c x)
  note c = D(7) [OF former(1)]
  have "before h (generation_of i c)"
    if h: "h \<in> set (cw_generations w)" "gn_identity h = i" "gn_opened h \<le> t" "h \<noteq> generation_of i c" for h
  proof -
    have "gn_closed h \<noteq> None"
    proof
      assume "gn_closed h = None"
      with assms(1) h(1) obtain a where a: "tk_active (cw_tracker w) (gn_identity h) = Some a" "generation_of (gn_identity h) a = h"
        by (rule open_generation_active)
      have "cn_registered_at a = gn_opened h" using arg_cong [OF a(2), of gn_opened] by (simp add: generation_of_def)
      with former(4) [of a] a(1) h(2,3) show False by simp
    qed
    moreover have "gn_id h \<noteq> cn_continuity_id c"
      using h(1,4) c D(1) by (auto simp: distinct_map inj_on_def generation_of_def)
    ultimately show ?thesis using D(8) [OF former(1) h(1,2)] by simp
  qed
  with c former assms(3) show ?thesis
    by (intro exI [of _ c]) (auto simp: generation_of_def resolution_of_def slot_def)
qed



text \<open>
  Stream 1 is observed from 0 to 10 seconds with segment 8 and again from 12 seconds; a file that
  started at 5 seconds is reported afterwards.
\<close>

definition example_stream :: stream_identity where
  "example_stream = \<lparr>si_vhost = ''v'', si_app = ''a'', si_stream = ''s''\<rparr>"

definition example_generation :: "uuid \<Rightarrow> instant \<Rightarrow> uuid option \<Rightarrow> instant option \<Rightarrow> continuity_state" where
  "example_generation k opened segment ended = \<lparr>cn_continuity_id = k, cn_registered_at = opened, cn_last_segment_id = segment,
     cn_last_segment_started_at = map_option (\<lambda>_. 0) segment, cn_closed_at = ended\<rparr>"


end
