(* ===== verification/CameraGroups.thy ===== *)
theory CameraGroups
  imports Retention
begin

text \<open>
  \<open>modules/cameras/groups.py\<close>: the tree of camera groups. Groups are created, renamed, moved under
  another parent, given members and deleted; every request runs in one transaction that is rolled
  back when an error is raised. The id of a new group is the \<open>uuid4()\<close> argument. Requests are
  applied one after the other.
\<close>

section \<open>The service\<close>

definition get_group :: "db \<Rightarrow> uuid \<Rightarrow> camera_group option" where
  "get_group d k = find (\<lambda>r. gr_id r = k) (db_groups d)"

definition add_group :: "camera_group \<Rightarrow> db \<Rightarrow> db" where
  "add_group g d = d\<lparr>db_groups := db_groups d @ [g]\<rparr>"

definition update_group :: "uuid \<Rightarrow> (camera_group \<Rightarrow> camera_group) \<Rightarrow> db \<Rightarrow> db" where
  "update_group k f d = d\<lparr>db_groups := map (\<lambda>r. if gr_id r = k then f r else r) (db_groups d)\<rparr>"

interpretation groups: keyed_table db_groups gr_id get_group add_group update_group
  by unfold_locales (simp_all add: get_group_def add_group_def update_group_def)

definition group_get :: "db \<Rightarrow> uuid \<Rightarrow> camera_group result" where
  "group_get d k = fetch_or_404 (get_group d k) ''camera_group_not_found''"

definition group_list :: "db \<Rightarrow> camera_group list" where
  "group_list d = sort_key (\<lambda>g. (gr_name g, gr_id g)) (db_groups d)"

definition group_camera_ids :: "db \<Rightarrow> uuid \<Rightarrow> uuid list" where
  "group_camera_ids d k = sort (map snd (filter (\<lambda>m. fst m = k) (db_members d)))"

text \<open>
  The loop of \<open>_validate_parent\<close>: from the proposed parent up to the root. It stops at a group it has
  seen before, so it ends on every table.
\<close>

function climb :: "db \<Rightarrow> uuid option \<Rightarrow> uuid \<Rightarrow> uuid list \<Rightarrow> unit result" where
  "climb d group_id k seen =
     (case get_group d k of
        None \<Rightarrow> Inr ()
      | Some current \<Rightarrow>
          if k \<in> set seen then Inl (ApiError 409 ''camera_group_hierarchy_invalid'')
          else if group_id = Some k then Inl (ApiError 400 ''camera_group_parent_cycle'')
          else (case gr_parent_id current of
                  None \<Rightarrow> Inr ()
                | Some p \<Rightarrow> climb d group_id p (k # seen)))"
  by pat_completeness auto

termination
proof (relation "measure (\<lambda>(d, group_id, k, seen). card (gr_id ` set (db_groups d) - set seen))")
  fix d :: db and group_id k and seen :: "uuid list" and current p
  assume "get_group d k = Some current" and fresh: "k \<notin> set seen"
  then have "k \<in> gr_id ` set (db_groups d) - set seen" using groups.get_Some [of d k current] by auto
  then have "card (gr_id ` set (db_groups d) - set (k # seen)) < card (gr_id ` set (db_groups d) - set seen)"
    by (intro psubset_card_mono) auto
  then show "((d, group_id, p, k # seen), d, group_id, k, seen)
    \<in> measure (\<lambda>(d, group_id, k, seen). card (gr_id ` set (db_groups d) - set seen))" by simp
qed simp

declare climb.simps [simp del]

definition validate_parent :: "db \<Rightarrow> uuid option \<Rightarrow> uuid option \<Rightarrow> unit result" where
  "validate_parent d parent_id group_id =
     (case parent_id of
        None \<Rightarrow> Inr ()
      | Some p \<Rightarrow>
          if group_id = Some p then Inl (ApiError 400 ''camera_group_parent_cycle'')
          else and_then (fetch_or_raise (get_group d p) 400 ''camera_group_parent_invalid'') (\<lambda>_.
                 climb d group_id p []))"

definition validate_camera_ids :: "db \<Rightarrow> uuid list \<Rightarrow> uuid list result" where
  "validate_camera_ids d camera_ids =
     (let normalized = sort (remdups camera_ids)
      in if list_all (\<lambda>k. k \<in> cam_id ` set (db_cameras d)) normalized then Inr normalized
         else Inl (ApiError 400 ''camera_group_camera_invalid''))"

definition replace_members :: "db \<Rightarrow> uuid \<Rightarrow> uuid list \<Rightarrow> db result" where
  "replace_members d group_id camera_ids =
     and_then (validate_camera_ids d camera_ids) (\<lambda>normalized.
     Inr (d\<lparr>db_members := filter (\<lambda>m. fst m \<noteq> group_id) (db_members d) @ map (Pair group_id) normalized\<rparr>))"

text \<open>The unique constraint on the name, checked at flush.\<close>

definition group_name_free :: "db \<Rightarrow> camera_group \<Rightarrow> unit result" where
  "group_name_free d g =
     require (\<not> list_ex (\<lambda>h. gr_name h = gr_name g \<and> gr_id h \<noteq> gr_id g) (db_groups d))
       (ApiError 409 ''camera_group_name_conflict'')"

definition text_or_none :: "string option \<Rightarrow> string option" where
  "text_or_none v = (case v of None \<Rightarrow> None | Some s \<Rightarrow> if py_strip s = [] then None else Some (py_strip s))"

definition group_create ::
    "db \<Rightarrow> uuid \<Rightarrow> string \<Rightarrow> string option \<Rightarrow> uuid option \<Rightarrow> uuid list \<Rightarrow> (db \<times> camera_group) result" where
  "group_create d group_id name description parent_id camera_ids =
     and_then (require (py_strip name \<noteq> []) (ApiError 400 ''camera_group_name_invalid'')) (\<lambda>_.
     and_then (validate_parent d parent_id None) (\<lambda>_.
     let g = \<lparr>gr_id = group_id, gr_name = py_strip name, gr_description = text_or_none description,
              gr_parent_id = parent_id\<rparr>
     in and_then (group_name_free d g) (\<lambda>_.
        and_then (replace_members (add_group g d) group_id camera_ids) (\<lambda>d'.
        Inr (d', g)))))"

text \<open>The keys present in the body of a PATCH; an inner \<open>None\<close> is an explicit null.\<close>

record group_changes =
  gc_name :: "string option option"
  gc_description :: "string option option"
  gc_parent_id :: "uuid option option"
  gc_camera_ids :: "uuid list option option"

definition changed_name :: "group_changes \<Rightarrow> camera_group \<Rightarrow> string result" where
  "changed_name c g =
     (case gc_name c of
        None \<Rightarrow> Inr (gr_name g)
      | Some None \<Rightarrow> Inl (ApiError 400 ''camera_group_name_invalid'')
      | Some (Some s) \<Rightarrow> if py_strip s = [] then Inl (ApiError 400 ''camera_group_name_invalid'')
                        else Inr (py_strip s))"

definition changed_parent :: "db \<Rightarrow> group_changes \<Rightarrow> camera_group \<Rightarrow> uuid option result" where
  "changed_parent d c g =
     (case gc_parent_id c of
        None \<Rightarrow> Inr (gr_parent_id g)
      | Some parent_id \<Rightarrow> and_then (validate_parent d parent_id (Some (gr_id g))) (\<lambda>_. Inr parent_id))"

definition changed_members :: "db \<Rightarrow> group_changes \<Rightarrow> uuid \<Rightarrow> db result" where
  "changed_members d c group_id =
     (case gc_camera_ids c of
        None \<Rightarrow> Inr d
      | Some None \<Rightarrow> Inl (ApiError 400 ''camera_group_camera_invalid'')
      | Some (Some camera_ids) \<Rightarrow> replace_members d group_id camera_ids)"

definition group_update :: "db \<Rightarrow> camera_group \<Rightarrow> group_changes \<Rightarrow> (db \<times> camera_group) result" where
  "group_update d g c =
     and_then (changed_name c g) (\<lambda>name.
     and_then (changed_parent d c g) (\<lambda>parent_id.
     let g' = g\<lparr>gr_name := name,
                gr_description := (case gc_description c of None \<Rightarrow> gr_description g | Some v \<Rightarrow> text_or_none v),
                gr_parent_id := parent_id\<rparr>
     in and_then (group_name_free d g') (\<lambda>_.
        and_then (changed_members (update_group (gr_id g) (\<lambda>_. g') d) c (gr_id g)) (\<lambda>d'.
        Inr (d', g')))))"

text \<open>The members of a deleted group go with it (\<open>ON DELETE CASCADE\<close>).\<close>

definition group_delete :: "db \<Rightarrow> camera_group \<Rightarrow> db result" where
  "group_delete d g =
     and_then (require (\<not> list_ex (\<lambda>h. gr_parent_id h = Some (gr_id g)) (db_groups d))
                 (ApiError 409 ''camera_group_has_children'')) (\<lambda>_.
     and_then (require (\<not> list_ex (\<lambda>e. se_target e = GroupTarget (gr_id g)) (db_scope_entries d))
                 (ApiError 409 ''camera_group_in_use'')) (\<lambda>_.
     Inr (d\<lparr>db_groups := filter (\<lambda>h. gr_id h \<noteq> gr_id g) (db_groups d),
            db_members := filter (\<lambda>m. fst m \<noteq> gr_id g) (db_members d)\<rparr>)))"

section \<open>The parent relation\<close>

definition parent_rel :: "db \<Rightarrow> (uuid \<times> uuid) set" where
  "parent_rel d = {(g, p). group_parent d g = Some p}"

lemma group_parent_get: "group_parent d k = (case get_group d k of None \<Rightarrow> None | Some g \<Rightarrow> gr_parent_id g)"
  by (simp add: group_parent_def get_group_def split: option.split)

lemma parent_rel_iff: "(g, p) \<in> parent_rel d \<longleftrightarrow> group_parent d g = Some p"
  by (simp add: parent_rel_def)

text \<open>What the requests keep: a forest of named groups whose members exist.\<close>

definition groups_ok :: "db \<Rightarrow> bool" where
  "groups_ok d \<longleftrightarrow>
     distinct (map gr_id (db_groups d)) \<and> distinct (map gr_name (db_groups d))
     \<and> (\<forall>g \<in> set (db_groups d). gr_name g \<noteq> [])
     \<and> (\<forall>k p. group_parent d k = Some p \<longrightarrow> get_group d p \<noteq> None)
     \<and> acyclic (parent_rel d)
     \<and> distinct (db_members d)
     \<and> (\<forall>m \<in> set (db_members d). get_group d (fst m) \<noteq> None \<and> get_camera d (snd m) \<noteq> None)"

lemma groups_okD:
  assumes "groups_ok d"
  shows "distinct (map gr_id (db_groups d))" "distinct (map gr_name (db_groups d))"
    "\<forall>g \<in> set (db_groups d). gr_name g \<noteq> []" "\<And>k p. group_parent d k = Some p \<Longrightarrow> get_group d p \<noteq> None"
    "acyclic (parent_rel d)" "distinct (db_members d)"
    "\<forall>m \<in> set (db_members d). get_group d (fst m) \<noteq> None \<and> get_camera d (snd m) \<noteq> None"
  using assms by (simp_all add: groups_ok_def)

lemma parent_rel_unknown:
  assumes "groups_ok d" and "get_group d g = None" and "(p, g) \<in> (parent_rel d)\<^sup>*"
  shows "p = g"
  using assms(3)
proof (cases rule: rtranclE)
  case (step q)
  then have "group_parent d q = Some g" by (simp add: parent_rel_iff)
  then show ?thesis using groups_okD(4) [OF assms(1)] assms(2) by blast
qed

text \<open>
  On a forest the loop accepts exactly the groups outside the subtree of the group that is moved, and
  never reports a broken hierarchy.
\<close>

lemma climb_forest:
  assumes "acyclic (parent_rel d)" and "\<And>k. group_id = Some k \<Longrightarrow> get_group d k \<noteq> None"
    and "\<And>s. s \<in> set seen \<Longrightarrow> (s, k) \<in> (parent_rel d)\<^sup>+"
  shows "climb d group_id k seen
    = (if \<exists>g. group_id = Some g \<and> (k, g) \<in> (parent_rel d)\<^sup>* then Inl (ApiError 400 ''camera_group_parent_cycle'')
       else Inr ())"
  using assms
proof (induction d group_id k seen rule: climb.induct)
  case (1 d group_id k seen)
  show ?case
  proof (cases "get_group d k")
    case None
    then have top: "group_parent d k = None" by (simp add: group_parent_get)
    have "\<not> (\<exists>g. group_id = Some g \<and> (k, g) \<in> (parent_rel d)\<^sup>*)"
    proof clarify
      fix g assume g: "group_id = Some g" "(k, g) \<in> (parent_rel d)\<^sup>*"
      have "k = g" using g(2) by (cases rule: converse_rtranclE) (simp_all add: parent_rel_iff top)
      then show False using "1.prems"(2) [OF g(1)] None by simp
    qed
    then show ?thesis using None by (subst climb.simps) simp
  next
    case (Some current)
    have unseen: "k \<notin> set seen" using "1.prems"(1,3) by (auto simp: acyclic_def)
    show ?thesis
    proof (cases "group_id = Some k")
      case True
      then show ?thesis using Some unseen by (subst climb.simps) simp
    next
      case other: False
      show ?thesis
      proof (cases "gr_parent_id current")
        case None
        then have top: "group_parent d k = None" using Some by (simp add: group_parent_get)
        have "\<not> (\<exists>g. group_id = Some g \<and> (k, g) \<in> (parent_rel d)\<^sup>*)"
          using other by (auto elim: converse_rtranclE simp: parent_rel_iff top)
        then show ?thesis using Some unseen other None by (subst climb.simps) simp
      next
        case p: (Some p)
        have edge: "(k, p) \<in> parent_rel d" using Some p by (simp add: parent_rel_iff group_parent_get)
        have "climb d group_id p (k # seen)
          = (if \<exists>g. group_id = Some g \<and> (p, g) \<in> (parent_rel d)\<^sup>* then Inl (ApiError 400 ''camera_group_parent_cycle'')
             else Inr ())"
        proof (rule "1.IH" [OF Some unseen other p "1.prems"(1,2)])
          fix s assume "s \<in> set (k # seen)"
          then show "(s, p) \<in> (parent_rel d)\<^sup>+" using edge "1.prems"(3) by (auto intro: trancl_into_trancl)
        qed
        moreover have "(k, g) \<in> (parent_rel d)\<^sup>* \<longleftrightarrow> (p, g) \<in> (parent_rel d)\<^sup>*" if "group_id = Some g" for g
        proof
          assume "(k, g) \<in> (parent_rel d)\<^sup>*"
          then show "(p, g) \<in> (parent_rel d)\<^sup>*" using other that edge
            by (cases rule: converse_rtranclE) (auto simp: parent_rel_iff)
        next
          assume "(p, g) \<in> (parent_rel d)\<^sup>*"
          with edge show "(k, g) \<in> (parent_rel d)\<^sup>*" by (rule converse_rtrancl_into_rtrancl)
        qed
        ultimately show ?thesis using Some unseen other p by (subst climb.simps) auto
      qed
    qed
  qed
qed

lemma validate_parent_forest:
  assumes "groups_ok d" and "\<And>k. group_id = Some k \<Longrightarrow> get_group d k \<noteq> None"
  shows "validate_parent d (Some p) group_id
    = (if \<exists>g. group_id = Some g \<and> (p, g) \<in> (parent_rel d)\<^sup>* then Inl (ApiError 400 ''camera_group_parent_cycle'')
       else if get_group d p = None then Inl (ApiError 400 ''camera_group_parent_invalid'') else Inr ())"
proof (cases "get_group d p")
  case None
  then have "group_parent d p = None" by (simp add: group_parent_get)
  then have "(p, g) \<in> (parent_rel d)\<^sup>* \<longleftrightarrow> p = g" for g
    by (auto elim: converse_rtranclE simp: parent_rel_iff)
  then show ?thesis using None by (auto simp: validate_parent_def fetch_or_raise_def)
next
  case (Some g)
  have "climb d group_id p []
    = (if \<exists>g. group_id = Some g \<and> (p, g) \<in> (parent_rel d)\<^sup>* then Inl (ApiError 400 ''camera_group_parent_cycle'')
       else Inr ())"
    using groups_okD(5) [OF assms(1)] assms(2) by (intro climb_forest) auto
  then show ?thesis using Some by (auto simp: validate_parent_def fetch_or_raise_def)
qed

section \<open>The requests keep the forest\<close>

lemma groups_frame [simp]:
  "db_members (add_group g d) = db_members d" "db_members (update_group k f d) = db_members d"
  "db_cameras (add_group g d) = db_cameras d" "db_cameras (update_group k f d) = db_cameras d"
  "db_scope_entries (add_group g d) = db_scope_entries d" "db_scope_entries (update_group k f d) = db_scope_entries d"
  "db_scopes (add_group g d) = db_scopes d" "db_scopes (update_group k f d) = db_scopes d"
  by (simp_all add: add_group_def update_group_def)

lemma get_group_members [simp]: "get_group (d\<lparr>db_members := ms\<rparr>) k = get_group d k"
  by (simp add: get_group_def)

lemma get_camera_frame [simp]:
  "get_camera (add_group g d) k = get_camera d k" "get_camera (update_group j f d) k = get_camera d k"
  "get_camera (d\<lparr>db_members := ms\<rparr>) k = get_camera d k" "get_camera (d\<lparr>db_groups := gs\<rparr>) k = get_camera d k"
  by (simp_all add: get_camera_def)

lemma parent_rel_members [simp]: "parent_rel (d\<lparr>db_members := ms\<rparr>) = parent_rel d"
  by (simp add: parent_rel_def group_parent_get)

lemma group_parent_members [simp]: "group_parent (d\<lparr>db_members := ms\<rparr>) k = group_parent d k"
  by (simp add: group_parent_get)

lemma replace_members_Inr:
  assumes "replace_members d k cams = Inr d'"
  shows "d' = d\<lparr>db_members := filter (\<lambda>m. fst m \<noteq> k) (db_members d) @ map (Pair k) (sort (remdups cams))\<rparr>
    \<and> (\<forall>c \<in> set cams. get_camera d c \<noteq> None)"
proof -
  have known: "c \<in> cam_id ` set (db_cameras d) \<Longrightarrow> get_camera d c \<noteq> None" for c
    by (auto simp: get_camera_def find_None_iff)
  show ?thesis using assms known
    by (auto simp: replace_members_def validate_camera_ids_def Let_def list_all_iff and_then_eq_Inr split: if_splits)
qed

lemma replace_members_ok:
  assumes "groups_ok d" and "get_group d k \<noteq> None" and "replace_members d k cams = Inr d'"
  shows "groups_ok d'"
proof -
  note r = replace_members_Inr [OF assms(3)]
  have "distinct (map (Pair k) (sort (remdups cams)))" by (simp add: distinct_map inj_on_def)
  then have "distinct (db_members d')" using r groups_okD(6) [OF assms(1)] by auto
  then show ?thesis using r assms(1,2) by (auto simp: groups_ok_def)
qed

lemma group_name_free_Inr:
  "group_name_free d g = Inr u \<longleftrightarrow> (\<forall>h \<in> set (db_groups d). gr_name h = gr_name g \<longrightarrow> gr_id h = gr_id g)"
  by (auto simp: group_name_free_def list_ex_iff)

lemma group_create_ok:
  assumes ok: "groups_ok d" and fresh: "get_group d k = None"
    and r: "group_create d k name description parent_id cams = Inr (d', g)"
  shows "groups_ok d' \<and> get_group d' k = Some g"
proof -
  from r have v: "py_strip name \<noteq> []" "validate_parent d parent_id None = Inr ()"
    "g = \<lparr>gr_id = k, gr_name = py_strip name, gr_description = text_or_none description, gr_parent_id = parent_id\<rparr>"
    "group_name_free d g = Inr ()" "replace_members (add_group g d) k cams = Inr d'"
    by (auto simp: group_create_def Let_def and_then_eq_Inr)
  let ?e = "add_group g d"
  have get: "get_group ?e j = (if j = k then Some g else get_group d j)" for j
    using groups.get_add [of d g j] fresh v(3) by simp
  have parent: "group_parent ?e j = (if j = k then parent_id else group_parent d j)" for j
    using arg_cong [OF v(3), of gr_parent_id] by (simp add: group_parent_get get)
  have known: "get_group d p \<noteq> None" if "parent_id = Some p" for p
    using v(2) that by (auto simp: validate_parent_def and_then_eq_Inr)
  have rel: "parent_rel ?e = (case parent_id of None \<Rightarrow> parent_rel d | Some p \<Rightarrow> insert (k, p) (parent_rel d))"
    using parent fresh by (auto simp: parent_rel_def group_parent_get split: option.splits if_splits)
  have "(p, k) \<notin> (parent_rel d)\<^sup>*" if "parent_id = Some p" for p
    using parent_rel_unknown [OF ok fresh, of p] known [OF that] fresh by blast
  then have "acyclic (parent_rel ?e)"
    using groups_okD(5) [OF ok] rel by (auto simp: acyclic_insert split: option.split)
  moreover have "distinct (map gr_id (db_groups ?e))"
    using groups_okD(1) [OF ok] fresh v(3) by (simp add: add_group_def groups.get_None_iff)
  moreover have "k \<notin> gr_id ` set (db_groups d)" using fresh by (simp add: groups.get_None_iff)
  then have "distinct (map gr_name (db_groups ?e))"
    using groups_okD(2) [OF ok] v(3,4) by (fastforce simp: add_group_def group_name_free_Inr)
  moreover have "\<forall>h \<in> set (db_groups ?e). gr_name h \<noteq> []" using groups_okD(3) [OF ok] v(1,3) by (simp add: add_group_def)
  moreover have "get_group ?e p \<noteq> None" if "group_parent ?e j = Some p" for j p
    using that groups_okD(4) [OF ok] known by (auto simp: parent get split: if_splits)
  moreover have "\<forall>m \<in> set (db_members ?e). get_group ?e (fst m) \<noteq> None \<and> get_camera ?e (snd m) \<noteq> None"
    using groups_okD(7) [OF ok] by (simp add: get)
  ultimately have "groups_ok ?e" using groups_okD(6) [OF ok] by (simp add: groups_ok_def)
  moreover have "get_group d' k = Some g" using replace_members_Inr [OF v(5)] get by simp
  ultimately show ?thesis using replace_members_ok [OF _ _ v(5)] get by simp
qed

lemma distinct_replace_one:
  assumes "distinct (map key xs)" and "distinct (map f xs)" and "\<forall>x \<in> set xs. f x = a \<longrightarrow> key x = k"
  shows "distinct (map (\<lambda>x. if key x = k then a else f x) xs)"
  using assms
proof (induction xs)
  case (Cons x xs)
  then have IH: "distinct (map (\<lambda>x. if key x = k then a else f x) xs)" by simp
  show ?case
  proof (cases "key x = k")
    case True
    then have "\<forall>y \<in> set xs. key y \<noteq> k" using Cons.prems(1) by (metis distinct.simps(2) list.simps(9) image_eqI list.set_map)
    then show ?thesis using Cons.prems IH True by auto
  next
    case False
    then have "f x \<noteq> a" "f x \<notin> f ` set xs" using Cons.prems(2,3) by auto
    then show ?thesis using IH False by auto
  qed
qed simp

lemma get_group_replace:
  assumes "gr_id g' = k"
  shows "get_group (update_group k (\<lambda>_. g') d) j
    = (if j = k then map_option (\<lambda>_. g') (get_group d k) else get_group d j)"
proof -
  define f where "f h = (if gr_id h = k then g' else h)" for h
  have "update_group k (\<lambda>_. g') d = update_group k f d" by (auto simp: update_group_def f_def)
  moreover have "map_option f (get_group d k) = map_option (\<lambda>_. g') (get_group d k)"
    using groups.get_Some [of d k] by (cases "get_group d k") (auto simp: f_def)
  moreover have "gr_id (f h) = gr_id h" for h using assms by (simp add: f_def)
  ultimately show ?thesis by (simp add: groups.get_upd)
qed

lemma group_update_cases:
  assumes "group_update d g c = Inr (d', g')"
  obtains "changed_name c g = Inr (gr_name g')" "changed_parent d c g = Inr (gr_parent_id g')" "gr_id g' = gr_id g"
    "group_name_free d g' = Inr ()" "changed_members (update_group (gr_id g) (\<lambda>_. g') d) c (gr_id g) = Inr d'"
  using assms unfolding group_update_def Let_def and_then_eq_Inr by auto

lemma group_update_ok:
  assumes ok: "groups_ok d" and g: "get_group d (gr_id g) = Some g" and r: "group_update d g c = Inr (d', g')"
  shows "groups_ok d' \<and> get_group d' (gr_id g) = Some g'"
  using r
proof (cases rule: group_update_cases)
  case v: 1
  let ?k = "gr_id g"
  let ?e = "update_group ?k (\<lambda>_. g') d"
  have rows: "db_groups ?e = map (\<lambda>h. if gr_id h = ?k then g' else h) (db_groups d)" by (simp add: update_group_def)
  have get: "get_group ?e j = (if j = ?k then Some g' else get_group d j)" for j
    using get_group_replace [OF v(3), of d j] g by simp
  have parent: "group_parent ?e j = (if j = ?k then gr_parent_id g' else group_parent d j)" for j
    by (simp add: group_parent_get get)
  have old: "gr_parent_id g' = gr_parent_id g \<or> validate_parent d (gr_parent_id g') (Some ?k) = Inr ()"
    using v(2) by (auto simp: changed_parent_def and_then_eq_Inr split: option.splits)
  have known: "get_group d p \<noteq> None" if "gr_parent_id g' = Some p" for p
    using old that groups_okD(4) [OF ok, of ?k p] g
    by (auto simp: group_parent_get validate_parent_def and_then_eq_Inr split: if_splits)
  have off: "parent_rel ?e \<subseteq> (case gr_parent_id g' of None \<Rightarrow> parent_rel d | Some p \<Rightarrow> insert (?k, p) (parent_rel d))"
    using parent by (auto simp: parent_rel_def split: option.splits if_splits)
  have "acyclic (parent_rel ?e)"
  proof (cases "gr_parent_id g' = gr_parent_id g")
    case True
    moreover have "group_parent d ?k = gr_parent_id g" using g by (simp add: group_parent_get)
    ultimately have "parent_rel ?e = parent_rel d" by (auto simp: parent_rel_def parent split: if_splits)
    then show ?thesis using groups_okD(5) [OF ok] by simp
  next
    case False
    have "(p, ?k) \<notin> (parent_rel d)\<^sup>*" if "gr_parent_id g' = Some p" for p
      using old False that validate_parent_forest [OF ok, of "Some ?k" p] g by (auto split: if_splits)
    then show ?thesis using off groups_okD(5) [OF ok]
      by (intro acyclic_subset [OF _ off]) (auto simp: acyclic_insert split: option.split)
  qed
  moreover have "distinct (map gr_id (db_groups ?e))"
  proof -
    have "map gr_id (db_groups ?e) = map gr_id (db_groups d)" using v(3) by (simp add: rows)
    then show ?thesis using groups_okD(1) [OF ok] by simp
  qed
  moreover have "distinct (map gr_name (db_groups ?e))"
  proof -
    have free: "\<forall>h \<in> set (db_groups d). gr_name h = gr_name g' \<longrightarrow> gr_id h = ?k"
      using v(3,4) by (simp add: group_name_free_Inr)
    have "map gr_name (db_groups ?e) = map (\<lambda>h. if gr_id h = ?k then gr_name g' else gr_name h) (db_groups d)"
      by (simp add: rows)
    then show ?thesis using distinct_replace_one [OF groups_okD(1,2) [OF ok] free] by simp
  qed
  moreover have "gr_name g' \<noteq> []"
    using v(1) groups_okD(3) [OF ok] groups.get_Some [OF g] by (auto simp: changed_name_def split: option.splits if_splits)
  then have "\<forall>h \<in> set (db_groups ?e). gr_name h \<noteq> []" using groups_okD(3) [OF ok] by (auto simp: rows)
  moreover have "get_group ?e p \<noteq> None" if "group_parent ?e j = Some p" for j p
    using that groups_okD(4) [OF ok] known by (auto simp: parent get split: if_splits)
  moreover have "\<forall>m \<in> set (db_members ?e). get_group ?e (fst m) \<noteq> None \<and> get_camera ?e (snd m) \<noteq> None"
    using groups_okD(7) [OF ok] by (simp add: get)
  ultimately have e: "groups_ok ?e" using groups_okD(6) [OF ok] by (simp add: groups_ok_def)
  show ?thesis
  proof (cases "gc_camera_ids c")
    case None
    then show ?thesis using v(5) e get by (simp add: changed_members_def)
  next
    case (Some ids)
    with v(5) obtain cams where m: "replace_members ?e ?k cams = Inr d'" by (auto simp: changed_members_def split: option.splits)
    moreover have "get_group d' ?k = Some g'" using replace_members_Inr [OF m] get by simp
    ultimately show ?thesis using replace_members_ok [OF e _ m] get by simp
  qed
qed

lemma group_delete_ok:
  assumes ok: "groups_ok d" and r: "group_delete d g = Inr d'"
  shows "groups_ok d'"
proof -
  let ?k = "gr_id g"
  from r have v: "\<forall>h \<in> set (db_groups d). gr_parent_id h \<noteq> Some ?k"
    "d' = d\<lparr>db_groups := filter (\<lambda>h. gr_id h \<noteq> ?k) (db_groups d), db_members := filter (\<lambda>m. fst m \<noteq> ?k) (db_members d)\<rparr>"
    by (auto simp: group_delete_def and_then_eq_Inr list_ex_iff)
  have "find (\<lambda>h. gr_id h = j) (filter (\<lambda>h. gr_id h \<noteq> ?k) hs) = (if j = ?k then None else find (\<lambda>h. gr_id h = j) hs)"
    for j and hs :: "camera_group list" by (induction hs) auto
  then have get: "get_group d' j = (if j = ?k then None else get_group d j)" for j
    using v(2) by (simp add: get_group_def)
  have parent: "group_parent d' j = (if j = ?k then None else group_parent d j)" for j
    by (simp add: group_parent_get get)
  have no_child: "group_parent d j \<noteq> Some ?k" for j
    using v(1) groups.get_Some [of d j] by (auto simp: group_parent_get split: option.splits)
  have "parent_rel d' \<subseteq> parent_rel d" using parent by (auto simp: parent_rel_def split: if_splits)
  then have "acyclic (parent_rel d')" using groups_okD(5) [OF ok] acyclic_subset by blast
  moreover have "get_group d' p \<noteq> None" if "group_parent d' j = Some p" for j p
    using that no_child [of j] groups_okD(4) [OF ok] by (auto simp: parent get split: if_splits)
  ultimately show ?thesis using ok v(2) get
    by (auto simp: groups_ok_def distinct_map_filter get_camera_def)
qed

end
