(* ===== verification/CameraScope.thy ===== *)
theory CameraScope
  imports CameraGroups
begin

text \<open>
  \<open>modules/auth/camera_scope.py\<close> and the camera check of \<open>modules/auth/dependencies.py\<close>: which cameras
  a principal may see. A scope belongs to a user or a role and grants all cameras, none, or selected
  cameras and groups with everything below them. The authenticated context (user, roles and
  permissions) is an argument; ids from \<open>uuid4()\<close> are arguments. Where the code iterates over a set
  the model takes the sorted order; the results do not depend on it.
\<close>

section \<open>The service\<close>

record effective_scope =
  es_all_cameras :: bool
  es_camera_ids :: "uuid set"

definition allows :: "effective_scope \<Rightarrow> uuid \<Rightarrow> bool" where
  "allows es camera_id = (es_all_cameras es \<or> camera_id \<in> es_camera_ids es)"

record scope_value =
  sv_mode :: string
  sv_camera_ids :: "uuid list"
  sv_group_ids :: "uuid list"

definition scope_of :: "db \<Rightarrow> string \<Rightarrow> uuid \<Rightarrow> camera_scope option" where
  "scope_of d principal_type principal_id =
     find (\<lambda>s. ps_principal_type s = principal_type \<and> ps_principal_id s = principal_id) (db_scopes d)"

text \<open>A new scope row passes the CHECK constraints and the unique constraint of the table.\<close>

definition ensure_scope :: "db \<Rightarrow> uuid \<Rightarrow> string \<Rightarrow> uuid \<Rightarrow> string \<Rightarrow> (db \<times> camera_scope) result" where
  "ensure_scope d scope_id principal_type principal_id mode =
     (case scope_of d principal_type principal_id of
        Some scope \<Rightarrow> Inr (d, scope)
      | None \<Rightarrow>
          let scope = \<lparr>ps_id = scope_id, ps_principal_type = principal_type, ps_principal_id = principal_id,
                       ps_scope_mode = mode\<rparr>
          in and_then (require (principal_type \<in> {''user'', ''role''} \<and> mode \<in> {''all'', ''selected'', ''none''})
                         IntegrityError) (\<lambda>_.
             Inr (d\<lparr>db_scopes := db_scopes d @ [scope]\<rparr>, scope)))"

definition camera_targets :: "scope_entry list \<Rightarrow> uuid list" where
  "camera_targets es = concat (map (\<lambda>e. case se_target e of CameraTarget c \<Rightarrow> [c] | GroupTarget _ \<Rightarrow> []) es)"

definition group_targets :: "scope_entry list \<Rightarrow> uuid list" where
  "group_targets es = concat (map (\<lambda>e. case se_target e of CameraTarget _ \<Rightarrow> [] | GroupTarget g \<Rightarrow> [g]) es)"

definition entries_of :: "db \<Rightarrow> uuid \<Rightarrow> scope_entry list" where
  "entries_of d scope_id = filter (\<lambda>e. se_scope_id e = scope_id) (db_scope_entries d)"

definition get_scope :: "db \<Rightarrow> string \<Rightarrow> uuid \<Rightarrow> scope_value option" where
  "get_scope d principal_type principal_id =
     (case scope_of d principal_type principal_id of
        None \<Rightarrow> None
      | Some scope \<Rightarrow>
          Some \<lparr>sv_mode = ps_scope_mode scope, sv_camera_ids = sort (camera_targets (entries_of d (ps_id scope))),
                sv_group_ids = sort (group_targets (entries_of d (ps_id scope)))\<rparr>)"

definition check_scope_request :: "db \<Rightarrow> string \<Rightarrow> uuid list \<Rightarrow> uuid list \<Rightarrow> unit result" where
  "check_scope_request d mode camera_ids group_ids =
     (if mode \<notin> {''all'', ''selected'', ''none''} then Inl (ApiError 400 ''invalid_camera_scope_mode'')
      else if mode \<noteq> ''selected'' \<and> (camera_ids \<noteq> [] \<or> group_ids \<noteq> [])
      then Inl (ApiError 400 ''camera_scope_entries_not_allowed'')
      else if \<not> list_all (\<lambda>k. get_camera d k \<noteq> None) camera_ids then Inl (ApiError 400 ''invalid_camera_ids'')
      else if \<not> list_all (\<lambda>k. get_group d k \<noteq> None) group_ids then Inl (ApiError 400 ''invalid_camera_group_ids'')
      else Inr ())"

definition new_entries :: "uuid \<Rightarrow> uuid list \<Rightarrow> uuid list \<Rightarrow> scope_entry list" where
  "new_entries scope_id camera_ids group_ids =
     map (\<lambda>c. \<lparr>se_scope_id = scope_id, se_target = CameraTarget c\<rparr>) (sort (remdups camera_ids))
     @ map (\<lambda>g. \<lparr>se_scope_id = scope_id, se_target = GroupTarget g\<rparr>) (sort (remdups group_ids))"

definition rewrite_scope :: "db \<Rightarrow> uuid \<Rightarrow> string \<Rightarrow> uuid list \<Rightarrow> uuid list \<Rightarrow> db" where
  "rewrite_scope d scope_id mode camera_ids group_ids =
     d\<lparr>db_scopes := map (\<lambda>s. if ps_id s = scope_id then s\<lparr>ps_scope_mode := mode\<rparr> else s) (db_scopes d),
       db_scope_entries := filter (\<lambda>e. se_scope_id e \<noteq> scope_id) (db_scope_entries d)
         @ (if mode = ''selected'' then new_entries scope_id camera_ids group_ids else [])\<rparr>"

definition set_scope ::
    "db \<Rightarrow> uuid \<Rightarrow> string \<Rightarrow> uuid \<Rightarrow> string \<Rightarrow> uuid list \<Rightarrow> uuid list \<Rightarrow> (db \<times> scope_value) result" where
  "set_scope d scope_id principal_type principal_id mode camera_ids group_ids =
     and_then (check_scope_request d mode camera_ids group_ids) (\<lambda>_.
     and_then (ensure_scope d scope_id principal_type principal_id mode) (\<lambda>(d1, scope).
     let d2 = rewrite_scope d1 (ps_id scope) mode camera_ids group_ids
     in case get_scope d2 principal_type principal_id of
          None \<Rightarrow> Inl AssertionError
        | Some value \<Rightarrow> Inr (d2, value)))"

text \<open>Deleting a scope deletes its entries (\<open>ON DELETE CASCADE\<close>).\<close>

definition clear_scope :: "db \<Rightarrow> string \<Rightarrow> uuid \<Rightarrow> db" where
  "clear_scope d principal_type principal_id =
     (case scope_of d principal_type principal_id of
        None \<Rightarrow> d
      | Some scope \<Rightarrow>
          d\<lparr>db_scopes := filter (\<lambda>s. ps_id s \<noteq> ps_id scope) (db_scopes d),
            db_scope_entries := filter (\<lambda>e. se_scope_id e \<noteq> ps_id scope) (db_scope_entries d)\<rparr>)"

definition child_groups :: "db \<Rightarrow> uuid \<Rightarrow> uuid list" where
  "child_groups d k = map gr_id (filter (\<lambda>g. gr_parent_id g = Some k) (db_groups d))"

text \<open>The loop of \<open>_expand_group_camera_ids\<close>; the end of the \<open>pending\<close> list is the head here.\<close>

function expand_groups :: "db \<Rightarrow> uuid list \<Rightarrow> uuid list \<Rightarrow> uuid list" where
  "expand_groups d [] expanded = expanded"
| "expand_groups d (k # pending) expanded =
     (if k \<in> set expanded then expand_groups d pending expanded
      else expand_groups d (child_groups d k @ pending) (k # expanded))"
  by pat_completeness auto

termination
proof (relation "measures [\<lambda>(d, pending, expanded). card ((gr_id ` set (db_groups d) \<union> set pending) - set expanded),
    \<lambda>(d, pending, expanded). length pending]")
  fix d :: db and k :: uuid and pending expanded :: "uuid list"
  let ?M = "measures [\<lambda>(d, pending, expanded). card ((gr_id ` set (db_groups d) \<union> set pending) - set expanded),
    \<lambda>(d, pending, expanded). length pending]"
  let ?ids = "gr_id ` set (db_groups d)"
  show "((d, pending, expanded), d, k # pending, expanded) \<in> ?M"
    using card_mono [of "(?ids \<union> set (k # pending)) - set expanded" "(?ids \<union> set pending) - set expanded"]
    by (auto simp: le_less)
  assume fresh: "k \<notin> set expanded"
  have "set (child_groups d k) \<subseteq> ?ids" by (auto simp: child_groups_def)
  then have "(?ids \<union> set (child_groups d k @ pending)) - set (k # expanded)
      \<subset> (?ids \<union> set (k # pending)) - set expanded" using fresh by auto
  then have "card ((?ids \<union> set (child_groups d k @ pending)) - set (k # expanded))
      < card ((?ids \<union> set (k # pending)) - set expanded)" by (intro psubset_card_mono) auto
  then show "((d, child_groups d k @ pending, k # expanded), d, k # pending, expanded) \<in> ?M" by simp
qed simp

definition expand_group_camera_ids :: "db \<Rightarrow> uuid list \<Rightarrow> uuid set" where
  "expand_group_camera_ids d selected =
     (let expanded = expand_groups d selected []
      in set (map snd (filter (\<lambda>m. fst m \<in> set expanded) (db_members d))))"

definition camera_ids_for_scope :: "db \<Rightarrow> scope_value \<Rightarrow> effective_scope" where
  "camera_ids_for_scope d v =
     (if sv_mode v = ''all'' then \<lparr>es_all_cameras = True, es_camera_ids = {}\<rparr>
      else if sv_mode v = ''none'' then \<lparr>es_all_cameras = False, es_camera_ids = {}\<rparr>
      else \<lparr>es_all_cameras = False,
            es_camera_ids = set (sv_camera_ids v) \<union> expand_group_camera_ids d (sv_group_ids v)\<rparr>)"

fun combine_roles :: "db \<Rightarrow> uuid list \<Rightarrow> uuid set \<Rightarrow> effective_scope" where
  "combine_roles d [] combined = \<lparr>es_all_cameras = False, es_camera_ids = combined\<rparr>"
| "combine_roles d (role_id # role_ids) combined =
     (case get_scope d ''role'' role_id of
        None \<Rightarrow> combine_roles d role_ids combined
      | Some v \<Rightarrow>
          let effective = camera_ids_for_scope d v
          in if es_all_cameras effective then effective
             else combine_roles d role_ids (combined \<union> es_camera_ids effective))"

definition effective_scope_of :: "db \<Rightarrow> uuid \<Rightarrow> uuid list \<Rightarrow> effective_scope" where
  "effective_scope_of d user_id role_ids =
     (case get_scope d ''user'' user_id of
        Some v \<Rightarrow> camera_ids_for_scope d v
      | None \<Rightarrow> combine_roles d role_ids {})"

record auth_context =
  ac_user_id :: uuid
  ac_role_ids :: "uuid list"
  ac_permissions :: "string list"

definition require_permission :: "auth_context \<Rightarrow> string \<Rightarrow> unit result" where
  "require_permission context permission =
     require (permission \<in> set (ac_permissions context)) (ApiError 403 ''permission_denied'')"

definition require_camera_permission :: "db \<Rightarrow> auth_context \<Rightarrow> string \<Rightarrow> uuid \<Rightarrow> unit result" where
  "require_camera_permission d context permission camera_id =
     and_then (require_permission context permission) (\<lambda>_.
     require (allows (effective_scope_of d (ac_user_id context) (ac_role_ids context)) camera_id)
       (ApiError 404 ''camera_not_found''))"

section \<open>The subtree of a group\<close>

lemma child_groups_iff:
  assumes "distinct (map gr_id (db_groups d))"
  shows "h \<in> set (child_groups d k) \<longleftrightarrow> (h, k) \<in> parent_rel d"
proof
  assume "h \<in> set (child_groups d k)"
  then obtain g where g: "g \<in> set (db_groups d)" "gr_parent_id g = Some k" "h = gr_id g" by (auto simp: child_groups_def)
  with groups.get_unique [OF assms g(1)] show "(h, k) \<in> parent_rel d" by (simp add: parent_rel_iff group_parent_get)
next
  assume "(h, k) \<in> parent_rel d"
  then obtain g where "get_group d h = Some g" "gr_parent_id g = Some k"
    by (auto simp: parent_rel_iff group_parent_get split: option.splits)
  then show "h \<in> set (child_groups d k)" using groups.get_Some [of d h g] by (force simp: child_groups_def)
qed

lemma expand_supset: "set expanded \<union> set pending \<subseteq> set (expand_groups d pending expanded)"
  by (induction d pending expanded rule: expand_groups.induct) auto

lemma expand_closed:
  assumes "\<And>k. k \<in> set expanded \<Longrightarrow> set (child_groups d k) \<subseteq> set expanded \<union> set pending"
  shows "k \<in> set (expand_groups d pending expanded) \<Longrightarrow> set (child_groups d k) \<subseteq> set (expand_groups d pending expanded)"
  using assms
proof (induction d pending expanded rule: expand_groups.induct)
  case (1 d expanded)
  then show ?case by force
next
  case (2 d j pending expanded)
  show ?case
  proof (cases "j \<in> set expanded")
    case True
    have "k' \<in> set expanded \<Longrightarrow> set (child_groups d k') \<subseteq> set expanded \<union> set pending" for k'
      using "2.prems"(2) [of k'] True by auto
    then show ?thesis using "2.IH"(1) [OF True] "2.prems"(1) True by simp
  next
    case False
    have "k' \<in> set (j # expanded) \<Longrightarrow>
        set (child_groups d k') \<subseteq> set (j # expanded) \<union> set (child_groups d j @ pending)" for k'
      using "2.prems"(2) [of k'] by auto
    then show ?thesis using "2.IH"(2) [OF False] "2.prems"(1) False by simp
  qed
qed

lemma expand_sound:
  assumes "distinct (map gr_id (db_groups d))"
  shows "h \<in> set (expand_groups d pending expanded) \<Longrightarrow>
    h \<in> set expanded \<or> (\<exists>g \<in> set pending. (h, g) \<in> (parent_rel d)\<^sup>*)"
  using assms
proof (induction d pending expanded rule: expand_groups.induct)
  case (2 d k pending expanded)
  show ?case
  proof (cases "k \<in> set expanded")
    case True
    then show ?thesis using 2 by auto
  next
    case False
    from "2.IH"(2) [OF False] "2.prems" False consider "h \<in> set (k # expanded)"
      | g where "g \<in> set (child_groups d k)" "(h, g) \<in> (parent_rel d)\<^sup>*"
      | g where "g \<in> set pending" "(h, g) \<in> (parent_rel d)\<^sup>*" by auto
    then show ?thesis
    proof cases
      case (2 g)
      then have "(g, k) \<in> parent_rel d" using "2.prems"(2) by (simp add: child_groups_iff)
      then have "(h, k) \<in> (parent_rel d)\<^sup>*" using 2(2) by (rule rtrancl_into_rtrancl [rotated])
      then show ?thesis by auto
    qed auto
  qed
qed simp

lemma expand_groups_iff:
  assumes "distinct (map gr_id (db_groups d))"
  shows "h \<in> set (expand_groups d selected []) \<longleftrightarrow> (\<exists>g \<in> set selected. (h, g) \<in> (parent_rel d)\<^sup>*)"
proof
  assume "h \<in> set (expand_groups d selected [])"
  then show "\<exists>g \<in> set selected. (h, g) \<in> (parent_rel d)\<^sup>*" using expand_sound [OF assms, of h selected "[]"] by simp
next
  assume "\<exists>g \<in> set selected. (h, g) \<in> (parent_rel d)\<^sup>*"
  then obtain g where g: "g \<in> set selected" "(h, g) \<in> (parent_rel d)\<^sup>*" by blast
  from g(2) show "h \<in> set (expand_groups d selected [])"
  proof (induction rule: converse_rtrancl_induct)
    case base
    then show ?case using g(1) expand_supset [of "[]" selected d] by auto
  next
    case (step a b)
    then show ?case using expand_closed [of "[]" d selected b] child_groups_iff [OF assms, of a b] by auto
  qed
qed

text \<open>What a scope grants, said without the loops.\<close>

definition below :: "db \<Rightarrow> uuid \<Rightarrow> uuid \<Rightarrow> bool" where
  "below d g h \<longleftrightarrow> (h, g) \<in> (parent_rel d)\<^sup>*"

definition grants :: "db \<Rightarrow> scope_value \<Rightarrow> uuid \<Rightarrow> bool" where
  "grants d v c \<longleftrightarrow> sv_mode v = ''all''
     \<or> sv_mode v \<noteq> ''none'' \<and> (c \<in> set (sv_camera_ids v)
          \<or> (\<exists>g \<in> set (sv_group_ids v). \<exists>h. below d g h \<and> (h, c) \<in> set (db_members d)))"

lemma expand_camera_iff:
  assumes "distinct (map gr_id (db_groups d))"
  shows "c \<in> expand_group_camera_ids d selected
    \<longleftrightarrow> (\<exists>g \<in> set selected. \<exists>h. below d g h \<and> (h, c) \<in> set (db_members d))"
proof -
  have "c \<in> expand_group_camera_ids d selected
    \<longleftrightarrow> (\<exists>h. (h, c) \<in> set (db_members d) \<and> h \<in> set (expand_groups d selected []))"
    by (force simp: expand_group_camera_ids_def Let_def)
  then show ?thesis by (auto simp: expand_groups_iff [OF assms] below_def)
qed

lemma allows_scope:
  assumes "distinct (map gr_id (db_groups d))"
  shows "allows (camera_ids_for_scope d v) c \<longleftrightarrow> grants d v c"
  by (auto simp: camera_ids_for_scope_def allows_def grants_def expand_camera_iff [OF assms])

lemma allows_roles:
  assumes "distinct (map gr_id (db_groups d))"
  shows "allows (combine_roles d role_ids combined) c
    \<longleftrightarrow> c \<in> combined \<or> (\<exists>r \<in> set role_ids. \<exists>v. get_scope d ''role'' r = Some v \<and> grants d v c)"
proof (induction role_ids arbitrary: combined)
  case Nil
  then show ?case by (simp add: allows_def)
next
  case (Cons r rs)
  show ?case
  proof (cases "get_scope d ''role'' r")
    case None
    then show ?thesis using Cons by simp
  next
    case (Some v)
    note g = allows_scope [OF assms, of v c]
    show ?thesis
    proof (cases "es_all_cameras (camera_ids_for_scope d v)")
      case True
      then show ?thesis using Some g by (auto simp: allows_def Let_def)
    next
      case False
      then show ?thesis using Some g Cons by (auto simp: allows_def Let_def)
    qed
  qed
qed

section \<open>Requests on groups and scopes\<close>

definition target_known :: "db \<Rightarrow> scope_target \<Rightarrow> bool" where
  "target_known d t = (case t of CameraTarget c \<Rightarrow> get_camera d c \<noteq> None | GroupTarget g \<Rightarrow> get_group d g \<noteq> None)"

definition scopes_ok :: "db \<Rightarrow> bool" where
  "scopes_ok d \<longleftrightarrow>
     distinct (map ps_id (db_scopes d)) \<and> distinct (map (\<lambda>s. (ps_principal_type s, ps_principal_id s)) (db_scopes d))
     \<and> distinct (db_scope_entries d)
     \<and> (\<forall>s \<in> set (db_scopes d). ps_scope_mode s \<in> {''all'', ''selected'', ''none''})
     \<and> (\<forall>e \<in> set (db_scope_entries d). target_known d (se_target e)
          \<and> (\<exists>s \<in> set (db_scopes d). ps_id s = se_scope_id e \<and> ps_scope_mode s = ''selected''))"

lemma scopes_ok_entry:
  assumes "scopes_ok d" and "e \<in> set (db_scope_entries d)"
  shows "target_known d (se_target e) \<and> (\<exists>s \<in> set (db_scopes d). ps_id s = se_scope_id e \<and> ps_scope_mode s = ''selected'')"
  using assms by (simp add: scopes_ok_def)

inductive access_step :: "db \<Rightarrow> db \<Rightarrow> bool" where
  access_group_create: "\<lbrakk>group_create d k name description parent_id cams = Inr (d', g); get_group d k = None\<rbrakk>
    \<Longrightarrow> access_step d d'"
| access_group_update: "\<lbrakk>get_group d k = Some g; group_update d g c = Inr (d', g')\<rbrakk> \<Longrightarrow> access_step d d'"
| access_group_delete: "\<lbrakk>get_group d k = Some g; group_delete d g = Inr d'\<rbrakk> \<Longrightarrow> access_step d d'"
| access_scope_ensure: "\<lbrakk>ensure_scope d k principal_type principal_id mode = Inr (d', s); k \<notin> ps_id ` set (db_scopes d)\<rbrakk>
    \<Longrightarrow> access_step d d'"
| access_scope_set: "\<lbrakk>set_scope d k principal_type principal_id mode cams gs = Inr (d', v); k \<notin> ps_id ` set (db_scopes d)\<rbrakk>
    \<Longrightarrow> access_step d d'"
| access_scope_clear: "access_step d (clear_scope d principal_type principal_id)"

inductive_cases access_stepE: "access_step d d'"

text \<open>Group requests leave scopes alone and keep the groups a scope refers to.\<close>

lemma scopes_ok_transfer:
  assumes "scopes_ok d" and "db_scopes d' = db_scopes d" and "db_scope_entries d' = db_scope_entries d"
    and "db_cameras d' = db_cameras d"
    and "\<And>g. get_group d g \<noteq> None \<Longrightarrow> (\<exists>e \<in> set (db_scope_entries d). se_target e = GroupTarget g) \<Longrightarrow> get_group d' g \<noteq> None"
  shows "scopes_ok d'"
proof -
  have cam: "get_camera d' c = get_camera d c" for c by (simp add: get_camera_def assms(4))
  have "target_known d' (se_target e)" if e: "e \<in> set (db_scope_entries d)" for e
  proof -
    have "target_known d (se_target e)" using e assms(1) by (simp add: scopes_ok_def)
    then show ?thesis using e assms(5) by (cases "se_target e") (auto simp: target_known_def cam)
  qed
  then show ?thesis using assms(1-3) by (auto simp: scopes_ok_def)
qed

lemma replace_members_frame:
  "replace_members d k cams = Inr d' \<Longrightarrow> db_scopes d' = db_scopes d \<and> db_scope_entries d' = db_scope_entries d
     \<and> db_cameras d' = db_cameras d \<and> get_group d' j = get_group d j"
  by (drule replace_members_Inr) simp

lemma group_create_frame:
  assumes "group_create d k name description parent_id cams = Inr (d', g)" and "get_group d k = None"
  shows "db_scopes d' = db_scopes d \<and> db_scope_entries d' = db_scope_entries d \<and> db_cameras d' = db_cameras d
    \<and> (get_group d j \<noteq> None \<longrightarrow> get_group d' j = get_group d j)"
proof -
  from assms(1) have g: "gr_id g = k" and r: "replace_members (add_group g d) k cams = Inr d'"
    by (auto simp: group_create_def Let_def and_then_eq_Inr)
  show ?thesis using replace_members_frame [OF r, of j] groups.get_add [of d g j] assms(2) g by auto
qed

lemma group_update_frame:
  assumes "get_group d k = Some g" and "group_update d g c = Inr (d', g')"
  shows "db_scopes d' = db_scopes d \<and> db_scope_entries d' = db_scope_entries d \<and> db_cameras d' = db_cameras d
    \<and> (get_group d' j = None \<longleftrightarrow> get_group d j = None)"
  using assms(2)
proof (cases rule: group_update_cases)
  case 1
  let ?e = "update_group (gr_id g) (\<lambda>_. g') d"
  have e: "get_group ?e j = None \<longleftrightarrow> get_group d j = None"
    using get_group_replace [OF 1(3), of d j] by simp
  show ?thesis
  proof (cases "gc_camera_ids c")
    case None
    then show ?thesis using 1(5) e by (auto simp: changed_members_def)
  next
    case (Some ids)
    with 1(5) obtain cams where "replace_members ?e (gr_id g) cams = Inr d'" by (auto simp: changed_members_def split: option.splits)
    from replace_members_frame [OF this, of j] show ?thesis using e by simp
  qed
qed

lemma group_delete_frame:
  assumes "group_delete d g = Inr d'"
  shows "db_scopes d' = db_scopes d \<and> db_scope_entries d' = db_scope_entries d \<and> db_cameras d' = db_cameras d
    \<and> (\<forall>e \<in> set (db_scope_entries d). se_target e \<noteq> GroupTarget (gr_id g))
    \<and> (j \<noteq> gr_id g \<longrightarrow> get_group d j \<noteq> None \<longrightarrow> get_group d' j \<noteq> None)"
  using assms by (auto simp: group_delete_def and_then_eq_Inr list_ex_iff get_group_def find_None_iff)

lemma ensure_scope_cases:
  assumes "ensure_scope d k principal_type principal_id mode = Inr (d', s)"
  obtains (present) "scope_of d principal_type principal_id = Some s" "d' = d"
  | (added) "scope_of d principal_type principal_id = None" "mode \<in> {''all'', ''selected'', ''none''}"
      "s = \<lparr>ps_id = k, ps_principal_type = principal_type, ps_principal_id = principal_id, ps_scope_mode = mode\<rparr>"
      "d' = d\<lparr>db_scopes := db_scopes d @ [s]\<rparr>"
  using assms by (auto simp: ensure_scope_def Let_def and_then_eq_Inr split: option.splits)

lemma scope_of_Some:
  "scope_of d principal_type principal_id = Some s \<Longrightarrow>
   s \<in> set (db_scopes d) \<and> ps_principal_type s = principal_type \<and> ps_principal_id s = principal_id"
  by (auto simp: scope_of_def find_Some_iff)

lemma scope_of_None:
  "scope_of d principal_type principal_id = None \<longleftrightarrow>
   (principal_type, principal_id) \<notin> (\<lambda>s. (ps_principal_type s, ps_principal_id s)) ` set (db_scopes d)"
  by (auto simp: scope_of_def find_None_iff)

lemma target_known_scopes [simp]:
  "target_known (d\<lparr>db_scopes := ss\<rparr>) t = target_known d t" "target_known (d\<lparr>db_scope_entries := es\<rparr>) t = target_known d t"
  by (simp_all add: target_known_def get_camera_def get_group_def split: scope_target.split)

lemma ensure_scope_ok:
  assumes "scopes_ok d" and "ensure_scope d k principal_type principal_id mode = Inr (d', s)" and "k \<notin> ps_id ` set (db_scopes d)"
  shows "scopes_ok d' \<and> scope_of d' principal_type principal_id = Some s \<and> s \<in> set (db_scopes d')
    \<and> db_groups d' = db_groups d \<and> db_members d' = db_members d \<and> db_cameras d' = db_cameras d
    \<and> db_scope_entries d' = db_scope_entries d
    \<and> (\<forall>u \<in> set (db_scopes d'). u = s \<or> u \<in> set (db_scopes d))"
  using assms(2)
proof (cases rule: ensure_scope_cases)
  case present
  then show ?thesis using assms(1) scope_of_Some by blast
next
  case added
  have "find P (xs @ ys) = (case find P xs of None \<Rightarrow> find P ys | Some z \<Rightarrow> Some z)" for P and xs ys :: "camera_scope list"
    by (induction xs) auto
  then have "scope_of d' principal_type principal_id = Some s" using added by (simp add: scope_of_def)
  moreover have "scopes_ok d'" using assms(1,3) added scope_of_None [of d principal_type principal_id]
    by (auto simp: scopes_ok_def)
  ultimately show ?thesis using added by simp
qed

lemma scope_of_map:
  assumes "\<And>s. ps_principal_type (f s) = ps_principal_type s \<and> ps_principal_id (f s) = ps_principal_id s"
  shows "scope_of (d\<lparr>db_scopes := map f (db_scopes d), db_scope_entries := es\<rparr>) t p = map_option f (scope_of d t p)"
proof -
  have "find (\<lambda>s. ps_principal_type s = t \<and> ps_principal_id s = p) (map f ss)
      = map_option f (find (\<lambda>s. ps_principal_type s = t \<and> ps_principal_id s = p) ss)" for ss
    by (induction ss) (auto simp: assms)
  then show ?thesis by (simp add: scope_of_def)
qed

lemma scope_of_rewrite:
  "scope_of (rewrite_scope d k mode cams gs) t p
   = map_option (\<lambda>s. if ps_id s = k then s\<lparr>ps_scope_mode := mode\<rparr> else s) (scope_of d t p)"
  unfolding rewrite_scope_def by (rule scope_of_map) simp

lemma entries_of_rewrite:
  "entries_of (rewrite_scope d k mode cams gs) j
   = (if j \<noteq> k then entries_of d j else if mode = ''selected'' then new_entries k cams gs else [])"
proof -
  have "filter (\<lambda>e. se_scope_id e = j) (new_entries k cams gs) = (if j = k then new_entries k cams gs else [])"
    by (auto simp: new_entries_def filter_map o_def)
  moreover have "filter (\<lambda>e. se_scope_id e = j) (filter (\<lambda>e. se_scope_id e \<noteq> k) es)
      = (if j = k then [] else filter (\<lambda>e. se_scope_id e = j) es)" for es :: "scope_entry list"
    by (induction es) auto
  ultimately show ?thesis by (cases "j = k") (simp_all add: entries_of_def rewrite_scope_def)
qed

lemma new_entries_targets:
  "camera_targets (new_entries k cams gs) = sort (remdups cams)" "group_targets (new_entries k cams gs) = sort (remdups gs)"
  by (simp_all add: camera_targets_def group_targets_def new_entries_def o_def)

lemma targets_empty [simp]: "camera_targets [] = []" "group_targets [] = []"
  by (simp_all add: camera_targets_def group_targets_def)

lemma check_scope_request_Inr:
  "check_scope_request d mode cams gs = Inr u \<longleftrightarrow> mode \<in> {''all'', ''selected'', ''none''}
     \<and> (mode \<noteq> ''selected'' \<longrightarrow> cams = [] \<and> gs = [])
     \<and> (\<forall>c \<in> set cams. get_camera d c \<noteq> None) \<and> (\<forall>g \<in> set gs. get_group d g \<noteq> None)"
  by (auto simp: check_scope_request_def list_all_iff)

lemma set_scope_cases:
  assumes "set_scope d k t p mode cams gs = Inr (d', v)"
  obtains d1 s where "check_scope_request d mode cams gs = Inr ()" "ensure_scope d k t p mode = Inr (d1, s)"
    "d' = rewrite_scope d1 (ps_id s) mode cams gs" "get_scope d' t p = Some v"
  using assms unfolding set_scope_def and_then_eq_Inr Let_def by (fastforce split: option.splits)

lemma distinct_new_entries: "distinct (new_entries k cams gs)"
  by (auto simp: new_entries_def distinct_map inj_on_def)

lemma set_scope_ok:
  assumes ok: "scopes_ok d" and fresh: "k \<notin> ps_id ` set (db_scopes d)" and r: "set_scope d k t p mode cams gs = Inr (d', v)"
  shows "scopes_ok d' \<and> db_groups d' = db_groups d \<and> db_members d' = db_members d \<and> db_cameras d' = db_cameras d"
  using r
proof (cases rule: set_scope_cases)
  case v: (1 d1 s)
  note e = ensure_scope_ok [OF ok v(2) fresh]
  let ?f = "\<lambda>u. if ps_id u = ps_id s then u\<lparr>ps_scope_mode := mode\<rparr> else u"
  have scopes: "db_scopes d' = map ?f (db_scopes d1)"
    and entries: "set (db_scope_entries d') = {e \<in> set (db_scope_entries d1). se_scope_id e \<noteq> ps_id s}
      \<union> (if mode = ''selected'' then set (new_entries (ps_id s) cams gs) else {})"
    and frame: "db_groups d' = db_groups d" "db_members d' = db_members d" "db_cameras d' = db_cameras d"
    using v(3) e by (auto simp: rewrite_scope_def)
  have known: "target_known d' t = target_known d1 t" for t
    using frame e by (auto simp: target_known_def get_camera_def get_group_def split: scope_target.split)
  have c: "mode \<in> {''all'', ''selected'', ''none''}" "\<forall>c \<in> set cams. get_camera d1 c \<noteq> None" "\<forall>g \<in> set gs. get_group d1 g \<noteq> None"
    using v(1) e by (auto simp: check_scope_request_Inr get_camera_def get_group_def)
  have "target_known d' (se_target e) \<and> (\<exists>u \<in> set (db_scopes d'). ps_id u = se_scope_id e \<and> ps_scope_mode u = ''selected'')"
    if member: "e \<in> set (db_scope_entries d')" for e
  proof (cases "se_scope_id e = ps_id s")
    case True
    then have m: "mode = ''selected''" "e \<in> set (new_entries (ps_id s) cams gs)" using member entries by (auto split: if_splits)
    then have "target_known d1 (se_target e)" using c by (auto simp: new_entries_def target_known_def)
    moreover have "?f s \<in> set (db_scopes d')" using scopes e by auto
    ultimately show ?thesis using m(1) True known by (auto intro!: bexI [of _ "?f s"])
  next
    case False
    then have "e \<in> set (db_scope_entries d1)" using member entries by (auto simp: new_entries_def split: if_splits)
    then obtain u where u: "target_known d1 (se_target e)" "u \<in> set (db_scopes d1)" "ps_id u = se_scope_id e" "ps_scope_mode u = ''selected''"
      using e scopes_ok_entry [of d1 e] by blast
    then have "?f u \<in> set (db_scopes d')" "?f u = u" using scopes False by auto
    then show ?thesis using u known by auto
  qed
  moreover have "distinct (db_scope_entries d')"
    using v(3) e distinct_new_entries [of "ps_id s" cams gs] by (auto simp: rewrite_scope_def scopes_ok_def new_entries_def)
  moreover have "map ps_id (db_scopes d') = map ps_id (db_scopes d1)"
    "map (\<lambda>s. (ps_principal_type s, ps_principal_id s)) (db_scopes d') = map (\<lambda>s. (ps_principal_type s, ps_principal_id s)) (db_scopes d1)"
    by (auto simp: scopes)
  moreover have "\<forall>u \<in> set (db_scopes d'). ps_scope_mode u \<in> {''all'', ''selected'', ''none''}"
    using e c(1) by (auto simp: scopes scopes_ok_def)
  ultimately show ?thesis using e frame by (simp add: scopes_ok_def)
qed

lemma clear_scope_ok:
  assumes "scopes_ok d"
  shows "scopes_ok (clear_scope d t p) \<and> db_groups (clear_scope d t p) = db_groups d
    \<and> db_members (clear_scope d t p) = db_members d \<and> db_cameras (clear_scope d t p) = db_cameras d"
proof (cases "scope_of d t p")
  case None
  then show ?thesis using assms by (simp add: clear_scope_def)
next
  case (Some s)
  let ?d = "clear_scope d t p"
  have known: "target_known ?d x = target_known d x" for x
    by (auto simp: clear_scope_def Some target_known_def get_camera_def get_group_def split: scope_target.split)
  have entry: "\<exists>u \<in> set (db_scopes ?d). ps_id u = se_scope_id e \<and> ps_scope_mode u = ''selected''"
    if "e \<in> set (db_scope_entries ?d)" for e
    using that scopes_ok_entry [OF assms, of e] by (auto simp: clear_scope_def Some)
  have "\<forall>e \<in> set (db_scope_entries ?d). target_known ?d (se_target e)"
    using scopes_ok_entry [OF assms] known by (simp add: clear_scope_def Some)
  then show ?thesis using assms entry by (simp add: clear_scope_def Some scopes_ok_def distinct_map_filter)
qed

lemma groups_ok_transfer:
  assumes "groups_ok d" and "db_groups d' = db_groups d" and "db_members d' = db_members d" and "db_cameras d' = db_cameras d"
  shows "groups_ok d'"
proof -
  have "get_group d' = get_group d" "get_camera d' = get_camera d" by (simp_all add: fun_eq_iff get_group_def get_camera_def assms)
  moreover have "group_parent d' = group_parent d" by (simp add: fun_eq_iff group_parent_def assms(2))
  moreover have "parent_rel d' = parent_rel d" using calculation by (simp add: parent_rel_def)
  ultimately show ?thesis using assms by (simp add: groups_ok_def)
qed

lemma access_step_ok:
  assumes "access_step d d'" and "groups_ok d" and "scopes_ok d"
  shows "groups_ok d' \<and> scopes_ok d'"
  using assms(1)
proof cases
  case (access_group_create k name description parent_id cams g)
  note f = group_create_frame [OF access_group_create]
  show ?thesis using group_create_ok [OF assms(2) access_group_create(2,1)] f
    by (auto intro!: scopes_ok_transfer [OF assms(3)])
next
  case (access_group_update k g c g')
  then have "get_group d (gr_id g) = Some g" using groups.get_Some [of d k g] by simp
  note f = group_update_frame [OF access_group_update]
  have "scopes_ok d'" by (rule scopes_ok_transfer [OF assms(3)]) (use f in simp_all)
  then show ?thesis using group_update_ok [OF assms(2) \<open>get_group d (gr_id g) = Some g\<close> access_group_update(2)] by simp
next
  case (access_group_delete k g)
  note f = group_delete_frame [OF access_group_delete(2)]
  have "scopes_ok d'"
  proof (rule scopes_ok_transfer [OF assms(3)])
    fix j assume j: "get_group d j \<noteq> None" "\<exists>e \<in> set (db_scope_entries d). se_target e = GroupTarget j"
    then have "j \<noteq> gr_id g" using f [of j] by auto
    then show "get_group d' j \<noteq> None" using f [of j] j(1) by simp
  qed (use f in simp_all)
  then show ?thesis using group_delete_ok [OF assms(2) access_group_delete(2)] by simp
next
  case (access_scope_ensure k t p mode s)
  show ?thesis using ensure_scope_ok [OF assms(3) access_scope_ensure] groups_ok_transfer [OF assms(2)] by simp
next
  case (access_scope_set k t p mode cams gs v)
  show ?thesis using set_scope_ok [OF assms(3) access_scope_set(2,1)] groups_ok_transfer [OF assms(2)] by simp
next
  case (access_scope_clear t p)
  show ?thesis using clear_scope_ok [OF assms(3), of t p] groups_ok_transfer [OF assms(2)] access_scope_clear by simp
qed

lemma get_scope_ensured:
  assumes "scopes_ok d" and "ensure_scope d k t p mode = Inr (d', s)" and "k \<notin> ps_id ` set (db_scopes d)"
    and "(t', p') \<noteq> (t, p)"
  shows "get_scope d' t' p' = get_scope d t' p'"
  using assms(2)
proof (cases rule: ensure_scope_cases)
  case added
  have "find P (xs @ ys) = (case find P xs of None \<Rightarrow> find P ys | Some z \<Rightarrow> Some z)" for P and xs ys :: "camera_scope list"
    by (induction xs) auto
  then have "scope_of d' t' p' = scope_of d t' p'"
    using added assms(4) by (auto simp: scope_of_def split: option.split)
  then show ?thesis using added by (auto simp: get_scope_def entries_of_def split: option.split)
qed simp

section \<open>Properties\<close>

text \<open>
  C27: Camera groups stay a forest and scopes never dangle. Whatever groups are created, edited, moved or
  deleted and whatever scopes are set or cleared, names are unique and not blank, members are known
  cameras of known groups, no group is above itself, and every entry of a scope belongs to a scope
  of mode selected and names an existing camera or group.
\<close>

theorem access_requests_sound:
  assumes "access_step\<^sup>*\<^sup>* d d'" and "groups_ok d" and "scopes_ok d"
  shows "groups_ok d' \<and> scopes_ok d'"
  using assms by (induction rule: rtranclp_induct) (auto dest: access_step_ok)

text \<open>
  A group can be moved anywhere but under itself. When the groups form a forest, a move is refused as
  a cycle exactly when the new parent is the group or lies below it, an unknown parent is refused,
  and the check for an already broken hierarchy never fires.
\<close>

theorem group_move_refused_iff:
  assumes "groups_ok d" and "get_group d k = Some g"
  shows "validate_parent d (Some p) (Some k)
    = (if below d k p then Inl (ApiError 400 ''camera_group_parent_cycle'')
       else if get_group d p = None then Inl (ApiError 400 ''camera_group_parent_invalid'') else Inr ())"
  using validate_parent_forest [OF assms(1), of "Some k" p] assms(2) by (simp add: below_def)

text \<open>
  C13: Access to a camera is decided exactly by the permission and the scope. A request passes if and only
  if the principal has the permission and its own scope grants the camera, or, when the user has no
  scope of its own, the scope of one of its roles does; a selected group grants the members of every
  group below it. A refused permission answers 403, and a camera out of scope the same 404 as an
  unknown one.
\<close>

theorem camera_access_exact:
  assumes "groups_ok d"
  shows "require_camera_permission d context permission c
    = (if permission \<notin> set (ac_permissions context) then Inl (ApiError 403 ''permission_denied'')
       else if (case get_scope d ''user'' (ac_user_id context) of
                  Some v \<Rightarrow> grants d v c
                | None \<Rightarrow> \<exists>r \<in> set (ac_role_ids context). \<exists>v. get_scope d ''role'' r = Some v \<and> grants d v c)
       then Inr () else Inl (ApiError 404 ''camera_not_found''))"
proof -
  note ids = groups_okD(1) [OF assms]
  have "allows (effective_scope_of d (ac_user_id context) (ac_role_ids context)) c
    \<longleftrightarrow> (case get_scope d ''user'' (ac_user_id context) of
           Some v \<Rightarrow> grants d v c
         | None \<Rightarrow> \<exists>r \<in> set (ac_role_ids context). \<exists>v. get_scope d ''role'' r = Some v \<and> grants d v c)"
    by (simp add: effective_scope_of_def allows_scope [OF ids] allows_roles [OF ids] split: option.split)
  then show ?thesis by (simp add: require_camera_permission_def require_permission_def require_def)
qed

text \<open>
  C12: What is set is what is read. After a scope is set, reading it gives the mode and the cameras and
  groups of the request, sorted and without repetition, the answer of the request is the same value,
  and the scopes of all other principals are as before.
\<close>

theorem scope_roundtrip:
  assumes "scopes_ok d" and "k \<notin> ps_id ` set (db_scopes d)"
    and "set_scope d k t p mode cams gs = Inr (d', v)"
  shows "v = \<lparr>sv_mode = mode, sv_camera_ids = sort (remdups cams), sv_group_ids = sort (remdups gs)\<rparr>
    \<and> get_scope d' t p = Some v
    \<and> (\<forall>t' p'. (t', p') \<noteq> (t, p) \<longrightarrow> get_scope d' t' p' = get_scope d t' p')"
  using assms(3)
proof (cases rule: set_scope_cases)
  case v: (1 d1 s)
  note e = ensure_scope_ok [OF assms(1) v(2) assms(2)]
  have s: "scope_of d1 t p = Some s" and ids: "distinct (map ps_id (db_scopes d1))"
    using e by (auto simp: scopes_ok_def)
  have "mode \<noteq> ''selected'' \<Longrightarrow> cams = [] \<and> gs = []" using v(1) by (simp add: check_scope_request_Inr)
  then have read: "get_scope d' t p = Some \<lparr>sv_mode = mode, sv_camera_ids = sort (remdups cams), sv_group_ids = sort (remdups gs)\<rparr>"
    using s by (auto simp: get_scope_def v(3) scope_of_rewrite entries_of_rewrite new_entries_targets sorted_sort_id)
  have "get_scope d' t' p' = get_scope d t' p'" if other: "(t', p') \<noteq> (t, p)" for t' p'
  proof -
    have "get_scope d' t' p' = get_scope d1 t' p'"
    proof (cases "scope_of d1 t' p'")
      case None
      then show ?thesis by (simp add: get_scope_def v(3) scope_of_rewrite)
    next
      case (Some u)
      have "ps_id u \<noteq> ps_id s"
      proof
        assume "ps_id u = ps_id s"
        then have "u = s" using scope_of_Some [OF Some] scope_of_Some [OF s] ids by (auto simp: distinct_map inj_on_def)
        then show False using scope_of_Some [OF Some] scope_of_Some [OF s] other by simp
      qed
      then show ?thesis using Some by (simp add: get_scope_def v(3) scope_of_rewrite entries_of_rewrite)
    qed
    then show ?thesis using get_scope_ensured [OF assms(1) v(2) assms(2) other] by simp
  qed
  then show ?thesis using read v(4) by simp
qed

section \<open>Concrete inputs\<close>

text \<open>Group 11 (camera 7) lies below group 10; user 1 may see group 10, role 2 nothing.\<close>

definition example_access :: db where
  "example_access = empty_db\<lparr>db_cameras := [\<lparr>cam_id = 7, cam_enabled = True, cam_maintenance = False\<rparr>, \<lparr>cam_id = 8, cam_enabled = True, cam_maintenance = False\<rparr>],
     db_groups := [\<lparr>gr_id = 10, gr_name = ''site'', gr_description = None, gr_parent_id = None\<rparr>,
                   \<lparr>gr_id = 11, gr_name = ''gate'', gr_description = None, gr_parent_id = Some 10\<rparr>],
     db_members := [(11, 7)],
     db_scopes := [\<lparr>ps_id = 20, ps_principal_type = ''user'', ps_principal_id = 1, ps_scope_mode = ''selected''\<rparr>],
     db_scope_entries := [\<lparr>se_scope_id = 20, se_target = GroupTarget 10\<rparr>]\<rparr>"

lemma example_parent: "group_parent example_access k = (if k = 11 then Some 10 else None)"
  by (simp add: group_parent_def example_access_def empty_db_def)

lemma example_groups_ok: "groups_ok example_access"
proof -
  have "parent_rel example_access = {(11, 10)}" by (auto simp: parent_rel_def example_parent split: if_splits)
  moreover have "acyclic ({} :: (uuid \<times> uuid) set)" by (simp add: acyclic_def)
  ultimately have "acyclic (parent_rel example_access)" by (simp add: acyclic_insert)
  moreover have "get_group example_access 10 \<noteq> None" by (simp add: get_group_def example_access_def empty_db_def)
  then have "\<forall>k p. group_parent example_access k = Some p \<longrightarrow> get_group example_access p \<noteq> None"
    by (simp add: example_parent)
  moreover have "distinct (map gr_id (db_groups example_access)) \<and> distinct (map gr_name (db_groups example_access))
      \<and> (\<forall>g \<in> set (db_groups example_access). gr_name g \<noteq> []) \<and> distinct (db_members example_access)
      \<and> (\<forall>m \<in> set (db_members example_access). get_group example_access (fst m) \<noteq> None \<and> get_camera example_access (snd m) \<noteq> None)"
    by (simp add: get_group_def get_camera_def example_access_def empty_db_def)
  ultimately show ?thesis unfolding groups_ok_def by blast
qed

lemma example_scopes_ok: "scopes_ok example_access"
  by (simp add: scopes_ok_def target_known_def get_group_def example_access_def empty_db_def)

lemma example_set: "set_scope example_access 21 ''role'' 2 ''selected'' [8, 7, 8] [] =
  Inr (example_access\<lparr>
    db_scopes := db_scopes example_access
      @ [\<lparr>ps_id = 21, ps_principal_type = ''role'', ps_principal_id = 2, ps_scope_mode = ''selected''\<rparr>],
    db_scope_entries := db_scope_entries example_access
      @ [\<lparr>se_scope_id = 21, se_target = CameraTarget 7\<rparr>, \<lparr>se_scope_id = 21, se_target = CameraTarget 8\<rparr>]\<rparr>,
    \<lparr>sv_mode = ''selected'', sv_camera_ids = [7, 8], sv_group_ids = []\<rparr>)"
  by code_simp

lemma access_requests_sound_witness:
  "\<exists>d d'. access_step\<^sup>*\<^sup>* d d' \<and> d' \<noteq> d \<and> groups_ok d' \<and> scopes_ok d'"
proof -
  define d' where "d' = clear_scope example_access ''user'' 1"
  have "access_step\<^sup>*\<^sup>* example_access d'" unfolding d'_def by (rule r_into_rtranclp) (rule access_scope_clear)
  moreover have "d' \<noteq> example_access" by (simp add: d'_def clear_scope_def scope_of_def example_access_def empty_db_def)
  ultimately show ?thesis using access_requests_sound [OF _ example_groups_ok example_scopes_ok] by blast
qed

lemma group_move_refused_iff_witness:
  "validate_parent example_access (Some 11) (Some 10) = Inl (ApiError 400 ''camera_group_parent_cycle'')"
proof -
  have "below example_access 10 11" by (auto simp: below_def parent_rel_def example_parent)
  moreover have "get_group example_access 10 = Some \<lparr>gr_id = 10, gr_name = ''site'', gr_description = None, gr_parent_id = None\<rparr>"
    by (simp add: get_group_def example_access_def empty_db_def)
  ultimately show ?thesis using group_move_refused_iff [OF example_groups_ok] by simp
qed

lemma camera_access_exact_witness:
  "require_camera_permission example_access \<lparr>ac_user_id = 1, ac_role_ids = [], ac_permissions = [''live'']\<rparr> ''live'' 7 = Inr ()
   \<and> require_camera_permission example_access \<lparr>ac_user_id = 1, ac_role_ids = [], ac_permissions = [''live'']\<rparr> ''live'' 8
     = Inl (ApiError 404 ''camera_not_found'')"
proof -
  have scope: "get_scope example_access ''user'' 1 = Some \<lparr>sv_mode = ''selected'', sv_camera_ids = [], sv_group_ids = [10]\<rparr>"
    by code_simp
  have "below example_access 10 11" by (auto simp: below_def parent_rel_def example_parent)
  moreover have "(11, 7) \<in> set (db_members example_access)" "(h, 8) \<notin> set (db_members example_access)" for h
    by (simp_all add: example_access_def empty_db_def)
  ultimately show ?thesis using scope by (auto simp: camera_access_exact [OF example_groups_ok] grants_def)
qed

lemma scope_roundtrip_witness:
  "\<exists>d v. set_scope example_access 21 ''role'' 2 ''selected'' [8, 7, 8] [] = Inr (d, v)
     \<and> get_scope d ''role'' 2 = Some \<lparr>sv_mode = ''selected'', sv_camera_ids = [7, 8], sv_group_ids = []\<rparr>"
proof -
  have "21 \<notin> ps_id ` set (db_scopes example_access)" by (simp add: example_access_def empty_db_def)
  from scope_roundtrip [OF example_scopes_ok this example_set] example_set show ?thesis by auto
qed

end
