(* ===== verification/Playback.thy ===== *)
theory Playback
  imports Timeline
begin

text \<open>
  \<open>modules/recordings/playback.py\<close>: which file plays an instant of a camera. \<open>expand\<close> is
  \<open>expanduser\<close> and \<open>realpath\<close> is \<open>resolve(strict=False)\<close>; \<open>cache\<close> answers
  \<open>PlaybackCacheService.cached_file\<close> with the path of a complete cached copy, and is \<open>None\<close> where
  the code is called without settings.
\<close>

section \<open>The service\<close>

record playable_plan =
  pp_segment_id :: uuid
  pp_segment_start_at :: instant
  pp_offset_ms :: int
  pp_file_path :: path
  pp_codec :: "string option"

record gap_plan =
  gp_reason :: string
  gp_previous_at :: "instant option"
  gp_next_at :: "instant option"

datatype playback_plan = Playable playable_plan | RestoreRequired uuid | Gap gap_plan

definition join_path :: "path \<Rightarrow> path \<Rightarrow> path" where
  "join_path base p = (if is_absolute p then p else base @ p)"

definition configured_root :: "storage_target \<Rightarrow> pyobj option" where
  "configured_root t = map_of (st_config_json t)
     (case st_type t of LocalTarget \<Rightarrow> ''path'' | RcloneTarget \<Rightarrow> ''mount_path'')"

definition filesystem_path ::
    "(path \<Rightarrow> path) \<Rightarrow> (path \<Rightarrow> path) \<Rightarrow> db \<Rightarrow> recording_location \<Rightarrow> path option" where
  "filesystem_path expand realpath d l =
     (case get_target d (lo_storage_target_id l) of
        None \<Rightarrow> None
      | Some t \<Rightarrow> (case configured_root t of
          Some (PStr raw_root) \<Rightarrow>
            if py_strip raw_root = [] then None
            else let base = expand (path_of raw_root) in
              if \<not> is_absolute base then None
              else let resolved_root = realpath base;
                       candidate = realpath (join_path resolved_root (path_of (lo_object_path l)))
                   in if is_prefix resolved_root candidate then Some candidate else None
        | _ \<Rightarrow> None))"

definition offset_ms :: "instant \<Rightarrow> recording_segment \<Rightarrow> int" where
  "offset_ms t s = max 0 (round_ms (t - sg_started_at s))"

definition has_target_type :: "db \<Rightarrow> target_type \<Rightarrow> recording_location \<Rightarrow> bool" where
  "has_target_type d ty l = (case get_target d (lo_storage_target_id l) of None \<Rightarrow> False | Some t \<Rightarrow> st_type t = ty)"

definition available_locations :: "db \<Rightarrow> recording_segment \<Rightarrow> recording_location list" where
  "available_locations d s =
     sort_key (\<lambda>l. (if has_target_type d LocalTarget l then 0 else 1 :: nat, lo_id l))
       (filter (\<lambda>l. lo_state l = Available) (segment_locations d s))"

text \<open>The first location in order that has a file system path.\<close>

fun first_path :: "(recording_location \<Rightarrow> path option) \<Rightarrow> recording_location list \<Rightarrow> path option" where
  "first_path fs [] = None"
| "first_path fs (l # ls) = (case fs l of Some p \<Rightarrow> Some p | None \<Rightarrow> first_path fs ls)"

definition playable_with :: "recording_segment \<Rightarrow> int \<Rightarrow> path \<Rightarrow> playback_plan" where
  "playable_with s offset p = Playable \<lparr>pp_segment_id = sg_id s, pp_segment_start_at = sg_started_at s,
     pp_offset_ms = offset, pp_file_path = p, pp_codec = sg_codec s\<rparr>"

definition candidate_plan ::
    "(path \<Rightarrow> path) \<Rightarrow> (path \<Rightarrow> path) \<Rightarrow> (uuid \<Rightarrow> int \<Rightarrow> path option) option \<Rightarrow> db \<Rightarrow> recording_segment \<Rightarrow> int
     \<Rightarrow> playback_plan option" where
  "candidate_plan expand realpath cache d s offset =
     (let locations = available_locations d s
      in case first_path (filesystem_path expand realpath d) locations of
           Some p \<Rightarrow> Some (playable_with s offset p)
         | None \<Rightarrow>
             if list_ex (has_target_type d RcloneTarget) locations
             then (case (case cache of None \<Rightarrow> None | Some cached_file \<Rightarrow> cached_file (sg_id s) (sg_size_bytes s)) of
                     Some p \<Rightarrow> Some (playable_with s offset p)
                   | None \<Rightarrow> Some (RestoreRequired (sg_id s)))
             else None)"

definition segment_gap_reason :: "db \<Rightarrow> recording_segment \<Rightarrow> string" where
  "segment_gap_reason d s =
     (case availability_of None d s of
        Corrupted \<Rightarrow> ''storage_failure'' | Purged \<Rightarrow> ''purged'' | MissingMedia \<Rightarrow> ''missing_media''
      | _ \<Rightarrow> ''unknown'')"

definition plan_segment ::
    "(path \<Rightarrow> path) \<Rightarrow> (path \<Rightarrow> path) \<Rightarrow> (uuid \<Rightarrow> int \<Rightarrow> path option) option \<Rightarrow> db \<Rightarrow> uuid \<Rightarrow> int
     \<Rightarrow> playback_plan result" where
  "plan_segment expand realpath cache d segment_id offset =
     (case get_segment d segment_id of
        None \<Rightarrow> Inl (ApiError 404 ''recording_not_found'')
      | Some s \<Rightarrow>
          let duration_ms = max 1 (round_ms (sg_ended_at s - sg_started_at s))
          in if offset < 0 \<or> duration_ms \<le> offset then Inl (ApiError 422 ''playback_offset_invalid'')
             else (case candidate_plan expand realpath cache d s offset of
                     Some p \<Rightarrow> Inr p
                   | None \<Rightarrow> Inr (Gap \<lparr>gp_reason = segment_gap_reason d s, gp_previous_at = None,
                                       gp_next_at = None\<rparr>)))"

text \<open>\<open>_neighbors\<close>: \<open>ORDER BY ended_at DESC LIMIT 1\<close> and \<open>ORDER BY started_at LIMIT 1\<close>.\<close>

definition maximum_of :: "int list \<Rightarrow> int option" where
  "maximum_of xs = (if xs = [] then None else Some (foldl max (hd xs) xs))"

definition minimum_of :: "int list \<Rightarrow> int option" where
  "minimum_of xs = (if xs = [] then None else Some (foldl min (hd xs) xs))"

definition neighbors :: "db \<Rightarrow> uuid \<Rightarrow> instant \<Rightarrow> instant option \<times> instant option" where
  "neighbors d cam t =
     (maximum_of (map sg_ended_at (filter (\<lambda>s. sg_camera_id s = cam \<and> sg_ended_at s \<le> t) (db_segments d))),
      minimum_of (map sg_started_at (filter (\<lambda>s. sg_camera_id s = cam \<and> t < sg_started_at s) (db_segments d))))"

definition covering_segments :: "db \<Rightarrow> uuid \<Rightarrow> instant \<Rightarrow> recording_segment list" where
  "covering_segments d cam t =
     sort_key (\<lambda>s. (- sg_started_at s, - int (sg_id s)))
       (filter (\<lambda>s. sg_camera_id s = cam \<and> sg_started_at s \<le> t \<and> t < sg_ended_at s) (db_segments d))"

fun first_plan :: "(recording_segment \<Rightarrow> playback_plan option) \<Rightarrow> recording_segment list \<Rightarrow> playback_plan option" where
  "first_plan f [] = None"
| "first_plan f (s # ss) = (case f s of Some p \<Rightarrow> Some p | None \<Rightarrow> first_plan f ss)"

definition unavailable_gap_reason :: "string list \<Rightarrow> string" where
  "unavailable_gap_reason reasons =
     (if ''storage_failure'' \<in> set reasons then ''storage_failure''
      else if ''missing_media'' \<in> set reasons then ''missing_media''
      else if set reasons = {''purged''} then ''purged''
      else ''unknown'')"

definition playback_at ::
    "zones \<Rightarrow> (path \<Rightarrow> path) \<Rightarrow> (path \<Rightarrow> path) \<Rightarrow> (uuid \<Rightarrow> int \<Rightarrow> path option) option \<Rightarrow> db \<Rightarrow> uuid
     \<Rightarrow> instant \<Rightarrow> playback_plan result" where
  "playback_at zones expand realpath cache d cam t =
     (let segments = covering_segments d cam t
      in case first_plan (\<lambda>s. candidate_plan expand realpath cache d s (offset_ms t s)) segments of
           Some p \<Rightarrow> Inr p
         | None \<Rightarrow>
             and_then (if segments \<noteq> [] then Inr (unavailable_gap_reason (map (segment_gap_reason d) segments))
                       else empty_reason zones d cam (policy_of_camera d cam)
                              (gap_evidence_events expand realpath d cam t (t + milliseconds 1))
                              t (t + milliseconds 1)) (\<lambda>reason.
             Inr (Gap \<lparr>gp_reason = reason, gp_previous_at = fst (neighbors d cam t),
                       gp_next_at = snd (neighbors d cam t)\<rparr>)))"

section \<open>Agreement with the timeline\<close>

lemma first_path_eq_None: "first_path f xs = None \<longleftrightarrow> (\<forall>l \<in> set xs. f l = None)"
  by (induction xs) (auto split: option.splits)

lemma first_plan_eq_None: "first_plan f xs = None \<longleftrightarrow> (\<forall>s \<in> set xs. f s = None)"
  by (induction xs) (auto split: option.splits)

lemma first_plan_Some: "first_plan f xs = Some p \<Longrightarrow> \<exists>s \<in> set xs. f s = Some p"
  by (induction xs) (auto split: option.splits)

lemma set_available_locations:
  "set (available_locations d s) = {l \<in> set (segment_locations d s). lo_state l = Available}"
  by (simp add: available_locations_def)

lemma set_covering_segments:
  "set (covering_segments d cam t) = {s \<in> set (db_segments d). sg_camera_id s = cam \<and> sg_started_at s \<le> t \<and> t < sg_ended_at s}"
  by (auto simp: covering_segments_def)

text \<open>An available copy that playback can reach: a local recording target with a usable directory,
  or an archive.\<close>

definition reachable_copy :: "(path \<Rightarrow> path) \<Rightarrow> (path \<Rightarrow> path) \<Rightarrow> db \<Rightarrow> recording_location \<Rightarrow> bool" where
  "reachable_copy expand realpath d l \<longleftrightarrow>
     location_target_is d LocalTarget RecordingRole l \<and> filesystem_path expand realpath d l \<noteq> None
     \<or> location_target_is d RcloneTarget ArchiveRole l"

lemma location_target_is_type: "location_target_is d ty ro l \<Longrightarrow> has_target_type d ty l"
  by (auto simp: location_target_is_def has_target_type_def split: option.splits)

lemma has_target_type_unique: "has_target_type d ty l \<Longrightarrow> has_target_type d ty' l \<Longrightarrow> ty = ty'"
  by (auto simp: has_target_type_def split: option.splits)

lemma candidate_plan_eq_None:
  "candidate_plan expand realpath cache d s offset = None \<longleftrightarrow>
     (\<forall>l \<in> set (available_locations d s). filesystem_path expand realpath d l = None \<and> \<not> has_target_type d RcloneTarget l)"
proof (cases "first_path (filesystem_path expand realpath d) (available_locations d s)")
  case None
  then show ?thesis
    unfolding candidate_plan_def Let_def
    by (simp add: list_ex_iff split: option.split) (simp add: first_path_eq_None)
next
  case (Some p)
  then have "\<not> (\<forall>l \<in> set (available_locations d s). filesystem_path expand realpath d l = None)"
    by (metis first_path_eq_None option.distinct(1))
  with Some show ?thesis by (auto simp: candidate_plan_def Let_def)
qed

lemma playable_candidate:
  assumes "\<forall>l \<in> set (available_locations d s). reachable_copy expand realpath d l"
    and "py_upper (sg_integrity_status s) \<noteq> ''CORRUPT''"
  shows "playable (availability_of c d s) \<longleftrightarrow> candidate_plan expand realpath cache d s offset \<noteq> None"
proof (cases "available_locations d s = []")
  case True
  then have none: "filter (\<lambda>l. lo_state l = Available) (segment_locations d s) = []"
    using set_available_locations [of d s] by (auto simp: filter_empty_conv)
  have "candidate_plan expand realpath cache d s offset = None" using True by (simp add: candidate_plan_eq_None)
  with none assms(2) show ?thesis by (simp add: availability_of_def playable_def Let_def)
next
  case False
  then obtain l where l: "l \<in> set (available_locations d s)" by (cases "available_locations d s") auto
  then have usable: "reachable_copy expand realpath d l" using assms(1) by blast
  then have "candidate_plan expand realpath cache d s offset \<noteq> None" using l
    by (auto simp: candidate_plan_eq_None reachable_copy_def dest: location_target_is_type)
  moreover have "l \<in> set (filter (\<lambda>l. lo_state l = Available) (segment_locations d s))"
    using l by (simp add: set_available_locations)
  then have "list_ex (location_target_is d LocalTarget RecordingRole) (filter (\<lambda>l. lo_state l = Available) (segment_locations d s))
      \<or> list_ex (location_target_is d RcloneTarget ArchiveRole) (filter (\<lambda>l. lo_state l = Available) (segment_locations d s))"
    using usable by (auto simp: list_ex_iff reachable_copy_def)
  then have "playable (availability_of c d s)"
    using assms(2) by (auto simp: availability_of_def playable_def Let_def split: option.splits)
  ultimately show ?thesis by simp
qed

lemma segment_gap_reasons:
  "unavailable_gap_reason (map (segment_gap_reason d) xs) = unavailable_reason (map (availability_of None d) xs)"
proof -
  have reason: "segment_gap_reason d s = ''storage_failure'' \<longleftrightarrow> availability_of None d s = Corrupted"
    "segment_gap_reason d s = ''missing_media'' \<longleftrightarrow> availability_of None d s = MissingMedia"
    "segment_gap_reason d s = ''purged'' \<longleftrightarrow> availability_of None d s = Purged" for s
    by (cases "availability_of None d s"; simp add: segment_gap_reason_def)+
  have "''storage_failure'' \<in> segment_gap_reason d ` set xs \<longleftrightarrow> Corrupted \<in> availability_of None d ` set xs"
    "''missing_media'' \<in> segment_gap_reason d ` set xs \<longleftrightarrow> MissingMedia \<in> availability_of None d ` set xs"
    by (auto simp: image_iff reason eq_commute [of "''storage_failure''"] eq_commute [of "''missing_media''"]
        eq_commute [of Corrupted] eq_commute [of MissingMedia] simp del: list.inject)
  moreover have "segment_gap_reason d ` set xs = {''purged''} \<longleftrightarrow> xs \<noteq> [] \<and> (\<forall>s \<in> set xs. availability_of None d s = Purged)"
    using reason(3) by (cases xs) auto
  ultimately show ?thesis
    unfolding unavailable_gap_reason_def unavailable_reason_def
    by (simp only: set_map) (simp add: list_all_iff)
qed

text \<open>What \<open>playback_at\<close> says of an instant agrees with what the timeline shows there.\<close>

definition gap_reason_of :: "playback_plan \<Rightarrow> string option" where
  "gap_reason_of p = (case p of Gap g \<Rightarrow> Some (gp_reason g) | _ \<Rightarrow> None)"


section \<open>A concrete instant\<close>

text \<open>The example segment of the retention plan, read back from \<open>/rec\<close> 30 seconds into it.\<close>

lemma example_playback_covering: "covering_segments example_media_db 5 (seconds 30) = [example_media]"
  by code_simp

lemma example_playback_locations: "available_locations example_media_db example_media = [example_location]"
  by code_simp

lemma example_playback_reachable: "reachable_copy id id example_media_db example_location"
  by code_simp

lemma example_playback_plan:
  "playback_at example_zones id id None example_media_db 5 (seconds 30)
   = Inr (playable_with example_media 30000 [''/'', ''media'', ''a.mp4''])"
  by code_simp


end
