(* ===== verification/ExportPlan.thy ===== *)
theory ExportPlan
  imports Playback
begin

text \<open>
  \<open>modules/exports/plan.py\<close>: which pieces of which files make up an export of a time range, and the
  choice of the codec in \<open>integrations/ffmpeg/adapter.py\<close>. Offsets in seconds are kept as exact
  microseconds.
\<close>

section \<open>The planner\<close>

record plan_item =
  pi_segment_id :: uuid
  pi_file_path :: path
  pi_segment_start_at :: instant
  pi_clip_start_at :: instant
  pi_clip_end_at :: instant
  pi_inpoint :: span
  pi_outpoint :: span
  pi_codec :: "string option"

definition item_duration_ms :: "plan_item \<Rightarrow> int" where
  "item_duration_ms x = max 0 (round_ms (pi_clip_end_at x - pi_clip_start_at x))"

record export_plan =
  xp_camera_id :: uuid
  xp_requested_start_at :: instant
  xp_requested_end_at :: instant
  xp_items :: "plan_item list"
  xp_actual_duration_ms :: int
  xp_has_gaps :: bool

definition export_path :: "(path \<Rightarrow> path) \<Rightarrow> (path \<Rightarrow> path) \<Rightarrow> db \<Rightarrow> recording_segment \<Rightarrow> path option" where
  "export_path expand realpath d s = first_path (filesystem_path expand realpath d) (available_locations d s)"

definition clip_of :: "recording_segment \<Rightarrow> path \<Rightarrow> instant \<Rightarrow> instant \<Rightarrow> plan_item" where
  "clip_of s p clip_start clip_end =
     (let inpoint = max 0 (clip_start - sg_started_at s) in
      \<lparr>pi_segment_id = sg_id s, pi_file_path = p, pi_segment_start_at = sg_started_at s,
       pi_clip_start_at = clip_start, pi_clip_end_at = clip_end, pi_inpoint = inpoint,
       pi_outpoint = max inpoint (clip_end - sg_started_at s), pi_codec = sg_codec s\<rparr>)"

text \<open>The loop over the segments: the cursor, whether there are gaps, and the items so far.\<close>

fun plan_sweep ::
    "(recording_segment \<Rightarrow> path option) \<Rightarrow> instant \<Rightarrow> instant \<Rightarrow> bool \<Rightarrow> recording_segment list \<Rightarrow> instant \<Rightarrow> bool
     \<Rightarrow> plan_item list \<Rightarrow> (instant \<times> bool \<times> plan_item list) result" where
  "plan_sweep path_of_segment start_at end_at fail [] cursor has_gaps items = Inr (cursor, has_gaps, items)"
| "plan_sweep path_of_segment start_at end_at fail (s # ss) cursor has_gaps items =
     (if sg_ended_at s \<le> cursor then plan_sweep path_of_segment start_at end_at fail ss cursor has_gaps items
      else (case path_of_segment s of
        None \<Rightarrow> plan_sweep path_of_segment start_at end_at fail ss cursor has_gaps items
      | Some p \<Rightarrow>
          let clip_start = max (max cursor start_at) (sg_started_at s);
              clip_end = min end_at (sg_ended_at s)
          in if clip_end \<le> clip_start then plan_sweep path_of_segment start_at end_at fail ss cursor has_gaps items
             else if cursor < clip_start \<and> fail then Inl (ApiError 409 ''export_range_has_gaps'')
             else let items' = items @ [clip_of s p clip_start clip_end];
                      gaps' = (has_gaps \<or> cursor < clip_start);
                      cursor' = max cursor clip_end
                  in if end_at \<le> cursor' then Inr (cursor', gaps', items')
                     else plan_sweep path_of_segment start_at end_at fail ss cursor' gaps' items'))"

definition build_export_plan ::
    "(path \<Rightarrow> path) \<Rightarrow> (path \<Rightarrow> path) \<Rightarrow> db \<Rightarrow> uuid \<Rightarrow> instant \<Rightarrow> instant \<Rightarrow> string \<Rightarrow> export_plan result" where
  "build_export_plan expand realpath d cam start_at end_at gap_policy =
     (if end_at \<le> start_at then Inl (ApiError 400 ''invalid_time_range'')
      else if gap_policy \<notin> {''skip'', ''fail''} then Inl (ApiError 400 ''export_gap_policy_invalid'')
      else and_then (plan_sweep (export_path expand realpath d) start_at end_at (gap_policy = ''fail'')
                       (segments_overlapping d cam start_at end_at) start_at False [])
        (\<lambda>(cursor, has_gaps, items).
           if cursor < end_at \<and> gap_policy = ''fail'' then Inl (ApiError 409 ''export_range_has_gaps'')
           else if items = [] then Inl (ApiError 409 ''export_media_unavailable'')
           else Inr \<lparr>xp_camera_id = cam, xp_requested_start_at = start_at, xp_requested_end_at = end_at,
                     xp_items = items, xp_actual_duration_ms = sum_list (map item_duration_ms items),
                     xp_has_gaps = (has_gaps \<or> cursor < end_at)\<rparr>))"

text \<open>\<open>effective_codec_mode\<close> of the adapter, and its check of each clip when the manifest is written.\<close>

definition effective_codec_mode :: "string \<Rightarrow> plan_item list \<Rightarrow> string result" where
  "effective_codec_mode requested clips =
     (if requested \<notin> {''auto'', ''copy'', ''h264''} then Inl (DomainError ''export_codec_mode_invalid'')
      else if requested \<noteq> ''auto'' then Inr requested
      else let codecs = (\<lambda>c. py_lower (py_strip (case pi_codec c of None \<Rightarrow> [] | Some x \<Rightarrow> x))) ` set clips
           in Inr (if codecs \<noteq> {} \<and> codecs \<subseteq> {''h264'', ''avc'', ''avc1''} then ''copy'' else ''h264''))"

definition manifest_ok :: "plan_item list \<Rightarrow> bool" where
  "manifest_ok clips = list_all (\<lambda>c. pi_inpoint c < pi_outpoint c) clips"

section \<open>What a plan covers\<close>

definition covers :: "recording_segment \<Rightarrow> instant \<Rightarrow> bool" where
  "covers s t \<longleftrightarrow> sg_started_at s \<le> t \<and> t < sg_ended_at s"

definition clip_covers :: "plan_item \<Rightarrow> instant \<Rightarrow> bool" where
  "clip_covers x t \<longleftrightarrow> pi_clip_start_at x \<le> t \<and> t < pi_clip_end_at x"

text \<open>An item names a piece of a segment that has a file, and the offsets point at that piece.\<close>

definition item_ok :: "(recording_segment \<Rightarrow> path option) \<Rightarrow> instant \<Rightarrow> instant \<Rightarrow> recording_segment list \<Rightarrow> plan_item \<Rightarrow> bool" where
  "item_ok f a b segs x \<longleftrightarrow> a \<le> pi_clip_start_at x \<and> pi_clip_start_at x < pi_clip_end_at x \<and> pi_clip_end_at x \<le> b
     \<and> (\<exists>s \<in> set segs. f s = Some (pi_file_path x) \<and> pi_segment_id x = sg_id s
          \<and> sg_started_at s \<le> pi_clip_start_at x \<and> pi_clip_end_at x \<le> sg_ended_at s
          \<and> sg_started_at s + pi_inpoint x = pi_clip_start_at x \<and> sg_started_at s + pi_outpoint x = pi_clip_end_at x)"

text \<open>The state of the sweep after the segments \<open>pre\<close> of \<open>segs\<close>.\<close>

definition sweep_ok ::
    "(recording_segment \<Rightarrow> path option) \<Rightarrow> instant \<Rightarrow> instant \<Rightarrow> recording_segment list \<Rightarrow> recording_segment list
     \<Rightarrow> instant \<Rightarrow> bool \<Rightarrow> plan_item list \<Rightarrow> bool" where
  "sweep_ok f a b segs pre cursor gaps items \<longleftrightarrow> a \<le> cursor \<and> cursor \<le> b
     \<and> list_all (item_ok f a b segs) items \<and> (\<forall>x \<in> set items. pi_clip_end_at x \<le> cursor)
     \<and> sorted_wrt (\<lambda>x y. pi_clip_end_at x \<le> pi_clip_start_at y) items
     \<and> (\<forall>t. a \<le> t \<and> t < cursor \<longrightarrow> (\<exists>x \<in> set items. clip_covers x t) = (\<exists>s \<in> set segs. f s \<noteq> None \<and> covers s t))
     \<and> (\<forall>s \<in> set pre. f s \<noteq> None \<longrightarrow> (\<forall>t. cursor \<le> t \<and> t < b \<longrightarrow> \<not> covers s t))
     \<and> (gaps \<longleftrightarrow> (\<exists>t. a \<le> t \<and> t < cursor \<and> \<not> (\<exists>x \<in> set items. clip_covers x t)))"

lemma sweep_ok_start: "a \<le> b \<Longrightarrow> sweep_ok f a b segs [] a False []"
  by (auto simp: sweep_ok_def)

lemma sweep_ok_skip:
  assumes "sweep_ok f a b segs pre cursor gaps items"
    and "sg_ended_at s \<le> cursor \<or> f s = None \<or> min b (sg_ended_at s) \<le> max (max cursor a) (sg_started_at s)"
  shows "sweep_ok f a b segs (pre @ [s]) cursor gaps items"
proof -
  have "\<not> covers s t" if "f s \<noteq> None" "cursor \<le> t" "t < b" for t
    using assms that by (auto simp: covers_def sweep_ok_def)
  with assms(1) show ?thesis unfolding sweep_ok_def by auto
qed

text \<open>A clip leaves a gap only before the segment starts, where no earlier and no later segment plays.\<close>

lemma sweep_ok_clip:
  assumes ok: "sweep_ok f a b (pre @ s # rest) pre cursor gaps items"
    and sorted: "\<forall>r \<in> set rest. sg_started_at s \<le> sg_started_at r"
    and f: "f s = Some p"
    and l: "l = max (max cursor a) (sg_started_at s)" and r: "r = min b (sg_ended_at s)" and less: "l < r"
  shows "sweep_ok f a b (pre @ s # rest) (pre @ [s]) (max cursor r) (gaps \<or> cursor < l) (items @ [clip_of s p l r])"
proof -
  let ?segs = "pre @ s # rest" and ?x = "clip_of s p l r"
  have bounds: "a \<le> cursor" "cursor \<le> b" "cursor \<le> l" "sg_started_at s \<le> l" "r \<le> b" "r \<le> sg_ended_at s"
    using ok l r by (auto simp: sweep_ok_def)
  have x: "pi_clip_start_at ?x = l" "pi_clip_end_at ?x = r" "item_ok f a b ?segs ?x"
    using bounds less f by (auto simp: clip_of_def item_ok_def Let_def)
  have cover: "clip_covers ?x t \<longleftrightarrow> l \<le> t \<and> t < r" for t by (simp add: clip_covers_def x)
  have before: "clip_covers y t \<Longrightarrow> t < cursor" if "y \<in> set items" for y t
    using ok that by (force simp: sweep_ok_def clip_covers_def)
  have played: "(\<exists>y \<in> set (items @ [?x]). clip_covers y t) = (\<exists>q \<in> set ?segs. f q \<noteq> None \<and> covers q t)"
    if "a \<le> t" "t < r" for t
  proof -
    consider "t < cursor" | "cursor \<le> t" "t < l" | "l \<le> t" by linarith
    then show ?thesis
    proof cases
      case 1
      then have "\<not> clip_covers ?x t" using bounds by (simp add: cover)
      with ok 1 that show ?thesis by (auto simp: sweep_ok_def)
    next
      case 2
      then have "t < sg_started_at s" "l = sg_started_at s" using l bounds by auto
      with sorted have "\<not> covers q t" if "q \<in> set (s # rest)" for q using that by (auto simp: covers_def)
      moreover have "f q \<noteq> None \<longrightarrow> \<not> covers q t" if "q \<in> set pre" for q
        using ok that 2 less bounds by (auto simp: sweep_ok_def)
      moreover have "\<not> clip_covers y t" if "y \<in> set (items @ [?x])" for y
        using that before [of y t] 2 by (auto simp: cover)
      ultimately show ?thesis by auto
    next
      case 3
      then have "covers s t" "clip_covers ?x t" using that bounds by (auto simp: covers_def cover)
      with f show ?thesis by auto
    qed
  qed
  have later: "f q \<noteq> None \<longrightarrow> \<not> covers q t" if "q \<in> set (pre @ [s])" "max cursor r \<le> t" "t < b" for q t
    using ok that r by (auto simp: sweep_ok_def covers_def)
  have gaps: "(gaps \<or> cursor < l) \<longleftrightarrow> (\<exists>t. a \<le> t \<and> t < r \<and> \<not> (\<exists>y \<in> set (items @ [?x]). clip_covers y t))"
  proof
    assume "gaps \<or> cursor < l"
    then show "\<exists>t. a \<le> t \<and> t < r \<and> \<not> (\<exists>y \<in> set (items @ [?x]). clip_covers y t)"
    proof
      assume gaps
      then obtain t where t: "a \<le> t" "t < cursor" "\<not> (\<exists>y \<in> set items. clip_covers y t)"
        using ok by (auto simp: sweep_ok_def)
      with bounds less show ?thesis by (intro exI [of _ t]) (auto simp: cover)
    next
      assume "cursor < l"
      with bounds less before show ?thesis by (intro exI [of _ cursor]) (auto simp: cover)
    qed
  next
    assume "\<exists>t. a \<le> t \<and> t < r \<and> \<not> (\<exists>y \<in> set (items @ [?x]). clip_covers y t)"
    then obtain t where "a \<le> t" "t < l" "\<not> (\<exists>y \<in> set items. clip_covers y t)" by (auto simp: cover)
    with ok show "gaps \<or> cursor < l" by (auto simp: sweep_ok_def)
  qed
  have end_r: "max cursor r = r" using bounds less by simp
  have old: "list_all (item_ok f a b ?segs) items" "\<forall>y \<in> set items. pi_clip_end_at y \<le> cursor"
    "sorted_wrt (\<lambda>x y. pi_clip_end_at x \<le> pi_clip_start_at y) items"
    using ok by (simp_all add: sweep_ok_def)
  have "list_all (item_ok f a b ?segs) (items @ [?x])" using old(1) x(3) by simp
  moreover have "\<forall>y \<in> set (items @ [?x]). pi_clip_end_at y \<le> r" using old(2) x(2) bounds less by fastforce
  moreover have "sorted_wrt (\<lambda>x y. pi_clip_end_at x \<le> pi_clip_start_at y) (items @ [?x])"
    using old(2,3) x(1) bounds by (fastforce simp: sorted_wrt_append)
  moreover have "a \<le> r" "r \<le> b" using bounds less by linarith+
  ultimately show ?thesis unfolding sweep_ok_def end_r
    using played later [unfolded end_r] gaps by blast
qed

lemma plan_sweep_ok:
  assumes "plan_sweep f a b fail rest cursor gaps items = Inr (cursor', gaps', items')"
    and "sweep_ok f a b (pre @ rest) pre cursor gaps items"
    and "sorted (map sg_started_at rest)"
  shows "\<exists>pre' rest'. pre @ rest = pre' @ rest' \<and> sweep_ok f a b (pre @ rest) pre' cursor' gaps' items'
    \<and> (rest' = [] \<or> b \<le> cursor') \<and> (fail \<longrightarrow> gaps' = gaps)"
  using assms
proof (induction f a b fail rest cursor gaps items arbitrary: pre rule: plan_sweep.induct)
  case (1 f a b fail cursor gaps items)
  then show ?case by auto
next
  case (2 f a b fail s ss cursor gaps items)
  let ?l = "max (max cursor a) (sg_started_at s)" and ?r = "min b (sg_ended_at s)"
  note IH = "2.IH"(1) "2.IH"(2) "2.IH"(3) [OF _ _ refl refl] "2.IH"(4) [OF _ _ refl refl _ _ refl refl refl]
  have rest: "sorted (map sg_started_at ss)" "\<forall>q \<in> set ss. sg_started_at s \<le> sg_started_at q" using "2.prems"(3) by auto
  show ?case
  proof (cases "sg_ended_at s \<le> cursor \<or> f s = None \<or> ?r \<le> ?l")
    case True
    then have "plan_sweep f a b fail ss cursor gaps items = Inr (cursor', gaps', items')"
      using "2.prems"(1) by (auto simp: Let_def split: option.splits if_splits)
    moreover have "sweep_ok f a b ((pre @ [s]) @ ss) (pre @ [s]) cursor gaps items"
      using sweep_ok_skip [of f a b "pre @ s # ss" pre cursor gaps items s] "2.prems"(2) True by simp
    ultimately show ?thesis using IH(1) [of "pre @ [s]"] IH(2) [of "pre @ [s]"] IH(3) [of _ "pre @ [s]"] True rest(1)
      by (cases "f s") auto
  next
    case False
    then obtain p where p: "f s = Some p" by auto
    define items1 where "items1 = items @ [clip_of s p ?l ?r]"
    have ok: "sweep_ok f a b (pre @ s # ss) (pre @ [s]) (max cursor ?r) (gaps \<or> cursor < ?l) items1"
      unfolding items1_def by (rule sweep_ok_clip [OF "2.prems"(2) rest(2) p refl refl]) (use False in linarith)
    have n: "\<not> sg_ended_at s \<le> cursor" "\<not> ?r \<le> ?l" using False by simp_all
    have no: "\<not> (cursor < ?l \<and> fail)" using "2.prems"(1) n p by (auto simp: Let_def)
    have step: "(if b \<le> max cursor ?r then Inr (max cursor ?r, gaps \<or> cursor < ?l, items1)
        else plan_sweep f a b fail ss (max cursor ?r) (gaps \<or> cursor < ?l) items1) = Inr (cursor', gaps', items')"
      using "2.prems"(1) unfolding items1_def plan_sweep.simps Let_def p option.case by (simp only: n no if_False)
    show ?thesis
    proof (cases "b \<le> max cursor ?r")
      case True
      then have "max cursor ?r = cursor' \<and> (gaps \<or> cursor < ?l) = gaps' \<and> items1 = items'"
        using step by (simp only: if_True sum.inject prod.inject)
      with ok True no show ?thesis by (intro exI [of _ "pre @ [s]"] exI [of _ ss]) (simp del: le_max_iff_disj, blast)
    next
      case go: False
      then have "plan_sweep f a b fail ss (max cursor ?r) (gaps \<or> cursor < ?l) items1 = Inr (cursor', gaps', items')"
        using step by (simp only: if_False)
      from IH(4) [of p "pre @ [s]", unfolded append_assoc append_Cons append_Nil, folded items1_def,
          OF n(1) p n(2) no go this ok rest(1)] no
      show ?thesis by blast
    qed
  qed
qed

lemma sweep_ok_end:
  assumes ok: "sweep_ok f a b segs pre cursor gaps items" and "segs = pre @ rest" and "rest = [] \<or> b \<le> cursor"
    and t: "a \<le> t" "t < b"
  shows "(\<exists>x \<in> set items. clip_covers x t) = (\<exists>s \<in> set segs. f s \<noteq> None \<and> covers s t)"
proof (cases "t < cursor")
  case True
  with ok t show ?thesis by (simp add: sweep_ok_def)
next
  case False
  then have "\<not> clip_covers x t" if "x \<in> set items" for x
    using ok that by (force simp: sweep_ok_def clip_covers_def)
  moreover have "rest = []" using assms(3) False t by simp
  then have "f s \<noteq> None \<longrightarrow> \<not> covers s t" if "s \<in> set segs" for s
    using ok False t that assms(2) by (auto simp: sweep_ok_def)
  ultimately show ?thesis by auto
qed

lemma sweep_ok_gaps:
  assumes ok: "sweep_ok f a b segs pre cursor gaps items"
  shows "(gaps \<or> cursor < b) \<longleftrightarrow> (\<exists>t. a \<le> t \<and> t < b \<and> \<not> (\<exists>x \<in> set items. clip_covers x t))"
proof -
  have later: "\<not> clip_covers x t" if "x \<in> set items" "cursor \<le> t" for x t
    using ok that by (force simp: sweep_ok_def clip_covers_def)
  have bounds: "a \<le> cursor" "cursor \<le> b" using ok by (simp_all add: sweep_ok_def)
  have "(\<exists>t. a \<le> t \<and> t < b \<and> \<not> (\<exists>x \<in> set items. clip_covers x t))
      \<longleftrightarrow> (\<exists>t. a \<le> t \<and> t < cursor \<and> \<not> (\<exists>x \<in> set items. clip_covers x t)) \<or> cursor < b"
    using later bounds by (meson leI le_less_trans less_le_trans order_refl)
  then show ?thesis using ok by (simp add: sweep_ok_def)
qed

text \<open>
  C30: An export contains exactly what can be exported. The clips of an accepted plan are in order and do
  not overlap, each is a piece of the file of a segment of the camera with offsets that point at it
  (so the manifest accepts it), and together they cover an instant of the range exactly when some
  segment with a readable file does. The plan reports gaps exactly when part of the range is not
  covered, and under the policy \<open>fail\<close> it has none.
\<close>

theorem export_plan_exact:
  assumes "build_export_plan expand realpath d cam a b gap_policy = Inr p"
  shows "(\<forall>t. a \<le> t \<and> t < b \<longrightarrow> (\<exists>x \<in> set (xp_items p). clip_covers x t)
        = (\<exists>s \<in> set (db_segments d). sg_camera_id s = cam \<and> covers s t \<and> export_path expand realpath d s \<noteq> None))
    \<and> sorted_wrt (\<lambda>x y. pi_clip_end_at x \<le> pi_clip_start_at y) (xp_items p)
    \<and> (\<forall>x \<in> set (xp_items p). item_ok (export_path expand realpath d) a b (segments_overlapping d cam a b) x)
    \<and> xp_items p \<noteq> [] \<and> manifest_ok (xp_items p)
    \<and> (xp_has_gaps p \<longleftrightarrow> (\<exists>t. a \<le> t \<and> t < b \<and> \<not> (\<exists>x \<in> set (xp_items p). clip_covers x t)))
    \<and> (gap_policy = ''fail'' \<longrightarrow> \<not> xp_has_gaps p)"
proof -
  let ?f = "export_path expand realpath d" and ?segs = "segments_overlapping d cam a b"
  obtain cursor gaps where range: "a < b" "gap_policy \<in> {''skip'', ''fail''}"
    and sweep: "plan_sweep ?f a b (gap_policy = ''fail'') ?segs a False [] = Inr (cursor, gaps, xp_items p)"
    and p: "xp_items p \<noteq> []" "xp_has_gaps p = (gaps \<or> cursor < b)" "\<not> (cursor < b \<and> gap_policy = ''fail'')"
    using assms by (auto simp: build_export_plan_def result_simps split: if_splits)
  obtain pre rest where split: "?segs = pre @ rest" and ok: "sweep_ok ?f a b ?segs pre cursor gaps (xp_items p)"
    and stop: "rest = [] \<or> b \<le> cursor" and strict: "gap_policy = ''fail'' \<longrightarrow> gaps = False"
    using plan_sweep_ok [OF sweep, of "[]", unfolded append_Nil, OF sweep_ok_start [OF less_imp_le [OF range(1)]]
        media.query_sorted] by blast
  have "(\<exists>s \<in> set ?segs. ?f s \<noteq> None \<and> covers s t)
      = (\<exists>s \<in> set (db_segments d). sg_camera_id s = cam \<and> covers s t \<and> ?f s \<noteq> None)" if "a \<le> t" "t < b" for t
    using that by (auto simp: media.query_set covers_def)
  then have "\<forall>t. a \<le> t \<and> t < b \<longrightarrow> (\<exists>x \<in> set (xp_items p). clip_covers x t)
      = (\<exists>s \<in> set (db_segments d). sg_camera_id s = cam \<and> covers s t \<and> ?f s \<noteq> None)"
    using sweep_ok_end [OF ok split stop] by blast
  moreover have items: "\<forall>x \<in> set (xp_items p). item_ok ?f a b ?segs x"
    "sorted_wrt (\<lambda>x y. pi_clip_end_at x \<le> pi_clip_start_at y) (xp_items p)"
    using ok by (simp_all add: sweep_ok_def list_all_iff)
  moreover have "manifest_ok (xp_items p)" using items(1) by (fastforce simp: manifest_ok_def list_all_iff item_ok_def)
  ultimately show ?thesis using p strict sweep_ok_gaps [OF ok] by blast
qed

text \<open>The example segment, exported from 10 to 90 seconds: a clip up to its end and a gap after it.\<close>

lemma export_plan_exact_witness:
  "\<exists>p. build_export_plan id id example_media_db 5 (seconds 10) (seconds 90) ''skip'' = Inr p \<and> xp_has_gaps p
     \<and> (\<exists>x \<in> set (xp_items p). clip_covers x (seconds 59)) \<and> manifest_ok (xp_items p)"
proof -
  define p where "p = \<lparr>xp_camera_id = 5, xp_requested_start_at = seconds 10, xp_requested_end_at = seconds 90,
    xp_items = [clip_of example_media [''/'', ''media'', ''a.mp4''] (seconds 10) (seconds 60)],
    xp_actual_duration_ms = 50000, xp_has_gaps = True\<rparr>"
  have "build_export_plan id id example_media_db 5 (seconds 10) (seconds 90) ''skip'' = Inr p"
    unfolding p_def by code_simp
  from export_plan_exact [OF this] this show ?thesis
    by (auto simp: p_def clip_covers_def clip_of_def Let_def seconds_def)
qed

end
