(* ===== verification/Exports.thy ===== *)
theory Exports
  imports ExportPlan CameraScope
begin

text \<open>
  \<open>modules/exports/service.py\<close>, \<open>execution.py\<close>, \<open>shares.py\<close> and the routes of \<open>api.py\<close> that hand
  out files: the life of an export job from the request through rendering to its expiry, and the
  share links that let others download it. \<open>sha\<close> stands for the hexadecimal SHA-256 of a text,
  \<open>verify\<close> for the password hash check of the password library, \<open>realpath\<close> and \<open>resolve\<close> for
  resolving paths. Tokens, password hashes and ids are arguments, and so is what ffmpeg reports.
\<close>

section \<open>Jobs\<close>

definition get_export :: "db \<Rightarrow> uuid \<Rightarrow> export_job option" where
  "get_export d k = find (\<lambda>j. ex_id j = k) (db_exports d)"

definition add_export :: "export_job \<Rightarrow> db \<Rightarrow> db" where
  "add_export j d = d\<lparr>db_exports := db_exports d @ [j]\<rparr>"

definition update_export :: "uuid \<Rightarrow> (export_job \<Rightarrow> export_job) \<Rightarrow> db \<Rightarrow> db" where
  "update_export k f d = d\<lparr>db_exports := map (\<lambda>j. if ex_id j = k then f j else j) (db_exports d)\<rparr>"

interpretation exports: keyed_table db_exports ex_id get_export add_export update_export
  by unfold_locales (simp_all add: get_export_def add_export_def update_export_def)

record export_request =
  xr_camera_id :: uuid
  xr_requested_by :: uuid
  xr_start_at :: instant
  xr_end_at :: instant
  xr_format :: string
  xr_codec_mode :: string
  xr_gap_policy :: string

definition same_request :: "export_job \<Rightarrow> export_request \<Rightarrow> bool" where
  "same_request j r = (ex_camera_id j = xr_camera_id r \<and> ex_requested_by j = Some (xr_requested_by r)
     \<and> ex_requested_start_at j = xr_start_at r \<and> ex_requested_end_at j = xr_end_at r
     \<and> ex_format j = xr_format r \<and> ex_codec_mode j = xr_codec_mode r \<and> ex_gap_policy j = xr_gap_policy r)"

definition existing_idempotent :: "db \<Rightarrow> export_job \<Rightarrow> export_request \<Rightarrow> (db \<times> export_job \<times> bool) result" where
  "existing_idempotent d j r =
     (if same_request j r then Inr (d, j, False) else Inl (ApiError 409 ''idempotency_key_conflict''))"

text \<open>The CHECK constraints of the table and its unique key.\<close>

definition export_row_ok :: "export_job \<Rightarrow> bool" where
  "export_row_ok j = (ex_requested_start_at j < ex_requested_end_at j \<and> ex_format j = ''mp4''
     \<and> ex_codec_mode j \<in> {''auto'', ''copy'', ''h264''} \<and> ex_gap_policy j \<in> {''skip'', ''fail''}
     \<and> 0 < ex_requested_duration_ms j)"

definition export_with_key :: "db \<Rightarrow> string \<Rightarrow> export_job option" where
  "export_with_key d h = find (\<lambda>j. ex_idempotency_key_hash j = Some h) (db_exports d)"

definition export_key_hash :: "(string \<Rightarrow> string) \<Rightarrow> uuid \<Rightarrow> string option \<Rightarrow> string option result" where
  "export_key_hash sha requested_by key =
     (case key of
        None \<Rightarrow> Inr None
      | Some raw \<Rightarrow>
          let normalized = py_strip raw in
          if normalized = [] \<or> 256 < length normalized then Inl (ApiError 400 ''idempotency_key_invalid'')
          else Inr (Some (sha (uuid_str requested_by @ '':'' @ normalized))))"

definition new_export :: "uuid \<Rightarrow> export_request \<Rightarrow> string option \<Rightarrow> instant \<Rightarrow> export_job" where
  "new_export k r key_hash now =
     \<lparr>ex_id = k, ex_camera_id = xr_camera_id r, ex_requested_by = Some (xr_requested_by r),
      ex_requested_start_at = xr_start_at r, ex_requested_end_at = xr_end_at r,
      ex_requested_duration_ms = round_ms (xr_end_at r - xr_start_at r), ex_idempotency_key_hash = key_hash,
      ex_format = xr_format r, ex_codec_mode = xr_codec_mode r, ex_gap_policy = xr_gap_policy r,
      ex_state = ExportPending, ex_output_path = None, ex_size_bytes = None, ex_actual_duration_ms = None,
      ex_selected_segment_count = None, ex_metadata_json = [], ex_error_code = None,
      ex_expires_at = now + hours 24, ex_started_at = None, ex_completed_at = None\<rparr>"

definition export_create ::
    "(string \<Rightarrow> string) \<Rightarrow> db \<Rightarrow> instant \<Rightarrow> uuid \<Rightarrow> export_request \<Rightarrow> string option
     \<Rightarrow> (db \<times> export_job \<times> bool) result" where
  "export_create sha d now k r key =
     (if xr_end_at r \<le> xr_start_at r then Inl (ApiError 400 ''invalid_time_range'')
      else if days 7 < xr_end_at r - xr_start_at r then Inl (ApiError 400 ''export_range_too_large'')
      else and_then (export_key_hash sha (xr_requested_by r) key) (\<lambda>key_hash.
        case (case key_hash of None \<Rightarrow> None | Some h \<Rightarrow> export_with_key d h) of
          Some existing \<Rightarrow> existing_idempotent d existing r
        | None \<Rightarrow>
            let j = new_export k r key_hash now
            in if export_row_ok j then Inr (add_export j d, j, True)
               else Inl IntegrityError))"

definition export_cancel :: "db \<Rightarrow> instant \<Rightarrow> export_job \<Rightarrow> db \<times> path option" where
  "export_cancel d now j =
     (if ex_state j \<in> {ExportCancelled, ExportExpired} then (d, ex_output_path j)
      else (update_export (ex_id j) (\<lambda>e. e\<lparr>ex_state := ExportCancelled, ex_completed_at := Some now,
              ex_output_path := None, ex_size_bytes := None\<rparr>) d, ex_output_path j))"

section \<open>Rendering\<close>

record execution_plan =
  xe_export_id :: uuid
  xe_output_path :: path
  xe_clips :: "plan_item list"
  xe_requested_codec_mode :: string
  xe_selected_duration_ms :: int
  xe_has_gaps :: bool

datatype prepared = Render execution_plan | NotRendered export_state

record render_result =
  rr_size_bytes :: int
  rr_duration_ms :: int
  rr_codec_mode :: string

definition export_root :: "(path \<Rightarrow> path) \<Rightarrow> path \<Rightarrow> path" where
  "export_root realpath cache_dir = realpath (cache_dir @ [''exports''])"

definition export_output :: "(path \<Rightarrow> path) \<Rightarrow> path \<Rightarrow> uuid \<Rightarrow> path" where
  "export_output realpath cache_dir k = realpath (cache_dir @ [''exports'', uuid_str k @ ''.mp4''])"

definition finish_export :: "export_state \<Rightarrow> instant \<Rightarrow> export_job \<Rightarrow> export_job" where
  "finish_export st now j = j\<lparr>ex_state := st, ex_completed_at := Some now\<rparr>"

definition fail_export :: "string \<Rightarrow> instant \<Rightarrow> export_job \<Rightarrow> export_job" where
  "fail_export code now j = j\<lparr>ex_state := ExportFailed, ex_error_code := Some code, ex_completed_at := Some now\<rparr>"

definition start_export :: "instant \<Rightarrow> path \<Rightarrow> export_plan \<Rightarrow> export_job \<Rightarrow> export_job" where
  "start_export now out p j = j\<lparr>ex_state := ExportRunning, ex_started_at := Some now, ex_completed_at := None,
     ex_error_code := None, ex_output_path := Some out,
     ex_selected_segment_count := Some (int (length (xp_items p))),
     ex_actual_duration_ms := Some (xp_actual_duration_ms p),
     ex_metadata_json := [(''has_gaps'', PBool (xp_has_gaps p)),
                          (''selected_duration_ms'', PInt (xp_actual_duration_ms p))]\<rparr>"

definition export_prepare ::
    "(path \<Rightarrow> path) \<Rightarrow> (path \<Rightarrow> path) \<Rightarrow> path \<Rightarrow> db \<Rightarrow> instant \<Rightarrow> uuid \<Rightarrow> (db \<times> prepared) result" where
  "export_prepare expand realpath cache_dir d now k =
     and_then (fetch_or_404 (get_export d k) ''export_not_found'') (\<lambda>j.
       if ex_state j = ExportCompleted \<or> ex_state j \<in> {ExportCancelled, ExportExpired}
       then Inr (d, NotRendered (ex_state j))
       else if ex_expires_at j \<le> now
       then Inr (update_export k (finish_export ExportExpired now) d, NotRendered ExportExpired)
       else (case build_export_plan expand realpath d (ex_camera_id j) (ex_requested_start_at j)
                    (ex_requested_end_at j) (ex_gap_policy j) of
           Inl (ApiError _ code) \<Rightarrow> Inr (update_export k (fail_export code now) d, NotRendered ExportFailed)
         | Inl e \<Rightarrow> Inl e
         | Inr p \<Rightarrow>
             let out = export_output realpath cache_dir k
             in Inr (update_export k (start_export now out p) d,
                     Render \<lparr>xe_export_id = k, xe_output_path = out, xe_clips = xp_items p,
                             xe_requested_codec_mode = ex_codec_mode j,
                             xe_selected_duration_ms = xp_actual_duration_ms p,
                             xe_has_gaps = xp_has_gaps p\<rparr>)))"

definition export_mark_failed :: "db \<Rightarrow> instant \<Rightarrow> uuid \<Rightarrow> string \<Rightarrow> db" where
  "export_mark_failed d now k code =
     (case get_export d k of
        None \<Rightarrow> d
      | Some j \<Rightarrow> if ex_state j \<in> {ExportCancelled, ExportExpired} then d
                 else update_export k (fail_export code now) d)"

definition complete_export :: "path \<Rightarrow> render_result \<Rightarrow> instant \<Rightarrow> export_job \<Rightarrow> export_job" where
  "complete_export out r now j = j\<lparr>
     ex_metadata_json := dict_put ''effective_codec_mode'' (PStr (rr_codec_mode r)) (ex_metadata_json j),
     ex_state := ExportCompleted, ex_output_path := Some out, ex_size_bytes := Some (rr_size_bytes r),
     ex_actual_duration_ms := Some (rr_duration_ms r), ex_error_code := None, ex_completed_at := Some now\<rparr>"

text \<open>\<open>_complete\<close>: the database, whether the output file is unlinked, the state and whether it was rendered.\<close>

definition export_complete ::
    "db \<Rightarrow> instant \<Rightarrow> uuid \<Rightarrow> path \<Rightarrow> render_result \<Rightarrow> db \<times> bool \<times> export_state \<times> bool" where
  "export_complete d now k out r =
     (case get_export d k of
        None \<Rightarrow> (d, True, ExportCancelled, False)
      | Some j \<Rightarrow>
          if ex_state j \<in> {ExportCancelled, ExportExpired} then (d, True, ex_state j, False)
          else if ex_expires_at j \<le> now
          then (update_export k (\<lambda>e. (finish_export ExportExpired now e)\<lparr>ex_output_path := None, ex_size_bytes := None\<rparr>) d,
                True, ExportExpired, False)
          else (update_export k (complete_export out r now) d, False, ExportCompleted, True))"

text \<open>\<open>ExportCleanupService.expire\<close>: the database, the files to unlink and the number of jobs.\<close>

definition expirable :: "instant \<Rightarrow> export_job \<Rightarrow> bool" where
  "expirable now j = (ex_expires_at j \<le> now \<and> ex_state j \<notin> {ExportExpired, ExportCancelled, ExportRunning})"

definition expire_exports :: "db \<Rightarrow> instant \<Rightarrow> db \<times> path list \<times> nat" where
  "expire_exports d now =
     (let jobs = filter (expirable now) (db_exports d)
      in (d\<lparr>db_exports := map (\<lambda>j. if expirable now j
               then (finish_export ExportExpired now j)\<lparr>ex_output_path := None, ex_size_bytes := None\<rparr> else j)
             (db_exports d)\<rparr>,
          concat (map (\<lambda>j. case ex_output_path j of None \<Rightarrow> [] | Some p \<Rightarrow> [p]) jobs), length jobs))"

section \<open>Downloads and shares\<close>

definition scoped_export :: "db \<Rightarrow> auth_context \<Rightarrow> uuid \<Rightarrow> export_job result" where
  "scoped_export d context k =
     and_then (fetch_or_404 (get_export d k) ''export_not_found'') (\<lambda>j.
     and_then (require (allows (effective_scope_of d (ac_user_id context) (ac_role_ids context)) (ex_camera_id j))
       (ApiError 404 ''export_not_found'')) (\<lambda>_. Inr j))"

definition safe_output_path ::
    "(path \<Rightarrow> path option) \<Rightarrow> (path \<Rightarrow> path) \<Rightarrow> path \<Rightarrow> path option \<Rightarrow> path option result" where
  "safe_output_path resolve realpath cache_dir raw =
     (case raw of
        None \<Rightarrow> Inr None
      | Some p \<Rightarrow> resolve_within_or_none resolve (export_root realpath cache_dir) (realpath p))"

text \<open>The file a download route answers with; \<open>is_file\<close> is the file system.\<close>

definition download_export ::
    "(path \<Rightarrow> path option) \<Rightarrow> (path \<Rightarrow> path) \<Rightarrow> path \<Rightarrow> (path \<Rightarrow> bool) \<Rightarrow> db \<Rightarrow> instant \<Rightarrow> auth_context \<Rightarrow> uuid
     \<Rightarrow> path result" where
  "download_export resolve realpath cache_dir is_file d now context k =
     and_then (require_permission context ''recording.export'') (\<lambda>_.
     and_then (scoped_export d context k) (\<lambda>j.
     if ex_expires_at j \<le> now then Inl (ApiError 410 ''export_expired'')
     else if ex_state j \<noteq> ExportCompleted then Inl (ApiError 409 ''export_not_ready'')
     else and_then (safe_output_path resolve realpath cache_dir (ex_output_path j)) (\<lambda>out.
       case out of
         Some p \<Rightarrow> if is_file p then Inr p else Inl (ApiError 409 ''export_output_missing'')
       | None \<Rightarrow> Inl (ApiError 409 ''export_output_missing''))))"

definition get_share :: "db \<Rightarrow> uuid \<Rightarrow> export_share option" where
  "get_share d k = find (\<lambda>s. sh_id s = k) (db_shares d)"

definition add_share :: "export_share \<Rightarrow> db \<Rightarrow> db" where
  "add_share s d = d\<lparr>db_shares := db_shares d @ [s]\<rparr>"

definition update_share :: "uuid \<Rightarrow> (export_share \<Rightarrow> export_share) \<Rightarrow> db \<Rightarrow> db" where
  "update_share k f d = d\<lparr>db_shares := map (\<lambda>s. if sh_id s = k then f s else s) (db_shares d)\<rparr>"

interpretation shares: keyed_table db_shares sh_id get_share add_share update_share
  by unfold_locales (simp_all add: get_share_def add_share_def update_share_def)

text \<open>\<open>core/security/passwords.py\<close>: \<open>hash_password\<close> checks the length; the hash itself is an argument.\<close>

definition hash_password :: "string \<Rightarrow> string \<Rightarrow> string result" where
  "hash_password hashed password =
     (if length password < 12 \<or> 1024 < length password then Inl (DomainError ''PasswordPolicyError'') else Inr hashed)"

definition share_create ::
    "(string \<Rightarrow> string) \<Rightarrow> db \<Rightarrow> instant \<Rightarrow> uuid \<Rightarrow> string \<Rightarrow> string \<Rightarrow> export_job \<Rightarrow> uuid \<Rightarrow> string option \<Rightarrow> int
     \<Rightarrow> int option \<Rightarrow> (db \<times> export_share) result" where
  "share_create sha d now k token hashed j created_by password expires_in_hours max_downloads =
     (if ex_state j \<noteq> ExportCompleted then Inl (ApiError 409 ''export_not_ready'')
      else if expires_in_hours < 1 \<or> 24 * 30 < expires_in_hours then Inl (ApiError 400 ''export_share_expiry_invalid'')
      else if (case max_downloads of None \<Rightarrow> False | Some m \<Rightarrow> m < 1 \<or> 100000 < m)
      then Inl (ApiError 400 ''export_share_download_limit_invalid'')
      else (case (case password of None \<Rightarrow> Inr None
                   | Some p \<Rightarrow> (case hash_password hashed p of Inl e \<Rightarrow> Inl e | Inr h \<Rightarrow> Inr (Some h))) of
          Inl _ \<Rightarrow> Inl (ApiError 400 ''export_share_password_invalid'')
        | Inr password_hash \<Rightarrow>
            let s = \<lparr>sh_id = k, sh_export_id = ex_id j, sh_token_hash = sha token, sh_password_hash = password_hash,
                     sh_expires_at = min (ex_expires_at j) (now + hours expires_in_hours), sh_revoked_at = None,
                     sh_max_downloads = max_downloads, sh_download_count = 0, sh_last_download_at = None,
                     sh_created_by = Some created_by\<rparr>
            in if list_ex (\<lambda>u. sh_token_hash u = sh_token_hash s) (db_shares d) then Inl IntegrityError
               else Inr (add_share s d, s)))"

definition share_revoke :: "db \<Rightarrow> instant \<Rightarrow> export_share \<Rightarrow> db" where
  "share_revoke d now s =
     (if sh_revoked_at s = None then update_share (sh_id s) (\<lambda>u. u\<lparr>sh_revoked_at := Some now\<rparr>) d else d)"

definition limit_reached :: "export_share \<Rightarrow> bool" where
  "limit_reached s = (case sh_max_downloads s of None \<Rightarrow> False | Some m \<Rightarrow> m \<le> sh_download_count s)"

definition password_accepted :: "(string \<Rightarrow> string \<Rightarrow> bool) \<Rightarrow> export_share \<Rightarrow> string option \<Rightarrow> bool" where
  "password_accepted verify s password =
     (case sh_password_hash s of
        None \<Rightarrow> True
      | Some h \<Rightarrow> (case password of None \<Rightarrow> False | Some p \<Rightarrow> verify p h))"

definition authorize_download ::
    "(string \<Rightarrow> string) \<Rightarrow> (string \<Rightarrow> string \<Rightarrow> bool) \<Rightarrow> db \<Rightarrow> instant \<Rightarrow> string \<Rightarrow> string option
     \<Rightarrow> (export_share \<times> export_job) result" where
  "authorize_download sha verify d now token password =
     (case find (\<lambda>s. sh_token_hash s = sha token) (db_shares d) of
        None \<Rightarrow> Inl (ApiError 404 ''export_share_not_found'')
      | Some s \<Rightarrow>
          if sh_revoked_at s \<noteq> None \<or> sh_expires_at s \<le> now then Inl (ApiError 410 ''export_share_expired'')
          else if limit_reached s then Inl (ApiError 410 ''export_share_download_limit_reached'')
          else if \<not> password_accepted verify s password then Inl (ApiError 401 ''export_share_password_required'')
          else (case get_export d (sh_export_id s) of
              None \<Rightarrow> Inl (ApiError 410 ''export_share_unavailable'')
            | Some j \<Rightarrow> if ex_state j \<noteq> ExportCompleted \<or> ex_expires_at j \<le> now
                       then Inl (ApiError 410 ''export_share_unavailable'') else Inr (s, j)))"

text \<open>\<open>consume_download\<close> is one conditional UPDATE; it matches at most one row.\<close>

definition consumable :: "instant \<Rightarrow> export_share \<Rightarrow> bool" where
  "consumable now s = (sh_revoked_at s = None \<and> now < sh_expires_at s \<and> \<not> limit_reached s)"

definition consume_download :: "db \<Rightarrow> instant \<Rightarrow> uuid \<Rightarrow> db result" where
  "consume_download d now k =
     (case get_share d k of
        Some s \<Rightarrow>
          if consumable now s
          then Inr (update_share k (\<lambda>u. u\<lparr>sh_download_count := sh_download_count u + 1,
                                          sh_last_download_at := Some now\<rparr>) d)
          else Inl (ApiError 410 ''export_share_download_limit_reached'')
      | None \<Rightarrow> Inl (ApiError 410 ''export_share_download_limit_reached''))"

section \<open>Exports over time\<close>

text \<open>
  The world of the exports: the database, the clock, the rendered files, the renders in flight (with
  what ffmpeg reported once the file is in place), the files a route or the cleanup has committed to
  unlink, the share downloads that passed the check but are not counted yet, and those counted.
\<close>

record export_world =
  xw_db :: db
  xw_now :: instant
  xw_files :: "path set"
  xw_renders :: "(uuid \<times> path \<times> render_result option) list"
  xw_unlinks :: "path list"
  xw_authorized :: "uuid list"
  xw_downloads :: "(uuid \<times> instant) list"

text \<open>The steps of the requests, the workers, the cleanup and everything else, in any order.\<close>

inductive export_step ::
    "(path \<Rightarrow> path) \<Rightarrow> (path \<Rightarrow> path) \<Rightarrow> (path \<Rightarrow> path option) \<Rightarrow> path \<Rightarrow> (string \<Rightarrow> string)
     \<Rightarrow> (string \<Rightarrow> string \<Rightarrow> bool) \<Rightarrow> export_world \<Rightarrow> export_world \<Rightarrow> bool"
  for expand realpath resolve cache_dir sha verify where
  tick: "xw_now w \<le> t \<Longrightarrow> export_step expand realpath resolve cache_dir sha verify w (w\<lparr>xw_now := t\<rparr>)"
| other: "db_exports d = db_exports (xw_db w) \<Longrightarrow> db_shares d = db_shares (xw_db w) \<Longrightarrow>
    export_step expand realpath resolve cache_dir sha verify w (w\<lparr>xw_db := d\<rparr>)"
| create: "get_export (xw_db w) k = None \<Longrightarrow> k < 2 ^ 128 \<Longrightarrow>
    export_create sha (xw_db w) (xw_now w) k r key = Inr (d, j, created) \<Longrightarrow>
    export_step expand realpath resolve cache_dir sha verify w (w\<lparr>xw_db := d\<rparr>)"
| prepare: "export_prepare expand realpath cache_dir (xw_db w) (xw_now w) k = Inr (d, Render p) \<Longrightarrow>
    export_step expand realpath resolve cache_dir sha verify w
      (w\<lparr>xw_db := d, xw_renders := xw_renders w @ [(xe_export_id p, xe_output_path p, None)]\<rparr>)"
| nothing_to_render: "export_prepare expand realpath cache_dir (xw_db w) (xw_now w) k = Inr (d, NotRendered st) \<Longrightarrow>
    export_step expand realpath resolve cache_dir sha verify w (w\<lparr>xw_db := d\<rparr>)"
| rendered: "(k, out, None) \<in> set (xw_renders w) \<Longrightarrow>
    export_step expand realpath resolve cache_dir sha verify w
      (w\<lparr>xw_files := insert out (xw_files w),
         xw_renders := remove1 (k, out, None) (xw_renders w) @ [(k, out, Some r)]\<rparr>)"
| render_failed: "(k, out, None) \<in> set (xw_renders w) \<Longrightarrow>
    export_step expand realpath resolve cache_dir sha verify w
      (w\<lparr>xw_db := export_mark_failed (xw_db w) (xw_now w) k code,
         xw_renders := remove1 (k, out, None) (xw_renders w)\<rparr>)"
| worker_lost: "(k, out, None) \<in> set (xw_renders w) \<Longrightarrow>
    export_step expand realpath resolve cache_dir sha verify w
      (w\<lparr>xw_renders := remove1 (k, out, None) (xw_renders w)\<rparr>)"
| complete: "(k, out, Some r) \<in> set (xw_renders w) \<Longrightarrow>
    export_complete (xw_db w) (xw_now w) k out r = (d, unlink, st, done) \<Longrightarrow>
    export_step expand realpath resolve cache_dir sha verify w
      (w\<lparr>xw_db := d, xw_renders := remove1 (k, out, Some r) (xw_renders w),
         xw_files := (if unlink then xw_files w - {out} else xw_files w)\<rparr>)"
| cancel: "get_export (xw_db w) k = Some j \<Longrightarrow> export_cancel (xw_db w) (xw_now w) j = (d, raw) \<Longrightarrow>
    safe_output_path resolve realpath cache_dir raw = Inr out \<Longrightarrow>
    export_step expand realpath resolve cache_dir sha verify w
      (w\<lparr>xw_db := d, xw_unlinks := xw_unlinks w @ (case out of None \<Rightarrow> [] | Some p \<Rightarrow> [p])\<rparr>)"
| expire: "expire_exports (xw_db w) (xw_now w) = (d, paths, n) \<Longrightarrow>
    export_step expand realpath resolve cache_dir sha verify w (w\<lparr>xw_db := d, xw_unlinks := xw_unlinks w @ paths\<rparr>)"
| unlink: "p \<in> set (xw_unlinks w) \<Longrightarrow>
    export_step expand realpath resolve cache_dir sha verify w
      (w\<lparr>xw_files := xw_files w - {p}, xw_unlinks := remove1 p (xw_unlinks w)\<rparr>)"
| share: "get_export (xw_db w) k = Some j \<Longrightarrow> get_share (xw_db w) i = None \<Longrightarrow>
    share_create sha (xw_db w) (xw_now w) i token hashed j user password period limit = Inr (d, s) \<Longrightarrow>
    export_step expand realpath resolve cache_dir sha verify w (w\<lparr>xw_db := d\<rparr>)"
| revoke: "get_share (xw_db w) i = Some s \<Longrightarrow>
    export_step expand realpath resolve cache_dir sha verify w (w\<lparr>xw_db := share_revoke (xw_db w) (xw_now w) s\<rparr>)"
| authorize: "authorize_download sha verify (xw_db w) (xw_now w) token password = Inr (s, j) \<Longrightarrow>
    export_step expand realpath resolve cache_dir sha verify w
      (w\<lparr>xw_authorized := xw_authorized w @ [sh_id s]\<rparr>)"
| download: "i \<in> set (xw_authorized w) \<Longrightarrow> consume_download (xw_db w) (xw_now w) i = Inr d \<Longrightarrow>
    export_step expand realpath resolve cache_dir sha verify w
      (w\<lparr>xw_db := d, xw_authorized := remove1 i (xw_authorized w),
         xw_downloads := xw_downloads w @ [(i, xw_now w)]\<rparr>)"

inductive_cases export_stepE: "export_step expand realpath resolve cache_dir sha verify w w'"

definition fresh_exports :: "db \<Rightarrow> instant \<Rightarrow> export_world" where
  "fresh_exports d now = \<lparr>xw_db = d, xw_now = now, xw_files = {}, xw_renders = [], xw_unlinks = [], xw_authorized = [],
     xw_downloads = []\<rparr>"

section \<open>Cancelled and expired jobs\<close>

definition over :: "export_job \<Rightarrow> bool" where
  "over j \<longleftrightarrow> ex_state j = ExportCancelled \<or> ex_state j = ExportExpired"

definition stays_over :: "export_job \<Rightarrow> export_job \<Rightarrow> bool" where
  "stays_over j j' \<longleftrightarrow> ex_id j' = ex_id j \<and> ex_expires_at j' = ex_expires_at j \<and> ex_camera_id j' = ex_camera_id j
     \<and> (over j \<longrightarrow> j' = j)"

text \<open>Every step maps the rows of the table in place and appends new ones; what is over stays as it is.\<close>

definition jobs_evolve :: "db \<Rightarrow> db \<Rightarrow> bool" where
  "jobs_evolve d d' \<longleftrightarrow> (\<exists>new. list_all2 stays_over (db_exports d @ new) (db_exports d')
     \<and> distinct (map ex_id new) \<and> (\<forall>j \<in> set new. get_export d (ex_id j) = None))"

lemma stays_over_refl [simp]: "stays_over j j"
  by (simp add: stays_over_def)

lemma stays_over_trans: "stays_over i j \<Longrightarrow> stays_over j k \<Longrightarrow> stays_over i k"
  by (auto simp: stays_over_def)

lemma jobs_evolve_same: "db_exports d' = db_exports d \<Longrightarrow> jobs_evolve d d'"
  unfolding jobs_evolve_def by (intro exI [of _ "[]"]) (simp add: list_all2_same)

lemma jobs_evolve_update:
  assumes "\<And>j. j \<in> set (db_exports d) \<Longrightarrow> ex_id j = k \<Longrightarrow> stays_over j (f j)"
  shows "jobs_evolve d (update_export k f d)"
  unfolding jobs_evolve_def using assms
  by (intro exI [of _ "[]"]) (auto simp: update_export_def list_all2_map2 list.rel_refl_strong intro!: list_all2_same [THEN iffD2])

lemma jobs_evolve_refl [simp]: "jobs_evolve d d"
  by (simp add: jobs_evolve_same)

lemma jobs_evolve_add: "get_export d (ex_id j) = None \<Longrightarrow> jobs_evolve d (add_export j d)"
  unfolding jobs_evolve_def by (intro exI [of _ "[j]"]) (simp add: add_export_def list.rel_refl)

lemma jobs_evolve_Some:
  assumes "jobs_evolve d d'" and "get_export d k = Some j"
  obtains j' where "get_export d' k = Some j'" "stays_over j j'"
proof -
  obtain new where "list_all2 stays_over (db_exports d @ new) (db_exports d')" using assms(1) by (auto simp: jobs_evolve_def)
  moreover have "find (\<lambda>j. ex_id j = k) (db_exports d @ new) = Some j"
    using assms(2) by (simp add: get_export_def find_append)
  moreover have "list_all2 stays_over xs ys \<Longrightarrow> find (\<lambda>j. ex_id j = k) xs = Some j \<Longrightarrow>
      \<exists>j'. find (\<lambda>j. ex_id j = k) ys = Some j' \<and> stays_over j j'" for xs ys
    by (induction rule: list_all2_induct) (auto simp: stays_over_def split: if_splits)
  ultimately show thesis using that by (auto simp: get_export_def)
qed

lemma export_create_rows:
  assumes "export_create sha d now k r key = Inr (d', j, created)"
  shows "(d' = d \<and> \<not> created) \<or> (\<exists>h. j = new_export k r h now \<and> d' = add_export j d \<and> created)"
  using assms by (auto simp: export_create_def existing_idempotent_def result_simps Let_def split: if_splits option.splits)

lemma export_create_evolves:
  "export_create sha d now k r key = Inr (d', j, created) \<Longrightarrow> get_export d k = None \<Longrightarrow> jobs_evolve d d'"
  by (drule export_create_rows) (auto simp: new_export_def intro: jobs_evolve_add)

lemma fetch_or_404_Some [simp]: "fetch_or_404 (Some r) c = Inr r"
  by simp

lemma export_prepare_cases:
  assumes "export_prepare expand realpath cache_dir d now k = Inr (d', x)"
  obtains j where "get_export d k = Some j" "over j \<or> ex_state j = ExportCompleted" "d' = d" "x = NotRendered (ex_state j)"
  | j where "get_export d k = Some j" "\<not> over j" "d' = update_export k (finish_export ExportExpired now) d" "x = NotRendered ExportExpired"
  | j code where "get_export d k = Some j" "\<not> over j" "ex_state j \<noteq> ExportCompleted"
      "d' = update_export k (fail_export code now) d" "x = NotRendered ExportFailed"
  | j p e where "get_export d k = Some j" "\<not> over j" "ex_state j \<noteq> ExportCompleted" "now < ex_expires_at j"
      "d' = update_export k (start_export now (export_output realpath cache_dir k) p) d" "x = Render e"
      "xe_export_id e = k" "xe_output_path e = export_output realpath cache_dir k"
      "build_export_plan expand realpath d (ex_camera_id j) (ex_requested_start_at j) (ex_requested_end_at j)
         (ex_gap_policy j) = Inr p"
proof -
  obtain j where j: "get_export d k = Some j" using assms by (auto simp: export_prepare_def result_simps)
  show thesis
  proof (cases "over j \<or> ex_state j = ExportCompleted")
    case True
    then show thesis using assms j that(1) [OF j] by (auto simp: export_prepare_def over_def)
  next
    case False
    then have open_job: "\<not> over j" "ex_state j \<noteq> ExportCompleted" by simp_all
    then have states: "ex_state j \<notin> {ExportCancelled, ExportExpired}" by (simp add: over_def)
    show thesis
    proof (cases "ex_expires_at j \<le> now")
      case True
      then show thesis using assms j open_job states that(2) [OF j open_job(1)] by (simp add: export_prepare_def)
    next
      case False
      then show thesis using assms j open_job states that(3) [OF j open_job] that(4) [OF j open_job]
        by (auto simp: export_prepare_def Let_def split: sum.splits error.splits)
    qed
  qed
qed

text \<open>A row found by its key is the only row with the key.\<close>

lemma keyed_row: "distinct (map ex_id (db_exports d)) \<Longrightarrow> get_export d k = Some j \<Longrightarrow> i \<in> set (db_exports d) \<Longrightarrow>
    ex_id i = k \<Longrightarrow> i = j"
  using exports.get_unique [of d i] by simp

lemma export_step_jobs:
  assumes "export_step expand realpath resolve cache_dir sha verify w w'" and "distinct (map ex_id (db_exports (xw_db w)))"
  shows "jobs_evolve (xw_db w) (xw_db w')"
  using assms(1)
proof (cases rule: export_step.cases)
  case (create k r key d j created)
  then show ?thesis by (simp add: export_create_evolves)
next
  case (prepare k d p)
  from prepare(2) show ?thesis unfolding prepare(1)
    by (rule export_prepare_cases)
      (auto intro!: jobs_evolve_update dest: keyed_row [OF assms(2)]
        simp: stays_over_def start_export_def finish_export_def fail_export_def)
next
  case (nothing_to_render k d st)
  from nothing_to_render(2) show ?thesis unfolding nothing_to_render(1)
    by (rule export_prepare_cases)
      (auto intro!: jobs_evolve_update dest: keyed_row [OF assms(2)]
        simp: stays_over_def start_export_def finish_export_def fail_export_def)
next
  case (render_failed k out code)
  then show ?thesis
    by (auto simp: export_mark_failed_def over_def fail_export_def stays_over_def split: option.splits
        intro!: jobs_evolve_update dest: keyed_row [OF assms(2)])
next
  case (complete k out r d unl st don)
  then show ?thesis
    by (auto simp: export_complete_def over_def finish_export_def complete_export_def stays_over_def
        split: option.splits if_splits intro!: jobs_evolve_update dest: keyed_row [OF assms(2)])
next
  case (cancel k j d raw out)
  then have "ex_id j = k" by (auto dest: exports.get_Some)
  with cancel show ?thesis
    by (auto simp: export_cancel_def over_def stays_over_def split: if_splits
        intro!: jobs_evolve_update dest: keyed_row [OF assms(2)])
next
  case (expire d paths n)
  have "list_all2 stays_over xs (map (\<lambda>j. if expirable (xw_now w) j
      then (finish_export ExportExpired (xw_now w) j)\<lparr>ex_output_path := None, ex_size_bytes := None\<rparr> else j) xs)" for xs
    by (induction xs) (auto simp: stays_over_def over_def expirable_def finish_export_def)
  with expire show ?thesis unfolding jobs_evolve_def
    by (intro exI [of _ "[]"]) (auto simp: expire_exports_def Let_def)
next
  case (share k j i token hashed user password period limit d s)
  then show ?thesis
    by (intro jobs_evolve_same) (auto simp: share_create_def add_share_def Let_def split: if_splits sum.splits)
next
  case (revoke i s)
  then show ?thesis by (intro jobs_evolve_same) (simp add: share_revoke_def update_share_def)
next
  case (download i d)
  then show ?thesis
    by (intro jobs_evolve_same) (auto simp: consume_download_def update_share_def split: option.splits if_splits)
qed (auto intro: jobs_evolve_same)

lemma jobs_evolve_distinct:
  assumes "jobs_evolve d d'" and "distinct (map ex_id (db_exports d))"
  shows "distinct (map ex_id (db_exports d'))"
proof -
  obtain new where new: "list_all2 stays_over (db_exports d @ new) (db_exports d')" "distinct (map ex_id new)"
    "\<forall>j \<in> set new. get_export d (ex_id j) = None" using assms(1) by (auto simp: jobs_evolve_def)
  have "list_all2 stays_over xs ys \<Longrightarrow> map ex_id xs = map ex_id ys" for xs ys
    by (induction rule: list_all2_induct) (auto simp: stays_over_def)
  then have "map ex_id (db_exports d') = map ex_id (db_exports d @ new)" using new(1) by metis
  moreover have "ex_id ` set (db_exports d) \<inter> ex_id ` set new = {}"
  proof -
    have "ex_id j \<notin> ex_id ` set (db_exports d)" if "j \<in> set new" for j
      using new(3) that by (simp add: exports.get_None_iff)
    then show ?thesis by (simp add: disjoint_iff image_iff) (metis)
  qed
  ultimately show ?thesis using new(2) assms(2) by simp
qed

lemma export_steps_jobs:
  assumes "(export_step expand realpath resolve cache_dir sha verify)\<^sup>*\<^sup>* w w'" and "distinct (map ex_id (db_exports (xw_db w)))"
  shows "distinct (map ex_id (db_exports (xw_db w')))
    \<and> (\<forall>k j. get_export (xw_db w) k = Some j \<longrightarrow> (\<exists>j'. get_export (xw_db w') k = Some j' \<and> stays_over j j'))"
  using assms(1)
proof (induction rule: rtranclp_induct)
  case base
  then show ?case using assms(2) by auto
next
  case (step v w')
  note evolve = export_step_jobs [OF step.hyps(2) conjunct1 [OF step.IH]]
  show ?case
  proof (intro conjI allI impI)
    show "distinct (map ex_id (db_exports (xw_db w')))" using jobs_evolve_distinct [OF evolve] step.IH by blast
  next
    fix k j
    assume "get_export (xw_db w) k = Some j"
    with step.IH obtain i where i: "get_export (xw_db v) k = Some i" "stays_over j i" by blast
    from jobs_evolve_Some [OF evolve i(1)] obtain j' where "get_export (xw_db w') k = Some j'" "stays_over i j'" .
    with i(2) show "\<exists>j'. get_export (xw_db w') k = Some j' \<and> stays_over j j'" by (blast intro: stays_over_trans)
  qed
qed

text \<open>
  C33: Cancelled and expired exports stay that way. Once a job is cancelled or expired, its row never
  changes again whatever renders, retries, cleanups and requests are still under way, no principal
  can download it, no share of it is honoured and no new share of it is made.
\<close>

theorem cancelled_export_stays:
  assumes "distinct (map ex_id (db_exports (xw_db w)))"
    and "(export_step expand realpath resolve cache_dir sha verify)\<^sup>*\<^sup>* w w'"
    and "get_export (xw_db w) k = Some j" and "ex_state j = ExportCancelled \<or> ex_state j = ExportExpired"
  shows "get_export (xw_db w') k = Some j
    \<and> (\<forall>is_file now context p. download_export resolve realpath cache_dir is_file (xw_db w') now context k \<noteq> Inr p)
    \<and> (\<forall>now token password s. authorize_download sha verify (xw_db w') now token password = Inr (s, j) \<longrightarrow> False)
    \<and> (\<forall>now i token hashed user password period limit x.
          share_create sha (xw_db w') now i token hashed j user password period limit \<noteq> Inr x)"
proof -
  have j: "get_export (xw_db w') k = Some j"
    using export_steps_jobs [OF assms(2,1)] assms(3,4) by (auto simp: stays_over_def over_def)
  have "download_export resolve realpath cache_dir is_file (xw_db w') now ctx k \<noteq> Inr p" for is_file now ctx p
    using j assms(4) by (auto simp: download_export_def scoped_export_def result_simps)
  moreover have "authorize_download sha verify (xw_db w') now token password \<noteq> Inr (s, j)" for now token password s
    using assms(4) by (auto simp: authorize_download_def split: option.splits if_splits)
  ultimately show ?thesis using j assms(4) by (auto simp: share_create_def)
qed

section \<open>Jobs and files\<close>

text \<open>
  The file of an export lies below the export directory (so that the routes accept it), and no two
  exports share one. Ids are 128-bit numbers.
\<close>

definition export_paths_ok :: "(path \<Rightarrow> path option) \<Rightarrow> (path \<Rightarrow> path) \<Rightarrow> path \<Rightarrow> bool" where
  "export_paths_ok resolve realpath cache_dir \<longleftrightarrow>
     (\<forall>k < 2 ^ 128. safe_output_path resolve realpath cache_dir (Some (export_output realpath cache_dir k))
        = Inr (Some (export_output realpath cache_dir k)))
     \<and> inj_on (export_output realpath cache_dir) {k. k < 2 ^ 128}"

text \<open>
  A completed export has its file. A file that exists is named by the row of an export, waits to be
  unlinked, or belongs to a render that has not reported yet.
\<close>

definition rows_files_ok :: "(uuid \<Rightarrow> path) \<Rightarrow> export_world \<Rightarrow> bool" where
  "rows_files_ok out w \<longleftrightarrow> distinct (map ex_id (db_exports (xw_db w)))
     \<and> (\<forall>j \<in> set (db_exports (xw_db w)). ex_id j < 2 ^ 128 \<and> (ex_output_path j = None \<or> ex_output_path j = Some (out (ex_id j)))
          \<and> (ex_state j = ExportCompleted \<longrightarrow> ex_output_path j = Some (out (ex_id j)) \<and> out (ex_id j) \<in> xw_files w))"

definition renders_files_ok :: "(uuid \<Rightarrow> path) \<Rightarrow> export_world \<Rightarrow> bool" where
  "renders_files_ok out w \<longleftrightarrow>
     (\<forall>(k, p, r) \<in> set (xw_renders w). p = out k \<and> (\<exists>j. get_export (xw_db w) k = Some j
          \<and> (r \<noteq> None \<longrightarrow> p \<in> xw_files w \<or> over j)))
     \<and> (\<forall>p \<in> set (xw_unlinks w). \<exists>k j. get_export (xw_db w) k = Some j \<and> p = out k \<and> over j)"

definition files_owned :: "export_world \<Rightarrow> bool" where
  "files_owned w \<longleftrightarrow> (\<forall>p \<in> xw_files w. p \<in> set (xw_unlinks w) \<or> (\<exists>j \<in> set (db_exports (xw_db w)). ex_output_path j = Some p)
     \<or> (\<exists>k r. (k, p, Some r) \<in> set (xw_renders w)))"

definition export_files_ok :: "(uuid \<Rightarrow> path) \<Rightarrow> export_world \<Rightarrow> bool" where
  "export_files_ok out w \<longleftrightarrow> rows_files_ok out w \<and> renders_files_ok out w \<and> files_owned w"

lemma renders_files_okD:
  assumes "renders_files_ok out w" and "(k, p, r) \<in> set (xw_renders w)"
  obtains j where "p = out k" "get_export (xw_db w) k = Some j" "r \<noteq> None \<longrightarrow> p \<in> xw_files w \<or> over j"
  using bspec [OF conjunct1 [OF assms(1) [unfolded renders_files_ok_def]] assms(2)] by auto

lemma unlinks_files_okD:
  assumes "renders_files_ok out w" and "p \<in> set (xw_unlinks w)"
  obtains k j where "get_export (xw_db w) k = Some j" "p = out k" "over j"
  using bspec [OF conjunct2 [OF assms(1) [unfolded renders_files_ok_def]] assms(2)] by auto

lemma renders_files_okI:
  assumes "\<And>k p r. (k, p, r) \<in> set (xw_renders w) \<Longrightarrow>
      p = out k \<and> (\<exists>j. get_export (xw_db w) k = Some j \<and> (r \<noteq> None \<longrightarrow> p \<in> xw_files w \<or> over j))"
    and "\<And>p. p \<in> set (xw_unlinks w) \<Longrightarrow> \<exists>k j. get_export (xw_db w) k = Some j \<and> p = out k \<and> over j"
  shows "renders_files_ok out w"
  unfolding renders_files_ok_def using assms by auto

text \<open>A step that only evolves the rows keeps the facts about renders and pending unlinks.\<close>

lemma renders_files_evolve:
  assumes "renders_files_ok out w" and "jobs_evolve (xw_db w) (xw_db w')"
    and "set (xw_renders w') \<subseteq> set (xw_renders w)" and "set (xw_unlinks w') \<subseteq> set (xw_unlinks w)"
    and "\<And>k j p. p \<in> xw_files w - xw_files w' \<Longrightarrow> p = out k \<Longrightarrow> get_export (xw_db w') k = Some j \<Longrightarrow> over j"
  shows "renders_files_ok out w'"
proof -
  have kept: "\<exists>j'. get_export (xw_db w') k = Some j' \<and> (over j \<longrightarrow> over j')" if "get_export (xw_db w) k = Some j" for k j
    using jobs_evolve_Some [OF assms(2) that] by (metis stays_over_def)
  show ?thesis
  proof (rule renders_files_okI)
    fix k p r
    assume r: "(k, p, r) \<in> set (xw_renders w')"
    with assms(3) have "(k, p, r) \<in> set (xw_renders w)" by blast
    from renders_files_okD [OF assms(1) this] obtain j where j: "p = out k" "get_export (xw_db w) k = Some j"
      "r \<noteq> None \<longrightarrow> p \<in> xw_files w \<or> over j" .
    from kept [OF j(2)] obtain j' where j': "get_export (xw_db w') k = Some j'" "over j \<longrightarrow> over j'" by blast
    have "r \<noteq> None \<longrightarrow> p \<in> xw_files w' \<or> over j'" using j(3) j'(2) assms(5) [OF _ j(1) j'(1)] by blast
    with j(1) j'(1) show "p = out k \<and> (\<exists>j. get_export (xw_db w') k = Some j \<and> (r \<noteq> None \<longrightarrow> p \<in> xw_files w' \<or> over j))"
      by blast
  next
    fix p
    assume "p \<in> set (xw_unlinks w')"
    with assms(4) have "p \<in> set (xw_unlinks w)" by blast
    from unlinks_files_okD [OF assms(1) this] kept
    show "\<exists>k j. get_export (xw_db w') k = Some j \<and> p = out k \<and> over j" by metis
  qed
qed

lemma rows_files_update:
  assumes rows: "rows_files_ok out w" and inj: "inj_on out {k. k < 2 ^ 128}" and j: "get_export (xw_db w) k = Some j"
    and upd: "db_exports (xw_db w') = db_exports (update_export k f (xw_db w))"
    and f: "\<And>e. ex_id (f e) = ex_id e" "ex_output_path (f j) = None \<or> ex_output_path (f j) = Some (out k)"
      "ex_state (f j) = ExportCompleted \<Longrightarrow> ex_output_path (f j) = Some (out k) \<and> out k \<in> xw_files w'"
    and files: "xw_files w - xw_files w' \<subseteq> {out k}"
  shows "rows_files_ok out w'"
proof -
  have jk: "ex_id j = k" "j \<in> set (db_exports (xw_db w))" using exports.get_Some [OF j] by simp_all
  have "distinct (map ex_id (db_exports (xw_db w')))"
    using rows f(1) unfolding upd by (simp add: exports.keys_upd rows_files_ok_def)
  moreover have "ex_id i < 2 ^ 128 \<and> (ex_output_path i = None \<or> ex_output_path i = Some (out (ex_id i)))
      \<and> (ex_state i = ExportCompleted \<longrightarrow> ex_output_path i = Some (out (ex_id i)) \<and> out (ex_id i) \<in> xw_files w')"
    if "i \<in> set (db_exports (xw_db w'))" for i
  proof -
    from exports.upd_mem [OF that [unfolded upd]] consider "i \<in> set (db_exports (xw_db w))" "ex_id i \<noteq> k"
      | e where "e \<in> set (db_exports (xw_db w))" "ex_id e = k" "i = f e" by blast
    then show ?thesis
    proof cases
      case 1
      then have "ex_id i < 2 ^ 128" "ex_id j < 2 ^ 128" using rows jk(2) by (auto simp: rows_files_ok_def)
      then have "out (ex_id i) \<noteq> out k" using inj 1(2) jk(1) by (auto simp: inj_on_def)
      with 1 rows files show ?thesis unfolding rows_files_ok_def by blast
    next
      case 2
      then have "e = j" using keyed_row [OF _ j] rows by (auto simp: rows_files_ok_def)
      moreover have "ex_id j < 2 ^ 128" using rows jk(2) by (auto simp: rows_files_ok_def)
      ultimately show ?thesis using 2 f jk(1) by auto
    qed
  qed
  ultimately show ?thesis by (simp add: rows_files_ok_def)
qed

lemma files_owned_update:
  assumes owned: "files_owned w" and upd: "db_exports (xw_db w') = db_exports (update_export k f (xw_db w))"
    and j: "get_export (xw_db w) k = Some j" and rows: "rows_files_ok out w"
    and keep: "xw_files w' \<subseteq> xw_files w \<union> {out k}" "set (xw_unlinks w) \<subseteq> set (xw_unlinks w')"
      "\<And>i p r. (i, p, Some r) \<in> set (xw_renders w) \<Longrightarrow> p \<noteq> out k \<Longrightarrow> (i, p, Some r) \<in> set (xw_renders w')"
    and here: "out k \<in> xw_files w' \<Longrightarrow> out k \<in> set (xw_unlinks w') \<or> ex_output_path (f j) = Some (out k)
      \<or> (\<exists>i r. (i, out k, Some r) \<in> set (xw_renders w'))"
  shows "files_owned w'"
  unfolding files_owned_def
proof
  fix p
  assume p: "p \<in> xw_files w'"
  have jk: "ex_id j = k" "j \<in> set (db_exports (xw_db w))" using exports.get_Some [OF j] by simp_all
  have member: "f j \<in> set (db_exports (xw_db w'))" using jk unfolding upd by (auto simp: update_export_def)
  have other: "i \<in> set (db_exports (xw_db w'))" if "i \<in> set (db_exports (xw_db w))" "ex_id i \<noteq> k" for i
    using that unfolding upd by (auto simp: update_export_def)
  show "p \<in> set (xw_unlinks w') \<or> (\<exists>j \<in> set (db_exports (xw_db w')). ex_output_path j = Some p)
      \<or> (\<exists>k r. (k, p, Some r) \<in> set (xw_renders w'))"
  proof (cases "p = out k")
    case True
    with here p member show ?thesis by blast
  next
    case False
    with p keep(1) have "p \<in> xw_files w" by blast
    with owned consider "p \<in> set (xw_unlinks w)" | i where "i \<in> set (db_exports (xw_db w))" "ex_output_path i = Some p"
      | i r where "(i, p, Some r) \<in> set (xw_renders w)" unfolding files_owned_def by blast
    then show ?thesis
    proof cases
      case 2
      have "ex_id i \<noteq> k"
      proof
        assume "ex_id i = k"
        with 2 rows False show False unfolding rows_files_ok_def by fastforce
      qed
      with 2 other show ?thesis by blast
    qed (use keep False in blast)+
  qed
qed

lemma export_files_same:
  assumes "export_files_ok out w" and "db_exports (xw_db w') = db_exports (xw_db w)"
    and "xw_files w' = xw_files w" "xw_renders w' = xw_renders w" "xw_unlinks w' = xw_unlinks w"
  shows "export_files_ok out w'"
  using assms by (simp add: export_files_ok_def rows_files_ok_def renders_files_ok_def files_owned_def get_export_def)

lemma export_files_create:
  assumes ok: "export_files_ok out w" and k: "get_export (xw_db w) k = None" "k < 2 ^ 128"
    and "export_create sha (xw_db w) (xw_now w) k r key = Inr (d, j, created)"
  shows "export_files_ok out (w\<lparr>xw_db := d\<rparr>)"
proof -
  from export_create_rows [OF assms(4)] consider "d = xw_db w"
    | h where "j = new_export k r h (xw_now w)" "d = add_export j (xw_db w)" by blast
  then show ?thesis
  proof cases
    case 1
    with ok show ?thesis by (auto intro: export_files_same)
  next
    case 2
    have "jobs_evolve (xw_db w) d" using 2 k by (simp add: jobs_evolve_add new_export_def)
    then have "renders_files_ok out (w\<lparr>xw_db := d\<rparr>)"
      using ok by (auto intro: renders_files_evolve simp: export_files_ok_def)
    moreover have "rows_files_ok out (w\<lparr>xw_db := d\<rparr>)" "files_owned (w\<lparr>xw_db := d\<rparr>)"
      using ok 2 k by (auto simp: export_files_ok_def rows_files_ok_def files_owned_def add_export_def new_export_def
          exports.get_None_iff)
    ultimately show ?thesis by (simp add: export_files_ok_def)
  qed
qed

lemma export_files_prepare:
  assumes ok: "export_files_ok (export_output realpath cache_dir) w"
    and inj: "inj_on (export_output realpath cache_dir) {k. k < 2 ^ 128}"
    and evolve: "jobs_evolve (xw_db w) d"
    and prep: "export_prepare expand realpath cache_dir (xw_db w) (xw_now w) k = Inr (d, x)"
  shows "export_files_ok (export_output realpath cache_dir) (w\<lparr>xw_db := d,
    xw_renders := xw_renders w @ (case x of Render p \<Rightarrow> [(xe_export_id p, xe_output_path p, None)] | NotRendered _ \<Rightarrow> [])\<rparr>)"
proof -
  let ?out = "export_output realpath cache_dir"
  have parts: "rows_files_ok ?out w" "renders_files_ok ?out w" "files_owned w" using ok by (simp_all add: export_files_ok_def)
  have updated: "rows_files_ok ?out (w\<lparr>xw_db := d, xw_renders := rs\<rparr>) \<and> files_owned (w\<lparr>xw_db := d, xw_renders := rs\<rparr>)"
    if "get_export (xw_db w) k = Some j" "d = update_export k f (xw_db w)" "\<And>e. ex_id (f e) = ex_id e"
      "ex_state (f j) \<noteq> ExportCompleted" "ex_output_path (f j) = ex_output_path j \<or> ex_output_path (f j) = Some (?out k)"
      "set (xw_renders w) \<subseteq> set rs" for j f rs
  proof -
    note upd = that
    have j: "ex_id j = k" "j \<in> set (db_exports (xw_db w))" using exports.get_Some [OF that(1)] by simp_all
    with parts(1) have path: "ex_output_path j = None \<or> ex_output_path j = Some (?out k)" by (auto simp: rows_files_ok_def)
    have "?out k \<in> set (xw_unlinks w) \<or> ex_output_path (f j) = Some (?out k) \<or> (\<exists>i r. (i, ?out k, Some r) \<in> set rs)"
      if here: "?out k \<in> xw_files w"
    proof -
      from parts(3) here consider "?out k \<in> set (xw_unlinks w)"
        | i where "i \<in> set (db_exports (xw_db w))" "ex_output_path i = Some (?out k)"
        | i r where "(i, ?out k, Some r) \<in> set (xw_renders w)" unfolding files_owned_def by blast
      then show ?thesis
      proof cases
        case 2
        then have "ex_id i < 2 ^ 128" "ex_id j < 2 ^ 128" "?out (ex_id i) = ?out k"
          using parts(1) j by (auto simp: rows_files_ok_def)
        then have "ex_id i = k" using inj j by (auto simp: inj_on_def)
        with 2 have "i = j" using keyed_row [OF _ \<open>get_export (xw_db w) k = Some j\<close>] parts(1) by (auto simp: rows_files_ok_def)
        with 2 upd(5) show ?thesis by auto
      qed (use upd(6) in blast)+
    qed
    then show ?thesis
      using rows_files_update [OF parts(1) inj that(1), of "w\<lparr>xw_db := d, xw_renders := rs\<rparr>" f]
        files_owned_update [OF parts(3) _ that(1) parts(1), of "w\<lparr>xw_db := d, xw_renders := rs\<rparr>" f] that path
      by auto
  qed
  have evolved: "renders_files_ok ?out (w\<lparr>xw_db := d\<rparr>)" using parts(2) evolve by (auto intro: renders_files_evolve)
  from prep show ?thesis
  proof (cases rule: export_prepare_cases)
    case (1 j)
    then show ?thesis using ok by (auto intro: export_files_same)
  next
    case (2 j)
    then show ?thesis using updated [OF 2(1,3), of "xw_renders w"] evolved
      by (simp add: export_files_ok_def finish_export_def)
  next
    case (3 j code)
    then show ?thesis using updated [OF 3(1,4), of "xw_renders w"] evolved
      by (simp add: export_files_ok_def fail_export_def)
  next
    case (4 j p e)
    from jobs_evolve_Some [OF evolve 4(1)] obtain i where i: "get_export d k = Some i" .
    have "renders_files_ok ?out (w\<lparr>xw_db := d, xw_renders := xw_renders w @ [(xe_export_id e, xe_output_path e, None)]\<rparr>)"
      using evolved i 4(7,8) unfolding renders_files_ok_def by auto
    moreover have "rows_files_ok ?out (w\<lparr>xw_db := d, xw_renders := xw_renders w @ [(xe_export_id e, xe_output_path e, None)]\<rparr>)
        \<and> files_owned (w\<lparr>xw_db := d, xw_renders := xw_renders w @ [(xe_export_id e, xe_output_path e, None)]\<rparr>)"
      by (rule updated [OF 4(1,5)]) (auto simp: start_export_def)
    ultimately show ?thesis using 4(6) by (simp add: export_files_ok_def)
  qed
qed

lemma map_if_id [simp]: "map (\<lambda>x. if P x then id x else x) xs = xs"
  by (induction xs) auto

text \<open>The end of a render: its row is closed, completed or left alone, and the file kept or unlinked.\<close>

lemma export_files_complete:
  assumes ok: "export_files_ok out w" and inj: "inj_on out {k. k < 2 ^ 128}"
    and evolve: "jobs_evolve (xw_db w) d" and render: "(k, p, Some r) \<in> set (xw_renders w)"
    and complete: "export_complete (xw_db w) (xw_now w) k p r = (d, unl, st, fin)"
  shows "export_files_ok out (w\<lparr>xw_db := d, xw_renders := remove1 (k, p, Some r) (xw_renders w),
    xw_files := (if unl then xw_files w - {p} else xw_files w)\<rparr>)" (is "export_files_ok out ?w")
proof -
  have parts: "rows_files_ok out w" "renders_files_ok out w" "files_owned w" using ok by (simp_all add: export_files_ok_def)
  from renders_files_okD [OF parts(2) render] obtain j where j: "p = out k" "get_export (xw_db w) k = Some j"
    "p \<in> xw_files w \<or> over j" by auto
  have jk: "ex_id j = k" "j \<in> set (db_exports (xw_db w))" using exports.get_Some [OF j(2)] by simp_all
  have path: "ex_output_path j = None \<or> ex_output_path j = Some (out k)" using parts(1) jk by (auto simp: rows_files_ok_def)
  define f where "f = (if over j then id else if ex_expires_at j \<le> xw_now w
    then (\<lambda>e. (finish_export ExportExpired (xw_now w) e)\<lparr>ex_output_path := None, ex_size_bytes := None\<rparr>)
    else complete_export p r (xw_now w))"
  have d: "db_exports d = db_exports (update_export k f (xw_db w))"
    and unl: "unl \<longleftrightarrow> over j \<or> ex_expires_at j \<le> xw_now w"
    using complete j(2) by (auto simp: export_complete_def f_def over_def update_export_def simp del: id_apply split: if_splits)
  have ids: "ex_id (f e) = ex_id e" for e by (simp add: f_def finish_export_def complete_export_def)
  have fj: "ex_output_path (f j) = None \<or> ex_output_path (f j) = Some (out k)"
    "unl \<Longrightarrow> over (f j)" "ex_state (f j) = ExportCompleted \<Longrightarrow> ex_output_path (f j) = Some (out k) \<and> \<not> unl"
    "\<not> unl \<Longrightarrow> ex_output_path (f j) = Some (out k)"
    unfolding f_def using path j(1) unl
    by (cases "over j"; cases "ex_expires_at j \<le> xw_now w"; auto simp: over_def finish_export_def complete_export_def)+
  have rows: "rows_files_ok out ?w"
    by (rule rows_files_update [OF parts(1) inj j(2), where f = f]) (use d ids fj j(1,3) unl in \<open>auto split: if_splits\<close>)
  have gone: "out k \<in> xw_files ?w \<Longrightarrow> \<not> unl" using j(1) by (auto split: if_splits)
  have owned: "files_owned ?w"
  proof (rule files_owned_update [OF parts(3) _ j(2) parts(1), where f = f])
    show "db_exports (xw_db ?w) = db_exports (update_export k f (xw_db w))" using d by simp
    show "(i, q, Some r') \<in> set (xw_renders ?w)" if "(i, q, Some r') \<in> set (xw_renders w)" "q \<noteq> out k" for i q r'
      using that j(1) by (simp add: in_set_remove1)
    show "out k \<in> set (xw_unlinks ?w) \<or> ex_output_path (f j) = Some (out k) \<or> (\<exists>i r. (i, out k, Some r) \<in> set (xw_renders ?w))"
      if "out k \<in> xw_files ?w" using gone [OF that] fj(4) by blast
  qed auto
  have "renders_files_ok out ?w"
  proof (rule renders_files_evolve [OF parts(2)])
    show "jobs_evolve (xw_db w) (xw_db ?w)" using evolve by simp
    show "set (xw_renders ?w) \<subseteq> set (xw_renders w)" by (simp add: set_remove1_subset)
    fix i e q
    assume q: "q \<in> xw_files w - xw_files ?w" "q = out i" "get_export (xw_db ?w) i = Some e"
    then have "unl" "out i = out k" using j(1) by (auto split: if_splits)
    moreover have "i < 2 ^ 128" "k < 2 ^ 128"
      using rows exports.get_Some [OF q(3)] parts(1) jk by (auto simp: rows_files_ok_def)
    ultimately have "i = k" using inj by (auto simp: inj_on_def)
    moreover have "get_export d k = map_option f (Some j)"
      using exports.get_upd [of f k "xw_db w" k] ids j(2) d by (simp add: get_export_def)
    ultimately show "over e" using q(3) fj(2) \<open>unl\<close> by simp
  qed simp
  with rows owned show ?thesis by (simp only: export_files_ok_def simp_thms)
qed

lemma export_files_failed:
  assumes ok: "export_files_ok out w" and inj: "inj_on out {k. k < 2 ^ 128}"
    and evolve: "jobs_evolve (xw_db w) (export_mark_failed (xw_db w) (xw_now w) k code)"
    and render: "(k, p, None) \<in> set (xw_renders w)"
  shows "export_files_ok out (w\<lparr>xw_db := export_mark_failed (xw_db w) (xw_now w) k code,
    xw_renders := remove1 (k, p, None) (xw_renders w)\<rparr>)" (is "export_files_ok out ?w")
proof -
  have parts: "rows_files_ok out w" "renders_files_ok out w" "files_owned w" using ok by (simp_all add: export_files_ok_def)
  from renders_files_okD [OF parts(2) render] obtain j where j: "p = out k" "get_export (xw_db w) k = Some j" by auto
  have jk: "ex_id j = k" "j \<in> set (db_exports (xw_db w))" using exports.get_Some [OF j(2)] by simp_all
  define f where "f = (if over j then id else fail_export code (xw_now w))"
  have d: "db_exports (xw_db ?w) = db_exports (update_export k f (xw_db w))"
    using j(2) by (auto simp: export_mark_failed_def f_def over_def update_export_def simp del: id_apply)
  have f: "ex_id (f e) = ex_id e" "ex_output_path (f e) = ex_output_path e" "ex_state (f e) = ExportCompleted \<longrightarrow> over j \<and> f e = e" for e
    by (simp_all add: f_def fail_export_def)
  have path: "ex_output_path j = None \<or> ex_output_path j = Some (out k)" using parts(1) jk by (auto simp: rows_files_ok_def)
  have "ex_state (f j) \<noteq> ExportCompleted" by (auto simp: f_def over_def fail_export_def)
  then have rows: "rows_files_ok out ?w"
    by (intro rows_files_update [OF parts(1) inj j(2) d]) (use f path in auto)
  have "files_owned ?w"
    unfolding files_owned_def
  proof
    fix q
    assume "q \<in> xw_files ?w"
    then have "q \<in> xw_files w" by simp
    with parts(3) consider "q \<in> set (xw_unlinks w)" | i where "i \<in> set (db_exports (xw_db w))" "ex_output_path i = Some q"
      | i r where "(i, q, Some r) \<in> set (xw_renders w)" unfolding files_owned_def by blast
    then show "q \<in> set (xw_unlinks ?w) \<or> (\<exists>j \<in> set (db_exports (xw_db ?w)). ex_output_path j = Some q)
        \<or> (\<exists>k r. (k, q, Some r) \<in> set (xw_renders ?w))"
    proof cases
      case 2
      then have "(if ex_id i = k then f i else i) \<in> set (db_exports (xw_db ?w))" unfolding d by (auto simp: update_export_def)
      moreover have "ex_output_path (if ex_id i = k then f i else i) = Some q" using 2 f by simp
      ultimately show ?thesis by blast
    next
      case 3
      then have "(i, q, Some r) \<in> set (xw_renders ?w)" by (simp add: in_set_remove1)
      then show ?thesis by blast
    qed simp
  qed
  moreover have "renders_files_ok out ?w"
    by (rule renders_files_evolve [OF parts(2)]) (use evolve in \<open>auto dest: in_set_remove1 [THEN iffD1, rotated] notin_set_remove1\<close>)
  ultimately show ?thesis using rows by (simp only: export_files_ok_def simp_thms)
qed

lemma export_files_rendered:
  assumes ok: "export_files_ok out w" and render: "(k, p, None) \<in> set (xw_renders w)"
  shows "export_files_ok out (w\<lparr>xw_files := insert p (xw_files w),
    xw_renders := remove1 (k, p, None) (xw_renders w) @ [(k, p, Some r)]\<rparr>)" (is "export_files_ok out ?w")
proof -
  have parts: "rows_files_ok out w" "renders_files_ok out w" "files_owned w" using ok by (simp_all add: export_files_ok_def)
  from renders_files_okD [OF parts(2) render] obtain j where j: "p = out k" "get_export (xw_db w) k = Some j" by auto
  have "renders_files_ok out ?w"
  proof (rule renders_files_okI)
    fix i q r'
    assume "(i, q, r') \<in> set (xw_renders ?w)"
    then consider "(i, q, r') \<in> set (xw_renders w)" | "i = k" "q = p" by (auto dest: notin_set_remove1)
    then show "q = out i \<and> (\<exists>j. get_export (xw_db ?w) i = Some j \<and> (r' \<noteq> None \<longrightarrow> q \<in> xw_files ?w \<or> over j))"
    proof cases
      case 1
      from renders_files_okD [OF parts(2) 1] show ?thesis by auto
    next
      case 2
      with j show ?thesis by auto
    qed
  next
    fix q
    assume "q \<in> set (xw_unlinks ?w)"
    then have "q \<in> set (xw_unlinks w)" by simp
    from unlinks_files_okD [OF parts(2) this] obtain i e where "get_export (xw_db w) i = Some e" "q = out i" "over e" .
    then show "\<exists>k j. get_export (xw_db ?w) k = Some j \<and> q = out k \<and> over j" by auto
  qed
  moreover have "rows_files_ok out ?w" using parts(1) by (auto simp: rows_files_ok_def)
  moreover have "files_owned ?w"
    using parts(3) unfolding files_owned_def by (auto simp: in_set_remove1)
  ultimately show ?thesis by (simp only: export_files_ok_def simp_thms)
qed

lemma export_files_unlink:
  assumes ok: "export_files_ok out w" and inj: "inj_on out {k. k < 2 ^ 128}" and p: "p \<in> set (xw_unlinks w)"
  shows "export_files_ok out (w\<lparr>xw_files := xw_files w - {p}, xw_unlinks := remove1 p (xw_unlinks w)\<rparr>)" (is "export_files_ok out ?w")
proof -
  have parts: "rows_files_ok out w" "renders_files_ok out w" "files_owned w" using ok by (simp_all add: export_files_ok_def)
  from unlinks_files_okD [OF parts(2) p] obtain k j where j: "get_export (xw_db w) k = Some j" "p = out k" "over j" .
  have same: "i = j" if "i \<in> set (db_exports (xw_db w))" "out (ex_id i) = p" for i
  proof -
    have "ex_id i < 2 ^ 128" "k < 2 ^ 128" using parts(1) that(1) exports.get_Some [OF j(1)] by (auto simp: rows_files_ok_def)
    then have "ex_id i = k" using inj that(2) j(2) by (auto simp: inj_on_def)
    then show ?thesis using keyed_row [OF _ j(1) that(1)] parts(1) by (auto simp: rows_files_ok_def)
  qed
  have "rows_files_ok out ?w"
    using parts(1) same j(3) unfolding rows_files_ok_def by (auto simp: over_def)
  moreover have "renders_files_ok out ?w"
  proof (rule renders_files_evolve [OF parts(2)])
    fix i e q
    assume q: "q \<in> xw_files w - xw_files ?w" "q = out i" "get_export (xw_db ?w) i = Some e"
    then have "out i = p" "e \<in> set (db_exports (xw_db w))" "ex_id e = i" using exports.get_Some [of "xw_db w" i e] by auto
    with same [of e] j(3) show "over e" by simp
  qed (auto simp: set_remove1_subset)
  moreover have "files_owned ?w"
    using parts(3) unfolding files_owned_def by auto
  ultimately show ?thesis by (simp only: export_files_ok_def simp_thms)
qed

lemma export_files_cancel:
  assumes ok: "export_files_ok (export_output realpath cache_dir) w" and paths: "export_paths_ok resolve realpath cache_dir"
    and evolve: "jobs_evolve (xw_db w) d" and j: "get_export (xw_db w) k = Some j"
    and cancel: "export_cancel (xw_db w) (xw_now w) j = (d, raw)"
    and safe: "safe_output_path resolve realpath cache_dir raw = Inr out"
  shows "export_files_ok (export_output realpath cache_dir)
    (w\<lparr>xw_db := d, xw_unlinks := xw_unlinks w @ (case out of None \<Rightarrow> [] | Some p \<Rightarrow> [p])\<rparr>)" (is "export_files_ok ?out ?w")
proof -
  have parts: "rows_files_ok ?out w" "renders_files_ok ?out w" "files_owned w" using ok by (simp_all add: export_files_ok_def)
  have inj: "inj_on ?out {k. k < 2 ^ 128}" using paths by (simp add: export_paths_ok_def)
  have jk: "ex_id j = k" "j \<in> set (db_exports (xw_db w))" using exports.get_Some [OF j] by simp_all
  have k: "k < 2 ^ 128" "ex_output_path j = None \<or> ex_output_path j = Some (?out k)" using parts(1) jk by (auto simp: rows_files_ok_def)
  have raw: "raw = ex_output_path j" using cancel by (auto simp: export_cancel_def split: if_splits)
  then have out: "out = ex_output_path j" using safe k paths by (auto simp: safe_output_path_def export_paths_ok_def)
  define f :: "export_job \<Rightarrow> export_job" where "f = (if over j then id else (\<lambda>e. e\<lparr>ex_state := ExportCancelled, ex_completed_at := Some (xw_now w),
    ex_output_path := None, ex_size_bytes := None\<rparr>))"
  have d: "db_exports (xw_db ?w) = db_exports (update_export k f (xw_db w))"
    using cancel jk by (auto simp: export_cancel_def f_def over_def update_export_def simp del: id_apply split: if_splits)
  have f: "ex_id (f e) = ex_id e" "over (f j)" for e by (simp_all add: f_def over_def)
  then have "ex_state (f j) \<noteq> ExportCompleted" by (auto simp: over_def)
  moreover have path: "ex_output_path (f j) = None \<or> ex_output_path (f j) = ex_output_path j" by (simp add: f_def)
  ultimately have rows: "rows_files_ok ?out ?w"
    by (intro rows_files_update [OF parts(1) inj j d]) (use f k in auto)
  have owned: "files_owned ?w"
  proof (rule files_owned_update [OF parts(3) d j parts(1)])
    assume "?out k \<in> xw_files ?w"
    then have "?out k \<in> xw_files w" by simp
    with parts(3) consider "?out k \<in> set (xw_unlinks w)" | i where "i \<in> set (db_exports (xw_db w))" "ex_output_path i = Some (?out k)"
      | i r where "(i, ?out k, Some r) \<in> set (xw_renders w)" unfolding files_owned_def by blast
    then show "?out k \<in> set (xw_unlinks ?w) \<or> ex_output_path (f j) = Some (?out k) \<or> (\<exists>i r. (i, ?out k, Some r) \<in> set (xw_renders ?w))"
    proof cases
      case 2
      then have "ex_id i < 2 ^ 128" "?out (ex_id i) = ?out k" using parts(1) by (auto simp: rows_files_ok_def)
      then have "ex_id i = k" using inj k(1) by (auto simp: inj_on_def)
      then have "i = j" using keyed_row [OF _ j 2(1)] parts(1) by (auto simp: rows_files_ok_def)
      with 2 out show ?thesis by simp
    qed auto
  qed auto
  have "over e" if "get_export d k = Some e" for e
    using that exports.get_upd [of f k "xw_db w" k] f j d by (simp add: get_export_def)
  moreover obtain e where "get_export d k = Some e" using jobs_evolve_Some [OF evolve j] .
  moreover have "renders_files_ok ?out (w\<lparr>xw_db := d\<rparr>)" using parts(2) evolve by (auto intro: renders_files_evolve)
  ultimately have "renders_files_ok ?out ?w"
    unfolding renders_files_ok_def out using k(2) by (cases "ex_output_path j") auto
  with rows owned show ?thesis by (simp only: export_files_ok_def simp_thms)
qed

lemma export_files_expire:
  assumes ok: "export_files_ok out w" and evolve: "jobs_evolve (xw_db w) d"
    and expire: "expire_exports (xw_db w) (xw_now w) = (d, paths, n)"
  shows "export_files_ok out (w\<lparr>xw_db := d, xw_unlinks := xw_unlinks w @ paths\<rparr>)" (is "export_files_ok out ?w")
proof -
  have parts: "rows_files_ok out w" "renders_files_ok out w" "files_owned w" using ok by (simp_all add: export_files_ok_def)
  define g where "g j = (if expirable (xw_now w) j
    then (finish_export ExportExpired (xw_now w) j)\<lparr>ex_output_path := None, ex_size_bytes := None\<rparr> else j)" for j :: export_job
  have d: "db_exports d = map g (db_exports (xw_db w))"
    and paths: "p \<in> set paths \<longleftrightarrow> (\<exists>j \<in> set (db_exports (xw_db w)). expirable (xw_now w) j \<and> ex_output_path j = Some p)" for p
    using expire by (auto 4 4 simp: expire_exports_def g_def Let_def eq_commute [of "Some p"] split: option.splits)
  have g: "ex_id (g j) = ex_id j" "ex_output_path (g j) = None \<or> ex_output_path (g j) = ex_output_path j"
    "ex_state (g j) = ExportCompleted \<Longrightarrow> g j = j" "expirable (xw_now w) j \<Longrightarrow> over (g j)" for j
    by (auto simp: g_def finish_export_def over_def)
  have distinct: "distinct (map ex_id (db_exports d))"
    using parts(1) jobs_evolve_distinct [OF evolve] by (simp add: rows_files_ok_def)
  have rows: "rows_files_ok out ?w"
    unfolding rows_files_ok_def
  proof (intro conjI ballI)
    fix i
    assume "i \<in> set (db_exports (xw_db ?w))"
    then obtain j where j: "j \<in> set (db_exports (xw_db w))" "i = g j" using d by auto
    with parts(1) have row: "ex_id j < 2 ^ 128" "ex_output_path j = None \<or> ex_output_path j = Some (out (ex_id j))"
      "ex_state j = ExportCompleted \<longrightarrow> ex_output_path j = Some (out (ex_id j)) \<and> out (ex_id j) \<in> xw_files w"
      by (auto simp: rows_files_ok_def)
    with g(1) [of j] g(2) [of j] j show "ex_id i < 2 ^ 128" "ex_output_path i = None \<or> ex_output_path i = Some (out (ex_id i))" by auto
    show "ex_state i = ExportCompleted \<longrightarrow> ex_output_path i = Some (out (ex_id i)) \<and> out (ex_id i) \<in> xw_files ?w"
      using row(3) g(3) [of j] j by auto
  qed (use distinct in simp)
  have "renders_files_ok out (w\<lparr>xw_db := d\<rparr>)" using parts(2) evolve by (auto intro: renders_files_evolve)
  moreover have "\<exists>k j. get_export d k = Some j \<and> p = out k \<and> over j" if "p \<in> set paths" for p
  proof -
    from that paths obtain j where j: "j \<in> set (db_exports (xw_db w))" "expirable (xw_now w) j" "ex_output_path j = Some p" by blast
    then have "g j \<in> set (db_exports d)" "p = out (ex_id j)" using d parts(1) by (auto simp: rows_files_ok_def)
    with exports.get_unique [OF distinct, of "g j"] g(1,4) j(2) show ?thesis by metis
  qed
  ultimately have "renders_files_ok out ?w" unfolding renders_files_ok_def by auto
  moreover have "files_owned ?w"
    unfolding files_owned_def
  proof
    fix p
    assume "p \<in> xw_files ?w"
    then have "p \<in> xw_files w" by simp
    with parts(3) consider "p \<in> set (xw_unlinks w)" | j where "j \<in> set (db_exports (xw_db w))" "ex_output_path j = Some p"
      | k r where "(k, p, Some r) \<in> set (xw_renders w)" unfolding files_owned_def by blast
    then show "p \<in> set (xw_unlinks ?w) \<or> (\<exists>j \<in> set (db_exports (xw_db ?w)). ex_output_path j = Some p)
        \<or> (\<exists>k r. (k, p, Some r) \<in> set (xw_renders ?w))"
    proof cases
      case 2
      then show ?thesis using paths [of p] d by (cases "expirable (xw_now w) j") (auto simp: g_def)
    qed auto
  qed
  ultimately show ?thesis using rows by (simp only: export_files_ok_def simp_thms)
qed

lemma export_files_lost:
  assumes ok: "export_files_ok out w"
  shows "export_files_ok out (w\<lparr>xw_renders := remove1 (k, p, None) (xw_renders w)\<rparr>)" (is "export_files_ok out ?w")
proof -
  have parts: "rows_files_ok out w" "renders_files_ok out w" "files_owned w" using ok by (simp_all add: export_files_ok_def)
  have "rows_files_ok out ?w" using parts(1) by (simp add: rows_files_ok_def)
  moreover have "renders_files_ok out ?w"
    by (rule renders_files_evolve [OF parts(2)]) (auto simp: jobs_evolve_same dest: set_remove1_subset [THEN subsetD])
  moreover have "files_owned ?w"
    unfolding files_owned_def
  proof
    fix q
    assume "q \<in> xw_files ?w"
    then have "q \<in> xw_files w" by simp
    with parts(3) show "q \<in> set (xw_unlinks ?w) \<or> (\<exists>j \<in> set (db_exports (xw_db ?w)). ex_output_path j = Some q)
        \<or> (\<exists>k r. (k, q, Some r) \<in> set (xw_renders ?w))"
      unfolding files_owned_def by (auto simp: in_set_remove1)
  qed
  ultimately show ?thesis by (simp only: export_files_ok_def simp_thms)
qed

lemma export_files_step:
  assumes step: "export_step expand realpath resolve cache_dir sha verify w w'"
    and ok: "export_files_ok (export_output realpath cache_dir) w" and paths: "export_paths_ok resolve realpath cache_dir"
  shows "export_files_ok (export_output realpath cache_dir) w'"
proof -
  have evolve: "jobs_evolve (xw_db w) (xw_db w')"
    using ok by (intro export_step_jobs [OF step]) (simp add: export_files_ok_def rows_files_ok_def)
  have inj: "inj_on (export_output realpath cache_dir) {k. k < 2 ^ 128}" using paths by (simp add: export_paths_ok_def)
  from step show ?thesis
  proof (cases rule: export_step.cases)
    case (create k r key d j created)
    then show ?thesis using export_files_create [OF ok create(2-4)] by simp
  next
    case (prepare k d p)
    then show ?thesis using export_files_prepare [OF ok inj _ prepare(2)] evolve by simp
  next
    case (nothing_to_render k d st)
    then show ?thesis using export_files_prepare [OF ok inj _ nothing_to_render(2)] evolve by simp
  next
    case (rendered k out r)
    then show ?thesis using export_files_rendered [OF ok] by simp
  next
    case (render_failed k out code)
    then show ?thesis using export_files_failed [OF ok inj _ render_failed(2)] evolve by simp
  next
    case (worker_lost k out)
    then show ?thesis using export_files_lost [OF ok] by simp
  next
    case (complete k out r d unl st don)
    then show ?thesis using export_files_complete [OF ok inj _ complete(2,3)] evolve by simp
  next
    case (cancel k j d raw out)
    then show ?thesis using export_files_cancel [OF ok paths _ cancel(2-4)] evolve by simp
  next
    case (expire d ps n)
    then show ?thesis using export_files_expire [OF ok _ expire(2)] evolve by simp
  next
    case (unlink p)
    then show ?thesis using export_files_unlink [OF ok inj] by simp
  next
    case (share k j i token hashed user password period limit d s)
    then show ?thesis by (intro export_files_same [OF ok]) (auto simp: share_create_def add_share_def Let_def split: if_splits sum.splits)
  next
    case (revoke i s)
    then show ?thesis by (intro export_files_same [OF ok]) (auto simp: share_revoke_def update_share_def)
  next
    case (download i d)
    then show ?thesis by (intro export_files_same [OF ok]) (auto simp: consume_download_def update_share_def split: option.splits if_splits)
  qed (use ok in \<open>auto intro: export_files_same\<close>)
qed

lemma export_files_reachable:
  assumes "(export_step expand realpath resolve cache_dir sha verify)\<^sup>*\<^sup>* (fresh_exports d now) w"
    and "db_exports d = []" and "export_paths_ok resolve realpath cache_dir"
  shows "export_files_ok (export_output realpath cache_dir) w"
  using assms(1)
proof (induction rule: rtranclp_induct)
  case base
  then show ?case using assms(2)
    by (simp add: export_files_ok_def rows_files_ok_def renders_files_ok_def files_owned_def fresh_exports_def)
next
  case (step v w)
  then show ?case using export_files_step assms(3) by blast
qed


section \<open>Counted downloads\<close>

definition downloads_of :: "uuid \<Rightarrow> export_world \<Rightarrow> (uuid \<times> instant) list" where
  "downloads_of i w = filter (\<lambda>x. fst x = i) (xw_downloads w)"

definition share_row_ok :: "export_world \<Rightarrow> export_share \<Rightarrow> bool" where
  "share_row_ok w s \<longleftrightarrow> sh_download_count s = int (length (downloads_of (sh_id s) w))
     \<and> (\<forall>m. sh_max_downloads s = Some m \<longrightarrow> sh_download_count s \<le> m)
     \<and> (\<forall>x \<in> set (downloads_of (sh_id s) w). snd x \<le> xw_now w \<and> snd x < sh_expires_at s
          \<and> (\<forall>t. sh_revoked_at s = Some t \<longrightarrow> snd x \<le> t))
     \<and> (\<exists>j. get_export (xw_db w) (sh_export_id s) = Some j \<and> sh_expires_at s \<le> ex_expires_at j)"

definition shares_ok :: "export_world \<Rightarrow> bool" where
  "shares_ok w \<longleftrightarrow> distinct (map ex_id (db_exports (xw_db w))) \<and> distinct (map sh_id (db_shares (xw_db w)))
     \<and> list_all (share_row_ok w) (db_shares (xw_db w))
     \<and> (\<forall>x \<in> set (xw_downloads w). fst x \<in> sh_id ` set (db_shares (xw_db w)))"

lemma share_row_evolve:
  assumes "share_row_ok w s" and "jobs_evolve (xw_db w) (xw_db w')" and "xw_downloads w' = xw_downloads w" "xw_now w \<le> xw_now w'"
  shows "share_row_ok w' s"
proof -
  from assms(1) obtain j where j: "get_export (xw_db w) (sh_export_id s) = Some j" "sh_expires_at s \<le> ex_expires_at j"
    by (auto simp: share_row_ok_def)
  from jobs_evolve_Some [OF assms(2) j(1)] obtain j' where "get_export (xw_db w') (sh_export_id s) = Some j'" "stays_over j j'" .
  with j(2) assms show ?thesis by (force simp: share_row_ok_def downloads_of_def stays_over_def)
qed

lemma shares_evolve:
  assumes ok: "shares_ok w" and evolve: "jobs_evolve (xw_db w) (xw_db w')" and "db_shares (xw_db w') = db_shares (xw_db w)"
    and "xw_downloads w' = xw_downloads w" "xw_now w \<le> xw_now w'"
  shows "shares_ok w'"
  using assms jobs_evolve_distinct [OF evolve] share_row_evolve [OF _ evolve]
  by (auto simp: shares_ok_def list_all_iff)

lemma shares_update:
  assumes ok: "shares_ok w" and s: "get_share (xw_db w) i = Some s"
    and d: "xw_db w' = update_share i f (xw_db w)" and "\<And>u. sh_id (f u) = sh_id u"
    and "share_row_ok w' (f s)" and "\<And>u. sh_id u \<noteq> i \<Longrightarrow> share_row_ok w u \<Longrightarrow> share_row_ok w' u"
    and "\<forall>x \<in> set (xw_downloads w'). x \<in> set (xw_downloads w) \<or> fst x = i"
  shows "shares_ok w'"
proof -
  have row: "s \<in> set (db_shares (xw_db w))" "sh_id s = i" using shares.get_Some [OF s] by simp_all
  have ids: "map sh_id (db_shares (xw_db w')) = map sh_id (db_shares (xw_db w))"
    unfolding d using assms(4) by (rule shares.keys_upd)
  have "share_row_ok w' u" if "u \<in> set (db_shares (xw_db w'))" for u
  proof -
    from shares.upd_mem [OF that [unfolded d]] consider "u \<in> set (db_shares (xw_db w))" "sh_id u \<noteq> i"
      | e where "e \<in> set (db_shares (xw_db w))" "sh_id e = i" "u = f e" by blast
    then show ?thesis
    proof cases
      case 1
      with ok assms(6) show ?thesis by (auto simp: shares_ok_def list_all_iff)
    next
      case 2
      then have "e = s" using ok shares.get_unique [of "xw_db w" e] s by (auto simp: shares_ok_def)
      with 2 assms(5) show ?thesis by simp
    qed
  qed
  moreover have "sh_id ` set (db_shares (xw_db w')) = sh_id ` set (db_shares (xw_db w))"
    using ids by (metis list.set_map)
  moreover have "db_exports (xw_db w') = db_exports (xw_db w)" using d by (simp add: update_share_def)
  ultimately show ?thesis using ok ids assms(7) row by (auto simp: shares_ok_def list_all_iff)
qed

text \<open>The operations on jobs leave the shares alone.\<close>

lemma job_frames:
  "export_prepare expand realpath cache_dir d now k = Inr (d', x) \<Longrightarrow> db_shares d' = db_shares d"
  "db_shares (export_mark_failed d now k code) = db_shares d"
  "export_complete d now k p r = (d', unl, st, fin) \<Longrightarrow> db_shares d' = db_shares d"
  "export_cancel d now j = (d', raw) \<Longrightarrow> db_shares d' = db_shares d"
  "expire_exports d now = (d', paths, n) \<Longrightarrow> db_shares d' = db_shares d"
      apply (erule export_prepare_cases; simp add: update_export_def)
     apply (simp add: export_mark_failed_def update_export_def split: option.split)
    apply (auto simp: export_complete_def update_export_def split: option.splits if_splits)[1]
   apply (auto simp: export_cancel_def update_export_def split: if_splits)[1]
  apply (auto simp: expire_exports_def Let_def)[1]
  done

lemma shares_step:
  assumes step: "export_step expand realpath resolve cache_dir sha verify w w'" and ok: "shares_ok w"
  shows "shares_ok w'"
proof -
  have evolve: "jobs_evolve (xw_db w) (xw_db w')"
    using ok by (intro export_step_jobs [OF step]) (simp add: shares_ok_def)
  from step show ?thesis
  proof (cases rule: export_step.cases)
    case (share k j i token hashed user password period limit d s)
    then have s: "sh_id s = i" "sh_export_id s = ex_id j" "sh_expires_at s \<le> ex_expires_at j" "sh_download_count s = 0"
      "sh_max_downloads s = limit" "sh_revoked_at s = None" "\<forall>m. limit = Some m \<longrightarrow> 1 \<le> m" "d = add_share s (xw_db w)"
      by (auto simp: share_create_def Let_def split: if_splits sum.splits option.splits)
    have "downloads_of i w = []"
      using ok share(3) by (auto simp: shares_ok_def downloads_of_def filter_empty_conv shares.get_None_iff)
    moreover have "get_export (xw_db w) (ex_id j) = Some j" using share(2) exports.get_Some [OF share(2)] by simp
    ultimately have "share_row_ok w' s" using s share(1)
      by (force simp: share_row_ok_def downloads_of_def add_share_def get_export_def)
    moreover have "share_row_ok w' u" if "share_row_ok w u" for u
      using share_row_evolve [OF that evolve] share(1) by simp
    ultimately show ?thesis using ok s share(1,3) by (auto simp: shares_ok_def list_all_iff add_share_def shares.get_None_iff)
  next
    case (revoke i s)
    show ?thesis
    proof (cases "sh_revoked_at s = None")
      case True
      have row: "share_row_ok w s" using ok shares.get_Some [OF revoke(2)] by (auto simp: shares_ok_def list_all_iff)
      have k: "sh_id s = i" using shares.get_Some [OF revoke(2)] by simp
      show ?thesis
        by (rule shares_update [OF ok revoke(2), where f = "\<lambda>u. u\<lparr>sh_revoked_at := Some (xw_now w)\<rparr>"])
          (use row k revoke(1) True in \<open>auto simp: share_revoke_def share_row_ok_def downloads_of_def update_share_def get_export_def\<close>)
    next
      case False
      with revoke(1) ok show ?thesis by (simp add: share_revoke_def)
    qed
  next
    case (download i d)
    then obtain s where s: "get_share (xw_db w) i = Some s" "consumable (xw_now w) s"
      "d = update_share i (\<lambda>u. u\<lparr>sh_download_count := sh_download_count u + 1, sh_last_download_at := Some (xw_now w)\<rparr>) (xw_db w)"
      by (auto simp: consume_download_def split: option.splits if_splits)
    have row: "share_row_ok w s" "sh_id s = i" using ok shares.get_Some [OF s(1)] by (auto simp: shares_ok_def list_all_iff)
    show ?thesis
      by (rule shares_update [OF ok s(1), where f = "\<lambda>u. u\<lparr>sh_download_count := sh_download_count u + 1, sh_last_download_at := Some (xw_now w)\<rparr>"])
        (use row s download(1) in \<open>auto simp: share_row_ok_def downloads_of_def update_share_def get_export_def
          consumable_def limit_reached_def\<close>)
  qed (use ok evolve in \<open>auto intro!: shares_evolve [OF ok] dest: export_create_rows job_frames(1,3-5)
      simp: add_export_def job_frames(2)\<close>)
qed

lemma shares_reachable:
  assumes "(export_step expand realpath resolve cache_dir sha verify)\<^sup>*\<^sup>* (fresh_exports d now) w"
    and "db_exports d = []" and "db_shares d = []"
  shows "shares_ok w"
  using assms(1)
proof (induction rule: rtranclp_induct)
  case base
  then show ?case using assms(2,3) by (simp add: shares_ok_def fresh_exports_def)
next
  case (step v w)
  then show ?case using shares_step by blast
qed

text \<open>
  C31: A share gives no more than it was made for. Over any interleaving of authorisations, downloads and
  revocations, a share with a limit is downloaded at most that many times, its counter is the number
  of its downloads, every download happens before the share expires and not after it is revoked, and
  no share outlives the export.
\<close>

theorem share_downloads_bounded:
  assumes "(export_step expand realpath resolve cache_dir sha verify)\<^sup>*\<^sup>* (fresh_exports d now) w"
    and "db_exports d = []" and "db_shares d = []" and "s \<in> set (db_shares (xw_db w))"
  shows "int (length (downloads_of (sh_id s) w)) = sh_download_count s
    \<and> (\<forall>m. sh_max_downloads s = Some m \<longrightarrow> int (length (downloads_of (sh_id s) w)) \<le> m)
    \<and> (\<forall>(i, t) \<in> set (downloads_of (sh_id s) w). t < sh_expires_at s \<and> (\<forall>r. sh_revoked_at s = Some r \<longrightarrow> t \<le> r))
    \<and> (\<exists>j. get_export (xw_db w) (sh_export_id s) = Some j \<and> sh_expires_at s \<le> ex_expires_at j)"
proof -
  have "share_row_ok w s" using shares_reachable [OF assms(1-3)] assms(4) by (auto simp: shares_ok_def list_all_iff)
  then show ?thesis by (auto simp: share_row_ok_def)
qed

text \<open>
  Requests with an idempotency key. A request repeated with its key returns the job the first one
  created and creates nothing, as long as the job's row says the same; a different request with the
  key is refused.
\<close>

theorem export_create_idempotent:
  assumes "export_create sha d now k r (Some key) = Inr (d', j, True)"
    and "xr_requested_by r' = xr_requested_by r" and "xr_start_at r' < xr_end_at r'" "xr_end_at r' - xr_start_at r' \<le> days 7"
  shows "export_create sha d' now' k' r' (Some key)
    = (if r' = r then Inr (d', j, False) else Inl (ApiError 409 ''idempotency_key_conflict''))"
proof -
  obtain h where h: "export_key_hash sha (xr_requested_by r) (Some key) = Inr (Some h)" "export_with_key d h = None"
    "j = new_export k r (Some h) now" "d' = add_export j d"
    using assms(1) by (auto simp: export_create_def existing_idempotent_def export_key_hash_def result_simps Let_def
        split: if_splits option.splits)
  have found: "export_with_key d' h = Some j"
    using h(2) unfolding h(3,4) by (auto simp: export_with_key_def add_export_def find_append new_export_def)
  moreover have "same_request j r' \<longleftrightarrow> r' = r"
    unfolding h(3) by (cases r'; cases r) (auto simp: same_request_def new_export_def)
  ultimately show ?thesis
    using assms(2-4) h(1) by (simp add: export_create_def existing_idempotent_def)
qed

section \<open>A render that never reports\<close>

text \<open>
  C35: A lost render leaves its job running for good. When the worker of a running job is gone, the
  cleanup never touches the row, however long the job is over its expiry: the row stays as it is
  until the job is cancelled or prepared again, and only a repetition of the queued task prepares it.
\<close>

theorem lost_render_keeps_running:
  assumes "export_step expand realpath resolve cache_dir sha verify w w'" and "distinct (map ex_id (db_exports (xw_db w)))"
    and "get_export (xw_db w) k = Some j" and "ex_state j = ExportRunning" and "\<forall>(i, p, r) \<in> set (xw_renders w). i \<noteq> k"
  shows "get_export (fst (expire_exports (xw_db w) now)) k = Some j
    \<and> (get_export (xw_db w') k = Some j
       \<or> xw_db w' = fst (export_cancel (xw_db w) (xw_now w) j)
       \<or> (\<exists>x. export_prepare expand realpath cache_dir (xw_db w) (xw_now w) k = Inr (xw_db w', x)))"
proof
  have expired: "get_export (fst (expire_exports (xw_db w) t)) k = Some j" for t
  proof -
    have "find (\<lambda>j. ex_id j = k) xs = Some j \<Longrightarrow> find (\<lambda>j. ex_id j = k) (map (\<lambda>j. if expirable t j
        then (finish_export ExportExpired t j)\<lparr>ex_output_path := None, ex_size_bytes := None\<rparr> else j) xs) = Some j" for xs
      using assms(4) by (induction xs) (auto simp: expirable_def finish_export_def split: if_splits)
    then show ?thesis using assms(3) by (simp add: expire_exports_def Let_def get_export_def)
  qed
  then show "get_export (fst (expire_exports (xw_db w) now)) k = Some j" .
  have others: "get_export (update_export i f (xw_db w)) k = Some j" if "i \<noteq> k" "\<And>e. ex_id (f e) = ex_id e" for i f
    using exports.get_upd [of f i "xw_db w" k] that assms(3) exports.get_Some [OF assms(3)] by auto
  have prepared: "get_export d k = Some j"
    if "export_prepare expand realpath cache_dir (xw_db w) (xw_now w) i = Inr (d, x)" "i \<noteq> k" for i d x
    using that(1)
  proof (cases rule: export_prepare_cases)
    case 1
    with assms(3) show ?thesis by simp
  next
    case 2
    show ?thesis unfolding 2(3) by (rule others [OF that(2)]) (simp add: finish_export_def)
  next
    case (3 e code)
    show ?thesis unfolding 3(4) by (rule others [OF that(2)]) (simp add: fail_export_def)
  next
    case (4 e p x)
    show ?thesis unfolding 4(5) by (rule others [OF that(2)]) (simp add: start_export_def)
  qed
  from assms(1) show "get_export (xw_db w') k = Some j
       \<or> xw_db w' = fst (export_cancel (xw_db w) (xw_now w) j)
       \<or> (\<exists>x. export_prepare expand realpath cache_dir (xw_db w) (xw_now w) k = Inr (xw_db w', x))"
  proof (cases rule: export_step.cases)
    case (create i r key d e created)
    from export_create_rows [OF create(4)] have "d = xw_db w \<or> d = add_export e (xw_db w)" by blast
    then have "get_export d k = Some j" using assms(3) by (auto simp: get_export_def add_export_def find_append)
    with create(1) show ?thesis by simp
  next
    case (prepare i d e)
    show ?thesis
    proof (cases "i = k")
      case False
      then have "get_export d k = Some j" by (rule prepared [OF prepare(2)])
      with prepare(1) show ?thesis by simp
    qed (use prepare in auto)
  next
    case (nothing_to_render i d st)
    show ?thesis
    proof (cases "i = k")
      case False
      then have "get_export d k = Some j" by (rule prepared [OF nothing_to_render(2)])
      with nothing_to_render(1) show ?thesis by simp
    qed (use nothing_to_render in auto)
  next
    case (render_failed i out code)
    then have "i \<noteq> k" using assms(5) by auto
    with render_failed show ?thesis using assms(3) others [OF \<open>i \<noteq> k\<close>, of "fail_export code (xw_now w)"]
      by (auto simp: export_mark_failed_def fail_export_def split: option.split)
  next
    case (complete i out r d unl st fin)
    then have "i \<noteq> k" using assms(5) by auto
    with complete show ?thesis using assms(3) others [OF \<open>i \<noteq> k\<close>]
      by (auto simp: export_complete_def finish_export_def complete_export_def split: option.splits if_splits)
  next
    case (cancel i e d raw out)
    show ?thesis
    proof (cases "i = k")
      case False
      then show ?thesis using cancel assms(3) exports.get_Some [OF cancel(2)] others [OF False]
        by (auto simp: export_cancel_def split: if_splits)
    qed (use cancel assms(3) in auto)
  next
    case (expire d ps n)
    then show ?thesis using expired [of "xw_now w"] by simp
  next
    case (share i e q token hashed user password period limit d s)
    then show ?thesis using assms(3)
      by (auto simp: share_create_def add_share_def get_export_def Let_def split: if_splits sum.splits)
  next
    case (revoke i s)
    then show ?thesis using assms(3) by (auto simp: share_revoke_def update_share_def get_export_def)
  next
    case (download i d)
    then show ?thesis using assms(3) by (auto simp: consume_download_def update_share_def get_export_def split: option.splits if_splits)
  qed (use assms(3) in \<open>auto simp: get_export_def\<close>)
qed

section \<open>An export requested, rendered, shared and downloaded\<close>

definition example_request :: export_request where
  "example_request = \<lparr>xr_camera_id = 5, xr_requested_by = 9, xr_start_at = seconds 10, xr_end_at = seconds 90,
     xr_format = ''mp4'', xr_codec_mode = ''auto'', xr_gap_policy = ''skip''\<rparr>"

definition example_cache :: path where
  "example_cache = [''/'', ''cache'']"

abbreviation example_export_step :: "export_world \<Rightarrow> export_world \<Rightarrow> bool" where
  "example_export_step \<equiv> export_step id id Some example_cache id (=)"

definition example_job :: export_job where
  "example_job = new_export 40 example_request None 0"

lemma example_create: "export_create id example_media_db 0 40 example_request None
    = Inr (add_export example_job example_media_db, example_job, True)"
  unfolding example_job_def by code_simp

lemma example_created: "example_export_step (fresh_exports example_media_db 0)
    (fresh_exports (add_export example_job example_media_db) 0)"
proof -
  have "get_export example_media_db 40 = None" by code_simp
  from export_step.create [of "fresh_exports example_media_db 0", simplified fresh_exports_def export_world.simps,
      OF this _ example_create]
  show ?thesis by (simp add: fresh_exports_def)
qed

lemma example_paths: "export_paths_ok Some id example_cache"
proof -
  have "safe_output_path Some id example_cache (Some (export_output id example_cache k))
      = Inr (Some (export_output id example_cache k))" for k
    by (simp add: safe_output_path_def export_output_def export_root_def resolve_within_or_none_def
        resolve_within_path_def is_prefix_append is_absolute_def example_cache_def)
  moreover have "inj_on (export_output id example_cache) {k. k < 2 ^ 128}"
    by (rule inj_onI) (rule uuid_str_inj; simp add: export_output_def)
  ultimately show ?thesis by (simp add: export_paths_ok_def)
qed

lemma export_create_idempotent_witness:
  "\<exists>d j. export_create (\<lambda>_. ''h'') example_media_db 0 40 example_request (Some ''k'') = Inr (d, j, True)
     \<and> export_create (\<lambda>_. ''h'') d 7 41 example_request (Some ''k'') = Inr (d, j, False)
     \<and> export_create (\<lambda>_. ''h'') d 7 41 (example_request\<lparr>xr_end_at := seconds 95\<rparr>) (Some ''k'')
       = Inl (ApiError 409 ''idempotency_key_conflict'')"
proof -
  define j where "j = new_export 40 example_request (Some ''h'') 0"
  have first: "export_create (\<lambda>_. ''h'') example_media_db 0 40 example_request (Some ''k'')
      = Inr (add_export j example_media_db, j, True)"
    unfolding j_def by code_simp
  note repeated = export_create_idempotent [OF first, of _ 7 41]
  let ?other = "example_request\<lparr>xr_end_at := seconds 95\<rparr>"
  have fields: "xr_start_at example_request = seconds 10" "xr_end_at example_request = seconds 90"
    by (simp_all add: example_request_def)
  have "?other \<noteq> example_request" by (simp add: example_request_def seconds_def)
  with first repeated [of example_request] repeated [of ?other] show ?thesis
    by (simp add: fields seconds_def days_def day_us_def)
qed

lemma example_cancelled: "export_cancel (add_export example_job example_media_db) 3 example_job
    = (add_export (example_job\<lparr>ex_state := ExportCancelled, ex_completed_at := Some 3\<rparr>) example_media_db, None)"
  by code_simp

definition cancelled_world :: export_world where
  "cancelled_world = fresh_exports (add_export (example_job\<lparr>ex_state := ExportCancelled, ex_completed_at := Some 3\<rparr>)
     example_media_db) 3"

lemma cancelled_export_stays_witness:
  "\<exists>w. example_export_step cancelled_world w \<and> w \<noteq> cancelled_world
     \<and> get_export (xw_db w) 40 = Some (example_job\<lparr>ex_state := ExportCancelled, ex_completed_at := Some 3\<rparr>)"
proof -
  have step: "example_export_step cancelled_world (cancelled_world\<lparr>xw_now := days 9\<rparr>)"
    by (rule export_step.tick) (simp add: cancelled_world_def fresh_exports_def days_def day_us_def)
  have row: "get_export (xw_db cancelled_world) 40 = Some (example_job\<lparr>ex_state := ExportCancelled, ex_completed_at := Some 3\<rparr>)"
    "distinct (map ex_id (db_exports (xw_db cancelled_world)))"
    by code_simp+
  have "cancelled_world\<lparr>xw_now := days 9\<rparr> \<noteq> cancelled_world"
    by (simp add: cancelled_world_def fresh_exports_def days_def day_us_def)
  with cancelled_export_stays [OF row(2) r_into_rtranclp [of example_export_step, OF step] row(1)] step show ?thesis
    by (intro exI [of _ "cancelled_world\<lparr>xw_now := days 9\<rparr>"]) simp
qed

text \<open>The example export rendered, completed, shared once and downloaded through the share.\<close>

definition example_render :: render_result where
  "example_render = \<lparr>rr_size_bytes = 100, rr_duration_ms = 50000, rr_codec_mode = ''copy''\<rparr>"

definition example_output :: path where
  "example_output = export_output id example_cache 40"

definition example_plan :: export_plan where
  "example_plan = \<lparr>xp_camera_id = 5, xp_requested_start_at = seconds 10, xp_requested_end_at = seconds 90,
    xp_items = [clip_of example_media [''/'', ''media'', ''a.mp4''] (seconds 10) (seconds 60)],
    xp_actual_duration_ms = 50000, xp_has_gaps = True\<rparr>"

definition example_running :: export_job where
  "example_running = start_export 0 example_output example_plan example_job"

lemma example_prepared:
  "\<exists>p. export_prepare id id example_cache (add_export example_job example_media_db) 0 40
      = Inr (add_export example_running example_media_db, Render p)
    \<and> xe_export_id p = 40 \<and> xe_output_path p = example_output"
proof -
  have "build_export_plan id id (add_export example_job example_media_db) 5 (seconds 10) (seconds 90) ''skip'' = Inr example_plan"
    unfolding example_plan_def by code_simp
  moreover have "get_export (add_export example_job example_media_db) 40 = Some example_job" by code_simp
  moreover have "update_export 40 f (add_export example_job example_media_db) = add_export (f example_job) example_media_db" for f
    by (simp add: update_export_def add_export_def example_media_db_def empty_db_def example_job_def new_export_def)
  moreover have "ex_state example_job = ExportPending" "ex_expires_at example_job = hours 24" "ex_camera_id example_job = 5"
    "ex_requested_start_at example_job = seconds 10" "ex_requested_end_at example_job = seconds 90"
    "ex_gap_policy example_job = ''skip''" by code_simp+
  ultimately show ?thesis
    by (simp add: export_prepare_def example_running_def example_output_def hours_def Let_def)
qed

definition example_completed :: export_job where
  "example_completed = complete_export example_output example_render 0 example_running"

definition completed_world :: export_world where
  "completed_world = (fresh_exports (add_export example_completed example_media_db) 0)\<lparr>xw_files := {example_output}\<rparr>"

lemma example_completed_reached: "example_export_step\<^sup>*\<^sup>* (fresh_exports example_media_db 0) completed_world"
proof -
  let ?row = "\<lambda>j. fresh_exports (add_export j example_media_db) 0"
  have rows: "get_export (add_export example_running example_media_db) 40 = Some example_running"
    "update_export 40 f (add_export example_running example_media_db) = add_export (f example_running) example_media_db" for f
    by (simp_all add: get_export_def update_export_def add_export_def example_media_db_def empty_db_def example_running_def
        start_export_def example_job_def new_export_def)
  obtain p where p: "export_prepare id id example_cache (add_export example_job example_media_db) 0 40
      = Inr (add_export example_running example_media_db, Render p)" "xe_export_id p = 40" "xe_output_path p = example_output"
    using example_prepared by blast
  have prepared: "example_export_step (?row example_job) ((?row example_running)\<lparr>xw_renders := [(40, example_output, None)]\<rparr>)"
    using export_step.prepare [of id id example_cache "?row example_job" 40 _ p Some id "(=)"] p
    by (simp add: fresh_exports_def)
  have rendered: "example_export_step ((?row example_running)\<lparr>xw_renders := [(40, example_output, None)]\<rparr>)
      ((?row example_running)\<lparr>xw_files := {example_output}, xw_renders := [(40, example_output, Some example_render)]\<rparr>)"
    using export_step.rendered [of 40 example_output "(?row example_running)\<lparr>xw_renders := [(40, example_output, None)]\<rparr>"]
    by (simp add: fresh_exports_def)
  have open_row: "ex_state example_running = ExportRunning" "ex_expires_at example_running = hours 24"
    by (simp_all add: example_running_def start_export_def example_job_def new_export_def)
  have "export_complete (add_export example_running example_media_db) 0 40 example_output example_render
      = (add_export example_completed example_media_db, False, ExportCompleted, True)"
    by (simp add: export_complete_def rows open_row example_completed_def hours_def)
  then have completed: "example_export_step
      ((?row example_running)\<lparr>xw_files := {example_output}, xw_renders := [(40, example_output, Some example_render)]\<rparr>)
      completed_world"
    using export_step.complete [of 40 example_output example_render
      "(?row example_running)\<lparr>xw_files := {example_output}, xw_renders := [(40, example_output, Some example_render)]\<rparr>"
      _ False ExportCompleted True]
    by (simp add: fresh_exports_def completed_world_def)
  show ?thesis
    by (rule converse_rtranclp_into_rtranclp [of example_export_step, OF example_created])
      (use prepared rendered completed in \<open>meson rtranclp.intros\<close>)
qed

lemma completed_row: "get_export (xw_db completed_world) 40 = Some example_completed" "ex_state example_completed = ExportCompleted"
  "ex_expires_at example_completed = hours 24" "ex_id example_completed = 40" "xw_now completed_world = 0"
  "db_shares (xw_db completed_world) = []" "xw_authorized completed_world = []" "xw_downloads completed_world = []"
  by (simp_all add: completed_world_def fresh_exports_def get_export_def add_export_def example_completed_def
      complete_export_def example_running_def start_export_def example_job_def new_export_def example_media_db_def empty_db_def)


definition example_share :: export_share where
  "example_share = \<lparr>sh_id = 50, sh_export_id = 40, sh_token_hash = ''token'', sh_password_hash = None, sh_expires_at = hours 2,
     sh_revoked_at = None, sh_max_downloads = Some 1, sh_download_count = 0, sh_last_download_at = None, sh_created_by = Some 9\<rparr>"

lemma share_downloads_bounded_witness:
  "\<exists>(w :: export_world) s. s \<in> set (db_shares (xw_db w)) \<and> sh_id s = 50 \<and> sh_max_downloads s = Some 1 \<and> sh_download_count s = 1
     \<and> length (downloads_of 50 w) = 1"
proof -
  define shared where "shared = completed_world\<lparr>xw_db := add_share example_share (xw_db completed_world)\<rparr>"
  define used where "used = example_share\<lparr>sh_download_count := 1, sh_last_download_at := Some 0\<rparr>"
  define final where "final = completed_world\<lparr>xw_db := add_share used (xw_db completed_world), xw_authorized := [],
      xw_downloads := [(50, 0)]\<rparr>"
  note frame = add_share_def get_share_def get_export_def completed_row
  have create: "share_create id (xw_db completed_world) (xw_now completed_world) 50 ''token'' [] example_completed 9 None 2 (Some 1)
      = Inr (add_share example_share (xw_db completed_world), example_share)"
    by (simp add: share_create_def completed_row example_share_def hours_def Let_def)
  have step1: "example_export_step completed_world shared"
    unfolding shared_def by (rule export_step.share [OF completed_row(1) _ create]) (simp add: get_share_def completed_row)
  have row: "get_export (xw_db shared) 40 = Some example_completed" "get_share (xw_db shared) 50 = Some example_share"
    "xw_now shared = 0" "xw_authorized shared = []" "db_shares (xw_db shared) = [example_share]"
    using completed_row by (simp_all add: shared_def frame example_share_def)
  have "authorize_download id (=) (xw_db shared) (xw_now shared) ''token'' None = Inr (example_share, example_completed)"
    by (simp add: authorize_download_def row completed_row example_share_def limit_reached_def password_accepted_def hours_def)
  then have step2: "example_export_step shared (shared\<lparr>xw_authorized := [50]\<rparr>)"
    using export_step.authorize [of id "(=)" shared "''token''" None example_share example_completed id id Some example_cache] row(4)
    by (simp add: example_share_def)
  have "consume_download (xw_db shared) 0 50 = Inr (add_share used (xw_db completed_world))"
    by (simp add: consume_download_def row consumable_def limit_reached_def hours_def update_share_def used_def shared_def frame)
      (simp add: example_share_def hours_def)
  then have step3: "example_export_step (shared\<lparr>xw_authorized := [50]\<rparr>) final"
    using export_step.download [of 50 "shared\<lparr>xw_authorized := [50]\<rparr>" "add_share used (xw_db completed_world)"
      id id Some example_cache id "(=)"] row
    by (simp add: final_def shared_def completed_row)
  have none: "db_exports example_media_db = []" "db_shares example_media_db = []" by code_simp+
  have reached: "example_export_step\<^sup>*\<^sup>* (fresh_exports example_media_db 0) final"
    using example_completed_reached step1 step2 step3 by (meson rtranclp.rtrancl_into_rtrancl)
  have member: "used \<in> set (db_shares (xw_db final))" by (simp add: final_def add_share_def)
  from share_downloads_bounded [OF reached none member] member show ?thesis
    by (intro exI [of _ final] exI [of _ used]) (simp add: used_def example_share_def)
qed

lemma lost_render_keeps_running_witness:
  "\<exists>(w :: export_world) j. get_export (xw_db w) 40 = Some j \<and> ex_state j = ExportRunning \<and> ex_expires_at j < xw_now w
     \<and> get_export (fst (expire_exports (xw_db w) (xw_now w))) 40 = Some j"
proof -
  define w where "w = fresh_exports (add_export (example_job\<lparr>ex_state := ExportRunning\<rparr>) example_media_db) (days 9)"
  have step: "example_export_step w (w\<lparr>xw_now := days 10\<rparr>)"
    by (rule export_step.tick) (simp add: w_def fresh_exports_def days_def day_us_def)
  have row: "get_export (xw_db w) 40 = Some (example_job\<lparr>ex_state := ExportRunning\<rparr>)" 
    "distinct (map ex_id (db_exports (xw_db w)))" "\<forall>(i, p, r) \<in> set (xw_renders w). i \<noteq> 40"
    "ex_expires_at example_job < xw_now w"
    unfolding w_def by code_simp+
    have "get_export (fst (expire_exports (xw_db w) (xw_now w))) 40 = Some (example_job\<lparr>ex_state := ExportRunning\<rparr>)"
    by (rule conjunct1 [OF lost_render_keeps_running [OF step row(2,1) _ row(3)]]) simp
  with row(1,4) show ?thesis by (intro exI [of _ w] exI [of _ "example_job\<lparr>ex_state := ExportRunning\<rparr>"]) simp
qed

end
