(* ===== verification/Signer.thy ===== *)
theory Signer
  imports Prelude "HOL-Library.Word"
begin

text \<open>
  The texts \<open>modules/auth/security.py\<close> and \<open>password_reset.py\<close> put into cookies and messages: url-safe
  base64 without padding, and the session token, a session id with its message authentication code.
  \<open>mac\<close> stands for HMAC-SHA256 with the deployment's key over the context and the given bytes. Reading
  base64 is Python's: bytes outside the alphabet are skipped and reading stops at the padding.
\<close>

section \<open>Bytes\<close>

type_synonym bytes = "8 word list"

definition uuid_bytes :: "uuid \<Rightarrow> bytes" where
  "uuid_bytes k = map (\<lambda>i. of_nat (k div 256 ^ i)) (rev [0..<16])"

definition uuid_of_bytes :: "bytes \<Rightarrow> uuid" where
  "uuid_of_bytes bs = foldl (\<lambda>n b. 256 * n + unat b) 0 bs"

section \<open>Base 64\<close>

definition b64_char :: "nat \<Rightarrow> char" where
  "b64_char n = char_of (if n < 26 then n + 65 else if n < 52 then n + 71 else if n < 62 then n - 4
     else if n = 62 then 45 else 95)"

definition b64_value :: "char \<Rightarrow> nat option" where
  "b64_value c =
     (let n = code_of c
      in if 65 \<le> n \<and> n \<le> 90 then Some (n - 65)
         else if 97 \<le> n \<and> n \<le> 122 then Some (n - 71)
         else if 48 \<le> n \<and> n \<le> 57 then Some (n + 4)
         else if c = CHR ''-'' \<or> c = CHR ''+'' then Some 62
         else if c = CHR ''_'' \<or> c = CHR ''/'' then Some 63
         else None)"

fun b64_encode :: "bytes \<Rightarrow> string" where
  "b64_encode [] = []"
| "b64_encode [a] = [b64_char (unat a div 4), b64_char (16 * (unat a mod 4))]"
| "b64_encode [a, b] =
     [b64_char (unat a div 4), b64_char (16 * (unat a mod 4) + unat b div 16), b64_char (4 * (unat b mod 16))]"
| "b64_encode (a # b # c # bs) =
     b64_char (unat a div 4) # b64_char (16 * (unat a mod 4) + unat b div 16)
     # b64_char (4 * (unat b mod 16) + unat c div 64) # b64_char (unat c mod 64) # b64_encode bs"

text \<open>\<open>binascii.a2b_base64\<close>: position in the quad, the bits left over, and the padding seen.\<close>

fun a2b_base64 :: "nat \<Rightarrow> nat \<Rightarrow> nat \<Rightarrow> string \<Rightarrow> bytes option" where
  "a2b_base64 quad left pads [] = (if quad = 0 then Some [] else None)"
| "a2b_base64 quad left pads (c # cs) =
     (if c = CHR ''='' then
        (if 2 \<le> quad then (if 4 \<le> quad + (pads + 1) then Some [] else a2b_base64 quad left (pads + 1) cs)
         else a2b_base64 quad left pads cs)
      else (case b64_value c of
          None \<Rightarrow> a2b_base64 quad left pads cs
        | Some v \<Rightarrow>
            if quad = 0 then a2b_base64 1 v 0 cs
            else if quad = 1 then map_option (Cons (of_nat (4 * left + v div 16))) (a2b_base64 2 (v mod 16) 0 cs)
            else if quad = 2 then map_option (Cons (of_nat (16 * left + v div 4))) (a2b_base64 3 (v mod 4) 0 cs)
            else map_option (Cons (of_nat (64 * left + v))) (a2b_base64 0 0 0 cs)))"

definition b64_decode :: "string \<Rightarrow> bytes option" where
  "b64_decode value =
     (if list_ex (\<lambda>c. 128 \<le> code_of c) value then None
      else a2b_base64 0 0 0 (value @ replicate ((4 - length value mod 4) mod 4) (CHR ''='')))"

section \<open>Session tokens\<close>

definition session_sign :: "(bytes \<Rightarrow> bytes) \<Rightarrow> uuid \<Rightarrow> string" where
  "session_sign mac session_id =
     (let raw = uuid_bytes session_id in b64_encode raw @ ''.'' @ b64_encode (mac raw))"

definition split_dot :: "string \<Rightarrow> (string \<times> string) option" where
  "split_dot token =
     (case dropWhile (\<lambda>c. c \<noteq> CHR ''.'') token of
        [] \<Rightarrow> None
      | _ # rest \<Rightarrow> Some (takeWhile (\<lambda>c. c \<noteq> CHR ''.'') token, rest))"

definition session_verify :: "(bytes \<Rightarrow> bytes) \<Rightarrow> string \<Rightarrow> uuid option" where
  "session_verify mac token =
     (case split_dot token of
        None \<Rightarrow> None
      | Some (raw_part, signature_part) \<Rightarrow>
          (case (b64_decode raw_part, b64_decode signature_part) of
             (Some raw, Some provided) \<Rightarrow>
               if length raw \<noteq> 16 \<or> provided \<noteq> mac raw then None else Some (uuid_of_bytes raw)
           | _ \<Rightarrow> None))"

section \<open>Round trips\<close>

lemma b64_char_code: "n < 64 \<Longrightarrow> code_of (b64_char n) = (if n < 26 then n + 65 else if n < 52 then n + 71
    else if n < 62 then n - 4 else if n = 62 then 45 else 95)"
  by (simp add: b64_char_def code_of_def)

lemma code_of_eq: "c = c' \<longleftrightarrow> code_of c = code_of c'"
  by (simp add: code_of_def)

lemma code_of_marks: "code_of CHR ''-'' = 45" "code_of CHR ''+'' = 43" "code_of CHR ''_'' = 95" "code_of CHR ''/'' = 47"
  "code_of CHR ''='' = 61" "code_of CHR ''.'' = 46"
  by (simp_all add: code_of_def)

lemma b64_value_code: "b64_value c = (let n = code_of c
      in if 65 \<le> n \<and> n \<le> 90 then Some (n - 65)
         else if 97 \<le> n \<and> n \<le> 122 then Some (n - 71)
         else if 48 \<le> n \<and> n \<le> 57 then Some (n + 4)
         else if n = 45 \<or> n = 43 then Some 62 else if n = 95 \<or> n = 47 then Some 63 else None)"
  unfolding b64_value_def code_of_eq [of c] code_of_marks Let_def ..

lemma b64_value_char: "n < 64 \<Longrightarrow> b64_value (b64_char n) = Some n"
  unfolding b64_value_code by (cases "n < 26"; cases "n < 52"; cases "n < 62"; cases "n = 62") (auto simp: b64_char_code Let_def)

lemma b64_char_plain: "n < 64 \<Longrightarrow> b64_char n \<noteq> CHR ''='' \<and> b64_char n \<noteq> CHR ''.'' \<and> code_of (b64_char n) < 128 \<and> \<not> is_space (b64_char n)"
  by (auto simp: code_of_eq [of "b64_char n"] code_of_marks is_space_def b64_char_code)

lemma unat_byte: "unat (a :: 8 word) < 256"
  using unsigned_less [of a] by simp

lemma joined_div_mod:
  fixes x y m :: nat
  assumes "y < m"
  shows "(m * x + y) div m = x" "(m * x + y) mod m = y"
  using assms by simp_all

lemma sextets:
  fixes a b c :: "8 word"
  shows "unat a div 4 < 64" "16 * (unat a mod 4) + unat b div 16 < 64" "4 * (unat b mod 16) + unat c div 64 < 64"
    "unat c mod 64 < 64" "16 * (unat a mod 4) < 64" "4 * (unat b mod 16) < 64"
proof -
  have "unat b div 16 < 16" "unat c div 64 < 4" "unat a div 4 < 64"
    using unat_byte [of a] unat_byte [of b] unat_byte [of c] by (simp_all add: less_mult_imp_div_less)
  moreover have "unat a mod 4 < 4" "unat b mod 16 < 16" by simp_all
  ultimately show "unat a div 4 < 64" "16 * (unat a mod 4) + unat b div 16 < 64" "4 * (unat b mod 16) + unat c div 64 < 64"
    "unat c mod 64 < 64" "16 * (unat a mod 4) < 64" "4 * (unat b mod 16) < 64" by linarith+
qed

lemma b64_encode_plain: "x \<in> set (b64_encode bs) \<Longrightarrow> x \<noteq> CHR ''='' \<and> x \<noteq> CHR ''.'' \<and> code_of x < 128 \<and> \<not> is_space x"
  by (induction bs rule: b64_encode.induct) (auto simp: b64_char_plain sextets)

lemma bytes_joined:
  fixes a b c :: "8 word"
  shows "4 * (unat a div 4) + (16 * (unat a mod 4) + unat b div 16) div 16 = unat a"
    "16 * ((16 * (unat a mod 4) + unat b div 16) mod 16) + (4 * (unat b mod 16) + unat c div 64) div 4 = unat b"
    "64 * ((4 * (unat b mod 16) + unat c div 64) mod 4) + unat c mod 64 = unat c"
    "4 * (unat a div 4) + (16 * (unat a mod 4)) div 16 = unat a"
    "16 * ((16 * (unat a mod 4) + unat b div 16) mod 16) + (4 * (unat b mod 16)) div 4 = unat b"
proof -
  have "unat b div 16 < 16" "unat c div 64 < 4"
    using unat_byte [of b] unat_byte [of c] by (simp_all add: less_mult_imp_div_less)
  note joined = joined_div_mod [OF this(1)] joined_div_mod [OF this(2)]
  show "4 * (unat a div 4) + (16 * (unat a mod 4) + unat b div 16) div 16 = unat a"
    "16 * ((16 * (unat a mod 4) + unat b div 16) mod 16) + (4 * (unat b mod 16) + unat c div 64) div 4 = unat b"
    "64 * ((4 * (unat b mod 16) + unat c div 64) mod 4) + unat c mod 64 = unat c"
    "4 * (unat a div 4) + (16 * (unat a mod 4)) div 16 = unat a"
    "16 * ((16 * (unat a mod 4) + unat b div 16) mod 16) + (4 * (unat b mod 16)) div 4 = unat b"
    unfolding joined by simp_all
qed

lemma a2b_char: "n < 64 \<Longrightarrow> a2b_base64 quad left pads (b64_char n # cs) =
    (if quad = 0 then a2b_base64 1 n 0 cs
     else if quad = 1 then map_option (Cons (of_nat (4 * left + n div 16))) (a2b_base64 2 (n mod 16) 0 cs)
     else if quad = 2 then map_option (Cons (of_nat (16 * left + n div 4))) (a2b_base64 3 (n mod 4) 0 cs)
     else map_option (Cons (of_nat (64 * left + n))) (a2b_base64 0 0 0 cs))"
  using b64_char_plain [of n] by (simp add: b64_value_char)

lemma b64_roundtrip [simp]: "b64_decode (b64_encode bs) = Some bs"
proof -
  have pad: "a2b_base64 0 0 0 (b64_encode bs @ replicate ((4 - length (b64_encode bs) mod 4) mod 4) (CHR ''='')) = Some bs"
  proof (induction bs rule: b64_encode.induct)
    case 1
    then show ?case by simp
  next
    case (2 a)
    have "a2b_base64 0 0 0 (b64_encode [a] @ ''=='') = Some [of_nat (4 * (unat a div 4) + (16 * (unat a mod 4)) div 16)]"
      by (simp add: a2b_char sextets del: a2b_base64.simps(2)) simp
    then show ?case unfolding bytes_joined by (simp add: numeral_2_eq_2)
  next
    case (3 a b)
    have "a2b_base64 0 0 0 (b64_encode [a, b] @ ''='') = Some [of_nat (4 * (unat a div 4) + (16 * (unat a mod 4) + unat b div 16) div 16),
        of_nat (16 * ((16 * (unat a mod 4) + unat b div 16) mod 16) + (4 * (unat b mod 16)) div 4)]"
      by (simp add: a2b_char sextets del: a2b_base64.simps(2)) simp
    then show ?case unfolding bytes_joined by simp
  next
    case (4 a b c bs)
    have "a2b_base64 0 0 0 (b64_encode (a # b # c # bs) @ replicate ((4 - length (b64_encode bs) mod 4) mod 4) (CHR ''=''))
        = Some (of_nat (4 * (unat a div 4) + (16 * (unat a mod 4) + unat b div 16) div 16)
          # of_nat (16 * ((16 * (unat a mod 4) + unat b div 16) mod 16) + (4 * (unat b mod 16) + unat c div 64) div 4)
          # of_nat (64 * ((4 * (unat b mod 16) + unat c div 64) mod 4) + unat c mod 64) # bs)"
      using 4 by (simp only: b64_encode.simps append_Cons a2b_char sextets) simp
    then show ?case unfolding bytes_joined by simp
  qed
  have "\<not> list_ex (\<lambda>c. 128 \<le> code_of c) (b64_encode bs)"
    using b64_encode_plain [of _ bs] by (fastforce simp: list_ex_iff)
  with pad show ?thesis by (simp add: b64_decode_def)
qed

lemma uuid_bytes_length [simp]: "length (uuid_bytes k) = 16"
  by (simp add: uuid_bytes_def)

lemma uuid_bytes_value: "k < 2 ^ 128 \<Longrightarrow> uuid_of_bytes (uuid_bytes k) = k"
proof -
  have step: "foldl (\<lambda>n b. 256 * n + unat (b :: 8 word)) 0 (map (\<lambda>i. of_nat (k div 256 ^ i)) (rev [0..<n])) = k mod 256 ^ n" for n k
  proof (induction n arbitrary: k)
    case (Suc n)
    have "[0..<Suc n] = 0 # map Suc [0..<n]" by (simp add: upt_conv_Cons map_Suc_upt del: upt_Suc)
    then have "rev [0..<Suc n] = map Suc (rev [0..<n]) @ [0]" by (simp add: rev_map)
    then have "foldl (\<lambda>n b. 256 * n + unat (b :: 8 word)) 0 (map (\<lambda>i. of_nat (k div 256 ^ i)) (rev [0..<Suc n]))
        = 256 * foldl (\<lambda>n b. 256 * n + unat (b :: 8 word)) 0 (map (\<lambda>i. of_nat (k div 256 div 256 ^ i)) (rev [0..<n])) + k mod 256"
      by (simp add: comp_def div_mult2_eq [symmetric] unat_of_nat del: upt_Suc)
    also have "\<dots> = 256 * (k div 256 mod 256 ^ n) + k mod 256" by (simp only: Suc)
    also have "\<dots> = k mod 256 ^ Suc n" by (simp add: mod_mult2_eq)
    finally show ?case .
  qed simp
  assume "k < 2 ^ 128"
  moreover have "(256 :: nat) ^ 16 = 2 ^ 128" by simp
  ultimately show ?thesis using step [of k 16] by (simp add: uuid_of_bytes_def uuid_bytes_def del: upt_rec_numeral)
qed

lemma uuid_bytes_inj: "a < 2 ^ 128 \<Longrightarrow> b < 2 ^ 128 \<Longrightarrow> uuid_bytes a = uuid_bytes b \<Longrightarrow> a = b"
  by (metis uuid_bytes_value)

lemma split_dot_join: "CHR ''.'' \<notin> set raw \<Longrightarrow> split_dot (raw @ CHR ''.'' # rest) = Some (raw, rest)"
proof -
  assume "CHR ''.'' \<notin> set raw"
  then have "\<forall>c \<in> set raw. c \<noteq> CHR ''.''" by auto
  then show ?thesis by (simp add: split_dot_def dropWhile_append2 takeWhile_append2)
qed

lemma session_verify_sign: "k < 2 ^ 128 \<Longrightarrow> session_verify mac (session_sign mac k) = Some k"
proof -
  assume "k < 2 ^ 128"
  moreover have "CHR ''.'' \<notin> set (b64_encode (uuid_bytes k))" using b64_encode_plain by blast
  ultimately show ?thesis
    by (simp add: session_verify_def session_sign_def Let_def split_dot_join uuid_bytes_value)
qed

text \<open>
  The signer gives a session back from its token, and it accepts nothing else than a token that
  carries the authentication code of the id it names: without the key no token can be made up for
  a session, nor the token of one session turned into that of another.
\<close>

theorem session_token_roundtrip:
  assumes "k < 2 ^ 128"
  shows "session_verify mac (session_sign mac k) = Some k
    \<and> (\<forall>token j. session_verify mac token = Some j \<longrightarrow>
         (\<exists>raw raw_part signature_part. split_dot token = Some (raw_part, signature_part)
            \<and> b64_decode raw_part = Some raw \<and> uuid_of_bytes raw = j \<and> length raw = 16
            \<and> b64_decode signature_part = Some (mac raw)))"
  using session_verify_sign [OF assms] by (auto simp: session_verify_def split: option.splits if_splits)

lemma session_token_roundtrip_witness:
  "session_verify (\<lambda>raw. rev raw) (session_sign (\<lambda>raw. rev raw) 77) = Some 77"
  using session_token_roundtrip [of 77 rev] by simp

end
