(* ===== verification/Accounts.thy ===== *)
theory Accounts
  imports CameraScope Signer
begin

text \<open>
  \<open>modules/auth/service.py\<close>, \<open>admin_service.py\<close> and \<open>permissions.py\<close>: the first administrator, the
  built-in roles, logins, browser sessions, and the administration of users and roles. \<open>check\<close> stands
  for the verification of a password against a hash by the password library, and a new hash is an
  argument (\<open>hashed\<close>); ids are arguments, and the clock is the instant of the request.
\<close>

section \<open>Permissions\<close>

definition all_permissions :: "string list" where
  "all_permissions =
     [''camera.view'', ''camera.control'', ''camera.configure'', ''recording.view'', ''recording.export'',
      ''recording.protect'', ''recording.delete'', ''event.view'', ''alert.view'', ''alert.acknowledge'',
      ''alert.manage'', ''notification.view'', ''notification.manage'', ''storage.manage'', ''system.view'',
      ''system.manage'', ''user.manage'', ''integration.manage'', ''audit.view'']"

definition builtin_role_permissions :: "(string \<times> string list) list" where
  "builtin_role_permissions =
     [(''Administrator'', all_permissions),
      (''Operator'', [''camera.view'', ''camera.control'', ''recording.view'', ''recording.export'',
         ''recording.protect'', ''event.view'', ''alert.view'', ''alert.acknowledge'', ''notification.view'',
         ''system.view'']),
      (''Viewer'', [''camera.view'', ''recording.view'', ''event.view'', ''alert.view'', ''system.view''])]"

definition admin_role_name :: string where
  "admin_role_name = ''Administrator''"

section \<open>Tables\<close>

definition get_user :: "db \<Rightarrow> uuid \<Rightarrow> user option" where
  "get_user d k = find (\<lambda>u. us_id u = k) (db_users d)"

definition add_user :: "user \<Rightarrow> db \<Rightarrow> db" where
  "add_user u d = d\<lparr>db_users := db_users d @ [u]\<rparr>"

definition alter_user :: "uuid \<Rightarrow> (user \<Rightarrow> user) \<Rightarrow> db \<Rightarrow> db" where
  "alter_user k f d = d\<lparr>db_users := map (\<lambda>u. if us_id u = k then f u else u) (db_users d)\<rparr>"

interpretation users: keyed_table db_users us_id get_user add_user alter_user
  by unfold_locales (simp_all add: get_user_def add_user_def alter_user_def)

definition get_role :: "db \<Rightarrow> uuid \<Rightarrow> role option" where
  "get_role d k = find (\<lambda>r. ro_id r = k) (db_roles d)"

definition add_role :: "role \<Rightarrow> db \<Rightarrow> db" where
  "add_role r d = d\<lparr>db_roles := db_roles d @ [r]\<rparr>"

definition alter_role :: "uuid \<Rightarrow> (role \<Rightarrow> role) \<Rightarrow> db \<Rightarrow> db" where
  "alter_role k f d = d\<lparr>db_roles := map (\<lambda>r. if ro_id r = k then f r else r) (db_roles d)\<rparr>"

interpretation roles: keyed_table db_roles ro_id get_role add_role alter_role
  by unfold_locales (simp_all add: get_role_def add_role_def alter_role_def)

definition get_session :: "db \<Rightarrow> uuid \<Rightarrow> user_session option" where
  "get_session d k = find (\<lambda>s. ss_id s = k) (db_sessions d)"

definition add_session :: "user_session \<Rightarrow> db \<Rightarrow> db" where
  "add_session s d = d\<lparr>db_sessions := db_sessions d @ [s]\<rparr>"

definition alter_session :: "uuid \<Rightarrow> (user_session \<Rightarrow> user_session) \<Rightarrow> db \<Rightarrow> db" where
  "alter_session k f d = d\<lparr>db_sessions := map (\<lambda>s. if ss_id s = k then f s else s) (db_sessions d)\<rparr>"

interpretation sessions: keyed_table db_sessions ss_id get_session add_session alter_session
  by unfold_locales (simp_all add: get_session_def add_session_def alter_session_def)

definition roles_of_user :: "db \<Rightarrow> uuid \<Rightarrow> role list" where
  "roles_of_user d k = filter (\<lambda>r. (k, ro_id r) \<in> set (db_user_roles d)) (db_roles d)"

definition permissions_of_role :: "db \<Rightarrow> uuid \<Rightarrow> string list" where
  "permissions_of_role d k = map snd (filter (\<lambda>p. fst p = k) (db_role_permissions d))"

definition set_user_roles :: "uuid \<Rightarrow> role list \<Rightarrow> db \<Rightarrow> db" where
  "set_user_roles k rs d =
     d\<lparr>db_user_roles := filter (\<lambda>p. fst p \<noteq> k) (db_user_roles d) @ map (\<lambda>r. (k, ro_id r)) rs\<rparr>"

definition set_role_permissions :: "uuid \<Rightarrow> string list \<Rightarrow> db \<Rightarrow> db" where
  "set_role_permissions k desired d =
     d\<lparr>db_role_permissions :=
         filter (\<lambda>p. fst p = k \<longrightarrow> snd p \<in> set desired) (db_role_permissions d)
         @ map (Pair k) (filter (\<lambda>p. (k, p) \<notin> set (db_role_permissions d)) desired)\<rparr>"

section \<open>The first administrator\<close>

definition bootstrap_namespace :: string where
  "bootstrap_namespace = ''bootstrap.initial_admin''"

definition setup_required :: "db \<Rightarrow> bool" where
  "setup_required d = (map_of (db_settings d) bootstrap_namespace = None \<and> db_users d = [])"

definition ensure_role_row :: "db \<Rightarrow> string \<Rightarrow> uuid \<Rightarrow> db \<times> role" where
  "ensure_role_row d name new_id =
     (case find (\<lambda>r. ro_name r = name) (db_roles d) of
        None \<Rightarrow>
          let r = \<lparr>ro_id = new_id, ro_name = name, ro_description = Some (''Built-in '' @ name @ '' role''),
                   ro_built_in = True\<rparr>
          in (add_role r d, r)
      | Some r \<Rightarrow> (alter_role (ro_id r) (\<lambda>x. x\<lparr>ro_built_in := True\<rparr>) d, r\<lparr>ro_built_in := True\<rparr>))"

fun ensure_builtin_roles ::
    "(string \<Rightarrow> uuid) \<Rightarrow> (string \<Rightarrow> uuid) \<Rightarrow> db \<Rightarrow> (string \<times> string list) list \<Rightarrow> (db \<times> (string \<times> role) list) result" where
  "ensure_builtin_roles role_ids scope_ids d [] = Inr (d, [])"
| "ensure_builtin_roles role_ids scope_ids d ((name, desired) # rest) =
     (let (d1, r) = ensure_role_row d name (role_ids name);
          d2 = set_role_permissions (ro_id r) desired d1
      in and_then (ensure_scope d2 (scope_ids name) ''role'' (ro_id r) ''all'') (\<lambda>(d3, _).
         and_then (ensure_builtin_roles role_ids scope_ids d3 rest) (\<lambda>(d4, rs).
         Inr (d4, (name, r) # rs))))"

definition normalized_email :: "string option \<Rightarrow> string option" where
  "normalized_email email =
     (case email of None \<Rightarrow> None | Some e \<Rightarrow> if e = [] then None else Some (py_lower (py_strip e)))"

definition new_user :: "uuid \<Rightarrow> string \<Rightarrow> string \<Rightarrow> string option \<Rightarrow> string \<Rightarrow> user" where
  "new_user k username display_name email hashed =
     \<lparr>us_id = k, us_username = username, us_display_name = display_name, us_email = normalized_email email,
      us_email_verified_at = None, us_password_hash = Some hashed, us_enabled = True, us_last_login_at = None\<rparr>"

definition username_taken :: "db \<Rightarrow> string \<Rightarrow> bool" where
  "username_taken d name = list_ex (\<lambda>u. us_username u = name) (db_users d)"

definition create_initial_administrator ::
    "(string \<Rightarrow> uuid) \<Rightarrow> (string \<Rightarrow> uuid) \<Rightarrow> db \<Rightarrow> uuid \<Rightarrow> string \<Rightarrow> string \<Rightarrow> string option \<Rightarrow> string \<Rightarrow> (db \<times> user) result" where
  "create_initial_administrator role_ids scope_ids d k username display_name email hashed =
     (if \<not> setup_required d then Inl (ApiError 409 ''setup_already_completed'')
      else
        let d1 = d\<lparr>db_settings := db_settings d @ [(bootstrap_namespace, [(''completed'', PBool True)])]\<rparr>
        in case ensure_builtin_roles role_ids scope_ids d1 builtin_role_permissions of
             Inl e \<Rightarrow> if e = IntegrityError then Inl (ApiError 409 ''setup_already_completed'') else Inl e
           | Inr (d2, rs) \<Rightarrow>
               (case map_of rs admin_role_name of
                  None \<Rightarrow> Inl (DomainError ''KeyError'')
                | Some admin \<Rightarrow>
                    let u = new_user k username display_name email hashed
                    in if username_taken d2 username then Inl (ApiError 409 ''setup_already_completed'')
                       else Inr (set_user_roles k [admin] (add_user u d2), u)))"

section \<open>Logins and sessions\<close>

definition verify_or_dummy :: "(string \<Rightarrow> string \<Rightarrow> bool) \<Rightarrow> string \<Rightarrow> string option \<Rightarrow> bool" where
  "verify_or_dummy check password password_hash =
     (case password_hash of None \<Rightarrow> False | Some h \<Rightarrow> h \<noteq> [] \<and> check password h)"

definition authenticate :: "(string \<Rightarrow> string \<Rightarrow> bool) \<Rightarrow> db \<Rightarrow> string \<Rightarrow> string \<Rightarrow> user result" where
  "authenticate check d username password =
     (case find (\<lambda>u. us_username u = username) (db_users d) of
        None \<Rightarrow> Inl (ApiError 401 ''invalid_credentials'')
      | Some u \<Rightarrow>
          if \<not> us_enabled u
             \<or> \<not> verify_or_dummy check password (if us_enabled u then us_password_hash u else None)
          then Inl (ApiError 401 ''invalid_credentials'') else Inr u)"

definition user_roles_and_permissions :: "db \<Rightarrow> uuid \<Rightarrow> string list \<times> string list" where
  "user_roles_and_permissions d k =
     (sort (map ro_name (roles_of_user d k)),
      concat (map (\<lambda>r. permissions_of_role d (ro_id r)) (roles_of_user d k)))"

definition create_session :: "db \<Rightarrow> instant \<Rightarrow> int \<Rightarrow> uuid \<Rightarrow> uuid \<Rightarrow> dict option \<Rightarrow> db \<times> user_session" where
  "create_session d now ttl_hours k user_id client_info =
     (let s = \<lparr>ss_id = k, ss_user_id = user_id, ss_created_at = now, ss_last_seen_at = now,
               ss_expires_at = now + hours ttl_hours, ss_revoked_at = None, ss_client_info = client_info\<rparr>
      in (alter_user user_id (\<lambda>u. u\<lparr>us_last_login_at := Some now\<rparr>) (add_session s d), s))"

text \<open>The principal of a request: the context the permission checks use, and where it comes from.\<close>

record principal =
  pc_context :: auth_context
  pc_roles :: "string list"
  pc_session :: "user_session option"
  pc_api_token :: "api_token option"

definition unauthorized :: error where
  "unauthorized = ApiError 401 ''authentication_required''"

definition principal_of :: "db \<Rightarrow> uuid \<Rightarrow> (string \<Rightarrow> bool) \<Rightarrow> user_session option \<Rightarrow> api_token option \<Rightarrow> principal" where
  "principal_of d k allowed session token =
     (let (names, permissions) = user_roles_and_permissions d k
      in \<lparr>pc_context = \<lparr>ac_user_id = k, ac_role_ids = map ro_id (roles_of_user d k),
            ac_permissions = filter allowed permissions\<rparr>,
          pc_roles = names, pc_session = session, pc_api_token = token\<rparr>)"

lemma principal_of_fields [simp]:
  "ac_user_id (pc_context (principal_of d k allowed session token)) = k"
  "ac_role_ids (pc_context (principal_of d k allowed session token)) = map ro_id (roles_of_user d k)"
  "ac_permissions (pc_context (principal_of d k allowed session token)) = filter allowed (snd (user_roles_and_permissions d k))"
  "pc_session (principal_of d k allowed session token) = session"
  "pc_api_token (principal_of d k allowed session token) = token"
  by (simp_all add: principal_of_def user_roles_and_permissions_def)

definition resolve_session :: "(bytes \<Rightarrow> bytes) \<Rightarrow> db \<Rightarrow> instant \<Rightarrow> string option \<Rightarrow> principal result" where
  "resolve_session mac d now token =
     (case token of
        None \<Rightarrow> Inl unauthorized
      | Some t \<Rightarrow>
          if t = [] then Inl unauthorized
          else (case session_verify mac t of
              None \<Rightarrow> Inl unauthorized
            | Some session_id \<Rightarrow>
                (case get_session d session_id of
                   None \<Rightarrow> Inl unauthorized
                 | Some s \<Rightarrow>
                     if ss_revoked_at s \<noteq> None \<or> ss_expires_at s \<le> now then Inl unauthorized
                     else (case get_user d (ss_user_id s) of
                         None \<Rightarrow> Inl unauthorized
                       | Some u \<Rightarrow>
                           if \<not> us_enabled u then Inl unauthorized
                           else Inr (principal_of d (us_id u) (\<lambda>_. True) (Some s) None)))))"

lemma resolve_session_cases:
  assumes "resolve_session mac d now token = Inr p"
  obtains t k s u where "token = Some t" "session_verify mac t = Some k" "get_session d k = Some s"
    "ss_revoked_at s = None" "now < ss_expires_at s" "get_user d (ss_user_id s) = Some u" "us_enabled u"
    "p = principal_of d (us_id u) (\<lambda>_. True) (Some s) None"
  using assms by (auto simp: resolve_session_def split: option.splits if_splits)

definition revoke_user_sessions :: "instant \<Rightarrow> uuid \<Rightarrow> db \<Rightarrow> db" where
  "revoke_user_sessions now user_id d =
     d\<lparr>db_sessions := map (\<lambda>s. if ss_user_id s = user_id \<and> ss_revoked_at s = None
         then s\<lparr>ss_revoked_at := Some now\<rparr> else s) (db_sessions d)\<rparr>"

definition set_password :: "string \<Rightarrow> uuid \<Rightarrow> db \<Rightarrow> db" where
  "set_password hashed user_id d = alter_user user_id (\<lambda>u. u\<lparr>us_password_hash := Some hashed\<rparr>) d"

definition change_password ::
    "(string \<Rightarrow> string \<Rightarrow> bool) \<Rightarrow> db \<Rightarrow> instant \<Rightarrow> int \<Rightarrow> uuid \<Rightarrow> user \<Rightarrow> string \<Rightarrow> string \<Rightarrow> dict option
     \<Rightarrow> (db \<times> user_session) result" where
  "change_password check d now ttl_hours k u current_password hashed client_info =
     (if us_password_hash u = None \<or> us_password_hash u = Some []
         \<or> \<not> check current_password (the (us_password_hash u))
      then Inl (ApiError 400 ''invalid_current_password'')
      else Inr (create_session (revoke_user_sessions now (us_id u) (set_password hashed (us_id u) d))
                  now ttl_hours k (us_id u) client_info))"

text \<open>Newest first; the order of sessions of the same instant is left to the database.\<close>

definition list_active_sessions :: "db \<Rightarrow> instant \<Rightarrow> uuid \<Rightarrow> user_session list" where
  "list_active_sessions d now user_id =
     sort_key (\<lambda>s. - ss_created_at s)
       (filter (\<lambda>s. ss_user_id s = user_id \<and> ss_revoked_at s = None \<and> now < ss_expires_at s) (db_sessions d))"

definition mark_revoked :: "instant \<Rightarrow> user_session \<Rightarrow> user_session" where
  "mark_revoked now s = (if ss_revoked_at s = None then s\<lparr>ss_revoked_at := Some now\<rparr> else s)"

definition revoke_owned_session :: "db \<Rightarrow> instant \<Rightarrow> uuid \<Rightarrow> uuid \<Rightarrow> db result" where
  "revoke_owned_session d now user_id session_id =
     (case get_session d session_id of
        None \<Rightarrow> Inl (ApiError 404 ''session_not_found'')
      | Some s \<Rightarrow> if ss_user_id s \<noteq> user_id then Inl (ApiError 404 ''session_not_found'')
                 else Inr (alter_session session_id (mark_revoked now) d))"

definition revoke_session_token :: "(bytes \<Rightarrow> bytes) \<Rightarrow> db \<Rightarrow> instant \<Rightarrow> string option \<Rightarrow> db" where
  "revoke_session_token mac d now token =
     (case token of
        None \<Rightarrow> d
      | Some t \<Rightarrow> if t = [] then d
          else (case session_verify mac t of
              None \<Rightarrow> d
            | Some session_id \<Rightarrow> alter_session session_id (mark_revoked now) d))"

section \<open>Administration of users\<close>

definition roles_by_ids :: "db \<Rightarrow> uuid list \<Rightarrow> role list result" where
  "roles_by_ids d role_ids =
     (let found = filter (\<lambda>r. ro_id r \<in> set role_ids) (db_roles d)
      in if set role_ids - ro_id ` set found \<noteq> {} then Inl (ApiError 400 ''invalid_role_ids'') else Inr found)"

definition has_admin_role :: "db \<Rightarrow> uuid \<Rightarrow> bool" where
  "has_admin_role d k = list_ex (\<lambda>r. ro_name r = admin_role_name) (roles_of_user d k)"

definition enabled_admin_count :: "db \<Rightarrow> nat" where
  "enabled_admin_count d = length (filter (\<lambda>u. us_enabled u \<and> has_admin_role d (us_id u)) (db_users d))"

definition guard_last_administrator :: "db \<Rightarrow> user \<Rightarrow> unit result" where
  "guard_last_administrator d u =
     require (\<not> (us_enabled u \<and> has_admin_role d (us_id u) \<and> enabled_admin_count d \<le> 1))
       (ApiError 409 ''last_administrator'')"

definition create_user ::
    "db \<Rightarrow> uuid \<Rightarrow> string \<Rightarrow> string \<Rightarrow> string option \<Rightarrow> string \<Rightarrow> uuid list \<Rightarrow> (db \<times> user) result" where
  "create_user d k username display_name email hashed role_ids =
     and_then (roles_by_ids d role_ids) (\<lambda>rs.
     let u = new_user k username display_name email hashed
     in if username_taken d username then Inl (ApiError 409 ''username_conflict'')
        else Inr (set_user_roles k rs (add_user u d), u))"

text \<open>The fields a PATCH names; a field may be named with the value null.\<close>

record user_changes =
  uc_display_name :: "string option option"
  uc_email :: "string option option"
  uc_role_ids :: "uuid list option option"

definition change_display_name :: "string option option \<Rightarrow> user \<Rightarrow> user" where
  "change_display_name change u =
     (case change of None \<Rightarrow> u | Some None \<Rightarrow> u\<lparr>us_display_name := ''None''\<rparr> | Some (Some n) \<Rightarrow> u\<lparr>us_display_name := n\<rparr>)"

definition change_email :: "string option option \<Rightarrow> user \<Rightarrow> user" where
  "change_email change u =
     (case change of
        None \<Rightarrow> u
      | Some raw \<Rightarrow>
          let email = map_option (\<lambda>e. py_lower (py_strip e)) raw
          in if email \<noteq> us_email u then u\<lparr>us_email := email, us_email_verified_at := None\<rparr> else u)"

definition update_user :: "db \<Rightarrow> user \<Rightarrow> user_changes \<Rightarrow> db result" where
  "update_user d u changes =
     (let d1 = alter_user (us_id u) (\<lambda>x. change_email (uc_email changes) (change_display_name (uc_display_name changes) x)) d
      in case uc_role_ids changes of
           None \<Rightarrow> Inr d1
         | Some ids \<Rightarrow>
             and_then (roles_by_ids d1 (case ids of None \<Rightarrow> [] | Some ks \<Rightarrow> ks)) (\<lambda>rs.
             and_then (if has_admin_role d1 (us_id u) \<and> \<not> list_ex (\<lambda>r. ro_name r = admin_role_name) rs
                       then guard_last_administrator d1 u else Inr ()) (\<lambda>_.
             Inr (set_user_roles (us_id u) rs d1))))"

definition reset_user_password :: "db \<Rightarrow> instant \<Rightarrow> uuid \<Rightarrow> string \<Rightarrow> db" where
  "reset_user_password d now user_id hashed = revoke_user_sessions now user_id (set_password hashed user_id d)"

definition disable_user :: "db \<Rightarrow> instant \<Rightarrow> user \<Rightarrow> db result" where
  "disable_user d now u =
     (if \<not> us_enabled u then Inr d
      else and_then (guard_last_administrator d u) (\<lambda>_.
        Inr (revoke_user_sessions now (us_id u) (alter_user (us_id u) (\<lambda>x. x\<lparr>us_enabled := False\<rparr>) d))))"

definition enable_user :: "db \<Rightarrow> user \<Rightarrow> db" where
  "enable_user d u = alter_user (us_id u) (\<lambda>x. x\<lparr>us_enabled := True\<rparr>) d"

definition list_users :: "db \<Rightarrow> user list" where
  "list_users d = sort_key us_username (db_users d)"

definition list_roles :: "db \<Rightarrow> role list" where
  "list_roles d = sort_key ro_name (db_roles d)"

section \<open>Administration of roles\<close>

definition validate_permissions :: "string list \<Rightarrow> string list result" where
  "validate_permissions permissions =
     (let normalized = sort (remdups permissions)
      in if set normalized - set all_permissions \<noteq> {} then Inl (ApiError 400 ''invalid_permissions'') else Inr normalized)"

definition role_name_taken :: "db \<Rightarrow> uuid \<Rightarrow> string \<Rightarrow> bool" where
  "role_name_taken d k name = list_ex (\<lambda>r. ro_name r = name \<and> ro_id r \<noteq> k) (db_roles d)"

definition create_role ::
    "db \<Rightarrow> uuid \<Rightarrow> uuid \<Rightarrow> string \<Rightarrow> string option \<Rightarrow> string list \<Rightarrow> (db \<times> role) result" where
  "create_role d k scope_id name description permissions =
     and_then (validate_permissions permissions) (\<lambda>normalized.
     let r = \<lparr>ro_id = k, ro_name = name, ro_description = description, ro_built_in = False\<rparr>
     in if role_name_taken d k name then Inl (ApiError 409 ''role_name_conflict'')
        else (case ensure_scope (set_role_permissions k normalized (add_role r d)) scope_id ''role'' k ''none'' of
            Inl e \<Rightarrow> if e = IntegrityError then Inl (ApiError 409 ''role_name_conflict'') else Inl e
          | Inr (d', _) \<Rightarrow> Inr (d', r)))"

record role_changes =
  rc_name :: "string option"
  rc_description :: "string option option"
  rc_permissions :: "string list option"

definition change_role :: "role_changes \<Rightarrow> role \<Rightarrow> role" where
  "change_role changes r =
     r\<lparr>ro_name := (case rc_name changes of None \<Rightarrow> ro_name r | Some n \<Rightarrow> n),
       ro_description := (case rc_description changes of None \<Rightarrow> ro_description r | Some t \<Rightarrow> t)\<rparr>"

definition update_role :: "db \<Rightarrow> role \<Rightarrow> role_changes \<Rightarrow> db result" where
  "update_role d r changes =
     (if ro_built_in r then Inl (ApiError 409 ''builtin_role_immutable'')
      else
        let d1 = alter_role (ro_id r) (change_role changes) d
        in and_then (case rc_permissions changes of
               None \<Rightarrow> Inr d1
             | Some ps \<Rightarrow> and_then (validate_permissions ps) (\<lambda>normalized. Inr (set_role_permissions (ro_id r) normalized d1)))
             (\<lambda>d2. if role_name_taken d (ro_id r) (ro_name (change_role changes r))
                   then Inl (ApiError 409 ''role_name_conflict'') else Inr d2))"

end
