(* ===== verification/Tokens.thy ===== *)
theory Tokens
  imports Accounts Uuid
begin

text \<open>
  \<open>modules/auth/api_tokens.py\<close>, \<open>password_reset.py\<close> and the authentication of a request in
  \<open>dependencies.py\<close>: personal API tokens limited to a scope of permissions, and one-time password
  reset tokens, which are derived from the row and the deployment's keys so that the mail worker can
  rebuild them. \<open>sha\<close> stands for the hexadecimal SHA-256, \<open>keyed_mac\<close> for HMAC-SHA256 under a key over
  the reset context and the given bytes; new random tokens and hashes are arguments.
\<close>

section \<open>Personal API tokens\<close>

definition get_api_token :: "db \<Rightarrow> uuid \<Rightarrow> api_token option" where
  "get_api_token d k = find (\<lambda>t. at_id t = k) (db_api_tokens d)"

definition add_api_token :: "api_token \<Rightarrow> db \<Rightarrow> db" where
  "add_api_token t d = d\<lparr>db_api_tokens := db_api_tokens d @ [t]\<rparr>"

definition alter_api_token :: "uuid \<Rightarrow> (api_token \<Rightarrow> api_token) \<Rightarrow> db \<Rightarrow> db" where
  "alter_api_token k f d = d\<lparr>db_api_tokens := map (\<lambda>t. if at_id t = k then f t else t) (db_api_tokens d)\<rparr>"

interpretation api_tokens: keyed_table db_api_tokens at_id get_api_token add_api_token alter_api_token
  by unfold_locales (simp_all add: get_api_token_def add_api_token_def alter_api_token_def)

definition token_prefix :: string where
  "token_prefix = ''znr_pat_''"

definition api_token_live :: "instant \<Rightarrow> api_token \<Rightarrow> bool" where
  "api_token_live now t = (at_revoked_at t = None \<and> (case at_expires_at t of None \<Rightarrow> True | Some e \<Rightarrow> now < e))"

definition api_token_resolve :: "(string \<Rightarrow> string) \<Rightarrow> db \<Rightarrow> instant \<Rightarrow> string \<Rightarrow> (db \<times> api_token) result" where
  "api_token_resolve sha d now plaintext =
     (let token = py_strip plaintext
      in if take (length token_prefix) token \<noteq> token_prefix then Inl unauthorized
         else (case find (\<lambda>t. at_token_hash t = sha token) (db_api_tokens d) of
             None \<Rightarrow> Inl unauthorized
           | Some t \<Rightarrow>
               if \<not> api_token_live now t then Inl unauthorized
               else Inr (alter_api_token (at_id t) (\<lambda>x. x\<lparr>at_last_used_at := Some now\<rparr>) d,
                         t\<lparr>at_last_used_at := Some now\<rparr>)))"

definition permission_names :: "api_token \<Rightarrow> string set" where
  "permission_names t =
     (case map_of (at_permission_scope t) ''permissions'' of
        Some (PList xs) \<Rightarrow>
          if list_all (\<lambda>x. case x of PStr _ \<Rightarrow> True | _ \<Rightarrow> False) xs
          then set (map (\<lambda>x. case x of PStr s \<Rightarrow> s | _ \<Rightarrow> []) xs) else {}
      | _ \<Rightarrow> {})"

definition list_owned_tokens :: "db \<Rightarrow> uuid \<Rightarrow> api_token list" where
  "list_owned_tokens d user_id =
     sort_key (\<lambda>t. (- at_created_at t, - int (at_id t))) (filter (\<lambda>t. at_user_id t = user_id) (db_api_tokens d))"

definition api_token_expiry :: "instant \<Rightarrow> py_datetime option \<Rightarrow> instant option result" where
  "api_token_expiry now expires_at =
     (case expires_at of
        None \<Rightarrow> Inr None
      | Some (Naive _) \<Rightarrow> Inl (ApiError 400 ''api_token_expiry_invalid'')
      | Some (Aware e) \<Rightarrow> if e \<le> now then Inl (ApiError 400 ''api_token_expiry_invalid'') else Inr (Some e))"

text \<open>\<open>secrets.token_urlsafe\<close> is base64 without padding of random bytes.\<close>

definition api_token_create ::
    "(string \<Rightarrow> string) \<Rightarrow> db \<Rightarrow> instant \<Rightarrow> uuid \<Rightarrow> bytes \<Rightarrow> uuid \<Rightarrow> string \<Rightarrow> string list \<Rightarrow> string list \<Rightarrow> py_datetime option
     \<Rightarrow> (db \<times> api_token \<times> string) result" where
  "api_token_create sha d now k random user_id name permissions allowed_permissions expires_at =
     (if py_strip name = [] then Inl (ApiError 400 ''api_token_name_invalid'')
      else if set permissions - set allowed_permissions \<noteq> {} then Inl (ApiError 403 ''api_token_scope_invalid'')
      else and_then (api_token_expiry now expires_at) (\<lambda>expires.
        let plaintext = token_prefix @ b64_encode random;
            t = \<lparr>at_id = k, at_user_id = user_id, at_name = py_strip name, at_token_hash = sha plaintext,
                 at_permission_scope = [(''permissions'', PList (map PStr (sort (remdups permissions))))],
                 at_created_at = now, at_expires_at = expires, at_last_used_at = None, at_revoked_at = None\<rparr>
        in if list_ex (\<lambda>x. at_token_hash x = at_token_hash t) (db_api_tokens d) then Inl IntegrityError
           else Inr (add_api_token t d, t, plaintext)))"

definition api_token_revoke :: "db \<Rightarrow> instant \<Rightarrow> uuid \<Rightarrow> uuid \<Rightarrow> db result" where
  "api_token_revoke d now user_id token_id =
     (case get_api_token d token_id of
        None \<Rightarrow> Inl (ApiError 404 ''api_token_not_found'')
      | Some t \<Rightarrow>
          if at_user_id t \<noteq> user_id then Inl (ApiError 404 ''api_token_not_found'')
          else Inr (alter_api_token token_id
                 (\<lambda>x. if at_revoked_at x = None then x\<lparr>at_revoked_at := Some now\<rparr> else x) d))"

section \<open>The principal of a request\<close>

definition resolve_api_token :: "(string \<Rightarrow> string) \<Rightarrow> db \<Rightarrow> instant \<Rightarrow> string \<Rightarrow> (db \<times> principal) result" where
  "resolve_api_token sha d now token =
     and_then (api_token_resolve sha d now token) (\<lambda>(d', t).
       case get_user d' (at_user_id t) of
         None \<Rightarrow> Inl unauthorized
       | Some u \<Rightarrow>
           if \<not> us_enabled u then Inl unauthorized
           else Inr (d', principal_of d' (us_id u) (\<lambda>p. p \<in> permission_names t) None (Some t)))"

lemma resolve_api_token_cases:
  assumes "resolve_api_token sha d now token = Inr (d', p)"
  obtains t u where "find (\<lambda>t. at_token_hash t = sha (py_strip token)) (db_api_tokens d) = Some t" "api_token_live now t"
    "d' = alter_api_token (at_id t) (\<lambda>x. x\<lparr>at_last_used_at := Some now\<rparr>) d"
    "get_user d (at_user_id t) = Some u" "us_enabled u"
    "p = principal_of d' (us_id u) (\<lambda>q. q \<in> permission_names t) None (Some (t\<lparr>at_last_used_at := Some now\<rparr>))"
proof -
  obtain t where t: "find (\<lambda>t. at_token_hash t = sha (py_strip token)) (db_api_tokens d) = Some t" "api_token_live now t"
    "api_token_resolve sha d now token = Inr (alter_api_token (at_id t) (\<lambda>x. x\<lparr>at_last_used_at := Some now\<rparr>) d,
       t\<lparr>at_last_used_at := Some now\<rparr>)"
    using assms by (auto simp: resolve_api_token_def api_token_resolve_def Let_def result_simps split: option.splits if_splits)
  have user: "get_user (alter_api_token k f d) i = get_user d i" for k f i by (simp add: get_user_def alter_api_token_def)
  have names: "permission_names (t\<lparr>at_last_used_at := Some now\<rparr>) = permission_names t" by (simp add: permission_names_def)
  obtain u where "get_user d (at_user_id t) = Some u" "us_enabled u"
    "d' = alter_api_token (at_id t) (\<lambda>x. x\<lparr>at_last_used_at := Some now\<rparr>) d"
    "p = principal_of d' (us_id u) (\<lambda>q. q \<in> permission_names t) None (Some (t\<lparr>at_last_used_at := Some now\<rparr>))"
    using assms t(3) by (auto simp: resolve_api_token_def user names split: option.splits if_splits)
  with that t(1,2) show thesis by blast
qed

definition resolve_auth_context ::
    "(bytes \<Rightarrow> bytes) \<Rightarrow> (string \<Rightarrow> string) \<Rightarrow> db \<Rightarrow> instant \<Rightarrow> string option \<Rightarrow> string option \<Rightarrow> (db \<times> principal) result" where
  "resolve_auth_context mac sha d now header cookie =
     (let authorization = py_strip (case header of None \<Rightarrow> [] | Some h \<Rightarrow> h)
      in if authorization \<noteq> [] then
           (let scheme = takeWhile (\<lambda>c. c \<noteq> CHR '' '') authorization;
                rest = dropWhile (\<lambda>c. c \<noteq> CHR '' '') authorization;
                credential = py_strip (drop 1 rest)
            in if rest \<noteq> [] \<and> py_lower scheme = ''bearer'' \<and> credential \<noteq> []
               then resolve_api_token sha d now credential else Inl unauthorized)
         else and_then (resolve_session mac d now cookie) (\<lambda>p. Inr (d, p)))"

section \<open>Password reset tokens\<close>

definition get_reset :: "db \<Rightarrow> uuid \<Rightarrow> reset_token option" where
  "get_reset d k = find (\<lambda>r. pt_id r = k) (db_reset_tokens d)"

definition add_reset :: "reset_token \<Rightarrow> db \<Rightarrow> db" where
  "add_reset r d = d\<lparr>db_reset_tokens := db_reset_tokens d @ [r]\<rparr>"

definition alter_reset :: "uuid \<Rightarrow> (reset_token \<Rightarrow> reset_token) \<Rightarrow> db \<Rightarrow> db" where
  "alter_reset k f d = d\<lparr>db_reset_tokens := map (\<lambda>r. if pt_id r = k then f r else r) (db_reset_tokens d)\<rparr>"

interpretation resets: keyed_table db_reset_tokens pt_id get_reset add_reset alter_reset
  by unfold_locales (simp_all add: get_reset_def add_reset_def alter_reset_def)

definition reset_ttl :: span where
  "reset_ttl = minutes 30"

definition reset_expires_seconds :: "reset_token \<Rightarrow> int" where
  "reset_expires_seconds r =
     (if 0 \<le> pt_expires_at r then pt_expires_at r div 1000000 else - (- pt_expires_at r div 1000000))"

definition signed_bytes :: "int \<Rightarrow> bytes" where
  "signed_bytes n = map (\<lambda>i. of_int (n div 256 ^ i)) (rev [0..<8])"

definition reset_payload :: "reset_token \<Rightarrow> bytes" where
  "reset_payload r = uuid_bytes (pt_id r) @ uuid_bytes (pt_user_id r) @ signed_bytes (reset_expires_seconds r)"

definition token_for_key :: "(string \<Rightarrow> bytes \<Rightarrow> bytes) \<Rightarrow> reset_token \<Rightarrow> string \<Rightarrow> string" where
  "token_for_key keyed_mac r key =
     ''znr1.'' @ b64_encode (uuid_bytes (pt_id r)) @ ''.'' @ b64_encode (keyed_mac key (reset_payload r))"

definition token_for_record ::
    "(string \<Rightarrow> bytes \<Rightarrow> bytes) \<Rightarrow> (string \<Rightarrow> string) \<Rightarrow> string list \<Rightarrow> reset_token \<Rightarrow> string result" where
  "token_for_record keyed_mac sha keys r =
     (case find (\<lambda>t. sha t = pt_token_hash r) (map (token_for_key keyed_mac r) keys) of
        Some t \<Rightarrow> Inr t
      | None \<Rightarrow> Inl (ApiError 409 ''password_reset_token_unavailable''))"

definition reset_open :: "instant \<Rightarrow> reset_token \<Rightarrow> bool" where
  "reset_open now r = (pt_used_at r = None \<and> now < pt_expires_at r)"

definition retire_resets :: "(reset_token \<Rightarrow> bool) \<Rightarrow> instant \<Rightarrow> uuid \<Rightarrow> db \<Rightarrow> db" where
  "retire_resets which now user_id d =
     d\<lparr>db_reset_tokens := map (\<lambda>r. if pt_user_id r = user_id \<and> pt_used_at r = None \<and> which r
         then r\<lparr>pt_used_at := Some now\<rparr> else r) (db_reset_tokens d)\<rparr>"

definition create_reset ::
    "(string \<Rightarrow> bytes \<Rightarrow> bytes) \<Rightarrow> (string \<Rightarrow> string) \<Rightarrow> string \<Rightarrow> db \<Rightarrow> instant \<Rightarrow> uuid \<Rightarrow> uuid \<Rightarrow> uuid option \<Rightarrow> dict option
     \<Rightarrow> (db \<times> reset_token) result" where
  "create_reset keyed_mac sha key d now k user_id created_by metadata =
     (let d1 = retire_resets (reset_open now) now user_id d;
          r0 = \<lparr>pt_id = k, pt_user_id = user_id, pt_token_hash = ''pending'', pt_requested_at = now,
                pt_expires_at = now + reset_ttl, pt_used_at = None,
                pt_request_metadata = (if metadata = Some [] then None else metadata), pt_created_by = created_by\<rparr>;
          r = r0\<lparr>pt_token_hash := sha (token_for_key keyed_mac r0 key)\<rparr>
      in if list_ex (\<lambda>x. pt_token_hash x = pt_token_hash r) (db_reset_tokens d1) then Inl IntegrityError
         else Inr (add_reset r d1, r))"

definition issue_admin_reset ::
    "(string \<Rightarrow> bytes \<Rightarrow> bytes) \<Rightarrow> (string \<Rightarrow> string) \<Rightarrow> string \<Rightarrow> string list \<Rightarrow> db \<Rightarrow> instant \<Rightarrow> uuid \<Rightarrow> user \<Rightarrow> uuid
     \<Rightarrow> dict option \<Rightarrow> (db \<times> string \<times> instant) result" where
  "issue_admin_reset keyed_mac sha key previous d now k u created_by metadata =
     (if \<not> us_enabled u then Inl (ApiError 409 ''user_disabled'')
      else and_then (create_reset keyed_mac sha key d now k (us_id u) (Some created_by) metadata) (\<lambda>(d', r).
        and_then (token_for_record keyed_mac sha (key # previous) r) (\<lambda>token. Inr (d', token, pt_expires_at r))))"

text \<open>The notification target that sends the mail: the configured SMTP target, or one marked for it.\<close>

definition security_email_target_id :: "db \<Rightarrow> uuid option" where
  "security_email_target_id d =
     (case map_of (db_settings d) ''notifications.security_email'' of
        None \<Rightarrow> None
      | Some value \<Rightarrow>
          (case map_of value ''target_id'' of
             Some (PStr raw) \<Rightarrow> (case parse_uuid raw of Inl _ \<Rightarrow> None | Inr k \<Rightarrow> Some k)
           | _ \<Rightarrow> None))"

definition security_email_target :: "db \<Rightarrow> notification_target option" where
  "security_email_target d =
     (case security_email_target_id d of
        None \<Rightarrow> None
      | Some k \<Rightarrow>
          (case find (\<lambda>t. nt_id t = k) (db_notification_targets d) of
             None \<Rightarrow> None
           | Some t \<Rightarrow> if nt_kind t \<noteq> ''smtp'' then None else Some t))"

definition is_password_reset_target :: "notification_target \<Rightarrow> bool" where
  "is_password_reset_target t = (map_of (nt_config_json t) ''password_reset'' = Some (PBool True))"

definition list_notification_targets :: "db \<Rightarrow> notification_target list" where
  "list_notification_targets d = sort_key (\<lambda>t. (nt_name t, nt_id t)) (db_notification_targets d)"

definition password_reset_target :: "db \<Rightarrow> notification_target option" where
  "password_reset_target d =
     find (\<lambda>t. nt_enabled t \<and> is_password_reset_target t) (list_notification_targets d)"

definition reset_mail_target :: "db \<Rightarrow> notification_target option" where
  "reset_mail_target d =
     (case security_email_target d of
        Some t \<Rightarrow> if nt_enabled t then Some t else password_reset_target d
      | None \<Rightarrow> password_reset_target d)"

definition reset_user :: "db \<Rightarrow> string \<Rightarrow> user option" where
  "reset_user d identifier =
     find (\<lambda>u. us_enabled u \<and> (us_username u = identifier \<or>
        (case us_email u of None \<Rightarrow> False | Some e \<Rightarrow> py_lower e = py_lower identifier))) (db_users d)"

definition reset_delivery :: "uuid \<Rightarrow> uuid \<Rightarrow> uuid \<Rightarrow> delivery" where
  "reset_delivery k target_id reset_id =
     \<lparr>nd_id = k, nd_alert_id = None, nd_purpose = ''password_reset'', nd_notification_target_id = target_id,
      nd_state = Pending, nd_attempt_count = 0, nd_title = ''zero-nvr password reset'',
      nd_body = ''A one-time password reset token was requested. The token is generated only when this message is sent.'',
      nd_last_attempt_at = None, nd_sent_at = None, nd_last_error_code = None,
      nd_correlation_id = Some (uuid_str reset_id)\<rparr>"

definition issue_reset ::
    "(string \<Rightarrow> bytes \<Rightarrow> bytes) \<Rightarrow> (string \<Rightarrow> string) \<Rightarrow> string \<Rightarrow> db \<Rightarrow> instant \<Rightarrow> uuid \<Rightarrow> uuid \<Rightarrow> string \<Rightarrow> dict option
     \<Rightarrow> (db \<times> (uuid \<times> uuid) option) result" where
  "issue_reset keyed_mac sha key d now k delivery_id identifier metadata =
     (let normalized = py_strip identifier
      in if normalized = [] then Inr (d, None)
         else (case reset_user d normalized of
             None \<Rightarrow> Inr (d, None)
           | Some u \<Rightarrow>
               if us_email u = None \<or> us_email u = Some [] then Inr (d, None)
               else (case reset_mail_target d of
                   None \<Rightarrow> Inr (d, None)
                 | Some target \<Rightarrow>
                     if list_ex (\<lambda>r. pt_user_id r = us_id u \<and> now - seconds 60 \<le> pt_requested_at r) (db_reset_tokens d)
                     then Inr (d, None)
                     else and_then (create_reset keyed_mac sha key d now k (us_id u) None metadata) (\<lambda>(d1, r).
                       Inr (d1\<lparr>db_deliveries := db_deliveries d1 @ [reset_delivery delivery_id (nt_id target) (pt_id r)]\<rparr>,
                            Some (us_id u, delivery_id))))))"

text \<open>The mail: its recipient, the token and the expiry its text names.\<close>

record reset_mail =
  rm_recipient :: string
  rm_token :: string
  rm_expires_at :: instant

definition invalid_token :: error where
  "invalid_token = ApiError 400 ''password_reset_token_invalid''"

definition delivery_mail ::
    "(string \<Rightarrow> bytes \<Rightarrow> bytes) \<Rightarrow> (string \<Rightarrow> string) \<Rightarrow> string list \<Rightarrow> db \<Rightarrow> instant \<Rightarrow> string \<Rightarrow> reset_mail result" where
  "delivery_mail keyed_mac sha keys d now correlation_id =
     (case parse_uuid correlation_id of
        Inl _ \<Rightarrow> Inl (ApiError 409 ''password_reset_delivery_invalid'')
      | Inr reset_id \<Rightarrow>
          (case get_reset d reset_id of
             None \<Rightarrow> Inl invalid_token
           | Some r \<Rightarrow>
               if \<not> reset_open now r then Inl invalid_token
               else (case get_user d (pt_user_id r) of
                   None \<Rightarrow> Inl invalid_token
                 | Some u \<Rightarrow>
                     (case us_email u of
                        None \<Rightarrow> Inl invalid_token
                      | Some email \<Rightarrow>
                          if \<not> us_enabled u \<or> email = [] then Inl invalid_token
                          else and_then (token_for_record keyed_mac sha keys r) (\<lambda>token.
                            Inr \<lparr>rm_recipient = email, rm_token = token, rm_expires_at = pt_expires_at r\<rparr>)))))"

definition consume_reset ::
    "(string \<Rightarrow> string) \<Rightarrow> db \<Rightarrow> instant \<Rightarrow> string \<Rightarrow> string \<Rightarrow> (db \<times> reset_token) result" where
  "consume_reset sha d now token hashed =
     (let normalized = py_strip token
      in if normalized = [] then Inl invalid_token
         else (case find (\<lambda>r. pt_token_hash r = sha normalized) (db_reset_tokens d) of
             None \<Rightarrow> Inl invalid_token
           | Some r \<Rightarrow>
               if \<not> reset_open now r then Inl invalid_token
               else (case get_user d (pt_user_id r) of
                   None \<Rightarrow> Inl invalid_token
                 | Some u \<Rightarrow>
                     if \<not> us_enabled u then Inl invalid_token
                     else Inr (retire_resets (\<lambda>_. True) now (us_id u)
                                 (revoke_user_sessions now (us_id u) (set_password hashed (us_id u) d)), r))))"

end
