(* ===== verification/Evolution.thy ===== *)
theory Evolution
  imports Model
begin

text \<open>
  Tables whose rows are never deleted: an operation replaces rows in place and appends new ones with
  fresh keys. \<open>keeps\<close> says what a row keeps of its past; the lemmas carry that over sequences of
  operations. The components interpret the locale on their own tables.
\<close>

lemma find_append_fresh: "k \<notin> f ` set xs \<Longrightarrow> find (\<lambda>x. f x = k) (xs @ ys) = find (\<lambda>x. f x = k) ys"
  by (induction xs) auto

definition evolves :: "('row \<Rightarrow> 'key) \<Rightarrow> ('row \<Rightarrow> 'row \<Rightarrow> bool) \<Rightarrow> 'row list \<Rightarrow> 'row list \<Rightarrow> bool" where
  "evolves key keeps xs ys \<longleftrightarrow> (\<exists>new. list_all2 keeps (xs @ new) ys
     \<and> distinct (map key new) \<and> key ` set new \<inter> key ` set xs = {})"

locale evolution =
  fixes key :: "'row \<Rightarrow> 'key" and keeps :: "'row \<Rightarrow> 'row \<Rightarrow> bool"
  assumes keeps_refl: "keeps r r"
    and keeps_trans: "keeps r s \<Longrightarrow> keeps s t \<Longrightarrow> keeps r t"
    and keeps_key: "keeps r s \<Longrightarrow> key s = key r"
begin

lemma all_keeps_refl: "list_all2 keeps xs xs"
  by (simp add: list.rel_refl keeps_refl)

lemma all_keeps_keys: "list_all2 keeps xs ys \<Longrightarrow> map key ys = map key xs"
  by (induction rule: list_all2_induct) (simp_all add: keeps_key)

lemma evolves_refl: "evolves key keeps xs xs"
  unfolding evolves_def by (intro exI [of _ "[]"]) (simp add: all_keeps_refl)

lemma evolves_map:
  assumes "\<And>x. x \<in> set xs \<Longrightarrow> keeps x (f x)"
  shows "evolves key keeps xs (map f xs)"
  unfolding evolves_def using assms
  by (intro exI [of _ "[]"]) (auto simp: list_all2_map2 list.rel_refl_strong intro!: list_all2_same [THEN iffD2])

lemma evolves_append:
  assumes "key x \<notin> key ` set xs"
  shows "evolves key keeps xs (xs @ [x])"
  unfolding evolves_def using assms by (intro exI [of _ "[x]"]) (simp add: all_keeps_refl)

lemma evolves_keys:
  assumes "evolves key keeps xs ys"
  obtains new where "map key ys = map key xs @ new" "distinct new" "set new \<inter> key ` set xs = {}"
proof -
  obtain rows where "list_all2 keeps (xs @ rows) ys" "distinct (map key rows)" "key ` set rows \<inter> key ` set xs = {}"
    using assms by (auto simp: evolves_def)
  with all_keeps_keys [OF this(1)] that [of "map key rows"] show thesis by simp
qed

lemma evolves_distinct: "evolves key keeps xs ys \<Longrightarrow> distinct (map key xs) \<Longrightarrow> distinct (map key ys)"
  by (erule evolves_keys) auto

lemma evolves_find:
  assumes "evolves key keeps xs ys" and "find (\<lambda>r. key r = k) xs = Some x"
  obtains y where "find (\<lambda>r. key r = k) ys = Some y" "keeps x y"
proof -
  obtain new where "list_all2 keeps (xs @ new) ys" using assms(1) by (auto simp: evolves_def)
  moreover have "find (\<lambda>r. key r = k) (xs @ new) = Some x" using assms(2) by (induction xs) auto
  moreover have "list_all2 keeps us vs \<Longrightarrow> find (\<lambda>r. key r = k) us = Some x \<Longrightarrow>
      \<exists>y. find (\<lambda>r. key r = k) vs = Some y \<and> keeps x y" for us vs
    by (induction rule: list_all2_induct) (auto simp: keeps_key split: if_splits)
  ultimately show thesis using that by blast
qed

lemma evolves_trans:
  assumes "evolves key keeps xs ys" and "evolves key keeps ys zs"
  shows "evolves key keeps xs zs"
proof -
  obtain new1 where 1: "list_all2 keeps (xs @ new1) ys" "distinct (map key new1)" "key ` set new1 \<inter> key ` set xs = {}"
    using assms(1) by (auto simp: evolves_def)
  obtain new2 where 2: "list_all2 keeps (ys @ new2) zs" "distinct (map key new2)" "key ` set new2 \<inter> key ` set ys = {}"
    using assms(2) by (auto simp: evolves_def)
  have "list_all2 keeps (xs @ new1 @ new2) (ys @ new2)"
    using list_all2_appendI [OF 1(1) all_keeps_refl [of new2]] by simp
  then have "list_all2 keeps (xs @ new1 @ new2) zs" using 2(1) list_all2_trans [of keeps keeps keeps] keeps_trans by blast
  moreover have "key ` set ys = key ` set xs \<union> key ` set new1"
    using all_keeps_keys [OF 1(1)] by (metis image_Un list.set_map map_append set_append)
  ultimately show ?thesis unfolding evolves_def using 1 2
    by (intro exI [of _ "new1 @ new2"]) (auto simp: disjoint_iff)
qed

end

end
