(* ===== verification/AccountWorld.thy ===== *)
theory AccountWorld
  imports Tokens Evolution
begin

text \<open>
  The requests of \<open>modules/auth/api.py\<close> and \<open>admin_api.py\<close> that change accounts, sessions and tokens,
  with the check of the principal each route makes, and what holds after any sequence of them: an
  enabled administrator remains, ended sessions stay ended, a reset token works once and only for
  half an hour, and an API token never gives more than it was made for.
\<close>

section \<open>Requests\<close>

text \<open>The deployment: signing keys and hash functions, and the lifetime of sessions in hours.\<close>

record auth_env =
  ev_mac :: "bytes \<Rightarrow> bytes"
  ev_keyed_mac :: "string \<Rightarrow> bytes \<Rightarrow> bytes"
  ev_sha :: "string \<Rightarrow> string"
  ev_check :: "string \<Rightarrow> string \<Rightarrow> bool"
  ev_key :: string
  ev_previous :: "string list"
  ev_ttl_hours :: int

text \<open>What a request authenticates with: the header \<open>Authorization\<close> and the session cookie.\<close>

type_synonym credentials = "string option \<times> string option"

definition as_principal ::
    "auth_env \<Rightarrow> db \<Rightarrow> instant \<Rightarrow> credentials \<Rightarrow> (db \<Rightarrow> principal \<Rightarrow> db result) \<Rightarrow> db result" where
  "as_principal env d now cred action =
     and_then (resolve_auth_context (ev_mac env) (ev_sha env) d now (fst cred) (snd cred)) (\<lambda>(d', p). action d' p)"

definition as_manager :: "auth_env \<Rightarrow> db \<Rightarrow> instant \<Rightarrow> credentials \<Rightarrow> (db \<Rightarrow> principal \<Rightarrow> db result) \<Rightarrow> db result" where
  "as_manager env d now cred action =
     as_principal env d now cred (\<lambda>d' p.
       and_then (require_permission (pc_context p) ''user.manage'') (\<lambda>_. action d' p))"

definition interactively :: "auth_env \<Rightarrow> db \<Rightarrow> instant \<Rightarrow> credentials \<Rightarrow> (db \<Rightarrow> principal \<Rightarrow> db result) \<Rightarrow> db result" where
  "interactively env d now cred action =
     as_principal env d now cred (\<lambda>d' p.
       and_then (require (pc_session p \<noteq> None) (ApiError 403 ''interactive_session_required'')) (\<lambda>_. action d' p))"

definition fst_result :: "('a \<times> 'b) result \<Rightarrow> 'a result" where
  "fst_result m = and_then m (\<lambda>x. Inr (fst x))"

datatype account_request =
    SetupAdministrator "string \<Rightarrow> uuid" "string \<Rightarrow> uuid" uuid string string "string option" string
  | Login string string uuid "dict option"
  | Logout "string option"
  | ReadRequest credentials
  | RevokeSession credentials uuid
  | ChangePassword credentials uuid string string "dict option"
  | CreateUser credentials uuid string string "string option" string "uuid list"
  | UpdateUser credentials uuid user_changes
  | DisableUser credentials uuid
  | EnableUser credentials uuid
  | CreateRole credentials uuid uuid string "string option" "string list"
  | UpdateRole credentials uuid role_changes
  | CreateApiToken credentials uuid bytes string "string list option" "py_datetime option"
  | RevokeApiToken credentials uuid
  | IssueReset credentials uuid uuid
  | RequestReset uuid uuid string "dict option"
  | CompleteReset string string

definition handle_login ::
    "(string \<Rightarrow> string \<Rightarrow> bool) \<Rightarrow> int \<Rightarrow> db \<Rightarrow> instant \<Rightarrow> string \<Rightarrow> string \<Rightarrow> uuid \<Rightarrow> dict option \<Rightarrow> db result" where
  "handle_login check ttl_hours d now username password k client_info =
     and_then (authenticate check d username password) (\<lambda>u.
     Inr (fst (create_session d now ttl_hours k (us_id u) client_info)))"

fun handle :: "auth_env \<Rightarrow> db \<Rightarrow> instant \<Rightarrow> account_request \<Rightarrow> db result" where
  "handle env d now (SetupAdministrator role_ids scope_ids k username display_name email hashed) =
     fst_result (create_initial_administrator role_ids scope_ids d k username display_name email hashed)"
| "handle env d now (Login username password k client_info) =
     handle_login (ev_check env) (ev_ttl_hours env) d now username password k client_info"
| "handle env d now (Logout token) = Inr (revoke_session_token (ev_mac env) d now token)"
| "handle env d now (ReadRequest cred) = as_principal env d now cred (\<lambda>d' p. Inr d')"
| "handle env d now (RevokeSession cred k) =
     interactively env d now cred (\<lambda>d' p. revoke_owned_session d' now (ac_user_id (pc_context p)) k)"
| "handle env d now (ChangePassword cred k current hashed client_info) =
     interactively env d now cred (\<lambda>d' p.
       (case get_user d' (ac_user_id (pc_context p)) of
          None \<Rightarrow> Inl unauthorized
        | Some u \<Rightarrow> fst_result (change_password (ev_check env) d' now (ev_ttl_hours env) k u current hashed client_info)))"
| "handle env d now (CreateUser cred k username display_name email hashed role_ids) =
     as_manager env d now cred (\<lambda>d' p. fst_result (create_user d' k username display_name email hashed role_ids))"
| "handle env d now (UpdateUser cred k changes) =
     as_manager env d now cred (\<lambda>d' p.
       and_then (fetch_or_404 (get_user d' k) ''user_not_found'') (\<lambda>u. update_user d' u changes))"
| "handle env d now (DisableUser cred k) =
     as_manager env d now cred (\<lambda>d' p.
       and_then (fetch_or_404 (get_user d' k) ''user_not_found'') (\<lambda>u. disable_user d' now u))"
| "handle env d now (EnableUser cred k) =
     as_manager env d now cred (\<lambda>d' p.
       and_then (fetch_or_404 (get_user d' k) ''user_not_found'') (\<lambda>u. Inr (enable_user d' u)))"
| "handle env d now (CreateRole cred k scope_id name description permissions) =
     as_manager env d now cred (\<lambda>d' p. fst_result (create_role d' k scope_id name description permissions))"
| "handle env d now (UpdateRole cred k changes) =
     as_manager env d now cred (\<lambda>d' p.
       and_then (fetch_or_404 (get_role d' k) ''role_not_found'') (\<lambda>r. update_role d' r changes))"
| "handle env d now (CreateApiToken cred k random name permissions expires_at) =
     interactively env d now cred (\<lambda>d' p.
       fst_result (api_token_create (ev_sha env) d' now k random (ac_user_id (pc_context p)) name
         (case permissions of Some ps \<Rightarrow> ps | None \<Rightarrow> ac_permissions (pc_context p))
         (ac_permissions (pc_context p)) expires_at))"
| "handle env d now (RevokeApiToken cred k) =
     interactively env d now cred (\<lambda>d' p. api_token_revoke d' now (ac_user_id (pc_context p)) k)"
| "handle env d now (IssueReset cred k user_id) =
     as_manager env d now cred (\<lambda>d' p.
       and_then (fetch_or_404 (get_user d' user_id) ''user_not_found'') (\<lambda>u.
         fst_result (issue_admin_reset (ev_keyed_mac env) (ev_sha env) (ev_key env) (ev_previous env) d' now k u
           (ac_user_id (pc_context p)) (Some [(''source'', PStr ''administrator'')]))))"
| "handle env d now (RequestReset k delivery_id identifier metadata) =
     fst_result (issue_reset (ev_keyed_mac env) (ev_sha env) (ev_key env) d now k delivery_id identifier metadata)"
| "handle env d now (CompleteReset token hashed) = fst_result (consume_reset (ev_sha env) d now token hashed)"

text \<open>The ids a request takes from \<open>uuid4()\<close> are new.\<close>

fun fresh_ids :: "db \<Rightarrow> account_request \<Rightarrow> bool" where
  "fresh_ids d (SetupAdministrator role_ids _ k _ _ _ _) \<longleftrightarrow>
     get_user d k = None \<and> distinct (map (\<lambda>b. role_ids (fst b)) builtin_role_permissions)
     \<and> (\<forall>b \<in> set builtin_role_permissions. get_role d (role_ids (fst b)) = None)"
| "fresh_ids d (Login _ _ k _) \<longleftrightarrow> get_session d k = None"
| "fresh_ids d (ChangePassword _ k _ _ _) \<longleftrightarrow> get_session d k = None"
| "fresh_ids d (CreateUser _ k _ _ _ _ _) \<longleftrightarrow> get_user d k = None"
| "fresh_ids d (CreateRole _ k _ _ _ _) \<longleftrightarrow> get_role d k = None"
| "fresh_ids d (CreateApiToken _ k _ _ _ _) \<longleftrightarrow> get_api_token d k = None"
| "fresh_ids d (IssueReset _ k _) \<longleftrightarrow> get_reset d k = None"
| "fresh_ids d (RequestReset k _ _ _) \<longleftrightarrow> get_reset d k = None"
| "fresh_ids d _ \<longleftrightarrow> True"

text \<open>The reset a token completes, for the record of completions.\<close>

definition completed_reset :: "auth_env \<Rightarrow> db \<Rightarrow> instant \<Rightarrow> account_request \<Rightarrow> (uuid \<times> instant) list" where
  "completed_reset env d now q =
     (case q of
        CompleteReset token hashed \<Rightarrow>
          (case consume_reset (ev_sha env) d now token hashed of Inr (_, r) \<Rightarrow> [(pt_id r, now)] | Inl _ \<Rightarrow> [])
      | _ \<Rightarrow> [])"

record account_world =
  aw_db :: db
  aw_now :: instant
  aw_completed :: "(uuid \<times> instant) list"

text \<open>What other components do leaves the account tables and the bootstrap claim alone.\<close>

definition accounts_untouched :: "db \<Rightarrow> db \<Rightarrow> bool" where
  "accounts_untouched d d' \<longleftrightarrow> db_users d' = db_users d \<and> db_roles d' = db_roles d
     \<and> db_role_permissions d' = db_role_permissions d \<and> db_user_roles d' = db_user_roles d
     \<and> db_sessions d' = db_sessions d \<and> db_api_tokens d' = db_api_tokens d
     \<and> db_reset_tokens d' = db_reset_tokens d"

inductive account_step :: "auth_env \<Rightarrow> account_world \<Rightarrow> account_world \<Rightarrow> bool" for env where
  request: "fresh_ids (aw_db w) q \<Longrightarrow> handle env (aw_db w) (aw_now w) q = Inr d \<Longrightarrow>
    account_step env w (w\<lparr>aw_db := d, aw_completed := aw_completed w @ completed_reset env (aw_db w) (aw_now w) q\<rparr>)"
| elsewhere: "accounts_untouched (aw_db w) d \<Longrightarrow> account_step env w (w\<lparr>aw_db := d\<rparr>)"
| tick: "aw_now w \<le> t \<Longrightarrow> account_step env w (w\<lparr>aw_now := t\<rparr>)"

inductive_cases account_stepE: "account_step env w w'"

section \<open>How the tables evolve\<close>

text \<open>Sessions: nothing but the revocation changes, and a revocation is never taken back.\<close>

definition session_keeps :: "user_session \<Rightarrow> user_session \<Rightarrow> bool" where
  "session_keeps s s' \<longleftrightarrow> ss_id s' = ss_id s \<and> ss_user_id s' = ss_user_id s \<and> ss_expires_at s' = ss_expires_at s
     \<and> (ss_revoked_at s \<noteq> None \<longrightarrow> ss_revoked_at s' = ss_revoked_at s)"

definition api_token_keeps :: "api_token \<Rightarrow> api_token \<Rightarrow> bool" where
  "api_token_keeps t t' \<longleftrightarrow> at_id t' = at_id t \<and> at_user_id t' = at_user_id t \<and> at_token_hash t' = at_token_hash t
     \<and> at_permission_scope t' = at_permission_scope t \<and> at_expires_at t' = at_expires_at t
     \<and> (at_revoked_at t \<noteq> None \<longrightarrow> at_revoked_at t' = at_revoked_at t)"

definition reset_keeps :: "reset_token \<Rightarrow> reset_token \<Rightarrow> bool" where
  "reset_keeps r r' \<longleftrightarrow> pt_id r' = pt_id r \<and> pt_user_id r' = pt_user_id r \<and> pt_token_hash r' = pt_token_hash r
     \<and> pt_requested_at r' = pt_requested_at r \<and> pt_expires_at r' = pt_expires_at r
     \<and> (pt_used_at r \<noteq> None \<longrightarrow> pt_used_at r' = pt_used_at r)"

interpretation session_rows: evolution ss_id session_keeps
  by unfold_locales (auto simp: session_keeps_def)

interpretation api_token_rows: evolution at_id api_token_keeps
  by unfold_locales (auto simp: api_token_keeps_def)

interpretation reset_rows: evolution pt_id reset_keeps
  by unfold_locales (auto simp: reset_keeps_def)

text \<open>The hash of a token is a second key of its table: a unique column.\<close>

interpretation api_token_hashes: evolution at_token_hash api_token_keeps
  by unfold_locales (auto simp: api_token_keeps_def)

interpretation reset_hashes: evolution pt_token_hash reset_keeps
  by unfold_locales (auto simp: reset_keeps_def)

abbreviation sessions_evolve :: "db \<Rightarrow> db \<Rightarrow> bool" where
  "sessions_evolve d d' \<equiv> evolves ss_id session_keeps (db_sessions d) (db_sessions d')"

abbreviation api_tokens_evolve :: "db \<Rightarrow> db \<Rightarrow> bool" where
  "api_tokens_evolve d d' \<equiv> evolves at_id api_token_keeps (db_api_tokens d) (db_api_tokens d')
     \<and> evolves at_token_hash api_token_keeps (db_api_tokens d) (db_api_tokens d')"

abbreviation resets_evolve :: "db \<Rightarrow> db \<Rightarrow> bool" where
  "resets_evolve d d' \<equiv> evolves pt_id reset_keeps (db_reset_tokens d) (db_reset_tokens d')
     \<and> evolves pt_token_hash reset_keeps (db_reset_tokens d) (db_reset_tokens d')"

definition credentials_evolve :: "db \<Rightarrow> db \<Rightarrow> bool" where
  "credentials_evolve d d' \<longleftrightarrow> sessions_evolve d d' \<and> api_tokens_evolve d d' \<and> resets_evolve d d'"

lemmas rows_refl = session_rows.evolves_refl api_token_rows.evolves_refl reset_rows.evolves_refl
  api_token_hashes.evolves_refl reset_hashes.evolves_refl

lemma credentials_evolve_same:
  "db_sessions d' = db_sessions d \<Longrightarrow> db_api_tokens d' = db_api_tokens d \<Longrightarrow> db_reset_tokens d' = db_reset_tokens d \<Longrightarrow>
   credentials_evolve d d'"
  by (simp add: credentials_evolve_def rows_refl)

lemma credentials_evolve_trans: "credentials_evolve d d' \<Longrightarrow> credentials_evolve d' d'' \<Longrightarrow> credentials_evolve d d''"
  by (auto simp: credentials_evolve_def intro: session_rows.evolves_trans api_token_rows.evolves_trans reset_rows.evolves_trans
      api_token_hashes.evolves_trans reset_hashes.evolves_trans)

lemma resolve_auth_context_cases:
  assumes "resolve_auth_context mac sha d now header cookie = Inr (d', p)"
  obtains "d' = d \<or> (\<exists>k. d' = alter_api_token k (\<lambda>x. x\<lparr>at_last_used_at := Some now\<rparr>) d)"
    "\<exists>u. get_user d (ac_user_id (pc_context p)) = Some u \<and> us_enabled u"
proof -
  have found: "get_user d (us_id u) = Some u" if "get_user d k = Some u" for k u using users.get_Some [OF that] that by simp
  have session: "\<exists>u. get_user d (ac_user_id (pc_context p)) = Some u \<and> us_enabled u"
    if "resolve_session mac d now cookie = Inr p" for p
    using that by (rule resolve_session_cases) (auto dest: found)
  have token: "(\<exists>k. d' = alter_api_token k (\<lambda>x. x\<lparr>at_last_used_at := Some now\<rparr>) d)
      \<and> (\<exists>u. get_user d (ac_user_id (pc_context p)) = Some u \<and> us_enabled u)"
    if "resolve_api_token sha d now t = Inr (d', p)" for t
    using that by (rule resolve_api_token_cases) (auto dest: found)
  from assms token session that show thesis
    by (auto simp: resolve_auth_context_def Let_def result_simps split: if_splits)
qed

lemma principal_evolves:
  assumes "resolve_auth_context mac sha d now header cookie = Inr (d', p)"
  shows "credentials_evolve d d'" and "accounts_untouched d (d'\<lparr>db_api_tokens := db_api_tokens d\<rparr>)"
proof -
  from assms show "credentials_evolve d d'" "accounts_untouched d (d'\<lparr>db_api_tokens := db_api_tokens d\<rparr>)"
    by (auto elim!: resolve_auth_context_cases simp: credentials_evolve_same accounts_untouched_def)
      (auto simp: credentials_evolve_def alter_api_token_def rows_refl
        api_token_keeps_def intro!: api_token_rows.evolves_map api_token_hashes.evolves_map)
qed

section \<open>Every request evolves the credentials\<close>

lemmas account_tables = alter_user_def add_user_def alter_role_def add_role_def set_user_roles_def set_role_permissions_def
  revoke_user_sessions_def set_password_def add_session_def alter_session_def add_api_token_def alter_api_token_def
  add_reset_def alter_reset_def retire_resets_def

lemma ensure_scope_frame:
  "ensure_scope d k t i m = Inr (d', s) \<Longrightarrow> d' = d \<or> (\<exists>ss. d' = d\<lparr>db_scopes := ss\<rparr>)"
  by (auto simp: ensure_scope_def Let_def result_simps split: option.splits)

lemma ensure_role_row_frame:
  "ensure_role_row d name k = (d', r) \<Longrightarrow> db_users d' = db_users d \<and> db_user_roles d' = db_user_roles d
     \<and> db_sessions d' = db_sessions d \<and> db_api_tokens d' = db_api_tokens d \<and> db_reset_tokens d' = db_reset_tokens d
     \<and> db_role_permissions d' = db_role_permissions d"
  by (auto simp: ensure_role_row_def Let_def account_tables split: option.splits)

lemma ensure_builtin_roles_frame:
  "ensure_builtin_roles role_ids scope_ids d rs = Inr (d', m) \<Longrightarrow> db_users d' = db_users d \<and> db_user_roles d' = db_user_roles d
     \<and> db_sessions d' = db_sessions d \<and> db_api_tokens d' = db_api_tokens d \<and> db_reset_tokens d' = db_reset_tokens d"
proof (induction rs arbitrary: d d' m)
  case (Cons x rs)
  obtain name desired where x: "x = (name, desired)" by (cases x)
  obtain d1 r where row: "ensure_role_row d name (role_ids name) = (d1, r)" by (cases "ensure_role_row d name (role_ids name)")
  obtain d3 s m' where scope: "ensure_scope (set_role_permissions (ro_id r) desired d1) (scope_ids name) ''role'' (ro_id r) ''all'' = Inr (d3, s)"
    and rest: "ensure_builtin_roles role_ids scope_ids d3 rs = Inr (d', m')"
    using Cons.prems by (auto simp: x row Let_def result_simps)
  from Cons.IH [OF rest] ensure_role_row_frame [OF row] ensure_scope_frame [OF scope] show ?case
    by (auto simp: set_role_permissions_def)
qed auto

lemma session_append_evolves:
  "get_session d k = None \<Longrightarrow> ss_id s = k \<Longrightarrow> db_sessions d' = db_sessions d @ [s] \<Longrightarrow> sessions_evolve d d'"
  by (auto simp: sessions.get_None_iff intro!: session_rows.evolves_append)

lemma create_session_evolves:
  assumes "get_session d k = None" shows "credentials_evolve d (fst (create_session d now ttl k u client))"
  using assms by (auto simp: credentials_evolve_def create_session_def Let_def account_tables sessions.get_None_iff
      rows_refl intro!: session_rows.evolves_append)

lemma revoke_user_sessions_evolves: "credentials_evolve d (revoke_user_sessions now u d)"
  by (auto simp: credentials_evolve_def revoke_user_sessions_def session_keeps_def
      rows_refl intro!: session_rows.evolves_map)

lemma alter_session_evolves: "credentials_evolve d (alter_session k (mark_revoked now) d)"
  by (auto simp: credentials_evolve_def alter_session_def session_keeps_def mark_revoked_def
      rows_refl intro!: session_rows.evolves_map)

lemma retire_resets_evolves: "credentials_evolve d (retire_resets which now u d)"
  by (auto simp: credentials_evolve_def retire_resets_def reset_keeps_def
      rows_refl intro!: reset_rows.evolves_map reset_hashes.evolves_map)

lemma alter_user_evolves: "credentials_evolve d (alter_user k f d)"
  by (rule credentials_evolve_same) (simp_all add: alter_user_def)

lemma set_password_evolves: "credentials_evolve d (set_password h k d)"
  by (simp add: set_password_def alter_user_evolves)

lemma list_ex_key: "list_ex (\<lambda>x. f x = h) xs \<longleftrightarrow> h \<in> f ` set xs"
  by (auto simp: list_ex_iff)

lemma create_reset_evolves:
  assumes "create_reset km sha key d now k u by_user metadata = Inr (d', r)" and "get_reset d k = None"
  shows "credentials_evolve d d'"
proof (rule credentials_evolve_trans [OF retire_resets_evolves])
  let ?d1 = "retire_resets (reset_open now) now u d"
  have "k \<notin> pt_id ` set (db_reset_tokens ?d1)"
    using assms(2) by (auto simp: resets.get_None_iff retire_resets_def image_iff split: if_splits)
  with assms(1) show "credentials_evolve ?d1 d'"
    by (auto simp: create_reset_def Let_def credentials_evolve_def add_reset_def rows_refl list_ex_key
        intro!: reset_rows.evolves_append reset_hashes.evolves_append split: if_splits)
qed

lemma fst_result_Inr [simp]: "fst_result m = Inr d \<longleftrightarrow> (\<exists>x. m = Inr (d, x))"
  by (auto simp: fst_result_def result_simps)

lemma as_principal_Inr: "as_principal env d now cred action = Inr d' \<longleftrightarrow>
    (\<exists>d1 p. resolve_auth_context (ev_mac env) (ev_sha env) d now (fst cred) (snd cred) = Inr (d1, p) \<and> action d1 p = Inr d')"
  by (auto simp: as_principal_def result_simps)

lemma as_manager_Inr: "as_manager env d now cred action = Inr d' \<longleftrightarrow>
    (\<exists>d1 p. resolve_auth_context (ev_mac env) (ev_sha env) d now (fst cred) (snd cred) = Inr (d1, p)
       \<and> ''user.manage'' \<in> set (ac_permissions (pc_context p)) \<and> action d1 p = Inr d')"
  by (auto simp: as_manager_def as_principal_Inr result_simps require_permission_def)

lemma interactively_Inr: "interactively env d now cred action = Inr d' \<longleftrightarrow>
    (\<exists>d1 p. resolve_auth_context (ev_mac env) (ev_sha env) d now (fst cred) (snd cred) = Inr (d1, p)
       \<and> pc_session p \<noteq> None \<and> action d1 p = Inr d')"
  by (auto simp: interactively_def as_principal_Inr result_simps)

lemmas route_simps = as_principal_Inr as_manager_Inr interactively_Inr result_simps

text \<open>What is fresh stays fresh while the principal is resolved.\<close>

lemma principal_fresh:
  assumes "resolve_auth_context mac sha d now header cookie = Inr (d1, p)"
  shows "get_user d1 k = get_user d k" "get_role d1 k = get_role d k" "get_session d1 k = get_session d k"
    "get_reset d1 k = get_reset d k" "get_api_token d1 k = None \<longleftrightarrow> get_api_token d k = None"
proof -
  have frame: "get_user (alter_api_token i f d) k = get_user d k" "get_role (alter_api_token i f d) k = get_role d k"
    "get_session (alter_api_token i f d) k = get_session d k" "get_reset (alter_api_token i f d) k = get_reset d k" for i f
    by (simp_all add: get_user_def get_role_def get_session_def get_reset_def alter_api_token_def)
  from assms show "get_user d1 k = get_user d k" "get_role d1 k = get_role d k" "get_session d1 k = get_session d k"
    "get_reset d1 k = get_reset d k" "get_api_token d1 k = None \<longleftrightarrow> get_api_token d k = None"
    by (auto elim!: resolve_auth_context_cases simp: frame api_tokens.get_upd split: if_splits)
qed

lemma update_user_evolves: "update_user d u changes = Inr d' \<Longrightarrow> credentials_evolve d d'"
  by (auto simp: update_user_def Let_def result_simps account_tables split: option.splits intro!: credentials_evolve_same)

lemma create_role_evolves: "create_role d k sk name desc ps = Inr (d', r) \<Longrightarrow> credentials_evolve d d'"
  by (auto simp: create_role_def Let_def result_simps account_tables split: if_splits sum.splits
      dest!: ensure_scope_frame intro!: credentials_evolve_same)

lemma update_role_evolves: "update_role d r changes = Inr d' \<Longrightarrow> credentials_evolve d d'"
  by (auto simp: update_role_def Let_def result_simps account_tables split: if_splits option.splits
      intro!: credentials_evolve_same)

lemma disable_user_evolves: "disable_user d now u = Inr d' \<Longrightarrow> credentials_evolve d d'"
  by (auto simp: disable_user_def result_simps credentials_evolve_same split: if_splits
      intro: credentials_evolve_trans [OF alter_user_evolves revoke_user_sessions_evolves])

lemma change_password_evolves:
  assumes "change_password check d now ttl k u current hashed client = Inr (d', s)" and "get_session d k = None"
  shows "credentials_evolve d d'"
proof -
  let ?d = "revoke_user_sessions now (us_id u) (set_password hashed (us_id u) d)"
  have "get_session ?d k = None"
    using assms(2) by (auto simp: sessions.get_None_iff revoke_user_sessions_def set_password_def alter_user_def image_iff split: if_splits)
  then have "credentials_evolve ?d d'"
    using assms(1) create_session_evolves [of ?d k now ttl "us_id u" client] by (auto simp: change_password_def split: if_splits)
  then show ?thesis
    using credentials_evolve_trans [OF set_password_evolves revoke_user_sessions_evolves] credentials_evolve_trans by blast
qed

lemma consume_reset_evolves: "consume_reset sha d now token hashed = Inr (d', r) \<Longrightarrow> credentials_evolve d d'"
  by (auto simp: consume_reset_def Let_def split: if_splits option.splits
      intro!: credentials_evolve_trans [OF credentials_evolve_trans [OF set_password_evolves revoke_user_sessions_evolves] retire_resets_evolves])

lemma api_token_create_evolves:
  "api_token_create sha d now k random u name ps allowed expires = Inr (d', t, plain) \<Longrightarrow> get_api_token d k = None \<Longrightarrow> credentials_evolve d d'"
  by (auto simp: api_token_create_def Let_def result_simps credentials_evolve_def add_api_token_def api_tokens.get_None_iff
      rows_refl list_ex_key
      split: if_splits intro!: api_token_rows.evolves_append api_token_hashes.evolves_append)

lemma api_token_revoke_evolves: "api_token_revoke d now u k = Inr d' \<Longrightarrow> credentials_evolve d d'"
  by (auto simp: api_token_revoke_def credentials_evolve_def alter_api_token_def api_token_keeps_def
      rows_refl split: option.splits if_splits
      intro!: api_token_rows.evolves_map api_token_hashes.evolves_map)

lemma issue_reset_evolves:
  "issue_reset km sha key d now k dk ident metadata = Inr (d', x) \<Longrightarrow> get_reset d k = None \<Longrightarrow> credentials_evolve d d'"
  by (auto simp: issue_reset_def Let_def result_simps credentials_evolve_same split: if_splits option.splits
      dest!: create_reset_evolves intro: credentials_evolve_trans [OF _ credentials_evolve_same])

lemma setup_evolves:
  assumes "create_initial_administrator role_ids scope_ids d k name display email hashed = Inr (d', u)"
  shows "credentials_evolve d d'"
  using assms by (auto simp: create_initial_administrator_def Let_def account_tables split: if_splits sum.splits option.splits
      dest!: ensure_builtin_roles_frame intro!: credentials_evolve_same)

lemmas request_evolves = setup_evolves change_password_evolves update_user_evolves disable_user_evolves create_role_evolves
  update_role_evolves api_token_create_evolves api_token_revoke_evolves consume_reset_evolves issue_reset_evolves

lemma handle_evolves:
  assumes "handle env d now q = Inr d'" and "fresh_ids d q"
  shows "credentials_evolve d d'"
proof -
  have via: "credentials_evolve d d'"
    if "resolve_auth_context (ev_mac env) (ev_sha env) d now h c = Inr (d1, p)" "credentials_evolve d1 d'" for h c d1 p
    using principal_evolves(1) [OF that(1)] that(2) by (rule credentials_evolve_trans)
  show ?thesis
  proof (cases q)
    case (SetupAdministrator role_ids scope_ids k name display email hashed)
    then show ?thesis using assms by (auto dest: request_evolves)
  next
    case (Login name password k client)
    then show ?thesis using assms by (auto simp: handle_login_def result_simps intro: create_session_evolves)
  next
    case (Logout token)
    then show ?thesis using assms
      by (auto simp: revoke_session_token_def alter_session_evolves credentials_evolve_same split: option.splits)
  next
    case (RevokeSession cred k)
    then show ?thesis using assms
      by (auto simp: route_simps revoke_owned_session_def alter_session_evolves split: option.splits if_splits intro!: via)
  next
    case (ChangePassword cred k current hashed client)
    then show ?thesis using assms
      by (auto simp: route_simps principal_fresh split: option.splits dest!: change_password_evolves intro: via)
  next
    case (CreateUser cred k name display email hashed ids)
    then show ?thesis using assms
      by (auto simp: route_simps create_user_def Let_def account_tables credentials_evolve_same split: if_splits intro!: via)
  next
    case (CreateApiToken cred k random name ps expires)
    then show ?thesis using assms by (auto simp: route_simps principal_fresh dest!: api_token_create_evolves intro: via)
  next
    case (IssueReset cred k user)
    then show ?thesis using assms
      by (auto simp: route_simps issue_admin_reset_def principal_fresh split: if_splits dest!: create_reset_evolves intro: via)
  next
    case (RequestReset k dk ident metadata)
    then show ?thesis using assms by (auto dest: request_evolves)
  next
    case (CompleteReset token hashed)
    then show ?thesis using assms by (auto dest: request_evolves)
  next
    case (EnableUser cred k)
    then show ?thesis using assms by (auto simp: route_simps enable_user_def
        intro: credentials_evolve_trans [OF principal_evolves(1) alter_user_evolves])
  qed (use assms in \<open>auto simp: route_simps credentials_evolve_same
      dest!: update_user_evolves disable_user_evolves create_role_evolves update_role_evolves api_token_revoke_evolves
      intro: via\<close>)
qed

lemma account_step_evolves: "account_step env w w' \<Longrightarrow> credentials_evolve (aw_db w) (aw_db w')"
  by (erule account_stepE) (auto simp: handle_evolves accounts_untouched_def credentials_evolve_same)

lemma account_steps_evolve: "(account_step env)\<^sup>*\<^sup>* w w' \<Longrightarrow> credentials_evolve (aw_db w) (aw_db w')"
proof (induction rule: rtranclp_induct)
  case (step v w)
  then show ?case using account_step_evolves credentials_evolve_trans by blast
qed (simp add: credentials_evolve_same)

section \<open>Ended sessions\<close>

lemma ended_session_stays:
  assumes "credentials_evolve d d'" and "get_session d k = Some s" and "ss_revoked_at s \<noteq> None"
    and "resolve_session mac d' now token = Inr p" and "pc_session p = Some s'"
  shows "ss_id s' \<noteq> k"
proof
  assume k: "ss_id s' = k"
  obtain i where "get_session d' i = Some s'" "ss_revoked_at s' = None"
    using assms(4,5) by (elim resolve_session_cases) auto
  moreover obtain s'' where "get_session d' k = Some s''" "session_keeps s s''"
    using assms(1,2) by (auto simp: credentials_evolve_def get_session_def elim: session_rows.evolves_find)
  ultimately show False using assms(3) k sessions.get_Some [of d' i s'] by (auto simp: session_keeps_def)
qed

lemma revoke_user_sessions_ends:
  assumes "get_session d k = Some s" and "ss_user_id s = u"
  obtains s' where "get_session (revoke_user_sessions now u d) k = Some s'" "ss_revoked_at s' \<noteq> None"
proof -
  let ?f = "\<lambda>s :: user_session. if ss_user_id s = u \<and> ss_revoked_at s = None then s\<lparr>ss_revoked_at := Some now\<rparr> else s"
  have "find (\<lambda>s. ss_id s = k) (map ?f xs) = map_option ?f (find (\<lambda>s. ss_id s = k) xs)" for xs
    by (induction xs) auto
  then have "get_session (revoke_user_sessions now u d) k = Some (?f s)"
    using assms(1) unfolding get_session_def revoke_user_sessions_def by simp
  then show thesis by (rule that) (use assms(2) in auto)
qed

text \<open>What ends all sessions of a user: a changed, reset or administered password, and being disabled.\<close>

definition ends_sessions_of :: "auth_env \<Rightarrow> db \<Rightarrow> instant \<Rightarrow> user \<Rightarrow> db \<Rightarrow> bool" where
  "ends_sessions_of env d now u d' \<longleftrightarrow>
     (\<exists>k current hashed client s. get_session d k = None
        \<and> change_password (ev_check env) d now (ev_ttl_hours env) k u current hashed client = Inr (d', s))
     \<or> (\<exists>hashed. d' = reset_user_password d now (us_id u) hashed)
     \<or> (us_enabled u \<and> disable_user d now u = Inr d')
     \<or> (\<exists>token hashed r. consume_reset (ev_sha env) d now token hashed = Inr (d', r) \<and> pt_user_id r = us_id u)"

lemma ends_sessions_of_cases:
  assumes "ends_sessions_of env d now u d'"
  obtains d1 where "db_sessions d1 = db_sessions d" "credentials_evolve (revoke_user_sessions now (us_id u) d1) d'"
proof -
  have password: "db_sessions (set_password h k d) = db_sessions d" for h k by (simp add: set_password_def alter_user_def)
  from assms consider k current hashed client s where "get_session d k = None"
      "change_password (ev_check env) d now (ev_ttl_hours env) k u current hashed client = Inr (d', s)"
    | hashed where "d' = reset_user_password d now (us_id u) hashed"
    | "us_enabled u" "disable_user d now u = Inr d'"
    | token hashed r where "consume_reset (ev_sha env) d now token hashed = Inr (d', r)" "pt_user_id r = us_id u"
    unfolding ends_sessions_of_def by blast
  then show thesis
  proof cases
    case 1
    let ?d = "revoke_user_sessions now (us_id u) (set_password hashed (us_id u) d)"
    have "get_session ?d k = None"
      using 1(1) by (auto simp: sessions.get_None_iff revoke_user_sessions_def password image_iff split: if_splits)
    with 1(2) have "credentials_evolve ?d d'"
      using create_session_evolves [of ?d k now "ev_ttl_hours env" "us_id u" client] by (auto simp: change_password_def split: if_splits)
    with that [OF password] show ?thesis by blast
  next
    case 2
    have "credentials_evolve (revoke_user_sessions now (us_id u) (set_password hashed (us_id u) d)) d'"
      using 2 by (simp add: reset_user_password_def credentials_evolve_same)
    with that [OF password] show ?thesis by blast
  next
    case 3
    with that [of "alter_user (us_id u) (\<lambda>x. x\<lparr>us_enabled := False\<rparr>) d"] show ?thesis
      by (auto simp: disable_user_def result_simps credentials_evolve_same alter_user_def)
  next
    case 4
    then obtain v where "get_user d (us_id u) = Some v" and d': "d' = retire_resets (\<lambda>_. True) now (us_id v)
        (revoke_user_sessions now (us_id v) (set_password hashed (us_id v) d))"
      by (auto simp: consume_reset_def Let_def split: if_splits option.splits)
    moreover from this(1) have "us_id v = us_id u" by (auto dest: users.get_Some)
    ultimately show ?thesis using that [OF password] retire_resets_evolves by metis
  qed
qed

text \<open>
  C15: Ending a user's sessions is final. After a password is changed, reset by mail, set by an
  administrator, or the user is disabled, no session that existed before authenticates a request any
  more, whatever token it is presented with and whatever happens in between, also when the user is
  enabled again.
\<close>

theorem ended_sessions_stay_ended:
  assumes "ends_sessions_of env (aw_db w) (aw_now w) u d" and "(account_step env)\<^sup>*\<^sup>* (w\<lparr>aw_db := d\<rparr>) w'"
    and "get_session (aw_db w) k = Some s" and "ss_user_id s = us_id u"
    and "resolve_session (ev_mac env) (aw_db w') now token = Inr p"
  shows "\<exists>s'. pc_session p = Some s' \<and> ss_id s' \<noteq> k"
proof -
  obtain d1 where d1: "db_sessions d1 = db_sessions (aw_db w)" "credentials_evolve (revoke_user_sessions (aw_now w) (us_id u) d1) d"
    using assms(1) by (rule ends_sessions_of_cases)
  have "get_session d1 k = Some s" using assms(3) d1(1) by (simp add: get_session_def)
  from revoke_user_sessions_ends [OF this assms(4)] obtain s1
    where "get_session (revoke_user_sessions (aw_now w) (us_id u) d1) k = Some s1" "ss_revoked_at s1 \<noteq> None" .
  moreover have "credentials_evolve (revoke_user_sessions (aw_now w) (us_id u) d1) (aw_db w')"
    using credentials_evolve_trans [OF d1(2)] account_steps_evolve [OF assms(2)] by simp
  moreover obtain s' where "pc_session p = Some s'" using assms(5) by (elim resolve_session_cases) simp
  ultimately show ?thesis using ended_session_stays assms(5) by blast
qed

section \<open>API tokens\<close>

lemma py_strip_plain: "(\<And>c. c \<in> set s \<Longrightarrow> \<not> is_space c) \<Longrightarrow> py_strip s = s"
proof -
  assume plain: "\<And>c. c \<in> set s \<Longrightarrow> \<not> is_space c"
  then have "dropWhile is_space s = s" "dropWhile is_space (rev s) = rev s"
    by (simp_all add: dropWhile_eq_self_iff) (metis hd_in_set rev_is_Nil_conv set_rev)
  then show ?thesis by (simp add: py_strip_def)
qed

lemma api_plaintext_strip: "py_strip (token_prefix @ b64_encode random) = token_prefix @ b64_encode random"
  using b64_encode_plain by (intro py_strip_plain) (auto simp: token_prefix_def is_space_def code_of_def)

text \<open>
  C17: An API token never gives more than it was made for. Whatever happens after its creation, a request
  that authenticates with it acts for the user who made it, who is enabled, and has exactly those of
  the permissions it was created with that the user's roles still grant; it is neither expired nor
  revoked, and its permissions were all within those of the request that created it.
\<close>

theorem api_token_bounded:
  assumes "api_token_create (ev_sha env) d now k random user name permissions allowed expires = Inr (aw_db w, t, plaintext)"
    and "distinct (map at_id (db_api_tokens (aw_db w)))" and "(account_step env)\<^sup>*\<^sup>* w w'"
    and "resolve_api_token (ev_sha env) (aw_db w') (aw_now w') plaintext = Inr (d', p)"
  shows "ac_user_id (pc_context p) = user \<and> pc_session p = None
    \<and> set (ac_permissions (pc_context p)) = set permissions \<inter> set (snd (user_roles_and_permissions (aw_db w') user))
    \<and> set permissions \<subseteq> set allowed
    \<and> (\<exists>u. get_user (aw_db w') user = Some u \<and> us_enabled u)
    \<and> (\<forall>e. at_expires_at t = Some e \<longrightarrow> aw_now w' < e)
    \<and> (\<exists>t'. get_api_token (aw_db w') k = Some t' \<and> at_revoked_at t' = None)"
proof -
  have made: "plaintext = token_prefix @ b64_encode random" "at_id t = k" "at_user_id t = user"
    "at_token_hash t = ev_sha env plaintext" "set permissions \<subseteq> set allowed" "permission_names t = set permissions"
    "aw_db w = add_api_token t d" "ev_sha env plaintext \<notin> at_token_hash ` set (db_api_tokens d)"
    using assms(1) by (auto simp: api_token_create_def Let_def result_simps permission_names_def list_ex_key image_image
        list_all_iff split: if_splits)
  have "find (\<lambda>x. at_token_hash x = ev_sha env plaintext) (db_api_tokens (aw_db w)) = Some t"
    using made(4,7,8) by (auto simp: add_api_token_def find_append_fresh)
  moreover have evolve: "credentials_evolve (aw_db w) (aw_db w')" using account_steps_evolve [OF assms(3)] .
  ultimately obtain t' where t': "find (\<lambda>x. at_token_hash x = ev_sha env plaintext) (db_api_tokens (aw_db w')) = Some t'"
    "api_token_keeps t t'"
    by (auto simp: credentials_evolve_def elim: api_token_hashes.evolves_find)
  obtain u where u: "api_token_live (aw_now w') t'" "get_user (aw_db w') user = Some u" "us_enabled u"
    "d' = alter_api_token (at_id t') (\<lambda>x. x\<lparr>at_last_used_at := Some (aw_now w')\<rparr>) (aw_db w')"
    "p = principal_of d' (us_id u) (\<lambda>q. q \<in> permission_names t') None (Some (t'\<lparr>at_last_used_at := Some (aw_now w')\<rparr>))"
    using assms(4) t' made by (elim resolve_api_token_cases) (auto simp: api_plaintext_strip api_token_keeps_def)
  have "user_roles_and_permissions d' user = user_roles_and_permissions (aw_db w') user"
    unfolding u(4) by (simp add: user_roles_and_permissions_def roles_of_user_def permissions_of_role_def alter_api_token_def)
  moreover have "us_id u = user" using users.get_Some [OF u(2)] by simp
  moreover have "permission_names t' = set permissions" using t'(2) made(6) by (simp add: permission_names_def api_token_keeps_def)
  ultimately have "ac_user_id (pc_context p) = user" "pc_session p = None"
    "set (ac_permissions (pc_context p)) = set permissions \<inter> set (snd (user_roles_and_permissions (aw_db w') user))"
    using u(5) by auto
  moreover have "distinct (map at_id (db_api_tokens (aw_db w')))"
    using evolve assms(2) by (auto simp: credentials_evolve_def dest: api_token_rows.evolves_distinct)
  then have "get_api_token (aw_db w') k = Some t'"
    using api_tokens.get_unique [of "aw_db w'" t'] t' made(2) by (auto simp: find_Some_iff api_token_keeps_def)
  ultimately show ?thesis
    using made(5) u t' by (auto simp: api_token_live_def api_token_keeps_def split: option.splits)
qed

section \<open>Password reset tokens\<close>

lemma find_mem: "find P xs = Some x \<Longrightarrow> x \<in> set xs"
  by (auto simp: find_Some_iff)

lemma consume_reset_cases:
  assumes "consume_reset sha d now token hashed = Inr (d', r)"
  obtains u where "find (\<lambda>r. pt_token_hash r = sha (py_strip token)) (db_reset_tokens d) = Some r" "reset_open now r"
    "get_user d (pt_user_id r) = Some u" "us_enabled u" "us_id u = pt_user_id r"
    "d' = retire_resets (\<lambda>_. True) now (us_id u) (revoke_user_sessions now (us_id u) (set_password hashed (us_id u) d))"
  using assms by (auto simp: consume_reset_def Let_def dest: users.get_Some split: if_splits option.splits)

lemma retire_resets_find:
  "find (\<lambda>r. f r = k) (db_reset_tokens (retire_resets which now u d))
   = map_option (\<lambda>r. if pt_user_id r = u \<and> pt_used_at r = None \<and> which r then r\<lparr>pt_used_at := Some now\<rparr> else r)
       (find (\<lambda>r. f r = k) (db_reset_tokens d))"
  if "\<And>r t. f (r\<lparr>pt_used_at := t\<rparr>) = f r"
proof -
  have "find (\<lambda>r. f r = k) (map (\<lambda>r. if pt_user_id r = u \<and> pt_used_at r = None \<and> which r then r\<lparr>pt_used_at := Some now\<rparr> else r) xs)
      = map_option (\<lambda>r. if pt_user_id r = u \<and> pt_used_at r = None \<and> which r then r\<lparr>pt_used_at := Some now\<rparr> else r)
          (find (\<lambda>r. f r = k) xs)" for xs
    by (induction xs) (auto simp: that)
  then show ?thesis by (simp add: retire_resets_def)
qed

definition completions_ok :: "account_world \<Rightarrow> bool" where
  "completions_ok w \<longleftrightarrow> distinct (map pt_id (db_reset_tokens (aw_db w))) \<and> distinct (map fst (aw_completed w))
     \<and> (\<forall>(k, t) \<in> set (aw_completed w). \<exists>r. get_reset (aw_db w) k = Some r \<and> pt_used_at r \<noteq> None \<and> t < pt_expires_at r)"

lemma completions_step:
  assumes "account_step env w w'" and "completions_ok w"
  shows "completions_ok w'"
proof -
  have evolve: "credentials_evolve (aw_db w) (aw_db w')" using account_step_evolves [OF assms(1)] .
  then have ids: "distinct (map pt_id (db_reset_tokens (aw_db w')))"
    using assms(2) by (auto simp: credentials_evolve_def completions_ok_def dest: reset_rows.evolves_distinct)
  have old: "\<exists>r. get_reset (aw_db w') k = Some r \<and> pt_used_at r \<noteq> None \<and> t < pt_expires_at r"
    if mem: "(k, t) \<in> set (aw_completed w)" for k t
  proof -
    obtain r where r: "get_reset (aw_db w) k = Some r" "pt_used_at r \<noteq> None" "t < pt_expires_at r"
      using assms(2) mem unfolding completions_ok_def by fastforce
    obtain r' where "get_reset (aw_db w') k = Some r'" "reset_keeps r r'"
      using evolve r(1) unfolding credentials_evolve_def get_reset_def by (elim conjE reset_rows.evolves_find)
    with r show ?thesis by (auto simp: reset_keeps_def)
  qed
  have log: "aw_completed w' = aw_completed w \<or> (\<exists>token hashed r. aw_completed w' = aw_completed w @ [(pt_id r, aw_now w)]
      \<and> consume_reset (ev_sha env) (aw_db w) (aw_now w) token hashed = Inr (aw_db w', r))"
    using assms(1) by (cases rule: account_step.cases) (auto simp: completed_reset_def split: account_request.splits sum.splits)
  show ?thesis
  proof (cases "aw_completed w' = aw_completed w")
    case True
    with ids old assms(2) show ?thesis by (auto simp: completions_ok_def)
  next
    case False
    with log obtain token hashed r where r: "aw_completed w' = aw_completed w @ [(pt_id r, aw_now w)]"
      "consume_reset (ev_sha env) (aw_db w) (aw_now w) token hashed = Inr (aw_db w', r)" by blast
    from r(2) obtain u :: user where u: "r \<in> set (db_reset_tokens (aw_db w))" "reset_open (aw_now w) r" "us_id u = pt_user_id r"
      "aw_db w' = retire_resets (\<lambda>_. True) (aw_now w) (us_id u)
         (revoke_user_sessions (aw_now w) (us_id u) (set_password hashed (us_id u) (aw_db w)))"
      by (rule consume_reset_cases) (use that in \<open>auto dest: find_mem\<close>)
    have found: "get_reset (aw_db w) (pt_id r) = Some r"
      using assms(2) u(1) by (auto simp: completions_ok_def dest: resets.get_unique)
    have "pt_id r \<notin> fst ` set (aw_completed w)"
      using assms(2) found u(2) by (force simp: completions_ok_def reset_open_def)
    moreover have "get_reset (revoke_user_sessions (aw_now w) (us_id u) (set_password hashed (us_id u) (aw_db w))) (pt_id r) = Some r"
      using found by (simp add: get_reset_def account_tables)
    then have "get_reset (aw_db w') (pt_id r) = Some (r\<lparr>pt_used_at := Some (aw_now w)\<rparr>)"
      unfolding u(4) get_reset_def using u(2,3) by (simp add: retire_resets_find reset_open_def)
    ultimately show ?thesis
      using ids old assms(2) r(1) u(2) by (auto simp: completions_ok_def reset_open_def)
  qed
qed

text \<open>
  C16: A password reset token works once. In every sequence of requests each reset is completed at most
  once and before it expires, and from then on it is marked as used.
\<close>

theorem reset_token_single_use:
  assumes "(account_step env)\<^sup>*\<^sup>* w w'" and "aw_completed w = []" and "distinct (map pt_id (db_reset_tokens (aw_db w)))"
  shows "distinct (map fst (aw_completed w'))
    \<and> (\<forall>(k, t) \<in> set (aw_completed w'). \<exists>r. get_reset (aw_db w') k = Some r \<and> pt_used_at r \<noteq> None \<and> t < pt_expires_at r)"
proof -
  have "completions_ok w'" using assms(1)
  proof (induction rule: rtranclp_induct)
    case base
    then show ?case using assms(2,3) by (simp add: completions_ok_def)
  next
    case (step v w')
    then show ?case using completions_step by blast
  qed
  then show ?thesis by (simp add: completions_ok_def)
qed

lemma reset_token_strip: "py_strip (token_for_key km r key) = token_for_key km r key"
  using b64_encode_plain by (intro py_strip_plain) (auto simp: token_for_key_def is_space_def code_of_def)

lemma create_reset_row:
  assumes "create_reset km sha key d now k user by_user metadata = Inr (d', r)"
  shows "pt_id r = k" "pt_user_id r = user" "pt_expires_at r = now + reset_ttl" "pt_used_at r = None"
    "pt_token_hash r = sha (token_for_key km r key)"
    "find (\<lambda>x. pt_token_hash x = pt_token_hash r) (db_reset_tokens d') = Some r" "db_users d' = db_users d"
proof -
  have key: "token_for_key km (x\<lparr>pt_token_hash := h\<rparr>) key = token_for_key km x key" for x h
    by (simp add: token_for_key_def reset_payload_def reset_expires_seconds_def)
  define r0 where "r0 = \<lparr>pt_id = k, pt_user_id = user, pt_token_hash = ''pending'', pt_requested_at = now,
    pt_expires_at = now + reset_ttl, pt_used_at = None,
    pt_request_metadata = (if metadata = Some [] then None else metadata), pt_created_by = by_user\<rparr>"
  have r0: "r = r0\<lparr>pt_token_hash := sha (token_for_key km r0 key)\<rparr>" "pt_id r0 = k" "pt_user_id r0 = user"
    "pt_expires_at r0 = now + reset_ttl" "pt_used_at r0 = None" "d' = add_reset r (retire_resets (reset_open now) now user d)"
    "pt_token_hash r \<notin> pt_token_hash ` set (db_reset_tokens (retire_resets (reset_open now) now user d))"
    using assms unfolding create_reset_def Let_def r0_def [symmetric]
    by (auto simp: list_ex_key split: if_splits) (simp_all add: r0_def)
  show "pt_id r = k" "pt_user_id r = user" "pt_expires_at r = now + reset_ttl" "pt_used_at r = None"
    "pt_token_hash r = sha (token_for_key km r key)" using r0(1-5) by (simp_all add: key)
  show "find (\<lambda>x. pt_token_hash x = pt_token_hash r) (db_reset_tokens d') = Some r"
    using find_append_fresh [OF r0(7), of "[r]"] r0(6) by (simp add: add_reset_def)
  show "db_users d' = db_users d" using r0(6) by (simp add: add_reset_def retire_resets_def)
qed

text \<open>
  The reset an administrator issues works. Its token is accepted for half an hour, as long as no
  other reset of the user replaced it and the user is enabled, whatever else happens; completing it
  sets the new password, and a second completion is refused at any time.
\<close>

theorem issued_reset_works:
  assumes "issue_admin_reset (ev_keyed_mac env) (ev_sha env) (ev_key env) (ev_previous env) d now k user creator metadata
      = Inr (aw_db w, token, expires)"
    and "(account_step env)\<^sup>*\<^sup>* w w'" and "distinct (map pt_id (db_reset_tokens (aw_db w)))"
    and "get_reset (aw_db w') k = Some r" "pt_used_at r = None" "aw_now w' < expires"
    and "get_user (aw_db w') (us_id user) = Some v" "us_enabled v"
  shows "expires = now + minutes 30 \<and> (\<exists>d'. consume_reset (ev_sha env) (aw_db w') (aw_now w') token hashed = Inr (d', r)
    \<and> (\<exists>x. get_user d' (us_id user) = Some x \<and> us_password_hash x = Some hashed)
    \<and> (\<forall>t hashed'. consume_reset (ev_sha env) d' t token hashed' = Inl invalid_token))"
proof -
  obtain r1 where r1: "create_reset (ev_keyed_mac env) (ev_sha env) (ev_key env) d now k (us_id user) (Some creator) metadata
      = Inr (aw_db w, r1)"
    "token_for_record (ev_keyed_mac env) (ev_sha env) (ev_key env # ev_previous env) r1 = Inr token" "expires = pt_expires_at r1"
    using assms(1) by (auto simp: issue_admin_reset_def result_simps split: if_splits)
  note row = create_reset_row [OF r1(1)]
  have token: "token = token_for_key (ev_keyed_mac env) r1 (ev_key env)" "ev_sha env token = pt_token_hash r1"
    using r1(2) row(5) by (simp_all add: token_for_record_def)
  have evolve: "credentials_evolve (aw_db w) (aw_db w')" using account_steps_evolve [OF assms(2)] .
  obtain r2 where r2: "find (\<lambda>x. pt_token_hash x = pt_token_hash r1) (db_reset_tokens (aw_db w')) = Some r2" "reset_keeps r1 r2"
    using evolve row(6) unfolding credentials_evolve_def by (elim conjE reset_hashes.evolves_find)
  have "distinct (map pt_id (db_reset_tokens (aw_db w')))"
    using evolve assms(3) by (auto simp: credentials_evolve_def dest: reset_rows.evolves_distinct)
  then have "get_reset (aw_db w') k = Some r2"
    using resets.get_unique [of "aw_db w'" r2] r2 row(1) by (auto simp: find_Some_iff reset_keeps_def)
  with assms(4) have "r2 = r" by simp
  with r2 have r: "find (\<lambda>x. pt_token_hash x = pt_token_hash r1) (db_reset_tokens (aw_db w')) = Some r" "pt_user_id r = us_id user"
    "pt_expires_at r = expires" using row r1(3) by (auto simp: reset_keeps_def)
  have strip: "py_strip token = token" "token \<noteq> []" using token(1) by (simp_all add: reset_token_strip) (simp add: token_for_key_def)
  have v: "us_id v = us_id user" using users.get_Some [OF assms(7)] by simp
  have tables: "db_reset_tokens (revoke_user_sessions t i (set_password h j x)) = db_reset_tokens x" for t i h j x
    by (simp add: account_tables)
  define d' where "d' = retire_resets (\<lambda>_. True) (aw_now w') (us_id user)
    (revoke_user_sessions (aw_now w') (us_id user) (set_password hashed (us_id user) (aw_db w')))"
  have "consume_reset (ev_sha env) (aw_db w') (aw_now w') token hashed = Inr (d', r)"
    using strip r assms(5-8) v token(2) by (simp add: consume_reset_def Let_def reset_open_def d'_def)
  moreover have "get_user d' i = get_user (set_password hashed (us_id user) (aw_db w')) i" for i
    by (simp add: d'_def get_user_def account_tables)
  then have "\<exists>x. get_user d' (us_id user) = Some x \<and> us_password_hash x = Some hashed"
    using assms(7) by (simp add: set_password_def users.get_upd)
  moreover have "find (\<lambda>x. pt_token_hash x = pt_token_hash r1) (db_reset_tokens d') = Some (r\<lparr>pt_used_at := Some (aw_now w')\<rparr>)"
    using r(1,2) assms(5) unfolding d'_def
    by (simp add: retire_resets_find tables)
  then have "consume_reset (ev_sha env) d' t token hashed' = Inl invalid_token" for t hashed'
    using strip token(2) by (simp add: consume_reset_def Let_def reset_open_def)
  ultimately show ?thesis using row(3) r1(3) by (simp add: reset_ttl_def)
qed

end
