(* ===== verification/Administrators.thy ===== *)
theory Administrators
  imports AccountWorld
begin

text \<open>
  The invariant behind the guard of the last administrator: role names and ids are unique, and once
  there are users an enabled one has the built-in role Administrator with every permission.
\<close>

section \<open>An administrator remains\<close>

definition roles_ok :: "db \<Rightarrow> bool" where
  "roles_ok d \<longleftrightarrow> distinct (map ro_id (db_roles d)) \<and> distinct (map ro_name (db_roles d))"

definition admin_role :: "db \<Rightarrow> role \<Rightarrow> bool" where
  "admin_role d r \<longleftrightarrow> r \<in> set (db_roles d) \<and> ro_name r = admin_role_name \<and> ro_built_in r
     \<and> set all_permissions \<subseteq> set (permissions_of_role d (ro_id r))"

definition administered :: "db \<Rightarrow> bool" where
  "administered d \<longleftrightarrow> (\<exists>r u. admin_role d r \<and> u \<in> set (db_users d) \<and> us_enabled u \<and> (us_id u, ro_id r) \<in> set (db_user_roles d))"

definition accounts_ok :: "db \<Rightarrow> bool" where
  "accounts_ok d \<longleftrightarrow> roles_ok d \<and> distinct (map us_id (db_users d)) \<and> (db_users d \<noteq> [] \<longrightarrow> administered d)"

lemma accounts_ok_cong:
  "db_users d' = db_users d \<Longrightarrow> db_roles d' = db_roles d \<Longrightarrow> db_role_permissions d' = db_role_permissions d \<Longrightarrow>
   db_user_roles d' = db_user_roles d \<Longrightarrow> accounts_ok d' = accounts_ok d"
  by (simp add: accounts_ok_def roles_ok_def administered_def admin_role_def permissions_of_role_def)

lemma permissions_of_set:
  "set (permissions_of_role (set_role_permissions k desired d) j)
   = (if j = k then set desired else set (permissions_of_role d j))"
  by (force simp: permissions_of_role_def set_role_permissions_def)

lemma same_role:
  "roles_ok d \<Longrightarrow> x \<in> set (db_roles d) \<Longrightarrow> y \<in> set (db_roles d) \<Longrightarrow> ro_name x = ro_name y \<Longrightarrow> x = y"
  "roles_ok d \<Longrightarrow> x \<in> set (db_roles d) \<Longrightarrow> y \<in> set (db_roles d) \<Longrightarrow> ro_id x = ro_id y \<Longrightarrow> x = y"
  by (auto simp: roles_ok_def distinct_map inj_on_def)

lemma same_user:
  "distinct (map us_id (db_users d)) \<Longrightarrow> u \<in> set (db_users d) \<Longrightarrow> v \<in> set (db_users d) \<Longrightarrow> us_id u = us_id v \<Longrightarrow> u = v"
  by (auto simp: distinct_map inj_on_def)

lemma has_admin_role_iff:
  assumes "roles_ok d" and "admin_role d r"
  shows "has_admin_role d k \<longleftrightarrow> (k, ro_id r) \<in> set (db_user_roles d)"
proof -
  have "x = r" if "x \<in> set (db_roles d)" "ro_name x = admin_role_name" for x
    using same_role(1) [OF assms(1) that(1), of r] that(2) assms(2) by (simp add: admin_role_def)
  then show ?thesis using assms(2) by (auto simp: has_admin_role_def roles_of_user_def list_ex_iff admin_role_def)
qed

text \<open>The guard keeps a second administrator: the count is over distinct users.\<close>

lemma other_administrator:
  assumes "roles_ok d" "admin_role d r" and "distinct (map us_id (db_users d))"
    and "u \<in> set (db_users d)" "us_enabled u" "has_admin_role d (us_id u)" and "\<not> enabled_admin_count d \<le> 1"
  obtains v where "v \<in> set (db_users d)" "us_id v \<noteq> us_id u" "us_enabled v" "(us_id v, ro_id r) \<in> set (db_user_roles d)"
proof -
  let ?admins = "filter (\<lambda>u. us_enabled u \<and> has_admin_role d (us_id u)) (db_users d)"
  have "distinct ?admins" using assms(3) by (simp add: distinct_map)
  moreover have "1 < length ?admins" using assms(7) by (simp add: enabled_admin_count_def)
  ultimately have "\<not> set ?admins \<subseteq> {u}" using card_mono [of "{u}" "set ?admins"] distinct_card [of ?admins] by fastforce
  then obtain v where v: "v \<in> set ?admins" "v \<noteq> u" by blast
  then have "us_id v \<noteq> us_id u" using same_user [OF assms(3) _ assms(4), of v] by auto
  with v that show thesis using has_admin_role_iff [OF assms(1,2)] by auto
qed

lemma alter_user_ok:
  assumes "accounts_ok d" and "\<And>x. us_id (f x) = us_id x" and "\<And>x. us_enabled x \<Longrightarrow> us_enabled (f x)"
  shows "accounts_ok (alter_user k f d)"
proof -
  have frame: "db_roles (alter_user k f d) = db_roles d" "db_user_roles (alter_user k f d) = db_user_roles d"
    "db_role_permissions (alter_user k f d) = db_role_permissions d" by (simp_all add: alter_user_def)
  have "administered (alter_user k f d)" if adm: "administered d"
  proof -
    obtain r u where ru: "admin_role d r" "u \<in> set (db_users d)" "us_enabled u" "(us_id u, ro_id r) \<in> set (db_user_roles d)"
      using adm by (auto simp: administered_def)
    let ?u = "if us_id u = k then f u else u"
    have "?u \<in> set (db_users (alter_user k f d))" using ru(2) by (auto simp: alter_user_def)
    moreover have "us_enabled ?u" "us_id ?u = us_id u" using assms(2,3) ru(3) by auto
    moreover have "admin_role (alter_user k f d) r" using ru(1) by (simp add: admin_role_def permissions_of_role_def frame)
    ultimately show ?thesis using ru(4) unfolding administered_def frame by (intro exI [of _ r] exI [of _ ?u]) simp
  qed
  moreover have "map us_id (db_users (alter_user k f d)) = map us_id (db_users d)" using assms(2) by (rule users.keys_upd)
  moreover from this have "db_users (alter_user k f d) = [] \<longleftrightarrow> db_users d = []" by (metis map_is_Nil_conv)
  ultimately show ?thesis using assms(1) by (simp add: accounts_ok_def roles_ok_def frame)
qed

lemma disable_user_ok:
  assumes ok: "accounts_ok d" and u: "get_user d (us_id u) = Some u" and "disable_user d now u = Inr d'"
  shows "accounts_ok d'"
proof (cases "us_enabled u")
  case True
  let ?d = "alter_user (us_id u) (\<lambda>x. x\<lparr>us_enabled := False\<rparr>) d"
  have d': "d' = revoke_user_sessions now (us_id u) ?d"
    and guard: "\<not> (has_admin_role d (us_id u) \<and> enabled_admin_count d \<le> 1)"
    using assms(3) True by (auto simp: disable_user_def guard_last_administrator_def result_simps)
  have frame: "db_roles ?d = db_roles d" "db_user_roles ?d = db_user_roles d" "db_role_permissions ?d = db_role_permissions d"
    by (simp_all add: alter_user_def)
  have mem: "u \<in> set (db_users d)" using users.get_Some [OF u] by simp
  then have "administered d" using ok by (auto simp: accounts_ok_def)
  then obtain r v where rv: "admin_role d r" "v \<in> set (db_users d)" "us_enabled v" "(us_id v, ro_id r) \<in> set (db_user_roles d)"
    by (auto simp: administered_def)
  have distinct: "roles_ok d" "distinct (map us_id (db_users d))" using ok by (simp_all add: accounts_ok_def)
  obtain x where x: "x \<in> set (db_users d)" "us_id x \<noteq> us_id u" "us_enabled x" "(us_id x, ro_id r) \<in> set (db_user_roles d)"
  proof (cases "us_id v = us_id u")
    case True
    then have "has_admin_role d (us_id u)" using has_admin_role_iff [OF distinct(1) rv(1)] rv(4) by simp
    with guard other_administrator [OF distinct(1) rv(1) distinct(2) mem \<open>us_enabled u\<close>] that show thesis by blast
  qed (use rv that in blast)
  have "x \<in> set (db_users ?d)" using x(1,2) by (auto simp: alter_user_def)
  moreover have "admin_role ?d r" using rv(1) by (simp add: admin_role_def permissions_of_role_def frame)
  ultimately have "administered ?d" using x(3,4) unfolding administered_def frame by blast
  moreover have "map us_id (db_users ?d) = map us_id (db_users d)" by (rule users.keys_upd) simp
  ultimately have "accounts_ok ?d" using distinct by (simp add: accounts_ok_def roles_ok_def frame)
  then show ?thesis unfolding d' by (subst accounts_ok_cong [of _ ?d]) (simp_all add: revoke_user_sessions_def)
qed (use assms in \<open>auto simp: disable_user_def\<close>)

lemma set_user_roles_ok:
  assumes ok: "accounts_ok d" and u: "u \<in> set (db_users d)" and rs: "set rs \<subseteq> set (db_roles d)"
    and guard: "has_admin_role d (us_id u) \<Longrightarrow> \<not> list_ex (\<lambda>r. ro_name r = admin_role_name) rs \<Longrightarrow>
      \<not> (us_enabled u \<and> enabled_admin_count d \<le> 1)"
  shows "accounts_ok (set_user_roles (us_id u) rs d)"
proof -
  let ?d = "set_user_roles (us_id u) rs d"
  have frame: "db_roles ?d = db_roles d" "db_users ?d = db_users d" "db_role_permissions ?d = db_role_permissions d"
    by (simp_all add: set_user_roles_def)
  have distinct: "roles_ok d" "distinct (map us_id (db_users d))" using ok by (simp_all add: accounts_ok_def)
  obtain r v where rv: "admin_role d r" "v \<in> set (db_users d)" "us_enabled v" "(us_id v, ro_id r) \<in> set (db_user_roles d)"
    using ok u by (auto simp: accounts_ok_def administered_def)
  have kept: "(us_id x, ro_id r) \<in> set (db_user_roles ?d)" if "(us_id x, ro_id r) \<in> set (db_user_roles d)" "us_id x \<noteq> us_id u" for x :: user
    using that by (simp add: set_user_roles_def)
  have "\<exists>x \<in> set (db_users d). us_enabled x \<and> (us_id x, ro_id r) \<in> set (db_user_roles ?d)"
  proof (cases "us_id v = us_id u")
    case True
    then have v: "v = u" using same_user [OF distinct(2) rv(2) u] by simp
    show ?thesis
    proof (cases "list_ex (\<lambda>r. ro_name r = admin_role_name) rs")
      case True
      then obtain r' where "r' \<in> set rs" "ro_name r' = admin_role_name" by (auto simp: list_ex_iff)
      moreover from this have "r' = r"
        using same_role(1) [OF distinct(1), of r' r] rs rv(1) by (auto simp: admin_role_def)
      ultimately have "(us_id u, ro_id r) \<in> set (db_user_roles ?d)" by (auto simp: set_user_roles_def)
      with v rv u show ?thesis by blast
    next
      case False
      have admin: "has_admin_role d (us_id u)" using has_admin_role_iff [OF distinct(1) rv(1)] rv(4) v by simp
      with guard False rv(3) v have "\<not> enabled_admin_count d \<le> 1" by simp
      from other_administrator [OF distinct(1) rv(1) distinct(2) u _ admin this] rv(3) v kept show ?thesis by metis
    qed
  next
    case False
    with rv kept show ?thesis by blast
  qed
  moreover have "admin_role ?d r" using rv(1) by (simp add: admin_role_def permissions_of_role_def frame)
  ultimately have "administered ?d" unfolding administered_def frame by blast
  with distinct show ?thesis by (simp add: accounts_ok_def roles_ok_def frame)
qed

lemma roles_by_ids_subset: "roles_by_ids d ks = Inr rs \<Longrightarrow> set rs \<subseteq> set (db_roles d)"
  by (auto simp: roles_by_ids_def Let_def split: if_splits)

lemma update_user_ok:
  assumes ok: "accounts_ok d" and u: "get_user d (us_id u) = Some u" and "update_user d u changes = Inr d'"
  shows "accounts_ok d'"
proof -
  let ?f = "\<lambda>x. change_email (uc_email changes) (change_display_name (uc_display_name changes) x)"
  let ?d = "alter_user (us_id u) ?f d"
  have f: "us_id (?f x) = us_id x" "us_enabled (?f x) = us_enabled x" for x
    by (auto simp: change_email_def change_display_name_def Let_def split: option.split)
  have d1: "accounts_ok ?d" using ok f by (simp add: alter_user_ok)
  show ?thesis
  proof (cases "uc_role_ids changes")
    case None
    then show ?thesis using assms(3) d1 by (simp add: update_user_def Let_def)
  next
    case (Some ids)
    then obtain rs where rs: "roles_by_ids ?d (case ids of None \<Rightarrow> [] | Some ks \<Rightarrow> ks) = Inr rs"
      "d' = set_user_roles (us_id u) rs ?d"
      "has_admin_role ?d (us_id u) \<Longrightarrow> \<not> list_ex (\<lambda>r. ro_name r = admin_role_name) rs \<Longrightarrow>
         \<not> (us_enabled u \<and> enabled_admin_count ?d \<le> 1)"
      using assms(3) by (auto simp: update_user_def Let_def result_simps guard_last_administrator_def split: if_splits)
    have "get_user ?d (us_id u) = Some (?f u)" using users.get_upd [of ?f "us_id u" d "us_id u"] f u by simp
    then have "?f u \<in> set (db_users ?d)" by (auto dest: users.get_Some)
    from set_user_roles_ok [OF d1 this roles_by_ids_subset [OF rs(1)]] rs(2,3) f show ?thesis by simp
  qed
qed

lemma create_user_ok:
  assumes ok: "accounts_ok d" and "get_user d k = None" and "db_users d \<noteq> []"
    and "create_user d k name display email hashed ids = Inr (d', u)"
  shows "accounts_ok d'"
proof -
  obtain rs where d': "d' = set_user_roles k rs (add_user u d)" and u: "us_id u = k"
    using assms(4) by (auto simp: create_user_def result_simps Let_def new_user_def split: if_splits)
  have fresh: "k \<notin> us_id ` set (db_users d)" using assms(2) by (simp add: users.get_None_iff)
  have frame: "db_users d' = db_users d @ [u]" "db_roles d' = db_roles d" "db_role_permissions d' = db_role_permissions d"
    "db_user_roles d' = filter (\<lambda>p. fst p \<noteq> k) (db_user_roles d) @ map (\<lambda>r. (k, ro_id r)) rs"
    by (simp_all add: d' add_user_def set_user_roles_def)
  obtain r v where rv: "admin_role d r" "v \<in> set (db_users d)" "us_enabled v" "(us_id v, ro_id r) \<in> set (db_user_roles d)"
    using ok assms(3) by (auto simp: accounts_ok_def administered_def)
  have "us_id v \<noteq> k" using fresh rv(2) by auto
  then have "(us_id v, ro_id r) \<in> set (db_user_roles d')" using rv(4) by (simp add: frame)
  moreover have "admin_role d' r" using rv(1) by (simp add: admin_role_def permissions_of_role_def frame)
  ultimately have "administered d'" using rv(2,3) unfolding administered_def frame(1) by auto
  with ok fresh u show ?thesis by (simp add: accounts_ok_def roles_ok_def frame)
qed

text \<open>Roles: a new or changed role is not the administrator's.\<close>

lemma create_role_ok:
  assumes ok: "accounts_ok d" and "get_role d k = None" and "create_role d k sk name desc ps = Inr (d', x)"
  shows "accounts_ok d'"
proof -
  obtain normalized d1 s where d1: "ensure_scope (set_role_permissions k normalized (add_role x d)) sk ''role'' k ''none'' = Inr (d1, s)"
    and d': "d' = d1" and x: "ro_id x = k" "ro_name x = name" and free: "\<not> role_name_taken d k name"
    using assms(3) by (auto simp: create_role_def result_simps Let_def split: if_splits sum.splits)
  let ?d = "set_role_permissions k normalized (add_role x d)"
  have same: "accounts_ok d' = accounts_ok ?d"
    unfolding d' using ensure_scope_frame [OF d1] by (elim disjE exE) (simp, rule accounts_ok_cong, simp_all)
  have fresh: "k \<notin> ro_id ` set (db_roles d)" using assms(2) by (simp add: roles.get_None_iff)
  have "name \<notin> ro_name ` set (db_roles d)" using free fresh by (auto simp: role_name_taken_def list_ex_iff)
  moreover have frame: "db_roles ?d = db_roles d @ [x]" "db_users ?d = db_users d" "db_user_roles ?d = db_user_roles d"
    by (simp_all add: add_role_def set_role_permissions_def)
  ultimately have "roles_ok ?d" using ok fresh x by (simp add: accounts_ok_def roles_ok_def)
  moreover have "administered ?d" if "administered d"
  proof -
    have "admin_role ?d r" if "admin_role d r" for r
      using that fresh by (auto simp: admin_role_def permissions_of_set frame) (auto simp: permissions_of_role_def add_role_def)
    with that show ?thesis unfolding administered_def frame by blast
  qed
  ultimately show ?thesis using ok same by (simp add: accounts_ok_def frame)
qed

lemma update_role_ok:
  assumes ok: "accounts_ok d" and r: "get_role d (ro_id r) = Some r" and upd: "update_role d r changes = Inr d'"
  shows "accounts_ok d'"
proof -
  let ?k = "ro_id r" let ?f = "change_role changes" let ?d = "alter_role ?k ?f d"
  have plain: "\<not> ro_built_in r" and free: "\<not> role_name_taken d ?k (ro_name (?f r))"
    and d': "d' = ?d \<or> (\<exists>ps. d' = set_role_permissions ?k ps ?d)"
    using upd by (auto simp: update_role_def Let_def result_simps split: if_splits option.splits)
  have frame: "db_roles d' = map (\<lambda>x. if ro_id x = ?k then ?f x else x) (db_roles d)" "db_users d' = db_users d"
    "db_user_roles d' = db_user_roles d"
    using d' by (auto simp: alter_role_def set_role_permissions_def)
  have id: "ro_id (?f x) = ro_id x" for x by (simp add: change_role_def)
  have mem: "r \<in> set (db_roles d)" using roles.get_Some [OF r] by simp
  have distinct: "distinct (map ro_id (db_roles d))" "distinct (map ro_name (db_roles d))"
    using ok by (simp_all add: accounts_ok_def roles_ok_def)
  have only: "x = r" if "x \<in> set (db_roles d)" "ro_id x = ?k" for x
    using same_role(2) [of d x r] that mem ok by (simp add: accounts_ok_def)
  have "map ro_id (db_roles d') = map ro_id (db_roles d)" by (simp add: frame id)
  moreover have "distinct (map ro_name (db_roles d'))"
  proof -
    have others: "ro_name x \<noteq> ro_name (?f r)" if "x \<in> set (db_roles d)" "ro_id x \<noteq> ?k" for x
      using free that by (auto simp: role_name_taken_def list_ex_iff)
    have "inj_on (\<lambda>x. ro_name (if ro_id x = ?k then ?f x else x)) (set (db_roles d))"
      using only others distinct(2) by (auto simp: inj_on_def distinct_map) metis+
    then show ?thesis using distinct(1) by (simp add: frame comp_def distinct_map)
  qed
  moreover have "administered d'" if "administered d"
  proof -
    have "admin_role d' a" if a: "admin_role d a" for a
    proof -
      have other: "ro_id a \<noteq> ?k" using a plain only by (auto simp: admin_role_def)
      then have "set (permissions_of_role d' (ro_id a)) = set (permissions_of_role d (ro_id a))"
        using d' by (auto simp: permissions_of_set) (auto simp: permissions_of_role_def alter_role_def)
      moreover have "a \<in> set (db_roles d')" using a other by (auto simp: frame admin_role_def)
      ultimately show ?thesis using a by (simp add: admin_role_def)
    qed
    with that show ?thesis unfolding administered_def frame(2,3) by blast
  qed
  ultimately show ?thesis using ok by (simp add: accounts_ok_def roles_ok_def frame(2))
qed

text \<open>The built-in roles: the administrator's role exists, is built in and has every permission.\<close>

lemma ensure_role_row_ok:
  assumes "roles_ok d" and "k \<notin> ro_id ` set (db_roles d)" and "ensure_role_row d name k = (d1, r)"
  shows "roles_ok d1" "r \<in> set (db_roles d1)" "ro_name r = name" "ro_built_in r"
    "ro_id ` set (db_roles d1) \<subseteq> insert k (ro_id ` set (db_roles d))"
    "\<forall>x \<in> set (db_roles d). ro_name x \<noteq> name \<longrightarrow> x \<in> set (db_roles d1)"
proof -
  have "roles_ok d1 \<and> r \<in> set (db_roles d1) \<and> ro_name r = name \<and> ro_built_in r
    \<and> ro_id ` set (db_roles d1) \<subseteq> insert k (ro_id ` set (db_roles d))
    \<and> (\<forall>x \<in> set (db_roles d). ro_name x \<noteq> name \<longrightarrow> x \<in> set (db_roles d1))"
  proof (cases "find (\<lambda>r. ro_name r = name) (db_roles d)")
    case None
    then have "name \<notin> ro_name ` set (db_roles d)" by (auto simp: find_None_iff)
    with None assms show ?thesis by (auto simp: ensure_role_row_def Let_def add_role_def roles_ok_def)
  next
    case (Some x)
    then have x: "x \<in> set (db_roles d)" "ro_name x = name" by (auto simp: find_Some_iff)
    have r: "r = x\<lparr>ro_built_in := True\<rparr>" and d1: "d1 = alter_role (ro_id x) (\<lambda>x. x\<lparr>ro_built_in := True\<rparr>) d"
      using Some assms(3) by (auto simp: ensure_role_row_def)
    have keys: "map ro_id (db_roles d1) = map ro_id (db_roles d)" "map ro_name (db_roles d1) = map ro_name (db_roles d)"
      unfolding d1 by (simp_all add: alter_role_def comp_def if_distrib cong: if_cong)
    then have "ro_id ` set (db_roles d1) = ro_id ` set (db_roles d)" by (metis list.set_map)
    moreover have "r \<in> set (db_roles d1)" using x(1) unfolding r d1 by (auto simp: alter_role_def)
    moreover have "y \<in> set (db_roles d1)" if "y \<in> set (db_roles d)" "ro_name y \<noteq> name" for y
      using same_role(2) [OF assms(1) that(1) x(1)] that x unfolding d1 by (auto simp: alter_role_def)
    ultimately show ?thesis using keys assms(1) x(2) by (simp add: roles_ok_def r subset_insertI)
  qed
  then show "roles_ok d1" "r \<in> set (db_roles d1)" "ro_name r = name" "ro_built_in r"
    "ro_id ` set (db_roles d1) \<subseteq> insert k (ro_id ` set (db_roles d))"
    "\<forall>x \<in> set (db_roles d). ro_name x \<noteq> name \<longrightarrow> x \<in> set (db_roles d1)" by simp_all
qed

lemma scope_roles: "ensure_scope d k t i m = Inr (d', s) \<Longrightarrow> db_roles d' = db_roles d \<and> db_role_permissions d' = db_role_permissions d"
  by (drule ensure_scope_frame) auto

lemma set_permissions_roles [simp]: "db_roles (set_role_permissions k ps d) = db_roles d"
  by (simp add: set_role_permissions_def)

lemma ensure_builtin_roles_ok:
  "ensure_builtin_roles role_ids scope_ids d rs = Inr (d', m) \<Longrightarrow> roles_ok d \<Longrightarrow> inj_on role_ids (fst ` set rs) \<Longrightarrow>
   distinct (map fst rs) \<Longrightarrow>
   \<forall>n \<in> fst ` set rs. role_ids n \<notin> ro_id ` set (db_roles d) \<Longrightarrow>
   roles_ok d' \<and> (\<forall>x. admin_role d x \<and> admin_role_name \<notin> fst ` set rs \<longrightarrow> admin_role d' x)
   \<and> (\<forall>n ps r. (n, ps) \<in> set rs \<and> n = admin_role_name \<and> ps = all_permissions \<and> map_of m n = Some r \<longrightarrow> admin_role d' r)"
proof (induction rs arbitrary: d d' m)
  case (Cons y rs)
  obtain name desired where y: "y = (name, desired)" by (cases y)
  obtain d1 r where row: "ensure_role_row d name (role_ids name) = (d1, r)" by (cases "ensure_role_row d name (role_ids name)")
  let ?d2 = "set_role_permissions (ro_id r) desired d1"
  obtain d3 s m' where scope: "ensure_scope ?d2 (scope_ids name) ''role'' (ro_id r) ''all'' = Inr (d3, s)"
    and rest: "ensure_builtin_roles role_ids scope_ids d3 rs = Inr (d', m')" and m: "m = (name, r) # m'"
    using Cons.prems(1) by (auto simp: y row Let_def result_simps)
  have fresh: "role_ids name \<notin> ro_id ` set (db_roles d)" using Cons.prems(5) by (simp add: y)
  note r = ensure_role_row_ok [OF Cons.prems(2) fresh row]
  have d3: "db_roles d3 = db_roles d1" "\<And>k. permissions_of_role d3 k = permissions_of_role ?d2 k"
    using scope_roles [OF scope] by (simp_all add: permissions_of_role_def)
  have ok3: "roles_ok d3" using r(1) d3 by (simp add: roles_ok_def)
  have fresh3: "\<forall>n \<in> fst ` set rs. role_ids n \<notin> ro_id ` set (db_roles d3)"
  proof
    fix n
    assume n: "n \<in> fst ` set rs"
    then have "n \<noteq> name" using Cons.prems(4) by (auto simp: y)
    then have "role_ids n \<noteq> role_ids name" using inj_onD [OF Cons.prems(3), of n name] n by (auto simp: y)
    moreover have "role_ids n \<notin> ro_id ` set (db_roles d)" using n Cons.prems(5) by auto
    ultimately show "role_ids n \<notin> ro_id ` set (db_roles d3)" using r(5) unfolding d3(1) by blast
  qed
  have "inj_on role_ids (fst ` set rs)" using Cons.prems(3) by (auto simp: y)
  note IH = Cons.IH [OF rest ok3 this _ fresh3]
  have perms: "set (permissions_of_role d3 k) = (if k = ro_id r then set desired else set (permissions_of_role d k))" for k
    using ensure_role_row_frame [OF row] by (simp add: d3 permissions_of_set) (simp add: permissions_of_role_def)
  have keep: "admin_role d3 x" if "admin_role d x" "admin_role_name \<noteq> name" for x
  proof -
    have "x \<in> set (db_roles d1)" using that r(6) by (auto simp: admin_role_def)
    moreover have "x \<noteq> r" using that r(3) by (auto simp: admin_role_def)
    with same_role(2) [OF r(1) calculation r(2)] have "ro_id x \<noteq> ro_id r" by blast
    ultimately show ?thesis using that(1) perms [of "ro_id x"] by (simp add: admin_role_def d3(1))
  qed
  have here: "admin_role d3 r" if "name = admin_role_name" "desired = all_permissions"
    using r(2-4) that perms [of "ro_id r"] by (simp add: admin_role_def d3(1))
  have distinct: "distinct (map fst rs)" "name \<notin> fst ` set rs" using Cons.prems(4) by (auto simp: y)
  show ?case
  proof (intro conjI allI impI)
    show "roles_ok d'" using IH [OF distinct(1)] by blast
  next
    fix x
    assume "admin_role d x \<and> admin_role_name \<notin> fst ` set (y # rs)"
    then show "admin_role d' x" using IH [OF distinct(1)] keep [of x] by (auto simp: y)
  next
    fix n ps a
    assume a: "(n, ps) \<in> set (y # rs) \<and> n = admin_role_name \<and> ps = all_permissions \<and> map_of m n = Some a"
    show "admin_role d' a"
    proof (cases "n = name")
      case True
      then have "(n, ps) = (name, desired)" using a distinct(2) by (force simp: y)
      then show ?thesis using a here IH [OF distinct(1)] distinct(2) by (auto simp: m)
    next
      case False
      then show ?thesis using a IH [OF distinct(1)] by (auto simp: m y)
    qed
  qed
qed auto

lemma setup_ok:
  assumes "create_initial_administrator role_ids scope_ids d k name display email hashed = Inr (d', u)"
    and "accounts_ok d" and "distinct (map (\<lambda>b. role_ids (fst b)) builtin_role_permissions)"
    and "\<forall>b \<in> set builtin_role_permissions. get_role d (role_ids (fst b)) = None"
  shows "accounts_ok d'"
proof -
  let ?d = "d\<lparr>db_settings := db_settings d @ [(bootstrap_namespace, [(''completed'', PBool True)])]\<rparr>"
  obtain d2 rs r where roles: "ensure_builtin_roles role_ids scope_ids ?d builtin_role_permissions = Inr (d2, rs)"
    and r: "map_of rs admin_role_name = Some r" and u: "us_id u = k" "us_enabled u"
    and d': "d' = set_user_roles k [r] (add_user u d2)" and none: "db_users d = []"
    using assms(1) by (auto simp: create_initial_administrator_def setup_required_def new_user_def Let_def
        split: if_splits sum.splits option.splits)
  have "roles_ok ?d" using assms(2) by (simp add: accounts_ok_def roles_ok_def)
  moreover have "distinct (map fst builtin_role_permissions)"
    "(admin_role_name, all_permissions) \<in> set builtin_role_permissions" by (simp_all add: builtin_role_permissions_def admin_role_name_def)
  moreover have "\<forall>n \<in> fst ` set builtin_role_permissions. role_ids n \<notin> ro_id ` set (db_roles ?d)"
    using assms(4) by (auto simp: roles.get_None_iff)
  moreover have "inj_on role_ids (fst ` set builtin_role_permissions)"
    using assms(3) by (auto simp: distinct_map inj_on_def)
  ultimately have ok: "roles_ok d2" "admin_role d2 r"
    using ensure_builtin_roles_ok [OF roles] r by blast+
  have frame: "db_roles d' = db_roles d2" "db_role_permissions d' = db_role_permissions d2"
    "db_users d' = [u]" "(k, ro_id r) \<in> set (db_user_roles d')"
    using ensure_builtin_roles_frame [OF roles] none by (simp_all add: d' set_user_roles_def add_user_def)
  have "admin_role d' r" using ok(2) by (simp add: admin_role_def permissions_of_role_def frame)
  then have "administered d'" using u frame(3,4) unfolding administered_def by auto
  then show ?thesis using ok(1) by (simp add: accounts_ok_def roles_ok_def frame)
qed

lemma principal_ok:
  assumes "resolve_auth_context mac sha d now h c = Inr (d1, p)"
  shows "accounts_ok d1 = accounts_ok d" "db_users d \<noteq> []" "db_users d1 = db_users d"
proof -
  have same: "accounts_untouched d (d1\<lparr>db_api_tokens := db_api_tokens d\<rparr>)" using principal_evolves(2) [OF assms] .
  then show "accounts_ok d1 = accounts_ok d" by (intro accounts_ok_cong) (simp_all add: accounts_untouched_def)
  show "db_users d1 = db_users d" using same by (simp add: accounts_untouched_def)
  show "db_users d \<noteq> []" using assms by (auto elim!: resolve_auth_context_cases dest: users.get_Some)
qed

lemma session_tables_ok:
  "accounts_ok (fst (create_session d now ttl k u client)) \<longleftrightarrow> accounts_ok (alter_user u (\<lambda>x. x\<lparr>us_last_login_at := Some now\<rparr>) d)"
  "accounts_ok (alter_session k f d) = accounts_ok d" "accounts_ok (revoke_user_sessions now u d) = accounts_ok d"
  "accounts_ok (retire_resets which now u d) = accounts_ok d"
  by (rule accounts_ok_cong; simp add: create_session_def Let_def account_tables)+

lemma password_ok: "accounts_ok d \<Longrightarrow> accounts_ok (set_password h k d)" "accounts_ok d \<Longrightarrow> accounts_ok (alter_user u (\<lambda>x. x\<lparr>us_last_login_at := Some now\<rparr>) d)"
  by (simp_all add: set_password_def alter_user_ok)

lemma handle_ok:
  assumes "handle env d now q = Inr d'" and "fresh_ids d q" and ok: "accounts_ok d"
  shows "accounts_ok d'"
proof -
  have got: "get_user d1 (us_id x) = Some x" if "get_user d1 k = Some x" for d1 k x using users.get_Some [OF that] that by simp
  have got_role: "get_role d1 (ro_id x) = Some x" if "get_role d1 k = Some x" for d1 k x using roles.get_Some [OF that] that by simp
  have untouched: "accounts_ok d' = accounts_ok d1" if "accounts_untouched d1 d'" for d1
    using that by (intro accounts_ok_cong) (simp_all add: accounts_untouched_def)
  show ?thesis
  proof (cases q)
    case (SetupAdministrator role_ids scope_ids k name display email hashed)
    then show ?thesis using assms setup_ok [OF _ ok] by auto
  next
    case (Login name password k client)
    then show ?thesis using assms by (auto simp: handle_login_def result_simps session_tables_ok password_ok)
  next
    case (Logout token)
    then show ?thesis using assms by (auto simp: revoke_session_token_def session_tables_ok split: option.splits)
  next
    case (ReadRequest cred)
    then show ?thesis using assms by (auto simp: route_simps principal_ok)
  next
    case (RevokeSession cred k)
    then show ?thesis using assms
      by (auto simp: route_simps revoke_owned_session_def session_tables_ok principal_ok split: option.splits if_splits)
  next
    case (ChangePassword cred k current hashed client)
    then obtain d1 p u s where "resolve_auth_context (ev_mac env) (ev_sha env) d now (fst cred) (snd cred) = Inr (d1, p)"
      "change_password (ev_check env) d1 now (ev_ttl_hours env) k u current hashed client = Inr (d', s)"
      using assms by (auto simp: route_simps split: option.splits)
    with ok show ?thesis
      using session_tables_ok(1) [of "revoke_user_sessions now (us_id u) (set_password hashed (us_id u) d1)" now "ev_ttl_hours env" k "us_id u" client]
        password_ok(2) [of "revoke_user_sessions now (us_id u) (set_password hashed (us_id u) d1)"]
      by (auto simp: change_password_def principal_ok session_tables_ok(3) password_ok split: if_splits)
  next
    case (CreateUser cred k name display email hashed ids)
    then obtain d1 p x where p: "resolve_auth_context (ev_mac env) (ev_sha env) d now (fst cred) (snd cred) = Inr (d1, p)"
      "create_user d1 k name display email hashed ids = Inr (d', x)" "get_user d k = None"
      using assms by (auto simp: route_simps)
    from create_user_ok [OF _ _ _ p(2)] show ?thesis using ok p(3) by (simp add: principal_ok [OF p(1)] principal_fresh [OF p(1)])
  next
    case (UpdateUser cred k changes)
    then obtain d1 p x where p: "resolve_auth_context (ev_mac env) (ev_sha env) d now (fst cred) (snd cred) = Inr (d1, p)"
      and x: "get_user d1 k = Some x" "update_user d1 x changes = Inr d'"
      using assms by (auto simp: route_simps)
    from update_user_ok [OF _ got [OF x(1)] x(2)] show ?thesis using ok by (simp add: principal_ok [OF p])
  next
    case (DisableUser cred k)
    then obtain d1 p x where p: "resolve_auth_context (ev_mac env) (ev_sha env) d now (fst cred) (snd cred) = Inr (d1, p)"
      and x: "get_user d1 k = Some x" "disable_user d1 now x = Inr d'"
      using assms by (auto simp: route_simps)
    from disable_user_ok [OF _ got [OF x(1)] x(2)] show ?thesis using ok by (simp add: principal_ok [OF p])
  next
    case (EnableUser cred k)
    then obtain d1 p x where p: "resolve_auth_context (ev_mac env) (ev_sha env) d now (fst cred) (snd cred) = Inr (d1, p)"
      and x: "d' = enable_user d1 x"
      using assms by (auto simp: route_simps)
    then show ?thesis using ok by (simp add: principal_ok [OF p] enable_user_def alter_user_ok)
  next
    case (CreateRole cred k sk name desc ps)
    then obtain d1 p x where p: "resolve_auth_context (ev_mac env) (ev_sha env) d now (fst cred) (snd cred) = Inr (d1, p)"
      and x: "create_role d1 k sk name desc ps = Inr (d', x)" "get_role d k = None"
      using assms by (auto simp: route_simps)
    from create_role_ok [OF _ _ x(1)] show ?thesis using ok x(2) by (simp add: principal_ok [OF p] principal_fresh [OF p])
  next
    case (UpdateRole cred k changes)
    then obtain d1 p x where p: "resolve_auth_context (ev_mac env) (ev_sha env) d now (fst cred) (snd cred) = Inr (d1, p)"
      and x: "get_role d1 k = Some x" "update_role d1 x changes = Inr d'"
      using assms by (auto simp: route_simps)
    from update_role_ok [OF _ got_role [OF x(1)] x(2)] show ?thesis using ok by (simp add: principal_ok [OF p])
  next
    case (CreateApiToken cred k random name ps expires)
    then obtain d1 p where "resolve_auth_context (ev_mac env) (ev_sha env) d now (fst cred) (snd cred) = Inr (d1, p)"
      "\<exists>t. d' = add_api_token t d1"
      using assms by (auto simp: route_simps api_token_create_def Let_def split: if_splits)
    with ok show ?thesis using accounts_ok_cong [of d' d1] by (auto simp: principal_ok add_api_token_def)
  next
    case (RevokeApiToken cred k)
    then obtain d1 p where "resolve_auth_context (ev_mac env) (ev_sha env) d now (fst cred) (snd cred) = Inr (d1, p)"
      "\<exists>f. d' = alter_api_token k f d1"
      using assms by (auto simp: route_simps api_token_revoke_def split: option.splits if_splits)
    with ok show ?thesis using accounts_ok_cong [of d' d1] by (auto simp: principal_ok alter_api_token_def)
  next
    case (IssueReset cred k user)
    then obtain d1 p u r x y where "resolve_auth_context (ev_mac env) (ev_sha env) d now (fst cred) (snd cred) = Inr (d1, p)"
      "create_reset (ev_keyed_mac env) (ev_sha env) (ev_key env) d1 now k u r x = Inr (d', y)"
      using assms by (auto simp: route_simps issue_admin_reset_def split: if_splits)
    with ok show ?thesis using accounts_ok_cong [of d' d1]
      by (auto simp: principal_ok create_reset_def Let_def add_reset_def retire_resets_def split: if_splits)
  next
    case (RequestReset k dk ident metadata)
    then show ?thesis using assms accounts_ok_cong [of d' d]
      by (auto simp: issue_reset_def create_reset_def Let_def result_simps add_reset_def retire_resets_def split: if_splits option.splits)
  next
    case (CompleteReset token hashed)
    then show ?thesis using assms by (auto elim!: consume_reset_cases simp: session_tables_ok password_ok)
  qed
qed

text \<open>
  C14: An administrator remains. From a new installation on, whatever requests are made by whoever may
  make them, once there are users there is an enabled one with the built-in role Administrator and
  with it every permission: users can be disabled and change roles, roles can be edited, but the
  last administrator cannot be lost.
\<close>

theorem administrator_remains:
  assumes "(account_step env)\<^sup>*\<^sup>* w w'" and "db_users (aw_db w) = []" and "db_roles (aw_db w) = []"
    and "db_users (aw_db w') \<noteq> []"
  shows "\<exists>u r. u \<in> set (db_users (aw_db w')) \<and> us_enabled u \<and> r \<in> set (roles_of_user (aw_db w') (us_id u))
    \<and> ro_name r = ''Administrator'' \<and> ro_built_in r
    \<and> set all_permissions \<subseteq> set (snd (user_roles_and_permissions (aw_db w') (us_id u)))"
proof -
  have "accounts_ok (aw_db w')" using assms(1)
  proof (induction rule: rtranclp_induct)
    case base
    then show ?case using assms(2,3) by (simp add: accounts_ok_def roles_ok_def)
  next
    case (step v w')
    from step.hyps(2) step.IH show ?case
    proof (cases rule: account_step.cases)
      case (request q d)
      then show ?thesis using handle_ok [OF request(3,2) step.IH] by simp
    next
      case (elsewhere d)
      then show ?thesis using step.IH accounts_ok_cong [of d "aw_db v"] by (simp add: accounts_untouched_def)
    next
      case (tick t)
      then show ?thesis using step.IH by simp
    qed
  qed
  then obtain r u where ru: "admin_role (aw_db w') r" "u \<in> set (db_users (aw_db w'))" "us_enabled u"
    "(us_id u, ro_id r) \<in> set (db_user_roles (aw_db w'))"
    using assms(4) by (auto simp: accounts_ok_def administered_def)
  then have "r \<in> set (roles_of_user (aw_db w') (us_id u))" by (simp add: roles_of_user_def admin_role_def)
  moreover from this have "set (permissions_of_role (aw_db w') (ro_id r)) \<subseteq> set (snd (user_roles_and_permissions (aw_db w') (us_id u)))"
    by (auto simp: user_roles_and_permissions_def)
  ultimately show ?thesis using ru by (auto simp: admin_role_def admin_role_name_def)
qed

section \<open>A small installation\<close>

definition example_env :: auth_env where
  "example_env = \<lparr>ev_mac = rev, ev_keyed_mac = (\<lambda>_ b. rev b), ev_sha = id, ev_check = (=), ev_key = ''key'', ev_previous = [],
     ev_ttl_hours = 12\<rparr>"

definition example_setup :: account_request where
  "example_setup = SetupAdministrator (\<lambda>n. if n = ''Administrator'' then 1 else if n = ''Operator'' then 2 else 3)
     (\<lambda>n. if n = ''Administrator'' then 4 else if n = ''Operator'' then 5 else 6) 9 ''admin'' ''Admin'' None ''secret''"

lemma example_setup_done: "\<exists>d. handle example_env empty_db 0 example_setup = Inr d \<and> db_users d \<noteq> []"
  unfolding example_setup_def handle.simps
  by (simp add: example_env_def create_initial_administrator_def setup_required_def empty_db_def builtin_role_permissions_def
      Let_def ensure_role_row_def ensure_scope_def scope_of_def result_simps fst_result_def admin_role_name_def username_taken_def
      add_role_def add_user_def set_user_roles_def set_role_permissions_def new_user_def bootstrap_namespace_def)

lemma administrator_remains_witness:
  "\<exists>w u. (account_step example_env)\<^sup>*\<^sup>* \<lparr>aw_db = empty_db, aw_now = 0, aw_completed = []\<rparr> w
     \<and> u \<in> set (db_users (aw_db w)) \<and> us_enabled u
     \<and> set all_permissions \<subseteq> set (snd (user_roles_and_permissions (aw_db w) (us_id u)))"
proof -
  let ?w = "\<lparr>aw_db = empty_db, aw_now = 0, aw_completed = []\<rparr>"
  obtain d where d: "handle example_env empty_db 0 example_setup = Inr d" "db_users d \<noteq> []" using example_setup_done by blast
  have "fresh_ids empty_db example_setup"
    by (simp add: example_setup_def empty_db_def get_user_def get_role_def builtin_role_permissions_def)
  from account_step.request [of ?w example_setup example_env d] this d(1)
  have "account_step example_env ?w (?w\<lparr>aw_db := d\<rparr>)" by (simp add: completed_reset_def example_setup_def)
  then have "(account_step example_env)\<^sup>*\<^sup>* ?w (?w\<lparr>aw_db := d\<rparr>)" by blast
  from administrator_remains [OF this] d(2) this show ?thesis by (fastforce simp: empty_db_def)
qed

definition example_user :: user where
  "example_user = new_user 9 ''admin'' ''Admin'' None ''secret''"

definition example_login :: user_session where
  "example_login = \<lparr>ss_id = 60, ss_user_id = 9, ss_created_at = 0, ss_last_seen_at = 0, ss_expires_at = hours 12,
     ss_revoked_at = None, ss_client_info = None\<rparr>"

definition example_accounts :: db where
  "example_accounts = empty_db\<lparr>db_users := [example_user], db_sessions := [example_login]\<rparr>"

lemma example_accounts_fields:
  "get_user example_accounts 9 = Some example_user" "us_id example_user = 9" "us_enabled example_user"
  "get_session example_accounts 60 = Some example_login" "ss_user_id example_login = 9" "db_reset_tokens example_accounts = []"
  "db_api_tokens example_accounts = []"
  by (simp_all add: example_accounts_def example_user_def new_user_def example_login_def empty_db_def get_user_def get_session_def)

text \<open>The administrator's password is reset; the old session is over, a new login works.\<close>

lemma ended_sessions_stay_ended_witness:
  "\<exists>p s. resolve_session rev (fst (create_session (reset_user_password example_accounts 5 9 ''other'') 5 12 61 9 None)) 5
       (Some (session_sign rev 61)) = Inr p \<and> pc_session p = Some s \<and> ss_id s \<noteq> 60"
proof -
  let ?d = "reset_user_password example_accounts 5 9 ''other''"
  let ?d' = "fst (create_session ?d 5 12 61 9 None)"
  define w where "w = \<lparr>aw_db = example_accounts, aw_now = 5, aw_completed = []\<rparr>"
  have ends: "ends_sessions_of example_env (aw_db w) (aw_now w) example_user ?d"
    by (auto simp: ends_sessions_of_def w_def example_accounts_fields)
  have user: "db_users ?d = [example_user\<lparr>us_password_hash := Some ''other''\<rparr>]"
    by (simp add: reset_user_password_def account_tables example_accounts_def empty_db_def example_user_def new_user_def)
  have "handle example_env ?d 5 (Login ''admin'' ''other'' 61 None) = Inr ?d'"
    by (simp add: handle_login_def example_env_def authenticate_def user verify_or_dummy_def and_then_def)
      (simp add: example_user_def new_user_def)
  moreover have "fresh_ids ?d (Login ''admin'' ''other'' 61 None)"
    by (simp add: get_session_def reset_user_password_def account_tables example_accounts_def empty_db_def example_login_def)
  ultimately have "account_step example_env (w\<lparr>aw_db := ?d\<rparr>) (w\<lparr>aw_db := ?d'\<rparr>)"
    using account_step.request [of "w\<lparr>aw_db := ?d\<rparr>" "Login ''admin'' ''other'' 61 None" example_env ?d']
    by (simp add: w_def completed_reset_def)
  then have steps: "(account_step example_env)\<^sup>*\<^sup>* (w\<lparr>aw_db := ?d\<rparr>) (w\<lparr>aw_db := ?d'\<rparr>)" by blast
  have "get_session ?d' 61 = Some \<lparr>ss_id = 61, ss_user_id = 9, ss_created_at = 5, ss_last_seen_at = 5,
      ss_expires_at = 5 + hours 12, ss_revoked_at = None, ss_client_info = None\<rparr>"
    by (simp add: get_session_def create_session_def Let_def reset_user_password_def account_tables example_accounts_def
        empty_db_def example_login_def)
  moreover have "\<exists>u. get_user ?d' 9 = Some u \<and> us_enabled u"
    by (simp add: get_user_def create_session_def Let_def reset_user_password_def account_tables example_accounts_def
        empty_db_def example_user_def new_user_def)
  moreover have "session_sign rev 61 \<noteq> []" by (simp add: session_sign_def Let_def)
  ultimately obtain p where p: "resolve_session rev ?d' 5 (Some (session_sign rev 61)) = Inr p"
    using session_verify_sign [of 61 rev] by (auto simp: resolve_session_def hours_def)
  have "\<exists>s. pc_session p = Some s \<and> ss_id s \<noteq> 60"
    by (rule ended_sessions_stay_ended [OF ends steps, of 60 example_login])
      (use p in \<open>simp_all add: w_def example_accounts_fields example_env_def\<close>)
  with p show ?thesis by blast
qed

lemma api_token_bounded_witness:
  "\<exists>d t plaintext d' p. api_token_create id example_accounts 0 80 [] 9 ''cli'' [''event.view''] [''event.view''] None = Inr (d, t, plaintext)
     \<and> resolve_api_token id d 5 plaintext = Inr (d', p) \<and> ac_user_id (pc_context p) = 9
     \<and> set (ac_permissions (pc_context p)) \<subseteq> {''event.view''}"
proof -
  define t where "t = \<lparr>at_id = 80, at_user_id = 9, at_name = ''cli'', at_token_hash = ''znr_pat_'',
    at_permission_scope = [(''permissions'', PList [PStr ''event.view''])], at_created_at = 0, at_expires_at = None,
    at_last_used_at = None, at_revoked_at = None\<rparr>"
  define w where "w = \<lparr>aw_db = add_api_token t example_accounts, aw_now = 5, aw_completed = []\<rparr>"
  have create: "api_token_create (ev_sha example_env) example_accounts 0 80 [] 9 ''cli'' [''event.view''] [''event.view''] None
      = Inr (aw_db w, t, ''znr_pat_'')"
    by (simp add: api_token_create_def Let_def api_token_expiry_def and_then_def example_accounts_fields t_def w_def example_env_def
        token_prefix_def py_strip_def is_space_def code_of_def)
  have tokens: "db_api_tokens (aw_db w) = [t]" by (simp add: w_def add_api_token_def example_accounts_fields)
  have "get_user (alter_api_token k f (aw_db w)) 9 = Some example_user" for k f
    using example_accounts_fields(1) by (simp add: get_user_def alter_api_token_def w_def add_api_token_def)
  then obtain d' p where p: "resolve_api_token (ev_sha example_env) (aw_db w) (aw_now w) ''znr_pat_'' = Inr (d', p)"
    by (simp add: resolve_api_token_def api_token_resolve_def Let_def tokens and_then_def example_env_def
        token_prefix_def py_strip_def is_space_def code_of_def) (auto simp: t_def api_token_live_def example_accounts_fields)
  have "distinct (map at_id (db_api_tokens (aw_db w)))" by (simp add: tokens)
  from api_token_bounded [OF create this rtranclp.rtrancl_refl p] create p show ?thesis
    by (fastforce simp: example_env_def w_def)
qed

lemma reset_token_single_use_witness:
  "\<exists>w :: account_world. aw_completed w = [(70, 5)] \<and> distinct (map fst (aw_completed w))"
proof -
  define r where "r = \<lparr>pt_id = 70, pt_user_id = 9, pt_token_hash = ''t'', pt_requested_at = 0, pt_expires_at = minutes 30,
    pt_used_at = None, pt_request_metadata = None, pt_created_by = None\<rparr>"
  define w where "w = \<lparr>aw_db = example_accounts\<lparr>db_reset_tokens := [r]\<rparr>, aw_now = 5, aw_completed = []\<rparr>"
  have "get_user (example_accounts\<lparr>db_reset_tokens := [r]\<rparr>) 9 = Some example_user"
    using example_accounts_fields(1) by (simp add: get_user_def)
  then obtain d where d: "consume_reset id (aw_db w) 5 ''t'' ''new'' = Inr (d, r)"
    by (simp add: consume_reset_def Let_def w_def r_def reset_open_def minutes_def py_strip_def is_space_def code_of_def
        example_accounts_fields)
  then have "account_step example_env w (w\<lparr>aw_db := d, aw_completed := [(70, 5)]\<rparr>)"
    using account_step.request [of w "CompleteReset ''t'' ''new''" example_env d]
    by (simp add: w_def example_env_def completed_reset_def r_def)
  then have steps: "(account_step example_env)\<^sup>*\<^sup>* w (w\<lparr>aw_db := d, aw_completed := [(70, 5)]\<rparr>)" by blast
  have "aw_completed w = []" "distinct (map pt_id (db_reset_tokens (aw_db w)))" by (simp_all add: w_def)
  from reset_token_single_use [OF steps this] show ?thesis
    by (intro exI [of _ "w\<lparr>aw_db := d, aw_completed := [(70, 5)]\<rparr>"]) simp
qed

lemma issued_reset_works_witness:
  "\<exists>d token d' r. issue_admin_reset (\<lambda>_ b. rev b) id ''key'' [] example_accounts 0 70 example_user 9 None
       = Inr (d, token, minutes 30)
     \<and> consume_reset id d 5 token ''new'' = Inr (d', r) \<and> (\<exists>x. get_user d' 9 = Some x \<and> us_password_hash x = Some ''new'')"
proof -
  define r0 where "r0 = \<lparr>pt_id = 70, pt_user_id = 9, pt_token_hash = ''pending'', pt_requested_at = 0, pt_expires_at = minutes 30,
    pt_used_at = None, pt_request_metadata = None, pt_created_by = Some 9\<rparr>"
  define token where "token = token_for_key (\<lambda>_ b. rev b) r0 ''key''"
  define r where "r = r0\<lparr>pt_token_hash := token\<rparr>"
  define w where "w = \<lparr>aw_db = add_reset r example_accounts, aw_now = 5, aw_completed = []\<rparr>"
  have same: "token_for_key (\<lambda>_ b. rev b) r ''key'' = token"
    by (simp add: r_def token_def token_for_key_def reset_payload_def reset_expires_seconds_def)
  have "create_reset (\<lambda>_ b. rev b) id ''key'' example_accounts 0 70 9 (Some 9) None = Inr (add_reset r example_accounts, r)"
    by (simp add: create_reset_def Let_def retire_resets_def example_accounts_fields reset_ttl_def r_def token_def r0_def add_reset_def)
  then have issue: "issue_admin_reset (ev_keyed_mac example_env) (ev_sha example_env) (ev_key example_env)
      (ev_previous example_env) example_accounts 0 70 example_user 9 None = Inr (aw_db w, token, minutes 30)"
    using same by (simp add: issue_admin_reset_def example_accounts_fields example_env_def and_then_def token_for_record_def w_def)
      (simp add: r_def r0_def)
  have rows: "db_reset_tokens (aw_db w) = [r]" by (simp add: w_def add_reset_def example_accounts_fields)
  have "get_reset (aw_db w) 70 = Some r" unfolding get_reset_def rows by (simp add: r_def r0_def)
  moreover have "pt_used_at r = None" "aw_now w < minutes 30" by (simp_all add: r_def r0_def w_def minutes_def)
  moreover have "get_user (aw_db w) (us_id example_user) = Some example_user"
    using example_accounts_fields(1,2) by (simp add: get_user_def w_def add_reset_def)
  ultimately have "\<exists>d'. consume_reset id (aw_db w) 5 token ''new'' = Inr (d', r)
      \<and> (\<exists>x. get_user d' (us_id example_user) = Some x \<and> us_password_hash x = Some ''new'')"
    using issued_reset_works [OF issue rtranclp.rtrancl_refl, of r example_user "''new''"] rows
    by (auto simp: example_env_def w_def example_accounts_fields)
  with issue show ?thesis by (auto simp: example_env_def example_accounts_fields)
qed

end
