(* ===== verification/Alerts.thy ===== *)
theory Alerts
  imports Uuid IsoTime SystemEvents Schedule Protection CameraScope
begin

text \<open>
  \<open>modules/alerts/service.py\<close>: alert policies with their normalised match and action documents, and
  the evaluation of an event: which policies raise an alert, the notifications and the recording
  protection an alert brings, and the resolution of the alerts of a health event.

  Ids of new rows are arguments; the zone data base is the parameter \<open>zones\<close> of \<open>Schedule\<close>.
\<close>

section \<open>The tables\<close>

definition get_policy :: "db \<Rightarrow> uuid \<Rightarrow> alert_policy option" where
  "get_policy d k = find (\<lambda>p. ap_id p = k) (db_alert_policies d)"

definition add_policy :: "alert_policy \<Rightarrow> db \<Rightarrow> db" where
  "add_policy p d = d\<lparr>db_alert_policies := db_alert_policies d @ [p]\<rparr>"

definition change_policy :: "uuid \<Rightarrow> (alert_policy \<Rightarrow> alert_policy) \<Rightarrow> db \<Rightarrow> db" where
  "change_policy k f d = d\<lparr>db_alert_policies := map (\<lambda>p. if ap_id p = k then f p else p) (db_alert_policies d)\<rparr>"

interpretation alert_policies: keyed_table db_alert_policies ap_id get_policy add_policy change_policy
  by unfold_locales (simp_all add: get_policy_def add_policy_def change_policy_def)

definition get_alert :: "db \<Rightarrow> uuid \<Rightarrow> alert option" where
  "get_alert d k = find (\<lambda>a. al_id a = k) (db_alerts d)"

definition add_alert :: "alert \<Rightarrow> db \<Rightarrow> db" where
  "add_alert a d = d\<lparr>db_alerts := db_alerts d @ [a]\<rparr>"

definition change_alert :: "uuid \<Rightarrow> (alert \<Rightarrow> alert) \<Rightarrow> db \<Rightarrow> db" where
  "change_alert k f d = d\<lparr>db_alerts := map (\<lambda>a. if al_id a = k then f a else a) (db_alerts d)\<rparr>"

interpretation alerts: keyed_table db_alerts al_id get_alert add_alert change_alert
  by unfold_locales (simp_all add: get_alert_def add_alert_def change_alert_def)

definition get_notification_target :: "db \<Rightarrow> uuid \<Rightarrow> notification_target option" where
  "get_notification_target d k = find (\<lambda>t. nt_id t = k) (db_notification_targets d)"

definition add_delivery :: "delivery \<Rightarrow> db \<Rightarrow> db" where
  "add_delivery x d = d\<lparr>db_deliveries := db_deliveries d @ [x]\<rparr>"

section \<open>Policies\<close>

subsection \<open>Lists in a document\<close>

definition match_invalid :: error where
  "match_invalid = ApiError 400 ''alert_policy_match_invalid''"

text \<open>\<open>if item not in result: result.append(item)\<close>.\<close>

definition firsts :: "'a list \<Rightarrow> 'a list" where
  "firsts xs = foldl (\<lambda>result x. if x \<in> set result then result else result @ [x]) [] xs"

text \<open>
  \<open>uuid.UUID(str(raw))\<close>. The texts of \<open>None\<close>, of booleans and of lists, and the decimal texts of
  floats and objects are no ids: they have the wrong length or characters that are no hexadecimal digits.
\<close>

fun uuid_of_item :: "pyobj \<Rightarrow> uuid result" where
  "uuid_of_item (PStr s) = parse_uuid s"
| "uuid_of_item (PInt i) = parse_uuid (int_str i)"
| "uuid_of_item _ = Inl ValueError"

definition uuid_list :: "pyobj option \<Rightarrow> uuid list result" where
  "uuid_list value =
     (case value of
        None \<Rightarrow> Inr []
      | Some PNone \<Rightarrow> Inr []
      | Some (PList raw) \<Rightarrow>
          if length raw > 256 then Inl match_invalid
          else (case map_result uuid_of_item raw of
              Inl _ \<Rightarrow> Inl match_invalid
            | Inr ids \<Rightarrow> Inr (firsts ids))
      | _ \<Rightarrow> Inl match_invalid)"

definition string_list :: "nat \<Rightarrow> pyobj option \<Rightarrow> string list result" where
  "string_list max_length value =
     (case value of
        None \<Rightarrow> Inr []
      | Some PNone \<Rightarrow> Inr []
      | Some (PList raw) \<Rightarrow>
          if length raw > 128 then Inl match_invalid
          else (case str_items raw of
              None \<Rightarrow> Inl match_invalid
            | Some items \<Rightarrow>
                if list_all (\<lambda>s. py_strip s \<noteq> [] \<and> length (py_strip s) \<le> max_length) items
                then Inr (firsts (map py_strip items))
                else Inl match_invalid)
      | _ \<Rightarrow> Inl match_invalid)"

subsection \<open>The match document\<close>

definition allowed_match_keys :: "string list" where
  "allowed_match_keys =
     [''camera_ids'', ''sources'', ''categories'', ''labels'', ''zones'', ''min_confidence'', ''min_duration_seconds'',
      ''severities'', ''weekdays'', ''time_start'', ''time_end'', ''timezone'']"

definition alert_severities :: "string list" where
  "alert_severities = [''info'', ''warning'', ''critical'']"

definition match_cameras :: "db \<Rightarrow> dict \<Rightarrow> dict \<Rightarrow> dict result" where
  "match_cameras d value doc =
     and_then (uuid_list (map_of value ''camera_ids'')) (\<lambda>ids.
     if ids = [] then Inr doc
     else if list_all (\<lambda>k. get_camera d k \<noteq> None) ids
     then Inr (dict_put ''camera_ids'' (PList (map (PStr \<circ> uuid_str) ids)) doc)
     else Inl (ApiError 400 ''alert_policy_camera_invalid''))"

definition match_text_keys :: "(string \<times> nat) list" where
  "match_text_keys = [(''sources'', 64), (''categories'', 64), (''labels'', 128), (''zones'', 128), (''severities'', 32)]"

fun match_texts :: "(string \<times> nat) list \<Rightarrow> dict \<Rightarrow> dict \<Rightarrow> dict result" where
  "match_texts [] value doc = Inr doc"
| "match_texts ((key, max_length) # keys) value doc =
     and_then (string_list max_length (map_of value key)) (\<lambda>items.
     match_texts keys value (if items = [] then doc else dict_put key (PList (map PStr items)) doc))"

definition match_severities :: "dict \<Rightarrow> dict result" where
  "match_severities doc =
     (case map_of doc ''severities'' of
        Some (PList items) \<Rightarrow>
          if list_ex (\<lambda>s. s \<notin> PStr ` set alert_severities) items then Inl match_invalid else Inr doc
      | _ \<Rightarrow> Inr doc)"

text \<open>A number that is not a boolean, between zero and a bound; it is stored as a float.\<close>

definition match_number :: "string \<Rightarrow> rat \<Rightarrow> dict \<Rightarrow> dict \<Rightarrow> dict result" where
  "match_number key upper value doc =
     (case map_of value key of
        None \<Rightarrow> Inr doc
      | Some PNone \<Rightarrow> Inr doc
      | Some (PInt i) \<Rightarrow>
          if 0 \<le> i \<and> of_int i \<le> upper then Inr (dict_put key (PFloat (of_int i)) doc) else Inl match_invalid
      | Some (PFloat x) \<Rightarrow>
          if 0 \<le> x \<and> x \<le> upper then Inr (dict_put key (PFloat x) doc) else Inl match_invalid
      | _ \<Rightarrow> Inl match_invalid)"

definition match_weekdays :: "dict \<Rightarrow> dict \<Rightarrow> dict result" where
  "match_weekdays value doc =
     (case map_of value ''weekdays'' of
        None \<Rightarrow> Inr doc
      | Some PNone \<Rightarrow> Inr doc
      | Some (PList raw) \<Rightarrow>
          (case int_days raw of
             None \<Rightarrow> Inl match_invalid
           | Some ds \<Rightarrow>
               if ds = [] \<or> list_ex (\<lambda>x. x < 0 \<or> 6 < x) ds then Inl match_invalid
               else Inr (dict_put ''weekdays'' (PList (map PInt (sort (remdups ds)))) doc))
      | _ \<Rightarrow> Inl match_invalid)"

text \<open>Whether one of the fields of the daily window is given and is not \<open>None\<close>.\<close>

definition has_time_filter :: "dict \<Rightarrow> bool" where
  "has_time_filter value =
     list_ex (\<lambda>k. map_of value k \<notin> {None, Some PNone}) [''time_start'', ''time_end'', ''timezone'']"

definition match_time :: "zones \<Rightarrow> dict \<Rightarrow> dict \<Rightarrow> dict result" where
  "match_time zones value doc =
     (if \<not> has_time_filter value then Inr doc
      else (case (map_of value ''time_start'', map_of value ''time_end'', map_of value ''timezone'') of
          (Some (PStr time_start), Some (PStr time_end), Some (PStr timezone)) \<Rightarrow>
            if \<not> time_shape time_start \<or> \<not> time_shape time_end \<or> time_start = time_end \<or> py_strip timezone = []
            then Inl match_invalid
            else (case zones (py_strip timezone) of
                Inl e \<Rightarrow> Inl (if e = ZoneInfoNotFoundError then match_invalid else e)
              | Inr _ \<Rightarrow>
                  Inr (dict_put ''timezone'' (PStr (py_strip timezone))
                        (dict_put ''time_end'' (PStr time_end) (dict_put ''time_start'' (PStr time_start) doc))))
        | _ \<Rightarrow> Inl match_invalid))"

definition normalize_match :: "zones \<Rightarrow> db \<Rightarrow> dict \<Rightarrow> dict result" where
  "normalize_match zones d value =
     (if list_ex (\<lambda>k. k \<notin> set allowed_match_keys) (map fst value) then Inl match_invalid
      else and_then (match_cameras d value []) (\<lambda>n1.
           and_then (match_texts match_text_keys value n1) (\<lambda>n2.
           and_then (match_severities n2) (\<lambda>n3.
           and_then (match_number ''min_confidence'' 1 value n3) (\<lambda>n4.
           and_then (match_number ''min_duration_seconds'' 86400 value n4) (\<lambda>n5.
           and_then (match_weekdays value n5) (\<lambda>n6.
           match_time zones value n6)))))))"

subsection \<open>The action document\<close>

definition action_invalid :: error where
  "action_invalid = ApiError 400 ''alert_policy_action_invalid''"

definition allowed_action_keys :: "string list" where
  "allowed_action_keys =
     [''notification_target_ids'', ''protect_recording'', ''protect_before_seconds'', ''protect_after_seconds'',
      ''protect_expires_days'']"

definition action_targets :: "db \<Rightarrow> dict \<Rightarrow> dict \<Rightarrow> dict result" where
  "action_targets d value doc =
     and_then (uuid_list (map_of value ''notification_target_ids'')) (\<lambda>ids.
     if ids = [] then Inr doc
     else if list_all (\<lambda>k. get_notification_target d k \<noteq> None) ids
     then Inr (dict_put ''notification_target_ids'' (PList (map (PStr \<circ> uuid_str) ids)) doc)
     else Inl (ApiError 400 ''alert_policy_notification_target_invalid''))"

definition protect_timing_keys :: "(string \<times> int) list" where
  "protect_timing_keys = [(''protect_before_seconds'', 3600), (''protect_after_seconds'', 86400), (''protect_expires_days'', 36500)]"

fun action_timing :: "(string \<times> int) list \<Rightarrow> dict \<Rightarrow> dict \<Rightarrow> dict result" where
  "action_timing [] value doc = Inr doc"
| "action_timing ((key, maximum) # keys) value doc =
     (case map_of value key of
        None \<Rightarrow> action_timing keys value doc
      | Some (PInt raw) \<Rightarrow>
          if raw < 0 \<or> maximum < raw then Inl action_invalid
          else action_timing keys value (if raw = 0 then doc else dict_put key (PInt raw) doc)
      | _ \<Rightarrow> Inl action_invalid)"

definition normalize_actions :: "db \<Rightarrow> dict \<Rightarrow> dict result" where
  "normalize_actions d value =
     (if list_ex (\<lambda>k. k \<notin> set allowed_action_keys) (map fst value) then Inl action_invalid
      else and_then (action_targets d value []) (\<lambda>n1.
        let protect = truthy (case map_of value ''protect_recording'' of None \<Rightarrow> PBool False | Some v \<Rightarrow> v)
        in and_then (action_timing protect_timing_keys value (dict_put ''protect_recording'' (PBool protect) n1)) (\<lambda>n2.
           if \<not> protect \<and> list_ex (\<lambda>(k, _). map_of n2 k \<noteq> None) protect_timing_keys then Inl action_invalid
           else Inr n2)))"

subsection \<open>Administration\<close>

definition list_policies :: "db \<Rightarrow> alert_policy list" where
  "list_policies d = sort_key (\<lambda>p. (ap_name p, ap_id p)) (db_alert_policies d)"

definition policy_name_free :: "db \<Rightarrow> string \<Rightarrow> uuid option \<Rightarrow> unit result" where
  "policy_name_free d name own =
     require (\<not> list_ex (\<lambda>p. ap_name p = name \<and> Some (ap_id p) \<noteq> own) (db_alert_policies d))
       (ApiError 409 ''alert_policy_name_conflict'')"

definition policy_severity :: "string \<Rightarrow> string result" where
  "policy_severity severity =
     (let normalized = py_lower (py_strip severity)
      in if normalized \<in> set alert_severities then Inr normalized else Inl (ApiError 400 ''alert_policy_severity_invalid''))"

definition policy_cooldown :: "int \<Rightarrow> int result" where
  "policy_cooldown n = (if n < 0 \<or> 604800 < n then Inl (ApiError 400 ''alert_policy_cooldown_invalid'') else Inr n)"

definition policy_create ::
    "zones \<Rightarrow> db \<Rightarrow> uuid \<Rightarrow> string \<Rightarrow> bool \<Rightarrow> string \<Rightarrow> dict \<Rightarrow> dict \<Rightarrow> int \<Rightarrow> (db \<times> alert_policy) result" where
  "policy_create zones d k name enabled severity match_doc actions cooldown_seconds =
     and_then (require (py_strip name \<noteq> []) (ApiError 400 ''alert_policy_name_invalid'')) (\<lambda>_.
     and_then (policy_name_free d (py_strip name) None) (\<lambda>_.
     and_then (policy_severity severity) (\<lambda>normalized_severity.
     and_then (policy_cooldown cooldown_seconds) (\<lambda>cooldown.
     and_then (normalize_match zones d match_doc) (\<lambda>m.
     and_then (normalize_actions d actions) (\<lambda>a.
     let p = \<lparr>ap_id = k, ap_name = py_strip name, ap_enabled = enabled, ap_severity = normalized_severity,
              ap_match_json = m, ap_action_json = a, ap_cooldown_seconds = cooldown\<rparr>
     in Inr (add_policy p d, p)))))))"

text \<open>The fields a PATCH names; the inner option is \<open>None\<close> for an explicit null.\<close>

record policy_patch =
  pp_name :: "string option option"
  pp_enabled :: "bool option option"
  pp_severity :: "string option option"
  pp_match :: "dict option option"
  pp_actions :: "dict option option"
  pp_cooldown_seconds :: "int option option"

text \<open>One field of the PATCH: absent it leaves the policy as it is.\<close>

definition patched :: "'v option \<Rightarrow> ('v \<Rightarrow> alert_policy result) \<Rightarrow> alert_policy \<Rightarrow> alert_policy result" where
  "patched field change p = (case field of None \<Rightarrow> Inr p | Some v \<Rightarrow> change v)"

definition or_invalid :: "string \<Rightarrow> 'v option \<Rightarrow> 'v result" where
  "or_invalid code v = (case v of None \<Rightarrow> Inl (ApiError 400 code) | Some x \<Rightarrow> Inr x)"

definition policy_update :: "zones \<Rightarrow> db \<Rightarrow> alert_policy \<Rightarrow> policy_patch \<Rightarrow> (db \<times> alert_policy) result" where
  "policy_update zones d p0 changes =
     and_then (patched (pp_name changes) (\<lambda>v.
         and_then (or_invalid ''alert_policy_name_invalid'' v) (\<lambda>name.
         and_then (require (py_strip name \<noteq> []) (ApiError 400 ''alert_policy_name_invalid'')) (\<lambda>_.
         and_then (policy_name_free d (py_strip name) (Some (ap_id p0))) (\<lambda>_.
         Inr (p0\<lparr>ap_name := py_strip name\<rparr>))))) p0) (\<lambda>p1.
     and_then (patched (pp_enabled changes) (\<lambda>v. Inr (p1\<lparr>ap_enabled := (v = Some True)\<rparr>)) p1) (\<lambda>p2.
     and_then (patched (pp_severity changes) (\<lambda>v.
         and_then (or_invalid ''alert_policy_severity_invalid'' v) (\<lambda>severity.
         and_then (policy_severity severity) (\<lambda>s. Inr (p2\<lparr>ap_severity := s\<rparr>)))) p2) (\<lambda>p3.
     and_then (patched (pp_match changes) (\<lambda>v.
         and_then (or_invalid ''alert_policy_match_invalid'' v) (\<lambda>raw.
         and_then (normalize_match zones d raw) (\<lambda>m. Inr (p3\<lparr>ap_match_json := m\<rparr>)))) p3) (\<lambda>p4.
     and_then (patched (pp_actions changes) (\<lambda>v.
         and_then (or_invalid ''alert_policy_action_invalid'' v) (\<lambda>raw.
         and_then (normalize_actions d raw) (\<lambda>a. Inr (p4\<lparr>ap_action_json := a\<rparr>)))) p4) (\<lambda>p5.
     and_then (patched (pp_cooldown_seconds changes) (\<lambda>v.
         and_then (or_invalid ''alert_policy_cooldown_invalid'' v) (\<lambda>raw.
         and_then (policy_cooldown raw) (\<lambda>n. Inr (p5\<lparr>ap_cooldown_seconds := n\<rparr>)))) p5) (\<lambda>p6.
     Inr (change_policy (ap_id p0) (\<lambda>_. p6) d, p6)))))))"

text \<open>The row goes; the foreign key of its alerts is set to null.\<close>

definition policy_delete :: "db \<Rightarrow> alert_policy \<Rightarrow> db" where
  "policy_delete d p =
     d\<lparr>db_alert_policies := filter (\<lambda>q. ap_id q \<noteq> ap_id p) (db_alert_policies d),
       db_alerts := map (\<lambda>a. if al_policy_id a = Some (ap_id p) then a\<lparr>al_policy_id := None\<rparr> else a) (db_alerts d)\<rparr>"

section \<open>Evaluation of an event\<close>

subsection \<open>Matching\<close>

text \<open>What \<open>isinstance(value, (int, float))\<close> lets through, as a number; booleans are integers.\<close>

fun number_of :: "pyobj \<Rightarrow> rat option" where
  "number_of (PBool b) = Some (if b then 1 else 0)"
| "number_of (PInt i) = Some (of_int i)"
| "number_of (PFloat x) = Some x"
| "number_of _ = None"

definition on_weekday :: "dict \<Rightarrow> int \<Rightarrow> bool" where
  "on_weekday m day =
     (case map_of m ''weekdays'' of
        Some (PList ds) \<Rightarrow> list_ex (\<lambda>x. number_of x = Some (of_int day)) ds
      | _ \<Rightarrow> True)"

definition within_hours :: "int \<Rightarrow> int \<Rightarrow> int \<Rightarrow> bool" where
  "within_hours start end_at current =
     (if start < end_at then start \<le> current \<and> current < end_at else start \<le> current \<or> current < end_at)"

definition time_match :: "zones \<Rightarrow> dict \<Rightarrow> event_row \<Rightarrow> bool result" where
  "time_match zones m e =
     (case map_of m ''timezone'' of
        Some (PStr timezone) \<Rightarrow>
          and_then (zones timezone) (\<lambda>z.
          let local = fst (zi_from_utc z (ev_started_at e))
          in if \<not> on_weekday m (day_weekday (wall_day local)) then Inr False
             else (case (map_of m ''time_start'', map_of m ''time_end'') of
                 (Some (PStr start_raw), Some (PStr end_raw)) \<Rightarrow>
                   and_then (time_fromisoformat start_raw) (\<lambda>start.
                   and_then (time_fromisoformat end_raw) (\<lambda>end_at.
                   Inr (within_hours start end_at (wall_time local))))
               | _ \<Rightarrow> Inr True))
      | _ \<Rightarrow> Inr True)"

fun optional_text :: "string option \<Rightarrow> pyobj" where
  "optional_text None = PNone"
| "optional_text (Some s) = PStr s"

definition camera_listed :: "dict \<Rightarrow> event_row \<Rightarrow> bool" where
  "camera_listed m e =
     (case map_of m ''camera_ids'' of
        Some (PList allowed) \<Rightarrow> (case ev_camera_id e of None \<Rightarrow> False | Some c \<Rightarrow> PStr (uuid_str c) \<in> set allowed)
      | _ \<Rightarrow> True)"

definition listed :: "dict \<Rightarrow> string \<Rightarrow> pyobj \<Rightarrow> bool" where
  "listed m key v = (case map_of m key of Some (PList allowed) \<Rightarrow> v \<in> set allowed | _ \<Rightarrow> True)"

definition fields_listed :: "dict \<Rightarrow> event_row \<Rightarrow> bool" where
  "fields_listed m e =
     list_all (\<lambda>(key, v). listed m key v)
       [(''sources'', PStr (ev_source e)), (''categories'', PStr (ev_category e)), (''labels'', optional_text (ev_label e)),
        (''zones'', optional_text (ev_zone e)), (''severities'', optional_text (ev_severity e))]"

definition confident_enough :: "dict \<Rightarrow> event_row \<Rightarrow> bool" where
  "confident_enough m e =
     (case Option.bind (map_of m ''min_confidence'') number_of of
        None \<Rightarrow> True
      | Some lowest \<Rightarrow> (case ev_confidence e of None \<Rightarrow> False | Some c \<Rightarrow> lowest \<le> c))"

definition long_enough :: "dict \<Rightarrow> event_row \<Rightarrow> bool" where
  "long_enough m e =
     (case Option.bind (map_of m ''min_duration_seconds'') number_of of
        None \<Rightarrow> True
      | Some lowest \<Rightarrow>
          (case ev_ended_at e of None \<Rightarrow> False | Some t \<Rightarrow> lowest \<le> of_int (t - ev_started_at e) / 1000000))"

definition matches :: "zones \<Rightarrow> alert_policy \<Rightarrow> event_row \<Rightarrow> bool result" where
  "matches zones p e =
     (let m = ap_match_json p
      in if \<not> ap_enabled p then Inr False
         else if camera_listed m e \<and> fields_listed m e \<and> confident_enough m e \<and> long_enough m e
         then time_match zones m e
         else Inr False)"

subsection \<open>Raising an alert\<close>

definition has_alert :: "db \<Rightarrow> alert_policy \<Rightarrow> event_row \<Rightarrow> bool" where
  "has_alert d p e = list_ex (\<lambda>a. al_policy_id a = Some (ap_id p) \<and> al_event_id a = ev_id e) (db_alerts d)"

definition cooldown_blocked :: "db \<Rightarrow> alert_policy \<Rightarrow> event_row \<Rightarrow> bool" where
  "cooldown_blocked d p e =
     (0 < ap_cooldown_seconds p
      \<and> list_ex (\<lambda>a. al_policy_id a = Some (ap_id p) \<and> al_camera_id a = ev_camera_id e
            \<and> (case get_event d (al_event_id a) of
                 None \<Rightarrow> False
               | Some f \<Rightarrow> ev_started_at e - seconds (ap_cooldown_seconds p) \<le> ev_started_at f
                           \<and> ev_started_at f < ev_started_at e)) (db_alerts d))"

definition filled :: "string option \<Rightarrow> bool" where
  "filled s \<longleftrightarrow> s \<noteq> None \<and> s \<noteq> Some []"

definition alert_title :: "event_row \<Rightarrow> string" where
  "alert_title e =
     (let subject = if filled (ev_label e) then the (ev_label e)
                    else if ev_category e \<noteq> [] then ev_category e else ''event''
      in take 256 (subject @ '' detected''))"

text \<open>\<open>f"{x:.3f}"\<close>.\<close>

definition format3 :: "rat \<Rightarrow> string" where
  "format3 x =
     (let n = (case quotient_of \<bar>x\<bar> of (a, b) \<Rightarrow> round_div (a * 1000) b)
      in (if x < 0 then ''-'' else []) @ nat_str (nat (n div 1000)) @ ''.'' @ padded 3 (n mod 1000))"

text \<open>\<open>"\n".join(parts)\<close>.\<close>

fun join_lines :: "string list \<Rightarrow> string" where
  "join_lines [] = []"
| "join_lines [x] = x"
| "join_lines (x # y # zs) = x @ CHR 0x0A # join_lines (y # zs)"

definition alert_body :: "event_row \<Rightarrow> string" where
  "alert_body e =
     join_lines
       ([''source='' @ ev_source e, ''category='' @ ev_category e]
        @ (if filled (ev_label e) then [''label='' @ the (ev_label e)] else [])
        @ (if filled (ev_zone e) then [''zone='' @ the (ev_zone e)] else [])
        @ (case ev_confidence e of None \<Rightarrow> [] | Some c \<Rightarrow> [''confidence='' @ format3 c])
        @ [''started_at='' @ utc_isoformat (ev_started_at e)])"

definition alert_of :: "uuid \<Rightarrow> alert_policy \<Rightarrow> event_row \<Rightarrow> alert" where
  "alert_of k p e =
     \<lparr>al_id = k, al_policy_id = Some (ap_id p), al_event_id = ev_id e, al_camera_id = ev_camera_id e,
      al_severity = ap_severity p, al_title = alert_title e, al_message = Some (alert_body e), al_state = Open,
      al_acknowledged_at = None, al_acknowledged_by = None, al_resolved_at = None\<rparr>"

lemma alert_of_simps [simp]:
  "al_id (alert_of k p e) = k" "al_policy_id (alert_of k p e) = Some (ap_id p)" "al_event_id (alert_of k p e) = ev_id e"
  "al_camera_id (alert_of k p e) = ev_camera_id e" "al_state (alert_of k p e) = Open"
  by (simp_all add: alert_of_def)

definition alert_delivery :: "uuid \<Rightarrow> alert \<Rightarrow> uuid \<Rightarrow> delivery" where
  "alert_delivery k a target_id =
     \<lparr>nd_id = k, nd_alert_id = Some (al_id a), nd_purpose = ''alert'', nd_notification_target_id = target_id,
      nd_state = Pending, nd_attempt_count = 0, nd_title = al_title a,
      nd_body = (if filled (al_message a) then the (al_message a) else al_title a),
      nd_last_attempt_at = None, nd_sent_at = None, nd_last_error_code = None,
      nd_correlation_id = Some (uuid_str (al_id a))\<rparr>"

text \<open>One delivery per enabled target of the list; the ids of the deliveries are numbered.\<close>

fun queue_deliveries :: "(nat \<Rightarrow> uuid) \<Rightarrow> alert \<Rightarrow> nat \<Rightarrow> pyobj list \<Rightarrow> db \<Rightarrow> db \<times> uuid list" where
  "queue_deliveries ids a i [] d = (d, [])"
| "queue_deliveries ids a i (raw # raws) d =
     (case uuid_of_item raw of
        Inl _ \<Rightarrow> queue_deliveries ids a (i + 1) raws d
      | Inr k \<Rightarrow>
          (case get_notification_target d k of
             None \<Rightarrow> queue_deliveries ids a (i + 1) raws d
           | Some t \<Rightarrow>
               if \<not> nt_enabled t then queue_deliveries ids a (i + 1) raws d
               else (case queue_deliveries ids a (i + 1) raws (add_delivery (alert_delivery (ids i) a k) d) of
                   (d', ks) \<Rightarrow> (d', ids i # ks))))"

text \<open>The stored action documents hold integers under the timing keys, or nothing.\<close>

definition action_seconds :: "dict \<Rightarrow> string \<Rightarrow> int" where
  "action_seconds m key = (case map_of m key of Some (PInt n) \<Rightarrow> n | _ \<Rightarrow> 0)"

definition protects_recording :: "dict \<Rightarrow> bool" where
  "protects_recording m = truthy (case map_of m ''protect_recording'' of None \<Rightarrow> PBool False | Some v \<Rightarrow> v)"

definition alert_protection :: "uuid \<Rightarrow> instant \<Rightarrow> dict \<Rightarrow> event_row \<Rightarrow> uuid \<Rightarrow> alert \<Rightarrow> recording_protection" where
  "alert_protection k now m e camera_id a =
     (let start = ev_started_at e - seconds (action_seconds m ''protect_before_seconds'');
          last_instant = (case ev_ended_at e of None \<Rightarrow> ev_started_at e | Some t \<Rightarrow> t);
          end_at = last_instant + seconds (action_seconds m ''protect_after_seconds'');
          expires_days = action_seconds m ''protect_expires_days''
      in \<lparr>pr_id = k, pr_camera_id = camera_id, pr_started_at = start,
          pr_ended_at = (if end_at \<le> start then start + seconds 1 else end_at),
          pr_reason = ''alert:'' @ uuid_str (al_id a), pr_created_by = None,
          pr_expires_at = (if 0 < expires_days then Some (now + days expires_days) else None)\<rparr>)"

text \<open>Ids of the rows an evaluation inserts, by the policy that inserts them.\<close>

record alert_ids =
  ni_alert :: "uuid \<Rightarrow> uuid"
  ni_delivery :: "uuid \<Rightarrow> nat \<Rightarrow> uuid"
  ni_protection :: "uuid \<Rightarrow> uuid"

definition raise_alert :: "alert_ids \<Rightarrow> instant \<Rightarrow> alert_policy \<Rightarrow> event_row \<Rightarrow> db \<Rightarrow> db \<times> alert \<times> uuid list" where
  "raise_alert ids now p e d =
     (let a = alert_of (ni_alert ids (ap_id p)) p e;
          m = ap_action_json p;
          targets = (case map_of m ''notification_target_ids'' of Some (PList raws) \<Rightarrow> raws | _ \<Rightarrow> [])
      in (case queue_deliveries (ni_delivery ids (ap_id p)) a 0 targets (add_alert a d) of
            (d', ks) \<Rightarrow>
              ((case ev_camera_id e of
                  Some c \<Rightarrow>
                    if protects_recording m then add_protection (alert_protection (ni_protection ids (ap_id p)) now m e c a) d'
                    else d'
                | None \<Rightarrow> d'), a, ks)))"

definition raises :: "zones \<Rightarrow> db \<Rightarrow> alert_policy \<Rightarrow> event_row \<Rightarrow> bool result" where
  "raises zones d p e =
     and_then (matches zones p e) (\<lambda>m. Inr (m \<and> \<not> has_alert d p e \<and> \<not> cooldown_blocked d p e))"

fun evaluate_policies ::
    "zones \<Rightarrow> alert_ids \<Rightarrow> instant \<Rightarrow> event_row \<Rightarrow> alert_policy list \<Rightarrow> db \<Rightarrow> (db \<times> alert list \<times> uuid list) result" where
  "evaluate_policies zones ids now e [] d = Inr (d, [], [])"
| "evaluate_policies zones ids now e (p # ps) d =
     and_then (raises zones d p e) (\<lambda>r.
       if \<not> r then evaluate_policies zones ids now e ps d
       else (case raise_alert ids now p e d of
           (d1, a, ks) \<Rightarrow>
             and_then (evaluate_policies zones ids now e ps d1) (\<lambda>(d2, as, ks').
             Inr (d2, a # as, ks @ ks'))))"

definition in_maintenance :: "db \<Rightarrow> event_row \<Rightarrow> bool" where
  "in_maintenance d e =
     (case ev_camera_id e of
        None \<Rightarrow> False
      | Some c \<Rightarrow> (case get_camera d c of None \<Rightarrow> False | Some x \<Rightarrow> cam_maintenance x))"

definition evaluate_event ::
    "zones \<Rightarrow> alert_ids \<Rightarrow> db \<Rightarrow> instant \<Rightarrow> event_row \<Rightarrow> (db \<times> alert list \<times> uuid list) result" where
  "evaluate_event zones ids d now e =
     (if in_maintenance d e then Inr (d, [], [])
      else evaluate_policies zones ids now e (sort_key ap_id (filter ap_enabled (db_alert_policies d))) d)"

definition resolve_event_alerts ::
    "db \<Rightarrow> instant \<Rightarrow> event_row \<Rightarrow> py_datetime option \<Rightarrow> (db \<times> alert list) result" where
  "resolve_event_alerts d now e resolved_at =
     and_then (case resolved_at of
                 Some (Aware t) \<Rightarrow> Inr t
               | Some (Naive _) \<Rightarrow> Inl ValueError
               | None \<Rightarrow> Inr (case ev_ended_at e of Some t \<Rightarrow> t | None \<Rightarrow> now)) (\<lambda>instant.
     let which = (\<lambda>a. al_event_id a = ev_id e \<and> al_state a \<noteq> Resolved);
         close = (\<lambda>a. a\<lparr>al_state := Resolved, al_resolved_at := Some instant\<rparr>)
     in Inr (d\<lparr>db_alerts := map (\<lambda>a. if which a then close a else a) (db_alerts d)\<rparr>,
             map close (filter which (db_alerts d))))"

section \<open>What an evaluation does\<close>

text \<open>The target a raw entry of the action document reaches: known and enabled.\<close>

definition reached_target :: "db \<Rightarrow> pyobj \<Rightarrow> uuid option" where
  "reached_target d raw =
     (case uuid_of_item raw of
        Inl _ \<Rightarrow> None
      | Inr k \<Rightarrow> (case get_notification_target d k of None \<Rightarrow> None | Some t \<Rightarrow> if nt_enabled t then Some k else None))"

lemma reached_target_cong:
  assumes "db_notification_targets d = db_notification_targets d'"
  shows "reached_target d = reached_target d'"
proof -
  have "get_notification_target d = get_notification_target d'"
    using assms by (intro ext) (simp add: get_notification_target_def)
  then show ?thesis by (intro ext) (simp add: reached_target_def split: sum.splits)
qed

lemma queue_deliveries_new:
  "\<exists>new. queue_deliveries ids a i raws d = (d\<lparr>db_deliveries := db_deliveries d @ new\<rparr>, map nd_id new)
     \<and> map nd_notification_target_id new = List.map_filter (reached_target d) raws
     \<and> (\<forall>x \<in> set new. \<exists>k t. x = alert_delivery k a t)"
proof (induction raws arbitrary: i d)
  case Nil
  then show ?case by (simp add: List.map_filter_simps(2))
next
  case (Cons raw raws)
  show ?case
  proof (cases "reached_target d raw")
    case None
    then have "queue_deliveries ids a i (raw # raws) d = queue_deliveries ids a (i + 1) raws d"
      by (auto simp: reached_target_def split: sum.splits option.splits if_splits)
    with Cons.IH [of "i + 1" d] None show ?thesis by (simp add: List.map_filter_simps(1))
  next
    case (Some k)
    then obtain t where t: "uuid_of_item raw = Inr k" "get_notification_target d k = Some t" "nt_enabled t"
      by (auto simp: reached_target_def split: sum.splits option.splits if_splits)
    let ?x = "alert_delivery (ids i) a k"
    have r: "reached_target (add_delivery ?x d) = reached_target d"
      by (rule reached_target_cong) (simp add: add_delivery_def)
    obtain new where new: "queue_deliveries ids a (i + 1) raws (add_delivery ?x d)
        = ((add_delivery ?x d)\<lparr>db_deliveries := db_deliveries (add_delivery ?x d) @ new\<rparr>, map nd_id new)"
      "map nd_notification_target_id new = List.map_filter (reached_target d) raws"
      "\<forall>x \<in> set new. \<exists>k t. x = alert_delivery k a t" using Cons.IH [of "i + 1" "add_delivery ?x d"] unfolding r by blast
    from new t have "queue_deliveries ids a i (raw # raws) d
        = (d\<lparr>db_deliveries := db_deliveries d @ ?x # new\<rparr>, map nd_id (?x # new))"
      by (simp add: add_delivery_def alert_delivery_def)
    moreover have "map nd_notification_target_id (?x # new) = List.map_filter (reached_target d) (raw # raws)"
      using new(2) Some by (simp add: List.map_filter_simps(1) alert_delivery_def)
    moreover have "\<forall>x \<in> set (?x # new). \<exists>k t. x = alert_delivery k a t" using new(3) by auto
    ultimately show ?thesis by blast
  qed
qed

text \<open>The rows a policy inserts when it raises an alert.\<close>

definition protection_of_alert :: "alert_ids \<Rightarrow> instant \<Rightarrow> event_row \<Rightarrow> alert_policy \<Rightarrow> recording_protection list" where
  "protection_of_alert ids now e p =
     (case ev_camera_id e of
        None \<Rightarrow> []
      | Some c \<Rightarrow> if protects_recording (ap_action_json p)
                  then [alert_protection (ni_protection ids (ap_id p)) now (ap_action_json p) e c
                          (alert_of (ni_alert ids (ap_id p)) p e)]
                  else [])"

definition targets_of_policy :: "db \<Rightarrow> alert_policy \<Rightarrow> uuid list" where
  "targets_of_policy d p =
     (case map_of (ap_action_json p) ''notification_target_ids'' of
        Some (PList raws) \<Rightarrow> List.map_filter (reached_target d) raws
      | _ \<Rightarrow> [])"

text \<open>\<open>d'\<close> is \<open>d\<close> with alerts, deliveries and protections added, and nothing else changed.\<close>

definition alerted :: "db \<Rightarrow> alert list \<Rightarrow> delivery list \<Rightarrow> recording_protection list \<Rightarrow> db" where
  "alerted d as xs ps =
     d\<lparr>db_alerts := db_alerts d @ as, db_deliveries := db_deliveries d @ xs, db_protections := db_protections d @ ps\<rparr>"

lemma alerted_simps [simp]:
  "db_alerts (alerted d as xs ps) = db_alerts d @ as"
  "db_deliveries (alerted d as xs ps) = db_deliveries d @ xs"
  "db_protections (alerted d as xs ps) = db_protections d @ ps"
  "db_events (alerted d as xs ps) = db_events d"
  "db_alert_policies (alerted d as xs ps) = db_alert_policies d"
  "db_notification_targets (alerted d as xs ps) = db_notification_targets d"
  "alerted d [] [] [] = d"
  "alerted (alerted d as xs ps) as' xs' ps' = alerted d (as @ as') (xs @ xs') (ps @ ps')"
  by (simp_all add: alerted_def)

lemma raise_alert_new:
  obtains new where
    "raise_alert ids now p e d
      = (alerted d [alert_of (ni_alert ids (ap_id p)) p e] new (protection_of_alert ids now e p),
         alert_of (ni_alert ids (ap_id p)) p e, map nd_id new)"
    "map nd_notification_target_id new = targets_of_policy d p"
    "\<forall>x \<in> set new. \<exists>k t. x = alert_delivery k (alert_of (ni_alert ids (ap_id p)) p e) t"
proof -
  let ?a = "alert_of (ni_alert ids (ap_id p)) p e"
  let ?m = "map_of (ap_action_json p) ''notification_target_ids''"
  let ?raws = "case ?m of Some (PList raws) \<Rightarrow> raws | _ \<Rightarrow> []"
  obtain new where new: "queue_deliveries (ni_delivery ids (ap_id p)) ?a 0 ?raws (add_alert ?a d)
        = ((add_alert ?a d)\<lparr>db_deliveries := db_deliveries (add_alert ?a d) @ new\<rparr>, map nd_id new)"
      "map nd_notification_target_id new = List.map_filter (reached_target (add_alert ?a d)) ?raws"
      "\<forall>x \<in> set new. \<exists>k t. x = alert_delivery k ?a t"
    using queue_deliveries_new [of "ni_delivery ids (ap_id p)" ?a 0 ?raws "add_alert ?a d"] by blast
  have "reached_target (add_alert ?a d) = reached_target d"
    by (rule reached_target_cong) (simp add: add_alert_def)
  with new(2) have "map nd_notification_target_id new = targets_of_policy d p"
    by (simp add: targets_of_policy_def List.map_filter_simps(2) split: option.splits pyobj.splits)
  moreover have "raise_alert ids now p e d = (alerted d [?a] new (protection_of_alert ids now e p), ?a, map nd_id new)"
    using new(1)
    by (cases "ev_camera_id e") (simp_all add: raise_alert_def Let_def alerted_def protection_of_alert_def
          add_alert_def add_protection_def)
  ultimately show thesis using new(3) that by blast
qed

text \<open>A policy does not see the alerts of another one.\<close>

lemma raises_other_alerts:
  assumes "\<forall>a \<in> set as. al_policy_id a \<noteq> Some (ap_id p)"
  shows "raises zones (alerted d as xs ps) p e = raises zones d p e"
proof -
  have "has_alert (alerted d as xs ps) p e = has_alert d p e"
    using assms by (auto simp: has_alert_def list_ex_iff)
  moreover have "get_event (alerted d as xs ps) k = get_event d k" for k by (simp add: get_event_def)
  then have "cooldown_blocked (alerted d as xs ps) p e = cooldown_blocked d p e"
    using assms by (auto simp: cooldown_blocked_def list_ex_iff split: option.splits)
  ultimately show ?thesis by (simp add: raises_def)
qed

lemma targets_alerted [simp]: "targets_of_policy (alerted d as xs ps) p = targets_of_policy d p"
  by (simp add: targets_of_policy_def reached_target_cong [of "alerted d as xs ps" d] split: option.splits pyobj.splits)

text \<open>The result of an evaluation under which exactly the policies \<open>raised\<close> raise an alert.\<close>

definition evaluation_of ::
    "alert_ids \<Rightarrow> instant \<Rightarrow> event_row \<Rightarrow> db \<Rightarrow> alert_policy list \<Rightarrow> db \<times> alert list \<times> uuid list \<Rightarrow> bool" where
  "evaluation_of ids now e d raised r \<longleftrightarrow>
     (\<exists>new. r = (alerted d (map (\<lambda>p. alert_of (ni_alert ids (ap_id p)) p e) raised) new
                    (concat (map (protection_of_alert ids now e) raised)),
                 map (\<lambda>p. alert_of (ni_alert ids (ap_id p)) p e) raised, map nd_id new)
        \<and> map (\<lambda>x. (nd_alert_id x, nd_notification_target_id x)) new
            = concat (map (\<lambda>p. map (Pair (Some (ni_alert ids (ap_id p)))) (targets_of_policy d p)) raised)
        \<and> (\<forall>x \<in> set new. nd_state x = Pending \<and> nd_purpose x = ''alert''))"

lemma evaluation_of_Nil: "evaluation_of ids now e d [] (d, [], [])"
  by (simp add: evaluation_of_def)

lemma evaluation_of_Cons:
  assumes "raise_alert ids now p e d = (d1, a, ks)" and "evaluation_of ids now e d1 raised (d2, as, ks')"
  shows "evaluation_of ids now e d (p # raised) (d2, a # as, ks @ ks')"
proof -
  let ?a = "alert_of (ni_alert ids (ap_id p)) p e"
  obtain x where x: "raise_alert ids now p e d = (alerted d [?a] x (protection_of_alert ids now e p), ?a, map nd_id x)"
    "map nd_notification_target_id x = targets_of_policy d p" "\<forall>y \<in> set x. \<exists>k t. y = alert_delivery k ?a t"
    by (rule raise_alert_new)
  have head: "map (\<lambda>x. (nd_alert_id x, nd_notification_target_id x)) x
      = map (Pair (Some (ni_alert ids (ap_id p)))) (targets_of_policy d p)"
    unfolding x(2) [symmetric] using x(3) by (auto simp: alert_delivery_def alert_of_def)
  have "\<forall>y \<in> set x. nd_state y = Pending \<and> nd_purpose y = ''alert''" using x(3) by (auto simp: alert_delivery_def)
  moreover obtain new where "d2 = alerted d1 as new (concat (map (protection_of_alert ids now e) raised))"
      "as = map (\<lambda>p. alert_of (ni_alert ids (ap_id p)) p e) raised" "ks' = map nd_id new"
      "map (\<lambda>x. (nd_alert_id x, nd_notification_target_id x)) new
         = concat (map (\<lambda>p. map (Pair (Some (ni_alert ids (ap_id p)))) (targets_of_policy d1 p)) raised)"
      "\<forall>x \<in> set new. nd_state x = Pending \<and> nd_purpose x = ''alert''"
    using assms(2) by (auto simp: evaluation_of_def)
  ultimately show ?thesis using assms(1) x(1) head
    by (auto simp: evaluation_of_def intro!: exI [of _ "x @ new"])
qed

lemma evaluate_policies_exact:
  assumes "evaluate_policies zones ids now e ps d = Inr r" and "distinct (map ap_id ps)"
  shows "evaluation_of ids now e d (filter (\<lambda>p. raises zones d p e = Inr True) ps) r
    \<and> (\<forall>p \<in> set ps. raises zones d p e \<noteq> Inr True \<longrightarrow> raises zones d p e = Inr False)"
  using assms
proof (induction ps arbitrary: d r)
  case Nil
  then show ?case using evaluation_of_Nil [of ids now e d] by auto
next
  case (Cons p ps)
  from Cons.prems(1) obtain b where b: "raises zones d p e = Inr b" by (auto simp: and_then_eq_Inr)
  show ?case
  proof (cases b)
    case False
    then show ?thesis using Cons b by simp
  next
    case True
    obtain d1 a ks where one: "raise_alert ids now p e d = (d1, a, ks)" by (cases "raise_alert ids now p e d")
    then obtain x where d1: "d1 = alerted d [alert_of (ni_alert ids (ap_id p)) p e] x (protection_of_alert ids now e p)"
      using raise_alert_new [of ids now p e d] by auto
    from Cons.prems(1) b True one obtain d2 as ks' where
      rest: "evaluate_policies zones ids now e ps d1 = Inr (d2, as, ks')" "r = (d2, a # as, ks @ ks')"
      by (auto simp: and_then_eq_Inr)
    have same: "raises zones d1 q e = raises zones d q e" if "q \<in> set ps" for q
      unfolding d1 using that Cons.prems(2) by (intro raises_other_alerts) (auto simp: alert_of_def)
    then have "filter (\<lambda>q. raises zones d1 q e = Inr True) ps = filter (\<lambda>q. raises zones d q e = Inr True) ps"
      by (intro filter_cong) simp_all
    then show ?thesis using Cons.IH [OF rest(1)] Cons.prems(2) same b True evaluation_of_Cons [OF one] rest(2) by simp
  qed
qed

lemma evaluate_event_exact:
  assumes "evaluate_event zones ids d now e = Inr r" and "distinct (map ap_id (db_alert_policies d))"
  shows "evaluation_of ids now e d
    (if in_maintenance d e then []
     else filter (\<lambda>p. raises zones d p e = Inr True) (sort_key ap_id (filter ap_enabled (db_alert_policies d)))) r"
proof -
  have "distinct (map ap_id (sort_key ap_id (filter ap_enabled (db_alert_policies d))))"
    using assms(2) by (simp add: distinct_map inj_on_def)
  then show ?thesis
    using assms(1) evaluate_policies_exact [of zones ids now e _ d r] evaluation_of_Nil [of ids now e d]
    by (auto simp: evaluate_event_def split: if_splits)
qed

text \<open>
  Which policies raise an alert, declaratively: enabled and matching, no alert of the policy for the
  event yet, and no alert of the policy for the same camera whose event started within the cooldown
  before this one.
\<close>

definition deserves_alert :: "zones \<Rightarrow> db \<Rightarrow> alert_policy \<Rightarrow> event_row \<Rightarrow> bool" where
  "deserves_alert zones d p e \<longleftrightarrow>
     matches zones p e = Inr True \<and> \<not> in_maintenance d e
     \<and> (\<forall>a \<in> set (db_alerts d). al_policy_id a = Some (ap_id p) \<longrightarrow> al_event_id a \<noteq> ev_id e)
     \<and> (\<forall>a \<in> set (db_alerts d). \<forall>f. al_policy_id a = Some (ap_id p) \<and> al_camera_id a = ev_camera_id e
            \<and> get_event d (al_event_id a) = Some f \<and> 0 < ap_cooldown_seconds p \<and> ev_started_at f < ev_started_at e
          \<longrightarrow> seconds (ap_cooldown_seconds p) < ev_started_at e - ev_started_at f)"

lemma cooldown_blocked_iff:
  "cooldown_blocked d p e \<longleftrightarrow>
     (\<exists>a \<in> set (db_alerts d). \<exists>f. al_policy_id a = Some (ap_id p) \<and> al_camera_id a = ev_camera_id e
        \<and> get_event d (al_event_id a) = Some f \<and> 0 < ap_cooldown_seconds p \<and> ev_started_at f < ev_started_at e
        \<and> \<not> seconds (ap_cooldown_seconds p) < ev_started_at e - ev_started_at f)"
  by (auto simp: cooldown_blocked_def list_ex_iff split: option.splits)

lemma raises_deserves: "\<not> in_maintenance d e \<Longrightarrow> raises zones d p e = Inr True \<longleftrightarrow> deserves_alert zones d p e"
  by (auto simp: raises_def and_then_eq_Inr deserves_alert_def cooldown_blocked_iff has_alert_def list_ex_iff)

lemma matches_enabled: "matches zones p e = Inr True \<Longrightarrow> ap_enabled p"
  by (simp add: matches_def Let_def split: if_splits)

section \<open>Stored documents are typed\<close>

lemma set_firsts [simp]: "set (firsts xs) = set xs"
proof -
  have "set (foldl (\<lambda>result x. if x \<in> set result then result else result @ [x]) acc xs) = set acc \<union> set xs" for acc
    by (induction xs arbitrary: acc) auto
  then show ?thesis by (simp add: firsts_def)
qed

lemma distinct_firsts [simp]: "distinct (firsts xs)"
proof -
  have "distinct acc \<Longrightarrow> distinct (foldl (\<lambda>result x. if x \<in> set result then result else result @ [x]) acc xs)" for acc
    by (induction xs arbitrary: acc) auto
  then show ?thesis by (simp add: firsts_def)
qed

lemma firsts_id: "distinct xs \<Longrightarrow> firsts xs = xs"
proof -
  have "distinct (acc @ xs) \<Longrightarrow> foldl (\<lambda>result x. if x \<in> set result then result else result @ [x]) acc xs = acc @ xs" for acc
    by (induction xs arbitrary: acc) auto
  then show "distinct xs \<Longrightarrow> ?thesis" by (simp add: firsts_def)
qed

text \<open>What the value under each key of a stored match document looks like.\<close>

definition match_field_ok :: "zones \<Rightarrow> string \<Rightarrow> pyobj \<Rightarrow> bool" where
  "match_field_ok zones k v \<longleftrightarrow>
     (if k = ''camera_ids'' then \<exists>ids. v = PList (map (PStr \<circ> uuid_str) ids) \<and> ids \<noteq> [] \<and> distinct ids
      else if k = ''min_confidence'' then \<exists>x. v = PFloat x \<and> 0 \<le> x \<and> x \<le> 1
      else if k = ''min_duration_seconds'' then \<exists>x. v = PFloat x \<and> 0 \<le> x \<and> x \<le> 86400
      else if k = ''weekdays'' then \<exists>ds. v = PList (map PInt ds) \<and> ds \<noteq> [] \<and> sorted ds \<and> distinct ds \<and> set ds \<subseteq> {0..6}
      else if k = ''time_start'' \<or> k = ''time_end'' then \<exists>s. v = PStr s \<and> time_shape s
      else if k = ''timezone'' then \<exists>s z. v = PStr s \<and> s \<noteq> [] \<and> py_strip s = s \<and> zones s = Inr z
      else \<exists>n xs. map_of match_text_keys k = Some n \<and> v = PList (map PStr xs) \<and> xs \<noteq> [] \<and> distinct xs
             \<and> (\<forall>s \<in> set xs. py_strip s = s \<and> s \<noteq> [] \<and> length s \<le> n))"

definition fields_ok :: "zones \<Rightarrow> dict \<Rightarrow> bool" where
  "fields_ok zones m \<longleftrightarrow> (\<forall>k v. map_of m k = Some v \<longrightarrow> match_field_ok zones k v)"

text \<open>Severities are known ones, and a daily window is complete or absent.\<close>

definition match_ok :: "zones \<Rightarrow> dict \<Rightarrow> bool" where
  "match_ok zones m \<longleftrightarrow> fields_ok zones m
     \<and> (\<forall>xs. map_of m ''severities'' = Some (PList (map PStr xs)) \<longrightarrow> set xs \<subseteq> set alert_severities)
     \<and> (map_of m ''timezone'' = None \<longleftrightarrow> map_of m ''time_start'' = None)
     \<and> (map_of m ''timezone'' = None \<longleftrightarrow> map_of m ''time_end'' = None)"

lemma fields_ok_put: "fields_ok zones m \<Longrightarrow> match_field_ok zones k v \<Longrightarrow> fields_ok zones (dict_put k v m)"
  by (simp add: fields_ok_def)

lemma uuid_list_distinct: "uuid_list v = Inr ids \<Longrightarrow> distinct ids"
  by (auto simp: uuid_list_def split: option.splits pyobj.splits if_splits sum.splits)

lemma string_list_items:
  assumes "string_list n v = Inr xs"
  shows "distinct xs \<and> (\<forall>s \<in> set xs. py_strip s = s \<and> s \<noteq> [] \<and> length s \<le> n)"
proof -
  have "xs = [] \<or> (\<exists>items. xs = firsts (map py_strip items) \<and> (\<forall>s \<in> set items. py_strip s \<noteq> [] \<and> length (py_strip s) \<le> n))"
    using assms by (auto simp: string_list_def list_all_iff split: option.splits pyobj.splits if_splits)
  then show ?thesis by force
qed

lemma match_cameras_ok:
  assumes "match_cameras d value m = Inr m'" and "fields_ok zones m"
  shows "fields_ok zones m' \<and> (\<forall>k. k \<noteq> ''camera_ids'' \<longrightarrow> map_of m' k = map_of m k)"
proof -
  obtain ids where ids: "uuid_list (map_of value ''camera_ids'') = Inr ids"
    "m' = m \<or> ids \<noteq> [] \<and> m' = dict_put ''camera_ids'' (PList (map (PStr \<circ> uuid_str) ids)) m"
    using assms(1) by (auto simp: match_cameras_def and_then_eq_Inr split: if_splits)
  have "match_field_ok zones ''camera_ids'' (PList (map (PStr \<circ> uuid_str) ids))" if "ids \<noteq> []"
    using uuid_list_distinct [OF ids(1)] that by (auto simp: match_field_ok_def)
  with ids(2) assms(2) show ?thesis by (auto intro: fields_ok_put)
qed

lemma match_number_ok:
  assumes "match_number key upper value m = Inr m'" and "fields_ok zones m"
    and "(key, upper) \<in> {(''min_confidence'', 1), (''min_duration_seconds'', 86400)}"
  shows "fields_ok zones m' \<and> (\<forall>k. k \<noteq> key \<longrightarrow> map_of m' k = map_of m k)"
  using assms
  by (auto simp: match_number_def match_field_ok_def split: option.splits pyobj.splits if_splits intro!: fields_ok_put)

lemma match_weekdays_ok:
  assumes "match_weekdays value m = Inr m'" and "fields_ok zones m"
  shows "fields_ok zones m' \<and> (\<forall>k. k \<noteq> ''weekdays'' \<longrightarrow> map_of m' k = map_of m k)"
proof -
  have "match_field_ok zones ''weekdays'' (PList (map PInt (sort (remdups ds))))"
    if "ds \<noteq> []" "\<not> list_ex (\<lambda>x. x < 0 \<or> 6 < x) ds" for ds
  proof -
    have "sort (remdups ds) \<noteq> []" using that(1) by (metis set_empty set_remdups set_sort)
    moreover have "set (sort (remdups ds)) \<subseteq> {0..6}" using that(2) by (force simp: list_ex_iff)
    ultimately show ?thesis
      by (auto simp: match_field_ok_def simp del: set_sort set_remdups intro!: exI [of _ "sort (remdups ds)"])
  qed
  then show ?thesis using assms
    by (auto simp: match_weekdays_def split: option.splits pyobj.splits if_splits intro!: fields_ok_put)
qed

lemma text_field_ok:
  assumes "(key, n) \<in> set match_text_keys" and "xs \<noteq> []" and "distinct xs"
    and "\<forall>s \<in> set xs. py_strip s = s \<and> s \<noteq> [] \<and> length s \<le> n"
  shows "match_field_ok zones key (PList (map PStr xs))"
proof -
  have "map_of match_text_keys key = Some n"
    using assms(1) by (intro map_of_is_SomeI) (simp_all add: match_text_keys_def)
  moreover have "\<forall>(k, n) \<in> set match_text_keys. k \<notin> {''camera_ids'', ''min_confidence'', ''min_duration_seconds'', ''weekdays'',
      ''time_start'', ''time_end'', ''timezone''}" by (simp add: match_text_keys_def)
  with assms(1) have "key \<notin> {''camera_ids'', ''min_confidence'', ''min_duration_seconds'', ''weekdays'',
      ''time_start'', ''time_end'', ''timezone''}" by blast
  ultimately show ?thesis using assms(2-4) by (simp add: match_field_ok_def) blast
qed

lemma match_texts_ok:
  assumes "match_texts keys value m = Inr m'" and "fields_ok zones m" and "set keys \<subseteq> set match_text_keys"
  shows "fields_ok zones m' \<and> (\<forall>k. k \<notin> fst ` set keys \<longrightarrow> map_of m' k = map_of m k)"
  using assms
proof (induction keys "value" m rule: match_texts.induct)
  case (2 key n keys val m)
  from 2(2) obtain items where items: "string_list n (map_of val key) = Inr items"
      "match_texts keys val (if items = [] then m else dict_put key (PList (map PStr items)) m) = Inr m'"
    by (auto simp: and_then_eq_Inr)
  have "match_field_ok zones key (PList (map PStr items))" if "items \<noteq> []"
    using string_list_items [OF items(1)] that 2(4) by (intro text_field_ok [of key n]) simp_all
  then have "fields_ok zones (if items = [] then m else dict_put key (PList (map PStr items)) m)"
    using 2(3) fields_ok_put by simp
  from 2(1) [OF items(2) this] 2(4) show ?case by simp
qed simp

lemma match_severities_ok:
  assumes "match_severities m = Inr m'"
  shows "m' = m \<and> (\<forall>xs. map_of m ''severities'' = Some (PList (map PStr xs)) \<longrightarrow> set xs \<subseteq> set alert_severities)"
  using assms by (auto simp: match_severities_def list_ex_iff split: option.splits pyobj.splits if_splits)

text \<open>What a list of the weekly window's fields promises once \<open>match_time\<close> has run.\<close>

lemma match_time_ok:
  assumes "match_time zones value m = Inr m'" and "fields_ok zones m"
    and "map_of m ''timezone'' = None" and "map_of m ''time_start'' = None" and "map_of m ''time_end'' = None"
  shows "fields_ok zones m' \<and> (map_of m' ''timezone'' = None \<longleftrightarrow> map_of m' ''time_start'' = None)
    \<and> (map_of m' ''timezone'' = None \<longleftrightarrow> map_of m' ''time_end'' = None) \<and> map_of m' ''severities'' = map_of m ''severities''"
proof (cases "has_time_filter value")
  case False
  then show ?thesis using assms by (simp add: match_time_def)
next
  case True
  with assms(1) obtain s t tz z where "time_shape s" "time_shape t" "py_strip tz \<noteq> []" "zones (py_strip tz) = Inr z"
    "m' = dict_put ''timezone'' (PStr (py_strip tz)) (dict_put ''time_end'' (PStr t) (dict_put ''time_start'' (PStr s) m))"
    by (auto simp: match_time_def split: option.splits pyobj.splits if_splits sum.splits)
  then show ?thesis using assms(2) by (auto simp: match_field_ok_def intro!: fields_ok_put)
qed

theorem normalize_match_ok:
  assumes "normalize_match zones d value = Inr m"
  shows "match_ok zones m"
proof -
  from assms obtain n1 n2 n3 n4 n5 n6 where n: "match_cameras d value [] = Inr n1" "match_texts match_text_keys value n1 = Inr n2"
    "match_severities n2 = Inr n3" "match_number ''min_confidence'' 1 value n3 = Inr n4"
    "match_number ''min_duration_seconds'' 86400 value n4 = Inr n5" "match_weekdays value n5 = Inr n6"
    "match_time zones value n6 = Inr m"
    by (auto simp: normalize_match_def and_then_eq_Inr split: if_splits)
  have s1: "fields_ok zones n1" "\<forall>k. k \<noteq> ''camera_ids'' \<longrightarrow> map_of n1 k = None"
    using match_cameras_ok [OF n(1), of zones] by (simp_all add: fields_ok_def)
  note s2 = match_texts_ok [OF n(2) s1(1)]
  note s3 = match_severities_ok [OF n(3)]
  have "fields_ok zones n3" using s2 s3 by simp
  note s4 = match_number_ok [OF n(4) this]
  note s5 = match_number_ok [OF n(5) s4 [THEN conjunct1]]
  note s6 = match_weekdays_ok [OF n(6) s5 [THEN conjunct1]]
  have absent: "map_of n6 k = None" if "k \<in> {''timezone'', ''time_start'', ''time_end''}" for k
  proof -
    have k: "k \<noteq> ''camera_ids''" "k \<noteq> ''min_confidence''" "k \<noteq> ''min_duration_seconds''" "k \<noteq> ''weekdays''"
      "k \<notin> fst ` set match_text_keys" using that by (auto simp: match_text_keys_def)
    have "map_of n6 k = map_of n3 k" using k(2-4) s4 s5 s6 by simp
    also have "\<dots> = map_of n1 k" using k(5) s2 s3 by simp
    also have "\<dots> = None" using k(1) s1(2) by simp
    finally show ?thesis .
  qed
  have sev: "map_of n6 ''severities'' = map_of n3 ''severities''" using s4 s5 s6 by simp
  have time: "fields_ok zones m \<and> (map_of m ''timezone'' = None \<longleftrightarrow> map_of m ''time_start'' = None)
      \<and> (map_of m ''timezone'' = None \<longleftrightarrow> map_of m ''time_end'' = None) \<and> map_of m ''severities'' = map_of n6 ''severities''"
    using absent by (intro match_time_ok [OF n(7) s6 [THEN conjunct1]]) simp_all
  have "\<forall>xs. map_of n3 ''severities'' = Some (PList (map PStr xs)) \<longrightarrow> set xs \<subseteq> set alert_severities" using s3 by simp
  with time sev show ?thesis unfolding match_ok_def by metis
qed

text \<open>A well formed document can be evaluated on every event.\<close>

lemma time_shape_value: "time_shape s \<Longrightarrow> \<exists>t. time_fromisoformat s = Inr t"
  by (induction s rule: time_shape.induct) auto

lemma time_match_total:
  assumes "match_ok zones m"
  shows "\<exists>b. time_match zones m e = Inr b"
proof (cases "map_of m ''timezone''")
  case None
  then show ?thesis by (simp add: time_match_def ex_bool_eq)
next
  case (Some v)
  with assms obtain u w where "map_of m ''time_start'' = Some u" "map_of m ''time_end'' = Some w"
    by (auto simp: match_ok_def)
  moreover have "match_field_ok zones ''timezone'' v" "match_field_ok zones ''time_start'' u" "match_field_ok zones ''time_end'' w"
    using Some calculation assms by (auto simp: match_ok_def fields_ok_def)
  moreover from this obtain tz z s t where "v = PStr tz" "zones tz = Inr z" "u = PStr s" "time_shape s" "w = PStr t" "time_shape t"
    by (auto simp: match_field_ok_def)
  moreover from this obtain a b where "time_fromisoformat s = Inr a" "time_fromisoformat t = Inr b"
    using time_shape_value by blast
  ultimately show ?thesis using Some by (simp add: time_match_def Let_def ex_bool_eq)
qed

lemma matches_total: "match_ok zones (ap_match_json p) \<Longrightarrow> \<exists>b. matches zones p e = Inr b"
  using time_match_total [of zones "ap_match_json p" e] by (auto simp: matches_def Let_def ex_bool_eq)

lemma evaluate_policies_total:
  assumes "\<forall>p \<in> set ps. match_ok zones (ap_match_json p)"
  shows "\<exists>r. evaluate_policies zones ids now e ps d = Inr r"
  using assms
proof (induction ps arbitrary: d)
  case (Cons p ps)
  obtain b where b: "raises zones d p e = Inr b" using matches_total [of zones p e] Cons.prems by (auto simp: raises_def)
  obtain d1 a ks where r: "raise_alert ids now p e d = (d1, a, ks)" by (cases "raise_alert ids now p e d")
  have rest: "\<exists>r. evaluate_policies zones ids now e ps c = Inr r" for c using Cons by simp
  obtain d2 as ks' where "evaluate_policies zones ids now e ps d1 = Inr (d2, as, ks')" using rest [of d1] by auto
  then show ?case using rest [of d] b r by (cases b) simp_all
qed simp

lemma evaluate_event_total:
  assumes "\<forall>p \<in> set (db_alert_policies d). match_ok zones (ap_match_json p)"
  shows "\<exists>r. evaluate_event zones ids d now e = Inr r"
  using evaluate_policies_total [of "sort_key ap_id (filter ap_enabled (db_alert_policies d))"] assms
  by (simp add: evaluate_event_def)

text \<open>Stored actions: known kinds of values, and timing only with protection.\<close>

definition action_ok :: "dict \<Rightarrow> bool" where
  "action_ok m \<longleftrightarrow>
     (\<forall>v. map_of m ''notification_target_ids'' = Some v \<longrightarrow>
        (\<exists>ids. v = PList (map (PStr \<circ> uuid_str) ids) \<and> ids \<noteq> [] \<and> distinct ids))
     \<and> (\<exists>b. map_of m ''protect_recording'' = Some (PBool b))
     \<and> (\<forall>(key, maximum) \<in> set protect_timing_keys. \<forall>v. map_of m key = Some v \<longrightarrow>
          map_of m ''protect_recording'' = Some (PBool True) \<and> (\<exists>n. v = PInt n \<and> 0 < n \<and> n \<le> maximum))"

lemma action_timing_values:
  assumes "action_timing keys value m = Inr m'" and "distinct (map fst keys)"
  shows "(\<forall>k. k \<notin> fst ` set keys \<longrightarrow> map_of m' k = map_of m k)
    \<and> (\<forall>(key, maximum) \<in> set keys. map_of m' key = map_of m key \<or> (\<exists>n. map_of m' key = Some (PInt n) \<and> 0 < n \<and> n \<le> maximum))"
  using assms
proof (induction keys "value" m rule: action_timing.induct)
  case (2 key maximum keys val m)
  show ?case
  proof (cases "map_of val key")
    case None
    then show ?thesis using 2 by (auto split: prod.splits)
  next
    case (Some v)
    with 2(3) obtain raw where raw: "v = PInt raw" "0 \<le> raw" "raw \<le> maximum"
      "action_timing keys val (if raw = 0 then m else dict_put key (PInt raw) m) = Inr m'"
      by (cases v) (auto split: if_splits)
    let ?m = "if raw = 0 then m else dict_put key (PInt raw) m"
    have d: "distinct (map fst keys)" "key \<notin> fst ` set keys" using 2(4) by simp_all
    have ih: "(\<forall>k. k \<notin> fst ` set keys \<longrightarrow> map_of m' k = map_of ?m k)
      \<and> (\<forall>(key, maximum) \<in> set keys. map_of m' key = map_of ?m key \<or> (\<exists>n. map_of m' key = Some (PInt n) \<and> 0 < n \<and> n \<le> maximum))"
      using 2(2) [OF Some raw(1) _ raw(4) d(1)] raw(2,3) by simp
    have "map_of m' key = map_of ?m key" using ih d(2) by blast
    moreover have "map_of ?m k = map_of m k" if "k \<noteq> key" for k using that by simp
    moreover have "k \<noteq> key" if "(k, n) \<in> set keys" for k n using that d(2) by (metis fst_conv image_eqI)
    ultimately show ?thesis using ih raw(2,3) by (auto split: if_splits)
  qed
qed simp

theorem normalize_actions_ok:
  assumes "normalize_actions d value = Inr m"
  shows "action_ok m"
proof -
  let ?b = "truthy (case map_of value ''protect_recording'' of None \<Rightarrow> PBool False | Some v \<Rightarrow> v)"
  obtain n1 where n: "action_targets d value [] = Inr n1"
    "action_timing protect_timing_keys value (dict_put ''protect_recording'' (PBool ?b) n1) = Inr m"
    "?b \<or> \<not> list_ex (\<lambda>(k, _). map_of m k \<noteq> None) protect_timing_keys"
    using assms by (auto simp: normalize_actions_def Let_def and_then_eq_Inr split: if_splits)
  obtain ids where ids: "distinct ids"
      "n1 = [] \<or> ids \<noteq> [] \<and> n1 = [(''notification_target_ids'', PList (map (PStr \<circ> uuid_str) ids))]"
    using n(1) uuid_list_distinct by (auto simp: action_targets_def and_then_eq_Inr split: if_splits)
  have "distinct (map fst protect_timing_keys)" by (simp add: protect_timing_keys_def)
  note t = action_timing_values [OF n(2) this]
  have other: "k \<notin> fst ` set protect_timing_keys" if "k \<in> {''protect_recording'', ''notification_target_ids''}" for k
    using that by (auto simp: protect_timing_keys_def)
  have p: "map_of m ''protect_recording'' = Some (PBool ?b)"
    using t other by simp
  have nt: "map_of m ''notification_target_ids'' = map_of n1 ''notification_target_ids''"
    using t other by simp
  have "map_of m ''protect_recording'' = Some (PBool True) \<and> (\<exists>n. v = PInt n \<and> 0 < n \<and> n \<le> maximum)"
    if "(key, maximum) \<in> set protect_timing_keys" "map_of m key = Some v" for key maximum v
  proof -
    have "map_of (dict_put ''protect_recording'' (PBool ?b) n1) key = None"
      using that(1) ids(2) by (auto simp: protect_timing_keys_def)
    then have "\<exists>n. v = PInt n \<and> 0 < n \<and> n \<le> maximum" using t that by fastforce
    moreover have "?b" using n(3) that by (force simp: list_ex_iff)
    ultimately show ?thesis using p by simp
  qed
  then show ?thesis using p nt ids by (auto simp: action_ok_def)
qed

section \<open>The policy table\<close>

definition policy_ok :: "zones \<Rightarrow> alert_policy \<Rightarrow> bool" where
  "policy_ok zones p \<longleftrightarrow> ap_name p \<noteq> [] \<and> py_strip (ap_name p) = ap_name p \<and> ap_severity p \<in> set alert_severities
     \<and> 0 \<le> ap_cooldown_seconds p \<and> ap_cooldown_seconds p \<le> 604800
     \<and> match_ok zones (ap_match_json p) \<and> action_ok (ap_action_json p)"

definition policies_ok :: "zones \<Rightarrow> db \<Rightarrow> bool" where
  "policies_ok zones d \<longleftrightarrow> distinct (map ap_id (db_alert_policies d)) \<and> distinct (map ap_name (db_alert_policies d))
     \<and> (\<forall>p \<in> set (db_alert_policies d). policy_ok zones p)"

lemma policies_ok_table: "db_alert_policies d' = db_alert_policies d \<Longrightarrow> policies_ok zones d' = policies_ok zones d"
  by (simp add: policies_ok_def)

lemma policy_name_free_iff: "policy_name_free d name own = Inr () \<longleftrightarrow>
    (\<forall>p \<in> set (db_alert_policies d). ap_name p = name \<longrightarrow> Some (ap_id p) = own)"
  by (auto simp: policy_name_free_def require_def list_ex_iff)

lemma policy_create_ok:
  assumes "policy_create zones d k name enabled severity m a cooldown = Inr (d', p)" and "policies_ok zones d"
    and "get_policy d k = None"
  shows "policies_ok zones d' \<and> p \<in> set (db_alert_policies d') \<and> d' = add_policy p d"
proof -
  from assms(1) have p: "d' = add_policy p d" "ap_id p = k" "policy_ok zones p" "policy_name_free d (ap_name p) None = Inr ()"
    by (auto simp: policy_create_def and_then_eq_Inr require_def policy_ok_def policy_severity_def policy_cooldown_def Let_def
        normalize_match_ok normalize_actions_ok split: if_splits)
  have "k \<notin> ap_id ` set (db_alert_policies d)" using assms(3) by (simp add: alert_policies.get_None_iff)
  moreover have "ap_name p \<notin> ap_name ` set (db_alert_policies d)" using p(4) by (auto simp: policy_name_free_iff)
  ultimately show ?thesis using assms(2) p by (simp add: policies_ok_def add_policy_def)
qed

lemma patched_cases:
  assumes "patched field change p = Inr q"
  obtains "field = None" "q = p" | v where "field = Some v" "change v = Inr q"
  using assms by (auto simp: patched_def split: option.splits)

lemma policy_update_row:
  assumes "policy_update zones d p changes = Inr (d', q)" and "policy_ok zones p"
    and "\<forall>r \<in> set (db_alert_policies d). ap_name r = ap_name p \<longrightarrow> ap_id r = ap_id p"
  shows "d' = change_policy (ap_id p) (\<lambda>_. q) d \<and> ap_id q = ap_id p \<and> policy_ok zones q
    \<and> (\<forall>r \<in> set (db_alert_policies d). ap_name r = ap_name q \<longrightarrow> ap_id r = ap_id p)"
proof -
  let ?free = "\<lambda>q. \<forall>r \<in> set (db_alert_policies d). ap_name r = ap_name q \<longrightarrow> ap_id r = ap_id p"
  let ?good = "\<lambda>q. ap_id q = ap_id p \<and> policy_ok zones q \<and> ?free q"
  note unfolds = and_then_eq_Inr require_def policy_ok_def policy_severity_def policy_cooldown_def Let_def or_invalid_def
  obtain p1 p2 p3 p4 p5 p6 where u:
    "patched (pp_name changes) (\<lambda>v.
         and_then (or_invalid ''alert_policy_name_invalid'' v) (\<lambda>name.
         and_then (require (py_strip name \<noteq> []) (ApiError 400 ''alert_policy_name_invalid'')) (\<lambda>_.
         and_then (policy_name_free d (py_strip name) (Some (ap_id p))) (\<lambda>_.
         Inr (p\<lparr>ap_name := py_strip name\<rparr>))))) p = Inr p1"
    "patched (pp_enabled changes) (\<lambda>v. Inr (p1\<lparr>ap_enabled := (v = Some True)\<rparr>)) p1 = Inr p2"
    "patched (pp_severity changes) (\<lambda>v.
         and_then (or_invalid ''alert_policy_severity_invalid'' v) (\<lambda>severity.
         and_then (policy_severity severity) (\<lambda>s. Inr (p2\<lparr>ap_severity := s\<rparr>)))) p2 = Inr p3"
    "patched (pp_match changes) (\<lambda>v.
         and_then (or_invalid ''alert_policy_match_invalid'' v) (\<lambda>raw.
         and_then (normalize_match zones d raw) (\<lambda>m. Inr (p3\<lparr>ap_match_json := m\<rparr>)))) p3 = Inr p4"
    "patched (pp_actions changes) (\<lambda>v.
         and_then (or_invalid ''alert_policy_action_invalid'' v) (\<lambda>raw.
         and_then (normalize_actions d raw) (\<lambda>a. Inr (p4\<lparr>ap_action_json := a\<rparr>)))) p4 = Inr p5"
    "patched (pp_cooldown_seconds changes) (\<lambda>v.
         and_then (or_invalid ''alert_policy_cooldown_invalid'' v) (\<lambda>raw.
         and_then (policy_cooldown raw) (\<lambda>n. Inr (p5\<lparr>ap_cooldown_seconds := n\<rparr>)))) p5 = Inr p6"
    and q: "d' = change_policy (ap_id p) (\<lambda>_. p6) d" "q = p6"
    using assms(1) unfolding policy_update_def and_then_eq_Inr by blast
  have "?good p" using assms(2,3) by simp
  then have g1: "?good p1" using u(1)
    by (elim patched_cases) (auto simp: unfolds policy_name_free_iff split: option.splits if_splits)
  then have g2: "?good p2" using u(2) by (elim patched_cases) (auto simp: policy_ok_def)
  then have g3: "?good p3" using u(3)
    by (elim patched_cases) (auto simp: unfolds split: option.splits if_splits)
  then have g4: "?good p4" using u(4)
    by (elim patched_cases) (auto simp: unfolds normalize_match_ok split: option.splits)
  then have g5: "?good p5" using u(5)
    by (elim patched_cases) (auto simp: unfolds normalize_actions_ok split: option.splits)
  then have "?good p6" using u(6)
    by (elim patched_cases) (auto simp: unfolds split: option.splits if_splits)
  with q show ?thesis by simp
qed

lemma policy_update_ok:
  assumes "policy_update zones d p changes = Inr (d', q)" and "policies_ok zones d" and "get_policy d (ap_id p) = Some p"
  shows "policies_ok zones d'"
proof -
  have p: "p \<in> set (db_alert_policies d)" using assms(3) alert_policies.get_Some by blast
  have inj: "ap_id r = ap_id p" if "r \<in> set (db_alert_policies d)" "ap_name r = ap_name p" for r
    using that p assms(2) by (metis eq_key_imp_eq_value inj_onD distinct_map policies_ok_def)
  have "policy_ok zones p" using p assms(2) by (simp add: policies_ok_def)
  note r = policy_update_row [OF assms(1) this] inj
  then have r: "d' = change_policy (ap_id p) (\<lambda>_. q) d" "ap_id q = ap_id p" "policy_ok zones q"
    "\<forall>r \<in> set (db_alert_policies d). ap_name r = ap_name q \<longrightarrow> ap_id r = ap_id p" by blast+
  let ?f = "\<lambda>x. if ap_id x = ap_id p then q else x"
  have ids: "map ap_id (db_alert_policies d') = map ap_id (db_alert_policies d)"
    using r(1,2) by (auto simp: change_policy_def)
  have "inj_on (\<lambda>x. ap_name (?f x)) (set (db_alert_policies d))"
  proof (rule inj_onI)
    fix x y
    assume xy: "x \<in> set (db_alert_policies d)" "y \<in> set (db_alert_policies d)" "ap_name (?f x) = ap_name (?f y)"
    have ids: "ap_id x = ap_id y \<Longrightarrow> x = y" and names: "ap_name x = ap_name y \<Longrightarrow> x = y"
      using xy(1,2) assms(2) by (auto simp: policies_ok_def distinct_map inj_on_def)
    from xy r(4) ids names show "x = y" by (auto split: if_splits)
  qed
  moreover have "distinct (db_alert_policies d)" using assms(2) by (simp add: policies_ok_def distinct_map)
  ultimately have "distinct (map (\<lambda>x. ap_name (?f x)) (db_alert_policies d))" by (simp add: distinct_map)
  moreover have "map ap_name (db_alert_policies d') = map (\<lambda>x. ap_name (?f x)) (db_alert_policies d)"
    using r(1) by (simp add: change_policy_def)
  moreover have "\<forall>x \<in> set (db_alert_policies d'). policy_ok zones x"
    using r(1,3) assms(2) by (auto simp: change_policy_def policies_ok_def)
  ultimately show ?thesis using assms(2) ids by (simp add: policies_ok_def)
qed

lemma policy_delete_ok: "policies_ok zones d \<Longrightarrow> policies_ok zones (policy_delete d p)"
  by (auto simp: policies_ok_def policy_delete_def distinct_map inj_on_def)

end
