(* ===== verification/AlertWorld.thy ===== *)
theory AlertWorld
  imports Alerts Capacity Catalog Evolution Triggers
begin

text \<open>
  Where alerts come from and where they go: the requests of \<open>modules/alerts/api.py\<close>, the reports of
  Frigate (\<open>modules/events/frigate.py\<close>), the source transitions of the ZLM hook
  (\<open>internal/zlm_hooks.py\<close>) and the capacity guard of \<open>worker/tasks.py\<close>, each composed with the events
  and alerts it touches, and what holds of alerts and policies after any sequence of them.
\<close>

section \<open>Requests on alerts and policies\<close>

text \<open>\<open>_alert_scope\<close>: an alert without a camera needs \<open>system.view\<close>, any other one the camera in scope.\<close>

definition alert_scope :: "db \<Rightarrow> auth_context \<Rightarrow> alert \<Rightarrow> unit result" where
  "alert_scope d context a =
     (case al_camera_id a of
        None \<Rightarrow> require (''system.view'' \<in> set (ac_permissions context)) (ApiError 404 ''alert_not_found'')
      | Some c \<Rightarrow> require (allows (effective_scope_of d (ac_user_id context) (ac_role_ids context)) c)
                    (ApiError 404 ''alert_not_found''))"

definition acknowledge_alert :: "db \<Rightarrow> instant \<Rightarrow> auth_context \<Rightarrow> uuid \<Rightarrow> db result" where
  "acknowledge_alert d now context k =
     and_then (require_permission context ''alert.acknowledge'') (\<lambda>_.
     and_then (fetch_or_404 (get_alert d k) ''alert_not_found'') (\<lambda>a.
     and_then (alert_scope d context a) (\<lambda>_.
     if al_state a = Resolved then Inl (ApiError 409 ''alert_resolved'')
     else if al_state a = Acknowledged then Inr d
     else Inr (change_alert k (\<lambda>x. x\<lparr>al_state := Acknowledged, al_acknowledged_at := Some now,
                                    al_acknowledged_by := Some (ac_user_id context)\<rparr>) d))))"

definition resolve_alert :: "db \<Rightarrow> instant \<Rightarrow> auth_context \<Rightarrow> uuid \<Rightarrow> db result" where
  "resolve_alert d now context k =
     and_then (require_permission context ''alert.manage'') (\<lambda>_.
     and_then (fetch_or_404 (get_alert d k) ''alert_not_found'') (\<lambda>a.
     and_then (alert_scope d context a) (\<lambda>_.
     if al_state a = Resolved then Inr d
     else Inr (change_alert k (\<lambda>x. x\<lparr>al_state := Resolved, al_resolved_at := Some now\<rparr>) d))))"

definition create_alert_policy ::
    "zones \<Rightarrow> db \<Rightarrow> auth_context \<Rightarrow> uuid \<Rightarrow> string \<Rightarrow> bool \<Rightarrow> string \<Rightarrow> dict \<Rightarrow> dict \<Rightarrow> int \<Rightarrow> db result" where
  "create_alert_policy zones d context k name enabled severity m a cooldown_seconds =
     and_then (require_permission context ''alert.manage'') (\<lambda>_.
     and_then (policy_create zones d k name enabled severity m a cooldown_seconds) (\<lambda>(d', _). Inr d'))"

definition update_alert_policy :: "zones \<Rightarrow> db \<Rightarrow> auth_context \<Rightarrow> uuid \<Rightarrow> policy_patch \<Rightarrow> db result" where
  "update_alert_policy zones d context k changes =
     and_then (require_permission context ''alert.manage'') (\<lambda>_.
     and_then (fetch_or_404 (get_policy d k) ''alert_policy_not_found'') (\<lambda>p.
     and_then (policy_update zones d p changes) (\<lambda>(d', _). Inr d')))"

definition delete_alert_policy :: "db \<Rightarrow> auth_context \<Rightarrow> uuid \<Rightarrow> db result" where
  "delete_alert_policy d context k =
     and_then (require_permission context ''alert.manage'') (\<lambda>_.
     and_then (fetch_or_404 (get_policy d k) ''alert_policy_not_found'') (\<lambda>p.
     Inr (policy_delete d p)))"

section \<open>Events that raise and resolve alerts\<close>

text \<open>
  The source transition a ZLM hook reports. \<open>bindings\<close> holds the rows of \<open>CameraStreamBinding\<close> with
  the purpose RECORD, profile and camera; an error rolls the transaction back and is only logged.
\<close>

definition recording_camera_id :: "(uuid \<times> uuid) list \<Rightarrow> string \<Rightarrow> uuid option" where
  "recording_camera_id bindings stream =
     (case profile_id_from_stream stream of
        Inl _ \<Rightarrow> None
      | Inr profile_id \<Rightarrow> map_of bindings profile_id)"

definition source_transition ::
    "zones \<Rightarrow> alert_ids \<Rightarrow> (uuid \<times> uuid) list \<Rightarrow> db \<Rightarrow> uuid \<Rightarrow> instant \<Rightarrow> instant \<Rightarrow> bool \<Rightarrow> string \<Rightarrow> string \<Rightarrow> string
     \<Rightarrow> db \<times> uuid list" where
  "source_transition zones ids bindings d event_id now boundary_at registered stream app vhost =
     (case recording_camera_id bindings stream of
        None \<Rightarrow> (d, [])
      | Some cam \<Rightarrow>
          (case (if registered
                 then and_then (source_recovered d cam (Aware boundary_at) stream app vhost) (\<lambda>(d1, recovered).
                      case recovered of
                        None \<Rightarrow> Inr (d1, [])
                      | Some e \<Rightarrow> and_then (resolve_event_alerts d1 now e None) (\<lambda>(d2, _). Inr (d2, [])))
                 else and_then (source_lost d event_id cam (Aware boundary_at) stream app vhost) (\<lambda>(d1, lost).
                      and_then (evaluate_event zones ids d1 now lost) (\<lambda>(d2, _, ks). Inr (d2, ks)))) of
             Inl _ \<Rightarrow> (d, [])
           | Inr result \<Rightarrow> result))"

text \<open>
  \<open>FrigateEventIngestService._persist\<close> for a normalised report: the event, the recording trigger of an
  event with a camera and a provider identity, and the alerts.
\<close>

definition frigate_zones :: "event_row \<Rightarrow> string list" where
  "frigate_zones e =
     (case map_of (ev_metadata_json e) ''zones'' of
        Some (PList items) \<Rightarrow> concat (map (\<lambda>x. case x of PStr s \<Rightarrow> [s] | _ \<Rightarrow> []) items)
      | _ \<Rightarrow> [])"

definition frigate_trigger :: "event_row \<Rightarrow> provider_event option" where
  "frigate_trigger e =
     (case (ev_camera_id e, ev_source_instance_id e, ev_source_event_id e) of
        (Some camera_id, Some instance_id, Some source_event_id) \<Rightarrow>
          Some \<lparr>pe_camera_id = camera_id, pe_source = ''frigate'', pe_source_instance_id = instance_id,
                pe_source_event_id = source_event_id, pe_started_at = ev_started_at e, pe_ended_at = ev_ended_at e,
                pe_trigger_type = ''AI_OBJECT'', pe_reason = ev_label e, pe_label = ev_label e,
                pe_confidence = ev_confidence e, pe_zones = frigate_zones e,
                pe_metadata = Some (dict_merge []
                  [(''event_id'', PStr (uuid_str (ev_id e))), (''label'', optional_text (ev_label e)),
                   (''zones'', PList (map PStr (frigate_zones e)))])\<rparr>
      | _ \<Rightarrow> None)"

definition frigate_report ::
    "(string \<Rightarrow> string) \<Rightarrow> zones \<Rightarrow> alert_ids \<Rightarrow> db \<Rightarrow> uuid \<Rightarrow> uuid \<Rightarrow> instant \<Rightarrow> event_ingest
     \<Rightarrow> (db \<times> event_upsert \<times> recording_trigger option \<times> uuid list) result" where
  "frigate_report uuid5 zones ids d event_id trigger_id now item =
     and_then (upsert_event d event_id item) (\<lambda>(d1, u).
     and_then (case frigate_trigger (eu_event u) of
                 None \<Rightarrow> Inr (d1, None, False)
               | Some e \<Rightarrow> upsert_provider uuid5 trigger_id d1 e) (\<lambda>(d2, trigger, _).
     and_then (evaluate_event zones ids d2 now (eu_event u)) (\<lambda>(d3, _, ks).
     Inr (d3, u, trigger, ks))))"

subsection \<open>The capacity guard\<close>

definition level_text :: "capacity_level \<Rightarrow> string" where
  "level_text l =
     (case l of NormalLevel \<Rightarrow> ''normal'' | WarningLevel \<Rightarrow> ''warning'' | HighLevel \<Rightarrow> ''high'' | CriticalLevel \<Rightarrow> ''critical'')"

definition unavailable :: "string \<Rightarrow> string \<times> observation" where
  "unavailable error_code =
     (''unavailable'', \<lparr>ob_error_code = Some error_code, ob_used_percent = None, ob_free_bytes = None, ob_total_bytes = None\<rparr>)"

definition observe_target :: "(path \<Rightarrow> fs_stats option) \<Rightarrow> storage_target \<Rightarrow> (string \<times> observation) result" where
  "observe_target statvfs t =
     (case map_of (st_config_json t) ''path'' of
        Some (PStr raw_path) \<Rightarrow>
          if raw_path = [] then Inr (unavailable ''recording_storage_path_unconfigured'')
          else (case inspect_capacity statvfs (path_of raw_path) (st_config_json t) of
              Inl (ApiError _ error_code) \<Rightarrow> Inr (unavailable error_code)
            | Inl e \<Rightarrow> Inl e
            | Inr c \<Rightarrow> Inr (level_text (ca_level c),
                \<lparr>ob_error_code = None, ob_used_percent = Some (ca_used_percent c), ob_free_bytes = Some (ca_free_bytes c),
                 ob_total_bytes = Some (ca_total_bytes c)\<rparr>))
      | _ \<Rightarrow> Inr (unavailable ''recording_storage_path_unconfigured''))"

definition guarded_targets :: "db \<Rightarrow> storage_target list" where
  "guarded_targets d = filter (\<lambda>t. is_local_recording t \<and> st_enabled t) (db_targets d)"

text \<open>The ids of the rows the guard inserts for a target.\<close>

record guard_ids =
  gi_event :: "uuid \<Rightarrow> uuid"
  gi_nonce :: "uuid \<Rightarrow> uuid"
  gi_alerts :: "uuid \<Rightarrow> alert_ids"

text \<open>One observation: the transition of the health event, then the alerts of what it closed and opened.\<close>

definition health_observed ::
    "zones \<Rightarrow> guard_ids \<Rightarrow> (uuid \<Rightarrow> string) \<Rightarrow> instant \<Rightarrow> instant \<Rightarrow> uuid \<Rightarrow> string \<Rightarrow> observation \<Rightarrow> db \<Rightarrow> (db \<times> uuid list) result" where
  "health_observed zones g names now observed_at t level ob d =
     and_then (storage_health_transition d (gi_event g t) (gi_nonce g t) t (names t) (Aware observed_at) level ob) (\<lambda>(d1, h).
     and_then (case ht_closed h of None \<Rightarrow> Inr d1 | Some e \<Rightarrow> and_then (resolve_event_alerts d1 now e None) (\<lambda>(d2, _). Inr d2)) (\<lambda>d2.
     case ht_opened h of
       None \<Rightarrow> Inr (d2, [])
     | Some e \<Rightarrow> and_then (evaluate_event zones (gi_alerts g t) d2 now e) (\<lambda>(d3, _, ks). Inr (d3, ks))))"

fun observe_all ::
    "zones \<Rightarrow> guard_ids \<Rightarrow> (uuid \<Rightarrow> string) \<Rightarrow> instant \<Rightarrow> instant \<Rightarrow> (uuid \<times> string \<times> observation) list \<Rightarrow> db
     \<Rightarrow> (db \<times> uuid list) result" where
  "observe_all zones g names now observed_at [] d = Inr (d, [])"
| "observe_all zones g names now observed_at ((t, level, ob) # obs) d =
     and_then (health_observed zones g names now observed_at t level ob d) (\<lambda>(d1, ks).
     and_then (observe_all zones g names now observed_at obs d1) (\<lambda>(d2, ks'). Inr (d2, ks @ ks')))"

record guard_result =
  gu_db :: db
  gu_deliveries :: "uuid list"
  gu_cameras :: "uuid list"
  gu_pressure :: bool

text \<open>
  \<open>periodic_recording_capacity_guard\<close>: the new state is committed, then notifications, the runtimes of
  all cameras that record and, under pressure, the retention task are queued. An exception ends the
  task with nothing committed or queued.
\<close>

definition capacity_guard ::
    "zones \<Rightarrow> guard_ids \<Rightarrow> (uuid \<Rightarrow> string) \<Rightarrow> (path \<Rightarrow> fs_stats option) \<Rightarrow> db \<Rightarrow> instant \<Rightarrow> instant \<Rightarrow> guard_result result" where
  "capacity_guard zones g names statvfs d now observed_at =
     and_then (map_result (\<lambda>t. and_then (observe_target statvfs t) (\<lambda>x. Inr (st_id t, x))) (guarded_targets d)) (\<lambda>obs.
     and_then (observe_all zones g names now observed_at obs d) (\<lambda>(d', ks).
     Inr \<lparr>gu_db = d', gu_deliveries = sort ks, gu_cameras = sort (map rp_camera_id (filter rp_enabled (db_policies d))),
          gu_pressure = list_ex (\<lambda>(_, level, _). level \<in> {''high'', ''critical''}) obs\<rparr>))"

section \<open>Alerts over time\<close>

text \<open>
  One alert per policy and event, timestamps that agree with the state, the event still there, and no
  unresolved alert about a health or source interval of the system that is over.
\<close>

definition alert_row_ok :: "alert \<Rightarrow> bool" where
  "alert_row_ok a \<longleftrightarrow> (al_state a = Resolved \<longleftrightarrow> al_resolved_at a \<noteq> None)
     \<and> (al_acknowledged_at a = None \<longleftrightarrow> al_acknowledged_by a = None)
     \<and> (al_state a = Open \<longrightarrow> al_acknowledged_at a = None) \<and> (al_state a = Acknowledged \<longrightarrow> al_acknowledged_at a \<noteq> None)"

definition explained_by :: "event_row list \<Rightarrow> alert \<Rightarrow> bool" where
  "explained_by es a \<longleftrightarrow>
     (\<exists>e \<in> set es. ev_id e = al_event_id a \<and> (ev_source e = ''system'' \<and> al_state a \<noteq> Resolved \<longrightarrow> ev_ended_at e = None))"

definition same_cause :: "alert \<Rightarrow> alert \<Rightarrow> bool" where
  "same_cause a b \<longleftrightarrow> al_policy_id a \<noteq> None \<and> al_policy_id a = al_policy_id b \<and> al_event_id a = al_event_id b"

definition alert_table_ok :: "db \<Rightarrow> bool" where
  "alert_table_ok d \<longleftrightarrow> distinct (map ev_id (db_events d)) \<and> distinct (map al_id (db_alerts d))
     \<and> (\<forall>a \<in> set (db_alerts d). \<forall>b \<in> set (db_alerts d). same_cause a b \<longrightarrow> al_id a = al_id b)
     \<and> (\<forall>a \<in> set (db_alerts d). alert_row_ok a \<and> explained_by (db_events d) a)"

lemma alert_table_frame: "db_alerts d' = db_alerts d \<Longrightarrow> db_events d' = db_events d \<Longrightarrow> alert_table_ok d' = alert_table_ok d"
  by (simp add: alert_table_ok_def)

text \<open>Rewriting alerts in place.\<close>

lemma alert_table_map:
  assumes "alert_table_ok d" and "db_events d' = db_events d" and "db_alerts d' = map f (db_alerts d)"
    and "\<And>a. al_id (f a) = al_id a" and "\<And>a. al_event_id (f a) = al_event_id a"
    and "\<And>a. al_policy_id (f a) = al_policy_id a \<or> al_policy_id (f a) = None"
    and "\<And>a. alert_row_ok a \<Longrightarrow> alert_row_ok (f a)"
    and "\<And>a. al_state a = Resolved \<Longrightarrow> al_state (f a) = Resolved"
  shows "alert_table_ok d'"
proof -
  have "same_cause a b" if "same_cause (f a) (f b)" for a b
    using that assms(5,6) [of a] assms(5,6) [of b] by (auto simp: same_cause_def)
  moreover have "explained_by es (f a)" if "explained_by es a" for es a
    using that assms(5,8) by (auto simp: explained_by_def)
  ultimately show ?thesis using assms(1-4,7) by (auto simp: alert_table_ok_def comp_def)
qed

text \<open>Rewriting one event, or adding one.\<close>

lemma explained_update:
  assumes "explained_by (db_events d) a" and "distinct (map ev_id (db_events d))" and "x \<in> set (db_events d)" and "ev_id y = ev_id x"
    and "al_event_id a = ev_id x \<Longrightarrow> al_state a \<noteq> Resolved \<Longrightarrow> ev_source y = ''system'' \<Longrightarrow>
      (ev_source x = ''system'' \<longrightarrow> ev_ended_at x = None) \<Longrightarrow> ev_ended_at y = None"
  shows "explained_by (db_events (update_event (ev_id x) (\<lambda>_. y) d)) a"
proof -
  obtain e where e: "e \<in> set (db_events d)" "ev_id e = al_event_id a"
      "ev_source e = ''system'' \<and> al_state a \<noteq> Resolved \<longrightarrow> ev_ended_at e = None"
    using assms(1) by (auto simp: explained_by_def)
  show ?thesis
  proof (cases "ev_id e = ev_id x")
    case True
    then have "e = x" using assms(2,3) e(1) by (auto simp: distinct_map inj_on_def)
    have "y \<in> set (db_events (update_event (ev_id x) (\<lambda>_. y) d))"
      using assms(3) by (auto simp: update_event_def)
    then show ?thesis using e \<open>e = x\<close> assms(4,5) by (auto simp: explained_by_def intro!: bexI [of _ y])
  next
    case False
    then have "e \<in> set (db_events (update_event (ev_id x) (\<lambda>_. y) d))"
      using e(1) by (auto simp: update_event_def)
    then show ?thesis using e by (auto simp: explained_by_def)
  qed
qed

lemma update_event_ids:
  "ev_id y = k \<Longrightarrow> map ev_id (db_events (update_event k (\<lambda>_. y) d)) = map ev_id (db_events d)"
  by (auto simp: update_event_def)

lemma update_event_alerts [simp]: "db_alerts (update_event k f d) = db_alerts d" "db_alerts (add_event e d) = db_alerts d"
    "db_alert_policies (update_event k f d) = db_alert_policies d" "db_alert_policies (add_event e d) = db_alert_policies d"
  by (simp_all add: update_event_def add_event_def)

lemma alert_table_update_event:
  assumes "alert_table_ok d" and "x \<in> set (db_events d)" and "ev_id y = ev_id x"
    and "ev_source y = ''system'' \<Longrightarrow> (ev_source x = ''system'' \<longrightarrow> ev_ended_at x = None) \<Longrightarrow> ev_ended_at y = None"
  shows "alert_table_ok (update_event (ev_id x) (\<lambda>_. y) d)"
proof -
  have "explained_by (db_events (update_event (ev_id x) (\<lambda>_. y) d)) a" if "a \<in> set (db_alerts d)" for a
    using assms that by (intro explained_update) (auto simp: alert_table_ok_def)
  then show ?thesis using assms(1,3) by (simp add: alert_table_ok_def update_event_ids)
qed

lemma alert_table_add_event:
  assumes "alert_table_ok d" and "get_event d (ev_id e) = None"
  shows "alert_table_ok (add_event e d)"
  using assms by (auto simp: alert_table_ok_def add_event_def explained_by_def events.get_None_iff)

text \<open>Closing an event and resolving its alerts in the same transaction.\<close>

lemma resolve_event_alerts_row:
  assumes "resolve_event_alerts d now e resolved_at = Inr (d', rs)"
  obtains t where "d' = d\<lparr>db_alerts := map (\<lambda>a. if al_event_id a = ev_id e \<and> al_state a \<noteq> Resolved
      then a\<lparr>al_state := Resolved, al_resolved_at := Some t\<rparr> else a) (db_alerts d)\<rparr>"
  using assms by (auto simp: resolve_event_alerts_def and_then_eq_Inr Let_def)

lemma alert_table_close_event:
  assumes ok: "alert_table_ok d" and x: "x \<in> set (db_events d)" and id: "ev_id y = ev_id x"
    and r: "resolve_event_alerts (update_event (ev_id x) (\<lambda>_. y) d) now y None = Inr (d', rs)"
  shows "alert_table_ok d'"
proof -
  obtain t where d': "d' = (update_event (ev_id x) (\<lambda>_. y) d)\<lparr>db_alerts := map (\<lambda>a. if al_event_id a = ev_id y \<and> al_state a \<noteq> Resolved
      then a\<lparr>al_state := Resolved, al_resolved_at := Some t\<rparr> else a) (db_alerts d)\<rparr>"
    using resolve_event_alerts_row [OF r] by auto
  let ?f = "\<lambda>a. if al_event_id a = ev_id y \<and> al_state a \<noteq> Resolved
      then a\<lparr>al_state := Resolved, al_resolved_at := Some t\<rparr> else a"
  let ?d = "d\<lparr>db_alerts := map ?f (db_alerts d)\<rparr>"
  have mid: "alert_table_ok ?d"
    by (rule alert_table_map [OF ok, of ?d ?f]) (auto simp: alert_row_ok_def)
  have "d' = update_event (ev_id x) (\<lambda>_. y) ?d" by (simp add: d' update_event_def)
  moreover have "explained_by (db_events (update_event (ev_id x) (\<lambda>_. y) ?d)) b" if "b \<in> set (db_alerts ?d)" for b
  proof -
    have closed: "\<not> (al_event_id b = ev_id x \<and> al_state b \<noteq> Resolved)" using that id by auto
    have "explained_by (db_events ?d) b" "distinct (map ev_id (db_events ?d))"
      using mid that unfolding alert_table_ok_def by blast+
    moreover have "x \<in> set (db_events ?d)" using x by simp
    ultimately show ?thesis using id by (rule explained_update) (use closed in blast)
  qed
  ultimately have "\<forall>b \<in> set (db_alerts ?d). explained_by (db_events d') b" by simp
  moreover have "map ev_id (db_events d') = map ev_id (db_events d)" "db_alerts d' = db_alerts ?d"
    using d' update_event_ids [OF id, of d] by simp_all
  ultimately show ?thesis using mid ok unfolding alert_table_ok_def by metis
qed

text \<open>An evaluation that inserts alerts with new ids about a present event.\<close>

definition fresh_alerts :: "alert_ids \<Rightarrow> db \<Rightarrow> bool" where
  "fresh_alerts ids d \<longleftrightarrow> inj_on (ni_alert ids) (ap_id ` set (db_alert_policies d))
     \<and> (\<forall>p \<in> set (db_alert_policies d). get_alert d (ni_alert ids (ap_id p)) = None)"

lemma evaluation_of_alerts:
  assumes "evaluation_of ids now e d raised (d', as, ks)"
  shows "db_alerts d' = db_alerts d @ map (\<lambda>p. alert_of (ni_alert ids (ap_id p)) p e) raised"
    and "db_events d' = db_events d" and "db_alert_policies d' = db_alert_policies d"
  using assms by (auto simp: evaluation_of_def)

lemma evaluate_event_alerts:
  assumes "evaluate_event zones ids d now e = Inr (d', as, ks)" and "distinct (map ap_id (db_alert_policies d))"
  obtains raised where "db_alerts d' = db_alerts d @ map (\<lambda>p. alert_of (ni_alert ids (ap_id p)) p e) raised"
    "db_events d' = db_events d" "db_alert_policies d' = db_alert_policies d"
    "set raised \<subseteq> set (db_alert_policies d)" "distinct (map ap_id raised)" "\<forall>p \<in> set raised. \<not> has_alert d p e"
proof -
  let ?raised = "if in_maintenance d e then []
     else filter (\<lambda>p. raises zones d p e = Inr True) (sort_key ap_id (filter ap_enabled (db_alert_policies d)))"
  have "evaluation_of ids now e d ?raised (d', as, ks)" by (rule evaluate_event_exact [OF assms])
  note new = evaluation_of_alerts [OF this]
  have "distinct (map ap_id (sort_key ap_id (filter ap_enabled (db_alert_policies d))))"
    using assms(2) by (simp add: distinct_map inj_on_def)
  then have "distinct (map ap_id ?raised)" by (auto simp: distinct_map inj_on_def)
  moreover have "set ?raised \<subseteq> set (db_alert_policies d)" by auto
  moreover have "\<forall>p \<in> set ?raised. \<not> has_alert d p e" by (auto simp: raises_def and_then_eq_Inr)
  ultimately show thesis using that [OF new] by blast
qed

lemma alert_table_evaluate:
  assumes ok: "alert_table_ok d" and r: "evaluate_event zones ids d now e = Inr (d', as, ks)"
    and p: "distinct (map ap_id (db_alert_policies d))" and fresh: "fresh_alerts ids d"
    and e: "e \<in> set (db_events d)" "ev_source e = ''system'' \<longrightarrow> ev_ended_at e = None"
  shows "alert_table_ok d'"
proof -
  obtain raised where new: "db_alerts d' = db_alerts d @ map (\<lambda>p. alert_of (ni_alert ids (ap_id p)) p e) raised"
    "db_events d' = db_events d" "set raised \<subseteq> set (db_alert_policies d)" "distinct (map ap_id raised)"
    "\<forall>p \<in> set raised. \<not> has_alert d p e" by (rule evaluate_event_alerts [OF r p])
  have "ap_id p = ap_id q" if "p \<in> set raised" "q \<in> set raised" "ni_alert ids (ap_id p) = ni_alert ids (ap_id q)" for p q
    using fresh that subsetD [OF new(3)] unfolding fresh_alerts_def inj_on_def by blast
  moreover have "ni_alert ids (ap_id p) \<notin> al_id ` set (db_alerts d)" if "p \<in> set raised" for p
    using fresh new(3) that by (auto simp: fresh_alerts_def alerts.get_None_iff)
  moreover have "inj_on ap_id (set raised)" "distinct raised" using new(4) by (simp_all add: distinct_map)
  ultimately have "distinct (map (\<lambda>p. ni_alert ids (ap_id p)) raised)"
      "(\<lambda>p. ni_alert ids (ap_id p)) ` set raised \<inter> al_id ` set (db_alerts d) = {}"
    unfolding distinct_map inj_on_def by blast+
  moreover have "map al_id (db_alerts d') = map al_id (db_alerts d) @ map (\<lambda>p. ni_alert ids (ap_id p)) raised"
    using new(1) by (simp add: alert_of_def)
  ultimately have "distinct (map al_id (db_alerts d'))" using ok by (auto simp: alert_table_ok_def)
  moreover have "al_id a = al_id b"
    if "a \<in> set (db_alerts d')" "b \<in> set (db_alerts d')" "same_cause a b" for a b
  proof -
    have old: "\<not> same_cause c (alert_of k q e)" "\<not> same_cause (alert_of k q e) c"
      if "c \<in> set (db_alerts d)" "q \<in> set raised" for c q k
    proof -
      have "al_policy_id c \<noteq> Some (ap_id q) \<or> al_event_id c \<noteq> ev_id e"
        using new(5) that unfolding has_alert_def list_ex_iff by blast
      then show "\<not> same_cause c (alert_of k q e)" "\<not> same_cause (alert_of k q e) c"
        by (auto simp: same_cause_def alert_of_def)
    qed
    have split: "x \<in> set (db_alerts d) \<or> (\<exists>q \<in> set raised. x = alert_of (ni_alert ids (ap_id q)) q e)"
      if "x \<in> set (db_alerts d')" for x using that new(1) by auto
    have twins: "ni_alert ids (ap_id p) = ni_alert ids (ap_id q)"
      if "same_cause (alert_of (ni_alert ids (ap_id p)) p e) (alert_of (ni_alert ids (ap_id q)) q e)" for p q
      using that by (simp add: same_cause_def alert_of_def)
    have "\<forall>a \<in> set (db_alerts d). \<forall>b \<in> set (db_alerts d). same_cause a b \<longrightarrow> al_id a = al_id b"
      using ok by (simp add: alert_table_ok_def)
    with split [OF that(1)] split [OF that(2)] that(3) old show ?thesis
      by (elim disjE bexE) (auto dest: twins)
  qed
  moreover have "alert_row_ok a \<and> explained_by (db_events d') a" if "a \<in> set (db_alerts d')" for a
  proof -
    have "alert_row_ok (alert_of k q e)" "explained_by (db_events d) (alert_of k q e)" for k q
      using e by (auto simp: alert_row_ok_def alert_of_def explained_by_def)
    then show ?thesis using that ok new(1,2) by (auto simp: alert_table_ok_def)
  qed
  ultimately show ?thesis using ok new(2) by (simp add: alert_table_ok_def)
qed

text \<open>What an alert keeps of its past.\<close>

definition alert_keeps :: "alert \<Rightarrow> alert \<Rightarrow> bool" where
  "alert_keeps a b \<longleftrightarrow> al_id b = al_id a \<and> al_event_id b = al_event_id a \<and> al_camera_id b = al_camera_id a
     \<and> al_severity b = al_severity a \<and> al_title b = al_title a \<and> al_message b = al_message a
     \<and> al_policy_id b \<in> {al_policy_id a, None}
     \<and> (al_state a = Acknowledged \<longrightarrow> al_state b \<noteq> Open)
     \<and> (al_acknowledged_at a \<noteq> None \<longrightarrow> al_acknowledged_at b = al_acknowledged_at a \<and> al_acknowledged_by b = al_acknowledged_by a)
     \<and> (al_state a = Resolved \<longrightarrow> al_state b = Resolved \<and> al_resolved_at b = al_resolved_at a
          \<and> al_acknowledged_at b = al_acknowledged_at a \<and> al_acknowledged_by b = al_acknowledged_by a)"

interpretation alert_rows: evolution al_id alert_keeps
proof
  show "alert_keeps a a" for a by (simp add: alert_keeps_def)
  show "alert_keeps a b \<Longrightarrow> al_id b = al_id a" for a b by (simp add: alert_keeps_def)
  show "alert_keeps a c" if "alert_keeps a b" "alert_keeps b c" for a b c
    using that unfolding alert_keeps_def by (cases "al_state a"; cases "al_state b") auto
qed

text \<open>The invariant of a state, and the progress of the alerts from one state to a later one.\<close>

definition alert_inv :: "zones \<Rightarrow> db \<Rightarrow> bool" where
  "alert_inv zones d \<longleftrightarrow> policies_ok zones d \<and> alert_table_ok d"

definition alerts_progress :: "db \<Rightarrow> db \<Rightarrow> bool" where
  "alerts_progress d d' \<longleftrightarrow> evolves al_id alert_keeps (db_alerts d) (db_alerts d')"

lemma alerts_progress_same: "db_alerts d' = db_alerts d \<Longrightarrow> alerts_progress d d'"
  by (simp add: alerts_progress_def alert_rows.evolves_refl)

lemma alerts_progress_trans: "alerts_progress d e \<Longrightarrow> alerts_progress e f \<Longrightarrow> alerts_progress d f"
  unfolding alerts_progress_def by (rule alert_rows.evolves_trans)

lemma alerts_progress_map:
  assumes "db_alerts d' = map f (db_alerts d)" and "\<And>a. a \<in> set (db_alerts d) \<Longrightarrow> alert_keeps a (f a)"
  shows "alerts_progress d d'"
  unfolding alerts_progress_def assms(1) by (rule alert_rows.evolves_map) (rule assms(2))

lemma alerts_progress_evaluate:
  assumes "evaluate_event zones ids d now e = Inr (d', as, ks)" and "distinct (map ap_id (db_alert_policies d))"
    and "fresh_alerts ids d"
  shows "alerts_progress d d'"
proof -
  obtain raised where new: "db_alerts d' = db_alerts d @ map (\<lambda>p. alert_of (ni_alert ids (ap_id p)) p e) raised"
    "set raised \<subseteq> set (db_alert_policies d)" "distinct (map ap_id raised)"
    by (rule evaluate_event_alerts [OF assms(1,2)])
  have "inj_on (\<lambda>p. ni_alert ids (ap_id p)) (set raised)"
    using assms(3) new(2,3) unfolding fresh_alerts_def inj_on_def distinct_map by blast
  then have "distinct (map al_id (map (\<lambda>p. alert_of (ni_alert ids (ap_id p)) p e) raised))"
    using new(3) by (simp add: distinct_map comp_def alert_of_def)
  moreover have "al_id ` set (map (\<lambda>p. alert_of (ni_alert ids (ap_id p)) p e) raised) \<inter> al_id ` set (db_alerts d) = {}"
  proof -
    have "ni_alert ids (ap_id p) \<notin> al_id ` set (db_alerts d)" if "p \<in> set raised" for p
      using assms(3) subsetD [OF new(2) that] by (simp add: fresh_alerts_def alerts.get_None_iff)
    then show ?thesis by fastforce
  qed
  ultimately show ?thesis unfolding alerts_progress_def evolves_def new(1)
    by (intro exI [of _ "map (\<lambda>p. alert_of (ni_alert ids (ap_id p)) p e) raised"])
       (simp add: alert_rows.all_keeps_refl)
qed

lemma resolve_event_alerts_progress:
  assumes "resolve_event_alerts d now e resolved_at = Inr (d', rs)"
  shows "alerts_progress d d' \<and> db_events d' = db_events d \<and> db_alert_policies d' = db_alert_policies d"
proof -
  obtain t where "d' = d\<lparr>db_alerts := map (\<lambda>a. if al_event_id a = ev_id e \<and> al_state a \<noteq> Resolved
      then a\<lparr>al_state := Resolved, al_resolved_at := Some t\<rparr> else a) (db_alerts d)\<rparr>" (is "_ = d\<lparr>db_alerts := map ?f _\<rparr>")
    by (rule resolve_event_alerts_row [OF assms])
  then have d': "d' = d\<lparr>db_alerts := map ?f (db_alerts d)\<rparr>" by simp
  moreover have "alerts_progress d d'" by (rule alerts_progress_map [of _ ?f]) (auto simp: d' alert_keeps_def)
  ultimately show ?thesis by simp
qed

subsection \<open>Requests\<close>

lemma acknowledge_alert_cases:
  assumes "acknowledge_alert d now context k = Inr d'"
  obtains "d' = d" | a where "get_alert d k = Some a" "al_state a = Open"
    "d' = change_alert k (\<lambda>x. x\<lparr>al_state := Acknowledged, al_acknowledged_at := Some now,
             al_acknowledged_by := Some (ac_user_id context)\<rparr>) d"
proof -
  from assms obtain a where "get_alert d k = Some a" "al_state a \<noteq> Resolved"
    "d' = (if al_state a = Acknowledged then d else change_alert k (\<lambda>x. x\<lparr>al_state := Acknowledged,
             al_acknowledged_at := Some now, al_acknowledged_by := Some (ac_user_id context)\<rparr>) d)"
    by (auto simp: acknowledge_alert_def and_then_eq_Inr fetch_or_404_def split: option.splits if_splits)
  with that show thesis by (cases "al_state a") auto
qed

lemma resolve_alert_cases:
  assumes "resolve_alert d now context k = Inr d'"
  obtains "d' = d" | a where "get_alert d k = Some a" "al_state a \<noteq> Resolved"
    "d' = change_alert k (\<lambda>x. x\<lparr>al_state := Resolved, al_resolved_at := Some now\<rparr>) d"
  using assms by (auto simp: resolve_alert_def and_then_eq_Inr fetch_or_404_def split: option.splits if_splits)

text \<open>Changing the one alert with an id.\<close>

lemma change_alert_ok:
  assumes inv: "alert_inv zones d" and a: "get_alert d k = Some a" and keeps: "alert_keeps a (f a)"
    and row: "alert_row_ok (f a)"
  shows "alert_inv zones (change_alert k f d) \<and> alerts_progress d (change_alert k f d)"
proof -
  have mem: "a \<in> set (db_alerts d)" "al_id a = k" using alerts.get_Some [OF a] by simp_all
  have only: "b = a" if "b \<in> set (db_alerts d)" "al_id b = k" for b
    using inv that mem unfolding alert_inv_def alert_table_ok_def distinct_map inj_on_def by blast
  let ?g = "\<lambda>b. if b = a then f a else b"
  have alerts: "db_alerts (change_alert k f d) = map ?g (db_alerts d)"
  proof -
    have "(if al_id b = k then f b else b) = ?g b" if "b \<in> set (db_alerts d)" for b
      using only [OF that] mem(2) by (cases "al_id b = k") auto
    then show ?thesis by (simp add: change_alert_def)
  qed
  have "alert_table_ok (change_alert k f d)"
  proof (rule alert_table_map [OF _ _ alerts])
    show "alert_table_ok d" using inv by (simp add: alert_inv_def)
    show "db_events (change_alert k f d) = db_events d" by (simp add: change_alert_def)
  qed (use keeps row in \<open>auto simp: alert_keeps_def\<close>)
  moreover have "policies_ok zones (change_alert k f d)"
    using inv policies_ok_table [of "change_alert k f d" d zones] by (simp add: alert_inv_def change_alert_def)
  moreover have "alerts_progress d (change_alert k f d)"
    by (rule alerts_progress_map [OF alerts]) (use keeps in \<open>auto simp: alert_rows.keeps_refl\<close>)
  ultimately show ?thesis by (simp add: alert_inv_def)
qed

lemma acknowledge_alert_ok:
  assumes "acknowledge_alert d now context k = Inr d'" and inv: "alert_inv zones d"
  shows "alert_inv zones d' \<and> alerts_progress d d'"
  using assms(1)
proof (cases rule: acknowledge_alert_cases)
  case 1
  then show ?thesis using inv by (simp add: alerts_progress_same)
next
  case (2 a)
  have "alert_row_ok a" using inv alerts.get_Some [OF 2(1)] by (auto simp: alert_inv_def alert_table_ok_def)
  then show ?thesis unfolding 2(3) using 2(2)
    by (intro change_alert_ok [OF inv 2(1)]) (auto simp: alert_keeps_def alert_row_ok_def)
qed

lemma resolve_alert_ok:
  assumes "resolve_alert d now context k = Inr d'" and inv: "alert_inv zones d"
  shows "alert_inv zones d' \<and> alerts_progress d d'"
  using assms(1)
proof (cases rule: resolve_alert_cases)
  case 1
  then show ?thesis using inv by (simp add: alerts_progress_same)
next
  case (2 a)
  have "alert_row_ok a" using inv alerts.get_Some [OF 2(1)] by (auto simp: alert_inv_def alert_table_ok_def)
  then show ?thesis unfolding 2(3) using 2(2)
    by (intro change_alert_ok [OF inv 2(1)]) (auto simp: alert_keeps_def alert_row_ok_def)
qed

lemma policy_delete_inv:
  assumes "alert_inv zones d"
  shows "alert_inv zones (policy_delete d p) \<and> alerts_progress d (policy_delete d p)"
proof -
  let ?f = "\<lambda>a. if al_policy_id a = Some (ap_id p) then a\<lparr>al_policy_id := None\<rparr> else a"
  have alerts: "db_alerts (policy_delete d p) = map ?f (db_alerts d)" by (simp add: policy_delete_def)
  have "alert_table_ok (policy_delete d p)"
  proof (rule alert_table_map [OF _ _ alerts])
    show "alert_table_ok d" using assms by (simp add: alert_inv_def)
    show "db_events (policy_delete d p) = db_events d" by (simp add: policy_delete_def)
  qed (auto simp: alert_row_ok_def)
  moreover have "alerts_progress d (policy_delete d p)"
    by (rule alerts_progress_map [OF alerts]) (auto simp: alert_keeps_def)
  ultimately show ?thesis using assms policy_delete_ok by (simp add: alert_inv_def)
qed

lemma policy_requests_ok:
  assumes inv: "alert_inv zones d"
  shows "create_alert_policy zones d context k name enabled severity m a cooldown = Inr d' \<Longrightarrow> get_policy d k = None \<Longrightarrow>
      alert_inv zones d' \<and> alerts_progress d d'"
    and "update_alert_policy zones d context k changes = Inr d' \<Longrightarrow> alert_inv zones d' \<and> alerts_progress d d'"
    and "delete_alert_policy d context k = Inr d' \<Longrightarrow> alert_inv zones d' \<and> alerts_progress d d'"
proof -
  have frame: "alert_inv zones d' \<and> alerts_progress d d'"
    if "policies_ok zones d'" "db_alerts d' = db_alerts d" "db_events d' = db_events d" for d'
    using inv that(1) alert_table_frame [OF that(2,3)] alerts_progress_same [OF that(2)] by (simp add: alert_inv_def)
  show "alert_inv zones d' \<and> alerts_progress d d'"
    if r: "create_alert_policy zones d context k name enabled severity m a cooldown = Inr d'" "get_policy d k = None"
  proof -
    obtain p where p: "policy_create zones d k name enabled severity m a cooldown = Inr (d', p)"
      using r(1) by (auto simp: create_alert_policy_def and_then_eq_Inr)
    note c = policy_create_ok [OF p _ r(2)]
    show ?thesis using inv c by (intro frame) (auto simp: alert_inv_def add_policy_def)
  qed
  show "alert_inv zones d' \<and> alerts_progress d d'" if r: "update_alert_policy zones d context k changes = Inr d'"
  proof -
    obtain p q where p: "get_policy d k = Some p" "policy_update zones d p changes = Inr (d', q)"
      using r by (auto simp: update_alert_policy_def and_then_eq_Inr fetch_or_404_def split: option.splits)
    have pk: "get_policy d (ap_id p) = Some p" using p(1) alert_policies.get_Some [OF p(1)] by simp
    have "d' = change_policy (ap_id p) (\<lambda>_. q) d" using p(2) by (auto simp: policy_update_def and_then_eq_Inr)
    then show ?thesis using inv policy_update_ok [OF p(2) _ pk] by (intro frame) (auto simp: alert_inv_def change_policy_def)
  qed
  show "alert_inv zones d' \<and> alerts_progress d d'" if "delete_alert_policy d context k = Inr d'"
    using that policy_delete_inv [OF inv]
    by (auto simp: delete_alert_policy_def and_then_eq_Inr fetch_or_404_def split: option.splits)
qed

subsection \<open>Events\<close>

text \<open>A state after an operation on events and alerts that leaves the policies alone.\<close>

definition event_progress :: "zones \<Rightarrow> db \<Rightarrow> db \<Rightarrow> bool" where
  "event_progress zones d d' \<longleftrightarrow> alert_inv zones d' \<and> alerts_progress d d' \<and> db_alert_policies d' = db_alert_policies d"

lemma event_progress_trans: "event_progress zones d e \<Longrightarrow> event_progress zones e f \<Longrightarrow> event_progress zones d f"
  using alerts_progress_trans by (auto simp: event_progress_def)

lemma event_progressI:
  assumes "alert_inv zones d" and "alert_table_ok d'" and "alerts_progress d d'" and "db_alert_policies d' = db_alert_policies d"
  shows "event_progress zones d d'"
  using assms policies_ok_table [OF assms(4), of zones] by (simp add: event_progress_def alert_inv_def)

lemma evaluate_event_progress:
  assumes inv: "alert_inv zones d" and r: "evaluate_event zones ids d now e = Inr (d', as, ks)" and fresh: "fresh_alerts ids d"
    and e: "e \<in> set (db_events d)" "ev_source e = ''system'' \<longrightarrow> ev_ended_at e = None"
  shows "event_progress zones d d' \<and> db_events d' = db_events d
    \<and> al_id ` set (db_alerts d') \<subseteq> al_id ` set (db_alerts d) \<union> (\<lambda>p. ni_alert ids (ap_id p)) ` set (db_alert_policies d)"
proof -
  have p: "distinct (map ap_id (db_alert_policies d))" using inv by (simp add: alert_inv_def policies_ok_def)
  obtain raised where new: "db_alerts d' = db_alerts d @ map (\<lambda>p. alert_of (ni_alert ids (ap_id p)) p e) raised"
    "db_events d' = db_events d" "db_alert_policies d' = db_alert_policies d" "set raised \<subseteq> set (db_alert_policies d)"
    by (rule evaluate_event_alerts [OF r p])
  have "alert_table_ok d'" using inv by (intro alert_table_evaluate [OF _ r p fresh e]) (simp add: alert_inv_def)
  then have "event_progress zones d d'"
    using new(3) by (intro event_progressI [OF inv] alerts_progress_evaluate [OF r p fresh])
  moreover have "al_id ` set (db_alerts d') \<subseteq> al_id ` set (db_alerts d) \<union> (\<lambda>p. ni_alert ids (ap_id p)) ` set (db_alert_policies d)"
    using new(1,4) by auto
  ultimately show ?thesis using new(2) by blast
qed

lemma fresh_alerts_frame:
  "db_alerts d' = db_alerts d \<Longrightarrow> db_alert_policies d' = db_alert_policies d \<Longrightarrow> fresh_alerts ids d' = fresh_alerts ids d"
  by (simp add: fresh_alerts_def alerts.get_None_iff)

lemma update_event_mem: "x \<in> set (db_events d) \<Longrightarrow> ev_id y = ev_id x \<Longrightarrow> y \<in> set (db_events (update_event (ev_id x) (\<lambda>_. y) d))"
  by (auto simp: update_event_def)

lemma update_event_progress:
  assumes inv: "alert_inv zones d" and x: "x \<in> set (db_events d)" "ev_id y = ev_id x"
    and y: "ev_source y = ''system'' \<Longrightarrow> (ev_source x = ''system'' \<longrightarrow> ev_ended_at x = None) \<Longrightarrow> ev_ended_at y = None"
  shows "event_progress zones d (update_event (ev_id x) (\<lambda>_. y) d)"
proof (rule event_progressI [OF inv])
  have "alert_table_ok d" using inv by (simp add: alert_inv_def)
  then show "alert_table_ok (update_event (ev_id x) (\<lambda>_. y) d)" using x y by (rule alert_table_update_event)
qed (simp_all add: alerts_progress_same)

lemma add_event_progress:
  assumes "alert_inv zones d" and "get_event d (ev_id e) = None"
  shows "event_progress zones d (add_event e d)"
  using assms alert_table_add_event by (intro event_progressI) (auto simp: alert_inv_def alerts_progress_same)

lemma close_event_progress:
  assumes inv: "alert_inv zones d" and x: "x \<in> set (db_events d)" "ev_id y = ev_id x"
    and r: "resolve_event_alerts (update_event (ev_id x) (\<lambda>_. y) d) now y None = Inr (d', rs)"
  shows "event_progress zones d d' \<and> map ev_id (db_events d') = map ev_id (db_events d)
    \<and> map al_id (db_alerts d') = map al_id (db_alerts d)"
proof -
  note p = resolve_event_alerts_progress [OF r]
  have "alert_table_ok d" using inv by (simp add: alert_inv_def)
  then have "alert_table_ok d'" using x r by (rule alert_table_close_event)
  moreover have "alerts_progress d d'"
    by (rule alerts_progress_trans [OF alerts_progress_same p [THEN conjunct1]]) simp
  ultimately have "event_progress zones d d'" using p by (intro event_progressI [OF inv]) simp_all
  moreover have "map al_id (db_alerts d') = map al_id (db_alerts d)"
  proof -
    obtain t where "d' = (update_event (ev_id x) (\<lambda>_. y) d)\<lparr>db_alerts := map (\<lambda>a. if al_event_id a = ev_id y \<and> al_state a \<noteq> Resolved
        then a\<lparr>al_state := Resolved, al_resolved_at := Some t\<rparr> else a) (db_alerts (update_event (ev_id x) (\<lambda>_. y) d))\<rparr>"
      by (rule resolve_event_alerts_row [OF r])
    then show ?thesis by simp
  qed
  ultimately show ?thesis using p update_event_ids [OF x(2), of d] by simp
qed

lemma open_loss_row: "open_source_loss d cam = Some x \<Longrightarrow> x \<in> set (db_events d) \<and> open_loss cam x"
  using newest_Some by (fastforce simp: open_source_loss_def)

lemma open_health_row: "open_storage_health d t = Some x \<Longrightarrow> x \<in> set (db_events d) \<and> open_health t x"
  using newest_Some by (fastforce simp: open_storage_health_def)

lemma merged_metadata_row [simp]: "ev_id (merged_metadata m x) = ev_id x" "ev_ended_at (merged_metadata m x) = ev_ended_at x"
  by (simp_all add: merged_metadata_def redacted_def)

lemma source_transition_progress:
  assumes inv: "alert_inv zones d" and fresh: "fresh_alerts ids d" "get_event d event_id = None"
  shows "event_progress zones d (fst (source_transition zones ids bindings d event_id now boundary registered stream app vhost))"
proof -
  have same: "event_progress zones d d" using inv by (simp add: event_progress_def alerts_progress_same)
  show ?thesis
  proof (cases "recording_camera_id bindings stream")
    case None
    then show ?thesis using same by (simp add: source_transition_def)
  next
    case (Some cam)
    show ?thesis
    proof (cases registered)
      case True
      show ?thesis
      proof (cases "source_recovered d cam (Aware boundary) stream app vhost")
        case (Inl e)
        then show ?thesis using same Some True by (simp add: source_transition_def)
      next
        case (Inr r)
        then obtain d1 v where r: "source_recovered d cam (Aware boundary) stream app vhost = Inr (d1, v)" by (cases r) simp
        then show ?thesis
        proof (cases rule: source_recovered_cases)
          case none
          then show ?thesis using same Some True r by (simp add: source_transition_def)
        next
          case (closed x observed m)
          let ?y = "recovered_loss observed m x"
          have x: "x \<in> set (db_events d)" "ev_id ?y = ev_id x"
            using open_loss_row [OF closed(1)] by (simp_all add: recovered_loss_def)
          obtain d2 rs where r2: "resolve_event_alerts d1 now ?y None = Inr (d2, rs)"
            by (auto simp: resolve_event_alerts_def Let_def)
          have "event_progress zones d d2" using close_event_progress [OF inv x] r2 closed(3) by blast
          then show ?thesis using Some True r r2 closed(4) by (simp add: source_transition_def)
        qed
      qed
    next
      case False
      show ?thesis
      proof (cases "source_lost d event_id cam (Aware boundary) stream app vhost")
        case (Inl e)
        then show ?thesis using same Some False by (simp add: source_transition_def)
      next
        case (Inr r)
        then obtain d1 e where r: "source_lost d event_id cam (Aware boundary) stream app vhost = Inr (d1, e)" by (cases r) simp
        have mid: "event_progress zones d d1 \<and> e \<in> set (db_events d1) \<and> ev_ended_at e = None \<and> db_alerts d1 = db_alerts d"
          using r
        proof (cases rule: source_lost_cases)
          case (still x)
          have x: "x \<in> set (db_events d)" "ev_ended_at x = None" "ev_id e = ev_id x"
            using open_loss_row [OF still(1)] still(2) by (auto simp: open_loss_def)
          then have "event_progress zones d d1"
            unfolding still(3) using still(2) by (intro update_event_progress [OF inv]) simp_all
          then show ?thesis using x still update_event_mem [OF x(1,3)] by simp
        next
          case (new observed)
          have "ev_id e = event_id" "ev_ended_at e = None"
            unfolding new(3) by (simp_all add: loss_event_def system_event_def redacted_def)
          then show ?thesis unfolding new(4) using fresh(2)
            by (auto intro!: add_event_progress [OF inv]) (simp add: add_event_def)
        qed
        then have inv1: "alert_inv zones d1" and fresh1: "fresh_alerts ids d1"
          using fresh(1) fresh_alerts_frame [of d1 d ids] by (simp_all add: event_progress_def)
        show ?thesis
        proof (cases "evaluate_event zones ids d1 now e")
          case (Inl err)
          then show ?thesis using same Some False r by (simp add: source_transition_def)
        next
          case (Inr s)
          then obtain d2 as ks where s: "evaluate_event zones ids d1 now e = Inr (d2, as, ks)" by (cases s) auto
          have "event_progress zones d1 d2"
            using evaluate_event_progress [OF inv1 s fresh1] mid by blast
          then have "event_progress zones d d2" using mid event_progress_trans by blast
          then show ?thesis using Some False r s by (simp add: source_transition_def)
        qed
      qed
    qed
  qed
qed

text \<open>A recording trigger touches no alert, policy or event.\<close>

lemma upsert_provider_frame:
  assumes "upsert_provider uuid5 k d e = Inr (d', t, changed)"
  shows "db_alerts d' = db_alerts d \<and> db_alert_policies d' = db_alert_policies d \<and> db_events d' = db_events d"
  using assms
  by (auto simp: upsert_provider_def and_then_eq_Inr insert_trigger_def flush_trigger_def add_trigger_def update_trigger_def Let_def
      split: option.splits if_splits prod.splits)

lemma frigate_report_progress:
  assumes inv: "alert_inv zones d" and fresh: "fresh_alerts ids d" "get_event d event_id = None"
    and source: "py_strip (ei_source item) \<noteq> ''system''"
    and r: "frigate_report uuid5 zones ids d event_id trigger_id now item = Inr (d', u, trigger, ks)"
  shows "event_progress zones d d'"
proof -
  obtain d1 d2 t as where s: "upsert_event d event_id item = Inr (d1, u)"
    "(case frigate_trigger (eu_event u) of None \<Rightarrow> Inr (d1, None, False)
      | Some e \<Rightarrow> upsert_provider uuid5 trigger_id d1 e) = Inr (d2, trigger, t)"
    "evaluate_event zones ids d2 now (eu_event u) = Inr (d', as, ks)"
    using r by (auto simp: frigate_report_def and_then_eq_Inr)
  have same: "db_alerts d2 = db_alerts d1" "db_alert_policies d2 = db_alert_policies d1" "db_events d2 = db_events d1"
    using s(2) upsert_provider_frame by (auto split: option.splits)
  have mid: "event_progress zones d d1 \<and> eu_event u \<in> set (db_events d1) \<and> ev_source (eu_event u) \<noteq> ''system''
      \<and> db_alerts d1 = db_alerts d"
    using s(1)
  proof (cases rule: upsert_event_cases)
    case v: (1 key period texts e)
    have "ek_source key = py_strip (ei_source item)"
      using v(1) by (auto simp: event_key_of_def event_text_def Let_def and_then_eq_Inr split: if_splits)
    moreover have "ev_source e = ek_source key" using v(7) by (simp add: reported_row_def)
    ultimately have e: "ev_source e \<noteq> ''system''" using source by simp
    show ?thesis
    proof (cases "existing_event d key")
      case None
      then have "ev_id e = event_id" "d1 = add_event e d" using v(7,8) by simp_all
      then show ?thesis using e v(9) fresh(2) add_event_progress [OF inv] by (simp add: add_event_def)
    next
      case (Some x)
      have x: "x \<in> set (db_events d)" "ev_id e = ev_id x" using existing_event_Some [OF Some] v(7) Some by simp_all
      have "event_progress zones d (update_event (ev_id x) (\<lambda>_. e) d)"
        using x e by (intro update_event_progress [OF inv]) simp_all
      then show ?thesis using e v(8,9) Some update_event_mem [OF x] by simp
    qed
  qed
  then have "event_progress zones d d1" by blast
  moreover have "event_progress zones d1 d2" if "alert_inv zones d1"
    using that alert_table_frame [OF same(1,3)] alerts_progress_same [OF same(1)]
    by (intro event_progressI [OF that]) (simp_all add: alert_inv_def same)
  ultimately have d2: "event_progress zones d d2" using event_progress_trans by (auto simp: event_progress_def)
  have fresh2: "fresh_alerts ids d2" using fresh(1) mid fresh_alerts_frame [of d2 d ids] same by (auto simp: event_progress_def)
  have "event_progress zones d2 d'"
    using evaluate_event_progress [OF _ s(3) fresh2] d2 mid same(3) by (auto simp: event_progress_def)
  then show ?thesis using event_progress_trans [OF d2] by blast
qed

subsection \<open>The capacity guard\<close>

lemma transition_shape:
  assumes "storage_health_transition d k nonce t name (Aware observed) level ob = Inr (d1, h)"
  obtains d0 where
    "ht_closed h = None \<and> d0 = d
     \<or> (\<exists>x y. ht_closed h = Some y \<and> x \<in> set (db_events d) \<and> ev_id y = ev_id x \<and> d0 = update_event (ev_id x) (\<lambda>_. y) d)"
    "ht_opened h = None \<and> d1 = d0 \<or> (\<exists>e. ht_opened h = Some e \<and> ev_id e = k \<and> ev_ended_at e = None \<and> d1 = add_event e d0)"
proof -
  let ?l = "py_lower (py_strip level)"
  have new: "ev_id (health_event k nonce t name observed ?l ob) = k" "ev_ended_at (health_event k nonce t name observed ?l ob) = None"
    by (simp_all add: health_event_def redacted_def system_event_def)
  note unfold = storage_health_transition_def Let_def require_utc_def new
  show thesis
  proof (cases "open_storage_health d t")
    case None
    then show thesis using assms by (intro that [of d]) (auto simp: unfold split: if_splits)
  next
    case (Some x)
    then have x: "x \<in> set (db_events d)" using open_health_row by blast
    show thesis
    proof (cases "?l = ''ok'' \<or> ev_label x \<noteq> Some (''storage_'' @ ?l)")
      case True
      then have "ht_closed h = Some (close_health observed ?l x)"
        using assms Some by (auto simp: unfold split: if_splits)
      moreover have "ht_opened h = None \<and> d1 = update_event (ev_id x) (\<lambda>_. close_health observed ?l x) d
          \<or> ht_opened h = Some (health_event k nonce t name observed ?l ob)
            \<and> d1 = add_event (health_event k nonce t name observed ?l ob) (update_event (ev_id x) (\<lambda>_. close_health observed ?l x) d)"
        using assms Some True by (auto simp: unfold split: if_splits)
      ultimately show thesis using x
        by (intro that [of "update_event (ev_id x) (\<lambda>_. close_health observed ?l x) d"]) (auto simp: new)
    next
      case False
      then show thesis using assms Some by (intro that [of d]) (auto simp: unfold split: if_splits)
    qed
  qed
qed

lemma resolve_add_event:
  "resolve_event_alerts (add_event e d) now y None =
     and_then (resolve_event_alerts d now y None) (\<lambda>(d', rs). Inr (add_event e d', rs))"
  by (simp add: resolve_event_alerts_def Let_def add_event_def)

lemma health_observed_progress:
  assumes inv: "alert_inv zones d" and fresh: "fresh_alerts (gi_alerts g t) d" "get_event d (gi_event g t) = None"
    and r: "health_observed zones g names now observed t level ob d = Inr (d', ks)"
  shows "event_progress zones d d' \<and> ev_id ` set (db_events d') \<subseteq> insert (gi_event g t) (ev_id ` set (db_events d))
    \<and> al_id ` set (db_alerts d')
        \<subseteq> al_id ` set (db_alerts d) \<union> (\<lambda>p. ni_alert (gi_alerts g t) (ap_id p)) ` set (db_alert_policies d)"
proof -
  obtain d1 h where s1: "storage_health_transition d (gi_event g t) (gi_nonce g t) t (names t) (Aware observed) level ob = Inr (d1, h)"
    using r by (auto simp: health_observed_def and_then_eq_Inr)
  then obtain d2 where s:
    "(case ht_closed h of None \<Rightarrow> Inr d1 | Some e \<Rightarrow> and_then (resolve_event_alerts d1 now e None) (\<lambda>(d2, _). Inr d2)) = Inr d2"
    "(case ht_opened h of None \<Rightarrow> Inr (d2, [])
      | Some e \<Rightarrow> and_then (evaluate_event zones (gi_alerts g t) d2 now e) (\<lambda>(d3, _, ks). Inr (d3, ks))) = Inr (d', ks)"
    using r by (auto simp: health_observed_def and_then_eq_Inr)
  obtain d0 where t0: "ht_closed h = None \<and> d0 = d
     \<or> (\<exists>x y. ht_closed h = Some y \<and> x \<in> set (db_events d) \<and> ev_id y = ev_id x \<and> d0 = update_event (ev_id x) (\<lambda>_. y) d)"
    and t1: "ht_opened h = None \<and> d1 = d0
      \<or> (\<exists>e. ht_opened h = Some e \<and> ev_id e = gi_event g t \<and> ev_ended_at e = None \<and> d1 = add_event e d0)"
    by (rule transition_shape [OF s1])
  obtain c where c: "event_progress zones d c" "map ev_id (db_events c) = map ev_id (db_events d)"
      "map al_id (db_alerts c) = map al_id (db_alerts d)"
      "d2 = (case ht_opened h of None \<Rightarrow> c | Some e \<Rightarrow> add_event e c)"
  proof (cases "ht_closed h")
    case None
    then show thesis using that [of d] t0 t1 s(1) inv by (auto simp: event_progress_def alerts_progress_same)
  next
    case (Some y)
    with t0 obtain x where x: "x \<in> set (db_events d)" "ev_id y = ev_id x" "d0 = update_event (ev_id x) (\<lambda>_. y) d" by auto
    obtain c rs where c: "resolve_event_alerts d0 now y None = Inr (c, rs)" by (auto simp: resolve_event_alerts_def Let_def)
    have "d2 = (case ht_opened h of None \<Rightarrow> c | Some e \<Rightarrow> add_event e c)"
      using t1 s(1) Some c by (auto simp: resolve_add_event)
    then show thesis using that [of c] close_event_progress [OF inv x(1,2), of now c rs] c x(3) by simp
  qed
  have pol: "db_alert_policies c = db_alert_policies d" and invc: "alert_inv zones c" using c(1) by (simp_all add: event_progress_def)
  have ids: "ev_id ` set (db_events c) = ev_id ` set (db_events d)" "al_id ` set (db_alerts c) = al_id ` set (db_alerts d)"
    using c(2,3) by (metis list.set_map)+
  show ?thesis
  proof (cases "ht_opened h")
    case None
    then show ?thesis using c(1,4) s(2) ids by auto
  next
    case (Some e)
    with t1 have e: "ev_id e = gi_event g t" "ev_ended_at e = None" by auto
    have d2: "d2 = add_event e c" using c(4) Some by simp
    have "get_event c (ev_id e) = None" using fresh(2) ids(1) e(1) by (simp add: events.get_None_iff)
    then have p2: "event_progress zones c d2" unfolding d2 by (rule add_event_progress [OF invc])
    obtain as where v: "evaluate_event zones (gi_alerts g t) d2 now e = Inr (d', as, ks)" using s(2) Some by (auto simp: and_then_eq_Inr)
    have fresh2: "fresh_alerts (gi_alerts g t) d2"
      using fresh(1) ids(2) pol d2 by (simp add: fresh_alerts_def alerts.get_None_iff)
    have "alert_inv zones d2" using p2 by (simp add: event_progress_def)
    note p3 = evaluate_event_progress [OF this v fresh2 _ ]
    have "event_progress zones d2 d' \<and> db_events d' = db_events d2
      \<and> al_id ` set (db_alerts d') \<subseteq> al_id ` set (db_alerts d2) \<union> (\<lambda>p. ni_alert (gi_alerts g t) (ap_id p)) ` set (db_alert_policies d2)"
      using e(2) d2 by (intro p3) (simp_all add: add_event_def)
    moreover have "event_progress zones d d2" using c(1) p2 event_progress_trans by blast
    ultimately show ?thesis
      using event_progress_trans ids pol e(1) unfolding d2 by (auto simp: add_event_def)
  qed
qed

text \<open>The ids of a run of the guard are new: events and alerts, of every target and policy.\<close>

definition guard_fresh :: "guard_ids \<Rightarrow> uuid list \<Rightarrow> db \<Rightarrow> bool" where
  "guard_fresh g ts d \<longleftrightarrow> distinct ts \<and> inj_on (gi_event g) (set ts)
     \<and> (\<forall>t \<in> set ts. get_event d (gi_event g t) = None \<and> fresh_alerts (gi_alerts g t) d)
     \<and> (\<forall>t \<in> set ts. \<forall>u \<in> set ts. t \<noteq> u \<longrightarrow> (\<forall>p \<in> set (db_alert_policies d). \<forall>q \<in> set (db_alert_policies d).
          ni_alert (gi_alerts g t) (ap_id p) \<noteq> ni_alert (gi_alerts g u) (ap_id q)))"

lemma guard_fresh_next:
  assumes fresh: "guard_fresh g (t # ts) d" and pol: "db_alert_policies d' = db_alert_policies d"
    and ev: "ev_id ` set (db_events d') \<subseteq> insert (gi_event g t) (ev_id ` set (db_events d))"
    and al: "al_id ` set (db_alerts d') \<subseteq> al_id ` set (db_alerts d) \<union> (\<lambda>p. ni_alert (gi_alerts g t) (ap_id p)) ` set (db_alert_policies d)"
  shows "guard_fresh g ts d'"
proof -
  have "get_event d' (gi_event g u) = None \<and> fresh_alerts (gi_alerts g u) d'" if u: "u \<in> set ts" for u
  proof -
    have ut: "u \<noteq> t" and f: "get_event d (gi_event g u) = None" "fresh_alerts (gi_alerts g u) d"
      and ne: "gi_event g u \<noteq> gi_event g t"
      using fresh u by (auto simp: guard_fresh_def inj_on_def)
    have "ni_alert (gi_alerts g u) (ap_id q) \<notin> al_id ` set (db_alerts d')" if "q \<in> set (db_alert_policies d)" for q
    proof
      assume "ni_alert (gi_alerts g u) (ap_id q) \<in> al_id ` set (db_alerts d')"
      then consider "ni_alert (gi_alerts g u) (ap_id q) \<in> al_id ` set (db_alerts d)"
        | p where "p \<in> set (db_alert_policies d)" "ni_alert (gi_alerts g u) (ap_id q) = ni_alert (gi_alerts g t) (ap_id p)"
        using al by blast
      then show False
        using f(2) fresh u ut that by cases (auto simp: fresh_alerts_def alerts.get_None_iff guard_fresh_def)
    qed
    then show ?thesis using f ne ev pol by (auto simp: fresh_alerts_def alerts.get_None_iff events.get_None_iff)
  qed
  then show ?thesis using fresh pol by (auto simp: guard_fresh_def inj_on_def)
qed

lemma observe_all_progress:
  assumes "alert_inv zones d" and "guard_fresh g (map fst obs) d"
    and "observe_all zones g names now observed obs d = Inr (d', ks)"
  shows "event_progress zones d d'"
  using assms
proof (induction obs arbitrary: d ks)
  case Nil
  then show ?case by (simp add: event_progress_def alerts_progress_same)
next
  case (Cons ob obs)
  obtain t level o1 where ob: "ob = (t, level, o1)" by (cases ob)
  from Cons.prems(3) obtain d1 k1 k2 where s: "health_observed zones g names now observed t level o1 d = Inr (d1, k1)"
    "observe_all zones g names now observed obs d1 = Inr (d', k2)" by (auto simp: ob and_then_eq_Inr)
  have fresh: "guard_fresh g (t # map fst obs) d" using Cons.prems(2) by (simp add: ob)
  then have "fresh_alerts (gi_alerts g t) d" "get_event d (gi_event g t) = None" by (simp_all add: guard_fresh_def)
  note p = health_observed_progress [OF Cons.prems(1) this s(1)]
  have "guard_fresh g (map fst obs) d1"
    using p by (intro guard_fresh_next [OF fresh]) (auto simp: event_progress_def)
  then have "event_progress zones d1 d'" using p s(2) by (intro Cons.IH) (simp_all add: event_progress_def)
  with p [THEN conjunct1] show ?case by (rule event_progress_trans)
qed

lemma capacity_guard_progress:
  assumes inv: "alert_inv zones d" and fresh: "guard_fresh g (map st_id (guarded_targets d)) d"
    and r: "capacity_guard zones g names statvfs d now observed = Inr res"
  shows "event_progress zones d (gu_db res)"
proof -
  obtain obs d' ks where s: "map_result (\<lambda>t. and_then (observe_target statvfs t) (\<lambda>x. Inr (st_id t, x))) (guarded_targets d) = Inr obs"
    "observe_all zones g names now observed obs d = Inr (d', ks)" "gu_db res = d'"
    using r by (auto simp: capacity_guard_def and_then_eq_Inr)
  have "map fst obs = map st_id (guarded_targets d)"
    using s(1) unfolding map_result_Inr_iff
    by (induction rule: list_all2_induct) (auto simp: and_then_eq_Inr)
  then show ?thesis using observe_all_progress [OF inv _ s(2)] fresh s(3) by simp
qed

section \<open>All of it in any order\<close>

inductive alert_step :: "zones \<Rightarrow> db \<Rightarrow> db \<Rightarrow> bool" for zones where
  alert_acknowledged: "acknowledge_alert d now context k = Inr d' \<Longrightarrow> alert_step zones d d'"
| alert_resolved: "resolve_alert d now context k = Inr d' \<Longrightarrow> alert_step zones d d'"
| alert_policy_created: "\<lbrakk>create_alert_policy zones d context k name enabled severity m a cooldown = Inr d'; get_policy d k = None\<rbrakk>
    \<Longrightarrow> alert_step zones d d'"
| alert_policy_updated: "update_alert_policy zones d context k changes = Inr d' \<Longrightarrow> alert_step zones d d'"
| alert_policy_deleted: "delete_alert_policy d context k = Inr d' \<Longrightarrow> alert_step zones d d'"
| alert_source: "\<lbrakk>source_transition zones ids bindings d event_id now boundary registered stream app vhost = (d', ks);
      fresh_alerts ids d; get_event d event_id = None\<rbrakk> \<Longrightarrow> alert_step zones d d'"
| alert_frigate: "\<lbrakk>frigate_report uuid5 zones ids d event_id trigger_id now item = Inr (d', u, trigger, ks); py_strip (ei_source item) \<noteq> ''system'';
      fresh_alerts ids d; get_event d event_id = None\<rbrakk> \<Longrightarrow> alert_step zones d d'"
| alert_guard: "\<lbrakk>capacity_guard zones g names statvfs d now observed = Inr res; guard_fresh g (map st_id (guarded_targets d)) d\<rbrakk>
      \<Longrightarrow> alert_step zones d (gu_db res)"
| alert_elsewhere: "\<lbrakk>db_alerts d' = db_alerts d; db_alert_policies d' = db_alert_policies d; db_events d' = db_events d\<rbrakk>
      \<Longrightarrow> alert_step zones d d'"

lemma alert_step_progress:
  assumes "alert_step zones d d'" and inv: "alert_inv zones d"
  shows "alert_inv zones d' \<and> alerts_progress d d'"
  using assms(1)
proof cases
  case alert_acknowledged
  then show ?thesis using acknowledge_alert_ok inv by blast
next
  case alert_resolved
  then show ?thesis using resolve_alert_ok inv by blast
next
  case (alert_policy_created)
  then show ?thesis using policy_requests_ok(1) [OF inv] by blast
next
  case (alert_policy_updated)
  then show ?thesis using policy_requests_ok(2) [OF inv] by blast
next
  case (alert_policy_deleted)
  then show ?thesis using policy_requests_ok(3) [OF inv] by blast
next
  case alert_source
  from source_transition_progress [OF inv alert_source(2,3)] have "event_progress zones d d'"
    using alert_source(1) by (metis fst_conv)
  then show ?thesis by (simp add: event_progress_def)
next
  case alert_frigate
  from frigate_report_progress [OF inv alert_frigate(3,4,2,1)] show ?thesis by (simp add: event_progress_def)
next
  case alert_guard
  then show ?thesis using capacity_guard_progress [OF inv] by (auto simp: event_progress_def)
next
  case alert_elsewhere
  then show ?thesis
    using inv policies_ok_table [OF alert_elsewhere(2)] alert_table_frame [OF alert_elsewhere(1,3)] alerts_progress_same
    by (simp add: alert_inv_def)
qed

lemma alert_steps_progress:
  assumes "(alert_step zones)\<^sup>*\<^sup>* d d'" and "alert_inv zones d"
  shows "alert_inv zones d' \<and> alerts_progress d d'"
  using assms
proof (induction rule: rtranclp_induct)
  case base
  then show ?case by (simp add: alerts_progress_same)
next
  case (step e f)
  then show ?case using alert_step_progress alerts_progress_trans by blast
qed

section \<open>Properties\<close>

text \<open>
  C18: An event raises an alert for exactly the policies it deserves one for, in the order of their ids:
  one open alert each, with one pending notification per enabled target the policy names and the
  protection of the recording it asks for, and nothing else changes.
\<close>

theorem alert_raised_exactly:
  assumes "evaluate_event zones ids d now e = Inr (d', as, ks)" and "distinct (map ap_id (db_alert_policies d))"
  shows "\<exists>raised. (\<forall>p. p \<in> set raised \<longleftrightarrow> p \<in> set (db_alert_policies d) \<and> deserves_alert zones d p e)
    \<and> sorted (map ap_id raised) \<and> distinct raised \<and> evaluation_of ids now e d raised (d', as, ks)"
proof -
  let ?sorted = "sort_key ap_id (filter ap_enabled (db_alert_policies d))"
  let ?raised = "if in_maintenance d e then [] else filter (\<lambda>p. raises zones d p e = Inr True) ?sorted"
  have "evaluation_of ids now e d ?raised (d', as, ks)" by (rule evaluate_event_exact [OF assms])
  moreover have "p \<in> set ?raised \<longleftrightarrow> p \<in> set (db_alert_policies d) \<and> deserves_alert zones d p e" for p
    using raises_deserves [of d e zones p] matches_enabled [of zones p e] by (auto simp: deserves_alert_def)
  moreover have "sorted (map ap_id ?raised)" by (simp add: sorted_filter)
  moreover have "distinct ?raised" using assms(2) by (simp add: distinct_map)
  ultimately show ?thesis by blast
qed

text \<open>
  C20: Whatever is requested and reported, the stored policies are typed documents: every policy can be
  matched against every event, and the evaluation of an event always returns.
\<close>

theorem stored_policies_evaluate:
  assumes "(alert_step zones)\<^sup>*\<^sup>* d d'" and "policies_ok zones d" and "alert_table_ok d"
  shows "(\<forall>p \<in> set (db_alert_policies d'). policy_ok zones p \<and> (\<forall>e. \<exists>b. matches zones p e = Inr b))
    \<and> (\<forall>ids now e. \<exists>r. evaluate_event zones ids d' now e = Inr r)"
proof -
  have "policies_ok zones d'" using alert_steps_progress [OF assms(1)] assms(2,3) by (simp add: alert_inv_def)
  then have ok: "\<forall>p \<in> set (db_alert_policies d'). policy_ok zones p" by (simp add: policies_ok_def)
  then have "\<forall>p \<in> set (db_alert_policies d'). match_ok zones (ap_match_json p)" by (simp add: policy_ok_def)
  then show ?thesis using ok matches_total evaluate_event_total by blast
qed

text \<open>
  C19: The alert table stays sound: ids are unique, a policy has at most one alert per event, timestamps
  agree with states, and no alert about an interval of the system, a lost source or a storage
  problem, is left unresolved once the interval is over.
\<close>

theorem alert_table_sound:
  assumes "(alert_step zones)\<^sup>*\<^sup>* d d'" and "policies_ok zones d" and "alert_table_ok d"
  shows "distinct (map al_id (db_alerts d'))
    \<and> (\<forall>a \<in> set (db_alerts d'). \<forall>b \<in> set (db_alerts d'). same_cause a b \<longrightarrow> a = b)
    \<and> (\<forall>a \<in> set (db_alerts d'). alert_row_ok a \<and>
         (\<exists>e \<in> set (db_events d'). ev_id e = al_event_id a
            \<and> (ev_source e = ''system'' \<and> al_state a \<noteq> Resolved \<longrightarrow> ev_ended_at e = None)))"
proof -
  have ok: "alert_table_ok d'" using alert_steps_progress [OF assms(1)] assms(2,3) by (simp add: alert_inv_def)
  then have "a = b" if "a \<in> set (db_alerts d')" "b \<in> set (db_alerts d')" "same_cause a b" for a b
    using that unfolding alert_table_ok_def distinct_map inj_on_def by blast
  then show ?thesis using ok by (auto simp: alert_table_ok_def explained_by_def)
qed

text \<open>
  C21: No alert is ever lost, and it only moves forward: from open to acknowledged to resolved, with its
  cause, text and camera unchanged; a resolved alert changes no more, but for the policy it forgets
  when the policy is deleted.
\<close>

theorem alert_lifecycle:
  assumes "(alert_step zones)\<^sup>*\<^sup>* d d'" and "policies_ok zones d" and "alert_table_ok d" and "get_alert d k = Some a"
  shows "\<exists>b. get_alert d' k = Some b \<and> alert_keeps a b"
proof -
  have "evolves al_id alert_keeps (db_alerts d) (db_alerts d')"
    using alert_steps_progress [OF assms(1)] assms(2,3) by (simp add: alert_inv_def alerts_progress_def)
  moreover have "find (\<lambda>r. al_id r = k) (db_alerts d) = Some a" using assms(4) by (simp add: get_alert_def)
  ultimately show ?thesis by (metis alert_rows.evolves_find get_alert_def)
qed

subsection \<open>What goes wrong\<close>

lemma observe_target_total:
  "\<exists>level ob. observe_target statvfs t = Inr (level, ob) \<and> level \<in> {''normal'', ''warning'', ''high'', ''critical'', ''unavailable''}"
proof -
  have "\<exists>status code. e = ApiError status code" if "inspect_capacity statvfs path config = Inl e" for path config e
    using that by (auto simp: inspect_capacity_def watermarks_of_def watermark_value_def and_then_def Let_def
        split: option.splits pyobj.splits if_splits sum.splits)
  note api = this
  show ?thesis
  proof (cases "\<exists>raw. map_of (st_config_json t) ''path'' = Some (PStr raw) \<and> raw \<noteq> []")
    case True
    then obtain raw where raw: "map_of (st_config_json t) ''path'' = Some (PStr raw)" "raw \<noteq> []" by blast
    show ?thesis
    proof (cases "inspect_capacity statvfs (path_of raw) (st_config_json t)")
      case (Inl e)
      then obtain status code where "e = ApiError status code" using api by blast
      then show ?thesis using raw Inl by (simp add: observe_target_def unavailable_def)
    next
      case (Inr c)
      then show ?thesis using raw by (cases "ca_level c") (simp_all add: observe_target_def level_text_def)
    qed
  next
    case False
    then have "observe_target statvfs t = Inr (unavailable ''recording_storage_path_unconfigured'')"
      by (auto simp: observe_target_def split: option.split pyobj.split)
    then show ?thesis by (simp add: unavailable_def)
  qed
qed

lemma health_observed_known:
  assumes "policies_ok zones d" and "level \<in> {''warning'', ''high'', ''critical'', ''unavailable''}"
  shows "\<exists>d' ks. health_observed zones g names now observed t level ob d = Inr (d', ks) \<and> policies_ok zones d'"
proof -
  have l: "py_lower (py_strip level) = level" "level \<in> set health_levels"
    using assms(2) by (auto simp: health_levels_def py_strip_def py_lower_def is_space_def lower_char_def code_of_def)
  obtain d1 h where s1: "storage_health_transition d (gi_event g t) (gi_nonce g t) t (names t) (Aware observed) level ob = Inr (d1, h)"
  proof -
    have "\<exists>r. storage_health_transition d (gi_event g t) (gi_nonce g t) t (names t) (Aware observed) level ob = Inr r"
      using l by (simp add: storage_health_transition_def Let_def require_utc_def)
    then show thesis using that by (metis surj_pair)
  qed
  obtain d0 where "ht_closed h = None \<and> d0 = d
     \<or> (\<exists>x y. ht_closed h = Some y \<and> x \<in> set (db_events d) \<and> ev_id y = ev_id x \<and> d0 = update_event (ev_id x) (\<lambda>_. y) d)"
    "ht_opened h = None \<and> d1 = d0
      \<or> (\<exists>e. ht_opened h = Some e \<and> ev_id e = gi_event g t \<and> ev_ended_at e = None \<and> d1 = add_event e d0)"
    by (rule transition_shape [OF s1])
  then have pol: "db_alert_policies d1 = db_alert_policies d" by auto
  obtain d2 where s2: "(case ht_closed h of None \<Rightarrow> Inr d1 | Some e \<Rightarrow> and_then (resolve_event_alerts d1 now e None) (\<lambda>(d2, _). Inr d2)) = Inr d2"
    "db_alert_policies d2 = db_alert_policies d1"
    by (cases "ht_closed h") (auto simp: resolve_event_alerts_def Let_def)
  then have ok2: "policies_ok zones d2" using assms(1) policies_ok_table pol by metis
  show ?thesis
  proof (cases "ht_opened h")
    case None
    then show ?thesis using s1 s2 ok2 by (simp add: health_observed_def)
  next
    case (Some e)
    have "\<forall>p \<in> set (db_alert_policies d2). match_ok zones (ap_match_json p)" using ok2 by (simp add: policies_ok_def policy_ok_def)
    then obtain d3 as ks where s3: "evaluate_event zones (gi_alerts g t) d2 now e = Inr (d3, as, ks)"
      using evaluate_event_total [of d2 zones "gi_alerts g t" now e] by (metis surj_pair)
    have "distinct (map ap_id (db_alert_policies d2))" using ok2 by (simp add: policies_ok_def)
    then have "db_alert_policies d3 = db_alert_policies d2" by (rule evaluate_event_alerts [OF s3])
    then have "policies_ok zones d3" using ok2 policies_ok_table by metis
    then show ?thesis using s1 s2 s3 Some by (simp add: health_observed_def)
  qed
qed

lemma health_observed_normal: "health_observed zones g names now observed t ''normal'' ob d = Inl ValueError"
proof -
  have "py_lower (py_strip ''normal'') \<notin> set health_levels" by code_simp
  then show ?thesis by (simp add: health_observed_def storage_health_transition_def Let_def)
qed

lemma observe_all_normal:
  assumes "policies_ok zones d"
    and "\<forall>(t, level, ob) \<in> set obs. level \<in> {''normal'', ''warning'', ''high'', ''critical'', ''unavailable''}"
  shows "if \<exists>(t, level, ob) \<in> set obs. level = ''normal'' then observe_all zones g names now observed obs d = Inl ValueError
    else \<exists>r. observe_all zones g names now observed obs d = Inr r"
  using assms
proof (induction obs arbitrary: d)
  case (Cons x obs)
  obtain t level ob where x: "x = (t, level, ob)" by (cases x)
  show ?case
  proof (cases "level = ''normal''")
    case True
    then show ?thesis by (simp add: x health_observed_normal)
  next
    case False
    then have "level \<in> {''warning'', ''high'', ''critical'', ''unavailable''}" using Cons.prems(2) by (simp add: x)
    from health_observed_known [OF Cons.prems(1) this] obtain d1 ks where
      s: "health_observed zones g names now observed t level ob d = Inr (d1, ks)" "policies_ok zones d1" by metis
    have "if \<exists>(t, level, ob) \<in> set obs. level = ''normal'' then observe_all zones g names now observed obs d1 = Inl ValueError
      else \<exists>r. observe_all zones g names now observed obs d1 = Inr r" using Cons.IH [OF s(2)] Cons.prems(2) by simp
    then show ?thesis using s(1) False by (auto simp: x split: if_splits)
  qed
qed simp

text \<open>
  C22: The capacity guard works only while every disk has a problem: as soon as one enabled local recording
  target is below its first watermark, the level is called normal, which the health transition does not
  know, and the task ends with an exception; nothing is committed, no alert is raised or resolved and
  neither the runtimes nor the retention task are queued. In particular no storage event is closed.
\<close>

theorem capacity_guard_fails_on_normal:
  assumes "policies_ok zones d"
  shows "if \<exists>t \<in> set (guarded_targets d). \<exists>ob. observe_target statvfs t = Inr (''normal'', ob)
    then capacity_guard zones g names statvfs d now observed = Inl ValueError
    else \<exists>res. capacity_guard zones g names statvfs d now observed = Inr res"
proof -
  let ?obs = "map (\<lambda>t. (st_id t, (case observe_target statvfs t of Inr x \<Rightarrow> x))) (guarded_targets d)"
  have all: "map_result (\<lambda>t. and_then (observe_target statvfs t) (\<lambda>x. Inr (st_id t, x))) (guarded_targets d) = Inr ?obs"
  proof (rule map_result_total)
    fix t
    obtain level ob where "observe_target statvfs t = Inr (level, ob)" using observe_target_total by blast
    then show "and_then (observe_target statvfs t) (\<lambda>x. Inr (st_id t, x)) = Inr (st_id t, case observe_target statvfs t of Inr x \<Rightarrow> x)"
      by simp
  qed
  have known: "\<forall>(t, level, ob) \<in> set ?obs. level \<in> {''normal'', ''warning'', ''high'', ''critical'', ''unavailable''}"
  proof -
    have "fst (case observe_target statvfs t of Inr x \<Rightarrow> x) \<in> {''normal'', ''warning'', ''high'', ''critical'', ''unavailable''}" for t
      using observe_target_total [of statvfs t] by auto
    then show ?thesis by (auto simp: case_prod_beta)
  qed
  have normal: "(\<exists>(t, level, ob) \<in> set ?obs. level = ''normal'')
      \<longleftrightarrow> (\<exists>t \<in> set (guarded_targets d). \<exists>ob. observe_target statvfs t = Inr (''normal'', ob))"
  proof -
    have "fst (case observe_target statvfs t of Inr x \<Rightarrow> x) = ''normal'' \<longleftrightarrow> (\<exists>ob. observe_target statvfs t = Inr (''normal'', ob))" for t
      using observe_target_total [of statvfs t] by auto
    then show ?thesis by (auto simp: case_prod_beta)
  qed
  show ?thesis
    using observe_all_normal [OF assms known, of g names now observed] unfolding normal capacity_guard_def all
    by (auto split: if_splits)
qed

text \<open>
  The protection an alert asks for is inserted without the check of the protection service: it goes in
  even while the deletion of footage it covers is pending, where the service refuses the same window.
\<close>

theorem alert_protects_pending_deletion:
  assumes "evaluate_event zones ids d now e = Inr (d', as, ks)" and "distinct (map ap_id (db_alert_policies d))"
    and "p \<in> set (db_alert_policies d)" and "deserves_alert zones d p e" and "protects_recording (ap_action_json p)"
    and "ev_camera_id e = Some cam" and "q \<in> set (protection_of_alert ids now e p)"
    and "deletion_in_progress d cam (pr_started_at q) (pr_ended_at q)"
  shows "q \<in> set (db_protections d') \<and> pr_camera_id q = cam \<and> db_locations d' = db_locations d
    \<and> (\<nexists>r. protection_create d now k cam (Aware (pr_started_at q)) (Aware (pr_ended_at q)) reason by_user expires = Inr r)"
proof -
  let ?sorted = "sort_key ap_id (filter ap_enabled (db_alert_policies d))"
  let ?raised = "if in_maintenance d e then [] else filter (\<lambda>p. raises zones d p e = Inr True) ?sorted"
  have ev: "evaluation_of ids now e d ?raised (d', as, ks)" by (rule evaluate_event_exact [OF assms(1,2)])
  then have d': "db_protections d' = db_protections d @ concat (map (protection_of_alert ids now e) ?raised)"
    "db_locations d' = db_locations d" unfolding evaluation_of_def by (auto simp: alerted_def)
  have "p \<in> set ?raised"
    using assms(3,4) raises_deserves [of d e zones p] matches_enabled [of zones p e] by (auto simp: deserves_alert_def)
  then have "q \<in> set (db_protections d')" using assms(7) d'(1) by auto
  moreover have "pr_camera_id q = cam" using assms(5-7) by (auto simp: protection_of_alert_def alert_protection_def Let_def)
  moreover have "\<nexists>r. protection_create d now k cam (Aware (pr_started_at q)) (Aware (pr_ended_at q)) reason by_user expires = Inr r"
    using assms(8) by (auto simp: protection_create_def validated_window_def and_then_eq_Inr require_def require_utc_def Let_def)
  ultimately show ?thesis using d'(2) by blast
qed

text \<open>
  Weekdays without a time zone are accepted and stored, and then ignored: the policy matches on every day.
\<close>

theorem weekdays_alone_ignored:
  assumes "ws \<noteq> []" and "set ws \<subseteq> {0..6}" and "ap_enabled p"
    and "normalize_match zones d [(''weekdays'', PList (map PInt ws))] = Inr (ap_match_json p)"
  shows "map_of (ap_match_json p) ''weekdays'' = Some (PList (map PInt (sort (remdups ws)))) \<and> matches zones p e = Inr True"
proof -
  have days: "int_days (map PInt ws) = Some ws" by (induction ws) simp_all
  have "\<not> list_ex (\<lambda>x. x < 0 \<or> 6 < x) ws" using assms(2) by (force simp: list_ex_iff)
  then have "ap_match_json p = [(''weekdays'', PList (map PInt (sort (remdups ws))))]"
    using assms(1,4) days
    by (simp add: normalize_match_def allowed_match_keys_def match_cameras_def uuid_list_def match_text_keys_def string_list_def
        match_severities_def match_number_def match_weekdays_def match_time_def has_time_filter_def)
  then show ?thesis using assms(3)
    by (simp add: matches_def camera_listed_def fields_listed_def listed_def confident_enough_def long_enough_def time_match_def)
qed

section \<open>A small installation\<close>

definition example_person_policy :: alert_policy where
  "example_person_policy =
     \<lparr>ap_id = 1, ap_name = ''person'', ap_enabled = True, ap_severity = ''warning'',
      ap_match_json = [(''labels'', PList [PStr ''person''])],
      ap_action_json = [(''protect_recording'', PBool True)],
      ap_cooldown_seconds = 60\<rparr>"

definition example_detection :: event_row where
  "example_detection =
     \<lparr>ev_id = 3, ev_source = ''frigate'', ev_source_instance_id = Some ''f'', ev_source_event_id = Some ''e'', ev_camera_id = Some 5,
      ev_category = ''object'', ev_label = Some ''person'', ev_started_at = 10, ev_ended_at = None, ev_confidence = None,
      ev_severity = None, ev_zone = None, ev_snapshot_ref = None, ev_correlation_id = None, ev_metadata_json = []\<rparr>"

definition example_unwatched :: db where
  "example_unwatched = example_media_db
     \<lparr>db_cameras := [\<lparr>cam_id = 5, cam_enabled = True, cam_maintenance = False\<rparr>],
      db_events := [example_detection],
      db_scopes := [\<lparr>ps_id = 1, ps_principal_type = ''user'', ps_principal_id = 8, ps_scope_mode = ''all''\<rparr>]\<rparr>"

definition example_watched :: db where
  "example_watched = example_unwatched\<lparr>db_alert_policies := [example_person_policy]\<rparr>"

definition example_alert_ids :: alert_ids where
  "example_alert_ids = \<lparr>ni_alert = (\<lambda>k. 100 + k), ni_delivery = (\<lambda>k i. 200 + i), ni_protection = (\<lambda>k. 300 + k)\<rparr>"

definition example_operator :: auth_context where
  "example_operator = \<lparr>ac_user_id = 8, ac_role_ids = [], ac_permissions = [''alert.manage'', ''alert.acknowledge'']\<rparr>"

lemma example_policy_created:
  "create_alert_policy example_zones example_unwatched example_operator 1 ''person'' True ''warning''
     [(''labels'', PList [PStr ''person''])]
     [(''protect_recording'', PBool True)] 60 = Inr example_watched"
  by code_simp

lemma example_unwatched_ok: "policies_ok example_zones example_unwatched" "alert_table_ok example_unwatched"
  by (simp_all add: policies_ok_def alert_table_ok_def example_unwatched_def example_media_db_def empty_db_def)

lemma example_watched_step: "alert_step example_zones example_unwatched example_watched"
  by (rule alert_policy_created [OF example_policy_created])
     (simp add: get_policy_def example_unwatched_def example_media_db_def empty_db_def)

lemma example_watched_ok: "policies_ok example_zones example_watched" "alert_table_ok example_watched"
  using alert_step_progress [OF example_watched_step] example_unwatched_ok by (simp_all add: alert_inv_def)

definition example_protection_row :: recording_protection where
  "example_protection_row = alert_protection 301 0 (ap_action_json example_person_policy) example_detection 5
     (alert_of 101 example_person_policy example_detection)"

definition example_alerted :: db where
  "example_alerted = alerted example_watched [alert_of 101 example_person_policy example_detection] [] [example_protection_row]"

lemma example_raises: "raises example_zones example_watched example_person_policy example_detection = Inr True"
  by code_simp

lemma example_evaluation:
  "evaluate_event example_zones example_alert_ids example_watched 0 example_detection
    = Inr (example_alerted, [alert_of 101 example_person_policy example_detection], [])"
proof -
  have "\<not> in_maintenance example_watched example_detection" by code_simp
  moreover have "sort_key ap_id (filter ap_enabled (db_alert_policies example_watched)) = [example_person_policy]"
    by (simp add: example_watched_def example_person_policy_def)
  moreover have "raise_alert example_alert_ids 0 example_person_policy example_detection example_watched
      = (example_alerted, alert_of 101 example_person_policy example_detection, [])"
    by (simp add: raise_alert_def Let_def example_alert_ids_def example_person_policy_def protects_recording_def
        example_detection_def example_alerted_def example_protection_row_def alerted_def add_alert_def add_protection_def)
  ultimately show ?thesis using example_raises by (simp add: evaluate_event_def)
qed

lemma example_ids_distinct: "distinct (map ap_id (db_alert_policies example_watched))"
  by (simp add: example_watched_def)

lemma alert_raised_exactly_witness:
  "deserves_alert example_zones example_watched example_person_policy example_detection"
proof -
  obtain raised where raised: "\<forall>p. p \<in> set raised \<longleftrightarrow> p \<in> set (db_alert_policies example_watched)
        \<and> deserves_alert example_zones example_watched p example_detection"
      "evaluation_of example_alert_ids 0 example_detection example_watched raised
        (example_alerted, [alert_of 101 example_person_policy example_detection], [])"
    using alert_raised_exactly [OF example_evaluation example_ids_distinct] by blast
  from raised(2) have "raised \<noteq> []" by (auto simp: evaluation_of_def)
  then obtain p where "p \<in> set raised" by (cases raised) auto
  then show ?thesis using raised(1) by (auto simp: example_watched_def)
qed

lemma stored_policies_evaluate_witness:
  "(alert_step example_zones)\<^sup>*\<^sup>* example_unwatched example_watched
    \<and> policy_ok example_zones example_person_policy \<and> (\<exists>b. matches example_zones example_person_policy example_detection = Inr b)"
proof -
  have step: "(alert_step example_zones)\<^sup>*\<^sup>* example_unwatched example_watched" using example_watched_step by blast
  have "example_person_policy \<in> set (db_alert_policies example_watched)" by (simp add: example_watched_def)
  with stored_policies_evaluate [OF step example_unwatched_ok] step show ?thesis by blast
qed

definition example_open_alert :: alert where
  "example_open_alert = alert_of 101 example_person_policy example_detection"

definition example_one_alert :: db where
  "example_one_alert = example_watched\<lparr>db_alerts := [example_open_alert]\<rparr>"

lemma example_one_alert_ok: "policies_ok example_zones example_one_alert" "alert_table_ok example_one_alert"
proof -
  show "policies_ok example_zones example_one_alert"
    using example_watched_ok(1) policies_ok_table [of example_one_alert example_watched] by (simp add: example_one_alert_def)
  show "alert_table_ok example_one_alert"
    by (simp add: alert_table_ok_def example_one_alert_def example_open_alert_def example_watched_def example_unwatched_def
        explained_by_def alert_row_ok_def alert_of_def example_detection_def)
qed

lemma example_alert_found:
  "get_alert example_one_alert 101 = Some example_open_alert" "al_state example_open_alert = Open"
  by (simp_all add: get_alert_def example_one_alert_def example_open_alert_def)

lemma example_operator_allowed:
  "require_permission example_operator ''alert.manage'' = Inr ()" "require_permission example_operator ''alert.acknowledge'' = Inr ()"
  "alert_scope example_one_alert example_operator example_open_alert = Inr ()"
proof -
  have "allows (effective_scope_of example_one_alert 8 []) 5"
    by (simp add: effective_scope_of_def get_scope_def scope_of_def example_one_alert_def example_watched_def example_unwatched_def
        camera_ids_for_scope_def allows_def)
  then show "alert_scope example_one_alert example_operator example_open_alert = Inr ()"
    by (simp add: alert_scope_def example_operator_def example_open_alert_def example_detection_def require_def)
qed (simp_all add: require_permission_def require_def example_operator_def)

lemma alert_table_sound_witness:
  "\<exists>d'. alert_step example_zones example_one_alert d' \<and> map al_state (db_alerts d') = [Resolved]
     \<and> distinct (map al_id (db_alerts d'))"
proof -
  obtain d' where d': "resolve_alert example_one_alert 20 example_operator 101 = Inr d'" "map al_state (db_alerts d') = [Resolved]"
  proof -
    have "resolve_alert example_one_alert 20 example_operator 101
        = Inr (change_alert 101 (\<lambda>x. x\<lparr>al_state := Resolved, al_resolved_at := Some 20\<rparr>) example_one_alert)"
      using example_alert_found example_operator_allowed by (simp add: resolve_alert_def fetch_or_404_def fetch_or_raise_def)
    with that show thesis by (simp add: change_alert_def example_one_alert_def example_open_alert_def)
  qed
  then have step: "alert_step example_zones example_one_alert d'" by (intro alert_resolved)
  then have "(alert_step example_zones)\<^sup>*\<^sup>* example_one_alert d'" by blast
  note sound = alert_table_sound [OF this example_one_alert_ok]
  show ?thesis by (intro exI conjI) (rule step, rule d'(2), rule sound [THEN conjunct1])
qed

lemma alert_lifecycle_witness:
  "\<exists>d' b. acknowledge_alert example_one_alert 20 example_operator 101 = Inr d'
     \<and> get_alert d' 101 = Some b \<and> alert_keeps example_open_alert b"
proof -
  obtain d' where d': "acknowledge_alert example_one_alert 20 example_operator 101 = Inr d'"
  proof -
    show thesis using example_alert_found example_operator_allowed
      by (intro that) (simp add: acknowledge_alert_def fetch_or_404_def fetch_or_raise_def)
  qed
  then have "(alert_step example_zones)\<^sup>*\<^sup>* example_one_alert d'" by (blast intro: alert_acknowledged)
  then show ?thesis using d' example_alert_found(1) alert_lifecycle [OF _ example_one_alert_ok] by blast
qed

definition example_half_empty :: "path \<Rightarrow> fs_stats option" where
  "example_half_empty _ = Some \<lparr>fs_blocks = 100, fs_bavail = 50, fs_frsize = 4096\<rparr>"

definition example_guard_ids :: guard_ids where
  "example_guard_ids = \<lparr>gi_event = (\<lambda>k. 500 + k), gi_nonce = (\<lambda>k. 600 + k), gi_alerts = (\<lambda>k. example_alert_ids)\<rparr>"

lemma capacity_guard_fails_on_normal_witness:
  "capacity_guard example_zones example_guard_ids (\<lambda>_. ''disk'') example_half_empty example_watched 0 0 = Inl ValueError"
proof -
  have "case observe_target example_half_empty example_local of Inl _ \<Rightarrow> False | Inr (level, ob) \<Rightarrow> level = ''normal''"
    by code_simp
  moreover have "example_local \<in> set (guarded_targets example_watched)"
    by (simp add: guarded_targets_def is_local_recording_def example_watched_def example_unwatched_def example_media_db_def
        example_local_def)
  ultimately have "\<exists>t \<in> set (guarded_targets example_watched). \<exists>ob. observe_target example_half_empty t = Inr (''normal'', ob)"
    by (auto split: sum.splits)
  then show ?thesis using capacity_guard_fails_on_normal [OF example_watched_ok(1), of example_half_empty example_guard_ids
      "\<lambda>_. ''disk''" 0 0] by simp
qed

text \<open>The deletion of the footage of the detection is pending.\<close>

definition example_deleting :: db where
  "example_deleting = update_location 30 (\<lambda>l. l\<lparr>lo_state := Deleting\<rparr>) example_watched"

lemma alert_protects_pending_deletion_witness:
  "\<exists>d' as ks. evaluate_event example_zones example_alert_ids example_deleting 0 example_detection = Inr (d', as, ks)
     \<and> deletion_in_progress example_deleting 5 (pr_started_at example_protection_row) (pr_ended_at example_protection_row)
     \<and> example_protection_row \<in> set (db_protections d')"
proof -
  have policies: "db_alert_policies example_deleting = [example_person_policy]"
    by (simp add: example_deleting_def update_location_def example_watched_def)
  moreover have "match_ok example_zones (ap_match_json example_person_policy)"
    using example_watched_ok(1) by (simp add: policies_ok_def policy_ok_def example_watched_def)
  ultimately obtain d' as ks where
    run: "evaluate_event example_zones example_alert_ids example_deleting 0 example_detection = Inr (d', as, ks)"
    using evaluate_event_total [of example_deleting example_zones example_alert_ids 0 example_detection] by auto
  have "raises example_zones example_deleting example_person_policy example_detection = Inr True
      \<and> \<not> in_maintenance example_deleting example_detection" by code_simp
  then have deserves: "deserves_alert example_zones example_deleting example_person_policy example_detection"
    using raises_deserves by blast
  have q: "example_protection_row \<in> set (protection_of_alert example_alert_ids 0 example_detection example_person_policy)"
    by (simp add: protection_of_alert_def example_detection_def protects_recording_def example_person_policy_def
        example_protection_row_def example_alert_ids_def)
  have window: "pr_started_at example_protection_row = 10" "pr_ended_at example_protection_row = 10 + seconds 1"
    by (simp_all add: example_protection_row_def alert_protection_def Let_def example_detection_def example_person_policy_def
        action_seconds_def seconds_def)
  have pending: "deletion_in_progress example_deleting 5 10 (10 + seconds 1)" by code_simp
  have "example_protection_row \<in> set (db_protections d') \<and> pr_camera_id example_protection_row = 5
    \<and> db_locations d' = db_locations example_deleting
    \<and> (\<nexists>r. protection_create example_deleting 0 50 5 (Aware (pr_started_at example_protection_row))
              (Aware (pr_ended_at example_protection_row)) ''case'' None None = Inr r)"
    using policies deserves q pending window
    by (intro alert_protects_pending_deletion [OF run])
      (simp_all add: example_person_policy_def protects_recording_def example_detection_def)
  then show ?thesis using run pending window by auto
qed

lemma weekdays_alone_ignored_witness:
  "matches example_zones (example_person_policy\<lparr>ap_match_json := [(''weekdays'', PList [PInt 0])]\<rparr>) example_detection = Inr True"
proof -
  let ?p = "example_person_policy\<lparr>ap_match_json := [(''weekdays'', PList [PInt 0])]\<rparr>"
  have "normalize_match example_zones empty_db [(''weekdays'', PList (map PInt [0]))] = Inr (ap_match_json ?p)" by code_simp
  then show ?thesis by (intro weekdays_alone_ignored [of "[0]" ?p, THEN conjunct2]) (simp_all add: example_person_policy_def)
qed

end
