(* ===== verification/SecretStore.thy ===== *)
theory SecretStore
  imports Model
begin

text \<open>
  \<open>core/security/secret_store.py\<close>: the key ring, the encrypted rows of \<open>secret_records\<close>, their
  inspection and the rotation to the primary key. The cipher (\<open>cryptography\<close>'s HKDF and Fernet) and the
  digest that names a key are the fields of \<open>crypto\<close>, the JSON texts of payloads those of
  \<open>codec\<close>. Bytes are character lists; a fresh nonce is an argument. \<open>KeyError\<close> is the exception
  class that carries only its name here.
\<close>

section \<open>Cipher and codec\<close>

record crypto =
  cy_derive :: "string \<Rightarrow> string"
  cy_digest :: "string \<Rightarrow> string"
  cy_encrypt :: "string \<Rightarrow> string \<Rightarrow> string \<Rightarrow> string"
  cy_decrypt :: "string \<Rightarrow> string \<Rightarrow> string option"

text \<open>A token that Fernet made with a key and a nonce decrypts under that key to what it was made from.\<close>

definition fernet_ok :: "crypto \<Rightarrow> bool" where
  "fernet_ok cy = (\<forall>k n p. cy_decrypt cy k (cy_encrypt cy k n p) = Some p)"

record codec =
  js_dumps :: "dict \<Rightarrow> string"
  js_loads :: "string \<Rightarrow> pyobj option"

text \<open>JSON reads back an object of texts whose keys are distinct and in the order that \<open>sort_keys\<close> writes.\<close>

definition text_object :: "dict \<Rightarrow> bool" where
  "text_object v \<longleftrightarrow> sorted_wrt (\<lambda>a b. (a, b) \<in> lexord {(c, d). code_of c < code_of d}) (map fst v)
     \<and> (\<forall>x \<in> snd ` set v. case x of PStr s \<Rightarrow> True | _ \<Rightarrow> False)"

definition json_ok :: "codec \<Rightarrow> bool" where
  "json_ok js = (\<forall>v. text_object v \<longrightarrow> js_loads js (js_dumps js v) = Some (PDict v))"

definition key_error :: error where
  "key_error = DomainError ''KeyError''"

section \<open>The key ring\<close>

record secret_store =
  st_keys :: "(string \<times> string) list"
  st_primary :: string

definition build_key :: "crypto \<Rightarrow> string \<Rightarrow> string \<times> string" where
  "build_key cy raw = (let derived = cy_derive cy raw in (take 16 (cy_digest cy derived), derived))"

fun add_keys :: "crypto \<Rightarrow> string list \<Rightarrow> (string \<times> string) list \<Rightarrow> (string \<times> string) list" where
  "add_keys cy [] keys = keys"
| "add_keys cy (v # vs) keys =
     (let (key_id, fernet) = build_key cy v
      in if map_of keys key_id \<noteq> None then add_keys cy vs keys
         else add_keys cy vs (keys @ [(key_id, fernet)]))"

definition open_store :: "crypto \<Rightarrow> string \<Rightarrow> string list \<Rightarrow> secret_store result" where
  "open_store cy secret_key previous =
     (case add_keys cy (secret_key # previous) [] of
        [] \<Rightarrow> Inl ValueError
      | k # ks \<Rightarrow> Inr \<lparr>st_keys = k # ks, st_primary = fst k\<rparr>)"

definition configured_key_ids :: "secret_store \<Rightarrow> string set" where
  "configured_key_ids st = set (map fst (st_keys st))"

record encrypted_secret =
  es_key_id :: string
  es_ciphertext :: string
  es_version :: int

definition encrypt_bytes :: "crypto \<Rightarrow> secret_store \<Rightarrow> string \<Rightarrow> string \<Rightarrow> encrypted_secret result" where
  "encrypt_bytes cy st nonce plaintext =
     (case map_of (st_keys st) (st_primary st) of
        None \<Rightarrow> Inl key_error
      | Some cipher \<Rightarrow>
          Inr \<lparr>es_key_id = st_primary st, es_ciphertext = cy_encrypt cy cipher nonce plaintext, es_version = 1\<rparr>)"

definition decrypt_bytes :: "crypto \<Rightarrow> secret_store \<Rightarrow> string \<Rightarrow> string \<Rightarrow> int \<Rightarrow> string result" where
  "decrypt_bytes cy st key_id ciphertext version =
     (if version \<noteq> 1 then Inl ValueError
      else (case map_of (st_keys st) key_id of
          None \<Rightarrow> Inl key_error
        | Some cipher \<Rightarrow>
            (case cy_decrypt cy cipher ciphertext of None \<Rightarrow> Inl ValueError | Some plaintext \<Rightarrow> Inr plaintext)))"

definition parse_object :: "codec \<Rightarrow> string \<Rightarrow> dict result" where
  "parse_object js plaintext =
     (case js_loads js plaintext of Some (PDict v) \<Rightarrow> Inr v | _ \<Rightarrow> Inl ValueError)"

definition encrypt_json :: "crypto \<Rightarrow> codec \<Rightarrow> secret_store \<Rightarrow> string \<Rightarrow> dict \<Rightarrow> encrypted_secret result" where
  "encrypt_json cy js st nonce val = encrypt_bytes cy st nonce (js_dumps js val)"

definition decrypt_json :: "crypto \<Rightarrow> codec \<Rightarrow> secret_store \<Rightarrow> string \<Rightarrow> string \<Rightarrow> int \<Rightarrow> dict result" where
  "decrypt_json cy js st key_id ciphertext version =
     and_then (decrypt_bytes cy st key_id ciphertext version) (parse_object js)"

definition needs_rotation :: "secret_store \<Rightarrow> string \<Rightarrow> bool" where
  "needs_rotation st key_id = (key_id \<noteq> st_primary st)"

definition rotate_secret ::
    "crypto \<Rightarrow> secret_store \<Rightarrow> string \<Rightarrow> string \<Rightarrow> string \<Rightarrow> int \<Rightarrow> encrypted_secret result" where
  "rotate_secret cy st nonce key_id ciphertext version =
     and_then (decrypt_bytes cy st key_id ciphertext version) (encrypt_bytes cy st nonce)"

section \<open>Records\<close>

definition get_secret :: "db \<Rightarrow> uuid \<Rightarrow> secret_record option" where
  "get_secret d k = find (\<lambda>r. sr_id r = k) (db_secrets d)"

definition add_secret :: "secret_record \<Rightarrow> db \<Rightarrow> db" where
  "add_secret r d = d\<lparr>db_secrets := db_secrets d @ [r]\<rparr>"

definition alter_secret :: "uuid \<Rightarrow> (secret_record \<Rightarrow> secret_record) \<Rightarrow> db \<Rightarrow> db" where
  "alter_secret k f d = d\<lparr>db_secrets := map (\<lambda>r. if sr_id r = k then f r else r) (db_secrets d)\<rparr>"

interpretation secrets: keyed_table db_secrets sr_id get_secret add_secret alter_secret
  by unfold_locales (simp_all add: get_secret_def add_secret_def alter_secret_def)

text \<open>A filter that is not given does not constrain.\<close>

record secret_filter =
  sf_kind :: "string option"
  sf_owner_type :: "string option"
  sf_owner_id :: "uuid option"

definition agrees :: "'a option \<Rightarrow> 'a \<Rightarrow> bool" where
  "agrees given actual = (case given of None \<Rightarrow> True | Some x \<Rightarrow> actual = x)"

definition secret_matches :: "secret_filter \<Rightarrow> secret_record \<Rightarrow> bool" where
  "secret_matches sf r =
     (agrees (sf_kind sf) (sr_kind r) \<and> agrees (sf_owner_type sf) (sr_owner_type r)
      \<and> agrees (sf_owner_id sf) (sr_owner_id r))"

definition secret_for :: "db \<Rightarrow> uuid \<Rightarrow> secret_filter \<Rightarrow> secret_record result" where
  "secret_for d secret_ref sf =
     (case get_secret d secret_ref of
        None \<Rightarrow> Inl key_error
      | Some r \<Rightarrow> if secret_matches sf r then Inr r else Inl key_error)"

definition record_key_ids :: "db \<Rightarrow> string set" where
  "record_key_ids d = sr_key_id ` set (db_secrets d)"

definition secret_create ::
    "crypto \<Rightarrow> secret_store \<Rightarrow> db \<Rightarrow> uuid \<Rightarrow> string \<Rightarrow> string \<Rightarrow> string \<Rightarrow> uuid \<Rightarrow> string \<Rightarrow> (db \<times> uuid) result" where
  "secret_create cy st d k nonce kind owner_type owner_id plaintext =
     and_then (encrypt_bytes cy st nonce plaintext) (\<lambda>e.
       Inr (add_secret \<lparr>sr_id = k, sr_kind = kind, sr_owner_type = owner_type, sr_owner_id = owner_id,
              sr_key_id = es_key_id e, sr_encrypted_payload = es_ciphertext e, sr_version = es_version e\<rparr> d, k))"

definition open_secret :: "crypto \<Rightarrow> secret_store \<Rightarrow> secret_record \<Rightarrow> string result" where
  "open_secret cy st r = decrypt_bytes cy st (sr_key_id r) (sr_encrypted_payload r) (sr_version r)"

definition secret_read :: "crypto \<Rightarrow> secret_store \<Rightarrow> db \<Rightarrow> uuid \<Rightarrow> secret_filter \<Rightarrow> string result" where
  "secret_read cy st d secret_ref sf = and_then (secret_for d secret_ref sf) (open_secret cy st)"

definition sealed :: "encrypted_secret \<Rightarrow> secret_record \<Rightarrow> secret_record" where
  "sealed e r = r\<lparr>sr_key_id := es_key_id e, sr_encrypted_payload := es_ciphertext e, sr_version := es_version e\<rparr>"

definition secret_replace ::
    "crypto \<Rightarrow> secret_store \<Rightarrow> db \<Rightarrow> uuid \<Rightarrow> string \<Rightarrow> string \<Rightarrow> secret_filter \<Rightarrow> db result" where
  "secret_replace cy st d secret_ref nonce plaintext sf =
     and_then (secret_for d secret_ref sf) (\<lambda>r.
     and_then (encrypt_bytes cy st nonce plaintext) (\<lambda>e.
       Inr (alter_secret secret_ref (sealed e) d)))"

text \<open>The foreign key of \<open>notification_targets\<close> restricts the deletion.\<close>

definition secret_in_use :: "db \<Rightarrow> uuid \<Rightarrow> bool" where
  "secret_in_use d k = list_ex (\<lambda>t. nt_secret_ref t = Some k) (db_notification_targets d)"

definition secret_delete :: "db \<Rightarrow> uuid \<Rightarrow> secret_filter \<Rightarrow> db result" where
  "secret_delete d secret_ref sf =
     and_then (secret_for d secret_ref sf) (\<lambda>_.
     and_then (require (\<not> secret_in_use d secret_ref) IntegrityError) (\<lambda>_.
       Inr (d\<lparr>db_secrets := filter (\<lambda>r. sr_id r \<noteq> secret_ref) (db_secrets d)\<rparr>)))"

record secret_metadata =
  sm_secret_ref :: uuid
  sm_kind :: string
  sm_owner_type :: string
  sm_owner_id :: uuid
  sm_key_id :: string
  sm_version :: int
  sm_needs_rotation :: bool

definition secret_metadata_of :: "secret_store \<Rightarrow> db \<Rightarrow> uuid \<Rightarrow> secret_filter \<Rightarrow> secret_metadata result" where
  "secret_metadata_of st d secret_ref sf =
     and_then (secret_for d secret_ref sf) (\<lambda>r.
       Inr \<lparr>sm_secret_ref = sr_id r, sm_kind = sr_kind r, sm_owner_type = sr_owner_type r,
            sm_owner_id = sr_owner_id r, sm_key_id = sr_key_id r, sm_version = sr_version r,
            sm_needs_rotation = needs_rotation st (sr_key_id r)\<rparr>)"

definition secret_create_json ::
    "crypto \<Rightarrow> codec \<Rightarrow> secret_store \<Rightarrow> db \<Rightarrow> uuid \<Rightarrow> string \<Rightarrow> string \<Rightarrow> string \<Rightarrow> uuid \<Rightarrow> dict \<Rightarrow> (db \<times> uuid) result" where
  "secret_create_json cy js st d k nonce kind owner_type owner_id val =
     secret_create cy st d k nonce kind owner_type owner_id (js_dumps js val)"

definition secret_read_json :: "crypto \<Rightarrow> codec \<Rightarrow> secret_store \<Rightarrow> db \<Rightarrow> uuid \<Rightarrow> secret_filter \<Rightarrow> dict result" where
  "secret_read_json cy js st d secret_ref sf = and_then (secret_read cy st d secret_ref sf) (parse_object js)"

definition secret_replace_json ::
    "crypto \<Rightarrow> codec \<Rightarrow> secret_store \<Rightarrow> db \<Rightarrow> uuid \<Rightarrow> string \<Rightarrow> dict \<Rightarrow> secret_filter \<Rightarrow> db result" where
  "secret_replace_json cy js st d secret_ref nonce val sf =
     secret_replace cy st d secret_ref nonce (js_dumps js val) sf"

section \<open>Inspection and rotation\<close>

datatype store_status = StoreError | RotationRequired | StoreOk

record store_health =
  hs_status :: store_status
  hs_total_records :: nat
  hs_current_records :: nat
  hs_stale_records :: nat
  hs_unreadable_records :: nat
  hs_previous_key_count :: nat
  hs_primary_key_id :: string
  hs_rotation_ready :: bool

definition secrets_by_id :: "db \<Rightarrow> secret_record list" where
  "secrets_by_id d = sort_key sr_id (db_secrets d)"

definition unreadable :: "crypto \<Rightarrow> secret_store \<Rightarrow> secret_record \<Rightarrow> bool" where
  "unreadable cy st r = (case open_secret cy st r of Inl _ \<Rightarrow> True | Inr _ \<Rightarrow> False)"

definition inspect_records :: "crypto \<Rightarrow> secret_store \<Rightarrow> db \<Rightarrow> store_health" where
  "inspect_records cy st d =
     (let records = secrets_by_id d;
          current = length (filter (\<lambda>r. sr_key_id r = st_primary st) records);
          stale = length (filter (\<lambda>r. sr_key_id r \<noteq> st_primary st) records);
          bad = length (filter (unreadable cy st) records)
      in \<lparr>hs_status = (if bad \<noteq> 0 then StoreError else if stale \<noteq> 0 then RotationRequired else StoreOk),
          hs_total_records = length records, hs_current_records = current, hs_stale_records = stale,
          hs_unreadable_records = bad, hs_previous_key_count = length (st_keys st) - 1,
          hs_primary_key_id = st_primary st, hs_rotation_ready = (0 < stale \<and> bad = 0)\<rparr>)"

record rotation_result =
  rx_total_records :: nat
  rx_rotated_records :: nat
  rx_current_records :: nat
  rx_primary_key_id :: string

definition rotated_record :: "crypto \<Rightarrow> secret_store \<Rightarrow> (uuid \<Rightarrow> string) \<Rightarrow> (uuid \<Rightarrow> string) \<Rightarrow> secret_record \<Rightarrow> secret_record result" where
  "rotated_record cy st nonces plaintext_by_id r =
     (if \<not> needs_rotation st (sr_key_id r) then Inr r
      else and_then (encrypt_bytes cy st (nonces (sr_id r)) (plaintext_by_id (sr_id r))) (\<lambda>e. Inr (sealed e r)))"

definition check_rotated :: "crypto \<Rightarrow> secret_store \<Rightarrow> secret_record \<Rightarrow> unit result" where
  "check_rotated cy st r =
     and_then (open_secret cy st r) (\<lambda>_. require (sr_key_id r = st_primary st) ValueError)"

definition rotate_records ::
    "crypto \<Rightarrow> secret_store \<Rightarrow> (uuid \<Rightarrow> string) \<Rightarrow> db \<Rightarrow> (db \<times> rotation_result) result" where
  "rotate_records cy st nonces d =
     (let records = secrets_by_id d
      in and_then (map_result (open_secret cy st) records) (\<lambda>plaintexts.
         let plaintext_by_id = (\<lambda>k. case map_of (zip (map sr_id records) plaintexts) k of None \<Rightarrow> [] | Some p \<Rightarrow> p);
             rotated = length (filter (\<lambda>r. needs_rotation st (sr_key_id r)) records)
         in and_then (map_result (rotated_record cy st nonces plaintext_by_id) records) (\<lambda>records'.
            let row = (\<lambda>r. case find (\<lambda>x. sr_id x = sr_id r) records' of None \<Rightarrow> r | Some x \<Rightarrow> x)
            in and_then (map_result (check_rotated cy st) records') (\<lambda>_.
               Inr (d\<lparr>db_secrets := map row (db_secrets d)\<rparr>,
                    \<lparr>rx_total_records = length records, rx_rotated_records = rotated,
                     rx_current_records = length records - rotated, rx_primary_key_id = st_primary st\<rparr>)))))"

definition rotate_secret_store ::
    "crypto \<Rightarrow> secret_store \<Rightarrow> (uuid \<Rightarrow> string) \<Rightarrow> db \<Rightarrow> (db \<times> rotation_result \<times> store_health) result" where
  "rotate_secret_store cy st nonces d =
     (case rotate_records cy st nonces d of
        Inl _ \<Rightarrow> Inl (ApiError 409 ''secret_store_rotation_unavailable'')
      | Inr (d', result) \<Rightarrow> Inr (d', result, inspect_records cy st d'))"

section \<open>The ring\<close>

lemma add_keys_keeps: "map_of keys k = Some c \<Longrightarrow> map_of (add_keys cy vs keys) k = Some c"
proof (induction vs arbitrary: keys)
  case (Cons v vs)
  obtain i f where b: "build_key cy v = (i, f)" by fastforce
  have "map_of (keys @ [(i, f)]) k = Some c" using Cons.prems by (simp add: map_add_Some_iff)
  then show ?case using Cons.IH [OF Cons.prems] Cons.IH b by simp
qed simp

lemma add_keys_head: "keys \<noteq> [] \<Longrightarrow> \<exists>rest. add_keys cy vs keys = hd keys # rest"
proof (induction vs arbitrary: keys)
  case Nil
  then show ?case by (cases keys) simp_all
next
  case (Cons v vs)
  obtain i f where b: "build_key cy v = (i, f)" by fastforce
  have "hd (keys @ [(i, f)]) = hd keys" using Cons.prems by simp
  then show ?case using Cons.IH [of keys] Cons.IH [of "keys @ [(i, f)]"] Cons.prems b by simp
qed

text \<open>The primary key is the configured key, whatever keys precede it.\<close>

lemma open_store_exact:
  "\<exists>keys. open_store cy secret_key previous = Inr \<lparr>st_keys = keys, st_primary = fst (build_key cy secret_key)\<rparr>
    \<and> map_of keys (fst (build_key cy secret_key)) = Some (snd (build_key cy secret_key))"
proof -
  obtain i f where b: "build_key cy secret_key = (i, f)" by fastforce
  obtain rest where r: "add_keys cy previous [(i, f)] = (i, f) # rest"
    using add_keys_head [of "[(i, f)]" cy previous] by auto
  then show ?thesis using b by (simp add: open_store_def)
qed

lemma opened_primary:
  assumes "open_store cy secret_key previous = Inr st"
  shows "st_primary st = fst (build_key cy secret_key)"
    and "map_of (st_keys st) (st_primary st) = Some (snd (build_key cy secret_key))"
  using assms open_store_exact [of cy secret_key previous] by auto

lemma encrypt_opened:
  assumes "open_store cy secret_key previous = Inr st"
  shows "encrypt_bytes cy st nonce p = Inr \<lparr>es_key_id = st_primary st,
    es_ciphertext = cy_encrypt cy (snd (build_key cy secret_key)) nonce p, es_version = 1\<rparr>"
  using opened_primary [OF assms] by (simp add: encrypt_bytes_def)

text \<open>What one ring sealed, every ring with the same primary key opens.\<close>

lemma decrypt_sealed:
  assumes "fernet_ok cy" and "open_store cy secret_key previous = Inr st"
    and "open_store cy secret_key previous' = Inr st'"
  shows "decrypt_bytes cy st' (st_primary st) (cy_encrypt cy (snd (build_key cy secret_key)) nonce p) 1 = Inr p"
  using assms(1) opened_primary [OF assms(2)] opened_primary [OF assms(3)]
  by (simp add: decrypt_bytes_def fernet_ok_def)

lemma sealed_simps [simp]:
  "sr_id (sealed e r) = sr_id r" "sr_kind (sealed e r) = sr_kind r"
  "sr_owner_type (sealed e r) = sr_owner_type r" "sr_owner_id (sealed e r) = sr_owner_id r"
  by (simp_all add: sealed_def)

lemma secret_matches_sealed [simp]: "secret_matches sf (sealed e r) = secret_matches sf r"
  by (simp add: secret_matches_def)

section \<open>Reading back\<close>

lemma open_sealed:
  assumes "fernet_ok cy" and "open_store cy secret_key previous = Inr st"
    and "open_store cy secret_key previous' = Inr st'" and "encrypt_bytes cy st nonce p = Inr e"
  shows "open_secret cy st' (sealed e r) = Inr p"
  using decrypt_sealed [OF assms(1-3), of nonce p] assms(4)
  by (simp add: encrypt_opened [OF assms(2)] open_secret_def sealed_def) auto

lemma read_created:
  assumes "fernet_ok cy" and "open_store cy secret_key previous = Inr st" and "get_secret d k = None"
    and "secret_create cy st d k nonce kind owner_type owner_id p = Inr (d', k')"
  shows "k' = k" and "secret_read cy st d' j sf =
    (if j = k then if agrees (sf_kind sf) kind \<and> agrees (sf_owner_type sf) owner_type \<and> agrees (sf_owner_id sf) owner_id
                   then Inr p else Inl key_error
     else secret_read cy st d j sf)"
proof -
  show "k' = k" using assms(4) by (auto simp: secret_create_def result_simps)
  obtain e where e: "encrypt_bytes cy st nonce p = Inr e"
    and d': "d' = add_secret \<lparr>sr_id = k, sr_kind = kind, sr_owner_type = owner_type, sr_owner_id = owner_id,
              sr_key_id = es_key_id e, sr_encrypted_payload = es_ciphertext e, sr_version = es_version e\<rparr> d"
    using assms(4) by (auto simp: secret_create_def result_simps)
  let ?r = "\<lparr>sr_id = k, sr_kind = kind, sr_owner_type = owner_type, sr_owner_id = owner_id,
              sr_key_id = es_key_id e, sr_encrypted_payload = es_ciphertext e, sr_version = es_version e\<rparr>"
  have "sealed e ?r = ?r" by (simp add: sealed_def)
  then have o: "open_secret cy st ?r = Inr p" using open_sealed [OF assms(1,2,2) e, of ?r] by simp
  have g: "get_secret d' i = (if i = k then Some ?r else get_secret d i)" for i
    using secrets.get_add [of d ?r i] assms(3) d' by simp
  show "secret_read cy st d' j sf =
    (if j = k then if agrees (sf_kind sf) kind \<and> agrees (sf_owner_type sf) owner_type \<and> agrees (sf_owner_id sf) owner_id
                   then Inr p else Inl key_error
     else secret_read cy st d j sf)"
    using o by (simp add: secret_read_def secret_for_def g secret_matches_def)
qed

lemma read_deleted:
  assumes "secret_delete d k sf' = Inr d'"
  shows "secret_read cy st d' j sf = (if j = k then Inl key_error else secret_read cy st d j sf)"
proof -
  have "find P (filter Q xs) = find (\<lambda>x. Q x \<and> P x) xs" for P Q and xs :: "secret_record list"
    by (induction xs) auto
  then have g: "get_secret d' i = find (\<lambda>x. sr_id x \<noteq> k \<and> sr_id x = i) (db_secrets d)" for i
    using assms by (auto simp: secret_delete_def result_simps get_secret_def)
  have "get_secret d' i = (if i = k then None else get_secret d i)" for i
  proof (cases "i = k")
    case True
    then show ?thesis by (simp add: g find_None_iff)
  next
    case False
    then have "(\<lambda>x. sr_id x \<noteq> k \<and> sr_id x = i) = (\<lambda>x. sr_id x = i)" by auto
    then have "get_secret d' i = get_secret d i" unfolding g [of i] get_secret_def [of d] by (rule arg_cong)
    with False show ?thesis by simp
  qed
  then show ?thesis by (simp add: secret_read_def secret_for_def)
qed


lemma read_replaced:
  assumes "fernet_ok cy" and "open_store cy secret_key previous = Inr st"
    and "secret_replace cy st d k nonce p sf' = Inr d'"
  shows "secret_read cy st d' j sf =
    (if j = k then and_then (secret_for d k sf) (\<lambda>_. Inr p) else secret_read cy st d j sf)"
proof -
  obtain r e where r: "secret_for d k sf' = Inr r" and e: "encrypt_bytes cy st nonce p = Inr e"
    and d': "d' = alter_secret k (sealed e) d"
    using assms(3) by (auto simp: secret_replace_def result_simps)
  have g: "get_secret d' i = (if i = k then map_option (sealed e) (get_secret d i) else get_secret d i)" for i
    using secrets.get_upd [of "sealed e" k d i] d' by simp
  show ?thesis using open_sealed [OF assms(1,2,2) e]
    by (simp add: secret_read_def secret_for_def g split: option.split)
qed

section \<open>Rotation\<close>

lemma secrets_by_id_set [simp]: "set (secrets_by_id d) = set (db_secrets d)"
  by (simp add: secrets_by_id_def)

lemma length_secrets_by_id [simp]: "length (secrets_by_id d) = length (db_secrets d)"
  by (simp add: secrets_by_id_def)

lemma distinct_secrets_by_id: "distinct (map sr_id (db_secrets d)) \<Longrightarrow> distinct (map sr_id (secrets_by_id d))"
  by (simp add: secrets_by_id_def distinct_map inj_on_def)

lemma sort_key_map_same: "(\<And>x. k (f x) = k x) \<Longrightarrow> sort_key k (map f xs) = map f (sort_key k xs)"
proof (induction xs)
  case (Cons x xs)
  have "insort_key k (f x) (map f ys) = map f (insort_key k x ys)" for ys
    using Cons.prems by (induction ys) simp_all
  with Cons show ?case by simp
qed simp

text \<open>What a readable record becomes.\<close>

definition rotated :: "crypto \<Rightarrow> secret_store \<Rightarrow> (uuid \<Rightarrow> string) \<Rightarrow> secret_record \<Rightarrow> secret_record" where
  "rotated cy st nonces r =
     (case and_then (open_secret cy st r) (encrypt_bytes cy st (nonces (sr_id r))) of
        Inl _ \<Rightarrow> r
      | Inr e \<Rightarrow> if needs_rotation st (sr_key_id r) then sealed e r else r)"

lemma rotated_id [simp]: "sr_id (rotated cy st nonces r) = sr_id r"
  by (simp add: rotated_def split: sum.split)

lemma rotated_matches [simp]: "secret_matches sf (rotated cy st nonces r) = secret_matches sf r"
  by (simp add: rotated_def split: sum.split)

lemma unreadable_iff: "unreadable cy st r \<longleftrightarrow> (\<exists>e. open_secret cy st r = Inl e)"
  by (auto simp: unreadable_def split: sum.split)

lemma rotated_opens:
  assumes "fernet_ok cy" and "open_store cy secret_key previous = Inr st"
    and "open_store cy secret_key previous' = Inr st'" and "open_secret cy st r = Inr p"
  shows "open_secret cy st' (rotated cy st nonces r) = Inr p" and "sr_key_id (rotated cy st nonces r) = st_primary st"
proof -
  obtain e where e: "encrypt_bytes cy st (nonces (sr_id r)) p = Inr e" and k: "es_key_id e = st_primary st"
    by (simp add: encrypt_opened [OF assms(2)])
  show "sr_key_id (rotated cy st nonces r) = st_primary st"
    using e k assms(4) by (auto simp: rotated_def needs_rotation_def sealed_def)
  show "open_secret cy st' (rotated cy st nonces r) = Inr p"
  proof (cases "needs_rotation st (sr_key_id r)")
    case True
    then show ?thesis using e assms(4) open_sealed [OF assms(1-3) e, of r] by (simp add: rotated_def)
  next
    case False
    then have "sr_key_id r = fst (build_key cy secret_key)"
      using opened_primary(1) [OF assms(2)] by (simp add: needs_rotation_def)
    then have "open_secret cy st' r = open_secret cy st r"
      using opened_primary [OF assms(2)] opened_primary [OF assms(3)] by (simp add: open_secret_def decrypt_bytes_def)
    then show ?thesis using False e assms(4) by (simp add: rotated_def)
  qed
qed


lemma map_result_fails: "\<not> list_all (\<lambda>x. \<exists>y. f x = Inr y) xs \<Longrightarrow> \<exists>e. map_result f xs = Inl e"
proof (induction xs)
  case (Cons x xs)
  show ?case
  proof (cases "f x")
    case (Inr y)
    with Cons obtain e where "map_result f xs = Inl e" by auto
    with Inr show ?thesis by simp
  qed simp
qed simp

lemma find_by_id:
  assumes "distinct (map sr_id rs)" and "r \<in> set rs" and "\<And>x. sr_id (f x) = sr_id x"
  shows "find (\<lambda>x. sr_id x = sr_id r) (map f rs) = Some (f r)"
  using assms(1,2)
proof (induction rs)
  case (Cons x rs)
  show ?case
  proof (cases "x = r")
    case False
    with Cons.prems have "sr_id x \<noteq> sr_id r" "r \<in> set rs" "distinct (map sr_id rs)"
      by auto
    then show ?thesis using Cons.IH assms(3) by simp
  qed (simp add: assms(3))
qed simp

lemma rotated_record_readable:
  assumes "open_store cy secret_key previous = Inr st" and "open_secret cy st r = Inr p"
    and "plaintexts (sr_id r) = p"
  shows "rotated_record cy st nonces plaintexts r = Inr (rotated cy st nonces r)"
  using assms(2,3) encrypt_opened [OF assms(1)] by (simp add: rotated_record_def rotated_def)

lemma rotate_readable:
  assumes "fernet_ok cy" and st: "open_store cy secret_key previous = Inr st"
    and distinct: "distinct (map sr_id (db_secrets d))"
    and readable: "\<And>r. r \<in> set (db_secrets d) \<Longrightarrow> \<not> unreadable cy st r"
  shows "\<exists>result. rotate_records cy st nonces d
    = Inr (d\<lparr>db_secrets := map (rotated cy st nonces) (db_secrets d)\<rparr>, result)"
proof -
  define rs where "rs = secrets_by_id d"
  define plain where "plain r = projr (open_secret cy st r)" for r
  define texts where "texts k = (case map_of (zip (map sr_id rs) (map plain rs)) k of None \<Rightarrow> [] | Some p \<Rightarrow> p)" for k
  define row where "row r = (case find (\<lambda>x. sr_id x = sr_id r) (map (rotated cy st nonces) rs) of None \<Rightarrow> r | Some x \<Rightarrow> x)" for r
  have rs: "distinct (map sr_id rs)" "set rs = set (db_secrets d)"
    using distinct by (simp_all add: rs_def distinct_secrets_by_id)
  have plain: "open_secret cy st r = Inr (plain r)" if "r \<in> set rs" for r
    using readable [of r] that rs(2) by (auto simp: unreadable_iff plain_def) (metis sum.exhaust sum.sel(2))
  have pairs: "zip (map sr_id rs) (map plain rs) = map (\<lambda>r. (sr_id r, plain r)) rs"
    by (simp add: zip_map_map zip_same_conv_map)
  have texts: "texts (sr_id r) = plain r" if "r \<in> set rs" for r
  proof -
    have "map_of (map (\<lambda>r. (sr_id r, plain r)) rs) (sr_id r) = Some (plain r)"
      using rs(1) that by (intro map_of_is_SomeI) (auto simp: comp_def)
    then show ?thesis by (simp add: texts_def pairs)
  qed
  have 1: "map_result (open_secret cy st) rs = Inr (map plain rs)" using plain by (rule map_result_total)
  have 2: "map_result (rotated_record cy st nonces texts) rs = Inr (map (rotated cy st nonces) rs)"
  proof (rule map_result_total)
    show "rotated_record cy st nonces texts r = Inr (rotated cy st nonces r)" if "r \<in> set rs" for r
      using rotated_record_readable [OF st, of r "plain r" texts nonces] plain [OF that] texts [OF that] by simp
  qed
  have 3: "check_rotated cy st x = Inr ()" if "x \<in> set (map (rotated cy st nonces) rs)" for x
  proof -
    obtain r where r: "x = rotated cy st nonces r" "r \<in> set rs" using \<open>x \<in> _\<close> by auto
    show ?thesis using rotated_opens [OF assms(1) st st plain [OF r(2)], of nonces]
      by (simp add: check_rotated_def r(1))
  qed
  have 4: "map_result (check_rotated cy st) (map (rotated cy st nonces) rs) = Inr (map (\<lambda>_. ()) (map (rotated cy st nonces) rs))"
    using 3 by (rule map_result_total)
  have 5: "map row (db_secrets d) = map (rotated cy st nonces) (db_secrets d)"
    using find_by_id [OF rs(1), of _ "rotated cy st nonces"] rs(2) by (auto simp: row_def)
  show ?thesis
    unfolding rotate_records_def Let_def rs_def [symmetric] 1 and_then_Inr texts_def [symmetric] 2 4
      row_def [symmetric] 5
    by simp
qed

lemma rotate_unreadable:
  assumes "r \<in> set (db_secrets d)" and "unreadable cy st r"
  shows "\<exists>e. rotate_records cy st nonces d = Inl e"
proof -
  have "\<not> list_all (\<lambda>x. \<exists>y. open_secret cy st x = Inr y) (secrets_by_id d)"
    using assms by (auto simp: list_all_iff unreadable_iff intro!: bexI [of _ r])
  then obtain e where "map_result (open_secret cy st) (secrets_by_id d) = Inl e" using map_result_fails by blast
  then show ?thesis by (simp add: rotate_records_def)
qed

lemma read_rotated:
  assumes "fernet_ok cy" and "open_store cy secret_key previous = Inr st"
    and "open_store cy secret_key previous' = Inr st'"
    and readable: "\<And>r. r \<in> set (db_secrets d) \<Longrightarrow> \<not> unreadable cy st r"
    and d': "db_secrets d' = map (rotated cy st nonces) (db_secrets d)"
  shows "secret_read cy st' d' k sf = secret_read cy st d k sf"
proof -
  have "find P (map f xs) = map_option f (find P xs)" if "\<And>x. P (f x) = P x" for P f and xs :: "secret_record list"
    using that by (induction xs) auto
  then have g: "get_secret d' k = map_option (rotated cy st nonces) (get_secret d k)"
    by (simp add: get_secret_def d')
  show ?thesis
  proof (cases "get_secret d k")
    case (Some r)
    then have "r \<in> set (db_secrets d)" by (auto dest: secrets.get_Some)
    with readable obtain p where p: "open_secret cy st r = Inr p" by (metis sum.exhaust unreadable_iff)
    with rotated_opens(1) [OF assms(1-3) p] Some g show ?thesis by (simp add: secret_read_def secret_for_def)
  qed (simp add: secret_read_def secret_for_def g)
qed

lemma inspect_rotated:
  assumes "fernet_ok cy" and "open_store cy secret_key previous = Inr st"
    and readable: "\<And>r. r \<in> set (db_secrets d) \<Longrightarrow> \<not> unreadable cy st r"
    and d': "db_secrets d' = map (rotated cy st nonces) (db_secrets d)"
  shows "hs_status (inspect_records cy st d') = StoreOk"
proof -
  have "sr_key_id r = st_primary st \<and> \<not> unreadable cy st r" if r: "r \<in> set (db_secrets d')" for r
  proof -
    from r have "r \<in> rotated cy st nonces ` set (db_secrets d)" by (simp add: d')
    then obtain s where s: "s \<in> set (db_secrets d)" "r = rotated cy st nonces s" by blast
    then obtain p where p: "open_secret cy st s = Inr p" using readable by (metis sum.exhaust unreadable_iff)
    show ?thesis
      using rotated_opens [OF assms(1,2,2) p] s(2) by (simp_all add: unreadable_iff)
  qed
  then show ?thesis by (simp add: inspect_records_def Let_def filter_empty_conv)
qed

lemma inspect_unreadable: "hs_unreadable_records (inspect_records cy st d) = 0
    \<longleftrightarrow> (\<forall>r \<in> set (db_secrets d). \<not> unreadable cy st r)"
  by (simp add: inspect_records_def Let_def filter_empty_conv)

text \<open>
  C25: Key rotation is safe and all or nothing. When the inspection finds every record readable, the
  rotation succeeds, the store is healthy afterwards, and each secret reads as before under the same
  filters, also after the previous keys have been taken out of the configuration (whatever keys are
  listed as previous then). When some record is unreadable the rotation is refused.
\<close>

theorem rotation_keeps_secrets:
  assumes "fernet_ok cy" and "open_store cy secret_key previous = Inr st"
    and "distinct (map sr_id (db_secrets d))"
  shows "if hs_unreadable_records (inspect_records cy st d) = 0
    then \<exists>d' result health. rotate_secret_store cy st nonces d = Inr (d', result, health) \<and> hs_status health = StoreOk
      \<and> (\<forall>k sf previous' st'. open_store cy secret_key previous' = Inr st'
           \<longrightarrow> secret_read cy st' d' k sf = secret_read cy st d k sf)
    else rotate_secret_store cy st nonces d = Inl (ApiError 409 ''secret_store_rotation_unavailable'')"
proof (cases "hs_unreadable_records (inspect_records cy st d) = 0")
  case True
  then have readable: "\<And>r. r \<in> set (db_secrets d) \<Longrightarrow> \<not> unreadable cy st r" by (simp add: inspect_unreadable)
  let ?d = "d\<lparr>db_secrets := map (rotated cy st nonces) (db_secrets d)\<rparr>"
  obtain result where result: "rotate_records cy st nonces d = Inr (?d, result)"
    using rotate_readable [OF assms readable] by blast
  have rows: "db_secrets ?d = map (rotated cy st nonces) (db_secrets d)" by simp
  have "rotate_secret_store cy st nonces d = Inr (?d, result, inspect_records cy st ?d)"
    using result by (simp add: rotate_secret_store_def)
  moreover have "hs_status (inspect_records cy st ?d) = StoreOk" by (rule inspect_rotated [OF assms(1,2) readable rows])
  moreover have "\<forall>k sf previous' st'. open_store cy secret_key previous' = Inr st'
      \<longrightarrow> secret_read cy st' ?d k sf = secret_read cy st d k sf"
    using read_rotated [OF assms(1,2) _ readable rows] by simp
  ultimately show ?thesis using True by auto
next
  case False
  then obtain e where "rotate_records cy st nonces d = Inl e"
    using rotate_unreadable [of _ d cy st nonces] by (auto simp: inspect_unreadable)
  with False show ?thesis by (simp add: rotate_secret_store_def)
qed


text \<open>Two keys: the store was made with the old one and is configured with the new one before it.\<close>

definition example_crypto :: crypto where
  "example_crypto = \<lparr>cy_derive = (\<lambda>raw. raw), cy_digest = (\<lambda>derived. ''id-'' @ derived),
     cy_encrypt = (\<lambda>k n p. k @ p),
     cy_decrypt = (\<lambda>k c. if take (length k) c = k then Some (drop (length k) c) else None)\<rparr>"

lemma example_fernet: "fernet_ok example_crypto"
  by (simp add: fernet_ok_def example_crypto_def)

definition example_ring :: secret_store where
  "example_ring = \<lparr>st_keys = [(''id-new'', ''new''), (''id-old'', ''old'')], st_primary = ''id-new''\<rparr>"

definition example_retired :: secret_store where
  "example_retired = \<lparr>st_keys = [(''id-new'', ''new'')], st_primary = ''id-new''\<rparr>"

lemma example_opened:
  "open_store example_crypto ''new'' [''old''] = Inr example_ring"
  "open_store example_crypto ''new'' [] = Inr example_retired"
  by (simp_all add: open_store_def build_key_def example_crypto_def
      example_ring_def example_retired_def Let_def)

definition example_vault :: db where
  "example_vault = empty_db\<lparr>db_secrets :=
     [\<lparr>sr_id = 1, sr_kind = ''smtp_credentials'', sr_owner_type = ''notification_target'', sr_owner_id = 5,
       sr_key_id = ''id-old'', sr_encrypted_payload = ''oldhunter2'', sr_version = 1\<rparr>]\<rparr>"

lemma rotation_keeps_secrets_witness:
  "\<exists>d' result health. rotate_secret_store example_crypto example_ring (\<lambda>_. []) example_vault = Inr (d', result, health)
     \<and> hs_status health = StoreOk
     \<and> secret_read example_crypto example_retired d' 1 \<lparr>sf_kind = None, sf_owner_type = None, sf_owner_id = None\<rparr> = Inr ''hunter2''"
proof -
  have unreadable: "hs_unreadable_records (inspect_records example_crypto example_ring example_vault) = 0"
    by (simp add: inspect_records_def secrets_by_id_def unreadable_def open_secret_def decrypt_bytes_def example_vault_def
        example_ring_def example_crypto_def Let_def)
  have read: "secret_read example_crypto example_ring example_vault 1
      \<lparr>sf_kind = None, sf_owner_type = None, sf_owner_id = None\<rparr> = Inr ''hunter2''"
    by (simp add: secret_read_def secret_for_def secret_matches_def agrees_def get_secret_def open_secret_def
        decrypt_bytes_def example_vault_def example_ring_def example_crypto_def)
  have "distinct (map sr_id (db_secrets example_vault))" by (simp add: example_vault_def)
  from rotation_keeps_secrets [OF example_fernet example_opened(1) this, of "\<lambda>_. []"] unreadable
  show ?thesis using read example_opened(2) by fastforce
qed

text \<open>A codec for objects of texts: each text with its characters marked, and an end mark.\<close>

fun mark_text :: "string \<Rightarrow> string" where
  "mark_text [] = ''.''"
| "mark_text (c # cs) = CHR ''c'' # c # mark_text cs"

fun read_text :: "string \<Rightarrow> (string \<times> string) option" where
  "read_text [] = None"
| "read_text [x] = (if x = CHR ''.'' then Some ([], []) else None)"
| "read_text (x # c # rest) =
     (if x = CHR ''.'' then Some ([], c # rest)
      else (case read_text rest of None \<Rightarrow> None | Some (s, out) \<Rightarrow> Some (c # s, out)))"

fun read_pairs :: "nat \<Rightarrow> string \<Rightarrow> dict option" where
  "read_pairs fuel [] = Some []"
| "read_pairs 0 (c # cs) = None"
| "read_pairs (Suc fuel) (c # cs) =
     (case read_text (c # cs) of
        None \<Rightarrow> None
      | Some (key, rest) \<Rightarrow>
          (case read_text rest of
             None \<Rightarrow> None
           | Some (s, rest') \<Rightarrow> map_option ((#) (key, PStr s)) (read_pairs fuel rest')))"

definition mark_pair :: "string \<times> pyobj \<Rightarrow> string" where
  "mark_pair p = mark_text (fst p) @ mark_text (case snd p of PStr s \<Rightarrow> s | _ \<Rightarrow> [])"

definition example_codec :: codec where
  "example_codec = \<lparr>js_dumps = (\<lambda>v. concat (map mark_pair v)), js_loads = (\<lambda>s. map_option PDict (read_pairs (length s) s))\<rparr>"

lemma read_mark: "read_text (mark_text s @ rest) = Some (s, rest)"
proof (induction s)
  case Nil
  then show ?case by (cases rest) simp_all
qed simp

lemma mark_pair_Cons: "\<exists>c cs. mark_pair p = c # cs"
  by (cases "fst p") (simp_all add: mark_pair_def)

lemma read_marked_pairs:
  assumes "\<forall>x \<in> snd ` set v. case x of PStr s \<Rightarrow> True | _ \<Rightarrow> False" and "length v \<le> fuel"
  shows "read_pairs fuel (concat (map mark_pair v)) = Some v"
  using assms
proof (induction v arbitrary: fuel)
  case (Cons p v)
  then obtain key s n where p: "p = (key, PStr s)" and n: "fuel = Suc n"
    by (cases p; cases "snd p"; cases fuel) auto
  obtain c cs where start: "mark_text key @ mark_text s @ concat (map mark_pair v) = c # cs" by (cases key) simp_all
  have "read_text (c # cs) = Some (key, mark_text s @ concat (map mark_pair v))" by (simp flip: start add: read_mark)
  moreover have "read_pairs n (concat (map mark_pair v)) = Some v" using Cons n by simp
  moreover have "concat (map mark_pair (p # v)) = c # cs" by (simp add: p mark_pair_def start)
  ultimately show ?case by (simp add: n read_mark p)
qed simp

lemma example_json: "json_ok example_codec"
proof -
  have "length v \<le> length (concat (map mark_pair v))" for v
  proof (induction v)
    case (Cons p v)
    then show ?case using mark_pair_Cons [of p] by auto
  qed simp
  then show ?thesis by (simp add: json_ok_def example_codec_def text_object_def read_marked_pairs)
qed

section \<open>Objects\<close>

text \<open>
  A created object is read back under the filters that agree with its kind and owner, under no other,
  and nothing else reads differently.
\<close>

lemma json_created:
  assumes "fernet_ok cy" and "json_ok js" and "open_store cy secret_key previous = Inr st" and "get_secret d k = None"
    and "text_object val"
  shows "\<exists>d'. secret_create_json cy js st d k nonce kind owner_type owner_id val = Inr (d', k)
    \<and> (\<exists>r. db_secrets d' = db_secrets d @ [r] \<and> d' = d\<lparr>db_secrets := db_secrets d @ [r]\<rparr> \<and> sr_id r = k
         \<and> sr_kind r = kind \<and> sr_owner_type r = owner_type \<and> sr_owner_id r = owner_id)
    \<and> (\<forall>j sf. secret_read_json cy js st d' j sf =
        (if j = k then if agrees (sf_kind sf) kind \<and> agrees (sf_owner_type sf) owner_type \<and> agrees (sf_owner_id sf) owner_id
                       then Inr val else Inl key_error
         else secret_read_json cy js st d j sf))"
proof -
  obtain e where e: "encrypt_bytes cy st nonce (js_dumps js val) = Inr e"
    by (simp add: encrypt_opened [OF assms(3)])
  let ?r = "\<lparr>sr_id = k, sr_kind = kind, sr_owner_type = owner_type, sr_owner_id = owner_id,
              sr_key_id = es_key_id e, sr_encrypted_payload = es_ciphertext e, sr_version = es_version e\<rparr>"
  let ?d = "add_secret ?r d"
  have c: "secret_create cy st d k nonce kind owner_type owner_id (js_dumps js val) = Inr (?d, k)"
    using e by (simp add: secret_create_def)
  have "parse_object js (js_dumps js val) = Inr val" using assms(2,5) by (simp add: parse_object_def json_ok_def)
  then have "secret_read_json cy js st ?d j sf =
        (if j = k then if agrees (sf_kind sf) kind \<and> agrees (sf_owner_type sf) owner_type \<and> agrees (sf_owner_id sf) owner_id
                       then Inr val else Inl key_error
         else secret_read_json cy js st d j sf)" for j sf
    using read_created(2) [OF assms(1,3,4) c, of j sf] by (simp add: secret_read_json_def)
  then show ?thesis using c by (auto simp: secret_create_json_def add_secret_def)
qed

lemma json_deleted:
  assumes "secret_delete d k sf' = Inr d'"
  shows "secret_read_json cy js st d' j sf = (if j = k then Inl key_error else secret_read_json cy js st d j sf)"
  using read_deleted [OF assms] by (simp add: secret_read_json_def)

lemma json_rotated:
  assumes "fernet_ok cy" and "open_store cy secret_key previous = Inr st"
    and "distinct (map sr_id (db_secrets d))" and "rotate_secret_store cy st nonces d = Inr (d', result, health)"
  shows "secret_read_json cy js st d' k sf = secret_read_json cy js st d k sf"
    and "\<exists>f. d' = d\<lparr>db_secrets := map f (db_secrets d)\<rparr> \<and> (\<forall>r. sr_id (f r) = sr_id r \<and> sr_kind (f r) = sr_kind r
           \<and> sr_owner_type (f r) = sr_owner_type r \<and> sr_owner_id (f r) = sr_owner_id r)"
proof -
  obtain result' where r: "rotate_records cy st nonces d = Inr (d', result')"
    using assms(4) by (auto simp: rotate_secret_store_def split: sum.splits prod.splits)
  then have readable: "\<And>r. r \<in> set (db_secrets d) \<Longrightarrow> \<not> unreadable cy st r"
    using rotate_unreadable [of _ d cy st nonces] by fastforce
  have d': "d' = d\<lparr>db_secrets := map (rotated cy st nonces) (db_secrets d)\<rparr>"
    using rotate_readable [OF assms(1-3) readable, of nonces] r by auto
  have "secret_read cy st d' k sf = secret_read cy st d k sf"
    using read_rotated [OF assms(1,2,2) readable, where nonces = nonces] by (simp add: d')
  then show "secret_read_json cy js st d' k sf = secret_read_json cy js st d k sf" by (simp add: secret_read_json_def)
  have "sr_kind (rotated cy st nonces r) = sr_kind r \<and> sr_owner_type (rotated cy st nonces r) = sr_owner_type r
      \<and> sr_owner_id (rotated cy st nonces r) = sr_owner_id r" for r
    by (simp add: rotated_def split: sum.split)
  then show "\<exists>f. d' = d\<lparr>db_secrets := map f (db_secrets d)\<rparr> \<and> (\<forall>r. sr_id (f r) = sr_id r \<and> sr_kind (f r) = sr_kind r
           \<and> sr_owner_type (f r) = sr_owner_type r \<and> sr_owner_id (f r) = sr_owner_id r)"
    using d' by (intro exI [of _ "rotated cy st nonces"]) simp
qed

end
