(* ===== verification/Urls.thy ===== *)
theory Urls
  imports Uuid
begin

text \<open>
  The parts of \<open>urllib.parse\<close> that \<open>modules/notifications/service.py\<close> uses, and the two functions over
  them: which Apprise URLs may carry password reset mail, and the URL that sends it to one recipient.
  \<open>bracket_ok\<close> stands for the check of a bracketed host by \<open>ipaddress\<close>.
\<close>

section \<open>Query texts\<close>

fun split_on :: "char \<Rightarrow> string \<Rightarrow> string list" where
  "split_on sep [] = [[]]"
| "split_on sep (c # cs) =
     (if c = sep then [] # split_on sep cs
      else (case split_on sep cs of [] \<Rightarrow> [[c]] | w # ws \<Rightarrow> (c # w) # ws))"

fun join_with :: "char \<Rightarrow> string list \<Rightarrow> string" where
  "join_with sep [] = []"
| "join_with sep [w] = w"
| "join_with sep (w # v # ws) = w @ sep # join_with sep (v # ws)"

text \<open>\<open>str.partition\<close> without the separator.\<close>

definition partition_at :: "char \<Rightarrow> string \<Rightarrow> string \<times> string" where
  "partition_at sep s = (takeWhile (\<lambda>c. c \<noteq> sep) s, drop 1 (dropWhile (\<lambda>c. c \<noteq> sep) s))"

definition always_safe :: "char \<Rightarrow> bool" where
  "always_safe c = ((48 \<le> code_of c \<and> code_of c \<le> 57) \<or> (65 \<le> code_of c \<and> code_of c \<le> 90)
     \<or> (97 \<le> code_of c \<and> code_of c \<le> 122) \<or> c \<in> set ''_.-~'')"

definition quote_char :: "char \<Rightarrow> string" where
  "quote_char c = (if c = CHR '' '' then ''+'' else if always_safe c then [c]
     else CHR ''%'' # py_upper (hex_fixed 2 (code_of c)))"

definition quote_plus :: "string \<Rightarrow> string" where
  "quote_plus s = concat (map quote_char s)"

fun unquote :: "string \<Rightarrow> string" where
  "unquote (c # a # b # cs) =
     (if c = CHR ''%'' then
        (case (hex_value a, hex_value b) of
           (Some x, Some y) \<Rightarrow> char_of (16 * x + y) # unquote cs
         | _ \<Rightarrow> c # unquote (a # b # cs))
      else c # unquote (a # b # cs))"
| "unquote (c # cs) = c # unquote cs"
| "unquote [] = []"

definition unquote_plus :: "string \<Rightarrow> string" where
  "unquote_plus s = unquote (map (\<lambda>c. if c = CHR ''+'' then CHR '' '' else c) s)"

text \<open>\<open>parse_qsl(query, keep_blank_values=True)\<close> and \<open>urlencode(pairs, doseq=True)\<close> on texts.\<close>

definition parse_qsl :: "string \<Rightarrow> (string \<times> string) list" where
  "parse_qsl qs = map (\<lambda>field. map_prod unquote_plus unquote_plus (partition_at (CHR ''='') field))
     (filter (\<lambda>field. field \<noteq> []) (split_on (CHR ''&'') qs))"

definition urlencode :: "(string \<times> string) list \<Rightarrow> string" where
  "urlencode ps = join_with (CHR ''&'') (map (\<lambda>(k, v). quote_plus k @ ''='' @ quote_plus v) ps)"

section \<open>URLs\<close>

record split_url =
  ur_scheme :: string
  ur_netloc :: string
  ur_path :: string
  ur_query :: string
  ur_fragment :: string

definition is_letter :: "char \<Rightarrow> bool" where
  "is_letter c = ((65 \<le> code_of c \<and> code_of c \<le> 90) \<or> (97 \<le> code_of c \<and> code_of c \<le> 122))"

definition is_scheme_char :: "char \<Rightarrow> bool" where
  "is_scheme_char c = (is_letter c \<or> (48 \<le> code_of c \<and> code_of c \<le> 57) \<or> c \<in> set ''+-.'')"

definition clean_url :: "string \<Rightarrow> string" where
  "clean_url s = filter (\<lambda>c. code_of c \<notin> {9, 10, 13}) (dropWhile (\<lambda>c. code_of c \<le> 32) s)"

definition split_scheme :: "string \<Rightarrow> string \<times> string" where
  "split_scheme s =
     (let i = takeWhile (\<lambda>c. c \<noteq> CHR '':'') s
      in if i \<noteq> [] \<and> length i < length s \<and> is_letter (hd i) \<and> list_all is_scheme_char i
         then (py_lower i, drop (length i + 1) s) else ([], s))"

definition split_netloc :: "string \<Rightarrow> string \<times> string" where
  "split_netloc s =
     (if take 2 s = ''//''
      then (takeWhile (\<lambda>c. c \<notin> set ''/?#'') (drop 2 s), dropWhile (\<lambda>c. c \<notin> set ''/?#'') (drop 2 s))
      else ([], s))"

definition netloc_ok :: "(string \<Rightarrow> bool) \<Rightarrow> string \<Rightarrow> bool" where
  "netloc_ok bracket_ok netloc =
     (let opens = CHR ''['' \<in> set netloc; closes = CHR '']'' \<in> set netloc
      in opens = closes \<and> (opens \<longrightarrow>
           bracket_ok (fst (partition_at (CHR '']'') (snd (partition_at (CHR ''['') netloc))))))"

definition urlsplit :: "(string \<Rightarrow> bool) \<Rightarrow> string \<Rightarrow> split_url result" where
  "urlsplit bracket_ok url =
     (let (scheme, s1) = split_scheme (clean_url url);
          (netloc, s2) = split_netloc s1;
          (s3, fragment) = partition_at (CHR ''#'') s2;
          (path, query) = partition_at (CHR ''?'') s3
      in if \<not> netloc_ok bracket_ok netloc then Inl ValueError
         else Inr \<lparr>ur_scheme = scheme, ur_netloc = netloc, ur_path = path, ur_query = query, ur_fragment = fragment\<rparr>)"

definition uses_netloc :: "string list" where
  "uses_netloc = [[], ''ftp'', ''http'', ''gopher'', ''nntp'', ''telnet'', ''imap'', ''wais'', ''file'', ''mms'', ''https'',
     ''shttp'', ''snews'', ''prospero'', ''rtsp'', ''rtsps'', ''rtspu'', ''rsync'', ''svn'', ''svn+ssh'', ''sftp'', ''nfs'', ''git'',
     ''git+ssh'', ''ws'', ''wss'']"

definition urlunsplit :: "split_url \<Rightarrow> string" where
  "urlunsplit u =
     (let path = ur_path u;
          authority = (if ur_netloc u \<noteq> [] \<or> (ur_scheme u \<noteq> [] \<and> ur_scheme u \<in> set uses_netloc) \<or> take 2 path = ''//''
            then ''//'' @ ur_netloc u @ (if path \<noteq> [] \<and> take 1 path \<noteq> ''/'' then ''/'' @ path else path) else path);
          schemed = (if ur_scheme u \<noteq> [] then ur_scheme u @ '':'' @ authority else authority);
          queried = (if ur_query u \<noteq> [] then schemed @ ''?'' @ ur_query u else schemed)
      in if ur_fragment u \<noteq> [] then queried @ ''#'' @ ur_fragment u else queried)"

section \<open>Password reset mail\<close>

definition validate_password_reset_url :: "(string \<Rightarrow> bool) \<Rightarrow> string \<Rightarrow> unit result" where
  "validate_password_reset_url bracket_ok url =
     and_then (urlsplit bracket_ok (py_strip url)) (\<lambda>parsed.
       require (py_lower (ur_scheme parsed) \<in> {''mailto'', ''mailtos''} \<and> ur_path parsed \<in> {'''', ''/''}
                \<and> ur_fragment parsed = [])
         (ApiError 400 ''password_reset_target_invalid''))"

definition recipient_keys :: "string list" where
  "recipient_keys = [''to'', ''cc'', ''bcc'', ''+to'', ''+cc'', ''+bcc'']"

definition password_reset_recipient_url :: "(string \<Rightarrow> bool) \<Rightarrow> string \<Rightarrow> string \<Rightarrow> string result" where
  "password_reset_recipient_url bracket_ok url recipient =
     and_then (validate_password_reset_url bracket_ok url) (\<lambda>_.
     and_then (urlsplit bracket_ok (py_strip url)) (\<lambda>parsed.
       let filtered = filter (\<lambda>(key, _). py_lower key \<notin> set recipient_keys) (parse_qsl (ur_query parsed))
       in Inr (urlunsplit (parsed\<lparr>ur_query := urlencode (filtered @ [(''to'', recipient)]), ur_fragment := []\<rparr>))))"

section \<open>Round trips\<close>

lemma split_on_nonempty: "split_on sep s \<noteq> []"
  by (induction s) (auto split: list.split)

lemma split_on_none: "sep \<notin> set s \<Longrightarrow> split_on sep s = [s]"
  by (induction s) auto

lemma split_on_append: "sep \<notin> set s \<Longrightarrow> split_on sep (s @ sep # t) = s # split_on sep t"
  by (induction s) auto

lemma split_on_join: "ws \<noteq> [] \<Longrightarrow> \<forall>w \<in> set ws. sep \<notin> set w \<Longrightarrow> split_on sep (join_with sep ws) = ws"
  by (induction sep ws rule: join_with.induct) (auto simp: split_on_none split_on_append)

lemma partition_at_append: "sep \<notin> set s \<Longrightarrow> partition_at sep (s @ sep # t) = (s, t)"
proof -
  assume "sep \<notin> set s"
  then have "takeWhile (\<lambda>c. c \<noteq> sep) (s @ sep # t) = s" "dropWhile (\<lambda>c. c \<noteq> sep) (s @ sep # t) = sep # t"
    by (induction s) auto
  then show ?thesis by (simp add: partition_at_def)
qed

lemma partition_at_none: "sep \<notin> set s \<Longrightarrow> partition_at sep s = (s, [])"
proof -
  assume "sep \<notin> set s"
  then have "takeWhile (\<lambda>c. c \<noteq> sep) s = s" "dropWhile (\<lambda>c. c \<noteq> sep) s = []" by (induction s) auto
  then show ?thesis by (simp only: partition_at_def drop_Nil)
qed

text \<open>What a quoted text is made of.\<close>

lemma hex_fixed_two: "hex_fixed 2 n = [hex_digit (n div 16 mod 16), hex_digit (n mod 16)]"
  by (simp add: numeral_2_eq_2)

lemma upper_hex_char:
  assumes "hex_value c = Some v"
  shows "hex_value (upper_char c) = Some v" and "always_safe (upper_char c)"
proof -
  have upper: "code_of (upper_char c) = (if 97 \<le> code_of c then code_of c - 32 else code_of c)"
    using assms by (auto simp: hex_value_def upper_char_def code_of_def split: if_splits)
  show "hex_value (upper_char c) = Some v" using assms by (auto simp: hex_value_def upper split: if_splits)
  show "always_safe (upper_char c)" using assms by (auto simp: hex_value_def always_safe_def upper split: if_splits)
qed

lemma upper_hex:
  assumes "n < 16"
  shows "hex_value (upper_char (hex_digit n)) = Some n" and "always_safe (upper_char (hex_digit n))"
  using upper_hex_char [OF hex_value_digit [OF assms]] by blast+

lemma code_of_less: "code_of c < 256"
  by (simp add: code_of_def)

lemma quote_char_cases:
  obtains (space) "c = CHR '' ''" "quote_char c = ''+''"
    | (safe) "always_safe c" "c \<noteq> CHR '' ''" "quote_char c = [c]"
    | (escaped) x y where "quote_char c = [CHR ''%'', x, y]" "always_safe x" "always_safe y"
        "hex_value x = Some (code_of c div 16)" "hex_value y = Some (code_of c mod 16)"
proof -
  have "code_of c div 16 mod 16 = code_of c div 16" using code_of_less [of c] by simp
  moreover have "code_of c div 16 < 16" "code_of c mod 16 < 16" using code_of_less [of c] by simp_all
  ultimately show thesis
    using that upper_hex [of "code_of c div 16"] upper_hex [of "code_of c mod 16"]
    by (cases "c = CHR '' ''"; cases "always_safe c") (simp_all add: quote_char_def py_upper_def hex_fixed_two)
qed

lemma always_safe_plain: "always_safe c \<Longrightarrow> c \<notin> set ''%+&=?# [] '' \<and> 32 < code_of c"
  by (auto simp: always_safe_def code_of_def)


lemma unquote_char: "unquote (map (\<lambda>c. if c = CHR ''+'' then CHR '' '' else c) (quote_char c) @ t) = c # unquote t"
proof (cases c rule: quote_char_cases)
  case space
  then show ?thesis by (cases t; cases "tl t") simp_all
next
  case safe
  then have "c \<noteq> CHR ''%''" "c \<noteq> CHR ''+''" using always_safe_plain [of c] by auto
  then show ?thesis using safe by (cases t; cases "tl t") simp_all
next
  case (escaped x y)
  then have "x \<noteq> CHR ''+''" "y \<noteq> CHR ''+''" using always_safe_plain [of x] always_safe_plain [of y] by auto
  moreover have "16 * (code_of c div 16) + code_of c mod 16 = code_of c" by simp
  moreover have "char_of (code_of c) = c" by (simp add: code_of_def)
  ultimately show ?thesis using escaped by simp
qed

lemma unquote_quote: "unquote_plus (quote_plus s) = s"
proof -
  have "unquote (map (\<lambda>c. if c = CHR ''+'' then CHR '' '' else c) (concat (map quote_char s))) = s"
    by (induction s) (simp_all add: unquote_char)
  then show ?thesis by (simp add: unquote_plus_def quote_plus_def)
qed

lemma quoted_chars: "c \<in> set (quote_plus s) \<Longrightarrow> always_safe c \<or> c = CHR ''+'' \<or> c = CHR ''%''"
proof -
  assume "c \<in> set (quote_plus s)"
  then obtain x where "c \<in> set (quote_char x)" by (auto simp: quote_plus_def)
  then show ?thesis by (cases x rule: quote_char_cases) auto
qed

lemma quoted_plain: "set (quote_plus s) \<inter> set ''&=?# '' = {}"
  using quoted_chars [of _ s] always_safe_plain by fastforce

lemma parse_urlencode: "parse_qsl (urlencode ps) = ps"
proof -
  let ?field = "\<lambda>(k, v). quote_plus k @ ''='' @ quote_plus v"
  have plain: "CHR ''&'' \<notin> set (?field p)" for p
    using quoted_plain [of "fst p"] quoted_plain [of "snd p"] by (cases p) auto
  have field: "map_prod unquote_plus unquote_plus (partition_at (CHR ''='') (?field p)) = p" for p
    using quoted_plain [of "fst p"] by (cases p) (auto simp: partition_at_append unquote_quote)
  have nonempty: "?field p \<noteq> []" for p by (cases p) simp
  show ?thesis
  proof (cases ps)
    case Nil
    then show ?thesis by (simp add: parse_qsl_def urlencode_def)
  next
    case Cons
    then have "split_on (CHR ''&'') (urlencode ps) = map ?field ps"
      using plain unfolding urlencode_def by (intro split_on_join) auto
    moreover have "filter (\<lambda>f. f \<noteq> []) (map ?field ps) = map ?field ps" using nonempty by (induction ps) simp_all
    moreover have "map (\<lambda>f. map_prod unquote_plus unquote_plus (partition_at (CHR ''='') f)) (map ?field ps) = ps"
      using field by (induction ps) simp_all
    ultimately show ?thesis by (simp only: parse_qsl_def)
  qed
qed

lemma urlencode_chars: "c \<in> set (urlencode ps) \<Longrightarrow> always_safe c \<or> c \<in> set ''+%=&''"
proof -
  have "c \<in> set (join_with sep ws) \<Longrightarrow> c = sep \<or> (\<exists>w \<in> set ws. c \<in> set w)" for sep ws
    by (induction sep ws rule: join_with.induct) auto
  then show "c \<in> set (urlencode ps) \<Longrightarrow> ?thesis" using quoted_chars by (fastforce simp: urlencode_def)
qed

section \<open>The recipient of a reset mail\<close>

lemma lower_lower [simp]: "py_lower (py_lower s) = py_lower s"
proof -
  have "lower_char (lower_char c) = lower_char c" for c
    by (simp add: lower_char_def code_of_def)
  then show ?thesis by (simp add: py_lower_def)
qed

definition netloc_char :: "char \<Rightarrow> bool" where
  "netloc_char c = (c \<notin> set ''/?#'' \<and> code_of c \<notin> {9, 10, 13})"

lemma urlsplit_parts:
  assumes "urlsplit bracket_ok url = Inr p"
  shows "netloc_ok bracket_ok (ur_netloc p)" and "list_all netloc_char (ur_netloc p)"
    and "py_lower (ur_scheme p) = ur_scheme p"
proof -
  obtain scheme s1 netloc s2 where s: "split_scheme (clean_url url) = (scheme, s1)" and n: "split_netloc s1 = (netloc, s2)"
    by fastforce
  then have p: "ur_scheme p = scheme" "ur_netloc p = netloc" "netloc_ok bracket_ok netloc"
    using assms by (auto simp: urlsplit_def split: prod.splits if_splits)
  show "netloc_ok bracket_ok (ur_netloc p)" using p by simp
  have "scheme = [] \<or> (\<exists>i. scheme = py_lower i)"
    using s by (simp add: split_scheme_def Let_def split: if_splits) blast+
  then show "py_lower (ur_scheme p) = ur_scheme p" using p(1) by (auto simp: py_lower_def [of "[]"])
  have "set s1 \<subseteq> set (clean_url url)"
    using s by (auto simp: split_scheme_def Let_def split: if_splits dest: in_set_dropD)
  then have "set netloc \<subseteq> set (clean_url url)"
    using n by (auto simp: split_netloc_def split: if_splits dest!: set_takeWhileD in_set_dropD)
  moreover have "code_of c \<notin> {9, 10, 13}" if "c \<in> set (clean_url url)" for c
    using that by (simp add: clean_url_def)
  moreover have "c \<notin> set ''/?#''" if "c \<in> set netloc" for c
    using n that by (auto simp: split_netloc_def split: if_splits dest: set_takeWhileD)
  ultimately show "list_all netloc_char (ur_netloc p)" by (auto simp: list_all_iff netloc_char_def p(2))
qed

lemma takeWhile_stop: "list_all P xs \<Longrightarrow> \<not> P y \<Longrightarrow> takeWhile P (xs @ y # ys) = xs \<and> dropWhile P (xs @ y # ys) = y # ys"
  by (induction xs) auto

lemma mail_no_netloc: "''mailto'' \<notin> set uses_netloc" "''mailtos'' \<notin> set uses_netloc"
  by (simp_all add: uses_netloc_def)

lemma urlsplit_mail:
  assumes scheme: "scheme = ''mailto'' \<or> scheme = ''mailtos''" and path: "path = [] \<or> path = ''/''"
    and netloc: "list_all netloc_char netloc" "netloc_ok bracket_ok netloc"
    and query: "\<And>c. c \<in> set query \<Longrightarrow> 32 < code_of c \<and> c \<noteq> CHR ''#''"
  shows "urlsplit bracket_ok (scheme @ CHR '':'' # (if netloc = [] then path else ''//'' @ netloc @ path) @ CHR ''?'' # query)
    = Inr \<lparr>ur_scheme = scheme, ur_netloc = netloc, ur_path = path, ur_query = query, ur_fragment = []\<rparr>"
proof -
  let ?rest = "(if netloc = [] then path else ''//'' @ netloc @ path) @ CHR ''?'' # query"
  have "code_of c \<notin> {9, 10, 13}" if "c \<in> set netloc" for c
    using netloc(1) that by (simp add: list_all_iff netloc_char_def)
  moreover have "code_of c \<notin> {9, 10, 13}" if "c \<in> set query" for c using query [OF that] by simp
  moreover have "code_of (CHR ''/'') \<notin> {9, 10, 13}" "code_of (CHR ''?'') \<notin> {9, 10, 13}" by (simp_all add: code_of_def)
  moreover have "set ?rest \<subseteq> {CHR ''/'', CHR ''?''} \<union> set netloc \<union> set query" using path by auto
  ultimately have "\<forall>c \<in> set ?rest. code_of c \<notin> {9, 10, 13}" by blast
  then have plain: "filter (\<lambda>c. code_of c \<notin> {9, 10, 13}) ?rest = ?rest" by (intro filter_True)
  have clean: "clean_url (scheme @ CHR '':'' # ?rest) = scheme @ CHR '':'' # ?rest"
    using scheme plain by (auto simp: clean_url_def code_of_def)
  have schemed: "split_scheme (scheme @ CHR '':'' # ?rest) = (scheme, ?rest)"
    using scheme by (auto simp: split_scheme_def Let_def is_letter_def is_scheme_char_def code_of_def py_lower_def lower_char_def)
  have netlocs: "split_netloc ?rest = (netloc, path @ CHR ''?'' # query)"
  proof (cases "netloc = []")
    case True
    then show ?thesis using path by (auto simp: split_netloc_def)
  next
    case False
    have all: "list_all (\<lambda>c. c \<notin> set ''/?#'') netloc" using netloc(1) by (auto simp: list_all_iff netloc_char_def)
    obtain y ys where y: "path @ CHR ''?'' # query = y # ys" "y \<in> set ''/?#''" using path by (cases path) auto
    then have "takeWhile (\<lambda>c. c \<notin> set ''/?#'') (netloc @ path @ CHR ''?'' # query) = netloc
        \<and> dropWhile (\<lambda>c. c \<notin> set ''/?#'') (netloc @ path @ CHR ''?'' # query) = path @ CHR ''?'' # query"
      using takeWhile_stop [OF all, of y ys] by (simp del: set_simps)
    then show ?thesis using False by (simp add: split_netloc_def)
  qed
  have "partition_at (CHR ''#'') (path @ CHR ''?'' # query) = (path @ CHR ''?'' # query, [])"
    using path query by (intro partition_at_none) auto
  moreover have "partition_at (CHR ''?'') (path @ CHR ''?'' # query) = (path, query)"
    using path by (intro partition_at_append) auto
  ultimately show ?thesis using netloc(2) by (simp add: urlsplit_def clean schemed netlocs)
qed

lemma recipient_url_fields:
  assumes "password_reset_recipient_url bracket_ok url recipient = Inr out"
  shows "\<exists>target sent. urlsplit bracket_ok (py_strip url) = Inr target \<and> urlsplit bracket_ok out = Inr sent
    \<and> ur_scheme sent = ur_scheme target \<and> ur_netloc sent = ur_netloc target \<and> ur_path sent = ur_path target
    \<and> parse_qsl (ur_query sent)
      = filter (\<lambda>(key, _). py_lower key \<notin> {''to'', ''cc'', ''bcc'', ''+to'', ''+cc'', ''+bcc''}) (parse_qsl (ur_query target))
        @ [(''to'', recipient)]"
proof -
  obtain target where target: "urlsplit bracket_ok (py_strip url) = Inr target"
    and ok: "py_lower (ur_scheme target) \<in> {''mailto'', ''mailtos''}" "ur_path target \<in> {'''', ''/''}"
    and out: "out = urlunsplit (target\<lparr>ur_query := urlencode
        (filter (\<lambda>(key, _). py_lower key \<notin> set recipient_keys) (parse_qsl (ur_query target)) @ [(''to'', recipient)]), ur_fragment := []\<rparr>)"
    using assms by (auto simp: password_reset_recipient_url_def validate_password_reset_url_def result_simps Let_def)
  define fields where "fields = filter (\<lambda>(key, _). py_lower key \<notin> set recipient_keys) (parse_qsl (ur_query target)) @ [(''to'', recipient)]"
  define query where "query = urlencode fields"
  have scheme: "ur_scheme target = ''mailto'' \<or> ur_scheme target = ''mailtos''"
    using ok(1) urlsplit_parts(3) [OF target] by auto
  have path: "ur_path target = [] \<or> ur_path target = ''/''" using ok(2) by auto
  have parsed: "parse_qsl query = fields" by (simp add: query_def parse_urlencode)
  then have "query \<noteq> []" by (auto simp: fields_def parse_qsl_def)
  then have "out = ur_scheme target @ CHR '':'' #
      (if ur_netloc target = [] then ur_path target else ''//'' @ ur_netloc target @ ur_path target) @ CHR ''?'' # query"
    using path scheme mail_no_netloc unfolding out urlunsplit_def Let_def fields_def [symmetric] query_def [symmetric]
    by (cases "ur_netloc target = []") (elim disjE, simp_all)+
  moreover have "32 < code_of c \<and> c \<noteq> CHR ''#''" if "c \<in> set query" for c
  proof -
    from that have "always_safe c \<or> c \<in> set ''+%=&''" using urlencode_chars by (simp add: query_def)
    moreover have "\<forall>c \<in> set ''+%=&''. 32 < code_of c \<and> c \<noteq> CHR ''#''" by (simp add: code_of_def)
    ultimately show ?thesis using always_safe_plain [of c] by auto
  qed
  ultimately have "urlsplit bracket_ok out = Inr \<lparr>ur_scheme = ur_scheme target, ur_netloc = ur_netloc target,
      ur_path = ur_path target, ur_query = query, ur_fragment = []\<rparr>"
    using urlsplit_mail [OF scheme path urlsplit_parts(2,1) [OF target]] by simp
  then show ?thesis using target parsed by (auto simp: fields_def recipient_keys_def)
qed

text \<open>
  A reset mail has one recipient. The URL that the delivery of a password reset builds has the mail
  server of the configured target; its query, read back, is the configured one without every field
  that names recipients, followed by the user's address as the only one.
\<close>

theorem reset_mail_recipient:
  assumes "password_reset_recipient_url bracket_ok url recipient = Inr out"
  shows "\<exists>target sent. urlsplit bracket_ok (py_strip url) = Inr target \<and> urlsplit bracket_ok out = Inr sent
    \<and> ur_scheme sent = ur_scheme target \<and> ur_netloc sent = ur_netloc target \<and> ur_path sent = ur_path target
    \<and> parse_qsl (ur_query sent)
      = filter (\<lambda>(key, _). py_lower key \<notin> {''to'', ''cc'', ''bcc'', ''+to'', ''+cc'', ''+bcc''}) (parse_qsl (ur_query target))
        @ [(''to'', recipient)]"
  using assms by (rule recipient_url_fields)

lemma example_reset_url:
  "password_reset_recipient_url (\<lambda>_. True) ''mailto://h?to=a&x=b'' ''c@d'' = Inr ''mailto://h?x=b&to=c%40d''"
  by code_simp

text \<open>A field \<open>+bcc\<close> is decoded with a space for the plus sign, so it is not among the removed ones.\<close>

lemma plus_field_kept:
  "password_reset_recipient_url (\<lambda>_. True) ''mailto://h?+bcc=e'' ''c@d'' = Inr ''mailto://h?+bcc=e&to=c%40d''"
  by code_simp

lemma reset_mail_recipient_witness:
  "\<exists>sent. urlsplit (\<lambda>_. True) ''mailto://h?x=b&to=c%40d'' = Inr sent
     \<and> map snd (filter (\<lambda>(key, _). key = ''to'') (parse_qsl (ur_query sent))) = [''c@d'']"
proof -
  obtain target sent :: split_url where split: "urlsplit (\<lambda>_. True) ''mailto://h?x=b&to=c%40d'' = Inr sent"
    and fields: "parse_qsl (ur_query sent)
      = filter (\<lambda>(key, _). py_lower key \<notin> {''to'', ''cc'', ''bcc'', ''+to'', ''+cc'', ''+bcc''}) (parse_qsl (ur_query target))
        @ [(''to'', ''c@d'')]"
    using reset_mail_recipient [OF example_reset_url] by (elim exE conjE) (rule that, assumption+)
  have "py_lower ''to'' = ''to''" by (simp add: py_lower_def lower_char_def code_of_def)
  then have "filter (\<lambda>(key, _). key = ''to'')
      (filter (\<lambda>(key, _). py_lower key \<notin> {''to'', ''cc'', ''bcc'', ''+to'', ''+cc'', ''+bcc''}) ps) = []" for ps :: "(string \<times> string) list"
    by (auto simp: filter_empty_conv)
  then show ?thesis using split fields by simp
qed

end
