(* ===== verification/Targets.thy ===== *)
theory Targets
  imports Tokens SecretStore Urls Alerts
begin

text \<open>
  \<open>modules/notifications/service.py\<close> and the requests of \<open>modules/notifications/api.py\<close>: notification
  targets of the kinds \<open>apprise\<close> (a URL) and \<open>smtp\<close> (a server with optional credentials), whose secrets
  live in the secret store, and the default target of security mail.

  \<open>mail_env\<close> gathers what the service reads besides the database: the secret store, \<open>str\<close> of JSON values that
  are not texts, \<open>email_validator\<close>'s normal form of an address, the check of bracketed hosts, and the
  error, if any, with which Apprise refuses a URL. Ids and nonces are arguments.
\<close>

record mail_env =
  me_crypto :: crypto
  me_codec :: codec
  me_store :: secret_store
  me_text :: "pyobj \<Rightarrow> string"
  me_email :: "string \<Rightarrow> string option"
  me_bracket :: "string \<Rightarrow> bool"
  me_apprise :: "string \<Rightarrow> (int \<times> string) option"

section \<open>The tables\<close>

definition add_target :: "notification_target \<Rightarrow> db \<Rightarrow> db" where
  "add_target t d = d\<lparr>db_notification_targets := db_notification_targets d @ [t]\<rparr>"

definition alter_target :: "uuid \<Rightarrow> (notification_target \<Rightarrow> notification_target) \<Rightarrow> db \<Rightarrow> db" where
  "alter_target k f d =
     d\<lparr>db_notification_targets := map (\<lambda>t. if nt_id t = k then f t else t) (db_notification_targets d)\<rparr>"

interpretation mail_targets:
  keyed_table db_notification_targets nt_id get_notification_target add_target alter_target
  by unfold_locales (simp_all add: get_notification_target_def add_target_def alter_target_def)

text \<open>Rows of \<open>system_settings\<close>: one document per namespace.\<close>

definition put_setting :: "string \<Rightarrow> dict \<Rightarrow> db \<Rightarrow> db" where
  "put_setting ns v d = d\<lparr>db_settings :=
     (if map_of (db_settings d) ns = None then db_settings d @ [(ns, v)]
      else map (\<lambda>(n, w). if n = ns then (n, v) else (n, w)) (db_settings d))\<rparr>"

section \<open>Normalisation\<close>

text \<open>\<open>str(value or default)\<close> of a configuration value.\<close>

definition text_or :: "mail_env \<Rightarrow> string \<Rightarrow> pyobj option \<Rightarrow> string" where
  "text_or env dflt val =
     (case val of
        None \<Rightarrow> dflt
      | Some v \<Rightarrow> if \<not> truthy v then dflt else (case v of PStr s \<Rightarrow> s | _ \<Rightarrow> me_text env v))"

definition normalize_apprise_config :: "mail_env \<Rightarrow> dict \<Rightarrow> dict result" where
  "normalize_apprise_config env config =
     (if list_ex (\<lambda>k. k \<notin> {''notify_type'', ''password_reset''}) (map fst config)
      then Inl (ApiError 400 ''notification_target_config_invalid'')
      else let notify_type = py_lower (py_strip (text_or env ''info'' (map_of config ''notify_type'')))
        in if notify_type \<notin> {''info'', ''success'', ''warning'', ''failure''}
           then Inl (ApiError 400 ''notification_target_type_invalid'')
           else (case map_of config ''password_reset'' of
               None \<Rightarrow> Inr [(''notify_type'', PStr notify_type), (''password_reset'', PBool False)]
             | Some (PBool b) \<Rightarrow> Inr [(''notify_type'', PStr notify_type), (''password_reset'', PBool b)]
             | _ \<Rightarrow> Inl (ApiError 400 ''notification_target_config_invalid'')))"

definition smtp_host :: "mail_env \<Rightarrow> dict \<Rightarrow> string result" where
  "smtp_host env config =
     (let host = py_lower (py_strip (text_or env [] (map_of config ''host'')))
      in if host = [] \<or> 253 < length host \<or> list_ex is_space host \<or> list_ex (\<lambda>c. c \<in> set [CHR ''/'', CHR 0x5C, CHR ''?'', CHR ''#'', CHR ''@'']) host
         then Inl (ApiError 400 ''smtp_host_invalid'') else Inr host)"

definition smtp_port :: "dict \<Rightarrow> int result" where
  "smtp_port config =
     (case map_of config ''port'' of
        None \<Rightarrow> Inr 587
      | Some (PInt p) \<Rightarrow> if p < 1 \<or> 65535 < p then Inl (ApiError 400 ''smtp_port_invalid'') else Inr p
      | _ \<Rightarrow> Inl (ApiError 400 ''smtp_port_invalid''))"

definition smtp_security :: "mail_env \<Rightarrow> dict \<Rightarrow> string result" where
  "smtp_security env config =
     (let security = py_lower (py_strip (text_or env ''starttls'' (map_of config ''security'')))
      in if security \<in> {''plain'', ''starttls'', ''tls''} then Inr security
         else Inl (ApiError 400 ''smtp_security_invalid''))"

definition smtp_from_address :: "mail_env \<Rightarrow> dict \<Rightarrow> string result" where
  "smtp_from_address env config =
     (case me_email env (py_strip (text_or env [] (map_of config ''from_address''))) of
        None \<Rightarrow> Inl (ApiError 400 ''smtp_from_address_invalid'')
      | Some address \<Rightarrow> Inr address)"

definition smtp_from_name :: "dict \<Rightarrow> string option result" where
  "smtp_from_name config =
     (case map_of config ''from_name'' of
        None \<Rightarrow> Inr None
      | Some PNone \<Rightarrow> Inr None
      | Some (PStr raw) \<Rightarrow>
          let name = py_strip raw
          in if 128 < length name then Inl (ApiError 400 ''smtp_from_name_invalid'')
             else Inr (if name = [] then None else Some name)
      | _ \<Rightarrow> Inl (ApiError 400 ''smtp_from_name_invalid''))"

definition smtp_document :: "string \<Rightarrow> int \<Rightarrow> string \<Rightarrow> string \<Rightarrow> string option \<Rightarrow> dict" where
  "smtp_document host port security from_address from_name =
     [(''from_address'', PStr from_address), (''from_name'', optional_text from_name), (''host'', PStr host),
      (''port'', PInt port), (''security'', PStr security)]"

definition normalize_smtp_config :: "mail_env \<Rightarrow> dict \<Rightarrow> dict result" where
  "normalize_smtp_config env config =
     (if list_ex (\<lambda>k. k \<notin> {''host'', ''port'', ''security'', ''from_address'', ''from_name''}) (map fst config)
      then Inl (ApiError 400 ''smtp_config_invalid'')
      else and_then (smtp_host env config) (\<lambda>host.
           and_then (smtp_port config) (\<lambda>port.
           and_then (smtp_security env config) (\<lambda>security.
           and_then (smtp_from_address env config) (\<lambda>from_address.
           and_then (smtp_from_name config) (\<lambda>from_name.
           Inr (smtp_document host port security from_address from_name)))))))"

definition normalize_smtp_credentials :: "dict \<Rightarrow> dict result" where
  "normalize_smtp_credentials given =
     (case (map_of given ''username'', map_of given ''password'') of
        (Some (PStr username), Some (PStr password)) \<Rightarrow>
          if py_strip username = [] \<or> 320 < length (py_strip username) \<or> password = []
          then Inl (ApiError 400 ''smtp_credentials_invalid'')
          else Inr [(''password'', PStr password), (''username'', PStr (py_strip username))]
      | _ \<Rightarrow> Inl (ApiError 400 ''smtp_credentials_invalid''))"

section \<open>Guards\<close>

definition target_name_available :: "db \<Rightarrow> string \<Rightarrow> uuid option \<Rightarrow> unit result" where
  "target_name_available d name own =
     require (\<not> list_ex (\<lambda>t. nt_name t = name \<and> Some (nt_id t) \<noteq> own) (db_notification_targets d))
       (ApiError 409 ''notification_target_name_conflict'')"

definition ensure_password_reset_unique :: "db \<Rightarrow> uuid option \<Rightarrow> unit result" where
  "ensure_password_reset_unique d own =
     require (\<not> list_ex (\<lambda>t. Some (nt_id t) \<noteq> own \<and> is_password_reset_target t) (db_notification_targets d))
       (ApiError 409 ''password_reset_target_conflict'')"

definition apprise_accepts :: "mail_env \<Rightarrow> string \<Rightarrow> unit result" where
  "apprise_accepts env url =
     (case me_apprise env url of None \<Rightarrow> Inr () | Some (status, code) \<Rightarrow> Inl (ApiError status code))"

section \<open>Secrets of a target\<close>

definition owner_filter :: "string \<Rightarrow> uuid \<Rightarrow> secret_filter" where
  "owner_filter kind k = \<lparr>sf_kind = Some kind, sf_owner_type = Some ''notification_target'', sf_owner_id = Some k\<rparr>"

definition store_secret ::
    "mail_env \<Rightarrow> db \<Rightarrow> uuid \<Rightarrow> string \<Rightarrow> string \<Rightarrow> uuid \<Rightarrow> dict \<Rightarrow> (db \<times> uuid) result" where
  "store_secret env d secret_id nonce kind target_id val =
     secret_create_json (me_crypto env) (me_codec env) (me_store env) d secret_id nonce kind ''notification_target'' target_id val"

text \<open>A deletion that ignores a record that is not there.\<close>

definition drop_secret :: "db \<Rightarrow> uuid \<Rightarrow> string \<Rightarrow> uuid \<Rightarrow> db result" where
  "drop_secret d secret_ref kind target_id =
     (case secret_delete d secret_ref (owner_filter kind target_id) of
        Inr d' \<Rightarrow> Inr d'
      | Inl e \<Rightarrow> if e = key_error then Inr d else Inl e)"

definition drop_optional :: "db \<Rightarrow> uuid option \<Rightarrow> string \<Rightarrow> uuid \<Rightarrow> db result" where
  "drop_optional d ref kind target_id = (case ref of None \<Rightarrow> Inr d | Some k \<Rightarrow> drop_secret d k kind target_id)"

text \<open>The flush points the target at the new record before the old one goes.\<close>

definition swap_secret ::
    "mail_env \<Rightarrow> db \<Rightarrow> notification_target \<Rightarrow> uuid option \<Rightarrow> uuid \<Rightarrow> string \<Rightarrow> string \<Rightarrow> dict \<Rightarrow> (db \<times> notification_target) result" where
  "swap_secret env d t old_ref secret_id nonce kind val =
     and_then (store_secret env d secret_id nonce kind (nt_id t) val) (\<lambda>(d1, ref).
     let t1 = t\<lparr>nt_secret_ref := Some ref\<rparr>
     in and_then (drop_optional (alter_target (nt_id t) (\<lambda>_. t1) d1) old_ref kind (nt_id t)) (\<lambda>d2. Inr (d2, t1)))"

definition clear_secret :: "db \<Rightarrow> notification_target \<Rightarrow> string \<Rightarrow> (db \<times> notification_target) result" where
  "clear_secret d t kind =
     (let t1 = t\<lparr>nt_secret_ref := None\<rparr>
      in and_then (drop_optional (alter_target (nt_id t) (\<lambda>_. t1) d) (nt_secret_ref t) kind (nt_id t)) (\<lambda>d2. Inr (d2, t1)))"

section \<open>SMTP targets\<close>

definition create_smtp ::
    "mail_env \<Rightarrow> db \<Rightarrow> uuid \<Rightarrow> uuid \<Rightarrow> string \<Rightarrow> string \<Rightarrow> bool \<Rightarrow> dict \<Rightarrow> dict option \<Rightarrow> (db \<times> notification_target) result" where
  "create_smtp env d target_id secret_id nonce name enabled config given =
     and_then (target_name_available d (py_strip name) None) (\<lambda>_.
     and_then (normalize_smtp_config env config) (\<lambda>normalized.
     and_then (case given of
                 None \<Rightarrow> Inr (d, None)
               | Some c \<Rightarrow> and_then (normalize_smtp_credentials c) (\<lambda>val.
                   and_then (store_secret env d secret_id nonce ''smtp_credentials'' target_id val) (\<lambda>(d1, ref).
                   Inr (d1, Some ref)))) (\<lambda>(d1, ref).
     let t = \<lparr>nt_id = target_id, nt_name = py_strip name, nt_kind = ''smtp'', nt_enabled = enabled,
              nt_config_json = normalized, nt_secret_ref = ref\<rparr>
     in Inr (add_target t d1, t))))"

text \<open>The fields a PATCH names; the inner option is \<open>None\<close> for an explicit null.\<close>

record target_patch =
  np_name :: "string option option"
  np_enabled :: "bool option option"
  np_config :: "dict option option"
  np_url_action :: string
  np_url :: "string option"
  np_credentials_action :: string
  np_smtp_credentials :: "dict option"

definition patch_target_name :: "db \<Rightarrow> target_patch \<Rightarrow> notification_target \<Rightarrow> notification_target result" where
  "patch_target_name d changes t =
     (case np_name changes of
        None \<Rightarrow> Inr t
      | Some v \<Rightarrow>
          and_then (or_invalid ''notification_target_name_invalid'' v) (\<lambda>name.
          and_then (require (py_strip name \<noteq> []) (ApiError 400 ''notification_target_name_invalid'')) (\<lambda>_.
          and_then (target_name_available d (py_strip name) (Some (nt_id t))) (\<lambda>_.
          Inr (t\<lparr>nt_name := py_strip name\<rparr>)))))"

definition patch_target_enabled :: "target_patch \<Rightarrow> notification_target \<Rightarrow> notification_target" where
  "patch_target_enabled changes t =
     (case np_enabled changes of None \<Rightarrow> t | Some v \<Rightarrow> t\<lparr>nt_enabled := (v = Some True)\<rparr>)"

definition update_smtp ::
    "mail_env \<Rightarrow> db \<Rightarrow> uuid \<Rightarrow> string \<Rightarrow> notification_target \<Rightarrow> target_patch \<Rightarrow> (db \<times> notification_target) result" where
  "update_smtp env d secret_id nonce t0 changes =
     and_then (require (nt_kind t0 = ''smtp'') (ApiError 400 ''notification_target_kind_invalid'')) (\<lambda>_.
     and_then (patch_target_name d changes t0) (\<lambda>t1.
     let t2 = patch_target_enabled changes t1
     in and_then (case np_config changes of
                    None \<Rightarrow> Inr t2
                  | Some v \<Rightarrow> and_then (or_invalid ''smtp_config_invalid'' v) (\<lambda>raw.
                      and_then (normalize_smtp_config env raw) (\<lambda>c. Inr (t2\<lparr>nt_config_json := c\<rparr>)))) (\<lambda>t3.
        if np_credentials_action changes \<notin> {''keep'', ''replace'', ''clear''}
        then Inl (ApiError 400 ''smtp_credentials_update_invalid'')
        else if np_credentials_action changes = ''replace'' then
          and_then (or_invalid ''smtp_credentials_update_invalid'' (np_smtp_credentials changes)) (\<lambda>raw.
          and_then (normalize_smtp_credentials raw) (\<lambda>val.
          swap_secret env (alter_target (nt_id t0) (\<lambda>_. t3) d) t3 (nt_secret_ref t3) secret_id nonce ''smtp_credentials'' val))
        else if np_credentials_action changes = ''clear'' then
          and_then (require (np_smtp_credentials changes = None) (ApiError 400 ''smtp_credentials_update_invalid'')) (\<lambda>_.
          clear_secret d t3 ''smtp_credentials'')
        else and_then (require (np_smtp_credentials changes = None) (ApiError 400 ''smtp_credentials_update_invalid'')) (\<lambda>_.
          Inr (alter_target (nt_id t0) (\<lambda>_. t3) d, t3)))))"

section \<open>Apprise targets\<close>

definition secret_unavailable :: error where
  "secret_unavailable = ApiError 409 ''notification_secret_unavailable''"

definition secret_url :: "mail_env \<Rightarrow> db \<Rightarrow> notification_target \<Rightarrow> string result" where
  "secret_url env d t =
     (case nt_secret_ref t of
        None \<Rightarrow> Inl secret_unavailable
      | Some ref \<Rightarrow>
          (case secret_read_json (me_crypto env) (me_codec env) (me_store env) d ref (owner_filter ''notification_url'' (nt_id t)) of
             Inl _ \<Rightarrow> Inl secret_unavailable
           | Inr payload \<Rightarrow>
               (case map_of payload ''url'' of
                  Some (PStr url) \<Rightarrow> if url = [] then Inl secret_unavailable else Inr url
                | _ \<Rightarrow> Inl secret_unavailable)))"

definition create_apprise ::
    "mail_env \<Rightarrow> db \<Rightarrow> uuid \<Rightarrow> uuid \<Rightarrow> string \<Rightarrow> string \<Rightarrow> bool \<Rightarrow> dict \<Rightarrow> string \<Rightarrow> (db \<times> notification_target) result" where
  "create_apprise env d target_id secret_id nonce name enabled config url =
     and_then (target_name_available d (py_strip name) None) (\<lambda>_.
     and_then (require (py_strip url \<noteq> []) (ApiError 400 ''notification_url_invalid'')) (\<lambda>_.
     and_then (normalize_apprise_config env config) (\<lambda>normalized.
     and_then (if map_of normalized ''password_reset'' = Some (PBool True)
               then and_then (ensure_password_reset_unique d None) (\<lambda>_. validate_password_reset_url (me_bracket env) (py_strip url))
               else Inr ()) (\<lambda>_.
     and_then (apprise_accepts env (py_strip url)) (\<lambda>_.
     and_then (store_secret env d secret_id nonce ''notification_url'' target_id [(''url'', PStr (py_strip url))]) (\<lambda>(d1, ref).
     let t = \<lparr>nt_id = target_id, nt_name = py_strip name, nt_kind = ''apprise'', nt_enabled = enabled,
              nt_config_json = normalized, nt_secret_ref = Some ref\<rparr>
     in Inr (add_target t d1, t)))))))"

definition replace_url ::
    "mail_env \<Rightarrow> db \<Rightarrow> uuid \<Rightarrow> string \<Rightarrow> notification_target \<Rightarrow> string \<Rightarrow> (db \<times> notification_target) result" where
  "replace_url env d secret_id nonce t url =
     (let normalized = py_strip url
      in and_then (require (normalized \<noteq> []) (ApiError 400 ''notification_url_invalid'')) (\<lambda>_.
         and_then (apprise_accepts env normalized) (\<lambda>_.
         and_then (case nt_secret_ref t of
                     None \<Rightarrow> Inr None
                   | Some ref \<Rightarrow>
                       (case secret_metadata_of (me_store env) d ref \<lparr>sf_kind = None, sf_owner_type = None, sf_owner_id = None\<rparr> of
                          Inl _ \<Rightarrow> Inr None
                        | Inr m \<Rightarrow>
                            if sm_kind m \<noteq> ''notification_url'' \<or> sm_owner_type m \<noteq> ''notification_target'' \<or> sm_owner_id m \<noteq> nt_id t
                            then Inl (ApiError 409 ''notification_secret_invalid'') else Inr (Some ref))) (\<lambda>old_ref.
         swap_secret env d t old_ref secret_id nonce ''notification_url'' [(''url'', PStr normalized)]))))"

text \<open>The URL that the changed target will have, where an action or the reset role needs it.\<close>

definition candidate_url :: "mail_env \<Rightarrow> db \<Rightarrow> notification_target \<Rightarrow> target_patch \<Rightarrow> dict \<Rightarrow> string option result" where
  "candidate_url env d t changes config =
     (if np_url_action changes \<notin> {''keep'', ''replace'', ''clear''}
      then Inl (ApiError 400 ''notification_url_update_invalid'')
      else if np_url_action changes = ''replace'' then
        and_then (or_invalid ''notification_url_invalid'' (np_url changes)) (\<lambda>raw. Inr (Some (py_strip raw)))
      else if np_url_action changes = ''clear'' then
        and_then (require (np_url changes = None) (ApiError 400 ''notification_url_update_invalid'')) (\<lambda>_. Inr None)
      else if np_url changes \<noteq> None then Inl (ApiError 400 ''notification_url_update_invalid'')
      else if map_of config ''password_reset'' = Some (PBool True) then
        and_then (secret_url env d t) (\<lambda>url. Inr (Some url))
      else Inr None)"

definition check_reset_target :: "mail_env \<Rightarrow> db \<Rightarrow> notification_target \<Rightarrow> dict \<Rightarrow> string option \<Rightarrow> unit result" where
  "check_reset_target env d t config candidate =
     (if map_of config ''password_reset'' = Some (PBool True) then
        and_then (ensure_password_reset_unique d (Some (nt_id t))) (\<lambda>_.
        (case candidate of
           None \<Rightarrow> Inl secret_unavailable
         | Some url \<Rightarrow> validate_password_reset_url (me_bracket env) url))
      else Inr ())"

definition update_apprise ::
    "mail_env \<Rightarrow> db \<Rightarrow> uuid \<Rightarrow> string \<Rightarrow> notification_target \<Rightarrow> target_patch \<Rightarrow> (db \<times> notification_target) result" where
  "update_apprise env d secret_id nonce t0 changes =
     and_then (patch_target_name d changes t0) (\<lambda>t1.
     let t2 = patch_target_enabled changes t1
     in and_then (case np_config changes of
                    None \<Rightarrow> Inr (nt_config_json t2)
                  | Some v \<Rightarrow> and_then (or_invalid ''notification_target_config_invalid'' v) (normalize_apprise_config env)) (\<lambda>config.
        and_then (candidate_url env d t2 changes config) (\<lambda>candidate.
        and_then (check_reset_target env d t2 config candidate) (\<lambda>_.
        let t3 = (if np_config changes = None then t2 else t2\<lparr>nt_config_json := config\<rparr>)
        in if np_url_action changes = ''replace'' then
             (case candidate of
                None \<Rightarrow> Inl AssertionError
              | Some url \<Rightarrow> replace_url env (alter_target (nt_id t0) (\<lambda>_. t3) d) secret_id nonce t3 url)
           else if np_url_action changes = ''clear'' then clear_secret d t3 ''notification_url''
           else Inr (alter_target (nt_id t0) (\<lambda>_. t3) d, t3)))))"

section \<open>Resolution\<close>

record resolved_target =
  rv_target_id :: uuid
  rv_name :: string
  rv_url :: string
  rv_notify_type :: string

definition resolve_target :: "mail_env \<Rightarrow> db \<Rightarrow> notification_target \<Rightarrow> resolved_target result" where
  "resolve_target env d t =
     (if nt_kind t \<noteq> ''apprise'' then Inl (ApiError 409 ''notification_delivery_not_supported'')
      else if \<not> nt_enabled t then Inl (ApiError 409 ''notification_target_disabled'')
      else and_then (secret_url env d t) (\<lambda>url.
        Inr \<lparr>rv_target_id = nt_id t, rv_name = nt_name t, rv_url = url,
             rv_notify_type = (case map_of (nt_config_json t) ''notify_type'' of
                None \<Rightarrow> ''info'' | Some (PStr s) \<Rightarrow> s | Some v \<Rightarrow> me_text env v)\<rparr>))"

record resolved_smtp =
  rs_target_id :: uuid
  rs_name :: string
  rs_host :: string
  rs_port :: int
  rs_security :: string
  rs_from_address :: string
  rs_from_name :: "string option"
  rs_username :: "string option"
  rs_password :: "string option"

definition smtp_login :: "mail_env \<Rightarrow> db \<Rightarrow> notification_target \<Rightarrow> dict option result" where
  "smtp_login env d t =
     (case nt_secret_ref t of
        None \<Rightarrow> Inr None
      | Some ref \<Rightarrow>
          (case and_then (secret_read_json (me_crypto env) (me_codec env) (me_store env) d ref (owner_filter ''smtp_credentials'' (nt_id t)))
                 normalize_smtp_credentials of
             Inl _ \<Rightarrow> Inl (ApiError 409 ''smtp_credentials_unavailable'')
           | Inr c \<Rightarrow> Inr (Some c)))"

definition text_field :: "dict \<Rightarrow> string \<Rightarrow> string option" where
  "text_field m key = (case map_of m key of Some (PStr s) \<Rightarrow> Some s | _ \<Rightarrow> None)"

definition int_field :: "dict \<Rightarrow> string \<Rightarrow> int" where
  "int_field m key = (case map_of m key of Some (PInt i) \<Rightarrow> i | _ \<Rightarrow> 0)"

definition resolve_smtp :: "mail_env \<Rightarrow> db \<Rightarrow> notification_target \<Rightarrow> resolved_smtp result" where
  "resolve_smtp env d t =
     (if nt_kind t \<noteq> ''smtp'' then Inl (ApiError 409 ''notification_delivery_not_supported'')
      else if \<not> nt_enabled t then Inl (ApiError 409 ''notification_target_disabled'')
      else and_then (normalize_smtp_config env (nt_config_json t)) (\<lambda>m.
           and_then (smtp_login env d t) (\<lambda>login.
           let text = (\<lambda>key. case text_field m key of None \<Rightarrow> [] | Some s \<Rightarrow> s)
           in Inr \<lparr>rs_target_id = nt_id t, rs_name = nt_name t, rs_host = text ''host'', rs_port = int_field m ''port'',
                rs_security = text ''security'', rs_from_address = text ''from_address'',
                rs_from_name = text_field m ''from_name'',
                rs_username = (case login of None \<Rightarrow> None | Some c \<Rightarrow> text_field c ''username''),
                rs_password = (case login of None \<Rightarrow> None | Some c \<Rightarrow> text_field c ''password'')\<rparr>)))"

section \<open>Security mail and deletion\<close>

definition set_security_email_target :: "db \<Rightarrow> uuid option \<Rightarrow> db result" where
  "set_security_email_target d target_id =
     and_then (case target_id of
                 None \<Rightarrow> Inr ()
               | Some k \<Rightarrow> and_then (fetch_or_404 (get_notification_target d k) ''notification_target_not_found'') (\<lambda>t.
                   require (nt_kind t = ''smtp'') (ApiError 400 ''security_email_target_invalid''))) (\<lambda>_.
     Inr (put_setting ''notifications.security_email''
            [(''target_id'', optional_text (map_option uuid_str target_id))] d))"

definition policy_names_target :: "alert_policy \<Rightarrow> uuid \<Rightarrow> bool" where
  "policy_names_target p k =
     (case map_of (ap_action_json p) ''notification_target_ids'' of
        Some (PList raws) \<Rightarrow> PStr (uuid_str k) \<in> set raws
      | _ \<Rightarrow> False)"

definition delete_target :: "db \<Rightarrow> notification_target \<Rightarrow> db result" where
  "delete_target d t =
     and_then (require (\<not> list_ex (\<lambda>p. policy_names_target p (nt_id t)) (db_alert_policies d))
                 (ApiError 409 ''notification_target_in_policy'')) (\<lambda>_.
     and_then (require (\<not> list_ex (\<lambda>x. nd_notification_target_id x = nt_id t) (db_deliveries d))
                 (ApiError 409 ''notification_target_in_use'')) (\<lambda>_.
     and_then (if security_email_target_id d = Some (nt_id t) then set_security_email_target d None else Inr d) (\<lambda>d1.
     drop_optional (d1\<lparr>db_notification_targets := filter (\<lambda>x. nt_id x \<noteq> nt_id t) (db_notification_targets d1)\<rparr>)
       (nt_secret_ref t) (if nt_kind t = ''smtp'' then ''smtp_credentials'' else ''notification_url'') (nt_id t))))"

section \<open>Requests\<close>

record target_form =
  nf_name :: string
  nf_kind :: string
  nf_enabled :: bool
  nf_config :: dict
  nf_url :: "string option"
  nf_smtp_credentials :: "dict option"

definition create_notification_target ::
    "mail_env \<Rightarrow> db \<Rightarrow> auth_context \<Rightarrow> uuid \<Rightarrow> uuid \<Rightarrow> string \<Rightarrow> target_form \<Rightarrow> db result" where
  "create_notification_target env d context target_id secret_id nonce body =
     and_then (require_permission context ''notification.manage'') (\<lambda>_.
     if nf_kind body = ''smtp'' then
       and_then (require (nf_url body = None) (ApiError 400 ''smtp_url_not_allowed'')) (\<lambda>_.
       and_then (create_smtp env d target_id secret_id nonce (nf_name body) (nf_enabled body) (nf_config body)
                   (nf_smtp_credentials body)) (\<lambda>(d', _). Inr d'))
     else
       and_then (require (nf_smtp_credentials body = None) (ApiError 400 ''notification_credentials_not_allowed'')) (\<lambda>_.
       and_then (or_invalid ''notification_url_required'' (nf_url body)) (\<lambda>url.
       and_then (create_apprise env d target_id secret_id nonce (nf_name body) (nf_enabled body) (nf_config body) url) (\<lambda>(d', _).
       Inr d'))))"

definition update_notification_target ::
    "mail_env \<Rightarrow> db \<Rightarrow> auth_context \<Rightarrow> uuid \<Rightarrow> string \<Rightarrow> uuid \<Rightarrow> target_patch \<Rightarrow> db result" where
  "update_notification_target env d context secret_id nonce k body =
     and_then (require_permission context ''notification.manage'') (\<lambda>_.
     and_then (fetch_or_404 (get_notification_target d k) ''notification_target_not_found'') (\<lambda>t.
     if nt_kind t = ''smtp'' then
       and_then (require (np_url body = None \<and> np_url_action body = ''keep'') (ApiError 400 ''smtp_url_not_allowed'')) (\<lambda>_.
       and_then (require ((np_credentials_action body = ''replace'') = (np_smtp_credentials body \<noteq> None))
                   (ApiError 400 ''smtp_credentials_update_invalid'')) (\<lambda>_.
       and_then (update_smtp env d secret_id nonce t body) (\<lambda>(d', _). Inr d')))
     else
       and_then (require (np_smtp_credentials body = None \<and> np_credentials_action body = ''keep'')
                   (ApiError 400 ''notification_credentials_not_allowed'')) (\<lambda>_.
       and_then (require ((np_url_action body = ''replace'') = (np_url body \<noteq> None))
                   (ApiError 400 ''notification_url_update_invalid'')) (\<lambda>_.
       and_then (update_apprise env d secret_id nonce t body) (\<lambda>(d', _). Inr d')))))"

definition delete_notification_target :: "db \<Rightarrow> auth_context \<Rightarrow> uuid \<Rightarrow> db result" where
  "delete_notification_target d context k =
     and_then (require_permission context ''notification.manage'') (\<lambda>_.
     and_then (fetch_or_404 (get_notification_target d k) ''notification_target_not_found'') (delete_target d))"

definition change_security_email_target :: "db \<Rightarrow> auth_context \<Rightarrow> uuid option \<Rightarrow> db result" where
  "change_security_email_target d context target_id =
     and_then (require_permission context ''notification.manage'') (\<lambda>_. set_security_email_target d target_id)"

section \<open>What the operations do to secrets\<close>

text \<open>The secret of a target as the service reads it.\<close>

definition secret_kind :: "notification_target \<Rightarrow> string" where
  "secret_kind t = (if nt_kind t = ''smtp'' then ''smtp_credentials'' else ''notification_url'')"

definition read_owned :: "mail_env \<Rightarrow> db \<Rightarrow> uuid \<Rightarrow> secret_filter \<Rightarrow> dict result" where
  "read_owned env d ref sf = secret_read_json (me_crypto env) (me_codec env) (me_store env) d ref sf"

definition target_secret :: "mail_env \<Rightarrow> db \<Rightarrow> notification_target \<Rightarrow> dict result option" where
  "target_secret env d t = map_option (\<lambda>ref. read_owned env d ref (owner_filter (secret_kind t) (nt_id t))) (nt_secret_ref t)"

text \<open>
  What is assumed of the environment: Fernet and JSON read back what they wrote, the store was opened
  from a configured key, and the normal form of an address is a normal form, not empty and without
  white space around it.
\<close>

definition env_ok :: "mail_env \<Rightarrow> string \<Rightarrow> string list \<Rightarrow> bool" where
  "env_ok env secret_key previous \<longleftrightarrow>
     fernet_ok (me_crypto env) \<and> json_ok (me_codec env)
     \<and> open_store (me_crypto env) secret_key previous = Inr (me_store env)
     \<and> (\<forall>s n. me_email env s = Some n \<longrightarrow> me_email env n = Some n \<and> py_strip n = n \<and> n \<noteq> [])"

lemma agrees_owner [simp]:
  "agrees (sf_kind (owner_filter kind k)) kind'= (kind' = kind)"
  "agrees (sf_owner_type (owner_filter kind k)) ty = (ty = ''notification_target'')"
  "agrees (sf_owner_id (owner_filter kind k)) k' = (k' = k)"
  by (simp_all add: agrees_def owner_filter_def)

lemma store_secret_spec:
  assumes env: "env_ok env secret_key previous" and fresh: "get_secret d new = None" and val: "text_object val"
  obtains r where "store_secret env d new nonce kind k val = Inr (d\<lparr>db_secrets := db_secrets d @ [r]\<rparr>, new)"
    "sr_id r = new" "sr_kind r = kind" "sr_owner_type r = ''notification_target''" "sr_owner_id r = k"
    "\<And>j sf. read_owned env (d\<lparr>db_secrets := db_secrets d @ [r]\<rparr>) j sf
       = (if j = new then if agrees (sf_kind sf) kind \<and> agrees (sf_owner_type sf) ''notification_target'' \<and> agrees (sf_owner_id sf) k
                          then Inr val else Inl key_error
          else read_owned env d j sf)"
proof -
  have ok: "fernet_ok (me_crypto env)" "json_ok (me_codec env)"
    "open_store (me_crypto env) secret_key previous = Inr (me_store env)"
    using env by (simp_all add: env_ok_def)
  obtain d' r where c: "secret_create_json (me_crypto env) (me_codec env) (me_store env) d new nonce kind ''notification_target'' k val
        = Inr (d', new)"
      and d': "d' = d\<lparr>db_secrets := db_secrets d @ [r]\<rparr>"
      and r: "sr_id r = new" "sr_kind r = kind" "sr_owner_type r = ''notification_target''" "sr_owner_id r = k"
      and reads: "\<forall>j sf. secret_read_json (me_crypto env) (me_codec env) (me_store env) d' j sf =
        (if j = new then if agrees (sf_kind sf) kind \<and> agrees (sf_owner_type sf) ''notification_target'' \<and> agrees (sf_owner_id sf) k
                       then Inr val else Inl key_error
         else secret_read_json (me_crypto env) (me_codec env) (me_store env) d j sf)"
    using json_created [OF ok fresh val, of nonce kind "''notification_target''" k]
    by (elim exE conjE) (rule that, assumption+)
  show thesis
    by (rule that [of r]) (use c d' r reads in \<open>simp_all add: read_owned_def store_secret_def\<close>)
qed

lemma secrets_frame:
  assumes "db_secrets d' = db_secrets d"
  shows "get_secret d' k = get_secret d k" and "read_owned env d' j sf = read_owned env d j sf"
  using assms by (simp_all add: get_secret_def read_owned_def secret_read_json_def secret_read_def secret_for_def)

text \<open>A secret that its owner no longer refers to goes; nothing else reads differently.\<close>

lemma drop_secret_spec:
  assumes "get_secret d k = Some r" "secret_matches (owner_filter kind owner) r" "\<not> secret_in_use d k"
  shows "drop_secret d k kind owner = Inr (d\<lparr>db_secrets := filter (\<lambda>s. sr_id s \<noteq> k) (db_secrets d)\<rparr>)"
    and "read_owned env (d\<lparr>db_secrets := filter (\<lambda>s. sr_id s \<noteq> k) (db_secrets d)\<rparr>) j sf
      = (if j = k then Inl key_error else read_owned env d j sf)"
proof -
  have d: "secret_delete d k (owner_filter kind owner) = Inr (d\<lparr>db_secrets := filter (\<lambda>s. sr_id s \<noteq> k) (db_secrets d)\<rparr>)"
    using assms by (simp add: secret_delete_def secret_for_def)
  then show "drop_secret d k kind owner = Inr (d\<lparr>db_secrets := filter (\<lambda>s. sr_id s \<noteq> k) (db_secrets d)\<rparr>)"
    by (simp add: drop_secret_def)
  show "read_owned env (d\<lparr>db_secrets := filter (\<lambda>s. sr_id s \<noteq> k) (db_secrets d)\<rparr>) j sf
      = (if j = k then Inl key_error else read_owned env d j sf)"
    using json_deleted [OF d] by (simp add: read_owned_def)
qed

section \<open>Sound targets\<close>

definition secret_ok :: "mail_env \<Rightarrow> db \<Rightarrow> notification_target \<Rightarrow> bool" where
  "secret_ok env d t \<longleftrightarrow>
     (case target_secret env d t of
        None \<Rightarrow> True
      | Some m \<Rightarrow>
          if nt_kind t = ''smtp''
          then \<exists>u p. m = Inr [(''password'', PStr p), (''username'', PStr u)] \<and> py_strip u = u \<and> u \<noteq> [] \<and> length u \<le> 320 \<and> p \<noteq> []
          else \<exists>url. m = Inr [(''url'', PStr url)] \<and> url \<noteq> [] \<and> py_strip url = url \<and> me_apprise env url = None)"

definition target_config_ok :: "mail_env \<Rightarrow> notification_target \<Rightarrow> bool" where
  "target_config_ok env t \<longleftrightarrow>
     (if nt_kind t = ''smtp'' then normalize_smtp_config env (nt_config_json t) = Inr (nt_config_json t)
      else nt_kind t = ''apprise''
        \<and> (\<exists>ty b. nt_config_json t = [(''notify_type'', PStr ty), (''password_reset'', PBool b)]
             \<and> ty \<in> {''info'', ''success'', ''warning'', ''failure''}))"

text \<open>A target for password resets has a URL that can carry them.\<close>

definition reset_target_ok :: "mail_env \<Rightarrow> db \<Rightarrow> notification_target \<Rightarrow> bool" where
  "reset_target_ok env d t \<longleftrightarrow>
     (is_password_reset_target t \<longrightarrow>
       (\<exists>url. target_secret env d t = Some (Inr [(''url'', PStr url)]) \<and> validate_password_reset_url (me_bracket env) url = Inr ()))"

text \<open>
  The targets and their secrets: distinct names, normalised configurations, readable secrets of the right
  kind, at most one target for password resets, and no secret of a target that the target does not use.
\<close>

definition targets_ok :: "mail_env \<Rightarrow> db \<Rightarrow> bool" where
  "targets_ok env d \<longleftrightarrow>
     distinct (map nt_id (db_notification_targets d)) \<and> distinct (map nt_name (db_notification_targets d))
     \<and> distinct (map sr_id (db_secrets d))
     \<and> (\<forall>t \<in> set (db_notification_targets d). target_config_ok env t \<and> secret_ok env d t \<and> reset_target_ok env d t)
     \<and> (\<forall>t \<in> set (db_notification_targets d). \<forall>u \<in> set (db_notification_targets d).
          is_password_reset_target t \<and> is_password_reset_target u \<longrightarrow> t = u)
     \<and> (\<forall>r \<in> set (db_secrets d). sr_owner_type r = ''notification_target'' \<longrightarrow>
          (\<exists>t \<in> set (db_notification_targets d). nt_id t = sr_owner_id r \<and> nt_secret_ref t = Some (sr_id r)))"

text \<open>A readable secret is a row that its target owns.\<close>

lemma read_owned_row:
  assumes "read_owned env d k sf = Inr m"
  obtains r where "get_secret d k = Some r" "secret_matches sf r" "r \<in> set (db_secrets d)" "sr_id r = k"
proof -
  obtain r where "get_secret d k = Some r" "secret_matches sf r"
    using assms by (auto simp: read_owned_def secret_read_json_def secret_read_def secret_for_def result_simps
        split: option.splits if_splits)
  then show thesis using that secrets.get_Some by blast
qed

lemma secret_row:
  assumes "secret_ok env d t" and "nt_secret_ref t = Some k"
  obtains r where "get_secret d k = Some r" "secret_matches (owner_filter (secret_kind t) (nt_id t)) r"
    "r \<in> set (db_secrets d)" "sr_id r = k" "sr_owner_id r = nt_id t" "sr_owner_type r = ''notification_target''"
proof -
  obtain m where "read_owned env d k (owner_filter (secret_kind t) (nt_id t)) = Inr m"
    using assms by (auto simp: secret_ok_def target_secret_def split: if_splits)
  then obtain r where r: "get_secret d k = Some r" "secret_matches (owner_filter (secret_kind t) (nt_id t)) r"
      "r \<in> set (db_secrets d)" "sr_id r = k"
    by (rule read_owned_row)
  then show thesis using that by (simp add: secret_matches_def)
qed

text \<open>Two targets do not share a secret.\<close>

lemma secret_refs_apart:
  assumes ok: "targets_ok env d" and "t \<in> set (db_notification_targets d)" "u \<in> set (db_notification_targets d)"
    and "nt_secret_ref t = Some k" "nt_secret_ref u = Some k"
  shows "nt_id t = nt_id u"
proof -
  obtain r where "get_secret d k = Some r" "sr_owner_id r = nt_id t"
    using secret_row [of env d t k] assms by (auto simp: targets_ok_def)
  moreover obtain s where "get_secret d k = Some s" "sr_owner_id s = nt_id u"
    using secret_row [of env d u k] assms by (auto simp: targets_ok_def)
  ultimately show ?thesis by simp
qed

lemma secret_ok_cong:
  assumes "target_secret env d' t = target_secret env d t"
  shows "secret_ok env d' t = secret_ok env d t" and "reset_target_ok env d' t = reset_target_ok env d t"
  using assms by (simp_all add: secret_ok_def reset_target_ok_def)

text \<open>The row of a target is replaced, its secret perhaps with it.\<close>

definition with_target :: "uuid \<Rightarrow> notification_target \<Rightarrow> notification_target list \<Rightarrow> notification_target list" where
  "with_target k t' ts = map (\<lambda>u. if nt_id u = k then t' else u) ts"

lemma targets_ok_alter:
  assumes ok: "targets_ok env d" and id: "nt_id t' = k"
    and rows: "db_notification_targets d' = with_target k t' (db_notification_targets d)"
    and name: "\<And>u. u \<in> set (db_notification_targets d) \<Longrightarrow> nt_id u \<noteq> k \<Longrightarrow> nt_name u \<noteq> nt_name t'"
    and t': "target_config_ok env t'" "secret_ok env d' t'" "reset_target_ok env d' t'"
    and unique: "\<And>u. is_password_reset_target t' \<Longrightarrow> u \<in> set (db_notification_targets d) \<Longrightarrow> nt_id u \<noteq> k
      \<Longrightarrow> \<not> is_password_reset_target u"
    and frame: "\<And>u. u \<in> set (db_notification_targets d) \<Longrightarrow> nt_id u \<noteq> k \<Longrightarrow> target_secret env d' u = target_secret env d u"
    and secrets: "distinct (map sr_id (db_secrets d'))"
    and owned: "\<And>r. r \<in> set (db_secrets d') \<Longrightarrow> sr_owner_type r = ''notification_target'' \<Longrightarrow>
      r \<in> set (db_secrets d) \<and> sr_owner_id r \<noteq> k \<or> sr_owner_id r = k \<and> nt_secret_ref t' = Some (sr_id r) \<and> k \<in> nt_id ` set (db_notification_targets d)"
  shows "targets_ok env d'"
proof -
  let ?ts = "db_notification_targets d"
  have mem: "u \<in> set (db_notification_targets d') \<longleftrightarrow> (u \<in> set ?ts \<and> nt_id u \<noteq> k) \<or> (u = t' \<and> k \<in> nt_id ` set ?ts)" for u
    unfolding rows with_target_def set_map by (auto simp: image_iff)
  have ids: "map nt_id (db_notification_targets d') = map nt_id ?ts"
    using id by (simp add: rows with_target_def)
  have "distinct (map nt_name (with_target k t' xs))" if "distinct (map nt_name xs)" "distinct (map nt_id xs)"
      "\<And>u. u \<in> set xs \<Longrightarrow> nt_id u \<noteq> k \<Longrightarrow> nt_name u \<noteq> nt_name t'" for xs
    using that
  proof (induction xs)
    case (Cons x xs)
    then have "distinct (map nt_name (with_target k t' xs))" by simp
    moreover have "nt_id u \<noteq> k" if "nt_id x = k" "u \<in> set xs" for u
      using Cons.prems(2) that by (auto simp: image_iff)
    ultimately show ?case using Cons.prems by (auto simp: with_target_def split: if_splits) (metis image_eqI)+
  qed (simp add: with_target_def)
  then have names: "distinct (map nt_name (db_notification_targets d'))"
    using ok name by (simp add: rows targets_ok_def)
  have each: "target_config_ok env u \<and> secret_ok env d' u \<and> reset_target_ok env d' u" if "u \<in> set (db_notification_targets d')" for u
    using that t' ok secret_ok_cong [OF frame, of u] by (auto simp: mem targets_ok_def)
  have one: "u = v" if "u \<in> set (db_notification_targets d')" "v \<in> set (db_notification_targets d')"
      "is_password_reset_target u" "is_password_reset_target v" for u v
    using that ok unique by (auto simp: mem targets_ok_def)
  have used: "\<exists>t \<in> set (db_notification_targets d'). nt_id t = sr_owner_id r \<and> nt_secret_ref t = Some (sr_id r)"
    if owner: "r \<in> set (db_secrets d')" "sr_owner_type r = ''notification_target''" for r
    using owned [OF owner]
  proof (elim disjE conjE)
    assume "r \<in> set (db_secrets d)" "sr_owner_id r \<noteq> k"
    then obtain t where "t \<in> set ?ts" "nt_id t = sr_owner_id r" "nt_secret_ref t = Some (sr_id r)"
      using ok owner(2) by (auto simp: targets_ok_def)
    then show ?thesis using \<open>sr_owner_id r \<noteq> k\<close> mem by (intro bexI [of _ t]) auto
  next
    assume "sr_owner_id r = k" "nt_secret_ref t' = Some (sr_id r)" "k \<in> nt_id ` set ?ts"
    then show ?thesis using id mem by (intro bexI [of _ t']) auto
  qed
  show ?thesis
    using ok ids names secrets each one used unfolding targets_ok_def by simp
qed

lemma targets_ok_add:
  assumes ok: "targets_ok env d" and rows: "db_notification_targets d' = db_notification_targets d @ [t']"
    and fresh: "nt_id t' \<notin> nt_id ` set (db_notification_targets d)"
    and name: "\<And>u. u \<in> set (db_notification_targets d) \<Longrightarrow> nt_name u \<noteq> nt_name t'"
    and t': "target_config_ok env t'" "secret_ok env d' t'" "reset_target_ok env d' t'"
    and unique: "\<And>u. is_password_reset_target t' \<Longrightarrow> u \<in> set (db_notification_targets d) \<Longrightarrow> \<not> is_password_reset_target u"
    and frame: "\<And>u. u \<in> set (db_notification_targets d) \<Longrightarrow> target_secret env d' u = target_secret env d u"
    and secrets: "distinct (map sr_id (db_secrets d'))"
    and owned: "\<And>r. r \<in> set (db_secrets d') \<Longrightarrow> sr_owner_type r = ''notification_target'' \<Longrightarrow>
      r \<in> set (db_secrets d) \<or> sr_owner_id r = nt_id t' \<and> nt_secret_ref t' = Some (sr_id r)"
  shows "targets_ok env d'"
proof -
  have each: "target_config_ok env u \<and> secret_ok env d' u \<and> reset_target_ok env d' u" if "u \<in> set (db_notification_targets d')" for u
    using that t' ok secret_ok_cong [OF frame, of u] by (auto simp: rows targets_ok_def)
  have one: "u = v" if "u \<in> set (db_notification_targets d')" "v \<in> set (db_notification_targets d')"
      "is_password_reset_target u" "is_password_reset_target v" for u v
    using that ok unique by (auto simp: rows targets_ok_def)
  have used: "\<exists>t \<in> set (db_notification_targets d'). nt_id t = sr_owner_id r \<and> nt_secret_ref t = Some (sr_id r)"
    if "r \<in> set (db_secrets d')" "sr_owner_type r = ''notification_target''" for r
    using owned [OF that] ok that(2) by (auto simp: rows targets_ok_def)
  have "nt_name t' \<notin> nt_name ` set (db_notification_targets d)" using name by force
  then have "distinct (map nt_id (db_notification_targets d'))" "distinct (map nt_name (db_notification_targets d'))"
    using ok fresh by (simp_all add: rows targets_ok_def)
  then show ?thesis using secrets each one used unfolding targets_ok_def by simp
qed

text \<open>Fewer targets, or the same ones: what is left keeps its secret, and no secret is left behind.\<close>

lemma targets_ok_filter:
  assumes ok: "targets_ok env d" and rows: "db_notification_targets d' = filter P (db_notification_targets d)"
    and frame: "\<And>u. u \<in> set (db_notification_targets d) \<Longrightarrow> P u \<Longrightarrow> target_secret env d' u = target_secret env d u"
    and secrets: "distinct (map sr_id (db_secrets d'))"
    and owned: "\<And>r. r \<in> set (db_secrets d') \<Longrightarrow> sr_owner_type r = ''notification_target'' \<Longrightarrow>
      \<exists>s \<in> set (db_secrets d). sr_owner_type s = ''notification_target'' \<and> sr_owner_id s = sr_owner_id r \<and> sr_id s = sr_id r
        \<and> (\<forall>t \<in> set (db_notification_targets d). nt_id t = sr_owner_id r \<longrightarrow> P t)"
  shows "targets_ok env d'"
proof -
  have each: "target_config_ok env u \<and> secret_ok env d' u \<and> reset_target_ok env d' u" if "u \<in> set (db_notification_targets d')" for u
    using that ok secret_ok_cong [OF frame, of u] by (auto simp: rows targets_ok_def)
  have one: "u = v" if "u \<in> set (db_notification_targets d')" "v \<in> set (db_notification_targets d')"
      "is_password_reset_target u" "is_password_reset_target v" for u v
    using that ok by (auto simp: rows targets_ok_def)
  have used: "\<exists>t \<in> set (db_notification_targets d'). nt_id t = sr_owner_id r \<and> nt_secret_ref t = Some (sr_id r)"
    if r: "r \<in> set (db_secrets d')" "sr_owner_type r = ''notification_target''" for r
  proof -
    from owned [OF r] obtain s where s: "s \<in> set (db_secrets d)" "sr_owner_type s = ''notification_target''"
      "sr_owner_id s = sr_owner_id r" "sr_id s = sr_id r"
      "\<forall>t \<in> set (db_notification_targets d). nt_id t = sr_owner_id r \<longrightarrow> P t" by blast
    then obtain t where "t \<in> set (db_notification_targets d)" "nt_id t = sr_owner_id s" "nt_secret_ref t = Some (sr_id s)"
      using ok by (auto simp: targets_ok_def)
    then show ?thesis using s by (intro bexI [of _ t]) (auto simp: rows)
  qed
  have "distinct (map nt_id (db_notification_targets d'))" "distinct (map nt_name (db_notification_targets d'))"
    using ok by (auto simp: rows targets_ok_def intro: distinct_map_filter)
  then show ?thesis using secrets each one used unfolding targets_ok_def by simp
qed

section \<open>Secrets of a changed target\<close>

text \<open>The old secret of a target: its own, and of no other target.\<close>

definition own_secret :: "db \<Rightarrow> uuid \<Rightarrow> string \<Rightarrow> uuid option \<Rightarrow> bool" where
  "own_secret d k kind ref \<longleftrightarrow>
     (\<forall>old. ref = Some old \<longrightarrow>
        (\<exists>r. get_secret d old = Some r \<and> secret_matches (owner_filter kind k) r)
        \<and> (\<forall>u \<in> set (db_notification_targets d). nt_id u \<noteq> k \<longrightarrow> nt_secret_ref u \<noteq> Some old))"

lemma own_secret_ok:
  assumes ok: "targets_ok env d" and t: "t \<in> set (db_notification_targets d)"
  shows "own_secret d (nt_id t) (secret_kind t) (nt_secret_ref t)"
  unfolding own_secret_def
proof (intro allI impI conjI ballI)
  fix old assume ref: "nt_secret_ref t = Some old"
  have s: "secret_ok env d t" using ok t by (simp add: targets_ok_def)
  show "\<exists>r. get_secret d old = Some r \<and> secret_matches (owner_filter (secret_kind t) (nt_id t)) r"
    by (rule secret_row [OF s ref]) blast
  fix u assume "u \<in> set (db_notification_targets d)" "nt_id u \<noteq> nt_id t"
  then show "nt_secret_ref u \<noteq> Some old" using secret_refs_apart [OF ok t _ ref] by metis
qed

lemma drop_optional_spec:
  assumes own: "own_secret d k kind ref"
    and gone: "\<And>u. u \<in> set (db_notification_targets d) \<Longrightarrow> nt_id u = k \<Longrightarrow> ref = None \<or> nt_secret_ref u \<noteq> ref"
  shows "drop_optional d ref kind k = Inr (d\<lparr>db_secrets := filter (\<lambda>s. Some (sr_id s) \<noteq> ref) (db_secrets d)\<rparr>)"
    and "read_owned env (d\<lparr>db_secrets := filter (\<lambda>s. Some (sr_id s) \<noteq> ref) (db_secrets d)\<rparr>) j sf
      = (if ref = Some j then Inl key_error else read_owned env d j sf)"
proof -
  have "drop_optional d ref kind k = Inr (d\<lparr>db_secrets := filter (\<lambda>s. Some (sr_id s) \<noteq> ref) (db_secrets d)\<rparr>)
    \<and> read_owned env (d\<lparr>db_secrets := filter (\<lambda>s. Some (sr_id s) \<noteq> ref) (db_secrets d)\<rparr>) j sf
      = (if ref = Some j then Inl key_error else read_owned env d j sf)"
  proof (cases ref)
    case (Some old)
    then obtain r where r: "get_secret d old = Some r" "secret_matches (owner_filter kind k) r"
      using own by (auto simp: own_secret_def)
    have "\<not> secret_in_use d old" using own gone Some by (auto simp: own_secret_def secret_in_use_def list_ex_iff)
    note drop = drop_secret_spec [OF r this]
    have "(\<lambda>s. Some (sr_id s) \<noteq> Some old) = (\<lambda>s. sr_id s \<noteq> old)" by simp
    then show ?thesis using drop Some by (auto simp: drop_optional_def)
  qed (simp add: drop_optional_def)
  then show "drop_optional d ref kind k = Inr (d\<lparr>db_secrets := filter (\<lambda>s. Some (sr_id s) \<noteq> ref) (db_secrets d)\<rparr>)"
    and "read_owned env (d\<lparr>db_secrets := filter (\<lambda>s. Some (sr_id s) \<noteq> ref) (db_secrets d)\<rparr>) j sf
      = (if ref = Some j then Inl key_error else read_owned env d j sf)" by blast+
qed

lemma swap_secret_spec:
  assumes env: "env_ok env secret_key previous" and fresh: "get_secret d new = None"
    and own: "own_secret d (nt_id t) kind ref" and val: "text_object val"
  obtains d' r where "swap_secret env d t ref new nonce kind val = Inr (d', t\<lparr>nt_secret_ref := Some new\<rparr>)"
    "db_notification_targets d' = with_target (nt_id t) (t\<lparr>nt_secret_ref := Some new\<rparr>) (db_notification_targets d)"
    "db_secrets d' = filter (\<lambda>s. Some (sr_id s) \<noteq> ref) (db_secrets d) @ [r]"
    "d' = d\<lparr>db_notification_targets := db_notification_targets d', db_secrets := db_secrets d'\<rparr>"
    "sr_id r = new" "sr_owner_type r = ''notification_target''" "sr_owner_id r = nt_id t"
    "\<And>sf. read_owned env d' new (owner_filter kind (nt_id t)) = Inr val"
    "\<And>j sf. j \<noteq> new \<Longrightarrow> ref \<noteq> Some j \<Longrightarrow> read_owned env d' j sf = read_owned env d j sf"
proof -
  let ?t = "t\<lparr>nt_secret_ref := Some new\<rparr>"
  obtain r where store: "store_secret env d new nonce kind (nt_id t) val = Inr (d\<lparr>db_secrets := db_secrets d @ [r]\<rparr>, new)"
    and r: "sr_id r = new" "sr_kind r = kind" "sr_owner_type r = ''notification_target''" "sr_owner_id r = nt_id t"
    and reads: "\<And>j sf. read_owned env (d\<lparr>db_secrets := db_secrets d @ [r]\<rparr>) j sf
       = (if j = new then if agrees (sf_kind sf) kind \<and> agrees (sf_owner_type sf) ''notification_target'' \<and> agrees (sf_owner_id sf) (nt_id t)
                          then Inr val else Inl key_error
          else read_owned env d j sf)"
    by (rule store_secret_spec [OF env fresh val, where nonce = nonce and kind = kind and k = "nt_id t"]) blast
  define d1 where "d1 = alter_target (nt_id t) (\<lambda>_. ?t) (d\<lparr>db_secrets := db_secrets d @ [r]\<rparr>)"
  have rows: "db_notification_targets d1 = with_target (nt_id t) ?t (db_notification_targets d)"
    by (simp add: d1_def alter_target_def with_target_def)
  have secrets: "db_secrets d1 = db_secrets d @ [r]" by (simp add: d1_def alter_target_def)
  have missing: "ref \<noteq> Some new" using own fresh by (auto simp: own_secret_def)
  have own1: "own_secret d1 (nt_id t) kind ref"
    unfolding own_secret_def
  proof (intro allI impI conjI ballI)
    fix old assume ref: "ref = Some old"
    obtain s where s: "get_secret d old = Some s" "secret_matches (owner_filter kind (nt_id t)) s"
      using own ref by (auto simp: own_secret_def)
    have "get_secret (add_secret r d) old = Some s" using s(1) fresh r(1) secrets.get_add [of d r old] missing ref by simp
    then have "get_secret d1 old = Some s" by (simp add: get_secret_def secrets add_secret_def)
    with s(2) show "\<exists>r. get_secret d1 old = Some r \<and> secret_matches (owner_filter kind (nt_id t)) r" by blast
    fix u assume "u \<in> set (db_notification_targets d1)" "nt_id u \<noteq> nt_id t"
    then show "nt_secret_ref u \<noteq> Some old" using own ref
      by (auto simp: rows with_target_def own_secret_def split: if_splits)
  qed
  have gone: "ref = None \<or> nt_secret_ref u \<noteq> ref" if "u \<in> set (db_notification_targets d1)" "nt_id u = nt_id t" for u
    using that missing by (auto simp: rows with_target_def split: if_splits)
  note drop = drop_optional_spec [OF own1 gone]
  let ?d = "d1\<lparr>db_secrets := filter (\<lambda>s. Some (sr_id s) \<noteq> ref) (db_secrets d1)\<rparr>"
  have read1: "read_owned env d1 j sf = read_owned env (d\<lparr>db_secrets := db_secrets d @ [r]\<rparr>) j sf" for j sf
    by (rule secrets_frame(2)) (simp add: secrets)
  show thesis
  proof (rule that [of ?d r])
    show "swap_secret env d t ref new nonce kind val = Inr (?d, ?t)"
      using drop(1) by (simp add: swap_secret_def store d1_def [symmetric] Let_def)
    show "db_notification_targets ?d = with_target (nt_id t) ?t (db_notification_targets d)" using rows by simp
    show "db_secrets ?d = filter (\<lambda>s. Some (sr_id s) \<noteq> ref) (db_secrets d) @ [r]" using missing r(1) by (auto simp: secrets)
    show "?d = d\<lparr>db_notification_targets := db_notification_targets ?d, db_secrets := db_secrets ?d\<rparr>"
      by (simp add: d1_def alter_target_def)
    show "read_owned env ?d new (owner_filter kind (nt_id t)) = Inr val" using drop(2) missing read1 reads by simp
    show "read_owned env ?d j sf = read_owned env d j sf" if "j \<noteq> new" "ref \<noteq> Some j" for j sf
      using that drop(2) read1 reads by simp
  qed (use r in simp_all)
qed

lemma clear_secret_spec:
  assumes own: "own_secret d (nt_id t) kind (nt_secret_ref t)"
  obtains d' where "clear_secret d t kind = Inr (d', t\<lparr>nt_secret_ref := None\<rparr>)"
    "db_notification_targets d' = with_target (nt_id t) (t\<lparr>nt_secret_ref := None\<rparr>) (db_notification_targets d)"
    "db_secrets d' = filter (\<lambda>s. Some (sr_id s) \<noteq> nt_secret_ref t) (db_secrets d)"
    "d' = d\<lparr>db_notification_targets := db_notification_targets d', db_secrets := db_secrets d'\<rparr>"
    "\<And>env j sf. nt_secret_ref t \<noteq> Some j \<Longrightarrow> read_owned env d' j sf = read_owned env d j sf"
proof -
  let ?t = "t\<lparr>nt_secret_ref := None\<rparr>"
  define d1 where "d1 = alter_target (nt_id t) (\<lambda>_. ?t) d"
  have rows: "db_notification_targets d1 = with_target (nt_id t) ?t (db_notification_targets d)"
    by (simp add: d1_def alter_target_def with_target_def)
  have secrets: "db_secrets d1 = db_secrets d" by (simp add: d1_def alter_target_def)
  have "get_secret d1 k = get_secret d k" for k by (rule secrets_frame(1)) (simp add: secrets)
  then have own1: "own_secret d1 (nt_id t) kind (nt_secret_ref t)"
    using own by (auto simp: own_secret_def rows with_target_def split: if_splits)
  have gone: "nt_secret_ref t = None \<or> nt_secret_ref u \<noteq> nt_secret_ref t"
    if "u \<in> set (db_notification_targets d1)" "nt_id u = nt_id t" for u
    using that by (auto simp: rows with_target_def split: if_splits)
  note drop = drop_optional_spec [OF own1 gone]
  let ?d = "d1\<lparr>db_secrets := filter (\<lambda>s. Some (sr_id s) \<noteq> nt_secret_ref t) (db_secrets d1)\<rparr>"
  have read1: "read_owned env d1 j sf = read_owned env d j sf" for env j sf by (rule secrets_frame(2)) (simp add: secrets)
  show thesis
  proof (rule that [of ?d])
    show "clear_secret d t kind = Inr (?d, ?t)" using drop(1) by (simp add: clear_secret_def d1_def [symmetric] Let_def)
    show "db_notification_targets ?d = with_target (nt_id t) ?t (db_notification_targets d)" using rows by simp
    show "db_secrets ?d = filter (\<lambda>s. Some (sr_id s) \<noteq> nt_secret_ref t) (db_secrets d)" by (simp add: secrets)
    show "?d = d\<lparr>db_notification_targets := db_notification_targets ?d, db_secrets := db_secrets ?d\<rparr>"
      by (simp add: d1_def alter_target_def)
    show "read_owned env ?d j sf = read_owned env d j sf" if "nt_secret_ref t \<noteq> Some j" for env j sf
      using that drop(2) read1 by simp
  qed
qed

section \<open>An environment\<close>

text \<open>A service that stores secrets under one key and takes every URL and every stripped address.\<close>

definition example_env :: mail_env where
  "example_env = \<lparr>me_crypto = example_crypto, me_codec = example_codec, me_store = example_retired, me_text = (\<lambda>_. []),
     me_email = (\<lambda>s. if s \<noteq> [] \<and> py_strip s = s then Some s else None), me_bracket = (\<lambda>_. False), me_apprise = (\<lambda>_. None)\<rparr>"

lemma example_env_ok: "env_ok example_env ''new'' []"
  using example_fernet example_json example_opened(2) by (simp add: env_ok_def example_env_def)

text \<open>A webhook that gets alerts, with its stored URL.\<close>

definition example_url :: "string \<Rightarrow> secret_record" where
  "example_url url = \<lparr>sr_id = 9, sr_kind = ''notification_url'', sr_owner_type = ''notification_target'', sr_owner_id = 1,
     sr_key_id = ''id-new'', sr_encrypted_payload = ''new'' @ mark_pair (''url'', PStr url), sr_version = 1\<rparr>"

definition example_webhook :: notification_target where
  "example_webhook = \<lparr>nt_id = 1, nt_name = ''webhook'', nt_kind = ''apprise'', nt_enabled = True,
     nt_config_json = [(''notify_type'', PStr ''warning''), (''password_reset'', PBool False)], nt_secret_ref = Some 9\<rparr>"

lemma example_secret_read:
  assumes "db_secrets d = [example_url url]"
  shows "secret_read_json example_crypto example_codec example_retired d 9 (owner_filter ''notification_url'' 1)
    = Inr [(''url'', PStr url)]"
proof -
  have "read_pairs (length (mark_pair (''url'', PStr url))) (mark_pair (''url'', PStr url)) = Some [(''url'', PStr url)]"
    using read_marked_pairs [of "[(''url'', PStr url)]" "length (mark_pair (''url'', PStr url))"] by (simp add: mark_pair_def)
  then show ?thesis
    using assms by (simp add: secret_read_json_def secret_read_def secret_for_def get_secret_def secret_matches_def example_url_def
        open_secret_def decrypt_bytes_def example_retired_def example_crypto_def parse_object_def example_codec_def)
qed

lemma example_resolved:
  assumes "db_secrets d = [example_url url]" and "url \<noteq> []"
  shows "resolve_target example_env d example_webhook
    = Inr \<lparr>rv_target_id = 1, rv_name = ''webhook'', rv_url = url, rv_notify_type = ''warning''\<rparr>"
proof -
  have "secret_url example_env d example_webhook = Inr url"
    using example_secret_read [OF assms(1)] assms(2) by (simp add: secret_url_def example_webhook_def example_env_def)
  then show ?thesis by (simp add: resolve_target_def) (simp add: example_webhook_def)
qed

end
