(* ===== verification/TargetWorld.thy ===== *)
theory TargetWorld
  imports Targets AlertWorld
begin

text \<open>
  What the requests of \<open>Targets\<close> keep: the normal forms of configurations and credentials, readable secrets
  that belong to one target each and none left behind, and at most one target for password resets, which can
  carry them.
\<close>

section \<open>Normal forms\<close>

lemma apprise_config_shape:
  assumes "normalize_apprise_config env config = Inr m"
  obtains ty b where "m = [(''notify_type'', PStr ty), (''password_reset'', PBool b)]"
    "ty \<in> {''info'', ''success'', ''warning'', ''failure''}"
  using assms by (auto simp: normalize_apprise_config_def Let_def split: if_splits option.splits pyobj.splits)

lemma credentials_shape:
  assumes "normalize_smtp_credentials given = Inr m"
  obtains u p where "m = [(''password'', PStr p), (''username'', PStr u)]" "py_strip u = u" "u \<noteq> []" "length u \<le> 320" "p \<noteq> []"
  using assms by (auto simp: normalize_smtp_credentials_def split: if_splits option.splits pyobj.splits)

lemma credentials_again:
  "py_strip u = u \<Longrightarrow> u \<noteq> [] \<Longrightarrow> length u \<le> 320 \<Longrightarrow> p \<noteq> [] \<Longrightarrow>
   normalize_smtp_credentials [(''password'', PStr p), (''username'', PStr u)] = Inr [(''password'', PStr p), (''username'', PStr u)]"
  by (simp add: normalize_smtp_credentials_def)

lemma strip_spaceless: "\<not> list_ex is_space s \<Longrightarrow> py_strip s = s"
proof -
  assume "\<not> list_ex is_space s"
  then have plain: "\<not> is_space c" if "c \<in> set s" for c using that by (auto simp: list_ex_iff)
  have "dropWhile is_space s = s" "dropWhile is_space (rev s) = rev s"
    unfolding dropWhile_eq_self_iff using plain [of "hd s"] plain [of "last s"] by (cases "s = []"; simp add: hd_rev)+
  then show ?thesis by (simp add: py_strip_def)
qed

lemma text_or_text: "s \<noteq> [] \<Longrightarrow> text_or env dflt (Some (PStr s)) = s"
  by (simp add: text_or_def)

lemma from_name_again:
  assumes "smtp_from_name config = Inr name"
  shows "smtp_from_name [(''from_address'', a), (''from_name'', optional_text name), h, q, s] = Inr name"
proof -
  have "name = None \<or> (\<exists>n. name = Some n \<and> py_strip n = n \<and> n \<noteq> [] \<and> length n \<le> 128)"
    using assms by (auto simp: smtp_from_name_def Let_def split: option.splits pyobj.splits if_splits)
  then show ?thesis by (auto simp: smtp_from_name_def Let_def)
qed

lemma smtp_config_again:
  assumes env: "env_ok env secret_key previous" and m: "normalize_smtp_config env config = Inr m"
  shows "normalize_smtp_config env m = Inr m" and "map_of m ''password_reset'' = None"
proof -
  obtain host port security address name where
    parts: "smtp_host env config = Inr host" "smtp_port config = Inr port" "smtp_security env config = Inr security"
      "smtp_from_address env config = Inr address" "smtp_from_name config = Inr name"
    and doc: "m = smtp_document host port security address name"
    using m by (auto simp: normalize_smtp_config_def result_simps split: if_splits)
  have host: "host \<noteq> []" "\<not> 253 < length host" "\<not> list_ex is_space host"
      "\<not> list_ex (\<lambda>c. c \<in> set [CHR ''/'', CHR 0x5C, CHR ''?'', CHR ''#'', CHR ''@'']) host" "py_lower host = host"
    using parts(1) by (auto simp: smtp_host_def Let_def split: if_splits)
  have port: "1 \<le> port" "port \<le> 65535"
    using parts(2) by (auto simp: smtp_port_def split: option.splits pyobj.splits if_splits)
  have security: "security \<in> {''plain'', ''starttls'', ''tls''}"
      "security = py_lower (py_strip (text_or env ''starttls'' (map_of config ''security'')))"
    using parts(3) by (simp_all add: smtp_security_def Let_def split: if_splits)
  have lower: "py_lower security = security" by (subst (1 2) security(2)) simp
  have plain: "py_strip security = security"
    using security(1) by (intro strip_spaceless) (auto simp: is_space_def code_of_def)
  have address: "me_email env address = Some address" "py_strip address = address" "address \<noteq> []"
    using parts(4) env by (auto simp: smtp_from_address_def env_ok_def split: option.splits)
  have "smtp_host env m = Inr host" using host
    unfolding smtp_host_def doc smtp_document_def
    by (simp add: text_or_text strip_spaceless Let_def)
  moreover have "smtp_port m = Inr port" using port by (simp add: smtp_port_def doc smtp_document_def)
  moreover have "security \<noteq> []" using security(1) by auto
  then have "smtp_security env m = Inr security"
    unfolding smtp_security_def doc smtp_document_def using security(1) plain lower by (simp add: text_or_text Let_def)
  moreover have "smtp_from_address env m = Inr address"
    using address by (simp add: smtp_from_address_def doc smtp_document_def text_or_text)
  moreover have "smtp_from_name m = Inr name" unfolding doc smtp_document_def by (rule from_name_again [OF parts(5)])
  ultimately show "normalize_smtp_config env m = Inr m"
    by (simp add: normalize_smtp_config_def doc [symmetric]) (simp add: doc smtp_document_def)
  show "map_of m ''password_reset'' = None" by (simp add: doc smtp_document_def)
qed

lemma smtp_resets:
  assumes "target_config_ok env t" and "nt_kind t = ''smtp''"
  shows "\<not> is_password_reset_target t"
proof -
  have "\<not> list_ex (\<lambda>k. k \<notin> {''host'', ''port'', ''security'', ''from_address'', ''from_name''}) (map fst (nt_config_json t))"
    using assms by (auto simp: target_config_ok_def normalize_smtp_config_def split: if_splits)
  then have "map_of (nt_config_json t) ''password_reset'' = None" by (auto simp: list_ex_iff map_of_eq_None_iff)
  then show ?thesis by (simp add: is_password_reset_target_def)
qed

lemma validate_strip: "validate_password_reset_url b (py_strip url) = validate_password_reset_url b url"
  by (simp add: validate_password_reset_url_def)

lemma apprise_accepts_Inr [simp]: "apprise_accepts env url = Inr () \<longleftrightarrow> me_apprise env url = None"
  by (auto simp: apprise_accepts_def split: option.splits)

lemma name_available_iff [simp]: "target_name_available d name own = Inr () \<longleftrightarrow>
    (\<forall>t \<in> set (db_notification_targets d). nt_name t = name \<longrightarrow> Some (nt_id t) = own)"
  by (auto simp: target_name_available_def require_def list_ex_iff)

lemma reset_unique_iff [simp]: "ensure_password_reset_unique d own = Inr () \<longleftrightarrow>
    (\<forall>t \<in> set (db_notification_targets d). is_password_reset_target t \<longrightarrow> Some (nt_id t) = own)"
  by (auto simp: ensure_password_reset_unique_def require_def list_ex_iff)

lemma unit_result: "(r :: unit result) = Inr () \<or> (\<exists>e. r = Inl e)"
  by (cases r) auto

section \<open>Changes of one target\<close>

text \<open>The row a PATCH has prepared before it turns to the secret.\<close>

definition prepared_from :: "mail_env \<Rightarrow> db \<Rightarrow> notification_target \<Rightarrow> notification_target \<Rightarrow> bool" where
  "prepared_from env d t0 t \<longleftrightarrow>
     nt_id t = nt_id t0 \<and> nt_kind t = nt_kind t0 \<and> nt_secret_ref t = nt_secret_ref t0 \<and> target_config_ok env t
     \<and> (\<forall>u \<in> set (db_notification_targets d). nt_id u \<noteq> nt_id t0 \<longrightarrow> nt_name u \<noteq> nt_name t)
     \<and> (is_password_reset_target t \<longrightarrow>
          (\<forall>u \<in> set (db_notification_targets d). nt_id u \<noteq> nt_id t0 \<longrightarrow> \<not> is_password_reset_target u))"

text \<open>Only the rows of targets and secrets differ.\<close>

definition mail_only :: "db \<Rightarrow> db \<Rightarrow> bool" where
  "mail_only d d' \<longleftrightarrow> d' = d\<lparr>db_notification_targets := db_notification_targets d', db_secrets := db_secrets d'\<rparr>"

lemma with_target_twice: "nt_id t = k \<Longrightarrow> with_target k t' (with_target k t ts) = with_target k t' ts"
  by (simp add: with_target_def)

lemma own_unused:
  assumes ok: "targets_ok env d" and t: "t \<in> set (db_notification_targets d)"
    and r: "r \<in> set (db_secrets d)" "sr_owner_type r = ''notification_target''" "sr_owner_id r = nt_id t"
  shows "nt_secret_ref t = Some (sr_id r)"
proof -
  obtain u where u: "u \<in> set (db_notification_targets d)" "nt_id u = sr_owner_id r" "nt_secret_ref u = Some (sr_id r)"
    using ok r by (auto simp: targets_ok_def)
  then have "u = t" using ok t r(3) by (auto simp: targets_ok_def distinct_map inj_on_def)
  with u(3) show ?thesis by simp
qed

lemma target_secret_frame:
  assumes "\<And>k. nt_secret_ref u = Some k \<Longrightarrow> read_owned env d' k (owner_filter (secret_kind u) (nt_id u))
      = read_owned env d k (owner_filter (secret_kind u) (nt_id u))"
  shows "target_secret env d' u = target_secret env d u"
  using assms by (cases "nt_secret_ref u") (simp_all add: target_secret_def)

lemma keep_secret:
  assumes ok: "targets_ok env d" and t0: "t0 \<in> set (db_notification_targets d)" and t: "prepared_from env d t0 t"
    and reset: "reset_target_ok env d t"
  shows "targets_ok env (alter_target (nt_id t0) (\<lambda>_. t) d)" and "mail_only d (alter_target (nt_id t0) (\<lambda>_. t) d)"
proof -
  let ?d = "alter_target (nt_id t0) (\<lambda>_. t) d"
  have same: "db_secrets ?d = db_secrets d" by (simp add: alter_target_def)
  have reads: "target_secret env ?d u = target_secret env d u" for u
    by (rule target_secret_frame) (simp add: secrets_frame(2) [OF same])
  have kinds: "target_secret env d t = target_secret env d t0"
    using t by (simp add: target_secret_def secret_kind_def prepared_from_def)
  show "targets_ok env ?d"
  proof (rule targets_ok_alter [OF ok, of t "nt_id t0"])
    show "db_notification_targets ?d = with_target (nt_id t0) t (db_notification_targets d)"
      by (simp add: alter_target_def with_target_def)
    have "secret_ok env d t0" using ok t0 by (simp add: targets_ok_def)
    moreover have "nt_kind t = nt_kind t0" using t by (simp add: prepared_from_def)
    ultimately show "secret_ok env ?d t" unfolding secret_ok_def reads kinds by (simp split: option.splits)
    show "reset_target_ok env ?d t" using reset secret_ok_cong(2) [OF reads] by simp
    show "distinct (map sr_id (db_secrets ?d))" using ok same by (simp add: targets_ok_def)
    show "r \<in> set (db_secrets d) \<and> sr_owner_id r \<noteq> nt_id t0
        \<or> sr_owner_id r = nt_id t0 \<and> nt_secret_ref t = Some (sr_id r) \<and> nt_id t0 \<in> nt_id ` set (db_notification_targets d)"
      if "r \<in> set (db_secrets ?d)" "sr_owner_type r = ''notification_target''" for r
      using that same own_unused [OF ok t0, of r] t t0 by (cases "sr_owner_id r = nt_id t0") (auto simp: prepared_from_def)
  qed (use t reads in \<open>auto simp: prepared_from_def\<close>)
  show "mail_only d ?d" by (simp add: mail_only_def alter_target_def)
qed

text \<open>The value fits the kind of the target, and a target for password resets gets a URL for them.\<close>

definition value_ok :: "mail_env \<Rightarrow> notification_target \<Rightarrow> dict \<Rightarrow> bool" where
  "value_ok env t val \<longleftrightarrow>
     (if nt_kind t = ''smtp''
      then \<exists>u p. val = [(''password'', PStr p), (''username'', PStr u)] \<and> py_strip u = u \<and> u \<noteq> [] \<and> length u \<le> 320 \<and> p \<noteq> []
      else \<exists>url. val = [(''url'', PStr url)] \<and> url \<noteq> [] \<and> py_strip url = url \<and> me_apprise env url = None
             \<and> (is_password_reset_target t \<longrightarrow> validate_password_reset_url (me_bracket env) url = Inr ()))"

lemma value_ok_secret:
  assumes "value_ok env t val" and "target_config_ok env t" and "target_secret env d t = Some (Inr val)"
  shows "secret_ok env d t" and "reset_target_ok env d t"
  using assms smtp_resets [of env t] by (auto simp: value_ok_def secret_ok_def reset_target_ok_def split: if_splits)

lemma value_ok_text: "value_ok env t val \<Longrightarrow> text_object val"
  by (auto simp: value_ok_def text_object_def lexord_cons_cons code_of_def split: if_splits)

lemma value_ok_cong:
  "nt_kind t' = nt_kind t \<Longrightarrow> nt_config_json t' = nt_config_json t \<Longrightarrow> value_ok env t' val = value_ok env t val"
  "nt_kind t' = nt_kind t \<Longrightarrow> nt_config_json t' = nt_config_json t \<Longrightarrow> target_config_ok env t' = target_config_ok env t"
  by (simp_all add: value_ok_def is_password_reset_target_def target_config_ok_def)

text \<open>The same targets, by id, with the kinds they had.\<close>

definition keeps_roster :: "db \<Rightarrow> db \<Rightarrow> bool" where
  "keeps_roster d d' \<longleftrightarrow>
     map nt_id (db_notification_targets d') = map nt_id (db_notification_targets d)
     \<and> (\<forall>u \<in> set (db_notification_targets d'). \<exists>v \<in> set (db_notification_targets d). nt_id v = nt_id u \<and> nt_kind v = nt_kind u)"

text \<open>A replaced secret: the row points at the new one, the old one is gone, no other target is touched.\<close>

lemma changed_own:
  assumes ok: "targets_ok env d" and t0: "t0 \<in> set (db_notification_targets d)" and t: "prepared_from env d t0 t"
  shows "own_secret (alter_target (nt_id t0) (\<lambda>_. t) d) (nt_id t) (secret_kind t0) (nt_secret_ref t)"
proof -
  let ?d = "alter_target (nt_id t0) (\<lambda>_. t) d"
  have "db_secrets ?d = db_secrets d" by (simp add: alter_target_def)
  note frame = secrets_frame(1) [OF this]
  have "own_secret d (nt_id t0) (secret_kind t0) (nt_secret_ref t0)" by (rule own_secret_ok [OF ok t0])
  then show ?thesis using t frame
    by (auto simp: own_secret_def prepared_from_def alter_target_def split: if_splits)
qed

lemma other_secrets:
  assumes ok: "targets_ok env d" and t0: "t0 \<in> set (db_notification_targets d)"
    and u: "u \<in> set (db_notification_targets d)" "nt_id u \<noteq> nt_id t0" "nt_secret_ref u = Some k"
  shows "nt_secret_ref t0 \<noteq> Some k" and "get_secret d k \<noteq> None"
proof -
  show "nt_secret_ref t0 \<noteq> Some k" using secret_refs_apart [OF ok t0 u(1) _ u(3)] u(2) by metis
  have "secret_ok env d u" using ok u(1) by (simp add: targets_ok_def)
  then show "get_secret d k \<noteq> None" by (rule secret_row [OF _ u(3)]) simp
qed

lemma swap_keeps_targets:
  assumes env: "env_ok env secret_key previous" and ok: "targets_ok env d"
    and t0: "t0 \<in> set (db_notification_targets d)" and t: "prepared_from env d t0 t" and val: "value_ok env t val"
    and fresh: "get_secret d new = None"
  shows "\<exists>d' t'. swap_secret env (alter_target (nt_id t0) (\<lambda>_. t) d) t (nt_secret_ref t) new nonce (secret_kind t0) val = Inr (d', t')
    \<and> targets_ok env d' \<and> mail_only d d'
    \<and> keeps_roster d d'"
proof -
  let ?d = "alter_target (nt_id t0) (\<lambda>_. t) d" and ?t = "t\<lparr>nt_secret_ref := Some new\<rparr>"
  have p: "nt_id t = nt_id t0" "nt_kind t = nt_kind t0" "nt_secret_ref t = nt_secret_ref t0" "target_config_ok env t"
    using t by (simp_all add: prepared_from_def)
  have rows0: "db_notification_targets ?d = with_target (nt_id t0) t (db_notification_targets d)"
    and secrets0: "db_secrets ?d = db_secrets d" and only0: "mail_only d ?d"
    by (simp_all add: alter_target_def with_target_def mail_only_def)
  obtain d' r where d': "swap_secret env ?d t (nt_secret_ref t) new nonce (secret_kind t0) val = Inr (d', ?t)"
    and rows: "db_notification_targets d' = with_target (nt_id t) ?t (db_notification_targets ?d)"
    and secrets: "db_secrets d' = filter (\<lambda>s. Some (sr_id s) \<noteq> nt_secret_ref t) (db_secrets ?d) @ [r]"
    and only: "d' = ?d\<lparr>db_notification_targets := db_notification_targets d', db_secrets := db_secrets d'\<rparr>"
    and r: "sr_id r = new" "sr_owner_type r = ''notification_target''" "sr_owner_id r = nt_id t"
    and read: "\<And>sf. read_owned env d' new (owner_filter (secret_kind t0) (nt_id t)) = Inr val"
    and frame: "\<And>j sf. j \<noteq> new \<Longrightarrow> nt_secret_ref t \<noteq> Some j \<Longrightarrow> read_owned env d' j sf = read_owned env ?d j sf"
  proof (rule swap_secret_spec [OF env, of ?d new t "secret_kind t0" "nt_secret_ref t" val nonce])
    show "get_secret ?d new = None" using fresh secrets_frame(1) [OF secrets0] by simp
    show "own_secret ?d (nt_id t) (secret_kind t0) (nt_secret_ref t)" by (rule changed_own [OF ok t0 t])
    show "text_object val" by (rule value_ok_text [OF val])
  qed blast
  have rows': "db_notification_targets d' = with_target (nt_id t0) ?t (db_notification_targets d)"
    using rows rows0 p(1) by (simp add: with_target_twice)
  have kind: "secret_kind ?t = secret_kind t0" using p(2) by (simp add: secret_kind_def)
  have own: "target_secret env d' ?t = Some (Inr val)" using read kind by (simp add: target_secret_def)
  have config: "target_config_ok env ?t" using p(4) value_ok_cong(2) [of ?t t env] by simp
  have v: "value_ok env ?t val" using val value_ok_cong(1) [of ?t t env val] by simp
  have "targets_ok env d'"
  proof (rule targets_ok_alter [OF ok _ rows'])
    show "nt_id ?t = nt_id t0" using p(1) by simp
    show "nt_name u \<noteq> nt_name ?t" if "u \<in> set (db_notification_targets d)" "nt_id u \<noteq> nt_id t0" for u
      using t that by (auto simp: prepared_from_def)
    show "target_config_ok env ?t" by (rule config)
    show "secret_ok env d' ?t" "reset_target_ok env d' ?t" using value_ok_secret [OF v config own] by blast+
    show "\<not> is_password_reset_target u" if "is_password_reset_target ?t" "u \<in> set (db_notification_targets d)" "nt_id u \<noteq> nt_id t0" for u
      using t that by (auto simp: prepared_from_def is_password_reset_target_def)
    show "target_secret env d' u = target_secret env d u" if u: "u \<in> set (db_notification_targets d)" "nt_id u \<noteq> nt_id t0" for u
    proof (rule target_secret_frame)
      fix k assume k: "nt_secret_ref u = Some k"
      have "nt_secret_ref t \<noteq> Some k" "k \<noteq> new" using other_secrets [OF ok t0 u k] p(3) fresh by auto
      then show "read_owned env d' k (owner_filter (secret_kind u) (nt_id u)) = read_owned env d k (owner_filter (secret_kind u) (nt_id u))"
        using frame secrets_frame(2) [OF secrets0] by simp
    qed
    have "new \<notin> sr_id ` set (db_secrets d)" using fresh by (simp add: secrets.get_None_iff)
    then show "distinct (map sr_id (db_secrets d'))"
      using ok r(1) by (auto simp: secrets secrets0 targets_ok_def intro: distinct_map_filter)
    show "s \<in> set (db_secrets d) \<and> sr_owner_id s \<noteq> nt_id t0
        \<or> sr_owner_id s = nt_id t0 \<and> nt_secret_ref ?t = Some (sr_id s) \<and> nt_id t0 \<in> nt_id ` set (db_notification_targets d)"
      if s: "s \<in> set (db_secrets d')" "sr_owner_type s = ''notification_target''" for s
    proof (cases "s = r")
      case False
      then have "s \<in> set (db_secrets d)" "Some (sr_id s) \<noteq> nt_secret_ref t0" using s(1) p(3) by (auto simp: secrets secrets0)
      then show ?thesis using own_unused [OF ok t0 _ s(2)] by metis
    qed (use r p(1) t0 in auto)
  qed
  moreover have "mail_only d d'" using only only0 by (simp add: mail_only_def alter_target_def)
  moreover have "\<exists>v \<in> set (db_notification_targets d). nt_id v = nt_id u \<and> nt_kind v = nt_kind u"
    if "u \<in> set (db_notification_targets d')" for u
    using that t0 p by (auto simp: rows' with_target_def split: if_splits)
  moreover have "map nt_id (db_notification_targets d') = map nt_id (db_notification_targets d)"
    using p(1) by (simp add: rows' with_target_def)
  ultimately show ?thesis using d' by (auto simp: keeps_roster_def)
qed

lemma clear_keeps_targets:
  assumes ok: "targets_ok env d" and t0: "t0 \<in> set (db_notification_targets d)" and t: "prepared_from env d t0 t"
    and plain: "\<not> is_password_reset_target t"
  shows "\<exists>d' t'. clear_secret d t (secret_kind t0) = Inr (d', t') \<and> targets_ok env d' \<and> mail_only d d'
    \<and> keeps_roster d d'"
proof -
  let ?t = "t\<lparr>nt_secret_ref := None\<rparr>"
  have p: "nt_id t = nt_id t0" "nt_kind t = nt_kind t0" "nt_secret_ref t = nt_secret_ref t0" "target_config_ok env t"
    using t by (simp_all add: prepared_from_def)
  have "own_secret d (nt_id t) (secret_kind t0) (nt_secret_ref t)" using own_secret_ok [OF ok t0] p by simp
  then obtain d' where d': "clear_secret d t (secret_kind t0) = Inr (d', ?t)"
    and rows: "db_notification_targets d' = with_target (nt_id t0) ?t (db_notification_targets d)"
    and secrets: "db_secrets d' = filter (\<lambda>s. Some (sr_id s) \<noteq> nt_secret_ref t0) (db_secrets d)"
    and only: "d' = d\<lparr>db_notification_targets := db_notification_targets d', db_secrets := db_secrets d'\<rparr>"
    and frame: "\<And>j sf. nt_secret_ref t0 \<noteq> Some j \<Longrightarrow> read_owned env d' j sf = read_owned env d j sf"
    using clear_secret_spec [of d t "secret_kind t0"] p by metis
  have "targets_ok env d'"
  proof (rule targets_ok_alter [OF ok _ rows])
    show "target_config_ok env ?t" using p(4) value_ok_cong(2) [of ?t t env] by simp
    show "secret_ok env d' ?t" by (simp add: secret_ok_def target_secret_def)
    show "reset_target_ok env d' ?t" using plain by (simp add: reset_target_ok_def is_password_reset_target_def)
    show "target_secret env d' u = target_secret env d u" if u: "u \<in> set (db_notification_targets d)" "nt_id u \<noteq> nt_id t0" for u
      using other_secrets [OF ok t0 u] by (intro target_secret_frame frame) blast
    show "distinct (map sr_id (db_secrets d'))" using ok by (auto simp: secrets targets_ok_def intro: distinct_map_filter)
    show "s \<in> set (db_secrets d) \<and> sr_owner_id s \<noteq> nt_id t0
        \<or> sr_owner_id s = nt_id t0 \<and> nt_secret_ref ?t = Some (sr_id s) \<and> nt_id t0 \<in> nt_id ` set (db_notification_targets d)"
      if "s \<in> set (db_secrets d')" "sr_owner_type s = ''notification_target''" for s
      using that own_unused [OF ok t0, of s] by (auto simp: secrets)
  qed (use t p plain in \<open>auto simp: prepared_from_def is_password_reset_target_def\<close>)
  moreover have "mail_only d d'" using only by (simp add: mail_only_def)
  moreover have "\<exists>v \<in> set (db_notification_targets d). nt_id v = nt_id u \<and> nt_kind v = nt_kind u"
    if "u \<in> set (db_notification_targets d')" for u
    using that t0 p by (auto simp: rows with_target_def split: if_splits)
  moreover have "map nt_id (db_notification_targets d') = map nt_id (db_notification_targets d)"
    using p(1) by (simp add: rows with_target_def)
  ultimately show ?thesis using d' by (auto simp: keeps_roster_def)
qed

section \<open>Requests keep targets sound\<close>

lemma patched_row:
  assumes ok: "targets_ok env d" and t0: "t0 \<in> set (db_notification_targets d)"
    and name: "patch_target_name d changes t0 = Inr t1"
  shows "nt_id (patch_target_enabled changes t1) = nt_id t0" "nt_kind (patch_target_enabled changes t1) = nt_kind t0"
    "nt_secret_ref (patch_target_enabled changes t1) = nt_secret_ref t0"
    "nt_config_json (patch_target_enabled changes t1) = nt_config_json t0"
    "\<forall>u \<in> set (db_notification_targets d). nt_id u \<noteq> nt_id t0 \<longrightarrow> nt_name u \<noteq> nt_name (patch_target_enabled changes t1)"
proof -
  have others: "nt_name u \<noteq> nt_name t0" if "u \<in> set (db_notification_targets d)" "nt_id u \<noteq> nt_id t0" for u
    using that ok t0 by (auto simp: targets_ok_def distinct_map inj_on_def)
  have "nt_id t1 = nt_id t0 \<and> nt_kind t1 = nt_kind t0 \<and> nt_secret_ref t1 = nt_secret_ref t0 \<and> nt_config_json t1 = nt_config_json t0
      \<and> (\<forall>u \<in> set (db_notification_targets d). nt_id u \<noteq> nt_id t0 \<longrightarrow> nt_name u \<noteq> nt_name t1)"
    using name others by (auto simp: patch_target_name_def result_simps split: option.splits)
  then show "nt_id (patch_target_enabled changes t1) = nt_id t0" "nt_kind (patch_target_enabled changes t1) = nt_kind t0"
    "nt_secret_ref (patch_target_enabled changes t1) = nt_secret_ref t0"
    "nt_config_json (patch_target_enabled changes t1) = nt_config_json t0"
    "\<forall>u \<in> set (db_notification_targets d). nt_id u \<noteq> nt_id t0 \<longrightarrow> nt_name u \<noteq> nt_name (patch_target_enabled changes t1)"
    by (auto simp: patch_target_enabled_def split: option.split)
qed

lemma keep_roster:
  assumes "t0 \<in> set (db_notification_targets d)" and "nt_id t = nt_id t0" "nt_kind t = nt_kind t0"
  shows "keeps_roster d (alter_target (nt_id t0) (\<lambda>_. t) d)"
  using assms by (auto simp: keeps_roster_def alter_target_def split: if_splits)

lemma update_smtp_ok:
  assumes env: "env_ok env secret_key previous" and ok: "targets_ok env d" and t0: "t0 \<in> set (db_notification_targets d)"
    and fresh: "get_secret d new = None" and upd: "update_smtp env d new nonce t0 changes = Inr (d', t')"
  shows "targets_ok env d' \<and> mail_only d d' \<and> keeps_roster d d'"
proof -
  obtain t1 t3 where smtp: "nt_kind t0 = ''smtp''" and name: "patch_target_name d changes t0 = Inr t1"
    and t3: "(case np_config changes of
                    None \<Rightarrow> Inr (patch_target_enabled changes t1)
                  | Some v \<Rightarrow> and_then (or_invalid ''smtp_config_invalid'' v) (\<lambda>raw.
                      and_then (normalize_smtp_config env raw) (\<lambda>c.
                      Inr ((patch_target_enabled changes t1)\<lparr>nt_config_json := c\<rparr>)))) = Inr t3"
    and rest: "(if np_credentials_action changes \<notin> {''keep'', ''replace'', ''clear''}
        then Inl (ApiError 400 ''smtp_credentials_update_invalid'')
        else if np_credentials_action changes = ''replace'' then
          and_then (or_invalid ''smtp_credentials_update_invalid'' (np_smtp_credentials changes)) (\<lambda>raw.
          and_then (normalize_smtp_credentials raw) (\<lambda>val.
          swap_secret env (alter_target (nt_id t0) (\<lambda>_. t3) d) t3 (nt_secret_ref t3) new nonce ''smtp_credentials'' val))
        else if np_credentials_action changes = ''clear'' then
          and_then (require (np_smtp_credentials changes = None) (ApiError 400 ''smtp_credentials_update_invalid'')) (\<lambda>_.
          clear_secret d t3 ''smtp_credentials'')
        else and_then (require (np_smtp_credentials changes = None) (ApiError 400 ''smtp_credentials_update_invalid'')) (\<lambda>_.
          Inr (alter_target (nt_id t0) (\<lambda>_. t3) d, t3))) = Inr (d', t')"
    using upd unfolding update_smtp_def and_then_eq_Inr Let_def require_eq_Inr by blast
  note row = patched_row [OF ok t0 name]
  have config0: "target_config_ok env t0" using ok t0 by (simp add: targets_ok_def)
  have shape: "nt_id t3 = nt_id t0 \<and> nt_kind t3 = nt_kind t0 \<and> nt_secret_ref t3 = nt_secret_ref t0
      \<and> nt_name t3 = nt_name (patch_target_enabled changes t1) \<and> normalize_smtp_config env (nt_config_json t3) = Inr (nt_config_json t3)"
    using t3 row(1-4) config0 smtp smtp_config_again(1) [OF env]
    by (auto simp: result_simps target_config_ok_def split: option.splits)
  then have config: "target_config_ok env t3" using smtp by (simp add: target_config_ok_def)
  have plain: "\<not> is_password_reset_target t3" using smtp_resets [OF config] shape smtp by simp
  have prepared: "prepared_from env d t0 t3" using shape row(5) config plain by (simp add: prepared_from_def)
  have kind: "secret_kind t0 = ''smtp_credentials''" using smtp by (simp add: secret_kind_def)
  consider (replace) val where "value_ok env t3 val"
      "swap_secret env (alter_target (nt_id t0) (\<lambda>_. t3) d) t3 (nt_secret_ref t3) new nonce (secret_kind t0) val = Inr (d', t')"
    | (clear) "clear_secret d t3 (secret_kind t0) = Inr (d', t')"
    | (keep) "d' = alter_target (nt_id t0) (\<lambda>_. t3) d"
  proof -
    have "value_ok env t3 val" if "normalize_smtp_credentials raw = Inr val" for raw val
      using credentials_shape [OF that] shape smtp by (metis value_ok_def)
    then show thesis using rest that kind by (auto simp: result_simps split: if_splits)
  qed
  then show ?thesis
  proof cases
    case (replace val)
    then show ?thesis using swap_keeps_targets [OF env ok t0 prepared replace(1) fresh, of nonce] by auto
  next
    case clear
    then show ?thesis using clear_keeps_targets [OF ok t0 prepared plain] by auto
  next
    case keep
    have "reset_target_ok env d t3" using plain by (simp add: reset_target_ok_def)
    then show ?thesis using keep_secret [OF ok t0 prepared] keep_roster [OF t0] shape keep by simp
  qed
qed

text \<open>The URL of an Apprise target is the value it stored.\<close>

lemma secret_url_stored:
  assumes "secret_ok env d t0" and "nt_kind t0 \<noteq> ''smtp''" and "nt_id t = nt_id t0" "nt_kind t = nt_kind t0"
    "nt_secret_ref t = nt_secret_ref t0" and "secret_url env d t = Inr url"
  shows "target_secret env d t = Some (Inr [(''url'', PStr url)])"
proof -
  obtain ref where ref: "nt_secret_ref t0 = Some ref" using assms(5,6) by (auto simp: secret_url_def split: option.splits)
  then obtain u where "read_owned env d ref (owner_filter ''notification_url'' (nt_id t0)) = Inr [(''url'', PStr u)]"
    using assms(1,2) by (auto simp: secret_ok_def target_secret_def secret_kind_def)
  then show ?thesis using assms ref
    by (auto simp: secret_url_def target_secret_def secret_kind_def read_owned_def split: if_splits)
qed

lemma replace_url_swaps:
  assumes ok: "targets_ok env d" and t0: "t0 \<in> set (db_notification_targets d)" and t: "prepared_from env d t0 t"
    and kind: "nt_kind t0 \<noteq> ''smtp''"
    and r: "replace_url env (alter_target (nt_id t0) (\<lambda>_. t) d) new nonce t url = Inr (d', t')"
  shows "swap_secret env (alter_target (nt_id t0) (\<lambda>_. t) d) t (nt_secret_ref t) new nonce (secret_kind t0) [(''url'', PStr (py_strip url))]
      = Inr (d', t')" and "py_strip url \<noteq> []" and "me_apprise env (py_strip url) = None"
proof -
  let ?d = "alter_target (nt_id t0) (\<lambda>_. t) d"
  let ?any = "\<lparr>sf_kind = None, sf_owner_type = None, sf_owner_id = None\<rparr> :: secret_filter"
  have k: "secret_kind t0 = ''notification_url''" using kind by (simp add: secret_kind_def)
  have own: "own_secret ?d (nt_id t) ''notification_url'' (nt_secret_ref t)" using changed_own [OF ok t0 t] k by simp
  have "(case nt_secret_ref t of
           None \<Rightarrow> Inr None
         | Some ref \<Rightarrow>
             (case secret_metadata_of (me_store env) ?d ref ?any of
                Inl _ \<Rightarrow> Inr None
              | Inr m \<Rightarrow>
                  if sm_kind m \<noteq> ''notification_url'' \<or> sm_owner_type m \<noteq> ''notification_target'' \<or> sm_owner_id m \<noteq> nt_id t
                  then Inl (ApiError 409 ''notification_secret_invalid'') else Inr (Some ref))) = Inr (nt_secret_ref t)"
  proof (cases "nt_secret_ref t")
    case (Some ref)
    then obtain s where "get_secret ?d ref = Some s" "secret_matches (owner_filter ''notification_url'' (nt_id t)) s"
      using own by (auto simp: own_secret_def)
    then have "secret_metadata_of (me_store env) ?d ref ?any
        = Inr \<lparr>sm_secret_ref = sr_id s, sm_kind = ''notification_url'', sm_owner_type = ''notification_target'',
               sm_owner_id = nt_id t, sm_key_id = sr_key_id s, sm_version = sr_version s,
               sm_needs_rotation = needs_rotation (me_store env) (sr_key_id s)\<rparr>"
      by (simp add: secret_metadata_of_def secret_for_def secret_matches_def agrees_def owner_filter_def)
    then show ?thesis using Some by simp
  qed simp
  then have *: "replace_url env ?d new nonce t url
      = and_then (require (py_strip url \<noteq> []) (ApiError 400 ''notification_url_invalid'')) (\<lambda>_.
        and_then (apprise_accepts env (py_strip url)) (\<lambda>_.
        swap_secret env ?d t (nt_secret_ref t) new nonce ''notification_url'' [(''url'', PStr (py_strip url))]))"
    by (simp add: replace_url_def Let_def)
  show "swap_secret env ?d t (nt_secret_ref t) new nonce (secret_kind t0) [(''url'', PStr (py_strip url))] = Inr (d', t')"
    "py_strip url \<noteq> []" "me_apprise env (py_strip url) = None"
    using r unfolding * k by (auto simp: result_simps)
qed

lemma update_apprise_ok:
  assumes env: "env_ok env secret_key previous" and ok: "targets_ok env d" and t0: "t0 \<in> set (db_notification_targets d)"
    and kind0: "nt_kind t0 \<noteq> ''smtp''" and fresh: "get_secret d new = None"
    and upd: "update_apprise env d new nonce t0 changes = Inr (d', t')"
  shows "targets_ok env d' \<and> mail_only d d' \<and> keeps_roster d d'"
proof -
  obtain t1 config candidate where name: "patch_target_name d changes t0 = Inr t1"
    and config: "(case np_config changes of
                    None \<Rightarrow> Inr (nt_config_json (patch_target_enabled changes t1))
                  | Some v \<Rightarrow> and_then (or_invalid ''notification_target_config_invalid'' v) (normalize_apprise_config env)) = Inr config"
    and candidate: "candidate_url env d (patch_target_enabled changes t1) changes config = Inr candidate"
    and check: "check_reset_target env d (patch_target_enabled changes t1) config candidate = Inr ()"
    and rest: "(let t3 = (if np_config changes = None then patch_target_enabled changes t1
                   else (patch_target_enabled changes t1)\<lparr>nt_config_json := config\<rparr>)
        in if np_url_action changes = ''replace'' then
             (case candidate of
                None \<Rightarrow> Inl AssertionError
              | Some url \<Rightarrow> replace_url env (alter_target (nt_id t0) (\<lambda>_. t3) d) new nonce t3 url)
           else if np_url_action changes = ''clear'' then clear_secret d t3 ''notification_url''
           else Inr (alter_target (nt_id t0) (\<lambda>_. t3) d, t3)) = Inr (d', t')"
    using upd unfolding update_apprise_def and_then_eq_Inr Let_def by auto
  let ?t2 = "patch_target_enabled changes t1"
  define t3 where "t3 = (if np_config changes = None then ?t2 else ?t2\<lparr>nt_config_json := config\<rparr>)"
  note row = patched_row [OF ok t0 name]
  have config0: "target_config_ok env t0" and secret0: "secret_ok env d t0" using ok t0 by (simp_all add: targets_ok_def)
  have apprise: "nt_kind t0 = ''apprise''" using config0 kind0 by (simp add: target_config_ok_def)
  have fields: "nt_id t3 = nt_id t0" "nt_kind t3 = nt_kind t0" "nt_secret_ref t3 = nt_secret_ref t0" "nt_name t3 = nt_name ?t2"
    using row(1-3) by (simp_all add: t3_def)
  have json: "nt_config_json t3 = config" using config by (auto simp: t3_def)
  have shape: "\<exists>ty b. config = [(''notify_type'', PStr ty), (''password_reset'', PBool b)]
      \<and> ty \<in> {''info'', ''success'', ''warning'', ''failure''}"
  proof (cases "np_config changes")
    case None
    then show ?thesis using config config0 row(4) kind0 by (auto simp: target_config_ok_def)
  next
    case (Some v)
    then obtain raw where "normalize_apprise_config env raw = Inr config" using config by (auto simp: result_simps)
    then show ?thesis by (elim apprise_config_shape) blast
  qed
  then have config_ok: "target_config_ok env t3" using json fields(2) apprise by (simp add: target_config_ok_def)
  have reset: "is_password_reset_target t3 \<longleftrightarrow> map_of config ''password_reset'' = Some (PBool True)"
    by (simp add: is_password_reset_target_def json)
  have unique: "is_password_reset_target t3 \<longrightarrow>
      (\<forall>u \<in> set (db_notification_targets d). nt_id u \<noteq> nt_id t0 \<longrightarrow> \<not> is_password_reset_target u)"
    using check row(1) by (auto simp: reset check_reset_target_def result_simps)
  have valid: "\<exists>url. candidate = Some url \<and> validate_password_reset_url (me_bracket env) url = Inr ()"
    if "is_password_reset_target t3"
    using check that by (auto simp: reset check_reset_target_def result_simps split: option.splits)
  have prepared: "prepared_from env d t0 t3"
    using fields row(5) config_ok unique by (simp add: prepared_from_def)
  have action: "np_url_action changes \<in> {''keep'', ''replace'', ''clear''}"
    using candidate by (auto simp: candidate_url_def split: if_splits)
  show ?thesis
  proof (cases "np_url_action changes = ''replace''")
    case True
    then obtain url where url: "candidate = Some url" and "replace_url env (alter_target (nt_id t0) (\<lambda>_. t3) d) new nonce t3 url = Inr (d', t')"
      using rest by (auto simp: t3_def [symmetric] Let_def split: option.splits)
    note swap = replace_url_swaps [OF ok t0 prepared kind0 this(2)]
    have "value_ok env t3 [(''url'', PStr (py_strip url))]"
      using swap(2,3) valid url fields(2) kind0 by (auto simp: value_ok_def validate_strip)
    then show ?thesis using swap_keeps_targets [OF env ok t0 prepared _ fresh, of _ nonce] swap(1) by fastforce
  next
    case replace: False
    show ?thesis
    proof (cases "np_url_action changes = ''clear''")
      case True
      then have "candidate = None" using candidate by (auto simp: candidate_url_def result_simps)
      then have plain: "\<not> is_password_reset_target t3" using valid by auto
      have "clear_secret d t3 (secret_kind t0) = Inr (d', t')"
        using rest True kind0 by (simp add: t3_def [symmetric] Let_def secret_kind_def)
      then show ?thesis using clear_keeps_targets [OF ok t0 prepared plain] by auto
    next
      case False
      then have keep: "d' = alter_target (nt_id t0) (\<lambda>_. t3) d" using rest replace by (auto simp: t3_def [symmetric] Let_def)
      have "reset_target_ok env d t3"
        unfolding reset_target_ok_def
      proof
        assume r: "is_password_reset_target t3"
        then obtain url where url: "candidate = Some url" "validate_password_reset_url (me_bracket env) url = Inr ()"
          using valid by blast
        then have "secret_url env d ?t2 = Inr url"
          using candidate r replace False by (auto simp: candidate_url_def reset result_simps split: if_splits)
        then have "target_secret env d ?t2 = Some (Inr [(''url'', PStr url)])"
          by (rule secret_url_stored [OF secret0 kind0 row(1-3)])
        moreover have "target_secret env d t3 = target_secret env d ?t2"
          using fields row(1-3) by (simp add: target_secret_def secret_kind_def)
        ultimately show "\<exists>url. target_secret env d t3 = Some (Inr [(''url'', PStr url)])
            \<and> validate_password_reset_url (me_bracket env) url = Inr ()" using url(2) by auto
      qed
      then show ?thesis using keep_secret [OF ok t0 prepared] keep_roster [OF t0 fields(1,2)] keep by simp
    qed
  qed
qed

text \<open>Targets and secrets may have been added; nothing else differs.\<close>

definition grows_roster :: "db \<Rightarrow> db \<Rightarrow> bool" where
  "grows_roster d d' \<longleftrightarrow>
     (\<forall>t \<in> set (db_notification_targets d). \<exists>u \<in> set (db_notification_targets d'). nt_id u = nt_id t \<and> nt_kind u = nt_kind t)"

lemma add_with_secret:
  assumes env: "env_ok env secret_key previous" and ok: "targets_ok env d"
    and k: "nt_id t \<notin> nt_id ` set (db_notification_targets d)" and fresh: "get_secret d new = None"
    and name: "\<And>u. u \<in> set (db_notification_targets d) \<Longrightarrow> nt_name u \<noteq> nt_name t"
    and t: "target_config_ok env t" "value_ok env t val" "nt_secret_ref t = Some new"
    and unique: "\<And>u. is_password_reset_target t \<Longrightarrow> u \<in> set (db_notification_targets d) \<Longrightarrow> \<not> is_password_reset_target u"
  shows "\<exists>d1. store_secret env d new nonce (secret_kind t) (nt_id t) val = Inr (d1, new)
    \<and> targets_ok env (add_target t d1) \<and> mail_only d (add_target t d1) \<and> grows_roster d (add_target t d1)"
proof -
  obtain r where store: "store_secret env d new nonce (secret_kind t) (nt_id t) val = Inr (d\<lparr>db_secrets := db_secrets d @ [r]\<rparr>, new)"
    and r: "sr_id r = new" "sr_kind r = secret_kind t" "sr_owner_type r = ''notification_target''" "sr_owner_id r = nt_id t"
    and reads: "\<And>j sf. read_owned env (d\<lparr>db_secrets := db_secrets d @ [r]\<rparr>) j sf
       = (if j = new then if agrees (sf_kind sf) (secret_kind t) \<and> agrees (sf_owner_type sf) ''notification_target''
                              \<and> agrees (sf_owner_id sf) (nt_id t) then Inr val else Inl key_error
          else read_owned env d j sf)"
    by (rule store_secret_spec [OF env fresh value_ok_text [OF t(2)], where nonce = nonce and kind = "secret_kind t" and k = "nt_id t"]) blast
  let ?d1 = "d\<lparr>db_secrets := db_secrets d @ [r]\<rparr>"
  let ?d = "add_target t ?d1"
  have same: "db_secrets ?d = db_secrets ?d1" by (simp add: add_target_def)
  have own: "target_secret env ?d t = Some (Inr val)"
    using t(3) reads by (simp add: target_secret_def secrets_frame(2) [OF same])
  have "targets_ok env ?d"
  proof (rule targets_ok_add [OF ok])
    show "db_notification_targets ?d = db_notification_targets d @ [t]" by (simp add: add_target_def)
    show "secret_ok env ?d t" "reset_target_ok env ?d t" using value_ok_secret [OF t(2,1) own] by blast+
    show "target_secret env ?d u = target_secret env d u" if u: "u \<in> set (db_notification_targets d)" for u
    proof (rule target_secret_frame)
      fix j assume "nt_secret_ref u = Some j"
      moreover have "secret_ok env d u" using ok u by (simp add: targets_ok_def)
      ultimately have "j \<noteq> new" using fresh by (metis option.distinct(1) secret_row)
      then show "read_owned env ?d j (owner_filter (secret_kind u) (nt_id u)) = read_owned env d j (owner_filter (secret_kind u) (nt_id u))"
        using reads by (simp add: secrets_frame(2) [OF same])
    qed
    have "new \<notin> sr_id ` set (db_secrets d)" using fresh by (simp add: secrets.get_None_iff)
    then show "distinct (map sr_id (db_secrets ?d))" using ok r(1) by (simp add: same targets_ok_def)
  qed (use k name t unique r in \<open>auto simp: add_target_def\<close>)
  moreover have "mail_only d ?d" "grows_roster d ?d" by (auto simp: mail_only_def add_target_def grows_roster_def)
  ultimately show ?thesis using store by blast
qed

lemma create_smtp_ok:
  assumes env: "env_ok env secret_key previous" and ok: "targets_ok env d"
    and k: "k \<notin> nt_id ` set (db_notification_targets d)" and fresh: "get_secret d new = None"
    and create: "create_smtp env d k new nonce name enabled config given = Inr (d', t)"
  shows "targets_ok env d' \<and> mail_only d d' \<and> grows_roster d d'"
proof -
  obtain m where name: "\<And>u. u \<in> set (db_notification_targets d) \<Longrightarrow> nt_name u \<noteq> py_strip name"
    and m: "normalize_smtp_config env config = Inr m"
    and rest: "and_then (case given of
                 None \<Rightarrow> Inr (d, None)
               | Some c \<Rightarrow> and_then (normalize_smtp_credentials c) (\<lambda>val.
                   and_then (store_secret env d new nonce ''smtp_credentials'' k val) (\<lambda>(d1, ref).
                   Inr (d1, Some ref)))) (\<lambda>(d1, ref).
       let t = \<lparr>nt_id = k, nt_name = py_strip name, nt_kind = ''smtp'', nt_enabled = enabled,
                nt_config_json = m, nt_secret_ref = ref\<rparr>
       in Inr (add_target t d1, t)) = Inr (d', t)"
    using create unfolding create_smtp_def and_then_eq_Inr [of "target_name_available _ _ _"]
      and_then_eq_Inr [of "normalize_smtp_config _ _"] by auto
  define row where "row ref = \<lparr>nt_id = k, nt_name = py_strip name, nt_kind = ''smtp'', nt_enabled = enabled,
                nt_config_json = m, nt_secret_ref = ref\<rparr>" for ref
  have config: "target_config_ok env (row ref)" for ref
    using smtp_config_again(1) [OF env m] by (simp add: target_config_ok_def row_def)
  have plain: "\<not> is_password_reset_target (row ref)" for ref using smtp_resets [OF config] by (simp add: row_def)
  show ?thesis
  proof (cases given)
    case None
    then have d': "d' = add_target (row None) d" using rest by (auto simp: row_def Let_def)
    have "targets_ok env d'"
    proof (rule targets_ok_add [OF ok])
      show "db_notification_targets d' = db_notification_targets d @ [row None]" by (simp add: d' add_target_def)
      show "secret_ok env d' (row None)" by (simp add: secret_ok_def target_secret_def row_def)
      show "reset_target_ok env d' (row None)" using plain by (simp add: reset_target_ok_def)
      show "target_secret env d' u = target_secret env d u" for u
        by (rule target_secret_frame, rule secrets_frame(2)) (simp add: d' add_target_def)
    qed (use ok k name config plain in \<open>auto simp: row_def d' add_target_def targets_ok_def\<close>)
    then show ?thesis by (auto simp: d' mail_only_def add_target_def grows_roster_def)
  next
    case (Some c)
    then obtain val d1 ref where val: "normalize_smtp_credentials c = Inr val"
      and store: "store_secret env d new nonce ''smtp_credentials'' k val = Inr (d1, ref)" and d': "d' = add_target (row (Some ref)) d1"
      using rest by (auto simp: result_simps row_def Let_def)
    have "value_ok env (row (Some new)) val"
      by (rule credentials_shape [OF val]) (simp add: value_ok_def row_def)
    then obtain d2 where "store_secret env d new nonce (secret_kind (row (Some new))) (nt_id (row (Some new))) val = Inr (d2, new)"
      "targets_ok env (add_target (row (Some new)) d2)" "mail_only d (add_target (row (Some new)) d2)"
      "grows_roster d (add_target (row (Some new)) d2)"
      using add_with_secret [OF env ok _ fresh _ config, of "Some new" val nonce] k name plain by (auto simp: row_def)
    then show ?thesis using store d' by (simp add: row_def secret_kind_def)
  qed
qed


lemma create_apprise_ok:
  assumes env: "env_ok env secret_key previous" and ok: "targets_ok env d"
    and k: "k \<notin> nt_id ` set (db_notification_targets d)" and fresh: "get_secret d new = None"
    and create: "create_apprise env d k new nonce name enabled config url = Inr (d', t)"
  shows "targets_ok env d' \<and> mail_only d d' \<and> grows_roster d d'"
proof -
  obtain m d1 ref where name: "\<And>u. u \<in> set (db_notification_targets d) \<Longrightarrow> nt_name u \<noteq> py_strip name"
    and url: "py_strip url \<noteq> []" and m: "normalize_apprise_config env config = Inr m"
    and reset: "map_of m ''password_reset'' = Some (PBool True) \<longrightarrow>
        ensure_password_reset_unique d None = Inr () \<and> validate_password_reset_url (me_bracket env) (py_strip url) = Inr ()"
    and accepts: "apprise_accepts env (py_strip url) = Inr ()"
    and store: "store_secret env d new nonce ''notification_url'' k [(''url'', PStr (py_strip url))] = Inr (d1, ref)"
    and d': "d' = add_target \<lparr>nt_id = k, nt_name = py_strip name, nt_kind = ''apprise'', nt_enabled = enabled,
              nt_config_json = m, nt_secret_ref = Some ref\<rparr> d1"
    using create unfolding create_apprise_def
    by (auto simp: and_then_eq_Inr Let_def simp del: apprise_accepts_Inr reset_unique_iff split: if_splits)
  let ?t = "\<lparr>nt_id = k, nt_name = py_strip name, nt_kind = ''apprise'', nt_enabled = enabled,
              nt_config_json = m, nt_secret_ref = Some new\<rparr>"
  obtain ty b where shape: "m = [(''notify_type'', PStr ty), (''password_reset'', PBool b)]"
    "ty \<in> {''info'', ''success'', ''warning'', ''failure''}" by (rule apprise_config_shape [OF m])
  then have "target_config_ok env ?t" by (simp add: target_config_ok_def)
  moreover have "value_ok env ?t [(''url'', PStr (py_strip url))]"
    using url accepts reset by (simp add: value_ok_def is_password_reset_target_def)
  ultimately obtain d2 where "store_secret env d new nonce (secret_kind ?t) (nt_id ?t) [(''url'', PStr (py_strip url))] = Inr (d2, new)"
      "targets_ok env (add_target ?t d2)" "mail_only d (add_target ?t d2)" "grows_roster d (add_target ?t d2)"
    using add_with_secret [OF env ok _ fresh, of ?t "[(''url'', PStr (py_strip url))]" nonce] k name reset
    by (auto simp: is_password_reset_target_def)
  then show ?thesis using store d' by (simp add: secret_kind_def)
qed

text \<open>The settings do not concern targets and secrets.\<close>

lemma targets_ok_frame:
  assumes "db_notification_targets d' = db_notification_targets d" and "db_secrets d' = db_secrets d"
  shows "targets_ok env d' = targets_ok env d"
proof -
  have "target_secret env d' u = target_secret env d u" for u
    by (rule target_secret_frame, rule secrets_frame(2)) (rule assms(2))
  then show ?thesis using assms by (simp add: targets_ok_def secret_ok_def reset_target_ok_def)
qed

lemma set_security_shape:
  assumes "set_security_email_target d k = Inr d'"
  shows "\<exists>s. d' = d\<lparr>db_settings := s\<rparr>"
  using assms by (auto simp: set_security_email_target_def result_simps put_setting_def split: if_splits)

lemma delete_target_ok:
  assumes ok: "targets_ok env d" and t: "t \<in> set (db_notification_targets d)" and del: "delete_target d t = Inr d'"
  shows "targets_ok env d'" and "db_notification_targets d' = filter (\<lambda>x. nt_id x \<noteq> nt_id t) (db_notification_targets d)"
    and "d' = d\<lparr>db_notification_targets := db_notification_targets d', db_secrets := db_secrets d', db_settings := db_settings d'\<rparr>"
proof -
  obtain d1 where d1: "(if security_email_target_id d = Some (nt_id t) then set_security_email_target d None else Inr d) = Inr d1"
    and rest: "drop_optional (d1\<lparr>db_notification_targets := filter (\<lambda>x. nt_id x \<noteq> nt_id t) (db_notification_targets d1)\<rparr>)
       (nt_secret_ref t) (if nt_kind t = ''smtp'' then ''smtp_credentials'' else ''notification_url'') (nt_id t) = Inr d'"
    using del by (auto simp: delete_target_def result_simps)
  have "d1 = d \<or> (\<exists>s. d1 = d\<lparr>db_settings := s\<rparr>)"
    using d1 set_security_shape [of d None d1] by (cases "security_email_target_id d = Some (nt_id t)") simp_all
  then obtain settings where only: "d1 = d\<lparr>db_settings := settings\<rparr>" by (metis db.surjective db.update_convs(22))
  then have same: "db_notification_targets d1 = db_notification_targets d" "db_secrets d1 = db_secrets d" by simp_all
  let ?d = "d1\<lparr>db_notification_targets := filter (\<lambda>x. nt_id x \<noteq> nt_id t) (db_notification_targets d1)\<rparr>"
  have secrets: "db_secrets ?d = db_secrets d" using same by simp
  have own: "own_secret d (nt_id t) (secret_kind t) (nt_secret_ref t)" by (rule own_secret_ok [OF ok t])
  then have "own_secret ?d (nt_id t) (secret_kind t) (nt_secret_ref t)"
    using same secrets_frame(1) [OF secrets] by (auto simp: own_secret_def)
  note drop = drop_optional_spec [OF this]
  have d': "d' = ?d\<lparr>db_secrets := filter (\<lambda>s. Some (sr_id s) \<noteq> nt_secret_ref t) (db_secrets ?d)\<rparr>"
    using rest drop(1) by (simp add: secret_kind_def)
  show rows: "db_notification_targets d' = filter (\<lambda>x. nt_id x \<noteq> nt_id t) (db_notification_targets d)"
    using same by (simp add: d')
  show "d' = d\<lparr>db_notification_targets := db_notification_targets d', db_secrets := db_secrets d', db_settings := db_settings d'\<rparr>"
    by (simp add: d' only)
  have secrets': "db_secrets d' = filter (\<lambda>s. Some (sr_id s) \<noteq> nt_secret_ref t) (db_secrets d)" using same by (simp add: d')
  have gone: "u \<in> set (db_notification_targets ?d) \<Longrightarrow> nt_id u = nt_id t \<Longrightarrow> nt_secret_ref t = None \<or> nt_secret_ref u \<noteq> nt_secret_ref t" for u
    using same by simp
  have reads: "read_owned env d' j sf = read_owned env d j sf" if "nt_secret_ref t \<noteq> Some j" for j sf
  proof -
    have "read_owned env d' j sf = (if nt_secret_ref t = Some j then Inl key_error else read_owned env ?d j sf)"
      unfolding d' by (rule drop(2) [OF gone])
    moreover have "read_owned env ?d j sf = read_owned env d j sf" by (rule secrets_frame(2) [OF secrets])
    ultimately show ?thesis using that by simp
  qed
  show "targets_ok env d'"
  proof (rule targets_ok_filter [OF ok rows])
    show "target_secret env d' u = target_secret env d u" if "u \<in> set (db_notification_targets d)" "nt_id u \<noteq> nt_id t" for u
      using other_secrets [OF ok t that] by (intro target_secret_frame reads) blast
    show "distinct (map sr_id (db_secrets d'))" using ok by (auto simp: secrets' targets_ok_def intro: distinct_map_filter)
    show "\<exists>s \<in> set (db_secrets d). sr_owner_type s = ''notification_target'' \<and> sr_owner_id s = sr_owner_id r \<and> sr_id s = sr_id r
        \<and> (\<forall>u \<in> set (db_notification_targets d). nt_id u = sr_owner_id r \<longrightarrow> nt_id u \<noteq> nt_id t)"
      if r: "r \<in> set (db_secrets d')" "sr_owner_type r = ''notification_target''" for r
      using r own_unused [OF ok t, of r] by (intro bexI [of _ r]) (auto simp: secrets')
  qed
qed

end
