(* ===== verification/Delivery.thy ===== *)
theory Delivery
  imports Targets
begin

text \<open>
  \<open>modules/notifications/delivery.py\<close>: one attempt to deliver a notification. \<open>prepare\<close> claims the
  delivery in a transaction of its own, the message goes out without one, and \<open>_mark_sent\<close> or
  \<open>_mark_failed\<close> record the outcome in a third. \<open>post\<close> stands for the Apprise and SMTP adapters: \<open>None\<close> when the
  message was accepted, or the code of the failure and whether it is permanent.
\<close>

section \<open>The table\<close>

definition get_delivery :: "db \<Rightarrow> uuid \<Rightarrow> delivery option" where
  "get_delivery d k = find (\<lambda>x. nd_id x = k) (db_deliveries d)"

definition alter_delivery :: "uuid \<Rightarrow> (delivery \<Rightarrow> delivery) \<Rightarrow> db \<Rightarrow> db" where
  "alter_delivery k f d = d\<lparr>db_deliveries := map (\<lambda>x. if nd_id x = k then f x else x) (db_deliveries d)\<rparr>"

interpretation deliveries: keyed_table db_deliveries nd_id get_delivery add_delivery alter_delivery
  by unfold_locales (simp_all add: get_delivery_def add_delivery_def alter_delivery_def)

section \<open>Claiming a delivery\<close>

record notification_plan =
  pl_delivery_id :: uuid
  pl_target_id :: uuid
  pl_target_kind :: string
  pl_purpose :: string
  pl_correlation_id :: "string option"
  pl_title :: string
  pl_body :: string
  pl_notify_type :: string
  pl_url :: "string option"
  pl_smtp :: "resolved_smtp option"

record notification_result =
  nr_delivery_id :: uuid
  nr_state :: delivery_state
  nr_delivered :: bool

datatype claim = Claimed notification_plan | Concluded notification_result

definition concluded :: "uuid \<Rightarrow> delivery_state \<Rightarrow> claim" where
  "concluded k st = Concluded \<lparr>nr_delivery_id = k, nr_state = st, nr_delivered = False\<rparr>"

definition mark_state :: "delivery_state \<Rightarrow> instant \<Rightarrow> string \<Rightarrow> delivery \<Rightarrow> delivery" where
  "mark_state st now code x = x\<lparr>nd_state := st, nd_last_attempt_at := Some now, nd_last_error_code := Some code\<rparr>"

definition busy :: "instant \<Rightarrow> delivery \<Rightarrow> bool" where
  "busy now x = (nd_state x = Sending \<and> (case nd_last_attempt_at x of None \<Rightarrow> False | Some t \<Rightarrow> now - minutes 5 < t))"

definition carries_resets :: "notification_target \<Rightarrow> bool" where
  "carries_resets t = (nt_kind t = ''smtp'' \<or> (nt_kind t = ''apprise'' \<and> is_password_reset_target t))"

definition begin_attempt :: "instant \<Rightarrow> delivery \<Rightarrow> delivery" where
  "begin_attempt now x = x\<lparr>nd_state := Sending, nd_attempt_count := nd_attempt_count x + 1,
     nd_last_attempt_at := Some now, nd_last_error_code := None\<rparr>"

definition plan_of :: "delivery \<Rightarrow> notification_target \<Rightarrow> string \<Rightarrow> string option \<Rightarrow> resolved_smtp option \<Rightarrow> notification_plan" where
  "plan_of x t notify_type url smtp =
     \<lparr>pl_delivery_id = nd_id x, pl_target_id = nt_id t, pl_target_kind = nt_kind t, pl_purpose = nd_purpose x,
      pl_correlation_id = nd_correlation_id x, pl_title = nd_title x, pl_body = nd_body x,
      pl_notify_type = notify_type, pl_url = url, pl_smtp = smtp\<rparr>"

definition resolve_plan :: "mail_env \<Rightarrow> db \<Rightarrow> delivery \<Rightarrow> notification_target \<Rightarrow> notification_plan result" where
  "resolve_plan env d x t =
     (if nt_kind t = ''smtp''
      then and_then (resolve_smtp env d t) (\<lambda>s. Inr (plan_of x t ''info'' None (Some s)))
      else and_then (resolve_target env d t) (\<lambda>r. Inr (plan_of x t (rv_notify_type r) (Some (rv_url r)) None)))"

definition prepare_delivery :: "mail_env \<Rightarrow> db \<Rightarrow> instant \<Rightarrow> uuid \<Rightarrow> (db \<times> claim) result" where
  "prepare_delivery env d now k =
     (case get_delivery d k of
        None \<Rightarrow> Inl (ApiError 404 ''notification_delivery_not_found'')
      | Some x \<Rightarrow>
          if nd_state x = Sent then Inr (d, concluded k Sent)
          else if nd_state x = Skipped then Inr (d, concluded k Skipped)
          else (case get_notification_target d (nd_notification_target_id x) of
              None \<Rightarrow> Inr (alter_delivery k (mark_state Skipped now ''notification_target_unavailable'') d, concluded k Skipped)
            | Some t \<Rightarrow>
                if \<not> nt_enabled t
                then Inr (alter_delivery k (mark_state Skipped now ''notification_target_unavailable'') d, concluded k Skipped)
                else if busy now x then Inl (ApiError 409 ''notification_delivery_busy'')
                else if nd_purpose x = ''password_reset'' \<and> \<not> carries_resets t
                then Inr (alter_delivery k (mark_state DeliveryFailed now ''password_reset_target_unavailable'') d,
                          concluded k DeliveryFailed)
                else (case resolve_plan env d x t of
                    Inl (ApiError status code) \<Rightarrow>
                      Inr (alter_delivery k (mark_state DeliveryFailed now code) d, concluded k DeliveryFailed)
                  | Inl e \<Rightarrow> Inl e
                  | Inr p \<Rightarrow> Inr (alter_delivery k (begin_attempt now) d, Claimed p))))"

definition mark_delivery_failed :: "db \<Rightarrow> instant \<Rightarrow> uuid \<Rightarrow> string \<Rightarrow> db" where
  "mark_delivery_failed d now k code = alter_delivery k (mark_state DeliveryFailed now code) d"

definition mark_delivery_sent :: "db \<Rightarrow> instant \<Rightarrow> uuid \<Rightarrow> db result" where
  "mark_delivery_sent d now k =
     (case get_delivery d k of
        None \<Rightarrow> Inl (ApiError 404 ''notification_delivery_not_found'')
      | Some _ \<Rightarrow> Inr (alter_delivery k (\<lambda>x. x\<lparr>nd_state := Sent, nd_sent_at := Some now,
          nd_last_attempt_at := Some now, nd_last_error_code := None\<rparr>) d))"

section \<open>The message\<close>

text \<open>The text of a stored delivery, or the reset mail, which is built from the row of the reset.\<close>

datatype message = TextMessage string string | ResetMessage reset_mail

datatype channel = SmtpChannel resolved_smtp string | AppriseChannel string string

record reset_keys =
  rk_mac :: "string \<Rightarrow> bytes \<Rightarrow> bytes"
  rk_sha :: "string \<Rightarrow> string"
  rk_keys :: "string list"

text \<open>Title and body, the URL and the recipient of a claimed delivery.\<close>

definition message_of_plan ::
    "mail_env \<Rightarrow> reset_keys \<Rightarrow> db \<Rightarrow> instant \<Rightarrow> notification_plan \<Rightarrow> (message \<times> string option \<times> string option) result" where
  "message_of_plan env rk d now p =
     (if pl_purpose p \<noteq> ''password_reset'' then Inr (TextMessage (pl_title p) (pl_body p), pl_url p, None)
      else and_then (case pl_correlation_id p of
                       None \<Rightarrow> Inl (ApiError 409 ''password_reset_delivery_invalid'')
                     | Some c \<Rightarrow> if c = [] then Inl (ApiError 409 ''password_reset_delivery_invalid'') else Inr c) (\<lambda>c.
           and_then (delivery_mail (rk_mac rk) (rk_sha rk) (rk_keys rk) d now c) (\<lambda>mail.
           if pl_target_kind p = ''apprise'' then
             (case pl_url p of
                None \<Rightarrow> Inl (ApiError 409 ''notification_secret_unavailable'')
              | Some url \<Rightarrow> and_then (password_reset_recipient_url (me_bracket env) url (rm_recipient mail)) (\<lambda>u.
                  Inr (ResetMessage mail, Some u, Some (rm_recipient mail))))
           else Inr (ResetMessage mail, pl_url p, Some (rm_recipient mail)))))"

text \<open>Where it goes, or the code of a permanent failure.\<close>

definition channel_of_plan :: "notification_plan \<Rightarrow> string option \<Rightarrow> string option \<Rightarrow> string + channel" where
  "channel_of_plan p url recipient =
     (if pl_target_kind p = ''smtp'' then
        (case (pl_smtp p, recipient) of
           (Some s, Some r) \<Rightarrow> Inr (SmtpChannel s r)
         | _ \<Rightarrow> Inl ''smtp_recipient_unavailable'')
      else (case url of
          None \<Rightarrow> Inl ''notification_secret_unavailable''
        | Some u \<Rightarrow> Inr (AppriseChannel u (pl_notify_type p))))"

text \<open>What an attempt comes to once the delivery is claimed: sent over a channel, or failed with a code, for good or not.\<close>

datatype outcome = Posted channel message | Refused string bool

definition attempt_outcome ::
    "mail_env \<Rightarrow> reset_keys \<Rightarrow> (channel \<Rightarrow> message \<Rightarrow> (string \<times> bool) option) \<Rightarrow> db \<Rightarrow> instant \<Rightarrow> notification_plan \<Rightarrow> outcome result" where
  "attempt_outcome env rk post d now p =
     (case message_of_plan env rk d now p of
        Inl (ApiError status code) \<Rightarrow> Inr (Refused code True)
      | Inl e \<Rightarrow> Inl e
      | Inr (m, url, recipient) \<Rightarrow>
          (case channel_of_plan p url recipient of
             Inl code \<Rightarrow> Inr (Refused code True)
           | Inr c \<Rightarrow>
               (case post c m of
                  None \<Rightarrow> Inr (Posted c m)
                | Some (code, permanent) \<Rightarrow> Inr (Refused code permanent))))"

text \<open>The recording of the outcome; a failure that is not permanent is raised again for the queue to retry.\<close>

definition conclude_attempt :: "db \<Rightarrow> instant \<Rightarrow> uuid \<Rightarrow> outcome \<Rightarrow> db \<times> notification_result result" where
  "conclude_attempt d now k r =
     (case r of
        Posted c m \<Rightarrow>
          (case mark_delivery_sent d now k of
             Inl e \<Rightarrow> (d, Inl e)
           | Inr d' \<Rightarrow> (d', Inr \<lparr>nr_delivery_id = k, nr_state = Sent, nr_delivered = True\<rparr>))
      | Refused code permanent \<Rightarrow>
          (mark_delivery_failed d now k code,
           if permanent then Inr \<lparr>nr_delivery_id = k, nr_state = DeliveryFailed, nr_delivered = False\<rparr>
           else Inl (DomainError code)))"

definition execute_delivery ::
    "mail_env \<Rightarrow> reset_keys \<Rightarrow> (channel \<Rightarrow> message \<Rightarrow> (string \<times> bool) option) \<Rightarrow> db \<Rightarrow> instant \<Rightarrow> uuid
     \<Rightarrow> db \<times> notification_result result" where
  "execute_delivery env rk post d now k =
     (case prepare_delivery env d now k of
        Inl e \<Rightarrow> (d, Inl e)
      | Inr (d1, Concluded r) \<Rightarrow> (d1, Inr r)
      | Inr (d1, Claimed p) \<Rightarrow>
          (case attempt_outcome env rk post d1 now p of
             Inl e \<Rightarrow> (d1, Inl e)
           | Inr r \<Rightarrow> conclude_attempt d1 now k r))"

end
