(* ===== verification/DeliveryWorld.thy ===== *)
theory DeliveryWorld
  imports Delivery
begin

text \<open>
  Deliveries under concurrent workers: claims, messages and records of outcomes interleave with each
  other, with workers that die and with the rest of the program. What is posted, to whom, and how often.
\<close>

section \<open>Workers\<close>

text \<open>
  An attempt in flight: its delivery, when it was claimed, its plan, and what came of it once the message was
  tried. The log holds every message that was accepted, with the database it was built from.
\<close>

record flight =
  fl_delivery :: uuid
  fl_started :: instant
  fl_plan :: notification_plan
  fl_outcome :: "outcome option"

record posting =
  po_delivery :: uuid
  po_purpose :: string
  po_channel :: channel
  po_message :: message
  po_at :: instant
  po_db :: db

record mail_world =
  mw_db :: db
  mw_now :: instant
  mw_flights :: "flight list"
  mw_log :: "posting list"

definition posted :: "db \<Rightarrow> instant \<Rightarrow> flight \<Rightarrow> outcome \<Rightarrow> posting list" where
  "posted d now f r =
     (case r of
        Posted c m \<Rightarrow> [\<lparr>po_delivery = fl_delivery f, po_purpose = pl_purpose (fl_plan f), po_channel = c, po_message = m,
                        po_at = now, po_db = d\<rparr>]
      | Refused code permanent \<Rightarrow> [])"

text \<open>
  What the rest of the program does to deliveries: alerts and password resets add pending ones; rows
  that exist are left alone.
\<close>

definition others_deliver :: "db \<Rightarrow> db \<Rightarrow> bool" where
  "others_deliver d d' \<longleftrightarrow>
     (\<exists>new. db_deliveries d' = db_deliveries d @ new \<and> distinct (map nd_id new)
        \<and> (\<forall>x \<in> set new. nd_state x = Pending \<and> nd_id x \<notin> nd_id ` set (db_deliveries d)))"

inductive mail_step :: "mail_env \<Rightarrow> reset_keys \<Rightarrow> mail_world \<Rightarrow> mail_world \<Rightarrow> bool" for env rk where
  mail_claim: "prepare_delivery env (mw_db w) (mw_now w) k = Inr (d, Claimed p)
    \<Longrightarrow> mail_step env rk w (w\<lparr>mw_db := d,
          mw_flights := \<lparr>fl_delivery = k, fl_started = mw_now w, fl_plan = p, fl_outcome = None\<rparr> # mw_flights w\<rparr>)"
| mail_conclude: "prepare_delivery env (mw_db w) (mw_now w) k = Inr (d, Concluded r)
    \<Longrightarrow> mail_step env rk w (w\<lparr>mw_db := d\<rparr>)"
| mail_post: "\<lbrakk>mw_flights w = fs @ f # gs; fl_outcome f = None;
      attempt_outcome env rk post (mw_db w) (mw_now w) (fl_plan f) = Inr r\<rbrakk>
    \<Longrightarrow> mail_step env rk w (w\<lparr>mw_flights := fs @ f\<lparr>fl_outcome := Some r\<rparr> # gs,
          mw_log := posted (mw_db w) (mw_now w) f r @ mw_log w\<rparr>)"
| mail_finish: "\<lbrakk>mw_flights w = fs @ f # gs; fl_outcome f = Some r;
      conclude_attempt (mw_db w) (mw_now w) (fl_delivery f) r = (d, result)\<rbrakk>
    \<Longrightarrow> mail_step env rk w (w\<lparr>mw_db := d, mw_flights := fs @ gs\<rparr>)"
| mail_tick: "mw_now w \<le> now \<Longrightarrow> mail_step env rk w (w\<lparr>mw_now := now\<rparr>)"
| mail_others: "others_deliver (mw_db w) d \<Longrightarrow> mail_step env rk w (w\<lparr>mw_db := d\<rparr>)"

inductive_cases mail_stepE: "mail_step env rk w w'"

text \<open>A worker that dies leaves its delivery as it claimed it.\<close>

inductive worker_dies :: "(flight \<Rightarrow> bool) \<Rightarrow> mail_world \<Rightarrow> mail_world \<Rightarrow> bool" for may_die where
  worker_dies: "mw_flights w = fs @ f # gs \<Longrightarrow> may_die f \<Longrightarrow> worker_dies may_die w (w\<lparr>mw_flights := fs @ gs\<rparr>)"

inductive_cases worker_diesE: "worker_dies may_die w w'"

definition any_step :: "mail_env \<Rightarrow> reset_keys \<Rightarrow> mail_world \<Rightarrow> mail_world \<Rightarrow> bool" where
  "any_step env rk w w' \<longleftrightarrow> mail_step env rk w w' \<or> worker_dies (\<lambda>_. True) w w'"

text \<open>
  Careful runs: every attempt is over within five minutes of its claim, and no worker dies between the
  acceptance of its message and the record of it.
\<close>

definition accepted :: "flight \<Rightarrow> bool" where
  "accepted f = (case fl_outcome f of Some (Posted c m) \<Rightarrow> True | _ \<Rightarrow> False)"

definition prompt :: "mail_world \<Rightarrow> bool" where
  "prompt w \<longleftrightarrow> (\<forall>f \<in> set (mw_flights w). mw_now w < fl_started f + minutes 5)"

definition careful_step :: "mail_env \<Rightarrow> reset_keys \<Rightarrow> mail_world \<Rightarrow> mail_world \<Rightarrow> bool" where
  "careful_step env rk w w' \<longleftrightarrow>
     (mail_step env rk w w' \<or> worker_dies (\<lambda>f. \<not> accepted f) w w') \<and> prompt w'"

definition fresh_mail :: "db \<Rightarrow> instant \<Rightarrow> mail_world" where
  "fresh_mail d now = \<lparr>mw_db = d, mw_now = now, mw_flights = [], mw_log = []\<rparr>"

section \<open>Plans\<close>

lemma prepare_claims:
  assumes "prepare_delivery env d now k = Inr (d', Claimed p)"
  obtains x t where "get_delivery d k = Some x" "get_notification_target d (nd_notification_target_id x) = Some t"
    "nt_enabled t" "nd_state x \<noteq> Sent" "nd_state x \<noteq> Skipped" "\<not> busy now x" "resolve_plan env d x t = Inr p"
    "d' = alter_delivery k (begin_attempt now) d"
  using assms by (auto simp: prepare_delivery_def concluded_def split: option.splits if_splits sum.splits error.splits)

lemma prepare_concludes:
  assumes "prepare_delivery env d now k = Inr (d', Concluded r)"
  obtains "d' = d" | x st code where "get_delivery d k = Some x" "nd_state x \<noteq> Sent" "nd_state x \<noteq> Skipped"
    "st = Skipped \<or> st = DeliveryFailed \<and> \<not> busy now x" "d' = alter_delivery k (mark_state st now code) d"
  using assms by (auto simp: prepare_delivery_def concluded_def split: option.splits if_splits sum.splits error.splits)

lemma plan_of_simps [simp]:
  "pl_delivery_id (plan_of x t ty url smtp) = nd_id x" "pl_target_id (plan_of x t ty url smtp) = nt_id t"
  "pl_target_kind (plan_of x t ty url smtp) = nt_kind t" "pl_purpose (plan_of x t ty url smtp) = nd_purpose x"
  "pl_correlation_id (plan_of x t ty url smtp) = nd_correlation_id x" "pl_title (plan_of x t ty url smtp) = nd_title x"
  "pl_body (plan_of x t ty url smtp) = nd_body x" "pl_url (plan_of x t ty url smtp) = url" "pl_smtp (plan_of x t ty url smtp) = smtp"
  by (simp_all add: plan_of_def)

text \<open>An attempt that ends over a channel: what was sent and where.\<close>

lemma outcome_posted:
  assumes "attempt_outcome env rk post d now p = Inr (Posted c m)"
  obtains url recipient where "message_of_plan env rk d now p = Inr (m, url, recipient)" "channel_of_plan p url recipient = Inr c"
  using assms by (auto simp: attempt_outcome_def split: sum.splits error.splits option.splits)


section \<open>What is posted\<close>

definition addressed :: "mail_env \<Rightarrow> channel \<Rightarrow> string \<Rightarrow> bool" where
  "addressed env c recipient \<longleftrightarrow>
     (case c of
        SmtpChannel s r \<Rightarrow> r = recipient
      | AppriseChannel url ty \<Rightarrow>
          \<exists>sent. urlsplit (me_bracket env) url = Inr sent
            \<and> map snd (filter (\<lambda>(key, _). py_lower key \<in> {''to'', ''cc'', ''bcc''}) (parse_qsl (ur_query sent))) = [recipient])"

definition posting_ok :: "mail_env \<Rightarrow> reset_keys \<Rightarrow> posting \<Rightarrow> bool" where
  "posting_ok env rk po \<longleftrightarrow>
     (case po_message po of
        TextMessage title body \<Rightarrow> po_purpose po \<noteq> ''password_reset'' \<and> (\<exists>url ty. po_channel po = AppriseChannel url ty)
      | ResetMessage mail \<Rightarrow>
          po_purpose po = ''password_reset'' \<and> addressed env (po_channel po) (rm_recipient mail)
          \<and> (\<exists>r \<in> set (db_reset_tokens (po_db po)). \<exists>u \<in> set (db_users (po_db po)).
               reset_open (po_at po) r \<and> rk_sha rk (rm_token mail) = pt_token_hash r \<and> pt_user_id r = us_id u
               \<and> us_enabled u \<and> us_email u = Some (rm_recipient mail)))"

definition plan_ok :: "notification_plan \<Rightarrow> bool" where
  "plan_ok p \<longleftrightarrow> pl_target_kind p = ''smtp'' \<or> pl_target_kind p = ''apprise''"

lemma resolved_plan_ok:
  assumes "resolve_plan env d x t = Inr p"
  shows "plan_ok p" and "pl_purpose p = nd_purpose x"
  using assms by (auto simp: resolve_plan_def result_simps plan_ok_def resolve_target_def split: if_splits)

lemma delivery_mail_facts:
  assumes "delivery_mail km sha keys d now c = Inr mail"
  shows "\<exists>r \<in> set (db_reset_tokens d). \<exists>u \<in> set (db_users d). reset_open now r \<and> sha (rm_token mail) = pt_token_hash r
    \<and> pt_user_id r = us_id u \<and> us_enabled u \<and> us_email u = Some (rm_recipient mail)"
proof -
  obtain k r u email token where r: "get_reset d k = Some r" "reset_open now r" and u: "get_user d (pt_user_id r) = Some u"
    "us_email u = Some email" "us_enabled u" and token: "token_for_record km sha keys r = Inr token"
    and mail: "mail = \<lparr>rm_recipient = email, rm_token = token, rm_expires_at = pt_expires_at r\<rparr>"
    using assms by (auto simp: delivery_mail_def result_simps split: sum.splits option.splits if_splits)
  have "sha token = pt_token_hash r"
    using token by (auto simp: token_for_record_def find_Some_iff split: option.splits)
  then show ?thesis using resets.get_Some [OF r(1)] users.get_Some [OF u(1)] r(2) u(2,3) mail
    by (intro bexI [of _ r] bexI [of _ u]) auto
qed

lemma recipient_url_addressed:
  assumes "password_reset_recipient_url (me_bracket env) url recipient = Inr out"
  shows "addressed env (AppriseChannel out ty) recipient"
proof -
  obtain target sent :: split_url where split: "urlsplit (me_bracket env) out = Inr sent"
    and fields: "parse_qsl (ur_query sent)
      = filter (\<lambda>(key, _). py_lower key \<notin> {''to'', ''cc'', ''bcc'', ''+to'', ''+cc'', ''+bcc''}) (parse_qsl (ur_query target))
        @ [(''to'', recipient)]"
    using recipient_url_fields [OF assms] by (elim exE conjE) (rule that, assumption+)
  have "py_lower ''to'' = ''to''" by (simp add: py_lower_def lower_char_def code_of_def)
  moreover have "filter (\<lambda>(key, _). py_lower key \<in> {''to'', ''cc'', ''bcc''})
      (filter (\<lambda>(key, _). py_lower key \<notin> {''to'', ''cc'', ''bcc'', ''+to'', ''+cc'', ''+bcc''}) ps) = []"
    for ps :: "(string \<times> string) list"
    by (auto simp: filter_empty_conv)
  ultimately show ?thesis using split fields by (simp add: addressed_def)
qed

lemma posted_ok:
  assumes out: "attempt_outcome env rk post d now (fl_plan f) = Inr r" and plan: "plan_ok (fl_plan f)"
    and po: "po \<in> set (posted d now f r)"
  shows "posting_ok env rk po"
proof -
  obtain c m where r: "r = Posted c m" and p: "po = \<lparr>po_delivery = fl_delivery f, po_purpose = pl_purpose (fl_plan f), po_channel = c,
      po_message = m, po_at = now, po_db = d\<rparr>"
    using po by (auto simp: posted_def split: outcome.splits)
  obtain url recipient where m: "message_of_plan env rk d now (fl_plan f) = Inr (m, url, recipient)"
    and c: "channel_of_plan (fl_plan f) url recipient = Inr c"
    using outcome_posted [OF out [unfolded r]] by blast
  show ?thesis
  proof (cases "pl_purpose (fl_plan f) = ''password_reset''")
    case False
    then have "m = TextMessage (pl_title (fl_plan f)) (pl_body (fl_plan f))" "recipient = None"
      using m by (auto simp: message_of_plan_def)
    moreover have "\<exists>url ty. c = AppriseChannel url ty"
      using c \<open>recipient = None\<close> by (auto simp: channel_of_plan_def split: if_splits option.splits)
    ultimately show ?thesis using False by (simp add: posting_ok_def p)
  next
    case True
    then have "\<exists>k mail. delivery_mail (rk_mac rk) (rk_sha rk) (rk_keys rk) d now k = Inr mail
        \<and> m = ResetMessage mail \<and> recipient = Some (rm_recipient mail)
        \<and> (pl_target_kind (fl_plan f) = ''apprise'' \<longrightarrow> (\<exists>u u'. url = Some u'
              \<and> password_reset_recipient_url (me_bracket env) u (rm_recipient mail) = Inr u'))"
      using m by (auto simp: message_of_plan_def result_simps split: option.splits if_splits) blast+
    then obtain k mail where mail: "delivery_mail (rk_mac rk) (rk_sha rk) (rk_keys rk) d now k = Inr mail"
      and sent: "m = ResetMessage mail" "recipient = Some (rm_recipient mail)"
        "pl_target_kind (fl_plan f) = ''apprise'' \<longrightarrow> (\<exists>u u'. url = Some u'
            \<and> password_reset_recipient_url (me_bracket env) u (rm_recipient mail) = Inr u')"
      by blast
    have "addressed env c (rm_recipient mail)"
    proof (cases "pl_target_kind (fl_plan f) = ''smtp''")
      case True
      then show ?thesis using c sent(2) by (auto simp: channel_of_plan_def addressed_def split: option.splits)
    next
      case False
      then have "pl_target_kind (fl_plan f) = ''apprise''" using plan by (simp add: plan_ok_def)
      then show ?thesis using c sent(3) False recipient_url_addressed by (auto simp: channel_of_plan_def)
    qed
    then show ?thesis using delivery_mail_facts [OF mail] True by (simp add: posting_ok_def p sent(1))
  qed
qed

section \<open>Every run\<close>

text \<open>Plans in flight are plans, posted messages are sound, and nothing counts as sent that was not posted.\<close>

definition posts_ok :: "mail_env \<Rightarrow> reset_keys \<Rightarrow> mail_world \<Rightarrow> bool" where
  "posts_ok env rk w \<longleftrightarrow>
     (\<forall>f \<in> set (mw_flights w). plan_ok (fl_plan f) \<and> (accepted f \<longrightarrow> fl_delivery f \<in> po_delivery ` set (mw_log w)))
     \<and> (\<forall>po \<in> set (mw_log w). posting_ok env rk po)
     \<and> (\<forall>x \<in> set (db_deliveries (mw_db w)). nd_state x = Sent \<longrightarrow> nd_id x \<in> po_delivery ` set (mw_log w))"

lemma begin_attempt_simps [simp]:
  "nd_id (begin_attempt now x) = nd_id x" "nd_state (begin_attempt now x) = Sending"
  "nd_last_attempt_at (begin_attempt now x) = Some now" "nd_attempt_count (begin_attempt now x) = nd_attempt_count x + 1"
  by (simp_all add: begin_attempt_def)

lemma mark_state_simps [simp]: "nd_id (mark_state st now code x) = nd_id x" "nd_state (mark_state st now code x) = st"
  by (simp_all add: mark_state_def)

lemma sent_after_alter:
  assumes "y \<in> set (db_deliveries (alter_delivery k f d))" and "nd_state y = Sent" and "\<And>x. nd_state (f x) \<noteq> Sent"
  shows "y \<in> set (db_deliveries d)"
  using deliveries.upd_mem [OF assms(1)] assms(2,3) by auto

lemma conclude_cases:
  assumes "conclude_attempt d now k r = (d', result)"
  obtains (sent) c m x where "r = Posted c m" "get_delivery d k = Some x"
      "d' = alter_delivery k (\<lambda>x. x\<lparr>nd_state := Sent, nd_sent_at := Some now, nd_last_attempt_at := Some now, nd_last_error_code := None\<rparr>) d"
    | (gone) c m where "r = Posted c m" "get_delivery d k = None" "d' = d"
    | (failed) code permanent where "r = Refused code permanent" "d' = alter_delivery k (mark_state DeliveryFailed now code) d"
  using assms
  by (auto simp: conclude_attempt_def mark_delivery_sent_def mark_delivery_failed_def split: outcome.splits option.splits)

lemma mail_step_posts:
  assumes "mail_step env rk w w'" and ok: "posts_ok env rk w"
  shows "posts_ok env rk w'"
  using assms(1)
proof (cases rule: mail_step.cases)
  case (mail_claim k d p)
  obtain x t where plan: "resolve_plan env (mw_db w) x t = Inr p" and d: "d = alter_delivery k (begin_attempt (mw_now w)) (mw_db w)"
    by (rule prepare_claims [OF mail_claim(2)]) blast
  have "y \<in> set (db_deliveries (mw_db w))" if "y \<in> set (db_deliveries d)" "nd_state y = Sent" for y
    using sent_after_alter [of y k _ "mw_db w"] that d by simp
  then show ?thesis using ok resolved_plan_ok(1) [OF plan] by (auto simp: mail_claim(1) posts_ok_def accepted_def)
next
  case (mail_conclude k d r)
  have "y \<in> set (db_deliveries (mw_db w))" if y: "y \<in> set (db_deliveries d)" "nd_state y = Sent" for y
  proof (cases rule: prepare_concludes [OF mail_conclude(2)])
    case (2 x st code)
    then show ?thesis using sent_after_alter [of y k _ "mw_db w"] y by auto
  qed (use y in simp)
  then show ?thesis using ok by (auto simp: mail_conclude(1) posts_ok_def)
next
  case (mail_post fs f gs post r)
  have f: "f \<in> set (mw_flights w)" by (simp add: mail_post(2))
  then have plan: "plan_ok (fl_plan f)" using ok by (simp add: posts_ok_def)
  have new: "posting_ok env rk po" if "po \<in> set (posted (mw_db w) (mw_now w) f r)" for po
    by (rule posted_ok [OF mail_post(4) plan that])
  have log: "fl_delivery f \<in> po_delivery ` set (posted (mw_db w) (mw_now w) f r)" if "accepted (f\<lparr>fl_outcome := Some r\<rparr>)"
    using that by (auto simp: accepted_def posted_def split: outcome.splits)
  show ?thesis using ok plan new log unfolding mail_post(1) posts_ok_def by (auto simp: mail_post(2) accepted_def)
next
  case (mail_finish fs f gs r d result)
  have f: "f \<in> set (mw_flights w)" by (simp add: mail_finish(2))
  have sent: "nd_id y \<in> po_delivery ` set (mw_log w)" if y: "y \<in> set (db_deliveries d)" "nd_state y = Sent" for y
  proof (cases rule: conclude_cases [OF mail_finish(4)])
    case (1 c m x)
    have "accepted f" using mail_finish(3) 1(1) by (simp add: accepted_def)
    then have "fl_delivery f \<in> po_delivery ` set (mw_log w)" using ok f by (simp add: posts_ok_def)
    moreover have "y \<in> set (db_deliveries (mw_db w)) \<or> nd_id y = fl_delivery f"
      using deliveries.upd_mem [OF y(1) [unfolded 1(3)]] by auto
    ultimately show ?thesis using y(2) ok by (auto simp: posts_ok_def)
  next
    case (2 c m)
    then show ?thesis using y ok by (auto simp: posts_ok_def)
  next
    case (3 code permanent)
    then show ?thesis using sent_after_alter [of y "fl_delivery f" _ "mw_db w"] y ok by (auto simp: posts_ok_def)
  qed
  then show ?thesis using ok by (auto simp: mail_finish(1,2) posts_ok_def)
next
  case (mail_others d)
  then show ?thesis using ok by (auto simp: posts_ok_def others_deliver_def)
qed (use ok in \<open>auto simp: posts_ok_def\<close>)

lemma any_step_posts:
  assumes "any_step env rk w w'" and "posts_ok env rk w"
  shows "posts_ok env rk w'"
proof (cases "mail_step env rk w w'")
  case False
  with assms(1) obtain fs f gs where "mw_flights w = fs @ f # gs" "w' = w\<lparr>mw_flights := fs @ gs\<rparr>"
    by (auto simp: any_step_def elim: worker_diesE)
  then show ?thesis using assms(2) by (simp add: posts_ok_def)
qed (use assms(2) mail_step_posts in blast)

lemma any_run_posts:
  assumes "(any_step env rk)\<^sup>*\<^sup>* w w'" and "posts_ok env rk w"
  shows "posts_ok env rk w'"
  using assms by (induction rule: rtranclp_induct) (auto intro: any_step_posts)


section \<open>Careful runs\<close>

definition posts_of :: "uuid \<Rightarrow> mail_world \<Rightarrow> nat" where
  "posts_of k w = length (filter (\<lambda>po. po_delivery po = k) (mw_log w))"

text \<open>The row of a delivery in flight: claimed by this flight, or skipped since.\<close>

definition held_by :: "flight \<Rightarrow> delivery \<Rightarrow> bool" where
  "held_by f x \<longleftrightarrow> nd_state x = Skipped \<or> (nd_state x = Sending \<and> nd_last_attempt_at x = Some (fl_started f))"

definition once_ok :: "mail_world \<Rightarrow> bool" where
  "once_ok w \<longleftrightarrow>
     distinct (map nd_id (db_deliveries (mw_db w))) \<and> distinct (map fl_delivery (mw_flights w)) \<and> prompt w
     \<and> (\<forall>f \<in> set (mw_flights w). \<exists>x. get_delivery (mw_db w) (fl_delivery f) = Some x \<and> held_by f x)
     \<and> (\<forall>k. posts_of k w =
          (if \<exists>f \<in> set (mw_flights w). fl_delivery f = k \<and> accepted f then 1
           else if \<exists>x. get_delivery (mw_db w) k = Some x \<and> nd_state x = Sent then 1 else 0))"

lemma get_altered:
  assumes "\<And>x. nd_id (f x) = nd_id x"
  shows "get_delivery (alter_delivery k f d) j = (if j = k then map_option f (get_delivery d j) else get_delivery d j)"
  using deliveries.get_upd [of f k d j] assms by simp

text \<open>A delivery in flight is not claimed again.\<close>

lemma claim_not_in_flight:
  assumes ok: "once_ok w" and x: "get_delivery (mw_db w) k = Some x" "nd_state x \<noteq> Skipped" "\<not> busy (mw_now w) x"
    and f: "f \<in> set (mw_flights w)"
  shows "fl_delivery f \<noteq> k"
proof
  assume k: "fl_delivery f = k"
  have "mw_now w < fl_started f + minutes 5" using ok f by (simp add: once_ok_def prompt_def)
  moreover have "held_by f x" using ok f k x(1) by (auto simp: once_ok_def)
  ultimately show False using x(2,3) by (auto simp: held_by_def busy_def)
qed

lemma once_altered:
  assumes ok: "once_ok w" and f: "\<And>x. nd_id (f x) = nd_id x"
    and free: "\<And>g. g \<in> set (mw_flights w) \<Longrightarrow> fl_delivery g = k \<Longrightarrow> \<exists>x. get_delivery (mw_db w) k = Some x \<and> held_by g (f x)"
    and sent: "\<And>x. get_delivery (mw_db w) k = Some x \<Longrightarrow> nd_state x \<noteq> Sent \<and> nd_state (f x) \<noteq> Sent"
  shows "once_ok (w\<lparr>mw_db := alter_delivery k f (mw_db w)\<rparr>)"
proof -
  have ids: "map nd_id (db_deliveries (alter_delivery k f (mw_db w))) = map nd_id (db_deliveries (mw_db w))"
    by (rule deliveries.keys_upd) (rule f)
  have "\<exists>x. get_delivery (alter_delivery k f (mw_db w)) (fl_delivery g) = Some x \<and> held_by g x" if "g \<in> set (mw_flights w)" for g
    using ok free [OF that] that by (auto simp: get_altered [OF f] once_ok_def)
  moreover have "(\<exists>x. get_delivery (alter_delivery k f (mw_db w)) j = Some x \<and> nd_state x = Sent)
      = (\<exists>x. get_delivery (mw_db w) j = Some x \<and> nd_state x = Sent)" for j
    using sent by (auto simp: get_altered [OF f])
  ultimately show ?thesis using ok ids by (simp add: once_ok_def prompt_def posts_of_def)
qed

lemma once_claim:
  assumes ok: "once_ok w" and p: "prepare_delivery env (mw_db w) (mw_now w) k = Inr (d, Claimed p)"
  shows "once_ok (w\<lparr>mw_db := d, mw_flights := \<lparr>fl_delivery = k, fl_started = mw_now w, fl_plan = p, fl_outcome = None\<rparr> # mw_flights w\<rparr>)"
proof -
  obtain x where x: "get_delivery (mw_db w) k = Some x" "nd_state x \<noteq> Sent" "nd_state x \<noteq> Skipped" "\<not> busy (mw_now w) x"
    and d: "d = alter_delivery k (begin_attempt (mw_now w)) (mw_db w)"
    by (rule prepare_claims [OF p]) blast
  have free: "fl_delivery g \<noteq> k" if "g \<in> set (mw_flights w)" for g
    using claim_not_in_flight [OF ok x(1,3,4) that] .
  have "once_ok (w\<lparr>mw_db := d\<rparr>)"
    unfolding d by (rule once_altered [OF ok]) (use free x in auto)
  moreover have "get_delivery d k = Some (begin_attempt (mw_now w) x)" using x(1) by (simp add: d get_altered)
  moreover have "k \<notin> fl_delivery ` set (mw_flights w)" using free by blast
  ultimately show ?thesis
    by (simp add: once_ok_def prompt_def posts_of_def held_by_def accepted_def minutes_def)
qed

lemma once_conclude:
  assumes ok: "once_ok w" and p: "prepare_delivery env (mw_db w) (mw_now w) k = Inr (d, Concluded r)"
  shows "once_ok (w\<lparr>mw_db := d\<rparr>)"
proof (cases rule: prepare_concludes [OF p])
  case 1
  then show ?thesis using ok by simp
next
  case (2 x st code)
  have "\<exists>x. get_delivery (mw_db w) k = Some x \<and> held_by g (mark_state st (mw_now w) code x)"
    if g: "g \<in> set (mw_flights w)" "fl_delivery g = k" for g
  proof (cases "st = Skipped")
    case False
    then have "\<not> busy (mw_now w) x" using 2(4) by blast
    then show ?thesis using claim_not_in_flight [OF ok 2(1,3) _ g(1)] g(2) by blast
  qed (use 2(1) in \<open>simp add: held_by_def\<close>)
  then show ?thesis
    unfolding 2(5) by (intro once_altered [OF ok]) (use 2 in auto)
qed

lemma once_post:
  assumes ok: "once_ok w" and f: "mw_flights w = fs @ f # gs" "fl_outcome f = None"
  shows "once_ok (w\<lparr>mw_flights := fs @ f\<lparr>fl_outcome := Some r\<rparr> # gs, mw_log := posted (mw_db w) (mw_now w) f r @ mw_log w\<rparr>)"
proof -
  let ?f = "f\<lparr>fl_outcome := Some r\<rparr>"
  have distinct: "distinct (map fl_delivery (fs @ f # gs))" using ok f(1) by (simp add: once_ok_def)
  then have others: "fl_delivery g \<noteq> fl_delivery f" if "g \<in> set (fs @ gs)" for g
    using that by (auto simp: image_iff)
  obtain x where x: "get_delivery (mw_db w) (fl_delivery f) = Some x" "held_by f x" using ok f(1) by (auto simp: once_ok_def)
  then have sent: "nd_state x \<noteq> Sent" by (auto simp: held_by_def)
  have none: "posts_of (fl_delivery f) w = 0"
    using ok x(1) sent others f unfolding once_ok_def by (auto simp: accepted_def)
  have "posts_of k (w\<lparr>mw_flights := fs @ ?f # gs, mw_log := posted (mw_db w) (mw_now w) f r @ mw_log w\<rparr>)
      = (if \<exists>g \<in> set (fs @ ?f # gs). fl_delivery g = k \<and> accepted g then 1
         else if \<exists>x. get_delivery (mw_db w) k = Some x \<and> nd_state x = Sent then 1 else 0)" for k
  proof (cases "k = fl_delivery f")
    case True
    then show ?thesis using none others x(1) sent
      by (auto simp: posts_of_def posted_def accepted_def split: outcome.splits)
  next
    case False
    then have "posts_of k (w\<lparr>mw_flights := fs @ ?f # gs, mw_log := posted (mw_db w) (mw_now w) f r @ mw_log w\<rparr>) = posts_of k w"
      by (auto simp: posts_of_def posted_def split: outcome.splits)
    then show ?thesis using ok False f unfolding once_ok_def by (simp add: accepted_def)
  qed
  moreover have "held_by ?f = held_by f" by (rule ext) (simp add: held_by_def)
  ultimately show ?thesis using ok f distinct unfolding once_ok_def prompt_def by simp
qed

lemma in_flight_apart:
  assumes "once_ok w" and "mw_flights w = fs @ f # gs" and "g \<in> set (fs @ gs)"
  shows "fl_delivery g \<noteq> fl_delivery f"
  using assms by (auto simp: once_ok_def image_iff)

lemma once_fewer:
  assumes ok: "once_ok w" and f: "mw_flights w = fs @ f # gs" and lost: "\<not> accepted f"
  shows "once_ok (w\<lparr>mw_flights := fs @ gs\<rparr>)"
proof -
  have "(\<exists>g \<in> set (fs @ gs). fl_delivery g = k \<and> accepted g) = (\<exists>g \<in> set (mw_flights w). fl_delivery g = k \<and> accepted g)" for k
    using f lost by auto
  then show ?thesis using ok f by (simp add: once_ok_def prompt_def posts_of_def)
qed

lemma once_sent:
  assumes ok: "once_ok w" and f: "mw_flights w = fs @ f # gs" and acc: "accepted f"
    and x: "get_delivery (mw_db w) (fl_delivery f) = Some x" and h: "\<And>x. nd_id (h x) = nd_id x \<and> nd_state (h x) = Sent"
  shows "once_ok (w\<lparr>mw_db := alter_delivery (fl_delivery f) h (mw_db w), mw_flights := fs @ gs\<rparr>)"
proof -
  let ?d = "alter_delivery (fl_delivery f) h (mw_db w)"
  have id: "\<And>x. nd_id (h x) = nd_id x" using h by blast
  have ids: "map nd_id (db_deliveries ?d) = map nd_id (db_deliveries (mw_db w))"
    by (rule deliveries.keys_upd) (rule id)
  note others = in_flight_apart [OF ok f]
  have holds: "\<exists>y. get_delivery ?d (fl_delivery g) = Some y \<and> held_by g y" if "g \<in> set (fs @ gs)" for g
    using ok others [OF that] that f by (auto simp: once_ok_def get_altered [OF id])
  have "posts_of k w = (if \<exists>g \<in> set (fs @ gs). fl_delivery g = k \<and> accepted g then 1
      else if \<exists>y. get_delivery ?d k = Some y \<and> nd_state y = Sent then 1 else 0)" for k
  proof (cases "k = fl_delivery f")
    case True
    have "posts_of k w = 1" using ok f acc True by (simp add: once_ok_def)
    moreover have "get_delivery ?d k = Some (h x)" using x True by (simp add: get_altered [OF id])
    ultimately show ?thesis using h by auto
  next
    case False
    have "(\<exists>g \<in> set (fs @ gs). fl_delivery g = k \<and> accepted g) = (\<exists>g \<in> set (mw_flights w). fl_delivery g = k \<and> accepted g)"
      using f False by auto
    then show ?thesis using ok False by (simp add: once_ok_def get_altered [OF id])
  qed
  moreover have "distinct (map nd_id (db_deliveries ?d))" using ok ids by (simp add: once_ok_def)
  moreover have "distinct (map fl_delivery (fs @ gs))" "\<forall>g \<in> set (fs @ gs). mw_now w < fl_started g + minutes 5"
    using ok f by (auto simp: once_ok_def prompt_def)
  ultimately show ?thesis using holds unfolding once_ok_def prompt_def posts_of_def by simp
qed

lemma once_finish:
  assumes ok: "once_ok w" and f: "mw_flights w = fs @ f # gs" "fl_outcome f = Some r"
    and c: "conclude_attempt (mw_db w) (mw_now w) (fl_delivery f) r = (d, result)"
  shows "once_ok (w\<lparr>mw_db := d, mw_flights := fs @ gs\<rparr>)"
proof (cases rule: conclude_cases [OF c])
  case (1 ch m x)
  show ?thesis unfolding 1(3)
    by (rule once_sent [OF ok f(1) _ 1(2)]) (use f(2) 1(1) in \<open>simp_all add: accepted_def\<close>)
next
  case (2 ch m)
  obtain x where "get_delivery (mw_db w) (fl_delivery f) = Some x" using ok f(1) by (auto simp: once_ok_def)
  then show ?thesis using 2(2) by simp
next
  case (3 code permanent)
  let ?w = "w\<lparr>mw_flights := fs @ gs\<rparr>"
  have "once_ok ?w" using once_fewer [OF ok f(1)] f(2) 3(1) by (simp add: accepted_def)
  moreover obtain x where x: "get_delivery (mw_db w) (fl_delivery f) = Some x" "held_by f x"
    using ok f(1) by (auto simp: once_ok_def)
  ultimately have "once_ok (?w\<lparr>mw_db := alter_delivery (fl_delivery f) (mark_state DeliveryFailed (mw_now w) code) (mw_db ?w)\<rparr>)"
    using in_flight_apart [OF ok f(1)] by (intro once_altered) (auto simp: held_by_def)
  then have "once_ok (?w\<lparr>mw_db := d\<rparr>)" unfolding 3(2) by simp
  moreover have "w\<lparr>mw_db := d, mw_flights := fs @ gs\<rparr> = ?w\<lparr>mw_db := d\<rparr>" by (cases w) simp
  ultimately show ?thesis by (rule arg_cong [THEN iffD2, rotated])
qed

lemma once_others:
  assumes ok: "once_ok w" and d: "others_deliver (mw_db w) d"
  shows "once_ok (w\<lparr>mw_db := d\<rparr>)"
proof -
  obtain new where rows: "db_deliveries d = db_deliveries (mw_db w) @ new" "distinct (map nd_id new)"
    and new: "\<And>x. x \<in> set new \<Longrightarrow> nd_state x = Pending \<and> nd_id x \<notin> nd_id ` set (db_deliveries (mw_db w))"
    using d by (auto simp: others_deliver_def)
  have "find P (xs @ ys) = (case find P xs of None \<Rightarrow> find P ys | Some z \<Rightarrow> Some z)" for P and xs ys :: "delivery list"
    by (induction xs) auto
  then have get: "get_delivery d k = (case get_delivery (mw_db w) k of None \<Rightarrow> find (\<lambda>x. nd_id x = k) new | Some z \<Rightarrow> Some z)" for k
    by (simp add: get_delivery_def rows)
  have found: "get_delivery d k = get_delivery (mw_db w) k \<or> get_delivery (mw_db w) k = None \<and> (\<forall>x. get_delivery d k = Some x \<longrightarrow> nd_state x \<noteq> Sent)"
    for k
  proof (cases "get_delivery (mw_db w) k")
    case None
    have "nd_state x \<noteq> Sent" if "find (\<lambda>x. nd_id x = k) new = Some x" for x
    proof -
      have "x \<in> set new" using that by (auto simp: find_Some_iff)
      then show ?thesis using new [of x] by simp
    qed
    then show ?thesis using None by (simp add: get)
  qed (simp add: get)
  have sent: "(\<exists>x. get_delivery d k = Some x \<and> nd_state x = Sent) = (\<exists>x. get_delivery (mw_db w) k = Some x \<and> nd_state x = Sent)" for k
  proof (cases "get_delivery d k = get_delivery (mw_db w) k")
    case False
    then have "get_delivery (mw_db w) k = None" "\<forall>x. get_delivery d k = Some x \<longrightarrow> nd_state x \<noteq> Sent" using found [of k] by blast+
    then show ?thesis by simp
  qed simp
  have apart: "nd_id x \<notin> nd_id ` set (db_deliveries (mw_db w))" if "x \<in> set new" for x using new [OF that] by simp
  have "distinct (map nd_id (db_deliveries (mw_db w)))" using ok by (simp add: once_ok_def)
  then have ids: "distinct (map nd_id (db_deliveries d))"
    unfolding rows(1) map_append distinct_append using rows(2) apart by (simp add: disjoint_iff) blast
  have held: "\<exists>x. get_delivery d (fl_delivery f) = Some x \<and> held_by f x" if "f \<in> set (mw_flights w)" for f
    using ok that by (auto simp: once_ok_def get)
  show ?thesis using ok sent ids held unfolding once_ok_def prompt_def posts_of_def by simp
qed

lemma careful_step_once:
  assumes "careful_step env rk w w'" and ok: "once_ok w"
  shows "once_ok w'"
proof -
  have p: "prompt w'" using assms(1) by (simp add: careful_step_def)
  consider "mail_step env rk w w'" | fs f gs where "mw_flights w = fs @ f # gs" "\<not> accepted f" "w' = w\<lparr>mw_flights := fs @ gs\<rparr>"
    using assms(1) by (auto simp: careful_step_def elim: worker_diesE)
  then show ?thesis
  proof cases
    case 1
    then show ?thesis
    proof (cases rule: mail_step.cases)
      case (mail_claim k d p)
      then show ?thesis using once_claim [OF ok] by simp
    next
      case (mail_conclude k d r)
      then show ?thesis using once_conclude [OF ok] by simp
    next
      case (mail_post fs f gs post r)
      then show ?thesis using once_post [OF ok mail_post(2,3)] by simp
    next
      case (mail_finish fs f gs r d result)
      then show ?thesis using once_finish [OF ok mail_finish(2-4)] by simp
    next
      case (mail_tick now)
      then show ?thesis using ok p by (simp add: once_ok_def prompt_def posts_of_def)
    next
      case (mail_others d)
      then show ?thesis using once_others [OF ok] by simp
    qed
  next
    case 2
    then show ?thesis using once_fewer [OF ok] by simp
  qed
qed


section \<open>Failures that should not be\<close>

lemma secrets_plan:
  assumes "db_secrets d' = db_secrets d"
  shows "resolve_target env d' t = resolve_target env d t" and "resolve_smtp env d' t = resolve_smtp env d t"
proof -
  note reads = secrets_frame(2) [OF assms, unfolded read_owned_def]
  have "secret_url env d' t = secret_url env d t" "smtp_login env d' t = smtp_login env d t"
    by (cases "nt_secret_ref t"; simp add: secret_url_def smtp_login_def reads)+
  then show "resolve_target env d' t = resolve_target env d t" "resolve_smtp env d' t = resolve_smtp env d t"
    by (simp_all add: resolve_target_def resolve_smtp_def)
qed

lemma alter_delivery_frame [simp]:
  "db_secrets (alter_delivery k f d) = db_secrets d"
  "get_notification_target (alter_delivery k f d) j = get_notification_target d j"
  by (simp_all add: alter_delivery_def get_notification_target_def)

lemma alter_delivery_twice:
  "(\<And>x. nd_id (f x) = nd_id x) \<Longrightarrow> alter_delivery k g (alter_delivery k f d) = alter_delivery k (\<lambda>x. g (f x)) d"
  by (simp add: alter_delivery_def comp_def if_distrib cong: if_cong)

text \<open>
  Alerts do not reach SMTP targets. The message of an alert has no recipient, so whatever the server
  would say, the delivery of an alert to an enabled SMTP target that resolves ends as failed for good.
\<close>

theorem smtp_alert_fails:
  assumes "get_delivery d k = Some x" and "nd_state x = Pending \<or> nd_state x = DeliveryFailed" and "nd_purpose x \<noteq> ''password_reset''"
    and "get_notification_target d (nd_notification_target_id x) = Some t" and "nt_kind t = ''smtp''" "nt_enabled t"
    and "resolve_smtp env d t = Inr s"
  shows "\<exists>d' y. execute_delivery env rk post d now k
      = (d', Inr \<lparr>nr_delivery_id = k, nr_state = DeliveryFailed, nr_delivered = False\<rparr>)
    \<and> get_delivery d' k = Some y \<and> nd_state y = DeliveryFailed \<and> nd_last_error_code y = Some ''smtp_recipient_unavailable''"
proof -
  let ?p = "plan_of x t ''info'' None (Some s)" and ?d = "alter_delivery k (begin_attempt now) d"
  have "prepare_delivery env d now k = Inr (?d, Claimed ?p)"
    using assms by (auto simp: prepare_delivery_def busy_def resolve_plan_def)
  moreover have "attempt_outcome env rk post ?d now ?p = Inr (Refused ''smtp_recipient_unavailable'' True)"
    using assms(3,5) by (simp add: attempt_outcome_def message_of_plan_def channel_of_plan_def)
  ultimately have "execute_delivery env rk post d now k
      = (alter_delivery k (mark_state DeliveryFailed now ''smtp_recipient_unavailable'') ?d,
         Inr \<lparr>nr_delivery_id = k, nr_state = DeliveryFailed, nr_delivered = False\<rparr>)"
    by (simp add: execute_delivery_def conclude_attempt_def mark_delivery_failed_def)
  then show ?thesis using assms(1) by (simp add: get_altered mark_state_def)
qed

text \<open>
  A late failure resends. A delivery that counts as sent is left alone, but when a worker that took it up
  before then records that its own attempt failed, the delivery counts as failed, and the next worker
  claims it and sends the same message again.
\<close>

theorem late_failure_resends:
  assumes "get_delivery d k = Some x" and "nd_state x = Sent"
    and "get_notification_target d (nd_notification_target_id x) = Some t" and "nt_enabled t"
    and "nd_purpose x = ''password_reset'' \<longrightarrow> carries_resets t" and "resolve_plan env d x t = Inr p"
  shows "prepare_delivery env d later k = Inr (d, concluded k Sent)
    \<and> (\<exists>d' result. conclude_attempt d now k (Refused code permanent) = (d', result)
         \<and> prepare_delivery env d' later k = Inr (alter_delivery k (begin_attempt later) d', Claimed p))"
proof
  show "prepare_delivery env d later k = Inr (d, concluded k Sent)" using assms(1,2) by (simp add: prepare_delivery_def)
  let ?x = "mark_state DeliveryFailed now code x" and ?d = "alter_delivery k (mark_state DeliveryFailed now code) d"
  have "resolve_plan env ?d ?x t = resolve_plan env d x t"
    by (simp add: resolve_plan_def secrets_plan [of ?d d] plan_of_def mark_state_def)
  moreover have "get_delivery ?d k = Some ?x" using assms(1) by (simp add: get_altered)
  moreover have "nd_notification_target_id ?x = nd_notification_target_id x" "nd_purpose ?x = nd_purpose x"
    by (simp_all add: mark_state_def)
  ultimately have "prepare_delivery env ?d later k = Inr (alter_delivery k (begin_attempt later) ?d, Claimed p)"
    using assms(3-6) by (auto simp: prepare_delivery_def busy_def)
  then show "\<exists>d' result. conclude_attempt d now k (Refused code permanent) = (d', result)
      \<and> prepare_delivery env d' later k = Inr (alter_delivery k (begin_attempt later) d', Claimed p)"
    by (simp add: conclude_attempt_def mark_delivery_failed_def)
qed

section \<open>Runs\<close>

definition example_alert :: delivery where
  "example_alert = \<lparr>nd_id = 3, nd_alert_id = None, nd_purpose = ''alert'', nd_notification_target_id = 1, nd_state = Pending,
     nd_attempt_count = 0, nd_title = ''Disk full'', nd_body = ''The disk is full.'', nd_last_attempt_at = None, nd_sent_at = None,
     nd_last_error_code = None, nd_correlation_id = None\<rparr>"

definition example_mail :: "delivery \<Rightarrow> db" where
  "example_mail x = empty_db\<lparr>db_secrets := [example_url ''json://h''], db_notification_targets := [example_webhook],
     db_deliveries := [x]\<rparr>"

definition example_reset_keys :: reset_keys where
  "example_reset_keys = \<lparr>rk_mac = (\<lambda>_ _. []), rk_sha = (\<lambda>s. s), rk_keys = []\<rparr>"

definition example_plan :: notification_plan where
  "example_plan = plan_of example_alert example_webhook ''warning'' (Some ''json://h'') None"

definition example_flight :: "instant \<Rightarrow> outcome option \<Rightarrow> flight" where
  "example_flight t r = \<lparr>fl_delivery = 3, fl_started = t, fl_plan = example_plan, fl_outcome = r\<rparr>"

definition example_posted :: outcome where
  "example_posted = Posted (AppriseChannel ''json://h'' ''warning'') (TextMessage ''Disk full'' ''The disk is full.'')"

lemma example_claim:
  assumes "nd_id x = 3" "nd_notification_target_id x = 1" "nd_purpose x = ''alert''" "nd_state x \<noteq> Sent" "nd_state x \<noteq> Skipped"
    and "\<not> busy now x" and "plan_of x example_webhook ''warning'' (Some ''json://h'') None = example_plan"
  shows "prepare_delivery example_env (example_mail x) now 3 = Inr (example_mail (begin_attempt now x), Claimed example_plan)"
proof -
  have "resolve_target example_env (example_mail x) example_webhook
      = Inr \<lparr>rv_target_id = 1, rv_name = ''webhook'', rv_url = ''json://h'', rv_notify_type = ''warning''\<rparr>"
    by (rule example_resolved) (simp_all add: example_mail_def)
  then have "resolve_plan example_env (example_mail x) x example_webhook = Inr example_plan"
    using assms(7) by (simp add: resolve_plan_def) (simp add: example_webhook_def)
  moreover have "get_delivery (example_mail x) 3 = Some x" using assms(1) by (simp add: get_delivery_def example_mail_def)
  moreover have "get_notification_target (example_mail x) 1 = Some example_webhook" "nt_enabled example_webhook"
    by (simp_all add: get_notification_target_def example_mail_def example_webhook_def)
  moreover have "alter_delivery 3 (begin_attempt now) (example_mail x) = example_mail (begin_attempt now x)"
    using assms(1) by (simp add: alter_delivery_def example_mail_def)
  ultimately show ?thesis using assms(2-6) by (simp add: prepare_delivery_def)
qed

lemma example_attempt:
  "attempt_outcome example_env rk (\<lambda>_ _. None) d now example_plan = Inr example_posted"
  "attempt_outcome example_env rk (\<lambda>_ _. Some (code, permanent)) d now example_plan = Inr (Refused code permanent)"
  by (simp_all add: attempt_outcome_def message_of_plan_def channel_of_plan_def example_plan_def example_posted_def)
    (simp_all add: plan_of_def example_webhook_def example_alert_def)

lemma example_conclude:
  assumes "nd_id x = 3"
  shows "conclude_attempt (example_mail x) now 3 example_posted = (example_mail (x\<lparr>nd_state := Sent, nd_sent_at := Some now,
      nd_last_attempt_at := Some now, nd_last_error_code := None\<rparr>), Inr \<lparr>nr_delivery_id = 3, nr_state = Sent, nr_delivered = True\<rparr>)"
    and "fst (conclude_attempt (example_mail x) now 3 (Refused code permanent)) = example_mail (mark_state DeliveryFailed now code x)"
  using assms by (simp_all add: conclude_attempt_def example_posted_def mark_delivery_sent_def mark_delivery_failed_def
      get_delivery_def alter_delivery_def example_mail_def)


definition example_world :: "delivery \<Rightarrow> instant \<Rightarrow> flight list \<Rightarrow> posting list \<Rightarrow> mail_world" where
  "example_world x now fs posts = \<lparr>mw_db = example_mail x, mw_now = now, mw_flights = fs, mw_log = posts\<rparr>"

definition example_posting :: "delivery \<Rightarrow> instant \<Rightarrow> posting" where
  "example_posting x now = \<lparr>po_delivery = 3, po_purpose = ''alert'', po_channel = AppriseChannel ''json://h'' ''warning'',
     po_message = TextMessage ''Disk full'' ''The disk is full.'', po_at = now, po_db = example_mail x\<rparr>"

definition example_sent :: "instant \<Rightarrow> delivery \<Rightarrow> delivery" where
  "example_sent now x = x\<lparr>nd_state := Sent, nd_sent_at := Some now, nd_last_attempt_at := Some now, nd_last_error_code := None\<rparr>"

lemma example_claim_step:
  assumes "nd_id x = 3" "nd_notification_target_id x = 1" "nd_purpose x = ''alert''" "nd_state x \<noteq> Sent" "nd_state x \<noteq> Skipped"
    and "\<not> busy now x" and "plan_of x example_webhook ''warning'' (Some ''json://h'') None = example_plan"
  shows "mail_step example_env rk (example_world x now fs posts)
    (example_world (begin_attempt now x) now (example_flight now None # fs) posts)"
proof -
  have "prepare_delivery example_env (mw_db (example_world x now fs posts)) (mw_now (example_world x now fs posts)) 3
      = Inr (example_mail (begin_attempt now x), Claimed example_plan)"
    using example_claim [OF assms] by (simp add: example_world_def)
  from mail_claim [OF this, of rk] show ?thesis by (simp add: example_world_def example_flight_def)
qed

lemma example_post_step:
  "mail_step example_env rk (example_world x now (fs @ example_flight t None # gs) posts)
    (example_world x now (fs @ example_flight t (Some example_posted) # gs) (example_posting x now # posts))"
proof -
  let ?w = "example_world x now (fs @ example_flight t None # gs) posts"
  have "mw_flights ?w = fs @ example_flight t None # gs" "fl_outcome (example_flight t None) = None"
    "attempt_outcome example_env rk (\<lambda>_ _. None) (mw_db ?w) (mw_now ?w) (fl_plan (example_flight t None)) = Inr example_posted"
    using example_attempt(1) by (simp_all add: example_world_def example_flight_def)
  from mail_post [OF this] show ?thesis
    by (simp add: example_world_def example_flight_def posted_def example_posted_def example_posting_def)
      (simp add: example_plan_def example_alert_def)
qed

lemma example_refuse_step:
  "mail_step example_env rk (example_world x now (fs @ example_flight t None # gs) posts)
    (example_world x now (fs @ example_flight t (Some (Refused code permanent)) # gs) posts)"
proof -
  let ?w = "example_world x now (fs @ example_flight t None # gs) posts"
  have "mw_flights ?w = fs @ example_flight t None # gs" "fl_outcome (example_flight t None) = None"
    "attempt_outcome example_env rk (\<lambda>_ _. Some (code, permanent)) (mw_db ?w) (mw_now ?w) (fl_plan (example_flight t None))
      = Inr (Refused code permanent)"
    using example_attempt(2) by (simp_all add: example_world_def example_flight_def)
  from mail_post [OF this] show ?thesis by (simp add: example_world_def example_flight_def posted_def)
qed

lemma example_finish_step:
  assumes "nd_id x = 3"
  shows "mail_step example_env rk (example_world x now (fs @ example_flight t (Some example_posted) # gs) posts)
      (example_world (example_sent now x) now (fs @ gs) posts)"
    and "mail_step example_env rk (example_world x now (fs @ example_flight t (Some (Refused code permanent)) # gs) posts)
      (example_world (mark_state DeliveryFailed now code x) now (fs @ gs) posts)"
proof -
  let ?w = "\<lambda>r. example_world x now (fs @ example_flight t (Some r) # gs) posts"
  have w: "mw_flights (?w r) = fs @ example_flight t (Some r) # gs" "fl_outcome (example_flight t (Some r)) = Some r" for r
    by (simp_all add: example_world_def example_flight_def)
  have "conclude_attempt (mw_db (?w example_posted)) (mw_now (?w example_posted)) (fl_delivery (example_flight t (Some example_posted)))
      example_posted = (example_mail (example_sent now x), Inr \<lparr>nr_delivery_id = 3, nr_state = Sent, nr_delivered = True\<rparr>)"
    using example_conclude(1) [OF assms] by (simp add: example_world_def example_flight_def example_sent_def)
  from mail_finish [OF w this, of example_env rk]
  show "mail_step example_env rk (example_world x now (fs @ example_flight t (Some example_posted) # gs) posts)
      (example_world (example_sent now x) now (fs @ gs) posts)" by (simp add: example_world_def)
  obtain result where "conclude_attempt (mw_db (?w (Refused code permanent))) (mw_now (?w (Refused code permanent)))
      (fl_delivery (example_flight t (Some (Refused code permanent)))) (Refused code permanent)
      = (example_mail (mark_state DeliveryFailed now code x), result)"
    using example_conclude(2) [OF assms, of now code permanent] unfolding example_world_def example_flight_def
    by (metis (no_types, lifting) flight.select_convs(1) fst_conv mail_world.select_convs(1,2) prod.collapse)
  from mail_finish [OF w this, of example_env rk]
  show "mail_step example_env rk (example_world x now (fs @ example_flight t (Some (Refused code permanent)) # gs) posts)
      (example_world (mark_state DeliveryFailed now code x) now (fs @ gs) posts)" by (simp add: example_world_def)
qed

text \<open>One worker claims, sends and records.\<close>

definition example_claimed :: delivery where
  "example_claimed = begin_attempt 0 example_alert"

lemma example_mail_run:
  "mail_step example_env rk (fresh_mail (example_mail example_alert) 0) (example_world example_claimed 0 [example_flight 0 None] [])"
  "mail_step example_env rk (example_world example_claimed 0 [example_flight 0 None] [])
     (example_world example_claimed 0 [example_flight 0 (Some example_posted)] [example_posting example_claimed 0])"
  "mail_step example_env rk
     (example_world example_claimed 0 [example_flight 0 (Some example_posted)] [example_posting example_claimed 0])
     (example_world (example_sent 0 example_claimed) 0 [] [example_posting example_claimed 0])"
proof -
  have "mail_step example_env rk (example_world example_alert 0 [] []) (example_world example_claimed 0 [example_flight 0 None] [])"
    unfolding example_claimed_def
    by (rule example_claim_step) (simp_all add: example_alert_def busy_def example_plan_def)
  then show "mail_step example_env rk (fresh_mail (example_mail example_alert) 0)
      (example_world example_claimed 0 [example_flight 0 None] [])" by (simp add: fresh_mail_def example_world_def)
  show "mail_step example_env rk (example_world example_claimed 0 [example_flight 0 None] [])
     (example_world example_claimed 0 [example_flight 0 (Some example_posted)] [example_posting example_claimed 0])"
    using example_post_step [of rk example_claimed 0 "[]" 0 "[]" "[]"] by simp
  have "nd_id example_claimed = 3" by (simp add: example_claimed_def example_alert_def)
  then show "mail_step example_env rk
     (example_world example_claimed 0 [example_flight 0 (Some example_posted)] [example_posting example_claimed 0])
     (example_world (example_sent 0 example_claimed) 0 [] [example_posting example_claimed 0])"
    using example_finish_step(1) [of example_claimed rk 0 "[]" 0 "[]"] by simp
qed

lemma example_pending: "distinct (map nd_id (db_deliveries (example_mail example_alert)))"
  "\<forall>x \<in> set (db_deliveries (example_mail example_alert)). nd_state x = Pending"
  by (simp_all add: example_mail_def example_alert_def)


lemma mail_any_step: "mail_step env rk w w' \<Longrightarrow> any_step env rk w w'"
  by (simp add: any_step_def)


text \<open>An SMTP target without a login, and an alert for it.\<close>

definition example_server :: notification_target where
  "example_server = \<lparr>nt_id = 1, nt_name = ''mail'', nt_kind = ''smtp'', nt_enabled = True,
     nt_config_json = [(''host'', PStr ''h''), (''from_address'', PStr ''a'')], nt_secret_ref = None\<rparr>"

definition example_smtp_mail :: db where
  "example_smtp_mail = empty_db\<lparr>db_notification_targets := [example_server], db_deliveries := [example_alert]\<rparr>"

lemma example_smtp: "\<exists>s. resolve_smtp example_env d example_server = Inr s"
proof -
  have "normalize_smtp_config example_env (nt_config_json example_server)
      = Inr (smtp_document ''h'' 587 ''starttls'' ''a'' None)"
    by (simp add: normalize_smtp_config_def smtp_host_def smtp_port_def smtp_security_def smtp_from_address_def smtp_from_name_def
        text_or_def example_server_def example_env_def py_strip_def is_space_def py_lower_def lower_char_def code_of_def Let_def)
  moreover have "smtp_login example_env d example_server = Inr None" by (simp add: smtp_login_def example_server_def)
  ultimately show ?thesis by (simp add: resolve_smtp_def Let_def) (simp add: example_server_def)
qed

lemma smtp_alert_fails_witness:
  "\<exists>d' y. execute_delivery example_env example_reset_keys (\<lambda>_ _. None) example_smtp_mail 0 3
      = (d', Inr \<lparr>nr_delivery_id = 3, nr_state = DeliveryFailed, nr_delivered = False\<rparr>)
    \<and> get_delivery d' 3 = Some y \<and> nd_last_error_code y = Some ''smtp_recipient_unavailable''"
proof -
  obtain s where s: "resolve_smtp example_env example_smtp_mail example_server = Inr s" using example_smtp by blast
  have "get_delivery example_smtp_mail 3 = Some example_alert"
    "get_notification_target example_smtp_mail (nd_notification_target_id example_alert) = Some example_server"
    by (simp_all add: get_delivery_def get_notification_target_def example_smtp_mail_def example_alert_def example_server_def)
  moreover have "nd_state example_alert = Pending \<or> nd_state example_alert = DeliveryFailed" "nd_purpose example_alert \<noteq> ''password_reset''"
    "nt_kind example_server = ''smtp''" "nt_enabled example_server"
    by (simp_all add: example_alert_def example_server_def)
  ultimately show ?thesis
    using smtp_alert_fails [OF _ _ _ _ _ _ s, of 3 example_alert example_reset_keys "\<lambda>_ _. None" 0] by blast
qed

text \<open>
  A worker claims the alert and stalls. After six minutes a second worker claims it, sends it and records
  that; then the first one fails, and a third sends the message once more.
\<close>

definition example_again :: delivery where
  "example_again = begin_attempt (minutes 6) example_claimed"

definition example_failed :: delivery where
  "example_failed = mark_state DeliveryFailed (minutes 6) ''timeout'' (example_sent (minutes 6) example_again)"

definition example_third :: delivery where
  "example_third = begin_attempt (minutes 6) example_failed"

lemma example_late_run:
  "(mail_step example_env rk)\<^sup>*\<^sup>* (fresh_mail (example_mail example_alert) 0)
     (example_world example_third (minutes 6) [example_flight (minutes 6) (Some example_posted)]
        [example_posting example_third (minutes 6), example_posting example_again (minutes 6)])"
proof -
  let ?t = "minutes 6" and ?a = "example_flight 0 None" and ?p = "example_posting example_again (minutes 6)"
  note rows = example_alert_def example_claimed_def example_again_def example_failed_def example_third_def example_sent_def
    begin_attempt_def mark_state_def
  have ids: "nd_id example_again = 3" "nd_id (example_sent ?t example_again) = 3" by (simp_all add: rows)
  have 1: "mail_step example_env rk (fresh_mail (example_mail example_alert) 0) (example_world example_claimed 0 [?a] [])"
    by (rule example_mail_run)
  have 2: "mail_step example_env rk (example_world example_claimed 0 [?a] []) (example_world example_claimed ?t [?a] [])"
    using mail_tick [of "example_world example_claimed 0 [?a] []" ?t example_env rk] by (simp add: example_world_def minutes_def)
  have 3: "mail_step example_env rk (example_world example_claimed ?t [?a] []) (example_world example_again ?t [example_flight ?t None, ?a] [])"
    unfolding example_again_def
    by (rule example_claim_step) (simp_all add: rows busy_def minutes_def example_plan_def plan_of_def)
  have 4: "mail_step example_env rk (example_world example_again ?t [example_flight ?t None, ?a] [])
      (example_world example_again ?t [example_flight ?t (Some example_posted), ?a] [?p])"
    using example_post_step [of rk example_again ?t "[]" ?t "[?a]" "[]"] by simp
  have 5: "mail_step example_env rk (example_world example_again ?t [example_flight ?t (Some example_posted), ?a] [?p])
      (example_world (example_sent ?t example_again) ?t [?a] [?p])"
    using example_finish_step(1) [OF ids(1), of rk ?t "[]" ?t "[?a]" "[?p]"] by simp
  have 6: "mail_step example_env rk (example_world (example_sent ?t example_again) ?t [?a] [?p])
      (example_world (example_sent ?t example_again) ?t [example_flight 0 (Some (Refused ''timeout'' False))] [?p])"
    using example_refuse_step [of rk "example_sent ?t example_again" ?t "[]" 0 "[]" "[?p]"] by simp
  have 7: "mail_step example_env rk
      (example_world (example_sent ?t example_again) ?t [example_flight 0 (Some (Refused ''timeout'' False))] [?p])
      (example_world example_failed ?t [] [?p])"
    using example_finish_step(2) [OF ids(2), of rk ?t "[]" 0 "''timeout''" False "[]" "[?p]"] by (simp add: example_failed_def)
  have 8: "mail_step example_env rk (example_world example_failed ?t [] [?p]) (example_world example_third ?t [example_flight ?t None] [?p])"
    unfolding example_third_def
    by (rule example_claim_step) (simp_all add: rows busy_def example_plan_def plan_of_def)
  have 9: "mail_step example_env rk (example_world example_third ?t [example_flight ?t None] [?p])
      (example_world example_third ?t [example_flight ?t (Some example_posted)] [example_posting example_third ?t, ?p])"
    using example_post_step [of rk example_third ?t "[]" ?t "[]" "[?p]"] by simp
  show ?thesis by (meson 1 2 3 4 5 6 7 8 9 rtranclp.rtrancl_into_rtrancl rtranclp.rtrancl_refl)
qed

lemma late_worker_posts_twice:
  "\<exists>w. (mail_step example_env rk)\<^sup>*\<^sup>* (fresh_mail (example_mail example_alert) 0) w
     \<and> length (filter (\<lambda>po. po_delivery po = 3) (mw_log w)) = 2"
proof -
  have "length (filter (\<lambda>po. po_delivery po = 3) (mw_log (example_world example_third (minutes 6)
      [example_flight (minutes 6) (Some example_posted)]
      [example_posting example_third (minutes 6), example_posting example_again (minutes 6)]))) = 2"
    by (simp add: example_world_def example_posting_def)
  with example_late_run [of rk] show ?thesis by blast
qed

lemma late_failure_resends_witness:
  "\<exists>d' result. conclude_attempt (example_mail (example_sent 0 example_claimed)) 1 3 (Refused ''timeout'' False) = (d', result)
     \<and> prepare_delivery example_env d' 1 3 = Inr (alter_delivery 3 (begin_attempt 1) d', Claimed example_plan)"
proof -
  let ?x = "example_sent 0 example_claimed" and ?d = "example_mail (example_sent 0 example_claimed)"
  note rows = example_alert_def example_claimed_def example_sent_def begin_attempt_def
  have "get_delivery ?d 3 = Some ?x" "nd_state ?x = Sent"
    by (simp_all add: get_delivery_def example_mail_def rows)
  moreover have "get_notification_target ?d (nd_notification_target_id ?x) = Some example_webhook" "nt_enabled example_webhook"
    by (simp_all add: get_notification_target_def example_mail_def example_webhook_def rows)
  moreover have "nd_purpose ?x = ''password_reset'' \<longrightarrow> carries_resets example_webhook" by (simp add: rows)
  moreover have "resolve_plan example_env ?d ?x example_webhook = Inr example_plan"
  proof -
    have "resolve_target example_env ?d example_webhook
        = Inr \<lparr>rv_target_id = 1, rv_name = ''webhook'', rv_url = ''json://h'', rv_notify_type = ''warning''\<rparr>"
      by (rule example_resolved) (simp_all add: example_mail_def)
    then show ?thesis
      by (simp add: resolve_plan_def) (simp add: example_webhook_def example_plan_def plan_of_def rows)
  qed
  ultimately have "prepare_delivery example_env ?d 1 3 = Inr (?d, concluded 3 Sent)
     \<and> (\<exists>d' result. conclude_attempt ?d 1 3 (Refused ''timeout'' False) = (d', result)
          \<and> prepare_delivery example_env d' 1 3 = Inr (alter_delivery 3 (begin_attempt 1) d', Claimed example_plan))"
    by (rule late_failure_resends)
  then show ?thesis ..
qed

end
