(* ===== verification/MailWorld.thy ===== *)
theory MailWorld
  imports TargetWorld DeliveryWorld
begin

text \<open>
  Notification targets, the alert policies and deliveries that name them, and the default of security
  mail, under any sequence of requests, evaluations and attempts: no reference dangles, and what is
  enabled resolves.
\<close>

section \<open>References\<close>

definition names_existing :: "db \<Rightarrow> alert_policy \<Rightarrow> bool" where
  "names_existing d p \<longleftrightarrow>
     (\<forall>v. map_of (ap_action_json p) ''notification_target_ids'' = Some v \<longrightarrow>
        (\<exists>ids. v = PList (map (PStr \<circ> uuid_str) ids) \<and> set ids \<subseteq> nt_id ` set (db_notification_targets d)))"

definition deliveries_placed :: "db \<Rightarrow> bool" where
  "deliveries_placed d \<longleftrightarrow> nd_notification_target_id ` set (db_deliveries d) \<subseteq> nt_id ` set (db_notification_targets d)"

definition security_placed :: "db \<Rightarrow> bool" where
  "security_placed d \<longleftrightarrow>
     (\<forall>k. security_email_target_id d = Some k \<longrightarrow>
        (\<exists>t \<in> set (db_notification_targets d). nt_id t = k \<and> nt_kind t = ''smtp''))"

definition references_ok :: "db \<Rightarrow> bool" where
  "references_ok d \<longleftrightarrow>
     (\<forall>t \<in> set (db_notification_targets d). nt_id t < 2 ^ 128)
     \<and> (\<forall>p \<in> set (db_alert_policies d). names_existing d p) \<and> deliveries_placed d \<and> security_placed d"

lemma security_frame: "db_settings d' = db_settings d \<Longrightarrow> security_email_target_id d' = security_email_target_id d"
  by (simp add: security_email_target_id_def)

lemma grows_ids:
  assumes "grows_roster d d'"
  shows "nt_id ` set (db_notification_targets d) \<subseteq> nt_id ` set (db_notification_targets d')"
proof
  fix k assume "k \<in> nt_id ` set (db_notification_targets d)"
  then obtain t where "t \<in> set (db_notification_targets d)" "k = nt_id t" by blast
  then obtain u where "u \<in> set (db_notification_targets d')" "nt_id u = k" using assms by (auto simp: grows_roster_def)
  then show "k \<in> nt_id ` set (db_notification_targets d')" by blast
qed

lemma names_mono:
  assumes "names_existing d p" and "\<And>ids. map_of (ap_action_json p) ''notification_target_ids'' = Some (PList (map (PStr \<circ> uuid_str) ids))
      \<Longrightarrow> set ids \<subseteq> nt_id ` set (db_notification_targets d) \<Longrightarrow> set ids \<subseteq> nt_id ` set (db_notification_targets d')"
  shows "names_existing d' p"
  unfolding names_existing_def
proof (intro allI impI)
  fix v assume v: "map_of (ap_action_json p) ''notification_target_ids'' = Some v"
  with assms(1) obtain ids where ids: "v = PList (map (PStr \<circ> uuid_str) ids)" "set ids \<subseteq> nt_id ` set (db_notification_targets d)"
    unfolding names_existing_def by blast
  from assms(2) [OF v [unfolded ids(1)] ids(2)] ids(1)
  show "\<exists>ids. v = PList (map (PStr \<circ> uuid_str) ids) \<and> set ids \<subseteq> nt_id ` set (db_notification_targets d')" by blast
qed

lemma names_grow: "names_existing d p \<Longrightarrow> grows_roster d d' \<Longrightarrow> names_existing d' p"
  by (rule names_mono) (use grows_ids in blast)+

lemma references_grow:
  assumes ok: "references_ok d" and grows: "grows_roster d d'" and small: "\<forall>t \<in> set (db_notification_targets d'). nt_id t < 2 ^ 128"
    and policies: "db_alert_policies d' = db_alert_policies d" and deliveries: "db_deliveries d' = db_deliveries d"
    and settings: "db_settings d' = db_settings d"
  shows "references_ok d'"
proof -
  have "deliveries_placed d'" using ok grows_ids [OF grows] unfolding references_ok_def deliveries_placed_def deliveries by blast
  moreover have "security_placed d'"
    using ok grows unfolding references_ok_def security_placed_def security_frame [OF settings] grows_roster_def by metis
  ultimately show ?thesis using ok small names_grow [OF _ grows] by (simp add: references_ok_def policies)
qed

lemma mail_only_frame:
  assumes "mail_only d d'"
  shows "db_alert_policies d' = db_alert_policies d" "db_deliveries d' = db_deliveries d" "db_settings d' = db_settings d"
proof -
  let ?d = "d\<lparr>db_notification_targets := db_notification_targets d', db_secrets := db_secrets d'\<rparr>"
  have d': "d' = ?d" using assms by (simp add: mail_only_def)
  show "db_alert_policies d' = db_alert_policies d" "db_deliveries d' = db_deliveries d" "db_settings d' = db_settings d"
    using arg_cong [OF d', of db_alert_policies] arg_cong [OF d', of db_deliveries] arg_cong [OF d', of db_settings] by simp_all
qed

lemma keeps_grows:
  assumes "distinct (map nt_id (db_notification_targets d))" and "keeps_roster d d'"
  shows "grows_roster d d'"
  unfolding grows_roster_def
proof
  fix t assume t: "t \<in> set (db_notification_targets d)"
  have "nt_id ` set (db_notification_targets d') = nt_id ` set (db_notification_targets d)"
    using assms(2) by (metis keeps_roster_def set_map)
  with t obtain u where u: "u \<in> set (db_notification_targets d')" "nt_id u = nt_id t" by (metis image_iff)
  then obtain v where "v \<in> set (db_notification_targets d)" "nt_id v = nt_id u" "nt_kind v = nt_kind u"
    using assms(2) by (auto simp: keeps_roster_def)
  with t u assms(1) have "v = t" by (auto simp: distinct_map inj_on_def)
  with u \<open>nt_kind v = nt_kind u\<close> show "\<exists>u \<in> set (db_notification_targets d'). nt_id u = nt_id t \<and> nt_kind u = nt_kind t" by auto
qed

lemma references_update:
  assumes "references_ok d" and "distinct (map nt_id (db_notification_targets d))" and "mail_only d d'" and "keeps_roster d d'"
  shows "references_ok d'"
proof -
  have "\<forall>t \<in> set (db_notification_targets d'). nt_id t < 2 ^ 128"
    using assms(1,4) unfolding references_ok_def keeps_roster_def by metis
  then show ?thesis
    by (intro references_grow [OF assms(1) keeps_grows [OF assms(2,4)]] mail_only_frame [OF assms(3)])
qed

lemma store_secret_targets:
  "store_secret env d new nonce kind k val = Inr (d1, ref) \<Longrightarrow> db_notification_targets d1 = db_notification_targets d"
  by (auto simp: store_secret_def secret_create_json_def secret_create_def and_then_eq_Inr add_secret_def)

lemma created_rows:
  "create_smtp env d k new nonce name enabled config given = Inr (d', t) \<Longrightarrow>
     \<exists>t. db_notification_targets d' = db_notification_targets d @ [t] \<and> nt_id t = k"
  "create_apprise env d k new nonce name enabled config url = Inr (d', t) \<Longrightarrow>
     \<exists>t. db_notification_targets d' = db_notification_targets d @ [t] \<and> nt_id t = k"
  by (auto simp: create_smtp_def create_apprise_def and_then_eq_Inr Let_def add_target_def
      dest!: store_secret_targets split: option.splits)

lemma references_create:
  assumes "references_ok d" and "mail_only d d'" and "grows_roster d d'" and "k < 2 ^ 128"
    and "\<exists>t. db_notification_targets d' = db_notification_targets d @ [t] \<and> nt_id t = k"
  shows "references_ok d'"
  using assms by (intro references_grow [OF assms(1,3)] mail_only_frame [OF assms(2)]) (auto simp: references_ok_def)

text \<open>The document of a namespace.\<close>

lemma put_setting_lookup:
  "map_of (db_settings (put_setting ns v d)) k = (if k = ns then Some v else map_of (db_settings d) k)"
proof -
  have "map_of (map (\<lambda>(n, w). if n = ns then (n, v) else (n, w)) xs) k
      = (if k = ns then map_option (\<lambda>_. v) (map_of xs k) else map_of xs k)" for xs
    by (induction xs) auto
  then show ?thesis by (auto simp: put_setting_def map_add_def split: option.splits)
qed

lemma drop_optional_settings:
  assumes "drop_optional d ref kind k = Inr d'"
  shows "db_settings d' = db_settings d"
proof (cases ref)
  case (Some j)
  show ?thesis
  proof (cases "secret_delete d j (owner_filter kind k)")
    case (Inl e)
    then show ?thesis using assms Some by (auto simp: drop_optional_def drop_secret_def split: if_splits)
  next
    case (Inr d1)
    then have "db_settings d1 = db_settings d" by (auto simp: secret_delete_def and_then_eq_Inr)
    then show ?thesis using assms Some Inr by (simp add: drop_optional_def drop_secret_def)
  qed
qed (use assms in \<open>simp add: drop_optional_def\<close>)

lemma delete_target_settings:
  assumes "delete_target d t = Inr d'"
  obtains d1 where "(if security_email_target_id d = Some (nt_id t) then set_security_email_target d None else Inr d) = Inr d1"
    "db_settings d' = db_settings d1"
proof -
  obtain d1 kind where d1: "(if security_email_target_id d = Some (nt_id t) then set_security_email_target d None else Inr d) = Inr d1"
    and rest: "drop_optional (d1\<lparr>db_notification_targets := filter (\<lambda>x. nt_id x \<noteq> nt_id t) (db_notification_targets d1)\<rparr>)
       (nt_secret_ref t) kind (nt_id t) = Inr d'"
    using assms unfolding delete_target_def and_then_eq_Inr by blast
  from drop_optional_settings [OF rest] have "db_settings d' = db_settings d1" by simp
  then show thesis by (rule that [OF d1])
qed

text \<open>The guards of a deletion are exactly the references.\<close>

lemma references_delete:
  assumes ok: "targets_ok env d" "references_ok d" and t: "t \<in> set (db_notification_targets d)" and del: "delete_target d t = Inr d'"
  shows "references_ok d'"
proof -
  note rows = delete_target_ok(2,3) [OF ok(1) t del]
  have policies: "db_alert_policies d' = db_alert_policies d" and deliveries: "db_deliveries d' = db_deliveries d"
    using arg_cong [OF rows(2), of db_alert_policies] arg_cong [OF rows(2), of db_deliveries] by simp_all
  have free: "\<not> policy_names_target p (nt_id t)" if "p \<in> set (db_alert_policies d)" for p
    using del that by (auto simp: delete_target_def and_then_eq_Inr require_def list_ex_iff split: if_splits)
  have unused: "nd_notification_target_id x \<noteq> nt_id t" if "x \<in> set (db_deliveries d)" for x
    using del that by (auto simp: delete_target_def and_then_eq_Inr require_def list_ex_iff split: if_splits)
  have kept: "k \<in> nt_id ` set (db_notification_targets d')" if "k \<in> nt_id ` set (db_notification_targets d)" "k \<noteq> nt_id t" for k
    using that by (auto simp: rows(1))
  have "names_existing d' p" if p: "p \<in> set (db_alert_policies d)" for p
  proof -
    have step: "set ids \<subseteq> nt_id ` set (db_notification_targets d')"
      if ids: "map_of (ap_action_json p) ''notification_target_ids'' = Some (PList (map (PStr \<circ> uuid_str) ids))"
        "set ids \<subseteq> nt_id ` set (db_notification_targets d)" for ids
    proof
      fix k assume k: "k \<in> set ids"
      have "nt_id t \<notin> set ids" using free [OF p] ids(1) by (auto simp: policy_names_target_def)
      with k ids(2) show "k \<in> nt_id ` set (db_notification_targets d')" by (intro kept) auto
    qed
    have "names_existing d p" using ok(2) p by (simp add: references_ok_def)
    then show ?thesis by (rule names_mono) (rule step)
  qed
  moreover have "deliveries_placed d'"
    using ok(2) unused kept unfolding references_ok_def deliveries_placed_def deliveries by (simp add: image_subset_iff)
  moreover have "security_placed d'"
  proof (cases "security_email_target_id d = Some (nt_id t)")
    case True
    then obtain d1 where d1: "set_security_email_target d None = Inr d1" "db_settings d' = db_settings d1"
      using delete_target_settings [OF del] by auto
    have "map_of (db_settings d1) ''notifications.security_email'' = Some [(''target_id'', PNone)]"
      using d1(1) by (auto simp: set_security_email_target_def put_setting_lookup)
    then show ?thesis using d1(2) by (simp add: security_placed_def security_email_target_id_def)
  next
    case False
    then have "db_settings d' = db_settings d" using delete_target_settings [OF del] by auto
    then have "security_email_target_id d' = security_email_target_id d" by (rule security_frame)
    then show ?thesis using ok(2) False by (auto simp: references_ok_def security_placed_def rows(1))
  qed
  ultimately show ?thesis using ok(2) by (auto simp: references_ok_def policies rows(1))
qed


section \<open>Policies, evaluations and resets\<close>

text \<open>What a request on policies stores names targets that exist.\<close>

lemma names_normalized:
  assumes "normalize_actions d v = Inr m" and "ap_action_json p = m"
  shows "names_existing d p"
proof -
  let ?b = "truthy (case map_of v ''protect_recording'' of None \<Rightarrow> PBool False | Some v \<Rightarrow> v)"
  obtain n1 where n: "action_targets d v [] = Inr n1"
    "action_timing protect_timing_keys v (dict_put ''protect_recording'' (PBool ?b) n1) = Inr m"
    using assms(1) by (auto simp: normalize_actions_def Let_def and_then_eq_Inr split: if_splits)
  have "distinct (map fst protect_timing_keys)" "''notification_target_ids'' \<notin> fst ` set protect_timing_keys"
    by (simp_all add: protect_timing_keys_def)
  then have m: "map_of m ''notification_target_ids'' = map_of n1 ''notification_target_ids''"
    using action_timing_values [OF n(2)] by simp
  obtain ids where "n1 = [] \<or> n1 = [(''notification_target_ids'', PList (map (PStr \<circ> uuid_str) ids))]"
    "\<forall>k \<in> set ids. get_notification_target d k \<noteq> None"
    using n(1) by (auto simp: action_targets_def and_then_eq_Inr list_all_iff split: if_splits)
  then show ?thesis using m assms(2) by (auto simp: names_existing_def mail_targets.get_None_iff)
qed

lemma policy_update_actions:
  assumes "policy_update zones d p changes = Inr (d', q)"
  shows "ap_action_json q = ap_action_json p \<or> (\<exists>v. normalize_actions d v = Inr (ap_action_json q))"
proof -
  obtain p1 p2 p3 p4 p5 p6 where u:
    "patched (pp_name changes) (\<lambda>v.
         and_then (or_invalid ''alert_policy_name_invalid'' v) (\<lambda>name.
         and_then (require (py_strip name \<noteq> []) (ApiError 400 ''alert_policy_name_invalid'')) (\<lambda>_.
         and_then (policy_name_free d (py_strip name) (Some (ap_id p))) (\<lambda>_.
         Inr (p\<lparr>ap_name := py_strip name\<rparr>))))) p = Inr p1"
    "patched (pp_enabled changes) (\<lambda>v. Inr (p1\<lparr>ap_enabled := (v = Some True)\<rparr>)) p1 = Inr p2"
    "patched (pp_severity changes) (\<lambda>v.
         and_then (or_invalid ''alert_policy_severity_invalid'' v) (\<lambda>severity.
         and_then (policy_severity severity) (\<lambda>s. Inr (p2\<lparr>ap_severity := s\<rparr>)))) p2 = Inr p3"
    "patched (pp_match changes) (\<lambda>v.
         and_then (or_invalid ''alert_policy_match_invalid'' v) (\<lambda>raw.
         and_then (normalize_match zones d raw) (\<lambda>m. Inr (p3\<lparr>ap_match_json := m\<rparr>)))) p3 = Inr p4"
    "patched (pp_actions changes) (\<lambda>v.
         and_then (or_invalid ''alert_policy_action_invalid'' v) (\<lambda>raw.
         and_then (normalize_actions d raw) (\<lambda>a. Inr (p4\<lparr>ap_action_json := a\<rparr>)))) p4 = Inr p5"
    "patched (pp_cooldown_seconds changes) (\<lambda>v.
         and_then (or_invalid ''alert_policy_cooldown_invalid'' v) (\<lambda>raw.
         and_then (policy_cooldown raw) (\<lambda>n. Inr (p5\<lparr>ap_cooldown_seconds := n\<rparr>)))) p5 = Inr p6"
    and q: "q = p6"
    using assms unfolding policy_update_def and_then_eq_Inr by blast
  have "ap_action_json p1 = ap_action_json p" using u(1) by (elim patched_cases) (auto simp: and_then_eq_Inr)
  then have "ap_action_json p2 = ap_action_json p" using u(2) by (elim patched_cases) auto
  then have "ap_action_json p3 = ap_action_json p" using u(3) by (elim patched_cases) (auto simp: and_then_eq_Inr)
  then have "ap_action_json p4 = ap_action_json p" using u(4) by (elim patched_cases) (auto simp: and_then_eq_Inr)
  then have "ap_action_json p5 = ap_action_json p \<or> (\<exists>v. normalize_actions d v = Inr (ap_action_json p5))"
    using u(5) by (elim patched_cases) (auto simp: and_then_eq_Inr)
  then show ?thesis using u(6) unfolding q by (elim patched_cases) (auto simp: and_then_eq_Inr)
qed

lemma references_policies:
  assumes "references_ok d" and "db_notification_targets d' = db_notification_targets d" "db_deliveries d' = db_deliveries d"
    "db_settings d' = db_settings d" and "\<And>p. p \<in> set (db_alert_policies d') \<Longrightarrow> names_existing d p"
  shows "references_ok d'"
  using assms(1,5) security_frame [OF assms(4)]
  by (simp add: references_ok_def names_existing_def deliveries_placed_def security_placed_def assms(2,3))

lemma references_deliveries:
  assumes "references_ok d" and "db_notification_targets d' = db_notification_targets d" "db_alert_policies d' = db_alert_policies d"
    "security_email_target_id d' = security_email_target_id d" and "deliveries_placed d'"
  shows "references_ok d'"
  using assms(1,5) by (simp add: references_ok_def names_existing_def security_placed_def assms(2-4))

lemma policy_requests_references:
  assumes ok: "references_ok d" "policies_ok zones d"
  shows "create_alert_policy zones d context k name enabled severity m a cooldown = Inr d' \<Longrightarrow> get_policy d k = None \<Longrightarrow>
      references_ok d' \<and> policies_ok zones d' \<and> db_notification_targets d' = db_notification_targets d \<and> db_secrets d' = db_secrets d"
    and "update_alert_policy zones d context k changes = Inr d' \<Longrightarrow>
      references_ok d' \<and> policies_ok zones d' \<and> db_notification_targets d' = db_notification_targets d \<and> db_secrets d' = db_secrets d"
    and "delete_alert_policy d context k = Inr d' \<Longrightarrow>
      references_ok d' \<and> policies_ok zones d' \<and> db_notification_targets d' = db_notification_targets d \<and> db_secrets d' = db_secrets d"
proof -
  have old: "names_existing d p" if "p \<in> set (db_alert_policies d)" for p using ok(1) that by (simp add: references_ok_def)
  show "references_ok d' \<and> policies_ok zones d' \<and> db_notification_targets d' = db_notification_targets d \<and> db_secrets d' = db_secrets d"
    if r: "create_alert_policy zones d context k name enabled severity m a cooldown = Inr d'" "get_policy d k = None"
  proof -
    obtain p where p: "policy_create zones d k name enabled severity m a cooldown = Inr (d', p)"
      using r(1) by (auto simp: create_alert_policy_def and_then_eq_Inr)
    note c = policy_create_ok [OF p ok(2) r(2)]
    have "normalize_actions d a = Inr (ap_action_json p)" using p by (auto simp: policy_create_def and_then_eq_Inr Let_def)
    then have "names_existing d p" by (rule names_normalized) simp
    then have "references_ok d'" using c old by (intro references_policies [OF ok(1)]) (auto simp: add_policy_def)
    moreover have "db_notification_targets d' = db_notification_targets d" "db_secrets d' = db_secrets d"
      using c by (auto simp: add_policy_def)
    ultimately show ?thesis using c by blast
  qed
  show "references_ok d' \<and> policies_ok zones d' \<and> db_notification_targets d' = db_notification_targets d \<and> db_secrets d' = db_secrets d"
    if r: "update_alert_policy zones d context k changes = Inr d'"
  proof -
    obtain p q where p: "get_policy d k = Some p" "policy_update zones d p changes = Inr (d', q)"
      using r by (auto simp: update_alert_policy_def and_then_eq_Inr fetch_or_404_def split: option.splits)
    have pk: "get_policy d (ap_id p) = Some p" and mem: "p \<in> set (db_alert_policies d)"
      using p(1) alert_policies.get_Some [OF p(1)] by auto
    have d': "d' = change_policy (ap_id p) (\<lambda>_. q) d" using p(2) by (auto simp: policy_update_def and_then_eq_Inr)
    have "names_existing d q"
      using policy_update_actions [OF p(2)] old [OF mem] names_normalized by (auto simp: names_existing_def)
    then have "references_ok d'" using d' old by (intro references_policies [OF ok(1)]) (auto simp: change_policy_def split: if_splits)
    then show ?thesis using d' policy_update_ok [OF p(2) ok(2) pk] by (simp add: change_policy_def)
  qed
  show "references_ok d' \<and> policies_ok zones d' \<and> db_notification_targets d' = db_notification_targets d \<and> db_secrets d' = db_secrets d"
    if r: "delete_alert_policy d context k = Inr d'"
  proof -
    obtain p where d': "d' = policy_delete d p"
      using r by (auto simp: delete_alert_policy_def and_then_eq_Inr fetch_or_404_def split: option.splits)
    have "references_ok d'" using d' old by (intro references_policies [OF ok(1)]) (auto simp: policy_delete_def)
    then show ?thesis using d' policy_delete_ok [OF ok(2)] by (simp add: policy_delete_def)
  qed
qed

text \<open>Deliveries go to targets that exist: those of alerts, those of resets, and those that are attempted.\<close>

lemma evaluation_references:
  assumes ok: "references_ok d" and p: "distinct (map ap_id (db_alert_policies d))"
    and r: "evaluate_event zones ids d now e = Inr (d', as, ks)"
  shows "references_ok d' \<and> db_alert_policies d' = db_alert_policies d
    \<and> db_notification_targets d' = db_notification_targets d \<and> db_secrets d' = db_secrets d"
proof -
  obtain raised new where d': "d' = alerted d (map (\<lambda>p. alert_of (ni_alert ids (ap_id p)) p e) raised) new
      (concat (map (protection_of_alert ids now e) raised))"
    and new: "map (\<lambda>x. (nd_alert_id x, nd_notification_target_id x)) new
      = concat (map (\<lambda>p. map (Pair (Some (ni_alert ids (ap_id p)))) (targets_of_policy d p)) raised)"
    using evaluate_event_exact [OF r p] by (auto simp: evaluation_of_def)
  have "k \<in> nt_id ` set (db_notification_targets d)" if "reached_target d raw = Some k" for raw k
    using that mail_targets.get_Some [of d k] by (auto simp: reached_target_def split: sum.splits option.splits if_splits)
  then have reached: "k \<in> nt_id ` set (db_notification_targets d)" if "k \<in> set (targets_of_policy d p)" for k p
    using that by (auto simp: targets_of_policy_def List.map_filter_def split: option.splits pyobj.splits)
  have "nd_notification_target_id x \<in> nt_id ` set (db_notification_targets d)" if x: "x \<in> set new" for x
  proof -
    have "(nd_alert_id x, nd_notification_target_id x)
        \<in> set (concat (map (\<lambda>p. map (Pair (Some (ni_alert ids (ap_id p)))) (targets_of_policy d p)) raised))"
      using x unfolding new [symmetric] by simp
    then show ?thesis using reached by auto
  qed
  then have "deliveries_placed d'" using ok by (auto simp: d' references_ok_def deliveries_placed_def)
  moreover have "db_settings d' = db_settings d" "db_secrets d' = db_secrets d" by (simp_all add: d' alerted_def)
  ultimately show ?thesis using references_deliveries [OF ok, of d'] security_frame [of d' d] by (simp add: d')
qed

lemma find_Some_mem: "find P xs = Some x \<Longrightarrow> x \<in> set xs \<and> P x"
  by (induction xs) (auto split: if_splits)

lemma reset_mail_target_mem:
  assumes "reset_mail_target d = Some t"
  shows "t \<in> set (db_notification_targets d)" and "nt_enabled t"
    and "security_email_target d = Some t \<and> nt_kind t = ''smtp'' \<or> is_password_reset_target t"
  using assms
  by (auto simp: reset_mail_target_def security_email_target_def password_reset_target_def list_notification_targets_def
      split: option.splits if_splits dest: find_Some_mem)

lemma reset_references:
  assumes ok: "references_ok d" and r: "issue_reset km sha key d now k delivery_id identifier metadata = Inr (d', issued)"
  shows "references_ok d' \<and> db_alert_policies d' = db_alert_policies d
    \<and> db_notification_targets d' = db_notification_targets d \<and> db_secrets d' = db_secrets d"
proof -
  from r consider "d' = d" | t and u :: user where "reset_mail_target d = Some t"
      "and_then (create_reset km sha key d now k (us_id u) None metadata) (\<lambda>(d1, rr).
         Inr (d1\<lparr>db_deliveries := db_deliveries d1 @ [reset_delivery delivery_id (nt_id t) (pt_id rr)]\<rparr>,
              Some (us_id u, delivery_id))) = Inr (d', issued)"
    unfolding issue_reset_def Let_def by (auto split: if_splits option.splits)
  then consider "d' = d" | t and u :: user and d1 rr where "reset_mail_target d = Some t"
      "create_reset km sha key d now k (us_id u) None metadata = Inr (d1, rr)"
      "d' = d1\<lparr>db_deliveries := db_deliveries d1 @ [reset_delivery delivery_id (nt_id t) (pt_id rr)]\<rparr>"
    by cases (auto simp: and_then_eq_Inr)
  then show ?thesis
  proof cases
    case (2 t u d1 rr)
    have d1: "db_deliveries d1 = db_deliveries d" "db_alert_policies d1 = db_alert_policies d" "db_settings d1 = db_settings d"
      "db_notification_targets d1 = db_notification_targets d" "db_secrets d1 = db_secrets d"
      using 2(2) by (auto simp: create_reset_def Let_def add_reset_def retire_resets_def split: if_splits)
    have "deliveries_placed d'"
      using ok reset_mail_target_mem(1) [OF 2(1)]
      by (auto simp: 2(3) d1 references_ok_def deliveries_placed_def reset_delivery_def)
    moreover have "security_email_target_id d' = security_email_target_id d" by (rule security_frame) (simp add: 2(3) d1)
    ultimately show ?thesis using references_deliveries [OF ok] by (simp add: 2(3) d1)
  qed (use ok in simp)
qed

lemma altered_references:
  assumes ok: "references_ok d" and f: "\<And>x. nd_notification_target_id (f x) = nd_notification_target_id x"
  shows "references_ok (alter_delivery k f d)"
proof -
  let ?d = "alter_delivery k f d"
  have "map nd_notification_target_id (db_deliveries ?d) = map nd_notification_target_id (db_deliveries d)"
    using f by (auto simp: alter_delivery_def)
  then have "nd_notification_target_id ` set (db_deliveries ?d) = nd_notification_target_id ` set (db_deliveries d)"
    by (metis list.set_map)
  then have "deliveries_placed ?d" using ok by (simp add: references_ok_def deliveries_placed_def) (simp add: alter_delivery_def)
  moreover have "security_email_target_id ?d = security_email_target_id d" by (rule security_frame) (simp add: alter_delivery_def)
  ultimately show ?thesis by (intro references_deliveries [OF ok]) (simp_all add: alter_delivery_def)
qed

lemma attempts_references:
  assumes ok: "references_ok d"
  shows "prepare_delivery env d now k = Inr (d', c) \<Longrightarrow> references_ok d' \<and> db_alert_policies d' = db_alert_policies d
      \<and> db_notification_targets d' = db_notification_targets d \<and> db_secrets d' = db_secrets d"
    and "conclude_attempt d now k r = (d', result) \<Longrightarrow> references_ok d' \<and> db_alert_policies d' = db_alert_policies d
      \<and> db_notification_targets d' = db_notification_targets d \<and> db_secrets d' = db_secrets d"
proof -
  have frame: "db_alert_policies (alter_delivery k f d) = db_alert_policies d"
      "db_notification_targets (alter_delivery k f d) = db_notification_targets d" for f
    by (simp_all add: alter_delivery_def)
  show "references_ok d' \<and> db_alert_policies d' = db_alert_policies d
      \<and> db_notification_targets d' = db_notification_targets d \<and> db_secrets d' = db_secrets d"
    if "prepare_delivery env d now k = Inr (d', c)"
  proof (cases c)
    case (Claimed p)
    then have "d' = alter_delivery k (begin_attempt now) d" using that by (auto elim: prepare_claims)
    then show ?thesis using altered_references [OF ok] by (simp add: frame begin_attempt_def)
  next
    case (Concluded res)
    show ?thesis
      by (rule prepare_concludes [OF that [unfolded Concluded]])
        (use ok altered_references [OF ok] in \<open>simp_all add: frame mark_state_def\<close>)
  qed
  show "references_ok d' \<and> db_alert_policies d' = db_alert_policies d
      \<and> db_notification_targets d' = db_notification_targets d \<and> db_secrets d' = db_secrets d"
    if "conclude_attempt d now k r = (d', result)"
    by (rule conclude_cases [OF that]) (use ok altered_references [OF ok] in \<open>simp_all add: frame mark_state_def\<close>)
qed


section \<open>Secrets\<close>

text \<open>A rotation changes how secrets are stored, not what they say.\<close>

lemma rotation_targets:
  assumes env: "env_ok env secret_key previous" and ok: "targets_ok env d"
    and r: "rotate_secret_store (me_crypto env) (me_store env) nonces d = Inr (d', result, health)"
  shows "targets_ok env d' \<and> db_notification_targets d' = db_notification_targets d \<and> db_alert_policies d' = db_alert_policies d
    \<and> db_deliveries d' = db_deliveries d \<and> db_settings d' = db_settings d"
proof -
  have e: "fernet_ok (me_crypto env)" "open_store (me_crypto env) secret_key previous = Inr (me_store env)"
    and ids: "distinct (map sr_id (db_secrets d))"
    using env ok by (simp_all add: env_ok_def targets_ok_def)
  obtain f where d': "d' = d\<lparr>db_secrets := map f (db_secrets d)\<rparr>"
    and f: "\<forall>r. sr_id (f r) = sr_id r \<and> sr_kind (f r) = sr_kind r \<and> sr_owner_type (f r) = sr_owner_type r
      \<and> sr_owner_id (f r) = sr_owner_id r"
    using json_rotated(2) [OF e ids r] by (elim exE conjE) (rule that, assumption+)
  have reads: "read_owned env d' k sf = read_owned env d k sf" for k sf
    using json_rotated(1) [OF e ids r] by (simp add: read_owned_def)
  have "targets_ok env d'"
  proof (rule targets_ok_filter [OF ok, of d' "\<lambda>_. True"])
    show "db_notification_targets d' = filter (\<lambda>_. True) (db_notification_targets d)" by (simp add: d')
    show "target_secret env d' u = target_secret env d u" for u by (rule target_secret_frame) (rule reads)
    have "map sr_id (db_secrets d') = map sr_id (db_secrets d)" using f by (simp add: d')
    then show "distinct (map sr_id (db_secrets d'))" using ids by simp
    show "\<exists>s \<in> set (db_secrets d). sr_owner_type s = ''notification_target'' \<and> sr_owner_id s = sr_owner_id r \<and> sr_id s = sr_id r
        \<and> (\<forall>t \<in> set (db_notification_targets d). nt_id t = sr_owner_id r \<longrightarrow> True)"
      if "r \<in> set (db_secrets d')" "sr_owner_type r = ''notification_target''" for r
      using that f by (auto simp: d')
  qed
  then show ?thesis by (simp add: d')
qed

text \<open>
  The rest of the program: other settings and tables, secrets of other owners, and deliveries to targets that
  have some.
\<close>

definition mail_elsewhere :: "db \<Rightarrow> db \<Rightarrow> bool" where
  "mail_elsewhere d d' \<longleftrightarrow>
     db_notification_targets d' = db_notification_targets d \<and> db_alert_policies d' = db_alert_policies d
     \<and> security_email_target_id d' = security_email_target_id d
     \<and> nd_notification_target_id ` set (db_deliveries d') \<subseteq> nd_notification_target_id ` set (db_deliveries d)
     \<and> distinct (map sr_id (db_secrets d'))
     \<and> (\<forall>r. sr_owner_type r = ''notification_target'' \<longrightarrow> (r \<in> set (db_secrets d') \<longleftrightarrow> r \<in> set (db_secrets d)))"

lemma get_secret_mem:
  assumes "distinct (map sr_id (db_secrets d))"
  shows "get_secret d k = Some r \<longleftrightarrow> r \<in> set (db_secrets d) \<and> sr_id r = k"
proof -
  have "find (\<lambda>r. sr_id r = k) rs = Some r \<longleftrightarrow> r \<in> set rs \<and> sr_id r = k" if "distinct (map sr_id rs)" for rs
    using that by (induction rs) (auto simp: image_iff)
  then show ?thesis using assms by (simp add: get_secret_def)
qed

lemma elsewhere_targets:
  assumes ok: "targets_ok env d" and e: "mail_elsewhere d d'"
  shows "targets_ok env d'"
proof (rule targets_ok_filter [OF ok, of d' "\<lambda>_. True"])
  have ids: "distinct (map sr_id (db_secrets d))" "distinct (map sr_id (db_secrets d'))"
    using ok e by (simp_all add: targets_ok_def mail_elsewhere_def)
  then show "distinct (map sr_id (db_secrets d'))" by blast
  show "db_notification_targets d' = filter (\<lambda>_. True) (db_notification_targets d)" using e by (simp add: mail_elsewhere_def)
  show "target_secret env d' u = target_secret env d u" if u: "u \<in> set (db_notification_targets d)" for u
  proof (rule target_secret_frame)
    fix k assume k: "nt_secret_ref u = Some k"
    have "secret_ok env d u" using ok u by (simp add: targets_ok_def)
    then obtain r where r: "get_secret d k = Some r" "r \<in> set (db_secrets d)" "sr_id r = k" "sr_owner_type r = ''notification_target''"
      by (rule secret_row [OF _ k])
    then have "get_secret d' k = Some r" using e by (simp add: get_secret_mem [OF ids(2)] mail_elsewhere_def)
    with r(1) show "read_owned env d' k (owner_filter (secret_kind u) (nt_id u)) = read_owned env d k (owner_filter (secret_kind u) (nt_id u))"
      by (simp add: read_owned_def secret_read_json_def secret_read_def secret_for_def)
  qed
  show "\<exists>s \<in> set (db_secrets d). sr_owner_type s = ''notification_target'' \<and> sr_owner_id s = sr_owner_id r \<and> sr_id s = sr_id r
      \<and> (\<forall>t \<in> set (db_notification_targets d). nt_id t = sr_owner_id r \<longrightarrow> True)"
    if "r \<in> set (db_secrets d')" "sr_owner_type r = ''notification_target''" for r
    using that e by (intro bexI [of _ r]) (auto simp: mail_elsewhere_def)
qed

lemma elsewhere_references:
  assumes "references_ok d" and "mail_elsewhere d d'"
  shows "references_ok d'"
proof (rule references_deliveries [OF assms(1)])
  have "nd_notification_target_id ` set (db_deliveries d) \<subseteq> nt_id ` set (db_notification_targets d)"
    using assms(1) by (simp add: references_ok_def deliveries_placed_def)
  moreover have "nd_notification_target_id ` set (db_deliveries d') \<subseteq> nd_notification_target_id ` set (db_deliveries d)"
    "db_notification_targets d' = db_notification_targets d" using assms(2) by (simp_all add: mail_elsewhere_def)
  ultimately show "deliveries_placed d'" unfolding deliveries_placed_def by simp
qed (use assms(2) in \<open>simp_all add: mail_elsewhere_def\<close>)

section \<open>What is enabled resolves\<close>

lemma sound_resolves:
  assumes env: "env_ok env secret_key previous" and ok: "targets_ok env d" and t: "t \<in> set (db_notification_targets d)"
    and on: "nt_enabled t" "nt_kind t = ''smtp'' \<or> nt_secret_ref t \<noteq> None"
  shows "\<exists>p. resolve_plan env d x t = Inr p"
proof -
  have config: "target_config_ok env t" and secret: "secret_ok env d t" using ok t by (simp_all add: targets_ok_def)
  show ?thesis
  proof (cases "nt_kind t = ''smtp''")
    case True
    have "\<exists>login. smtp_login env d t = Inr login"
    proof (cases "nt_secret_ref t")
      case (Some ref)
      then obtain u p where "read_owned env d ref (owner_filter ''smtp_credentials'' (nt_id t))
          = Inr [(''password'', PStr p), (''username'', PStr u)]" "py_strip u = u" "u \<noteq> []" "length u \<le> 320" "p \<noteq> []"
        using secret True by (auto simp: secret_ok_def target_secret_def secret_kind_def)
      then show ?thesis using Some credentials_again by (simp add: smtp_login_def read_owned_def)
    qed (simp add: smtp_login_def)
    moreover have "normalize_smtp_config env (nt_config_json t) = Inr (nt_config_json t)"
      using config True by (simp add: target_config_ok_def)
    ultimately have "\<exists>s. resolve_smtp env d t = Inr s" using True on(1) by (auto simp: resolve_smtp_def Let_def)
    then show ?thesis using True by (auto simp: resolve_plan_def)
  next
    case False
    then have kind: "nt_kind t = ''apprise''" using config by (simp add: target_config_ok_def)
    obtain ref where ref: "nt_secret_ref t = Some ref" using on(2) False by auto
    then obtain url where "read_owned env d ref (owner_filter ''notification_url'' (nt_id t)) = Inr [(''url'', PStr url)]" "url \<noteq> []"
      using secret False by (auto simp: secret_ok_def target_secret_def secret_kind_def)
    then have "secret_url env d t = Inr url" using ref by (simp add: secret_url_def read_owned_def)
    then show ?thesis using kind on(1) by (simp add: resolve_plan_def resolve_target_def)
  qed
qed

lemma reset_target_resolves:
  assumes env: "env_ok env secret_key previous" and ok: "targets_ok env d" and r: "reset_mail_target d = Some t"
  shows "carries_resets t \<and> (\<exists>p. resolve_plan env d x t = Inr p)"
proof -
  note m = reset_mail_target_mem [OF r]
  have config: "target_config_ok env t" and reset: "reset_target_ok env d t" using ok m(1) by (simp_all add: targets_ok_def)
  have "nt_kind t = ''smtp'' \<or> nt_kind t = ''apprise''" using config by (auto simp: target_config_ok_def split: if_splits)
  moreover have "nt_secret_ref t \<noteq> None" if "is_password_reset_target t"
    using reset that by (auto simp: reset_target_ok_def target_secret_def)
  ultimately show ?thesis using m sound_resolves [OF env ok m(1,2)] by (auto simp: carries_resets_def)
qed

section \<open>All of it in any order\<close>

text \<open>
  The requests on targets, policies and the default of security mail, evaluations of events, reset
  requests, claims and outcomes of deliveries, rotations of the secret store, and the rest of the program. Ids
  of rows are new and fit a UUID.
\<close>

inductive mail_request :: "mail_env \<Rightarrow> zones \<Rightarrow> db \<Rightarrow> db \<Rightarrow> bool" for env zones where
  request_create: "\<lbrakk>create_notification_target env d context k new nonce body = Inr d';
      k \<notin> nt_id ` set (db_notification_targets d); k < 2 ^ 128; get_secret d new = None\<rbrakk> \<Longrightarrow> mail_request env zones d d'"
| request_update: "\<lbrakk>update_notification_target env d context new nonce k changes = Inr d'; get_secret d new = None\<rbrakk>
      \<Longrightarrow> mail_request env zones d d'"
| request_delete: "delete_notification_target d context k = Inr d' \<Longrightarrow> mail_request env zones d d'"
| request_security: "change_security_email_target d context target_id = Inr d' \<Longrightarrow> mail_request env zones d d'"
| request_policy_create: "\<lbrakk>create_alert_policy zones d context k name enabled severity m a cooldown = Inr d'; get_policy d k = None\<rbrakk>
      \<Longrightarrow> mail_request env zones d d'"
| request_policy_update: "update_alert_policy zones d context k patch = Inr d' \<Longrightarrow> mail_request env zones d d'"
| request_policy_delete: "delete_alert_policy d context k = Inr d' \<Longrightarrow> mail_request env zones d d'"
| request_evaluation: "evaluate_event zones ids d now e = Inr (d', as, ks) \<Longrightarrow> mail_request env zones d d'"
| request_reset: "issue_reset km sha key d now k delivery_id identifier metadata = Inr (d', issued) \<Longrightarrow> mail_request env zones d d'"
| request_claim: "prepare_delivery env d now k = Inr (d', c) \<Longrightarrow> mail_request env zones d d'"
| request_outcome: "conclude_attempt d now k r = (d', result) \<Longrightarrow> mail_request env zones d d'"
| request_rotation: "rotate_secret_store (me_crypto env) (me_store env) nonces d = Inr (d', rotation, health)
      \<Longrightarrow> mail_request env zones d d'"
| request_elsewhere: "mail_elsewhere d d' \<Longrightarrow> mail_request env zones d d'"

definition mail_ok :: "mail_env \<Rightarrow> zones \<Rightarrow> db \<Rightarrow> bool" where
  "mail_ok env zones d \<longleftrightarrow> targets_ok env d \<and> references_ok d \<and> policies_ok zones d"

lemma mail_okI:
  assumes "mail_ok env zones d" and "references_ok d'" and "db_alert_policies d' = db_alert_policies d"
    and "db_notification_targets d' = db_notification_targets d" and "db_secrets d' = db_secrets d"
  shows "mail_ok env zones d'"
  using assms policies_ok_table [OF assms(3)] targets_ok_frame [OF assms(4,5)] by (simp add: mail_ok_def)

lemma create_request_ok:
  assumes env: "env_ok env secret_key previous" and ok: "mail_ok env zones d"
    and r: "create_notification_target env d context k new nonce body = Inr d'"
    and fresh: "k \<notin> nt_id ` set (db_notification_targets d)" "k < 2 ^ 128" "get_secret d new = None"
  shows "mail_ok env zones d'"
proof -
  have t: "targets_ok env d" using ok by (simp add: mail_ok_def)
  have "targets_ok env d' \<and> mail_only d d' \<and> grows_roster d d'
      \<and> (\<exists>t. db_notification_targets d' = db_notification_targets d @ [t] \<and> nt_id t = k)"
  proof (cases "nf_kind body = ''smtp''")
    case True
    then obtain t where c: "create_smtp env d k new nonce (nf_name body) (nf_enabled body) (nf_config body)
        (nf_smtp_credentials body) = Inr (d', t)"
      using r by (auto simp: create_notification_target_def and_then_eq_Inr)
    show ?thesis using create_smtp_ok [OF env t fresh(1,3) c] created_rows(1) [OF c] by blast
  next
    case False
    then obtain url t where c: "create_apprise env d k new nonce (nf_name body) (nf_enabled body) (nf_config body) url = Inr (d', t)"
      using r by (auto simp: create_notification_target_def and_then_eq_Inr)
    show ?thesis using create_apprise_ok [OF env t fresh(1,3) c] created_rows(2) [OF c] by blast
  qed
  then show ?thesis
    using ok references_create [of d d' k] fresh(2) policies_ok_table [of d' d zones] mail_only_frame(1) [of d d']
    by (simp add: mail_ok_def)
qed

lemma update_request_ok:
  assumes env: "env_ok env secret_key previous" and ok: "mail_ok env zones d"
    and r: "update_notification_target env d context new nonce k changes = Inr d'" and fresh: "get_secret d new = None"
  shows "mail_ok env zones d'"
proof -
  have t: "targets_ok env d" using ok by (simp add: mail_ok_def)
  obtain t0 where t0: "get_notification_target d k = Some t0"
    using r by (auto simp: update_notification_target_def and_then_eq_Inr)
  then have mem: "t0 \<in> set (db_notification_targets d)" using mail_targets.get_Some by blast
  have "targets_ok env d' \<and> mail_only d d' \<and> keeps_roster d d'"
  proof (cases "nt_kind t0 = ''smtp''")
    case True
    then obtain t' where "update_smtp env d new nonce t0 changes = Inr (d', t')"
      using r t0 by (auto simp: update_notification_target_def and_then_eq_Inr)
    then show ?thesis by (rule update_smtp_ok [OF env t mem fresh])
  next
    case False
    then obtain t' where "update_apprise env d new nonce t0 changes = Inr (d', t')"
      using r t0 by (auto simp: update_notification_target_def and_then_eq_Inr)
    then show ?thesis using update_apprise_ok [OF env t mem False fresh] by blast
  qed
  moreover have "distinct (map nt_id (db_notification_targets d))" using t by (simp add: targets_ok_def)
  ultimately show ?thesis
    using ok references_update [of d d'] policies_ok_table [of d' d zones] mail_only_frame(1) [of d d']
    by (simp add: mail_ok_def)
qed

lemma delete_request_ok:
  assumes ok: "mail_ok env zones d" and r: "delete_notification_target d context k = Inr d'"
  shows "mail_ok env zones d'"
proof -
  obtain t where t: "get_notification_target d k = Some t" and del: "delete_target d t = Inr d'"
    using r by (auto simp: delete_notification_target_def and_then_eq_Inr)
  have mem: "t \<in> set (db_notification_targets d)" using mail_targets.get_Some [OF t] by blast
  have parts: "targets_ok env d" "references_ok d" "policies_ok zones d" using ok by (simp_all add: mail_ok_def)
  note d' = delete_target_ok [OF parts(1) mem del]
  have "db_alert_policies d' = db_alert_policies d" using arg_cong [OF d'(3), of db_alert_policies] by simp
  then show ?thesis using d'(1) references_delete [OF parts(1,2) mem del] parts(3) policies_ok_table [of d' d zones]
    by (simp add: mail_ok_def)
qed

lemma security_request_ok:
  assumes ok: "mail_ok env zones d" and r: "change_security_email_target d context target_id = Inr d'"
  shows "mail_ok env zones d'"
proof -
  have s: "set_security_email_target d target_id = Inr d'"
    using r by (auto simp: change_security_email_target_def and_then_eq_Inr)
  then obtain settings where d': "d' = d\<lparr>db_settings := settings\<rparr>" using set_security_shape by blast
  have doc: "map_of (db_settings d') ''notifications.security_email''
      = Some [(''target_id'', optional_text (map_option uuid_str target_id))]"
    using s by (auto simp: set_security_email_target_def and_then_eq_Inr put_setting_lookup)
  have "security_placed d'"
  proof (cases target_id)
    case None
    then show ?thesis using doc by (simp add: security_placed_def security_email_target_id_def)
  next
    case (Some k)
    obtain t where t: "get_notification_target d k = Some t" "nt_kind t = ''smtp''"
      using s Some by (auto simp: set_security_email_target_def and_then_eq_Inr)
    have mem: "t \<in> set (db_notification_targets d)" "nt_id t = k" using mail_targets.get_Some [OF t(1)] by auto
    then have "k < 2 ^ 128" using ok by (auto simp: mail_ok_def references_ok_def)
    then have "security_email_target_id d' = Some k" using doc Some parse_uuid_str [of k] by (simp add: security_email_target_id_def)
    then show ?thesis using mem t(2) by (auto simp: security_placed_def d')
  qed
  then have "references_ok d'"
    using ok by (simp add: mail_ok_def references_ok_def names_existing_def deliveries_placed_def d')
  then show ?thesis by (intro mail_okI [OF ok]) (simp_all add: d')
qed

lemma mail_request_ok:
  assumes env: "env_ok env secret_key previous" and "mail_request env zones d d'" and ok: "mail_ok env zones d"
  shows "mail_ok env zones d'"
proof -
  have parts: "targets_ok env d" "references_ok d" "policies_ok zones d" using ok by (simp_all add: mail_ok_def)
  then have ids: "distinct (map ap_id (db_alert_policies d))" by (simp add: policies_ok_def)
  from assms(2) show ?thesis
  proof cases
    case (request_create ctx k new nonce body)
    then show ?thesis by (rule create_request_ok [OF env ok])
  next
    case (request_update ctx new nonce k changes)
    then show ?thesis by (rule update_request_ok [OF env ok])
  next
    case (request_delete ctx k)
    then show ?thesis by (rule delete_request_ok [OF ok])
  next
    case (request_security ctx target_id)
    then show ?thesis by (rule security_request_ok [OF ok])
  next
    case (request_policy_create ctx k name enabled severity m a cooldown)
    show ?thesis using policy_requests_references(1) [OF parts(2,3) request_policy_create] parts(1) targets_ok_frame [of d' d env]
      by (simp add: mail_ok_def)
  next
    case (request_policy_update ctx k patch)
    show ?thesis using policy_requests_references(2) [OF parts(2,3) request_policy_update] parts(1) targets_ok_frame [of d' d env]
      by (simp add: mail_ok_def)
  next
    case (request_policy_delete ctx k)
    show ?thesis using policy_requests_references(3) [OF parts(2,3) request_policy_delete] parts(1) targets_ok_frame [of d' d env]
      by (simp add: mail_ok_def)
  next
    case (request_evaluation ids now e raised ks)
    then show ?thesis using evaluation_references [OF parts(2) ids request_evaluation] mail_okI [OF ok] by blast
  next
    case (request_reset km sha key now k delivery_id ident metadata issued)
    then show ?thesis using reset_references [OF parts(2) request_reset] mail_okI [OF ok] by blast
  next
    case (request_claim now k c)
    then show ?thesis using attempts_references(1) [OF parts(2) request_claim] mail_okI [OF ok] by blast
  next
    case (request_outcome now k r result)
    then show ?thesis using attempts_references(2) [OF parts(2) request_outcome] mail_okI [OF ok] by blast
  next
    case (request_rotation nonces rotation health)
    note r = rotation_targets [OF env parts(1) request_rotation]
    then have "references_ok d'"
      using parts(2) security_frame [of d' d] by (intro references_deliveries [OF parts(2)])
        (auto simp: references_ok_def deliveries_placed_def)
    then show ?thesis using r parts(3) policies_ok_table [of d' d zones] by (simp add: mail_ok_def)
  next
    case request_elsewhere
    then show ?thesis using elsewhere_targets [OF parts(1)] elsewhere_references [OF parts(2)] parts(3) policies_ok_table [of d' d zones]
      by (auto simp: mail_ok_def mail_elsewhere_def)
  qed
qed

lemma mail_requests_ok:
  assumes "(mail_request env zones)\<^sup>*\<^sup>* d d'" and "env_ok env secret_key previous" and "mail_ok env zones d"
  shows "mail_ok env zones d'"
  using assms by (induction rule: rtranclp_induct) (auto intro: mail_request_ok)


text \<open>
  C26: Notification targets stay usable. Whatever requests, evaluations, attempts and rotations follow each
  other: an enabled target that has what its kind needs resolves, the target chosen for reset mails can
  carry them and resolves, no secret of a target is left behind, and no delivery, alert policy or default
  of security mail refers to a target that is gone.
\<close>

theorem notification_targets_sound:
  assumes "(mail_request env zones)\<^sup>*\<^sup>* d d'" and "env_ok env secret_key previous"
    and "targets_ok env d" and "references_ok d" and "policies_ok zones d"
  shows "(\<forall>t \<in> set (db_notification_targets d'). nt_enabled t \<and> (nt_kind t = ''smtp'' \<or> nt_secret_ref t \<noteq> None)
      \<longrightarrow> (\<forall>x. \<exists>p. resolve_plan env d' x t = Inr p))
    \<and> (\<forall>t. reset_mail_target d' = Some t \<longrightarrow> carries_resets t \<and> (\<forall>x. \<exists>p. resolve_plan env d' x t = Inr p))
    \<and> (\<forall>r \<in> set (db_secrets d'). sr_owner_type r = ''notification_target''
      \<longrightarrow> (\<exists>t \<in> set (db_notification_targets d'). nt_id t = sr_owner_id r \<and> nt_secret_ref t = Some (sr_id r)))
    \<and> (\<forall>x \<in> set (db_deliveries d'). get_notification_target d' (nd_notification_target_id x) \<noteq> None)
    \<and> (\<forall>p \<in> set (db_alert_policies d'). \<forall>raws. map_of (ap_action_json p) ''notification_target_ids'' = Some (PList raws)
      \<longrightarrow> (\<forall>raw \<in> set raws. \<exists>k. uuid_of_item raw = Inr k \<and> get_notification_target d' k \<noteq> None))
    \<and> (\<forall>k. security_email_target_id d' = Some k \<longrightarrow> (\<exists>t. security_email_target d' = Some t \<and> nt_id t = k))"
proof -
  have "mail_ok env zones d'" using mail_requests_ok [OF assms(1,2)] assms(3-5) by (simp add: mail_ok_def)
  then have ok: "targets_ok env d'" "references_ok d'" by (simp_all add: mail_ok_def)
  show ?thesis
  proof (intro conjI ballI allI impI)
    show "\<exists>p. resolve_plan env d' x t = Inr p"
      if "t \<in> set (db_notification_targets d')" "nt_enabled t \<and> (nt_kind t = ''smtp'' \<or> nt_secret_ref t \<noteq> None)" for t x
      using sound_resolves [OF assms(2) ok(1) that(1)] that(2) by blast
    show "carries_resets t" "\<exists>p. resolve_plan env d' x t = Inr p" if "reset_mail_target d' = Some t" for t x
      using reset_target_resolves [OF assms(2) ok(1) that] by blast+
    show "\<exists>t \<in> set (db_notification_targets d'). nt_id t = sr_owner_id r \<and> nt_secret_ref t = Some (sr_id r)"
      if "r \<in> set (db_secrets d')" "sr_owner_type r = ''notification_target''" for r
      using ok(1) that by (simp add: targets_ok_def)
    show "get_notification_target d' (nd_notification_target_id x) \<noteq> None" if "x \<in> set (db_deliveries d')" for x
      using ok(2) that by (auto simp: references_ok_def deliveries_placed_def mail_targets.get_None_iff)
    show "\<exists>k. uuid_of_item raw = Inr k \<and> get_notification_target d' k \<noteq> None"
      if p: "p \<in> set (db_alert_policies d')" "map_of (ap_action_json p) ''notification_target_ids'' = Some (PList raws)" "raw \<in> set raws"
      for p raws raw
    proof -
      have "names_existing d' p" using ok(2) p(1) by (simp add: references_ok_def)
      then obtain ids where ids: "raws = map (PStr \<circ> uuid_str) ids" "set ids \<subseteq> nt_id ` set (db_notification_targets d')"
        using p(2) by (auto simp: names_existing_def)
      then obtain k where k: "raw = PStr (uuid_str k)" "k \<in> nt_id ` set (db_notification_targets d')"
        using p(3) by (metis comp_apply imageE set_map subsetD)
      then have "k < 2 ^ 128" using ok(2) by (auto simp: references_ok_def)
      then show ?thesis using k by (auto simp: parse_uuid_str mail_targets.get_None_iff)
    qed
    show "\<exists>t. security_email_target d' = Some t \<and> nt_id t = k" if k: "security_email_target_id d' = Some k" for k
    proof -
      obtain t where t: "t \<in> set (db_notification_targets d')" "nt_id t = k" "nt_kind t = ''smtp''"
        using ok(2) k by (auto simp: references_ok_def security_placed_def)
      have "distinct (map nt_id (db_notification_targets d'))" using ok(1) by (simp add: targets_ok_def)
      then have "get_notification_target d' k = Some t" using mail_targets.get_unique [OF _ t(1)] t(2) by simp
      then show ?thesis using k t by (simp add: security_email_target_def get_notification_target_def)
    qed
  qed
qed


text \<open>A webhook is created; it resolves.\<close>

definition example_manager :: auth_context where
  "example_manager = \<lparr>ac_user_id = 8, ac_role_ids = [], ac_permissions = [''notification.manage'']\<rparr>"

definition example_form :: target_form where
  "example_form = \<lparr>nf_name = ''webhook'', nf_kind = ''apprise'', nf_enabled = True,
     nf_config = [(''notify_type'', PStr ''warning'')], nf_url = Some ''json://h'', nf_smtp_credentials = None\<rparr>"

definition example_notified :: db where
  "example_notified = empty_db\<lparr>db_notification_targets := [example_webhook], db_secrets := [example_url ''json://h'']\<rparr>"

lemma example_target_created:
  "create_notification_target example_env empty_db example_manager 1 9 [] example_form = Inr example_notified"
  by (simp add: create_notification_target_def require_permission_def require_def example_manager_def example_form_def or_invalid_def
      create_apprise_def target_name_available_def normalize_apprise_config_def text_or_def apprise_accepts_def example_env_def
      store_secret_def secret_create_json_def secret_create_def encrypt_bytes_def example_retired_def example_crypto_def
      example_codec_def add_secret_def add_target_def empty_db_def example_notified_def example_webhook_def example_url_def
      py_strip_def py_lower_def lower_char_def is_space_def code_of_def Let_def)

lemma notification_targets_sound_witness:
  "\<exists>d'. (mail_request example_env example_zones)\<^sup>*\<^sup>* empty_db d' \<and> example_webhook \<in> set (db_notification_targets d')
     \<and> (\<exists>p. resolve_plan example_env d' example_alert example_webhook = Inr p)"
proof -
  have "mail_request example_env example_zones empty_db example_notified"
    by (rule request_create [OF example_target_created]) (simp_all add: empty_db_def get_secret_def)
  then have run: "(mail_request example_env example_zones)\<^sup>*\<^sup>* empty_db example_notified" by blast
  have "targets_ok example_env empty_db" "references_ok empty_db" "policies_ok example_zones empty_db"
    by (simp_all add: targets_ok_def references_ok_def policies_ok_def deliveries_placed_def security_placed_def
        security_email_target_id_def empty_db_def)
  note sound = notification_targets_sound [OF run example_env_ok this]
  have "example_webhook \<in> set (db_notification_targets example_notified)" by (simp add: example_notified_def)
  moreover have "nt_enabled example_webhook \<and> (nt_kind example_webhook = ''smtp'' \<or> nt_secret_ref example_webhook \<noteq> None)"
    by (simp add: example_webhook_def)
  ultimately show ?thesis using sound run by blast
qed

end
