(* ===== verification/Spec2Isabelle.thy ===== *)
theory Spec2Isabelle
  imports Arbiter Deletion RetentionAdmin Capacity Timeline RateLimit MediaSessions Catalog Continuity CameraScope Exports Administrators AlertWorld
    MailWorld
begin

text \<open>
  Zero NVR (\<open>src/backend/app\<close>) is a network video recorder: a FastAPI service over SQLite that
  lets the ZLMediaKit media server (ZLM) record cameras, catalogues the files it finishes, decides
  when a camera records, how long its footage stays, who may see it, and whom it alerts. This library
  models the logic of those services and proves what makes them correct.

  The parts and how they interact. A camera's policy (\<open>RecordingPolicyService\<close>) says when the
  baseline records and which events count; providers report events (\<open>EventService\<close>), matching ones
  become recording triggers (\<open>RecordingTriggerService\<close>), and the arbiter
  (\<open>RecordingArbiterService\<close>) turns policy, schedule and triggers into the state of the recorder. ZLM
  reports streams (\<open>ZlmContinuityTracker\<close>) and finished files; the catalog
  (\<open>RecordingCatalogService\<close>) turns each file into one segment with one location on the
  target that \<open>recording_resolver.py\<close> resolves. The retention planner
  (\<open>RetentionPlanner\<close>) selects expired copies, the deletion service removes them in three
  steps, protections (\<open>RecordingProtectionService\<close>) keep footage, and the
  reconciliation task combines them with the disk's capacity. The playback timeline reads the segments,
  triggers, events and policies back; exports render pieces of them into files that shares hand out.
  Users, roles, sessions, tokens and password resets say who a request acts for, camera groups and
  scopes what it may reach; the login limiter, the redaction of texts and the media sessions guard the
  boundary. Events raise alerts (\<open>AlertEvaluationService\<close>), alerts and resets queue deliveries to
  notification targets (\<open>NotificationTargetService\<close>), whose URLs and credentials are in the secret store,
  and concurrent workers deliver them (\<open>NotificationDeliveryService\<close>).

  The theories, each with the files under \<open>src/backend/app\<close> it translates:
  \<^item> \<open>Prelude\<close>: errors as values and their sequencing, Python values, texts, instants, half-open
    intervals (\<open>core/errors\<close>, \<open>core/time.py\<close>); \<open>OrderedDict\<close>: Python's insertion ordered
    dictionaries as association lists; \<open>Uuid\<close>: \<open>uuid.UUID(text)\<close> and \<open>str\<close> with their round trip;
    \<open>IsoTime\<close>: \<open>utc_isoformat\<close>; \<open>Urls\<close>: what \<open>urllib.parse\<close> does to the URL of a reset mail.
  \<^item> \<open>Model\<close>: one record per table and the database as the record of its tables (the
    \<open>models.py\<close> files); the locales \<open>keyed_table\<close> (lookup after insertion and update) and
    \<open>overlap_query\<close> (the rows that meet a window), interpreted on every table and query that
    the services use. \<open>Evolution\<close>: tables whose rows only move forward.
  \<^item> \<open>Schedule\<close> (\<open>modules/recordings/policy.py\<close>): validation of schedules and event filters, the
    baseline decision, the next boundary. \<open>Triggers\<close> (\<open>triggers.py\<close>): provider and manual
    triggers, idempotency, overlap queries, pre-roll coverage. \<open>Arbiter\<close> (\<open>arbiter.py\<close>).
  \<^item> \<open>Events\<close> (\<open>modules/events/service.py\<close>) and \<open>SystemEvents\<close> (\<open>system.py\<close>): the event table,
    redelivery, and the intervals of outages and storage health.
  \<^item> \<open>Paths\<close> (\<open>core/fs.py\<close>), \<open>Retention\<close> (\<open>modules/storage/retention.py\<close>): the policy of a
    camera through its groups, deadlines, protections, the paged plan. \<open>Deletion\<close>: the three
    steps of a deletion and their interleaving with new protections. \<open>RetentionAdmin\<close>
    (\<open>retention_admin.py\<close>), \<open>Capacity\<close> (\<open>capacity.py\<close>, \<open>recording_resolver.py\<close>, the
    reconciliation task of \<open>worker/tasks.py\<close>), \<open>Protection\<close> (\<open>protection.py\<close>).
  \<^item> \<open>Catalog\<close> (\<open>catalog.py\<close>), \<open>Continuity\<close> (\<open>integrations/zlm/continuity.py\<close>), \<open>Timeline\<close>
    (\<open>timeline.py\<close>), \<open>Playback\<close> (\<open>playback.py\<close>: the resolver and its agreement with the timeline).
  \<^item> \<open>ExportPlan\<close> and \<open>Exports\<close> (\<open>modules/exports\<close>): the plan of an export, the life of a job
    through worker, cancel and cleanup, its files, and shares with their limits.
  \<^item> \<open>CameraGroups\<close> (\<open>modules/cameras/groups.py\<close>), \<open>CameraScope\<close>
    (\<open>modules/auth/camera_scope.py\<close>, \<open>dependencies.py\<close>), \<open>RateLimit\<close> (\<open>rate_limit.py\<close>),
    \<open>MediaSessions\<close> (\<open>media_sessions.py\<close>), \<open>Redaction\<close> (\<open>core/security/redaction.py\<close>),
    \<open>Signer\<close> (the cookie and token texts of \<open>modules/auth/security.py\<close>).
  \<^item> \<open>Accounts\<close> (\<open>modules/auth/service.py\<close>, \<open>admin_service.py\<close>) and \<open>Tokens\<close>
    (\<open>api_tokens.py\<close>, \<open>password_reset.py\<close>): users, roles, sessions, personal tokens and resets;
    \<open>AccountWorld\<close> and \<open>Administrators\<close>: all requests on them in any order.
  \<^item> \<open>Alerts\<close> (\<open>modules/alerts/service.py\<close>) and \<open>AlertWorld\<close> (the routes, the stream hook, the Frigate
    report and the capacity guard): policies, evaluation, life cycle.
  \<^item> \<open>SecretStore\<close> (\<open>core/security/secret_store.py\<close>), \<open>Targets\<close> and \<open>TargetWorld\<close>
    (\<open>modules/notifications/service.py\<close>, \<open>api.py\<close>), \<open>Delivery\<close> and \<open>DeliveryWorld\<close>
    (\<open>delivery.py\<close>): encrypted secrets and their rotation, notification targets, attempts to deliver and
    the workers that make them; \<open>MailWorld\<close>: all requests on them, with what refers to targets.
  \<^item> This theory: properties that span components.

  What the lemmas show. Every component has the functional behaviour of its operations on each
  branch, errors included, and the invariant of its state; where operations race or repeat, an
  inductive step relation and its reachable states: deletions against protections, requests on
  retention policies, triggers, groups and scopes, accounts and tokens, observations of system events,
  alerts, calls of the media session registry, of the stream tracker and of the catalog, exports with
  their workers, deliveries with theirs, traces of login requests. The retention plan, the timeline,
  the queued deletions and the health intervals refine specifications that do not mention paging,
  painting or the events' rows.

  Bounds. The walk over the groups stops at a repeated group, so its measure is the number of
  groups not yet seen; the schedule looks nine days ahead, enough for every weekly window; the plan
  reads at most the scan limit of candidates, in pages; other recursions are structural. No
  definition takes fuel that the code does not have; the example codec of \<open>SecretStore\<close> reads at most
  as many fields as its text has characters.

  Parameters. What is not under \<open>src/\<close> or is input to a call is an argument: the time zone
  database, clock readings, \<open>uuid4\<close> and \<open>uuid5\<close> values, \<open>expanduser\<close>, \<open>realpath\<close> and \<open>statvfs\<close>,
  the outcome of unlinking a file, remote transfers, renderers, hash functions, MACs and password checks,
  Fernet and JSON texts, normal forms of mail addresses, the check of a URL by Apprise, and whether
  Apprise or an SMTP server accepts a message. A transaction or a call
  under a lock is one step, so operations interleave between calls and, where the code commits
  more than once, between its commits. Texts are ASCII. Timestamps of rows that only listings
  sort by are left out.

  Not modelled, by subsystem: the database layer, settings, logging and the command line; pagination
  and listings, views and schemas of the routes; the audit trail, which no modelled operation reads;
  onboarding, capabilities and live view of cameras, which follow what devices answer; start and stop
  calls to ZLM and the prebuffer; file reconciliation, archive uploads, storage probing, backups and the
  playback cache, which drive files and processes; reports on the system, management of Frigate,
  and the import and export of the configuration; adapters for ONVIF, Frigate, ZLM, ffmpeg,
  rclone, restic, Apprise and SMTP. The manifest lists each with its files and reason.
\<close>

section \<open>Outages and gaps\<close>

text \<open>
  A gap during an outage is explained. When the source of a camera was lost and recovered, every gap
  of the timeline that meets the outage while the camera was due to record is given the reason
  \<open>source_lost\<close>, from the events that the two observations stored.
\<close>

theorem outage_explains_gap:
  assumes "intervals_ok d" and "get_event d k = None"
    and "source_lost d k cam (Aware lost_at) stream app vhost = Inr (d1, e)"
    and "source_recovered d1 cam (Aware recovered_at) stream' app' vhost' = Inr (d2, r)"
    and "rp_enabled p"
    and "rp_baseline_mode p = ''continuous''
      \<or> rp_baseline_mode p = ''schedule'' \<and> baseline_should_record zones p (midpoint start_at end_at) = Inr True"
    and "ev_started_at e < end_at" and "start_at < max (ev_started_at e) recovered_at"
  shows "empty_reason zones d2 cam (Some p) (gap_evidence_events expand realpath d2 cam start_at end_at) start_at end_at
    = Inr ''source_lost''"
proof -
  obtain u where u: "u \<in> set (db_events d2)" "is_source_loss u" "ev_camera_id u = Some cam"
    "ev_started_at u = ev_started_at e" "ev_ended_at u = Some (max (ev_started_at e) recovered_at)"
    using outage_facts [OF assms(1,3,2,4)] by blast
  have "u \<in> set (gap_evidence_events expand realpath d2 cam start_at end_at)"
    using u assms(7,8) by (auto simp: gap_evidence_events_def is_source_loss_def Let_def split: option.split)
  moreover have "meets u start_at end_at" using u assms(7,8) by (simp add: meets_def)
  ultimately have "list_ex (\<lambda>e. is_source_loss e \<and> meets e start_at end_at)
      (gap_evidence_events expand realpath d2 cam start_at end_at)"
    using u(2) by (auto simp: list_ex_iff)
  then show ?thesis using assms(5,6) by (auto simp: empty_reason_def)
qed

text \<open>The camera of the example records continuously; its source is lost from 10 to 25.\<close>

definition example_continuous :: recording_policy where
  "example_continuous = \<lparr>rp_camera_id = 7, rp_baseline_mode = ''continuous'', rp_schedule_json = [],
     rp_schedule_timezone = None, rp_event_recording_enabled = False, rp_event_filter_json = [],
     rp_segment_target_seconds = 60, rp_pre_roll_seconds = 0, rp_post_roll_seconds = 0, rp_storage_target_id = None,
     rp_retention_policy_id = None, rp_enabled = True\<rparr>"

lemma outage_explains_gap_witness:
  "\<exists>d r. source_recovered example_lost 7 (Aware 25) ''s'' ''a'' ''v'' = Inr (d, r)
     \<and> (\<forall>zones. empty_reason zones d 7 (Some example_continuous) (gap_evidence_events id id d 7 20 30) 20 30 = Inr ''source_lost'')"
proof -
  obtain d r where r: "source_recovered example_lost 7 (Aware 25) ''s'' ''a'' ''v'' = Inr (d, r)"
    by (simp add: source_recovered_def example_open require_utc_def Let_def)
  have fresh: "get_event example_events 1 = None" by (simp add: get_event_def example_events_def empty_db_def)
  have "empty_reason zones d 7 (Some example_continuous) (gap_evidence_events id id d 7 20 30) 20 30 = Inr ''source_lost''" for zones
    by (rule outage_explains_gap [OF example_intervals fresh example_loss r [unfolded example_lost_def]])
      (simp_all add: example_continuous_def)
  with r show ?thesis by blast
qed

end
